(* ===== verification/Prelude.thy ===== *)
theory Prelude
  imports
    Main
    "HOL-Library.AList"
    "HOL-Library.Multiset"
    "HOL-Library.List_Lexorder"
    "HOL-Library.Char_ord"
begin

text \<open>
  Shared vocabulary of the development: Go values as HOL types (time, 64-bit integers,
  maps), the interface of a Go map as a locale with its interpretation on association
  lists, and generic lemmas on lists that several components use.
\<close>

named_theorems go_map \<comment> \<open>how lookups see the updates of a map\<close>
named_theorems inv_intro \<comment> \<open>an operation keeps the invariant of its component\<close>

section \<open>Time, durations and 64-bit integers\<close>

text \<open>
  A Go \<open>time.Time\<close> is the number of nanoseconds since January 1 of year 1, which is the
  zero value of the type: \<open>t.IsZero()\<close> is \<open>t = 0\<close>, \<open>After\<close> and \<open>Before\<close> are the order,
  \<open>Add\<close> and \<open>Sub\<close> are addition and subtraction. A \<open>time.Duration\<close> is a signed 64-bit
  count of nanoseconds; where its overflow matters the wrap-around is written with
  \<open>wrap64\<close>.
\<close>

type_synonym time = int
type_synonym duration = int

abbreviation (input) IsZero :: "time \<Rightarrow> bool" where
  "IsZero t \<equiv> t = 0"

abbreviation (input) After :: "time \<Rightarrow> time \<Rightarrow> bool" where
  "After t u \<equiv> u < t"

abbreviation (input) Before :: "time \<Rightarrow> time \<Rightarrow> bool" where
  "Before t u \<equiv> t < u"

definition second :: duration where "second = 1000000000"
definition minute :: duration where "minute = 60 * second"
definition hour :: duration where "hour = 60 * minute"

lemmas duration_defs = second_def minute_def hour_def

definition max_int64 :: int where "max_int64 = 9223372036854775807"
definition min_int64 :: int where "min_int64 = -9223372036854775808"

lemmas int64_defs = max_int64_def min_int64_def

text \<open>The value that a 64-bit two's complement register holds for \<open>z\<close>.\<close>

definition wrap64 :: "int \<Rightarrow> int" where
  "wrap64 z = (z + 9223372036854775808) mod 18446744073709551616 - 9223372036854775808"

lemma wrap64_id: "min_int64 \<le> z \<Longrightarrow> z \<le> max_int64 \<Longrightarrow> wrap64 z = z"
  by (simp add: wrap64_def int64_defs)

lemma wrap64_range: "min_int64 \<le> wrap64 z" "wrap64 z \<le> max_int64"
proof -
  have "0 \<le> (z + 9223372036854775808) mod 18446744073709551616"
    "(z + 9223372036854775808) mod 18446744073709551616 < 18446744073709551616"
    by simp_all
  then show "min_int64 \<le> wrap64 z" "wrap64 z \<le> max_int64"
    by (auto simp: wrap64_def int64_defs)
qed

section \<open>Go maps\<close>

text \<open>
  A Go map is an association list with distinct keys. The order of the list stands for
  the order in which a \<open>range\<close> loop meets the entries, which Go leaves unspecified: a
  statement about every such list covers every order.
\<close>

type_synonym ('k, 'v) gomap = "('k \<times> 'v) list"

definition mget :: "('k, 'v) gomap \<Rightarrow> 'k \<Rightarrow> 'v option" where
  "mget m k = map_of m k"

definition mput :: "'k \<Rightarrow> 'v \<Rightarrow> ('k, 'v) gomap \<Rightarrow> ('k, 'v) gomap" where
  "mput k v m = AList.update k v m"

definition mdel :: "'k \<Rightarrow> ('k, 'v) gomap \<Rightarrow> ('k, 'v) gomap" where
  "mdel k m = AList.delete k m"

definition mwf :: "('k, 'v) gomap \<Rightarrow> bool" where
  "mwf m \<longleftrightarrow> distinct (map fst m)"

definition mgetd :: "'v \<Rightarrow> ('k, 'v) gomap \<Rightarrow> 'k \<Rightarrow> 'v" where
  \<comment> \<open>reading a map without the comma-ok form: the zero value for an absent key\<close>
  "mgetd d m k = (case mget m k of Some v \<Rightarrow> v | None \<Rightarrow> d)"

locale go_dict =
  fixes dict_empty :: "'m"
    and dict_put :: "'k \<Rightarrow> 'v \<Rightarrow> 'm \<Rightarrow> 'm"
    and dict_del :: "'k \<Rightarrow> 'm \<Rightarrow> 'm"
    and dict_get :: "'m \<Rightarrow> 'k \<Rightarrow> 'v option"
    and dict_wf :: "'m \<Rightarrow> bool"
  assumes get_empty: "dict_get dict_empty k = None"
    and get_put: "dict_get (dict_put k v m) l = (if l = k then Some v else dict_get m l)"
    and get_del: "dict_get (dict_del k m) l = (if l = k then None else dict_get m l)"
    and wf_empty: "dict_wf dict_empty"
    and wf_put: "dict_wf m \<Longrightarrow> dict_wf (dict_put k v m)"
    and wf_del: "dict_wf m \<Longrightarrow> dict_wf (dict_del k m)"
begin

lemma get_put_same: "dict_get (dict_put k v m) k = Some v"
  by (simp add: get_put)

lemma get_del_same: "dict_get (dict_del k m) k = None"
  by (simp add: get_del)

lemma get_del_list:
  "dict_get (fold dict_del ks m) l = (if l \<in> set ks then None else dict_get m l)"
  by (induction ks arbitrary: m) (auto simp: get_del)

lemma wf_del_list: "dict_wf m \<Longrightarrow> dict_wf (fold dict_del ks m)"
  by (induction ks arbitrary: m) (auto simp: wf_del)

lemma get_put_list:
  "dict_get (fold (\<lambda>k. dict_put k v) ks m) l = (if l \<in> set ks then Some v else dict_get m l)"
  by (induction ks arbitrary: m) (auto simp: get_put)

lemma wf_put_list: "dict_wf m \<Longrightarrow> dict_wf (fold (\<lambda>k. dict_put k v) ks m)"
  by (induction ks arbitrary: m) (auto simp: wf_put)

end

interpretation gm: go_dict "[]" mput mdel mget mwf
proof unfold_locales
  show "mget (mput k v m) l = (if l = k then Some v else mget m l)" for k l :: 'k and v :: 'v and m
    by (simp add: mget_def mput_def update_conv')
  show "mget (mdel k m) l = (if l = k then None else mget m l)" for k l :: 'k and m :: "('k, 'v) gomap"
    by (simp add: mget_def mdel_def delete_conv')
qed (simp_all add: mget_def mput_def mdel_def mwf_def distinct_update distinct_delete)

declare gm.get_empty [simp] gm.wf_empty [simp]
declare gm.wf_put [inv_intro] gm.wf_del [inv_intro]
declare gm.get_put [go_map] gm.get_del [go_map]

lemma mget_Some_in: "mget m k = Some v \<Longrightarrow> (k, v) \<in> set m"
  by (simp add: mget_def map_of_SomeD)

lemma mget_iff_in: "mwf m \<Longrightarrow> mget m k = Some v \<longleftrightarrow> (k, v) \<in> set m"
  by (simp add: mget_def mwf_def)

lemma mget_None_iff: "mget m k = None \<longleftrightarrow> k \<notin> fst ` set m"
  by (simp add: mget_def map_of_eq_None_iff)

lemma mwf_Nil [simp]: "mwf []"
  by (simp add: mwf_def)

lemma mget_Cons [simp]: "mget ((k, v) # m) l = (if l = k then Some v else mget m l)"
  by (simp add: mget_def)

lemma fst_set_mput [simp]: "fst ` set (mput k v m) = insert k (fst ` set m)"
  by (simp add: mput_def dom_update)

lemma fst_set_mdel [simp]: "fst ` set (mdel k m) = fst ` set m - {k}"
  by (auto simp: mdel_def AList.delete_eq image_iff)

lemma set_mdel_subset: "set (mdel k m) \<subseteq> set m"
  by (auto simp: mdel_def AList.delete_eq)

lemma mput_evals [simp]:
  "mput k v [] = [(k, v)]"
  "mput k v ((l, w) # m) = (if l = k then (k, v) # m else (l, w) # mput k v m)"
  by (simp_all add: mput_def)

lemma set_mput: "set (mput k v m) \<subseteq> insert (k, v) (set m)"
  by (induction m) (auto split: if_splits)

lemma mdel_evals [simp]:
  "mdel k [] = []"
  "mdel k ((l, w) # m) = (if l = k then mdel k m else (l, w) # mdel k m)"
  by (simp_all add: mdel_def AList.delete_eq)

text \<open>Sums over the entries of a map, and maps changed at one key.\<close>

definition msum :: "('k \<Rightarrow> 'v \<Rightarrow> int) \<Rightarrow> ('k, 'v) gomap \<Rightarrow> int" where
  "msum f m = (\<Sum>(k, v) \<leftarrow> m. f k v)"

lemma msum_evals [simp]: "msum f [] = 0" "msum f ((k, v) # m) = f k v + msum f m"
  by (simp_all add: msum_def)

lemma mwf_Cons [simp]: "mwf ((k, v) # m) \<longleftrightarrow> mget m k = None \<and> mwf m"
  by (auto simp: mwf_def mget_None_iff)

lemma msum_mput:
  "mwf m \<Longrightarrow> msum f (mput k v m) = msum f m - (case mget m k of Some w \<Rightarrow> f k w | None \<Rightarrow> 0) + f k v"
  by (induction m) (auto split: option.splits)

lemma mdel_absent: "mget m k = None \<Longrightarrow> mdel k m = m"
  by (induction m) (auto split: if_splits)

lemma mput_same: "mget m k = Some v \<Longrightarrow> mput k v m = m"
  by (induction m) (auto split: if_splits)

lemma msum_mdel:
  "mwf m \<Longrightarrow> msum f (mdel k m) = msum f m - (case mget m k of Some w \<Rightarrow> f k w | None \<Rightarrow> 0)"
  by (induction m) (auto simp: mdel_absent split: option.splits)

lemma msum_cong: "(\<And>k v. (k, v) \<in> set m \<Longrightarrow> f k v = g k v) \<Longrightarrow> msum f m = msum g m"
  by (induction m) auto

lemma msum_mono: "(\<And>k v. (k, v) \<in> set m \<Longrightarrow> f k v \<le> g k v) \<Longrightarrow> msum f m \<le> msum g m"
  by (induction m) (force intro: add_mono)+

lemma msum_nonneg: "(\<And>k v. 0 \<le> f k v) \<Longrightarrow> 0 \<le> msum f m"
  by (induction m) auto

lemma msum_member: "(\<And>k v. 0 \<le> f k v) \<Longrightarrow> mget m k = Some v \<Longrightarrow> f k v \<le> msum f m"
proof (induction m)
  case (Cons e m)
  obtain l w where e: "e = (l, w)" by fastforce
  show ?case
  proof (cases "l = k")
    case True
    then show ?thesis using Cons.prems msum_nonneg [of f m] by (simp add: e)
  next
    case False
    then have "f k v \<le> msum f m" using Cons by (simp add: e)
    then show ?thesis using Cons.prems(1) [of l w] by (simp add: e)
  qed
qed (simp add: mget_def)

lemma msum_pos: "msum f m > 0 \<Longrightarrow> \<exists>k v. (k, v) \<in> set m \<and> f k v > 0"
proof (rule ccontr)
  assume "msum f m > 0" "\<not> ?thesis"
  then have "msum f m \<le> msum (\<lambda>_ _. 0) m" by (intro msum_mono) (auto simp: not_less)
  also have "\<dots> = 0" by (induction m) auto
  finally show False using \<open>msum f m > 0\<close> by simp
qed

lemma msum_set:
  "mwf m \<Longrightarrow> finite A \<Longrightarrow> fst ` set m \<subseteq> A \<Longrightarrow> msum f m = (\<Sum>k\<in>A. case mget m k of Some v \<Rightarrow> f k v | None \<Rightarrow> 0)"
proof (induction m)
  case (Cons e m)
  obtain l w where e: "e = (l, w)" by fastforce
  have "(\<Sum>k\<in>A. case mget ((l, w) # m) k of Some v \<Rightarrow> f k v | None \<Rightarrow> 0)
      = f l w + (\<Sum>k\<in>A - {l}. case mget ((l, w) # m) k of Some v \<Rightarrow> f k v | None \<Rightarrow> 0)"
    using Cons.prems by (simp add: e sum.remove [of A l])
  also have "(\<Sum>k\<in>A - {l}. case mget ((l, w) # m) k of Some v \<Rightarrow> f k v | None \<Rightarrow> 0)
      = (\<Sum>k\<in>A - {l}. case mget m k of Some v \<Rightarrow> f k v | None \<Rightarrow> 0)"
    by (rule sum.cong) auto
  also have "\<dots> = (\<Sum>k\<in>A. case mget m k of Some v \<Rightarrow> f k v | None \<Rightarrow> 0)"
    using Cons.prems by (simp add: e sum.remove [of A l])
  finally show ?case using Cons by (simp add: e)
qed (simp add: mget_def)

lemma msum_eq:
  assumes "mwf m" and "mwf m'"
    and "\<And>k. (case mget m k of Some v \<Rightarrow> f k v | None \<Rightarrow> 0) = (case mget m' k of Some v \<Rightarrow> f k v | None \<Rightarrow> 0)"
  shows "msum f m = msum f m'"
proof -
  let ?A = "fst ` set m \<union> fst ` set m'"
  show ?thesis using msum_set [OF assms(1), of ?A f] msum_set [OF assms(2), of ?A f] assms(3) by simp
qed

definition acts_at :: "'k \<Rightarrow> (('k, 'v) gomap \<Rightarrow> ('k, 'v) gomap) \<Rightarrow> ('v option \<Rightarrow> 'v option) \<Rightarrow> bool" where
  \<comment> \<open>\<open>G\<close> changes a map at the key \<open>k\<close> only, and there by \<open>H\<close>\<close>
  "acts_at k G H \<longleftrightarrow>
     (\<forall>m. (\<forall>l. mget (G m) l = (if l = k then H (mget m k) else mget m l)) \<and> (mwf m \<longrightarrow> mwf (G m)))"

lemma acts_at_id: "acts_at k (\<lambda>m. m) (\<lambda>e. e)"
  by (simp add: acts_at_def)

lemma acts_at_funpow: "acts_at k G H \<Longrightarrow> acts_at k (G ^^ n) (H ^^ n)"
  by (induction n) (auto simp: acts_at_def)

lemma acts_at_fold:
  assumes "\<And>x. x \<in> set xs \<Longrightarrow> acts_at (h x) (G x) (H x)" and "distinct (map h xs)"
  shows "mget (fold G xs m) k = (case find (\<lambda>x. h x = k) xs of Some x \<Rightarrow> H x (mget m k) | None \<Rightarrow> mget m k)"
    and "mwf m \<Longrightarrow> mwf (fold G xs m)"
proof -
  show "mget (fold G xs m) k = (case find (\<lambda>x. h x = k) xs of Some x \<Rightarrow> H x (mget m k) | None \<Rightarrow> mget m k)"
    using assms
  proof (induction xs arbitrary: m)
    case (Cons x xs)
    have a: "acts_at (h x) (G x) (H x)" using Cons.prems(1) by simp
    have "find (\<lambda>y. h y = h x) xs = None" using Cons.prems(2) by (auto simp: find_None_iff) (metis imageI)
    moreover have "mget (fold G xs (G x m)) k
        = (case find (\<lambda>x. h x = k) xs of Some y \<Rightarrow> H y (mget (G x m) k) | None \<Rightarrow> mget (G x m) k)"
      using Cons by simp
    ultimately show ?case using a by (auto simp: acts_at_def split: option.split)
  qed simp
  show "mwf m \<Longrightarrow> mwf (fold G xs m)" using assms(1) by (induction xs arbitrary: m) (auto simp: acts_at_def)
qed

lemma acts_at_fold_count:
  assumes "\<And>x. x \<in> set xs \<Longrightarrow> acts_at x (G x) (H x)"
  shows "mget (fold G xs m) k = (H k ^^ count_list xs k) (mget m k)" and "mwf m \<Longrightarrow> mwf (fold G xs m)"
proof -
  show "mget (fold G xs m) k = (H k ^^ count_list xs k) (mget m k)"
    using assms
  proof (induction xs arbitrary: m)
    case (Cons x xs)
    then have "acts_at x (G x) (H x)" by simp
    then show ?case using Cons by (auto simp: acts_at_def funpow_swap1)
  qed simp
  show "mwf m \<Longrightarrow> mwf (fold G xs m)" using assms by (induction xs arbitrary: m) (auto simp: acts_at_def)
qed

section \<open>Results\<close>

text \<open>
  A call that may fail returns \<open>Inl\<close> of its error or \<open>Inr\<close> of its value; \<open>result_bind\<close>
  is the \<open>if err != nil { return err }\<close> that follows such a call.
\<close>

definition result_bind :: "'e + 'a \<Rightarrow> ('a \<Rightarrow> 'e + 'b) \<Rightarrow> 'e + 'b" where
  "result_bind r f = (case r of Inl e \<Rightarrow> Inl e | Inr x \<Rightarrow> f x)"

lemma result_bind_simps [simp]:
  "result_bind (Inl e) f = Inl e" "result_bind (Inr x) f = f x"
  by (simp_all add: result_bind_def)

lemma result_bind_Inr: "result_bind r f = Inr y \<longleftrightarrow> (\<exists>x. r = Inr x \<and> f x = Inr y)"
  by (cases r) simp_all

lemma result_bind_Inl: "result_bind r f = Inl e \<longleftrightarrow> r = Inl e \<or> (\<exists>x. r = Inr x \<and> f x = Inl e)"
  by (cases r) simp_all

section \<open>Lists\<close>

text \<open>
  \<open>sort.Slice\<close> with a strict order on a key: the library's sort by that key. The Go sort is
  not stable, so the models use it only where the keys of distinct entries differ or where
  the order of equal keys does not matter.
\<close>

lemma filter_hd_mem: "filter P xs = y # ys \<Longrightarrow> y \<in> set xs \<and> P y"
  by (auto simp: filter_eq_Cons_iff)

lemma fold_keeps: "(\<And>x m. x \<in> set xs \<Longrightarrow> P m \<Longrightarrow> P (G x m)) \<Longrightarrow> P m \<Longrightarrow> P (fold G xs m)"
  by (induction xs arbitrary: m) auto

lemma funpow_keeps: "(\<And>m. P m \<Longrightarrow> P (G m)) \<Longrightarrow> P m \<Longrightarrow> P ((G ^^ n) m)"
  by (induction n) auto

lemma find_Some_iff_mem: "find P xs = Some x \<Longrightarrow> x \<in> set xs \<and> P x"
  by (auto simp: find_Some_iff)

lemma map_filter_fst_distinct:
  "distinct (map fst m) \<Longrightarrow> distinct (map fst (filter P m))"
  by (induction m) auto

lemma sum_list_map_filter_le:
  fixes f :: "'a \<Rightarrow> nat"
  shows "sum_list (map f (filter P xs)) \<le> sum_list (map f xs)"
  by (induction xs) auto

section \<open>\<open>sort.Search\<close>\<close>

text \<open>
  The binary search of Go's \<open>sort\<close> package on the interval from \<open>i\<close> to \<open>j\<close>, and its contract: for a
  predicate that stays true once it is true, the least index at which it holds.
\<close>

function search_between :: "nat \<Rightarrow> nat \<Rightarrow> (nat \<Rightarrow> bool) \<Rightarrow> nat" where
  "search_between i j f =
     (if i < j then (let h = (i + j) div 2 in
        if \<not> f h then search_between (h + 1) j f else search_between i h f)
      else i)"
  by pat_completeness auto

termination search_between
  by (relation "measure (\<lambda>(i, j, f). j - i)") (auto simp: Let_def)

declare search_between.simps [simp del]

definition sort_Search :: "nat \<Rightarrow> (nat \<Rightarrow> bool) \<Rightarrow> nat" where
  "sort_Search n f = search_between 0 n f"

lemma search_between_least:
  assumes "i \<le> j" and "\<And>a b. a \<le> b \<Longrightarrow> b < j \<Longrightarrow> f a \<Longrightarrow> f b"
    and "\<forall>k < i. \<not> f k"
  shows "search_between i j f \<le> j \<and> (\<forall>k < search_between i j f. \<not> f k)
    \<and> (search_between i j f < j \<longrightarrow> f (search_between i j f))"
  using assms
proof (induction i j f rule: search_between.induct)
  case (1 i j f)
  show ?case
  proof (cases "i < j")
    case True
    define h where "h = (i + j) div 2"
    have h: "i \<le> h" "h < j" using True by (auto simp: h_def)
    show ?thesis
    proof (cases "f h")
      case False
      have no: "\<forall>k < h + 1. \<not> f k" using 1(4) False h(2) by (metis less_Suc_eq_le Suc_eq_plus1)
      from 1(1) [OF True h_def False _ 1(4) no] show ?thesis using True False h
        by (simp add: search_between.simps [of i j] h_def [symmetric])
    next
      case f: True
      have mono: "f a \<Longrightarrow> f b" if "a \<le> b" "b < h" for a b using 1(4) that h(2) by (meson less_trans)
      have ih: "search_between i h f \<le> h \<and> (\<forall>k < search_between i h f. \<not> f k)
          \<and> (search_between i h f < h \<longrightarrow> f (search_between i h f))"
        using 1(2) [OF True h_def _ h(1)] mono 1(5) f by blast
      have "search_between i j f = search_between i h f"
        using True f by (simp add: search_between.simps [of i j] h_def [symmetric])
      moreover have "f (search_between i h f)"
        using ih f by (cases "search_between i h f = h") auto
      ultimately show ?thesis using ih h(2) by simp
    qed
  next
    case False
    then have "search_between i j f = i" by (simp add: search_between.simps [of i j])
    then show ?thesis using 1(3,5) False by simp
  qed
qed

lemma sort_Search_least:
  assumes "\<And>a b. a \<le> b \<Longrightarrow> b < n \<Longrightarrow> f a \<Longrightarrow> f b"
  shows "sort_Search n f \<le> n \<and> (\<forall>k < sort_Search n f. \<not> f k) \<and> (sort_Search n f < n \<longrightarrow> f (sort_Search n f))"
  unfolding sort_Search_def using search_between_least [of 0 n f] assms by simp

end
