(* ===== verification/Thinking.thy ===== *)
theory Thinking
  imports GoString "HOL-Library.Signed_Division"
begin

text \<open>
  The types, the level/budget conversions and the suffix parser of \<open>internal/thinking\<close>
  (\<open>types.go\<close>, \<open>errors.go\<close>, \<open>convert.go\<close>, \<open>suffix.go\<close>) and the \<open>ModelInfo\<close> of
  \<open>internal/registry\<close> they read. A pair \<open>(value, ok)\<close> of the code is an option, a nil
  pointer is \<open>None\<close>.
\<close>

section \<open>Model metadata\<close>

record ThinkingSupport =
  ts_Min :: int
  ts_Max :: int
  ts_ZeroAllowed :: bool
  ts_DynamicAllowed :: bool
  ts_Levels :: "string list"

record ModelConfig =
  mc_OverrideHeader :: "(string, string) gomap"

record ModelInfo =
  mi_ID :: string
  mi_Object :: string
  mi_Created :: int
  mi_OwnedBy :: string
  mi_Type :: string
  mi_DisplayName :: string
  mi_Name :: string
  mi_Version :: string
  mi_Description :: string
  mi_InputTokenLimit :: int
  mi_OutputTokenLimit :: int
  mi_SupportedGenerationMethods :: "string list"
  mi_ContextLength :: int
  mi_MaxContextLength :: int
  mi_MaxCompletionTokens :: int
  mi_SupportedParameters :: "string list"
  mi_SupportedInputModalities :: "string list"
  mi_SupportedOutputModalities :: "string list"
  mi_SupportsWebSearch :: bool
  mi_Thinking :: "ThinkingSupport option"
  mi_Config :: "ModelConfig option"
  mi_UserDefined :: bool
  mi_IsCompat :: bool

definition zeroModelInfo :: ModelInfo where
  "zeroModelInfo =
     \<lparr>mi_ID = [], mi_Object = [], mi_Created = 0, mi_OwnedBy = [], mi_Type = [], mi_DisplayName = [], mi_Name = [],
      mi_Version = [], mi_Description = [], mi_InputTokenLimit = 0, mi_OutputTokenLimit = 0,
      mi_SupportedGenerationMethods = [], mi_ContextLength = 0, mi_MaxContextLength = 0, mi_MaxCompletionTokens = 0,
      mi_SupportedParameters = [], mi_SupportedInputModalities = [], mi_SupportedOutputModalities = [],
      mi_SupportsWebSearch = False, mi_Thinking = None, mi_Config = None, mi_UserDefined = False,
      mi_IsCompat = False\<rparr>"

section \<open>Types and errors\<close>

datatype ThinkingMode = ModeBudget | ModeLevel | ModeNone | ModeAuto

fun ThinkingMode_String :: "ThinkingMode \<Rightarrow> string" where
  "ThinkingMode_String ModeBudget = ''budget''"
| "ThinkingMode_String ModeLevel = ''level''"
| "ThinkingMode_String ModeNone = ''none''"
| "ThinkingMode_String ModeAuto = ''auto''"

type_synonym ThinkingLevel = string

definition LevelNone :: ThinkingLevel where "LevelNone = ''none''"
definition LevelAuto :: ThinkingLevel where "LevelAuto = ''auto''"
definition LevelMinimal :: ThinkingLevel where "LevelMinimal = ''minimal''"
definition LevelLow :: ThinkingLevel where "LevelLow = ''low''"
definition LevelMedium :: ThinkingLevel where "LevelMedium = ''medium''"
definition LevelHigh :: ThinkingLevel where "LevelHigh = ''high''"
definition LevelXHigh :: ThinkingLevel where "LevelXHigh = ''xhigh''"
definition LevelMax :: ThinkingLevel where "LevelMax = ''max''"

lemmas level_defs =
  LevelNone_def LevelAuto_def LevelMinimal_def LevelLow_def LevelMedium_def LevelHigh_def
  LevelXHigh_def LevelMax_def

record ThinkingConfig =
  tc_Mode :: ThinkingMode
  tc_Budget :: int
  tc_Level :: ThinkingLevel

record SuffixResult =
  sr_ModelName :: string
  sr_HasSuffix :: bool
  sr_RawSuffix :: string

datatype ErrorCode =
  ErrInvalidSuffix | ErrUnknownLevel | ErrThinkingNotSupported | ErrLevelNotSupported
  | ErrBudgetOutOfRange | ErrProviderMismatch

record ThinkingError =
  te_Code :: ErrorCode
  te_Message :: string
  te_Model :: string

definition NewThinkingError :: "ErrorCode \<Rightarrow> string \<Rightarrow> ThinkingError" where
  "NewThinkingError code message = \<lparr>te_Code = code, te_Message = message, te_Model = []\<rparr>"

definition NewThinkingErrorWithModel :: "ErrorCode \<Rightarrow> string \<Rightarrow> string \<Rightarrow> ThinkingError" where
  "NewThinkingErrorWithModel code message model =
     \<lparr>te_Code = code, te_Message = message, te_Model = model\<rparr>"

definition ThinkingError_StatusCode :: "ThinkingError \<Rightarrow> int" where
  "ThinkingError_StatusCode e = 400"

section \<open>convert.go\<close>

definition levelToBudgetMap :: "(string, int) gomap" where
  "levelToBudgetMap =
     [(''none'', 0), (''auto'', -1), (''minimal'', 512), (''low'', 1024), (''medium'', 8192),
      (''high'', 24576), (''xhigh'', 32768), (''max'', 128000)]"

definition ConvertLevelToBudget :: "string \<Rightarrow> int option" where
  "ConvertLevelToBudget level = mget levelToBudgetMap (ToLower level)"

definition ThresholdMinimal :: int where "ThresholdMinimal = 512"
definition ThresholdLow :: int where "ThresholdLow = 1024"
definition ThresholdMedium :: int where "ThresholdMedium = 8192"
definition ThresholdHigh :: int where "ThresholdHigh = 24576"

lemmas threshold_defs =
  ThresholdMinimal_def ThresholdLow_def ThresholdMedium_def ThresholdHigh_def

definition ConvertBudgetToLevel :: "int \<Rightarrow> string option" where
  "ConvertBudgetToLevel budget =
     (if budget < -1 then None
      else if budget = -1 then Some LevelAuto
      else if budget = 0 then Some LevelNone
      else if budget \<le> ThresholdMinimal then Some LevelMinimal
      else if budget \<le> ThresholdLow then Some LevelLow
      else if budget \<le> ThresholdMedium then Some LevelMedium
      else if budget \<le> ThresholdHigh then Some LevelHigh
      else Some LevelXHigh)"

definition HasLevel :: "string list \<Rightarrow> string \<Rightarrow> bool" where
  "HasLevel levels target \<longleftrightarrow> list_ex (\<lambda>level. EqualFold (TrimSpace level) target) levels"

definition MapToClaudeEffort :: "string \<Rightarrow> bool \<Rightarrow> string option" where
  "MapToClaudeEffort level0 supportsMax =
     (let level = ToLower (TrimSpace level0) in
      if level = [] then None
      else if level = ''minimal'' then Some ''low''
      else if level = ''low'' \<or> level = ''medium'' \<or> level = ''high'' then Some level
      else if level = ''xhigh'' \<or> level = ''max'' then
        (if supportsMax then Some ''max'' else Some ''high'')
      else if level = ''auto'' then Some ''high''
      else None)"

datatype ModelCapability =
  CapabilityUnknown | CapabilityNone | CapabilityBudgetOnly | CapabilityLevelOnly | CapabilityHybrid

definition detectModelCapability :: "ModelInfo option \<Rightarrow> ModelCapability" where
  "detectModelCapability modelInfo =
     (case modelInfo of None \<Rightarrow> CapabilityUnknown
      | Some mi \<Rightarrow>
        (case mi_Thinking mi of None \<Rightarrow> CapabilityNone
         | Some support \<Rightarrow>
           (let hasBudget = ts_Min support > 0 \<or> ts_Max support > 0;
                hasLevels = length (ts_Levels support) > 0
            in if hasBudget \<and> hasLevels then CapabilityHybrid
               else if hasBudget then CapabilityBudgetOnly
               else if hasLevels then CapabilityLevelOnly
               else CapabilityNone)))"

section \<open>suffix.go\<close>

definition ParseSuffix :: "string \<Rightarrow> SuffixResult" where
  "ParseSuffix model =
     (case LastIndexByte model CHR ''('' of
        None \<Rightarrow> \<lparr>sr_ModelName = model, sr_HasSuffix = False, sr_RawSuffix = []\<rparr>
      | Some lastOpen \<Rightarrow>
          if \<not> HasSuffix model '')''
          then \<lparr>sr_ModelName = model, sr_HasSuffix = False, sr_RawSuffix = []\<rparr>
          else \<lparr>sr_ModelName = take lastOpen model, sr_HasSuffix = True,
                sr_RawSuffix = drop (lastOpen + 1) (take (length model - 1) model)\<rparr>)"

definition ParseNumericSuffix :: "string \<Rightarrow> int option" where
  "ParseNumericSuffix rawSuffix =
     (if rawSuffix = [] then None
      else case Atoi rawSuffix of
          None \<Rightarrow> None
        | Some value \<Rightarrow> if value < 0 then None else Some value)"

definition ParseSpecialSuffix :: "string \<Rightarrow> ThinkingMode option" where
  "ParseSpecialSuffix rawSuffix =
     (if rawSuffix = [] then None
      else if ToLower rawSuffix = ''none'' then Some ModeNone
      else if ToLower rawSuffix = ''auto'' \<or> ToLower rawSuffix = ''-1'' then Some ModeAuto
      else None)"

definition ParseLevelSuffix :: "string \<Rightarrow> ThinkingLevel option" where
  "ParseLevelSuffix rawSuffix =
     (if rawSuffix = [] then None
      else (let s = ToLower rawSuffix in
        if s = ''minimal'' then Some LevelMinimal
        else if s = ''low'' then Some LevelLow
        else if s = ''medium'' then Some LevelMedium
        else if s = ''high'' then Some LevelHigh
        else if s = ''xhigh'' then Some LevelXHigh
        else if s = ''max'' then Some LevelMax
        else None))"

section \<open>The key of a model: \<open>canonicalModelKey\<close> of \<open>sdk/cliproxy/auth/selector.go\<close>\<close>

definition canonicalModelKey :: "string \<Rightarrow> string" where
  "canonicalModelKey model0 =
     (let model = TrimSpace model0 in
      if model = [] then []
      else (let modelName = TrimSpace (sr_ModelName (ParseSuffix model)) in
        if modelName = [] then model else modelName))"

section \<open>Laws\<close>

lemma HasSuffix_single: "HasSuffix s [c] \<longleftrightarrow> s \<noteq> [] \<and> last s = c"
  by (cases s rule: rev_cases) (auto simp: HasSuffix_def)

lemma ParseSuffix_no_paren:
  "CHR ''('' \<notin> set model \<Longrightarrow> ParseSuffix model = \<lparr>sr_ModelName = model, sr_HasSuffix = False, sr_RawSuffix = []\<rparr>"
  by (simp add: ParseSuffix_def LastIndexByte_None [THEN iffD2])

lemma ParseSuffix_append:
  assumes "CHR ''('' \<notin> set suf"
  shows "ParseSuffix (name @ ''('' @ suf @ '')'') =
    \<lparr>sr_ModelName = name, sr_HasSuffix = True, sr_RawSuffix = suf\<rparr>"
proof -
  have "LastIndexByte (name @ CHR ''('' # (suf @ '')'')) CHR ''('' = Some (length name)"
    using assms by (intro LastIndexByte_append) simp
  moreover have "HasSuffix (name @ ''('' @ suf @ '')'') '')''" by (simp add: HasSuffix_single)
  ultimately show ?thesis by (simp add: ParseSuffix_def)
qed

lemma LastIndexByte_Some:
  assumes "LastIndexByte s c = Some i"
  shows "i < length s \<and> s ! i = c \<and> c \<notin> set (drop (Suc i) s)"
proof -
  from assms obtain j where j: "IndexByte (rev s) c = Some j" and i: "i = length s - 1 - j"
    by (auto simp: LastIndexByte_def)
  from IndexByte_Some [OF j] have "j < length s" "rev s ! j = c" "c \<notin> set (take j (rev s))"
    by auto
  then show ?thesis using i by (auto simp: rev_nth take_rev Suc_diff_Suc)
qed

lemma ParseSuffix_sound:
  assumes "sr_HasSuffix (ParseSuffix model)"
  shows "model = sr_ModelName (ParseSuffix model) @ ''('' @ sr_RawSuffix (ParseSuffix model) @ '')''
    \<and> CHR ''('' \<notin> set (sr_RawSuffix (ParseSuffix model))"
proof -
  from assms obtain i where i: "LastIndexByte model CHR ''('' = Some i" and
    suf: "HasSuffix model '')''"
    by (auto simp: ParseSuffix_def split: option.splits if_splits)
  from LastIndexByte_Some [OF i] have lt: "i < length model" and at: "model ! i = CHR ''(''"
    and no: "CHR ''('' \<notin> set (drop (Suc i) model)" by auto
  from suf have ne: "model \<noteq> []" and last: "last model = CHR '')''" by (auto simp: HasSuffix_single)
  define body where "body = drop (Suc i) model"
  have split: "model = take i model @ CHR ''('' # body"
    using id_take_nth_drop [OF lt] at by (simp add: body_def)
  have bne: "body \<noteq> []"
  proof
    assume "body = []"
    with split have "last model = CHR ''(''" by (metis last_snoc)
    with last show False by simp
  qed
  have blast: "last body = CHR '')''" using last split bne by (metis last_ConsR last_append list.discI)
  have raw: "drop (i + 1) (take (length model - 1) model) = butlast body"
    by (simp add: body_def butlast_conv_take drop_take)
  have "set (butlast body) \<subseteq> set body" by (auto dest: in_set_butlastD)
  moreover have "body = butlast body @ '')''" using bne blast by (metis append_butlast_last_id)
  ultimately show ?thesis using i suf split no raw
    by (auto simp: ParseSuffix_def body_def)
qed

lemma canonicalModelKey_Nil [simp]: "canonicalModelKey [] = []"
  by (simp add: canonicalModelKey_def)

lemma canonicalModelKey_eq_Nil: "canonicalModelKey m = [] \<longleftrightarrow> TrimSpace m = []"
  by (auto simp: canonicalModelKey_def Let_def)

lemma TrimSpace_canonical [simp, go_string]: "TrimSpace (canonicalModelKey m) = canonicalModelKey m"
  by (simp add: canonicalModelKey_def Let_def)

lemma canonical_no_paren: "CHR ''('' \<notin> set m \<Longrightarrow> canonicalModelKey m = TrimSpace m"
proof -
  assume a: "CHR ''('' \<notin> set m"
  have "set (TrimLeft s) \<subseteq> set s" for s by (auto simp: TrimLeft_def dest: set_dropWhileD)
  then have "set (TrimSpace m) \<subseteq> set m" by (metis TrimSpace_def order_trans set_rev)
  with a have "CHR ''('' \<notin> set (TrimSpace m)" by auto
  then show ?thesis by (simp add: canonicalModelKey_def Let_def ParseSuffix_no_paren)
qed

lemma ConvertLevelToBudget_range:
  "ConvertLevelToBudget l = Some b \<Longrightarrow> -1 \<le> b \<and> b \<le> 128000"
  by (auto simp: ConvertLevelToBudget_def levelToBudgetMap_def split: if_splits)

end
