(* ===== verification/ThinkingValidate.thy ===== *)
theory ThinkingValidate
  imports Thinking
begin

text \<open>
  \<open>internal/thinking/validate.go\<close>: checking a thinking configuration against a model's
  capabilities. \<open>ValidateConfig\<close> is the composition of its stages in the code's order; each
  stage is a definition of its own. The debug logging is left out.
\<close>

section \<open>Text of the messages\<close>

text \<open>\<open>%q\<close> of \<open>fmt.Sprintf\<close>: the Go string literal of a byte string.\<close>

definition hex_digit :: "nat \<Rightarrow> char" where
  "hex_digit d = (if d < 10 then char_of (48 + d) else char_of (87 + d))"

definition quote_char :: "char \<Rightarrow> string" where
  "quote_char c =
     (if byte c = 34 \<or> byte c = 92 then [CHR 92, c]
      else if 32 \<le> byte c \<and> byte c < 127 then [c]
      else if byte c = 7 then [CHR 92, CHR ''a'']
      else if byte c = 8 then [CHR 92, CHR ''b'']
      else if byte c = 12 then [CHR 92, CHR ''f'']
      else if byte c = 10 then [CHR 92, CHR ''n'']
      else if byte c = 13 then [CHR 92, CHR ''r'']
      else if byte c = 9 then [CHR 92, CHR ''t'']
      else if byte c = 11 then [CHR 92, CHR ''v'']
      else [CHR 92, CHR ''x'', hex_digit (byte c div 16), hex_digit (byte c mod 16)])"

definition Quote :: "string \<Rightarrow> string" where
  "Quote s = [CHR 34] @ concat (map quote_char s) @ [CHR 34]"

section \<open>Provider families and level lookup\<close>

definition isBudgetCapableProvider :: "string \<Rightarrow> bool" where
  "isBudgetCapableProvider provider \<longleftrightarrow> provider \<in> {''gemini'', ''antigravity'', ''claude''}"

definition isGeminiFamily :: "string \<Rightarrow> bool" where
  "isGeminiFamily provider \<longleftrightarrow> provider \<in> {''gemini'', ''antigravity''}"

definition isOpenAIFamily :: "string \<Rightarrow> bool" where
  "isOpenAIFamily provider \<longleftrightarrow> provider \<in> {''openai'', ''openai-response'', ''codex''}"

definition isSameProviderFamily :: "string \<Rightarrow> string \<Rightarrow> bool" where
  "isSameProviderFamily from to \<longleftrightarrow>
     from = to \<or> (isGeminiFamily from \<and> isGeminiFamily to) \<or> (isOpenAIFamily from \<and> isOpenAIFamily to)"

definition standardLevelOrder :: "ThinkingLevel list" where
  "standardLevelOrder = [LevelMinimal, LevelLow, LevelMedium, LevelHigh, LevelXHigh, LevelMax]"

definition isLevelSupported :: "string \<Rightarrow> string list \<Rightarrow> bool" where
  "isLevelSupported level supported \<longleftrightarrow> list_ex (\<lambda>s. EqualFold level (TrimSpace s)) supported"

fun levelIndex_from :: "int \<Rightarrow> ThinkingLevel list \<Rightarrow> string \<Rightarrow> int" where
  "levelIndex_from i [] level = -1"
| "levelIndex_from i (l # ls) level = (if EqualFold level l then i else levelIndex_from (i + 1) ls level)"

definition levelIndex :: "string \<Rightarrow> int" where
  "levelIndex level = levelIndex_from 0 standardLevelOrder level"

definition normalizeLevels :: "string list \<Rightarrow> string list" where
  "normalizeLevels levels = map (\<lambda>l. ToLower (TrimSpace l)) levels"

section \<open>Clamping\<close>

definition clampLevel_step :: "int \<Rightarrow> string \<Rightarrow> int \<times> int \<Rightarrow> int \<times> int" where
  "clampLevel_step pos s best =
     (let idx = levelIndex (TrimSpace s) in
      if idx \<noteq> -1 then
        (let dist = \<bar>pos - idx\<bar> in
         if dist < snd best \<or> (dist = snd best \<and> idx < fst best) then (idx, dist) else best)
      else best)"

definition clampLevel :: "ThinkingLevel \<Rightarrow> ModelInfo option \<Rightarrow> ThinkingLevel" where
  "clampLevel level modelInfo =
     (let supported =
        (case modelInfo of None \<Rightarrow> []
         | Some mi \<Rightarrow> (case mi_Thinking mi of None \<Rightarrow> [] | Some t \<Rightarrow> ts_Levels t))
      in if length supported = 0 \<or> isLevelSupported level supported then level
         else (let pos = levelIndex level in
           if pos = -1 then level
           else (let bestIdx = fst (fold (clampLevel_step pos) supported
                                      (-1, int (length standardLevelOrder) + 1))
             in if bestIdx \<ge> 0 then standardLevelOrder ! nat bestIdx else level)))"

definition clampBudget :: "int \<Rightarrow> ModelInfo option \<Rightarrow> int" where
  "clampBudget value modelInfo =
     (case (case modelInfo of None \<Rightarrow> None | Some mi \<Rightarrow> mi_Thinking mi) of
        None \<Rightarrow> value
      | Some support \<Rightarrow>
          if value = -1 then value
          else (let mn = ts_Min support; mx = ts_Max support in
            if value = 0 \<and> \<not> ts_ZeroAllowed support then mn
            else if mn = 0 \<and> mx = 0 then value
            else if value < mn then (if value = 0 \<and> ts_ZeroAllowed support then 0 else mn)
            else if value > mx then mx
            else value))"

definition convertAutoToMidRange :: "ThinkingConfig \<Rightarrow> ThinkingSupport \<Rightarrow> ThinkingConfig" where
  "convertAutoToMidRange config support =
     (if length (ts_Levels support) > 0 \<and> ts_Min support = 0 \<and> ts_Max support = 0
      then config\<lparr>tc_Mode := ModeLevel, tc_Level := LevelMedium, tc_Budget := 0\<rparr>
      else (let mid = wrap64 (ts_Min support + ts_Max support) sdiv 2 in
        if mid \<le> 0 \<and> ts_ZeroAllowed support then config\<lparr>tc_Mode := ModeNone, tc_Budget := 0\<rparr>
        else if mid \<le> 0 then config\<lparr>tc_Mode := ModeBudget, tc_Budget := ts_Min support\<rparr>
        else config\<lparr>tc_Mode := ModeBudget, tc_Budget := mid\<rparr>))"

section \<open>ValidateConfig\<close>

definition vc_modelFamilyMismatch :: "ModelInfo \<Rightarrow> string \<Rightarrow> string \<Rightarrow> bool" where
  "vc_modelFamilyMismatch mi from to =
     (let modelType = ToLower (TrimSpace (mi_Type mi)) in
      modelType \<noteq> [] \<and>
      ((from \<noteq> [] \<and> \<not> isSameProviderFamily from modelType) \<or>
       (to \<noteq> [] \<and> \<not> isSameProviderFamily to modelType)))"

text \<open>Level to budget or budget to level; the flag is \<open>budgetDerivedFromLevel\<close>.\<close>

definition vc_convert :: "ModelInfo \<Rightarrow> ThinkingConfig \<Rightarrow> ThinkingError + (ThinkingConfig \<times> bool)" where
  "vc_convert mi config =
     (case detectModelCapability (Some mi) of
        CapabilityBudgetOnly \<Rightarrow>
          if tc_Mode config = ModeLevel then
            (if tc_Level config = LevelAuto then Inr (config, False)
             else case ConvertLevelToBudget (tc_Level config) of
                 None \<Rightarrow> Inl (NewThinkingError ErrUnknownLevel (''unknown level: '' @ tc_Level config))
               | Some budget \<Rightarrow>
                   Inr (config\<lparr>tc_Mode := ModeBudget, tc_Budget := budget, tc_Level := []\<rparr>, True))
          else Inr (config, False)
      | CapabilityLevelOnly \<Rightarrow>
          if tc_Mode config = ModeBudget then
            (case ConvertBudgetToLevel (tc_Budget config) of
               None \<Rightarrow> Inl (NewThinkingError ErrUnknownLevel
                        (''budget '' @ FormatInt (tc_Budget config) @ '' cannot be converted to a valid level''))
             | Some level \<Rightarrow>
                 Inr (config\<lparr>tc_Mode := ModeLevel, tc_Level := clampLevel level (Some mi), tc_Budget := 0\<rparr>,
                      False))
          else Inr (config, False)
      | _ \<Rightarrow> Inr (config, False))"

text \<open>The special levels and the zero budget become modes.\<close>

definition vc_normalize :: "ThinkingConfig \<Rightarrow> ThinkingConfig" where
  "vc_normalize c0 =
     (let c1 = (if tc_Mode c0 = ModeLevel \<and> tc_Level c0 = LevelNone
                then c0\<lparr>tc_Mode := ModeNone, tc_Budget := 0, tc_Level := []\<rparr> else c0);
          c2 = (if tc_Mode c1 = ModeLevel \<and> tc_Level c1 = LevelAuto
                then c1\<lparr>tc_Mode := ModeAuto, tc_Budget := -1, tc_Level := []\<rparr> else c1)
      in if tc_Mode c2 = ModeBudget \<and> tc_Budget c2 = 0
         then c2\<lparr>tc_Mode := ModeNone, tc_Level := []\<rparr> else c2)"

definition vc_check_level ::
  "ModelInfo \<Rightarrow> ThinkingSupport \<Rightarrow> bool \<Rightarrow> ThinkingConfig \<Rightarrow> ThinkingError + ThinkingConfig" where
  "vc_check_level mi support allowClampUnsupported config =
     (if length (ts_Levels support) > 0 \<and> tc_Mode config = ModeLevel
         \<and> \<not> isLevelSupported (tc_Level config) (ts_Levels support)
      then
        (let c1 = (if allowClampUnsupported
                   then config\<lparr>tc_Level := clampLevel (tc_Level config) (Some mi)\<rparr> else config)
         in if \<not> isLevelSupported (tc_Level c1) (ts_Levels support)
            then Inl (NewThinkingError ErrLevelNotSupported
                  (''level '' @ Quote (ToLower (tc_Level c1)) @ '' not supported, valid levels: ''
                    @ Join (normalizeLevels (ts_Levels support)) '', ''))
            else Inr c1)
      else Inr config)"

definition vc_check_budget ::
  "ThinkingSupport \<Rightarrow> bool \<Rightarrow> bool \<Rightarrow> ThinkingConfig \<Rightarrow> ThinkingError + ThinkingConfig" where
  "vc_check_budget support strictBudget budgetDerivedFromLevel config =
     (if strictBudget \<and> tc_Mode config = ModeBudget \<and> \<not> budgetDerivedFromLevel then
        (let mn = ts_Min support; mx = ts_Max support in
         if (mn \<noteq> 0 \<or> mx \<noteq> 0) \<and>
            (tc_Budget config < mn \<or> tc_Budget config > mx \<or>
             (tc_Budget config = 0 \<and> \<not> ts_ZeroAllowed support))
         then Inl (NewThinkingError ErrBudgetOutOfRange
               (''budget '' @ FormatInt (tc_Budget config) @ '' out of range ['' @ FormatInt mn
                 @ '','' @ FormatInt mx @ '']''))
         else Inr config)
      else Inr config)"

definition vc_auto :: "ModelInfo \<Rightarrow> ThinkingSupport \<Rightarrow> ThinkingConfig \<Rightarrow> ThinkingConfig" where
  "vc_auto mi support config =
     (if tc_Mode config = ModeAuto \<and> \<not> ts_DynamicAllowed support then
        (let c1 = convertAutoToMidRange config support in
         if tc_Mode c1 = ModeLevel \<and> length (ts_Levels support) > 0
            \<and> \<not> isLevelSupported (tc_Level c1) (ts_Levels support)
         then c1\<lparr>tc_Level := clampLevel (tc_Level c1) (Some mi)\<rparr> else c1)
      else config)"

definition vc_finish :: "ModelInfo \<Rightarrow> ThinkingSupport \<Rightarrow> string \<Rightarrow> ThinkingConfig \<Rightarrow> ThinkingConfig" where
  "vc_finish mi support to config =
     (if tc_Mode config = ModeNone \<and> to = ''claude''
      then config\<lparr>tc_Budget := 0, tc_Level := []\<rparr>
      else
        (let c1 = (if tc_Mode config \<in> {ModeBudget, ModeAuto, ModeNone}
                   then config\<lparr>tc_Budget := clampBudget (tc_Budget config) (Some mi)\<rparr> else config);
             cannotDisableLevelModel =
               (\<not> ts_ZeroAllowed support \<and> \<not> isLevelSupported LevelNone (ts_Levels support))
         in if tc_Mode c1 = ModeNone \<and> length (ts_Levels support) > 0
               \<and> (tc_Budget c1 > 0 \<or> cannotDisableLevelModel)
            then c1\<lparr>tc_Level := hd (ts_Levels support)\<rparr> else c1))"

definition ValidateConfig ::
  "ThinkingConfig \<Rightarrow> ModelInfo option \<Rightarrow> string \<Rightarrow> string \<Rightarrow> bool \<Rightarrow> ThinkingError + ThinkingConfig" where
  "ValidateConfig config modelInfo fromFormat toFormat fromSuffix =
     (let from = ToLower (TrimSpace fromFormat);
          to = ToLower (TrimSpace toFormat);
          model = (case modelInfo of None \<Rightarrow> ''unknown''
                   | Some mi \<Rightarrow> if mi_ID mi \<noteq> [] then mi_ID mi else ''unknown'')
      in case modelInfo of
           None \<Rightarrow>
             if tc_Mode config \<noteq> ModeNone
             then Inl (NewThinkingErrorWithModel ErrThinkingNotSupported
                   ''thinking not supported for this model'' model)
             else Inr config
         | Some mi \<Rightarrow>
            (case mi_Thinking mi of
               None \<Rightarrow>
                 if tc_Mode config \<noteq> ModeNone
                 then Inl (NewThinkingErrorWithModel ErrThinkingNotSupported
                       ''thinking not supported for this model'' model)
                 else Inr config
             | Some support \<Rightarrow>
                (let toCapability = detectModelCapability modelInfo;
                     toHasLevelSupport =
                       (toCapability = CapabilityLevelOnly \<or> toCapability = CapabilityHybrid);
                     mismatch = vc_modelFamilyMismatch mi from to;
                     allowClampUnsupported =
                       (toHasLevelSupport \<and> (\<not> isSameProviderFamily from to \<or> mismatch));
                     strictBudget =
                       (\<not> fromSuffix \<and> from \<noteq> [] \<and> isSameProviderFamily from to \<and> \<not> mismatch)
                 in result_bind (vc_convert mi config) (\<lambda>(c1, derived).
                    result_bind (vc_check_level mi support allowClampUnsupported (vc_normalize c1)) (\<lambda>c2.
                    result_bind (vc_check_budget support strictBudget derived c2) (\<lambda>c3.
                    Inr (vc_finish mi support to (vc_auto mi support c3))))))))"

section \<open>Clamping picks the nearest supported level\<close>

lemma levelIndex_from_bounds:
  "levelIndex_from i ls l = -1 \<or> (i \<le> levelIndex_from i ls l \<and> levelIndex_from i ls l < i + int (length ls))"
  by (induction i ls l rule: levelIndex_from.induct) auto

lemma levelIndex_bounds: "levelIndex l = -1 \<or> (0 \<le> levelIndex l \<and> levelIndex l < 6)"
  using levelIndex_from_bounds [of 0 standardLevelOrder l]
  by (simp add: levelIndex_def standardLevelOrder_def)

lemma levelIndex_from_nth:
  "levelIndex_from i ls l \<noteq> -1 \<Longrightarrow> 0 \<le> i \<Longrightarrow> EqualFold l (ls ! nat (levelIndex_from i ls l - i))"
proof (induction i ls l rule: levelIndex_from.induct)
  case (2 i l0 ls level)
  show ?case
  proof (cases "EqualFold level l0")
    case False
    with 2 have "EqualFold level (ls ! nat (levelIndex_from (i + 1) ls level - (i + 1)))" by simp
    moreover have "i + 1 \<le> levelIndex_from (i + 1) ls level"
      using levelIndex_from_bounds [of "i + 1" ls level] 2 False by auto
    then have "nat (levelIndex_from (i + 1) ls level - i) = Suc (nat (levelIndex_from (i + 1) ls level - (i + 1)))"
      by simp
    ultimately show ?thesis using False by simp
  qed simp
qed simp

lemma levelIndex_nth: "levelIndex l \<noteq> -1 \<Longrightarrow> EqualFold l (standardLevelOrder ! nat (levelIndex l))"
  using levelIndex_from_nth [of 0 standardLevelOrder l] by (simp add: levelIndex_def)

lemma levelIndex_standard: "0 \<le> i \<Longrightarrow> i < 6 \<Longrightarrow> levelIndex (standardLevelOrder ! nat i) = i"
proof -
  assume "0 \<le> i" "i < 6"
  then have "i \<in> {0, 1, 2, 3, 4, 5}" by auto
  then show ?thesis
    by (auto simp: levelIndex_def standardLevelOrder_def level_defs EqualFold_def ToLower_def
        lower_char_def byte_def)
qed

text \<open>The loop of \<open>clampLevel\<close>: what the best pair is after the levels seen so far.\<close>

definition clamp_best :: "int \<Rightarrow> string list \<Rightarrow> int \<times> int \<Rightarrow> bool" where
  "clamp_best pos seen best \<longleftrightarrow>
     (if \<forall>s \<in> set seen. levelIndex (TrimSpace s) = -1 then best = (-1, 7)
      else (\<exists>s \<in> set seen. fst best = levelIndex (TrimSpace s)) \<and> fst best \<noteq> -1 \<and> snd best = \<bar>pos - fst best\<bar>
        \<and> (\<forall>s \<in> set seen. levelIndex (TrimSpace s) \<noteq> -1 \<longrightarrow>
              snd best < \<bar>pos - levelIndex (TrimSpace s)\<bar>
              \<or> (snd best = \<bar>pos - levelIndex (TrimSpace s)\<bar> \<and> fst best \<le> levelIndex (TrimSpace s))))"

lemma clampLevel_step_best:
  assumes pos: "0 \<le> pos" "pos < 6" and best: "clamp_best pos seen best"
  shows "clamp_best pos (seen @ [s]) (clampLevel_step pos s best)"
proof (cases "levelIndex (TrimSpace s) = -1")
  case True
  then have "clampLevel_step pos s best = best" by (simp add: clampLevel_step_def)
  moreover have "clamp_best pos (seen @ [s]) best = clamp_best pos seen best"
    using True by (simp add: clamp_best_def) blast
  ultimately show ?thesis using best by simp
next
  case idx: False
  with levelIndex_bounds [of "TrimSpace s"]
  have range: "0 \<le> levelIndex (TrimSpace s)" "levelIndex (TrimSpace s) < 6" by auto
  show ?thesis
  proof (cases "\<forall>u \<in> set seen. levelIndex (TrimSpace u) = -1")
    case True
    with best have "best = (-1, 7)" by (simp add: clamp_best_def)
    then show ?thesis using True idx range pos
      by (auto simp: clampLevel_step_def clamp_best_def Let_def)
  next
    case False
    define i where "i = levelIndex (TrimSpace s)"
    from False best have b1: "\<exists>u \<in> set seen. fst best = levelIndex (TrimSpace u)" "fst best \<noteq> -1"
      "snd best = \<bar>pos - fst best\<bar>"
      and b2: "\<forall>u \<in> set seen. levelIndex (TrimSpace u) \<noteq> -1 \<longrightarrow>
              snd best < \<bar>pos - levelIndex (TrimSpace u)\<bar>
              \<or> (snd best = \<bar>pos - levelIndex (TrimSpace u)\<bar> \<and> fst best \<le> levelIndex (TrimSpace u))"
      unfolding clamp_best_def by argo+
    from False have nall: "\<not> (\<forall>u \<in> set (seen @ [s]). levelIndex (TrimSpace u) = -1)" by auto
    show ?thesis
    proof (cases "\<bar>pos - i\<bar> < snd best \<or> (\<bar>pos - i\<bar> = snd best \<and> i < fst best)")
      case True
      then have step: "clampLevel_step pos s best = (i, \<bar>pos - i\<bar>)"
        using idx by (simp add: clampLevel_step_def i_def Let_def)
      have "\<bar>pos - i\<bar> < \<bar>pos - levelIndex (TrimSpace u)\<bar>
              \<or> (\<bar>pos - i\<bar> = \<bar>pos - levelIndex (TrimSpace u)\<bar> \<and> i \<le> levelIndex (TrimSpace u))"
        if "u \<in> set seen" "levelIndex (TrimSpace u) \<noteq> -1" for u
        using bspec [OF b2 that(1)] that(2) True by linarith
      then show ?thesis using nall idx unfolding clamp_best_def step by (simp add: i_def)
    next
      case False
      then have step: "clampLevel_step pos s best = best"
        unfolding clampLevel_step_def Let_def i_def by presburger
      have "snd best < \<bar>pos - i\<bar> \<or> (snd best = \<bar>pos - i\<bar> \<and> fst best \<le> i)"
        using False by linarith
      then show ?thesis using nall b1 b2 idx unfolding clamp_best_def step by (simp add: i_def)
    qed
  qed
qed

lemma clampLevel_fold_best:
  "0 \<le> pos \<Longrightarrow> pos < 6 \<Longrightarrow> clamp_best pos seen best \<Longrightarrow>
     clamp_best pos (seen @ ss) (fold (clampLevel_step pos) ss best)"
proof (induction ss arbitrary: seen best)
  case (Cons s ss)
  then show ?case using clampLevel_step_best [of pos seen best s] by fastforce
qed simp

text \<open>What \<open>clampLevel\<close> returns when it clamps: a supported level at the least distance.\<close>

lemma clampLevel_clamps:
  assumes mi: "mi_Thinking mi = Some support" and ns: "\<not> isLevelSupported level (ts_Levels support)"
    and pos: "levelIndex level \<noteq> -1"
    and ex: "\<exists>s \<in> set (ts_Levels support). levelIndex (TrimSpace s) \<noteq> -1"
  shows "\<exists>s \<in> set (ts_Levels support).
      clampLevel level (Some mi) = standardLevelOrder ! nat (levelIndex (TrimSpace s))
      \<and> levelIndex (TrimSpace s) \<noteq> -1
      \<and> (\<forall>u \<in> set (ts_Levels support). levelIndex (TrimSpace u) \<noteq> -1 \<longrightarrow>
            \<bar>levelIndex level - levelIndex (TrimSpace s)\<bar> < \<bar>levelIndex level - levelIndex (TrimSpace u)\<bar>
            \<or> (\<bar>levelIndex level - levelIndex (TrimSpace s)\<bar> = \<bar>levelIndex level - levelIndex (TrimSpace u)\<bar>
                \<and> levelIndex (TrimSpace s) \<le> levelIndex (TrimSpace u)))"
proof -
  let ?best = "fold (clampLevel_step (levelIndex level)) (ts_Levels support) (-1, 7)"
  have range: "0 \<le> levelIndex level" "levelIndex level < 6" using levelIndex_bounds [of level] pos by auto
  have "clamp_best (levelIndex level) [] (-1, 7)" by (simp add: clamp_best_def)
  from clampLevel_fold_best [OF range this, of "ts_Levels support"]
  have best: "clamp_best (levelIndex level) (ts_Levels support) ?best" by simp
  with ex obtain s where s: "s \<in> set (ts_Levels support)" "fst ?best = levelIndex (TrimSpace s)"
    "fst ?best \<noteq> -1" by (auto simp: clamp_best_def split: if_splits)
  then have ge: "0 \<le> fst ?best" using levelIndex_bounds [of "TrimSpace s"] by auto
  have ne: "ts_Levels support \<noteq> []" using ex by auto
  have "clampLevel level (Some mi) = standardLevelOrder ! nat (fst ?best)"
    using mi ns pos ge ne by (simp add: clampLevel_def Let_def standardLevelOrder_def)
  moreover have "\<forall>u \<in> set (ts_Levels support). levelIndex (TrimSpace u) \<noteq> -1 \<longrightarrow>
      snd ?best < \<bar>levelIndex level - levelIndex (TrimSpace u)\<bar>
      \<or> (snd ?best = \<bar>levelIndex level - levelIndex (TrimSpace u)\<bar> \<and> fst ?best \<le> levelIndex (TrimSpace u))"
    and "snd ?best = \<bar>levelIndex level - fst ?best\<bar>"
    using best ex by (auto simp: clamp_best_def split: if_splits)
  ultimately show ?thesis using s by (intro bexI [of _ s]) auto
qed

lemma clampLevel_supported:
  assumes "mi_Thinking mi = Some support" "levelIndex level \<noteq> -1"
    "\<exists>s \<in> set (ts_Levels support). levelIndex (TrimSpace s) \<noteq> -1"
  shows "isLevelSupported (clampLevel level (Some mi)) (ts_Levels support)"
proof (cases "isLevelSupported level (ts_Levels support)")
  case True
  then show ?thesis using assms(1) by (simp add: clampLevel_def)
next
  case False
  from clampLevel_clamps [OF assms(1) False assms(2,3)] obtain s where
    s: "s \<in> set (ts_Levels support)" "levelIndex (TrimSpace s) \<noteq> -1"
      "clampLevel level (Some mi) = standardLevelOrder ! nat (levelIndex (TrimSpace s))" by auto
  then have "EqualFold (clampLevel level (Some mi)) (TrimSpace s)"
    using levelIndex_nth [OF s(2)] by (simp add: EqualFold_sym)
  with s(1) show ?thesis by (auto simp: isLevelSupported_def list_ex_iff)
qed

section \<open>What a validated configuration satisfies\<close>

lemma ValidateConfig_Inr:
  assumes "ValidateConfig config (Some mi) from to fromSuffix = Inr c" "mi_Thinking mi = Some support"
  obtains c1 derived allow strict c2 c3 where
    "vc_convert mi config = Inr (c1, derived)"
    "vc_check_level mi support allow (vc_normalize c1) = Inr c2"
    "vc_check_budget support strict derived c2 = Inr c3"
    "c = vc_finish mi support (ToLower (TrimSpace to)) (vc_auto mi support c3)"
    "strict \<longleftrightarrow> \<not> fromSuffix \<and> ToLower (TrimSpace from) \<noteq> []
       \<and> isSameProviderFamily (ToLower (TrimSpace from)) (ToLower (TrimSpace to))
       \<and> \<not> vc_modelFamilyMismatch mi (ToLower (TrimSpace from)) (ToLower (TrimSpace to))"
  using assms unfolding ValidateConfig_def
  by (auto simp: Let_def result_bind_Inr split: prod.splits)


lemma vc_finish_mode [simp]: "tc_Mode (vc_finish mi support to c) = tc_Mode c"
  by (auto simp: vc_finish_def Let_def)

lemma vc_finish_budget:
  "tc_Mode c = ModeBudget \<Longrightarrow> vc_finish mi support to c = c\<lparr>tc_Budget := clampBudget (tc_Budget c) (Some mi)\<rparr>"
  by (auto simp: vc_finish_def Let_def)


lemma vc_check_budget_id: "vc_check_budget support strict derived c = Inr c' \<Longrightarrow> c' = c"
  by (auto simp: vc_check_budget_def Let_def split: if_splits)



lemma clampBudget_range:
  assumes "mi_Thinking mi = Some support" "ts_Min support \<le> ts_Max support"
    "ts_Min support \<noteq> 0 \<or> ts_Max support \<noteq> 0"
  shows "clampBudget v (Some mi) = -1
    \<or> (ts_Min support \<le> clampBudget v (Some mi) \<and> clampBudget v (Some mi) \<le> ts_Max support)
    \<or> (clampBudget v (Some mi) = 0 \<and> ts_ZeroAllowed support)"
  using assms by (auto simp: clampBudget_def Let_def)

lemma clampBudget_in_range:
  "mi_Thinking mi = Some support \<Longrightarrow> ts_Min support \<le> v \<Longrightarrow> v \<le> ts_Max support \<Longrightarrow>
     (v = 0 \<longrightarrow> ts_ZeroAllowed support) \<Longrightarrow> clampBudget v (Some mi) = v"
  by (auto simp: clampBudget_def Let_def)

section \<open>Properties\<close>

text \<open>C38: \<open>ParseSuffix\<close> is exact: a name is split into \<open>n\<close> and \<open>r\<close> if and only if it is written
  \<open>n(r)\<close> with no opening parenthesis in \<open>r\<close>, so what is parsed can be put back together.\<close>

theorem parse_suffix_exact:
  "ParseSuffix m = \<lparr>sr_ModelName = n, sr_HasSuffix = True, sr_RawSuffix = r\<rparr> \<longleftrightarrow>
     m = n @ ''('' @ r @ '')'' \<and> CHR ''('' \<notin> set r"
  using ParseSuffix_append [of r n] ParseSuffix_sound [of m] by auto

text \<open>\<open>ConvertBudgetToLevel\<close> gives the least level that covers the budget: up to the budget of
  \<open>xhigh\<close> the level's own budget is at least the requested one, and no level with a smaller
  budget is large enough.\<close>

theorem budget_to_level_least:
  assumes "0 \<le> b" and "b \<le> 32768"
  shows "\<exists>l t. ConvertBudgetToLevel b = Some l \<and> ConvertLevelToBudget l = Some t \<and> b \<le> t
    \<and> (\<forall>l' t'. ConvertLevelToBudget l' = Some t' \<and> b \<le> t' \<longrightarrow> t \<le> t')"
proof -
  have dom: "t' \<in> {0, -1, 512, 1024, 8192, 24576, 32768, 128000}" if "ConvertLevelToBudget l' = Some t'" for l' t'
    using that by (auto simp: ConvertLevelToBudget_def levelToBudgetMap_def split: if_splits)
  have std: "ConvertLevelToBudget LevelNone = Some 0" "ConvertLevelToBudget LevelMinimal = Some 512"
    "ConvertLevelToBudget LevelLow = Some 1024" "ConvertLevelToBudget LevelMedium = Some 8192"
    "ConvertLevelToBudget LevelHigh = Some 24576" "ConvertLevelToBudget LevelXHigh = Some 32768"
    by (simp_all add: ConvertLevelToBudget_def levelToBudgetMap_def level_defs ToLower_def lower_char_def byte_def)
  have least: "\<forall>l' t'. ConvertLevelToBudget l' = Some t' \<and> b \<le> t' \<longrightarrow> t \<le> t'"
    if "\<forall>t' \<in> {0, -1, 512, 1024, 8192, 24576, 32768, 128000}. b \<le> t' \<longrightarrow> t \<le> t'" for t
    using dom that by blast
  consider "b = 0" | "0 < b" "b \<le> 512" | "512 < b" "b \<le> 1024" | "1024 < b" "b \<le> 8192"
    | "8192 < b" "b \<le> 24576" | "24576 < b" using assms by linarith
  then show ?thesis
  proof cases
    case 1 then show ?thesis using least [of 0] std by (auto simp: ConvertBudgetToLevel_def threshold_defs)
  next
    case 2 then show ?thesis using least [of 512] std by (auto simp: ConvertBudgetToLevel_def threshold_defs)
  next
    case 3 then show ?thesis using least [of 1024] std by (auto simp: ConvertBudgetToLevel_def threshold_defs)
  next
    case 4 then show ?thesis using least [of 8192] std by (auto simp: ConvertBudgetToLevel_def threshold_defs)
  next
    case 5 then show ?thesis using least [of 24576] std by (auto simp: ConvertBudgetToLevel_def threshold_defs)
  next
    case 6 then show ?thesis using least [of 32768] std assms by (auto simp: ConvertBudgetToLevel_def threshold_defs)
  qed
qed

theorem budget_to_level_least_witness:
  "\<exists>l t. ConvertBudgetToLevel 1025 = Some l \<and> ConvertLevelToBudget l = Some t \<and> 1025 \<le> t
    \<and> (\<forall>l' t'. ConvertLevelToBudget l' = Some t' \<and> 1025 \<le> t' \<longrightarrow> t \<le> t')"
  using budget_to_level_least [of 1025] by simp

definition sample_model :: "ThinkingSupport \<Rightarrow> string \<Rightarrow> ModelInfo" where
  \<comment> \<open>a model entry for the concrete instances below\<close>
  "sample_model t ty =
     zeroModelInfo\<lparr>mi_ID := ''m'', mi_Object := ''model'', mi_Type := ty, mi_Thinking := Some t\<rparr>"

lemmas string_eval =
  EqualFold_def ToLower_def lower_char_def byte_def TrimSpace_def TrimLeft_def is_space_def

text \<open>\<open>clampLevel\<close> replaces an unsupported standard level by a supported one at the least distance
  in the order of the levels, the lower one on a tie.\<close>

theorem clamp_level_nearest:
  assumes "mi_Thinking mi = Some support" and "\<not> isLevelSupported level (ts_Levels support)"
    and "levelIndex level \<noteq> -1"
    and "u \<in> set (ts_Levels support)" and "levelIndex (TrimSpace u) \<noteq> -1"
  shows "isLevelSupported (clampLevel level (Some mi)) (ts_Levels support)
    \<and> (\<bar>levelIndex level - levelIndex (clampLevel level (Some mi))\<bar> < \<bar>levelIndex level - levelIndex (TrimSpace u)\<bar>
       \<or> (\<bar>levelIndex level - levelIndex (clampLevel level (Some mi))\<bar> = \<bar>levelIndex level - levelIndex (TrimSpace u)\<bar>
          \<and> levelIndex (clampLevel level (Some mi)) \<le> levelIndex (TrimSpace u)))"
proof -
  from assms(4,5) have ex: "\<exists>s \<in> set (ts_Levels support). levelIndex (TrimSpace s) \<noteq> -1" by blast
  from clampLevel_clamps [OF assms(1-3) ex] obtain s where
    s: "levelIndex (TrimSpace s) \<noteq> -1"
      "clampLevel level (Some mi) = standardLevelOrder ! nat (levelIndex (TrimSpace s))"
    and near: "\<bar>levelIndex level - levelIndex (TrimSpace s)\<bar> < \<bar>levelIndex level - levelIndex (TrimSpace u)\<bar>
       \<or> (\<bar>levelIndex level - levelIndex (TrimSpace s)\<bar> = \<bar>levelIndex level - levelIndex (TrimSpace u)\<bar>
          \<and> levelIndex (TrimSpace s) \<le> levelIndex (TrimSpace u))"
    using assms(4,5) by blast
  have "levelIndex (clampLevel level (Some mi)) = levelIndex (TrimSpace s)"
    using levelIndex_bounds [of "TrimSpace s"] s levelIndex_standard by simp
  then show ?thesis using near clampLevel_supported [OF assms(1,3) ex] by simp
qed

theorem clamp_level_nearest_witness:
  "let mi = sample_model \<lparr>ts_Min = 0, ts_Max = 0, ts_ZeroAllowed = False, ts_DynamicAllowed = False,
              ts_Levels = [''low'', '' high'']\<rparr> ''openai''
   in isLevelSupported (clampLevel ''max'' (Some mi)) [''low'', '' high'']"
proof -
  let ?t = "\<lparr>ts_Min = 0, ts_Max = 0, ts_ZeroAllowed = False, ts_DynamicAllowed = False,
              ts_Levels = [''low'', '' high'']\<rparr>"
  have "mi_Thinking (sample_model ?t ''openai'') = Some ?t" by (simp add: sample_model_def zeroModelInfo_def)
  moreover have "\<not> isLevelSupported ''max'' (ts_Levels ?t)"
    by (simp add: isLevelSupported_def string_eval)
  moreover have "levelIndex ''max'' \<noteq> -1"
    by (simp add: levelIndex_def standardLevelOrder_def level_defs string_eval)
  moreover have "''low'' \<in> set (ts_Levels ?t)" by simp
  moreover have "levelIndex (TrimSpace ''low'') \<noteq> -1"
    by (simp add: levelIndex_def standardLevelOrder_def level_defs string_eval)
  ultimately show ?thesis
    using clamp_level_nearest [of "sample_model ?t ''openai''" ?t "''max''" "''low''"] by (simp add: Let_def)
qed



text \<open>A request asks for the automatic budget: with the number -1, or by a level that converts to it.\<close>

definition asks_automatic :: "ThinkingConfig \<Rightarrow> bool" where
  "asks_automatic config \<longleftrightarrow> (tc_Mode config = ModeBudget \<and> tc_Budget config = -1)
     \<or> (tc_Mode config = ModeLevel \<and> ConvertLevelToBudget (tc_Level config) = Some (-1))"

lemma vc_convert_budget:
  "vc_convert mi config = Inr (c1, derived) \<Longrightarrow> tc_Mode c1 = ModeBudget \<Longrightarrow> tc_Budget c1 = -1 \<Longrightarrow> asks_automatic config"
  by (auto simp: vc_convert_def asks_automatic_def split: ModelCapability.splits if_splits option.splits)

lemma vc_normalize_budget:
  "tc_Mode (vc_normalize c) = ModeBudget \<Longrightarrow> vc_normalize c = c \<and> tc_Budget c \<noteq> 0"
  by (auto simp: vc_normalize_def Let_def split: if_splits)

lemma vc_check_level_other: "vc_check_level mi support allow c = Inr c' \<Longrightarrow> tc_Mode c' \<noteq> ModeLevel \<Longrightarrow> c' = c"
  by (auto simp: vc_check_level_def Let_def split: if_splits)

lemma vc_auto_budget:
  assumes "tc_Mode (vc_auto mi support c) = ModeBudget"
  shows "vc_auto mi support c = c \<or> 0 < tc_Budget (vc_auto mi support c) \<or> tc_Budget (vc_auto mi support c) = ts_Min support"
  using assms by (auto simp: vc_auto_def convertAutoToMidRange_def Let_def split: if_splits)

lemma clampBudget_nonzero:
  assumes "mi_Thinking mi = Some support" "ts_Min support \<le> ts_Max support" "ts_Min support \<noteq> 0 \<or> ts_Max support \<noteq> 0"
    and "v \<noteq> 0 \<or> v = ts_Min support"
  shows "ts_Min support \<le> clampBudget v (Some mi) \<and> clampBudget v (Some mi) \<le> ts_Max support \<or> v = -1 \<and> clampBudget v (Some mi) = -1"
  using assms by (auto simp: clampBudget_def Let_def)

text \<open>C40: what \<open>ValidateConfig\<close> lets through suits the model, when the model states a range (a minimum that is not above
  the maximum, and not both zero). A budget lies in that range; the only exception is -1, and only when the request asked
  for it itself, by the number or by a level that converts to it. The automatic mode comes out only for a model that
  allows a dynamic budget. And thinking switched off comes out with a budget of zero only for the target Claude, for a
  model that allows zero, or where zero lies in the range.\<close>

theorem validate_budget_in_range:
  assumes "ValidateConfig config (Some mi) from to fromSuffix = Inr c"
    and "mi_Thinking mi = Some support"
    and "ts_Min support \<le> ts_Max support" and "ts_Min support \<noteq> 0 \<or> ts_Max support \<noteq> 0"
  shows "(tc_Mode c = ModeBudget \<longrightarrow> (ts_Min support \<le> tc_Budget c \<and> tc_Budget c \<le> ts_Max support)
       \<or> (tc_Budget c = -1 \<and> asks_automatic config))
    \<and> (tc_Mode c = ModeAuto \<longrightarrow> ts_DynamicAllowed support)
    \<and> (tc_Mode c = ModeNone \<and> tc_Budget c = 0 \<longrightarrow> ToLower (TrimSpace to) = ''claude'' \<or> ts_ZeroAllowed support
         \<or> (ts_Min support \<le> 0 \<and> 0 \<le> ts_Max support))"
proof -
  obtain c1 derived allow strict c2 c3 where conv: "vc_convert mi config = Inr (c1, derived)"
    and level: "vc_check_level mi support allow (vc_normalize c1) = Inr c2" and c3: "vc_check_budget support strict derived c2 = Inr c3"
    and c: "c = vc_finish mi support (ToLower (TrimSpace to)) (vc_auto mi support c3)"
    using assms(1,2) by (rule ValidateConfig_Inr)
  let ?a = "vc_auto mi support c3"
  have mode: "tc_Mode c = tc_Mode ?a" by (simp add: c)
  have id: "c3 = c2" using vc_check_budget_id [OF c3] .
  have budget: "(ts_Min support \<le> tc_Budget c \<and> tc_Budget c \<le> ts_Max support) \<or> (tc_Budget c = -1 \<and> asks_automatic config)"
    if m: "tc_Mode c = ModeBudget"
  proof -
    have ma: "tc_Mode ?a = ModeBudget" using m mode by simp
    have b: "tc_Budget c = clampBudget (tc_Budget ?a) (Some mi)" using vc_finish_budget [OF ma] by (simp add: c)
    note range = clampBudget_nonzero [OF assms(2-4), of "tc_Budget ?a"]
    from vc_auto_budget [OF ma] show ?thesis
    proof (elim disjE)
      assume same: "?a = c3"
      then have "c2 = vc_normalize c1" using vc_check_level_other [OF level] ma id by simp
      then have n: "c2 = c1" "tc_Budget c1 \<noteq> 0" using vc_normalize_budget [of c1] ma same id by simp_all
      have "asks_automatic config" if "tc_Budget ?a = -1" using vc_convert_budget [OF conv] n ma same id that by simp
      then show ?thesis using range n(1,2) same id by (auto simp: b)
    next
      assume "0 < tc_Budget ?a"
      then show ?thesis using range by (auto simp: b)
    next
      assume "tc_Budget ?a = ts_Min support"
      then show ?thesis using range assms(3) by (auto simp: b)
    qed
  qed
  moreover have "ts_DynamicAllowed support" if "tc_Mode c = ModeAuto"
    using that mode by (auto simp: vc_auto_def convertAutoToMidRange_def Let_def split: if_splits)
  moreover have "ToLower (TrimSpace to) = ''claude'' \<or> ts_ZeroAllowed support \<or> (ts_Min support \<le> 0 \<and> 0 \<le> ts_Max support)"
    if m: "tc_Mode c = ModeNone" "tc_Budget c = 0"
  proof (cases "ToLower (TrimSpace to) = ''claude''")
    case False
    then have "tc_Budget c = clampBudget (tc_Budget ?a) (Some mi)" using m(1) mode by (auto simp: c vc_finish_def Let_def)
    then show ?thesis using m(2) clampBudget_range [OF assms(2-4), of "tc_Budget ?a"] by auto
  qed simp
  ultimately show ?thesis by blast
qed

theorem validate_budget_in_range_witness:
  "let t = \<lparr>ts_Min = 128, ts_Max = 32768, ts_ZeroAllowed = True, ts_DynamicAllowed = True, ts_Levels = []\<rparr>
   in ValidateConfig \<lparr>tc_Mode = ModeLevel, tc_Budget = 0, tc_Level = ''max''\<rparr>
        (Some (sample_model t ''gemini'')) ''openai'' ''gemini'' False
      = Inr \<lparr>tc_Mode = ModeBudget, tc_Budget = 32768, tc_Level = []\<rparr>
    \<and> 128 \<le> (32768::int) \<and> 32768 \<le> (32768::int)"
proof -
  let ?t = "\<lparr>ts_Min = 128, ts_Max = 32768, ts_ZeroAllowed = True, ts_DynamicAllowed = True, ts_Levels = []\<rparr>"
  let ?r = "\<lparr>tc_Mode = ModeBudget, tc_Budget = 32768, tc_Level = []\<rparr>"
  have 1: "ValidateConfig \<lparr>tc_Mode = ModeLevel, tc_Budget = 0, tc_Level = ''max''\<rparr>
        (Some (sample_model ?t ''gemini'')) ''openai'' ''gemini'' False = Inr ?r"
    by code_simp
  have 2: "mi_Thinking (sample_model ?t ''gemini'') = Some ?t" by (simp add: sample_model_def zeroModelInfo_def)
  from validate_budget_in_range [OF 1 2] 1 show ?thesis by (simp add: Let_def)
qed

text \<open>in strict mode (a budget of the request body, source and target of one provider family) a
  non-zero budget is either rejected or returned exactly as it was asked for: the code never clamps it.\<close>

theorem validate_strict_exact:
  assumes "ValidateConfig config (Some mi) from to False = Inr c"
    and "mi_Thinking mi = Some support" and "ts_Min support > 0 \<or> ts_Max support > 0"
    and "tc_Mode config = ModeBudget" and "tc_Budget config \<noteq> 0"
    and "ToLower (TrimSpace from) \<noteq> []"
    and "isSameProviderFamily (ToLower (TrimSpace from)) (ToLower (TrimSpace to))"
    and "\<not> vc_modelFamilyMismatch mi (ToLower (TrimSpace from)) (ToLower (TrimSpace to))"
  shows "c = config \<and> ts_Min support \<le> tc_Budget config \<and> tc_Budget config \<le> ts_Max support"
proof -
  obtain c1 derived allow strict c2 c3 where
    c1: "vc_convert mi config = Inr (c1, derived)" and
    c2: "vc_check_level mi support allow (vc_normalize c1) = Inr c2" and
    c3: "vc_check_budget support strict derived c2 = Inr c3" and
    c: "c = vc_finish mi support (ToLower (TrimSpace to)) (vc_auto mi support c3)" and
    strict: "strict"
    using assms by (auto elim!: ValidateConfig_Inr)
  have "c1 = config" "\<not> derived"
    using c1 assms(2-4) by (auto simp: vc_convert_def detectModelCapability_def Let_def split: if_splits)
  then have c2': "c2 = config"
    using c2 assms(4,5) by (auto simp: vc_normalize_def vc_check_level_def Let_def)
  then have c3': "c3 = config" and
    range: "ts_Min support \<le> tc_Budget config" "tc_Budget config \<le> ts_Max support"
    using c3 strict assms(3,4) \<open>\<not> derived\<close> by (auto simp: vc_check_budget_def Let_def split: if_splits)
  have "vc_auto mi support c3 = config" using c3' assms(4) by (simp add: vc_auto_def)
  then have "c = config\<lparr>tc_Budget := clampBudget (tc_Budget config) (Some mi)\<rparr>"
    using c assms(4) by (simp add: vc_finish_budget)
  then show ?thesis using clampBudget_in_range [OF assms(2) range] assms(5) range by simp
qed

theorem validate_strict_exact_witness:
  "let t = \<lparr>ts_Min = 1024, ts_Max = 64000, ts_ZeroAllowed = False, ts_DynamicAllowed = False, ts_Levels = []\<rparr>;
       cfg = \<lparr>tc_Mode = ModeBudget, tc_Budget = 4096, tc_Level = []\<rparr>
   in ValidateConfig cfg (Some (sample_model t ''claude'')) ''Claude'' ''claude'' False = Inr cfg
      \<and> 1024 \<le> tc_Budget cfg"
proof -
  let ?t = "\<lparr>ts_Min = 1024, ts_Max = 64000, ts_ZeroAllowed = False, ts_DynamicAllowed = False, ts_Levels = []\<rparr>"
  let ?cfg = "\<lparr>tc_Mode = ModeBudget, tc_Budget = 4096, tc_Level = []\<rparr>"
  have 1: "ValidateConfig ?cfg (Some (sample_model ?t ''claude'')) ''Claude'' ''claude'' False = Inr ?cfg"
    by code_simp
  have 2: "mi_Thinking (sample_model ?t ''claude'') = Some ?t" by (simp add: sample_model_def zeroModelInfo_def)
  have 3: "ToLower (TrimSpace ''Claude'') = ''claude''" "ToLower (TrimSpace ''claude'') = ''claude''"
    by code_simp+
  have 4: "\<not> vc_modelFamilyMismatch (sample_model ?t ''claude'') ''claude'' ''claude''" by code_simp
  have "1024 \<le> tc_Budget ?cfg"
    using validate_strict_exact [OF 1 2] 3 4 by (simp add: isSameProviderFamily_def)
  with 1 show ?thesis by (simp add: Let_def)
qed

end
