(* ===== verification/GoAny.thy ===== *)
theory GoAny
  imports GoString "HOL-Library.Signed_Division"
begin

text \<open>
  The dynamic values of Go (\<open>any\<close>) that credential metadata holds: what \<open>encoding/json\<close> and
  the loaders store in a \<open>map[string]any\<close>. The type switches of the code are case
  distinctions on this datatype.
\<close>

section \<open>Values\<close>

datatype int_kind =
  KInt | KInt8 | KInt16 | KInt32 | KInt64 | KUint | KUint8 | KUint16 | KUint32 | KUint64

text \<open>
  A floating-point number is NaN, an infinity (\<open>FInf True\<close> the negative one), or the finite
  value \<open>m * 2 ^ e\<close> written \<open>FFin m e\<close>.
\<close>

datatype gofloat = FNaN | FInf bool | FFin int int

datatype goany =
    AnyNil
  | AnyBool bool
  | AnyString string
  | AnyBytes string
  | AnyInt int_kind int
  | AnyFloat64 gofloat
  | AnyFloat32 gofloat
  | AnyNumber string
  | AnyMap "(string \<times> goany) list"
  | AnyList "goany list"
  | AnyStrings "string list"
  | AnyStringMap "(string \<times> string) list"
  | AnyOther

section \<open>Floats\<close>

definition float_is_integer :: "int \<Rightarrow> int \<Rightarrow> bool" where
  \<comment> \<open>\<open>math.Trunc(x) == x\<close> for the finite \<open>m * 2 ^ e\<close>\<close>
  "float_is_integer m e \<longleftrightarrow> 0 \<le> e \<or> m mod (2 ^ nat (- e)) = 0"

definition float_trunc :: "int \<Rightarrow> int \<Rightarrow> int" where
  \<comment> \<open>the integer part, rounding towards zero\<close>
  "float_trunc m e = (if 0 \<le> e then m * 2 ^ nat e else m sdiv (2 ^ nat (- e)))"

text \<open>
  The conversions \<open>int64(x)\<close> and \<open>int(x)\<close> of a float drop the fraction. The language leaves the
  result open when it does not fit; the model takes what the amd64 instruction gives, the
  least 64-bit integer.
\<close>

definition float_to_int64 :: "gofloat \<Rightarrow> int" where
  "float_to_int64 x =
     (case x of
        FFin m e \<Rightarrow>
          (let z = float_trunc m e in if min_int64 \<le> z \<and> z \<le> max_int64 then z else min_int64)
      | _ \<Rightarrow> min_int64)"

definition float_nonzero :: "gofloat \<Rightarrow> bool" where
  \<comment> \<open>\<open>x != 0\<close>, which holds of NaN\<close>
  "float_nonzero x = (case x of FFin m e \<Rightarrow> m \<noteq> 0 | _ \<Rightarrow> True)"

definition float_pos :: "gofloat \<Rightarrow> bool" where
  "float_pos x = (case x of FFin m e \<Rightarrow> 0 < m | FInf neg \<Rightarrow> \<not> neg | FNaN \<Rightarrow> False)"

text \<open>\<open>json.Number.Int64\<close>.\<close>

definition Number_Int64 :: "string \<Rightarrow> int option" where
  "Number_Int64 s = ParseInt s"

section \<open>\<open>parseBoolAny\<close> and \<open>parseIntAny\<close> of \<open>sdk/cliproxy/auth/types.go\<close>\<close>

definition parseBoolAny :: "goany \<Rightarrow> bool option" where
  "parseBoolAny val =
     (case val of
        AnyBool b \<Rightarrow> Some b
      | AnyString s \<Rightarrow> (let trimmed = TrimSpace s in if trimmed = [] then None else ParseBool trimmed)
      | AnyFloat64 x \<Rightarrow> Some (float_nonzero x)
      | AnyNumber s \<Rightarrow> (case Number_Int64 s of None \<Rightarrow> None | Some parsed \<Rightarrow> Some (parsed \<noteq> 0))
      | _ \<Rightarrow> None)"

definition parseIntAny :: "goany \<Rightarrow> int option" where
  "parseIntAny val =
     (case val of
        AnyInt k z \<Rightarrow> if k \<in> {KInt, KInt32, KInt64} then Some z else None
      | AnyFloat64 x \<Rightarrow> Some (float_to_int64 x)
      | AnyNumber s \<Rightarrow> Number_Int64 s
      | AnyString s \<Rightarrow> (let trimmed = TrimSpace s in if trimmed = [] then None else Atoi trimmed)
      | _ \<Rightarrow> None)"

section \<open>Laws\<close>

lemma float_to_int64_range: "min_int64 \<le> float_to_int64 x \<and> float_to_int64 x \<le> max_int64"
  by (auto simp: float_to_int64_def Let_def int64_defs split: gofloat.splits)

lemma ParseInt_range: "ParseInt s = Some z \<Longrightarrow> min_int64 \<le> z \<and> z \<le> max_int64"
  by (auto simp: ParseInt_def Let_def split: option.splits if_splits list.splits)

end
