(* ===== verification/CredentialWeight.thy ===== *)
theory CredentialWeight
  imports GoAny
begin

text \<open>
  \<open>internal/credentialweight\<close>: parsing and bounding the weight of a credential in weighted
  round-robin routing. An error is \<open>Inl\<close> of its message; the text of a wrapped \<open>strconv\<close>
  error is left out.
\<close>

definition weight_Default :: int where "weight_Default = 1"
definition weight_Max :: int where "weight_Max = 1000000"

definition err_weight_max :: string where "err_weight_max = ''weight must not exceed 1000000''"
definition err_weight_int :: string where "err_weight_int = ''weight must be an integer''"

definition weight_Normalize :: "int \<Rightarrow> string + int" where
  "weight_Normalize weight =
     (if weight \<le> 0 then Inr 0 else if weight > weight_Max then Inl err_weight_max else Inr weight)"

definition weight_ParseString :: "string \<Rightarrow> string + int" where
  "weight_ParseString raw0 =
     (let raw = TrimSpace raw0 in
      if raw = [] then Inr weight_Default
      else case ParseInt raw of
          None \<Rightarrow> Inl err_weight_int
        | Some weight \<Rightarrow> weight_Normalize weight)"

definition weight_ParseFloat :: "gofloat \<Rightarrow> string + int" where
  "weight_ParseFloat x =
     (case x of
        FFin m e \<Rightarrow>
          if \<not> float_is_integer m e then Inl err_weight_int
          else if \<not> float_pos x then Inr 0
          else if float_trunc m e > weight_Max then Inl err_weight_max
          else Inr (float_to_int64 x)
      | _ \<Rightarrow> Inl err_weight_int)"

definition weight_ParseValue :: "goany \<Rightarrow> string + int" where
  "weight_ParseValue val =
     (case val of
        AnyInt k z \<Rightarrow>
          if k \<in> {KInt, KInt8, KInt16, KInt32, KInt64} then weight_Normalize z
          else if k \<in> {KUint8, KUint16} then Inr z
          else if z > weight_Max then Inl err_weight_max
          else Inr z
      | AnyFloat64 x \<Rightarrow> weight_ParseFloat x
      | AnyFloat32 x \<Rightarrow> weight_ParseFloat x
      | AnyNumber s \<Rightarrow>
          (case Number_Int64 s of None \<Rightarrow> Inl err_weight_int | Some weight \<Rightarrow> weight_Normalize weight)
      | AnyString s \<Rightarrow> weight_ParseString s
      | _ \<Rightarrow> Inl err_weight_int)"

text \<open>The values an integer of a given kind can have.\<close>

fun kind_range :: "int_kind \<Rightarrow> int \<times> int" where
  "kind_range KInt8 = (-128, 127)"
| "kind_range KInt16 = (-32768, 32767)"
| "kind_range KInt32 = (-2147483648, 2147483647)"
| "kind_range KInt = (min_int64, max_int64)"
| "kind_range KInt64 = (min_int64, max_int64)"
| "kind_range KUint8 = (0, 255)"
| "kind_range KUint16 = (0, 65535)"
| "kind_range KUint32 = (0, 4294967295)"
| "kind_range KUint = (0, 18446744073709551615)"
| "kind_range KUint64 = (0, 18446744073709551615)"

definition goany_ok :: "goany \<Rightarrow> bool" where
  "goany_ok val = (case val of AnyInt k z \<Rightarrow> fst (kind_range k) \<le> z \<and> z \<le> snd (kind_range k) | _ \<Rightarrow> True)"

section \<open>Laws\<close>

lemmas weight_defs = weight_Default_def weight_Max_def

lemma weight_Normalize_range: "weight_Normalize z = Inr w \<Longrightarrow> 0 \<le> w \<and> w \<le> weight_Max"
  by (auto simp: weight_Normalize_def weight_defs split: if_splits)

lemma weight_ParseString_range: "weight_ParseString s = Inr w \<Longrightarrow> 0 \<le> w \<and> w \<le> weight_Max"
  using weight_Normalize_range
  by (auto simp: weight_ParseString_def Let_def weight_defs split: if_splits option.splits)

lemma float_trunc_pos:
  assumes "0 < m" and "float_is_integer m e"
  shows "0 < float_trunc m e"
proof (cases "0 \<le> e")
  case False
  let ?d = "2 ^ nat (- e) :: int"
  have "?d dvd m" using assms(2) False by (auto simp: float_is_integer_def)
  then obtain k where k: "m = ?d * k" by (auto simp: dvd_def)
  have d: "0 < ?d" by simp
  then have "0 < k" using assms(1) k by (simp add: zero_less_mult_iff)
  moreover have "float_trunc m e = k" using False k d assms(1)
    by (simp add: float_trunc_def signed_divide_int_def)
  ultimately show ?thesis by simp
qed (use assms in \<open>simp add: float_trunc_def\<close>)

lemma weight_ParseFloat_value:
  assumes "weight_ParseFloat (FFin m e) = Inr w" and "0 < m"
  shows "w = float_trunc m e \<and> float_is_integer m e \<and> 0 < w \<and> w \<le> weight_Max"
proof -
  have i: "float_is_integer m e" and le: "\<not> float_trunc m e > weight_Max"
    and w: "w = float_to_int64 (FFin m e)"
    using assms by (simp_all add: weight_ParseFloat_def float_pos_def split: if_splits)
  have "0 < float_trunc m e" using float_trunc_pos [OF assms(2) i] .
  with i le w show ?thesis by (simp add: float_to_int64_def weight_defs int64_defs)
qed

lemma weight_ParseFloat_range:
  assumes "weight_ParseFloat x = Inr w"
  shows "0 \<le> w \<and> w \<le> weight_Max"
proof -
  from assms obtain m e where x: "x = FFin m e" by (cases x) (auto simp: weight_ParseFloat_def)
  show ?thesis
  proof (cases "0 < m")
    case True
    then show ?thesis using weight_ParseFloat_value assms x by fastforce
  next
    case False
    then have "w = 0" using assms x by (auto simp: weight_ParseFloat_def float_pos_def split: if_splits)
    then show ?thesis by (simp add: weight_defs)
  qed
qed

lemma weight_ParseValue_range:
  assumes "goany_ok val" and "weight_ParseValue val = Inr w"
  shows "0 \<le> w \<and> w \<le> weight_Max"
proof (cases val)
  case (AnyInt k z)
  then show ?thesis using assms weight_Normalize_range [of z w]
    by (cases k) (simp_all add: weight_ParseValue_def goany_ok_def weight_defs split: if_splits)
next
  case (AnyFloat64 x)
  then show ?thesis using assms weight_ParseFloat_range [of x w] by (simp add: weight_ParseValue_def)
next
  case (AnyFloat32 x)
  then show ?thesis using assms weight_ParseFloat_range [of x w] by (simp add: weight_ParseValue_def)
next
  case (AnyNumber s)
  then show ?thesis using assms weight_Normalize_range
    by (simp add: weight_ParseValue_def split: option.splits)
next
  case (AnyString s)
  then show ?thesis using assms weight_ParseString_range [of s w] by (simp add: weight_ParseValue_def)
qed (use assms in \<open>simp_all add: weight_ParseValue_def\<close>)

section \<open>Properties\<close>

text \<open>every weight that \<open>ParseValue\<close> accepts, from any kind of number, numeral or string, lies
  between 0 and the maximum the scheduler's arithmetic is dimensioned for; an integer is accepted as it is, or as 0
  when it is negative.\<close>

theorem weight_parse_value_range:
  assumes "goany_ok val" and "weight_ParseValue val = Inr w"
  shows "0 \<le> w \<and> w \<le> weight_Max \<and> (case val of AnyInt k z \<Rightarrow> w = max 0 z | _ \<Rightarrow> True)"
proof -
  have "case val of AnyInt k z \<Rightarrow> w = max 0 z | _ \<Rightarrow> True"
  proof (cases val)
    case (AnyInt k z)
    then show ?thesis using assms
      by (cases k) (auto simp: weight_ParseValue_def weight_Normalize_def goany_ok_def split: if_splits)
  qed simp_all
  with weight_ParseValue_range [OF assms] show ?thesis by simp
qed

theorem weight_parse_value_range_witness:
  "weight_ParseValue (AnyNumber ''1000000'') = Inr 1000000 \<and> (0 \<le> (1000000::int) \<and> 1000000 \<le> weight_Max)"
proof -
  have 1: "goany_ok (AnyNumber ''1000000'')" by (simp add: goany_ok_def)
  have 2: "weight_ParseValue (AnyNumber ''1000000'') = Inr 1000000"
    by (simp add: weight_ParseValue_def Number_Int64_def ParseInt_def digit_value_def byte_def
        weight_Normalize_def weight_defs int64_defs)
  show ?thesis using weight_parse_value_range [OF 1 2] 2 by simp
qed

end
