(* ===== verification/AuthTypes.thy ===== *)
theory AuthTypes
  imports GoAny CredentialWeight Thinking
begin

text \<open>
  The credential data of \<open>sdk/cliproxy/auth\<close>: \<open>types.go\<close>, \<open>status.go\<close>, \<open>errors.go\<close>,
  \<open>classification.go\<close>, \<open>credential_policy.go\<close>, \<open>weight.go\<close> and the accessors of
  \<open>selector.go\<close> and \<open>conductor_execution.go\<close> that read one credential. A pointer to a
  record is an option. Of \<open>Auth\<close> the fields \<open>Storage\<close> and \<open>Runtime\<close>, which hold interface
  values of other packages, are left out.
\<close>

section \<open>Records\<close>

datatype Status =
    StatusUnknown | StatusActive | StatusPending | StatusRefreshing | StatusError | StatusDisabled
  | StatusOther string

record Error =
  er_Code :: string
  er_Message :: string
  er_Retryable :: bool
  er_HTTPStatus :: int

record QuotaState =
  q_Exceeded :: bool
  q_Reason :: string
  q_NextRecoverAt :: time
  q_BackoffLevel :: int
  q_ObservedAt :: time
  q_Signals :: "(string, string) gomap"

record ModelState =
  ms_Status :: Status
  ms_StatusMessage :: string
  ms_Unavailable :: bool
  ms_NextRetryAfter :: time
  ms_LastError :: "Error option"
  ms_Quota :: QuotaState
  ms_UpdatedAt :: time

record recentRequestBucket =
  rb_bucketID :: int
  rb_success :: int
  rb_failed :: int

record Auth =
  au_ID :: string
  au_RegistrationEpoch :: int
  au_Generation :: int
  au_Index :: string
  au_Provider :: string
  au_Prefix :: string
  au_FileName :: string
  au_Label :: string
  au_Status :: Status
  au_StatusMessage :: string
  au_Disabled :: bool
  au_Unavailable :: bool
  au_ProxyURL :: string
  au_Attributes :: "(string, string) gomap"
  au_Metadata :: "(string, goany) gomap"
  au_Quota :: QuotaState
  au_LastError :: "Error option"
  au_CreatedAt :: time
  au_UpdatedAt :: time
  au_LastRefreshedAt :: time
  au_NextRefreshAfter :: time
  au_NextRetryAfter :: time
  au_ModelStates :: "(string, ModelState option) gomap"
  au_Success :: int
  au_Failed :: int
  au_recentRequests :: "recentRequestBucket list"
  au_indexAssigned :: bool

definition zeroQuota :: QuotaState where
  "zeroQuota = \<lparr>q_Exceeded = False, q_Reason = [], q_NextRecoverAt = 0, q_BackoffLevel = 0,
     q_ObservedAt = 0, q_Signals = []\<rparr>"

definition zeroModelState :: ModelState where
  "zeroModelState = \<lparr>ms_Status = StatusOther [], ms_StatusMessage = [], ms_Unavailable = False,
     ms_NextRetryAfter = 0, ms_LastError = None, ms_Quota = zeroQuota, ms_UpdatedAt = 0\<rparr>"

definition recentRequestBucketCount :: nat where "recentRequestBucketCount = 20"
definition recentRequestBucketSeconds :: int where "recentRequestBucketSeconds = 10 * 60"

definition zeroAuth :: Auth where
  \<comment> \<open>the zero value \<open>Auth{}\<close>\<close>
  "zeroAuth = \<lparr>au_ID = [], au_RegistrationEpoch = 0, au_Generation = 0, au_Index = [], au_Provider = [],
     au_Prefix = [], au_FileName = [], au_Label = [], au_Status = StatusOther [],
     au_StatusMessage = [], au_Disabled = False, au_Unavailable = False, au_ProxyURL = [],
     au_Attributes = [], au_Metadata = [], au_Quota = zeroQuota, au_LastError = None,
     au_CreatedAt = 0, au_UpdatedAt = 0, au_LastRefreshedAt = 0, au_NextRefreshAfter = 0,
     au_NextRetryAfter = 0, au_ModelStates = [], au_Success = 0, au_Failed = 0,
     au_recentRequests =
       replicate recentRequestBucketCount \<lparr>rb_bucketID = 0, rb_success = 0, rb_failed = 0\<rparr>,
     au_indexAssigned = False\<rparr>"

section \<open>errors.go\<close>

definition ErrorCodeRequestScoped :: string where "ErrorCodeRequestScoped = ''request_scoped''"
definition ErrorCodeConnectionLifecycle :: string where
  "ErrorCodeConnectionLifecycle = ''connection_lifecycle''"
definition ErrorCodeForceCooldown :: string where "ErrorCodeForceCooldown = ''force_cooldown''"

lemmas error_code_defs =
  ErrorCodeRequestScoped_def ErrorCodeConnectionLifecycle_def ErrorCodeForceCooldown_def

definition Error_Error :: "Error option \<Rightarrow> string" where
  "Error_Error e =
     (case e of None \<Rightarrow> []
      | Some err \<Rightarrow>
          if er_Code err = [] then er_Message err else er_Code err @ '': '' @ er_Message err)"

definition Error_StatusCode :: "Error option \<Rightarrow> int" where
  "Error_StatusCode e = (case e of None \<Rightarrow> 0 | Some err \<Rightarrow> er_HTTPStatus err)"

definition Error_IsRequestScoped :: "Error option \<Rightarrow> bool" where
  "Error_IsRequestScoped e = (case e of None \<Rightarrow> False | Some err \<Rightarrow> er_Code err = ErrorCodeRequestScoped)"

definition Error_MarkRequestScoped :: "Error option \<Rightarrow> Error option" where
  "Error_MarkRequestScoped e = map_option (\<lambda>err. err\<lparr>er_Code := ErrorCodeRequestScoped\<rparr>) e"

definition NewRequestScopedError :: "string \<Rightarrow> int \<Rightarrow> Error" where
  "NewRequestScopedError message httpStatus =
     \<lparr>er_Code = ErrorCodeRequestScoped, er_Message = message, er_Retryable = False,
      er_HTTPStatus = httpStatus\<rparr>"

section \<open>classification.go\<close>

definition AuthKindAPIKey :: string where "AuthKindAPIKey = ''apikey''"
definition AuthKindOAuth :: string where "AuthKindOAuth = ''oauth''"
definition AuthSourceConfig :: string where "AuthSourceConfig = ''config''"
definition AuthSourceFile :: string where "AuthSourceFile = ''file''"
definition AuthSourceGit :: string where "AuthSourceGit = ''git''"
definition AuthSourceMemory :: string where "AuthSourceMemory = ''memory''"
definition AuthSourceObjectStore :: string where "AuthSourceObjectStore = ''objectstore''"
definition AuthSourcePostgres :: string where "AuthSourcePostgres = ''postgres''"
definition AttributeWeight :: string where "AttributeWeight = ''weight''"

definition authAttribute :: "Auth \<Rightarrow> string \<Rightarrow> string" where
  "authAttribute auth key = TrimSpace (mgetd [] (au_Attributes auth) key)"

definition authMetadataString :: "Auth \<Rightarrow> string \<Rightarrow> string" where
  "authMetadataString auth key =
     (case mget (au_Metadata auth) key of Some (AnyString s) \<Rightarrow> TrimSpace s | _ \<Rightarrow> [])"

definition normalizeAuthKind :: "string \<Rightarrow> string" where
  "normalizeAuthKind kind =
     (let k = ToLower (TrimSpace kind) in
      if k = AuthKindAPIKey \<or> k = ''api_key'' \<or> k = ''api-key'' then AuthKindAPIKey
      else if k = AuthKindOAuth \<or> k = ''oauth2'' then AuthKindOAuth
      else [])"

definition normalizeAuthSourceKind :: "string \<Rightarrow> string" where
  "normalizeAuthSourceKind source =
     (let k = ToLower (TrimSpace source) in
      if k = AuthSourceConfig then AuthSourceConfig
      else if k = AuthSourceFile \<or> k = ''filesystem'' then AuthSourceFile
      else if k = AuthSourceGit then AuthSourceGit
      else if k = AuthSourceMemory \<or> k = ''runtime'' \<or> k = ''runtime_only'' then AuthSourceMemory
      else if k = AuthSourceObjectStore \<or> k = ''object-store'' then AuthSourceObjectStore
      else if k = AuthSourcePostgres \<or> k = ''postgresql'' \<or> k = ''database'' \<or> k = ''db''
        then AuthSourcePostgres
      else [])"

definition authHasOAuthMetadata :: "Auth \<Rightarrow> bool" where
  "authHasOAuthMetadata auth \<longleftrightarrow>
     au_Metadata auth \<noteq> [] \<and>
     (list_ex (\<lambda>key. authMetadataString auth key \<noteq> [])
        [''access_token'', ''refresh_token'', ''id_token'', ''email'', ''token_type'', ''expires_at'',
         ''expired'']
      \<or> (case mget (au_Metadata auth) ''token'' of Some (AnyMap token) \<Rightarrow> token \<noteq> [] | _ \<Rightarrow> False))"

definition AuthKind :: "Auth \<Rightarrow> string" where
  "AuthKind a =
     (let k1 = normalizeAuthKind (authAttribute a ''auth_kind'') in
      if k1 \<noteq> [] then k1
      else (let k2 = normalizeAuthKind (authMetadataString a ''auth_kind'') in
        if k2 \<noteq> [] then k2
        else if authAttribute a ''api_key'' \<noteq> [] then AuthKindAPIKey
        else if authHasOAuthMetadata a then AuthKindOAuth
        else []))"

definition AuthSourceKind :: "Auth \<Rightarrow> string" where
  "AuthSourceKind a =
     (if EqualFold (authAttribute a ''runtime_only'') ''true'' then AuthSourceMemory
      else (let backend = normalizeAuthSourceKind (authAttribute a ''source_backend'') in
        if backend \<noteq> [] then backend
        else (let source = authAttribute a ''source'' in
          if source \<noteq> [] then
            (if HasPrefix (ToLower source) (AuthSourceConfig @ '':'') then AuthSourceConfig
             else (let normalized = normalizeAuthSourceKind source in
               if normalized \<noteq> [] then normalized else AuthSourceFile))
          else if authAttribute a ''path'' \<noteq> [] then AuthSourceFile
          else if TrimSpace (au_FileName a) \<noteq> [] then AuthSourceFile
          else [])))"

section \<open>credential_policy.go, weight.go and the accessors\<close>

definition CredentialPolicyCodexAlphaSearchV1 :: string where
  "CredentialPolicyCodexAlphaSearchV1 = ''codex_alpha_search_v1''"

definition normalizeCredentialPolicy :: "string \<Rightarrow> string" where
  "normalizeCredentialPolicy policy =
     (if ToLower (TrimSpace policy) = CredentialPolicyCodexAlphaSearchV1
      then CredentialPolicyCodexAlphaSearchV1 else [])"

definition credentialPolicyAllows :: "string \<Rightarrow> Auth \<Rightarrow> bool" where
  "credentialPolicyAllows policy auth =
     (if policy = CredentialPolicyCodexAlphaSearchV1 then
        (if \<not> EqualFold (TrimSpace (au_Provider auth)) ''codex'' then False
         else if AuthKind auth = AuthKindOAuth then True
         else if AuthKind auth = AuthKindAPIKey
           then EqualFold (authAttribute auth ''codex_alpha_search'') ''true''
         else False)
      else False)"

definition isFreeCodexAuth :: "Auth \<Rightarrow> bool" where
  "isFreeCodexAuth auth \<longleftrightarrow>
     EqualFold (TrimSpace (au_Provider auth)) ''codex''
     \<and> EqualFold (authAttribute auth ''plan_type'') ''free''"

definition authPriority :: "Auth \<Rightarrow> int" where
  "authPriority auth =
     (let raw = authAttribute auth ''priority'' in
      if raw = [] then 0 else (case Atoi raw of None \<Rightarrow> 0 | Some parsed \<Rightarrow> parsed))"

definition authWeight :: "Auth \<Rightarrow> int" where
  "authWeight auth =
     (case (case mget (au_Attributes auth) AttributeWeight of
              Some raw \<Rightarrow> if TrimSpace raw \<noteq> [] then Some raw else None
            | None \<Rightarrow> None) of
        Some raw \<Rightarrow> (case weight_ParseString raw of Inl e \<Rightarrow> 0 | Inr weight \<Rightarrow> weight)
      | None \<Rightarrow>
          (case mget (au_Metadata auth) AttributeWeight of
             Some raw \<Rightarrow> (case weight_ParseValue raw of Inl e \<Rightarrow> 0 | Inr weight \<Rightarrow> weight)
           | None \<Rightarrow> weight_Default))"

text \<open>A weight read from metadata has a value of its Go type.\<close>

definition weight_typed :: "Auth \<Rightarrow> bool" where
  "weight_typed auth = (case mget (au_Metadata auth) AttributeWeight of Some v \<Rightarrow> goany_ok v | None \<Rightarrow> True)"

lemma authWeight_range: "weight_typed a \<Longrightarrow> 0 \<le> authWeight a \<and> authWeight a \<le> weight_Max"
  using weight_ParseString_range weight_ParseValue_range
  by (auto simp: authWeight_def weight_typed_def weight_defs split: option.splits sum.splits if_splits)

definition ValidateAuthWeight :: "Auth option \<Rightarrow> string + unit" where
  "ValidateAuthWeight auth0 =
     (case auth0 of None \<Rightarrow> Inr ()
      | Some auth \<Rightarrow>
          result_bind
            (case mget (au_Attributes auth) AttributeWeight of
               None \<Rightarrow> Inr 0
             | Some raw \<Rightarrow>
                 (case weight_ParseString raw of
                    Inl e \<Rightarrow> Inl (''invalid attributes weight: '' @ e) | Inr w \<Rightarrow> Inr w))
            (\<lambda>_. case mget (au_Metadata auth) AttributeWeight of
               None \<Rightarrow> Inr ()
             | Some raw \<Rightarrow>
                 (case weight_ParseValue raw of
                    Inl e \<Rightarrow> Inl (''invalid metadata weight: '' @ e) | Inr w \<Rightarrow> Inr ())))"

definition ApplyAuthWeightMetadata ::
  "Auth option \<Rightarrow> (string, goany) gomap \<Rightarrow> string + Auth option" where
  "ApplyAuthWeightMetadata auth0 metadata =
     result_bind (ValidateAuthWeight auth0) (\<lambda>_.
       case auth0 of None \<Rightarrow> Inr None
       | Some auth \<Rightarrow>
           (case mget metadata AttributeWeight of
              None \<Rightarrow> Inr (Some auth)
            | Some raw \<Rightarrow>
                (case weight_ParseValue raw of
                   Inl e \<Rightarrow> Inl (''invalid metadata weight: '' @ e)
                 | Inr weight \<Rightarrow>
                     Inr (Some (auth\<lparr>au_Attributes :=
                       mput AttributeWeight (FormatInt weight) (au_Attributes auth)\<rparr>)))))"

definition authWebsocketsEnabled :: "Auth \<Rightarrow> bool" where
  "authWebsocketsEnabled auth =
     (let raw = authAttribute auth ''websockets'' in
      case (if raw \<noteq> [] then ParseBool raw else None) of
        Some parsed \<Rightarrow> parsed
      | None \<Rightarrow>
          (case mget (au_Metadata auth) ''websockets'' of
             Some (AnyBool v) \<Rightarrow> v
           | Some (AnyString v) \<Rightarrow> (case ParseBool (TrimSpace v) of Some parsed \<Rightarrow> parsed | None \<Rightarrow> False)
           | _ \<Rightarrow> False))"

definition openAICompatibleProviderPrefix :: string where
  "openAICompatibleProviderPrefix = ''openai-compatible-''"

end
