(* ===== verification/AuthData.thy ===== *)
theory AuthData
  imports AuthTypes
begin

text \<open>
  The rest of \<open>sdk/cliproxy/auth/types.go\<close>: virtual credentials of a plugin, the ring of recent
  requests, the per-credential overrides read from metadata, and the expiry of the access
  token; \<open>executorKeyFromAuth\<close> of \<open>conductor_execution.go\<close> and
  \<open>OpenAICompatibleProviderKey\<close> of \<open>internal/util/provider.go\<close>.
\<close>

section \<open>What the model takes as parameters\<close>

text \<open>
  \<open>Env\<close> collects the decoders of the standard library and of third parties that the modelled
  code calls on text it does not look into: \<open>time.Parse\<close> of a layout and a value,
  \<open>strconv.ParseFloat\<close>, the two URL-safe base64 decodings, \<open>json.Unmarshal\<close> of a claim set into
  \<open>struct { Exp any }\<close> and of a text into \<open>any\<close> (\<open>None\<close> is the error), \<open>json.Valid\<close>, and \<open>gjson.Get(body, path).String()\<close>.
  No law is assumed of any of them.
\<close>

record Env =
  env_TimeParse :: "string \<Rightarrow> string \<Rightarrow> time option"
  env_ParseFloat :: "string \<Rightarrow> gofloat option"
  env_Base64URL :: "string \<Rightarrow> string option"
  env_Base64RawURL :: "string \<Rightarrow> string option"
  env_JSONExp :: "string \<Rightarrow> goany option"
  env_JSONValue :: "string \<Rightarrow> goany option"
  env_JSONValid :: "string \<Rightarrow> bool"
  env_GJSONGet :: "string \<Rightarrow> string \<Rightarrow> string"

section \<open>Keys of a credential\<close>

definition MarkPluginVirtualAuth :: "Auth \<Rightarrow> string \<Rightarrow> int \<Rightarrow> Auth" where
  "MarkPluginVirtualAuth auth sourcePath0 ordinal =
     (let attrs1 = mput ''plugin_virtual'' ''true'' (au_Attributes auth);
          sourcePath = TrimSpace sourcePath0;
          attrs2 = (if sourcePath \<noteq> [] then mput ''virtual_source'' sourcePath attrs1 else attrs1);
          s1 = TrimSpace (au_ID auth);
          s2 = (if s1 = [] then TrimSpace (au_FileName auth) else s1);
          seedID = (if s2 = [] then FormatInt ordinal else s2);
          seed = Join [ToLower (TrimSpace (au_Provider auth)), sourcePath, seedID, FormatInt ordinal] ''|''
      in auth\<lparr>au_Attributes := mput ''auth_index_seed'' seed attrs2\<rparr>)"

definition IsPluginVirtualAuth :: "Auth \<Rightarrow> bool" where
  "IsPluginVirtualAuth auth \<longleftrightarrow>
     au_Attributes auth \<noteq> [] \<and> EqualFold (authAttribute auth ''plugin_virtual'') ''true''"

definition OpenAICompatibleProviderKey :: "string \<Rightarrow> string" where
  "OpenAICompatibleProviderKey name0 =
     (let name = ToLower (TrimSpace name0) in
      if name = [] \<or> name = ''openai-compatibility'' \<or> HasPrefix name openAICompatibleProviderPrefix
      then (if name = [] then ''openai-compatibility'' else name)
      else openAICompatibleProviderPrefix @ name)"

definition executorKeyFromAuth :: "Auth \<Rightarrow> string" where
  "executorKeyFromAuth auth =
     (let providerKey = authAttribute auth ''provider_key'';
          compatName = authAttribute auth ''compat_name''
      in if compatName \<noteq> []
         then OpenAICompatibleProviderKey (if providerKey = [] then compatName else providerKey)
         else if EqualFold (TrimSpace (au_Provider auth)) ''openai-compatibility''
         then OpenAICompatibleProviderKey
           (if TrimSpace (au_Label auth) = [] then ''openai-compatibility'' else TrimSpace (au_Label auth))
         else ToLower (TrimSpace (au_Provider auth)))"

definition ProxyInfo :: "Auth \<Rightarrow> string" where
  "ProxyInfo a =
     (let proxyStr = TrimSpace (au_ProxyURL a) in
      if proxyStr = [] then []
      else (case Index proxyStr ''://'' of
          Some (Suc i) \<Rightarrow> ''via '' @ take (Suc i) proxyStr @ '' proxy''
        | _ \<Rightarrow> ''via proxy''))"

definition AccountInfo :: "Auth \<Rightarrow> string \<times> string" where
  "AccountInfo a =
     (if AuthKind a = AuthKindOAuth then (''oauth'', authMetadataString a ''email'')
      else if AuthKind a = AuthKindAPIKey then (''api_key'', authAttribute a ''api_key'')
      else ([], []))"

section \<open>Overrides in the metadata\<close>

text \<open>A pair \<open>(value, ok)\<close> is an option; the two keys are tried in the code's order.\<close>

definition metadataBool :: "Auth \<Rightarrow> string \<Rightarrow> bool option" where
  "metadataBool a key = Option.bind (mget (au_Metadata a) key) parseBoolAny"

definition DisableCoolingOverride :: "Auth \<Rightarrow> bool option" where
  "DisableCoolingOverride a =
     (case metadataBool a ''disable_cooling'' of
        Some parsed \<Rightarrow> Some parsed
      | None \<Rightarrow> metadataBool a ''disable-cooling'')"

definition ToolPrefixDisabled :: "Auth \<Rightarrow> bool" where
  "ToolPrefixDisabled a =
     (case metadataBool a ''tool_prefix_disabled'' of
        Some parsed \<Rightarrow> parsed
      | None \<Rightarrow> (case metadataBool a ''tool-prefix-disabled'' of Some parsed \<Rightarrow> parsed | None \<Rightarrow> False))"

definition RequestRetryOverride :: "Auth \<Rightarrow> int option" where
  "RequestRetryOverride a =
     (case Option.bind (mget (au_Metadata a) ''request_retry'') parseIntAny of
        Some parsed \<Rightarrow> if parsed < 0 then None else Some parsed
      | None \<Rightarrow>
          (case Option.bind (mget (au_Metadata a) ''request-retry'') parseIntAny of
             Some parsed \<Rightarrow> if parsed < 0 then None else Some parsed
           | None \<Rightarrow> None))"

section \<open>The ring of recent requests\<close>

text \<open>
  Twenty buckets of ten minutes each. \<open>unixSeconds\<close> is \<open>Time.Unix\<close>; the label of a bucket, a
  local time of day, is a function of its number and is a parameter of the snapshot.
\<close>

definition unixEpoch :: int where "unixEpoch = 62135596800"

definition unixSeconds :: "time \<Rightarrow> int" where
  "unixSeconds t = t div second - unixEpoch"

definition recentRequestBucketID :: "time \<Rightarrow> int" where
  "recentRequestBucketID now =
     (if IsZero now then 0 else unixSeconds now sdiv recentRequestBucketSeconds)"

definition recentRequestBucketIndex :: "int \<Rightarrow> nat" where
  "recentRequestBucketIndex bucketID =
     (let m = bucketID smod int recentRequestBucketCount in
      nat (if m < 0 then m + int recentRequestBucketCount else m))"

definition recordRecentRequest :: "time \<Rightarrow> bool \<Rightarrow> Auth \<Rightarrow> Auth" where
  "recordRecentRequest now success a =
     (let bucketID = recentRequestBucketID now;
          idx = recentRequestBucketIndex bucketID;
          b0 = au_recentRequests a ! idx;
          b1 = (if rb_bucketID b0 \<noteq> bucketID
                then \<lparr>rb_bucketID = bucketID, rb_success = 0, rb_failed = 0\<rparr> else b0);
          b2 = (if success then b1\<lparr>rb_success := rb_success b1 + 1\<rparr>
                else b1\<lparr>rb_failed := rb_failed b1 + 1\<rparr>)
      in a\<lparr>au_recentRequests := (au_recentRequests a)[idx := b2]\<rparr>)"

definition RecentRequestsSnapshot :: "(int \<Rightarrow> string) \<Rightarrow> time \<Rightarrow> Auth \<Rightarrow> (string \<times> int \<times> int) list" where
  "RecentRequestsSnapshot label now a =
     map (\<lambda>i. let bucketID = recentRequestBucketID now - int i;
                  bucket = au_recentRequests a ! recentRequestBucketIndex bucketID
              in if rb_bucketID bucket = bucketID
                 then (label bucketID, rb_success bucket, rb_failed bucket)
                 else (label bucketID, 0, 0))
       (rev [0..<recentRequestBucketCount])"

section \<open>Expiry of the access token\<close>

definition normaliseUnix :: "int \<Rightarrow> time" where
  "normaliseUnix raw =
     (if raw \<le> 0 then 0
      else if raw > 1000000000000 then raw * 1000000 + unixEpoch * second
      else (raw + unixEpoch) * second)"

definition timeLayouts :: "string list" where
  "timeLayouts =
     [''2006-01-02T15:04:05Z07:00'', ''2006-01-02T15:04:05.999999999Z07:00'',
      ''2006-01-02 15:04:05'', ''2006-01-02 15:04'', ''2006-01-02T15:04:05Z07:00'']"

fun firstSome :: "('a \<Rightarrow> 'b option) \<Rightarrow> 'a list \<Rightarrow> 'b option" where
  \<comment> \<open>a loop that returns at its first success\<close>
  "firstSome f [] = None"
| "firstSome f (x # xs) = (case f x of Some y \<Rightarrow> Some y | None \<Rightarrow> firstSome f xs)"

definition parseTimeValue :: "Env \<Rightarrow> goany \<Rightarrow> time option" where
  "parseTimeValue env v =
     (case v of
        AnyString str \<Rightarrow>
          (let s = TrimSpace str in
           if s = [] then None
           else case firstSome (\<lambda>layout. env_TimeParse env layout s) timeLayouts of
               Some ts \<Rightarrow> Some ts
             | None \<Rightarrow> map_option normaliseUnix (ParseInt s))
      | AnyFloat64 x \<Rightarrow> Some (normaliseUnix (float_to_int64 x))
      | AnyInt k z \<Rightarrow> if k \<in> {KInt, KInt32, KInt64} then Some (normaliseUnix z) else None
      | AnyNumber s \<Rightarrow>
          (case Number_Int64 s of
             Some i \<Rightarrow> Some (normaliseUnix i)
           | None \<Rightarrow> map_option (\<lambda>f. normaliseUnix (float_to_int64 f)) (env_ParseFloat env s))
      | _ \<Rightarrow> None)"

definition parseRelativeExpirySeconds :: "(string, goany) gomap \<Rightarrow> int option" where
  "parseRelativeExpirySeconds meta =
     firstSome (\<lambda>key. case Option.bind (mget meta key) parseIntAny of
         Some seconds \<Rightarrow> if seconds > 0 then Some seconds else None | None \<Rightarrow> None)
       [''expires_in'', ''expiresIn'']"

definition parseRelativeExpiryTimestamp :: "Env \<Rightarrow> (string, goany) gomap \<Rightarrow> time option" where
  "parseRelativeExpiryTimestamp env meta =
     firstSome (\<lambda>key. case Option.bind (mget meta key) (parseTimeValue env) of
         Some timestamp \<Rightarrow> if IsZero timestamp then None else Some timestamp | None \<Rightarrow> None)
       [''timestamp'', ''issued_at'', ''issuedAt'']"

definition expireKeys :: "string list" where
  "expireKeys = [''expired'', ''expire'', ''expires_at'', ''expiresAt'', ''expiry'', ''expires'']"

text \<open>
  The tests of one map, without the nested \<open>token\<close> objects. In a \<open>map[string]string\<close> these are
  all there is: the code's recursive call finds no object below it.
\<close>

definition expirationDirect :: "Env \<Rightarrow> (string, goany) gomap \<Rightarrow> time option" where
  "expirationDirect env meta =
     (case firstSome (\<lambda>key. Option.bind (mget meta key) (parseTimeValue env)) expireKeys of
        Some ts \<Rightarrow> Some ts
      | None \<Rightarrow>
          (case parseRelativeExpirySeconds meta of
             None \<Rightarrow> None
           | Some expiresIn \<Rightarrow>
               map_option (\<lambda>timestamp. timestamp + wrap64 (expiresIn * second))
                 (parseRelativeExpiryTimestamp env meta)))"

definition stringMapAny :: "(string \<times> string) list \<Rightarrow> (string, goany) gomap" where
  "stringMapAny m = map (\<lambda>(k, v). (k, AnyString v)) m"

function expirationFromMap :: "Env \<Rightarrow> (string, goany) gomap \<Rightarrow> time option" where
  "expirationFromMap env meta =
     (case expirationDirect env meta of
        Some ts \<Rightarrow> Some ts
      | None \<Rightarrow>
          (let nested = (\<lambda>key. case mget meta key of
                 Some (AnyMap m) \<Rightarrow> expirationFromMap env m
               | Some (AnyStringMap m) \<Rightarrow> expirationDirect env (stringMapAny m)
               | _ \<Rightarrow> None)
           in case nested ''token'' of Some ts \<Rightarrow> Some ts | None \<Rightarrow> nested ''Token''))"
  by pat_completeness auto

lemma mget_size: "mget meta key = Some v \<Longrightarrow> size v < size_list (size_prod (\<lambda>_. 0) size) meta"
  by (induction meta) (auto split: if_splits)

termination expirationFromMap
  by (relation "measure (\<lambda>(env, meta). size_list (size_prod (\<lambda>_. 0) size) meta)")
    (auto dest: mget_size)

declare expirationFromMap.simps [simp del]

definition parseJWTExp :: "Env \<Rightarrow> string \<Rightarrow> time option" where
  "parseJWTExp env token0 =
     (let token = TrimSpace token0; parts = SplitByte token CHR ''.'' in
      if token = [] then None
      else if length parts \<noteq> 3 then None
      else (let seg = parts ! 1;
                padded = (if length seg mod 4 = 2 then seg @ ''=='' else if length seg mod 4 = 3 then seg @ ''='' else seg)
            in case (case env_Base64URL env padded of
                       Some bytes \<Rightarrow> Some bytes | None \<Rightarrow> env_Base64RawURL env seg) of
                 None \<Rightarrow> None
               | Some bytes \<Rightarrow>
                   (case env_JSONExp env bytes of
                      Some (AnyFloat64 x) \<Rightarrow> if float_pos x then Some (normaliseUnix (float_to_int64 x)) else None
                    | Some (AnyInt k z) \<Rightarrow> if k \<in> {KInt64, KInt} \<and> z > 0 then Some (normaliseUnix z) else None
                    | Some (AnyString str) \<Rightarrow>
                        (case ParseInt (TrimSpace str) of
                           Some sec \<Rightarrow> if sec > 0 then Some (normaliseUnix sec) else None
                         | None \<Rightarrow> None)
                    | _ \<Rightarrow> None)))"

definition authAccessToken :: "Auth \<Rightarrow> string" where
  "authAccessToken auth =
     (let token = authMetadataString auth ''access_token'' in
      if token \<noteq> [] then token else authMetadataString auth ''accessToken'')"

definition ExpirationTime :: "Env \<Rightarrow> Auth \<Rightarrow> time option" where
  "ExpirationTime env a =
     (let tokenStr = authAccessToken a in
      case (if tokenStr \<noteq> [] then parseJWTExp env tokenStr else None) of
        Some jwtExp \<Rightarrow> Some jwtExp
      | None \<Rightarrow> expirationFromMap env (au_Metadata a))"

definition AccessTokenExpirationTime :: "Env \<Rightarrow> Auth \<Rightarrow> time option" where
  "AccessTokenExpirationTime env a =
     (let tokenStr = authAccessToken a in
      if tokenStr = [] then None
      else case parseJWTExp env tokenStr of Some jwtExp \<Rightarrow> Some jwtExp | None \<Rightarrow> ExpirationTime env a)"

definition HasValidAccessToken :: "Env \<Rightarrow> time \<Rightarrow> Auth \<Rightarrow> bool" where
  "HasValidAccessToken env now a =
     (let tokenStr = authAccessToken a in
      if tokenStr = [] then False
      else case AccessTokenExpirationTime env a of Some exp \<Rightarrow> After exp now | None \<Rightarrow> True)"

section \<open>Laws\<close>

lemma recentRequestBucketIndex_mod: "recentRequestBucketIndex b = nat (b mod 20)"
proof -
  have "b smod 20 = (if b < 0 \<and> b mod 20 \<noteq> 0 then b mod 20 - 20 else b mod 20)"
  proof (cases "b < 0")
    case True
    then have s: "b smod 20 = - ((- b) mod 20)"
      by (simp add: signed_modulo_int_def sgn_if)
    have "0 \<le> b mod 20" "b mod 20 < 20" by simp_all
    then show ?thesis using True s by (cases "b mod 20 = 0") (simp_all add: zmod_zminus1_eq_if)
  next
    case False
    then show ?thesis by (cases "b = 0") (simp_all add: signed_modulo_int_def sgn_if)
  qed
  moreover have "0 \<le> b mod 20" "b mod 20 < 20" by simp_all
  ultimately show ?thesis
    by (auto simp: recentRequestBucketIndex_def recentRequestBucketCount_def Let_def)
qed

lemma recentRequestBucketIndex_less: "recentRequestBucketIndex b < recentRequestBucketCount"
  by (simp add: recentRequestBucketIndex_mod recentRequestBucketCount_def)

lemma recentRequestBucketIndex_inj:
  assumes "i < recentRequestBucketCount" and "j < recentRequestBucketCount"
    and "recentRequestBucketIndex (b - int i) = recentRequestBucketIndex (b - int j)"
  shows "i = j"
proof -
  have "(b - int i) mod 20 = (b - int j) mod 20"
    using assms(3) by (simp add: recentRequestBucketIndex_mod)
  then have "20 dvd (b - int i) - (b - int j)" by (simp add: mod_eq_dvd_iff)
  then have "20 dvd int j - int i" by simp
  then obtain k where k: "int j - int i = 20 * k" by (auto simp: dvd_def)
  have "- 20 < int j - int i" "int j - int i < 20" using assms(1,2)
    by (simp_all add: recentRequestBucketCount_def)
  with k have "k = 0" by linarith
  with k show ?thesis by simp
qed

lemma recordRecentRequest_length [simp]:
  "length (au_recentRequests (recordRecentRequest now ok a)) = length (au_recentRequests a)"
  by (simp add: recordRecentRequest_def Let_def)

definition addOutcome :: "bool \<Rightarrow> string \<times> int \<times> int \<Rightarrow> string \<times> int \<times> int" where
  "addOutcome success e =
     (case e of (l, s, f) \<Rightarrow> if success then (l, s + 1, f) else (l, s, f + 1))"

section \<open>Properties\<close>

text \<open>recording one request changes exactly one entry of the snapshot taken at the same time, the
  last one (the current ten minutes), whose success or failure count goes up by one; the other
  nineteen windows keep their counts.\<close>

theorem recent_snapshot_record:
  assumes "length (au_recentRequests a) = recentRequestBucketCount"
  shows "RecentRequestsSnapshot label now (recordRecentRequest now ok a)
    = butlast (RecentRequestsSnapshot label now a)
      @ [addOutcome ok (last (RecentRequestsSnapshot label now a))]"
proof -
  define b where "b = recentRequestBucketID now"
  define entry where "entry r i = (let bucketID = b - int i;
                  bucket = r ! recentRequestBucketIndex bucketID
              in if rb_bucketID bucket = bucketID
                 then (label bucketID, rb_success bucket, rb_failed bucket)
                 else (label bucketID, 0, 0))" for r :: "recentRequestBucket list" and i
  have snap: "RecentRequestsSnapshot label now a' = map (entry (au_recentRequests a')) (rev [1..<20]) @ [entry (au_recentRequests a') 0]" for a'
  proof -
    have "rev [0..<recentRequestBucketCount] = rev [1..<20] @ [0]"
      by (simp add: recentRequestBucketCount_def upt_conv_Cons)
    then show ?thesis by (simp add: RecentRequestsSnapshot_def entry_def b_def)
  qed
  let ?a' = "recordRecentRequest now ok a"
  have other: "entry (au_recentRequests ?a') i = entry (au_recentRequests a) i" if "i \<in> set (rev [1..<20])" for i
  proof -
    have "recentRequestBucketIndex (b - int i) \<noteq> recentRequestBucketIndex b"
      using recentRequestBucketIndex_inj [of i 0 b] that by (auto simp: recentRequestBucketCount_def)
    then show ?thesis by (simp add: entry_def recordRecentRequest_def Let_def b_def)
  qed
  have "entry (au_recentRequests ?a') 0 = addOutcome ok (entry (au_recentRequests a) 0)"
    using assms recentRequestBucketIndex_less [of b]
    by (auto simp: entry_def recordRecentRequest_def Let_def b_def addOutcome_def)
  then show ?thesis using other by (simp add: snap cong: map_cong)
qed

theorem recent_snapshot_record_witness:
  "RecentRequestsSnapshot (\<lambda>_. []) 1 (recordRecentRequest 1 True zeroAuth)
    = butlast (RecentRequestsSnapshot (\<lambda>_. []) 1 zeroAuth)
      @ [addOutcome True (last (RecentRequestsSnapshot (\<lambda>_. []) 1 zeroAuth))]"
  by (rule recent_snapshot_record) (simp add: zeroAuth_def)

end
