(* ===== verification/ErrorClass.thy ===== *)
theory ErrorClass
  imports AuthData
begin

text \<open>
  Classification of upstream failures: \<open>internal/clienterror/client_error.go\<close> and the predicates
  of \<open>sdk/cliproxy/auth/conductor_cooldown.go\<close> that decide whether a failure is the fault of the
  request, of the connection, or of the credential.
\<close>

section \<open>Go errors\<close>

text \<open>
  A Go \<open>error\<close> is the list of the errors its \<open>Unwrap\<close> chain visits, outermost first; nil is the
  empty list. A node holds its text and, for each interface the code asks for with
  \<open>errors.As\<close>, what the node answers when it implements it: a status code, the flag of
  \<open>IsRequestScoped\<close>, the retry delay, the flag of \<open>IsCredentialScoped\<close>, the \<open>*Error\<close> it gives to
  \<open>errors.As\<close> (and whether it is that \<open>*Error\<close> itself), the close code of a web socket, and which sentinel of \<open>context\<close> or \<open>io\<close> it is. Errors that wrap
  several errors at once are not modelled.
\<close>

datatype sentinel = ContextCanceled | ContextDeadlineExceeded | IoEOF | IoUnexpectedEOF

record errnode =
  en_Text :: string
  en_StatusCode :: "int option"
  en_RequestScoped :: "bool option"
  en_RetryAfter :: "duration option option"
  en_CredentialScoped :: "bool option"
  en_AuthError :: "Error option"
  en_IsAuthError :: bool
  en_CloseCode :: "int option"
  en_Sentinel :: "sentinel option"

type_synonym goerror = "errnode list"

definition err_Text :: "goerror \<Rightarrow> string" where
  "err_Text err = (case err of [] \<Rightarrow> [] | n # ns \<Rightarrow> en_Text n)"

definition err_As :: "(errnode \<Rightarrow> 'a option) \<Rightarrow> goerror \<Rightarrow> 'a option" where
  "err_As sel err = firstSome sel err"

definition err_Is :: "sentinel \<Rightarrow> goerror \<Rightarrow> bool" where
  "err_Is s err = list_ex (\<lambda>n. en_Sentinel n = Some s) err"

definition plainError :: "string \<Rightarrow> goerror" where
  \<comment> \<open>\<open>errors.New\<close>\<close>
  "plainError text = [\<lparr>en_Text = text, en_StatusCode = None, en_RequestScoped = None,
     en_RetryAfter = None, en_CredentialScoped = None, en_AuthError = None, en_IsAuthError = False,
     en_CloseCode = None, en_Sentinel = None\<rparr>]"

definition authError :: "Error \<Rightarrow> goerror" where
  \<comment> \<open>a non-nil \<open>*Error\<close> as an \<open>error\<close>\<close>
  "authError e = [\<lparr>en_Text = Error_Error (Some e), en_StatusCode = Some (er_HTTPStatus e),
     en_RequestScoped = Some (Error_IsRequestScoped (Some e)), en_RetryAfter = None,
     en_CredentialScoped = None, en_AuthError = Some e, en_IsAuthError = True,
     en_CloseCode = None, en_Sentinel = None\<rparr>]"

section \<open>client_error.go\<close>

definition StatusClientClosedRequest :: int where "StatusClientClosedRequest = 499"

definition requestFaultCodes :: "string list" where
  "requestFaultCodes =
     [''cyber_policy'', ''context_length_exceeded'', ''message_too_big'', ''string_above_max_length'',
      ''invalid_prompt'', ''invalid_value'', ''unsupported_value'', ''invalid_request_error'',
      ''previous_response_not_found'']"

definition requestFaultTypes :: "string list" where
  "requestFaultTypes =
     [''invalid_request'', ''invalid_request_error'', ''bad_request_error'', ''invalid_prompt'']"

definition HTTPStatusFromError :: "goerror \<Rightarrow> int" where
  "HTTPStatusFromError err =
     (if err = [] then 0
      else case (case err_As en_StatusCode err of
                   Some code \<Rightarrow> if code > 0 then Some code else None | None \<Rightarrow> None) of
          Some code \<Rightarrow> code
        | None \<Rightarrow>
            if err_Is ContextCanceled err then StatusClientClosedRequest
            else if err_Is ContextDeadlineExceeded err then 504
            else 0)"

definition HTTPStatusFromErrorOr :: "goerror \<Rightarrow> int \<Rightarrow> int" where
  "HTTPStatusFromErrorOr err fallback =
     (let code = HTTPStatusFromError err in if code > 0 then code else fallback)"

definition IsItemNotPersisted :: "string \<Rightarrow> bool" where
  "IsItemNotPersisted message =
     (let lower = ToLower message in
      Contains lower ''item with id'' \<and> Contains lower ''not found''
      \<and> Contains lower ''items are not persisted when `store` is set to false'')"

definition bodyField :: "Env \<Rightarrow> string \<Rightarrow> string \<Rightarrow> string" where
  "bodyField env body path = ToLower (TrimSpace (env_GJSONGet env body path))"

definition typePaths :: "string list" where
  "typePaths = [''error.type'', ''type'', ''response.error.type'', ''body.error.type'']"

definition codePaths :: "string list" where
  "codePaths = [''error.code'', ''code'', ''response.error.code'', ''body.error.code'']"

definition hasAuthenticationErrorBody :: "Env \<Rightarrow> goerror \<Rightarrow> bool" where
  "hasAuthenticationErrorBody env err =
     (if err = [] then False
      else (let body = TrimSpace (err_Text err) in
        if body = [] \<or> \<not> env_JSONValid env body then False
        else list_ex (\<lambda>path. bodyField env body path = ''authentication_error'') typePaths))"

definition hasRequestFaultBody :: "Env \<Rightarrow> goerror \<Rightarrow> bool" where
  "hasRequestFaultBody env err =
     (if err = [] then False
      else (let body = TrimSpace (err_Text err) in
        if body = [] \<or> \<not> env_JSONValid env body then False
        else if list_ex (\<lambda>path. bodyField env body path \<in> set requestFaultCodes) codePaths then True
        else list_ex (\<lambda>path. bodyField env body path \<in> set requestFaultTypes) typePaths))"

definition IsRequestFault :: "Env \<Rightarrow> int \<Rightarrow> goerror \<Rightarrow> bool" where
  "IsRequestFault env status0 err =
     (let status = (if status0 \<le> 0 \<and> err \<noteq> []
                    then (case err_As en_StatusCode err of Some code \<Rightarrow> code | None \<Rightarrow> status0)
                    else status0)
      in if status = 402 \<or> status = 429 then False
         else if status = 401 \<and> hasAuthenticationErrorBody env err then False
         else if hasRequestFaultBody env err then True
         else if err \<noteq> [] \<and> IsItemNotPersisted (err_Text err) then True
         else status \<in> {400, 409, 413, 422})"

definition IsClientCancellation :: "int \<Rightarrow> goerror \<Rightarrow> bool" where
  "IsClientCancellation status err =
     (if status = StatusClientClosedRequest then True
      else if err = [] then False
      else if err_Is ContextCanceled err then True
      else if err_As en_StatusCode err = Some StatusClientClosedRequest then True
      else (let lower = ToLower (err_Text err) in
        Contains lower ''context canceled'' \<or> Contains lower ''client closed request''))"

section \<open>Accessors of an error\<close>

definition cloneError :: "Error option \<Rightarrow> Error option" where
  "cloneError err =
     (case err of None \<Rightarrow> None
      | Some e \<Rightarrow> Some \<lparr>er_Code = er_Code e, er_Message = er_Message e,
                       er_Retryable = er_Retryable e, er_HTTPStatus = er_HTTPStatus e\<rparr>)"

lemma cloneError_id [simp]: "cloneError err = err"
  by (cases err) (simp_all add: cloneError_def)

definition statusCodeFromError :: "goerror \<Rightarrow> int" where
  "statusCodeFromError err = (case err_As en_StatusCode err of Some code \<Rightarrow> code | None \<Rightarrow> 0)"

definition statusCodeFromResult :: "Error option \<Rightarrow> int" where
  "statusCodeFromResult err = Error_StatusCode err"

definition isRequestScopedError :: "goerror \<Rightarrow> bool" where
  "isRequestScopedError err = (err_As en_RequestScoped err = Some True)"

definition retryAfterFromError :: "goerror \<Rightarrow> duration option" where
  "retryAfterFromError err = (case err_As en_RetryAfter err of Some d \<Rightarrow> d | None \<Rightarrow> None)"

definition isCredentialScopedError :: "goerror \<Rightarrow> bool" where
  "isCredentialScopedError err = (err_As en_CredentialScoped err = Some True)"

definition isUnauthorizedError :: "goerror \<Rightarrow> bool" where
  "isUnauthorizedError err =
     (if err = [] then False
      else if statusCodeFromError err = 401 then True
      else (let raw = ToLower (err_Text err) in
        Contains raw ''status 401'' \<or> Contains raw ''401 unauthorized''))"

definition hasUnauthorizedAuthFailure :: "Auth \<Rightarrow> bool" where
  "hasUnauthorizedAuthFailure auth =
     (case au_LastError auth of None \<Rightarrow> False
      | Some e \<Rightarrow>
          au_Unavailable auth \<and> au_Status auth = StatusError \<and> IsZero (au_NextRefreshAfter auth)
          \<and> (er_HTTPStatus e = 401 \<or> EqualFold (er_Code e) ''unauthorized''))"

definition refreshErrorFromError :: "goerror \<Rightarrow> Error option" where
  "refreshErrorFromError err =
     (if err = [] then None
      else (let code = statusCodeFromError err;
                statusCode = (if code = 0 \<and> isUnauthorizedError err then 401 else code)
            in Some \<lparr>er_Code = (if statusCode = 401 then ''unauthorized'' else []),
                     er_Message = err_Text err, er_Retryable = False, er_HTTPStatus = statusCode\<rparr>))"

section \<open>Kinds of failure, by their text\<close>

definition isModelSupportErrorMessage :: "string \<Rightarrow> bool" where
  "isModelSupportErrorMessage message =
     (let lower = ToLower (TrimSpace message) in
      if lower = [] then False
      else list_ex (\<lambda>pattern. Contains lower pattern)
        [''model_not_supported'', ''requested model is not supported'',
         ''requested model is unsupported'', ''requested model is unavailable'',
         ''model is not supported'', ''model not supported'', ''unsupported model'',
         ''model unavailable'', ''not available for your plan'', ''not available for your account''])"

definition isModelSupportError :: "goerror \<Rightarrow> bool" where
  "isModelSupportError err =
     (if err = [] then False
      else if statusCodeFromError err \<noteq> 400 \<and> statusCodeFromError err \<noteq> 422 then False
      else isModelSupportErrorMessage (err_Text err))"

definition isModelSupportResultError :: "Error option \<Rightarrow> bool" where
  "isModelSupportResultError err =
     (case err of None \<Rightarrow> False
      | Some e \<Rightarrow>
          if er_HTTPStatus e \<noteq> 400 \<and> er_HTTPStatus e \<noteq> 422 then False
          else isModelSupportErrorMessage (er_Message e))"

definition isInvalidGrantErrorMessage :: "string \<Rightarrow> bool" where
  "isInvalidGrantErrorMessage message = Contains (ToLower message) ''invalid_grant''"

definition isInvalidGrantError :: "goerror \<Rightarrow> bool" where
  "isInvalidGrantError err =
     (if err = [] then False
      else if statusCodeFromError err \<noteq> 400 \<and> statusCodeFromError err \<noteq> 401 then False
      else isInvalidGrantErrorMessage (err_Text err))"

definition isInvalidGrantResultError :: "Error option \<Rightarrow> bool" where
  "isInvalidGrantResultError err =
     (case err of None \<Rightarrow> False
      | Some e \<Rightarrow>
          if er_HTTPStatus e \<noteq> 400 \<and> er_HTTPStatus e \<noteq> 401 then False
          else isInvalidGrantErrorMessage (er_Code e) \<or> isInvalidGrantErrorMessage (er_Message e))"

definition isCloudflareChallengeErrorMessage :: "string \<Rightarrow> bool" where
  "isCloudflareChallengeErrorMessage message =
     (let lower = ToLower (TrimSpace message) in
      Contains lower ''challenge-platform'' \<or> Contains lower ''cf-mitigated''
      \<or> Contains lower ''cloudflare challenge''
      \<or> (Contains lower ''cloudflare'' \<and> Contains lower ''<html''))"

definition isCloudflareChallengeError :: "goerror \<Rightarrow> bool" where
  "isCloudflareChallengeError err = (err \<noteq> [] \<and> isCloudflareChallengeErrorMessage (err_Text err))"

definition isCloudflareChallengeResultError :: "Error option \<Rightarrow> bool" where
  "isCloudflareChallengeResultError err =
     (case err of None \<Rightarrow> False | Some e \<Rightarrow> isCloudflareChallengeErrorMessage (er_Message e))"

section \<open>Faults of the connection and of the request\<close>

definition isConnectionLifecycleMessage :: "string \<Rightarrow> bool" where
  "isConnectionLifecycleMessage message =
     (let lower = ToLower (TrimSpace message) in
      if lower = [] then False
      else if lower \<in> {''context canceled'', ''context deadline exceeded'', ''eof'', ''unexpected eof''}
        then True
      else if Contains lower ''websocket: close 1000'' \<or> Contains lower ''websocket: close 1001''
           \<or> Contains lower ''websocket: close 1006'' then True
      else Contains lower ''unexpected eof'')"

definition isConnectionLifecycleError :: "goerror \<Rightarrow> bool" where
  "isConnectionLifecycleError err =
     (if err = [] then False
      else if (case err_As en_CloseCode err of Some c \<Rightarrow> c \<in> {1000, 1001, 1006} | None \<Rightarrow> False) then True
      else if statusCodeFromError err \<noteq> 0 then False
      else if err_Is ContextCanceled err \<or> err_Is ContextDeadlineExceeded err \<or> err_Is IoEOF err
              \<or> err_Is IoUnexpectedEOF err then True
      else isConnectionLifecycleMessage (err_Text err))"

definition isConnectionLifecycleResultError :: "Error option \<Rightarrow> bool" where
  "isConnectionLifecycleResultError err =
     (case err of None \<Rightarrow> False
      | Some e \<Rightarrow>
          if er_Code e = ErrorCodeConnectionLifecycle then True
          else if statusCodeFromResult err \<noteq> 0 then False
          else isConnectionLifecycleMessage (er_Message e))"

definition isRequestInvalidError :: "Env \<Rightarrow> goerror \<Rightarrow> bool" where
  "isRequestInvalidError env err =
     (if err = [] then False
      else if isRequestScopedError err then True
      else if isCloudflareChallengeError err then False
      else if isInvalidGrantError err then False
      else if isModelSupportError err then False
      else (let status = statusCodeFromError err in
        if IsRequestFault env status err then True
        else (case err_As en_AuthError err of
            Some authErr \<Rightarrow>
              er_Message authErr \<noteq> [] \<and> IsRequestFault env status (plainError (er_Message authErr))
          | None \<Rightarrow> False)))"

definition isRequestScopedNotFoundResultError :: "Error option \<Rightarrow> bool" where
  "isRequestScopedNotFoundResultError err =
     (case err of None \<Rightarrow> False
      | Some e \<Rightarrow> if statusCodeFromResult err \<noteq> 404 then False else IsItemNotPersisted (er_Message e))"

definition isRequestScopedResultError :: "Env \<Rightarrow> Error option \<Rightarrow> bool" where
  "isRequestScopedResultError env err =
     (case err of None \<Rightarrow> False
      | Some e \<Rightarrow>
          if Error_IsRequestScoped err \<or> isRequestScopedNotFoundResultError err then True
          else isRequestInvalidError env (authError e))"

definition shouldSkipCredentialCooldown :: "Env \<Rightarrow> Error option \<Rightarrow> bool" where
  "shouldSkipCredentialCooldown env err =
     (if (case err of Some e \<Rightarrow> er_Code e = ErrorCodeForceCooldown | None \<Rightarrow> False) then False
      else isRequestScopedResultError env err \<or> isConnectionLifecycleResultError err)"

definition resultErrorFromError :: "Env \<Rightarrow> goerror \<Rightarrow> Error option" where
  "resultErrorFromError env err =
     (if err = [] then None
      else (let base = (case err_As en_AuthError err of
                          Some sourceErr \<Rightarrow> sourceErr
                        | None \<Rightarrow> \<lparr>er_Code = [], er_Message = err_Text err, er_Retryable = False,
                                   er_HTTPStatus = 0\<rparr>);
                r1 = (if er_HTTPStatus base = 0
                      then base\<lparr>er_HTTPStatus := statusCodeFromError err\<rparr> else base)
            in Some
              (if isRequestScopedError err \<or> isRequestInvalidError env err
               then r1\<lparr>er_Code := ErrorCodeRequestScoped\<rparr>
               else if isConnectionLifecycleError err
                 \<and> (er_Code r1 = [] \<or> er_Code r1 = ErrorCodeConnectionLifecycle)
               then r1\<lparr>er_Code := ErrorCodeConnectionLifecycle\<rparr>
               else r1)))"

section \<open>The model does not exist\<close>

definition identifierForm :: "string \<Rightarrow> string" where
  \<comment> \<open>\<open>strings.NewReplacer("-", "_", " ", "_")\<close>\<close>
  "identifierForm s = ReplaceBytes [CHR ''-'', CHR '' ''] CHR ''_'' s"

definition isModelNotFoundIdentifier :: "string \<Rightarrow> bool" where
  "isModelNotFoundIdentifier text =
     (let c0 = ToLower (TrimSpace text);
          candidate =
            (case LastIndexByte c0 CHR ''#'' of
               Some fragment \<Rightarrow> if fragment + 1 < length c0 then Some (drop (fragment + 1) c0) else None
             | None \<Rightarrow> None);
          path = (case candidate of
              Some c \<Rightarrow> c
            | None \<Rightarrow>
                (let c1 = (case IndexByte c0 CHR ''?'' of Some q \<Rightarrow> take q c0 | None \<Rightarrow> c0);
                     c2 = TrimRightSet c1 ''/''
                 in case LastIndexAny c2 ''/:'' of Some i \<Rightarrow> drop (i + 1) c2 | None \<Rightarrow> c2))
      in identifierForm path \<in>
           {''model_not_found'', ''model_not_found_error'', ''unknown_model'', ''model_does_not_exist'',
            ''model_not_exist''})"

definition isNotFoundErrorIdentifier :: "string \<Rightarrow> bool" where
  "isNotFoundErrorIdentifier text =
     (identifierForm (ToLower (TrimSpace text)) \<in> {''not_found'', ''not_found_error''})"

definition messageCutset :: string where
  "messageCutset = '' .!;'' @ [CHR 9, CHR 13, CHR 10]"

definition isMissingModelPhrase :: "string \<Rightarrow> bool" where
  "isMissingModelPhrase text =
     (Trim text messageCutset \<in>
        {''not found'', ''was not found'', ''could not be found'', ''does not exist'', ''doesn'' @ [CHR 39] @ ''t exist'',
         ''not exist'', ''is unknown''})"

text \<open>The four ways a message may quote the model; the first that fits decides.\<close>

fun trimReferenceCandidates :: "string \<Rightarrow> string list \<Rightarrow> string option" where
  "trimReferenceCandidates text [] = None"
| "trimReferenceCandidates text (candidate # cs) =
     (if text = candidate then Some []
      else if \<not> HasPrefix text candidate then trimReferenceCandidates text cs
      else (let remainder = drop (length candidate) text in
        if remainder = [] \<or> hd remainder \<in> set '' :,'' then Some (TrimLeftSet remainder '' :,'')
        else trimReferenceCandidates text cs))"

definition trimRequestedModelReference :: "string \<Rightarrow> string \<Rightarrow> string option" where
  "trimRequestedModelReference text requestedModel =
     (let model = ToLower (TrimSpace requestedModel) in
      if model = [] then None
      else trimReferenceCandidates text
        [model, [CHR 39] @ model @ [CHR 39], [CHR 34] @ model @ [CHR 34], [CHR 96] @ model @ [CHR 96]])"

definition startsWithPhrase :: "string \<Rightarrow> string \<Rightarrow> bool" where
  "startsWithPhrase lower p = (lower = p \<or> HasPrefix lower (p @ '' '') \<or> HasPrefix lower (p @ '':''))"

definition phraseRemainder :: "string \<Rightarrow> string \<Rightarrow> string" where
  "phraseRemainder lower p = TrimSpace (TrimPrefix (TrimSpace (TrimPrefix lower p)) '':'')"

definition modelPhrases :: "string list" where
  "modelPhrases = [''the requested model'', ''requested model'', ''the model'', ''model'']"

definition isExplicitModelNotFoundMessage :: "string \<Rightarrow> string \<Rightarrow> bool" where
  "isExplicitModelNotFoundMessage message requestedModel =
     (let lower = Trim (ToLower (TrimSpace message)) messageCutset;
          normalized = identifierForm lower
      in if lower = [] then False
         else if Contains normalized ''model_not_found'' \<or> Contains normalized ''unknown_model'' then True
         else case find (startsWithPhrase lower) [''no such model'', ''unknown model''] of
             Some p \<Rightarrow>
               (let remainder = phraseRemainder lower p in
                remainder = [] \<or> trimRequestedModelReference remainder requestedModel = Some [])
           | None \<Rightarrow>
               (case find (startsWithPhrase lower) modelPhrases of
                  Some p \<Rightarrow>
                    (let remainder = phraseRemainder lower p in
                     isMissingModelPhrase remainder
                     \<or> (case trimRequestedModelReference remainder requestedModel of
                          Some missingSuffix \<Rightarrow> isMissingModelPhrase missingSuffix | None \<Rightarrow> False))
                | None \<Rightarrow> False))"

definition isExactRequestedModelReference :: "string \<Rightarrow> string \<Rightarrow> bool" where
  "isExactRequestedModelReference message requestedModel =
     (let lower = Trim (ToLower (TrimSpace message)) messageCutset in
      case find (startsWithPhrase lower) modelPhrases of
        Some p \<Rightarrow> trimRequestedModelReference (phraseRemainder lower p) requestedModel = Some []
      | None \<Rightarrow> False)"

text \<open>
  The walk of a decoded JSON value. The code returns from its loop over an object at the first
  entry that settles the answer; no entry makes the answer \<open>False\<close>, so the disjunction over the
  entries is the same in every order.
\<close>

definition messageKeys :: "string list" where
  "messageKeys = [''error'', ''message'', ''detail'', ''error_description'', ''title'']"

definition entrySettles :: "string \<Rightarrow> string \<Rightarrow> string \<Rightarrow> bool" where
  "entrySettles requestedModel key text =
     (let k = ToLower (TrimSpace key) in
      ((k = ''code'' \<or> k = ''type'') \<and> isModelNotFoundIdentifier text)
      \<or> (k \<in> set messageKeys \<and> isExplicitModelNotFoundMessage text requestedModel))"

fun containsStructuredModelNotFound :: "string \<Rightarrow> goany \<Rightarrow> bool" where
  "containsStructuredModelNotFound requestedModel (AnyMap typed) =
     (list_ex (\<lambda>(key, item).
          (case item of AnyString text \<Rightarrow> entrySettles requestedModel key text | _ \<Rightarrow> False)
          \<or> (case item of
               AnyMap m \<Rightarrow> containsStructuredModelNotFound requestedModel item
             | AnyList l \<Rightarrow> containsStructuredModelNotFound requestedModel item
             | _ \<Rightarrow> False)) typed
      \<or> (list_ex (\<lambda>(key, item). case item of
             AnyString text \<Rightarrow> ToLower (TrimSpace key) = ''type'' \<and> isNotFoundErrorIdentifier text
           | _ \<Rightarrow> False) typed
         \<and> list_ex (\<lambda>(key, item). case item of
             AnyString text \<Rightarrow> ToLower (TrimSpace key) \<in> set messageKeys
               \<and> isExactRequestedModelReference text requestedModel
           | _ \<Rightarrow> False) typed))"
| "containsStructuredModelNotFound requestedModel (AnyList typed) =
     list_ex (\<lambda>item.
       (case item of AnyString text \<Rightarrow> isExplicitModelNotFoundMessage text requestedModel | _ \<Rightarrow> False)
       \<or> containsStructuredModelNotFound requestedModel item) typed"
| "containsStructuredModelNotFound requestedModel v = False"

definition isStructuredModelNotFoundError :: "Env \<Rightarrow> string \<Rightarrow> string \<Rightarrow> bool" where
  "isStructuredModelNotFoundError env message requestedModel =
     (case env_JSONValue env (TrimSpace message) of
        None \<Rightarrow> False
      | Some payload \<Rightarrow> containsStructuredModelNotFound requestedModel payload)"

fun isExplicitModelNotFoundError :: "Env \<Rightarrow> goerror \<Rightarrow> string \<Rightarrow> bool" where
  "isExplicitModelNotFoundError env [] requestedModel = False"
| "isExplicitModelNotFoundError env (n # ns) requestedModel =
     ((case (if en_IsAuthError n then en_AuthError n else None) of
         Some authErr \<Rightarrow>
           isModelNotFoundIdentifier (er_Code authErr)
           \<or> isStructuredModelNotFoundError env (er_Message authErr) requestedModel
       | None \<Rightarrow> isStructuredModelNotFoundError env (en_Text n) requestedModel)
      \<or> isExplicitModelNotFoundError env ns requestedModel)"

definition isCountTokensEndpointNotFoundError :: "Env \<Rightarrow> goerror \<Rightarrow> string \<Rightarrow> bool" where
  "isCountTokensEndpointNotFoundError env err requestedModel =
     (if err = [] \<or> statusCodeFromError err \<noteq> 404 then False
      else \<not> isExplicitModelNotFoundError env err (sr_ModelName (ParseSuffix requestedModel)))"

section \<open>Compaction requests\<close>

text \<open>\<open>alt\<close> is \<open>opts.Alt\<close>, all that these functions read of the request's options.\<close>

definition isResponsesCompactRequest :: "string \<Rightarrow> bool" where
  "isResponsesCompactRequest alt = (alt = ''responses/compact'')"

definition isResponsesCompactRequestFaultError :: "Env \<Rightarrow> string \<Rightarrow> goerror \<Rightarrow> bool" where
  "isResponsesCompactRequestFaultError env alt err =
     (if \<not> isResponsesCompactRequest alt \<or> err = [] then False
      else if isCredentialScopedError err \<or> isCloudflareChallengeError err \<or> isInvalidGrantError err
        then False
      else (let status = statusCodeFromError err in
        if IsRequestFault env status err then True
        else status \<in> {400, 404, 405, 409, 413, 422, 501}))"

definition isResponsesCompactAvailabilityNeutralError ::
  "string \<Rightarrow> goerror \<Rightarrow> Error option \<Rightarrow> bool" where
  "isResponsesCompactAvailabilityNeutralError alt err resultErr =
     (if \<not> isResponsesCompactRequest alt then False
      else if (case resultErr of Some e \<Rightarrow> er_Code e = ErrorCodeForceCooldown | None \<Rightarrow> False) then False
      else if isCredentialScopedError err \<or> isCloudflareChallengeError err \<or> isInvalidGrantError err
        then False
      else if isCloudflareChallengeResultError resultErr \<or> isInvalidGrantResultError resultErr then False
      else (let s0 = statusCodeFromError err;
                status = (if s0 = 0 then statusCodeFromResult resultErr else s0)
            in status \<notin> {401, 402, 403, 429}))"

section \<open>Laws\<close>

lemma authError_accessors [simp]:
  "authError e \<noteq> []" "err_Text (authError e) = Error_Error (Some e)"
  "statusCodeFromError (authError e) = er_HTTPStatus e"
  "isRequestScopedError (authError e) = (er_Code e = ErrorCodeRequestScoped)"
  "err_As en_AuthError (authError e) = Some e"
  by (simp_all add: authError_def err_Text_def statusCodeFromError_def err_As_def isRequestScopedError_def
      Error_IsRequestScoped_def)

lemma err_As_StatusCode_authError [simp]: "err_As en_StatusCode (authError e) = Some (er_HTTPStatus e)"
  by (simp add: authError_def err_As_def)

lemma IsRequestFault_billing: "status \<in> {402, 429} \<Longrightarrow> \<not> IsRequestFault env status err"
  by (auto simp: IsRequestFault_def)

lemma isRequestInvalidError_billing:
  assumes "statusCodeFromError err \<in> {402, 429}" and "\<not> isRequestScopedError err"
  shows "\<not> isRequestInvalidError env err"
  using assms IsRequestFault_billing [of "statusCodeFromError err" env]
  by (simp add: isRequestInvalidError_def split: option.splits)

lemma billing_failures_penalised_raw:
  assumes "er_HTTPStatus e \<in> {402, 429}"
    and "er_Code e \<noteq> ErrorCodeRequestScoped" and "er_Code e \<noteq> ErrorCodeConnectionLifecycle"
  shows "\<not> shouldSkipCredentialCooldown env (Some e)"
proof -
  have "\<not> isRequestInvalidError env (authError e)"
    using isRequestInvalidError_billing [of "authError e" env] assms by simp
  moreover have "\<not> isRequestScopedNotFoundResultError (Some e)"
    using assms(1) by (auto simp: isRequestScopedNotFoundResultError_def statusCodeFromResult_def Error_StatusCode_def)
  moreover have "\<not> isConnectionLifecycleResultError (Some e)"
    using assms by (auto simp: isConnectionLifecycleResultError_def statusCodeFromResult_def Error_StatusCode_def)
  ultimately show ?thesis using assms(2)
    by (simp add: shouldSkipCredentialCooldown_def isRequestScopedResultError_def Error_IsRequestScoped_def)
qed

section \<open>Properties\<close>

text \<open>The failures a credential must pay for are never excused: a payment or rate-limit status
  (402, 429) is penalised whatever the body of the answer says, unless the executor itself marked
  the error as the request's or the connection's; and a forced cooldown is never skipped.\<close>

theorem billing_failures_penalised:
  assumes "(er_HTTPStatus e \<in> {402, 429} \<and> er_Code e \<notin> {ErrorCodeRequestScoped, ErrorCodeConnectionLifecycle})
    \<or> er_Code e = ErrorCodeForceCooldown"
  shows "\<not> shouldSkipCredentialCooldown env (Some e)"
  using assms billing_failures_penalised_raw [of e env]
  by (cases "er_Code e = ErrorCodeForceCooldown") (auto simp: shouldSkipCredentialCooldown_def)

theorem billing_failures_penalised_witness:
  "\<not> shouldSkipCredentialCooldown
      \<lparr>env_TimeParse = \<lambda>_ _. None, env_ParseFloat = \<lambda>_. None, env_Base64URL = \<lambda>_. None,
       env_Base64RawURL = \<lambda>_. None, env_JSONExp = \<lambda>_. None, env_JSONValue = \<lambda>_. None,
       env_JSONValid = \<lambda>_. True, env_GJSONGet = \<lambda>_ _. ''invalid_request_error''\<rparr>
      (Some \<lparr>er_Code = [], er_Message = ''{}'', er_Retryable = False, er_HTTPStatus = 429\<rparr>)"
  by (rule billing_failures_penalised) (simp add: error_code_defs)

end
