(* ===== verification/QuotaSignals.thy ===== *)
theory QuotaSignals
  imports AuthTypes
begin

text \<open>
  \<open>sdk/cliproxy/auth/quota_signals.go\<close>: the passive snapshot of quota headers a credential keeps
  beside its cooldown state, and the two writers that keep the halves of a \<open>QuotaState\<close> apart.
\<close>

section \<open>Which headers are signals\<close>

definition maxQuotaSignalHeaders :: nat where "maxQuotaSignalHeaders = 64"
definition maxQuotaSignalValue :: nat where "maxQuotaSignalValue = 512"

definition ProviderSupportsQuotaObservation :: "string \<Rightarrow> bool" where
  "ProviderSupportsQuotaObservation provider =
     (ToLower (TrimSpace provider) = ''claude'' \<or> ToLower (TrimSpace provider) = ''codex'')"

definition validQuotaSignalValue :: "string \<Rightarrow> bool" where
  "validQuotaSignalValue v =
     (if v = [] \<or> length v > maxQuotaSignalValue then False
      else list_all (\<lambda>c. \<not> (byte c < 32 \<or> byte c = 127)) v)"

definition quotaSignalRetentionRank :: "string \<Rightarrow> nat" where
  "quotaSignalRetentionRank name =
     (let lower = ToLower (TrimSpace name) in
      if lower = ''retry-after'' \<or> HasPrefix lower ''anthropic-ratelimit-unified-'' then 0
      else if lower = ''x-codex-plan-type'' \<or> lower = ''x-codex-active-limit''
           \<or> HasPrefix lower ''x-codex-credits-'' then 1
      else if lower = ''x-codex-allowed'' \<or> lower = ''x-codex-limit-reached''
           \<or> HasPrefix lower ''x-codex-primary-'' \<or> HasPrefix lower ''x-codex-secondary-'' then 2
      else if HasPrefix lower ''x-codex-code-review-'' then 3
      else if HasPrefix lower ''x-codex-additional-'' then 5
      else if HasPrefix lower ''x-codex-'' then 4
      else 6)"

definition isQuotaSignalHeaderForProvider :: "string \<Rightarrow> string \<Rightarrow> bool" where
  "isQuotaSignalHeaderForProvider provider0 name0 =
     (let provider = ToLower (TrimSpace provider0); name = ToLower (TrimSpace name0) in
      if name = ''retry-after'' then provider = ''claude'' \<or> provider = ''codex''
      else if HasPrefix name ''anthropic-ratelimit-unified-'' then provider = ''claude''
      else if HasPrefix name ''x-ratelimit-'' then provider = ''codex''
      else if \<not> HasPrefix name ''x-codex-'' then False
      else if provider \<noteq> ''codex'' then False
      else if name = ''x-codex-active-limit'' \<or> name = ''x-codex-plan-type''
           \<or> HasPrefix name ''x-codex-credits-'' then True
      else list_ex (\<lambda>marker. Contains name marker)
        [''-allowed'', ''-limit-reached'', ''-limit-name'', ''-used-percent'', ''-window-minutes'',
         ''-reset-after-seconds'', ''-reset-at'', ''-over-secondary-limit-percent''])"

text \<open>
  \<open>http.CanonicalHeaderKey\<close>: a key of token characters gets upper case letters at its start and
  after hyphens and lower case ones elsewhere; any other key stays as it is.
\<close>

definition token_char :: "char \<Rightarrow> bool" where
  "token_char c =
     ((48 \<le> byte c \<and> byte c \<le> 57) \<or> (65 \<le> byte c \<and> byte c \<le> 90) \<or> (97 \<le> byte c \<and> byte c \<le> 122)
      \<or> c \<in> set ''!#$%&*+-.^_`|~'' \<or> byte c = 39)"

definition upper_char :: "char \<Rightarrow> char" where
  "upper_char c = (if 97 \<le> byte c \<and> byte c \<le> 122 then char_of (byte c - 32) else c)"

fun canonical_from :: "bool \<Rightarrow> string \<Rightarrow> string" where
  "canonical_from upper [] = []"
| "canonical_from upper (c # cs) =
     (if upper then upper_char c else lower_char c) # canonical_from (c = CHR ''-'') cs"

definition CanonicalHeaderKey :: "string \<Rightarrow> string" where
  "CanonicalHeaderKey s = (if list_all token_char s then canonical_from True s else s)"

section \<open>Collecting a snapshot\<close>

type_synonym Header = "(string \<times> string list) list"

text \<open>
  The loop over the headers (in some order) gathers the values by canonical name; the names are
  then sorted by rank and by name, and the first 64 kept. \<open>nil\<close> is the empty map.
\<close>

definition collect_step :: "string \<Rightarrow> string \<times> string list \<Rightarrow> (string, string) gomap \<Rightarrow> (string, string) gomap" where
  "collect_step provider entry vals =
     (case entry of (key, headerValues) \<Rightarrow>
        let canonicalKey = CanonicalHeaderKey (TrimSpace key) in
        if \<not> isQuotaSignalHeaderForProvider provider canonicalKey \<or> headerValues = [] then vals
        else (let v = TrimSpace (last headerValues) in
          if \<not> validQuotaSignalValue v then vals else mput canonicalKey v vals))"

definition signalNames :: "(string, string) gomap \<Rightarrow> string list" where
  "signalNames vals = sort_key quotaSignalRetentionRank (sort (map fst vals))"

definition collectQuotaSignals :: "string \<Rightarrow> Header \<Rightarrow> (string, string) gomap" where
  "collectQuotaSignals provider headers =
     (let vals = fold (collect_step provider) headers [] in
      map (\<lambda>name. (name, mgetd [] vals name)) (take maxQuotaSignalHeaders (signalNames vals)))"

section \<open>The two halves of a \<open>QuotaState\<close>\<close>

definition ClearObservationSignals :: "QuotaState \<Rightarrow> QuotaState \<times> bool" where
  "ClearObservationSignals q =
     (if q_Signals q = [] \<and> IsZero (q_ObservedAt q) then (q, False)
      else (q\<lparr>q_Signals := [], q_ObservedAt := 0\<rparr>, True))"

text \<open>\<open>clock\<close> is what \<open>time.Now\<close> answers when no observation time is given.\<close>

definition ObserveResponseHeadersForProvider ::
  "time \<Rightarrow> string \<Rightarrow> Header \<Rightarrow> time \<Rightarrow> QuotaState \<Rightarrow> QuotaState \<times> bool" where
  "ObserveResponseHeadersForProvider clock provider headers observedAt q =
     (if \<not> ProviderSupportsQuotaObservation provider then ClearObservationSignals q
      else (let next = collectQuotaSignals provider headers in
        if next = [] then (q, False)
        else (q\<lparr>q_Signals := next, q_ObservedAt := (if IsZero observedAt then clock else observedAt)\<rparr>, True)))"

definition cooldownFieldsOf :: "QuotaState \<Rightarrow> QuotaState" where
  "cooldownFieldsOf q =
     \<lparr>q_Exceeded = q_Exceeded q, q_Reason = q_Reason q, q_NextRecoverAt = q_NextRecoverAt q,
      q_BackoffLevel = q_BackoffLevel q, q_ObservedAt = 0, q_Signals = []\<rparr>"

definition applyCooldownFields :: "QuotaState \<Rightarrow> QuotaState \<Rightarrow> QuotaState" where
  "applyCooldownFields dst cooldown =
     dst\<lparr>q_Exceeded := q_Exceeded cooldown, q_Reason := q_Reason cooldown,
         q_NextRecoverAt := q_NextRecoverAt cooldown, q_BackoffLevel := q_BackoffLevel cooldown\<rparr>"

definition mergeQuotaObservation :: "QuotaState \<Rightarrow> QuotaState \<Rightarrow> QuotaState" where
  "mergeQuotaObservation target source =
     (if IsZero (q_ObservedAt source) \<or> Before (q_ObservedAt source) (q_ObservedAt target) then target
      else target\<lparr>q_ObservedAt := q_ObservedAt source, q_Signals := q_Signals source\<rparr>)"

section \<open>Laws\<close>

lemma applyCooldownFields_simps [simp]:
  "q_Exceeded (applyCooldownFields d c) = q_Exceeded c"
  "q_Reason (applyCooldownFields d c) = q_Reason c"
  "q_NextRecoverAt (applyCooldownFields d c) = q_NextRecoverAt c"
  "q_BackoffLevel (applyCooldownFields d c) = q_BackoffLevel c"
  "q_ObservedAt (applyCooldownFields d c) = q_ObservedAt d"
  "q_Signals (applyCooldownFields d c) = q_Signals d"
  by (simp_all add: applyCooldownFields_def)

lemma mergeQuotaObservation_cooldown [simp]:
  "cooldownFieldsOf (mergeQuotaObservation t s) = cooldownFieldsOf t"
  "q_Exceeded (mergeQuotaObservation t s) = q_Exceeded t"
  "q_Reason (mergeQuotaObservation t s) = q_Reason t"
  "q_NextRecoverAt (mergeQuotaObservation t s) = q_NextRecoverAt t"
  "q_BackoffLevel (mergeQuotaObservation t s) = q_BackoffLevel t"
  by (simp_all add: mergeQuotaObservation_def cooldownFieldsOf_def)

lemma ObserveResponseHeaders_cooldown [simp]:
  "cooldownFieldsOf (fst (ObserveResponseHeadersForProvider clock p h at q)) = cooldownFieldsOf q"
  by (simp add: ObserveResponseHeadersForProvider_def ClearObservationSignals_def cooldownFieldsOf_def Let_def)

definition signal_ok :: "string \<Rightarrow> string \<times> string \<Rightarrow> bool" where
  "signal_ok provider e = (isQuotaSignalHeaderForProvider provider (fst e) \<and> validQuotaSignalValue (snd e))"

definition signals_ok :: "string \<Rightarrow> (string, string) gomap \<Rightarrow> bool" where
  "signals_ok provider vals = (mwf vals \<and> (\<forall>e \<in> set vals. signal_ok provider e))"

lemma collect_step_ok:
  assumes "signals_ok provider vals"
  shows "signals_ok provider (collect_step provider h vals)"
proof -
  obtain key hv where h: "h = (key, hv)" by fastforce
  let ?k = "CanonicalHeaderKey (TrimSpace key)" and ?v = "TrimSpace (last hv)"
  consider "collect_step provider h vals = vals"
    | "collect_step provider h vals = mput ?k ?v vals" "signal_ok provider (?k, ?v)"
    unfolding h collect_step_def signal_ok_def Let_def prod.case fst_conv snd_conv by metis
  then show ?thesis
  proof cases
    case 2
    then show ?thesis using assms set_mput [of ?k ?v vals] gm.wf_put [of vals ?k ?v]
      unfolding signals_ok_def by (metis (no_types, lifting) insertE subsetD)
  qed (simp add: assms)
qed

lemma collect_fold_ok: "signals_ok provider vals \<Longrightarrow> signals_ok provider (fold (collect_step provider) hs vals)"
  by (induction hs arbitrary: vals) (simp_all add: collect_step_ok)

lemma signals_ok_Nil [simp]: "signals_ok provider []"
  by (simp add: signals_ok_def)

lemma set_signalNames [simp]: "set (signalNames vals) = fst ` set vals"
  by (simp add: signalNames_def)

lemma distinct_signalNames: "mwf vals \<Longrightarrow> distinct (signalNames vals)"
  by (simp add: signalNames_def mwf_def)

lemma signalNames_ranked: "sorted (map quotaSignalRetentionRank (signalNames vals))"
  by (simp add: signalNames_def)

lemma collectQuotaSignals_wf:
  "mwf (collectQuotaSignals provider hs) \<and> length (collectQuotaSignals provider hs) \<le> maxQuotaSignalHeaders"
  using collect_fold_ok [of provider "[]" hs] distinct_signalNames
  by (simp add: signals_ok_def collectQuotaSignals_def Let_def mwf_def o_def)

section \<open>Properties\<close>

text \<open>a snapshot is bounded and clean whatever the upstream sends: at most 64 entries under
  distinct names, each a quota header of that provider with a value of at most 512 bytes free of
  control characters; and truncation drops no entry that ranks before one it keeps.\<close>

theorem quota_snapshot_bounded:
  "let snap = collectQuotaSignals provider hs;
       offered = fold (collect_step provider) hs [] in
     mwf snap \<and> length snap \<le> 64
     \<and> (\<forall>(name, v) \<in> set snap. isQuotaSignalHeaderForProvider provider name
          \<and> v \<noteq> [] \<and> length v \<le> 512 \<and> (\<forall>c \<in> set v. 32 \<le> byte c \<and> byte c \<noteq> 127))
     \<and> (\<forall>kept \<in> fst ` set snap. \<forall>dropped \<in> fst ` set offered - fst ` set snap.
          quotaSignalRetentionRank kept \<le> quotaSignalRetentionRank dropped)"
proof -
  define offered where "offered = fold (collect_step provider) hs []"
  define names where "names = signalNames offered"
  have ok: "mwf offered" "\<forall>e \<in> set offered. signal_ok provider e"
    using collect_fold_ok [of provider "[]" hs] by (simp_all add: offered_def signals_ok_def)
  have snap: "collectQuotaSignals provider hs = map (\<lambda>name. (name, mgetd [] offered name)) (take 64 names)"
    by (simp add: collectQuotaSignals_def offered_def names_def maxQuotaSignalHeaders_def Let_def)
  have keys: "fst ` set (collectQuotaSignals provider hs) = set (take 64 names)"
    by (force simp: snap)
  have clean: "isQuotaSignalHeaderForProvider provider name \<and> v \<noteq> [] \<and> length v \<le> 512
      \<and> (\<forall>c \<in> set v. 32 \<le> byte c \<and> byte c \<noteq> 127)"
    if "(name, v) \<in> set (collectQuotaSignals provider hs)" for name v
  proof -
    from that have "name \<in> set (take 64 names)" and v: "v = mgetd [] offered name" by (auto simp: snap)
    then have "name \<in> fst ` set offered" using in_set_takeD [of name 64 names] by (simp add: names_def)
    then obtain w where w: "(name, w) \<in> set offered" by auto
    with ok(1) v have "v = w" by (simp add: mgetd_def mget_iff_in [symmetric])
    with w ok(2) have "signal_ok provider (name, v)" by auto
    then show ?thesis
      by (auto simp: signal_ok_def validQuotaSignalValue_def maxQuotaSignalValue_def list_all_iff not_less
          split: if_splits)
  qed
  have ranked: "quotaSignalRetentionRank kept \<le> quotaSignalRetentionRank dropped"
    if "kept \<in> set (take 64 names)" "dropped \<in> fst ` set offered - set (take 64 names)" for kept dropped
  proof -
    have "set names = set (take 64 names) \<union> set (drop 64 names)" by (metis append_take_drop_id set_append)
    then have "dropped \<in> set (drop 64 names)" using that(2) by (auto simp: names_def)
    moreover have "sorted (map quotaSignalRetentionRank (take 64 names @ drop 64 names))"
      by (simp add: names_def signalNames_ranked)
    ultimately show ?thesis using that(1) unfolding map_append sorted_append set_map by blast
  qed
  have "mwf (collectQuotaSignals provider hs) \<and> length (collectQuotaSignals provider hs) \<le> 64"
    using collectQuotaSignals_wf [of provider hs] by (simp add: maxQuotaSignalHeaders_def)
  moreover have "\<forall>kept \<in> fst ` set (collectQuotaSignals provider hs).
      \<forall>dropped \<in> fst ` set offered - fst ` set (collectQuotaSignals provider hs).
        quotaSignalRetentionRank kept \<le> quotaSignalRetentionRank dropped"
    unfolding keys using ranked by blast
  ultimately show ?thesis using clean unfolding Let_def offered_def [symmetric] by blast
qed

theorem quota_snapshot_bounded_witness:
  "let snap = collectQuotaSignals ''codex'' [(''x-codex-plan-type'', [''plus'']), (''date'', [''now''])] in
     snap = [(''X-Codex-Plan-Type'', ''plus'')] \<and> mwf snap \<and> length snap \<le> 64
     \<and> isQuotaSignalHeaderForProvider ''codex'' ''X-Codex-Plan-Type''"
proof -
  have "collectQuotaSignals ''codex'' [(''x-codex-plan-type'', [''plus'']), (''date'', [''now''])]
      = [(''X-Codex-Plan-Type'', ''plus'')]" by code_simp
  with quota_snapshot_bounded [of "''codex''" "[(''x-codex-plan-type'', [''plus'']), (''date'', [''now''])]"]
  show ?thesis by (simp add: Let_def)
qed

end
