(* ===== verification/Cooldown.thy ===== *)
theory Cooldown
  imports ErrorClass QuotaSignals
begin

text \<open>
  The cooldown state of one credential, from \<open>sdk/cliproxy/auth/conductor_cooldown.go\<close>: when
  cooling is switched off, the backoff ladder of quota failures, the per-model states and their
  merging, the aggregation into the credential, and the effect of a failure or a success on the
  credential as a whole.
\<close>

section \<open>Configuration\<close>

record OpenAICompatibility =
  oc_Name :: string
  oc_Disabled :: bool
  oc_DisableCooling :: "bool option"

text \<open>What the cooldown code reads of the runtime configuration.\<close>

record CoolingConfig =
  cc_HomeEnabled :: bool
  cc_DisableCooling :: bool
  cc_OpenAICompatibility :: "OpenAICompatibility list"

text \<open>The two package variables of the file.\<close>

record CoolingGlobals =
  cg_quotaCooldownDisabled :: bool
  cg_transientErrorCooldownSeconds :: int

definition SetQuotaCooldownDisabled :: "bool \<Rightarrow> CoolingGlobals \<Rightarrow> CoolingGlobals" where
  "SetQuotaCooldownDisabled disable g = g\<lparr>cg_quotaCooldownDisabled := disable\<rparr>"

definition SetTransientErrorCooldownSeconds :: "int \<Rightarrow> CoolingGlobals \<Rightarrow> CoolingGlobals" where
  "SetTransientErrorCooldownSeconds seconds g = g\<lparr>cg_transientErrorCooldownSeconds := seconds\<rparr>"

definition resolveOpenAICompatConfig ::
  "CoolingConfig \<Rightarrow> string \<Rightarrow> string \<Rightarrow> string \<Rightarrow> OpenAICompatibility option" where
  "resolveOpenAICompatConfig cfg providerKey compatName authProvider =
     (let candidates = filter (\<lambda>v. v \<noteq> []) [TrimSpace compatName, TrimSpace providerKey, TrimSpace authProvider]
      in find (\<lambda>compat. \<not> oc_Disabled compat
            \<and> list_ex (\<lambda>candidate. EqualFold (TrimSpace candidate) (oc_Name compat)) candidates)
           (cc_OpenAICompatibility cfg))"

definition providerCoolingOverrideForAuth :: "Auth \<Rightarrow> CoolingConfig option \<Rightarrow> bool option" where
  "providerCoolingOverrideForAuth auth cfg0 =
     (case cfg0 of None \<Rightarrow> None
      | Some cfg \<Rightarrow>
          (let provider = ToLower (TrimSpace (au_Provider auth));
               pk = authAttribute auth ''provider_key'';
               compatName = authAttribute auth ''compat_name''
           in if provider = [] then None
              else if pk = [] \<and> compatName = [] \<and> provider \<noteq> ''openai-compatibility'' then None
              else (case resolveOpenAICompatConfig cfg (if pk = [] then provider else pk) compatName provider of
                  None \<Rightarrow> None
                | Some entry \<Rightarrow> oc_DisableCooling entry)))"

definition quotaCooldownDisabledForAuthWithConfig ::
  "CoolingGlobals \<Rightarrow> Auth option \<Rightarrow> CoolingConfig option \<Rightarrow> bool" where
  "quotaCooldownDisabledForAuthWithConfig g auth0 cfg =
     (if (case cfg of Some c \<Rightarrow> cc_HomeEnabled c | None \<Rightarrow> False) then True
      else case (case auth0 of
                   Some auth \<Rightarrow>
                     (case DisableCoolingOverride auth of
                        Some override \<Rightarrow> Some override
                      | None \<Rightarrow> providerCoolingOverrideForAuth auth cfg)
                 | None \<Rightarrow> None) of
          Some override \<Rightarrow> override
        | None \<Rightarrow>
            if (case cfg of Some c \<Rightarrow> cc_DisableCooling c | None \<Rightarrow> False) then True
            else cg_quotaCooldownDisabled g)"

section \<open>Delays\<close>

definition quotaBackoffBase :: duration where "quotaBackoffBase = second"
definition quotaBackoffMax :: duration where "quotaBackoffMax = 30 * minute"
definition minQuotaCooldownFloor :: duration where "minQuotaCooldownFloor = 10 * second"
definition transientErrorCooldown :: duration where "transientErrorCooldown = minute"

lemmas backoff_defs =
  quotaBackoffBase_def quotaBackoffMax_def minQuotaCooldownFloor_def transientErrorCooldown_def

definition nextTransientErrorRetryAfter :: "CoolingGlobals \<Rightarrow> time \<Rightarrow> time" where
  "nextTransientErrorRetryAfter g now =
     (let seconds = cg_transientErrorCooldownSeconds g in
      if seconds < 0 then 0
      else if seconds = 0 then now + transientErrorCooldown
      else now + wrap64 (seconds * second))"

definition recoverableFailureRetryAfter :: "CoolingGlobals \<Rightarrow> time \<Rightarrow> bool \<Rightarrow> time" where
  "recoverableFailureRetryAfter g now disableCooling =
     (if disableCooling then 0 else nextTransientErrorRetryAfter g now)"

text \<open>
  The multiplication and the shift are those of signed 64-bit integers.
\<close>

definition nextQuotaCooldown :: "int \<Rightarrow> bool \<Rightarrow> duration \<times> int" where
  "nextQuotaCooldown prevLevel0 disableCooling =
     (let prevLevel = (if prevLevel0 < 0 then 0 else prevLevel0) in
      if disableCooling then (0, prevLevel)
      else (let c0 = wrap64 (quotaBackoffBase * wrap64 (2 ^ nat prevLevel));
                cooldown = (if c0 < quotaBackoffBase then quotaBackoffBase else c0)
            in if cooldown \<ge> quotaBackoffMax then (quotaBackoffMax, prevLevel)
               else (cooldown, prevLevel + 1)))"

definition nextCloudflareCooldown :: "int \<Rightarrow> bool \<Rightarrow> time \<Rightarrow> time \<times> int" where
  "nextCloudflareCooldown backoffLevel disableCooling now =
     (if disableCooling then (0, backoffLevel)
      else (case nextQuotaCooldown backoffLevel disableCooling of (c0, nextLevel) \<Rightarrow>
        (let cooldown = (if c0 < 10 * second then 10 * second else c0)
         in (if cooldown > 0 then now + cooldown else 0, nextLevel))))"

definition quotaCooldownAfterFailure :: "QuotaState \<Rightarrow> time \<Rightarrow> time \<times> int" where
  "quotaCooldownAfterFailure quota now =
     (if After (q_NextRecoverAt quota) now then (q_NextRecoverAt quota, q_BackoffLevel quota)
      else (case nextQuotaCooldown (q_BackoffLevel quota) False of (cooldown, nextLevel) \<Rightarrow>
        (if cooldown > 0 then now + cooldown else 0, nextLevel)))"

section \<open>States of the models\<close>

definition stateAt :: "string \<Rightarrow> Auth \<Rightarrow> ModelState option" where
  \<comment> \<open>\<open>auth.ModelStates[k]\<close>: nil for a missing key and for a nil pointer\<close>
  "stateAt k auth = (case mget (au_ModelStates auth) k of Some (Some s) \<Rightarrow> Some s | _ \<Rightarrow> None)"

definition setState :: "string \<Rightarrow> ModelState \<Rightarrow> Auth \<Rightarrow> Auth" where
  \<comment> \<open>a write through the pointer stored under \<open>k\<close>\<close>
  "setState k s auth = auth\<lparr>au_ModelStates := mput k (Some s) (au_ModelStates auth)\<rparr>"

definition existingModelState :: "Auth \<Rightarrow> string \<Rightarrow> ModelState option" where
  "existingModelState auth model0 =
     (let model = canonicalModelKey model0 in if model = [] then None else stateAt model auth)"

text \<open>The quota of a merged state, from the target's and the source's; \<open>preferred\<close> is the newer one.\<close>

definition mergedQuota :: "QuotaState \<Rightarrow> QuotaState \<Rightarrow> QuotaState \<Rightarrow> QuotaState \<Rightarrow> QuotaState" where
  "mergedQuota target source preferred fallback =
     (let quota0 = \<lparr>q_Exceeded = q_Exceeded target \<or> q_Exceeded source, q_Reason = q_Reason preferred,
                    q_NextRecoverAt = q_NextRecoverAt target, q_BackoffLevel = q_BackoffLevel target,
                    q_ObservedAt = 0, q_Signals = []\<rparr>;
          quota1 = mergeQuotaObservation (mergeQuotaObservation quota0 fallback) preferred;
          quota2 = (if After (q_NextRecoverAt source) (q_NextRecoverAt quota1)
                    then quota1\<lparr>q_NextRecoverAt := q_NextRecoverAt source\<rparr> else quota1);
          quota3 = (if q_BackoffLevel source > q_BackoffLevel quota2
                    then quota2\<lparr>q_BackoffLevel := q_BackoffLevel source\<rparr> else quota2)
      in if q_Reason quota3 = [] then quota3\<lparr>q_Reason := q_Reason fallback\<rparr> else quota3)"

definition mergeModelState :: "ModelState option \<Rightarrow> ModelState option \<Rightarrow> ModelState option" where
  "mergeModelState target0 source0 =
     (case (target0, source0) of
        (None, _) \<Rightarrow> source0
      | (Some target, None) \<Rightarrow> Some target
      | (Some target, Some source) \<Rightarrow>
          (let newer = After (ms_UpdatedAt source) (ms_UpdatedAt target);
               preferred = (if newer then source else target);
               fallback = (if newer then target else source);
               quota = mergedQuota (ms_Quota target) (ms_Quota source) (ms_Quota preferred) (ms_Quota fallback);
               unavailable = ms_Unavailable target \<or> ms_Unavailable source
           in Some \<lparr>ms_Status =
                      (if ms_Status target = StatusDisabled \<or> ms_Status source = StatusDisabled then StatusDisabled
                       else if unavailable \<or> q_Exceeded quota then StatusError
                       else ms_Status preferred),
                    ms_StatusMessage =
                      (if ms_StatusMessage preferred = [] then ms_StatusMessage fallback
                       else ms_StatusMessage preferred),
                    ms_Unavailable = unavailable,
                    ms_NextRetryAfter =
                      (if After (ms_NextRetryAfter source) (ms_NextRetryAfter target)
                       then ms_NextRetryAfter source else ms_NextRetryAfter target),
                    ms_LastError =
                      (case cloneError (ms_LastError preferred) of
                         Some e \<Rightarrow> Some e | None \<Rightarrow> cloneError (ms_LastError fallback)),
                    ms_Quota = quota,
                    ms_UpdatedAt =
                      (if After (ms_UpdatedAt source) (ms_UpdatedAt target)
                       then ms_UpdatedAt source else ms_UpdatedAt target)\<rparr>))"

definition normalKey :: "string \<Rightarrow> string" where
  "normalKey model =
     (let modelKey = canonicalModelKey model in if modelKey = [] then TrimSpace model else modelKey)"

definition normalize_step ::
  "string \<times> ModelState option \<Rightarrow> (string, ModelState option) gomap \<times> bool
     \<Rightarrow> (string, ModelState option) gomap \<times> bool" where
  "normalize_step entry acc =
     (case entry of (model, state) \<Rightarrow> case acc of (normalized, changed) \<Rightarrow>
       (let modelKey = normalKey model; changed' = (changed \<or> modelKey \<noteq> model) in
        case mget normalized modelKey of
          Some existing \<Rightarrow> (mput modelKey (mergeModelState existing state) normalized, True)
        | None \<Rightarrow> (mput modelKey state normalized, changed')))"

definition normalizeModelStates :: "Auth \<Rightarrow> Auth \<times> bool" where
  "normalizeModelStates auth =
     (if au_ModelStates auth = [] then (auth, False)
      else (case fold normalize_step (au_ModelStates auth) ([], False) of (normalized, changed) \<Rightarrow>
        if changed then (auth\<lparr>au_ModelStates := normalized\<rparr>, True) else (auth, False)))"

text \<open>
  \<open>ensureModelState\<close> returns the credential with the state present and the key it is stored under;
  \<open>None\<close> is the nil result for an empty model.
\<close>

definition ensureModelState :: "Auth \<Rightarrow> string \<Rightarrow> (Auth \<times> string \<times> ModelState) option" where
  "ensureModelState auth model0 =
     (let model = canonicalModelKey model0 in
      if model = [] then None
      else (let auth1 = fst (normalizeModelStates auth) in
        case stateAt model auth1 of
          Some state \<Rightarrow> Some (auth1, model, state)
        | None \<Rightarrow>
            (let state = zeroModelState\<lparr>ms_Status := StatusActive\<rparr>
             in Some (setState model state auth1, model, state))))"

definition resetModelState :: "time \<Rightarrow> ModelState \<Rightarrow> ModelState" where
  "resetModelState now state =
     state\<lparr>ms_Unavailable := False, ms_Status := StatusActive, ms_StatusMessage := [],
           ms_NextRetryAfter := 0, ms_LastError := None,
           ms_Quota := applyCooldownFields (ms_Quota state) zeroQuota, ms_UpdatedAt := now\<rparr>"

definition isModelStateActiveCooldown :: "ModelState option \<Rightarrow> time \<Rightarrow> bool" where
  "isModelStateActiveCooldown state0 now =
     (case state0 of None \<Rightarrow> False
      | Some state \<Rightarrow>
          if ms_Status state = StatusDisabled then True
          else if \<not> IsZero (ms_NextRetryAfter state) \<and> After (ms_NextRetryAfter state) now then True
          else if \<not> IsZero (q_NextRecoverAt (ms_Quota state)) \<and> After (q_NextRecoverAt (ms_Quota state)) now
            then True
          else q_Exceeded (ms_Quota state) \<and> IsZero (q_NextRecoverAt (ms_Quota state)))"

definition modelStateIsClean :: "ModelState option \<Rightarrow> bool" where
  "modelStateIsClean state0 =
     (case state0 of None \<Rightarrow> True
      | Some state \<Rightarrow>
          if ms_Status state \<noteq> StatusActive then False
          else if ms_Unavailable state \<or> ms_StatusMessage state \<noteq> [] \<or> \<not> IsZero (ms_NextRetryAfter state)
               \<or> ms_LastError state \<noteq> None then False
          else \<not> (q_Exceeded (ms_Quota state) \<or> q_Reason (ms_Quota state) \<noteq> []
               \<or> \<not> IsZero (q_NextRecoverAt (ms_Quota state)) \<or> q_BackoffLevel (ms_Quota state) \<noteq> 0))"

section \<open>Laws\<close>

definition level_ok :: "int \<Rightarrow> bool" where
  \<comment> \<open>the backoff levels the ladder reaches from zero\<close>
  "level_ok l = (0 \<le> l \<and> l \<le> 11)"

lemma nextQuotaCooldown_ladder:
  assumes "level_ok l"
  shows "nextQuotaCooldown l False = (min (2 ^ nat l * second) (30 * minute), min (l + 1) 11)"
proof -
  define p :: int where "p = 2 ^ nat l"
  have one: "1 \<le> p" by (simp add: p_def)
  have n: "nat l \<le> 11" using assms by (simp add: level_ok_def nat_le_iff)
  then have "p \<le> 2 ^ 11" unfolding p_def by (intro power_increasing) simp_all
  then have up: "p \<le> 2048" by simp
  have w1: "wrap64 p = p" using one up by (intro wrap64_id) (simp_all add: int64_defs)
  have w2: "wrap64 (quotaBackoffBase * p) = second * p"
    unfolding quotaBackoffBase_def using one up
    by (intro wrap64_id) (simp_all add: int64_defs duration_defs)
  have base: "\<not> second * p < quotaBackoffBase" using one by (simp add: quotaBackoffBase_def duration_defs)
  have step: "nextQuotaCooldown l False
      = (if second * p \<ge> quotaBackoffMax then (quotaBackoffMax, l) else (second * p, l + 1))"
    using assms w1 w2 base
    by (simp add: nextQuotaCooldown_def Let_def p_def [symmetric] level_ok_def)
  show ?thesis
  proof (cases "l = 11")
    case True
    then have "p = 2048" by (simp add: p_def)
    then show ?thesis using step True
      by (simp add: p_def [symmetric] quotaBackoffMax_def duration_defs)
  next
    case False
    then have "nat l \<le> 10" using assms by (simp add: level_ok_def nat_le_iff)
    then have "p \<le> 2 ^ 10" unfolding p_def by (intro power_increasing) simp_all
    then have "p \<le> 1024" by simp
    then show ?thesis using step False assms
      by (simp add: p_def [symmetric] quotaBackoffMax_def duration_defs level_ok_def)
  qed
qed

lemma nextQuotaCooldown_level: "level_ok l \<Longrightarrow> level_ok (snd (nextQuotaCooldown l d))"
  using nextQuotaCooldown_ladder [of l] by (cases d) (auto simp: nextQuotaCooldown_def level_ok_def)

lemma nextQuotaCooldown_pos: "0 < fst (nextQuotaCooldown l False)"
  by (simp add: nextQuotaCooldown_def Let_def backoff_defs duration_defs)

lemma nextQuotaCooldown_max: "fst (nextQuotaCooldown l d) \<le> quotaBackoffMax"
  by (simp add: nextQuotaCooldown_def Let_def backoff_defs duration_defs)

lemma nextCloudflareCooldown_level: "level_ok l \<Longrightarrow> level_ok (snd (nextCloudflareCooldown l d now))"
  using nextQuotaCooldown_level [of l d]
  by (auto simp: nextCloudflareCooldown_def Let_def split: prod.splits)

lemma quotaCooldownAfterFailure_level:
  "level_ok (q_BackoffLevel q) \<Longrightarrow> level_ok (snd (quotaCooldownAfterFailure q now))"
  using nextQuotaCooldown_level [of "q_BackoffLevel q" False]
  by (auto simp: quotaCooldownAfterFailure_def split: prod.splits)

text \<open>
  A level above 33, which only a persisted record can bring in, overflows the multiplication:
  the next cooldown is one second again.
\<close>

lemma quota_ladder_overflow: "nextQuotaCooldown 34 False = (second, 35)"
  by (simp add: nextQuotaCooldown_def backoff_defs duration_defs wrap64_def)

lemma stateAt_setState [simp]: "stateAt l (setState k s auth) = (if l = k then Some s else stateAt l auth)"
  by (simp add: stateAt_def setState_def go_map)

lemma setState_simps [simp]:
  "au_Quota (setState k s auth) = au_Quota auth"
  "au_Disabled (setState k s auth) = au_Disabled auth"
  "au_Status (setState k s auth) = au_Status auth"
  "au_Unavailable (setState k s auth) = au_Unavailable auth"
  "au_ModelStates (setState k s auth) \<noteq> []"
  "mwf (au_ModelStates auth) \<Longrightarrow> mwf (au_ModelStates (setState k s auth))"
  by (auto simp: setState_def inv_intro) (cases "au_ModelStates auth"; auto split: if_splits)

text \<open>Which fields a merge keeps from each side.\<close>

lemma mergedQuota_fields [simp]:
  "q_Exceeded (mergedQuota t s p f) = (q_Exceeded t \<or> q_Exceeded s)"
  "q_NextRecoverAt (mergedQuota t s p f) = max (q_NextRecoverAt t) (q_NextRecoverAt s)"
  "q_BackoffLevel (mergedQuota t s p f) = max (q_BackoffLevel t) (q_BackoffLevel s)"
  by (simp_all add: mergedQuota_def Let_def)

lemma mergeModelState_Some: "\<exists>m. mergeModelState (Some t) (Some s) = Some m"
  by (simp add: mergeModelState_def Let_def)

lemma mergeModelState_fields:
  assumes "mergeModelState (Some t) (Some s) = Some m"
  shows "ms_NextRetryAfter m = max (ms_NextRetryAfter t) (ms_NextRetryAfter s)"
    and "ms_Unavailable m = (ms_Unavailable t \<or> ms_Unavailable s)"
    and "q_Exceeded (ms_Quota m) = (q_Exceeded (ms_Quota t) \<or> q_Exceeded (ms_Quota s))"
    and "q_NextRecoverAt (ms_Quota m) = max (q_NextRecoverAt (ms_Quota t)) (q_NextRecoverAt (ms_Quota s))"
    and "q_BackoffLevel (ms_Quota m) = max (q_BackoffLevel (ms_Quota t)) (q_BackoffLevel (ms_Quota s))"
    and "ms_UpdatedAt m = max (ms_UpdatedAt t) (ms_UpdatedAt s)"
  using assms by (auto simp: mergeModelState_def Let_def max_def)

lemma mergeModelState_LastError:
  assumes "mergeModelState (Some t) (Some s) = Some m" and "ms_LastError t = None"
  shows "ms_LastError m = ms_LastError s"
  using assms
  by (cases "ms_UpdatedAt t < ms_UpdatedAt s"; cases "ms_LastError s") (auto simp: mergeModelState_def Let_def)

lemma mergeModelState_disabled:
  assumes "mergeModelState (Some t) (Some s) = Some m"
  shows "ms_Status m = StatusDisabled \<longleftrightarrow> ms_Status t = StatusDisabled \<or> ms_Status s = StatusDisabled"
  using assms
  by (cases "ms_UpdatedAt t < ms_UpdatedAt s") (auto simp: mergeModelState_def Let_def split: if_splits)

section \<open>Properties\<close>

text \<open>The ladder of quota cooldowns. From any level it can reach, the next cooldown is two to the
  level seconds, capped at thirty minutes, and the level goes up by one until it stands at 11: no
  overflow of the 64-bit arithmetic, no cooldown outside one second to thirty minutes.\<close>

theorem quota_ladder:
  assumes "level_ok l"
  shows "nextQuotaCooldown l False = (min (2 ^ nat l * second) (30 * minute), min (l + 1) 11)
    \<and> second \<le> fst (nextQuotaCooldown l False) \<and> level_ok (snd (nextQuotaCooldown l False))"
proof -
  have "(1::int) \<le> 2 ^ nat l" by simp
  then have "second \<le> min (2 ^ nat l * second) (30 * minute)" by (simp add: duration_defs)
  then show ?thesis using nextQuotaCooldown_ladder [OF assms] nextQuotaCooldown_level [OF assms, of False]
    by simp
qed

theorem quota_ladder_witness:
  "nextQuotaCooldown 10 False = (1024 * second, 11)"
proof -
  have "level_ok 10" by (simp add: level_ok_def)
  from quota_ladder [OF this] show ?thesis by (simp add: duration_defs)
qed

text \<open>Merging two states of one model is the strictest of both: the later deadlines and the higher
  backoff level; and while one of the parts is disabled or has an open deadline, the merged state
  is in cooldown.\<close>

theorem merge_strictest:
  assumes "mergeModelState (Some t) (Some s) = Some m" and "0 \<le> now"
  shows "ms_NextRetryAfter m = max (ms_NextRetryAfter t) (ms_NextRetryAfter s)
    \<and> q_NextRecoverAt (ms_Quota m) = max (q_NextRecoverAt (ms_Quota t)) (q_NextRecoverAt (ms_Quota s))
    \<and> q_BackoffLevel (ms_Quota m) = max (q_BackoffLevel (ms_Quota t)) (q_BackoffLevel (ms_Quota s))
    \<and> (\<forall>x \<in> {t, s}. ms_Status x = StatusDisabled \<or> now < ms_NextRetryAfter x \<or> now < q_NextRecoverAt (ms_Quota x)
         \<longrightarrow> isModelStateActiveCooldown (Some m) now)"
proof -
  note f = mergeModelState_fields [OF assms(1)] mergeModelState_disabled [OF assms(1)]
  have "isModelStateActiveCooldown (Some m) now"
    if "x \<in> {t, s}" "ms_Status x = StatusDisabled \<or> now < ms_NextRetryAfter x \<or> now < q_NextRecoverAt (ms_Quota x)" for x
    using that assms(2) f by (auto simp: isModelStateActiveCooldown_def less_max_iff_disj)
  then show ?thesis using f by blast
qed

definition sample_state :: "Status \<Rightarrow> time \<Rightarrow> bool \<Rightarrow> time \<Rightarrow> ModelState" where
  \<comment> \<open>a state for the concrete instances\<close>
  "sample_state st next exceeded recover =
     zeroModelState\<lparr>ms_Status := st, ms_Unavailable := True, ms_NextRetryAfter := next,
       ms_Quota := zeroQuota\<lparr>q_Exceeded := exceeded, q_NextRecoverAt := recover\<rparr>\<rparr>"

theorem merge_strictest_witness:
  "\<exists>m. mergeModelState (Some (sample_state StatusError 5 False 0)) (Some (sample_state StatusError 9 True 7)) = Some m
    \<and> isModelStateActiveCooldown (Some m) 6"
proof -
  let ?t = "sample_state StatusError 5 False 0" and ?s = "sample_state StatusError 9 True 7"
  obtain m where m: "mergeModelState (Some ?t) (Some ?s) = Some m" using mergeModelState_Some by blast
  have "6 < ms_NextRetryAfter ?s" by (simp add: sample_state_def zeroModelState_def)
  with merge_strictest [OF m, of 6] m show ?thesis by auto
qed

end
