(* ===== verification/Aggregate.thy ===== *)
theory Aggregate
  imports Cooldown
begin

text \<open>
  Folding the per-model states of a credential into its own availability, and the operations of
  \<open>conductor_cooldown.go\<close> that clear or set the state of the credential as a whole.
\<close>

section \<open>\<open>updateAggregatedAvailability\<close>\<close>

record Agg =
  ag_allUnavailable :: bool
  ag_earliestRetry :: time
  ag_quotaExceeded :: bool
  ag_quotaRecover :: time
  ag_maxBackoffLevel :: int
  ag_hasState :: bool

text \<open>One round of the loop: a cooldown that has run out is cleared in the state itself.\<close>

definition expireState :: "time \<Rightarrow> ModelState \<Rightarrow> ModelState" where
  "expireState now s =
     (if ms_Status s \<noteq> StatusDisabled \<and> ms_Unavailable s \<and> \<not> IsZero (ms_NextRetryAfter s)
         \<and> \<not> After (ms_NextRetryAfter s) now
      then s\<lparr>ms_Unavailable := False, ms_NextRetryAfter := 0\<rparr> else s)"

definition cooling :: "time \<Rightarrow> ModelState \<Rightarrow> bool" where
  "cooling now s =
     (ms_Status s \<noteq> StatusDisabled \<and> ms_Unavailable s \<and> \<not> IsZero (ms_NextRetryAfter s)
      \<and> After (ms_NextRetryAfter s) now)"

definition agg_step :: "time \<Rightarrow> ModelState \<Rightarrow> Agg \<Rightarrow> Agg" where
  "agg_step now s acc =
     (let acc1 = acc\<lparr>ag_hasState := True\<rparr>;
          acc2 = (if cooling now s
                     \<and> (IsZero (ag_earliestRetry acc1) \<or> Before (ms_NextRetryAfter s) (ag_earliestRetry acc1))
                  then acc1\<lparr>ag_earliestRetry := ms_NextRetryAfter s\<rparr> else acc1);
          stateUnavailable = (ms_Status s = StatusDisabled \<or> cooling now s);
          acc3 = (if stateUnavailable then acc2 else acc2\<lparr>ag_allUnavailable := False\<rparr>);
          q = ms_Quota s
      in if \<not> q_Exceeded q then acc3
         else (let acc4 = acc3\<lparr>ag_quotaExceeded := True\<rparr>;
                   acc5 = (if IsZero (ag_quotaRecover acc4)
                             \<or> (\<not> IsZero (q_NextRecoverAt q) \<and> Before (q_NextRecoverAt q) (ag_quotaRecover acc4))
                           then acc4\<lparr>ag_quotaRecover := q_NextRecoverAt q\<rparr> else acc4)
               in if q_BackoffLevel q > ag_maxBackoffLevel acc5
                  then acc5\<lparr>ag_maxBackoffLevel := q_BackoffLevel q\<rparr> else acc5))"

definition agg_init :: Agg where
  "agg_init = \<lparr>ag_allUnavailable = True, ag_earliestRetry = 0, ag_quotaExceeded = False,
     ag_quotaRecover = 0, ag_maxBackoffLevel = 0, ag_hasState = False\<rparr>"

definition liveStates :: "Auth \<Rightarrow> ModelState list" where
  "liveStates auth = List.map_filter snd (au_ModelStates auth)"

definition aggregate :: "time \<Rightarrow> Auth \<Rightarrow> Agg" where
  "aggregate now auth = fold (agg_step now) (liveStates auth) agg_init"

definition clearAggregatedAvailability :: "Auth \<Rightarrow> Auth" where
  "clearAggregatedAvailability auth =
     auth\<lparr>au_Unavailable := False, au_NextRetryAfter := 0,
          au_Quota := applyCooldownFields (au_Quota auth) zeroQuota\<rparr>"

definition mapStates :: "(ModelState \<Rightarrow> ModelState) \<Rightarrow> Auth \<Rightarrow> Auth" where
  "mapStates f auth = auth\<lparr>au_ModelStates := map (\<lambda>(k, s). (k, map_option f s)) (au_ModelStates auth)\<rparr>"

definition credentialQuotaOpen :: "Auth \<Rightarrow> time \<Rightarrow> bool" where
  "credentialQuotaOpen auth now =
     (q_Reason (au_Quota auth) = ''credential_quota'' \<and> After (q_NextRecoverAt (au_Quota auth)) now)"

definition updateAggregatedAvailability :: "time \<Rightarrow> Auth \<Rightarrow> Auth" where
  "updateAggregatedAvailability now auth =
     (if q_Exceeded (au_Quota auth) \<and> credentialQuotaOpen auth now then auth\<lparr>au_Unavailable := True\<rparr>
      else if au_ModelStates auth = [] then clearAggregatedAvailability auth
      else (let acc = aggregate now auth; auth1 = mapStates (expireState now) auth in
        if \<not> ag_hasState acc then clearAggregatedAvailability auth1
        else (let auth2 = auth1\<lparr>au_Unavailable := ag_allUnavailable acc,
                                au_NextRetryAfter := (if ag_allUnavailable acc then ag_earliestRetry acc else 0)\<rparr>;
                  q = au_Quota auth2
              in if ag_quotaExceeded acc then
                   auth2\<lparr>au_Quota := q\<lparr>q_Exceeded := True, q_Reason := ''quota'',
                     q_NextRecoverAt := (if After (q_NextRecoverAt q) (ag_quotaRecover acc)
                                         then q_NextRecoverAt q else ag_quotaRecover acc),
                     q_BackoffLevel := ag_maxBackoffLevel acc\<rparr>\<rparr>
                 else if q_Exceeded q \<and> After (q_NextRecoverAt q) now then auth2
                 else auth2\<lparr>au_Quota := q\<lparr>q_Exceeded := False, q_Reason := [], q_NextRecoverAt := 0,
                     q_BackoffLevel := 0\<rparr>\<rparr>)))"

section \<open>Clearing\<close>

definition hasModelError :: "Auth \<Rightarrow> time \<Rightarrow> bool" where
  "hasModelError auth now =
     list_ex (\<lambda>state. ms_LastError state \<noteq> None
        \<or> (ms_Status state = StatusError \<and> ms_Unavailable state
           \<and> (IsZero (ms_NextRetryAfter state) \<or> After (ms_NextRetryAfter state) now)))
       (liveStates auth)"

definition clearAuthStateOnSuccess :: "time \<Rightarrow> Auth \<Rightarrow> Auth" where
  "clearAuthStateOnSuccess now auth =
     auth\<lparr>au_Unavailable := False, au_Status := StatusActive, au_StatusMessage := [],
          au_Quota := (au_Quota auth)\<lparr>q_Exceeded := False, q_Reason := [], q_NextRecoverAt := 0,
            q_BackoffLevel := 0\<rparr>,
          au_LastError := None, au_NextRetryAfter := 0, au_UpdatedAt := now\<rparr>"

definition stateCools :: "ModelState \<Rightarrow> bool" where
  "stateCools s = (ms_Unavailable s \<or> \<not> IsZero (ms_NextRetryAfter s) \<or> q_Exceeded (ms_Quota s)
     \<or> \<not> IsZero (q_NextRecoverAt (ms_Quota s)))"

definition clearState :: "time \<Rightarrow> ModelState \<Rightarrow> ModelState" where
  "clearState now s =
     (if stateCools s
      then s\<lparr>ms_Unavailable := False, ms_NextRetryAfter := 0,
             ms_Quota := applyCooldownFields (ms_Quota s) zeroQuota, ms_UpdatedAt := now\<rparr>
      else s)"

definition authCools :: "Auth \<Rightarrow> bool" where
  "authCools auth = (au_Unavailable auth \<or> \<not> IsZero (au_NextRetryAfter auth) \<or> q_Exceeded (au_Quota auth)
     \<or> \<not> IsZero (q_NextRecoverAt (au_Quota auth)))"

definition clearCooldownStateForAuth :: "time \<Rightarrow> Auth \<Rightarrow> Auth \<times> bool" where
  "clearCooldownStateForAuth now auth =
     (let auth1 = (if authCools auth
                   then auth\<lparr>au_Unavailable := False, au_NextRetryAfter := 0,
                             au_Quota := applyCooldownFields (au_Quota auth) zeroQuota, au_UpdatedAt := now\<rparr>
                   else auth);
          changed = (authCools auth \<or> list_ex stateCools (liveStates auth));
          auth2 = mapStates (clearState now) auth1;
          auth3 = (if au_ModelStates auth2 \<noteq> [] then updateAggregatedAvailability now auth2 else auth2)
      in (if changed then auth3\<lparr>au_Generation := au_Generation auth3 + 1, au_UpdatedAt := now\<rparr> else auth3,
          changed))"

definition isUnauthorizedState :: "ModelState \<Rightarrow> bool" where
  "isUnauthorizedState s =
     (case ms_LastError s of None \<Rightarrow> False
      | Some e \<Rightarrow> er_HTTPStatus e = 401 \<or> EqualFold (er_Code e) ''unauthorized'')"

definition clearUnauthorizedModelStates :: "time \<Rightarrow> Auth \<Rightarrow> Auth \<times> string list" where
  "clearUnauthorizedModelStates now auth =
     (let resumed = map fst (filter (\<lambda>(k, s). case s of Some st \<Rightarrow> isUnauthorizedState st | None \<Rightarrow> False)
            (au_ModelStates auth));
          auth1 = mapStates (\<lambda>s. if isUnauthorizedState s then resetModelState now s else s) auth
      in if resumed = [] then (auth, []) else (updateAggregatedAvailability now auth1, resumed))"

section \<open>A failure of the credential as a whole\<close>

definition forceCooldown :: "Error option \<Rightarrow> bool" where
  "forceCooldown err = (case err of Some e \<Rightarrow> er_Code e = ErrorCodeForceCooldown | None \<Rightarrow> False)"

text \<open>
  \<open>quotaDeadline\<close> is the computation the 429 branches of \<open>MarkResult\<close> and
  \<open>applyAuthFailureState\<close> share: the upstream's delay, at least ten seconds, or the backoff
  ladder, and never earlier than a quota window that is still recorded.
\<close>

definition quotaDeadline ::
  "QuotaState \<Rightarrow> duration option \<Rightarrow> time \<Rightarrow> bool \<Rightarrow> bool \<Rightarrow> time \<times> int" where
  "quotaDeadline quota retryAfter now exceeded disableCooling =
     (if disableCooling then (0, q_BackoffLevel quota)
      else (case (case retryAfter of
                    Some d \<Rightarrow> (now + (if d < minQuotaCooldownFloor then minQuotaCooldownFloor else d),
                               q_BackoffLevel quota)
                  | None \<Rightarrow> quotaCooldownAfterFailure quota now) of (next, backoffLevel) \<Rightarrow>
        (if exceeded \<and> After (q_NextRecoverAt quota) next then q_NextRecoverAt quota else next,
         backoffLevel)))"

definition setQuotaFields :: "bool \<Rightarrow> string \<Rightarrow> time \<Rightarrow> int \<Rightarrow> QuotaState" where
  "setQuotaFields exceeded reason recover level =
     \<lparr>q_Exceeded = exceeded, q_Reason = reason, q_NextRecoverAt = recover, q_BackoffLevel = level,
      q_ObservedAt = 0, q_Signals = []\<rparr>"

definition noteCredentialFailure :: "Error option \<Rightarrow> time \<Rightarrow> Auth \<Rightarrow> Auth" where
  "noteCredentialFailure err now auth =
     (let auth1 = auth\<lparr>au_Unavailable := True, au_Status := StatusError, au_UpdatedAt := now\<rparr>
      in case err of
          Some e \<Rightarrow> auth1\<lparr>au_LastError := cloneError err,
             au_StatusMessage := (if er_Message e \<noteq> [] then er_Message e else au_StatusMessage auth1)\<rparr>
        | None \<Rightarrow> auth1)"

text \<open>The \<open>switch statusCode\<close>.\<close>

definition failureByStatus ::
  "CoolingGlobals \<Rightarrow> Error option \<Rightarrow> duration option \<Rightarrow> time \<Rightarrow> bool \<Rightarrow> Auth \<Rightarrow> Auth" where
  "failureByStatus g resultErr retryAfter now disableCooling auth =
     (let statusCode = statusCodeFromResult resultErr;
          recover = recoverableFailureRetryAfter g now disableCooling
      in if statusCode = 401 then
           auth\<lparr>au_StatusMessage := ''unauthorized'',
                au_NextRetryAfter := (if disableCooling then 0 else now + 30 * minute)\<rparr>
         else if statusCode = 402 \<or> statusCode = 403 then
           auth\<lparr>au_StatusMessage := ''payment_required'',
                au_NextRetryAfter := (if disableCooling then 0 else now + 30 * minute)\<rparr>
         else if statusCode = 404 then
           auth\<lparr>au_StatusMessage := ''not_found'',
                au_NextRetryAfter := (if disableCooling then 0 else now + 12 * hour)\<rparr>
         else if statusCode = 429 then
           (case quotaDeadline (au_Quota auth) retryAfter now True disableCooling of (next, level) \<Rightarrow>
             auth\<lparr>au_StatusMessage := ''quota exhausted'',
                  au_Quota := applyCooldownFields (au_Quota auth) (setQuotaFields True ''quota'' next level),
                  au_NextRetryAfter := next\<rparr>)
         else if statusCode \<in> {408, 500, 502, 503, 504} then
           auth\<lparr>au_StatusMessage := ''transient upstream error'', au_NextRetryAfter := recover,
                au_Unavailable := \<not> IsZero recover\<rparr>
         else
           auth\<lparr>au_StatusMessage := (if au_StatusMessage auth = [] then ''request failed''
                                     else au_StatusMessage auth),
                au_NextRetryAfter := recover, au_Unavailable := \<not> IsZero recover\<rparr>)"

definition forceDeadline :: "Error option \<Rightarrow> time \<Rightarrow> Auth \<Rightarrow> Auth" where
  "forceDeadline resultErr now a =
     (if forceCooldown resultErr \<and> IsZero (au_NextRetryAfter a)
      then a\<lparr>au_NextRetryAfter := now + transientErrorCooldown, au_Unavailable := True\<rparr> else a)"

definition settleCredential :: "bool \<Rightarrow> Auth \<Rightarrow> Auth" where
  \<comment> \<open>the deferred function\<close>
  "settleCredential disableCooling a =
     (if disableCooling \<and> IsZero (au_NextRetryAfter a) \<and> IsZero (q_NextRecoverAt (au_Quota a))
      then a\<lparr>au_Unavailable := False, au_Quota := (au_Quota a)\<lparr>q_Exceeded := False\<rparr>\<rparr> else a)"

definition applyAuthFailureState ::
  "Env \<Rightarrow> CoolingGlobals \<Rightarrow> Error option \<Rightarrow> duration option \<Rightarrow> time \<Rightarrow> bool \<Rightarrow> Auth \<Rightarrow> Auth" where
  "applyAuthFailureState env g resultErr retryAfter now disableCooling auth0 =
     (if shouldSkipCredentialCooldown env resultErr then auth0
      else (let auth2 = noteCredentialFailure resultErr now auth0
            in settleCredential disableCooling
              (if isCloudflareChallengeResultError resultErr then
                 (case nextCloudflareCooldown (q_BackoffLevel (au_Quota auth2)) disableCooling now of (next, level) \<Rightarrow>
                   auth2\<lparr>au_StatusMessage := ''cloudflare challenge'',
                         au_Quota := applyCooldownFields (au_Quota auth2)
                           (setQuotaFields True ''cloudflare challenge'' next level),
                         au_NextRetryAfter := next\<rparr>)
               else if isInvalidGrantResultError resultErr then
                 auth2\<lparr>au_StatusMessage := ''invalid_grant'',
                       au_NextRetryAfter := (if disableCooling then 0 else now + 30 * minute)\<rparr>
               else forceDeadline resultErr now
                 (failureByStatus g resultErr retryAfter now disableCooling auth2))))"

section \<open>Laws of the aggregation\<close>

text \<open>The minimum of two times where zero stands for none.\<close>

definition earlier :: "time \<Rightarrow> time \<Rightarrow> time" where
  "earlier a b = (if a = 0 then b else if b = 0 then a else min a b)"

lemma earlier_commute: "earlier a b = earlier b a"
  by (auto simp: earlier_def)

lemma earlier_right_commute: "earlier (earlier a b) c = earlier (earlier a c) b"
  by (auto simp: earlier_def min_def)

lemma agg_step_fields [simp]:
  "ag_allUnavailable (agg_step now s acc) = (ag_allUnavailable acc \<and> (ms_Status s = StatusDisabled \<or> cooling now s))"
  "ag_hasState (agg_step now s acc) = True"
  "ag_quotaExceeded (agg_step now s acc) = (ag_quotaExceeded acc \<or> q_Exceeded (ms_Quota s))"
  "ag_maxBackoffLevel (agg_step now s acc) =
     (if q_Exceeded (ms_Quota s) then max (ag_maxBackoffLevel acc) (q_BackoffLevel (ms_Quota s))
      else ag_maxBackoffLevel acc)"
  by (simp_all add: agg_step_def Let_def)

lemma agg_step_quotaRecover [simp]:
  "ag_quotaRecover (agg_step now s acc) =
     (if q_Exceeded (ms_Quota s) then earlier (ag_quotaRecover acc) (q_NextRecoverAt (ms_Quota s))
      else ag_quotaRecover acc)"
  by (simp add: agg_step_def Let_def earlier_def)

lemma agg_step_earliestRetry [simp]:
  "ag_earliestRetry (agg_step now s acc) =
     (if cooling now s then earlier (ag_earliestRetry acc) (ms_NextRetryAfter s) else ag_earliestRetry acc)"
  by (auto simp: agg_step_def Let_def earlier_def cooling_def)

lemma agg_step_commute: "agg_step now x \<circ> agg_step now y = agg_step now y \<circ> agg_step now x"
proof
  fix acc
  show "(agg_step now x \<circ> agg_step now y) acc = (agg_step now y \<circ> agg_step now x) acc"
  proof (rule Agg.equality)
    show "ag_earliestRetry ((agg_step now x \<circ> agg_step now y) acc)
        = ag_earliestRetry ((agg_step now y \<circ> agg_step now x) acc)"
      by (simp add: earlier_right_commute)
    show "ag_quotaRecover ((agg_step now x \<circ> agg_step now y) acc)
        = ag_quotaRecover ((agg_step now y \<circ> agg_step now x) acc)"
      by (simp add: earlier_right_commute)
  qed (simp_all add: max.left_commute max.commute conj_ac disj_ac)
qed

lemma mset_map_filter_snd:
  "mset (List.map_filter snd m) = image_mset (the \<circ> snd) (filter_mset (\<lambda>x. snd x \<noteq> None) (mset m))"
  by (simp add: List.map_filter_def flip: mset_filter)

lemma liveStates_perm: "mset m = mset m' \<Longrightarrow> mset (List.map_filter snd m) = mset (List.map_filter snd m')"
  by (simp add: mset_map_filter_snd)

lemma aggregate_perm:
  assumes "mset (au_ModelStates a) = mset (au_ModelStates b)"
  shows "aggregate now a = aggregate now b"
  unfolding aggregate_def liveStates_def
  using fold_multiset_equiv [of "List.map_filter snd (au_ModelStates a)" "agg_step now"
      "List.map_filter snd (au_ModelStates b)"] agg_step_commute liveStates_perm [OF assms]
  by metis

lemma fold_agg_allUnavailable:
  "ag_allUnavailable (fold (agg_step now) L acc) =
     (ag_allUnavailable acc \<and> (\<forall>s \<in> set L. ms_Status s = StatusDisabled \<or> cooling now s))"
  by (induction L arbitrary: acc) auto

lemma fold_agg_hasState: "ag_hasState (fold (agg_step now) L acc) = (ag_hasState acc \<or> L \<noteq> [])"
  by (induction L arbitrary: acc) auto

lemma fold_agg_quotaExceeded:
  "ag_quotaExceeded (fold (agg_step now) L acc) = (ag_quotaExceeded acc \<or> (\<exists>s \<in> set L. q_Exceeded (ms_Quota s)))"
  by (induction L arbitrary: acc) auto

lemma fold_agg_maxBackoffLevel:
  "level_ok (ag_maxBackoffLevel acc) \<Longrightarrow> \<forall>s \<in> set L. level_ok (q_BackoffLevel (ms_Quota s)) \<Longrightarrow>
     level_ok (ag_maxBackoffLevel (fold (agg_step now) L acc))"
  by (induction L arbitrary: acc) (auto simp: max_def)

lemma fold_agg_earliestRetry:
  assumes "e = ag_earliestRetry (fold (agg_step now) L acc)"
  shows "(e = ag_earliestRetry acc \<or> (\<exists>s \<in> set L. cooling now s \<and> e = ms_NextRetryAfter s))
    \<and> (\<forall>s \<in> set L. cooling now s \<longrightarrow> e \<noteq> 0 \<and> e \<le> ms_NextRetryAfter s)
    \<and> (ag_earliestRetry acc \<noteq> 0 \<longrightarrow> e \<noteq> 0 \<and> e \<le> ag_earliestRetry acc)"
  using assms
proof (induction L arbitrary: acc)
  case (Cons s L)
  let ?acc = "agg_step now s acc"
  have e: "e = ag_earliestRetry (fold (agg_step now) L ?acc)" using Cons.prems by simp
  note ih = Cons.IH [OF e]
  show ?case
  proof (cases "cooling now s")
    case True
    then have nz: "ms_NextRetryAfter s \<noteq> 0" by (simp add: cooling_def)
    have ea: "ag_earliestRetry ?acc = earlier (ag_earliestRetry acc) (ms_NextRetryAfter s)" using True by simp
    then have "ag_earliestRetry ?acc \<noteq> 0" "ag_earliestRetry ?acc \<le> ms_NextRetryAfter s"
      "ag_earliestRetry ?acc \<in> {ag_earliestRetry acc, ms_NextRetryAfter s}"
      "ag_earliestRetry acc \<noteq> 0 \<longrightarrow> ag_earliestRetry ?acc \<le> ag_earliestRetry acc"
      using nz by (auto simp: earlier_def min_def)
    then show ?thesis using ih True by fastforce
  next
    case False
    then show ?thesis using ih by auto
  qed
qed simp

lemma aggregate_fields:
  "ag_allUnavailable (aggregate now a) = (\<forall>s \<in> set (liveStates a). ms_Status s = StatusDisabled \<or> cooling now s)"
  "ag_hasState (aggregate now a) = (liveStates a \<noteq> [])"
  "ag_quotaExceeded (aggregate now a) = (\<exists>s \<in> set (liveStates a). q_Exceeded (ms_Quota s))"
  by (simp_all add: aggregate_def fold_agg_allUnavailable fold_agg_hasState fold_agg_quotaExceeded agg_init_def)

lemma aggregate_earliestRetry:
  "(ag_earliestRetry (aggregate now a) = 0 \<and> (\<forall>s \<in> set (liveStates a). \<not> cooling now s))
   \<or> ((\<exists>s \<in> set (liveStates a). cooling now s \<and> ag_earliestRetry (aggregate now a) = ms_NextRetryAfter s)
      \<and> (\<forall>s \<in> set (liveStates a). cooling now s \<longrightarrow> ag_earliestRetry (aggregate now a) \<le> ms_NextRetryAfter s))"
  using fold_agg_earliestRetry [of "ag_earliestRetry (aggregate now a)" now "liveStates a" agg_init]
  by (auto simp: aggregate_def agg_init_def)

lemma map_filter_map_option:
  "List.map_filter snd (map (\<lambda>(k, s). (k, map_option f s)) xs) = map f (List.map_filter snd xs)"
  by (induction xs) (auto simp: List.map_filter_simps split: option.splits)

lemma mapStates_fields [simp]:
  "au_Quota (mapStates f a) = au_Quota a" "au_Unavailable (mapStates f a) = au_Unavailable a"
  "au_NextRetryAfter (mapStates f a) = au_NextRetryAfter a"
  "liveStates (mapStates f a) = map f (liveStates a)"
  by (simp_all add: mapStates_def liveStates_def map_filter_map_option)

lemma mget_map_snd: "mget (map (\<lambda>(k, v). (k, f k v)) m) k = map_option (f k) (mget m k)"
  by (induction m) auto

lemma stateAt_mapStates [simp]: "stateAt k (mapStates f a) = map_option f (stateAt k a)"
  by (simp add: stateAt_def mapStates_def mget_map_snd split: option.splits)

lemma stateAt_record_updates [simp]:
  "stateAt k (a\<lparr>au_Unavailable := u\<rparr>) = stateAt k a" "stateAt k (a\<lparr>au_NextRetryAfter := t\<rparr>) = stateAt k a"
  "stateAt k (a\<lparr>au_Quota := q\<rparr>) = stateAt k a" "stateAt k (a\<lparr>au_Status := st\<rparr>) = stateAt k a"
  "stateAt k (a\<lparr>au_LastError := e\<rparr>) = stateAt k a" "stateAt k (a\<lparr>au_StatusMessage := msg\<rparr>) = stateAt k a"
  "stateAt k (a\<lparr>au_Generation := g\<rparr>) = stateAt k a" "stateAt k (a\<lparr>au_UpdatedAt := now\<rparr>) = stateAt k a"
  "stateAt k (a\<lparr>au_recentRequests := r\<rparr>) = stateAt k a" "stateAt k (a\<lparr>au_Success := n\<rparr>) = stateAt k a"
  "stateAt k (a\<lparr>au_Failed := n\<rparr>) = stateAt k a"
  by (simp_all add: stateAt_def)

lemma updateAggregatedAvailability_states:
  "au_ModelStates (updateAggregatedAvailability now a) = au_ModelStates a
   \<or> au_ModelStates (updateAggregatedAvailability now a) = au_ModelStates (mapStates (expireState now) a)"
  by (simp add: updateAggregatedAvailability_def Let_def clearAggregatedAvailability_def)

lemma stateAt_updateAggregatedAvailability:
  "stateAt k (updateAggregatedAvailability now a) = stateAt k a
   \<or> stateAt k (updateAggregatedAvailability now a) = map_option (expireState now) (stateAt k a)"
  using updateAggregatedAvailability_states [of now a] stateAt_mapStates [of k "expireState now" a]
  by (auto simp: stateAt_def)

lemma expireState_fields [simp]:
  "ms_Status (expireState now s) = ms_Status s" "ms_Quota (expireState now s) = ms_Quota s"
  "ms_LastError (expireState now s) = ms_LastError s"
  by (simp_all add: expireState_def)

lemma expireState_open: "now < ms_NextRetryAfter s \<Longrightarrow> expireState now s = s"
  by (simp add: expireState_def)

text \<open>A property of every live state of a map of states.\<close>

definition all_states :: "(ModelState \<Rightarrow> bool) \<Rightarrow> (string, ModelState option) gomap \<Rightarrow> bool" where
  "all_states P m = (\<forall>k s. (k, Some s) \<in> set m \<longrightarrow> P s)"

lemma all_states_Nil [simp]: "all_states P []"
  by (simp add: all_states_def)

lemma liveStates_iff: "s \<in> set (liveStates a) \<longleftrightarrow> (\<exists>k. (k, Some s) \<in> set (au_ModelStates a))"
  by (force simp: liveStates_def List.map_filter_def)

lemma all_states_live: "all_states P (au_ModelStates a) \<longleftrightarrow> (\<forall>s \<in> set (liveStates a). P s)"
  by (auto simp: all_states_def liveStates_iff)

lemma all_states_mput:
  "all_states P m \<Longrightarrow> (case v of Some s \<Rightarrow> P s | None \<Rightarrow> True) \<Longrightarrow> all_states P (mput k v m)"
  using set_mput [of k v m] by (fastforce simp: all_states_def)

lemma all_states_mget: "all_states P m \<Longrightarrow> mget m k = Some (Some s) \<Longrightarrow> P s"
  by (auto simp: all_states_def dest: mget_Some_in)

lemma all_states_mapStates:
  "all_states P (au_ModelStates a) \<Longrightarrow> (\<And>s. P s \<Longrightarrow> P (f s)) \<Longrightarrow> all_states P (au_ModelStates (mapStates f a))"
  by (auto simp: all_states_def mapStates_def eq_commute [of "Some _" "map_option f _"])

lemma all_states_update:
  assumes "all_states P (au_ModelStates a)" and "\<And>s. P s \<Longrightarrow> P (expireState now s)"
  shows "all_states P (au_ModelStates (updateAggregatedAvailability now a))"
  using assms updateAggregatedAvailability_states [of now a] all_states_mapStates [OF assms] by auto

lemma clearCooldownStateForAuth_clears:
  "all_states (\<lambda>s. \<not> stateCools s) (au_ModelStates (fst (clearCooldownStateForAuth now a)))"
proof -
  have "\<not> stateCools (clearState now s)" for s
    by (simp add: clearState_def stateCools_def applyCooldownFields_def zeroQuota_def)
  then have m: "all_states (\<lambda>s. \<not> stateCools s) (au_ModelStates (mapStates (clearState now) x))" for x
    by (auto simp: all_states_def mapStates_def eq_commute [of "Some _" "map_option _ _"])
  have "\<not> stateCools s \<Longrightarrow> \<not> stateCools (expireState now s)" for s
    by (auto simp: stateCools_def expireState_def)
  then have "all_states (\<lambda>s. \<not> stateCools s)
      (au_ModelStates (updateAggregatedAvailability now (mapStates (clearState now) x)))" for x
    by (rule all_states_update [OF m])
  with m show ?thesis by (simp add: clearCooldownStateForAuth_def Let_def)
qed

lemma all_states_normalize:
  assumes "all_states P (au_ModelStates a)"
    and "\<And>t s m. mergeModelState (Some t) (Some s) = Some m \<Longrightarrow> P t \<Longrightarrow> P s \<Longrightarrow> P m"
  shows "all_states P (au_ModelStates (fst (normalizeModelStates a)))"
proof -
  have merge: "case mergeModelState x y of Some s \<Rightarrow> P s | None \<Rightarrow> True"
    if "case x of Some s \<Rightarrow> P s | None \<Rightarrow> True" "case y of Some s \<Rightarrow> P s | None \<Rightarrow> True" for x y
    using that assms(2) mergeModelState_Some
    by (cases x; cases y) (auto simp: mergeModelState_def [of None] mergeModelState_def [of "Some _" None] split: option.splits)
  have "all_states P (fst (fold normalize_step xs acc))"
    if "all_states P xs" "all_states P (fst acc)" for xs acc
    using that
  proof (induction xs arbitrary: acc)
    case (Cons x xs)
    obtain k s where x: "x = (k, s)" by fastforce
    have s: "case s of Some st \<Rightarrow> P st | None \<Rightarrow> True"
      using Cons.prems(1) x by (auto simp: all_states_def split: option.splits)
    have "all_states P (fst (normalize_step x acc))"
    proof (cases "mget (fst acc) (normalKey k)")
      case None
      then show ?thesis using Cons.prems(2) s
        by (auto simp: normalize_step_def x Let_def all_states_mput split: prod.splits)
    next
      case (Some e)
      then have "case e of Some st \<Rightarrow> P st | None \<Rightarrow> True"
        using Cons.prems(2) all_states_mget by (cases e) auto
      then show ?thesis using Cons.prems(2) s Some merge
        by (auto simp: normalize_step_def x Let_def intro!: all_states_mput split: prod.splits)
    qed
    moreover have "all_states P xs" using Cons.prems(1) by (auto simp: all_states_def)
    ultimately show ?case using Cons.IH by simp
  qed simp
  from this [OF assms(1), of "([], False)"] show ?thesis using assms(1)
    by (auto simp: normalizeModelStates_def all_states_def [of P "[]"] split: prod.splits)
qed

lemma normalizeModelStates_fields [simp]:
  "au_Quota (fst (normalizeModelStates a)) = au_Quota a"
  by (auto simp: normalizeModelStates_def split: prod.splits)

lemma ensureModelState_Some:
  assumes "ensureModelState a model = Some (a1, k, s)"
  shows "k = canonicalModelKey model" and "k \<noteq> []" and "stateAt k a1 = Some s"
    and "au_Quota a1 = au_Quota a"
    and "s = zeroModelState\<lparr>ms_Status := StatusActive\<rparr> \<or> stateAt k (fst (normalizeModelStates a)) = Some s"
  using assms by (auto simp: ensureModelState_def Let_def split: if_splits option.splits)

lemma ensureModelState_total:
  "canonicalModelKey model \<noteq> [] \<Longrightarrow> \<exists>a1 k s. ensureModelState a model = Some (a1, k, s)"
  by (simp add: ensureModelState_def Let_def split: option.splits)

section \<open>Properties\<close>

text \<open>What the aggregation computes. Unless a quota of the whole credential is open (then it stays
  blocked), a credential with model states is unavailable exactly when every one of its models is
  disabled or has a cooldown that is still running, and its retry time is then the earliest of
  those cooldowns.\<close>

theorem aggregated_availability:
  assumes "\<not> (q_Exceeded (au_Quota a) \<and> credentialQuotaOpen a now)" and "liveStates a \<noteq> []"
  shows "let r = updateAggregatedAvailability now a;
             all = (\<forall>s \<in> set (liveStates a). ms_Status s = StatusDisabled \<or> cooling now s) in
     au_Unavailable r = all
     \<and> (\<not> all \<longrightarrow> au_NextRetryAfter r = 0)
     \<and> (all \<and> (\<exists>s \<in> set (liveStates a). cooling now s) \<longrightarrow>
          (\<exists>s \<in> set (liveStates a). cooling now s \<and> au_NextRetryAfter r = ms_NextRetryAfter s)
          \<and> (\<forall>s \<in> set (liveStates a). cooling now s \<longrightarrow> au_NextRetryAfter r \<le> ms_NextRetryAfter s))"
proof -
  have ne: "au_ModelStates a \<noteq> []" using assms(2) by (auto simp: liveStates_def List.map_filter_simps)
  let ?r = "updateAggregatedAvailability now a" and ?acc = "aggregate now a"
  have "au_Unavailable ?r = ag_allUnavailable ?acc
    \<and> au_NextRetryAfter ?r = (if ag_allUnavailable ?acc then ag_earliestRetry ?acc else 0)"
    using assms ne by (auto simp: updateAggregatedAvailability_def Let_def aggregate_fields(2))
  then show ?thesis using aggregate_earliestRetry [of now a] by (auto simp: aggregate_fields(1) Let_def)
qed

definition sample_auth :: "(string, ModelState option) gomap \<Rightarrow> Auth" where
  \<comment> \<open>a credential with the given model states, for the concrete instances\<close>
  "sample_auth m = zeroAuth\<lparr>au_ID := ''a'', au_Status := StatusActive, au_ModelStates := m\<rparr>"

theorem aggregated_availability_witness:
  "au_NextRetryAfter (updateAggregatedAvailability 6
     (sample_auth [(''m'', Some (sample_state StatusError 9 False 0)), (''n'', Some (sample_state StatusError 8 False 0))])) = 8"
proof -
  let ?s = "sample_state StatusError 9 False 0" and ?t = "sample_state StatusError 8 False 0"
  let ?a = "sample_auth [(''m'', Some ?s), (''n'', Some ?t)]"
  have 1: "\<not> (q_Exceeded (au_Quota ?a) \<and> credentialQuotaOpen ?a 6)"
    by (simp add: sample_auth_def zeroAuth_def zeroQuota_def)
  have live: "liveStates ?a = [?s, ?t]" by (simp add: liveStates_def sample_auth_def List.map_filter_simps)
  have cool: "cooling 6 ?s" "cooling 6 ?t" "ms_NextRetryAfter ?s = 9" "ms_NextRetryAfter ?t = 8"
    by (simp_all add: cooling_def sample_state_def zeroModelState_def)
  from aggregated_availability [OF 1] show ?thesis using cool by (auto simp: live Let_def)
qed

text \<open>the aggregation does not depend on the order in which Go's map iteration meets the models: with
  the same states in any other order the credential gets the same fields and the same states.\<close>

theorem aggregation_order_independent:
  assumes "mset (au_ModelStates a) = mset m"
  shows "let r = updateAggregatedAvailability now a;
             r' = updateAggregatedAvailability now (a\<lparr>au_ModelStates := m\<rparr>) in
     mset (au_ModelStates r) = mset (au_ModelStates r')
     \<and> r\<lparr>au_ModelStates := []\<rparr> = r'\<lparr>au_ModelStates := []\<rparr>"
proof -
  have agg: "aggregate now (a\<lparr>au_ModelStates := m\<rparr>) = aggregate now a"
    by (rule aggregate_perm) (simp add: assms)
  have nil: "m = [] \<longleftrightarrow> au_ModelStates a = []" using assms by (metis mset_zero_iff)
  have exp: "mset (au_ModelStates (mapStates f a)) = mset (au_ModelStates (mapStates f (a\<lparr>au_ModelStates := m\<rparr>)))" for f
    using assms by (simp add: mapStates_def)
  have opn: "credentialQuotaOpen (a\<lparr>au_ModelStates := m\<rparr>) now = credentialQuotaOpen a now"
    by (simp add: credentialQuotaOpen_def)
  show ?thesis
    using assms exp [of "expireState now"]
    by (simp add: updateAggregatedAvailability_def Let_def agg nil opn clearAggregatedAvailability_def mapStates_def)
qed

theorem aggregation_order_independent_witness:
  "let s = sample_state StatusError 9 True 0; t = sample_state StatusError 8 True 7;
       r = updateAggregatedAvailability 6 (sample_auth [(''m'', Some s), (''n'', Some t)]);
       r' = updateAggregatedAvailability 6 (sample_auth [(''n'', Some t), (''m'', Some s)])
   in au_Quota r = au_Quota r'"
proof -
  let ?m = "[(''m'', Some (sample_state StatusError 9 True 0)), (''n'', Some (sample_state StatusError 8 True 7))]"
  have up: "(sample_auth ?m)\<lparr>au_ModelStates := rev ?m\<rparr> = sample_auth (rev ?m)" by (simp add: sample_auth_def)
  have "mset (au_ModelStates (sample_auth ?m)) = mset (rev ?m)" by (simp add: sample_auth_def)
  from aggregation_order_independent [OF this, of 6]
  have "(updateAggregatedAvailability 6 (sample_auth ?m))\<lparr>au_ModelStates := []\<rparr>
      = (updateAggregatedAvailability 6 (sample_auth (rev ?m)))\<lparr>au_ModelStates := []\<rparr>"
    unfolding up Let_def by blast
  then have "au_Quota ((updateAggregatedAvailability 6 (sample_auth ?m))\<lparr>au_ModelStates := []\<rparr>)
      = au_Quota ((updateAggregatedAvailability 6 (sample_auth (rev ?m)))\<lparr>au_ModelStates := []\<rparr>)" by (rule arg_cong)
  then show ?thesis by (simp add: Let_def)
qed

end
