(* ===== verification/MarkResult.thy ===== *)
theory MarkResult
  imports Aggregate
begin

text \<open>
  \<open>MarkResult\<close> of \<open>conductor_cooldown.go\<close>: how the outcome of an execution changes the credential
  it ran on; \<open>recordAvailabilityNeutralResult\<close>; and the persisted cooldown records, their
  restoration and \<open>ResetQuota\<close>. The hooks, the persistence of the credential and the error
  events are outside the model.
\<close>

section \<open>Results\<close>

record Result =
  re_AuthID :: string
  re_Provider :: string
  re_Model :: string
  re_RouteModel :: string
  re_Success :: bool
  re_RetryAfter :: "duration option"
  re_CredentialScope :: bool
  re_Error :: "Error option"
  re_SkipQuotaObservation :: bool

text \<open>
  The surroundings of a manager that these operations read: the decoders, the package
  variables, the runtime configuration, and \<open>selectionModelKeyForAuth\<close>, the key under which the
  credential serves a route model (the alias tables of the configuration are not modelled; the
  function is a parameter).
\<close>

record ManagerEnv =
  me_Env :: Env
  me_Globals :: CoolingGlobals
  me_Config :: "CoolingConfig option"
  me_SelectionKey :: "Auth \<Rightarrow> string \<Rightarrow> string"

definition cooldownDisabledForAuth :: "ManagerEnv \<Rightarrow> Auth \<Rightarrow> bool" where
  "cooldownDisabledForAuth me auth =
     quotaCooldownDisabledForAuthWithConfig (me_Globals me) (Some auth) (me_Config me)"

definition coolingDisabledFor :: "ManagerEnv \<Rightarrow> Auth \<Rightarrow> Error option \<Rightarrow> bool" where
  \<comment> \<open>\<open>disableCooling\<close>, which a forced cooldown overrides\<close>
  "coolingDisabledFor me auth err = (cooldownDisabledForAuth me auth \<and> \<not> forceCooldown err)"

section \<open>A failure of one model\<close>

text \<open>
  The branch on the kind of failure. It gives the new state of the model, and the recovery time
  and backoff level of a quota failure for the rest of the credential.
\<close>

definition failureState ::
  "ManagerEnv \<Rightarrow> Result \<Rightarrow> time \<Rightarrow> bool \<Rightarrow> ModelState \<Rightarrow> ModelState \<times> (time \<times> int) option" where
  "failureState me result now disableCooling s =
     (let err = re_Error result;
          statusCode = statusCodeFromResult err;
          recover = recoverableFailureRetryAfter (me_Globals me) now disableCooling
      in if isModelSupportResultError err then (s\<lparr>ms_NextRetryAfter := now + 12 * hour\<rparr>, None)
         else if isCloudflareChallengeResultError err then
           (case nextCloudflareCooldown (q_BackoffLevel (ms_Quota s)) disableCooling now of (next, level) \<Rightarrow>
             (s\<lparr>ms_NextRetryAfter := next, ms_StatusMessage := ''cloudflare challenge'',
                ms_Quota := applyCooldownFields (ms_Quota s)
                  (setQuotaFields True ''cloudflare challenge'' next level)\<rparr>, None))
         else if isInvalidGrantResultError err then
           (s\<lparr>ms_NextRetryAfter := (if disableCooling then 0 else now + 30 * minute)\<rparr>, None)
         else if statusCode \<in> {401, 402, 403} then
           (s\<lparr>ms_NextRetryAfter := (if disableCooling then 0 else now + 30 * minute)\<rparr>, None)
         else if statusCode = 404 then
           (s\<lparr>ms_NextRetryAfter := (if disableCooling then 0 else now + 12 * hour)\<rparr>, None)
         else if statusCode = 429 then
           (case quotaDeadline (ms_Quota s) (re_RetryAfter result) now (q_Exceeded (ms_Quota s)) disableCooling
            of (next, level) \<Rightarrow>
             (s\<lparr>ms_NextRetryAfter := next,
                ms_Quota := applyCooldownFields (ms_Quota s) (setQuotaFields True ''quota'' next level)\<rparr>,
              Some (next, level)))
         else (s\<lparr>ms_NextRetryAfter := recover, ms_Unavailable := \<not> IsZero recover\<rparr>, None))"

text \<open>A quota that holds for the whole credential blocks its other models until at least \<open>next\<close>.\<close>

definition shareQuota :: "time \<Rightarrow> int \<Rightarrow> ModelState \<Rightarrow> ModelState" where
  "shareQuota next level s =
     (let otherNext = (if q_Exceeded (ms_Quota s) \<and> After (q_NextRecoverAt (ms_Quota s)) next
                       then q_NextRecoverAt (ms_Quota s) else next)
      in s\<lparr>ms_Unavailable := True, ms_Status := StatusError, ms_NextRetryAfter := otherNext,
           ms_Quota := applyCooldownFields (ms_Quota s)
             (setQuotaFields True ''credential_quota'' otherNext level)\<rparr>)"

definition shareCredentialQuota :: "string \<Rightarrow> time \<Rightarrow> int \<Rightarrow> Auth \<Rightarrow> Auth" where
  "shareCredentialQuota k next level auth =
     (let q = au_Quota auth;
          authNext = (if After (q_NextRecoverAt q) next then q_NextRecoverAt q else next)
      in auth\<lparr>au_ModelStates := map (\<lambda>(l, s). (l, if l = k then s else map_option (shareQuota next level) s))
               (au_ModelStates auth),
              au_Unavailable := True,
              au_Quota := q\<lparr>q_Exceeded := True, q_Reason := ''credential_quota'', q_NextRecoverAt := authNext\<rparr>,
              au_NextRetryAfter := authNext\<rparr>)"

text \<open>
  The steps of the failure branch: the error is noted in the state and in the credential, the
  branch on its kind sets the cooldown, a quota of the whole credential is shared, and the last
  two tests settle a state that has no deadline.
\<close>

definition noteFailure :: "Error option \<Rightarrow> time \<Rightarrow> ModelState \<Rightarrow> ModelState" where
  "noteFailure err now s =
     (let s1 = s\<lparr>ms_Unavailable := True, ms_Status := StatusError, ms_UpdatedAt := now\<rparr>
      in case err of
          Some e \<Rightarrow> s1\<lparr>ms_LastError := cloneError err, ms_StatusMessage := er_Message e\<rparr>
        | None \<Rightarrow> s1)"

definition noteAuthFailure :: "Error option \<Rightarrow> Auth \<Rightarrow> Auth" where
  "noteAuthFailure err auth =
     (let auth2 = (case err of
            Some e \<Rightarrow> auth\<lparr>au_LastError := cloneError err, au_StatusMessage := er_Message e\<rparr>
          | None \<Rightarrow> auth)
      in if \<not> isModelSupportResultError err \<and> isCloudflareChallengeResultError err \<and> au_LastError auth2 \<noteq> None
         then auth2\<lparr>au_StatusMessage := ''cloudflare challenge''\<rparr> else auth2)"

definition shareFailure :: "Result \<Rightarrow> bool \<Rightarrow> string \<Rightarrow> (time \<times> int) option \<Rightarrow> Auth \<Rightarrow> Auth" where
  "shareFailure result disableCooling k quota auth =
     (case quota of
        Some (next, level) \<Rightarrow>
          if re_CredentialScope result \<and> \<not> disableCooling then shareCredentialQuota k next level auth else auth
      | None \<Rightarrow> auth)"

definition settleFailure :: "Error option \<Rightarrow> time \<Rightarrow> bool \<Rightarrow> ModelState \<Rightarrow> ModelState" where
  "settleFailure err now disableCooling s =
     (let s4 = (if disableCooling \<and> IsZero (ms_NextRetryAfter s) \<and> IsZero (q_NextRecoverAt (ms_Quota s))
                then s\<lparr>ms_Unavailable := False, ms_Quota := (ms_Quota s)\<lparr>q_Exceeded := False\<rparr>\<rparr> else s)
      in if forceCooldown err \<and> IsZero (ms_NextRetryAfter s4)
         then s4\<lparr>ms_NextRetryAfter := now + transientErrorCooldown, ms_Unavailable := True\<rparr> else s4)"

definition markModelFailure :: "ManagerEnv \<Rightarrow> Result \<Rightarrow> time \<Rightarrow> string \<Rightarrow> Auth \<Rightarrow> Auth" where
  "markModelFailure me result now modelKey auth =
     (if shouldSkipCredentialCooldown (me_Env me) (re_Error result) then auth
      else case ensureModelState auth modelKey of
          None \<Rightarrow> auth
        | Some (auth1, k, s0) \<Rightarrow>
            (let err = re_Error result; disableCooling = coolingDisabledFor me auth err
             in case failureState me result now disableCooling (noteFailure err now s0) of (s3, quota) \<Rightarrow>
                updateAggregatedAvailability now
                  ((setState k (settleFailure err now disableCooling s3)
                      (shareFailure result disableCooling k quota (noteAuthFailure err auth1)))
                   \<lparr>au_Status := StatusError\<rparr>)))"

section \<open>A success\<close>

definition markSuccess :: "time \<Rightarrow> string \<Rightarrow> Auth \<Rightarrow> Auth" where
  "markSuccess now modelKey auth =
     (if credentialQuotaOpen auth now then auth
      else if modelKey \<noteq> [] then
        (case ensureModelState auth modelKey of
           None \<Rightarrow> auth
         | Some (auth1, k, s) \<Rightarrow>
             (let auth2 = updateAggregatedAvailability now (setState k (resetModelState now s) auth1)
              in if hasModelError auth2 now then auth2
                 else auth2\<lparr>au_LastError := None, au_StatusMessage := [], au_Status := StatusActive\<rparr>))
      else clearAuthStateOnSuccess now auth)"

section \<open>\<open>MarkResult\<close>\<close>

definition countOutcome :: "time \<Rightarrow> bool \<Rightarrow> Auth \<Rightarrow> Auth" where
  "countOutcome now success auth =
     (let auth1 = recordRecentRequest now success auth in
      if success then auth1\<lparr>au_Success := au_Success auth1 + 1\<rparr>
      else auth1\<lparr>au_Failed := au_Failed auth1 + 1\<rparr>)"

definition observeQuota :: "time \<Rightarrow> Result \<Rightarrow> Header \<Rightarrow> string \<Rightarrow> Auth \<Rightarrow> Auth" where
  "observeQuota now result headers modelKey auth =
     (let obs = (\<lambda>q. fst (ObserveResponseHeadersForProvider now (re_Provider result) headers now q));
          auth1 = auth\<lparr>au_Quota := obs (au_Quota auth)\<rparr>;
          k = canonicalModelKey modelKey
      in case existingModelState auth1 modelKey of
          Some s \<Rightarrow> setState k (s\<lparr>ms_Quota := obs (ms_Quota s)\<rparr>) auth1
        | None \<Rightarrow> auth1)"

definition markTransition :: "ManagerEnv \<Rightarrow> Result \<Rightarrow> time \<Rightarrow> string \<Rightarrow> Auth \<Rightarrow> Auth" where
  \<comment> \<open>the part of \<open>MarkResult\<close> that decides on cooldowns\<close>
  "markTransition me result now modelKey auth =
     (if re_Success result then markSuccess now modelKey auth
      else if modelKey \<noteq> [] then markModelFailure me result now modelKey auth
      else applyAuthFailureState (me_Env me) (me_Globals me) (re_Error result) (re_RetryAfter result) now
             (coolingDisabledFor me auth (re_Error result)) auth)"

definition resultModelKey :: "ManagerEnv \<Rightarrow> Result \<Rightarrow> Auth \<Rightarrow> string" where
  "resultModelKey me result auth =
     (let k0 = canonicalModelKey (re_Model result) in
      if k0 = [] \<and> TrimSpace (re_RouteModel result) \<noteq> [] then
        (let k1 = me_SelectionKey me auth (re_RouteModel result) in
         if k1 = [] then canonicalModelKey (re_RouteModel result) else k1)
      else k0)"

definition markAuth :: "ManagerEnv \<Rightarrow> Result \<Rightarrow> Header \<Rightarrow> time \<Rightarrow> Auth \<Rightarrow> Auth" where
  "markAuth me result headers now auth =
     (let modelKey = resultModelKey me result auth;
          auth1 = countOutcome now (re_Success result) auth;
          auth2 = markTransition me result now modelKey auth1;
          auth3 = auth2\<lparr>au_Generation := au_Generation auth2 + 1, au_UpdatedAt := now\<rparr>
      in if re_SkipQuotaObservation result then auth3
         else observeQuota now result headers modelKey auth3)"

text \<open>The credentials of a manager, by ID.\<close>

type_synonym Auths = "(string, Auth) gomap"

definition MarkResult :: "ManagerEnv \<Rightarrow> Result \<Rightarrow> Header \<Rightarrow> time \<Rightarrow> Auths \<Rightarrow> Auths" where
  "MarkResult me result headers now auths =
     (if re_AuthID result = [] then auths
      else case mget auths (re_AuthID result) of
          None \<Rightarrow> auths
        | Some auth \<Rightarrow> mput (re_AuthID result) (markAuth me result headers now auth) auths)"

definition recordAvailabilityNeutralResult :: "Result \<Rightarrow> time \<Rightarrow> Auths \<Rightarrow> Auths" where
  "recordAvailabilityNeutralResult result now auths =
     (if re_AuthID result = [] then auths
      else case mget auths (re_AuthID result) of
          None \<Rightarrow> auths
        | Some auth \<Rightarrow>
            (let auth1 = countOutcome now (re_Success result) auth
             in mput (re_AuthID result)
                  (auth1\<lparr>au_Generation := au_Generation auth1 + 1, au_UpdatedAt := now\<rparr>) auths))"

section \<open>What the steps leave alone\<close>

lemma noteCredentialFailure_fields [simp]:
  "au_ModelStates (noteCredentialFailure err now a) = au_ModelStates a"
  "au_Quota (noteCredentialFailure err now a) = au_Quota a"
  by (simp_all add: noteCredentialFailure_def Let_def split: option.splits)

lemma failureByStatus_states [simp]: "au_ModelStates (failureByStatus g err ra now d a) = au_ModelStates a"
  by (simp add: failureByStatus_def Let_def split: prod.splits)

lemma forceDeadline_fields [simp]:
  "au_ModelStates (forceDeadline err now a) = au_ModelStates a"
  "au_Quota (forceDeadline err now a) = au_Quota a"
  by (simp_all add: forceDeadline_def)

lemma settleCredential_fields [simp]:
  "au_ModelStates (settleCredential d a) = au_ModelStates a"
  "q_BackoffLevel (au_Quota (settleCredential d a)) = q_BackoffLevel (au_Quota a)"
  by (simp_all add: settleCredential_def)

lemma applyAuthFailureState_states [simp]:
  "au_ModelStates (applyAuthFailureState env g err ra now d a) = au_ModelStates a"
  by (simp add: applyAuthFailureState_def Let_def split: prod.splits)

lemma countOutcome_fields [simp]:
  "au_ModelStates (countOutcome now ok a) = au_ModelStates a" "au_Quota (countOutcome now ok a) = au_Quota a"
  "au_Metadata (countOutcome now ok a) = au_Metadata a" "au_Attributes (countOutcome now ok a) = au_Attributes a"
  "au_Provider (countOutcome now ok a) = au_Provider a"
  by (simp_all add: countOutcome_def recordRecentRequest_def Let_def)

lemma noteAuthFailure_fields [simp]:
  "au_ModelStates (noteAuthFailure err a) = au_ModelStates a" "au_Quota (noteAuthFailure err a) = au_Quota a"
  by (simp_all add: noteAuthFailure_def Let_def split: option.splits)

section \<open>Invariants of the model states\<close>

text \<open>
  What a predicate on model states must satisfy to be kept by \<open>MarkResult\<close>: it survives a merge,
  holds of a fresh state, and is kept by each step of the operation. \<open>G\<close> is a condition on the
  surroundings and on the result.
\<close>

locale state_invariant =
  fixes P :: "ModelState \<Rightarrow> bool"
    and G :: "ManagerEnv \<Rightarrow> Result \<Rightarrow> time \<Rightarrow> bool"
  assumes inv_merge: "mergeModelState (Some t) (Some s) = Some m \<Longrightarrow> P t \<Longrightarrow> P s \<Longrightarrow> P m"
    and inv_fresh: "P (zeroModelState\<lparr>ms_Status := StatusActive\<rparr>)"
    and inv_reset: "P s \<Longrightarrow> P (resetModelState now s)"
    and inv_expire: "P s \<Longrightarrow> P (expireState now s)"
    and inv_observe: "P s \<Longrightarrow> cooldownFieldsOf q = cooldownFieldsOf (ms_Quota s) \<Longrightarrow> P (s\<lparr>ms_Quota := q\<rparr>)"
    and inv_failure: "G me result now \<Longrightarrow> P s \<Longrightarrow>
        failureState me result now d (noteFailure (re_Error result) now s) = (s', quota) \<Longrightarrow>
        P (settleFailure (re_Error result) now d s')"
    and inv_share: "G me result now \<Longrightarrow> P s \<Longrightarrow> P t \<Longrightarrow>
        failureState me result now False (noteFailure (re_Error result) now s) = (s', Some (nx, level)) \<Longrightarrow>
        P (shareQuota nx level t)"
begin

lemma normalize_states:
  "all_states P (au_ModelStates a) \<Longrightarrow> all_states P (au_ModelStates (fst (normalizeModelStates a)))"
  by (rule all_states_normalize) (auto intro: inv_merge)

lemma setState_states: "all_states P (au_ModelStates a) \<Longrightarrow> P s \<Longrightarrow> all_states P (au_ModelStates (setState k s a))"
  by (simp add: setState_def all_states_mput)

lemma ensure_states:
  assumes "ensureModelState a model = Some (a1, k, s)" and "all_states P (au_ModelStates a)"
  shows "all_states P (au_ModelStates a1) \<and> P s"
  using assms(1) normalize_states [OF assms(2)] inv_fresh setState_states
  by (auto simp: ensureModelState_def Let_def stateAt_def dest: all_states_mget split: if_splits option.splits)

lemma update_states:
  assumes "all_states P (au_ModelStates a)"
  shows "all_states P (au_ModelStates (updateAggregatedAvailability now a))"
  using assms updateAggregatedAvailability_states [of now a] all_states_mapStates [OF assms inv_expire] by auto

lemma share_states:
  assumes "all_states P (au_ModelStates a)"
    and "\<And>nx level t. quota = Some (nx, level) \<Longrightarrow> \<not> d \<Longrightarrow> P t \<Longrightarrow> P (shareQuota nx level t)"
  shows "all_states P (au_ModelStates (shareFailure result d k quota a))"
proof (cases "\<exists>nx level. quota = Some (nx, level) \<and> re_CredentialScope result \<and> \<not> d")
  case True
  then obtain nx level where q: "quota = Some (nx, level)" "re_CredentialScope result" "\<not> d" by blast
  have "all_states P (map (\<lambda>(l, s). (l, if l = k then s else map_option (shareQuota nx level) s)) m)"
    if "all_states P m" for m
    using that assms(2) [OF q(1) q(3)]
    by (induction m) (auto simp: all_states_def eq_commute [of "Some _" "map_option _ _"] split: if_splits)
  then show ?thesis using assms(1) q by (simp add: shareFailure_def shareCredentialQuota_def Let_def)
next
  case False
  then have "shareFailure result d k quota a = a" by (auto simp: shareFailure_def split: option.splits)
  then show ?thesis using assms(1) by simp
qed

lemma markModelFailure_states:
  assumes "G me result now" and "all_states P (au_ModelStates a)"
  shows "all_states P (au_ModelStates (markModelFailure me result now modelKey a))"
proof (cases "shouldSkipCredentialCooldown (me_Env me) (re_Error result) \<or> ensureModelState a modelKey = None")
  case False
  then obtain a1 k s0 where r: "ensureModelState a modelKey = Some (a1, k, s0)" by auto
  let ?d = "coolingDisabledFor me a (re_Error result)"
  obtain s3 quota where f: "failureState me result now ?d (noteFailure (re_Error result) now s0) = (s3, quota)"
    by fastforce
  have st: "all_states P (au_ModelStates a1)" "P s0" using ensure_states [OF r assms(2)] by auto
  have "P (settleFailure (re_Error result) now ?d s3)" using inv_failure [OF assms(1) st(2) f] .
  moreover have "all_states P (au_ModelStates (shareFailure result ?d k quota (noteAuthFailure (re_Error result) a1)))"
    using st f inv_share [OF assms(1) st(2)] by (intro share_states) auto
  ultimately show ?thesis using False r f
    by (simp add: markModelFailure_def Let_def update_states setState_states)
qed (auto simp: markModelFailure_def assms)

lemma markSuccess_states:
  assumes "all_states P (au_ModelStates a)"
  shows "all_states P (au_ModelStates (markSuccess now modelKey a))"
proof (cases "credentialQuotaOpen a now \<or> modelKey = [] \<or> ensureModelState a modelKey = None")
  case False
  then obtain a1 k s where r: "ensureModelState a modelKey = Some (a1, k, s)" by auto
  note ens = ensure_states [OF r assms]
  have "all_states P (au_ModelStates (updateAggregatedAvailability now (setState k (resetModelState now s) a1)))"
    using ens by (intro update_states setState_states inv_reset) auto
  then show ?thesis using False r by (simp add: markSuccess_def Let_def)
qed (auto simp: markSuccess_def clearAuthStateOnSuccess_def assms)

lemma observeQuota_states:
  assumes "all_states P (au_ModelStates a)"
  shows "all_states P (au_ModelStates (observeQuota now result headers modelKey a))"
proof -
  have "P (s\<lparr>ms_Quota := fst (ObserveResponseHeadersForProvider now p headers now (ms_Quota s))\<rparr>)"
    if "P s" for s p
    using that by (rule inv_observe) simp
  then show ?thesis using assms
    by (auto simp: observeQuota_def Let_def existingModelState_def stateAt_def
        intro!: setState_states dest: all_states_mget split: option.splits if_splits)
qed

lemma markAuth_states:
  assumes "G me result now" and "all_states P (au_ModelStates a)"
  shows "all_states P (au_ModelStates (markAuth me result headers now a))"
  using assms markModelFailure_states markSuccess_states observeQuota_states
  by (simp add: markAuth_def markTransition_def Let_def)

end

section \<open>Backoff levels\<close>

definition state_level_ok :: "ModelState \<Rightarrow> bool" where
  "state_level_ok s = level_ok (q_BackoffLevel (ms_Quota s))"

lemma level_ok_0 [simp]: "level_ok 0"
  by (simp add: level_ok_def)

lemma zero_levels [simp]: "q_BackoffLevel zeroQuota = 0" "q_BackoffLevel (setQuotaFields e r t l) = l"
  by (simp_all add: zeroQuota_def setQuotaFields_def)

lemma quotaDeadline_level:
  "level_ok (q_BackoffLevel q) \<Longrightarrow> level_ok (snd (quotaDeadline q ra now ex d))"
  using quotaCooldownAfterFailure_level [of q now]
  by (auto simp: quotaDeadline_def split: option.splits prod.splits)

lemma noteFailure_quota [simp]: "ms_Quota (noteFailure err now s) = ms_Quota s"
  by (simp add: noteFailure_def Let_def split: option.splits)

lemma settleFailure_level [simp]: "q_BackoffLevel (ms_Quota (settleFailure err now d s)) = q_BackoffLevel (ms_Quota s)"
  by (simp add: settleFailure_def Let_def)

lemma failureState_level:
  assumes "failureState me result now d s = (s', quota)" and "state_level_ok s"
  shows "state_level_ok s' \<and> (\<forall>nx level. quota = Some (nx, level) \<longrightarrow> level_ok level)"
  using assms quotaDeadline_level [of "ms_Quota s" "re_RetryAfter result" now "q_Exceeded (ms_Quota s)" d]
    nextCloudflareCooldown_level [of "q_BackoffLevel (ms_Quota s)" d now]
  by (auto simp: failureState_def Let_def state_level_ok_def split: if_splits prod.splits)

interpretation level_inv: state_invariant state_level_ok "\<lambda>me result now. True"
proof
  show "state_level_ok s \<Longrightarrow> cooldownFieldsOf q = cooldownFieldsOf (ms_Quota s) \<Longrightarrow> state_level_ok (s\<lparr>ms_Quota := q\<rparr>)" for s q
    by (simp add: state_level_ok_def cooldownFieldsOf_def)
  show "state_level_ok (settleFailure (re_Error result) now d s')"
    if "state_level_ok s" "failureState me result now d (noteFailure (re_Error result) now s) = (s', quota)"
    for me result now s d s' quota
    using failureState_level [OF that(2)] that(1) by (simp add: state_level_ok_def)
  show "state_level_ok (shareQuota nx level t)"
    if "state_level_ok s" "state_level_ok t"
      "failureState me result now False (noteFailure (re_Error result) now s) = (s', Some (nx, level))"
    for me result now s t s' nx level
    using failureState_level [OF that(3)] that(1) by (simp add: state_level_ok_def shareQuota_def Let_def)
qed (auto simp: state_level_ok_def level_ok_def mergeModelState_fields max_def resetModelState_def zeroModelState_def)

definition levels_ok :: "Auth \<Rightarrow> bool" where
  "levels_ok a = (level_ok (q_BackoffLevel (au_Quota a)) \<and> all_states state_level_ok (au_ModelStates a))"

lemma update_level:
  assumes "levels_ok a"
  shows "level_ok (q_BackoffLevel (au_Quota (updateAggregatedAvailability now a)))"
proof -
  have "level_ok (ag_maxBackoffLevel (aggregate now a))"
    unfolding aggregate_def using assms
    by (intro fold_agg_maxBackoffLevel) (auto simp: agg_init_def levels_ok_def all_states_live state_level_ok_def)
  then show ?thesis using assms
    by (auto simp: updateAggregatedAvailability_def Let_def levels_ok_def clearAggregatedAvailability_def)
qed

lemma markModelFailure_level:
  assumes "levels_ok a"
  shows "level_ok (q_BackoffLevel (au_Quota (markModelFailure me result now modelKey a)))"
proof (cases "shouldSkipCredentialCooldown (me_Env me) (re_Error result) \<or> ensureModelState a modelKey = None")
  case False
  then obtain a1 k s0 where r: "ensureModelState a modelKey = Some (a1, k, s0)" by auto
  let ?d = "coolingDisabledFor me a (re_Error result)"
  obtain s3 quota where f: "failureState me result now ?d (noteFailure (re_Error result) now s0) = (s3, quota)"
    by fastforce
  let ?b = "setState k (settleFailure (re_Error result) now ?d s3)
      (shareFailure result ?d k quota (noteAuthFailure (re_Error result) a1))"
  have st: "all_states state_level_ok (au_ModelStates a1)" "state_level_ok s0"
    using level_inv.ensure_states [OF r] assms by (auto simp: levels_ok_def)
  have "all_states state_level_ok (au_ModelStates ?b)"
    using st f level_inv.inv_failure [OF TrueI st(2) f] level_inv.inv_share [OF TrueI st(2)]
    by (intro level_inv.setState_states level_inv.share_states) auto
  moreover have "au_Quota ?b = au_Quota a1 \<or> q_BackoffLevel (au_Quota ?b) = q_BackoffLevel (au_Quota a1)"
    by (auto simp: shareFailure_def shareCredentialQuota_def Let_def split: option.splits)
  ultimately have "levels_ok (?b\<lparr>au_Status := StatusError\<rparr>)"
    using assms ensureModelState_Some(4) [OF r] by (auto simp: levels_ok_def)
  then show ?thesis using False r f update_level by (simp add: markModelFailure_def Let_def)
qed (use assms in \<open>auto simp: markModelFailure_def levels_ok_def\<close>)

lemma markSuccess_level:
  assumes "levels_ok a"
  shows "level_ok (q_BackoffLevel (au_Quota (markSuccess now modelKey a)))"
proof (cases "credentialQuotaOpen a now \<or> modelKey = [] \<or> ensureModelState a modelKey = None")
  case False
  then obtain a1 k s where r: "ensureModelState a modelKey = Some (a1, k, s)" by auto
  have "all_states state_level_ok (au_ModelStates (setState k (resetModelState now s) a1))"
    using level_inv.ensure_states [OF r] assms
    by (intro level_inv.setState_states level_inv.inv_reset) (auto simp: levels_ok_def)
  then have "levels_ok (setState k (resetModelState now s) a1)"
    using assms ensureModelState_Some(4) [OF r] by (simp add: levels_ok_def)
  then show ?thesis using False r update_level by (simp add: markSuccess_def Let_def)
qed (use assms in \<open>auto simp: markSuccess_def clearAuthStateOnSuccess_def levels_ok_def\<close>)

lemma failureByStatus_level:
  "level_ok (q_BackoffLevel (au_Quota a)) \<Longrightarrow> level_ok (q_BackoffLevel (au_Quota (failureByStatus g err ra now d a)))"
  using quotaDeadline_level [of "au_Quota a" ra now True d]
  by (auto simp: failureByStatus_def Let_def split: prod.splits)

lemma applyAuthFailureState_level:
  assumes "level_ok (q_BackoffLevel (au_Quota a))"
  shows "level_ok (q_BackoffLevel (au_Quota (applyAuthFailureState env g err ra now d a)))"
  using assms failureByStatus_level [of "noteCredentialFailure err now a" g err ra now d]
    nextCloudflareCooldown_level [of "q_BackoffLevel (au_Quota a)" d now]
  by (auto simp: applyAuthFailureState_def Let_def split: prod.splits)

lemma observeQuota_level [simp]:
  "q_BackoffLevel (au_Quota (observeQuota now result headers modelKey a)) = q_BackoffLevel (au_Quota a)"
proof -
  have "q_BackoffLevel (fst (ObserveResponseHeadersForProvider now p headers now q)) = q_BackoffLevel q" for p q
    by (metis ObserveResponseHeaders_cooldown QuotaState.select_convs(4) cooldownFieldsOf_def)
  then show ?thesis by (simp add: observeQuota_def Let_def split: option.splits)
qed

section \<open>Deadlines\<close>

text \<open>
  The configured seconds of a transient cooldown must fit a \<open>time.Duration\<close> for the code's
  multiplication not to wrap.
\<close>

definition seconds_ok :: "ManagerEnv \<Rightarrow> bool" where
  "seconds_ok me = (cg_transientErrorCooldownSeconds (me_Globals me) \<le> 9000000000)"

lemma quotaCooldownAfterFailure_later: "0 \<le> now \<Longrightarrow> now < fst (quotaCooldownAfterFailure q now)"
  using nextQuotaCooldown_pos [of "q_BackoffLevel q"]
  by (auto simp: quotaCooldownAfterFailure_def split: prod.splits)

lemma quotaDeadline_later: "0 \<le> now \<Longrightarrow> now < fst (quotaDeadline q ra now ex False)"
  using quotaCooldownAfterFailure_later [of now q]
  by (auto simp: quotaDeadline_def backoff_defs duration_defs split: option.splits prod.splits)

lemma nextCloudflareCooldown_later: "0 \<le> now \<Longrightarrow> now < fst (nextCloudflareCooldown l False now)"
  by (auto simp: nextCloudflareCooldown_def Let_def duration_defs split: prod.splits)

lemma recoverableFailureRetryAfter_later:
  assumes "seconds_ok me" and "0 \<le> now"
  shows "recoverableFailureRetryAfter (me_Globals me) now d = 0
    \<or> now < recoverableFailureRetryAfter (me_Globals me) now d"
proof -
  have "wrap64 (x * second) = x * second" if "0 < x" "x \<le> 9000000000" for x
    using that by (intro wrap64_id) (simp_all add: int64_defs duration_defs)
  then show ?thesis using assms
    by (auto simp: recoverableFailureRetryAfter_def nextTransientErrorRetryAfter_def Let_def seconds_ok_def
        backoff_defs duration_defs)
qed

text \<open>
  A state that blocks its model has a deadline: an exceeded quota has a recovery time, and an
  unavailable state a retry or a recovery time.
\<close>

definition recoverable :: "ModelState \<Rightarrow> bool" where
  "recoverable s =
     (0 \<le> ms_NextRetryAfter s \<and> 0 \<le> q_NextRecoverAt (ms_Quota s)
      \<and> (q_Exceeded (ms_Quota s) \<longrightarrow> 0 < q_NextRecoverAt (ms_Quota s))
      \<and> (ms_Unavailable s \<longrightarrow> 0 < ms_NextRetryAfter s \<or> 0 < q_NextRecoverAt (ms_Quota s)))"

lemma setQuotaFields_simps [simp]:
  "q_Exceeded (setQuotaFields e r t l) = e" "q_NextRecoverAt (setQuotaFields e r t l) = t"
  "q_Reason (setQuotaFields e r t l) = r"
  by (simp_all add: setQuotaFields_def)

lemma zeroQuota_simps [simp]: "q_Exceeded zeroQuota = False" "q_NextRecoverAt zeroQuota = 0" "q_Reason zeroQuota = []"
  by (simp_all add: zeroQuota_def)

text \<open>The kinds of outcome of the failure branch, with a deadline in the future or none at all.\<close>

lemma failureState_cases:
  assumes "failureState me result now d s = (s', quota)" and "0 \<le> now" and "seconds_ok me"
  shows "(ms_NextRetryAfter s' = 0 \<or> now < ms_NextRetryAfter s')
    \<and> (ms_Quota s' = ms_Quota s \<or> (q_Exceeded (ms_Quota s') \<and> q_NextRecoverAt (ms_Quota s') = ms_NextRetryAfter s'
         \<and> (ms_NextRetryAfter s' = 0 \<longrightarrow> d)))
    \<and> (\<forall>nx level. quota = Some (nx, level) \<longrightarrow> \<not> d \<longrightarrow> now < nx)
    \<and> (ms_NextRetryAfter s' = 0 \<longrightarrow> d \<or> \<not> ms_Unavailable s')"
proof -
  have q: "now < fst (quotaDeadline (ms_Quota s) (re_RetryAfter result) now (q_Exceeded (ms_Quota s)) False)"
    "fst (quotaDeadline (ms_Quota s) (re_RetryAfter result) now (q_Exceeded (ms_Quota s)) True) = 0"
    using quotaDeadline_later [OF assms(2)] by (simp_all add: quotaDeadline_def)
  have c: "now < fst (nextCloudflareCooldown (q_BackoffLevel (ms_Quota s)) False now)"
    "fst (nextCloudflareCooldown (q_BackoffLevel (ms_Quota s)) True now) = 0"
    using nextCloudflareCooldown_later [OF assms(2)] by (simp_all add: nextCloudflareCooldown_def)
  show ?thesis
    using assms(1,2) q c recoverableFailureRetryAfter_later [OF assms(3,2), of d]
    by (cases d) (auto simp: failureState_def Let_def duration_defs split: if_splits prod.splits)
qed

lemma settleFailure_recoverable:
  assumes "0 \<le> now" and "0 \<le> ms_NextRetryAfter s" and "0 \<le> q_NextRecoverAt (ms_Quota s)"
    and "q_Exceeded (ms_Quota s) \<longrightarrow> 0 < q_NextRecoverAt (ms_Quota s) \<or> (d \<and> ms_NextRetryAfter s = 0)"
    and "ms_Unavailable s \<longrightarrow> 0 < ms_NextRetryAfter s \<or> 0 < q_NextRecoverAt (ms_Quota s) \<or> d"
  shows "recoverable (settleFailure err now d s)"
  using assms by (auto simp: settleFailure_def Let_def recoverable_def backoff_defs duration_defs)

lemma noteFailure_fields [simp]:
  "ms_Unavailable (noteFailure err now s)" "ms_NextRetryAfter (noteFailure err now s) = ms_NextRetryAfter s"
  "ms_Status (noteFailure err now s) = StatusError"
  by (simp_all add: noteFailure_def Let_def split: option.splits)

lemma failure_recoverable:
  assumes f: "failureState me result now d (noteFailure err now s) = (s', quota)"
    and now: "0 \<le> now" and sec: "seconds_ok me" and s: "recoverable s"
  shows "recoverable (settleFailure err now d s')"
proof (rule settleFailure_recoverable [OF now])
  note c = failureState_cases [OF f now sec]
  show "0 \<le> ms_NextRetryAfter s'" using c now by linarith
  show "0 \<le> q_NextRecoverAt (ms_Quota s')" using c now s by (auto simp: recoverable_def)
  show "q_Exceeded (ms_Quota s') \<longrightarrow> 0 < q_NextRecoverAt (ms_Quota s') \<or> (d \<and> ms_NextRetryAfter s' = 0)"
    using c now s by (auto simp: recoverable_def)
  show "ms_Unavailable s' \<longrightarrow> 0 < ms_NextRetryAfter s' \<or> 0 < q_NextRecoverAt (ms_Quota s') \<or> d"
    using c now s by (auto simp: recoverable_def)
qed

lemma recoverable_merge:
  assumes "mergeModelState (Some t) (Some s) = Some m" and "recoverable t" and "recoverable s"
  shows "recoverable m"
  using assms(2,3) by (auto simp: recoverable_def mergeModelState_fields [OF assms(1)] max_def)

interpretation deadline_inv: state_invariant recoverable "\<lambda>me result now. 0 \<le> now \<and> seconds_ok me"
proof
  show "recoverable s \<Longrightarrow> cooldownFieldsOf q = cooldownFieldsOf (ms_Quota s) \<Longrightarrow> recoverable (s\<lparr>ms_Quota := q\<rparr>)" for s q
    by (simp add: recoverable_def cooldownFieldsOf_def)
  show "recoverable s \<Longrightarrow> recoverable (expireState now s)" for s now
    by (auto simp: recoverable_def expireState_def)
  show "recoverable (settleFailure (re_Error result) now d s')"
    if "0 \<le> now \<and> seconds_ok me" "recoverable s"
      "failureState me result now d (noteFailure (re_Error result) now s) = (s', quota)"
    for me result now s d s' quota
    using failure_recoverable [OF that(3)] that by blast
  show "recoverable (shareQuota nx level t)"
    if "0 \<le> now \<and> seconds_ok me" "recoverable t"
      "failureState me result now False (noteFailure (re_Error result) now s) = (s', Some (nx, level))"
    for me result now s t s' nx level
    using failureState_cases [OF that(3)] that(1,2)
    by (auto simp: recoverable_def shareQuota_def Let_def)
  show "mergeModelState (Some t) (Some s) = Some m \<Longrightarrow> recoverable t \<Longrightarrow> recoverable s \<Longrightarrow> recoverable m" for t s m
    by (rule recoverable_merge)
qed (simp_all add: recoverable_def resetModelState_def zeroModelState_def)

section \<open>The cooldown view of a credential\<close>

text \<open>A credential without the passive observation: what cooldown decisions may depend on.\<close>

definition coolView :: "Auth \<Rightarrow> Auth" where
  "coolView a =
     mapStates (\<lambda>s. s\<lparr>ms_Quota := cooldownFieldsOf (ms_Quota s)\<rparr>) (a\<lparr>au_Quota := cooldownFieldsOf (au_Quota a)\<rparr>)"

lemma map_mput_same:
  "mget m k = Some (Some s) \<Longrightarrow> f s' = f s \<Longrightarrow>
     map (\<lambda>(k, v). (k, map_option f v)) (mput k (Some s') m) = map (\<lambda>(k, v). (k, map_option f v)) m"
  by (induction m) (auto split: if_splits)

lemma coolView_observeQuota: "coolView (observeQuota now result headers modelKey a) = coolView a"
proof -
  define obs where "obs q = fst (ObserveResponseHeadersForProvider now (re_Provider result) headers now q)" for q
  have obs: "cooldownFieldsOf (obs q) = cooldownFieldsOf q" for q by (simp add: obs_def)
  let ?a1 = "a\<lparr>au_Quota := obs (au_Quota a)\<rparr>"
  have a1: "coolView ?a1 = coolView a" by (simp add: coolView_def mapStates_def obs)
  show ?thesis
  proof (cases "existingModelState ?a1 modelKey")
    case None
    then show ?thesis using a1 by (simp add: observeQuota_def Let_def flip: obs_def)
  next
    case (Some s)
    let ?k = "canonicalModelKey modelKey"
    have "mget (au_ModelStates a) ?k = Some (Some s)"
      using Some by (auto simp: existingModelState_def Let_def stateAt_def split: if_splits option.splits)
    then have "coolView (setState ?k (s\<lparr>ms_Quota := obs (ms_Quota s)\<rparr>) ?a1) = coolView ?a1"
      by (simp add: coolView_def mapStates_def setState_def map_mput_same obs)
    then show ?thesis using Some a1 by (simp add: observeQuota_def Let_def flip: obs_def)
  qed
qed

section \<open>Concrete surroundings for the instances\<close>

definition sample_env :: Env where
  "sample_env =
     \<lparr>env_TimeParse = \<lambda>_ _. None, env_ParseFloat = \<lambda>_. None, env_Base64URL = \<lambda>_. None,
      env_Base64RawURL = \<lambda>_. None, env_JSONExp = \<lambda>_. None, env_JSONValue = \<lambda>_. None,
      env_JSONValid = \<lambda>_. False, env_GJSONGet = \<lambda>_ _. []\<rparr>"

definition sample_me :: ManagerEnv where
  "sample_me =
     \<lparr>me_Env = sample_env,
      me_Globals = \<lparr>cg_quotaCooldownDisabled = False, cg_transientErrorCooldownSeconds = 0\<rparr>,
      me_Config = None, me_SelectionKey = \<lambda>_ model. canonicalModelKey model\<rparr>"

definition sample_result :: "int \<Rightarrow> Result" where
  \<comment> \<open>a failure of model \<open>m\<close> on credential \<open>a\<close> with the given status\<close>
  "sample_result status =
     \<lparr>re_AuthID = ''a'', re_Provider = ''codex'', re_Model = ''m'', re_RouteModel = [], re_Success = False,
      re_RetryAfter = None, re_CredentialScope = False,
      re_Error = Some \<lparr>er_Code = [], er_Message = ''x'', er_Retryable = False, er_HTTPStatus = status\<rparr>,
      re_SkipQuotaObservation = True\<rparr>"

section \<open>Properties\<close>

text \<open>C25: the backoff levels of a credential and of its models stay on the ladder, between 0 and 11, through every
  result: when they are there before a result is recorded, success or failure, they are there afterwards, for the
  model of the result as for every other one.\<close>

theorem mark_result_levels:
  assumes "levels_ok a"
  shows "levels_ok (markAuth me result headers now a)"
proof -
  have c: "levels_ok (countOutcome now ok a)" for ok using assms by (simp add: levels_ok_def)
  have "level_ok (q_BackoffLevel (au_Quota (markTransition me result now k (countOutcome now ok a))))" for k ok
    using markSuccess_level [OF c] markModelFailure_level [OF c] applyAuthFailureState_level c
    by (simp add: markTransition_def levels_ok_def)
  moreover have "all_states state_level_ok (au_ModelStates (markAuth me result headers now a))"
    using assms by (intro level_inv.markAuth_states) (simp_all add: levels_ok_def)
  ultimately show ?thesis by (simp add: levels_ok_def markAuth_def Let_def)
qed

theorem mark_result_levels_witness:
  "levels_ok (markAuth sample_me (sample_result 429) [] 5 (sample_auth [(''m'', Some (sample_state StatusError 9 True 7))]))"
proof -
  have "levels_ok (sample_auth [(''m'', Some (sample_state StatusError 9 True 7))])"
    by (simp add: levels_ok_def sample_auth_def zeroAuth_def all_states_def state_level_ok_def sample_state_def
        zeroModelState_def)
  then show ?thesis by (rule mark_result_levels)
qed

text \<open>C2: no result leaves a model blocked for good: if every blocked state of the credential has a
  deadline, then so it is after any result, whatever its kind and whether cooling is switched on,
  off or forced.\<close>

theorem mark_result_recoverable:
  assumes "all_states recoverable (au_ModelStates a)" and "0 \<le> now" and "seconds_ok me"
  shows "all_states recoverable (au_ModelStates (markAuth me result headers now a))"
  using deadline_inv.markAuth_states [OF _ assms(1)] assms(2,3) by blast

theorem mark_result_recoverable_witness:
  "all_states recoverable (au_ModelStates (markAuth sample_me (sample_result 429) [] 5
     (sample_auth [(''m'', Some (sample_state StatusError 9 True 7))])))"
  by (rule mark_result_recoverable)
    (simp_all add: sample_auth_def zeroAuth_def all_states_def sample_state_def zeroModelState_def
      recoverable_def sample_me_def seconds_ok_def)

text \<open>The state that a failure stores for its model.\<close>

lemma failure_state_stored:
  assumes "\<not> shouldSkipCredentialCooldown (me_Env me) (re_Error result)"
    and "\<not> coolingDisabledFor me a (re_Error result)"
    and "canonicalModelKey modelKey \<noteq> []" and "0 \<le> now"
    and "0 \<le> cg_transientErrorCooldownSeconds (me_Globals me)" and "seconds_ok me"
  shows "\<exists>s. stateAt (canonicalModelKey modelKey) (markModelFailure me result now modelKey a) = Some s
    \<and> ms_Unavailable s \<and> ms_Status s = StatusError \<and> now < ms_NextRetryAfter s"
proof -
  obtain a1 k s0 where r: "ensureModelState a modelKey = Some (a1, k, s0)"
    using ensureModelState_total [OF assms(3)] by blast
  have k: "k = canonicalModelKey modelKey" using ensureModelState_Some(1) [OF r] .
  let ?s1 = "noteFailure (re_Error result) now s0"
  obtain s3 quota where f: "failureState me result now False ?s1 = (s3, quota)" by fastforce
  have rec: "recoverableFailureRetryAfter (me_Globals me) now False \<noteq> 0"
    using assms(4,5,6) recoverableFailureRetryAfter_later [OF assms(6,4), of False] wrap64_id
    by (auto simp: recoverableFailureRetryAfter_def nextTransientErrorRetryAfter_def Let_def seconds_ok_def
        backoff_defs duration_defs int64_defs)
  have "now < ms_NextRetryAfter s3 \<and> ms_Unavailable s3 \<and> ms_Status s3 = StatusError"
    using f assms(4) rec recoverableFailureRetryAfter_later [OF assms(6,4), of False]
      quotaDeadline_later [OF assms(4), of "ms_Quota s0" "re_RetryAfter result" "q_Exceeded (ms_Quota s0)"]
      nextCloudflareCooldown_later [OF assms(4), of "q_BackoffLevel (ms_Quota s0)"]
    by (auto simp: failureState_def Let_def duration_defs split: if_splits prod.splits)
  then have s3: "now < ms_NextRetryAfter s3" "ms_Unavailable s3" "ms_Status s3 = StatusError" by auto
  then have settle: "settleFailure (re_Error result) now False s3 = s3"
    using assms(4) by (simp add: settleFailure_def Let_def)
  let ?b = "(setState k s3 (shareFailure result False k quota (noteAuthFailure (re_Error result) a1)))
      \<lparr>au_Status := StatusError\<rparr>"
  have eq: "markModelFailure me result now modelKey a = updateAggregatedAvailability now ?b"
    using assms(1,2) r f settle by (simp add: markModelFailure_def Let_def)
  have "stateAt k ?b = Some s3" by simp
  then have "stateAt k (updateAggregatedAvailability now ?b) = Some s3"
    using stateAt_updateAggregatedAvailability [of k now ?b] expireState_open [OF s3(1)] by auto
  then show ?thesis using eq k s3 by simp
qed

text \<open>the passive quota observation never reaches the scheduler's state: whatever the headers of the
  response were, the credential after \<open>MarkResult\<close> is the same in every field but the observed
  signals and their time.\<close>

theorem observation_does_not_cool:
  "coolView (markAuth me result headers now a) = coolView (markAuth me result headers' now a)"
  by (simp add: markAuth_def Let_def coolView_observeQuota)

text \<open>C23: a burst of rate-limit failures climbs the backoff ladder once: a second failure without a delay
  from the upstream, while the window the first one opened is still running, keeps the deadline and
  the level of the first.\<close>

theorem quota_burst_once:
  assumes "failureState me r now False s = (s1, Some (nx, level))"
    and "now \<le> now'" and "now' < nx"
    and "statusCodeFromResult (re_Error r') = 429" and "re_RetryAfter r' = None"
    and "\<not> isCloudflareChallengeResultError (re_Error r')"
  shows "\<exists>s2. failureState me r' now' False (noteFailure (re_Error r') now' s1) = (s2, Some (nx, level))
    \<and> ms_NextRetryAfter s2 = nx \<and> q_NextRecoverAt (ms_Quota s2) = nx \<and> q_BackoffLevel (ms_Quota s2) = level"
proof -
  have s1: "q_NextRecoverAt (ms_Quota s1) = nx" "q_BackoffLevel (ms_Quota s1) = level"
    using assms(1) by (auto simp: failureState_def Let_def split: if_splits prod.splits)
  have other: "\<not> isModelSupportResultError (re_Error r')" "\<not> isInvalidGrantResultError (re_Error r')"
    using assms(4)
    by (auto simp: isModelSupportResultError_def isInvalidGrantResultError_def statusCodeFromResult_def
        Error_StatusCode_def split: option.splits)
  have "quotaDeadline (ms_Quota (noteFailure (re_Error r') now' s1)) None now' ex False = (nx, level)" for ex
    using s1 assms(3) by (simp add: quotaDeadline_def quotaCooldownAfterFailure_def)
  then show ?thesis using assms(4-6) other by (simp add: failureState_def Let_def)
qed

theorem quota_burst_once_witness:
  "\<exists>s1 s2. failureState sample_me (sample_result 429) 5 False zeroModelState = (s1, Some (5 + second, 1))
    \<and> failureState sample_me (sample_result 429) 6 False (noteFailure (re_Error (sample_result 429)) 6 s1)
        = (s2, Some (5 + second, 1))"
proof -
  have c: "\<not> isCloudflareChallengeResultError (re_Error (sample_result 429))"
    and o: "\<not> isModelSupportResultError (re_Error (sample_result 429))"
      "\<not> isInvalidGrantResultError (re_Error (sample_result 429))"
    and st: "statusCodeFromResult (re_Error (sample_result 429)) = 429" "re_RetryAfter (sample_result 429) = None"
    by code_simp+
  have "nextQuotaCooldown 0 False = (second, 1)"
    using nextQuotaCooldown_ladder [of 0] by (simp add: duration_defs)
  then have "\<exists>s1. failureState sample_me (sample_result 429) 5 False zeroModelState = (s1, Some (5 + second, 1))"
    using c o st
    by (simp add: failureState_def Let_def quotaDeadline_def quotaCooldownAfterFailure_def zeroModelState_def
        zeroQuota_def duration_defs)
  then obtain s1 where s1: "failureState sample_me (sample_result 429) 5 False zeroModelState = (s1, Some (5 + second, 1))"
    by blast
  from quota_burst_once [OF s1, of 6 "sample_result 429"] s1 c st show ?thesis
    by (auto simp: duration_defs)
qed

end
