(* ===== verification/CooldownRecords.thy ===== *)
theory CooldownRecords
  imports MarkResult
begin

text \<open>
  The persisted form of a cooldown and the operations of \<open>conductor_cooldown.go\<close> that write,
  compare and restore it, clear it, and reset the quota of a credential on request. The store
  itself (files of \<open>cooldown_state.go\<close>), its locking and the calls into the scheduler and the
  registry are outside; what the registry answers is an argument.
\<close>

section \<open>Records\<close>

record CooldownStateRecord =
  cs_Provider :: string
  cs_AuthID :: string
  cs_AuthFile :: string
  cs_Model :: string
  cs_Status :: string
  cs_NextRetryAfter :: time
  cs_Reason :: string
  cs_Quota :: QuotaState
  cs_LastError :: "Error option"
  cs_UpdatedAt :: time

definition cooldownAuthFile :: "Auth \<Rightarrow> string" where
  "cooldownAuthFile auth =
     (let path = authAttribute auth ''path'' in if path \<noteq> [] then path else TrimSpace (au_FileName auth))"

definition cooldownReason :: "string \<Rightarrow> QuotaState \<Rightarrow> Error option \<Rightarrow> string" where
  "cooldownReason statusMessage quota lastErr =
     (if TrimSpace (q_Reason quota) \<noteq> [] then TrimSpace (q_Reason quota)
      else if TrimSpace statusMessage \<noteq> [] then TrimSpace statusMessage
      else case lastErr of
          None \<Rightarrow> []
        | Some e \<Rightarrow> if TrimSpace (er_Code e) \<noteq> [] then TrimSpace (er_Code e) else TrimSpace (er_Message e))"

definition authCooldownStateRecord :: "Auth \<Rightarrow> time \<Rightarrow> CooldownStateRecord option" where
  "authCooldownStateRecord auth now =
     (if \<not> au_Unavailable auth \<or> IsZero (au_NextRetryAfter auth) \<or> \<not> After (au_NextRetryAfter auth) now then None
      else Some \<lparr>cs_Provider = TrimSpace (au_Provider auth), cs_AuthID = au_ID auth,
                 cs_AuthFile = cooldownAuthFile auth, cs_Model = [], cs_Status = ''cooling'',
                 cs_NextRetryAfter = au_NextRetryAfter auth,
                 cs_Reason = cooldownReason (au_StatusMessage auth) (au_Quota auth) (au_LastError auth),
                 cs_Quota = cooldownFieldsOf (au_Quota auth), cs_LastError = cloneError (au_LastError auth),
                 cs_UpdatedAt = au_UpdatedAt auth\<rparr>)"

definition modelCooldownStateRecord ::
  "Auth \<Rightarrow> string \<Rightarrow> ModelState option \<Rightarrow> time \<Rightarrow> CooldownStateRecord option" where
  "modelCooldownStateRecord auth model0 state0 now =
     (let model = TrimSpace model0 in
      case state0 of
        None \<Rightarrow> None
      | Some state \<Rightarrow>
          if model = [] \<or> \<not> ms_Unavailable state \<or> IsZero (ms_NextRetryAfter state)
             \<or> \<not> After (ms_NextRetryAfter state) now then None
          else Some \<lparr>cs_Provider = TrimSpace (au_Provider auth), cs_AuthID = au_ID auth,
                     cs_AuthFile = cooldownAuthFile auth, cs_Model = model, cs_Status = ''cooling'',
                     cs_NextRetryAfter = ms_NextRetryAfter state,
                     cs_Reason = cooldownReason (ms_StatusMessage state) (ms_Quota state) (ms_LastError state),
                     cs_Quota = cooldownFieldsOf (ms_Quota state), cs_LastError = cloneError (ms_LastError state),
                     cs_UpdatedAt = ms_UpdatedAt state\<rparr>)"

definition cooldownStateRecordsForAuthLocked :: "ManagerEnv \<Rightarrow> Auth \<Rightarrow> time \<Rightarrow> CooldownStateRecord list" where
  "cooldownStateRecordsForAuthLocked me auth now =
     (if au_ID auth = [] \<or> au_Disabled auth \<or> au_Status auth = StatusDisabled \<or> cooldownDisabledForAuth me auth
      then []
      else sort_key cs_Model
        ((case authCooldownStateRecord auth now of Some r \<Rightarrow> [r] | None \<Rightarrow> [])
         @ List.map_filter (\<lambda>(model, state). modelCooldownStateRecord auth model state now) (au_ModelStates auth)))"

definition cooldownStateRecordsSnapshot :: "ManagerEnv \<Rightarrow> time \<Rightarrow> Auths \<Rightarrow> CooldownStateRecord list" where
  "cooldownStateRecordsSnapshot me now auths =
     sort_key cs_Provider (sort_key cs_AuthID (sort_key cs_Model
       (concat (map (\<lambda>(authID, auth). cooldownStateRecordsForAuthLocked me auth now) auths))))"

definition cooldownQuotaEqual :: "QuotaState \<Rightarrow> QuotaState \<Rightarrow> bool" where
  "cooldownQuotaEqual a b =
     (q_Exceeded a = q_Exceeded b \<and> q_Reason a = q_Reason b \<and> q_BackoffLevel a = q_BackoffLevel b
      \<and> q_NextRecoverAt a = q_NextRecoverAt b)"

definition cooldownErrorEqual :: "Error option \<Rightarrow> Error option \<Rightarrow> bool" where
  "cooldownErrorEqual a b =
     (case (a, b) of
        (Some x, Some y) \<Rightarrow>
          er_Code x = er_Code y \<and> er_Message x = er_Message y \<and> er_Retryable x = er_Retryable y
          \<and> er_HTTPStatus x = er_HTTPStatus y
      | _ \<Rightarrow> a = None \<and> b = None)"

definition cooldownStateRecordEqual :: "CooldownStateRecord \<Rightarrow> CooldownStateRecord \<Rightarrow> bool" where
  "cooldownStateRecordEqual a b =
     (if cs_Provider a \<noteq> cs_Provider b \<or> cs_AuthID a \<noteq> cs_AuthID b \<or> cs_AuthFile a \<noteq> cs_AuthFile b
         \<or> cs_Model a \<noteq> cs_Model b \<or> cs_Status a \<noteq> cs_Status b \<or> cs_Reason a \<noteq> cs_Reason b
         \<or> cs_NextRetryAfter a \<noteq> cs_NextRetryAfter b \<or> cs_UpdatedAt a \<noteq> cs_UpdatedAt b
         \<or> \<not> cooldownQuotaEqual (cs_Quota a) (cs_Quota b)
      then False else cooldownErrorEqual (cs_LastError a) (cs_LastError b))"

definition cooldownStateRecordsEqual :: "CooldownStateRecord list \<Rightarrow> CooldownStateRecord list \<Rightarrow> bool" where
  "cooldownStateRecordsEqual a b = list_all2 cooldownStateRecordEqual a b"

section \<open>Restoring\<close>

definition restoreIntoAuth :: "CooldownStateRecord \<Rightarrow> time \<Rightarrow> Auth \<Rightarrow> Auth" where
  "restoreIntoAuth rec now auth =
     (let updatedAt = (if IsZero (cs_UpdatedAt rec) then now else cs_UpdatedAt rec);
          reason = TrimSpace (cs_Reason rec);
          model = TrimSpace (cs_Model rec);
          quota = (if q_Exceeded (cs_Quota rec) \<and> IsZero (q_NextRecoverAt (cs_Quota rec))
                   then (cs_Quota rec)\<lparr>q_NextRecoverAt := cs_NextRetryAfter rec\<rparr> else cs_Quota rec)
      in if model = [] then
           auth\<lparr>au_Unavailable := True, au_Status := StatusError, au_NextRetryAfter := cs_NextRetryAfter rec,
                au_Quota := mergeQuotaObservation (applyCooldownFields (au_Quota auth) quota) quota,
                au_Generation := au_Generation auth + 1, au_UpdatedAt := updatedAt,
                au_StatusMessage := (if reason \<noteq> [] then reason else au_StatusMessage auth),
                au_LastError := cloneError (cs_LastError rec)\<rparr>
         else case ensureModelState auth model of
             None \<Rightarrow> auth
           | Some (auth1, k, state) \<Rightarrow>
               (case mergeModelState (Some state)
                    (Some \<lparr>ms_Status = StatusError, ms_StatusMessage = reason, ms_Unavailable = True,
                           ms_NextRetryAfter = cs_NextRetryAfter rec, ms_LastError = cloneError (cs_LastError rec),
                           ms_Quota = quota, ms_UpdatedAt = updatedAt\<rparr>) of
                  None \<Rightarrow> auth1
                | Some merged \<Rightarrow>
                    updateAggregatedAvailability now
                      ((setState k merged auth1)\<lparr>au_Generation := au_Generation auth1 + 1, au_UpdatedAt := updatedAt\<rparr>)))"

definition restoreCooldownRecordLocked ::
  "ManagerEnv \<Rightarrow> CooldownStateRecord \<Rightarrow> time \<Rightarrow> Auths \<Rightarrow> Auths \<times> bool" where
  "restoreCooldownRecordLocked me rec now auths =
     (let authID = TrimSpace (cs_AuthID rec) in
      if authID = [] \<or> IsZero (cs_NextRetryAfter rec) \<or> \<not> After (cs_NextRetryAfter rec) now then (auths, False)
      else case mget auths authID of
          None \<Rightarrow> (auths, False)
        | Some auth \<Rightarrow>
            if au_Disabled auth \<or> au_Status auth = StatusDisabled \<or> cooldownDisabledForAuth me auth
            then (auths, False)
            else (mput authID (restoreIntoAuth rec now auth) auths, True))"

text \<open>\<open>RestoreCooldownStates\<close> on the loaded records: those of the models first, then those of the credentials.\<close>

definition RestoreCooldownStates :: "ManagerEnv \<Rightarrow> CooldownStateRecord list \<Rightarrow> time \<Rightarrow> Auths \<Rightarrow> Auths" where
  "RestoreCooldownStates me records now auths =
     (let forModel = filter (\<lambda>r. TrimSpace (cs_Model r) \<noteq> []) records;
          forAuth = filter (\<lambda>r. TrimSpace (cs_Model r) = []) records
      in fold (\<lambda>r m. fst (restoreCooldownRecordLocked me r now m)) (forModel @ forAuth) auths)"

section \<open>Clearing\<close>

definition clearDisabledCooldownStates ::
  "ManagerEnv \<Rightarrow> CoolingConfig option \<Rightarrow> time \<Rightarrow> Auths \<Rightarrow> Auths \<times> bool" where
  "clearDisabledCooldownStates me cfg now auths =
     (let clears = (\<lambda>auth. quotaCooldownDisabledForAuthWithConfig (me_Globals me) (Some auth) cfg
                           \<or> au_Disabled auth \<or> au_Status auth = StatusDisabled)
      in (map (\<lambda>(k, auth). (k, if clears auth then fst (clearCooldownStateForAuth now auth) else auth)) auths,
          list_ex (\<lambda>(k, auth). clears auth \<and> snd (clearCooldownStateForAuth now auth)) auths))"

fun dedupe_from :: "string list \<Rightarrow> string list \<Rightarrow> string list" where
  "dedupe_from seen [] = []"
| "dedupe_from seen (v # vs) =
     (let t = TrimSpace v in
      if t = [] \<or> t \<in> set seen then dedupe_from seen vs else t # dedupe_from (t # seen) vs)"

definition dedupeStrings :: "string list \<Rightarrow> string list" where
  "dedupeStrings vals = (if length vals < 2 then vals else dedupe_from [] vals)"

text \<open>
  \<open>ResetQuota\<close>: \<open>registeredModels\<close> is what \<open>modelsForRegisteredAuth\<close> finds in the registry. The result
  is the new map with the credential and the models reset, or \<open>None\<close> for an unknown credential.
\<close>

definition resetQuotaAuth :: "string list \<Rightarrow> time \<Rightarrow> Auth \<Rightarrow> Auth \<times> string list" where
  "resetQuotaAuth registeredModels now auth0 =
     (let models0 = filter (\<lambda>k. TrimSpace k \<noteq> []) (map fst (au_ModelStates auth0));
          auth1 = auth0\<lparr>au_ModelStates :=
            map (\<lambda>(k, s). (k, if TrimSpace k = [] then s else map_option (resetModelState now) s))
              (au_ModelStates auth0)\<rparr>;
          (auth2, changed) = clearCooldownStateForAuth now auth1;
          models1 = (if changed \<and> models0 = [] then registeredModels else models0);
          auth3 = (if \<not> changed \<and> au_ModelStates auth2 \<noteq> [] then updateAggregatedAvailability now auth2 else auth2);
          models2 = (if models1 = [] then registeredModels else models1);
          auth4 = (if \<not> au_Disabled auth3 \<and> au_Status auth3 \<noteq> StatusDisabled \<and> \<not> hasModelError auth3 now
                   then auth3\<lparr>au_LastError := None, au_StatusMessage := [], au_Status := StatusActive\<rparr> else auth3)
      in (auth4\<lparr>au_Generation := au_Generation auth4 + 1, au_UpdatedAt := now\<rparr>, dedupeStrings models2))"

definition ResetQuota ::
  "string list \<Rightarrow> time \<Rightarrow> string \<Rightarrow> Auths \<Rightarrow> string + (Auths \<times> (Auth \<times> string list) option)" where
  "ResetQuota registeredModels now authID0 auths =
     (let authID = TrimSpace authID0 in
      if authID = [] then Inl ''auth id is required''
      else case mget auths authID of
          None \<Rightarrow> Inr (auths, None)
        | Some auth \<Rightarrow>
            (let (auth', models) = resetQuotaAuth registeredModels now auth
             in Inr (mput authID auth' auths, Some (auth', models))))"

section \<open>Laws\<close>

lemma cooldownErrorEqual_iff: "cooldownErrorEqual a b \<longleftrightarrow> a = b"
  by (auto simp: cooldownErrorEqual_def split: option.splits)

lemma cooldownQuotaEqual_iff: "cooldownQuotaEqual a b \<longleftrightarrow> cooldownFieldsOf a = cooldownFieldsOf b"
  by (auto simp: cooldownQuotaEqual_def cooldownFieldsOf_def)

lemma dedupe_from_set: "set (dedupe_from seen vs) = {t. t \<noteq> [] \<and> t \<notin> set seen \<and> t \<in> TrimSpace ` set vs}"
  by (induction seen vs rule: dedupe_from.induct) (auto simp: Let_def)

lemma dedupe_from_distinct: "distinct (dedupe_from seen vs)"
  by (induction seen vs rule: dedupe_from.induct) (auto simp: Let_def dedupe_from_set)

section \<open>Properties\<close>

text \<open>comparing records is exact: two lists of records compare equal, so that nothing is written to the
  store, exactly when they agree in every field that is persisted.\<close>

theorem records_equal_exact:
  "cooldownStateRecordsEqual xs ys \<longleftrightarrow>
     map (\<lambda>r. r\<lparr>cs_Quota := cooldownFieldsOf (cs_Quota r)\<rparr>) xs
     = map (\<lambda>r. r\<lparr>cs_Quota := cooldownFieldsOf (cs_Quota r)\<rparr>) ys"
proof -
  let ?f = "\<lambda>r. r\<lparr>cs_Quota := cooldownFieldsOf (cs_Quota r)\<rparr>"
  have "cooldownStateRecordEqual a b \<longleftrightarrow> ?f a = ?f b" for a b
    by (cases a; cases b) (auto simp: cooldownStateRecordEqual_def cooldownErrorEqual_iff cooldownQuotaEqual_iff)
  then have "cooldownStateRecordEqual = (\<lambda>a b. ?f a = ?f b)" by (intro ext)
  moreover have "list_all2 (\<lambda>a b. ?f a = ?f b) xs ys = list_all2 (=) (map ?f xs) (map ?f ys)"
    by (simp only: list_all2_map1 list_all2_map2)
  ultimately show ?thesis by (simp add: cooldownStateRecordsEqual_def list_all2_eq)
qed

text \<open>C37: a cooldown survives a restart: the record written for a model, restored into a credential that
  has no state yet, gives the model back its deadline, its recovery time and its backoff level, and
  the model is unavailable until that deadline.\<close>

theorem record_restores_cooldown:
  assumes "modelCooldownStateRecord a model (Some s) now = Some rec"
    and "0 \<le> now" and "recoverable s" and "state_level_ok s"
    and "au_ModelStates b = []" and "\<not> (q_Exceeded (au_Quota b) \<and> credentialQuotaOpen b now)"
  shows "\<exists>s'. stateAt (canonicalModelKey (TrimSpace model)) (restoreIntoAuth rec now b) = Some s'
    \<and> ms_Unavailable s' \<and> ms_NextRetryAfter s' = ms_NextRetryAfter s
    \<and> q_NextRecoverAt (ms_Quota s') = q_NextRecoverAt (ms_Quota s)
    \<and> q_Exceeded (ms_Quota s') = q_Exceeded (ms_Quota s)
    \<and> q_BackoffLevel (ms_Quota s') = q_BackoffLevel (ms_Quota s)
    \<and> ms_LastError s' = ms_LastError s"
proof -
  have rec: "TrimSpace model \<noteq> []" "now < ms_NextRetryAfter s" "cs_Model rec = TrimSpace model"
    "cs_NextRetryAfter rec = ms_NextRetryAfter s" "cs_Quota rec = cooldownFieldsOf (ms_Quota s)"
    "cs_LastError rec = ms_LastError s"
    using assms(1) by (auto simp: modelCooldownStateRecord_def Let_def split: if_splits)
  let ?k = "canonicalModelKey (TrimSpace model)" and ?fresh = "zeroModelState\<lparr>ms_Status := StatusActive\<rparr>"
  let ?u = "if IsZero (cs_UpdatedAt rec) then now else cs_UpdatedAt rec"
  let ?src = "\<lparr>ms_Status = StatusError, ms_StatusMessage = TrimSpace (cs_Reason rec), ms_Unavailable = True,
     ms_NextRetryAfter = ms_NextRetryAfter s, ms_LastError = ms_LastError s,
     ms_Quota = cooldownFieldsOf (ms_Quota s), ms_UpdatedAt = ?u\<rparr>"
  have k: "?k \<noteq> []" using rec(1) by (simp add: canonicalModelKey_eq_Nil)
  have ens: "ensureModelState b (TrimSpace model) = Some (setState ?k ?fresh b, ?k, ?fresh)"
    using assms(5) k by (simp add: ensureModelState_def Let_def normalizeModelStates_def stateAt_def)
  obtain m where m: "mergeModelState (Some ?fresh) (Some ?src) = Some m" using mergeModelState_Some by blast
  note f = mergeModelState_fields [OF m]
  have err: "ms_LastError m = ms_LastError s"
    using mergeModelState_LastError [OF m] by (simp add: zeroModelState_def)
  have fields: "ms_Unavailable m" "ms_NextRetryAfter m = ms_NextRetryAfter s"
    "q_NextRecoverAt (ms_Quota m) = q_NextRecoverAt (ms_Quota s)" "q_Exceeded (ms_Quota m) = q_Exceeded (ms_Quota s)"
    "q_BackoffLevel (ms_Quota m) = q_BackoffLevel (ms_Quota s)"
    using f assms(3,4) by (auto simp: recoverable_def state_level_ok_def level_ok_def zeroModelState_def
        cooldownFieldsOf_def zeroQuota_def max_def)
  have quota: "(if q_Exceeded (cs_Quota rec) \<and> IsZero (q_NextRecoverAt (cs_Quota rec))
      then (cs_Quota rec)\<lparr>q_NextRecoverAt := cs_NextRetryAfter rec\<rparr> else cs_Quota rec) = cooldownFieldsOf (ms_Quota s)"
    using rec(5) assms(3) by (auto simp: recoverable_def cooldownFieldsOf_def)
  let ?b = "(setState ?k m (setState ?k ?fresh b))\<lparr>au_Generation := au_Generation b + 1, au_UpdatedAt := ?u\<rparr>"
  have "restoreIntoAuth rec now b = updateAggregatedAvailability now ?b"
    using rec ens m quota by (simp add: restoreIntoAuth_def Let_def setState_def)
  moreover have "stateAt ?k ?b = Some m" by simp
  ultimately have "stateAt ?k (restoreIntoAuth rec now b) = Some m"
    using stateAt_updateAggregatedAvailability [of ?k now ?b] expireState_open [of now m] fields(2) rec(2) by auto
  then show ?thesis using fields err by blast
qed

theorem record_restores_cooldown_witness:
  "\<exists>rec s'. modelCooldownStateRecord (sample_auth []) ''m'' (Some (sample_state StatusError 9 True 7)) 6 = Some rec
    \<and> stateAt (canonicalModelKey (TrimSpace ''m'')) (restoreIntoAuth rec 6 (sample_auth [])) = Some s'
    \<and> ms_NextRetryAfter s' = 9"
proof -
  let ?s = "sample_state StatusError 9 True 7"
  have "TrimSpace ''m'' \<noteq> []" by code_simp
  then obtain rec where r: "modelCooldownStateRecord (sample_auth []) ''m'' (Some ?s) 6 = Some rec"
    by (simp add: modelCooldownStateRecord_def Let_def sample_state_def zeroModelState_def)
  have "recoverable ?s" "state_level_ok ?s"
    by (simp_all add: recoverable_def state_level_ok_def sample_state_def zeroModelState_def)
  from record_restores_cooldown [OF r _ this, of "sample_auth []"] r show ?thesis
    by (auto simp: sample_auth_def zeroAuth_def sample_state_def)
qed

text \<open>\<open>ResetQuota\<close> frees every model: afterwards no model of the credential is unavailable, over
  quota or waiting for a deadline.\<close>

theorem reset_quota_frees:
  assumes "(k, Some s) \<in> set (au_ModelStates (fst (resetQuotaAuth registered now a)))"
  shows "\<not> stateCools s"
proof -
  define a1 where "a1 = a\<lparr>au_ModelStates :=
      map (\<lambda>(k, s). (k, if TrimSpace k = [] then s else map_option (resetModelState now) s)) (au_ModelStates a)\<rparr>"
  obtain c changed where c: "clearCooldownStateForAuth now a1 = (c, changed)" by fastforce
  have all: "all_states (\<lambda>s. \<not> stateCools s) (au_ModelStates c)"
    using clearCooldownStateForAuth_clears [of now a1] c by simp
  have "\<not> stateCools s \<Longrightarrow> \<not> stateCools (expireState now s)" for s
    by (auto simp: stateCools_def expireState_def)
  then have "all_states (\<lambda>s. \<not> stateCools s) (au_ModelStates (updateAggregatedAvailability now c))"
    by (rule all_states_update [OF all])
  with all have "all_states (\<lambda>s. \<not> stateCools s) (au_ModelStates (fst (resetQuotaAuth registered now a)))"
    by (simp add: resetQuotaAuth_def Let_def c flip: a1_def)
  then show ?thesis using assms by (auto simp: all_states_def)
qed

theorem reset_quota_frees_witness:
  "\<exists>s. (''m'', Some s) \<in> set (au_ModelStates (fst (resetQuotaAuth [] 6
        (sample_auth [(''m'', Some (sample_state StatusError 9 True 7))])))) \<and> \<not> stateCools s"
proof -
  let ?a = "sample_auth [(''m'', Some (sample_state StatusError 9 True 7))]"
  let ?s = "resetModelState 6 (sample_state StatusError 9 True 7)"
  have "au_ModelStates (fst (resetQuotaAuth [] 6 ?a)) = [(''m'', Some ?s)]" by code_simp
  then have s: "(''m'', Some ?s) \<in> set (au_ModelStates (fst (resetQuotaAuth [] 6 ?a)))" by simp
  from reset_quota_frees [OF s] s show ?thesis by blast
qed

end
