(* ===== verification/Selector.thy ===== *)
theory Selector
  imports MarkResult
begin

text \<open>
  \<open>sdk/cliproxy/auth/selector.go\<close>, the built-in selectors: when a credential is blocked for a
  model, the candidates of the highest priority, and the three ways to pick one of them
  (round-robin, smooth weighted round-robin, fill-first). Candidates are non-nil credentials; the
  time of the pick and the flags the code reads from the request's context are arguments.
\<close>

section \<open>Blocked credentials\<close>

datatype blockReason = blockReasonNone | blockReasonCooldown | blockReasonDisabled | blockReasonOther

definition availabilityBlock ::
  "bool \<Rightarrow> bool \<Rightarrow> time \<Rightarrow> time \<Rightarrow> time \<Rightarrow> bool \<times> blockReason \<times> time" where
  "availabilityBlock unavailable quotaExceeded nextRetryAfter nextRecoverAt now =
     (if \<not> unavailable \<and> \<not> quotaExceeded then (False, blockReasonNone, 0)
      else (let hasRecoveryTime = (\<not> IsZero nextRetryAfter \<or> \<not> IsZero nextRecoverAt);
                next = fold (\<lambda>candidate next.
                    if After candidate now \<and> (IsZero next \<or> After candidate next) then candidate else next)
                  [nextRetryAfter, nextRecoverAt] 0
            in if \<not> IsZero next then
                 (if quotaExceeded then (True, blockReasonCooldown, next) else (True, blockReasonOther, next))
               else if hasRecoveryTime then (False, blockReasonNone, 0)
               else (True, blockReasonOther, 0)))"

definition stateBlock :: "time \<Rightarrow> ModelState \<Rightarrow> bool \<times> blockReason \<times> time" where
  "stateBlock now s =
     availabilityBlock (ms_Unavailable s) (q_Exceeded (ms_Quota s)) (ms_NextRetryAfter s)
       (q_NextRecoverAt (ms_Quota s)) now"

text \<open>
  The loop over the model states: \<open>Inr\<close> carries the accumulators (was there a state of the model, is
  it blocked, why, until when), \<open>Inl\<close> is a return from inside the loop.
\<close>

type_synonym block_acc = "bool \<times> bool \<times> blockReason \<times> time"

fun block_loop ::
  "string \<Rightarrow> time \<Rightarrow> (string \<times> ModelState option) list \<Rightarrow> block_acc
     \<Rightarrow> (bool \<times> blockReason \<times> time) + block_acc" where
  "block_loop modelKey now [] acc = Inr acc"
| "block_loop modelKey now ((stateModel, None) # rest) acc = block_loop modelKey now rest acc"
| "block_loop modelKey now ((stateModel, Some state) # rest) (matched, blocked, blockedReason, nextRetry) =
     (if canonicalModelKey stateModel \<noteq> modelKey
      then block_loop modelKey now rest (matched, blocked, blockedReason, nextRetry)
      else if ms_Status state = StatusDisabled then Inl (True, blockReasonDisabled, 0)
      else case stateBlock now state of (stateBlocked, reason, next) \<Rightarrow>
        if \<not> stateBlocked then block_loop modelKey now rest (True, blocked, blockedReason, nextRetry)
        else if IsZero next then Inl (True, reason, 0)
        else if \<not> blocked \<or> After next nextRetry \<or> (next = nextRetry \<and> reason = blockReasonCooldown)
        then block_loop modelKey now rest (True, True, reason, next)
        else block_loop modelKey now rest (True, blocked, blockedReason, nextRetry))"

definition isAuthBlockedForModel :: "Env \<Rightarrow> Auth \<Rightarrow> string \<Rightarrow> time \<Rightarrow> bool \<times> blockReason \<times> time" where
  "isAuthBlockedForModel env auth model now =
     (if au_Disabled auth \<or> au_Status auth = StatusDisabled then (True, blockReasonDisabled, 0)
      else if (case AccessTokenExpirationTime env auth of
                 Some exp \<Rightarrow> \<not> IsZero exp \<and> \<not> After exp now | None \<Rightarrow> False)
      then (True, blockReasonOther, 0)
      else if q_Exceeded (au_Quota auth) \<and> credentialQuotaOpen auth now
      then (True, blockReasonCooldown, q_NextRecoverAt (au_Quota auth))
      else if model \<noteq> [] then
        (if au_ModelStates auth \<noteq> [] then
           (case block_loop (canonicalModelKey model) now (au_ModelStates auth)
                   (False, False, blockReasonNone, 0) of
              Inl r \<Rightarrow> r
            | Inr (matched, blocked, blockedReason, nextRetry) \<Rightarrow>
                if matched then (blocked, blockedReason, nextRetry) else (False, blockReasonNone, 0))
         else availabilityBlock (au_Unavailable auth) (q_Exceeded (au_Quota auth)) (au_NextRetryAfter auth)
                (q_NextRecoverAt (au_Quota auth)) now)
      else (let quotaExceeded =
              (if au_ModelStates auth \<noteq> [] \<and> q_Reason (au_Quota auth) \<noteq> ''credential_quota''
                  \<and> \<not> au_Unavailable auth then False else q_Exceeded (au_Quota auth))
            in availabilityBlock (au_Unavailable auth) quotaExceeded (au_NextRetryAfter auth)
                 (q_NextRecoverAt (au_Quota auth)) now))"

section \<open>The candidates\<close>

text \<open>The errors of a selection: an \<open>*Error\<close>, or the cooldown of all candidates with the time left.\<close>

datatype SelectError = SelectError Error | ModelCooldown string string duration

definition newError :: "string \<Rightarrow> string \<Rightarrow> Error" where
  "newError code message = \<lparr>er_Code = code, er_Message = message, er_Retryable = False, er_HTTPStatus = 0\<rparr>"

definition newModelCooldownError :: "string \<Rightarrow> string \<Rightarrow> duration \<Rightarrow> SelectError" where
  "newModelCooldownError model provider resetIn =
     ModelCooldown model provider (if resetIn < 0 then 0 else resetIn)"

definition collect_candidate ::
  "Env \<Rightarrow> string \<Rightarrow> time \<Rightarrow> Auth \<Rightarrow> (int, Auth list) gomap \<times> nat \<times> time
     \<Rightarrow> (int, Auth list) gomap \<times> nat \<times> time" where
  "collect_candidate env model now candidate acc =
     (case acc of (available, cooldownCount, earliest) \<Rightarrow>
      case isAuthBlockedForModel env candidate model now of (blocked, reason, next) \<Rightarrow>
        if \<not> blocked then
          (mput (authPriority candidate) (mgetd [] available (authPriority candidate) @ [candidate]) available,
           cooldownCount, earliest)
        else if reason = blockReasonCooldown then
          (available, cooldownCount + 1,
           if \<not> IsZero next \<and> (IsZero earliest \<or> Before next earliest) then next else earliest)
        else acc)"

definition collectAvailableByPriority ::
  "Env \<Rightarrow> Auth list \<Rightarrow> string \<Rightarrow> time \<Rightarrow> (int, Auth list) gomap \<times> nat \<times> time" where
  "collectAvailableByPriority env auths model now = fold (collect_candidate env model now) auths ([], 0, 0)"

definition best_priority :: "(int, Auth list) gomap \<Rightarrow> int" where
  "best_priority m =
     fst (fold (\<lambda>(priority, bucket) (best, found).
       if \<not> found \<or> priority > best then (priority, True) else (best, found)) m (0, False))"

definition availableAuthsFromPriorityBuckets :: "(int, Auth list) gomap \<Rightarrow> bool \<Rightarrow> Auth list" where
  "availableAuthsFromPriorityBuckets availableByPriority allPriorities =
     (let candidates =
        (if allPriorities then concat (map snd availableByPriority)
         else mgetd [] availableByPriority (best_priority availableByPriority))
      in if length candidates > 1 then sort_key au_ID candidates else candidates)"

definition getAvailableAuthsWithPriorityMode ::
  "Env \<Rightarrow> Auth list \<Rightarrow> string \<Rightarrow> string \<Rightarrow> time \<Rightarrow> bool \<Rightarrow> SelectError + Auth list" where
  "getAvailableAuthsWithPriorityMode env auths provider model now allPriorities =
     (if auths = [] then Inl (SelectError (newError ''auth_not_found'' ''no auth candidates''))
      else case collectAvailableByPriority env auths model now of (availableByPriority, cooldownCount, earliest) \<Rightarrow>
        if availableByPriority = [] then
          (if cooldownCount = length auths \<and> \<not> IsZero earliest then
             (let providerForError = (if provider = ''mixed'' then [] else provider);
                  resetIn = (if earliest - now < 0 then 0 else earliest - now)
              in Inl (newModelCooldownError model providerForError resetIn))
           else Inl (SelectError (newError ''auth_unavailable'' ''no auth available'')))
        else Inr (availableAuthsFromPriorityBuckets availableByPriority allPriorities))"

definition getAvailableAuths :: "Env \<Rightarrow> Auth list \<Rightarrow> string \<Rightarrow> string \<Rightarrow> time \<Rightarrow> SelectError + Auth list" where
  "getAvailableAuths env auths provider model now =
     getAvailableAuthsWithPriorityMode env auths provider model now False"

definition getAvailableAuthsAcrossPriorities ::
  "Env \<Rightarrow> Auth list \<Rightarrow> string \<Rightarrow> string \<Rightarrow> time \<Rightarrow> SelectError + Auth list" where
  "getAvailableAuthsAcrossPriorities env auths provider model now =
     getAvailableAuthsWithPriorityMode env auths provider model now True"

definition highest_step :: "Auth \<Rightarrow> int \<times> nat \<Rightarrow> int \<times> nat" where
  "highest_step auth acc =
     (case acc of (bestPriority, bestCount) \<Rightarrow>
        if bestCount = 0 \<or> authPriority auth > bestPriority then (authPriority auth, 1)
        else if authPriority auth = bestPriority then (bestPriority, bestCount + 1)
        else (bestPriority, bestCount))"

definition highestPriorityAuths :: "Auth list \<Rightarrow> Auth list" where
  "highestPriorityAuths auths =
     (if length auths \<le> 1 then auths
      else case fold highest_step auths (0, 0) of (bestPriority, bestCount) \<Rightarrow>
        if bestCount = length auths then auths
        else filter (\<lambda>auth. authPriority auth = bestPriority) auths)"

definition preferCodexWebsocketAuths :: "bool \<Rightarrow> string \<Rightarrow> Auth list \<Rightarrow> Auth list" where
  "preferCodexWebsocketAuths downstreamWebsocket provider available =
     (if available = [] then available
      else if \<not> downstreamWebsocket then available
      else if \<not> EqualFold (TrimSpace provider) ''codex'' then available
      else (let wsEnabled = filter authWebsocketsEnabled available
            in if length wsEnabled > 0 then wsEnabled else available))"

definition positiveWeightAuths :: "Auth list \<Rightarrow> Auth list" where
  "positiveWeightAuths auths = filter (\<lambda>auth. authWeight auth > 0) auths"

section \<open>Round-robin\<close>

record RoundRobinSelector =
  rr_lastPicked :: "(string, string) gomap"
  rr_maxKeys :: int

definition selectorLimit :: "int \<Rightarrow> int" where
  "selectorLimit maxKeys = (if maxKeys \<le> 0 then 4096 else maxKeys)"

definition successorIndex :: "Auth list \<Rightarrow> string \<Rightarrow> nat" where
  "successorIndex available lastID =
     (if lastID = [] then 0
      else (let index = sort_Search (length available) (\<lambda>i. au_ID (available ! i) > lastID)
            in if index \<ge> length available then 0 else index))"

definition ensureRotationKey :: "string \<Rightarrow> int \<Rightarrow> (string, string) gomap \<Rightarrow> (string, string) gomap" where
  "ensureRotationKey key limit lastPicked =
     (if mget lastPicked key = None \<and> int (length lastPicked) \<ge> limit then [] else lastPicked)"

definition RoundRobin_Pick ::
  "Env \<Rightarrow> bool \<Rightarrow> string \<Rightarrow> string \<Rightarrow> time \<Rightarrow> Auth list \<Rightarrow> RoundRobinSelector
     \<Rightarrow> (SelectError + Auth) \<times> RoundRobinSelector" where
  "RoundRobin_Pick env ws provider model now auths s =
     (case getAvailableAuths env auths provider model now of
        Inl err \<Rightarrow> (Inl err, s)
      | Inr available0 \<Rightarrow>
          (let available = preferCodexWebsocketAuths ws provider available0;
               key = provider @ '':'' @ canonicalModelKey model;
               lastPicked = ensureRotationKey key (selectorLimit (rr_maxKeys s)) (rr_lastPicked s);
               picked = available ! successorIndex available (mgetd [] lastPicked key)
           in (Inr picked, s\<lparr>rr_lastPicked := mput key (au_ID picked) lastPicked\<rparr>)))"

section \<open>Fill-first\<close>

definition FillFirst_Pick ::
  "Env \<Rightarrow> bool \<Rightarrow> string \<Rightarrow> string \<Rightarrow> time \<Rightarrow> Auth list \<Rightarrow> SelectError + Auth" where
  "FillFirst_Pick env ws provider model now auths =
     (case getAvailableAuths env auths provider model now of
        Inl err \<Rightarrow> Inl err
      | Inr available \<Rightarrow> Inr (hd (preferCodexWebsocketAuths ws provider available)))"

section \<open>Smooth weighted round-robin\<close>

text \<open>A nil map of the state is the empty map; replacing it by a fresh one changes nothing.\<close>

record smoothWeightedState =
  sw_current :: "(string, int) gomap"
  sw_weights :: "(string, int) gomap"

record WeightedRoundRobinSelector =
  wr_states :: "(string, smoothWeightedState) gomap"
  wr_maxKeys :: int

definition maxSmoothWeightedStateEntries :: nat where "maxSmoothWeightedStateEntries = 1024"

definition saturatingAddInt64 :: "int \<Rightarrow> int \<Rightarrow> int" where
  "saturatingAddInt64 v delta =
     (if delta > 0 \<and> v > max_int64 - delta then max_int64
      else if delta < 0 \<and> v < min_int64 - delta then min_int64
      else v + delta)"

definition weightsConfigChanged :: "(string, int) gomap \<Rightarrow> (string, int) gomap \<Rightarrow> bool" where
  "weightsConfigChanged left right =
     (if left = [] then False
      else list_ex (\<lambda>(authID, weight). case mget left authID of Some previous \<Rightarrow> previous \<noteq> weight | None \<Rightarrow> False)
             right)"

definition pruneStale :: "(string, int) gomap \<Rightarrow> smoothWeightedState \<Rightarrow> smoothWeightedState" where
  "pruneStale weights s =
     (if length (sw_current s) \<le> maxSmoothWeightedStateEntries \<and> length (sw_weights s) \<le> maxSmoothWeightedStateEntries
      then s
      else s\<lparr>sw_current := filter (\<lambda>(authID, _). mget weights authID \<noteq> None) (sw_current s),
             sw_weights := filter (\<lambda>(authID, _). mget weights authID \<noteq> None) (sw_weights s)\<rparr>)"

definition smooth_prepare :: "(string, int) gomap \<Rightarrow> smoothWeightedState \<Rightarrow> smoothWeightedState" where
  "smooth_prepare weights s =
     (let s1 = (if weightsConfigChanged (sw_weights s) weights then s\<lparr>sw_current := []\<rparr> else s);
          s2 = s1\<lparr>sw_weights := fold (\<lambda>(authID, weight). mput authID weight) weights (sw_weights s1)\<rparr>
      in pruneStale weights s2)"

definition authWeightVector :: "Auth list \<Rightarrow> (string, int) gomap" where
  "authWeightVector auths =
     fold (\<lambda>auth m. if authWeight auth > 0 then mput (au_ID auth) (authWeight auth) m else m) auths []"

text \<open>One round of the loop of \<open>pickSmoothWeightedAuth\<close>: credit the candidate, remember the richest.\<close>

type_synonym smooth_acc = "(string, int) gomap \<times> Auth option \<times> int \<times> int"

definition smooth_credit :: "Auth \<Rightarrow> smooth_acc \<Rightarrow> smooth_acc" where
  "smooth_credit auth acc =
     (case acc of (current, picked, pickedCurrent, totalWeight) \<Rightarrow>
      let weight = authWeight auth in
      if weight \<le> 0 then acc
      else (let c = saturatingAddInt64 (mgetd 0 current (au_ID auth)) weight;
                current' = mput (au_ID auth) c current;
                totalWeight' = saturatingAddInt64 totalWeight weight
            in if picked = None \<or> c > pickedCurrent then (current', Some auth, c, totalWeight')
               else (current', picked, pickedCurrent, totalWeight')))"

definition pickSmoothWeightedAuth ::
  "Auth list \<Rightarrow> (string, int) gomap \<Rightarrow> Auth option \<times> (string, int) gomap" where
  "pickSmoothWeightedAuth auths current0 =
     (case fold smooth_credit auths (current0, None, 0, 0) of (current, picked, pickedCurrent, totalWeight) \<Rightarrow>
      case picked of
        None \<Rightarrow> (None, current)
      | Some auth \<Rightarrow>
          (Some auth,
           mput (au_ID auth) (saturatingAddInt64 (mgetd 0 current (au_ID auth)) (- totalWeight)) current))"

definition weightedSelectorStateModel :: "string \<Rightarrow> string \<Rightarrow> string" where
  \<comment> \<open>the route model of the context, empty when there is none\<close>
  "weightedSelectorStateModel routeModel availabilityModel =
     (if TrimSpace routeModel \<noteq> [] then routeModel else availabilityModel)"

definition WeightedRoundRobin_Pick ::
  "Env \<Rightarrow> bool \<Rightarrow> string \<Rightarrow> string \<Rightarrow> string \<Rightarrow> time \<Rightarrow> Auth list \<Rightarrow> WeightedRoundRobinSelector
     \<Rightarrow> (SelectError + Auth) \<times> WeightedRoundRobinSelector" where
  "WeightedRoundRobin_Pick env ws routeModel provider model now auths s =
     (case getAvailableAuths env (positiveWeightAuths auths) provider model now of
        Inl err \<Rightarrow> (Inl err, s)
      | Inr available0 \<Rightarrow>
          (let available = preferCodexWebsocketAuths ws provider available0;
               key = provider @ '':'' @ canonicalModelKey (weightedSelectorStateModel routeModel model);
               states = (if mget (wr_states s) key = None
                            \<and> int (length (wr_states s)) \<ge> selectorLimit (wr_maxKeys s)
                         then [] else wr_states s);
               state = (case mget states key of Some st \<Rightarrow> st | None \<Rightarrow> \<lparr>sw_current = [], sw_weights = []\<rparr>);
               prepared = smooth_prepare (authWeightVector available) state
           in case pickSmoothWeightedAuth available (sw_current prepared) of (picked, current) \<Rightarrow>
             (let s' = s\<lparr>wr_states := mput key (prepared\<lparr>sw_current := current\<rparr>) states\<rparr>
              in case picked of
                  None \<Rightarrow> (Inl (SelectError (newError ''auth_unavailable''
                            ''no auth available with positive weight'')), s')
                | Some auth \<Rightarrow> (Inr auth, s'))))"

section \<open>Laws of blocking\<close>

lemma availabilityBlock_iff:
  assumes "0 \<le> now"
  shows "fst (availabilityBlock u q r c now) \<longleftrightarrow> (u \<or> q) \<and> (now < r \<or> now < c \<or> (r = 0 \<and> c = 0))"
  using assms by (auto simp: availabilityBlock_def Let_def)

lemma stateBlock_iff:
  "0 \<le> now \<Longrightarrow> fst (stateBlock now s) \<longleftrightarrow> (ms_Unavailable s \<or> q_Exceeded (ms_Quota s))
     \<and> (now < ms_NextRetryAfter s \<or> now < q_NextRecoverAt (ms_Quota s)
         \<or> (ms_NextRetryAfter s = 0 \<and> q_NextRecoverAt (ms_Quota s) = 0))"
  by (simp add: stateBlock_def availabilityBlock_iff)

definition blocksKey :: "string \<Rightarrow> time \<Rightarrow> string \<times> ModelState option \<Rightarrow> bool" where
  "blocksKey modelKey now e =
     (case e of (k, None) \<Rightarrow> False
      | (k, Some s) \<Rightarrow> canonicalModelKey k = modelKey \<and> (ms_Status s = StatusDisabled \<or> fst (stateBlock now s)))"

lemma blocksKey_simps [simp]:
  "blocksKey key now (k, None) = False"
  "blocksKey key now (k, Some s) =
     (canonicalModelKey k = key \<and> (ms_Status s = StatusDisabled \<or> fst (stateBlock now s)))"
  by (simp_all add: blocksKey_def)

definition loop_flag :: "string \<Rightarrow> time \<Rightarrow> (string \<times> ModelState option) list \<Rightarrow> bool
    \<Rightarrow> (bool \<times> blockReason \<times> time) + block_acc \<Rightarrow> bool" where
  \<comment> \<open>what the result of the loop over \<open>L\<close>, entered with the flag \<open>b\<close>, says of being blocked\<close>
  "loop_flag key now L b res =
     (case res of
        Inl r \<Rightarrow> fst r \<and> list_ex (blocksKey key now) L
      | Inr (m', b', r', n') \<Rightarrow> (b' \<longrightarrow> m') \<and> b' = (b \<or> list_ex (blocksKey key now) L))"

lemma loop_flag_cons:
  "loop_flag key now L b res \<Longrightarrow> \<not> blocksKey key now e \<Longrightarrow> loop_flag key now (e # L) b res"
  "loop_flag key now L True res \<Longrightarrow> blocksKey key now e \<Longrightarrow> loop_flag key now (e # L) b res"
  "loop_flag key now L True res \<Longrightarrow> loop_flag key now (e # L) True res"
  by (auto simp: loop_flag_def split: sum.splits)

lemma block_loop_blocked: "b \<longrightarrow> m \<Longrightarrow> loop_flag key now L b (block_loop key now L (m, b, r, n))"
proof (induction L arbitrary: m b r n)
  case Nil
  then show ?case by (simp add: loop_flag_def)
next
  case (Cons e L)
  note ih = Cons.IH
  obtain k st where e: "e = (k, st)" by fastforce
  show ?case
  proof (cases st)
    case None
    then show ?thesis using ih [OF Cons.prems, of r n] loop_flag_cons(1) [of key now L b _ e] by (simp add: e)
  next
    case (Some s)
    obtain sb reason nx where sb: "stateBlock now s = (sb, reason, nx)" by (cases "stateBlock now s") auto
    show ?thesis
    proof (cases "canonicalModelKey k = key \<and> ms_Status s \<noteq> StatusDisabled \<and> sb \<and> nx \<noteq> 0")
      case True
      then have blk: "blocksKey key now e" by (simp add: e Some sb)
      have "loop_flag key now L True (block_loop key now L (True, True, reason, nx))" by (rule ih) simp
      moreover have "b \<Longrightarrow> loop_flag key now L True (block_loop key now L (True, b, r, n))" using ih [of b True r n] by simp
      ultimately show ?thesis using True blk loop_flag_cons(2) [OF _ blk]
        by (auto simp: e Some sb)
    next
      case False
      then show ?thesis
        using ih [OF Cons.prems, of r n] ih [of b True r n] loop_flag_cons(1) [of key now L b _ e]
        by (auto simp: e Some sb loop_flag_def [of _ _ _ _ "Inl _"])
    qed
  qed
qed

lemma isAuthBlockedForModel_flag:
  "fst (isAuthBlockedForModel env a model now) \<longleftrightarrow>
     au_Disabled a \<or> au_Status a = StatusDisabled
     \<or> (\<exists>exp. AccessTokenExpirationTime env a = Some exp \<and> exp \<noteq> 0 \<and> exp \<le> now)
     \<or> (q_Exceeded (au_Quota a) \<and> credentialQuotaOpen a now)
     \<or> (if model \<noteq> [] \<and> au_ModelStates a \<noteq> []
        then list_ex (blocksKey (canonicalModelKey model) now) (au_ModelStates a)
        else fst (availabilityBlock (au_Unavailable a)
          (if model = [] \<and> au_ModelStates a \<noteq> [] \<and> q_Reason (au_Quota a) \<noteq> ''credential_quota'' \<and> \<not> au_Unavailable a
           then False else q_Exceeded (au_Quota a))
          (au_NextRetryAfter a) (q_NextRecoverAt (au_Quota a)) now))"
  using block_loop_blocked [of False False "canonicalModelKey model" now "au_ModelStates a" blockReasonNone 0]
  by (auto simp: isAuthBlockedForModel_def loop_flag_def Let_def split: option.splits sum.splits)

lemma expiry_states [simp]:
  "authAccessToken (a\<lparr>au_ModelStates := m\<rparr>) = authAccessToken a"
  "ExpirationTime env (a\<lparr>au_ModelStates := m\<rparr>) = ExpirationTime env a"
  "AccessTokenExpirationTime env (a\<lparr>au_ModelStates := m\<rparr>) = AccessTokenExpirationTime env a"
proof -
  have "authMetadataString (a\<lparr>au_ModelStates := m\<rparr>) k = authMetadataString a k" for k
    by (simp add: authMetadataString_def)
  then show tok: "authAccessToken (a\<lparr>au_ModelStates := m\<rparr>) = authAccessToken a"
    by (simp add: authAccessToken_def cong: if_cong)
  show "ExpirationTime env (a\<lparr>au_ModelStates := m\<rparr>) = ExpirationTime env a"
    by (simp add: ExpirationTime_def tok cong: option.case_cong if_cong)
  then show "AccessTokenExpirationTime env (a\<lparr>au_ModelStates := m\<rparr>) = AccessTokenExpirationTime env a"
    by (simp add: AccessTokenExpirationTime_def tok cong: option.case_cong if_cong)
qed

text \<open>
  The reason of a block, unlike the block itself, depends on the order in which the map is ranged over:
  a disabled state and one without a deadline both return at once.
\<close>

lemma block_reason_order_dependent:
  "let d = (''m'', Some (sample_state StatusDisabled 0 False 0));
       o' = (''m(high)'', Some (sample_state StatusError 0 False 0)) in
     isAuthBlockedForModel sample_env (sample_auth [d, o']) ''m'' 5 = (True, blockReasonDisabled, 0)
     \<and> isAuthBlockedForModel sample_env (sample_auth [o', d]) ''m'' 5 = (True, blockReasonOther, 0)"
  by code_simp

section \<open>Laws of the candidate lists\<close>

definition blocked :: "Env \<Rightarrow> string \<Rightarrow> time \<Rightarrow> Auth \<Rightarrow> bool" where
  "blocked env model now a = fst (isAuthBlockedForModel env a model now)"

lemma collect_candidate_buckets:
  assumes "collect_candidate env model now a acc = (m', c', e')"
  shows "m' = (if blocked env model now a then fst acc
     else mput (authPriority a) (mgetd [] (fst acc) (authPriority a) @ [a]) (fst acc))"
  using assms
  by (auto simp: collect_candidate_def blocked_def split: prod.splits if_splits)

lemma collect_buckets:
  "fst (fold (collect_candidate env model now) auths acc) = m \<Longrightarrow>
     mgetd [] m p = mgetd [] (fst acc) p @ filter (\<lambda>a. \<not> blocked env model now a \<and> authPriority a = p) auths"
proof (induction auths arbitrary: acc)
  case (Cons a auths)
  obtain m' c' e' where s: "collect_candidate env model now a acc = (m', c', e')" by (cases "collect_candidate env model now a acc") auto
  have "mgetd [] m' p = mgetd [] (fst acc) p @ filter (\<lambda>a. \<not> blocked env model now a \<and> authPriority a = p) [a]"
    using collect_candidate_buckets [OF s] by (simp add: mgetd_def go_map)
  then show ?case using Cons.IH [of "(m', c', e')"] Cons.prems s by simp
qed simp

lemma collect_wf:
  "mwf (fst acc) \<Longrightarrow> (\<forall>(p, b) \<in> set (fst acc). b \<noteq> []) \<Longrightarrow>
     mwf (fst (fold (collect_candidate env model now) auths acc))
     \<and> (\<forall>(p, b) \<in> set (fst (fold (collect_candidate env model now) auths acc)). b \<noteq> [])"
proof (induction auths arbitrary: acc)
  case (Cons a auths)
  obtain m' c' e' where s: "collect_candidate env model now a acc = (m', c', e')" by (cases "collect_candidate env model now a acc") auto
  have "mwf m'" "\<forall>(p, b) \<in> set m'. b \<noteq> []"
    using collect_candidate_buckets [OF s] Cons.prems gm.wf_put set_mput
    by (fastforce split: if_splits)+
  then show ?case using Cons.IH [of "(m', c', e')"] s by simp
qed simp

lemma best_priority_fold:
  "fold (\<lambda>(priority, bucket) (best, found). if \<not> found \<or> priority > best then (priority, True) else (best, found))
     m (b, True) = (Max (insert b (fst ` set m)), True)"
proof (induction m arbitrary: b)
  case (Cons e m)
  obtain p l where e: "e = (p, l)" by fastforce
  show ?case using Cons.IH [of p] Cons.IH [of b]
    by (cases "fst ` set m = {}") (auto simp: e max_def Max_insert2 insert_commute)
qed simp

lemma best_priority_Max:
  assumes "m \<noteq> []"
  shows "best_priority m = Max (fst ` set m)"
proof -
  obtain p l rest where m: "m = (p, l) # rest" using assms by (cases m) auto
  show ?thesis using best_priority_fold [of rest p] by (simp add: best_priority_def m)
qed

lemma collect_available:
  fixes env model now auths
  defines "m \<equiv> fst (collectAvailableByPriority env auths model now)"
  shows "mwf m" and "\<forall>(p, b) \<in> set m. b \<noteq> []"
    and "mgetd [] m p = filter (\<lambda>a. \<not> blocked env model now a \<and> authPriority a = p) auths"
  using collect_wf [of "([], 0, 0)" env model now auths]
    collect_buckets [of env model now auths "([], 0, 0)" m p]
  by (simp_all add: m_def collectAvailableByPriority_def mgetd_def)

lemma collect_keys:
  fixes env model now auths
  defines "m \<equiv> fst (collectAvailableByPriority env auths model now)"
  shows "fst ` set m = authPriority ` {a \<in> set auths. \<not> blocked env model now a}"
proof -
  note c = collect_available [where env = env and model = model and now = now and auths = auths, folded m_def]
  have "p \<in> fst ` set m \<longleftrightarrow> mgetd [] m p \<noteq> []" for p
  proof -
    have "mgetd [] m p \<noteq> []" if "p \<in> fst ` set m"
    proof -
      from that obtain b where pb: "(p, b) \<in> set m" by auto
      then have "mget m p = Some b" using c(1) by (simp add: mget_iff_in)
      then show ?thesis using c(2) pb by (auto simp: mgetd_def)
    qed
    moreover have "mgetd [] m p = []" if "p \<notin> fst ` set m"
      using that mget_None_iff [of m p] by (simp add: mgetd_def)
    ultimately show ?thesis by blast
  qed
  then have "p \<in> fst ` set m \<longleftrightarrow> (\<exists>x \<in> set auths. \<not> blocked env model now x \<and> authPriority x = p)" for p
    by (auto simp: c(3) filter_empty_conv)
  then show ?thesis by (intro set_eqI) (simp only: image_iff mem_Collect_eq, blast)
qed

text \<open>What a successful call of \<open>getAvailableAuths\<close> returns, and what its errors mean.\<close>

lemma getAvailableAuths_Inr:
  assumes "getAvailableAuths env auths provider model now = Inr L"
  shows "L \<noteq> []" and "sorted (map au_ID L)"
    and "\<exists>p. mset L = mset (filter (\<lambda>a. \<not> blocked env model now a \<and> authPriority a = p) auths)
        \<and> (\<forall>b \<in> set auths. \<not> blocked env model now b \<longrightarrow> authPriority b \<le> p)"
proof -
  let ?m = "fst (collectAvailableByPriority env auths model now)"
  have ne: "?m \<noteq> []" and L: "L = availableAuthsFromPriorityBuckets ?m False"
    using assms
    by (auto simp: getAvailableAuths_def getAvailableAuthsWithPriorityMode_def split: if_splits prod.splits)
  define p where "p = best_priority ?m"
  note c = collect_available(3) [where env = env and model = model and now = now and auths = auths and p = p]
  have L': "L = (if length (mgetd [] ?m p) > 1 then sort_key au_ID (mgetd [] ?m p) else mgetd [] ?m p)"
    by (simp add: L availableAuthsFromPriorityBuckets_def p_def Let_def)
  have p: "p = Max (authPriority ` {a \<in> set auths. \<not> blocked env model now a})"
    using best_priority_Max [OF ne] collect_keys [of env auths model now] by (simp add: p_def)
  have some: "{a \<in> set auths. \<not> blocked env model now a} \<noteq> {}"
  proof -
    have "fst ` set ?m \<noteq> {}" using ne by simp
    then show ?thesis unfolding collect_keys by blast
  qed
  have "p \<in> authPriority ` {a \<in> set auths. \<not> blocked env model now a}"
    unfolding p using some by (intro Max_in) auto
  then have "mgetd [] ?m p \<noteq> []" using c by (auto simp: filter_empty_conv)
  then show "L \<noteq> []" by (metis L' length_0_conv length_sort not_one_less_zero)
  show "sorted (map au_ID L)"
  proof (cases "length (mgetd [] ?m p) > 1")
    case False
    then have "length L \<le> 1" by (simp add: L')
    then show ?thesis by (cases L; cases "tl L") auto
  qed (simp add: L')
  have "\<forall>b \<in> set auths. \<not> blocked env model now b \<longrightarrow> authPriority b \<le> p"
    unfolding p by (auto intro!: Max_ge)
  moreover have "mset L = mset (filter (\<lambda>a. \<not> blocked env model now a \<and> authPriority a = p) auths)"
    unfolding L' using c by simp
  ultimately show "\<exists>p. mset L = mset (filter (\<lambda>a. \<not> blocked env model now a \<and> authPriority a = p) auths)
        \<and> (\<forall>b \<in> set auths. \<not> blocked env model now b \<longrightarrow> authPriority b \<le> p)" by blast
qed

lemma getAvailableAuths_Inl:
  assumes "getAvailableAuths env auths provider model now = Inl err"
  shows "\<forall>a \<in> set auths. blocked env model now a"
proof (cases "auths = []")
  case False
  then have "fst (collectAvailableByPriority env auths model now) = []"
    using assms
    by (auto simp: getAvailableAuths_def getAvailableAuthsWithPriorityMode_def split: if_splits prod.splits)
  then show ?thesis using collect_keys [of env auths model now] by auto
qed simp

lemma prefer_members:
  "set (preferCodexWebsocketAuths ws provider L) \<subseteq> set L"
  "L \<noteq> [] \<Longrightarrow> preferCodexWebsocketAuths ws provider L \<noteq> []"
  "sorted (map au_ID L) \<Longrightarrow> sorted (map au_ID (preferCodexWebsocketAuths ws provider L))"
  "distinct (map au_ID L) \<Longrightarrow> distinct (map au_ID (preferCodexWebsocketAuths ws provider L))"
  by (auto simp: preferCodexWebsocketAuths_def Let_def sorted_filter distinct_map_filter)

lemma successorIndex_less: "L \<noteq> [] \<Longrightarrow> successorIndex L lastID < length L"
  by (simp add: successorIndex_def Let_def)

section \<open>The contract of a selector\<close>

text \<open>
  What the callers of a \<open>Selector\<close> rely on: the pick is an eligible candidate that is not blocked, of the
  highest priority among those, and there is a pick whenever there is such a candidate. \<open>s\<close> is the
  state of the selector.
\<close>

locale selector_contract =
  fixes pick :: "'s \<Rightarrow> string \<Rightarrow> string \<Rightarrow> time \<Rightarrow> Auth list \<Rightarrow> (SelectError + Auth) \<times> 's"
    and env :: Env
    and eligible :: "Auth \<Rightarrow> bool"
  assumes pick_sound: "pick s provider model now auths = (Inr a, s') \<Longrightarrow>
      a \<in> set auths \<and> eligible a \<and> \<not> blocked env model now a"
    and pick_best: "pick s provider model now auths = (Inr a, s') \<Longrightarrow> b \<in> set auths \<Longrightarrow> eligible b \<Longrightarrow>
      \<not> blocked env model now b \<Longrightarrow> authPriority b \<le> authPriority a"
    and pick_fails: "pick s provider model now auths = (Inl e, s') \<Longrightarrow> b \<in> set auths \<Longrightarrow> eligible b \<Longrightarrow>
      blocked env model now b"
begin

lemma pick_total:
  assumes "b \<in> set auths" and "eligible b" and "\<not> blocked env model now b"
  obtains a s' where "pick s provider model now auths = (Inr a, s')"
  using assms pick_fails by (cases "pick s provider model now auths"; cases "fst (pick s provider model now auths)") force+

text \<open>
  A caller that excludes the credentials it has tried meets a new one at every pick, and gets an error only
  when it has tried every eligible one that is not blocked.
\<close>

lemma pick_untried:
  assumes "pick s provider model now (filter (\<lambda>a. au_ID a \<notin> tried) auths) = (Inr a, s')"
  shows "au_ID a \<notin> tried \<and> a \<in> set auths"
  using pick_sound [OF assms] by simp

lemma pick_exhausted:
  assumes "pick s provider model now (filter (\<lambda>a. au_ID a \<notin> tried) auths) = (Inl e, s')"
    and "b \<in> set auths" and "eligible b" and "\<not> blocked env model now b"
  shows "au_ID b \<in> tried"
  using pick_fails [OF assms(1), of b] assms(2-4) by auto

end

interpretation rr: selector_contract
  "\<lambda>s provider model now auths. RoundRobin_Pick env ws provider model now auths s" env "\<lambda>a. True" for env ws
proof
  fix s provider model now auths a s'
  assume p: "RoundRobin_Pick env ws provider model now auths s = (Inr a, s')"
  then obtain L where L: "getAvailableAuths env auths provider model now = Inr L"
    by (auto simp: RoundRobin_Pick_def split: sum.splits)
  let ?A = "preferCodexWebsocketAuths ws provider L"
  obtain lastID where a: "a = ?A ! successorIndex ?A lastID"
    using p L by (auto simp: RoundRobin_Pick_def Let_def)
  have "a \<in> set ?A"
    using successorIndex_less prefer_members(2) [OF getAvailableAuths_Inr(1) [OF L]] by (simp add: a)
  then have aL: "a \<in># mset L" using prefer_members(1) by auto
  obtain q where q: "mset L = mset (filter (\<lambda>a. \<not> blocked env model now a \<and> authPriority a = q) auths)"
    "\<forall>b \<in> set auths. \<not> blocked env model now b \<longrightarrow> authPriority b \<le> q"
    using getAvailableAuths_Inr(3) [OF L] by blast
  show "a \<in> set auths \<and> True \<and> \<not> blocked env model now a" using aL q(1) by auto
  show "b \<in> set auths \<Longrightarrow> True \<Longrightarrow> \<not> blocked env model now b \<Longrightarrow> authPriority b \<le> authPriority a" for b
    using aL q by auto
next
  show "RoundRobin_Pick env ws provider model now auths s = (Inl e, s') \<Longrightarrow> b \<in> set auths \<Longrightarrow> True \<Longrightarrow>
      blocked env model now b" for s provider model now auths e s' b
    using getAvailableAuths_Inl by (auto simp: RoundRobin_Pick_def Let_def split: sum.splits)
qed

interpretation ff: selector_contract
  "\<lambda>s provider model now auths. (FillFirst_Pick env ws provider model now auths, s)" env "\<lambda>a. True" for env ws
proof
  fix s s' :: 's and provider model now auths a
  assume p: "(FillFirst_Pick env ws provider model now auths, s) = (Inr a, s')"
  then obtain L where L: "getAvailableAuths env auths provider model now = Inr L"
    by (auto simp: FillFirst_Pick_def split: sum.splits)
  let ?A = "preferCodexWebsocketAuths ws provider L"
  have "a = hd ?A" using p L by (auto simp: FillFirst_Pick_def)
  then have "a \<in> set ?A" using prefer_members(2) [OF getAvailableAuths_Inr(1) [OF L]] by simp
  then have aL: "a \<in># mset L" using prefer_members(1) by auto
  obtain q where q: "mset L = mset (filter (\<lambda>a. \<not> blocked env model now a \<and> authPriority a = q) auths)"
    "\<forall>b \<in> set auths. \<not> blocked env model now b \<longrightarrow> authPriority b \<le> q"
    using getAvailableAuths_Inr(3) [OF L] by blast
  show "a \<in> set auths \<and> True \<and> \<not> blocked env model now a" using aL q(1) by auto
  show "b \<in> set auths \<Longrightarrow> True \<Longrightarrow> \<not> blocked env model now b \<Longrightarrow> authPriority b \<le> authPriority a" for b
    using aL q by auto
next
  show "(FillFirst_Pick env ws provider model now auths, s) = (Inl e, s') \<Longrightarrow> b \<in> set auths \<Longrightarrow> True \<Longrightarrow>
      blocked env model now b" for s s' :: 's and provider model now auths e b
    using getAvailableAuths_Inl by (auto simp: FillFirst_Pick_def split: sum.splits)
qed

section \<open>Rotation\<close>

primrec rr_picks ::
  "nat \<Rightarrow> Env \<Rightarrow> bool \<Rightarrow> string \<Rightarrow> string \<Rightarrow> time \<Rightarrow> Auth list \<Rightarrow> RoundRobinSelector \<Rightarrow> Auth list" where
  \<comment> \<open>the credentials of successive calls of \<open>Pick\<close> with the same candidates\<close>
  "rr_picks 0 env ws provider model now auths s = []"
| "rr_picks (Suc n) env ws provider model now auths s =
     (case RoundRobin_Pick env ws provider model now auths s of
        (Inr a, s') \<Rightarrow> a # rr_picks n env ws provider model now auths s'
      | (Inl e, s') \<Rightarrow> [])"

lemma successorIndex_next:
  assumes "sorted (map au_ID A)" and "distinct (map au_ID A)" and "i < length A" and "au_ID (A ! i) \<noteq> []"
  shows "successorIndex A (au_ID (A ! i)) = Suc i mod length A"
proof -
  let ?f = "\<lambda>j. au_ID (A ! j) > au_ID (A ! i)" and ?n = "length A"
  have le: "au_ID (A ! a) \<le> au_ID (A ! b)" if "a \<le> b" "b < ?n" for a b
    using sorted_nth_mono [OF assms(1), of a b] that by simp
  have ne: "au_ID (A ! a) \<noteq> au_ID (A ! b)" if "a \<noteq> b" "a < ?n" "b < ?n" for a b
    using nth_eq_iff_index_eq [OF assms(2), of a b] that by simp
  have f: "?f j \<longleftrightarrow> i < j" if "j < ?n" for j
  proof
    show "?f j \<Longrightarrow> i < j" using le [of j i] assms(3) that by (metis leD not_le_imp_less)
    show "i < j \<Longrightarrow> ?f j" using le [of i j] ne [of i j] assms(3) that by (simp add: order.strict_iff_order)
  qed
  have mono: "?f a \<Longrightarrow> ?f b" if "a \<le> b" "b < ?n" for a b using f that by force
  define r where "r = sort_Search ?n ?f"
  have r: "r \<le> ?n" "\<forall>k < r. \<not> ?f k" "r < ?n \<longrightarrow> ?f r"
    using sort_Search_least [of ?n ?f] mono unfolding r_def by blast+
  show ?thesis
  proof (cases "Suc i < ?n")
    case True
    then have "\<not> Suc i < r" using r(2) f [OF True] by blast
    then have "r < ?n" using True r(1) by simp
    then have "r = Suc i" using r(3) f [of r] \<open>\<not> Suc i < r\<close> by simp
    then show ?thesis using True assms(4) by (simp add: successorIndex_def Let_def r_def)
  next
    case False
    then have n: "?n = Suc i" using assms(3) by simp
    then have "r = ?n" using r(1,3) f [of r] by (cases "r < ?n") auto
    then show ?thesis using n assms(4) by (simp add: successorIndex_def Let_def r_def)
  qed
qed

lemma rr_picks_cycle:
  assumes L: "getAvailableAuths env auths provider model now = Inr L"
    and A: "A = preferCodexWebsocketAuths ws provider L"
    and "distinct (map au_ID L)" and "\<forall>a \<in> set L. au_ID a \<noteq> []"
    and "i = successorIndex A (mgetd [] (ensureRotationKey (provider @ '':'' @ canonicalModelKey model)
          (selectorLimit (rr_maxKeys s)) (rr_lastPicked s)) (provider @ '':'' @ canonicalModelKey model))"
  shows "rr_picks n env ws provider model now auths s = map (\<lambda>k. A ! ((i + k) mod length A)) [0..<n]"
  using assms(5)
proof (induction n arbitrary: s i)
  case (Suc n)
  let ?key = "provider @ '':'' @ canonicalModelKey model"
  have Ane: "A \<noteq> []" using prefer_members(2) [OF getAvailableAuths_Inr(1) [OF L]] A by simp
  have i: "i < length A" using successorIndex_less [OF Ane] Suc.prems by simp
  let ?lp = "ensureRotationKey ?key (selectorLimit (rr_maxKeys s)) (rr_lastPicked s)"
  let ?s' = "s\<lparr>rr_lastPicked := mput ?key (au_ID (A ! i)) ?lp\<rparr>"
  have pick: "RoundRobin_Pick env ws provider model now auths s = (Inr (A ! i), ?s')"
    using L A Suc.prems by (simp add: RoundRobin_Pick_def Let_def)
  have sorted: "sorted (map au_ID A)" "distinct (map au_ID A)"
    using prefer_members(3,4) getAvailableAuths_Inr(2) [OF L] assms(3) A by auto
  have id: "au_ID (A ! i) \<noteq> []" using assms(4) A i prefer_members(1) nth_mem by blast
  have "successorIndex A (mgetd [] (ensureRotationKey ?key (selectorLimit (rr_maxKeys ?s')) (rr_lastPicked ?s')) ?key)
      = Suc i mod length A"
    using successorIndex_next [OF sorted i id] by (simp add: ensureRotationKey_def mgetd_def go_map)
  from Suc.IH [OF this [symmetric]]
  have "rr_picks n env ws provider model now auths ?s' = map (\<lambda>k. A ! ((Suc i mod length A + k) mod length A)) [0..<n]" .
  then have "rr_picks (Suc n) env ws provider model now auths s
      = A ! i # map (\<lambda>k. A ! ((i + Suc k) mod length A)) [0..<n]"
    by (simp add: pick mod_simps)
  also have "\<dots> = map (\<lambda>k. A ! ((i + k) mod length A)) [0..<Suc n]"
    using i by (simp add: map_upt_Suc del: upt_Suc)
  finally show ?case .
qed simp

lemma recoverable_unblocks:
  assumes "recoverable s" and "ms_Status s \<noteq> StatusDisabled" and "0 \<le> t"
    and "ms_NextRetryAfter s \<le> t" and "q_NextRecoverAt (ms_Quota s) \<le> t"
  shows "\<not> (ms_Status s = StatusDisabled \<or> fst (stateBlock t s))"
  using assms by (auto simp: stateBlock_iff recoverable_def)

lemma states_bound:
  fixes m :: "(string \<times> ModelState option) list"
  shows "\<exists>T \<ge> 0. \<forall>k s. (k, Some s) \<in> set m \<longrightarrow> ms_NextRetryAfter s \<le> T \<and> q_NextRecoverAt (ms_Quota s) \<le> T"
proof (induction m)
  case (Cons e m)
  then obtain T where T: "T \<ge> 0" "\<forall>k s. (k, Some s) \<in> set m \<longrightarrow> ms_NextRetryAfter s \<le> T \<and> q_NextRecoverAt (ms_Quota s) \<le> T"
    by blast
  obtain k st where e: "e = (k, st)" by fastforce
  let ?T = "max T (case st of Some s \<Rightarrow> max (ms_NextRetryAfter s) (q_NextRecoverAt (ms_Quota s)) | None \<Rightarrow> 0)"
  have "?T \<ge> 0 \<and> (\<forall>k s. (k, Some s) \<in> set (e # m) \<longrightarrow> ms_NextRetryAfter s \<le> ?T \<and> q_NextRecoverAt (ms_Quota s) \<le> ?T)"
    using T by (auto simp: e le_max_iff_disj)
  then show ?case by blast
qed auto

section \<open>Properties\<close>

text \<open>
  A state of the model that is disabled, or blocked without a deadline, ends the loop at once. Without one, the loop
  takes the latest deadline over the states, and among those with that deadline prefers a cooldown as the reason.
\<close>

definition immediate :: "string \<Rightarrow> time \<Rightarrow> string \<times> ModelState option \<Rightarrow> bool" where
  "immediate modelKey now e =
     (case e of (k, None) \<Rightarrow> False
      | (k, Some s) \<Rightarrow> canonicalModelKey k = modelKey
          \<and> (ms_Status s = StatusDisabled \<or> fst (stateBlock now s) \<and> snd (snd (stateBlock now s)) = 0))"

lemma immediate_simps [simp]:
  "immediate key now (k, None) = False"
  "immediate key now (k, Some s) = (canonicalModelKey k = key
     \<and> (ms_Status s = StatusDisabled \<or> fst (stateBlock now s) \<and> snd (snd (stateBlock now s)) = 0))"
  by (simp_all add: immediate_def)

definition later_block :: "string \<Rightarrow> time \<Rightarrow> string \<times> ModelState option \<Rightarrow> block_acc \<Rightarrow> block_acc" where
  "later_block modelKey now e acc =
     (case (e, acc) of
        ((k, None), _) \<Rightarrow> acc
      | ((k, Some s), (m, b, r, n)) \<Rightarrow>
          if canonicalModelKey k \<noteq> modelKey then acc
          else case stateBlock now s of (sb, reason, nx) \<Rightarrow>
            if sb \<and> (\<not> b \<or> nx > n \<or> (nx = n \<and> reason = blockReasonCooldown)) then (True, True, reason, nx) else (True, b, r, n))"

lemma stateBlock_reason: "stateBlock now s = (True, reason, nx) \<Longrightarrow> reason \<in> {blockReasonCooldown, blockReasonOther} \<and> (nx = 0 \<longrightarrow> reason = blockReasonOther)"
  by (auto simp: stateBlock_def availabilityBlock_def Let_def split: if_splits)

lemma later_block_commutes: "later_block key now e \<circ> later_block key now e' = later_block key now e' \<circ> later_block key now e"
proof
  fix acc :: block_acc
  obtain m b r n where acc: "acc = (m, b, r, n)" by (cases acc)
  obtain k s k' s' where e: "e = (k, s)" "e' = (k', s')" by fastforce
  show "(later_block key now e \<circ> later_block key now e') acc = (later_block key now e' \<circ> later_block key now e) acc"
  proof (cases "s = None \<or> s' = None \<or> canonicalModelKey k \<noteq> key \<or> canonicalModelKey k' \<noteq> key")
    case True
    then show ?thesis by (auto simp: later_block_def e acc split: option.split prod.split)
  next
    case False
    then obtain t t' where t: "s = Some t" "s' = Some t'" "canonicalModelKey k = key" "canonicalModelKey k' = key" by auto
    obtain x c d x' c' d' where sb: "stateBlock now t = (x, c, d)" "stateBlock now t' = (x', c', d')"
      by (cases "stateBlock now t"; cases "stateBlock now t'") auto
    have "c = blockReasonOther" if "x" "c \<noteq> blockReasonCooldown" using stateBlock_reason [of now t c d] sb(1) that by auto
    moreover have "c' = blockReasonOther" if "x'" "c' \<noteq> blockReasonCooldown" using stateBlock_reason [of now t' c' d'] sb(2) that by auto
    ultimately show ?thesis by (auto simp: later_block_def e acc t sb)
  qed
qed

lemma block_loop_immediate:
  "list_ex (immediate key now) L \<Longrightarrow> \<exists>r. block_loop key now L acc = Inl (True, r, 0)
     \<and> (all_states (\<lambda>s. ms_Status s \<noteq> StatusDisabled) L \<longrightarrow> r = blockReasonOther)"
proof (induction L arbitrary: acc)
  case (Cons e L)
  obtain k st where e: "e = (k, st)" by fastforce
  obtain m b r n where acc: "acc = (m, b, r, n)" by (cases acc)
  have tail: "all_states P (e # L) \<Longrightarrow> all_states P L" for P by (auto simp: all_states_def)
  have ih: "\<exists>r. block_loop key now L acc = Inl (True, r, 0)
     \<and> (all_states (\<lambda>s. ms_Status s \<noteq> StatusDisabled) (e # L) \<longrightarrow> r = blockReasonOther)" if "list_ex (immediate key now) L" for acc
    using Cons.IH [OF that, of acc] tail by blast
  show ?case
  proof (cases st)
    case None
    then have "block_loop key now (e # L) acc = block_loop key now L acc" "list_ex (immediate key now) L"
      using Cons.prems by (simp_all add: e)
    then show ?thesis using ih by simp
  next
    case (Some s)
    obtain sb reason nx where sb: "stateBlock now s = (sb, reason, nx)" by (cases "stateBlock now s") auto
    show ?thesis
    proof (cases "immediate key now e")
      case True
      show ?thesis
      proof (cases "ms_Status s = StatusDisabled")
        case True
        then show ?thesis using \<open>immediate key now e\<close> by (simp add: e Some acc all_states_def) blast
      next
        case False
        then show ?thesis using True stateBlock_reason [of now s reason nx] by (simp add: e Some acc sb)
      qed
    next
      case False
      then have "list_ex (immediate key now) L" using Cons.prems by simp
      moreover from False have "\<exists>acc'. block_loop key now (e # L) acc = block_loop key now L acc'"
        by (auto simp: e Some acc sb)
      ultimately show ?thesis using ih by metis
    qed
  qed
qed simp

lemma block_loop_later:
  "\<not> list_ex (immediate key now) L \<Longrightarrow> block_loop key now L acc = Inr (fold (later_block key now) L acc)"
proof (induction L arbitrary: acc)
  case (Cons e L)
  obtain k st where e: "e = (k, st)" by fastforce
  obtain m b r n where acc: "acc = (m, b, r, n)" by (cases acc)
  have "block_loop key now (e # L) acc = block_loop key now L (later_block key now e acc)"
  proof (cases st)
    case (Some s)
    obtain sb reason nx where sb: "stateBlock now s = (sb, reason, nx)" by (cases "stateBlock now s") auto
    show ?thesis using Cons.prems by (auto simp: e Some acc sb later_block_def)
  qed (simp add: e acc later_block_def)
  then show ?case using Cons by simp
qed simp

text \<open>C36: whether a credential is blocked for a model, and the time that the answer reports, do not depend on the order in
  which Go ranges over its model states; nor does the reason, unless one of the states is disabled.\<close>

theorem blocked_order_independent:
  assumes "mset (au_ModelStates a) = mset m"
  shows "fst (isAuthBlockedForModel env (a\<lparr>au_ModelStates := m\<rparr>) model now) = fst (isAuthBlockedForModel env a model now)
    \<and> snd (snd (isAuthBlockedForModel env (a\<lparr>au_ModelStates := m\<rparr>) model now)) = snd (snd (isAuthBlockedForModel env a model now))
    \<and> (all_states (\<lambda>s. ms_Status s \<noteq> StatusDisabled) m
         \<longrightarrow> isAuthBlockedForModel env (a\<lparr>au_ModelStates := m\<rparr>) model now = isAuthBlockedForModel env a model now)"
proof -
  let ?L = "au_ModelStates a" and ?key = "canonicalModelKey model" and ?acc = "(False, False, blockReasonNone, 0 :: time)"
  have set_eq: "set m = set ?L" using mset_eq_setD [OF assms] by simp
  have empty: "m = [] \<longleftrightarrow> ?L = []" using assms by (metis mset_zero_iff)
  have dis: "all_states (\<lambda>s. ms_Status s \<noteq> StatusDisabled) m = all_states (\<lambda>s. ms_Status s \<noteq> StatusDisabled) ?L"
    by (simp add: all_states_def set_eq)
  have imm: "list_ex (immediate ?key now) m = list_ex (immediate ?key now) ?L" by (simp add: list_ex_iff set_eq)
  have loops: "(\<exists>r r'. block_loop ?key now m ?acc = Inl (True, r, 0) \<and> block_loop ?key now ?L ?acc = Inl (True, r', 0)
      \<and> (all_states (\<lambda>s. ms_Status s \<noteq> StatusDisabled) m \<longrightarrow> r = r')) \<or> block_loop ?key now m ?acc = block_loop ?key now ?L ?acc"
  proof (cases "list_ex (immediate ?key now) m")
    case True
    then show ?thesis using block_loop_immediate [OF True, of ?acc] block_loop_immediate [of ?key now ?L ?acc] unfolding imm dis by blast
  next
    case False
    have "fold (later_block ?key now) m = fold (later_block ?key now) ?L"
      by (rule fold_multiset_equiv [OF later_block_commutes]) (use assms in simp)
    then show ?thesis using block_loop_later [OF False, of ?acc] block_loop_later [of ?key now ?L ?acc] False imm by simp
  qed
  show ?thesis
    using loops
  proof (elim disjE exE conjE)
    assume "block_loop ?key now m ?acc = block_loop ?key now ?L ?acc"
    then have "isAuthBlockedForModel env (a\<lparr>au_ModelStates := m\<rparr>) model now = isAuthBlockedForModel env a model now"
      by (simp add: isAuthBlockedForModel_def credentialQuotaOpen_def empty)
    then show ?thesis by simp
  next
    fix r r'
    assume "block_loop ?key now m ?acc = Inl (True, r, 0)" "block_loop ?key now ?L ?acc = Inl (True, r', 0)"
      "all_states (\<lambda>s. ms_Status s \<noteq> StatusDisabled) m \<longrightarrow> r = r'"
    then show ?thesis by (simp add: isAuthBlockedForModel_def credentialQuotaOpen_def empty)
  qed
qed

theorem blocked_order_independent_witness:
  \<comment> \<open>one state cools down until 7, the other until 9\<close>
  "let c = (''m'', Some (sample_state StatusError 7 True 7));
       o' = (''m(high)'', Some (sample_state StatusError 9 False 0)) in
   isAuthBlockedForModel sample_env (sample_auth [o', c]) ''m'' 5 = isAuthBlockedForModel sample_env (sample_auth [c, o']) ''m'' 5
   \<and> snd (snd (isAuthBlockedForModel sample_env (sample_auth [c, o']) ''m'' 5)) = 9"
proof -
  let ?c = "(''m'', Some (sample_state StatusError 7 True 7))"
  let ?o = "(''m(high)'', Some (sample_state StatusError 9 False 0))"
  have "mset (au_ModelStates (sample_auth [?c, ?o])) = mset [?o, ?c]" by (simp add: sample_auth_def)
  from blocked_order_independent [OF this, of sample_env "''m''" 5]
  have "isAuthBlockedForModel sample_env (sample_auth [?o, ?c]) ''m'' 5 = isAuthBlockedForModel sample_env (sample_auth [?c, ?o]) ''m'' 5"
    by (simp add: sample_auth_def all_states_def sample_state_def)
  moreover have "snd (snd (isAuthBlockedForModel sample_env (sample_auth [?c, ?o]) ''m'' 5)) = 9" by code_simp
  ultimately show ?thesis by (simp only: Let_def)
qed

text \<open>C24: no credential stays blocked for a model by what its failures recorded: if every blocked state has
  a deadline (which results keep true), then from some time on the credential is not blocked for the
  model, unless it or the model is disabled or its token expires.\<close>

theorem block_ends:
  assumes "all_states recoverable (au_ModelStates a)" and "au_ModelStates a \<noteq> []" and "model \<noteq> []"
    and "\<not> au_Disabled a" and "au_Status a \<noteq> StatusDisabled"
    and "all_states (\<lambda>s. ms_Status s \<noteq> StatusDisabled) (au_ModelStates a)"
    and "AccessTokenExpirationTime env a = None"
  shows "\<exists>T. \<forall>t \<ge> T. \<not> fst (isAuthBlockedForModel env a model t)"
proof -
  obtain T0 where T0: "T0 \<ge> 0" "\<forall>k s. (k, Some s) \<in> set (au_ModelStates a) \<longrightarrow>
      ms_NextRetryAfter s \<le> T0 \<and> q_NextRecoverAt (ms_Quota s) \<le> T0"
    using states_bound by blast
  let ?T = "max T0 (q_NextRecoverAt (au_Quota a))"
  have "\<not> fst (isAuthBlockedForModel env a model t)" if t: "t \<ge> ?T" for t
  proof -
    have "\<not> blocksKey key t (k, st)" if "(k, st) \<in> set (au_ModelStates a)" for key k st
    proof (cases st)
      case (Some s)
      then have "recoverable s" "ms_Status s \<noteq> StatusDisabled"
        using assms(1,6) that by (auto simp: all_states_def)
      moreover have "ms_NextRetryAfter s \<le> t" "q_NextRecoverAt (ms_Quota s) \<le> t"
        using T0(2) that Some t by force+
      ultimately show ?thesis using recoverable_unblocks [of s t] T0(1) t Some by auto
    qed simp
    then have "\<not> list_ex (blocksKey key t) (au_ModelStates a)" for key by (auto simp: list_ex_iff)
    then show ?thesis using assms t
      by (simp add: isAuthBlockedForModel_flag credentialQuotaOpen_def)
  qed
  then show ?thesis by blast
qed

theorem block_ends_witness:
  "\<exists>T. \<forall>t \<ge> T. \<not> fst (isAuthBlockedForModel sample_env
     (sample_auth [(''m'', Some (sample_state StatusError 9 True 7))]) ''m'' t)"
proof (rule block_ends)
  show "AccessTokenExpirationTime sample_env (sample_auth [(''m'', Some (sample_state StatusError 9 True 7))]) = None"
    by code_simp
qed (simp_all add: sample_auth_def zeroAuth_def all_states_def sample_state_def zeroModelState_def recoverable_def)

text \<open>C1: round-robin picks a candidate that is not blocked and has the highest priority among those that are
  not; it answers with an error only when every candidate is blocked.\<close>

theorem rr_pick_contract:
  "(\<forall>a s'. RoundRobin_Pick env ws provider model now auths s = (Inr a, s') \<longrightarrow>
      a \<in> set auths \<and> \<not> fst (isAuthBlockedForModel env a model now)
      \<and> (\<forall>b \<in> set auths. \<not> fst (isAuthBlockedForModel env b model now) \<longrightarrow> authPriority b \<le> authPriority a))
   \<and> (\<forall>e s'. RoundRobin_Pick env ws provider model now auths s = (Inl e, s') \<longrightarrow>
      (\<forall>b \<in> set auths. fst (isAuthBlockedForModel env b model now)))"
  using rr.pick_sound [simplified] rr.pick_best [simplified] rr.pick_fails [simplified]
  unfolding blocked_def by (intro conjI) (metis, metis)

theorem rr_pick_contract_witness:
  "fst (RoundRobin_Pick sample_env False ''codex'' ''m'' 5 [sample_auth []] \<lparr>rr_lastPicked = [], rr_maxKeys = 0\<rparr>)
     = Inr (sample_auth [])
   \<and> \<not> fst (isAuthBlockedForModel sample_env (sample_auth []) ''m'' 5)"
proof -
  let ?r = "RoundRobin_Pick sample_env False ''codex'' ''m'' 5 [sample_auth []] \<lparr>rr_lastPicked = [], rr_maxKeys = 0\<rparr>"
  have "fst ?r = Inr (sample_auth [])" by code_simp
  then obtain s' where "?r = (Inr (sample_auth []), s')" by (cases ?r) simp
  then show ?thesis using rr_pick_contract [of sample_env False "''codex''" "''m''" 5 "[sample_auth []]"
      "\<lparr>rr_lastPicked = [], rr_maxKeys = 0\<rparr>"] by simp
qed

text \<open>C20: round-robin is fair: as many successive picks as there are available candidates visit every one of
  them exactly once, in the order of their IDs from wherever the rotation stood.\<close>

theorem rr_visits_all:
  assumes "getAvailableAuths env auths provider model now = Inr L"
    and "distinct (map au_ID L)" and "\<forall>a \<in> set L. au_ID a \<noteq> []"
  shows "let A = preferCodexWebsocketAuths ws provider L in
     \<exists>i. rr_picks (length A) env ws provider model now auths s = rotate i A"
proof -
  let ?A = "preferCodexWebsocketAuths ws provider L"
  obtain i where "rr_picks (length ?A) env ws provider model now auths s
      = map (\<lambda>k. ?A ! ((i + k) mod length ?A)) [0..<length ?A]"
    using rr_picks_cycle [OF assms(1) refl assms(2,3) refl] by blast
  also have "\<dots> = rotate i ?A" by (rule nth_equalityI) (simp_all add: nth_rotate)
  finally show ?thesis by (auto simp: Let_def)
qed

theorem rr_visits_all_witness:
  "\<exists>i. rr_picks 1 sample_env False ''codex'' ''m'' 5 [sample_auth []] \<lparr>rr_lastPicked = [], rr_maxKeys = 0\<rparr>
     = rotate i [sample_auth []]"
proof -
  have "getAvailableAuths sample_env [sample_auth []] ''codex'' ''m'' 5 = Inr [sample_auth []]" by code_simp
  from rr_visits_all [OF this, of False "\<lparr>rr_lastPicked = [], rr_maxKeys = 0\<rparr>"] show ?thesis
    by (simp add: preferCodexWebsocketAuths_def sample_auth_def Let_def)
qed

text \<open>A state that the loop finds for the model, unavailable until a deadline, blocks the model until then.\<close>

lemma stored_state_blocks:
  assumes "stateAt k a = Some s" and "canonicalModelKey k = k" and "ms_Unavailable s" and "canonicalModelKey model = k" and "k \<noteq> []"
    and "0 \<le> t" and "t < ms_NextRetryAfter s"
  shows "fst (isAuthBlockedForModel env a model t)"
proof -
  have "mget (au_ModelStates a) k = Some (Some s)" using assms(1) by (simp add: stateAt_def split: option.splits)
  then have mem: "(k, Some s) \<in> set (au_ModelStates a)" by (rule mget_Some_in)
  have "blocksKey (canonicalModelKey model) t (k, Some s)" using assms by (simp add: stateBlock_iff)
  then have "list_ex (blocksKey (canonicalModelKey model) t) (au_ModelStates a)" unfolding list_ex_iff using mem by (rule bexI)
  moreover have "model \<noteq> []" "au_ModelStates a \<noteq> []" using assms(4,5) mem by auto
  ultimately show ?thesis by (simp add: isAuthBlockedForModel_flag)
qed

lemma observeQuota_stateAt:
  assumes "stateAt k a = Some s"
  shows "\<exists>q. stateAt k (observeQuota now result headers modelKey a) = Some (s\<lparr>ms_Quota := q\<rparr>)"
proof -
  have self: "\<exists>q. s = s\<lparr>ms_Quota := q\<rparr>" by (rule exI [of _ "ms_Quota s"]) simp
  have same: "stateAt j (a\<lparr>au_Quota := q\<rparr>) = stateAt j a" for j q by (simp add: stateAt_def)
  show ?thesis using assms
    by (auto simp: observeQuota_def Let_def existingModelState_def same intro: self split: option.split)
qed

text \<open>C22: a failure the credential must pay for takes its model out of rotation until a deadline in the future. With
  cooling in force, and a model that is already its own key (so not one with two suffixes, whose cooldown the selection
  does not find), recording the failure stores a state in error for the model; from then until the state's retry time,
  which lies ahead, \<open>isAuthBlockedForModel\<close> says that the credential is blocked for the model, in every spelling.\<close>

theorem failure_cools_model:
  assumes "\<not> re_Success result" and "\<not> shouldSkipCredentialCooldown (me_Env me) (re_Error result)"
    and "\<not> coolingDisabledFor me (countOutcome now False a) (re_Error result)"
    and "canonicalModelKey (re_Model result) = k" and "k \<noteq> []" and "canonicalModelKey k = k" and "0 \<le> now"
    and "0 \<le> cg_transientErrorCooldownSeconds (me_Globals me)" and "seconds_ok me"
  shows "\<exists>s. stateAt k (markAuth me result headers now a) = Some s \<and> ms_Status s = StatusError \<and> now < ms_NextRetryAfter s
    \<and> (\<forall>env model t. canonicalModelKey model = k \<and> now \<le> t \<and> t < ms_NextRetryAfter s
         \<longrightarrow> fst (isAuthBlockedForModel env (markAuth me result headers now a) model t))"
proof -
  let ?a1 = "countOutcome now False a" and ?b = "markAuth me result headers now a"
  have key: "resultModelKey me result a = k" using assms(4,5) by (simp add: resultModelKey_def Let_def)
  obtain s where s: "stateAt k (markModelFailure me result now k ?a1) = Some s" "ms_Unavailable s" "ms_Status s = StatusError"
      "now < ms_NextRetryAfter s"
    using failure_state_stored [OF assms(2,3), of k now] assms(5-9) by auto
  let ?a2 = "markModelFailure me result now k ?a1"
  let ?a3 = "?a2\<lparr>au_Generation := au_Generation ?a2 + 1, au_UpdatedAt := now\<rparr>"
  have s3: "stateAt k ?a3 = Some s" using s(1) by (simp add: stateAt_def)
  have b: "?b = (if re_SkipQuotaObservation result then ?a3 else observeQuota now result headers k ?a3)"
    using assms(1,5) by (simp add: markAuth_def Let_def key markTransition_def)
  obtain q where q: "stateAt k ?b = Some (s\<lparr>ms_Quota := q\<rparr>)"
  proof (cases "re_SkipQuotaObservation result")
    case True
    then have "stateAt k ?b = Some (s\<lparr>ms_Quota := ms_Quota s\<rparr>)" using s3 by (simp add: b)
    then show thesis by (rule that)
  next
    case False
    then show thesis using observeQuota_stateAt [OF s3, of now result headers k] that by (auto simp: b)
  qed
  have "fst (isAuthBlockedForModel env ?b model t)" if "canonicalModelKey model = k" "now \<le> t" "t < ms_NextRetryAfter s" for env model t
    using stored_state_blocks [OF q assms(6) _ that(1) assms(5)] s(2) that(2,3) assms(7) by simp
  then show ?thesis using q s(3,4) by auto
qed

theorem failure_cools_model_witness:
  "\<exists>until. 5 < until \<and> (\<forall>t. 5 \<le> t \<and> t < until \<longrightarrow>
     fst (isAuthBlockedForModel sample_env (markAuth sample_me (sample_result 429) [] 5 (sample_auth [])) ''m(high)'' t))"
proof -
  have "\<not> shouldSkipCredentialCooldown (me_Env sample_me) (re_Error (sample_result 429))"
    unfolding sample_result_def Result.select_convs
    by (rule billing_failures_penalised_raw) (simp_all add: error_code_defs)
  moreover have "\<not> coolingDisabledFor sample_me (countOutcome 5 False (sample_auth [])) (re_Error (sample_result 429))" by code_simp
  moreover have "canonicalModelKey (re_Model (sample_result 429)) = ''m''" "canonicalModelKey ''m'' = ''m''" "canonicalModelKey ''m(high)'' = ''m''"
    by code_simp+
  ultimately show ?thesis
    using failure_cools_model [of "sample_result 429" sample_me 5 "sample_auth []" "''m''" "[]"]
    by (auto simp: sample_me_def seconds_ok_def) (auto simp: sample_result_def)
qed

text \<open>
  A cooldown can be lost: \<open>canonicalModelKey\<close> drops one suffix, \<open>MarkResult\<close> applies it twice to the
  result's model and stores the state under the inner name, while selection applies it once. For a model
  with two suffixes the credential stays selectable after a rate-limit failure.
\<close>

lemma double_suffix_cooldown_lost:
  "let r = (sample_result 429)\<lparr>re_Model := ''a(b)(c)''\<rparr>; a = markAuth sample_me r [] 5 (sample_auth []) in
     map fst (au_ModelStates a) = [''a''] \<and> \<not> fst (isAuthBlockedForModel sample_env a ''a(b)(c)'' 6)"
  by code_simp

end
