(* ===== verification/SmoothWrr.thy ===== *)
theory SmoothWrr
  imports Selector
begin

text \<open>
  Smooth weighted round-robin (\<open>pickSmoothWeightedAuth\<close> and \<open>WeightedRoundRobinSelector.Pick\<close> of
  \<open>selector.go\<close>): the accumulators of a fixed set of candidates, the share each candidate gets of
  successive picks, and the contract of a selector.
\<close>

section \<open>The total weight\<close>

abbreviation total_weight :: "Auth list \<Rightarrow> int" where
  "total_weight L \<equiv> sum_list (map authWeight L)"

lemma total_weight_bound: "\<forall>a \<in> set L. weight_typed a \<Longrightarrow> 0 \<le> total_weight L \<and> total_weight L \<le> int (length L) * weight_Max"
proof (induction L)
  case (Cons a L)
  then show ?case using authWeight_range [of a] by (auto simp: algebra_simps)
qed simp

lemma total_weight_pos:
  "\<forall>a \<in> set L. 0 < authWeight a \<Longrightarrow> 0 \<le> total_weight L \<and> (L \<noteq> [] \<longrightarrow> 0 < total_weight L)"
  by (induction L) auto

section \<open>One round\<close>

lemma saturatingAdd_exact:
  "min_int64 \<le> v + delta \<Longrightarrow> v + delta \<le> max_int64 \<Longrightarrow> saturatingAddInt64 v delta = v + delta"
  by (auto simp: saturatingAddInt64_def)

lemma mgetd_mput: "mgetd d (mput k v m) l = (if l = k then v else mgetd d m l)"
  by (simp add: mgetd_def go_map)

text \<open>
  What the loop has done after the candidates \<open>xs\<close>: each is credited its weight, the total is theirs,
  and the remembered one is a richest of them.
\<close>

definition credited :: "Auth list \<Rightarrow> (string, int) gomap \<Rightarrow> smooth_acc \<Rightarrow> bool" where
  "credited xs cur0 acc =
     (case acc of (cur, picked, pickedCurrent, tot) \<Rightarrow>
        (\<forall>id. mgetd 0 cur id = mgetd 0 cur0 id + total_weight (filter (\<lambda>a. au_ID a = id) xs))
        \<and> tot = total_weight xs
        \<and> (case picked of
             None \<Rightarrow> xs = []
           | Some a \<Rightarrow> a \<in> set xs \<and> pickedCurrent = mgetd 0 cur (au_ID a)
               \<and> (\<forall>b \<in> set xs. mgetd 0 cur (au_ID b) \<le> pickedCurrent)))"

definition no_saturation :: "Auth list \<Rightarrow> (string, int) gomap \<Rightarrow> bool" where
  "no_saturation L cur \<longleftrightarrow> total_weight L \<le> max_int64
     \<and> (\<forall>a \<in> set L. min_int64 \<le> mgetd 0 cur (au_ID a) \<and> mgetd 0 cur (au_ID a) + authWeight a \<le> max_int64)"

lemma credited_fold:
  assumes "distinct (map au_ID L)" and "\<forall>a \<in> set L. 0 < authWeight a" and "no_saturation L cur"
  shows "credited L cur (fold smooth_credit L (cur, None, 0, 0))"
  using assms
proof (induction L rule: rev_induct)
  case Nil
  then show ?case by (simp add: credited_def)
next
  case (snoc x xs)
  obtain c p pc t where acc: "fold smooth_credit xs (cur, None, 0, 0) = (c, p, pc, t)"
    by (metis prod_cases4)
  have ns: "no_saturation xs cur"
    using snoc.prems(2,3) by (auto simp: no_saturation_def)
  with snoc have ih: "credited xs cur (c, p, pc, t)" by (simp add: acc)
  have new: "filter (\<lambda>a. au_ID a = au_ID x) xs = []"
    using snoc.prems(1) by (auto simp: filter_empty_conv) (metis imageI)
  have w: "0 < authWeight x" "mgetd 0 c (au_ID x) = mgetd 0 cur (au_ID x)" "t = total_weight xs"
    using snoc.prems(2) ih new by (auto simp: credited_def)
  have nid: "au_ID b \<noteq> au_ID x" if "b \<in> set xs" for b
    using snoc.prems(1) that by simp (metis imageI)
  have "saturatingAddInt64 (mgetd 0 c (au_ID x)) (authWeight x) = mgetd 0 cur (au_ID x) + authWeight x"
    using snoc.prems(3) w by (subst saturatingAdd_exact) (auto simp: no_saturation_def)
  moreover have "saturatingAddInt64 t (authWeight x) = total_weight xs + authWeight x"
    using snoc.prems(2,3) w total_weight_pos [of xs]
    by (subst saturatingAdd_exact) (auto simp: no_saturation_def int64_defs)
  ultimately have step: "fold smooth_credit (xs @ [x]) (cur, None, 0, 0) =
      (let v = mgetd 0 cur (au_ID x) + authWeight x; c' = mput (au_ID x) v c; t' = total_weight xs + authWeight x in
       if p = None \<or> v > pc then (c', Some x, v, t') else (c', p, pc, t'))"
    using w(1) by (simp add: acc smooth_credit_def Let_def)
  have cur': "mgetd 0 (mput (au_ID x) (mgetd 0 cur (au_ID x) + authWeight x) c) id
      = mgetd 0 cur id + total_weight (filter (\<lambda>a. au_ID a = id) (xs @ [x]))" for id
    using ih new by (auto simp: credited_def mgetd_mput)
  show ?case
    using ih nid unfolding step Let_def
    by (auto simp: credited_def cur' [simplified] mgetd_mput w(3) split: option.splits) (force+)?
qed

lemma total_weight_own:
  "distinct (map au_ID L) \<Longrightarrow> a \<in> set L \<Longrightarrow> total_weight (filter (\<lambda>b. au_ID b = au_ID a) L) = authWeight a"
proof (induction L)
  case (Cons x L)
  show ?case
  proof (cases "a = x")
    case True
    then have "filter (\<lambda>b. au_ID b = au_ID a) L = []"
      using Cons.prems(1) by (auto simp: filter_empty_conv) (metis imageI)
    then show ?thesis using True by simp
  next
    case False
    then have "au_ID x \<noteq> au_ID a" using Cons.prems by force
    then show ?thesis using Cons False by simp
  qed
qed simp

text \<open>
  One pick from accumulators that do not saturate: the pick is a candidate with the largest credit,
  every candidate gains its weight, and the pick pays the total.
\<close>

lemma pick_step:
  assumes "distinct (map au_ID L)" and "\<forall>a \<in> set L. 0 < authWeight a" and "no_saturation L cur" and "L \<noteq> []"
    and "\<forall>a \<in> set L. min_int64 + total_weight L \<le> mgetd 0 cur (au_ID a)"
  obtains a cur' where "pickSmoothWeightedAuth L cur = (Some a, cur')" "a \<in> set L"
    "\<forall>b \<in> set L. mgetd 0 cur (au_ID b) + authWeight b \<le> mgetd 0 cur (au_ID a) + authWeight a"
    "\<forall>b \<in> set L. mgetd 0 cur' (au_ID b) = mgetd 0 cur (au_ID b) + authWeight b - (if b = a then total_weight L else 0)"
proof -
  obtain c p pc t where acc: "fold smooth_credit L (cur, None, 0, 0) = (c, p, pc, t)"
    by (metis prod_cases4)
  note cr = credited_fold [OF assms(1-3), unfolded acc credited_def prod.case]
  have c: "mgetd 0 c (au_ID b) = mgetd 0 cur (au_ID b) + authWeight b" if "b \<in> set L" for b
    using cr total_weight_own [OF assms(1) that] by simp
  obtain a where a: "p = Some a" "a \<in> set L" "\<forall>b \<in> set L. mgetd 0 c (au_ID b) \<le> mgetd 0 c (au_ID a)" "t = total_weight L"
    using cr assms(4) by (cases p) auto
  have sat: "saturatingAddInt64 (mgetd 0 c (au_ID a)) (- t) = mgetd 0 cur (au_ID a) + authWeight a - total_weight L"
    using bspec [OF assms(2) a(2)] bspec [OF assms(5) a(2)] assms(3) a(2) total_weight_pos [OF assms(2)]
    by (subst saturatingAdd_exact) (auto simp: a(4) c no_saturation_def int64_defs)
  have same: "b = a" if "b \<in> set L" "au_ID b = au_ID a" for b
    using assms(1) a(2) that by (metis distinct_map inj_on_def)
  show thesis
  proof (rule that)
    show "pickSmoothWeightedAuth L cur =
        (Some a, mput (au_ID a) (mgetd 0 cur (au_ID a) + authWeight a - total_weight L) c)"
      by (simp add: pickSmoothWeightedAuth_def acc a(1) sat)
  qed (use a c same in \<open>auto simp: mgetd_mput\<close>)
qed

section \<open>Successive picks from a fixed set of candidates\<close>

abbreviation share :: "Auth list \<Rightarrow> Auth \<Rightarrow> int" where
  "share ps a \<equiv> int (count_list ps a)"

text \<open>
  The accounts after the picks \<open>ps\<close> of \<open>L\<close> from accumulators that were all zero: each candidate has been
  credited its weight per pick and charged the total per pick of its own, and none owes as much as the total.
\<close>

definition balanced :: "Auth list \<Rightarrow> Auth list \<Rightarrow> (string, int) gomap \<Rightarrow> bool" where
  "balanced L ps cur \<longleftrightarrow> set ps \<subseteq> set L \<and>
     (\<forall>a \<in> set L. mgetd 0 cur (au_ID a) = int (length ps) * authWeight a - total_weight L * share ps a
        \<and> - total_weight L < mgetd 0 cur (au_ID a))"

definition small :: "Auth list \<Rightarrow> bool" where
  "small L \<longleftrightarrow> 2 * (int (length L) * total_weight L) \<le> max_int64"

lemma share_total: "distinct L \<Longrightarrow> set ps \<subseteq> set L \<Longrightarrow> (\<Sum>a \<leftarrow> L. share ps a) = int (length ps)"
proof (induction ps)
  case (Cons p ps)
  have "(\<Sum>a \<leftarrow> L. share (p # ps) a) = (\<Sum>a \<leftarrow> L. share ps a + (if a = p then 1 else 0))"
    by (rule arg_cong [where f = sum_list], rule map_cong) auto
  also have "\<dots> = (\<Sum>a \<leftarrow> L. share ps a) + (\<Sum>a \<leftarrow> L. if a = p then 1 else 0)"
    by (simp add: sum_list_addf)
  also have "(\<Sum>a \<leftarrow> L. if a = p then 1 else 0 :: int) = 1"
    using Cons.prems by (simp add: sum_list_distinct_conv_sum_set)
  finally show ?case using Cons by simp
qed simp

lemma balanced_sum:
  assumes "distinct L" and "balanced L ps cur"
  shows "(\<Sum>a \<leftarrow> L. mgetd 0 cur (au_ID a)) = 0"
proof -
  have "(\<Sum>a \<leftarrow> L. mgetd 0 cur (au_ID a))
      = (\<Sum>a \<leftarrow> L. int (length ps) * authWeight a - total_weight L * share ps a)"
    using assms(2) by (intro arg_cong [where f = sum_list] map_cong) (auto simp: balanced_def)
  also have "\<dots> = int (length ps) * total_weight L - total_weight L * (\<Sum>a \<leftarrow> L. share ps a)"
    by (simp add: sum_list_subtractf sum_list_const_mult)
  finally show ?thesis using share_total [of L ps] assms by (simp add: balanced_def)
qed

lemma sum_list_lower:
  fixes f :: "'a \<Rightarrow> int"
  assumes "\<forall>x \<in> set xs. - T \<le> f x" and "a \<in> set xs" and "0 \<le> T"
  shows "f a \<le> sum_list (map f xs) + (int (length xs) - 1) * T"
  using assms(1,2)
proof (induction xs)
  case (Cons x xs)
  have low: "- (int (length ys) * T) \<le> sum_list (map f ys)" if "\<forall>x \<in> set ys. - T \<le> f x" for ys
    using that by (induction ys) (auto simp: algebra_simps)
  show ?case
  proof (cases "a = x")
    case True
    then show ?thesis using low [of xs] Cons.prems(1) by (simp add: algebra_simps)
  next
    case False
    then have "f a \<le> sum_list (map f xs) + (int (length xs) - 1) * T" using Cons by simp
    then show ?thesis using Cons.prems(1) by (simp add: algebra_simps)
  qed
qed simp

lemma balanced_step:
  assumes "distinct (map au_ID L)" and "\<forall>a \<in> set L. 0 < authWeight a" and "small L" and "L \<noteq> []"
    and "balanced L ps cur"
  obtains a cur' where "pickSmoothWeightedAuth L cur = (Some a, cur')" "balanced L (ps @ [a]) cur'"
proof -
  let ?T = "total_weight L" and ?n = "int (length L)"
  have T: "0 < ?T" using total_weight_pos [OF assms(2)] assms(4) by simp
  have dist: "distinct L" using assms(1) by (simp add: distinct_map)
  have low: "- ?T < mgetd 0 cur (au_ID a)" if "a \<in> set L" for a using assms(5) that unfolding balanced_def by blast
  have n1: "1 \<le> ?n" using assms(4) by (cases L) auto
  have "?T \<le> ?n * ?T" using mult_right_mono [OF n1, of ?T] T by simp
  then have T64: "2 * ?T \<le> max_int64" using assms(3) by (simp add: small_def)
  have wT: "authWeight a \<le> ?T" if "a \<in> set L" for a
    using member_le_sum_list [of "authWeight a" "map authWeight L"] that assms(2) by force
  have high: "mgetd 0 cur (au_ID a) + authWeight a \<le> max_int64" if "a \<in> set L" for a
  proof -
    have "mgetd 0 cur (au_ID a) \<le> (?n - 1) * ?T"
      using sum_list_lower [of L ?T "\<lambda>a. mgetd 0 cur (au_ID a)" a] that low T balanced_sum [OF dist assms(5)]
      by (force simp: less_imp_le)
    then have "mgetd 0 cur (au_ID a) \<le> ?n * ?T - ?T" by (simp add: left_diff_distrib)
    moreover have "?n * ?T \<le> max_int64" using assms(3) T64 T unfolding small_def by linarith
    ultimately show ?thesis using wT [OF that] by linarith
  qed
  have ns: "no_saturation L cur"
    using T64 high low T by (force simp: no_saturation_def int64_defs)
  have lowT: "\<forall>a \<in> set L. min_int64 + ?T \<le> mgetd 0 cur (au_ID a)"
    using low T64 by (force simp: int64_defs)
  obtain a cur' where p: "pickSmoothWeightedAuth L cur = (Some a, cur')" "a \<in> set L"
    "\<forall>b \<in> set L. mgetd 0 cur (au_ID b) + authWeight b \<le> mgetd 0 cur (au_ID a) + authWeight a"
    "\<forall>b \<in> set L. mgetd 0 cur' (au_ID b) = mgetd 0 cur (au_ID b) + authWeight b - (if b = a then ?T else 0)"
    using pick_step [OF assms(1,2) ns assms(4) lowT] by blast
  have pos: "0 < mgetd 0 cur (au_ID a) + authWeight a"
  proof (rule ccontr)
    assume "\<not> ?thesis"
    then have "\<forall>b \<in> set L. mgetd 0 cur (au_ID b) + authWeight b \<le> 0" using p(3) by force
    then have "(\<Sum>b \<leftarrow> L. mgetd 0 cur (au_ID b) + authWeight b) \<le> 0"
      by (induction L) force+
    then show False using balanced_sum [OF dist assms(5)] T by (simp add: sum_list_addf)
  qed
  have "mgetd 0 cur' (au_ID b) = int (length (ps @ [a])) * authWeight b - ?T * share (ps @ [a]) b
      \<and> - ?T < mgetd 0 cur' (au_ID b)" if b: "b \<in> set L" for b
  proof -
    have acct: "mgetd 0 cur (au_ID b) = int (length ps) * authWeight b - ?T * share ps b"
      using assms(5) b unfolding balanced_def by blast
    have new: "mgetd 0 cur' (au_ID b) = mgetd 0 cur (au_ID b) + authWeight b - (if b = a then ?T else 0)"
      using p(4) b by blast
    show ?thesis
    proof (cases "b = a")
      case True
      then show ?thesis using acct new pos by (simp add: algebra_simps)
    next
      case False
      then show ?thesis using acct new low [OF b] bspec [OF assms(2) b] by (simp add: algebra_simps)
    qed
  qed
  moreover have "set (ps @ [a]) \<subseteq> set L" using assms(5) p(2) unfolding balanced_def by simp
  ultimately have "balanced L (ps @ [a]) cur'" unfolding balanced_def by blast
  with p(1) show thesis by (rule that)
qed

text \<open>
  After as many picks as the total weight no candidate has had fewer than its weight: it would owe the
  total. So every one has had exactly its weight and all accounts are even.
\<close>

lemma balanced_period:
  assumes "distinct (map au_ID L)" and "\<forall>a \<in> set L. 0 < authWeight a" and "balanced L ps c"
    and "int (length ps) = total_weight L" and "a \<in> set L"
  shows "share ps a = authWeight a \<and> mgetd 0 c (au_ID a) = 0"
proof -
  let ?T = "total_weight L"
  have T: "0 < ?T" using total_weight_pos [OF assms(2)] assms(5) by auto
  note b = assms(3,4)
  have acct: "mgetd 0 c (au_ID b) = ?T * (authWeight b - share ps b)" "- ?T < mgetd 0 c (au_ID b)"
    if "b \<in> set L" for b
    using b that unfolding balanced_def by (simp_all add: algebra_simps)
  have le: "share ps b \<le> authWeight b" if "b \<in> set L" for b
  proof (rule ccontr)
    assume "\<not> ?thesis"
    then have "?T * (authWeight b - share ps b) \<le> ?T * (- 1)" using T by (intro mult_left_mono) auto
    then show False using acct [OF that] by simp
  qed
  have dist: "distinct L" using assms(1) by (simp add: distinct_map)
  have "(\<Sum>b \<leftarrow> L. authWeight b - share ps b) = 0"
    using share_total [OF dist, of ps] b by (simp add: sum_list_subtractf balanced_def)
  moreover have "0 \<le> authWeight b - share ps b" if "b \<in> set L" for b using le [OF that] by simp
  ultimately have "authWeight a - share ps a = 0"
    using assms(5) sum_list_nonneg_eq_0_iff [of "map (\<lambda>b. authWeight b - share ps b) L"] by force
  then show ?thesis using acct(1) [OF assms(5)] by simp
qed

lemma balanced_ahead:
  assumes "balanced L ps c" and "a \<in> set L"
  shows "total_weight L * share ps a < int (length ps) * authWeight a + total_weight L"
  using assms unfolding balanced_def by force

lemma balanced_behind:
  assumes "distinct (map au_ID L)" and "\<forall>a \<in> set L. 0 < authWeight a" and "balanced L ps c" and "a \<in> set L"
  shows "int (length ps) * authWeight a \<le> total_weight L * share ps a + (int (length L) - 1) * total_weight L"
proof -
  have dist: "distinct L" using assms(1) by (simp add: distinct_map)
  have low: "\<forall>b \<in> set L. - total_weight L \<le> mgetd 0 c (au_ID b)"
    using assms(3) unfolding balanced_def by (meson less_imp_le)
  have "mgetd 0 c (au_ID a) \<le> (int (length L) - 1) * total_weight L"
    using sum_list_lower [OF low assms(4)] total_weight_pos [OF assms(2)] balanced_sum [OF dist assms(3)] by simp
  moreover have "mgetd 0 c (au_ID a) = int (length ps) * authWeight a - total_weight L * share ps a"
    using assms(3,4) unfolding balanced_def by blast
  ultimately show ?thesis by simp
qed

section \<open>The state of the selector\<close>

lemma mget_fold_mput:
  "mwf V \<Longrightarrow> mget (fold (\<lambda>(k, w). mput k w) V m) k = (case mget V k of Some w \<Rightarrow> Some w | None \<Rightarrow> mget m k)"
proof (induction V arbitrary: m)
  case (Cons e V)
  obtain l w where e: "e = (l, w)" by fastforce
  have "mget V l = None" "mwf V" using Cons.prems by (auto simp: e mwf_def mget_None_iff)
  then show ?case using Cons.IH by (auto simp: e go_map split: option.splits)
qed simp

lemma authWeightVector_props:
  assumes "distinct (map au_ID A)" and "\<forall>a \<in> set A. 0 < authWeight a"
  shows "mwf (authWeightVector A)"
    and "a \<in> set A \<Longrightarrow> mget (authWeightVector A) (au_ID a) = Some (authWeight a)"
    and "mget (authWeightVector A) i = Some w \<Longrightarrow> \<exists>a \<in> set A. au_ID a = i \<and> w = authWeight a"
proof -
  let ?f = "\<lambda>auth m. if authWeight auth > 0 then mput (au_ID auth) (authWeight auth) m else m"
  have "mwf m \<Longrightarrow> mwf (fold ?f L m)" for L m
    by (induction L arbitrary: m) (simp_all add: inv_intro)
  then show "mwf (authWeightVector A)" by (simp add: authWeightVector_def)
  have get: "mget (authWeightVector A) id = map_option authWeight (find (\<lambda>a. au_ID a = id) A)" for id
    using assms unfolding authWeightVector_def
  proof (induction A rule: rev_induct)
    case (snoc x xs)
    have "find (\<lambda>a. au_ID a = id) (xs @ [x])
        = (case find (\<lambda>a. au_ID a = id) xs of Some b \<Rightarrow> Some b | None \<Rightarrow> if au_ID x = id then Some x else None)"
      by (induction xs) auto
    moreover have "find (\<lambda>a. au_ID a = id) xs = None" if "au_ID x = id"
      using snoc.prems(1) that by (auto simp: find_None_iff) (metis imageI)
    ultimately show ?case using snoc by (auto simp: go_map split: option.splits)
  qed simp
  have "find (\<lambda>b. au_ID b = au_ID a) A = Some a" if "a \<in> set A"
    using assms(1) that by (induction A) (auto dest: imageI [of a _ au_ID])
  then show "a \<in> set A \<Longrightarrow> mget (authWeightVector A) (au_ID a) = Some (authWeight a)" by (simp add: get)
  show "mget (authWeightVector A) i = Some w \<Longrightarrow> \<exists>a \<in> set A. au_ID a = i \<and> w = authWeight a"
    by (auto simp: get find_Some_iff)
qed

lemma mget_filter_key: "P k \<Longrightarrow> mget (filter (\<lambda>(l, _). P l) m) k = mget m k"
  by (induction m) auto

text \<open>
  A state that has served the same candidates: it has no other weight for them than theirs, and its
  accounts are those of the picks made.
\<close>

definition serves :: "Auth list \<Rightarrow> Auth list \<Rightarrow> smoothWeightedState \<Rightarrow> bool" where
  "serves A ps st \<longleftrightarrow> balanced A ps (sw_current st)
     \<and> (\<forall>a \<in> set A. mget (sw_weights st) (au_ID a) \<in> {None, Some (authWeight a)})"

lemma serves_prepare:
  assumes "distinct (map au_ID A)" and "\<forall>a \<in> set A. 0 < authWeight a" and "serves A ps st"
  shows "serves A ps (smooth_prepare (authWeightVector A) st)"
proof -
  let ?V = "authWeightVector A"
  note V = authWeightVector_props [OF assms(1,2)]
  have "\<not> weightsConfigChanged (sw_weights st) ?V"
  proof -
    have same: "v = w" if "(id, w) \<in> set ?V" and "mget (sw_weights st) id = Some v" for id w v
    proof -
      have "mget ?V id = Some w" using that(1) V(1) by (simp add: mget_iff_in)
      then obtain a where a: "a \<in> set A" "au_ID a = id" "w = authWeight a" using V(3) by blast
      have "mget (sw_weights st) (au_ID a) \<in> {None, Some (authWeight a)}"
        using assms(3) a(1) unfolding serves_def by blast
      then show ?thesis using that(2) a(2,3) by auto
    qed
    show ?thesis by (auto simp: weightsConfigChanged_def list_ex_iff dest: same split: option.splits)
  qed
  then have prep: "smooth_prepare ?V st
      = pruneStale ?V (st\<lparr>sw_weights := fold (\<lambda>(id, w). mput id w) ?V (sw_weights st)\<rparr>)"
    by (simp add: smooth_prepare_def Let_def)
  have w: "mget (sw_weights (smooth_prepare ?V st)) (au_ID a) = Some (authWeight a)" if "a \<in> set A" for a
    using V(1,2) that by (simp add: prep pruneStale_def mget_filter_key mget_fold_mput)
  have c: "mgetd 0 (sw_current (smooth_prepare ?V st)) (au_ID a) = mgetd 0 (sw_current st) (au_ID a)" if "a \<in> set A" for a
    using V(2) [OF that] by (simp add: prep pruneStale_def mgetd_def mget_filter_key)
  have "balanced A ps (sw_current (smooth_prepare ?V st))"
    using assms(3) c unfolding serves_def balanced_def by metis
  then show ?thesis using w by (simp add: serves_def)
qed

primrec wrr_picks ::
  "nat \<Rightarrow> Env \<Rightarrow> bool \<Rightarrow> string \<Rightarrow> string \<Rightarrow> string \<Rightarrow> time \<Rightarrow> Auth list \<Rightarrow> WeightedRoundRobinSelector
     \<Rightarrow> Auth list \<times> WeightedRoundRobinSelector" where
  \<comment> \<open>the credentials of successive calls of \<open>Pick\<close> with the same candidates, as long as they succeed\<close>
  "wrr_picks 0 env ws route provider model now auths s = ([], s)"
| "wrr_picks (Suc n) env ws route provider model now auths s =
     (case wrr_picks n env ws route provider model now auths s of (ps, s1) \<Rightarrow>
      case WeightedRoundRobin_Pick env ws route provider model now auths s1 of
        (Inr a, s2) \<Rightarrow> (ps @ [a], s2)
      | (Inl e, s2) \<Rightarrow> (ps, s2))"

abbreviation wrr_key :: "string \<Rightarrow> string \<Rightarrow> string \<Rightarrow> string" where
  "wrr_key route provider model \<equiv> provider @ '':'' @ canonicalModelKey (weightedSelectorStateModel route model)"

definition wrr_state :: "string \<Rightarrow> WeightedRoundRobinSelector \<Rightarrow> smoothWeightedState" where
  \<comment> \<open>the accumulators under a key, empty when there are none\<close>
  "wrr_state key s = (case mget (wr_states s) key of Some st \<Rightarrow> st | None \<Rightarrow> \<lparr>sw_current = [], sw_weights = []\<rparr>)"

lemma wrr_pick_step:
  assumes L: "getAvailableAuths env (positiveWeightAuths auths) provider model now = Inr L"
    and A: "A = preferCodexWebsocketAuths ws provider L"
    and "distinct (map au_ID A)" and "\<forall>a \<in> set A. 0 < authWeight a" and "small A" and "A \<noteq> []"
    and "serves A ps (wrr_state (wrr_key route provider model) s)"
  obtains a s' where "WeightedRoundRobin_Pick env ws route provider model now auths s = (Inr a, s')"
    "serves A (ps @ [a]) (wrr_state (wrr_key route provider model) s')"
proof -
  let ?key = "wrr_key route provider model"
  define states where "states = (if mget (wr_states s) ?key = None
      \<and> int (length (wr_states s)) \<ge> selectorLimit (wr_maxKeys s) then [] else wr_states s)"
  have st: "(case mget states ?key of Some st \<Rightarrow> st | None \<Rightarrow> \<lparr>sw_current = [], sw_weights = []\<rparr>) = wrr_state ?key s"
    by (auto simp: states_def wrr_state_def split: option.splits)
  define prepared where "prepared = smooth_prepare (authWeightVector A) (wrr_state ?key s)"
  have prep: "serves A ps prepared" using serves_prepare assms(3,4,7) by (simp add: prepared_def)
  then obtain a cur' where p: "pickSmoothWeightedAuth A (sw_current prepared) = (Some a, cur')" "balanced A (ps @ [a]) cur'"
    using balanced_step [OF assms(3-6), of ps "sw_current prepared"] unfolding serves_def by blast
  let ?s' = "s\<lparr>wr_states := mput ?key (prepared\<lparr>sw_current := cur'\<rparr>) states\<rparr>"
  have "WeightedRoundRobin_Pick env ws route provider model now auths s = (Inr a, ?s')"
    using L p(1) st by (simp add: WeightedRoundRobin_Pick_def Let_def A prepared_def states_def)
  moreover have "serves A (ps @ [a]) (wrr_state ?key ?s')"
    using prep p(2) by (simp add: wrr_state_def go_map serves_def)
  ultimately show thesis by (rule that)
qed

lemma wrr_picks_serve:
  assumes L: "getAvailableAuths env (positiveWeightAuths auths) provider model now = Inr L"
    and A: "A = preferCodexWebsocketAuths ws provider L"
    and "distinct (map au_ID A)" and "\<forall>a \<in> set A. 0 < authWeight a" and "small A" and "A \<noteq> []"
    and "serves A [] (wrr_state (wrr_key route provider model) s)"
    and "wrr_picks n env ws route provider model now auths s = (ps, s')"
  shows "length ps = n \<and> serves A ps (wrr_state (wrr_key route provider model) s')"
  using assms(8)
proof (induction n arbitrary: ps s')
  case 0
  then show ?case using assms(7) by simp
next
  case (Suc n)
  obtain qs s1 where run: "wrr_picks n env ws route provider model now auths s = (qs, s1)" by fastforce
  note ih = Suc.IH [OF run]
  then obtain a s2 where "WeightedRoundRobin_Pick env ws route provider model now auths s1 = (Inr a, s2)"
    "serves A (qs @ [a]) (wrr_state (wrr_key route provider model) s2)"
    using wrr_pick_step [OF assms(1-6)] by blast
  then show ?case using Suc.prems ih by (auto simp: run)
qed

lemma small_bound:
  assumes "length A \<le> 1000000" and "\<forall>a \<in> set A. weight_typed a"
  shows "small A"
proof -
  have "int (length A) * total_weight A \<le> int (length A) * (int (length A) * weight_Max)"
    using total_weight_bound [OF assms(2)] by (intro mult_left_mono) auto
  also have "\<dots> \<le> 1000000 * (1000000 * weight_Max)"
    using assms(1) by (intro mult_mono) (auto simp: weight_defs)
  finally show ?thesis by (simp add: small_def int64_defs weight_defs)
qed

lemma available_positive:
  assumes "getAvailableAuths env (positiveWeightAuths auths) provider model now = Inr L"
  shows "set (preferCodexWebsocketAuths ws provider L) \<subseteq> {a \<in> set auths. 0 < authWeight a}"
proof -
  obtain p where "mset L = mset (filter (\<lambda>a. \<not> blocked env model now a \<and> authPriority a = p) (positiveWeightAuths auths))"
    using getAvailableAuths_Inr(3) [OF assms] by blast
  then have "set L \<subseteq> set (positiveWeightAuths auths)" by (metis filter_is_subset set_mset_mset)
  then show ?thesis using prefer_members(1) [of ws provider L] by (auto simp: positiveWeightAuths_def)
qed

lemma wrr_candidates:
  assumes "getAvailableAuths env (positiveWeightAuths auths) provider model now = Inr L"
    and "distinct (map au_ID L)" and "length L \<le> 1000000" and "\<forall>a \<in> set L. weight_typed a"
  shows "distinct (map au_ID (preferCodexWebsocketAuths ws provider L))"
    and "\<forall>a \<in> set (preferCodexWebsocketAuths ws provider L). 0 < authWeight a"
    and "small (preferCodexWebsocketAuths ws provider L)"
    and "preferCodexWebsocketAuths ws provider L \<noteq> []"
proof -
  let ?A = "preferCodexWebsocketAuths ws provider L"
  show "distinct (map au_ID ?A)" using prefer_members(4) assms(2) .
  show "\<forall>a \<in> set ?A. 0 < authWeight a" using available_positive [OF assms(1), of ws] by blast
  have "length ?A \<le> length L" by (simp add: preferCodexWebsocketAuths_def Let_def)
  then show "small ?A" using small_bound assms(3,4) prefer_members(1) by (meson le_trans subsetD)
  show "?A \<noteq> []" using prefer_members(2) getAvailableAuths_Inr(1) [OF assms(1)] .
qed

lemma fresh_serves:
  assumes "mget (wr_states s) key = None" and "\<forall>a \<in> set A. 0 < authWeight a" and "A \<noteq> []"
  shows "serves A [] (wrr_state key s)"
  using assms total_weight_pos [OF assms(2)] by (simp add: serves_def wrr_state_def balanced_def mgetd_def)

section \<open>The contract\<close>

lemma smooth_fold_member:
  assumes "fold smooth_credit L (cur, p, pc, t) = (cur', p', pc', t')"
  shows "(p' = p \<or> (\<exists>a \<in> set L. p' = Some a)) \<and> (p' = None \<longrightarrow> p = None \<and> (\<forall>a \<in> set L. authWeight a \<le> 0))"
  using assms
proof (induction L arbitrary: cur p pc t)
  case (Cons a L)
  obtain c q qc u where acc: "smooth_credit a (cur, p, pc, t) = (c, q, qc, u)" by (metis prod_cases4)
  have "(q = p \<or> q = Some a) \<and> (q = None \<longrightarrow> p = None \<and> authWeight a \<le> 0)"
    using acc by (auto simp: smooth_credit_def Let_def split: if_splits)
  moreover have "fold smooth_credit L (c, q, qc, u) = (cur', p', pc', t')" using Cons.prems by (simp add: acc)
  ultimately show ?case using Cons.IH by fastforce
qed simp

lemma pickSmooth_member:
  "pickSmoothWeightedAuth A cur = (Some a, cur') \<Longrightarrow> a \<in> set A"
  "pickSmoothWeightedAuth A cur = (None, cur') \<Longrightarrow> \<forall>a \<in> set A. authWeight a \<le> 0"
  using smooth_fold_member [of A cur None 0 0]
  by (auto simp: pickSmoothWeightedAuth_def split: prod.splits option.splits)

interpretation wr: selector_contract
  "\<lambda>s provider model now auths. WeightedRoundRobin_Pick env ws route provider model now auths s" env
  "\<lambda>a. 0 < authWeight a" for env ws route
proof
  fix s provider model now auths a s'
  assume p: "WeightedRoundRobin_Pick env ws route provider model now auths s = (Inr a, s')"
  then obtain L where L: "getAvailableAuths env (positiveWeightAuths auths) provider model now = Inr L"
    by (auto simp: WeightedRoundRobin_Pick_def split: sum.splits)
  let ?A = "preferCodexWebsocketAuths ws provider L"
  obtain cur cur' where "pickSmoothWeightedAuth ?A cur = (Some a, cur')"
    using p L by (auto simp: WeightedRoundRobin_Pick_def Let_def split: prod.splits option.splits)
  then have aL: "a \<in># mset L" using pickSmooth_member(1) prefer_members(1) by fastforce
  obtain q where q: "mset L = mset (filter (\<lambda>a. \<not> blocked env model now a \<and> authPriority a = q) (positiveWeightAuths auths))"
    "\<forall>b \<in> set (positiveWeightAuths auths). \<not> blocked env model now b \<longrightarrow> authPriority b \<le> q"
    using getAvailableAuths_Inr(3) [OF L] by blast
  show "a \<in> set auths \<and> 0 < authWeight a \<and> \<not> blocked env model now a"
    using aL q(1) by (auto simp: positiveWeightAuths_def)
  show "b \<in> set auths \<Longrightarrow> 0 < authWeight b \<Longrightarrow> \<not> blocked env model now b \<Longrightarrow> authPriority b \<le> authPriority a" for b
    using aL q by (auto simp: positiveWeightAuths_def)
next
  fix s provider model now auths e s' b
  assume p: "WeightedRoundRobin_Pick env ws route provider model now auths s = (Inl e, s')"
    and b: "b \<in> set auths" "0 < authWeight b"
  show "blocked env model now b"
  proof (cases "getAvailableAuths env (positiveWeightAuths auths) provider model now")
    case (Inl err)
    then show ?thesis using getAvailableAuths_Inl [OF Inl] b by (auto simp: positiveWeightAuths_def)
  next
    case (Inr L)
    let ?A = "preferCodexWebsocketAuths ws provider L"
    obtain cur cur' where "pickSmoothWeightedAuth ?A cur = (None, cur')"
      using p Inr by (auto simp: WeightedRoundRobin_Pick_def Let_def split: prod.splits option.splits)
    then have "\<forall>a \<in> set ?A. authWeight a \<le> 0" by (rule pickSmooth_member)
    moreover have "?A \<noteq> []" using prefer_members(2) [OF getAvailableAuths_Inr(1) [OF Inr]] .
    ultimately show ?thesis using available_positive [OF Inr, of ws] by (cases ?A) force+
  qed
qed

text \<open>Two credentials for the witnesses, of weight 2 and 1.\<close>

definition heavy :: Auth where
  "heavy = (sample_auth [])\<lparr>au_ID := ''a'', au_Attributes := [(AttributeWeight, ''2'')]\<rparr>"

definition light :: Auth where
  "light = (sample_auth [])\<lparr>au_ID := ''b'', au_Attributes := [(AttributeWeight, ''1'')]\<rparr>"

lemma wrr_sample:
  "getAvailableAuths sample_env (positiveWeightAuths [heavy, light]) ''codex'' ''m'' 5 = Inr [heavy, light]"
  "authWeight heavy = 2" "authWeight light = 1" "au_ID heavy = ''a''" "au_ID light = ''b''"
  "preferCodexWebsocketAuths False ''codex'' [heavy, light] = [heavy, light]"
  "weight_typed heavy" "weight_typed light"
  by code_simp+

abbreviation sample_selector :: WeightedRoundRobinSelector where
  "sample_selector \<equiv> \<lparr>wr_states = [], wr_maxKeys = 0\<rparr>"

section \<open>Properties\<close>

text \<open>C34: weighted round-robin picks a candidate of positive weight that is not blocked and has the highest
  priority among those; it answers with an error only when every candidate of positive weight is blocked.\<close>

theorem wrr_pick_contract:
  "(\<forall>a s'. WeightedRoundRobin_Pick env ws route provider model now auths s = (Inr a, s') \<longrightarrow>
      a \<in> set auths \<and> 0 < authWeight a \<and> \<not> fst (isAuthBlockedForModel env a model now)
      \<and> (\<forall>b \<in> set auths. 0 < authWeight b \<and> \<not> fst (isAuthBlockedForModel env b model now) \<longrightarrow>
            authPriority b \<le> authPriority a))
   \<and> (\<forall>e s'. WeightedRoundRobin_Pick env ws route provider model now auths s = (Inl e, s') \<longrightarrow>
      (\<forall>b \<in> set auths. 0 < authWeight b \<longrightarrow> fst (isAuthBlockedForModel env b model now)))"
  using wr.pick_sound wr.pick_best wr.pick_fails unfolding blocked_def by (intro conjI) (metis, metis)

theorem wrr_pick_contract_witness:
  "fst (WeightedRoundRobin_Pick sample_env False [] ''codex'' ''m'' 5
       [(sample_auth [])\<lparr>au_Attributes := [(AttributeWeight, ''0'')]\<rparr>, sample_auth []]
       \<lparr>wr_states = [], wr_maxKeys = 0\<rparr>) = Inr (sample_auth [])
   \<and> 0 < authWeight (sample_auth [])"
proof -
  let ?auths = "[(sample_auth [])\<lparr>au_Attributes := [(AttributeWeight, ''0'')]\<rparr>, sample_auth []]"
  let ?r = "WeightedRoundRobin_Pick sample_env False [] ''codex'' ''m'' 5 ?auths \<lparr>wr_states = [], wr_maxKeys = 0\<rparr>"
  have "fst ?r = Inr (sample_auth [])" by code_simp
  then obtain s' where "?r = (Inr (sample_auth []), s')" by (cases ?r) simp
  then show ?thesis using wrr_pick_contract [of sample_env False "[]" "''codex''" "''m''" 5 ?auths
      "\<lparr>wr_states = [], wr_maxKeys = 0\<rparr>"] by simp
qed

text \<open>C16: weighted round-robin is exactly proportional: from fresh accumulators, as many successive picks as
  the weights of the available candidates add up to give each candidate exactly its weight.\<close>

theorem wrr_share_exact:
  assumes "getAvailableAuths env (positiveWeightAuths auths) provider model now = Inr L"
    and "distinct (map au_ID L)" and "length L \<le> 1000000" and "\<forall>a \<in> set L. weight_typed a"
    and "mget (wr_states s) (wrr_key route provider model) = None"
    and "a \<in> set (preferCodexWebsocketAuths ws provider L)"
  shows "let A = preferCodexWebsocketAuths ws provider L; T = nat (total_weight A);
             ps = fst (wrr_picks T env ws route provider model now auths s) in
     length ps = T \<and> int (count_list ps a) = authWeight a"
proof -
  let ?A = "preferCodexWebsocketAuths ws provider L"
  note A = wrr_candidates [OF assms(1-4), of ws]
  obtain ps s' where run: "wrr_picks (nat (total_weight ?A)) env ws route provider model now auths s = (ps, s')"
    by fastforce
  note sv = wrr_picks_serve [OF assms(1) refl A(1-4) fresh_serves [OF assms(5) A(2,4)] run]
  have len: "int (length ps) = total_weight ?A" using sv total_weight_pos [OF A(2)] by simp
  have "balanced ?A ps (sw_current (wrr_state (wrr_key route provider model) s'))"
    using sv by (simp add: serves_def)
  from balanced_period [OF A(1,2) this len assms(6)] show ?thesis using sv by (simp add: run Let_def)
qed

theorem wrr_share_exact_witness:
  "let ps = fst (wrr_picks 3 sample_env False [] ''codex'' ''m'' 5 [heavy, light] sample_selector) in
     length ps = 3 \<and> count_list ps heavy = 2"
proof -
  have d: "distinct (map au_ID [heavy, light])" "length [heavy, light] \<le> 1000000"
    "\<forall>a \<in> set [heavy, light]. weight_typed a" "heavy \<in> set (preferCodexWebsocketAuths False ''codex'' [heavy, light])"
    "mget (wr_states sample_selector) (wrr_key [] ''codex'' ''m'') = None"
    by (simp_all add: wrr_sample)
  show ?thesis using wrr_share_exact [OF wrr_sample(1) d(1-3,5,4)] by (simp add: Let_def wrr_sample)
qed

text \<open>C35: weighted round-robin is smooth: after any number \<open>n\<close> of successive picks no candidate is a full pick
  ahead of its proportional share, and none lags it by more than as many picks as there are other candidates.\<close>

theorem wrr_share_smooth:
  assumes "getAvailableAuths env (positiveWeightAuths auths) provider model now = Inr L"
    and "distinct (map au_ID L)" and "length L \<le> 1000000" and "\<forall>a \<in> set L. weight_typed a"
    and "mget (wr_states s) (wrr_key route provider model) = None"
    and "a \<in> set (preferCodexWebsocketAuths ws provider L)"
  shows "let A = preferCodexWebsocketAuths ws provider L; T = total_weight A;
             picks = int (count_list (fst (wrr_picks n env ws route provider model now auths s)) a) in
     T * picks < int n * authWeight a + T
     \<and> int n * authWeight a \<le> T * picks + (int (length A) - 1) * T"
proof -
  let ?A = "preferCodexWebsocketAuths ws provider L"
  note A = wrr_candidates [OF assms(1-4), of ws]
  obtain ps s' where run: "wrr_picks n env ws route provider model now auths s = (ps, s')" by fastforce
  note sv = wrr_picks_serve [OF assms(1) refl A(1-4) fresh_serves [OF assms(5) A(2,4)] run]
  then have b: "length ps = n" "balanced ?A ps (sw_current (wrr_state (wrr_key route provider model) s'))"
    by (simp_all add: serves_def)
  show ?thesis
    using balanced_ahead [OF b(2) assms(6)] balanced_behind [OF A(1,2) b(2) assms(6)] b(1) by (simp add: run Let_def)
qed

theorem wrr_share_smooth_witness:
  "let picks = int (count_list (fst (wrr_picks 1 sample_env False [] ''codex'' ''m'' 5 [heavy, light] sample_selector)) heavy)
   in 3 * picks < 2 + 3 \<and> 2 \<le> 3 * picks + 3"
proof -
  have d: "distinct (map au_ID [heavy, light])" "length [heavy, light] \<le> 1000000"
    "\<forall>a \<in> set [heavy, light]. weight_typed a" "heavy \<in> set (preferCodexWebsocketAuths False ''codex'' [heavy, light])"
    "mget (wr_states sample_selector) (wrr_key [] ''codex'' ''m'') = None"
    by (simp_all add: wrr_sample)
  show ?thesis using wrr_share_smooth [OF wrr_sample(1) d(1-3,5,4), of 1] by (simp add: Let_def wrr_sample del: wrr_picks.simps)
qed

end
