(* ===== verification/ModelRegistry.thy ===== *)
theory ModelRegistry
  imports AuthData Thinking
begin

text \<open>
  \<open>internal/registry/model_registry.go\<close>: the registry of the models that the registered clients
  (credentials) offer, with a reference count per model and per provider, the transient quota and
  suspension marks, the projection of a credential's state into it, and the cached listing.

  A method under the registry's lock is a function on its state. Cloning a \<open>ModelInfo\<close> is the
  identity on values; a nil map is the empty one; log lines and the asynchronous hook are left out.
  Epochs and generations are counters of Go type \<open>uint64\<close> that never come near their bound.
\<close>

section \<open>State\<close>

record ModelRegistration =
  rg_Info :: ModelInfo
  rg_InfoByProvider :: "(string, ModelInfo) gomap"
  rg_Count :: int
  rg_LastUpdated :: time
  rg_QuotaExceededClients :: "(string, time option) gomap"
  rg_Providers :: "(string, int) gomap"
  rg_SuspendedClients :: "(string, string) gomap"

record availableModelsCacheEntry =
  ce_models :: "goany list"
  ce_expiresAt :: time

record ModelRegistry =
  mr_models :: "(string, ModelRegistration) gomap"
  mr_clientModels :: "(string, string list) gomap"
  mr_clientModelInfos :: "(string, (string, ModelInfo) gomap) gomap"
  mr_clientProviders :: "(string, string) gomap"
  mr_clientEpochs :: "(string, int) gomap"
  mr_clientGenerations :: "(string, int) gomap"
  mr_availableModelsCache :: "(string, availableModelsCacheEntry) gomap"
  mr_generation :: int

definition NewModelRegistry :: ModelRegistry where
  "NewModelRegistry =
     \<lparr>mr_models = [], mr_clientModels = [], mr_clientModelInfos = [], mr_clientProviders = [], mr_clientEpochs = [],
      mr_clientGenerations = [], mr_availableModelsCache = [], mr_generation = 0\<rparr>"

definition modelQuotaExceededWindow :: duration where "modelQuotaExceededWindow = 5 * minute"

definition invalidateAvailableModelsCacheLocked :: "ModelRegistry \<Rightarrow> ModelRegistry" where
  "invalidateAvailableModelsCacheLocked r =
     r\<lparr>mr_generation := mr_generation r + 1, mr_availableModelsCache := []\<rparr>"

section \<open>Registrations of one model\<close>

text \<open>
  \<open>addModelRegistration\<close> and \<open>removeModelRegistration\<close> read and write the entry of one model. They are
  functions on that entry (\<open>None\<close> for none), put into the map by \<open>at\<close>.
\<close>

definition at :: "'k \<Rightarrow> ('v option \<Rightarrow> 'v option) \<Rightarrow> ('k, 'v) gomap \<Rightarrow> ('k, 'v) gomap" where
  "at k f m = (case f (mget m k) of Some v \<Rightarrow> mput k v m | None \<Rightarrow> mdel k m)"

definition addReg :: "string \<Rightarrow> ModelInfo \<Rightarrow> time \<Rightarrow> ModelRegistration option \<Rightarrow> ModelRegistration option" where
  "addReg provider model now entry =
     (case entry of
        Some existing \<Rightarrow>
          Some (existing\<lparr>rg_Count := rg_Count existing + 1, rg_LastUpdated := now, rg_Info := model,
            rg_Providers := (if provider \<noteq> [] then mput provider (mgetd 0 (rg_Providers existing) provider + 1) (rg_Providers existing)
                             else rg_Providers existing),
            rg_InfoByProvider := (if provider \<noteq> [] then mput provider model (rg_InfoByProvider existing)
                                  else rg_InfoByProvider existing)\<rparr>)
      | None \<Rightarrow>
          Some \<lparr>rg_Info = model, rg_InfoByProvider = (if provider \<noteq> [] then [(provider, model)] else []), rg_Count = 1,
            rg_LastUpdated = now, rg_QuotaExceededClients = [],
            rg_Providers = (if provider \<noteq> [] then [(provider, 1)] else []), rg_SuspendedClients = []\<rparr>)"

definition dropProvider :: "string \<Rightarrow> int \<Rightarrow> ModelRegistration \<Rightarrow> ModelRegistration" where
  \<comment> \<open>take \<open>n\<close> from the count of a provider, which goes when nothing is left\<close>
  "dropProvider provider n g =
     (case mget (rg_Providers g) provider of
        None \<Rightarrow> g
      | Some c \<Rightarrow>
          if c \<le> n
          then g\<lparr>rg_Providers := mdel provider (rg_Providers g), rg_InfoByProvider := mdel provider (rg_InfoByProvider g)\<rparr>
          else g\<lparr>rg_Providers := mput provider (c - n) (rg_Providers g)\<rparr>)"

definition forgetClient :: "string \<Rightarrow> ModelRegistration \<Rightarrow> ModelRegistration" where
  "forgetClient clientID g =
     g\<lparr>rg_QuotaExceededClients := mdel clientID (rg_QuotaExceededClients g),
       rg_SuspendedClients := mdel clientID (rg_SuspendedClients g)\<rparr>"

definition removeReg ::
  "string \<Rightarrow> string \<Rightarrow> time \<Rightarrow> ModelRegistration option \<Rightarrow> ModelRegistration option" where
  "removeReg clientID provider now entry =
     (case entry of
        None \<Rightarrow> None
      | Some g \<Rightarrow>
          (let g1 = forgetClient clientID (g\<lparr>rg_Count := max 0 (rg_Count g - 1), rg_LastUpdated := now\<rparr>);
               g2 = (if provider \<noteq> [] then dropProvider provider 1 g1 else g1)
           in if rg_Count g2 \<le> 0 then None else Some g2))"

definition addModelRegistration ::
  "string \<Rightarrow> string \<Rightarrow> ModelInfo \<Rightarrow> time \<Rightarrow> (string, ModelRegistration) gomap \<Rightarrow> (string, ModelRegistration) gomap" where
  "addModelRegistration modelID provider model now models =
     (if modelID = [] then models else at modelID (addReg provider model now) models)"

definition removeModelRegistration ::
  "string \<Rightarrow> string \<Rightarrow> string \<Rightarrow> time \<Rightarrow> (string, ModelRegistration) gomap \<Rightarrow> (string, ModelRegistration) gomap" where
  "removeModelRegistration clientID modelID provider now models = at modelID (removeReg clientID provider now) models"

section \<open>\<open>UnregisterClient\<close>\<close>

definition unregisterReg ::
  "string \<Rightarrow> string option \<Rightarrow> time \<Rightarrow> ModelRegistration option \<Rightarrow> ModelRegistration option" where
  "unregisterReg clientID provider now entry =
     (case entry of
        None \<Rightarrow> None
      | Some g \<Rightarrow>
          (let g1 = forgetClient clientID (g\<lparr>rg_Count := rg_Count g - 1, rg_LastUpdated := now\<rparr>);
               g2 = (case provider of Some p \<Rightarrow> dropProvider p 1 g1 | None \<Rightarrow> g1)
           in if rg_Count g2 \<le> 0 then None else Some g2))"

definition bump :: "string \<Rightarrow> (string, int) gomap \<Rightarrow> (string, int) gomap" where
  "bump k m = mput k (mgetd 0 m k + 1) m"

definition unregisterClientInternal :: "string \<Rightarrow> time \<Rightarrow> ModelRegistry \<Rightarrow> ModelRegistry" where
  "unregisterClientInternal clientID now r0 =
     (let r = r0\<lparr>mr_clientEpochs := bump clientID (mr_clientEpochs r0),
                  mr_clientGenerations := bump clientID (mr_clientGenerations r0)\<rparr>;
          provider = mget (mr_clientProviders r) clientID
      in case mget (mr_clientModels r) clientID of
          None \<Rightarrow> r\<lparr>mr_clientProviders := mdel clientID (mr_clientProviders r)\<rparr>
        | Some models \<Rightarrow>
            r\<lparr>mr_models := fold (\<lambda>modelID. at modelID (unregisterReg clientID provider now)) models (mr_models r),
              mr_clientModels := mdel clientID (mr_clientModels r),
              mr_clientModelInfos := mdel clientID (mr_clientModelInfos r),
              mr_clientProviders := mdel clientID (mr_clientProviders r)\<rparr>)"

definition UnregisterClient :: "string \<Rightarrow> time \<Rightarrow> ModelRegistry \<Rightarrow> ModelRegistry" where
  "UnregisterClient clientID now r = invalidateAvailableModelsCacheLocked (unregisterClientInternal clientID now r)"

section \<open>\<open>RegisterClient\<close>\<close>

text \<open>
  The counts of a client's old and new models are those of its lists of IDs, in which a model may
  occur more than once.
\<close>

definition rawModelIDs :: "ModelInfo option list \<Rightarrow> string list" where
  "rawModelIDs models = map mi_ID (filter (\<lambda>m. mi_ID m \<noteq> []) (List.map_filter id models))"

definition newModelInfos :: "ModelInfo option list \<Rightarrow> (string, ModelInfo) gomap" where
  \<comment> \<open>\<open>newModels\<close>: the first description of each ID, in the order of \<open>uniqueModelIDs\<close>\<close>
  "newModelInfos models =
     fold (\<lambda>m infos. if mget infos (mi_ID m) = None then infos @ [(mi_ID m, m)] else infos)
       (filter (\<lambda>m. mi_ID m \<noteq> []) (List.map_filter id models)) []"

abbreviation occurrences :: "string list \<Rightarrow> string \<Rightarrow> nat" where
  "occurrences \<equiv> count_list"

definition moveProvider :: "string \<Rightarrow> nat \<Rightarrow> nat \<Rightarrow> ModelRegistration option \<Rightarrow> ModelRegistration option" where
  \<comment> \<open>a changed provider no longer counts the models the client keeps\<close>
  "moveProvider oldProvider oldCount newCount entry =
     (if newCount = 0 \<or> oldCount = 0 then entry
      else map_option (dropProvider oldProvider (int (min newCount oldCount))) entry)"

definition refreshReg ::
  "string \<Rightarrow> string \<Rightarrow> bool \<Rightarrow> nat \<Rightarrow> nat \<Rightarrow> ModelInfo \<Rightarrow> time \<Rightarrow> ModelRegistration option \<Rightarrow> ModelRegistration option" where
  \<comment> \<open>the metadata of a model the client offers now\<close>
  "refreshReg clientID provider providerChanged oldCount newCount model now entry =
     (case entry of
        None \<Rightarrow> None
      | Some g \<Rightarrow>
          (let g1 = forgetClient clientID
                (g\<lparr>rg_Info := model, rg_LastUpdated := now,
                   rg_InfoByProvider := (if provider \<noteq> [] then mput provider model (rg_InfoByProvider g)
                                         else rg_InfoByProvider g)\<rparr>);
               overlapCount = int (min newCount oldCount)
           in Some (if providerChanged \<and> provider \<noteq> [] \<and> oldCount \<noteq> 0 \<and> overlapCount > 0
                    then g1\<lparr>rg_Providers := mput provider (mgetd 0 (rg_Providers g1) provider + overlapCount) (rg_Providers g1)\<rparr>
                    else g1)))"

text \<open>The models of a client that has some already, one after the other: what it keeps moves to the new
  provider, what it gives up is removed, what it adds is added, and the rest is refreshed.\<close>

definition reconcile ::
  "string \<Rightarrow> string \<Rightarrow> string \<Rightarrow> string list \<Rightarrow> string list \<Rightarrow> (string, ModelInfo) gomap \<Rightarrow> time
     \<Rightarrow> (string, ModelRegistration) gomap \<Rightarrow> (string, ModelRegistration) gomap" where
  "reconcile clientID oldProvider provider oldIDs newIDs infos now models0 =
     (let unique = map fst infos;
          old = occurrences oldIDs; new = occurrences newIDs;
          providerChanged = (oldProvider \<noteq> provider);
          models1 = (if providerChanged \<and> oldProvider \<noteq> []
                     then fold (\<lambda>i. at i (moveProvider oldProvider (old i) (new i))) unique models0 else models0);
          models2 = fold (\<lambda>i. (if new i = 0 then removeModelRegistration clientID i oldProvider now else (\<lambda>m. m)) ^^ old i)
                      (remdups oldIDs) models1;
          models3 = fold (\<lambda>i. if new i = 0 then (\<lambda>m. m)
                              else removeModelRegistration clientID i oldProvider now ^^ (old i - new i))
                      (remdups oldIDs) models2;
          models4 = fold (\<lambda>(i, info). addModelRegistration i provider info now ^^ (new i - old i)) infos models3
      in fold (\<lambda>(i, info). at i (refreshReg clientID provider providerChanged (old i) (new i) info now)) infos models4)"

definition RegisterClient :: "string \<Rightarrow> string \<Rightarrow> ModelInfo option list \<Rightarrow> time \<Rightarrow> ModelRegistry \<Rightarrow> ModelRegistry" where
  "RegisterClient clientID clientProvider models now r0 =
     (let provider = ToLower clientProvider;
          raw = rawModelIDs models;
          infos = newModelInfos models
      in if raw = [] then
           (let r1 = unregisterClientInternal clientID now r0 in
            invalidateAvailableModelsCacheLocked
              (r1\<lparr>mr_clientModels := mdel clientID (mr_clientModels r1),
                  mr_clientModelInfos := mdel clientID (mr_clientModelInfos r1),
                  mr_clientProviders := mdel clientID (mr_clientProviders r1)\<rparr>))
         else
           (let r = r0\<lparr>mr_clientEpochs := bump clientID (mr_clientEpochs r0),
                        mr_clientGenerations := mput clientID 0 (mr_clientGenerations r0)\<rparr>;
                models' = (case mget (mr_clientModels r) clientID of
                    None \<Rightarrow>
                      fold (\<lambda>i. addModelRegistration i provider (mgetd zeroModelInfo infos i) now) raw (mr_models r)
                  | Some oldIDs \<Rightarrow>
                      reconcile clientID (mgetd [] (mr_clientProviders r) clientID) provider oldIDs raw infos now
                        (mr_models r))
            in invalidateAvailableModelsCacheLocked
                 (r\<lparr>mr_models := models',
                    mr_clientModels := mput clientID raw (mr_clientModels r),
                    mr_clientModelInfos := mput clientID infos (mr_clientModelInfos r),
                    mr_clientProviders := (if provider \<noteq> [] then mput clientID provider (mr_clientProviders r)
                                           else mdel clientID (mr_clientProviders r))\<rparr>)))"

section \<open>Quota and suspension marks\<close>

definition SetModelQuotaExceeded :: "string \<Rightarrow> string \<Rightarrow> time \<Rightarrow> ModelRegistry \<Rightarrow> ModelRegistry" where
  "SetModelQuotaExceeded clientID modelID now r =
     (case mget (mr_models r) modelID of
        None \<Rightarrow> r
      | Some g \<Rightarrow> invalidateAvailableModelsCacheLocked
          (r\<lparr>mr_models := mput modelID
             (g\<lparr>rg_QuotaExceededClients := mput clientID (Some now) (rg_QuotaExceededClients g)\<rparr>) (mr_models r)\<rparr>))"

definition ClearModelQuotaExceeded :: "string \<Rightarrow> string \<Rightarrow> ModelRegistry \<Rightarrow> ModelRegistry" where
  "ClearModelQuotaExceeded clientID modelID r =
     (case mget (mr_models r) modelID of
        None \<Rightarrow> r
      | Some g \<Rightarrow> invalidateAvailableModelsCacheLocked
          (r\<lparr>mr_models := mput modelID
             (g\<lparr>rg_QuotaExceededClients := mdel clientID (rg_QuotaExceededClients g)\<rparr>) (mr_models r)\<rparr>))"

definition SuspendClientModel :: "string \<Rightarrow> string \<Rightarrow> string \<Rightarrow> time \<Rightarrow> ModelRegistry \<Rightarrow> ModelRegistry" where
  "SuspendClientModel clientID modelID reason now r =
     (if clientID = [] \<or> modelID = [] then r
      else case mget (mr_models r) modelID of
          None \<Rightarrow> r
        | Some g \<Rightarrow>
            if mget (rg_SuspendedClients g) clientID \<noteq> None then r
            else invalidateAvailableModelsCacheLocked
              (r\<lparr>mr_models := mput modelID
                 (g\<lparr>rg_SuspendedClients := mput clientID reason (rg_SuspendedClients g), rg_LastUpdated := now\<rparr>)
                 (mr_models r)\<rparr>))"

definition ResumeClientModel :: "string \<Rightarrow> string \<Rightarrow> time \<Rightarrow> ModelRegistry \<Rightarrow> ModelRegistry" where
  "ResumeClientModel clientID modelID now r =
     (if clientID = [] \<or> modelID = [] then r
      else case mget (mr_models r) modelID of
          None \<Rightarrow> r
        | Some g \<Rightarrow>
            if mget (rg_SuspendedClients g) clientID = None then r
            else invalidateAvailableModelsCacheLocked
              (r\<lparr>mr_models := mput modelID
                 (g\<lparr>rg_SuspendedClients := mdel clientID (rg_SuspendedClients g), rg_LastUpdated := now\<rparr>)
                 (mr_models r)\<rparr>))"

definition ClientSupportsModel :: "string \<Rightarrow> string \<Rightarrow> ModelRegistry \<Rightarrow> bool" where
  "ClientSupportsModel clientID0 modelID0 r =
     (let clientID = TrimSpace clientID0; modelID = TrimSpace modelID0 in
      if clientID = [] \<or> modelID = [] then False
      else list_ex (\<lambda>i. EqualFold (TrimSpace i) modelID) (mgetd [] (mr_clientModels r) clientID))"

definition IsModelSuspendedForClient :: "string \<Rightarrow> string \<Rightarrow> ModelRegistry \<Rightarrow> bool" where
  "IsModelSuspendedForClient clientID0 modelID0 r =
     (let clientID = TrimSpace clientID0; modelID = TrimSpace modelID0 in
      if clientID = [] \<or> modelID = [] then False
      else case mget (mr_models r) modelID of
          None \<Rightarrow> False
        | Some g \<Rightarrow> mget (rg_SuspendedClients g) clientID \<noteq> None)"

definition IsModelQuotaExceededForClient :: "string \<Rightarrow> string \<Rightarrow> ModelRegistry \<Rightarrow> bool" where
  "IsModelQuotaExceededForClient clientID0 modelID0 r =
     (let clientID = TrimSpace clientID0; modelID = TrimSpace modelID0 in
      if clientID = [] \<or> modelID = [] then False
      else case mget (mr_models r) modelID of
          None \<Rightarrow> False
        | Some g \<Rightarrow> mget (rg_QuotaExceededClients g) clientID \<noteq> None)"

definition quotaOpen :: "time \<Rightarrow> string \<times> time option \<Rightarrow> bool" where
  \<comment> \<open>a quota mark whose recovery is still ahead\<close>
  "quotaOpen now e = (case snd e of Some t \<Rightarrow> now - t < modelQuotaExceededWindow | None \<Rightarrow> False)"

definition CleanupExpiredQuotas :: "time \<Rightarrow> ModelRegistry \<Rightarrow> ModelRegistry" where
  "CleanupExpiredQuotas now r =
     (let expired = (\<lambda>e. case snd e of Some t \<Rightarrow> now - t \<ge> modelQuotaExceededWindow | None \<Rightarrow> False);
          clean = (\<lambda>g. g\<lparr>rg_QuotaExceededClients := filter (\<lambda>e. \<not> expired e) (rg_QuotaExceededClients g)\<rparr>);
          r' = r\<lparr>mr_models := map (\<lambda>(k, g). (k, clean g)) (mr_models r)\<rparr>
      in if list_ex (\<lambda>(k, g). list_ex expired (rg_QuotaExceededClients g)) (mr_models r)
         then invalidateAvailableModelsCacheLocked r' else r')"

section \<open>Projections of a credential's state\<close>

record ClientModelProjection =
  pj_ModelID :: string
  pj_Suspended :: bool
  pj_SuspendReason :: string
  pj_QuotaExceeded :: bool

definition projectSuspended ::
  "string \<Rightarrow> ClientModelProjection \<Rightarrow> time \<Rightarrow> ModelRegistration \<Rightarrow> ModelRegistration \<times> bool" where
  "projectSuspended clientID proj now g =
     (let current = mget (rg_SuspendedClients g) clientID in
      if pj_Suspended proj then
        (if current \<noteq> Some (pj_SuspendReason proj)
         then (g\<lparr>rg_SuspendedClients := mput clientID (pj_SuspendReason proj) (rg_SuspendedClients g), rg_LastUpdated := now\<rparr>, True)
         else (g, False))
      else if current \<noteq> None
      then (g\<lparr>rg_SuspendedClients := mdel clientID (rg_SuspendedClients g), rg_LastUpdated := now\<rparr>, True)
      else (g, False))"

definition projectQuota ::
  "string \<Rightarrow> ClientModelProjection \<Rightarrow> time \<Rightarrow> ModelRegistration \<Rightarrow> ModelRegistration \<times> bool" where
  "projectQuota clientID proj now g =
     (let marked = (mget (rg_QuotaExceededClients g) clientID \<noteq> None) in
      if pj_QuotaExceeded proj \<and> \<not> marked
      then (g\<lparr>rg_QuotaExceededClients := mput clientID (Some now) (rg_QuotaExceededClients g), rg_LastUpdated := now\<rparr>, True)
      else if \<not> pj_QuotaExceeded proj \<and> marked
      then (g\<lparr>rg_QuotaExceededClients := mdel clientID (rg_QuotaExceededClients g), rg_LastUpdated := now\<rparr>, True)
      else (g, False))"

definition projectModel ::
  "string \<Rightarrow> string set \<Rightarrow> time \<Rightarrow> ClientModelProjection
     \<Rightarrow> (string, ModelRegistration) gomap \<times> bool \<Rightarrow> (string, ModelRegistration) gomap \<times> bool" where
  "projectModel clientID owned now proj acc =
     (let modelID = TrimSpace (pj_ModelID proj); models = fst acc in
      if modelID = [] \<or> modelID \<notin> owned then acc
      else case mget models modelID of
          None \<Rightarrow> acc
        | Some g \<Rightarrow>
            (case projectSuspended clientID proj now g of (g1, c1) \<Rightarrow>
             case projectQuota clientID proj now g1 of (g2, c2) \<Rightarrow>
               (mput modelID g2 models, snd acc \<or> c1 \<or> c2)))"

definition ApplyClientModelProjections ::
  "string \<Rightarrow> int \<Rightarrow> int \<Rightarrow> ClientModelProjection list \<Rightarrow> time \<Rightarrow> ModelRegistry \<Rightarrow> ModelRegistry \<times> bool" where
  "ApplyClientModelProjections clientID0 epoch generation projections now r =
     (let clientID = TrimSpace clientID0;
          registered = mgetd [] (mr_clientModels r) clientID;
          owned = set (filter (\<lambda>m. m \<noteq> []) (map TrimSpace registered));
          valid = list_ex (\<lambda>proj. let i = TrimSpace (pj_ModelID proj) in
             i \<noteq> [] \<and> i \<in> owned \<and> mget (mr_models r) i \<noteq> None) projections
      in if clientID = [] then (r, False)
         else if registered = [] then (r, False)
         else if epoch \<noteq> mgetd 0 (mr_clientEpochs r) clientID then (r, False)
         else if generation < mgetd 0 (mr_clientGenerations r) clientID then (r, False)
         else if \<not> valid then (r, False)
         else (case fold (projectModel clientID owned now) projections (mr_models r, False) of (models, changed) \<Rightarrow>
           (let r' = r\<lparr>mr_clientGenerations := mput clientID generation (mr_clientGenerations r), mr_models := models\<rparr>
            in (if changed then invalidateAvailableModelsCacheLocked r' else r', True))))"

section \<open>Listings\<close>

definition quotaRecovery :: "time \<Rightarrow> string \<times> time option \<Rightarrow> nat \<times> time \<Rightarrow> nat \<times> time" where
  "quotaRecovery now e acc =
     (case (snd e, acc) of
        (None, _) \<Rightarrow> acc
      | (Some quotaTime, expiredClients, expiresAt) \<Rightarrow>
          (let recoveryAt = quotaTime + modelQuotaExceededWindow in
           if Before now recoveryAt
           then (expiredClients + 1, if IsZero expiresAt \<or> Before recoveryAt expiresAt then recoveryAt else expiresAt)
           else acc))"

definition modelRegistrationAvailability :: "ModelRegistration \<Rightarrow> time \<Rightarrow> bool \<times> time" where
  "modelRegistrationAvailability g now =
     (case fold (quotaRecovery now) (rg_QuotaExceededClients g) (0, 0) of (expired, expiresAt) \<Rightarrow>
      (let availableClients = rg_Count g;
           cooldownSuspended = length (filter (\<lambda>(c, reason). EqualFold reason ''quota'') (rg_SuspendedClients g));
           otherSuspended = length (filter (\<lambda>(c, reason). \<not> EqualFold reason ''quota'') (rg_SuspendedClients g));
           effectiveClients = max 0 (availableClients - int expired - int otherSuspended)
       in (effectiveClients > 0 \<or> (availableClients > 0 \<and> (expired > 0 \<or> cooldownSuspended > 0) \<and> otherSuspended = 0),
           expiresAt)))"

definition GetAvailableModelInfos :: "ModelRegistry \<Rightarrow> time \<Rightarrow> ModelInfo list" where
  "GetAvailableModelInfos r now =
     sort_key (\<lambda>m. TrimSpace (mi_ID m))
       (map (\<lambda>(k, g). rg_Info g) (filter (\<lambda>(k, g). fst (modelRegistrationAvailability g now)) (mr_models r)))"

definition GetModelCount :: "string \<Rightarrow> time \<Rightarrow> ModelRegistry \<Rightarrow> int" where
  "GetModelCount modelID now r =
     (case mget (mr_models r) modelID of
        None \<Rightarrow> 0
      | Some g \<Rightarrow>
          max 0 (rg_Count g - int (length (filter (quotaOpen now) (rg_QuotaExceededClients g)))
                 - int (length (rg_SuspendedClients g))))"

definition GetModelProviders :: "string \<Rightarrow> ModelRegistry \<Rightarrow> string list" where
  "GetModelProviders modelID r =
     (case mget (mr_models r) modelID of
        None \<Rightarrow> []
      | Some g \<Rightarrow>
          map fst (sort_key (\<lambda>(name, n). - n) (sort_key fst (filter (\<lambda>(name, n). n > 0) (rg_Providers g)))))"

definition GetModelInfo :: "string \<Rightarrow> string \<Rightarrow> ModelRegistry \<Rightarrow> ModelInfo option" where
  "GetModelInfo modelID provider r =
     (case mget (mr_models r) modelID of
        None \<Rightarrow> None
      | Some g \<Rightarrow>
          (if provider \<noteq> [] \<and> mgetd 0 (rg_Providers g) provider > 0
           then (case mget (rg_InfoByProvider g) provider of Some info \<Rightarrow> Some info | None \<Rightarrow> Some (rg_Info g))
           else Some (rg_Info g)))"

definition GetModelsAndEpochForClient :: "string \<Rightarrow> ModelRegistry \<Rightarrow> ModelInfo list \<times> int" where
  "GetModelsAndEpochForClient clientID r =
     (let infos = mgetd [] (mr_clientModelInfos r) clientID in
      (List.map_filter (\<lambda>i. case mget infos i of
            Some info \<Rightarrow> Some info
          | None \<Rightarrow> map_option rg_Info (mget (mr_models r) i))
         (rev (remdups (rev (mgetd [] (mr_clientModels r) clientID)))),
       mgetd 0 (mr_clientEpochs r) clientID))"

definition ClientRegistrationEpoch :: "string \<Rightarrow> ModelRegistry \<Rightarrow> int" where
  "ClientRegistrationEpoch clientID r = mgetd 0 (mr_clientEpochs r) clientID"

definition GetModelsForClient :: "string \<Rightarrow> ModelRegistry \<Rightarrow> ModelInfo list" where
  "GetModelsForClient clientID r = fst (GetModelsAndEpochForClient clientID r)"

definition LookupStaticModelInfo :: "ModelInfo option list list \<Rightarrow> string \<Rightarrow> ModelInfo option" where
  \<comment> \<open>the catalogue of \<open>models.json\<close>, one list per family of models, is a parameter\<close>
  "LookupStaticModelInfo catalogue modelID =
     (if modelID = [] then None
      else find (\<lambda>m. mi_ID m = modelID) (List.map_filter id (concat catalogue)))"

definition LookupModelInfo ::
  "ModelInfo option list list \<Rightarrow> string \<Rightarrow> string \<Rightarrow> ModelRegistry \<Rightarrow> ModelInfo option" where
  "LookupModelInfo catalogue modelID0 provider r =
     (let modelID = TrimSpace modelID0 in
      if modelID = [] then None
      else case GetModelInfo modelID (ToLower (TrimSpace provider)) r of
          Some info \<Rightarrow> Some info
        | None \<Rightarrow> LookupStaticModelInfo catalogue modelID)"

definition ModelOverrideHeaders ::
  "ModelInfo option list list \<Rightarrow> string \<Rightarrow> string \<Rightarrow> ModelRegistry \<Rightarrow> (string, string) gomap option" where
  "ModelOverrideHeaders catalogue modelID provider r =
     (case LookupModelInfo catalogue modelID provider r of
        None \<Rightarrow> None
      | Some info \<Rightarrow>
          (case mi_Config info of
             None \<Rightarrow> None
           | Some config \<Rightarrow>
               (let out = fold (\<lambda>(key, v) m. if TrimSpace key = [] then m else mput (TrimSpace key) v m)
                            (mc_OverrideHeader config) []
                in if out = [] then None else Some out)))"

text \<open>The models of one provider: how many of its clients offer each, and a description of it.\<close>

definition offer ::
  "ModelRegistry \<Rightarrow> (string, ModelInfo) gomap \<Rightarrow> string \<Rightarrow> (string, nat \<times> ModelInfo option) gomap
     \<Rightarrow> (string, nat \<times> ModelInfo option) gomap" where
  "offer r clientInfos modelID0 acc =
     (let modelID = TrimSpace modelID0 in
      if modelID = [] then acc
      else (case mgetd (0, None) acc modelID of (n, info) \<Rightarrow>
        mput modelID
          (Suc n, case info of Some i \<Rightarrow> Some i
                  | None \<Rightarrow> (case mget clientInfos modelID of Some i \<Rightarrow> Some i
                           | None \<Rightarrow> map_option rg_Info (mget (mr_models r) modelID)))
          acc))"

definition providerModels :: "string \<Rightarrow> ModelRegistry \<Rightarrow> (string, nat \<times> ModelInfo option) gomap" where
  "providerModels provider r =
     fold (\<lambda>(clientID, p) acc.
             if p \<noteq> provider then acc
             else fold (offer r (mgetd [] (mr_clientModelInfos r) clientID)) (mgetd [] (mr_clientModels r) clientID) acc)
       (mr_clientProviders r) []"

definition ofProvider :: "string \<Rightarrow> ModelRegistry \<Rightarrow> string \<times> 'a \<Rightarrow> bool" where
  "ofProvider provider r e \<longleftrightarrow> fst e \<noteq> [] \<and> mget (mr_clientProviders r) (fst e) = Some provider"

definition providerModelAvailable :: "string \<Rightarrow> time \<Rightarrow> ModelRegistry \<Rightarrow> string \<Rightarrow> nat \<Rightarrow> bool" where
  "providerModelAvailable provider now r modelID availableClients =
     (case mget (mr_models r) modelID of
        None \<Rightarrow> availableClients > 0
      | Some g \<Rightarrow>
          (let expired = length (filter (\<lambda>e. ofProvider provider r e \<and> quotaOpen now e) (rg_QuotaExceededClients g));
               suspended = filter (ofProvider provider r) (rg_SuspendedClients g);
               cooldownSuspended = length (filter (\<lambda>(c, reason). EqualFold reason ''quota'') suspended);
               otherSuspended = length (filter (\<lambda>(c, reason). \<not> EqualFold reason ''quota'') suspended);
               effectiveClients = max 0 (int availableClients - int expired - int otherSuspended)
           in effectiveClients > 0
              \<or> (availableClients > 0 \<and> (expired > 0 \<or> cooldownSuspended > 0) \<and> otherSuspended = 0)))"

definition GetAvailableModelsByProvider :: "string \<Rightarrow> time \<Rightarrow> ModelRegistry \<Rightarrow> ModelInfo list" where
  "GetAvailableModelsByProvider provider0 now r =
     (let provider = ToLower (TrimSpace provider0) in
      if provider = [] then []
      else List.map_filter (\<lambda>(modelID, n, info).
             if n > 0 \<and> providerModelAvailable provider now r modelID n
             then (case info of Some i \<Rightarrow> Some i | None \<Rightarrow> map_option rg_Info (mget (mr_models r) modelID))
             else None) (providerModels provider r))"

section \<open>The cached listing of a handler\<close>

abbreviation field :: "bool \<Rightarrow> string \<Rightarrow> goany \<Rightarrow> (string \<times> goany) list" where
  \<comment> \<open>an entry that is written under a condition\<close>
  "field c key v \<equiv> (if c then [(key, v)] else [])"

definition openaiModelMap :: "ModelInfo \<Rightarrow> (string \<times> goany) list" where
  "openaiModelMap m =
     [(''id'', AnyString (mi_ID m)), (''object'', AnyString ''model''), (''owned_by'', AnyString (mi_OwnedBy m))]
     @ field (mi_Created m > 0) ''created'' (AnyInt KInt64 (mi_Created m))
     @ field (mi_Type m \<noteq> []) ''type'' (AnyString (mi_Type m))
     @ field (mi_DisplayName m \<noteq> []) ''display_name'' (AnyString (mi_DisplayName m))
     @ field (mi_Version m \<noteq> []) ''version'' (AnyString (mi_Version m))
     @ field (mi_Description m \<noteq> []) ''description'' (AnyString (mi_Description m))
     @ field (mi_ContextLength m > 0) ''context_length'' (AnyInt KInt (mi_ContextLength m))
     @ field (mi_MaxContextLength m > 0) ''max_context_length'' (AnyInt KInt (mi_MaxContextLength m))
     @ field (mi_MaxCompletionTokens m > 0) ''max_completion_tokens'' (AnyInt KInt (mi_MaxCompletionTokens m))
     @ field (mi_SupportedParameters m \<noteq> []) ''supported_parameters'' (AnyStrings (mi_SupportedParameters m))"

definition claudeModelMap :: "(int \<Rightarrow> string) \<Rightarrow> ModelInfo \<Rightarrow> (string \<times> goany) list" where
  "claudeModelMap rfc3339 m =
     [(''id'', AnyString (mi_ID m)), (''object'', AnyString ''model''), (''owned_by'', AnyString (mi_OwnedBy m))]
     @ field (mi_Created m > 0) ''created_at'' (AnyString (rfc3339 (mi_Created m)))
     @ [(''type'', AnyString ''model''),
        (''display_name'', AnyString (if mi_DisplayName m \<noteq> [] then mi_DisplayName m else mi_ID m)),
        (''max_input_tokens'', AnyInt KInt (if mi_ContextLength m \<le> 0 then 200000 else mi_ContextLength m)),
        (''max_tokens'', AnyInt KInt (if mi_MaxCompletionTokens m \<le> 0 then 64000 else mi_MaxCompletionTokens m))]"

definition geminiModelMap :: "ModelInfo \<Rightarrow> (string \<times> goany) list" where
  "geminiModelMap m =
     [(''name'', AnyString (if mi_Name m \<noteq> [] then mi_Name m else mi_ID m))]
     @ field (mi_Version m \<noteq> []) ''version'' (AnyString (mi_Version m))
     @ field (mi_DisplayName m \<noteq> []) ''displayName'' (AnyString (mi_DisplayName m))
     @ field (mi_Description m \<noteq> []) ''description'' (AnyString (mi_Description m))
     @ field (mi_InputTokenLimit m > 0) ''inputTokenLimit'' (AnyInt KInt (mi_InputTokenLimit m))
     @ field (mi_OutputTokenLimit m > 0) ''outputTokenLimit'' (AnyInt KInt (mi_OutputTokenLimit m))
     @ field (mi_SupportedGenerationMethods m \<noteq> []) ''supportedGenerationMethods''
         (AnyStrings (mi_SupportedGenerationMethods m))
     @ field (mi_SupportedInputModalities m \<noteq> []) ''supportedInputModalities'' (AnyStrings (mi_SupportedInputModalities m))
     @ field (mi_SupportedOutputModalities m \<noteq> []) ''supportedOutputModalities''
         (AnyStrings (mi_SupportedOutputModalities m))"

definition convertModelToMap :: "(int \<Rightarrow> string) \<Rightarrow> ModelInfo \<Rightarrow> string \<Rightarrow> goany" where
  \<comment> \<open>\<open>rfc3339\<close> is \<open>time.Unix(s, 0).UTC().Format(time.RFC3339)\<close> of the standard library\<close>
  "convertModelToMap rfc3339 m handlerType =
     AnyMap (if handlerType = ''openai'' then openaiModelMap m
             else if handlerType = ''claude'' then claudeModelMap rfc3339 m
             else if handlerType = ''gemini'' then geminiModelMap m
             else [(''id'', AnyString (mi_ID m)), (''object'', AnyString ''model'')]
                  @ field (mi_OwnedBy m \<noteq> []) ''owned_by'' (AnyString (mi_OwnedBy m))
                  @ field (mi_Type m \<noteq> []) ''type'' (AnyString (mi_Type m))
                  @ field (mi_Created m \<noteq> 0) ''created'' (AnyInt KInt64 (mi_Created m)))"

definition build_step ::
  "(int \<Rightarrow> string) \<Rightarrow> string \<Rightarrow> time \<Rightarrow> string \<times> ModelRegistration \<Rightarrow> goany list \<times> time \<Rightarrow> goany list \<times> time" where
  "build_step rfc3339 handlerType now e acc =
     (case modelRegistrationAvailability (snd e) now of (available, registrationExpiresAt) \<Rightarrow>
      (if available then fst acc @ [convertModelToMap rfc3339 (rg_Info (snd e)) handlerType] else fst acc,
       if \<not> IsZero registrationExpiresAt \<and> (IsZero (snd acc) \<or> Before registrationExpiresAt (snd acc))
       then registrationExpiresAt else snd acc))"

definition buildAvailableModelsLocked ::
  "(int \<Rightarrow> string) \<Rightarrow> string \<Rightarrow> time \<Rightarrow> ModelRegistry \<Rightarrow> goany list \<times> time" where
  "buildAvailableModelsLocked rfc3339 handlerType now r = fold (build_step rfc3339 handlerType now) (mr_models r) ([], 0)"

definition GetAvailableModels ::
  "(int \<Rightarrow> string) \<Rightarrow> string \<Rightarrow> time \<Rightarrow> ModelRegistry \<Rightarrow> goany list \<times> ModelRegistry" where
  "GetAvailableModels rfc3339 handlerType now r =
     (case (case mget (mr_availableModelsCache r) handlerType of
              Some cache \<Rightarrow> if IsZero (ce_expiresAt cache) \<or> Before now (ce_expiresAt cache) then Some cache else None
            | None \<Rightarrow> None) of
        Some cache \<Rightarrow> (ce_models cache, r)
      | None \<Rightarrow>
          (case buildAvailableModelsLocked rfc3339 handlerType now r of (models, expiresAt) \<Rightarrow>
            (models, r\<lparr>mr_availableModelsCache :=
               mput handlerType \<lparr>ce_models = models, ce_expiresAt = expiresAt\<rparr> (mr_availableModelsCache r)\<rparr>)))"

end
