(* ===== verification/RegistryCounts.thy ===== *)
theory RegistryCounts
  imports ModelRegistry
begin

text \<open>
  The reference counts of the model registry: at every moment the entry of a model counts the places
  it has in the lists of the registered clients, in total and per provider, and there is no entry
  exactly when no client offers the model.
\<close>

section \<open>The counts of one entry\<close>

definition entry_ok :: "int \<Rightarrow> (string \<Rightarrow> int) \<Rightarrow> ModelRegistration option \<Rightarrow> bool" where
  "entry_ok tot by e =
     (case e of
        None \<Rightarrow> tot = 0
      | Some g \<Rightarrow> tot > 0 \<and> rg_Count g = tot \<and> mwf (rg_Providers g)
          \<and> (\<forall>p. mget (rg_Providers g) p = (if p \<noteq> [] \<and> by p > 0 then Some (by p) else None)))"

abbreviation within :: "int \<Rightarrow> (string \<Rightarrow> int) \<Rightarrow> bool" where
  "within tot by \<equiv> (\<forall>p. p \<noteq> [] \<longrightarrow> 0 \<le> by p \<and> by p \<le> tot)"

lemma addReg_ok:
  assumes "entry_ok tot by e" and "within tot by"
  shows "entry_ok (tot + 1) (by(p := by p + 1)) (addReg p m now e)"
proof (cases e)
  case None
  then have "tot = 0" using assms(1) by (simp add: entry_ok_def)
  then have "by q = 0" if "q \<noteq> []" for q using assms(2) that by (metis order_antisym)
  then show ?thesis using None \<open>tot = 0\<close> by (auto simp: entry_ok_def addReg_def mget_def)
next
  case (Some g)
  have g: "tot > 0" "rg_Count g = tot" "mwf (rg_Providers g)"
    "\<And>q. mget (rg_Providers g) q = (if q \<noteq> [] \<and> by q > 0 then Some (by q) else None)"
    using assms(1) by (auto simp: entry_ok_def Some)
  have p: "mgetd 0 (rg_Providers g) p = by p" if "p \<noteq> []"
    using g(4) [of p] assms(2) [rule_format, of p] that by (simp add: mgetd_def)
  have "p \<noteq> [] \<Longrightarrow> 0 < by p + 1" using assms(2) [rule_format, of p] by simp
  then show ?thesis using g p by (simp add: entry_ok_def addReg_def Some go_map inv_intro)
qed

lemma dropProvider_ok:
  assumes "entry_ok tot by (Some g)" and "p \<noteq> []" and "0 < k" and "k \<le> by p"
  shows "entry_ok tot (by(p := by p - k)) (Some (dropProvider p k g))"
  using assms by (auto simp: entry_ok_def dropProvider_def go_map inv_intro)

lemma forgetClient_ok: "entry_ok tot by (Some (forgetClient c g)) = entry_ok tot by (Some g)"
  by (simp add: entry_ok_def forgetClient_def)

lemma removeReg_ok:
  assumes "entry_ok tot by e" and "1 \<le> tot" and "p \<noteq> [] \<longrightarrow> 1 \<le> by p"
  shows "entry_ok (tot - 1) (by(p := by p - 1)) (removeReg c p now e)"
proof -
  obtain g where e: "e = Some g" using assms(1,2) by (cases e) (auto simp: entry_ok_def)
  let ?g1 = "forgetClient c (g\<lparr>rg_Count := max 0 (rg_Count g - 1), rg_LastUpdated := now\<rparr>)"
  let ?g2 = "if p \<noteq> [] then dropProvider p 1 ?g1 else ?g1"
  have cnt: "rg_Count ?g2 = tot - 1"
    using assms(1,2) by (auto simp: e entry_ok_def dropProvider_def forgetClient_def split: option.splits)
  show ?thesis
  proof (cases "tot = 1")
    case True
    then show ?thesis using cnt by (simp add: removeReg_def e entry_ok_def Let_def)
  next
    case False
    then have "entry_ok (tot - 1) by (Some ?g1)"
      using assms(1,2) by (simp add: forgetClient_ok) (simp add: e entry_ok_def)
    then have "entry_ok (tot - 1) (by(p := by p - 1)) (Some ?g2)"
      using assms(3) dropProvider_ok [of "tot - 1" "by" ?g1 p 1] by (auto simp: entry_ok_def)
    then show ?thesis using False cnt assms(2) by (simp add: removeReg_def e Let_def)
  qed
qed

lemma entry_ok_cong: "(\<And>p. p \<noteq> [] \<Longrightarrow> by p = by' p) \<Longrightarrow> entry_ok tot by e \<Longrightarrow> entry_ok tot by' e"
  by (auto simp: entry_ok_def split: option.splits)

lemma addReg_pow:
  assumes "entry_ok tot by e" and "within tot by"
  shows "entry_ok (tot + int n) (by(p := by p + int n)) ((addReg p m now ^^ n) e)"
proof (induction n)
  case 0
  then show ?case using assms(1) by simp
next
  case (Suc n)
  have "within (tot + int n) (by(p := by p + int n))" using assms(2) by (auto simp: add_increasing2)
  from addReg_ok [OF Suc this, of p m now] show ?case by (simp add: algebra_simps fun_upd_def cong: if_cong)
qed

lemma removeReg_pow:
  assumes "entry_ok tot by e" and "int n \<le> tot" and "p \<noteq> [] \<longrightarrow> int n \<le> by p"
  shows "entry_ok (tot - int n) (by(p := by p - int n)) ((removeReg c p now ^^ n) e)"
  using assms(2,3)
proof (induction n)
  case 0
  then show ?case using assms(1) by simp
next
  case (Suc n)
  have "p \<noteq> [] \<longrightarrow> int n \<le> by p" using Suc.prems(2) by auto
  moreover have "int n \<le> tot" using Suc.prems(1) by simp
  ultimately have "entry_ok (tot - int n) (by(p := by p - int n)) ((removeReg c p now ^^ n) e)"
    by (intro Suc.IH)
  from removeReg_ok [OF this, of p c now] Suc.prems show ?case
    by (simp add: algebra_simps fun_upd_def cong: if_cong)
qed

lemma unregisterReg_ok:
  assumes "entry_ok tot by e" and "1 \<le> tot" and "\<forall>p. provider = Some p \<longrightarrow> p \<noteq> [] \<and> 1 \<le> by p"
  shows "entry_ok (tot - 1) (case provider of Some p \<Rightarrow> by(p := by p - 1) | None \<Rightarrow> by) (unregisterReg c provider now e)"
proof -
  obtain g where e: "e = Some g" "rg_Count g = tot" using assms(1,2) by (cases e) (auto simp: entry_ok_def)
  let ?p = "case provider of Some p \<Rightarrow> p | None \<Rightarrow> []"
  have "unregisterReg c provider now e = removeReg c ?p now e"
    using assms(2,3) e by (auto simp: unregisterReg_def removeReg_def Let_def split: option.splits)
  moreover have "entry_ok (tot - 1) (by(?p := by ?p - 1)) (removeReg c ?p now e)"
    using assms by (intro removeReg_ok) (auto split: option.splits)
  ultimately show ?thesis using entry_ok_cong [of "by([] := by [] - 1)" "by"] by (auto split: option.splits)
qed

lemma unregisterReg_pow:
  assumes "entry_ok tot by e" and "int n \<le> tot" and "\<forall>p. provider = Some p \<longrightarrow> p \<noteq> [] \<and> int n \<le> by p"
  shows "entry_ok (tot - int n) (case provider of Some p \<Rightarrow> by(p := by p - int n) | None \<Rightarrow> by)
     ((unregisterReg c provider now ^^ n) e)"
  using assms(2,3)
proof (induction n)
  case 0
  then show ?case using assms(1) by (simp split: option.split)
next
  case (Suc n)
  let ?by = "case provider of Some p \<Rightarrow> by(p := by p - int n) | None \<Rightarrow> by"
  have "\<forall>p. provider = Some p \<longrightarrow> p \<noteq> [] \<and> int n \<le> by p" using Suc.prems(2) by auto
  then have "entry_ok (tot - int n) ?by ((unregisterReg c provider now ^^ n) e)" using Suc.IH Suc.prems(1) by simp
  then have "entry_ok (tot - int n - 1) (case provider of Some p \<Rightarrow> ?by(p := ?by p - 1) | None \<Rightarrow> ?by)
      (unregisterReg c provider now ((unregisterReg c provider now ^^ n) e))"
    using Suc.prems by (intro unregisterReg_ok) (auto split: option.splits)
  then show ?case by (simp add: algebra_simps fun_upd_def cong: if_cong split: option.splits)
qed

lemma moveProvider_ok:
  assumes "entry_ok tot by e" and "p \<noteq> []" and "int old \<le> by p" and "int old \<le> tot"
  shows "entry_ok tot (by(p := by p - int (min new old))) (moveProvider p old new e)"
proof (cases "new = 0 \<or> old = 0")
  case False
  then obtain g where e: "e = Some g" using assms(1,4) by (cases e) (auto simp: entry_ok_def)
  have "entry_ok tot (by(p := by p - int (min new old))) (Some (dropProvider p (int (min new old)) g))"
    using assms False by (intro dropProvider_ok) (auto simp: e)
  then show ?thesis using False by (simp add: moveProvider_def e)
qed (use assms(1) in \<open>auto simp: moveProvider_def\<close>)

lemma refreshReg_ok:
  assumes "entry_ok tot by e" and "within tot by" and "q \<noteq> []" and "changed"
  shows "entry_ok tot (by(q := by q + int (min new old))) (refreshReg c q changed old new m now e)"
proof (cases e)
  case (Some g)
  have g: "tot > 0" "rg_Count g = tot" "mwf (rg_Providers g)"
    "\<And>p. mget (rg_Providers g) p = (if p \<noteq> [] \<and> by p > 0 then Some (by p) else None)"
    using assms(1) by (auto simp: entry_ok_def Some)
  have "mgetd 0 (rg_Providers g) q = by q"
    using g(4) [of q] assms(2) [rule_format, of q] assms(3) by (simp add: mgetd_def)
  moreover have "0 \<le> by q" using assms(2,3) by blast
  ultimately show ?thesis using g assms(3,4)
    by (auto simp: entry_ok_def refreshReg_def forgetClient_def Some go_map inv_intro Let_def)
qed (use assms(1) in \<open>auto simp: entry_ok_def refreshReg_def\<close>)

lemma refreshReg_same:
  "\<not> changed \<or> q = [] \<Longrightarrow> entry_ok tot by e \<Longrightarrow> entry_ok tot by (refreshReg c q changed old new m now e)"
  by (auto simp: entry_ok_def refreshReg_def forgetClient_def Let_def split: option.splits)

section \<open>The new models of a registration\<close>

lemma newModelInfos_props:
  shows "distinct (map fst (newModelInfos models))"
    and "fst ` set (newModelInfos models) = set (rawModelIDs models)"
    and "[] \<notin> set (rawModelIDs models)"
proof -
  let ?step = "\<lambda>m :: ModelInfo. \<lambda>infos. if mget infos (mi_ID m) = None then infos @ [(mi_ID m, m)] else infos"
  have "distinct (map fst infos) \<longrightarrow> distinct (map fst (fold ?step L infos))"
    and "fst ` set (fold ?step L infos) = fst ` set infos \<union> mi_ID ` set L" for L infos
    by (induction L arbitrary: infos) (auto simp: mget_None_iff)
  then show "distinct (map fst (newModelInfos models))"
    "fst ` set (newModelInfos models) = set (rawModelIDs models)"
    by (simp_all add: newModelInfos_def rawModelIDs_def)
  show "[] \<notin> set (rawModelIDs models)" by (auto simp: rawModelIDs_def)
qed

lemma at_acts [simp]: "acts_at k (at k f) f"
  by (auto simp: acts_at_def at_def go_map inv_intro split: option.splits)

lemma addModelRegistration_acts: "k \<noteq> [] \<Longrightarrow> acts_at k (addModelRegistration k p m now) (addReg p m now)"
  by (simp add: addModelRegistration_def acts_at_def at_acts [unfolded acts_at_def])

lemma removeModelRegistration_acts: "acts_at k (removeModelRegistration c k p now) (removeReg c p now)"
  by (simp add: removeModelRegistration_def acts_at_def at_acts [unfolded acts_at_def])

lemma find_key:
  "distinct (map fst xs) \<Longrightarrow> (k, v) \<in> set xs \<Longrightarrow> find (\<lambda>x. fst x = k) xs = Some (k, v)"
  "k \<notin> fst ` set xs \<Longrightarrow> find (\<lambda>x. fst x = k) xs = None"
  by (induction xs) (auto simp: image_iff)

lemma find_id: "find (\<lambda>x. x = k) xs = (if k \<in> set xs then Some k else None)"
  by (induction xs) auto

text \<open>What reconciling a client does to the entry of the model \<open>k\<close>.\<close>

definition reconcileReg ::
  "string \<Rightarrow> string \<Rightarrow> string \<Rightarrow> nat \<Rightarrow> nat \<Rightarrow> ModelInfo \<Rightarrow> time \<Rightarrow> ModelRegistration option \<Rightarrow> ModelRegistration option" where
  "reconcileReg c P Q old new info now e =
     (let e1 = (if P \<noteq> Q \<and> P \<noteq> [] then moveProvider P old new e else e);
          e2 = (removeReg c P now ^^ (old - new)) e1
      in if new = 0 then e2
         else refreshReg c Q (P \<noteq> Q) old new info now ((addReg Q info now ^^ (new - old)) e2))"

lemma reconcile_get:
  assumes "distinct (map fst infos)" and "fst ` set infos = set newIDs" and "[] \<notin> set newIDs"
  shows "mget (reconcile c P Q oldIDs newIDs infos now m) k
      = reconcileReg c P Q (count_list oldIDs k) (count_list newIDs k) (mgetd zeroModelInfo infos k) now (mget m k)"
    and "mwf m \<Longrightarrow> mwf (reconcile c P Q oldIDs newIDs infos now m)"
proof -
  let ?old = "count_list oldIDs" and ?new = "count_list newIDs"
  define m1 where "m1 = (if P \<noteq> Q \<and> P \<noteq> [] then fold (\<lambda>i. at i (moveProvider P (?old i) (?new i))) (map fst infos) m else m)"
  define m2 where "m2 = fold (\<lambda>i. (if ?new i = 0 then removeModelRegistration c i P now else (\<lambda>m. m)) ^^ ?old i)
      (remdups oldIDs) m1"
  define m3 where "m3 = fold (\<lambda>i. if ?new i = 0 then (\<lambda>m. m) else removeModelRegistration c i P now ^^ (?old i - ?new i))
      (remdups oldIDs) m2"
  define m4 where "m4 = fold (\<lambda>(i, info). addModelRegistration i Q info now ^^ (?new i - ?old i)) infos m3"
  have r: "reconcile c P Q oldIDs newIDs infos now m
      = fold (\<lambda>(i, info). at i (refreshReg c Q (P \<noteq> Q) (?old i) (?new i) info now)) infos m4"
    by (simp add: reconcile_def Let_def m1_def m2_def m3_def m4_def)
  have mem: "k \<in> fst ` set infos \<longleftrightarrow> ?new k \<noteq> 0" "k \<in> set oldIDs \<longleftrightarrow> ?old k \<noteq> 0" for k
    using assms(2) by (simp_all add: count_list_0_iff)
  have 1: "mget m1 k = (if P \<noteq> Q \<and> P \<noteq> [] then moveProvider P (?old k) (?new k) (mget m k) else mget m k)"
    "mwf m \<longrightarrow> mwf m1" for k
    using assms(1) mem(1) [of k]
      acts_at_fold [of "map fst infos" "\<lambda>i. i" "\<lambda>i. at i (moveProvider P (?old i) (?new i))"
        "\<lambda>i. moveProvider P (?old i) (?new i)", where m = m]
    by (auto simp: m1_def find_id moveProvider_def)
  have 2: "mget m2 k = (if ?new k = 0 then (removeReg c P now ^^ ?old k) (mget m1 k) else mget m1 k)"
    "mwf m1 \<longrightarrow> mwf m2" for k
  proof -
    have a: "acts_at i ((if ?new i = 0 then removeModelRegistration c i P now else (\<lambda>m. m)) ^^ ?old i)
        ((if ?new i = 0 then removeReg c P now else (\<lambda>e. e)) ^^ ?old i)" for i
      by (intro acts_at_funpow) (simp add: removeModelRegistration_acts acts_at_id)
    have "(\<lambda>e :: ModelRegistration option. e) ^^ n = (\<lambda>e. e)" for n by (induction n) auto
    then show "mget m2 k = (if ?new k = 0 then (removeReg c P now ^^ ?old k) (mget m1 k) else mget m1 k)"
      "mwf m1 \<longrightarrow> mwf m2"
      using acts_at_fold [of "remdups oldIDs" "\<lambda>i. i", OF a] mem(2) [of k]
      by (auto simp: m2_def find_id)
  qed
  have 3: "mget m3 k = (if ?new k = 0 then mget m2 k else (removeReg c P now ^^ (?old k - ?new k)) (mget m2 k))"
    "mwf m2 \<longrightarrow> mwf m3" for k
  proof -
    have a: "acts_at i (if ?new i = 0 then (\<lambda>m. m) else removeModelRegistration c i P now ^^ (?old i - ?new i))
        (if ?new i = 0 then (\<lambda>e. e) else removeReg c P now ^^ (?old i - ?new i))" for i
      by (simp add: removeModelRegistration_acts acts_at_id acts_at_funpow)
    show "mget m3 k = (if ?new k = 0 then mget m2 k else (removeReg c P now ^^ (?old k - ?new k)) (mget m2 k))"
      "mwf m2 \<longrightarrow> mwf m3"
      using acts_at_fold [of "remdups oldIDs" "\<lambda>i. i", OF a] mem(2) [of k]
      by (auto simp: m3_def find_id)
  qed
  have 4: "mget m4 k = (case find (\<lambda>x. fst x = k) infos of
        Some x \<Rightarrow> (addReg Q (snd x) now ^^ (?new k - ?old k)) (mget m3 k) | None \<Rightarrow> mget m3 k)"
    "mwf m3 \<longrightarrow> mwf m4" for k
  proof -
    have a: "acts_at (fst x) ((\<lambda>(i, info). addModelRegistration i Q info now ^^ (?new i - ?old i)) x)
        (addReg Q (snd x) now ^^ (?new (fst x) - ?old (fst x)))" if "x \<in> set infos" for x
    proof -
      have "fst x \<noteq> []" using that assms(2,3) by (metis imageI)
      then show ?thesis by (auto simp: case_prod_unfold intro: acts_at_funpow addModelRegistration_acts)
    qed
    show "mget m4 k = (case find (\<lambda>x. fst x = k) infos of
        Some x \<Rightarrow> (addReg Q (snd x) now ^^ (?new k - ?old k)) (mget m3 k) | None \<Rightarrow> mget m3 k)"
      "mwf m3 \<longrightarrow> mwf m4"
      using acts_at_fold [OF a assms(1), where m = m3] unfolding m4_def
      by (auto split: option.split dest: find_Some_iff_mem)
  qed
  have 5: "mget (reconcile c P Q oldIDs newIDs infos now m) k = (case find (\<lambda>x. fst x = k) infos of
        Some x \<Rightarrow> refreshReg c Q (P \<noteq> Q) (?old k) (?new k) (snd x) now (mget m4 k) | None \<Rightarrow> mget m4 k)"
    "mwf m4 \<longrightarrow> mwf (reconcile c P Q oldIDs newIDs infos now m)" for k
  proof -
    have a: "acts_at (fst x) ((\<lambda>(i, info). at i (refreshReg c Q (P \<noteq> Q) (?old i) (?new i) info now)) x)
        (refreshReg c Q (P \<noteq> Q) (?old (fst x)) (?new (fst x)) (snd x) now)" for x
      by (simp add: case_prod_unfold)
    show "mget (reconcile c P Q oldIDs newIDs infos now m) k = (case find (\<lambda>x. fst x = k) infos of
        Some x \<Rightarrow> refreshReg c Q (P \<noteq> Q) (?old k) (?new k) (snd x) now (mget m4 k) | None \<Rightarrow> mget m4 k)"
      "mwf m4 \<longrightarrow> mwf (reconcile c P Q oldIDs newIDs infos now m)"
      using acts_at_fold [OF a assms(1), where m = m4] unfolding r
      by (auto split: option.split dest: find_Some_iff_mem)
  qed
  show "mwf m \<Longrightarrow> mwf (reconcile c P Q oldIDs newIDs infos now m)" using 1 2 3 4 5 by blast
  show "mget (reconcile c P Q oldIDs newIDs infos now m) k
      = reconcileReg c P Q (?old k) (?new k) (mgetd zeroModelInfo infos k) now (mget m k)"
  proof (cases "k \<in> fst ` set infos")
    case True
    then obtain info where i: "(k, info) \<in> set infos" by auto
    then have "mget infos k = Some info" using assms(1) by (simp add: mget_iff_in mwf_def)
    moreover have "?new k \<noteq> 0" using True mem(1) by blast
    ultimately show ?thesis using 1(1) 2(1) 3(1) 4(1) 5(1) find_key(1) [OF assms(1) i]
      by (simp add: reconcileReg_def Let_def mgetd_def)
  next
    case False
    then have "?new k = 0" using mem(1) by blast
    then show ?thesis using 1(1) 2(1) 3(1) 4(1) 5(1) find_key(2) [OF False]
      by (simp add: reconcileReg_def Let_def moveProvider_def)
  qed
qed

text \<open>The counts of an entry follow: the client's old places go, its new ones come.\<close>

lemma reconcileReg_ok:
  assumes "entry_ok tot by e" and "within tot by"
    and "int old \<le> tot" and "P \<noteq> [] \<longrightarrow> int old \<le> by P" and "tot - int old + int new \<ge> 0"
    and oth: "\<And>p. p \<noteq> P \<Longrightarrow> p \<noteq> [] \<Longrightarrow> by p \<le> tot - int old"
  shows "entry_ok (tot - int old + int new)
     (\<lambda>p. by p - (if p = P then int old else 0) + (if p = Q then int new else 0))
     (reconcileReg c P Q old new info now e)"
proof -
  define d where "d = (if P \<noteq> Q \<and> P \<noteq> [] then int (min new old) else 0)"
  define e1 where "e1 = (if P \<noteq> Q \<and> P \<noteq> [] then moveProvider P old new e else e)"
  have d: "0 \<le> d" "d \<le> int new" "d \<le> int old" by (simp_all add: d_def)
  have e1: "entry_ok tot (by(P := by P - d)) e1"
    using assms(1,3,4) moveProvider_ok by (auto simp: e1_def d_def)
  define e2 where "e2 = (removeReg c P now ^^ (old - new)) e1"
  define by2 where "by2 = by(P := by P - d - int (old - new))"
  have "entry_ok (tot - int (old - new)) ((by(P := by P - d))(P := (by(P := by P - d)) P - int (old - new))) e2"
    unfolding e2_def using e1
  proof (rule removeReg_pow)
    show "int (old - new) \<le> tot" using assms(3) by simp
    show "P \<noteq> [] \<longrightarrow> int (old - new) \<le> (by(P := by P - d)) P"
      using assms(4) by (auto simp: d_def)
  qed
  then have e2: "entry_ok (tot - int (old - new)) by2 e2" by (simp add: by2_def)
  show ?thesis
  proof (cases "new = 0")
    case True
    then have "reconcileReg c P Q old new info now e = e2"
      by (simp add: reconcileReg_def e1_def e2_def Let_def)
    moreover have "entry_ok (tot - int old)
        (\<lambda>p. by p - (if p = P then int old else 0) + (if p = Q then int new else 0)) e2"
      using entry_ok_cong [OF _ e2] True d by (simp add: by2_def)
    ultimately show ?thesis using True by simp
  next
    case False
    define e3 where "e3 = (addReg Q info now ^^ (new - old)) e2"
    define by3 where "by3 = by2(Q := by2 Q + int (new - old))"
    have dP: "P \<noteq> [] \<longrightarrow> d + int (old - new) \<le> by P" using assms(4) by (auto simp: d_def)
    have le: "by p \<le> tot - int (old - new)" if "p \<noteq> []" "p \<noteq> P" for p
      using oth [OF that(2,1)] by simp
    have w2: "within (tot - int (old - new)) by2"
      using assms(2) dP d le by (auto simp: by2_def)
    have e3: "entry_ok (tot - int (old - new) + int (new - old)) by3 e3"
      unfolding e3_def by3_def by (rule addReg_pow [OF e2 w2])
    have tot: "tot - int (old - new) + int (new - old) = tot - int old + int new" by simp
    have w3: "within (tot - int old + int new) by3"
      using w2 unfolding by3_def tot [symmetric] by (auto simp: add_increasing2)
    have r: "reconcileReg c P Q old new info now e = refreshReg c Q (P \<noteq> Q) old new info now e3"
      using False by (simp add: reconcileReg_def e1_def e2_def e3_def Let_def)
    show ?thesis
    proof (cases "P \<noteq> Q \<and> Q \<noteq> []")
      case True
      then have "entry_ok (tot - int old + int new) (by3(Q := by3 Q + int (min new old)))
          (refreshReg c Q (P \<noteq> Q) old new info now e3)"
        using e3 w3 unfolding tot by (intro refreshReg_ok) auto
      then show ?thesis unfolding r
        by (rule entry_ok_cong [rotated]) (use True in \<open>auto simp: by3_def by2_def d_def\<close>)
    next
      case eq: False
      then have "entry_ok (tot - int old + int new) by3 (refreshReg c Q (P \<noteq> Q) old new info now e3)"
        using e3 unfolding tot by (intro refreshReg_same) auto
      then show ?thesis unfolding r
        by (rule entry_ok_cong [rotated]) (use eq in \<open>auto simp: by3_def by2_def d_def\<close>)
    qed
  qed
qed

section \<open>The invariant\<close>

definition offered :: "ModelRegistry \<Rightarrow> string \<Rightarrow> int" where
  \<comment> \<open>the places of a model in the lists of all clients\<close>
  "offered r i = msum (\<lambda>c ids. int (count_list ids i)) (mr_clientModels r)"

definition offeredBy :: "ModelRegistry \<Rightarrow> string \<Rightarrow> string \<Rightarrow> int" where
  \<comment> \<open>the same for the clients of one provider\<close>
  "offeredBy r p i =
     msum (\<lambda>c ids. if mget (mr_clientProviders r) c = Some p then int (count_list ids i) else 0) (mr_clientModels r)"

definition registry_inv :: "ModelRegistry \<Rightarrow> bool" where
  "registry_inv r \<longleftrightarrow> mwf (mr_models r) \<and> mwf (mr_clientModels r)
     \<and> (\<forall>i. entry_ok (offered r i) (\<lambda>p. offeredBy r p i) (mget (mr_models r) i))
     \<and> (\<forall>c p. mget (mr_clientProviders r) c = Some p \<longrightarrow> p \<noteq> [] \<and> mget (mr_clientModels r) c \<noteq> None)"

lemma registry_inv_provider:
  assumes "registry_inv r"
  shows "mget (mr_clientProviders r) c = Some p \<Longrightarrow> p \<noteq> [] \<and> mget (mr_clientModels r) c \<noteq> None"
    and "mget (mr_clientModels r) c = None \<Longrightarrow> mget (mr_clientProviders r) c = None"
  using assms unfolding registry_inv_def by (blast, metis not_None_eq)

lemma msum_change:
  assumes "mwf m" and "\<And>k v. k \<noteq> c \<Longrightarrow> f k v = g k v"
  shows "msum f m - (case mget m c of Some w \<Rightarrow> f c w | None \<Rightarrow> 0)
       = msum g m - (case mget m c of Some w \<Rightarrow> g c w | None \<Rightarrow> 0)"
proof -
  have "msum f (mdel c m) = msum g (mdel c m)"
    by (rule msum_cong) (auto simp: mdel_def AList.delete_eq assms(2))
  then show ?thesis using assms(1) by (simp add: msum_mdel)
qed

lemma offeredBy_within: "within (offered r i) (\<lambda>p. offeredBy r p i)"
  by (auto simp: offered_def offeredBy_def intro!: msum_nonneg msum_mono)

lemma offered_client:
  assumes "mget (mr_clientModels r) c = Some ids"
  shows "int (count_list ids i) \<le> offered r i"
    and "mget (mr_clientProviders r) c = Some p \<Longrightarrow> int (count_list ids i) \<le> offeredBy r p i"
    and "mwf (mr_clientModels r) \<Longrightarrow> mget (mr_clientProviders r) c \<noteq> Some p \<Longrightarrow>
      offeredBy r p i \<le> offered r i - int (count_list ids i)"
proof -
  show "int (count_list ids i) \<le> offered r i"
    using msum_member [OF _ assms, of "\<lambda>c ids. int (count_list ids i)"] by (simp add: offered_def)
  show "mget (mr_clientProviders r) c = Some p \<Longrightarrow> int (count_list ids i) \<le> offeredBy r p i"
    using msum_member [OF _ assms, of "\<lambda>c ids. if mget (mr_clientProviders r) c = Some p then int (count_list ids i) else 0"]
    by (simp add: offeredBy_def)
  assume wf: "mwf (mr_clientModels r)" and p: "mget (mr_clientProviders r) c \<noteq> Some p"
  let ?f = "\<lambda>c ids. if mget (mr_clientProviders r) c = Some p then int (count_list ids i) else 0"
  have "msum ?f (mr_clientModels r) = msum ?f (mdel c (mr_clientModels r))"
    using msum_mdel [OF wf, of ?f c] assms p by simp
  also have "\<dots> \<le> msum (\<lambda>c ids. int (count_list ids i)) (mdel c (mr_clientModels r))"
    by (rule msum_mono) simp
  also have "\<dots> = offered r i - int (count_list ids i)"
    using msum_mdel [OF wf, of "\<lambda>c ids. int (count_list ids i)" c] assms by (simp add: offered_def)
  finally show "offeredBy r p i \<le> offered r i - int (count_list ids i)" by (simp add: offeredBy_def)
qed

text \<open>A registry that differs in the client \<open>c\<close> only: how the counts follow.\<close>

lemma offered_change:
  assumes "mwf (mr_clientModels r)"
    and "mr_clientModels r' = (case new of Some ids \<Rightarrow> mput c ids (mr_clientModels r) | None \<Rightarrow> mdel c (mr_clientModels r))"
    and "\<And>c'. c' \<noteq> c \<Longrightarrow> mget (mr_clientProviders r') c' = mget (mr_clientProviders r) c'"
  shows "offered r' i = offered r i - (case mget (mr_clientModels r) c of Some ids \<Rightarrow> int (count_list ids i) | None \<Rightarrow> 0)
      + (case new of Some ids \<Rightarrow> int (count_list ids i) | None \<Rightarrow> 0)"
    and "offeredBy r' p i = offeredBy r p i
      - (case mget (mr_clientModels r) c of
           Some ids \<Rightarrow> if mget (mr_clientProviders r) c = Some p then int (count_list ids i) else 0 | None \<Rightarrow> 0)
      + (case new of Some ids \<Rightarrow> if mget (mr_clientProviders r') c = Some p then int (count_list ids i) else 0 | None \<Rightarrow> 0)"
proof -
  show "offered r' i = offered r i - (case mget (mr_clientModels r) c of Some ids \<Rightarrow> int (count_list ids i) | None \<Rightarrow> 0)
      + (case new of Some ids \<Rightarrow> int (count_list ids i) | None \<Rightarrow> 0)"
    using assms(1,2) by (cases new) (simp_all add: offered_def msum_mput msum_mdel)
  let ?f = "\<lambda>r c ids. if mget (mr_clientProviders r) c = Some p then int (count_list ids i) else 0"
  have "msum (?f r') (mr_clientModels r) - (case mget (mr_clientModels r) c of Some w \<Rightarrow> ?f r' c w | None \<Rightarrow> 0)
      = msum (?f r) (mr_clientModels r) - (case mget (mr_clientModels r) c of Some w \<Rightarrow> ?f r c w | None \<Rightarrow> 0)"
    by (rule msum_change [OF assms(1)]) (simp add: assms(3))
  then show "offeredBy r' p i = offeredBy r p i
      - (case mget (mr_clientModels r) c of
           Some ids \<Rightarrow> if mget (mr_clientProviders r) c = Some p then int (count_list ids i) else 0 | None \<Rightarrow> 0)
      + (case new of Some ids \<Rightarrow> if mget (mr_clientProviders r') c = Some p then int (count_list ids i) else 0 | None \<Rightarrow> 0)"
    using assms(1,2) by (cases new) (simp_all add: offeredBy_def msum_mput msum_mdel)
qed

lemma registry_inv_cong:
  assumes "mr_models r' = mr_models r" "mr_clientModels r' = mr_clientModels r"
    "mr_clientProviders r' = mr_clientProviders r"
  shows "registry_inv r' = registry_inv r"
  using assms by (simp add: registry_inv_def offered_def offeredBy_def)

lemma invalidate_inv [simp]: "registry_inv (invalidateAvailableModelsCacheLocked r) = registry_inv r"
  by (rule registry_inv_cong) (simp_all add: invalidateAvailableModelsCacheLocked_def)

lemma unregister_inv:
  assumes "registry_inv r"
  shows "registry_inv (unregisterClientInternal c now r)"
    and "mget (mr_clientModels (unregisterClientInternal c now r)) c = None"
    and "mget (mr_clientProviders (unregisterClientInternal c now r)) c = None"
proof -
  let ?r = "unregisterClientInternal c now r"
  have wf: "mwf (mr_models r)" "mwf (mr_clientModels r)" using assms by (simp_all add: registry_inv_def)
  show "mget (mr_clientModels ?r) c = None" "mget (mr_clientProviders ?r) c = None"
    by (simp_all add: unregisterClientInternal_def Let_def go_map split: option.split)
  show "registry_inv ?r"
  proof (cases "mget (mr_clientModels r) c")
    case None
    then have "mget (mr_clientProviders r) c = None" using registry_inv_provider(2) [OF assms] by blast
    then show ?thesis using None assms
      by (simp add: unregisterClientInternal_def Let_def mdel_absent registry_inv_def offered_def offeredBy_def)
  next
    case (Some ids)
    let ?P = "mget (mr_clientProviders r) c"
    have r: "mr_models ?r = fold (\<lambda>i. at i (unregisterReg c ?P now)) ids (mr_models r)"
      "mr_clientModels ?r = mdel c (mr_clientModels r)" "mr_clientProviders ?r = mdel c (mr_clientProviders r)"
      using Some by (simp_all add: unregisterClientInternal_def Let_def)
    note acts = acts_at_fold_count [of ids "\<lambda>i. at i (unregisterReg c ?P now)" "\<lambda>i. unregisterReg c ?P now"]
    note ch = offered_change [where r = r and r' = ?r and new = None and c = c, OF wf(2)]
    have "entry_ok (offered ?r i) (\<lambda>p. offeredBy ?r p i) (mget (mr_models ?r) i)" for i
    proof -
      let ?n = "count_list ids i"
      let ?by = "case ?P of Some p \<Rightarrow> (\<lambda>p. offeredBy r p i)(p := offeredBy r p i - int ?n) | None \<Rightarrow> (\<lambda>p. offeredBy r p i)"
      have e: "entry_ok (offered r i - int ?n)
          (case ?P of Some p \<Rightarrow> (\<lambda>p. offeredBy r p i)(p := offeredBy r p i - int ?n) | None \<Rightarrow> (\<lambda>p. offeredBy r p i))
          ((unregisterReg c ?P now ^^ ?n) (mget (mr_models r) i))"
        using assms offered_client [OF Some] by (intro unregisterReg_pow) (auto simp: registry_inv_def)
      have tot: "offered ?r i = offered r i - int ?n"
        using ch(1) [of i] Some by (simp add: r go_map)
      have "offeredBy ?r p i = offeredBy r p i - (if ?P = Some p then int ?n else 0)" for p
        using ch(2) [of p i] Some by (simp add: r go_map)
      then have by': "?by p = offeredBy ?r p i" for p by (cases ?P) auto
      have "mget (mr_models ?r) i = (unregisterReg c ?P now ^^ ?n) (mget (mr_models r) i)"
        using acts(1) by (simp add: r)
      then show ?thesis using entry_ok_cong [OF by' e] by (simp add: tot)
    qed
    then show ?thesis using assms wf acts(2) by (auto simp: registry_inv_def r go_map inv_intro)
  qed
qed

lemma register_inv:
  assumes inv: "registry_inv r"
  shows "registry_inv (RegisterClient c clientProvider models now r)"
proof (cases "rawModelIDs models = []")
  case True
  let ?u = "unregisterClientInternal c now r"
  have "registry_inv (?u\<lparr>mr_clientModels := mdel c (mr_clientModels ?u),
      mr_clientModelInfos := mdel c (mr_clientModelInfos ?u), mr_clientProviders := mdel c (mr_clientProviders ?u)\<rparr>)"
    using unregister_inv [OF inv, of c now] by (subst registry_inv_cong [of _ ?u]) (simp_all add: mdel_absent)
  then show ?thesis using True by (simp add: RegisterClient_def Let_def)
next
  case False
  let ?r = "RegisterClient c clientProvider models now r"
  let ?Q = "ToLower clientProvider" and ?raw = "rawModelIDs models" and ?infos = "newModelInfos models"
  note props = newModelInfos_props [of models]
  have wf: "mwf (mr_models r)" "mwf (mr_clientModels r)" using inv by (simp_all add: registry_inv_def)
  have r: "mr_clientModels ?r = mput c ?raw (mr_clientModels r)"
    "mr_clientProviders ?r = (if ?Q \<noteq> [] then mput c ?Q (mr_clientProviders r) else mdel c (mr_clientProviders r))"
    using False by (simp_all add: RegisterClient_def invalidateAvailableModelsCacheLocked_def Let_def)
  have prov: "mget (mr_clientProviders ?r) c' = (if c' = c then if ?Q \<noteq> [] then Some ?Q else None
      else mget (mr_clientProviders r) c')" for c'
    by (simp add: r go_map)
  note ch = offered_change [where r = r and r' = ?r and new = "Some ?raw" and c = c, OF wf(2)]
  have "entry_ok (offered ?r i) (\<lambda>p. offeredBy ?r p i) (mget (mr_models ?r) i) \<and> mwf (mr_models ?r)" for i
  proof (cases "mget (mr_clientModels r) c")
    case None
    let ?n = "count_list ?raw i"
    have noP: "mget (mr_clientProviders r) c = None" using registry_inv_provider(2) [OF inv None] .
    have acts: "acts_at j (addModelRegistration j ?Q (mgetd zeroModelInfo ?infos j) now)
        (addReg ?Q (mgetd zeroModelInfo ?infos j) now)" if "j \<in> set ?raw" for j
      using props(3) that by (intro addModelRegistration_acts) auto
    have m: "mr_models ?r = fold (\<lambda>j. addModelRegistration j ?Q (mgetd zeroModelInfo ?infos j) now) ?raw (mr_models r)"
      using False None by (simp add: RegisterClient_def invalidateAvailableModelsCacheLocked_def Let_def)
    note fc = acts_at_fold_count [where xs = ?raw
        and G = "\<lambda>j. addModelRegistration j ?Q (mgetd zeroModelInfo ?infos j) now"
        and H = "\<lambda>j. addReg ?Q (mgetd zeroModelInfo ?infos j) now", OF acts]
    have mi: "mget (mr_models ?r) i = (addReg ?Q (mgetd zeroModelInfo ?infos i) now ^^ ?n) (mget (mr_models r) i)"
      using fc(1) [of "mr_models r" i] by (simp add: m)
    have e: "entry_ok (offered r i + int ?n) ((\<lambda>p. offeredBy r p i)(?Q := offeredBy r ?Q i + int ?n)) (mget (mr_models ?r) i)"
      unfolding mi
      using inv offeredBy_within by (intro addReg_pow) (auto simp: registry_inv_def)
    have tot: "offered ?r i = offered r i + int ?n" using ch(1) [of i] None by (simp add: r prov go_map)
    have by': "((\<lambda>p. offeredBy r p i)(?Q := offeredBy r ?Q i + int ?n)) p = offeredBy ?r p i" if "p \<noteq> []" for p
      using ch(2) [of p i] None that by (auto simp: r prov go_map)
    have "entry_ok (offered ?r i) (\<lambda>p. offeredBy ?r p i) (mget (mr_models ?r) i)"
      unfolding tot by (rule entry_ok_cong [OF by' e])
    then show ?thesis using fc(2) [OF _ wf(1)] by (simp add: m)
  next
    case (Some ids)
    let ?P = "mgetd [] (mr_clientProviders r) c" and ?o = "count_list ids i" and ?n = "count_list ?raw i"
    have P: "mget (mr_clientProviders r) c = (if ?P = [] then None else Some ?P)"
      using inv by (auto simp: registry_inv_def mgetd_def split: option.splits)
    have m: "mr_models ?r = reconcile c ?P ?Q ids ?raw ?infos now (mr_models r)"
      using False Some by (simp add: RegisterClient_def invalidateAvailableModelsCacheLocked_def Let_def)
    have e: "entry_ok (offered r i - int ?o + int ?n)
        (\<lambda>p. offeredBy r p i - (if p = ?P then int ?o else 0) + (if p = ?Q then int ?n else 0)) (mget (mr_models ?r) i)"
      unfolding m reconcile_get(1) [OF props]
    proof (rule reconcileReg_ok)
      show "entry_ok (offered r i) (\<lambda>p. offeredBy r p i) (mget (mr_models r) i)" using inv by (simp add: registry_inv_def)
      show "within (offered r i) (\<lambda>p. offeredBy r p i)" by (rule offeredBy_within)
      show "int ?o \<le> offered r i" using offered_client(1) [OF Some] .
      show "?P \<noteq> [] \<longrightarrow> int ?o \<le> offeredBy r ?P i" using offered_client(2) [OF Some] P by auto
      show "0 \<le> offered r i - int ?o + int ?n" using offered_client(1) [OF Some, of i] by simp
      show "offeredBy r p i \<le> offered r i - int ?o" if "p \<noteq> ?P" "p \<noteq> []" for p
        using offered_client(3) [OF Some wf(2)] P that by auto
    qed
    have tot: "offered ?r i = offered r i - int ?o + int ?n" using ch(1) [of i] Some by (simp add: r prov go_map)
    have by': "offeredBy r p i - (if p = ?P then int ?o else 0) + (if p = ?Q then int ?n else 0) = offeredBy ?r p i"
      if "p \<noteq> []" for p
    proof -
      have "(mget (mr_clientProviders r) c = Some p) = (p = ?P)" "(mget (mr_clientProviders ?r) c = Some p) = (p = ?Q)"
        using P that by (auto simp: prov)
      then show ?thesis using ch(2) [of p i] Some by (simp add: r go_map)
    qed
    have "entry_ok (offered ?r i) (\<lambda>p. offeredBy ?r p i) (mget (mr_models ?r) i)"
      unfolding tot by (rule entry_ok_cong [OF by' e])
    then show ?thesis using reconcile_get(2) [OF props wf(1)] by (simp add: m)
  qed
  moreover have prv: "p \<noteq> [] \<and> mget (mr_clientModels ?r) c' \<noteq> None" if "mget (mr_clientProviders ?r) c' = Some p" for c' p
  proof (cases "c' = c")
    case True
    then have "?Q \<noteq> []" "?Q = p" using that unfolding prov by (metis option.distinct(1), metis option.distinct(1) option.inject)
    then show ?thesis using True by (simp add: r(1) go_map)
  next
    case False
    then have "mget (mr_clientProviders r) c' = Some p" using that unfolding prov by simp
    then show ?thesis using registry_inv_provider(1) [OF inv, of c' p] False by (simp add: r(1) go_map)
  qed
  moreover have "mwf (mr_clientModels ?r)" using wf(2) by (simp add: r(1) inv_intro)
  ultimately show ?thesis unfolding registry_inv_def by blast
qed

text \<open>The marks do not touch the counts.\<close>

definition same_counts :: "ModelRegistration option \<Rightarrow> ModelRegistration option \<Rightarrow> bool" where
  "same_counts e e' =
     (case (e, e') of
        (None, None) \<Rightarrow> True
      | (Some g, Some g') \<Rightarrow> rg_Count g' = rg_Count g \<and> rg_Providers g' = rg_Providers g
      | _ \<Rightarrow> False)"

lemma same_counts_refl [simp]: "same_counts e e"
  by (simp add: same_counts_def split: option.split)

lemma same_counts_trans: "same_counts e f \<Longrightarrow> same_counts f g \<Longrightarrow> same_counts e g"
  by (auto simp: same_counts_def split: option.splits)

lemma same_counts_inv:
  assumes "registry_inv r" and "mr_clientModels r' = mr_clientModels r" "mr_clientProviders r' = mr_clientProviders r"
    and "mwf (mr_models r')" and "\<And>i. same_counts (mget (mr_models r) i) (mget (mr_models r') i)"
  shows "registry_inv r'"
proof -
  have "offered r' i = offered r i" "offeredBy r' p i = offeredBy r p i" for p i
    using assms(2,3) by (simp_all add: offered_def offeredBy_def)
  then have "offered r' = offered r" "offeredBy r' = offeredBy r" by blast+
  moreover have "entry_ok (offered r i) (\<lambda>p. offeredBy r p i) (mget (mr_models r') i)" for i
  proof -
    have "entry_ok (offered r i) (\<lambda>p. offeredBy r p i) (mget (mr_models r) i)"
      using assms(1) unfolding registry_inv_def by blast
    then show ?thesis using assms(5) [of i] by (auto simp: entry_ok_def same_counts_def split: option.splits)
  qed
  ultimately show ?thesis using assms(1-4) by (simp add: registry_inv_def)
qed

lemma projectSuspended_counts:
  "projectSuspended c proj now g = (g', b) \<Longrightarrow> rg_Count g' = rg_Count g \<and> rg_Providers g' = rg_Providers g"
  by (auto simp: projectSuspended_def Let_def split: if_splits)

lemma projectQuota_counts:
  "projectQuota c proj now g = (g', b) \<Longrightarrow> rg_Count g' = rg_Count g \<and> rg_Providers g' = rg_Providers g"
  by (auto simp: projectQuota_def Let_def split: if_splits)

lemma projectModel_counts:
  "same_counts (mget (fst acc) i) (mget (fst (projectModel c owned now proj acc)) i)
   \<and> (mwf (fst acc) \<longrightarrow> mwf (fst (projectModel c owned now proj acc)))"
proof (cases "mget (fst acc) (TrimSpace (pj_ModelID proj))")
  case (Some g)
  obtain g1 b1 where 1: "projectSuspended c proj now g = (g1, b1)" by fastforce
  obtain g2 b2 where 2: "projectQuota c proj now g1 = (g2, b2)" by fastforce
  have step: "projectModel c owned now proj acc =
      (if TrimSpace (pj_ModelID proj) = [] \<or> TrimSpace (pj_ModelID proj) \<notin> owned then acc
       else (mput (TrimSpace (pj_ModelID proj)) g2 (fst acc), snd acc \<or> b1 \<or> b2))"
    using Some by (simp add: projectModel_def Let_def 1 2)
  have "same_counts (Some g) (Some g2)"
    using projectSuspended_counts [OF 1] projectQuota_counts [OF 2] by (simp add: same_counts_def)
  then show ?thesis using Some unfolding step by (auto simp: go_map inv_intro)
qed (simp add: projectModel_def Let_def)

lemma project_fold_counts:
  "same_counts (mget (fst acc) i) (mget (fst (fold (projectModel c owned now) projs acc)) i)
   \<and> (mwf (fst acc) \<longrightarrow> mwf (fst (fold (projectModel c owned now) projs acc)))"
proof (induction projs arbitrary: acc)
  case (Cons p projs)
  show ?case using projectModel_counts [of acc i c owned now p] Cons [of "projectModel c owned now p acc"]
    by (auto intro: same_counts_trans)
qed simp

lemma mget_map_value: "mget (map (\<lambda>(k, g). (k, f g)) m) i = map_option f (mget m i)"
  by (induction m) auto

lemma mwf_map_value: "mwf (map (\<lambda>(k, g). (k, f g)) m) = mwf m"
  by (induction m) (auto simp: mget_map_value)

text \<open>
  One operation at the time \<open>t\<close>, and the states that a run with a clock that does not go back can reach.
\<close>

inductive registry_step :: "(int \<Rightarrow> string) \<Rightarrow> time \<Rightarrow> ModelRegistry \<Rightarrow> ModelRegistry \<Rightarrow> bool" for rfc t where
  register: "registry_step rfc t r (RegisterClient c p models t r)"
| unregister: "registry_step rfc t r (UnregisterClient c t r)"
| set_quota: "registry_step rfc t r (SetModelQuotaExceeded c m t r)"
| clear_quota: "registry_step rfc t r (ClearModelQuotaExceeded c m r)"
| suspend: "registry_step rfc t r (SuspendClientModel c m reason t r)"
| resume: "registry_step rfc t r (ResumeClientModel c m t r)"
| project: "registry_step rfc t r (fst (ApplyClientModelProjections c epoch gen projs t r))"
| cleanup: "registry_step rfc t r (CleanupExpiredQuotas t r)"
| listing: "registry_step rfc t r (snd (GetAvailableModels rfc h t r))"

inductive_cases registry_stepE: "registry_step rfc t r r'"

inductive registry_run :: "(int \<Rightarrow> string) \<Rightarrow> ModelRegistry \<Rightarrow> time \<Rightarrow> ModelRegistry \<Rightarrow> time \<Rightarrow> bool" for rfc r0 t0 where
  start: "registry_run rfc r0 t0 r0 t0"
| step: "registry_run rfc r0 t0 r t \<Longrightarrow> t \<le> t' \<Longrightarrow> registry_step rfc t' r r' \<Longrightarrow> registry_run rfc r0 t0 r' t'"

abbreviation registry_reachable :: "(int \<Rightarrow> string) \<Rightarrow> ModelRegistry \<Rightarrow> time \<Rightarrow> bool" where
  "registry_reachable rfc r t \<equiv> (\<exists>t0. registry_run rfc NewModelRegistry t0 r t)"

lemma mark_inv:
  assumes "registry_inv r" and "mget (mr_models r) m = Some g"
    and "rg_Count g' = rg_Count g" and "rg_Providers g' = rg_Providers g"
  shows "registry_inv (r\<lparr>mr_models := mput m g' (mr_models r)\<rparr>)"
proof (rule same_counts_inv [OF assms(1)])
  show "same_counts (mget (mr_models r) i) (mget (mr_models (r\<lparr>mr_models := mput m g' (mr_models r)\<rparr>)) i)" for i
    using assms(2-4) by (cases "i = m") (simp_all add: go_map, simp add: same_counts_def)
  show "mwf (mr_models (r\<lparr>mr_models := mput m g' (mr_models r)\<rparr>))"
    using assms(1) by (simp add: registry_inv_def inv_intro)
qed simp_all

lemma registry_step_inv:
  assumes "registry_step rfc t r r'" and inv: "registry_inv r"
  shows "registry_inv r'"
  using assms(1)
proof cases
  case (project c epoch gen projs)
  let ?o = "set (filter (\<lambda>m. m \<noteq> []) (map TrimSpace (mgetd [] (mr_clientModels r) (TrimSpace c))))"
  obtain models changed where f: "fold (projectModel (TrimSpace c) ?o t) projs (mr_models r, False) = (models, changed)"
    by fastforce
  have "registry_inv (r\<lparr>mr_clientGenerations := gens, mr_models := models\<rparr>)" for gens
  proof (rule same_counts_inv [OF inv])
    note pf = project_fold_counts [of "(mr_models r, False)" _ "TrimSpace c" ?o t projs, unfolded f fst_conv]
    show "same_counts (mget (mr_models r) i)
        (mget (mr_models (r\<lparr>mr_clientGenerations := gens, mr_models := models\<rparr>)) i)" for i
      using pf [of i] by simp
    show "mwf (mr_models (r\<lparr>mr_clientGenerations := gens, mr_models := models\<rparr>))"
      using pf inv by (simp add: registry_inv_def)
  qed simp_all
  then show ?thesis using f inv project by (simp add: ApplyClientModelProjections_def Let_def)
next
  case cleanup
  let ?f = "\<lambda>g. g\<lparr>rg_QuotaExceededClients := filter (\<lambda>e. \<not> (case snd e of Some u \<Rightarrow> t - u \<ge> modelQuotaExceededWindow | None \<Rightarrow> False))
      (rg_QuotaExceededClients g)\<rparr>"
  have "registry_inv (r\<lparr>mr_models := map (\<lambda>(k, g). (k, ?f g)) (mr_models r)\<rparr>)"
  proof (rule same_counts_inv [OF inv])
    show "same_counts (mget (mr_models r) i) (mget (mr_models (r\<lparr>mr_models := map (\<lambda>(k, g). (k, ?f g)) (mr_models r)\<rparr>)) i)" for i
      by (simp add: mget_map_value same_counts_def split: option.split)
    show "mwf (mr_models (r\<lparr>mr_models := map (\<lambda>(k, g). (k, ?f g)) (mr_models r)\<rparr>))"
      using inv by (simp add: registry_inv_def mwf_map_value)
  qed simp_all
  then show ?thesis using cleanup by (simp add: CleanupExpiredQuotas_def Let_def)
next
  case (listing h)
  have "mr_models r' = mr_models r" "mr_clientModels r' = mr_clientModels r" "mr_clientProviders r' = mr_clientProviders r"
    using listing by (auto simp: GetAvailableModels_def split: option.splits prod.splits if_splits)
  then show ?thesis using registry_inv_cong inv by blast
qed (use inv in \<open>auto simp: register_inv UnregisterClient_def unregister_inv SetModelQuotaExceeded_def
    ClearModelQuotaExceeded_def SuspendClientModel_def ResumeClientModel_def intro!: mark_inv split: option.splits\<close>)

lemma NewModelRegistry_inv: "registry_inv NewModelRegistry"
  by (simp add: registry_inv_def NewModelRegistry_def offered_def offeredBy_def entry_ok_def mget_def)

lemma registry_run_inv: "registry_run rfc r0 t0 r t \<Longrightarrow> registry_inv r0 \<Longrightarrow> registry_inv r"
  by (induction rule: registry_run.induct) (simp_all add: registry_step_inv)

section \<open>Epochs\<close>

abbreviation epoch_of :: "ModelRegistry \<Rightarrow> string \<Rightarrow> int" where
  "epoch_of r c \<equiv> ClientRegistrationEpoch c r"

lemma epoch_unregister: "epoch_of (unregisterClientInternal c now r) c' = epoch_of r c' + (if c' = c then 1 else 0)"
  by (simp add: unregisterClientInternal_def ClientRegistrationEpoch_def bump_def mgetd_def go_map Let_def
      split: option.split)

lemma epoch_invalidate [simp]: "epoch_of (invalidateAvailableModelsCacheLocked r) c = epoch_of r c"
  by (simp add: invalidateAvailableModelsCacheLocked_def ClientRegistrationEpoch_def)

lemma epoch_register: "epoch_of (RegisterClient c p models now r) c' = epoch_of r c' + (if c' = c then 1 else 0)"
proof (cases "rawModelIDs models = []")
  case True
  have "epoch_of (RegisterClient c p models now r) c' = epoch_of (unregisterClientInternal c now r) c'"
    using True by (simp add: RegisterClient_def Let_def) (simp add: ClientRegistrationEpoch_def)
  then show ?thesis by (simp add: epoch_unregister)
next
  case False
  then show ?thesis
    by (simp add: RegisterClient_def Let_def) (simp add: ClientRegistrationEpoch_def bump_def mgetd_def go_map)
qed

lemma epoch_step: "registry_step rfc t r r' \<Longrightarrow> epoch_of r c \<le> epoch_of r' c"
proof (elim registry_stepE)
  fix c' p models
  assume "r' = RegisterClient c' p models t r"
  then show ?thesis by (simp add: epoch_register)
next
  fix c'
  assume "r' = UnregisterClient c' t r"
  then show ?thesis by (simp add: UnregisterClient_def epoch_unregister)
qed (auto simp: SetModelQuotaExceeded_def ClearModelQuotaExceeded_def SuspendClientModel_def ResumeClientModel_def
    ApplyClientModelProjections_def CleanupExpiredQuotas_def GetAvailableModels_def Let_def
    ClientRegistrationEpoch_def invalidateAvailableModelsCacheLocked_def split: option.splits prod.splits)

lemma epoch_run: "registry_run rfc r0 t0 r t \<Longrightarrow> epoch_of r0 c \<le> epoch_of r c"
  by (induction rule: registry_run.induct) (auto dest: epoch_step [of _ _ _ _ c])

end
