(* ===== verification/RegistryCache.thy ===== *)
theory RegistryCache
  imports RegistryCounts
begin

text \<open>
  The cached listing of the model registry: it is what a fresh listing would return for as long as it
  is not expired, because every operation that changes a listing also empties the cache.
\<close>

section \<open>Coherence of the cached listing\<close>

text \<open>
  A listing depends on the time only through the quota marks that are still open, and its expiry is the
  first recovery of one: until then it stays what it is.
\<close>

lemma quotaRecovery_evals:
  "quotaRecovery t (k, None) acc = acc"
  "quotaRecovery t (k, Some u) (n, x) =
     (if t < u + modelQuotaExceededWindow
      then (Suc n, if x = 0 \<or> u + modelQuotaExceededWindow < x then u + modelQuotaExceededWindow else x) else (n, x))"
  by (simp_all add: quotaRecovery_def Let_def)

lemma quotaRecovery_fold:
  assumes "\<And>e u. e \<in> set qs \<Longrightarrow> snd e = Some u \<Longrightarrow> 0 \<le> u"
    and "x = 0 \<or> t < x" and "0 \<le> t"
  shows "let (n', x') = fold (quotaRecovery t) qs (n, x) in
     (x' = 0 \<or> t < x') \<and> (x \<noteq> 0 \<longrightarrow> x' \<noteq> 0 \<and> x' \<le> x)
     \<and> (\<forall>t' \<ge> t. x' = 0 \<or> t' < x' \<longrightarrow> fst (fold (quotaRecovery t') qs (n, y)) = n')"
  using assms
proof (induction qs arbitrary: n x y)
  case (Cons e qs)
  obtain k v where e: "e = (k, v)" by fastforce
  have q: "0 \<le> u" if "a \<in> set qs" "snd a = Some u" for a u using Cons.prems(1) [of a u] that by simp
  show ?case
  proof (cases v)
    case None
    then show ?thesis using Cons.IH [where x = x and n = n and y = y, OF q Cons.prems(2,3)] by (simp add: e quotaRecovery_evals)
  next
    case (Some u)
    define z where "z = u + modelQuotaExceededWindow"
    have z: "0 < z" using Cons.prems(1) [of e u] by (simp add: e Some z_def modelQuotaExceededWindow_def duration_defs)
    show ?thesis
    proof (cases "t < z")
      case True
      define x1 where "x1 = (if x = 0 \<or> z < x then z else x)"
      have x1: "x1 \<noteq> 0" "t < x1" "x1 \<le> z" "x \<noteq> 0 \<longrightarrow> x1 \<le> x" using True z Cons.prems(2) by (auto simp: x1_def)
      obtain n' x' where f: "fold (quotaRecovery t) qs (Suc n, x1) = (n', x')" by fastforce
      have step: "fold (quotaRecovery t) (e # qs) (n, x) = (n', x')"
        using f True unfolding x1_def by (cases "x = 0 \<or> z < x") (auto simp: e Some quotaRecovery_evals z_def [symmetric])
      have ih: "(x' = 0 \<or> t < x') \<and> (x1 \<noteq> 0 \<longrightarrow> x' \<noteq> 0 \<and> x' \<le> x1)
          \<and> (\<forall>t' \<ge> t. x' = 0 \<or> t' < x' \<longrightarrow> fst (fold (quotaRecovery t') qs (Suc n, y1)) = n')" for y1
        using Cons.IH [where x = x1 and n = "Suc n" and y = y1] Cons.prems x1 f by auto
      have "fst (fold (quotaRecovery t') (e # qs) (n, y)) = n'" if "t' \<ge> t" "x' = 0 \<or> t' < x'" for t'
      proof -
        have "t' < z" using ih [of y] x1 that by auto
        moreover have "fst (fold (quotaRecovery t') qs (Suc n, y1)) = n'" for y1 using ih [of y1] that by blast
        ultimately show ?thesis by (simp add: e Some quotaRecovery_evals z_def [symmetric])
      qed
      then show ?thesis unfolding step using ih [of y] x1 by auto
    next
      case False
      obtain n' x' where f: "fold (quotaRecovery t) qs (n, x) = (n', x')" by fastforce
      have step: "fold (quotaRecovery t) (e # qs) (n, x) = (n', x')"
        using False f by (simp add: e Some quotaRecovery_evals z_def [symmetric])
      have ih: "(x' = 0 \<or> t < x') \<and> (x \<noteq> 0 \<longrightarrow> x' \<noteq> 0 \<and> x' \<le> x)
          \<and> (\<forall>t' \<ge> t. x' = 0 \<or> t' < x' \<longrightarrow> fst (fold (quotaRecovery t') qs (n, y)) = n')"
        using Cons.IH [where x = x and n = n and y = y, OF q Cons.prems(2,3)] f by simp
      have "fst (fold (quotaRecovery t') (e # qs) (n, y)) = n'" if "t' \<ge> t" "x' = 0 \<or> t' < x'" for t'
      proof -
        have "quotaRecovery t' e (n, y) = (n, y)" using False that(1) by (simp add: e Some quotaRecovery_evals z_def)
        moreover have "fst (fold (quotaRecovery t') qs (n, y)) = n'" using ih that by blast
        ultimately show ?thesis by simp
      qed
      then show ?thesis unfolding step using ih by simp
    qed
  qed
qed auto

definition marks_ok :: "ModelRegistration option \<Rightarrow> bool" where
  \<comment> \<open>quota marks carry a time of the clock\<close>
  "marks_ok e = (\<forall>g. e = Some g \<longrightarrow> (\<forall>c u. (c, Some u) \<in> set (rg_QuotaExceededClients g) \<longrightarrow> 0 \<le> u))"

lemma availability_stable:
  assumes "marks_ok (Some g)" and "0 \<le> t"
  shows "let (a, x) = modelRegistrationAvailability g t in
     (x = 0 \<or> t < x) \<and> (\<forall>t' \<ge> t. x = 0 \<or> t' < x \<longrightarrow> fst (modelRegistrationAvailability g t') = a)"
proof -
  let ?f = "\<lambda>t. fold (quotaRecovery t) (rg_QuotaExceededClients g) (0, 0)"
  obtain n x where f: "?f t = (n, x)" by fastforce
  have m: "0 \<le> u" if "e \<in> set (rg_QuotaExceededClients g)" "snd e = Some u" for e u
    using assms(1) that by (cases e) (auto simp: marks_ok_def)
  have "(x = 0 \<or> t < x) \<and> (\<forall>t' \<ge> t. x = 0 \<or> t' < x \<longrightarrow> fst (?f t') = n)"
    using quotaRecovery_fold [where qs = "rg_QuotaExceededClients g" and x = 0 and t = t and n = 0 and y = 0, OF m _ assms(2)]
    unfolding f by simp
  then have st: "x = 0 \<or> t < x" "\<And>t'. t' \<ge> t \<Longrightarrow> x = 0 \<or> t' < x \<Longrightarrow> fst (?f t') = n" by (simp, blast)
  have "snd (modelRegistrationAvailability g t) = x" by (simp add: modelRegistrationAvailability_def f Let_def)
  moreover have "fst (modelRegistrationAvailability g t') = fst (modelRegistrationAvailability g t)"
    if t': "t' \<ge> t" "x = 0 \<or> t' < x" for t'
  proof -
    obtain x' where "?f t' = (n, x')" using st(2) [OF t'] by (cases "?f t'") auto
    then show ?thesis by (simp add: modelRegistrationAvailability_def f Let_def)
  qed
  ultimately show ?thesis using st(1) unfolding Let_def case_prod_beta by blast
qed

lemma build_stable:
  assumes "\<And>k g. (k, g) \<in> set ms \<Longrightarrow> marks_ok (Some g)" and "0 \<le> t" and "x = 0 \<or> t < x"
  shows "let (L', x') = fold (build_step rfc h t) ms (L, x) in
     (x \<noteq> 0 \<longrightarrow> x' \<noteq> 0 \<and> x' \<le> x)
     \<and> (\<forall>t' \<ge> t. x' = 0 \<or> t' < x' \<longrightarrow> fst (fold (build_step rfc h t') ms (L, y)) = L')"
  using assms(1,3)
proof (induction ms arbitrary: L x y)
  case (Cons e ms)
  obtain k g where e: "e = (k, g)" by fastforce
  obtain a z where az: "modelRegistrationAvailability g t = (a, z)" by fastforce
  have st: "z = 0 \<or> t < z" "\<And>t'. t' \<ge> t \<Longrightarrow> z = 0 \<or> t' < z \<Longrightarrow> fst (modelRegistrationAvailability g t') = a"
    using availability_stable [of g t] Cons.prems(1) [of k g] assms(2) by (auto simp: e az)
  define L1 where "L1 = (if a then L @ [convertModelToMap rfc (rg_Info g) h] else L)"
  define x1 where "x1 = (if z \<noteq> 0 \<and> (x = 0 \<or> z < x) then z else x)"
  have x1: "x1 = 0 \<or> t < x1" "x \<noteq> 0 \<longrightarrow> x1 \<noteq> 0 \<and> x1 \<le> x" "z \<noteq> 0 \<longrightarrow> x1 \<noteq> 0 \<and> x1 \<le> z"
    using st(1) Cons.prems(2) by (auto simp: x1_def)
  obtain L' x' where f: "fold (build_step rfc h t) ms (L1, x1) = (L', x')" by fastforce
  have "build_step rfc h t e (L, x) = (L1, x1)" by (simp add: e build_step_def az L1_def x1_def)
  then have step: "fold (build_step rfc h t) (e # ms) (L, x) = (L', x')" using f by simp
  have ms: "marks_ok (Some g)" if "(k, g) \<in> set ms" for k g using Cons.prems(1) that by auto
  have ih: "x1 \<noteq> 0 \<longrightarrow> x' \<noteq> 0 \<and> x' \<le> x1"
    "\<And>t' y1. t' \<ge> t \<Longrightarrow> x' = 0 \<or> t' < x' \<Longrightarrow> fst (fold (build_step rfc h t') ms (L1, y1)) = L'"
    using Cons.IH [where x = x1 and L = L1, OF ms x1(1)] f by auto
  have "fst (fold (build_step rfc h t') (e # ms) (L, y)) = L'" if t': "t' \<ge> t" "x' = 0 \<or> t' < x'" for t'
  proof -
    have "z = 0 \<or> t' < z" using x1(3) ih(1) t' by auto
    then obtain z' where az': "modelRegistrationAvailability g t' = (a, z')"
      using st(2) [OF t'(1)] by (cases "modelRegistrationAvailability g t'") auto
    obtain y1 where "build_step rfc h t' e (L, y) = (L1, y1)" by (simp add: e build_step_def az' L1_def)
    then show ?thesis using ih(2) [OF t'] by simp
  qed
  then show ?case unfolding step using ih(1) x1(2) by auto
qed auto

section \<open>The times of the quota marks\<close>

definition marks_all :: "(string, ModelRegistration) gomap \<Rightarrow> bool" where
  "marks_all ms \<longleftrightarrow> (\<forall>i. marks_ok (mget ms i))"

lemma marks_at: "(marks_ok (mget ms k) \<Longrightarrow> marks_ok (f (mget ms k))) \<Longrightarrow> marks_all ms \<Longrightarrow> marks_all (at k f ms)"
  using at_acts [of k f] by (simp add: acts_at_def marks_all_def)

lemma marks_subset:
  "marks_ok e \<Longrightarrow> (\<And>g'. e' = Some g' \<Longrightarrow> \<exists>g. e = Some g \<and> set (rg_QuotaExceededClients g') \<subseteq> set (rg_QuotaExceededClients g))
     \<Longrightarrow> marks_ok e'"
  unfolding marks_ok_def by blast

lemma dropProvider_marks [simp]: "rg_QuotaExceededClients (dropProvider p n g) = rg_QuotaExceededClients g"
  by (simp add: dropProvider_def split: option.split)

lemma forgetClient_marks [simp]: "rg_QuotaExceededClients (forgetClient c g) = mdel c (rg_QuotaExceededClients g)"
  by (simp add: forgetClient_def)

lemma entry_marks [intro]:
  "marks_ok e \<Longrightarrow> marks_ok (addReg p m now e)"
  "marks_ok e \<Longrightarrow> marks_ok (removeReg c p now e)"
  "marks_ok e \<Longrightarrow> marks_ok (unregisterReg c P now e)"
  "marks_ok e \<Longrightarrow> marks_ok (moveProvider p old new e)"
  "marks_ok e \<Longrightarrow> marks_ok (refreshReg c q changed old new m now e)"
proof -
  show "marks_ok e \<Longrightarrow> marks_ok (addReg p m now e)"
    by (auto simp: marks_ok_def addReg_def split: option.splits)
  show "marks_ok e \<Longrightarrow> marks_ok (moveProvider p old new e)"
    by (erule marks_subset) (auto simp: moveProvider_def split: if_splits)
  have del: "x \<in> set (mdel c q) \<Longrightarrow> x \<in> set q" for x q using set_mdel_subset [of c q] by blast
  show "marks_ok e \<Longrightarrow> marks_ok (removeReg c p now e)"
    by (erule marks_subset) (auto dest: del simp: removeReg_def Let_def split: option.splits if_splits)
  show "marks_ok e \<Longrightarrow> marks_ok (unregisterReg c P now e)"
    by (erule marks_subset) (auto dest: del simp: unregisterReg_def Let_def split: option.splits if_splits)
  show "marks_ok e \<Longrightarrow> marks_ok (refreshReg c q changed old new m now e)"
    by (erule marks_subset) (auto dest: del simp: refreshReg_def Let_def split: option.splits if_splits)
qed

lemma op_marks [intro]:
  "marks_all ms \<Longrightarrow> marks_all (addModelRegistration i p m now ms)"
  "marks_all ms \<Longrightarrow> marks_all (removeModelRegistration c i p now ms)"
  using marks_at [of ms i "addReg p m now"] marks_at [of ms i "removeReg c p now"] entry_marks
  by (simp_all add: addModelRegistration_def removeModelRegistration_def marks_all_def)

lemma reconcile_marks:
  assumes "marks_all ms"
  shows "marks_all (reconcile c P Q oldIDs newIDs infos now ms)"
proof -
  have rem: "marks_all ((removeModelRegistration c i P now ^^ n) ms)"
    and add: "marks_all ((addModelRegistration i Q info now ^^ n) ms)"
    and none: "marks_all (((\<lambda>m. m) ^^ n) ms)" if "marks_all ms" for i n info ms
    by (rule funpow_keeps [where P = marks_all]; use that op_marks in blast)+
  show ?thesis
    unfolding reconcile_def Let_def
    by (intro fold_keeps [where P = marks_all])
      (auto simp: assms rem add none split: prod.splits intro!: marks_at fold_keeps [where P = marks_all])
qed

lemma register_marks:
  "marks_all (mr_models r) \<Longrightarrow> marks_all (mr_models (RegisterClient c p models now r))"
  "marks_all (mr_models r) \<Longrightarrow> marks_all (mr_models (unregisterClientInternal c now r))"
proof -
  show u: "marks_all (mr_models r) \<Longrightarrow> marks_all (mr_models (unregisterClientInternal c now r))"
    by (auto simp: unregisterClientInternal_def Let_def split: option.split
        intro!: fold_keeps [where P = marks_all] marks_at)
  show "marks_all (mr_models r) \<Longrightarrow> marks_all (mr_models (RegisterClient c p models now r))"
    using u by (auto simp: RegisterClient_def invalidateAvailableModelsCacheLocked_def Let_def split: option.split
        intro!: reconcile_marks fold_keeps [where P = marks_all])
qed

lemma marks_mput: "marks_all ms \<Longrightarrow> marks_ok (Some g) \<Longrightarrow> marks_all (mput k g ms)"
  by (simp add: marks_all_def go_map)

lemma marks_get: "marks_all ms \<Longrightarrow> mget ms k = Some g \<Longrightarrow> marks_ok (Some g)"
  unfolding marks_all_def by metis

lemma marks_put_time:
  assumes "marks_ok (Some g)" and "0 \<le> t" and "rg_QuotaExceededClients g' = mput c (Some t) (rg_QuotaExceededClients g)"
  shows "marks_ok (Some g')"
proof -
  have "x \<in> insert (c, Some t) (set (rg_QuotaExceededClients g))" if "x \<in> set (rg_QuotaExceededClients g')" for x
    using set_mput [of c "Some t" "rg_QuotaExceededClients g"] that assms(3) by auto
  then show ?thesis using assms(1,2) by (fastforce simp: marks_ok_def)
qed

lemma marks_del:
  assumes "marks_ok (Some g)" and "rg_QuotaExceededClients g' = mdel c (rg_QuotaExceededClients g)"
  shows "marks_ok (Some g')"
  using assms set_mdel_subset [of c "rg_QuotaExceededClients g"] by (auto simp: marks_ok_def)

lemma marks_same:
  "marks_ok (Some g) \<Longrightarrow> rg_QuotaExceededClients g' = rg_QuotaExceededClients g \<Longrightarrow> marks_ok (Some g')"
  by (simp add: marks_ok_def)

lemma projectModel_marks:
  assumes "marks_all (fst acc)" and "0 \<le> now"
  shows "marks_all (fst (projectModel c owned now proj acc))"
    and "\<not> snd (projectModel c owned now proj acc) \<Longrightarrow>
      projectModel c owned now proj acc = acc"
proof -
  show "marks_all (fst (projectModel c owned now proj acc))"
    using assms
    by (auto simp: projectModel_def Let_def projectSuspended_def projectQuota_def split: option.split prod.split
        intro!: marks_mput intro: marks_same marks_del marks_put_time dest: marks_get)
  show "projectModel c owned now proj acc = acc" if "\<not> snd (projectModel c owned now proj acc)"
    using that by (cases acc) (auto simp: projectModel_def Let_def projectSuspended_def projectQuota_def mput_same
        split: option.splits if_splits)
qed

lemma project_fold_marks:
  assumes "marks_all (fst acc)" and "0 \<le> now"
  shows "marks_all (fst (fold (projectModel c owned now) projs acc))"
    and "\<not> snd (fold (projectModel c owned now) projs acc) \<Longrightarrow> fold (projectModel c owned now) projs acc = acc"
proof -
  show "marks_all (fst (fold (projectModel c owned now) projs acc))"
    using assms by (intro fold_keeps [where P = "\<lambda>acc. marks_all (fst acc)"]) (simp_all add: projectModel_marks)
  have up: "snd acc \<longrightarrow> snd (projectModel c owned now p acc)" for p acc
    by (auto simp: projectModel_def Let_def split: option.split prod.split)
  have mono: "snd acc \<longrightarrow> snd (fold (projectModel c owned now) ps acc)" for ps acc
    using up by (induction ps arbitrary: acc) (simp, metis fold_simps(2))
  show "fold (projectModel c owned now) projs acc = acc" if "\<not> snd (fold (projectModel c owned now) projs acc)"
    using assms(1) that
  proof (induction projs)
    case (Cons p ps)
    then have "\<not> snd (projectModel c owned now p acc)" using mono by (metis fold_simps(2))
    then have "projectModel c owned now p acc = acc" using projectModel_marks(2) Cons.prems(1) assms(2) by blast
    then show ?case using Cons by simp
  qed simp
qed

section \<open>Every step keeps the cache coherent\<close>

definition listing_ok :: "(int \<Rightarrow> string) \<Rightarrow> ModelRegistry \<Rightarrow> time \<Rightarrow> bool" where
  "listing_ok rfc r t \<longleftrightarrow> 0 \<le> t \<and> marks_all (mr_models r)
     \<and> (\<forall>h ce t'. mget (mr_availableModelsCache r) h = Some ce \<longrightarrow> t \<le> t'
          \<longrightarrow> ce_expiresAt ce = 0 \<or> t' < ce_expiresAt ce
          \<longrightarrow> ce_models ce = fst (buildAvailableModelsLocked rfc h t' r))"

lemma listing_ok_later: "listing_ok rfc r t \<Longrightarrow> t \<le> t' \<Longrightarrow> listing_ok rfc r t'"
  unfolding listing_ok_def by (meson order.trans)

lemma listing_ok_same:
  "listing_ok rfc r t \<Longrightarrow> mr_models r' = mr_models r \<Longrightarrow> mr_availableModelsCache r' = mr_availableModelsCache r
     \<Longrightarrow> listing_ok rfc r' t"
  by (simp add: listing_ok_def buildAvailableModelsLocked_def)

lemma listing_ok_emptied:
  "0 \<le> t \<Longrightarrow> marks_all (mr_models r) \<Longrightarrow> listing_ok rfc (invalidateAvailableModelsCacheLocked r) t"
  by (simp add: listing_ok_def invalidateAvailableModelsCacheLocked_def)

lemma listing_ok_mark:
  "0 \<le> t \<Longrightarrow> marks_all (mr_models r) \<Longrightarrow> marks_ok (Some g) \<Longrightarrow>
     listing_ok rfc (invalidateAvailableModelsCacheLocked (r\<lparr>mr_models := mput m g (mr_models r)\<rparr>)) t"
  by (rule listing_ok_emptied) (simp_all add: marks_mput)

lemma listing_ok_GetAvailableModels:
  assumes "listing_ok rfc r t" and "mwf (mr_models r)"
  shows "listing_ok rfc (snd (GetAvailableModels rfc h t r)) t"
    and "fst (GetAvailableModels rfc h t r) = fst (buildAvailableModelsLocked rfc h t r)"
proof -
  let ?cached = "case mget (mr_availableModelsCache r) h of
      Some cache \<Rightarrow> if IsZero (ce_expiresAt cache) \<or> Before t (ce_expiresAt cache) then Some cache else None
    | None \<Rightarrow> None"
  have "listing_ok rfc (snd (GetAvailableModels rfc h t r)) t
    \<and> fst (GetAvailableModels rfc h t r) = fst (buildAvailableModelsLocked rfc h t r)"
  proof (cases ?cached)
    case (Some ce)
    then have "mget (mr_availableModelsCache r) h = Some ce" "ce_expiresAt ce = 0 \<or> t < ce_expiresAt ce"
      by (auto split: option.splits if_splits)
    then have "ce_models ce = fst (buildAvailableModelsLocked rfc h t r)"
      using assms(1) unfolding listing_ok_def by blast
    then show ?thesis using Some assms(1) by (simp add: GetAvailableModels_def)
  next
    case None
    obtain L x where b: "buildAvailableModelsLocked rfc h t r = (L, x)" by fastforce
    have m: "marks_ok (Some g)" if "(k, g) \<in> set (mr_models r)" for k g
      using that assms marks_get by (auto simp: listing_ok_def mget_iff_in [symmetric])
    have t0: "0 \<le> t" using assms(1) by (simp add: listing_ok_def)
    let ?r' = "r\<lparr>mr_availableModelsCache := mput h \<lparr>ce_models = L, ce_expiresAt = x\<rparr> (mr_availableModelsCache r)\<rparr>"
    have r': "GetAvailableModels rfc h t r = (L, ?r')" using None b by (simp add: GetAvailableModels_def)
    have new: "fst (buildAvailableModelsLocked rfc h t' r) = L" if "t \<le> t'" "x = 0 \<or> t' < x" for t'
    proof -
      have "let (L', x') = fold (build_step rfc h t) (mr_models r) ([], 0) in
          ((0 :: time) \<noteq> 0 \<longrightarrow> x' \<noteq> 0 \<and> x' \<le> 0)
          \<and> (\<forall>t' \<ge> t. x' = 0 \<or> t' < x' \<longrightarrow> fst (fold (build_step rfc h t') (mr_models r) ([], 0)) = L')"
        by (rule build_stable) (use m t0 in auto)
      then show ?thesis using b that unfolding buildAvailableModelsLocked_def by (simp, blast)
    qed
    have "ce_models ce = fst (buildAvailableModelsLocked rfc h' t' ?r')"
      if "mget (mr_availableModelsCache ?r') h' = Some ce" "t \<le> t'" "ce_expiresAt ce = 0 \<or> t' < ce_expiresAt ce" for h' ce t'
    proof (cases "h' = h")
      case True
      then have "ce = \<lparr>ce_models = L, ce_expiresAt = x\<rparr>" using that(1) by (simp add: go_map)
      then show ?thesis using new [of t'] that True by (simp add: buildAvailableModelsLocked_def)
    next
      case False
      then have "mget (mr_availableModelsCache r) h' = Some ce" using that(1) by (simp add: go_map)
      then have "ce_models ce = fst (buildAvailableModelsLocked rfc h' t' r)"
        using assms(1) that(2,3) unfolding listing_ok_def by blast
      then show ?thesis by (simp add: buildAvailableModelsLocked_def)
    qed
    then show ?thesis using assms(1) b unfolding r' by (simp add: listing_ok_def)
  qed
  then show "listing_ok rfc (snd (GetAvailableModels rfc h t r)) t"
    "fst (GetAvailableModels rfc h t r) = fst (buildAvailableModelsLocked rfc h t r)" by simp_all
qed

lemma listing_ok_step:
  assumes "registry_step rfc t r r'" and ok: "listing_ok rfc r t" and wf: "mwf (mr_models r)"
  shows "listing_ok rfc r' t"
proof -
  have t: "0 \<le> t" and m: "marks_all (mr_models r)" using ok by (simp_all add: listing_ok_def)
  note get = marks_get [OF m]
  show ?thesis
    using assms(1)
  proof cases
    case (register c p models)
    have "\<exists>r1. RegisterClient c p models t r = invalidateAvailableModelsCacheLocked r1"
      by (auto simp: RegisterClient_def Let_def)
    then show ?thesis using register register_marks(1) [OF m, of c p models t] t
      by (auto simp: listing_ok_def invalidateAvailableModelsCacheLocked_def)
  next
    case (unregister c)
    then show ?thesis using register_marks(2) [OF m] t by (simp add: UnregisterClient_def listing_ok_emptied)
  next
    case (set_quota c i)
    then show ?thesis using ok t m get
      by (auto simp: SetModelQuotaExceeded_def split: option.split intro!: listing_ok_mark intro: marks_put_time [OF get t])
  next
    case (clear_quota c i)
    then show ?thesis using ok t m get
      by (auto simp: ClearModelQuotaExceeded_def split: option.split intro!: listing_ok_mark intro: marks_del [OF get])
  next
    case (suspend c i reason)
    then show ?thesis using ok t m get
      by (auto simp: SuspendClientModel_def split: option.split intro!: listing_ok_mark intro: marks_same [OF get])
  next
    case (resume c i)
    then show ?thesis using ok t m get
      by (auto simp: ResumeClientModel_def split: option.split intro!: listing_ok_mark intro: marks_same [OF get])
  next
    case (project c epoch gen projs)
    let ?o = "set (filter (\<lambda>m. m \<noteq> []) (map TrimSpace (mgetd [] (mr_clientModels r) (TrimSpace c))))"
    obtain models changed where f: "fold (projectModel (TrimSpace c) ?o t) projs (mr_models r, False) = (models, changed)"
      by fastforce
    have "marks_all models" "\<not> changed \<Longrightarrow> models = mr_models r"
      using project_fold_marks [where acc = "(mr_models r, False)" and c = "TrimSpace c" and owned = ?o and projs = projs and now = t]
        m t unfolding f by simp_all
    then show ?thesis using project ok t f
      by (auto simp: ApplyClientModelProjections_def Let_def intro: listing_ok_emptied listing_ok_same)
  next
    case cleanup
    let ?exp = "\<lambda>e :: string \<times> time option. case snd e of Some u \<Rightarrow> t - u \<ge> modelQuotaExceededWindow | None \<Rightarrow> False"
    let ?f = "\<lambda>g. g\<lparr>rg_QuotaExceededClients := filter (\<lambda>e. \<not> ?exp e) (rg_QuotaExceededClients g)\<rparr>"
    have "marks_all (map (\<lambda>(k, g). (k, ?f g)) (mr_models r))"
      using m by (auto simp: marks_all_def mget_map_value marks_ok_def)
    moreover have "map (\<lambda>(k, g). (k, ?f g)) (mr_models r) = mr_models r"
      if "\<not> list_ex (\<lambda>(k, g). list_ex ?exp (rg_QuotaExceededClients g)) (mr_models r)"
      using that by (intro map_idI) (fastforce simp: list_ex_iff filter_id_conv)
    ultimately show ?thesis using cleanup ok t
      by (auto simp: CleanupExpiredQuotas_def Let_def intro: listing_ok_emptied listing_ok_same)
  next
    case (listing h)
    then show ?thesis using listing_ok_GetAvailableModels(1) [OF ok wf] by simp
  qed
qed

lemma listing_ok_run:
  assumes "registry_run rfc NewModelRegistry t0 r t" and "0 \<le> t0"
  shows "listing_ok rfc r t"
  using assms
proof (induction rule: registry_run.induct)
  case start
  then show ?case by (simp add: listing_ok_def NewModelRegistry_def marks_all_def marks_ok_def)
next
  case (step r t t' r')
  have "mwf (mr_models r)" using registry_run_inv [OF step.hyps(1) NewModelRegistry_inv] by (simp add: registry_inv_def)
  then show ?case using listing_ok_step [OF step.hyps(3)] listing_ok_later step by blast
qed

section \<open>Properties\<close>

text \<open>C3:
  After any run of the registry's operations from the empty registry, whatever their order and their
  arguments: a model has an entry exactly when some registered client lists it; its count is the number
  of places it has in the lists of all clients; and the count that it keeps for a provider is the number
  of places in the lists of the clients of that provider, with no entry for a provider with none.
\<close>

theorem registry_counts:
  assumes "registry_run rfc NewModelRegistry t0 r t"
  shows "(mget (mr_models r) m \<noteq> None \<longleftrightarrow> (\<exists>c ids. mget (mr_clientModels r) c = Some ids \<and> m \<in> set ids))
     \<and> (\<forall>g. mget (mr_models r) m = Some g \<longrightarrow> rg_Count g = offered r m
          \<and> (\<forall>p. p \<noteq> [] \<longrightarrow>
               mget (rg_Providers g) p = (if offeredBy r p m > 0 then Some (offeredBy r p m) else None)))"
proof -
  have inv: "registry_inv r" using registry_run_inv [OF assms NewModelRegistry_inv] .
  then have e: "entry_ok (offered r m) (\<lambda>p. offeredBy r p m) (mget (mr_models r) m)" and wf: "mwf (mr_clientModels r)"
    by (simp_all add: registry_inv_def)
  have pos: "mget (mr_models r) m \<noteq> None \<longleftrightarrow> offered r m > 0" using e by (auto simp: entry_ok_def split: option.splits)
  have "mget (mr_models r) m \<noteq> None \<longleftrightarrow> (\<exists>c ids. mget (mr_clientModels r) c = Some ids \<and> m \<in> set ids)"
  proof
    assume "mget (mr_models r) m \<noteq> None"
    then obtain c ids where "(c, ids) \<in> set (mr_clientModels r)" "int (count_list ids m) > 0"
      using pos msum_pos [of "\<lambda>c ids. int (count_list ids m)" "mr_clientModels r"] by (auto simp: offered_def)
    then have "mget (mr_clientModels r) c = Some ids \<and> m \<in> set ids"
      using wf count_list_0_iff [of ids m] by (auto simp: mget_iff_in)
    then show "\<exists>c ids. mget (mr_clientModels r) c = Some ids \<and> m \<in> set ids" by blast
  next
    assume "\<exists>c ids. mget (mr_clientModels r) c = Some ids \<and> m \<in> set ids"
    then obtain c ids where "mget (mr_clientModels r) c = Some ids" "m \<in> set ids" by blast
    then have "0 < int (count_list ids m)" "int (count_list ids m) \<le> offered r m"
      using offered_client(1) count_list_0_iff [of ids m] by (auto simp: neq0_conv)
    then show "mget (mr_models r) m \<noteq> None" using pos by linarith
  qed
  moreover have "rg_Count g = offered r m" "p \<noteq> [] \<longrightarrow>
      mget (rg_Providers g) p = (if offeredBy r p m > 0 then Some (offeredBy r p m) else None)"
    if "mget (mr_models r) m = Some g" for g p
    using e that by (simp_all add: entry_ok_def)
  ultimately show ?thesis by blast
qed

lemma run_step: "registry_run rfc r0 t0 r t \<Longrightarrow> registry_step rfc t' r r' \<Longrightarrow> t \<le> t' \<Longrightarrow> registry_run rfc r0 t0 r' t'"
  by (rule registry_run.step)

definition sample_registry :: ModelRegistry where
  \<comment> \<open>two clients, of which one lists the model twice\<close>
  "sample_registry =
     (let model = zeroModelInfo\<lparr>mi_ID := ''m''\<rparr> in
      RegisterClient ''b'' ''Gemini'' [Some model] 7
        (RegisterClient ''a'' ''openai'' [Some model, None, Some model] 5 NewModelRegistry))"

lemma sample_run: "registry_run rfc NewModelRegistry 1 sample_registry 7"
  unfolding sample_registry_def Let_def
  by (rule run_step [OF run_step [OF registry_run.start registry_step.register] registry_step.register]) simp_all

lemma registry_counts_witness:
  "rg_Count (the (mget (mr_models sample_registry) ''m'')) = offered sample_registry ''m''
   \<and> offered sample_registry ''m'' = 3
   \<and> mget (rg_Providers (the (mget (mr_models sample_registry) ''m''))) ''openai'' = Some 2"
proof -
  obtain g where g: "mget (mr_models sample_registry) ''m'' = Some g"
    by (cases "mget (mr_models sample_registry) ''m''") (code_simp, blast)
  have "offered sample_registry ''m'' = 3" "offeredBy sample_registry ''openai'' ''m'' = 2" by code_simp+
  then show ?thesis using registry_counts [where m = "''m''", OF sample_run] by (simp add: g)
qed

text \<open>C31:
  A projection that was computed for an earlier registration of a client does nothing: once the client
  has been registered again or unregistered, and whatever else has happened to the registry since,
  applying projections with the epoch read before returns false and leaves the registry as it is. The
  registration of a client with no model, which unregisters it, is no exception.
\<close>

theorem stale_projection_rejected:
  assumes "registry_run rfc ra ta rb tb" and "rc = RegisterClient c p models tc rb \<or> rc = UnregisterClient c tc rb"
    and "registry_run rfc rc tc rd td" and "TrimSpace c = c"
  shows "ApplyClientModelProjections c (ClientRegistrationEpoch c ra) gen projs now rd = (rd, False)"
proof -
  have "ClientRegistrationEpoch c ra \<le> ClientRegistrationEpoch c rb" using epoch_run [OF assms(1)] .
  also have "\<dots> < ClientRegistrationEpoch c rc"
    using assms(2) by (auto simp: epoch_register epoch_unregister UnregisterClient_def)
  also have "\<dots> \<le> ClientRegistrationEpoch c rd" using epoch_run [OF assms(3)] .
  finally show ?thesis
    using assms(4) by (simp add: ApplyClientModelProjections_def ClientRegistrationEpoch_def Let_def)
qed

lemma stale_projection_rejected_witness:
  "let r = RegisterClient ''a'' ''openai'' [Some (zeroModelInfo\<lparr>mi_ID := ''m''\<rparr>)] 8 sample_registry in
   ApplyClientModelProjections ''a'' 1 7 [\<lparr>pj_ModelID = ''m'', pj_Suspended = True, pj_SuspendReason = ''quota'',
       pj_QuotaExceeded = True\<rparr>] 9 r = (r, False)"
proof -
  let ?r = "RegisterClient ''a'' ''openai'' [Some (zeroModelInfo\<lparr>mi_ID := ''m''\<rparr>)] 8 sample_registry"
  have "ClientRegistrationEpoch ''a'' sample_registry = 1" "TrimSpace ''a'' = ''a''" by code_simp+
  moreover have "registry_run (\<lambda>_. []) r t r t" for r t by (rule registry_run.start)
  ultimately show ?thesis
    using stale_projection_rejected [where rfc = "\<lambda>_. []" and ra = sample_registry and rb = sample_registry
        and ta = 7 and tb = 7 and rc = ?r and tc = 8 and rd = ?r and td = 8 and c = "''a''"
        and p = "''openai''" and models = "[Some (zeroModelInfo\<lparr>mi_ID := ''m''\<rparr>)]"]
    by (simp add: Let_def)
qed

text \<open>C33:
  The cache of listings is transparent: in every state that a run from the empty registry reaches, the
  listing a handler gets is the one that a computation from the current registrations would give at that
  moment, whether it comes from the cache or not.
\<close>

theorem available_cache_coherent:
  assumes "registry_run rfc NewModelRegistry t0 r t" and "0 \<le> t0" and "t \<le> now"
  shows "fst (GetAvailableModels rfc h now r) = fst (buildAvailableModelsLocked rfc h now r)"
proof -
  have "listing_ok rfc r now" using listing_ok_run [OF assms(1,2)] listing_ok_later assms(3) by blast
  moreover have "mwf (mr_models r)"
    using registry_run_inv [OF assms(1) NewModelRegistry_inv] by (simp add: registry_inv_def)
  ultimately show ?thesis by (rule listing_ok_GetAvailableModels(2))
qed

lemma available_cache_coherent_witness:
  "let r = snd (GetAvailableModels (\<lambda>_. []) ''any'' 8 (SetModelQuotaExceeded ''b'' ''m'' 7 sample_registry)) in
   mget (mr_availableModelsCache r) ''any'' \<noteq> None
   \<and> fst (GetAvailableModels (\<lambda>_. []) ''any'' 9 r) = fst (buildAvailableModelsLocked (\<lambda>_. []) ''any'' 9 r)
   \<and> fst (GetAvailableModels (\<lambda>_. []) ''any'' 9 r) = [AnyMap [(''id'', AnyString ''m''), (''object'', AnyString ''model'')]]"
proof -
  let ?r1 = "SetModelQuotaExceeded ''b'' ''m'' 7 sample_registry"
  let ?r = "snd (GetAvailableModels (\<lambda>_. []) ''any'' 8 ?r1)"
  have run: "registry_run (\<lambda>_. []) NewModelRegistry 1 ?r 8"
    by (rule run_step [OF run_step [OF sample_run registry_step.set_quota] registry_step.listing]) simp_all
  have "mget (mr_availableModelsCache ?r) ''any'' \<noteq> None"
    "fst (GetAvailableModels (\<lambda>_. []) ''any'' 9 ?r) = [AnyMap [(''id'', AnyString ''m''), (''object'', AnyString ''model'')]]"
    by code_simp+
  then show ?thesis using available_cache_coherent [OF run, of 9 "''any''"] unfolding Let_def by simp
qed

end
