(* ===== verification/ExecutionRegistry.thy ===== *)
theory ExecutionRegistry
  imports Prelude
begin

text \<open>
  \<open>sdk/cliproxy/executionregistry\<close>: the dispatches in flight during one subscription to the Home cluster,
  from the reservation of a slot over the installed execution to the release of the slot, and the
  draining of the registry.

  Every critical section of the registry's mutex, and every step of a call that runs outside it, is a
  function on the state. A section that reads the atomic \<open>state\<close> takes effect at that read: whatever it
  writes is guarded by the mutex, so nothing distinguishes this order from the real one. Objects behind
  pointers live in maps keyed by their ID, and a function that takes an object that is not there yet, or
  that is called out of turn, leaves the state as it is. A close function is known by a number, and so is
  a release sink; the channel \<open>changed\<close>, which is closed and replaced to wake the waiters, is a counter.
\<close>

section \<open>State\<close>

datatype RegistryState = StateAccepting | StateDraining | StateClosed

datatype registry_error =
    ErrRegistryNotAccepting | ErrRegistryClosed | ErrInvalidPendingDispatch
  | ErrInvalidExecutionResource | ErrExecutionResourceAlreadyBound | ErrContext

record ReleaseGroup =
  gr_CredentialID :: string
  gr_Model :: string

record ScopeSpec =
  sp_RequestID :: string
  sp_CredentialID :: string
  sp_Model :: string
  sp_Kind :: string
  sp_StartedAt :: time
  sp_Accounted :: bool

record ReleaseTicket =
  tk_Group :: ReleaseGroup
  tk_Sequence :: int
  tk_done :: nat \<comment> \<open>the channel that Home's acknowledgement closes\<close>

definition NewReleaseTicket :: "ReleaseGroup \<Rightarrow> int \<Rightarrow> nat option \<Rightarrow> ReleaseTicket option" where
  "NewReleaseTicket grp sequence ch =
     (case ch of None \<Rightarrow> None
      | Some c \<Rightarrow> if sequence \<le> 0 then None else Some \<lparr>tk_Group = grp, tk_Sequence = sequence, tk_done = c\<rparr>)"

type_synonym resource = nat
type_synonym sink = nat

text \<open>How far the one execution of the body of \<open>EndWithRelease\<close> has come.\<close>

datatype end_phase =
    NotEnded
  | Entered \<comment> \<open>no longer active\<close>
  | Waiting \<comment> \<open>until the bound resource is closed\<close>
  | Quiet \<comment> \<open>nothing left to close\<close>
  | Released "sink option" ReleaseGroup int \<comment> \<open>what \<open>markReleasedLocked\<close> returned\<close>
  | Acked "ReleaseTicket option" \<comment> \<open>what the sink returned\<close>
  | Stored
  | Ended

record Scope =
  sc_spec :: ScopeSpec
  sc_closeFn :: "resource option"
  sc_closing :: "resource option" \<comment> \<open>the resource whose \<open>closeDone\<close> channel exists\<close>
  sc_closeDone :: bool \<comment> \<open>that channel is closed\<close>
  sc_releaseTicket :: "ReleaseTicket option"
  sc_active :: bool
  sc_end :: end_phase

record Registry =
  xr_state :: RegistryState
  xr_next :: nat
  xr_snapshotRevision :: int
  xr_observedBarrier :: int
  xr_pendingBarrierSequence :: nat
  xr_publishedBarrier :: int
  xr_pending :: "nat list" \<comment> \<open>the keys of \<open>pending\<close>\<close>
  xr_scopes :: "nat list" \<comment> \<open>the keys of \<open>scopes\<close>\<close>
  xr_releaseSequences :: "(ReleaseGroup, int) gomap"
  xr_releaseSink :: "sink option"
  xr_changed :: nat
  xr_tokens :: "(nat, bool) gomap" \<comment> \<open>the dispatch tokens, and whether their \<open>once\<close> is spent\<close>
  xr_objects :: "(nat, Scope) gomap" \<comment> \<open>the scopes that were ever made\<close>

definition New_registry :: Registry where
  "New_registry =
     \<lparr>xr_state = StateAccepting, xr_next = 0, xr_snapshotRevision = 0, xr_observedBarrier = 0,
      xr_pendingBarrierSequence = 0, xr_publishedBarrier = 0, xr_pending = [], xr_scopes = [],
      xr_releaseSequences = [], xr_releaseSink = None, xr_changed = 0, xr_tokens = [], xr_objects = []\<rparr>"

definition signalLocked :: "'a Registry_scheme \<Rightarrow> 'a Registry_scheme" where
  "signalLocked r = r\<lparr>xr_changed := xr_changed r + 1\<rparr>"

section \<open>Dispatch tokens\<close>

definition BeginDispatch :: "'a Registry_scheme \<Rightarrow> (registry_error + nat) \<times> 'a Registry_scheme" where
  "BeginDispatch r =
     (if xr_state r \<noteq> StateAccepting then (Inl ErrRegistryNotAccepting, r)
      else (let i = xr_next r + 1 in
        (Inr i, r\<lparr>xr_next := i, xr_pending := xr_pending r @ [i], xr_tokens := mput i False (xr_tokens r)\<rparr>)))"

definition spendToken :: "nat \<Rightarrow> 'a Registry_scheme \<Rightarrow> 'a Registry_scheme" where
  "spendToken i r = signalLocked (r\<lparr>xr_tokens := mput i True (xr_tokens r), xr_pending := removeAll i (xr_pending r)\<rparr>)"

definition PendingDispatch_End :: "nat \<Rightarrow> 'a Registry_scheme \<Rightarrow> 'a Registry_scheme" where
  "PendingDispatch_End i r = (if mget (xr_tokens r) i = Some False then spendToken i r else r)"

definition Install ::
  "nat option \<Rightarrow> ScopeSpec \<Rightarrow> 'a Registry_scheme \<Rightarrow> (registry_error + nat) \<times> 'a Registry_scheme" where
  \<comment> \<open>\<open>None\<close> is a nil token or one of another registry\<close>
  "Install pending spec r =
     (case pending of
        None \<Rightarrow> (Inl ErrInvalidPendingDispatch, r)
      | Some i \<Rightarrow>
          if mget (xr_tokens r) i = None then (Inl ErrInvalidPendingDispatch, r)
          else if xr_state r \<noteq> StateAccepting then (Inl ErrRegistryNotAccepting, spendToken i r)
          else if i \<notin> set (xr_pending r) then (Inl ErrInvalidPendingDispatch, r)
          else (let scope = \<lparr>sc_spec = spec, sc_closeFn = None, sc_closing = None, sc_closeDone = False,
                             sc_releaseTicket = None, sc_active = True, sc_end = NotEnded\<rparr>
                in (Inr i, spendToken i
                      (r\<lparr>xr_objects := mput i scope (xr_objects r), xr_scopes := xr_scopes r @ [i]\<rparr>))))"

section \<open>Resources of a scope\<close>

definition onScope :: "nat \<Rightarrow> (Scope \<Rightarrow> Scope) \<Rightarrow> 'a Registry_scheme \<Rightarrow> 'a Registry_scheme" where
  "onScope i f r =
     (case mget (xr_objects r) i of None \<Rightarrow> r | Some sc \<Rightarrow> r\<lparr>xr_objects := mput i (f sc) (xr_objects r)\<rparr>)"

definition Bind ::
  "nat \<Rightarrow> resource option \<Rightarrow> 'a Registry_scheme \<Rightarrow> registry_error option \<times> 'a Registry_scheme" where
  "Bind i closeFn r =
     (case (mget (xr_objects r) i, closeFn) of
        (Some sc, Some f) \<Rightarrow>
          if xr_state r \<noteq> StateAccepting \<or> \<not> sc_active sc then (Some ErrRegistryNotAccepting, r)
          else if sc_closeFn sc \<noteq> None \<or> sc_closing sc \<noteq> None then (Some ErrExecutionResourceAlreadyBound, r)
          else (None, onScope i (\<lambda>sc. sc\<lparr>sc_closeFn := Some f\<rparr>) r)
      | _ \<Rightarrow> (Some ErrInvalidExecutionResource, r))"

definition startBoundResourceClose :: "Scope \<Rightarrow> Scope" where
  \<comment> \<open>the closing goroutine is started when \<open>sc_closing\<close> is set\<close>
  "startBoundResourceClose sc =
     (if sc_closing sc \<noteq> None then sc
      else case sc_closeFn sc of
          None \<Rightarrow> sc
        | Some f \<Rightarrow> sc\<lparr>sc_closeFn := None, sc_closing := Some f\<rparr>)"

section \<open>\<open>EndWithRelease\<close>, step by step\<close>

definition end_enter :: "nat \<Rightarrow> 'a Registry_scheme \<Rightarrow> 'a Registry_scheme" where
  "end_enter i = onScope i (\<lambda>sc. if sc_end sc = NotEnded then sc\<lparr>sc_active := False, sc_end := Entered\<rparr> else sc)"

definition end_startClose :: "nat \<Rightarrow> 'a Registry_scheme \<Rightarrow> 'a Registry_scheme" where
  "end_startClose i = onScope i (\<lambda>sc.
     if sc_end sc = Entered
     then (let sc' = startBoundResourceClose sc in sc'\<lparr>sc_end := if sc_closing sc' \<noteq> None then Waiting else Quiet\<rparr>)
     else sc)"

definition end_waited :: "nat \<Rightarrow> 'a Registry_scheme \<Rightarrow> 'a Registry_scheme" where
  "end_waited i = onScope i (\<lambda>sc. if sc_end sc = Waiting \<and> sc_closeDone sc then sc\<lparr>sc_end := Quiet\<rparr> else sc)"

definition groupOf :: "ScopeSpec \<Rightarrow> ReleaseGroup" where
  "groupOf spec = \<lparr>gr_CredentialID = sp_CredentialID spec, gr_Model = sp_Model spec\<rparr>"

definition noGroup :: ReleaseGroup where "noGroup = \<lparr>gr_CredentialID = [], gr_Model = []\<rparr>"

definition markReleasedLocked ::
  "ScopeSpec \<Rightarrow> 'a Registry_scheme \<Rightarrow> (sink option \<times> ReleaseGroup \<times> int) \<times> 'a Registry_scheme" where
  "markReleasedLocked spec r =
     (if \<not> sp_Accounted spec then ((None, noGroup, 0), r)
      else (let n = mgetd 0 (xr_releaseSequences r) (groupOf spec) + 1 in
        ((xr_releaseSink r, groupOf spec, n), r\<lparr>xr_releaseSequences := mput (groupOf spec) n (xr_releaseSequences r)\<rparr>)))"

definition end_mark :: "nat \<Rightarrow> 'a Registry_scheme \<Rightarrow> 'a Registry_scheme" where
  "end_mark i r =
     (case mget (xr_objects r) i of
        None \<Rightarrow> r
      | Some sc \<Rightarrow>
          if sc_end sc \<noteq> Quiet then r
          else (case markReleasedLocked (sc_spec sc) r of ((sink, grp, n), r') \<Rightarrow>
            onScope i (\<lambda>sc. sc\<lparr>sc_end := Released sink grp n\<rparr>) r'))"

definition calls_sink :: "end_phase \<Rightarrow> bool" where
  "calls_sink p = (case p of Released sink grp n \<Rightarrow> sink \<noteq> None \<and> n > 0 | _ \<Rightarrow> False)"

definition end_sink :: "ReleaseTicket option \<Rightarrow> nat \<Rightarrow> 'a Registry_scheme \<Rightarrow> 'a Registry_scheme" where
  \<comment> \<open>\<open>answer\<close> is what the sink returns when it is called\<close>
  "end_sink answer i = onScope i (\<lambda>sc.
     case sc_end sc of
       Released sink grp n \<Rightarrow> sc\<lparr>sc_end := Acked (if calls_sink (sc_end sc) then answer else None)\<rparr>
     | _ \<Rightarrow> sc)"

definition end_store :: "nat \<Rightarrow> 'a Registry_scheme \<Rightarrow> 'a Registry_scheme" where
  "end_store i = onScope i (\<lambda>sc.
     case sc_end sc of Acked ticket \<Rightarrow> sc\<lparr>sc_releaseTicket := ticket, sc_end := Stored\<rparr> | _ \<Rightarrow> sc)"

definition end_remove :: "nat \<Rightarrow> 'a Registry_scheme \<Rightarrow> 'a Registry_scheme" where
  "end_remove i r =
     (case mget (xr_objects r) i of
        None \<Rightarrow> r
      | Some sc \<Rightarrow>
          if sc_end sc \<noteq> Stored then r
          else signalLocked (onScope i (\<lambda>sc. sc\<lparr>sc_end := Ended\<rparr>) (r\<lparr>xr_scopes := removeAll i (xr_scopes r)\<rparr>)))"

definition EndWithRelease_result :: "nat \<Rightarrow> 'a Registry_scheme \<Rightarrow> ReleaseTicket option" where
  \<comment> \<open>what every caller gets once the body has been executed\<close>
  "EndWithRelease_result i r = (case mget (xr_objects r) i of None \<Rightarrow> None | Some sc \<Rightarrow> sc_releaseTicket sc)"

section \<open>Release sinks\<close>

datatype raw_sink = NilSink | TicketSink sink | LegacySink sink | OtherValue

definition SetReleaseSink :: "raw_sink \<Rightarrow> 'a Registry_scheme \<Rightarrow> (sink \<times> ReleaseGroup \<times> int) list \<times> 'a Registry_scheme" where
  \<comment> \<open>the calls that replay the known groups, and the state; a legacy callback is a sink without tickets\<close>
  "SetReleaseSink raw r =
     (case raw of
        OtherValue \<Rightarrow> ([], r)
      | NilSink \<Rightarrow> ([], r\<lparr>xr_releaseSink := None\<rparr>)
      | TicketSink k \<Rightarrow> (map (\<lambda>(g, n). (k, g, n)) (filter (\<lambda>(g, n). n > 0) (xr_releaseSequences r)), r\<lparr>xr_releaseSink := Some k\<rparr>)
      | LegacySink k \<Rightarrow> (map (\<lambda>(g, n). (k, g, n)) (filter (\<lambda>(g, n). n > 0) (xr_releaseSequences r)), r\<lparr>xr_releaseSink := Some k\<rparr>))"

section \<open>Snapshots\<close>

record Observation =
  ob_RequestID :: string
  ob_CredentialID :: string
  ob_Model :: string
  ob_RequestKind :: string
  ob_StartedAt :: time
  ob_Accounted :: bool

record Freeze =
  fz_Revision :: int
  fz_BarrierRevision :: int
  fz_Executions :: "Observation list"

definition ObserveBarrier :: "int \<Rightarrow> 'a Registry_scheme \<Rightarrow> 'a Registry_scheme" where
  "ObserveBarrier revision r =
     (if revision \<le> 0 then r
      else if revision > xr_observedBarrier r
      then r\<lparr>xr_observedBarrier := revision, xr_pendingBarrierSequence := xr_next r\<rparr>
      else r)"

definition observation :: "ScopeSpec \<Rightarrow> Observation" where
  "observation spec =
     \<lparr>ob_RequestID = sp_RequestID spec, ob_CredentialID = sp_CredentialID spec, ob_Model = sp_Model spec,
      ob_RequestKind = sp_Kind spec, ob_StartedAt = sp_StartedAt spec, ob_Accounted = sp_Accounted spec\<rparr>"

definition FreezeInFlight :: "'a Registry_scheme \<Rightarrow> Freeze \<times> 'a Registry_scheme" where
  "FreezeInFlight r =
     (let blocked = list_ex (\<lambda>i. i \<le> xr_pendingBarrierSequence r) (xr_pending r);
          published = (if xr_observedBarrier r > xr_publishedBarrier r \<and> \<not> blocked then xr_observedBarrier r
                       else xr_publishedBarrier r);
          r' = r\<lparr>xr_publishedBarrier := published, xr_snapshotRevision := xr_snapshotRevision r + 1\<rparr>
      in (\<lparr>fz_Revision = xr_snapshotRevision r', fz_BarrierRevision = published,
           fz_Executions = List.map_filter (\<lambda>i. map_option (\<lambda>sc. observation (sc_spec sc)) (mget (xr_objects r) i)) (xr_scopes r)\<rparr>,
          r'))"

section \<open>Draining and closing\<close>

text \<open>
  Any number of goroutines may drain or wait for the pending dispatches; one at most closes, and the others wait for it. The logs record
  which resources have been bound and closed, which scopes have been marked released, the calls of the sink by the bodies of
  \<open>EndWithRelease\<close>, and the replays: \<open>SetReleaseSink\<close> copies the known groups under the lock and calls the sink after it has
  released it, in the order of a map, so a replay that is still to come is any member of \<open>sy_replaying\<close>.
\<close>

datatype drain_pc =
    DrainSnapshot
  | DrainCloses "nat list"
  | DrainWaits nat \<comment> \<open>for a value of \<open>changed\<close> beyond this\<close>
  | DrainReturned "registry_error option"

datatype wait_pc = PendingWaits nat | PendingReturned "registry_error option"

datatype close_pc = CloseNotStarted | CloseStarted | CloseSnapshot | CloseStarts "nat list" | CloseWaits nat "nat list" | CloseDone

record System = Registry +
  sy_drains :: "(nat, drain_pc) gomap"
  sy_waits :: "(nat, wait_pc) gomap"
  sy_close :: close_pc
  sy_closed :: "(nat \<times> resource) list"
  sy_marks :: "(nat \<times> ReleaseGroup \<times> int) list"
  sy_calls :: "(nat \<times> sink \<times> ReleaseGroup \<times> int) list"
  sy_bound :: "(nat \<times> resource) list"
  sy_replaying :: "(sink \<times> ReleaseGroup \<times> int) list"
  sy_replays :: "(sink \<times> ReleaseGroup \<times> int) list"

definition wait_check :: "nat \<Rightarrow> System \<Rightarrow> System" where
  "wait_check w s =
     (if xr_pending s \<noteq> [] then s\<lparr>sy_waits := mput w (PendingWaits (xr_changed s)) (sy_waits s)\<rparr>
      else s\<lparr>sy_waits := mput w (PendingReturned None) (sy_waits s)\<rparr>)"

definition wait_step :: "nat \<Rightarrow> System \<Rightarrow> System" where
  \<comment> \<open>\<open>WaitPending\<close> is called, or woken\<close>
  "wait_step w s =
     (case mget (sy_waits s) w of
        None \<Rightarrow> wait_check w s
      | Some (PendingWaits g) \<Rightarrow> (if xr_changed s > g then wait_check w s else s)
      | Some (PendingReturned e) \<Rightarrow> s)"

definition wait_cancel :: "nat \<Rightarrow> System \<Rightarrow> System" where
  "wait_cancel w s =
     (case mget (sy_waits s) w of
        Some (PendingWaits g) \<Rightarrow> s\<lparr>sy_waits := mput w (PendingReturned (Some ErrContext)) (sy_waits s)\<rparr>
      | _ \<Rightarrow> s)"

definition drain_start :: "nat \<Rightarrow> System \<Rightarrow> System" where
  "drain_start d s =
     (if mget (sy_drains s) d \<noteq> None then s
      else if xr_state s = StateClosed then s\<lparr>sy_drains := mput d (DrainReturned (Some ErrRegistryClosed)) (sy_drains s)\<rparr>
      else s\<lparr>xr_state := StateDraining, sy_drains := mput d DrainSnapshot (sy_drains s)\<rparr>)"

definition drain_check :: "nat \<Rightarrow> System \<Rightarrow> System" where
  "drain_check d s =
     (if xr_pending s \<noteq> [] \<or> xr_scopes s \<noteq> []
      then s\<lparr>sy_drains := mput d (DrainWaits (xr_changed s)) (sy_drains s)\<rparr>
      else s\<lparr>xr_state := StateClosed, sy_drains := mput d (DrainReturned None) (sy_drains s)\<rparr>)"

definition drain_step :: "nat \<Rightarrow> System \<Rightarrow> System" where
  "drain_step d s =
     (case mget (sy_drains s) d of
        Some DrainSnapshot \<Rightarrow> s\<lparr>sy_drains := mput d (DrainCloses (xr_scopes s)) (sy_drains s)\<rparr>
      | Some (DrainCloses (i # is)) \<Rightarrow>
          onScope i startBoundResourceClose (s\<lparr>sy_drains := mput d (DrainCloses is) (sy_drains s)\<rparr>)
      | Some (DrainCloses []) \<Rightarrow> drain_check d s
      | Some (DrainWaits g) \<Rightarrow> (if xr_changed s > g then drain_check d s else s)
      | _ \<Rightarrow> s)"

definition drain_cancel :: "nat \<Rightarrow> System \<Rightarrow> System" where
  \<comment> \<open>the context of a waiting drain ends\<close>
  "drain_cancel d s =
     (case mget (sy_drains s) d of
        Some (DrainWaits g) \<Rightarrow> s\<lparr>sy_drains := mput d (DrainReturned (Some ErrContext)) (sy_drains s)\<rparr>
      | _ \<Rightarrow> s)"

definition close_start :: "System \<Rightarrow> System" where
  \<comment> \<open>a further caller waits for \<open>CloseDone\<close>; on a closed registry nothing is left to do\<close>
  "close_start s =
     (if sy_close s \<noteq> CloseNotStarted \<or> xr_state s = StateClosed then s else s\<lparr>sy_close := CloseStarted\<rparr>)"

definition scope_closed :: "Scope \<Rightarrow> bool" where
  "scope_closed sc \<longleftrightarrow> sc_closing sc = None \<or> sc_closeDone sc"

definition close_step :: "System \<Rightarrow> System" where
  "close_step s =
     (case sy_close s of
        CloseStarted \<Rightarrow> s\<lparr>xr_state := StateClosed, sy_close := CloseSnapshot\<rparr>
      | CloseSnapshot \<Rightarrow> s\<lparr>sy_close := CloseStarts (xr_scopes s)\<rparr>
      | CloseStarts (i # is) \<Rightarrow> onScope i startBoundResourceClose (s\<lparr>sy_close := CloseWaits i is\<rparr>)
      | CloseStarts [] \<Rightarrow> s\<lparr>sy_close := CloseDone\<rparr>
      | CloseWaits i is \<Rightarrow>
          (case mget (xr_objects s) i of
             Some sc \<Rightarrow> if scope_closed sc then s\<lparr>sy_close := CloseStarts is\<rparr> else s
           | None \<Rightarrow> s)
      | _ \<Rightarrow> s)"

definition closeResource :: "nat \<Rightarrow> System \<Rightarrow> System" where
  \<comment> \<open>the goroutine that \<open>startBoundResourceClose\<close> started, whose close function returns\<close>
  "closeResource i s =
     (case mget (xr_objects s) i of
        None \<Rightarrow> s
      | Some sc \<Rightarrow>
          (case sc_closing sc of
             Some f \<Rightarrow> if sc_closeDone sc then s
                       else (onScope i (\<lambda>sc. sc\<lparr>sc_closeDone := True\<rparr>) s)\<lparr>sy_closed := sy_closed s @ [(i, f)]\<rparr>
           | None \<Rightarrow> s))"

definition mark_step :: "nat \<Rightarrow> System \<Rightarrow> System" where
  "mark_step i s =
     (let s' = end_mark i s in
      case (mget (xr_objects s) i, mget (xr_objects s') i) of
        (Some sc, Some sc') \<Rightarrow>
          (case (sc_end sc, sc_end sc') of
             (Quiet, Released k g n) \<Rightarrow> if n > 0 then s'\<lparr>sy_marks := sy_marks s @ [(i, g, n)]\<rparr> else s'
           | _ \<Rightarrow> s')
      | _ \<Rightarrow> s')"

definition sink_step :: "ReleaseTicket option \<Rightarrow> nat \<Rightarrow> System \<Rightarrow> System" where
  "sink_step answer i s =
     (case map_option sc_end (mget (xr_objects s) i) of
        Some (Released (Some k) g n) \<Rightarrow>
          (if n > 0 then (end_sink answer i s)\<lparr>sy_calls := sy_calls s @ [(i, k, g, n)]\<rparr> else end_sink answer i s)
      | _ \<Rightarrow> end_sink answer i s)"

definition bind_step :: "nat \<Rightarrow> resource option \<Rightarrow> System \<Rightarrow> System" where
  "bind_step i closeFn s =
     (case (Bind i closeFn s, closeFn) of
        ((None, s'), Some f) \<Rightarrow> s'\<lparr>sy_bound := sy_bound s @ [(i, f)]\<rparr>
      | ((_, s'), _) \<Rightarrow> s')"

definition set_sink_step :: "raw_sink \<Rightarrow> System \<Rightarrow> System" where
  "set_sink_step raw s = (case SetReleaseSink raw s of (calls, s') \<Rightarrow> s'\<lparr>sy_replaying := sy_replaying s @ calls\<rparr>)"

definition replay_step :: "sink \<times> ReleaseGroup \<times> int \<Rightarrow> System \<Rightarrow> System" where
  "replay_step c s =
     (if c \<in> set (sy_replaying s)
      then s\<lparr>sy_replaying := remove1 c (sy_replaying s), sy_replays := sy_replays s @ [c]\<rparr> else s)"

definition New_system :: System where
  "New_system = Registry.extend New_registry
     \<lparr>sy_drains = [], sy_waits = [], sy_close = CloseNotStarted, sy_closed = [], sy_marks = [], sy_calls = [],
      sy_bound = [], sy_replaying = [], sy_replays = []\<rparr>"

inductive registry_system_step :: "System \<Rightarrow> System \<Rightarrow> bool" where
  begin_dispatch: "registry_system_step s (snd (BeginDispatch s))"
| end_pending: "registry_system_step s (PendingDispatch_End i s)"
| install: "registry_system_step s (snd (Install p spec s))"
| bind: "registry_system_step s (bind_step i f s)"
| end_enter: "registry_system_step s (end_enter i s)"
| end_start_close: "registry_system_step s (end_startClose i s)"
| end_waited: "registry_system_step s (end_waited i s)"
| end_mark: "registry_system_step s (mark_step i s)"
| end_sink: "registry_system_step s (sink_step answer i s)"
| end_store: "registry_system_step s (end_store i s)"
| end_remove: "registry_system_step s (end_remove i s)"
| close_resource: "registry_system_step s (closeResource i s)"
| set_sink: "registry_system_step s (set_sink_step raw s)"
| replay: "registry_system_step s (replay_step c s)"
| observe: "registry_system_step s (ObserveBarrier n s)"
| freeze: "registry_system_step s (snd (FreezeInFlight s))"
| wait_step: "registry_system_step s (wait_step w s)"
| wait_cancel: "registry_system_step s (wait_cancel w s)"
| drain_start: "registry_system_step s (drain_start d s)"
| drain_step: "registry_system_step s (drain_step d s)"
| drain_cancel: "registry_system_step s (drain_cancel d s)"
| close_start: "registry_system_step s (close_start s)"
| close_step: "registry_system_step s (close_step s)"

inductive registry_system_run :: "System \<Rightarrow> System \<Rightarrow> bool" where
  start: "registry_system_run s s"
| step: "registry_system_run s s' \<Longrightarrow> registry_system_step s' s'' \<Longrightarrow> registry_system_run s s''"

inductive_cases registry_system_stepE: "registry_system_step s s'"

end
