(* ===== verification/ExecutionLifecycle.thy ===== *)
theory ExecutionLifecycle
  imports ExecutionRegistry
begin

text \<open>
  The invariants of the execution registry under every interleaving of its callers: what a token, a scope,
  a draining and a closing goroutine can rely on, and the refinement of the registry to the life cycle of a slot.
\<close>

section \<open>Invariants\<close>

definition after_close :: "end_phase \<Rightarrow> bool" where
  \<comment> \<open>the body of \<open>EndWithRelease\<close> is past the closing of the resource\<close>
  "after_close p = (p \<notin> {NotEnded, Entered, Waiting})"

definition marked :: "end_phase \<Rightarrow> bool" where
  "marked p = (p \<notin> {NotEnded, Entered, Waiting, Quiet})"

definition scope_ok :: "Scope \<Rightarrow> bool" where
  "scope_ok sc \<longleftrightarrow> (sc_closeFn sc \<noteq> None \<longrightarrow> sc_closing sc = None)
     \<and> (sc_closeDone sc \<longrightarrow> sc_closing sc \<noteq> None)
     \<and> (sc_active sc \<longleftrightarrow> sc_end sc = NotEnded)
     \<and> (sc_end sc = Waiting \<longrightarrow> sc_closing sc \<noteq> None)
     \<and> (after_close (sc_end sc) \<longrightarrow> sc_closeFn sc = None \<and> scope_closed sc)"

text \<open>Tokens and scopes: who is in which map of the registry.\<close>

definition maps_ok :: "'a Registry_scheme \<Rightarrow> bool" where
  "maps_ok r \<longleftrightarrow> mwf (xr_objects r)
     \<and> (\<forall>i. mget (xr_tokens r) i \<noteq> None \<longrightarrow> i \<le> xr_next r)
     \<and> (\<forall>i. i \<in> set (xr_pending r) \<longleftrightarrow> mget (xr_tokens r) i = Some False)
     \<and> (\<forall>i. mget (xr_objects r) i \<noteq> None \<longrightarrow> mget (xr_tokens r) i = Some True)
     \<and> (\<forall>i. i \<in> set (xr_scopes r) \<longleftrightarrow> (\<exists>sc. mget (xr_objects r) i = Some sc \<and> sc_end sc \<noteq> Ended))
     \<and> (\<forall>i sc. mget (xr_objects r) i = Some sc \<longrightarrow> scope_ok sc)"

lemma maps_ok_cong:
  assumes "xr_next r' = xr_next r" "xr_pending r' = xr_pending r" "xr_scopes r' = xr_scopes r"
    "xr_tokens r' = xr_tokens r" "xr_objects r' = xr_objects r"
  shows "maps_ok r' = maps_ok r"
  using assms by (simp add: maps_ok_def)

lemma onScope_fields [simp]:
  "xr_state (onScope i f r) = xr_state r" "xr_next (onScope i f r) = xr_next r"
  "xr_pending (onScope i f r) = xr_pending r" "xr_scopes (onScope i f r) = xr_scopes r"
  "xr_tokens (onScope i f r) = xr_tokens r" "xr_changed (onScope i f r) = xr_changed r"
  "xr_releaseSequences (onScope i f r) = xr_releaseSequences r"
  by (simp_all add: onScope_def split: option.split)

lemma onScope_more [simp]:
  "sy_drains (onScope i f s) = sy_drains s" "sy_waits (onScope i f s) = sy_waits s" "sy_close (onScope i f s) = sy_close s"
  "sy_closed (onScope i f s) = sy_closed s" "sy_marks (onScope i f s) = sy_marks s" "sy_calls (onScope i f s) = sy_calls s"
  "sy_bound (onScope i f s) = sy_bound s" "sy_replaying (onScope i f s) = sy_replaying s" "sy_replays (onScope i f s) = sy_replays s"
  by (simp_all add: onScope_def split: option.split)

lemma onScope_get: "mget (xr_objects (onScope i f r)) j = (if j = i then map_option f (mget (xr_objects r) i) else mget (xr_objects r) j)"
  by (simp add: onScope_def go_map split: option.split)

lemma onScope_wf: "mwf (xr_objects r) \<Longrightarrow> mwf (xr_objects (onScope i f r))"
  by (simp add: onScope_def inv_intro split: option.split)

lemma onScope_maps:
  assumes "maps_ok r" and "\<And>sc. mget (xr_objects r) i = Some sc \<Longrightarrow> scope_ok sc \<Longrightarrow> scope_ok (f sc) \<and> (sc_end (f sc) = Ended \<longleftrightarrow> sc_end sc = Ended)"
  shows "maps_ok (onScope i f r)"
  unfolding maps_ok_def
proof (intro conjI allI impI)
  show "mwf (xr_objects (onScope i f r))" using assms(1) by (simp add: maps_ok_def onScope_wf)
  show "j \<in> set (xr_scopes (onScope i f r)) \<longleftrightarrow>
      (\<exists>sc. mget (xr_objects (onScope i f r)) j = Some sc \<and> sc_end sc \<noteq> Ended)" for j
  proof (cases "mget (xr_objects r) j")
    case (Some sc)
    then show ?thesis using assms by (auto simp: maps_ok_def onScope_get)
  qed (use assms(1) in \<open>auto simp: maps_ok_def onScope_get\<close>)
  show "scope_ok sc" if "mget (xr_objects (onScope i f r)) j = Some sc" for j sc
    using that assms by (auto simp: maps_ok_def onScope_get split: if_splits)
qed (use assms(1) in \<open>auto simp: maps_ok_def onScope_get split: if_splits\<close>)

lemma scope_ok_steps:
  "scope_ok sc \<Longrightarrow> scope_ok (startBoundResourceClose sc)"
  "sc_end (startBoundResourceClose sc) = sc_end sc"
  "sc_closeFn (startBoundResourceClose sc) = (if sc_closing sc = None then None else sc_closeFn sc)"
  by (auto simp: scope_ok_def startBoundResourceClose_def scope_closed_def split: option.split)

lemma end_steps_maps:
  assumes "maps_ok r"
  shows "maps_ok (end_enter i r)" and "maps_ok (end_startClose i r)" and "maps_ok (end_waited i r)"
    and "maps_ok (end_sink answer i r)" and "maps_ok (end_store i r)"
proof -
  show "maps_ok (end_enter i r)" "maps_ok (end_waited i r)" "maps_ok (end_sink answer i r)" "maps_ok (end_store i r)"
    unfolding end_enter_def end_waited_def end_sink_def end_store_def
    by (rule onScope_maps [OF assms]; auto simp: scope_ok_def after_close_def scope_closed_def split: end_phase.splits)+
  show "maps_ok (end_startClose i r)"
    unfolding end_startClose_def
    by (rule onScope_maps [OF assms])
      (auto simp: scope_ok_def after_close_def scope_closed_def startBoundResourceClose_def Let_def split: option.splits)
qed

lemma spendToken_fields [simp]:
  "xr_state (spendToken i r) = xr_state r" "xr_next (spendToken i r) = xr_next r"
  "xr_pending (spendToken i r) = removeAll i (xr_pending r)" "xr_scopes (spendToken i r) = xr_scopes r"
  "xr_tokens (spendToken i r) = mput i True (xr_tokens r)" "xr_objects (spendToken i r) = xr_objects r"
  "xr_changed (spendToken i r) = xr_changed r + 1" "xr_releaseSequences (spendToken i r) = xr_releaseSequences r"
  by (simp_all add: spendToken_def signalLocked_def)

lemma spendToken_maps:
  "maps_ok r \<Longrightarrow> mget (xr_tokens r) i \<noteq> None \<Longrightarrow> maps_ok (spendToken i r)"
  by (auto simp: maps_ok_def go_map)

lemma BeginDispatch_maps: "maps_ok r \<Longrightarrow> maps_ok (snd (BeginDispatch r))"
proof -
  assume ok: "maps_ok r"
  let ?i = "xr_next r + 1"
  let ?r = "r\<lparr>xr_next := ?i, xr_pending := xr_pending r @ [?i], xr_tokens := mput ?i False (xr_tokens r)\<rparr>"
  have i: "mget (xr_tokens r) ?i = None"
    using ok unfolding maps_ok_def by (metis add.commute Suc_eq_plus1_left not_less_eq_eq order_refl)
  then have "mget (xr_objects r) ?i = None" using ok unfolding maps_ok_def by (metis option.distinct(1))
  then have "maps_ok ?r"
    unfolding maps_ok_def
  proof (intro conjI allI)
    show "mget (xr_tokens ?r) j \<noteq> None \<longrightarrow> j \<le> xr_next ?r" for j
      using ok unfolding maps_ok_def by (cases "j = ?i") (auto simp: go_map intro: le_SucI)
    show "j \<in> set (xr_pending ?r) \<longleftrightarrow> mget (xr_tokens ?r) j = Some False" for j
      using ok unfolding maps_ok_def by (cases "j = ?i") (simp_all add: go_map)
    show "mget (xr_objects ?r) j \<noteq> None \<longrightarrow> mget (xr_tokens ?r) j = Some True" for j
      using ok i unfolding maps_ok_def by (cases "j = ?i") (auto simp: go_map)
  qed (use ok in \<open>simp_all add: maps_ok_def\<close>)
  then show ?thesis by (simp add: BeginDispatch_def Let_def ok)
qed

lemma Install_maps:
  assumes "maps_ok r"
  shows "maps_ok (snd (Install p spec r))"
proof (cases p)
  case (Some i)
  let ?sc = "\<lparr>sc_spec = spec, sc_closeFn = None, sc_closing = None, sc_closeDone = False,
      sc_releaseTicket = None, sc_active = True, sc_end = NotEnded\<rparr>"
  have sc: "scope_ok ?sc" by (simp add: scope_ok_def after_close_def)
  have "maps_ok (spendToken i (r\<lparr>xr_objects := mput i ?sc (xr_objects r), xr_scopes := xr_scopes r @ [i]\<rparr>))" (is "maps_ok ?r")
    if "i \<in> set (xr_pending r)"
  proof -
    have i: "mget (xr_tokens r) i = Some False" "mget (xr_objects r) i = None"
      using that assms unfolding maps_ok_def by (blast, metis option.inject option.distinct(1))
    then have le: "i \<le> xr_next r" using assms unfolding maps_ok_def by (metis option.distinct(1))
    show ?thesis unfolding maps_ok_def
    proof (intro conjI allI)
      show "mwf (xr_objects ?r)" using assms by (simp add: maps_ok_def inv_intro)
      show "mget (xr_tokens ?r) j \<noteq> None \<longrightarrow> j \<le> xr_next ?r" for j
        using assms le unfolding maps_ok_def by (cases "j = i") (simp_all add: go_map)
      show "j \<in> set (xr_pending ?r) \<longleftrightarrow> mget (xr_tokens ?r) j = Some False" for j using assms by (simp add: maps_ok_def go_map)
      show "mget (xr_objects ?r) j \<noteq> None \<longrightarrow> mget (xr_tokens ?r) j = Some True" for j
        using assms by (simp add: maps_ok_def go_map)
      show "j \<in> set (xr_scopes ?r) \<longleftrightarrow> (\<exists>sc. mget (xr_objects ?r) j = Some sc \<and> sc_end sc \<noteq> Ended)" for j
        using assms by (cases "j = i") (simp_all add: maps_ok_def go_map)
      show "mget (xr_objects ?r) j = Some sc \<longrightarrow> scope_ok sc" for j sc
        using assms sc by (cases "j = i") (auto simp: maps_ok_def go_map)
    qed
  qed
  then show ?thesis using assms spendToken_maps [OF assms, of i] by (simp add: Install_def Some Let_def)
qed (use assms in \<open>simp add: Install_def\<close>)

lemma Bind_maps: "maps_ok r \<Longrightarrow> maps_ok (snd (Bind i f r))"
  by (auto simp: Bind_def scope_ok_def after_close_def split: option.split intro!: onScope_maps)

lemma end_mark_maps: "maps_ok r \<Longrightarrow> maps_ok (end_mark i r)"
proof -
  assume ok: "maps_ok r"
  show ?thesis
  proof (cases "\<exists>sc. mget (xr_objects r) i = Some sc \<and> sc_end sc = Quiet")
    case True
    then obtain sc where sc: "mget (xr_objects r) i = Some sc" "sc_end sc = Quiet" by blast
    obtain k g n r' where m: "markReleasedLocked (sc_spec sc) r = ((k, g, n), r')" by (cases "markReleasedLocked (sc_spec sc) r") auto
    have "maps_ok r' = maps_ok r"
      by (rule maps_ok_cong) (use m in \<open>auto simp: markReleasedLocked_def Let_def split: if_splits\<close>)
    moreover have "xr_objects r' = xr_objects r"
      using m by (auto simp: markReleasedLocked_def Let_def split: if_splits)
    ultimately have "maps_ok (onScope i (\<lambda>sc. sc\<lparr>sc_end := Released k g n\<rparr>) r')"
      using ok sc by (intro onScope_maps) (auto simp: scope_ok_def after_close_def scope_closed_def)
    then show ?thesis using sc m by (simp add: end_mark_def)
  qed (use ok in \<open>auto simp: end_mark_def split: option.split\<close>)
qed

lemma end_remove_maps:
  assumes "maps_ok r"
  shows "maps_ok (end_remove i r)"
proof (cases "\<exists>sc. mget (xr_objects r) i = Some sc \<and> sc_end sc = Stored")
  case True
  then obtain sc where sc: "mget (xr_objects r) i = Some sc" "sc_end sc = Stored" by blast
  let ?r = "signalLocked (onScope i (\<lambda>sc. sc\<lparr>sc_end := Ended\<rparr>) (r\<lparr>xr_scopes := removeAll i (xr_scopes r)\<rparr>))"
  have objs: "mget (xr_objects ?r) j = (if j = i then Some (sc\<lparr>sc_end := Ended\<rparr>) else mget (xr_objects r) j)" for j
    using sc by (simp add: signalLocked_def onScope_get)
  have rest: "xr_next ?r = xr_next r" "xr_pending ?r = xr_pending r" "xr_tokens ?r = xr_tokens r"
    "xr_scopes ?r = removeAll i (xr_scopes r)"
    by (simp_all add: signalLocked_def)
  have "maps_ok ?r"
    unfolding maps_ok_def rest
  proof (intro conjI allI)
    show "mwf (xr_objects ?r)" using assms by (simp add: maps_ok_def signalLocked_def onScope_wf)
    show "j \<in> set (removeAll i (xr_scopes r)) \<longleftrightarrow> (\<exists>sc. mget (xr_objects ?r) j = Some sc \<and> sc_end sc \<noteq> Ended)" for j
      using assms unfolding objs maps_ok_def by (cases "j = i") simp_all
    show "mget (xr_objects ?r) j \<noteq> None \<longrightarrow> mget (xr_tokens r) j = Some True" for j
      using assms sc unfolding objs maps_ok_def by (cases "j = i") simp_all
    show "mget (xr_objects ?r) j = Some sc' \<longrightarrow> scope_ok sc'" for j sc'
    proof (cases "j = i")
      case True
      have "scope_ok sc" using assms sc(1) unfolding maps_ok_def by blast
      then have "scope_ok (sc\<lparr>sc_end := Ended\<rparr>)" using sc(2) by (simp add: scope_ok_def after_close_def scope_closed_def)
      then show ?thesis using True by (auto simp: objs)
    next
      case False
      then show ?thesis using assms unfolding objs maps_ok_def by simp
    qed
  qed (use assms in \<open>simp_all add: maps_ok_def\<close>)
  then show ?thesis using sc by (simp add: end_remove_def)
qed (use assms in \<open>auto simp: end_remove_def split: option.split\<close>)

lemma closing_maps:
  "maps_ok r \<Longrightarrow> maps_ok (onScope i startBoundResourceClose r)"
  "maps_ok r \<Longrightarrow> (\<And>sc. mget (xr_objects r) i = Some sc \<Longrightarrow> sc_closing sc \<noteq> None) \<Longrightarrow>
     maps_ok (onScope i (\<lambda>sc. sc\<lparr>sc_closeDone := True\<rparr>) r)"
proof -
  show "maps_ok r \<Longrightarrow> maps_ok (onScope i startBoundResourceClose r)"
    by (rule onScope_maps) (simp_all add: scope_ok_steps)
  assume "maps_ok r" and closing: "\<And>sc. mget (xr_objects r) i = Some sc \<Longrightarrow> sc_closing sc \<noteq> None"
  then show "maps_ok (onScope i (\<lambda>sc. sc\<lparr>sc_closeDone := True\<rparr>) r)"
  proof (intro onScope_maps)
    fix sc
    assume "mget (xr_objects r) i = Some sc" "scope_ok sc"
    then show "scope_ok (sc\<lparr>sc_closeDone := True\<rparr>) \<and> (sc_end (sc\<lparr>sc_closeDone := True\<rparr>) = Ended) = (sc_end sc = Ended)"
      using closing by (simp add: scope_ok_def scope_closed_def)
  qed
qed

lemma maps_more: "maps_ok r \<Longrightarrow> xr_next r' = xr_next r \<Longrightarrow> xr_pending r' = xr_pending r \<Longrightarrow> xr_scopes r' = xr_scopes r
   \<Longrightarrow> xr_tokens r' = xr_tokens r \<Longrightarrow> xr_objects r' = xr_objects r \<Longrightarrow> maps_ok r'"
  using maps_ok_cong by metis

text \<open>The steps that only add to the logs leave the registry to the operation they wrap.\<close>

lemma logged_registry [simp]:
  "xr_state (bind_step i f s) = xr_state (snd (Bind i f s))" "xr_next (bind_step i f s) = xr_next (snd (Bind i f s))"
  "xr_pending (bind_step i f s) = xr_pending (snd (Bind i f s))" "xr_scopes (bind_step i f s) = xr_scopes (snd (Bind i f s))"
  "xr_tokens (bind_step i f s) = xr_tokens (snd (Bind i f s))" "xr_objects (bind_step i f s) = xr_objects (snd (Bind i f s))"
  "xr_changed (bind_step i f s) = xr_changed (snd (Bind i f s))"
  "xr_releaseSequences (bind_step i f s) = xr_releaseSequences (snd (Bind i f s))"
  "xr_state (set_sink_step raw s) = xr_state s" "xr_next (set_sink_step raw s) = xr_next s"
  "xr_pending (set_sink_step raw s) = xr_pending s" "xr_scopes (set_sink_step raw s) = xr_scopes s"
  "xr_tokens (set_sink_step raw s) = xr_tokens s" "xr_objects (set_sink_step raw s) = xr_objects s"
  "xr_changed (set_sink_step raw s) = xr_changed s" "xr_releaseSequences (set_sink_step raw s) = xr_releaseSequences s"
  "xr_state (replay_step c s) = xr_state s" "xr_next (replay_step c s) = xr_next s"
  "xr_pending (replay_step c s) = xr_pending s" "xr_scopes (replay_step c s) = xr_scopes s"
  "xr_tokens (replay_step c s) = xr_tokens s" "xr_objects (replay_step c s) = xr_objects s"
  "xr_changed (replay_step c s) = xr_changed s" "xr_releaseSequences (replay_step c s) = xr_releaseSequences s"
  by (simp_all add: bind_step_def set_sink_step_def replay_step_def SetReleaseSink_def split: prod.split option.split raw_sink.split)

lemma logged_threads [simp]:
  "sy_drains (bind_step i f s) = sy_drains s" "sy_waits (bind_step i f s) = sy_waits s" "sy_close (bind_step i f s) = sy_close s"
  "sy_drains (set_sink_step raw s) = sy_drains s" "sy_waits (set_sink_step raw s) = sy_waits s"
  "sy_close (set_sink_step raw s) = sy_close s"
  "sy_drains (replay_step c s) = sy_drains s" "sy_waits (replay_step c s) = sy_waits s" "sy_close (replay_step c s) = sy_close s"
  by (simp_all add: bind_step_def Bind_def set_sink_step_def replay_step_def SetReleaseSink_def
      split: prod.split option.split raw_sink.split)

lemma logged_logs [simp]:
  "sy_closed (bind_step i f s) = sy_closed s" "sy_marks (bind_step i f s) = sy_marks s" "sy_calls (bind_step i f s) = sy_calls s"
  "sy_closed (set_sink_step raw s) = sy_closed s" "sy_marks (set_sink_step raw s) = sy_marks s"
  "sy_calls (set_sink_step raw s) = sy_calls s" "sy_bound (set_sink_step raw s) = sy_bound s"
  "sy_closed (replay_step c s) = sy_closed s" "sy_marks (replay_step c s) = sy_marks s" "sy_calls (replay_step c s) = sy_calls s"
  "sy_bound (replay_step c s) = sy_bound s" "sy_replaying (bind_step i f s) = sy_replaying s" "sy_replays (bind_step i f s) = sy_replays s"
  by (simp_all add: bind_step_def Bind_def set_sink_step_def replay_step_def SetReleaseSink_def
      split: prod.split option.split raw_sink.split)

lemma step_maps: "registry_system_step s s' \<Longrightarrow> maps_ok s \<Longrightarrow> maps_ok s'"
proof (induction rule: registry_system_step.induct)
  case (end_mark s i)
  then have "maps_ok (end_mark i s)" by (rule end_mark_maps)
  then show ?case by (rule maps_more) (auto simp: mark_step_def Let_def split: option.split end_phase.split)
next
  case (end_sink s answer i)
  then have "maps_ok (end_sink answer i s)" by (rule end_steps_maps)
  then show ?case by (rule maps_more) (auto simp: sink_step_def split: option.split end_phase.split)
next
  case (close_resource s i)
  have "maps_ok (onScope i (\<lambda>sc. sc\<lparr>sc_closeDone := True\<rparr>) s)"
    if sc: "mget (xr_objects s) i = Some sc" "sc_closing sc = Some f" for sc f
  proof (rule closing_maps(2) [OF close_resource])
    show "sc_closing sc' \<noteq> None" if "mget (xr_objects s) i = Some sc'" for sc' using that sc by simp
  qed
  then have "maps_ok ((onScope i (\<lambda>sc. sc\<lparr>sc_closeDone := True\<rparr>) s)\<lparr>sy_closed := log\<rparr>)"
    if "mget (xr_objects s) i = Some sc" "sc_closing sc = Some f" for sc f log
    by (rule maps_more) (use that in simp_all)
  then show ?case using close_resource by (auto simp: closeResource_def split: option.split)
next
  case (bind s i f)
  then have "maps_ok (snd (Bind i f s))" by (rule Bind_maps)
  then show ?case by (rule maps_more) simp_all
next
  case (drain_step s d)
  have "maps_ok (onScope i startBoundResourceClose (s\<lparr>sy_drains := m\<rparr>))" for i m
    by (rule closing_maps(1)) (rule maps_more [OF drain_step], simp_all)
  then show ?case using drain_step
    by (auto simp: drain_step_def drain_check_def split: option.split drain_pc.split list.split intro: maps_more)
next
  case (close_step s)
  have "maps_ok (onScope i startBoundResourceClose (s\<lparr>sy_close := m\<rparr>))" for i m
    by (rule closing_maps(1)) (rule maps_more [OF close_step], simp_all)
  then show ?case using close_step
    by (auto simp: close_step_def split: option.split close_pc.split list.split intro: maps_more)
qed (auto simp: BeginDispatch_maps Install_maps end_steps_maps end_remove_maps spendToken_maps
    PendingDispatch_End_def ObserveBarrier_def FreezeInFlight_def wait_step_def wait_check_def
    wait_cancel_def drain_start_def drain_cancel_def close_start_def Let_def
    split: raw_sink.split option.split wait_pc.split drain_pc.split intro: maps_more)

section \<open>What a step of another goroutine may do\<close>

text \<open>
  The registry never accepts again once it has stopped, its waiters are woken when an entry goes, and after
  it has stopped no entry comes and no resource is bound.
\<close>

definition env_le :: "'a Registry_scheme \<Rightarrow> 'a Registry_scheme \<Rightarrow> bool" where
  "env_le r r' \<longleftrightarrow> (xr_state r \<noteq> StateAccepting \<longrightarrow> xr_state r' \<noteq> StateAccepting)
     \<and> (xr_state r = StateClosed \<longrightarrow> xr_state r' = StateClosed)
     \<and> xr_changed r \<le> xr_changed r'
     \<and> (xr_changed r' = xr_changed r \<longrightarrow> set (xr_pending r) \<subseteq> set (xr_pending r') \<and> set (xr_scopes r) \<subseteq> set (xr_scopes r'))
     \<and> (xr_state r \<noteq> StateAccepting \<longrightarrow> set (xr_pending r') \<subseteq> set (xr_pending r) \<and> set (xr_scopes r') \<subseteq> set (xr_scopes r)
          \<and> (\<forall>i sc'. mget (xr_objects r') i = Some sc' \<longrightarrow> (\<exists>sc. mget (xr_objects r) i = Some sc
                \<and> (sc_closeFn sc = None \<longrightarrow> sc_closeFn sc' = None)
                \<and> (sc_closeFn sc = None \<and> scope_closed sc \<longrightarrow> scope_closed sc'))))"

lemma env_same:
  assumes "xr_state r' = xr_state r" "xr_changed r' = xr_changed r" "xr_pending r' = xr_pending r"
    "xr_scopes r' = xr_scopes r" "xr_objects r' = xr_objects r"
  shows "env_le r r'"
  using assms by (auto simp: env_le_def)

lemma env_stop:
  assumes "xr_changed r' = xr_changed r" "xr_pending r' = xr_pending r" "xr_scopes r' = xr_scopes r"
    "xr_objects r' = xr_objects r" and "xr_state r' \<noteq> StateAccepting" and "xr_state r = StateClosed \<longrightarrow> xr_state r' = StateClosed"
  shows "env_le r r'"
  using assms by (auto simp: env_le_def)

lemma env_onScope:
  assumes "xr_state r' = xr_state r" "xr_changed r' = xr_changed r" "xr_pending r' = xr_pending r"
    "xr_scopes r' = xr_scopes r" "xr_objects r' = xr_objects (onScope i f r)"
    and "\<And>sc. xr_state r \<noteq> StateAccepting \<Longrightarrow> sc_closeFn sc = None \<Longrightarrow> sc_closeFn (f sc) = None \<and> (scope_closed sc \<longrightarrow> scope_closed (f sc))"
  shows "env_le r r'"
  using assms by (auto simp: env_le_def onScope_get)

lemma startBound_mono:
  "sc_closeFn sc = None \<Longrightarrow> sc_closeFn (startBoundResourceClose sc) = None"
  "sc_closeFn sc = None \<Longrightarrow> scope_closed sc \<Longrightarrow> scope_closed (startBoundResourceClose sc)"
  by (auto simp: startBoundResourceClose_def split: option.split)

lemma end_env:
  "env_le r (end_enter i r)" "env_le r (end_startClose i r)" "env_le r (end_waited i r)"
  "env_le r (end_sink answer i r)" "env_le r (end_store i r)"
  unfolding end_enter_def end_startClose_def end_waited_def end_sink_def end_store_def
  by (rule env_onScope [where i = i, OF _ _ _ _ refl],
      auto simp: scope_closed_def startBoundResourceClose_def Let_def split: end_phase.split option.split)+

lemma end_mark_env: "env_le r (end_mark i r)"
proof (cases "\<exists>sc. mget (xr_objects r) i = Some sc \<and> sc_end sc = Quiet")
  case True
  then obtain sc where sc: "mget (xr_objects r) i = Some sc" "sc_end sc = Quiet" by blast
  obtain k g n r' where m: "markReleasedLocked (sc_spec sc) r = ((k, g, n), r')"
    by (cases "markReleasedLocked (sc_spec sc) r") auto
  have same: "xr_objects r' = xr_objects r" "xr_state r' = xr_state r" "xr_changed r' = xr_changed r"
    "xr_pending r' = xr_pending r" "xr_scopes r' = xr_scopes r"
    using m by (auto simp: markReleasedLocked_def Let_def split: if_splits)
  then have "env_le r (onScope i (\<lambda>sc. sc\<lparr>sc_end := Released k g n\<rparr>) r')"
    by (intro env_onScope [where i = i and f = "\<lambda>sc. sc\<lparr>sc_end := Released k g n\<rparr>"])
      (auto simp: onScope_def scope_closed_def split: option.split)
  then show ?thesis using sc m by (simp add: end_mark_def)
qed (auto simp: end_mark_def env_same split: option.split)

lemma end_remove_env: "env_le r (end_remove i r)"
  by (auto simp: end_remove_def env_le_def signalLocked_def onScope_get scope_closed_def split: option.split if_splits)

lemma spend_env: "env_le r (spendToken i r)"
  by (auto simp: env_le_def)

lemma token_env: "env_le r (snd (BeginDispatch r))" "env_le r (PendingDispatch_End i r)" "env_le r (snd (Install p spec r))"
proof -
  show "env_le r (snd (BeginDispatch r))" by (auto simp: BeginDispatch_def Let_def env_le_def)
  show "env_le r (PendingDispatch_End i r)" by (simp add: PendingDispatch_End_def spend_env env_same)
  show "env_le r (snd (Install p spec r))"
    by (auto simp: Install_def Let_def spend_env env_same split: option.split) (simp add: env_le_def)
qed

lemma Bind_env: "env_le r (snd (Bind i f r))"
  by (auto simp: Bind_def env_same split: option.split intro!: env_onScope [where i = i, OF _ _ _ _ refl])

lemma step_env: "registry_system_step s s' \<Longrightarrow> env_le s s'"
proof (induction rule: registry_system_step.induct)
  case (end_mark s i)
  have "env_le s (end_mark i s)" by (rule end_mark_env)
  then show ?case by (auto simp: mark_step_def Let_def env_le_def split: option.split end_phase.split)
next
  case (end_sink s answer i)
  have "env_le s (end_sink answer i s)" by (rule end_env)
  then show ?case by (auto simp: sink_step_def env_le_def split: option.split end_phase.split)
next
  case (close_resource s i)
  show ?case
    by (auto simp: closeResource_def env_same scope_closed_def split: option.split
        intro!: env_onScope [where i = i and f = "\<lambda>sc. sc\<lparr>sc_closeDone := True\<rparr>"])
next
  case (bind s i f)
  have "env_le s (snd (Bind i f s))" by (rule Bind_env)
  then show ?case by (simp add: env_le_def)
next
  case (drain_step s d)
  have "env_le s (onScope i startBoundResourceClose (s\<lparr>sy_drains := m\<rparr>))" for i m
    by (rule env_onScope [where i = i and f = startBoundResourceClose]) (auto simp: startBound_mono onScope_def split: option.split)
  moreover have "env_le s (drain_check d s)" by (auto simp: drain_check_def env_same env_stop)
  ultimately show ?case by (auto simp: drain_step_def env_same split: option.split drain_pc.split list.split)
next
  case (close_step s)
  have "env_le s (onScope i startBoundResourceClose (s\<lparr>sy_close := m\<rparr>))" for i m
    by (rule env_onScope [where i = i and f = startBoundResourceClose]) (auto simp: startBound_mono onScope_def split: option.split)
  then show ?case by (auto simp: close_step_def env_same env_stop split: option.split close_pc.split list.split)
qed (auto simp: token_env end_env end_remove_env ObserveBarrier_def FreezeInFlight_def
    wait_step_def wait_check_def wait_cancel_def drain_start_def drain_cancel_def close_start_def Let_def env_same env_stop
    split: raw_sink.split option.split wait_pc.split drain_pc.split)

section \<open>Goroutines that drain, wait and close\<close>

definition no_open_resource :: "'a Registry_scheme \<Rightarrow> nat list \<Rightarrow> bool" where
  "no_open_resource r is \<longleftrightarrow> (\<forall>i sc. mget (xr_objects r) i = Some sc \<longrightarrow> i \<in> set is \<or> sc_closeFn sc = None)"

definition all_closed :: "'a Registry_scheme \<Rightarrow> nat list \<Rightarrow> bool" where
  "all_closed r is \<longleftrightarrow>
     (\<forall>i sc. mget (xr_objects r) i = Some sc \<longrightarrow> i \<in> set is \<or> (sc_closeFn sc = None \<and> scope_closed sc))"

fun drain_ok :: "'a Registry_scheme \<Rightarrow> drain_pc \<Rightarrow> bool" where
  "drain_ok r DrainSnapshot = (xr_state r \<noteq> StateAccepting)"
| "drain_ok r (DrainCloses is) = (xr_state r \<noteq> StateAccepting \<and> no_open_resource r is)"
| "drain_ok r (DrainWaits g) = (xr_state r \<noteq> StateAccepting \<and> no_open_resource r [] \<and> g \<le> xr_changed r
     \<and> (g = xr_changed r \<longrightarrow> xr_pending r \<noteq> [] \<or> xr_scopes r \<noteq> []))"
| "drain_ok r (DrainReturned None) = (xr_state r = StateClosed \<and> xr_pending r = [] \<and> xr_scopes r = [])"
| "drain_ok r (DrainReturned (Some e)) = True"

fun wait_ok :: "'a Registry_scheme \<Rightarrow> wait_pc \<Rightarrow> bool" where
  "wait_ok r (PendingWaits g) = (g \<le> xr_changed r \<and> (g = xr_changed r \<longrightarrow> xr_pending r \<noteq> []))"
| "wait_ok r (PendingReturned e) = True"

fun close_ok :: "'a Registry_scheme \<Rightarrow> close_pc \<Rightarrow> bool" where
  "close_ok r CloseNotStarted = True"
| "close_ok r CloseStarted = True"
| "close_ok r CloseSnapshot = (xr_state r = StateClosed)"
| "close_ok r (CloseStarts is) = (xr_state r = StateClosed \<and> all_closed r is)"
| "close_ok r (CloseWaits i is) = (xr_state r = StateClosed \<and> all_closed r (i # is) \<and> no_open_resource r is)"
| "close_ok r CloseDone = (xr_state r = StateClosed \<and> all_closed r [])"

lemma no_open_env:
  assumes "env_le r r'" and "xr_state r \<noteq> StateAccepting" and "no_open_resource r is"
  shows "no_open_resource r' is"
  using assms unfolding no_open_resource_def env_le_def by metis

lemma all_closed_env:
  assumes "env_le r r'" and "xr_state r \<noteq> StateAccepting" and "all_closed r is"
  shows "all_closed r' is"
  using assms unfolding all_closed_def env_le_def by metis

lemma drain_ok_env:
  assumes "env_le r r'" and "drain_ok r pc"
  shows "drain_ok r' pc"
proof (cases pc)
  case (DrainWaits g)
  have le: "xr_changed r \<le> xr_changed r'"
    "xr_changed r' = xr_changed r \<Longrightarrow> set (xr_pending r) \<subseteq> set (xr_pending r') \<and> set (xr_scopes r) \<subseteq> set (xr_scopes r')"
    using assms(1) by (auto simp: env_le_def)
  have ok: "xr_state r \<noteq> StateAccepting" "g \<le> xr_changed r" "g = xr_changed r \<longrightarrow> xr_pending r \<noteq> [] \<or> xr_scopes r \<noteq> []"
    using assms(2) by (simp_all add: DrainWaits)
  have "xr_pending r' \<noteq> [] \<or> xr_scopes r' \<noteq> []" if "g = xr_changed r'"
  proof -
    have "xr_changed r' = xr_changed r" "g = xr_changed r" using that le(1) ok(2) by auto
    then show ?thesis using le(2) ok(3) by (metis set_empty subset_empty)
  qed
  then show ?thesis using assms le ok no_open_env [OF assms(1) ok(1)]
    by (auto simp: DrainWaits) (auto simp: env_le_def)
next
  case (DrainReturned e)
  then show ?thesis using assms by (cases e) (auto simp: env_le_def)
qed (use assms no_open_env in \<open>auto simp: env_le_def\<close>)

lemma wait_ok_env:
  assumes "env_le r r'" and "wait_ok r pc"
  shows "wait_ok r' pc"
proof (cases pc)
  case (PendingWaits g)
  have "xr_changed r \<le> xr_changed r'" "xr_changed r' = xr_changed r \<Longrightarrow> set (xr_pending r) \<subseteq> set (xr_pending r')"
    using assms(1) by (auto simp: env_le_def)
  moreover have "g \<le> xr_changed r" "g = xr_changed r \<longrightarrow> xr_pending r \<noteq> []" using assms(2) by (simp_all add: PendingWaits)
  ultimately have "g \<le> xr_changed r'" "g = xr_changed r' \<longrightarrow> xr_pending r' \<noteq> []" by (simp, metis le_antisym set_empty subset_empty)
  then show ?thesis by (simp add: PendingWaits)
qed simp

lemma close_ok_env:
  assumes "env_le r r'" and "close_ok r pc"
  shows "close_ok r' pc"
proof -
  have c: "xr_state r = StateClosed \<Longrightarrow> xr_state r' = StateClosed" using assms(1) by (simp add: env_le_def)
  have n: "xr_state r = StateClosed \<Longrightarrow> xr_state r \<noteq> StateAccepting" by simp
  show ?thesis
    using assms(2) c all_closed_env [OF assms(1) n] no_open_env [OF assms(1) n] by (cases pc) simp_all
qed

definition threads_ok :: "System \<Rightarrow> bool" where
  "threads_ok s \<longleftrightarrow> (\<forall>d pc. mget (sy_drains s) d = Some pc \<longrightarrow> drain_ok s pc)
     \<and> (\<forall>w pc. mget (sy_waits s) w = Some pc \<longrightarrow> wait_ok s pc) \<and> close_ok s (sy_close s)"

lemma threads_ok_env:
  "env_le s s' \<Longrightarrow> threads_ok s \<Longrightarrow> sy_drains s' = sy_drains s \<Longrightarrow> sy_waits s' = sy_waits s \<Longrightarrow> sy_close s' = sy_close s
     \<Longrightarrow> threads_ok s'"
  using drain_ok_env wait_ok_env close_ok_env unfolding threads_ok_def by metis

lemma threads_ok_drain:
  "env_le s s' \<Longrightarrow> threads_ok s \<Longrightarrow> sy_drains s' = mput d pc (sy_drains s) \<Longrightarrow> drain_ok s' pc
     \<Longrightarrow> sy_waits s' = sy_waits s \<Longrightarrow> sy_close s' = sy_close s \<Longrightarrow> threads_ok s'"
  using drain_ok_env [of s s'] wait_ok_env [of s s'] close_ok_env [of s s'] unfolding threads_ok_def by (simp add: go_map)

lemma threads_ok_wait:
  "env_le s s' \<Longrightarrow> threads_ok s \<Longrightarrow> sy_waits s' = mput w pc (sy_waits s) \<Longrightarrow> wait_ok s' pc
     \<Longrightarrow> sy_drains s' = sy_drains s \<Longrightarrow> sy_close s' = sy_close s \<Longrightarrow> threads_ok s'"
  using drain_ok_env [of s s'] wait_ok_env [of s s'] close_ok_env [of s s'] unfolding threads_ok_def by (simp add: go_map)

lemma threads_ok_close:
  "env_le s s' \<Longrightarrow> threads_ok s \<Longrightarrow> close_ok s' (sy_close s')
     \<Longrightarrow> sy_waits s' = sy_waits s \<Longrightarrow> sy_drains s' = sy_drains s \<Longrightarrow> threads_ok s'"
  using drain_ok_env wait_ok_env unfolding threads_ok_def by metis

text \<open>An open resource belongs to a scope that the registry still lists.\<close>

lemma open_listed:
  "maps_ok r \<Longrightarrow> mget (xr_objects r) i = Some sc \<Longrightarrow> sc_closeFn sc \<noteq> None \<Longrightarrow> i \<in> set (xr_scopes r)"
  unfolding maps_ok_def scope_ok_def after_close_def by (metis (full_types) empty_iff end_phase.distinct insert_iff)

lemma snapshot_covers: "maps_ok r \<Longrightarrow> no_open_resource r (xr_scopes r)"
  using open_listed unfolding no_open_resource_def by blast

lemma snapshot_all_closed: "maps_ok r \<Longrightarrow> all_closed r (xr_scopes r)"
  unfolding all_closed_def maps_ok_def scope_ok_def after_close_def
  by (metis (full_types) empty_iff end_phase.distinct insert_iff)

lemma startBound_closes: "scope_ok sc \<Longrightarrow> sc_closeFn (startBoundResourceClose sc) = None"
  by (auto simp: scope_ok_def startBoundResourceClose_def split: option.split)

lemma startBound_no_open:
  assumes "maps_ok r" and "no_open_resource r (i # js)"
  shows "no_open_resource (onScope i startBoundResourceClose r) js"
  unfolding no_open_resource_def
proof (intro allI impI)
  fix j sc
  assume m: "mget (xr_objects (onScope i startBoundResourceClose r)) j = Some sc"
  show "j \<in> set js \<or> sc_closeFn sc = None"
  proof (cases "j = i")
    case True
    then obtain sc0 where "mget (xr_objects r) i = Some sc0" "sc = startBoundResourceClose sc0" using m by (auto simp: onScope_get)
    moreover from this(1) have "scope_ok sc0" using assms(1) unfolding maps_ok_def by blast
    ultimately show ?thesis by (simp add: startBound_closes)
  next
    case False
    then have "mget (xr_objects r) j = Some sc" using m by (simp add: onScope_get)
    then have "j \<in> set (i # js) \<or> sc_closeFn sc = None" using assms(2) unfolding no_open_resource_def by simp
    then show ?thesis using False by simp
  qed
qed

lemma all_closed_no_open: "all_closed r ks \<Longrightarrow> no_open_resource r ks"
  unfolding all_closed_def no_open_resource_def by metis

lemma startBound_all_closed:
  assumes "maps_ok r" and "all_closed r (i # js)"
  shows "no_open_resource (onScope i startBoundResourceClose r) js" and "all_closed (onScope i startBoundResourceClose r) (i # js)"
proof -
  show "no_open_resource (onScope i startBoundResourceClose r) js"
    by (rule startBound_no_open [OF assms(1) all_closed_no_open [OF assms(2)]])
  show "all_closed (onScope i startBoundResourceClose r) (i # js)"
    unfolding all_closed_def
  proof (intro allI impI)
    fix j sc
    assume m: "mget (xr_objects (onScope i startBoundResourceClose r)) j = Some sc"
    show "j \<in> set (i # js) \<or> (sc_closeFn sc = None \<and> scope_closed sc)"
      using m assms(2) unfolding all_closed_def by (cases "j = i") (simp, metis onScope_get)
  qed
qed

lemma drain_step_threads:
  assumes "threads_ok s" and "maps_ok s"
  shows "threads_ok (drain_step d s)"
proof (cases "mget (sy_drains s) d")
  case (Some pc)
  have env: "env_le s (drain_step d s)" by (rule step_env) (rule registry_system_step.drain_step)
  have ok: "drain_ok s pc" using assms(1) Some by (simp add: threads_ok_def)
  have check: "threads_ok (drain_check d s)"
    if "env_le s (drain_check d s)" "xr_state s \<noteq> StateAccepting" "no_open_resource s []"
  proof (cases "xr_pending s \<noteq> [] \<or> xr_scopes s \<noteq> []")
    case True
    then have "drain_check d s = s\<lparr>sy_drains := mput d (DrainWaits (xr_changed s)) (sy_drains s)\<rparr>" by (simp add: drain_check_def)
    then show ?thesis
      using threads_ok_drain [OF that(1) assms(1), of d "DrainWaits (xr_changed s)"] True that(2,3) by (simp add: no_open_resource_def)
  next
    case False
    then have "drain_check d s = s\<lparr>xr_state := StateClosed, sy_drains := mput d (DrainReturned None) (sy_drains s)\<rparr>"
      by (simp add: drain_check_def)
    then show ?thesis using threads_ok_drain [OF that(1) assms(1), of d "DrainReturned None"] False by simp
  qed
  show ?thesis
  proof (cases pc)
    case DrainSnapshot
    then have step: "drain_step d s = s\<lparr>sy_drains := mput d (DrainCloses (xr_scopes s)) (sy_drains s)\<rparr>"
      using Some by (simp add: drain_step_def)
    have "drain_ok (drain_step d s) (DrainCloses (xr_scopes s))"
      using ok snapshot_covers [OF assms(2)] by (simp add: step DrainSnapshot no_open_resource_def)
    then show ?thesis using threads_ok_drain [OF env assms(1), of d "DrainCloses (xr_scopes s)"] by (simp add: step)
  next
    case (DrainCloses ks)
    show ?thesis
    proof (cases ks)
      case Nil
      then show ?thesis using check env ok Some DrainCloses by (simp add: drain_step_def)
    next
      case (Cons i js)
      let ?s = "s\<lparr>sy_drains := mput d (DrainCloses js) (sy_drains s)\<rparr>"
      have step: "drain_step d s = onScope i startBoundResourceClose ?s"
        using Some by (simp add: drain_step_def DrainCloses Cons)
      have "maps_ok ?s" "no_open_resource ?s (i # js)" "xr_state s \<noteq> StateAccepting"
        using ok assms(2) maps_more [OF assms(2), of ?s] by (simp_all add: DrainCloses Cons no_open_resource_def)
      then have "drain_ok (drain_step d s) (DrainCloses js)" unfolding step using startBound_no_open by simp
      then show ?thesis using threads_ok_drain [OF env assms(1), of d "DrainCloses js"] by (simp add: step)
    qed
  next
    case (DrainWaits g)
    then show ?thesis using check env ok Some assms(1) by (cases "xr_changed s > g") (simp_all add: drain_step_def)
  qed (use assms Some in \<open>simp add: drain_step_def\<close>)
qed (use assms in \<open>simp add: drain_step_def\<close>)

lemma wait_step_threads:
  assumes "threads_ok s"
  shows "threads_ok (wait_step w s)"
proof -
  have "env_le s (wait_check w s)" by (auto simp: wait_check_def env_same)
  then have "threads_ok (wait_check w s)"
    using assms by (cases "xr_pending s = []")
      (auto simp: wait_check_def intro: threads_ok_wait [where s = s and w = w])
  then show ?thesis using assms by (simp add: wait_step_def split: option.split wait_pc.split)
qed

lemma close_step_threads:
  assumes "threads_ok s" and "maps_ok s"
  shows "threads_ok (close_step s)"
proof -
  have env: "env_le s (close_step s)" by (rule step_env) (rule registry_system_step.close_step)
  have ok: "close_ok s (sy_close s)" using assms(1) by (simp add: threads_ok_def)
  have "close_ok (close_step s) (sy_close (close_step s))"
  proof (cases "sy_close s")
    case CloseSnapshot
    then show ?thesis using ok snapshot_all_closed [OF assms(2)] by (simp add: close_step_def all_closed_def)
  next
    case (CloseStarts ks)
    show ?thesis
    proof (cases ks)
      case Nil
      then show ?thesis using CloseStarts ok by (simp add: close_step_def all_closed_def)
    next
      case (Cons i js)
      let ?s = "s\<lparr>sy_close := CloseWaits i js\<rparr>"
      have step: "close_step s = onScope i startBoundResourceClose ?s" by (simp add: close_step_def CloseStarts Cons)
      have "maps_ok ?s" "all_closed ?s (i # js)" "xr_state s = StateClosed"
        using ok assms(2) maps_more [OF assms(2), of ?s] by (simp_all add: CloseStarts Cons all_closed_def)
      then have "no_open_resource (close_step s) js" "all_closed (close_step s) (i # js)"
        unfolding step using startBound_all_closed by blast+
      then show ?thesis using \<open>xr_state s = StateClosed\<close> by (simp add: step)
    qed
  next
    case (CloseWaits i js)
    have "all_closed s js" if "mget (xr_objects s) i = Some sc" "scope_closed sc" for sc
      using ok that unfolding CloseWaits close_ok.simps all_closed_def by (metis option.inject set_ConsD no_open_resource_def)
    then show ?thesis using ok
      by (auto simp: CloseWaits close_step_def all_closed_def no_open_resource_def split: option.split)
  qed (use ok in \<open>simp_all add: close_step_def\<close>)
  then show ?thesis using env assms(1)
    by (rule_tac threads_ok_close [where s = s])
      (auto simp: close_step_def split: close_pc.split list.split option.split)
qed

definition same_threads :: "System \<Rightarrow> System \<Rightarrow> bool" where
  "same_threads s s' \<longleftrightarrow> sy_drains s' = sy_drains s \<and> sy_waits s' = sy_waits s \<and> sy_close s' = sy_close s"

lemma same_threads_ops [simp]:
  "same_threads s (snd (BeginDispatch s))" "same_threads s (PendingDispatch_End i s)" "same_threads s (snd (Install p spec s))"
  "same_threads s (bind_step i f s)" "same_threads s (end_enter i s)" "same_threads s (end_startClose i s)"
  "same_threads s (end_waited i s)" "same_threads s (end_sink answer i s)" "same_threads s (end_store i s)"
  "same_threads s (end_remove i s)" "same_threads s (set_sink_step raw s)" "same_threads s (replay_step c s)" "same_threads s (ObserveBarrier n s)"
  "same_threads s (snd (FreezeInFlight s))" "same_threads s (end_mark i s)"
  by (simp_all add: same_threads_def BeginDispatch_def PendingDispatch_End_def spendToken_def signalLocked_def Install_def
      Bind_def end_enter_def end_startClose_def end_waited_def end_sink_def end_store_def end_remove_def SetReleaseSink_def
      ObserveBarrier_def FreezeInFlight_def end_mark_def markReleasedLocked_def Let_def split: option.split raw_sink.split)

lemma same_threads_logs:
  "same_threads s s' \<Longrightarrow> same_threads s (s'\<lparr>sy_marks := m\<rparr>)"
  "same_threads s s' \<Longrightarrow> same_threads s (s'\<lparr>sy_calls := c\<rparr>)"
  by (simp_all add: same_threads_def)

lemma same_threads_logged [simp]:
  "same_threads s (mark_step i s)" "same_threads s (sink_step answer i s)" "same_threads s (closeResource i s)"
  by (simp_all add: mark_step_def sink_step_def same_threads_logs Let_def split: option.split end_phase.split)
    (simp add: same_threads_def closeResource_def split: option.split)

lemma threads_ok_same: "env_le s s' \<Longrightarrow> threads_ok s \<Longrightarrow> same_threads s s' \<Longrightarrow> threads_ok s'"
  unfolding same_threads_def by (blast intro: threads_ok_env)

lemma step_threads:
  assumes "registry_system_step s s'" and "threads_ok s" and "maps_ok s"
  shows "threads_ok s'"
proof -
  note env = step_env [OF assms(1)]
  show ?thesis
    using assms(1)
  proof cases
    case (drain_step d)
    then show ?thesis using drain_step_threads assms by simp
  next
    case (wait_step w)
    then show ?thesis using wait_step_threads assms by simp
  next
    case close_step
    then show ?thesis using close_step_threads assms by simp
  next
    case (drain_start d)
    have "threads_ok (drain_start d s)" if "mget (sy_drains s) d = None"
    proof (cases "xr_state s = StateClosed")
      case True
      then show ?thesis using threads_ok_drain [OF env assms(2), of d "DrainReturned (Some ErrRegistryClosed)"] that drain_start
        by (simp add: drain_start_def)
    next
      case False
      then show ?thesis using threads_ok_drain [OF env assms(2), of d DrainSnapshot] that drain_start
        by (simp add: drain_start_def)
    qed
    then show ?thesis using assms(2) drain_start by (simp add: drain_start_def)
  next
    case (drain_cancel d)
    have "threads_ok (drain_cancel d s)" if "mget (sy_drains s) d = Some (DrainWaits g)" for g
      using threads_ok_drain [OF env assms(2), of d "DrainReturned (Some ErrContext)"] that drain_cancel
      by (simp add: drain_cancel_def)
    then show ?thesis using assms(2) drain_cancel by (simp add: drain_cancel_def split: option.split drain_pc.split)
  next
    case (wait_cancel w)
    have "threads_ok (wait_cancel w s)" if "mget (sy_waits s) w = Some (PendingWaits g)" for g
      using threads_ok_wait [OF env assms(2), of w "PendingReturned (Some ErrContext)"] that wait_cancel
      by (simp add: wait_cancel_def)
    then show ?thesis using assms(2) wait_cancel by (simp add: wait_cancel_def split: option.split wait_pc.split)
  next
    case close_start
    have "close_ok (close_start s) (sy_close (close_start s))"
      using assms(2) by (simp add: close_start_def threads_ok_def)
    then show ?thesis using threads_ok_close [OF env assms(2)] by (simp add: close_start) (simp add: close_start_def)
  qed (use assms(2) env in \<open>simp_all add: threads_ok_same\<close>)
qed

end
