(* ===== verification/ExecutionReleases.thy ===== *)
theory ExecutionReleases
  imports ExecutionLifecycle
begin

text \<open>
  What the execution registry hands out, counted: every bound resource is closed once, every accounted
  execution is released once and in sequence, and the life of a slot refines an abstract protocol.
\<close>

section \<open>The logs\<close>

definition past_sink :: "end_phase \<Rightarrow> bool" where
  "past_sink p \<longleftrightarrow> (\<exists>ticket. p = Acked ticket) \<or> p = Stored \<or> p = Ended"

definition closed_resource :: "Scope \<Rightarrow> resource option" where
  "closed_resource sc = (if sc_closeDone sc then sc_closing sc else None)"

definition released_in :: "ReleaseGroup \<Rightarrow> Scope \<Rightarrow> bool" where
  "released_in g sc \<longleftrightarrow> sp_Accounted (sc_spec sc) \<and> groupOf (sc_spec sc) = g \<and> marked (sc_end sc)"

definition released_count :: "'a Registry_scheme \<Rightarrow> ReleaseGroup \<Rightarrow> int" where
  \<comment> \<open>the accounted executions of a group that have been released\<close>
  "released_count r g = msum (\<lambda>i sc. if released_in g sc then 1 else 0) (xr_objects r)"

definition logs_ok :: "System \<Rightarrow> bool" where
  "logs_ok s \<longleftrightarrow>
     distinct (map fst (sy_closed s))
     \<and> (\<forall>i f. (i, f) \<in> set (sy_closed s) \<longleftrightarrow> (\<exists>sc. mget (xr_objects s) i = Some sc \<and> closed_resource sc = Some f))
     \<and> (\<forall>g. mgetd 0 (xr_releaseSequences s) g = released_count s g)
     \<and> distinct (map fst (sy_marks s)) \<and> distinct (map snd (sy_marks s))
     \<and> (\<forall>i g n. (i, g, n) \<in> set (sy_marks s) \<longrightarrow> 0 < n \<and> n \<le> released_count s g
          \<and> (\<exists>sc. mget (xr_objects s) i = Some sc \<and> released_in g sc))
     \<and> (\<forall>i sc k g n. mget (xr_objects s) i = Some sc \<longrightarrow> sc_end sc = Released k g n \<longrightarrow> 0 < n \<longrightarrow> (i, g, n) \<in> set (sy_marks s))
     \<and> distinct (map fst (sy_calls s))
     \<and> (\<forall>i k g n. (i, k, g, n) \<in> set (sy_calls s) \<longrightarrow> (i, g, n) \<in> set (sy_marks s)
          \<and> (\<exists>sc. mget (xr_objects s) i = Some sc \<and> past_sink (sc_end sc)))"

text \<open>A step that leaves what the logs speak of as it is.\<close>

definition quiet_change :: "Scope option \<Rightarrow> Scope option \<Rightarrow> bool" where
  "quiet_change e e' \<longleftrightarrow>
     (case (e, e') of
        (None, None) \<Rightarrow> True
      | (None, Some sc) \<Rightarrow> \<not> marked (sc_end sc) \<and> \<not> sc_closeDone sc
      | (Some sc, Some sc') \<Rightarrow> sc_spec sc' = sc_spec sc \<and> marked (sc_end sc') = marked (sc_end sc)
          \<and> closed_resource sc' = closed_resource sc
          \<and> (\<forall>k g n. sc_end sc' = Released k g n \<longrightarrow> sc_end sc = Released k g n)
          \<and> (past_sink (sc_end sc) \<longrightarrow> past_sink (sc_end sc'))
      | _ \<Rightarrow> False)"

lemma closed_resource_open: "\<not> sc_closeDone sc \<Longrightarrow> closed_resource sc = None"
  by (simp add: closed_resource_def)

lemma quiet_refl [simp]: "quiet_change e e"
  by (simp add: quiet_change_def split: option.split)

lemma released_count_quiet:
  assumes "mwf (xr_objects r)" and "mwf (xr_objects r')"
    and "\<And>i. quiet_change (mget (xr_objects r) i) (mget (xr_objects r') i)"
  shows "released_count r' g = released_count r g"
  unfolding released_count_def
proof (rule msum_eq [OF assms(2,1)])
  fix i
  show "(case mget (xr_objects r') i of Some sc \<Rightarrow> if released_in g sc then 1 else 0 | None \<Rightarrow> 0)
      = (case mget (xr_objects r) i of Some sc \<Rightarrow> if released_in g sc then (1 :: int) else 0 | None \<Rightarrow> 0)"
    using assms(3) [of i] by (auto simp: quiet_change_def released_in_def split: option.splits)
qed

lemma logs_ok_quiet:
  assumes ok: "logs_ok s" and wf: "mwf (xr_objects s)" "mwf (xr_objects s')"
    and q: "\<And>i. quiet_change (mget (xr_objects s) i) (mget (xr_objects s') i)"
    and "xr_releaseSequences s' = xr_releaseSequences s"
    and "sy_closed s' = sy_closed s" "sy_marks s' = sy_marks s" "sy_calls s' = sy_calls s"
  shows "logs_ok s'"
proof -
  have count: "released_count s' g = released_count s g" for g using released_count_quiet [OF wf q] .
  have closed: "(\<exists>sc. mget (xr_objects s') i = Some sc \<and> closed_resource sc = Some f)
      \<longleftrightarrow> (\<exists>sc. mget (xr_objects s) i = Some sc \<and> closed_resource sc = Some f)" for i f
    using q [of i] by (auto simp: quiet_change_def closed_resource_open split: option.splits)
  have rel: "\<exists>sc'. mget (xr_objects s') i = Some sc' \<and> released_in g sc'"
    if "\<exists>sc. mget (xr_objects s) i = Some sc \<and> released_in g sc" for i g
    using q [of i] that by (auto simp: quiet_change_def released_in_def split: option.splits)
  have rel_back: "\<exists>sc. mget (xr_objects s) i = Some sc \<and> sc_end sc = Released k g n"
    if "mget (xr_objects s') i = Some sc'" "sc_end sc' = Released k g n" for i sc' k g n
    using q [of i] that by (auto simp: quiet_change_def marked_def split: option.splits)
  have sink: "\<exists>sc'. mget (xr_objects s') i = Some sc' \<and> past_sink (sc_end sc')"
    if "\<exists>sc. mget (xr_objects s) i = Some sc \<and> past_sink (sc_end sc)" for i
    using q [of i] that by (auto simp: quiet_change_def split: option.splits)
  show ?thesis
    unfolding logs_ok_def count closed assms(5-8)
    using ok rel rel_back sink unfolding logs_ok_def by (intro conjI; metis)
qed

lemma logs_ok_onScope:
  assumes "logs_ok s" and "mwf (xr_objects s)" and "xr_objects s' = xr_objects (onScope i f s)"
    and "\<And>sc. mget (xr_objects s) i = Some sc \<Longrightarrow> quiet_change (Some sc) (Some (f sc))"
    and "xr_releaseSequences s' = xr_releaseSequences s"
    and "sy_closed s' = sy_closed s" "sy_marks s' = sy_marks s" "sy_calls s' = sy_calls s"
  shows "logs_ok s'"
proof (rule logs_ok_quiet [OF assms(1,2) _ _ assms(5-8)])
  show "mwf (xr_objects s')" using assms(2,3) by (simp add: onScope_wf)
  show "quiet_change (mget (xr_objects s) j) (mget (xr_objects s') j)" for j
    using assms(4) by (cases "mget (xr_objects s) i") (auto simp: assms(3) onScope_get)
qed

lemma logs_ok_same:
  assumes "logs_ok s" and "mwf (xr_objects s)" and "xr_objects s' = xr_objects s"
    and "xr_releaseSequences s' = xr_releaseSequences s"
    and "sy_closed s' = sy_closed s" "sy_marks s' = sy_marks s" "sy_calls s' = sy_calls s"
  shows "logs_ok s'"
  by (rule logs_ok_quiet [OF assms(1,2) _ _ assms(4-7)]) (use assms(2,3) in simp_all)

section \<open>Every step keeps the logs\<close>

lemma quiet_startBound: "scope_ok sc \<Longrightarrow> quiet_change (Some sc) (Some (startBoundResourceClose sc))"
  by (auto simp: quiet_change_def startBoundResourceClose_def closed_resource_def scope_ok_def split: option.split)

lemma quiet_ends:
  "quiet_change (Some sc) (Some (if sc_end sc = NotEnded then sc\<lparr>sc_active := False, sc_end := Entered\<rparr> else sc))"
  "quiet_change (Some sc) (Some (if sc_end sc = Waiting \<and> sc_closeDone sc then sc\<lparr>sc_end := Quiet\<rparr> else sc))"
  "quiet_change (Some sc) (Some (case sc_end sc of Acked ticket \<Rightarrow> sc\<lparr>sc_releaseTicket := ticket, sc_end := Stored\<rparr> | _ \<Rightarrow> sc))"
  "quiet_change (Some sc) (Some (case sc_end sc of
       Released sink grp n \<Rightarrow> sc\<lparr>sc_end := Acked (if calls_sink (sc_end sc) then answer else None)\<rparr> | _ \<Rightarrow> sc))"
  by (auto simp: quiet_change_def marked_def past_sink_def closed_resource_def split: end_phase.split)

lemma quiet_startClose:
  "scope_ok sc \<Longrightarrow> quiet_change (Some sc) (Some (if sc_end sc = Entered
     then (let sc' = startBoundResourceClose sc in sc'\<lparr>sc_end := if sc_closing sc' \<noteq> None then Waiting else Quiet\<rparr>) else sc))"
  by (auto simp: quiet_change_def startBoundResourceClose_def closed_resource_def scope_ok_def marked_def past_sink_def Let_def
      split: option.split)

lemma maps_okD:
  "maps_ok r \<Longrightarrow> mwf (xr_objects r)"
  "maps_ok r \<Longrightarrow> mget (xr_objects r) i = Some sc \<Longrightarrow> scope_ok sc"
  "maps_ok r \<Longrightarrow> i \<in> set (xr_pending r) \<Longrightarrow> mget (xr_objects r) i = None"
  unfolding maps_ok_def by (blast, blast, metis option.inject not_None_eq)

lemma end_steps_logs:
  assumes "logs_ok s" and "maps_ok s"
  shows "logs_ok (end_enter i s)" and "logs_ok (end_startClose i s)" and "logs_ok (end_waited i s)"
    and "logs_ok (end_store i s)" and "logs_ok (end_sink answer i s)"
proof -
  note on = logs_ok_onScope [OF assms(1) maps_okD(1) [OF assms(2)] refl]
  show "logs_ok (end_enter i s)" unfolding end_enter_def by (rule on, rule quiet_ends(1), simp_all)
  show "logs_ok (end_startClose i s)"
    unfolding end_startClose_def by (rule on, rule quiet_startClose, erule maps_okD(2) [OF assms(2)], simp_all)
  show "logs_ok (end_waited i s)" unfolding end_waited_def by (rule on, rule quiet_ends(2), simp_all)
  show "logs_ok (end_store i s)" unfolding end_store_def by (rule on, rule quiet_ends(3), simp_all)
  show "logs_ok (end_sink answer i s)" unfolding end_sink_def by (rule on, rule quiet_ends(4), simp_all)
qed

lemma startBound_logs:
  assumes "logs_ok s" and "maps_ok s" and "xr_objects s' = xr_objects (onScope i startBoundResourceClose s)"
    and "xr_releaseSequences s' = xr_releaseSequences s"
    and "sy_closed s' = sy_closed s" "sy_marks s' = sy_marks s" "sy_calls s' = sy_calls s"
  shows "logs_ok s'"
  by (rule logs_ok_onScope [OF assms(1) maps_okD(1) [OF assms(2)] assms(3) _ assms(4-7)])
    (use maps_okD(2) [OF assms(2)] quiet_startBound in blast)

lemma token_logs:
  assumes "logs_ok s" and "maps_ok s"
  shows "logs_ok (snd (BeginDispatch s))" and "logs_ok (PendingDispatch_End i s)" and "logs_ok (snd (Install p spec s))"
    and "logs_ok (snd (Bind i f s))"
proof -
  note same = logs_ok_same [OF assms(1) maps_okD(1) [OF assms(2)]]
  show "logs_ok (snd (BeginDispatch s))" by (rule same) (simp_all add: BeginDispatch_def Let_def)
  show "logs_ok (PendingDispatch_End i s)"
    by (rule same) (simp_all add: PendingDispatch_End_def spendToken_def signalLocked_def)
  show "logs_ok (snd (Bind i f s))"
    using assms(1)
    by (auto simp: Bind_def split: option.split
        intro!: logs_ok_onScope [OF assms(1) maps_okD(1) [OF assms(2)] refl])
      (simp add: quiet_change_def closed_resource_def)
  show "logs_ok (snd (Install p spec s))"
  proof (cases p)
    case (Some i)
    let ?sc = "\<lparr>sc_spec = spec, sc_closeFn = None, sc_closing = None, sc_closeDone = False,
        sc_releaseTicket = None, sc_active = True, sc_end = NotEnded\<rparr>"
    let ?s = "spendToken i (s\<lparr>xr_objects := mput i ?sc (xr_objects s), xr_scopes := xr_scopes s @ [i]\<rparr>)"
    have "logs_ok (spendToken i s)" by (rule same) (simp_all add: spendToken_def signalLocked_def)
    moreover have "logs_ok ?s" if "i \<in> set (xr_pending s)"
    proof (rule logs_ok_quiet [OF assms(1) maps_okD(1) [OF assms(2)]])
      show "mwf (xr_objects ?s)" using maps_okD(1) [OF assms(2)] by (simp add: inv_intro)
      show "quiet_change (mget (xr_objects s) j) (mget (xr_objects ?s) j)" for j
        using maps_okD(3) [OF assms(2) that] by (simp add: go_map) (simp add: quiet_change_def marked_def)
    qed (simp_all add: spendToken_def signalLocked_def)
    ultimately show ?thesis using assms(1) by (simp add: Install_def Some Let_def)
  qed (use assms(1) in \<open>simp add: Install_def\<close>)
qed

lemma logs_okD:
  assumes "logs_ok s"
  shows "mgetd 0 (xr_releaseSequences s) g = released_count s g"
    and "(i, g, n) \<in> set (sy_marks s) \<Longrightarrow> n \<le> released_count s g"
    and "(i, g, n) \<in> set (sy_marks s) \<Longrightarrow> \<exists>sc. mget (xr_objects s) i = Some sc \<and> released_in g sc"
    and "mget (xr_objects s) i = Some sc \<Longrightarrow> sc_end sc = Released k g n \<Longrightarrow> 0 < n \<Longrightarrow> (i, g, n) \<in> set (sy_marks s)"
    and "(i, sink, g, n) \<in> set (sy_calls s) \<Longrightarrow> \<exists>sc. mget (xr_objects s) i = Some sc \<and> past_sink (sc_end sc)"
    and "(i, f) \<in> set (sy_closed s) \<Longrightarrow> \<exists>sc. mget (xr_objects s) i = Some sc \<and> closed_resource sc = Some f"
  using assms unfolding logs_ok_def by blast+

lemma logs_okI:
  assumes "distinct (map fst (sy_closed s))" "distinct (map fst (sy_marks s))" "distinct (map snd (sy_marks s))"
    "distinct (map fst (sy_calls s))"
    and "\<And>i f. (i, f) \<in> set (sy_closed s) \<longleftrightarrow> (\<exists>sc. mget (xr_objects s) i = Some sc \<and> closed_resource sc = Some f)"
    and "\<And>g. mgetd 0 (xr_releaseSequences s) g = released_count s g"
    and "\<And>i g n. (i, g, n) \<in> set (sy_marks s) \<Longrightarrow>
      0 < n \<and> n \<le> released_count s g \<and> (\<exists>sc. mget (xr_objects s) i = Some sc \<and> released_in g sc)"
    and "\<And>i sc k g n. mget (xr_objects s) i = Some sc \<Longrightarrow> sc_end sc = Released k g n \<Longrightarrow> 0 < n \<Longrightarrow> (i, g, n) \<in> set (sy_marks s)"
    and "\<And>i sink g n. (i, sink, g, n) \<in> set (sy_calls s) \<Longrightarrow>
      (i, g, n) \<in> set (sy_marks s) \<and> (\<exists>sc. mget (xr_objects s) i = Some sc \<and> past_sink (sc_end sc))"
  shows "logs_ok s"
proof -
  have 5: "\<forall>i f. (i, f) \<in> set (sy_closed s) \<longleftrightarrow> (\<exists>sc. mget (xr_objects s) i = Some sc \<and> closed_resource sc = Some f)"
    using assms(5) by (intro allI)
  have 7: "\<forall>i g n. (i, g, n) \<in> set (sy_marks s) \<longrightarrow>
      0 < n \<and> n \<le> released_count s g \<and> (\<exists>sc. mget (xr_objects s) i = Some sc \<and> released_in g sc)"
    by (intro allI impI) (rule assms(7))
  have 8: "\<forall>i sc k g n. mget (xr_objects s) i = Some sc \<longrightarrow> sc_end sc = Released k g n \<longrightarrow> 0 < n \<longrightarrow> (i, g, n) \<in> set (sy_marks s)"
    by (intro allI impI) (rule assms(8))
  have 9: "\<forall>i k g n. (i, k, g, n) \<in> set (sy_calls s) \<longrightarrow>
      (i, g, n) \<in> set (sy_marks s) \<and> (\<exists>sc. mget (xr_objects s) i = Some sc \<and> past_sink (sc_end sc))"
    by (intro allI impI) (rule assms(9))
  show ?thesis unfolding logs_ok_def
    by (intro conjI assms(1-4) 5 7 8 9) (intro allI assms(6))
qed

lemma logs_okD2:
  assumes "logs_ok s"
  shows "distinct (map fst (sy_closed s))" "distinct (map fst (sy_marks s))" "distinct (map snd (sy_marks s))"
    "distinct (map fst (sy_calls s))"
    and "(i, f) \<in> set (sy_closed s) \<longleftrightarrow> (\<exists>sc. mget (xr_objects s) i = Some sc \<and> closed_resource sc = Some f)"
    and "(i, g, n) \<in> set (sy_marks s) \<Longrightarrow> 0 < n"
    and "(i, sink, g, n) \<in> set (sy_calls s) \<Longrightarrow> (i, g, n) \<in> set (sy_marks s)"
  using assms unfolding logs_ok_def by blast+

lemma closeResource_logs:
  assumes ok: "logs_ok s" and maps: "maps_ok s"
  shows "logs_ok (closeResource i s)"
proof (cases "\<exists>sc f. mget (xr_objects s) i = Some sc \<and> sc_closing sc = Some f \<and> \<not> sc_closeDone sc")
  case True
  then obtain sc f where sc: "mget (xr_objects s) i = Some sc" "sc_closing sc = Some f" "\<not> sc_closeDone sc" by blast
  let ?sc = "sc\<lparr>sc_closeDone := True\<rparr>"
  let ?s = "closeResource i s"
  have s': "?s = (onScope i (\<lambda>sc. sc\<lparr>sc_closeDone := True\<rparr>) s)\<lparr>sy_closed := sy_closed s @ [(i, f)]\<rparr>"
    using sc by (simp add: closeResource_def)
  have objs: "mget (xr_objects ?s) j = (if j = i then Some ?sc else mget (xr_objects s) j)" for j
    using sc(1) by (simp add: s' onScope_get)
  have rel: "released_in g ?sc = released_in g sc" "sc_end ?sc = sc_end sc" "closed_resource ?sc = Some f" for g
    using sc by (simp_all add: released_in_def closed_resource_def)
  have count: "released_count ?s g = released_count s g" for g
    unfolding released_count_def
  proof (rule msum_eq)
    show "mwf (xr_objects ?s)" using maps_okD(1) [OF maps] by (simp add: s' onScope_wf)
    show "(case mget (xr_objects ?s) j of Some sc \<Rightarrow> if released_in g sc then 1 else 0 | None \<Rightarrow> 0)
        = (case mget (xr_objects s) j of Some sc \<Rightarrow> if released_in g sc then (1 :: int) else 0 | None \<Rightarrow> 0)" for j
      using sc(1) by (cases "j = i") (simp_all add: objs rel)
  qed (rule maps_okD(1) [OF maps])
  have fresh: "(i, h) \<notin> set (sy_closed s)" for h
    using logs_okD(6) [OF ok, of i h] sc by (auto simp: closed_resource_def)
  have cl: "sy_closed ?s = sy_closed s @ [(i, f)]" by (simp add: s')
  have closed: "(j, h) \<in> set (sy_closed ?s) \<longleftrightarrow> (\<exists>sc. mget (xr_objects ?s) j = Some sc \<and> closed_resource sc = Some h)" for j h
  proof (cases "j = i")
    case True
    then show ?thesis using fresh [of h] by (auto simp: cl objs rel(3))
  next
    case False
    then have "(j, h) \<in> set (sy_closed ?s) \<longleftrightarrow> (j, h) \<in> set (sy_closed s)" by (simp add: s')
    also have "\<dots> \<longleftrightarrow> (\<exists>sc. mget (xr_objects s) j = Some sc \<and> closed_resource sc = Some h)"
      using ok unfolding logs_ok_def by blast
    finally show ?thesis using False by (simp add: objs)
  qed
  have ex: "\<exists>sc. mget (xr_objects ?s) j = Some sc \<and> P sc"
    if "\<exists>sc. mget (xr_objects s) j = Some sc \<and> P sc" "P sc \<Longrightarrow> P ?sc" for j P
    using that sc(1) by (cases "j = i") (auto simp: objs)
  have logs: "sy_marks ?s = sy_marks s" "sy_calls ?s = sy_calls s" "xr_releaseSequences ?s = xr_releaseSequences s"
    by (simp_all add: s')
  show ?thesis
  proof (rule logs_okI, unfold count logs)
    have "i \<notin> fst ` set (sy_closed s)" using fresh by force
    then show "distinct (map fst (sy_closed ?s))" using logs_okD2(1) [OF ok] by (simp add: cl)
    show "(j, h) \<in> set (sy_closed ?s) \<longleftrightarrow> (\<exists>sc. mget (xr_objects ?s) j = Some sc \<and> closed_resource sc = Some h)" for j h
      by (rule closed)
    show "0 < n \<and> n \<le> released_count s g \<and> (\<exists>sc. mget (xr_objects ?s) j = Some sc \<and> released_in g sc)"
      if "(j, g, n) \<in> set (sy_marks s)" for j g n
      using ex [of j "released_in g"] logs_okD(2,3) [OF ok that] logs_okD2(6) [OF ok that] rel(1) by blast
    show "(j, g, n) \<in> set (sy_marks s)"
      if "mget (xr_objects ?s) j = Some sc'" "sc_end sc' = Released k g n" "0 < n" for j sc' k g n
      using that logs_okD(4) [OF ok] sc(1) by (cases "j = i") (auto simp: objs)
    show "(j, g, n) \<in> set (sy_marks s) \<and> (\<exists>sc. mget (xr_objects ?s) j = Some sc \<and> past_sink (sc_end sc))"
      if "(j, k, g, n) \<in> set (sy_calls s)" for j k g n
      using ex [of j "\<lambda>sc. past_sink (sc_end sc)"] logs_okD(5) [OF ok that] logs_okD2(7) [OF ok that] rel(2) by simp
  qed (rule logs_okD2 [OF ok] logs_okD(1) [OF ok])+
next
  case False
  then have "closeResource i s = s" by (auto simp: closeResource_def split: option.split)
  then show ?thesis using ok by simp
qed

lemma mark_logs:
  assumes ok: "logs_ok s" and maps: "maps_ok s"
  shows "logs_ok (mark_step i s)"
proof (cases "\<exists>sc. mget (xr_objects s) i = Some sc \<and> sc_end sc = Quiet")
  case True
  then obtain sc where sc: "mget (xr_objects s) i = Some sc" "sc_end sc = Quiet" by blast
  let ?g = "groupOf (sc_spec sc)" and ?acc = "sp_Accounted (sc_spec sc)" and ?s = "mark_step i s"
  define n where "n = (if ?acc then released_count s ?g + 1 else 0)"
  define k where "k = (if ?acc then xr_releaseSink s else None)"
  define g where "g = (if ?acc then ?g else noGroup)"
  have nonneg: "0 \<le> released_count s h" for h unfolding released_count_def by (rule msum_nonneg) simp
  let ?seq = "if ?acc then mput ?g n (xr_releaseSequences s) else xr_releaseSequences s"
  have seq: "mgetd 0 (xr_releaseSequences s) h = released_count s h" for h by (rule logs_okD(1) [OF ok])
  have m: "end_mark i s = onScope i (\<lambda>sc. sc\<lparr>sc_end := Released k g n\<rparr>) (s\<lparr>xr_releaseSequences := ?seq\<rparr>)"
    using sc by (simp add: end_mark_def markReleasedLocked_def Let_def k_def g_def n_def seq)
  let ?sc = "sc\<lparr>sc_end := Released k g n\<rparr>"
  have objs0: "mget (xr_objects (end_mark i s)) j = (if j = i then Some ?sc else mget (xr_objects s) j)" for j
    using sc(1) by (simp add: m onScope_get)
  have s': "?s = (if 0 < n then (end_mark i s)\<lparr>sy_marks := sy_marks s @ [(i, g, n)]\<rparr> else end_mark i s)"
    using sc objs0 by (simp add: mark_step_def Let_def)
  have objs: "mget (xr_objects ?s) j = (if j = i then Some ?sc else mget (xr_objects s) j)" for j
    using objs0 by (simp add: s')
  have logs: "sy_closed ?s = sy_closed s" "sy_calls ?s = sy_calls s" "xr_releaseSequences ?s = ?seq"
    "sy_marks ?s = (if ?acc then sy_marks s @ [(i, ?g, released_count s ?g + 1)] else sy_marks s)"
    using nonneg [of ?g] by (simp_all add: s' m g_def n_def)
  have objs_list: "xr_objects ?s = mput i ?sc (xr_objects s)"
    using sc(1) by (simp add: s' m onScope_def)
  have "\<not> released_in h sc" "released_in h ?sc \<longleftrightarrow> ?acc \<and> ?g = h" for h
    using sc(2) by (auto simp: released_in_def marked_def)
  then have count: "released_count ?s h = released_count s h + (if ?acc \<and> ?g = h then 1 else 0)" for h
    using sc(1) maps_okD(1) [OF maps] by (simp add: released_count_def objs_list msum_mput)
  have same: "closed_resource ?sc = closed_resource sc" by (simp add: closed_resource_def)
  have "(i, h, l) \<notin> set (sy_marks s)" for h l
    using logs_okD(3) [OF ok, of i h l] sc by (auto simp: released_in_def marked_def)
  then have new: "i \<notin> fst ` set (sy_marks s)" by force
  have "(j, h, released_count s h + 1) \<notin> set (sy_marks s)" for j h
    using logs_okD(2) [OF ok, of j h "released_count s h + 1"] by auto
  then have new2: "(h, released_count s h + 1) \<notin> snd ` set (sy_marks s)" for h by force
  show ?thesis
  proof (rule logs_okI)
    show "distinct (map fst (sy_closed ?s))" "distinct (map fst (sy_calls ?s))" using logs_okD2 [OF ok] by (simp_all add: logs)
    show "distinct (map fst (sy_marks ?s))" "distinct (map snd (sy_marks ?s))"
      using logs_okD2(2,3) [OF ok] new new2 by (simp_all add: logs(4))
    show "(j, f) \<in> set (sy_closed ?s) \<longleftrightarrow> (\<exists>sc. mget (xr_objects ?s) j = Some sc \<and> closed_resource sc = Some f)" for j f
      using logs_okD2(5) [OF ok, of j f] sc(1) by (cases "j = i") (simp_all add: logs(1) objs same)
    show "mgetd 0 (xr_releaseSequences ?s) h = released_count ?s h" for h
      using seq [of h] by (simp add: logs(3) count n_def mgetd_def go_map)
    show "0 < l \<and> l \<le> released_count ?s h \<and> (\<exists>sc. mget (xr_objects ?s) j = Some sc \<and> released_in h sc)"
      if "(j, h, l) \<in> set (sy_marks ?s)" for j h l
    proof (cases "(j, h, l) \<in> set (sy_marks s)")
      case True
      then have "j \<noteq> i" using new by force
      then show ?thesis using logs_okD(2,3) [OF ok True] logs_okD2(6) [OF ok True] by (simp add: objs count)
    next
      case False
      then have "?acc" "j = i" "h = ?g" "l = released_count s ?g + 1" using that by (auto simp: logs(4) split: if_splits)
      then show ?thesis using nonneg [of ?g] by (simp add: objs count released_in_def marked_def)
    qed
    show "(j, h, l) \<in> set (sy_marks ?s)"
      if "mget (xr_objects ?s) j = Some sc'" "sc_end sc' = Released k' h l" "0 < l" for j sc' k' h l
    proof (cases "j = i")
      case True
      then have "sc' = ?sc" using that(1) by (simp add: objs)
      then have "h = g" "l = n" using that(2) by auto
      then show ?thesis using that(3) True by (auto simp: logs(4) n_def g_def split: if_splits)
    next
      case False
      then have "mget (xr_objects s) j = Some sc'" using that(1) by (simp add: objs)
      then show ?thesis using that(2,3) logs_okD(4) [OF ok] by (simp add: logs(4))
    qed
    show "(j, h, l) \<in> set (sy_marks ?s) \<and> (\<exists>sc. mget (xr_objects ?s) j = Some sc \<and> past_sink (sc_end sc))"
      if "(j, k', h, l) \<in> set (sy_calls ?s)" for j k' h l
    proof -
      have c: "(j, k', h, l) \<in> set (sy_calls s)" using that by (simp add: logs(2))
      have "(j, h, l) \<in> set (sy_marks s)" using logs_okD2(7) [OF ok c] .
      then have "j \<noteq> i" "(j, h, l) \<in> set (sy_marks ?s)" using new by (force simp: logs(4))+
      then show ?thesis using logs_okD(5) [OF ok c] by (simp add: objs)
    qed
  qed
next
  case False
  then have "end_mark i s = s" by (auto simp: end_mark_def split: option.split)
  then have "mark_step i s = s" using False by (auto simp: mark_step_def Let_def split: option.split end_phase.split)
  then show ?thesis using ok by simp
qed

lemma sink_logs:
  assumes ok: "logs_ok s" and maps: "maps_ok s"
  shows "logs_ok (sink_step answer i s)"
proof (cases "\<exists>sc k g n. mget (xr_objects s) i = Some sc \<and> sc_end sc = Released (Some k) g n \<and> 0 < n")
  case True
  then obtain sc k g n where sc: "mget (xr_objects s) i = Some sc" "sc_end sc = Released (Some k) g n" "0 < n" by blast
  let ?s = "sink_step answer i s" and ?e = "end_sink answer i s"
  have s': "?s = ?e\<lparr>sy_calls := sy_calls s @ [(i, k, g, n)]\<rparr>" using sc by (simp add: sink_step_def)
  have ok0: "logs_ok ?e" by (rule end_steps_logs(5) [OF ok maps])
  have same: "sy_calls ?e = sy_calls s" "sy_marks ?e = sy_marks s" by (simp_all add: end_sink_def)
  have obj: "\<exists>sc. mget (xr_objects ?e) i = Some sc \<and> past_sink (sc_end sc)"
    using sc by (simp add: end_sink_def onScope_get past_sink_def)
  have mark: "(i, g, n) \<in> set (sy_marks s)" using logs_okD(4) [OF ok sc(1,2,3)] .
  have "(i, k', h, l) \<notin> set (sy_calls s)" for k' h l
    using logs_okD(5) [OF ok, of i k' h l] sc by (auto simp: past_sink_def)
  then have new: "i \<notin> fst ` set (sy_calls s)" by force
  have count: "released_count ?s h = released_count ?e h" for h by (simp add: released_count_def s')
  show ?thesis
  proof (rule logs_okI)
    show "distinct (map fst (sy_calls ?s))" using logs_okD2(4) [OF ok] new by (simp add: s')
    show "(j, h, l) \<in> set (sy_marks ?s) \<and> (\<exists>sc. mget (xr_objects ?s) j = Some sc \<and> past_sink (sc_end sc))"
      if "(j, k', h, l) \<in> set (sy_calls ?s)" for j k' h l
    proof (cases "(j, k', h, l) \<in> set (sy_calls s)")
      case True
      then show ?thesis using logs_okD2(7) [OF ok0, of j k' h l] logs_okD(5) [OF ok0, of j k' h l] by (simp add: s' same)
    next
      case False
      then show ?thesis using that mark obj by (simp add: s' same)
    qed
  qed (use logs_okD2 [OF ok0] logs_okD [OF ok0] in \<open>simp_all add: s' count released_count_def\<close>)
next
  case False
  then have "sink_step answer i s = end_sink answer i s"
    by (auto simp: sink_step_def split: option.split end_phase.split)
  then show ?thesis using end_steps_logs(5) [OF ok maps] by simp
qed

lemma end_remove_logs:
  assumes "logs_ok s" and "maps_ok s"
  shows "logs_ok (end_remove i s)"
proof (cases "\<exists>sc. mget (xr_objects s) i = Some sc \<and> sc_end sc = Stored")
  case True
  then obtain sc where sc: "mget (xr_objects s) i = Some sc" "sc_end sc = Stored" by blast
  let ?s = "end_remove i s"
  have s': "?s = signalLocked (onScope i (\<lambda>sc. sc\<lparr>sc_end := Ended\<rparr>) (s\<lparr>xr_scopes := removeAll i (xr_scopes s)\<rparr>))"
    using sc by (simp add: end_remove_def)
  show ?thesis
  proof (rule logs_ok_onScope [OF assms(1) maps_okD(1) [OF assms(2)], where i = i and f = "\<lambda>sc. sc\<lparr>sc_end := Ended\<rparr>"])
    show "xr_objects ?s = xr_objects (onScope i (\<lambda>sc. sc\<lparr>sc_end := Ended\<rparr>) s)"
      by (simp add: s' signalLocked_def onScope_def split: option.split)
    show "quiet_change (Some sc') (Some (sc'\<lparr>sc_end := Ended\<rparr>))" if "mget (xr_objects s) i = Some sc'" for sc'
      using that sc by (simp add: quiet_change_def marked_def past_sink_def closed_resource_def)
  qed (simp_all add: s' signalLocked_def)
qed (use assms(1) in \<open>auto simp: end_remove_def split: option.split\<close>)

lemma drain_close_logs:
  assumes "logs_ok s" and "maps_ok s"
  shows "logs_ok (drain_step d s)" and "logs_ok (close_step s)"
proof -
  note same = logs_ok_same [OF assms(1) maps_okD(1) [OF assms(2)]]
  have start: "logs_ok (onScope i startBoundResourceClose (s\<lparr>sy_drains := m\<rparr>))"
    "logs_ok (onScope i startBoundResourceClose (s\<lparr>sy_close := c\<rparr>))" for i m c
    by (rule startBound_logs [OF assms, where i = i]; simp add: onScope_def split: option.split)+
  have check: "logs_ok (drain_check d s)" by (rule same) (simp_all add: drain_check_def)
  show "logs_ok (drain_step d s)"
    using start check assms(1) same [of "s\<lparr>sy_drains := mput d (DrainCloses (xr_scopes s)) (sy_drains s)\<rparr>"]
    by (auto simp: drain_step_def split: option.split drain_pc.split list.split)
  have set: "logs_ok (s\<lparr>sy_close := c\<rparr>)" "logs_ok (s\<lparr>xr_state := StateClosed, sy_close := c\<rparr>)" for c
    by (rule same; simp)+
  show "logs_ok (close_step s)"
    using start assms(1) set by (auto simp: close_step_def split: option.split close_pc.split list.split)
qed

lemma step_logs:
  assumes "registry_system_step s s'" and "logs_ok s" and "maps_ok s"
  shows "logs_ok s'"
proof -
  note same = logs_ok_same [OF assms(2) maps_okD(1) [OF assms(3)]]
  note facts = token_logs end_steps_logs mark_logs sink_logs end_remove_logs closeResource_logs drain_close_logs
  show ?thesis
    using assms(1)
  proof cases
    case (bind i f)
    show ?thesis unfolding bind by (rule logs_ok_same [OF token_logs(4) [OF assms(2,3), of i f]])
        (use maps_okD(1) [OF Bind_maps [OF assms(3)]] in \<open>simp_all\<close>, simp_all add: Bind_def split: option.split)
  next
    case (set_sink raw)
    show ?thesis unfolding set_sink by (rule same) simp_all
  next
    case (replay c)
    show ?thesis unfolding replay by (rule same) simp_all
  next
    case (observe n)
    show ?thesis unfolding observe by (rule same) (simp_all add: ObserveBarrier_def)
  next
    case freeze
    show ?thesis unfolding freeze by (rule same) (simp_all add: FreezeInFlight_def Let_def)
  next
    case (wait_step w)
    show ?thesis unfolding wait_step
      by (rule same) (simp_all add: wait_step_def wait_check_def split: option.split wait_pc.split)
  next
    case (wait_cancel w)
    show ?thesis unfolding wait_cancel by (rule same) (simp_all add: wait_cancel_def split: option.split wait_pc.split)
  next
    case (drain_start d)
    show ?thesis unfolding drain_start by (rule same) (simp_all add: drain_start_def)
  next
    case (drain_cancel d)
    show ?thesis unfolding drain_cancel by (rule same) (simp_all add: drain_cancel_def split: option.split drain_pc.split)
  next
    case close_start
    show ?thesis unfolding close_start by (rule same) (simp_all add: close_start_def)
  qed (use assms(2,3) facts in simp_all)
qed

section \<open>Bound resources\<close>

text \<open>
  A resource that has been bound is held by its scope or its closing has been started, in every later state: the
  only way out of \<open>sc_closeFn\<close> is \<open>startBoundResourceClose\<close>, which starts the close.
\<close>

definition holds_resource :: "resource \<Rightarrow> Scope \<Rightarrow> bool" where
  "holds_resource f sc \<longleftrightarrow> sc_closeFn sc = Some f \<or> sc_closing sc = Some f"

definition bound_ok :: "System \<Rightarrow> bool" where
  "bound_ok s \<longleftrightarrow> distinct (map fst (sy_bound s))
     \<and> (\<forall>i f. (i, f) \<in> set (sy_bound s) \<longleftrightarrow> (\<exists>sc. mget (xr_objects s) i = Some sc \<and> holds_resource f sc))"

definition same_held :: "Scope option \<Rightarrow> Scope option \<Rightarrow> bool" where
  "same_held e e' \<longleftrightarrow> (\<forall>f. (\<exists>sc. e' = Some sc \<and> holds_resource f sc) \<longleftrightarrow> (\<exists>sc. e = Some sc \<and> holds_resource f sc))"

lemma same_held_refl [simp]: "same_held e e"
  by (simp add: same_held_def)

lemma same_held_fields: "sc_closeFn sc' = sc_closeFn sc \<Longrightarrow> sc_closing sc' = sc_closing sc \<Longrightarrow> same_held (Some sc) (Some sc')"
  by (simp add: same_held_def holds_resource_def)

lemma same_held_startBound: "scope_ok sc \<Longrightarrow> same_held (Some sc) (Some (startBoundResourceClose sc))"
  by (auto simp: same_held_def holds_resource_def startBoundResourceClose_def scope_ok_def split: option.split)

lemma bound_ok_held:
  assumes "bound_ok s" and "sy_bound s' = sy_bound s" and "\<And>i. same_held (mget (xr_objects s) i) (mget (xr_objects s') i)"
  shows "bound_ok s'"
  using assms unfolding bound_ok_def same_held_def by simp

lemma bound_ok_same: "bound_ok s \<Longrightarrow> sy_bound s' = sy_bound s \<Longrightarrow> xr_objects s' = xr_objects s \<Longrightarrow> bound_ok s'"
  by (erule bound_ok_held) simp_all

lemma bound_ok_onScope:
  assumes "bound_ok s" and "sy_bound s' = sy_bound s" and "xr_objects s' = xr_objects (onScope i f s)"
    and "\<And>sc. mget (xr_objects s) i = Some sc \<Longrightarrow> same_held (Some sc) (Some (f sc))"
  shows "bound_ok s'"
proof (rule bound_ok_held [OF assms(1,2)])
  show "same_held (mget (xr_objects s) j) (mget (xr_objects s') j)" for j
    using assms(4) by (cases "mget (xr_objects s) i") (auto simp: assms(3) onScope_get)
qed

lemma bind_bound:
  assumes "bound_ok s"
  shows "bound_ok (bind_step i c s)"
proof (cases "\<exists>sc f. mget (xr_objects s) i = Some sc \<and> c = Some f \<and> fst (Bind i c s) = None")
  case True
  then obtain sc f where sc: "mget (xr_objects s) i = Some sc" "c = Some f" "fst (Bind i c s) = None" by blast
  then have open_sc: "sc_closeFn sc = None" "sc_closing sc = None" by (auto simp: Bind_def split: if_splits)
  have b: "Bind i c s = (None, onScope i (\<lambda>sc. sc\<lparr>sc_closeFn := Some f\<rparr>) s)"
    using sc by (auto simp: Bind_def split: if_splits)
  have s': "bind_step i c s = (onScope i (\<lambda>sc. sc\<lparr>sc_closeFn := Some f\<rparr>) s)\<lparr>sy_bound := sy_bound s @ [(i, f)]\<rparr>"
    by (simp add: bind_step_def b) (simp add: sc(2))
  have none: "(i, g) \<notin> set (sy_bound s)" for g
    using assms sc(1) open_sc unfolding bound_ok_def by (simp add: holds_resource_def)
  then have "i \<notin> fst ` set (sy_bound s)" by force
  then have "distinct (map fst (sy_bound (bind_step i c s)))" using assms by (simp add: s' bound_ok_def)
  moreover have "(j, g) \<in> set (sy_bound (bind_step i c s))
      \<longleftrightarrow> (\<exists>sc. mget (xr_objects (bind_step i c s)) j = Some sc \<and> holds_resource g sc)" for j g
    using assms none [of g] sc(1) open_sc by (cases "j = i") (auto simp: s' bound_ok_def onScope_get holds_resource_def)
  ultimately show ?thesis by (simp add: bound_ok_def)
next
  case False
  then have "bind_step i c s = s" by (auto simp: bind_step_def Bind_def split: option.splits if_splits)
  then show ?thesis using assms by simp
qed

lemma token_bound:
  assumes "bound_ok s" and "maps_ok s"
  shows "bound_ok (snd (BeginDispatch s))" and "bound_ok (PendingDispatch_End i s)" and "bound_ok (snd (Install p spec s))"
proof -
  show "bound_ok (snd (BeginDispatch s))" "bound_ok (PendingDispatch_End i s)"
    by (rule bound_ok_same [OF assms(1)];
      simp add: BeginDispatch_def Let_def PendingDispatch_End_def spendToken_def signalLocked_def)+
  have bound: "sy_bound (snd (Install p spec s)) = sy_bound s"
    by (simp add: Install_def spendToken_def signalLocked_def Let_def split: option.split)
  have "same_held (mget (xr_objects s) j) (mget (xr_objects (snd (Install p spec s))) j)" for j
    using maps_okD(3) [OF assms(2), of j]
    by (auto simp: Install_def Let_def go_map same_held_def holds_resource_def split: option.split)
  then show "bound_ok (snd (Install p spec s))" by (rule bound_ok_held [OF assms(1) bound])
qed

lemma end_bound:
  assumes "bound_ok s" and "maps_ok s"
  shows "bound_ok (end_enter i s)" and "bound_ok (end_startClose i s)" and "bound_ok (end_waited i s)"
    and "bound_ok (mark_step i s)" and "bound_ok (sink_step answer i s)" and "bound_ok (end_store i s)"
    and "bound_ok (end_remove i s)" and "bound_ok (closeResource i s)"
proof -
  note on = bound_ok_onScope [OF assms(1)]
  show "bound_ok (end_enter i s)" "bound_ok (end_waited i s)" "bound_ok (end_store i s)"
    unfolding end_enter_def end_waited_def end_store_def
    by (rule on [OF _ refl]; simp add: same_held_fields split: end_phase.split)+
  show "bound_ok (end_startClose i s)"
    unfolding end_startClose_def
  proof (rule on [OF _ refl])
    fix sc
    assume "mget (xr_objects s) i = Some sc"
    then have "same_held (Some sc) (Some (startBoundResourceClose sc))" using maps_okD(2) [OF assms(2)] same_held_startBound by blast
    then show "same_held (Some sc) (Some (if sc_end sc = Entered
       then let sc' = startBoundResourceClose sc in sc'\<lparr>sc_end := if sc_closing sc' \<noteq> None then Waiting else Quiet\<rparr> else sc))"
      by (simp add: same_held_def holds_resource_def Let_def)
  qed simp
  have mark: "bound_ok (end_mark i s)"
  proof (cases "\<exists>sc. mget (xr_objects s) i = Some sc \<and> sc_end sc = Quiet")
    case True
    then obtain sc where sc: "mget (xr_objects s) i = Some sc" "sc_end sc = Quiet" by blast
    obtain k g n r' where m: "markReleasedLocked (sc_spec sc) s = ((k, g, n), r')" by (cases "markReleasedLocked (sc_spec sc) s") auto
    have r': "xr_objects r' = xr_objects s" "sy_bound r' = sy_bound s"
      using m by (auto simp: markReleasedLocked_def Let_def split: if_splits)
    have e: "end_mark i s = onScope i (\<lambda>sc. sc\<lparr>sc_end := Released k g n\<rparr>) r'" using sc m by (simp add: end_mark_def)
    show ?thesis
      by (rule on [where i = i and f = "\<lambda>sc. sc\<lparr>sc_end := Released k g n\<rparr>"])
        (simp_all add: e r' same_held_fields onScope_def split: option.split)
  qed (use assms(1) in \<open>auto simp: end_mark_def split: option.split\<close>)
  show "bound_ok (mark_step i s)"
    by (rule bound_ok_same [OF mark]) (simp_all add: mark_step_def Let_def split: option.split end_phase.split)
  have sink: "bound_ok (end_sink answer i s)"
    unfolding end_sink_def by (rule on [OF _ refl]; simp add: same_held_fields split: end_phase.split)
  show "bound_ok (sink_step answer i s)"
    by (rule bound_ok_same [OF sink]) (simp_all add: sink_step_def split: option.split end_phase.split)
  show "bound_ok (end_remove i s)"
    by (rule bound_ok_held [OF assms(1)])
      (auto simp: end_remove_def signalLocked_def onScope_get same_held_fields split: option.split)
  show "bound_ok (closeResource i s)"
    by (rule bound_ok_held [OF assms(1)])
      (auto simp: closeResource_def onScope_get same_held_fields split: option.split)
qed

lemma drain_close_bound:
  assumes "bound_ok s" and "maps_ok s"
  shows "bound_ok (drain_step d s)" and "bound_ok (close_step s)"
proof -
  have held: "same_held (Some sc) (Some (startBoundResourceClose sc))" if "mget (xr_objects s) i = Some sc" for i sc
    using same_held_startBound maps_okD(2) [OF assms(2) that] .
  have start: "bound_ok (onScope i startBoundResourceClose (s\<lparr>sy_drains := m\<rparr>))"
    "bound_ok (onScope i startBoundResourceClose (s\<lparr>sy_close := c\<rparr>))" for i m c
    by (rule bound_ok_onScope [OF assms(1), where i = i and f = startBoundResourceClose];
      simp add: held onScope_def split: option.split)+
  have same: "bound_ok (s\<lparr>sy_drains := m\<rparr>)" "bound_ok (s\<lparr>sy_close := c\<rparr>)" "bound_ok (drain_check d s)"
    "bound_ok (s\<lparr>xr_state := StateClosed, sy_close := c\<rparr>)" for m c
    by (rule bound_ok_same [OF assms(1)]; simp add: drain_check_def)+
  show "bound_ok (drain_step d s)" "bound_ok (close_step s)"
    using start same assms(1)
    by (auto simp: drain_step_def close_step_def split: option.split drain_pc.split close_pc.split list.split)
qed

lemma step_bound:
  assumes "registry_system_step s s'" and "bound_ok s" and "maps_ok s"
  shows "bound_ok s'"
  using assms(1)
proof cases
  case (observe n)
  show ?thesis unfolding observe by (rule bound_ok_same [OF assms(2)]) (simp_all add: ObserveBarrier_def)
next
  case freeze
  show ?thesis unfolding freeze by (rule bound_ok_same [OF assms(2)]) (simp_all add: FreezeInFlight_def Let_def)
next
  case (set_sink raw)
  show ?thesis unfolding set_sink by (rule bound_ok_same [OF assms(2)]) simp_all
next
  case (replay c)
  show ?thesis unfolding replay by (rule bound_ok_same [OF assms(2)]) simp_all
next
  case (wait_step w)
  show ?thesis unfolding wait_step
    by (rule bound_ok_same [OF assms(2)]) (simp_all add: wait_step_def wait_check_def split: option.split wait_pc.split)
next
  case (wait_cancel w)
  show ?thesis unfolding wait_cancel
    by (rule bound_ok_same [OF assms(2)]) (simp_all add: wait_cancel_def split: option.split wait_pc.split)
next
  case (drain_start d)
  show ?thesis unfolding drain_start by (rule bound_ok_same [OF assms(2)]) (simp_all add: drain_start_def)
next
  case (drain_cancel d)
  show ?thesis unfolding drain_cancel
    by (rule bound_ok_same [OF assms(2)]) (simp_all add: drain_cancel_def split: option.split drain_pc.split)
next
  case close_start
  show ?thesis unfolding close_start by (rule bound_ok_same [OF assms(2)]) (simp_all add: close_start_def)
qed (use assms(2,3) token_bound end_bound drain_close_bound bind_bound in simp_all)

section \<open>Replays of the release sequences\<close>

text \<open>Every number up to the current one of a group has been given to an execution, and a replay repeats one of them.\<close>

definition replays_ok :: "System \<Rightarrow> bool" where
  "replays_ok s \<longleftrightarrow>
     (\<forall>g n. 0 < n \<longrightarrow> n \<le> mgetd 0 (xr_releaseSequences s) g \<longrightarrow> (\<exists>i. (i, g, n) \<in> set (sy_marks s)))
     \<and> (\<forall>k g n. (k, g, n) \<in> set (sy_replaying s) \<union> set (sy_replays s) \<longrightarrow> 0 < n \<and> n \<le> mgetd 0 (xr_releaseSequences s) g)
     \<and> mwf (xr_releaseSequences s)"

lemma replays_ok_same:
  "replays_ok s \<Longrightarrow> xr_releaseSequences s' = xr_releaseSequences s \<Longrightarrow> sy_marks s' = sy_marks s
     \<Longrightarrow> sy_replaying s' = sy_replaying s \<Longrightarrow> sy_replays s' = sy_replays s \<Longrightarrow> replays_ok s'"
  by (simp add: replays_ok_def)

lemma set_sink_replays:
  assumes "replays_ok s"
  shows "replays_ok (set_sink_step raw s)"
proof -
  have new: "0 < n \<and> n \<le> mgetd 0 (xr_releaseSequences s) g" if "(k, g, n) \<in> set (fst (SetReleaseSink raw s))" for k g n
  proof -
    have "(g, n) \<in> set (xr_releaseSequences s)" "0 < n"
      using that by (auto simp: SetReleaseSink_def split: raw_sink.splits)
    moreover have "mget (xr_releaseSequences s) g = Some n"
      using calculation(1) assms by (simp add: replays_ok_def mget_def mwf_def)
    ultimately show ?thesis by (simp add: mgetd_def)
  qed
  have "sy_replaying (set_sink_step raw s) = sy_replaying s @ fst (SetReleaseSink raw s)"
    "sy_replays (set_sink_step raw s) = sy_replays s"
    by (simp_all add: set_sink_step_def SetReleaseSink_def split: raw_sink.split)
  then show ?thesis using assms new unfolding replays_ok_def by auto
qed

lemma replay_replays:
  assumes "replays_ok s"
  shows "replays_ok (replay_step c s)"
proof (cases "c \<in> set (sy_replaying s)")
  case True
  then have "set (sy_replaying (replay_step c s)) \<union> set (sy_replays (replay_step c s)) \<subseteq> set (sy_replaying s) \<union> set (sy_replays s)"
    using set_remove1_subset [of c "sy_replaying s"] by (auto simp: replay_step_def)
  then show ?thesis using assms unfolding replays_ok_def logged_registry logged_logs by blast
qed (use assms in \<open>simp add: replay_step_def\<close>)

lemma mark_replays:
  assumes "replays_ok s"
  shows "replays_ok (mark_step i s)"
proof (cases "\<exists>sc. mget (xr_objects s) i = Some sc \<and> sc_end sc = Quiet \<and> sp_Accounted (sc_spec sc)")
  case True
  then obtain sc where sc: "mget (xr_objects s) i = Some sc" "sc_end sc = Quiet" "sp_Accounted (sc_spec sc)" by blast
  let ?g = "groupOf (sc_spec sc)"
  let ?n = "mgetd 0 (xr_releaseSequences s) ?g + 1"
  have e: "xr_releaseSequences (end_mark i s) = mput ?g ?n (xr_releaseSequences s)"
    "mget (xr_objects (end_mark i s)) i = Some (sc\<lparr>sc_end := Released (xr_releaseSink s) ?g ?n\<rparr>)"
    using sc by (simp_all add: end_mark_def markReleasedLocked_def Let_def onScope_get)
  have same: "sy_replaying (mark_step i s) = sy_replaying s" "sy_replays (mark_step i s) = sy_replays s"
    by (simp_all add: mark_step_def end_mark_def markReleasedLocked_def Let_def split: option.split end_phase.split)
  have seq: "xr_releaseSequences (mark_step i s) = mput ?g ?n (xr_releaseSequences s)"
    using e sc by (simp add: mark_step_def Let_def)
  have marks: "sy_marks (mark_step i s) = (if 0 < ?n then sy_marks s @ [(i, ?g, ?n)] else sy_marks s)"
    using e sc by (auto simp: mark_step_def Let_def end_mark_def markReleasedLocked_def)
  have get: "mgetd 0 (mput ?g ?n (xr_releaseSequences s)) h = (if h = ?g then ?n else mgetd 0 (xr_releaseSequences s) h)" for h
    by (simp add: mgetd_def go_map)
  have 1: "\<exists>j. (j, h, l) \<in> set (sy_marks (mark_step i s))"
    if "0 < l" "l \<le> mgetd 0 (xr_releaseSequences (mark_step i s)) h" for h l
  proof (cases "h = ?g \<and> l = ?n")
    case True
    then show ?thesis using that(1) by (auto simp: marks)
  next
    case False
    then have "l \<le> mgetd 0 (xr_releaseSequences s) h" using that(2) by (auto simp: seq get split: if_splits)
    then have "\<exists>j. (j, h, l) \<in> set (sy_marks s)" using assms that(1) unfolding replays_ok_def by blast
    then show ?thesis by (auto simp: marks)
  qed
  have 2: "0 < l \<and> l \<le> mgetd 0 (xr_releaseSequences (mark_step i s)) h"
    if "(k, h, l) \<in> set (sy_replaying (mark_step i s)) \<union> set (sy_replays (mark_step i s))" for k h l
    using assms that unfolding replays_ok_def same seq get by fastforce
  have 3: "mwf (xr_releaseSequences (mark_step i s))" using assms by (simp add: replays_ok_def seq inv_intro)
  show ?thesis unfolding replays_ok_def using 1 2 3 by blast
next
  case False
  then show ?thesis
    by (intro replays_ok_same [OF assms])
      (auto simp: mark_step_def end_mark_def markReleasedLocked_def Let_def onScope_get split: option.split end_phase.split)
qed

definition same_releases :: "System \<Rightarrow> System \<Rightarrow> bool" where
  "same_releases s s' \<longleftrightarrow> xr_releaseSequences s' = xr_releaseSequences s \<and> sy_marks s' = sy_marks s
     \<and> sy_replaying s' = sy_replaying s \<and> sy_replays s' = sy_replays s"

lemma same_releases_ops [simp]:
  "same_releases s (snd (BeginDispatch s))" "same_releases s (PendingDispatch_End i s)" "same_releases s (snd (Install p spec s))"
  "same_releases s (bind_step i f s)" "same_releases s (end_enter i s)" "same_releases s (end_startClose i s)"
  "same_releases s (end_waited i s)" "same_releases s (sink_step answer i s)" "same_releases s (end_store i s)"
  "same_releases s (end_remove i s)" "same_releases s (closeResource i s)" "same_releases s (ObserveBarrier n s)"
  "same_releases s (snd (FreezeInFlight s))"
  by (simp_all add: same_releases_def BeginDispatch_def PendingDispatch_End_def spendToken_def signalLocked_def Install_def
      Bind_def end_enter_def end_startClose_def end_waited_def end_sink_def sink_step_def end_store_def end_remove_def
      closeResource_def ObserveBarrier_def FreezeInFlight_def Let_def split: option.split end_phase.split)

lemma same_releases_threads [simp]:
  "same_releases s (wait_step w s)" "same_releases s (wait_cancel w s)" "same_releases s (drain_start d s)"
  "same_releases s (drain_step d s)" "same_releases s (drain_cancel d s)" "same_releases s (close_start s)"
  "same_releases s (close_step s)"
  by (simp_all add: same_releases_def wait_step_def wait_check_def wait_cancel_def drain_start_def drain_step_def drain_check_def
      drain_cancel_def close_start_def close_step_def
      split: option.split wait_pc.split drain_pc.split close_pc.split list.split)

lemma step_replays:
  assumes "registry_system_step s s'" and "replays_ok s"
  shows "replays_ok s'"
proof -
  have same: "replays_ok x" if "same_releases s x" for x
    using that by (intro replays_ok_same [OF assms(2)]) (simp_all add: same_releases_def)
  show ?thesis
    using assms(1)
    by cases (simp_all add: same set_sink_replays replay_replays mark_replays assms(2))
qed

section \<open>Runs\<close>

definition system_inv :: "System \<Rightarrow> bool" where
  "system_inv s \<longleftrightarrow> maps_ok s \<and> threads_ok s \<and> logs_ok s \<and> bound_ok s \<and> replays_ok s"

lemma New_system_inv: "system_inv New_system"
  by (simp add: system_inv_def maps_ok_def threads_ok_def logs_ok_def bound_ok_def replays_ok_def mwf_def New_system_def New_registry_def Registry.defs
      released_count_def mget_def mgetd_def)

lemma system_run_inv: "registry_system_run s s' \<Longrightarrow> system_inv s \<Longrightarrow> system_inv s'"
  by (induction rule: registry_system_run.induct) (auto simp: system_inv_def step_maps step_threads step_logs step_bound step_replays)

end
