(* ===== verification/ExecutionProtocol.thy ===== *)
theory ExecutionProtocol
  imports ExecutionReleases
begin

text \<open>
  The contract of the execution registry as an abstract protocol of slots, the refinement of the registry
  to it, and the properties of draining and releasing.
\<close>

section \<open>The protocol of a slot\<close>

text \<open>
  A slot is reserved, then either cancelled or used by one execution, then released; an accounted release
  counts for its group. Reserving and using need an open protocol, which once stopped stays so.
\<close>

datatype slot = SlotFree | SlotReserved | SlotCancelled | SlotRunning ScopeSpec | SlotReleased ScopeSpec

record Slots =
  sl_open :: bool
  sl_slot :: "nat \<Rightarrow> slot"
  sl_released :: "ReleaseGroup \<Rightarrow> int"

inductive slot_step :: "Slots \<Rightarrow> Slots \<Rightarrow> bool" where
  reserve: "sl_open a \<Longrightarrow> sl_slot a i = SlotFree \<Longrightarrow> slot_step a (a\<lparr>sl_slot := (sl_slot a)(i := SlotReserved)\<rparr>)"
| cancel: "sl_slot a i = SlotReserved \<Longrightarrow> slot_step a (a\<lparr>sl_slot := (sl_slot a)(i := SlotCancelled)\<rparr>)"
| use: "sl_open a \<Longrightarrow> sl_slot a i = SlotReserved \<Longrightarrow> slot_step a (a\<lparr>sl_slot := (sl_slot a)(i := SlotRunning spec)\<rparr>)"
| release: "sl_slot a i = SlotRunning spec \<Longrightarrow> slot_step a (a\<lparr>sl_slot := (sl_slot a)(i := SlotReleased spec),
     sl_released := (if sp_Accounted spec then (sl_released a)(groupOf spec := sl_released a (groupOf spec) + 1)
                     else sl_released a)\<rparr>)"
| stop: "slot_step a (a\<lparr>sl_open := False\<rparr>)"

definition slot_of :: "bool option \<Rightarrow> Scope option \<Rightarrow> slot" where
  "slot_of token e =
     (case token of
        None \<Rightarrow> SlotFree
      | Some False \<Rightarrow> SlotReserved
      | Some True \<Rightarrow>
          (case e of
             None \<Rightarrow> SlotCancelled
           | Some sc \<Rightarrow> if marked (sc_end sc) then SlotReleased (sc_spec sc) else SlotRunning (sc_spec sc)))"

definition slots_of :: "'a Registry_scheme \<Rightarrow> Slots" where
  "slots_of r = \<lparr>sl_open = (xr_state r = StateAccepting),
     sl_slot = (\<lambda>i. slot_of (mget (xr_tokens r) i) (mget (xr_objects r) i)),
     sl_released = (\<lambda>g. mgetd 0 (xr_releaseSequences r) g)\<rparr>"

definition same_slot :: "Scope option \<Rightarrow> Scope option \<Rightarrow> bool" where
  "same_slot e e' \<longleftrightarrow> map_option (\<lambda>sc. (sc_spec sc, marked (sc_end sc))) e' = map_option (\<lambda>sc. (sc_spec sc, marked (sc_end sc))) e"

lemma slots_of_cong:
  assumes "(xr_state r' = StateAccepting) = (xr_state r = StateAccepting)" and "xr_tokens r' = xr_tokens r"
    and "xr_releaseSequences r' = xr_releaseSequences r"
    and "\<And>i. same_slot (mget (xr_objects r) i) (mget (xr_objects r') i)"
  shows "slots_of r' = slots_of r"
proof -
  have "slot_of t e' = slot_of t e" if "same_slot e e'" for t e e'
    using that by (cases e; cases e') (auto simp: same_slot_def slot_of_def split: option.split bool.split)
  then have "slot_of (mget (xr_tokens r) i) (mget (xr_objects r') i) = slot_of (mget (xr_tokens r) i) (mget (xr_objects r) i)" for i
    using assms(4) by blast
  then show ?thesis using assms(1-3) by (simp add: slots_of_def)
qed

lemma slots_onScope:
  assumes "xr_state r' = xr_state r" "xr_tokens r' = xr_tokens r" "xr_releaseSequences r' = xr_releaseSequences r"
    and "xr_objects r' = xr_objects (onScope i f r)"
    and "\<And>sc. mget (xr_objects r) i = Some sc \<Longrightarrow> sc_spec (f sc) = sc_spec sc \<and> marked (sc_end (f sc)) = marked (sc_end sc)"
  shows "slots_of r' = slots_of r"
proof (rule slots_of_cong)
  show "same_slot (mget (xr_objects r) j) (mget (xr_objects r') j)" for j
    using assms(5) by (cases "mget (xr_objects r) i") (auto simp: assms(4) onScope_get same_slot_def)
qed (use assms(1-3) in simp_all)

lemma slots_quiet:
  assumes "\<And>sc. mget (xr_objects r) i = Some sc \<Longrightarrow> quiet_change (Some sc) (Some (f sc))"
  shows "slots_of (onScope i f r) = slots_of r"
proof (rule slots_onScope [OF _ _ _ refl])
  show "sc_spec (f sc) = sc_spec sc \<and> marked (sc_end (f sc)) = marked (sc_end sc)" if "mget (xr_objects r) i = Some sc" for sc
    using assms [OF that] by (simp add: quiet_change_def)
qed simp_all

lemma end_steps_slots:
  assumes "maps_ok r"
  shows "slots_of (end_enter i r) = slots_of r" and "slots_of (end_startClose i r) = slots_of r"
    and "slots_of (end_waited i r) = slots_of r" and "slots_of (end_store i r) = slots_of r"
    and "slots_of (end_sink answer i r) = slots_of r"
proof -
  show "slots_of (end_enter i r) = slots_of r" unfolding end_enter_def by (rule slots_quiet) (rule quiet_ends(1))
  show "slots_of (end_startClose i r) = slots_of r"
    unfolding end_startClose_def by (rule slots_quiet) (rule quiet_startClose, erule maps_okD(2) [OF assms])
  show "slots_of (end_waited i r) = slots_of r" unfolding end_waited_def by (rule slots_quiet) (rule quiet_ends(2))
  show "slots_of (end_store i r) = slots_of r" unfolding end_store_def by (rule slots_quiet) (rule quiet_ends(3))
  show "slots_of (end_sink answer i r) = slots_of r" unfolding end_sink_def by (rule slots_quiet) (rule quiet_ends(4))
qed

lemma startBound_slots:
  assumes "xr_state r' = xr_state r" "xr_tokens r' = xr_tokens r" "xr_releaseSequences r' = xr_releaseSequences r"
    and "xr_objects r' = xr_objects (onScope i startBoundResourceClose r)"
  shows "slots_of r' = slots_of r"
  by (rule slots_onScope [OF assms]) (auto simp: startBoundResourceClose_def split: option.split)

lemma same_slots:
  "(xr_state r' = StateAccepting) = (xr_state r = StateAccepting) \<Longrightarrow> xr_tokens r' = xr_tokens r
     \<Longrightarrow> xr_releaseSequences r' = xr_releaseSequences r \<Longrightarrow> xr_objects r' = xr_objects r \<Longrightarrow> slots_of r' = slots_of r"
  by (rule slots_of_cong) (simp_all add: same_slot_def)

lemma BeginDispatch_slots:
  assumes "maps_ok r"
  shows "slots_of (snd (BeginDispatch r)) = slots_of r \<or> slot_step (slots_of r) (slots_of (snd (BeginDispatch r)))"
proof (cases "xr_state r = StateAccepting")
  case True
  let ?i = "xr_next r + 1" and ?r = "snd (BeginDispatch r)"
  have free: "mget (xr_tokens r) ?i = None"
    using assms unfolding maps_ok_def by (metis add.commute Suc_eq_plus1_left not_less_eq_eq order_refl)
  have "slots_of ?r = (slots_of r)\<lparr>sl_slot := (sl_slot (slots_of r))(?i := SlotReserved)\<rparr>"
    using True by (simp add: BeginDispatch_def Let_def slots_of_def go_map fun_eq_iff) (simp add: slot_of_def)
  then show ?thesis using slot_step.reserve [of "slots_of r" ?i] True free by (simp add: slots_of_def slot_of_def)
qed (simp add: BeginDispatch_def)

lemma spend_slots:
  assumes "maps_ok r" and "mget (xr_tokens r) i \<noteq> None"
  shows "slots_of (spendToken i r) = slots_of r \<or> slot_step (slots_of r) (slots_of (spendToken i r))"
proof (cases "mget (xr_tokens r) i = Some False")
  case True
  then have none: "mget (xr_objects r) i = None"
    using assms(1) unfolding maps_ok_def by (metis option.inject not_None_eq)
  have "slots_of (spendToken i r) = (slots_of r)\<lparr>sl_slot := (sl_slot (slots_of r))(i := SlotCancelled)\<rparr>"
    using none by (simp add: slots_of_def go_map fun_eq_iff) (simp add: slot_of_def)
  then show ?thesis using slot_step.cancel [of "slots_of r" i] True by (simp add: slots_of_def slot_of_def)
next
  case False
  then have "mget (xr_tokens r) i = Some True" using assms(2) by auto
  then have "mget (xr_tokens (spendToken i r)) j = mget (xr_tokens r) j" for j by (simp add: go_map)
  then have "slots_of (spendToken i r) = slots_of r" by (simp add: slots_of_def)
  then show ?thesis by blast
qed

lemma Install_slots:
  assumes "maps_ok r"
  shows "slots_of (snd (Install p spec r)) = slots_of r \<or> slot_step (slots_of r) (slots_of (snd (Install p spec r)))"
proof (cases p)
  case (Some i)
  let ?sc = "\<lparr>sc_spec = spec, sc_closeFn = None, sc_closing = None, sc_closeDone = False,
      sc_releaseTicket = None, sc_active = True, sc_end = NotEnded\<rparr>"
  let ?r = "spendToken i (r\<lparr>xr_objects := mput i ?sc (xr_objects r), xr_scopes := xr_scopes r @ [i]\<rparr>)"
  have "slot_step (slots_of r) (slots_of ?r)" if "i \<in> set (xr_pending r)" "xr_state r = StateAccepting"
  proof -
    have token: "mget (xr_tokens r) i = Some False" using assms that(1) unfolding maps_ok_def by blast
    have "slots_of ?r = (slots_of r)\<lparr>sl_slot := (sl_slot (slots_of r))(i := SlotRunning spec)\<rparr>"
      by (simp add: slots_of_def go_map fun_eq_iff) (simp add: slot_of_def marked_def)
    then show ?thesis using slot_step.use [of "slots_of r" i spec] token that(2) by (simp add: slots_of_def slot_of_def)
  qed
  then show ?thesis using spend_slots [OF assms, of i] by (simp add: Install_def Some Let_def)
qed (simp add: Install_def)

lemma mark_slots:
  assumes "maps_ok s"
  shows "slots_of (mark_step i s) = slots_of s \<or> slot_step (slots_of s) (slots_of (mark_step i s))"
proof (cases "\<exists>sc. mget (xr_objects s) i = Some sc \<and> sc_end sc = Quiet")
  case True
  then obtain sc where sc: "mget (xr_objects s) i = Some sc" "sc_end sc = Quiet" by blast
  let ?g = "groupOf (sc_spec sc)" and ?acc = "sp_Accounted (sc_spec sc)"
  have token: "mget (xr_tokens s) i = Some True" using assms sc(1) unfolding maps_ok_def by blast
  have run: "sl_slot (slots_of s) i = SlotRunning (sc_spec sc)"
    using token sc by (simp add: slots_of_def slot_of_def marked_def)
  have m: "slots_of (mark_step i s) = slots_of (end_mark i s)"
    by (rule same_slots) (simp_all add: mark_step_def Let_def split: option.split end_phase.split)
  have "slots_of (end_mark i s) = (slots_of s)\<lparr>sl_slot := (sl_slot (slots_of s))(i := SlotReleased (sc_spec sc)),
     sl_released := (if ?acc then (sl_released (slots_of s))(?g := sl_released (slots_of s) ?g + 1) else sl_released (slots_of s))\<rparr>"
    using sc token
    by (simp add: end_mark_def markReleasedLocked_def Let_def slots_of_def onScope_get fun_eq_iff)
      (simp add: slot_of_def marked_def mgetd_def go_map)
  then show ?thesis using slot_step.release [OF run] by (simp add: m)
next
  case False
  then have "end_mark i s = s" by (auto simp: end_mark_def split: option.split)
  then have "mark_step i s = s" using False by (auto simp: mark_step_def Let_def split: option.split end_phase.split)
  then show ?thesis by simp
qed

section \<open>Refinement\<close>

lemma stop_slots:
  assumes "xr_tokens r' = xr_tokens r" "xr_releaseSequences r' = xr_releaseSequences r" "xr_objects r' = xr_objects r"
    and "xr_state r' \<noteq> StateAccepting"
  shows "slots_of r' = slots_of r \<or> slot_step (slots_of r) (slots_of r')"
proof -
  have "slots_of r' = (slots_of r)\<lparr>sl_open := False\<rparr>" using assms by (simp add: slots_of_def)
  then show ?thesis using slot_step.stop [of "slots_of r"] by simp
qed

lemma drain_close_slots:
  assumes "system_inv s"
  shows "slots_of (drain_step d s) = slots_of s"
    and "slots_of (close_step s) = slots_of s \<or> slot_step (slots_of s) (slots_of (close_step s))"
proof -
  have start: "slots_of (onScope i startBoundResourceClose (s\<lparr>sy_drains := m\<rparr>)) = slots_of s"
    "slots_of (onScope i startBoundResourceClose (s\<lparr>sy_close := c\<rparr>)) = slots_of s" for i m c
    by (rule startBound_slots [where i = i]; simp add: onScope_def split: option.split)+
  have check: "slots_of (drain_check d s) = slots_of s" if "xr_state s \<noteq> StateAccepting"
    by (rule same_slots) (use that in \<open>simp_all add: drain_check_def\<close>)
  have drains: "slots_of (s\<lparr>sy_drains := m\<rparr>) = slots_of s" "slots_of (s\<lparr>sy_close := c\<rparr>) = slots_of s" for m c
    by (rule same_slots; simp)+
  show "slots_of (drain_step d s) = slots_of s"
  proof (cases "mget (sy_drains s) d")
    case (Some pc)
    then have "drain_ok s pc" using assms by (simp add: system_inv_def threads_ok_def)
    then show ?thesis using start check drains Some
      by (cases pc) (auto simp: drain_step_def split: list.split)
  qed (simp add: drain_step_def)
  have "slots_of (s\<lparr>xr_state := StateClosed, sy_close := c\<rparr>) = slots_of s
      \<or> slot_step (slots_of s) (slots_of (s\<lparr>xr_state := StateClosed, sy_close := c\<rparr>))" for c
    by (rule stop_slots) simp_all
  then show "slots_of (close_step s) = slots_of s \<or> slot_step (slots_of s) (slots_of (close_step s))"
    using start drains by (auto simp: close_step_def split: option.split close_pc.split list.split)
qed

text \<open>Most steps leave the slots alone: those on one execution, and those on the sink, the barriers and the threads.\<close>

lemma object_steps_slots:
  assumes "maps_ok s"
  shows "slots_of (bind_step i f s) = slots_of s"
    and "slots_of (sink_step answer i s) = slots_of s"
    and "slots_of (end_remove i s) = slots_of s"
    and "slots_of (closeResource i s) = slots_of s"
proof -
  have "slots_of (snd (Bind i f s)) = slots_of s"
    by (auto simp: Bind_def split: option.split intro!: slots_onScope [OF _ _ _ refl])
  moreover have "slots_of (bind_step i f s) = slots_of (snd (Bind i f s))"
    by (rule slots_of_cong) (simp_all add: same_slot_def)
  ultimately show "slots_of (bind_step i f s) = slots_of s" by simp
  have "slots_of (sink_step answer i s) = slots_of (end_sink answer i s)"
    by (rule same_slots) (simp_all add: sink_step_def split: option.split end_phase.split)
  then show "slots_of (sink_step answer i s) = slots_of s" using end_steps_slots(5) [OF assms] by simp
  show "slots_of (end_remove i s) = slots_of s"
  proof (cases "\<exists>sc. mget (xr_objects s) i = Some sc \<and> sc_end sc = Stored")
    case True
    then show ?thesis
      by (intro slots_onScope [where i = i and f = "\<lambda>sc. sc\<lparr>sc_end := Ended\<rparr>"])
        (auto simp: end_remove_def signalLocked_def onScope_def marked_def)
  qed (auto simp: end_remove_def split: option.split)
  show "slots_of (closeResource i s) = slots_of s"
    by (auto simp: closeResource_def onScope_def split: option.split
        intro!: slots_onScope [where i = i and f = "\<lambda>sc. sc\<lparr>sc_closeDone := True\<rparr>"])
qed

lemma quiet_steps_slots:
  "slots_of (set_sink_step raw s) = slots_of s" "slots_of (replay_step c s) = slots_of s" "slots_of (ObserveBarrier n s) = slots_of s"
  "slots_of (snd (FreezeInFlight s)) = slots_of s" "slots_of (wait_step w s) = slots_of s"
  "slots_of (wait_cancel w s) = slots_of s" "slots_of (drain_cancel d s) = slots_of s" "slots_of (close_start s) = slots_of s"
  by (rule same_slots; simp add: ObserveBarrier_def FreezeInFlight_def Let_def wait_step_def wait_check_def
      wait_cancel_def drain_cancel_def close_start_def split: option.split wait_pc.split drain_pc.split)+

lemma drain_start_slots: "slots_of (drain_start d s) = slots_of s \<or> slot_step (slots_of s) (slots_of (drain_start d s))"
proof (cases "mget (sy_drains s) d = None \<and> xr_state s \<noteq> StateClosed")
  case True
  then show ?thesis by (intro stop_slots) (simp_all add: drain_start_def)
next
  case False
  then have "slots_of (drain_start d s) = slots_of s" by (intro same_slots) (auto simp: drain_start_def)
  then show ?thesis by blast
qed

text \<open>C17:
  The execution registry refines the protocol of its slots: in every state that a run from a new registry
  reaches, under every interleaving of dispatches, executions, draining and closing, each step either leaves
  all slots alone or is one step of the protocol. A slot is reserved only while the registry accepts, used
  only after it was reserved and while the registry accepts, and released at most once, which adds one to
  the release sequence of its group exactly when the execution is accounted.
\<close>

theorem registry_refines_slots:
  assumes "registry_system_run New_system s" and "registry_system_step s s'"
  shows "slots_of s' = slots_of s \<or> slot_step (slots_of s) (slots_of s')"
proof -
  have inv: "system_inv s" using system_run_inv [OF assms(1) New_system_inv] .
  then have maps: "maps_ok s" by (simp add: system_inv_def)
  show ?thesis
    using assms(2)
  proof cases
    case (end_pending i)
    then show ?thesis using spend_slots [OF maps, of i]
      by (cases "mget (xr_tokens s) i = Some False") (simp_all add: PendingDispatch_End_def)
  qed (simp_all add: BeginDispatch_slots Install_slots mark_slots end_steps_slots drain_close_slots object_steps_slots
      quiet_steps_slots drain_start_slots maps inv)
qed

section \<open>Draining\<close>

lemma drain_ended:
  assumes "registry_system_run New_system s" and "mget (sy_drains s) d = Some (DrainReturned None)"
  shows "\<forall>i sc. mget (xr_objects s) i = Some sc \<longrightarrow> sc_end sc = Ended"
proof -
  have inv: "maps_ok s" "threads_ok s" using system_run_inv [OF assms(1) New_system_inv] by (simp_all add: system_inv_def)
  then have "drain_ok s (DrainReturned None)" using assms(2) unfolding threads_ok_def by blast
  then show ?thesis using inv(1) unfolding maps_ok_def by fastforce
qed

text \<open>C18:
  When \<open>Drain\<close> returns without an error nothing is in flight and nothing ever will be: no dispatch is pending,
  every installed execution has ended and its resource is closed, and the registry hands out no further
  dispatch. This holds at that moment and in every later state.
\<close>

theorem drain_returns_empty:
  assumes "registry_system_run New_system s" and "mget (sy_drains s) d = Some (DrainReturned None)"
  shows "xr_pending s = [] \<and> xr_scopes s = []
     \<and> (\<forall>i sc. mget (xr_objects s) i = Some sc \<longrightarrow> sc_end sc = Ended \<and> sc_closeFn sc = None \<and> scope_closed sc)
     \<and> BeginDispatch s = (Inl ErrRegistryNotAccepting, s)"
proof -
  have inv: "maps_ok s" "threads_ok s" using system_run_inv [OF assms(1) New_system_inv] by (simp_all add: system_inv_def)
  then have ok: "drain_ok s (DrainReturned None)" using assms(2) unfolding threads_ok_def by blast
  have "sc_end sc = Ended \<and> sc_closeFn sc = None \<and> scope_closed sc" if "mget (xr_objects s) i = Some sc" for i sc
  proof -
    have e: "sc_end sc = Ended" using drain_ended [OF assms] that by blast
    have "scope_ok sc" using inv(1) that maps_okD(2) by blast
    then show ?thesis using e by (simp add: scope_ok_def after_close_def)
  qed
  then show ?thesis using ok by (simp add: BeginDispatch_def)
qed

text \<open>
  The work that is left when a registry drains can be done, step by step: a pending dispatch ends, an execution
  goes through the body of \<open>EndWithRelease\<close>, the close function of its resource returns, and the draining goroutine
  takes its own steps. None of these begins or installs anything, replaces the sink, or starts or cancels a goroutine.
\<close>

inductive finishing_step :: "nat \<Rightarrow> System \<Rightarrow> System \<Rightarrow> bool" for d :: nat where
  finish_pending: "finishing_step d s (PendingDispatch_End i s)"
| finish_enter: "finishing_step d s (end_enter i s)"
| finish_start_close: "finishing_step d s (end_startClose i s)"
| finish_close_resource: "finishing_step d s (closeResource i s)"
| finish_waited: "finishing_step d s (end_waited i s)"
| finish_mark: "finishing_step d s (mark_step i s)"
| finish_sink: "finishing_step d s (sink_step answer i s)"
| finish_store: "finishing_step d s (end_store i s)"
| finish_remove: "finishing_step d s (end_remove i s)"
| finish_drain: "finishing_step d s (drain_step d s)"

inductive finishing_run :: "nat \<Rightarrow> System \<Rightarrow> System \<Rightarrow> bool" for d :: nat where
  finished: "finishing_run d s s"
| finishing: "finishing_run d s s' \<Longrightarrow> finishing_step d s' s'' \<Longrightarrow> finishing_run d s s''"

lemma finishing_registry_step: "finishing_step d s s' \<Longrightarrow> registry_system_step s s'"
  by (cases rule: finishing_step.cases) (auto intro: registry_system_step.intros)

lemma finishing_registry_run: "finishing_run d s s' \<Longrightarrow> registry_system_run s s'"
  by (induction rule: finishing_run.induct) (auto intro: registry_system_run.intros finishing_registry_step)

lemma finishing_append: "finishing_run d b c \<Longrightarrow> finishing_run d a b \<Longrightarrow> finishing_run d a c"
  by (induction rule: finishing_run.induct) (auto intro: finishing_run.finishing)

lemma finishing_drain: "finishing_run d s ((drain_step d ^^ n) s)"
  by (induction n) (auto intro: finishing_run.finished finishing_run.finishing [OF _ finishing_step.finish_drain])

definition finish :: "nat \<Rightarrow> System \<Rightarrow> System" where
  "finish i s = end_remove i (end_store i (sink_step None i (mark_step i (end_waited i (closeResource i
     (end_startClose i (end_enter i s)))))))"

lemma run_trans: "registry_system_run a b \<Longrightarrow> registry_system_step b c \<Longrightarrow> registry_system_run a c"
  by (rule registry_system_run.step)

lemma run_append: "registry_system_run b c \<Longrightarrow> registry_system_run a b \<Longrightarrow> registry_system_run a c"
  by (induction rule: registry_system_run.induct) (auto intro: registry_system_run.step)

lemma finish_run: "finishing_run d s (finish i s)"
  unfolding finish_def
  by (rule finishing_run.finishing [OF _ finishing_step.finish_remove] finishing_run.finishing [OF _ finishing_step.finish_store]
      finishing_run.finishing [OF _ finishing_step.finish_sink] finishing_run.finishing [OF _ finishing_step.finish_mark]
      finishing_run.finishing [OF _ finishing_step.finish_waited] finishing_run.finishing [OF _ finishing_step.finish_close_resource]
      finishing_run.finishing [OF _ finishing_step.finish_start_close] finishing_run.finishing [OF _ finishing_step.finish_enter]
      finishing_run.finished)+

abbreviation phase_at :: "nat \<Rightarrow> System \<Rightarrow> end_phase option" where
  "phase_at i s \<equiv> map_option sc_end (mget (xr_objects s) i)"

lemma phase_steps:
  "phase_at i s \<noteq> None \<Longrightarrow> phase_at i (end_enter i s) \<notin> {None, Some NotEnded}"
  "phase_at i s \<notin> {None, Some NotEnded} \<Longrightarrow> phase_at i (end_startClose i s) \<notin> {None, Some NotEnded, Some Entered}"
  "phase_at i (closeResource i s) = phase_at i s"
  "mget (xr_objects (closeResource i s)) i = Some sc \<Longrightarrow> sc_closing sc \<noteq> None \<Longrightarrow> sc_closeDone sc"
  "phase_at i s \<notin> {None, Some NotEnded, Some Entered} \<Longrightarrow> maps_ok s
     \<Longrightarrow> (\<And>sc. mget (xr_objects s) i = Some sc \<Longrightarrow> sc_closing sc \<noteq> None \<Longrightarrow> sc_closeDone sc)
     \<Longrightarrow> phase_at i (end_waited i s) \<notin> {None, Some NotEnded, Some Entered, Some Waiting}"
  "phase_at i s \<notin> {None, Some NotEnded, Some Entered, Some Waiting}
     \<Longrightarrow> phase_at i (mark_step i s) \<notin> {None, Some NotEnded, Some Entered, Some Waiting, Some Quiet}"
  "phase_at i s \<notin> {None, Some NotEnded, Some Entered, Some Waiting, Some Quiet}
     \<Longrightarrow> \<exists>p. phase_at i (sink_step None i s) = Some p \<and> past_sink p"
  "\<exists>p. phase_at i s = Some p \<and> past_sink p \<Longrightarrow> phase_at i (end_store i s) \<in> {Some Stored, Some Ended}"
proof -
  show "phase_at i s \<noteq> None \<Longrightarrow> phase_at i (end_enter i s) \<notin> {None, Some NotEnded}"
    by (auto simp: end_enter_def onScope_get)
  show "phase_at i s \<notin> {None, Some NotEnded} \<Longrightarrow> phase_at i (end_startClose i s) \<notin> {None, Some NotEnded, Some Entered}"
    by (auto simp: end_startClose_def onScope_get Let_def split: if_splits)
  show "phase_at i (closeResource i s) = phase_at i s"
    by (auto simp: closeResource_def onScope_get split: option.split)
  show "mget (xr_objects (closeResource i s)) i = Some sc \<Longrightarrow> sc_closing sc \<noteq> None \<Longrightarrow> sc_closeDone sc"
    by (auto simp: closeResource_def onScope_get split: option.splits if_splits)
  show "phase_at i s \<notin> {None, Some NotEnded, Some Entered} \<Longrightarrow> maps_ok s
     \<Longrightarrow> (\<And>sc. mget (xr_objects s) i = Some sc \<Longrightarrow> sc_closing sc \<noteq> None \<Longrightarrow> sc_closeDone sc)
     \<Longrightarrow> phase_at i (end_waited i s) \<notin> {None, Some NotEnded, Some Entered, Some Waiting}"
    using maps_okD(2) [of s i] by (auto simp: end_waited_def onScope_get scope_ok_def split: if_splits)
  show "phase_at i s \<notin> {None, Some NotEnded, Some Entered, Some Waiting}
     \<Longrightarrow> phase_at i (mark_step i s) \<notin> {None, Some NotEnded, Some Entered, Some Waiting, Some Quiet}"
  proof -
    assume p: "phase_at i s \<notin> {None, Some NotEnded, Some Entered, Some Waiting}"
    have "phase_at i (mark_step i s) = phase_at i (end_mark i s)"
      by (simp add: mark_step_def Let_def split: option.split end_phase.split)
    moreover have "phase_at i (end_mark i s) \<notin> {None, Some NotEnded, Some Entered, Some Waiting, Some Quiet}"
      using p by (auto simp: end_mark_def onScope_get markReleasedLocked_def Let_def split: option.splits prod.splits if_splits)
    ultimately show ?thesis by simp
  qed
  show "phase_at i s \<notin> {None, Some NotEnded, Some Entered, Some Waiting, Some Quiet}
     \<Longrightarrow> \<exists>p. phase_at i (sink_step None i s) = Some p \<and> past_sink p"
  proof -
    assume p: "phase_at i s \<notin> {None, Some NotEnded, Some Entered, Some Waiting, Some Quiet}"
    have "phase_at i (sink_step None i s) = phase_at i (end_sink None i s)"
      by (simp add: sink_step_def split: option.split end_phase.split)
    moreover have "\<exists>p. phase_at i (end_sink None i s) = Some p \<and> past_sink p"
    proof -
      obtain y where y: "mget (xr_objects s) i = Some y" using p by auto
      then show ?thesis using p by (cases "sc_end y") (auto simp: end_sink_def onScope_get past_sink_def)
    qed
    ultimately show ?thesis by simp
  qed
  show "\<exists>p. phase_at i s = Some p \<and> past_sink p \<Longrightarrow> phase_at i (end_store i s) \<in> {Some Stored, Some Ended}"
  proof -
    assume "\<exists>p. phase_at i s = Some p \<and> past_sink p"
    then obtain y where y: "mget (xr_objects s) i = Some y" "past_sink (sc_end y)" by auto
    then show ?thesis by (cases "sc_end y") (auto simp: end_store_def onScope_get past_sink_def)
  qed
qed

lemma scopes_steps [simp]:
  "xr_scopes (end_enter i r) = xr_scopes r" "xr_scopes (end_startClose i r) = xr_scopes r"
  "xr_scopes (end_waited i r) = xr_scopes r" "xr_scopes (end_store i r) = xr_scopes r"
  "xr_scopes (end_sink answer i r) = xr_scopes r" "xr_scopes (end_mark i r) = xr_scopes r"
  "xr_pending (end_enter i r) = xr_pending r" "xr_pending (end_startClose i r) = xr_pending r"
  "xr_pending (end_waited i r) = xr_pending r" "xr_pending (end_store i r) = xr_pending r"
  "xr_pending (end_sink answer i r) = xr_pending r" "xr_pending (end_mark i r) = xr_pending r"
  "xr_pending (end_remove i r) = xr_pending r"
  by (simp_all add: end_enter_def end_startClose_def end_waited_def end_store_def end_sink_def end_mark_def end_remove_def
      markReleasedLocked_def signalLocked_def Let_def split: option.split prod.split)

lemma scopes_system_steps [simp]:
  "xr_scopes (mark_step i s) = xr_scopes s" "xr_scopes (sink_step answer i s) = xr_scopes s"
  "xr_scopes (closeResource i s) = xr_scopes s" "xr_pending (mark_step i s) = xr_pending s"
  "xr_pending (sink_step answer i s) = xr_pending s" "xr_pending (closeResource i s) = xr_pending s"
  by (simp_all add: mark_step_def sink_step_def closeResource_def Let_def split: option.split end_phase.split)

lemma finish_fields:
  assumes "maps_ok s" and "i \<in> set (xr_scopes s)"
  shows "xr_scopes (finish i s) = removeAll i (xr_scopes s)" and "xr_pending (finish i s) = xr_pending s"
    and "sy_drains (finish i s) = sy_drains s"
proof -
  let ?a = "end_enter i s" let ?b = "end_startClose i ?a" let ?c = "closeResource i ?b" let ?d = "end_waited i ?c"
  let ?e = "mark_step i ?d" let ?f = "sink_step None i ?e" let ?g = "end_store i ?f"
  note maps = step_maps [OF registry_system_step.end_enter] step_maps [OF registry_system_step.end_start_close]
    step_maps [OF registry_system_step.close_resource] step_maps [OF registry_system_step.end_waited]
    step_maps [OF registry_system_step.end_mark] step_maps [OF registry_system_step.end_sink] step_maps [OF registry_system_step.end_store]
  have c: "maps_ok ?c" and g: "maps_ok ?g" using assms(1) by (blast intro: maps)+
  have "phase_at i s \<noteq> None" using assms unfolding maps_ok_def by fastforce
  then have "phase_at i ?a \<notin> {None, Some NotEnded}" by (rule phase_steps(1))
  then have "phase_at i ?b \<notin> {None, Some NotEnded, Some Entered}" by (rule phase_steps(2))
  then have "phase_at i ?c \<notin> {None, Some NotEnded, Some Entered}" by (simp only: phase_steps(3) not_False_eq_True)
  then have "phase_at i ?d \<notin> {None, Some NotEnded, Some Entered, Some Waiting}"
    by (rule phase_steps(5)) (rule c, erule phase_steps(4))
  then have "phase_at i ?e \<notin> {None, Some NotEnded, Some Entered, Some Waiting, Some Quiet}" by (rule phase_steps(6))
  then have "\<exists>p. phase_at i ?f = Some p \<and> past_sink p" by (rule phase_steps(7))
  then have "phase_at i ?g \<in> {Some Stored, Some Ended}" by (rule phase_steps(8))
  moreover have "i \<in> set (xr_scopes ?g)" using assms(2) by simp
  then have "\<exists>sc. mget (xr_objects ?g) i = Some sc \<and> sc_end sc \<noteq> Ended" using g unfolding maps_ok_def by blast
  ultimately obtain sc where sc: "mget (xr_objects ?g) i = Some sc" "sc_end sc = Stored" by auto
  then show "xr_scopes (finish i s) = removeAll i (xr_scopes s)"
    by (simp add: finish_def end_remove_def signalLocked_def)
  show "xr_pending (finish i s) = xr_pending s" by (simp add: finish_def)
  have drains: "same_threads x y \<Longrightarrow> sy_drains y = sy_drains x" for x y by (simp add: same_threads_def)
  have "sy_drains (end_remove i x) = sy_drains x" "sy_drains (end_store i x) = sy_drains x"
    "sy_drains (sink_step None i x) = sy_drains x" "sy_drains (mark_step i x) = sy_drains x"
    "sy_drains (end_waited i x) = sy_drains x" "sy_drains (closeResource i x) = sy_drains x"
    "sy_drains (end_startClose i x) = sy_drains x" "sy_drains (end_enter i x) = sy_drains x" for x
    by (rule drains, simp)+
  then show "sy_drains (finish i s) = sy_drains s" unfolding finish_def by simp
qed

lemma finish_all:
  assumes "system_inv s" and "set is \<subseteq> set (xr_scopes s)" and "distinct is"
  shows "\<exists>s'. finishing_run d s s' \<and> system_inv s' \<and> set (xr_scopes s') = set (xr_scopes s) - set is
     \<and> xr_pending s' = xr_pending s \<and> sy_drains s' = sy_drains s"
  using assms
proof (induction "is" arbitrary: s)
  case (Cons i js)
  have maps: "maps_ok s" using Cons.prems(1) by (simp add: system_inv_def)
  have i: "i \<in> set (xr_scopes s)" using Cons.prems(2) by simp
  note f = finish_fields [OF maps i]
  have inv: "system_inv (finish i s)" using system_run_inv [OF finishing_registry_run [OF finish_run] Cons.prems(1)] .
  have "set js \<subseteq> set (xr_scopes (finish i s))" using Cons.prems(2,3) by (auto simp: f(1))
  from Cons.IH [OF inv this] Cons.prems(3) obtain s' where s': "finishing_run d (finish i s) s'" "system_inv s'"
    "set (xr_scopes s') = set (xr_scopes (finish i s)) - set js" "xr_pending s' = xr_pending (finish i s)"
    "sy_drains s' = sy_drains (finish i s)" by auto
  then show ?case using finishing_append [OF s'(1) finish_run] f by (intro exI [of _ s']) auto
next
  case Nil
  then show ?case using finishing_run.finished [of d s] by auto
qed

lemma end_pending_all:
  assumes "system_inv s" and "set is \<subseteq> set (xr_pending s)" and "distinct is"
  shows "\<exists>s'. finishing_run d s s' \<and> system_inv s' \<and> set (xr_pending s') = set (xr_pending s) - set is
     \<and> xr_scopes s' = xr_scopes s \<and> sy_drains s' = sy_drains s"
  using assms
proof (induction "is" arbitrary: s)
  case (Cons i js)
  let ?s = "PendingDispatch_End i s"
  have run: "finishing_run d s ?s" by (rule finishing_run.finishing [OF finishing_run.finished finishing_step.finish_pending])
  have "mget (xr_tokens s) i = Some False" using Cons.prems(1,2) unfolding system_inv_def maps_ok_def by simp
  then have f: "xr_pending ?s = removeAll i (xr_pending s)" "xr_scopes ?s = xr_scopes s" "sy_drains ?s = sy_drains s"
    by (simp_all add: PendingDispatch_End_def) (simp add: spendToken_def signalLocked_def)
  have inv: "system_inv ?s" using system_run_inv [OF finishing_registry_run [OF run] Cons.prems(1)] .
  have "set js \<subseteq> set (xr_pending ?s)" using Cons.prems(2,3) by (auto simp: f(1))
  from Cons.IH [OF inv this] Cons.prems(3) obtain s' where s': "finishing_run d ?s s'" "system_inv s'"
    "set (xr_pending s') = set (xr_pending ?s) - set js" "xr_scopes s' = xr_scopes ?s" "sy_drains s' = sy_drains ?s"
    by auto
  then show ?case using finishing_append [OF s'(1) run] f by (intro exI [of _ s']) auto
next
  case Nil
  then show ?case using finishing_run.finished [of d s] by auto
qed

text \<open>A draining goroutine on a registry with nothing in flight returns by its own steps.\<close>

lemma drain_alone:
  assumes "system_inv s" and "mget (sy_drains s) d = Some pc" and "\<forall>e. pc \<noteq> DrainReturned e"
    and "xr_pending s = []" "xr_scopes s = []"
  shows "\<exists>n. mget (sy_drains ((drain_step d ^^ n) s)) d = Some (DrainReturned None)"
proof -
  have check: "mget (sy_drains (drain_check d x)) d = Some (DrainReturned None)" if "xr_pending x = []" "xr_scopes x = []" for x
    using that by (simp add: drain_check_def go_map)
  have closes: "\<exists>n. mget (sy_drains ((drain_step d ^^ n) x)) d = Some (DrainReturned None)"
    if "mget (sy_drains x) d = Some (DrainCloses ks)" "xr_pending x = []" "xr_scopes x = []" for ks x
    using that
  proof (induction ks arbitrary: x)
    case Nil
    then show ?case using check by (intro exI [of _ 1]) (simp add: drain_step_def)
  next
    case (Cons i ks)
    have "mget (sy_drains (drain_step d x)) d = Some (DrainCloses ks)" "xr_pending (drain_step d x) = []" "xr_scopes (drain_step d x) = []"
      using Cons.prems by (simp_all add: drain_step_def go_map)
    from Cons.IH [OF this] obtain n where "mget (sy_drains ((drain_step d ^^ n) (drain_step d x))) d = Some (DrainReturned None)" ..
    then show ?case by (intro exI [of _ "Suc n"]) (simp add: funpow_swap1)
  qed
  show ?thesis
  proof (cases pc)
    case DrainSnapshot
    let ?x = "drain_step d s"
    have "mget (sy_drains ?x) d = Some (DrainCloses (xr_scopes s))" "xr_pending ?x = []" "xr_scopes ?x = []"
      using assms(2,4,5) by (simp_all add: DrainSnapshot drain_step_def go_map)
    from closes [OF this] obtain n where "mget (sy_drains ((drain_step d ^^ n) ?x)) d = Some (DrainReturned None)" ..
    then show ?thesis by (intro exI [of _ "Suc n"]) (simp add: funpow_swap1)
  next
    case (DrainCloses ks)
    then show ?thesis using closes assms by blast
  next
    case (DrainWaits g)
    then have "drain_ok s (DrainWaits g)" using assms(1,2) unfolding system_inv_def threads_ok_def by blast
    then have "g < xr_changed s" using assms(4,5) by auto
    then show ?thesis using check assms(2,4,5) by (intro exI [of _ 1]) (simp add: DrainWaits drain_step_def)
  qed (use assms(3) in blast)
qed

text \<open>C29:
  Draining can always finish, and no wake-up of the waiting goroutine is lost. In every state that a run of the
  registry reaches and in which a goroutine drains and has not returned: if nothing is in flight, the goroutine
  returns without an error by steps of its own only, whatever it had been waiting for; and if dispatches are pending
  or executions run, then ending them, closing their resources and the steps of this goroutine make it return, with
  no help from any other call on the registry.
\<close>

theorem drain_can_finish:
  assumes "registry_system_run New_system s" and "mget (sy_drains s) d = Some pc" and "\<forall>e. pc \<noteq> DrainReturned e"
  shows "(xr_pending s = [] \<longrightarrow> xr_scopes s = [] \<longrightarrow>
       (\<exists>n. mget (sy_drains ((drain_step d ^^ n) s)) d = Some (DrainReturned None)))
     \<and> (\<exists>s'. finishing_run d s s' \<and> mget (sy_drains s') d = Some (DrainReturned None))"
proof -
  have inv: "system_inv s" using system_run_inv [OF assms(1) New_system_inv] .
  from end_pending_all [OF inv, of "remdups (xr_pending s)"] obtain s1 where 1: "finishing_run d s s1" "system_inv s1"
    "set (xr_pending s1) = {}" "xr_scopes s1 = xr_scopes s" "sy_drains s1 = sy_drains s" by auto
  from finish_all [OF 1(2), of "remdups (xr_scopes s1)"] obtain s2 where 2: "finishing_run d s1 s2" "system_inv s2"
    "set (xr_scopes s2) = {}" "xr_pending s2 = xr_pending s1" "sy_drains s2 = sy_drains s1" by auto
  have "mget (sy_drains s2) d = Some pc" "xr_pending s2 = []" "xr_scopes s2 = []" using 1 2 assms(2) by auto
  from drain_alone [OF 2(2) this(1) assms(3) this(2,3)] obtain n where
    n: "mget (sy_drains ((drain_step d ^^ n) s2)) d = Some (DrainReturned None)" ..
  have "finishing_run d s ((drain_step d ^^ n) s2)"
    by (rule finishing_append [OF finishing_drain finishing_append [OF 2(1) 1(1)]])
  then show ?thesis using n drain_alone [OF inv assms(2,3)] by blast
qed

section \<open>Releases and resources\<close>

text \<open>C28:
  The release sequence of a group is the number of its accounted executions that have been released, whatever the
  interleaving. Each execution calls the release sink at most once, with a sequence number of its own group between
  one and the current one, and no two executions of a group call it with the same number. The sink is called besides
  when it is set, to replay the known groups: such a call, which may come late, repeats a number that an accounted
  execution of the group has been released with, and never runs ahead of the current one.
\<close>

theorem releases_exact:
  assumes "registry_system_run New_system s"
  shows "mgetd 0 (xr_releaseSequences s) g = released_count s g
     \<and> distinct (map fst (sy_calls s))
     \<and> (\<forall>i k h n. (i, k, h, n) \<in> set (sy_calls s) \<longrightarrow> 0 < n \<and> n \<le> mgetd 0 (xr_releaseSequences s) h
          \<and> (\<exists>sc. mget (xr_objects s) i = Some sc \<and> sp_Accounted (sc_spec sc) \<and> groupOf (sc_spec sc) = h))
     \<and> (\<forall>i j k l h n. (i, k, h, n) \<in> set (sy_calls s) \<longrightarrow> (j, l, h, n) \<in> set (sy_calls s) \<longrightarrow> i = j)
     \<and> (\<forall>k h n. (k, h, n) \<in> set (sy_replaying s) \<union> set (sy_replays s) \<longrightarrow> 0 < n \<and> n \<le> mgetd 0 (xr_releaseSequences s) h
          \<and> (\<exists>i. (i, h, n) \<in> set (sy_marks s)
               \<and> (\<exists>sc. mget (xr_objects s) i = Some sc \<and> sp_Accounted (sc_spec sc) \<and> groupOf (sc_spec sc) = h)))"
proof -
  have ok: "logs_ok s" "replays_ok s" using system_run_inv [OF assms New_system_inv] by (simp_all add: system_inv_def)
  have seq: "mgetd 0 (xr_releaseSequences s) h = released_count s h" for h by (rule logs_okD(1) [OF ok(1)])
  have mark: "0 < n \<and> n \<le> released_count s h \<and> (\<exists>sc. mget (xr_objects s) i = Some sc \<and> sp_Accounted (sc_spec sc) \<and> groupOf (sc_spec sc) = h)"
    if "(i, h, n) \<in> set (sy_marks s)" for i h n
    using logs_okD(2,3) [OF ok(1) that] logs_okD2(6) [OF ok(1) that] by (auto simp: released_in_def)
  have uniq: "i = j" if "(i, k, h, n) \<in> set (sy_calls s)" "(j, l, h, n) \<in> set (sy_calls s)" for i j k l h n
  proof -
    have "(i, h, n) \<in> set (sy_marks s)" "(j, h, n) \<in> set (sy_marks s)" using that logs_okD2(7) [OF ok(1)] by blast+
    then show ?thesis using logs_okD2(3) [OF ok(1)] unfolding distinct_map by (metis inj_on_def snd_conv prod.inject)
  qed
  have replay: "0 < n \<and> n \<le> released_count s h \<and> (\<exists>i. (i, h, n) \<in> set (sy_marks s))"
    if "(k, h, n) \<in> set (sy_replaying s) \<union> set (sy_replays s)" for k h n
    using ok(2) that unfolding replays_ok_def seq by blast
  have calls: "\<forall>i k h n. (i, k, h, n) \<in> set (sy_calls s) \<longrightarrow> 0 < n \<and> n \<le> released_count s h
      \<and> (\<exists>sc. mget (xr_objects s) i = Some sc \<and> sp_Accounted (sc_spec sc) \<and> groupOf (sc_spec sc) = h)"
    using mark logs_okD2(7) [OF ok(1)] by blast
  have replays: "\<forall>k h n. (k, h, n) \<in> set (sy_replaying s) \<union> set (sy_replays s) \<longrightarrow> 0 < n \<and> n \<le> released_count s h
      \<and> (\<exists>i. (i, h, n) \<in> set (sy_marks s)
           \<and> (\<exists>sc. mget (xr_objects s) i = Some sc \<and> sp_Accounted (sc_spec sc) \<and> groupOf (sc_spec sc) = h))"
  proof (intro allI impI)
    fix k h n
    assume r: "(k, h, n) \<in> set (sy_replaying s) \<union> set (sy_replays s)"
    then obtain i where i: "(i, h, n) \<in> set (sy_marks s)" using replay by blast
    then show "0 < n \<and> n \<le> released_count s h \<and> (\<exists>i. (i, h, n) \<in> set (sy_marks s)
           \<and> (\<exists>sc. mget (xr_objects s) i = Some sc \<and> sp_Accounted (sc_spec sc) \<and> groupOf (sc_spec sc) = h))"
      using mark [OF i] by blast
  qed
  show ?thesis unfolding seq by (intro conjI refl calls replays logs_okD2(4) [OF ok(1)]) (blast intro: uniq)
qed

text \<open>C30:
  A bound resource is never lost and is closed once. Each execution is bound to one resource at most; a resource that
  was ever bound is still held by its execution or its closing has been started, in which case the return of its close
  function completes it; the close functions that have returned are those of bound resources, one for each execution.
  Once an execution is past the closing, and so before it is released, every resource bound to it has been closed. While
  a draining goroutine waits, the closing of every resource ever bound has been started and none can be bound any more,
  and once it has returned without an error every one of them has been closed.
\<close>

theorem resources_closed:
  assumes "registry_system_run New_system s"
  shows "distinct (map fst (sy_bound s)) \<and> distinct (map fst (sy_closed s)) \<and> set (sy_closed s) \<subseteq> set (sy_bound s)
     \<and> (\<forall>i f. (i, f) \<in> set (sy_bound s) \<longrightarrow> (\<exists>sc. mget (xr_objects s) i = Some sc
          \<and> (sc_closeFn sc = Some f \<or> sc_closing sc = Some f \<and> (i, f) \<in> set (sy_closed (closeResource i s)))
          \<and> (sc_end sc \<notin> {NotEnded, Entered, Waiting} \<longrightarrow> (i, f) \<in> set (sy_closed s))))
     \<and> (\<forall>d g. mget (sy_drains s) d = Some (DrainWaits g) \<longrightarrow>
          (\<forall>i f. (i, f) \<in> set (sy_bound s) \<longrightarrow> map_option sc_closing (mget (xr_objects s) i) = Some (Some f))
          \<and> (\<forall>i f. fst (Bind i f s) \<noteq> None))
     \<and> (\<forall>d. mget (sy_drains s) d = Some (DrainReturned None) \<longrightarrow> set (sy_closed s) = set (sy_bound s))"
proof -
  have inv: "maps_ok s" "threads_ok s" and ok: "logs_ok s" and bound: "bound_ok s"
    using system_run_inv [OF assms New_system_inv] by (simp_all add: system_inv_def)
  have closed_bound: "set (sy_closed s) \<subseteq> set (sy_bound s)"
  proof
    fix x
    assume "x \<in> set (sy_closed s)"
    moreover obtain i f where x: "x = (i, f)" by (cases x)
    ultimately obtain sc where "mget (xr_objects s) i = Some sc" "closed_resource sc = Some f" using logs_okD(6) [OF ok] by blast
    then show "x \<in> set (sy_bound s)"
      using bound x by (auto simp: bound_ok_def holds_resource_def closed_resource_def split: if_splits)
  qed
  have past: "(i, f) \<in> set (sy_closed s)"
    if "(i, f) \<in> set (sy_bound s)" "mget (xr_objects s) i = Some sc" "sc_end sc \<notin> {NotEnded, Entered, Waiting}" for i f sc
  proof -
    have "scope_ok sc" using maps_okD(2) [OF inv(1) that(2)] .
    then have "sc_closeFn sc = None" "scope_closed sc" using that(3) by (auto simp: scope_ok_def after_close_def)
    moreover have "holds_resource f sc" using bound that(1,2) by (auto simp: bound_ok_def)
    ultimately have "closed_resource sc = Some f" by (auto simp: scope_closed_def closed_resource_def holds_resource_def)
    then show ?thesis using logs_okD2(5) [OF ok] that(2) by blast
  qed
  have closes: "(i, f) \<in> set (sy_closed (closeResource i s))"
    if "mget (xr_objects s) i = Some sc" "sc_closing sc = Some f" for i f sc
    using that logs_okD2(5) [OF ok, of i f] by (auto simp: closeResource_def closed_resource_def)
  have each: "\<forall>i f. (i, f) \<in> set (sy_bound s) \<longrightarrow> (\<exists>sc. mget (xr_objects s) i = Some sc
          \<and> (sc_closeFn sc = Some f \<or> sc_closing sc = Some f \<and> (i, f) \<in> set (sy_closed (closeResource i s)))
          \<and> (sc_end sc \<notin> {NotEnded, Entered, Waiting} \<longrightarrow> (i, f) \<in> set (sy_closed s)))"
  proof (intro allI impI)
    fix i f
    assume b: "(i, f) \<in> set (sy_bound s)"
    then obtain sc where "mget (xr_objects s) i = Some sc" "holds_resource f sc" using bound unfolding bound_ok_def by blast
    then show "\<exists>sc. mget (xr_objects s) i = Some sc
          \<and> (sc_closeFn sc = Some f \<or> sc_closing sc = Some f \<and> (i, f) \<in> set (sy_closed (closeResource i s)))
          \<and> (sc_end sc \<notin> {NotEnded, Entered, Waiting} \<longrightarrow> (i, f) \<in> set (sy_closed s))"
      using closes past [OF b] unfolding holds_resource_def by blast
  qed
  have waits: "(\<forall>i f. (i, f) \<in> set (sy_bound s) \<longrightarrow> map_option sc_closing (mget (xr_objects s) i) = Some (Some f))
      \<and> (\<forall>i f. fst (Bind i f s) \<noteq> None)" if "mget (sy_drains s) d = Some (DrainWaits g)" for d g
  proof -
    have d: "drain_ok s (DrainWaits g)" using inv(2) that unfolding threads_ok_def by blast
    have "map_option sc_closing (mget (xr_objects s) i) = Some (Some f)" if "(i, f) \<in> set (sy_bound s)" for i f
      using d that bound unfolding bound_ok_def holds_resource_def by (fastforce simp: no_open_resource_def)
    moreover have "fst (Bind i f s) \<noteq> None" for i f using d by (simp add: Bind_def split: option.split)
    ultimately show ?thesis by blast
  qed
  have returned: "set (sy_closed s) = set (sy_bound s)" if "mget (sy_drains s) d = Some (DrainReturned None)" for d
  proof -
    have "\<forall>i sc. mget (xr_objects s) i = Some sc \<longrightarrow> sc_end sc = Ended" using drain_ended [OF assms that] .
    then have "set (sy_bound s) \<subseteq> set (sy_closed s)" using each by fastforce
    then show ?thesis using closed_bound by blast
  qed
  have "distinct (map fst (sy_bound s))" using bound by (simp add: bound_ok_def)
  then show ?thesis using closed_bound each logs_okD2(1) [OF ok] waits returned by (intro conjI) blast+
qed

section \<open>A run\<close>

definition sample_spec :: ScopeSpec where
  "sample_spec = \<lparr>sp_RequestID = ''r'', sp_CredentialID = ''c'', sp_Model = ''m'', sp_Kind = ''chat'', sp_StartedAt = 5, sp_Accounted = True\<rparr>"

definition sample_started :: System where
  \<comment> \<open>one bound execution, a release sink, and a goroutine that starts to drain\<close>
  "sample_started = drain_start 0 (bind_step 1 (Some 7) (snd (Install (Some 1) sample_spec
     (snd (BeginDispatch (set_sink_step (TicketSink 3) New_system))))))"

definition sample_waiting :: System where
  "sample_waiting = drain_step 0 (drain_step 0 (drain_step 0 sample_started))"

definition sample_drained :: System where
  "sample_drained = drain_step 0 (drain_step 0 (finish 1 sample_started))"

definition sample_replayed :: System where
  \<comment> \<open>a second sink is set, and told the sequences\<close>
  "sample_replayed = replay_step (4, groupOf sample_spec, 1) (set_sink_step (LegacySink 4) sample_drained)"

lemma sample_runs:
  "registry_system_run New_system sample_started" "registry_system_run New_system sample_waiting"
  "registry_system_run New_system sample_drained" "registry_system_run New_system sample_replayed"
proof -
  show 1: "registry_system_run New_system sample_started"
    unfolding sample_started_def
    by (intro run_trans [OF _ registry_system_step.drain_start] run_trans [OF _ registry_system_step.bind]
        run_trans [OF _ registry_system_step.install] run_trans [OF _ registry_system_step.begin_dispatch]
        run_trans [OF _ registry_system_step.set_sink] registry_system_run.start)
  show "registry_system_run New_system sample_waiting"
    unfolding sample_waiting_def by (intro run_trans [OF _ registry_system_step.drain_step] 1)
  have "registry_system_run New_system (finish 1 sample_started)"
    by (rule run_append [OF finishing_registry_run [OF finish_run] 1])
  then show 2: "registry_system_run New_system sample_drained"
    unfolding sample_drained_def by (intro run_trans [OF _ registry_system_step.drain_step])
  show "registry_system_run New_system sample_replayed"
    unfolding sample_replayed_def
    by (intro run_trans [OF _ registry_system_step.replay] run_trans [OF _ registry_system_step.set_sink] 2)
qed

lemma sample_values:
  "mget (sy_drains sample_drained) 0 = Some (DrainReturned None)" "mget (sy_drains sample_waiting) 0 = Some (DrainWaits 1)"
  "sy_calls sample_drained = [(1, 3, groupOf sample_spec, 1)]" "sy_closed sample_drained = [(1, 7)]"
  "mgetd 0 (xr_releaseSequences sample_replayed) (groupOf sample_spec) = 1"
  "sy_bound sample_drained = [(1, 7)]" "sy_calls sample_replayed = [(1, 3, groupOf sample_spec, 1)]"
  "sy_replays sample_replayed = [(4, groupOf sample_spec, 1)]"
  by code_simp+

lemma registry_refines_slots_witness:
  "slot_step (slots_of New_system) (slots_of (snd (BeginDispatch New_system)))"
proof -
  have "sl_slot (slots_of New_system) 1 = SlotFree" "sl_slot (slots_of (snd (BeginDispatch New_system))) 1 = SlotReserved"
    by code_simp+
  then have "slots_of (snd (BeginDispatch New_system)) \<noteq> slots_of New_system" by force
  then show ?thesis
    using registry_refines_slots [OF registry_system_run.start registry_system_step.begin_dispatch] by blast
qed

lemma drain_returns_empty_witness:
  "xr_pending sample_drained = [] \<and> xr_scopes sample_drained = []
   \<and> BeginDispatch sample_drained = (Inl ErrRegistryNotAccepting, sample_drained)"
  using drain_returns_empty [OF sample_runs(3) sample_values(1)] by simp

lemma drain_can_finish_witness:
  "mget (sy_drains sample_waiting) 0 = Some (DrainWaits 1)
   \<and> (\<exists>s'. finishing_run 0 sample_waiting s' \<and> mget (sy_drains s') 0 = Some (DrainReturned None))"
  using drain_can_finish [OF sample_runs(2) sample_values(2)] sample_values(2) by simp

lemma releases_exact_witness:
  "released_count sample_replayed (groupOf sample_spec) = 1
   \<and> sy_calls sample_replayed = [(1, 3, groupOf sample_spec, 1)] \<and> sy_replays sample_replayed = [(4, groupOf sample_spec, 1)]
   \<and> (\<exists>i. (i, groupOf sample_spec, 1) \<in> set (sy_marks sample_replayed))"
proof -
  note f = releases_exact [OF sample_runs(4), of "groupOf sample_spec"]
  have "(4, groupOf sample_spec, 1) \<in> set (sy_replaying sample_replayed) \<union> set (sy_replays sample_replayed)"
    by (simp add: sample_values)
  then have "\<exists>i. (i, groupOf sample_spec, 1) \<in> set (sy_marks sample_replayed)" using f by blast
  then show ?thesis using f sample_values by simp
qed

lemma resources_closed_witness:
  "sy_bound sample_drained = [(1, 7)] \<and> set (sy_closed sample_drained) = {(1, 7)}
   \<and> fst (Bind 1 (Some 8) sample_waiting) \<noteq> None"
proof -
  have "set (sy_closed sample_drained) = set (sy_bound sample_drained)"
    using resources_closed [OF sample_runs(3)] sample_values(1) by blast
  moreover have "fst (Bind 1 (Some 8) sample_waiting) \<noteq> None"
    using resources_closed [OF sample_runs(2)] sample_values(2) by blast
  ultimately show ?thesis by (simp add: sample_values)
qed

end
