(* ===== verification/ManagerMerge.thy ===== *)
theory ManagerMerge
  imports AuthData
begin

text \<open>
  \<open>metadata_keys.go\<close> and \<open>metadata_merge.go\<close> of \<open>sdk/cliproxy/auth\<close>: the canonical names of metadata keys, and
  the three-way merge of a refreshed credential into the credential as it stands. \<open>base\<close> is what the refresh
  started from, \<open>current\<close> what the manager holds now, \<open>updated\<close> what the refresh returned. Of the maps of
  \<open>updated\<close> it matters whether they are nil; three flags say which are not.
\<close>

section \<open>Names of metadata keys\<close>

definition CanonicalCredentialMetadataKey :: "string \<Rightarrow> string" where
  "CanonicalCredentialMetadataKey key =
     (if key = ''api-key'' then ''api_key''
      else if key = ''base-url'' then ''base_url''
      else if key = ''disable-cooling'' then ''disable_cooling''
      else if key = ''excluded-models'' then ''excluded_models''
      else if key = ''fingerprint-profile'' then ''fingerprint_profile''
      else if key = ''model-aliases'' then ''model_aliases''
      else if key = ''proxy-url'' then ''proxy_url''
      else if key = ''request-retry'' then ''request_retry''
      else if key = ''request-scoped-errors'' then ''request_scoped_errors''
      else if key = ''tool-prefix-disabled'' then ''tool_prefix_disabled''
      else key)"

definition normalize_key :: "string \<times> goany \<Rightarrow> (string, goany) gomap \<Rightarrow> (string, goany) gomap" where
  "normalize_key entry metadata =
     (case entry of (key, v) \<Rightarrow>
      let canonical = CanonicalCredentialMetadataKey key in
      if canonical = key then metadata
      else mdel key (if mget metadata canonical = None then mput canonical v metadata else metadata))"

definition NormalizeCredentialMetadata :: "(string, goany) gomap \<Rightarrow> (string, goany) gomap" where
  \<comment> \<open>the names that the loop inserts are canonical, so it does not matter whether the loop visits them\<close>
  "NormalizeCredentialMetadata metadata = fold normalize_key metadata metadata"

definition IsAuthTokenPayloadKey :: "string \<Rightarrow> bool" where
  "IsAuthTokenPayloadKey key \<longleftrightarrow> ToLower (TrimSpace key) \<in>
     {''access_token'', ''refresh_token'', ''id_token'', ''session_id'', ''expired'', ''last_refresh'', ''expires_in'',
      ''timestamp'', ''token_type'', ''user_code'', ''verification_uri'', ''verification_uri_complete''}"

definition MergeExistingAuthMetadata :: "Auth \<Rightarrow> (string, goany) gomap \<Rightarrow> Auth" where
  \<comment> \<open>the storage of the target is left out\<close>
  "MergeExistingAuthMetadata target existingMap =
     (if existingMap = [] then target
      else target\<lparr>au_Metadata := fold (\<lambda>(k, v) m.
        if IsAuthTokenPayloadKey k then m else if mget m k = None then mput k v m else m) existingMap (au_Metadata target)\<rparr>)"

section \<open>\<open>reflect.DeepEqual\<close> on dynamic values\<close>

definition float_equal :: "gofloat \<Rightarrow> gofloat \<Rightarrow> bool" where
  \<comment> \<open>a NaN differs from itself\<close>
  "float_equal x y =
     (case (x, y) of
        (FInf a, FInf b) \<Rightarrow> a = b
      | (FFin m e, FFin n d) \<Rightarrow> m * 2 ^ nat (e - min e d) = n * 2 ^ nat (d - min e d)
      | _ \<Rightarrow> False)"

definition mapEqual :: "('v \<Rightarrow> 'v \<Rightarrow> bool) \<Rightarrow> (string, 'v) gomap \<Rightarrow> (string, 'v) gomap \<Rightarrow> bool" where
  "mapEqual eq m n \<longleftrightarrow> length m = length n \<and> list_all (\<lambda>(k, v). case mget n k of None \<Rightarrow> False | Some w \<Rightarrow> eq v w) m"

lemma mapEqual_cong [fundef_cong]:
  assumes "m = m'" and "n = n'" and "\<And>k v w. (k, v) \<in> set m' \<Longrightarrow> eq v w = eq' v w"
  shows "mapEqual eq m n = mapEqual eq' m' n'"
  using assms by (auto simp: mapEqual_def list_all_iff split: option.splits)

fun DeepEqual :: "goany \<Rightarrow> goany \<Rightarrow> bool" where
  "DeepEqual (AnyMap m) b = (case b of AnyMap n \<Rightarrow> mapEqual (\<lambda>v w. DeepEqual v w) m n | _ \<Rightarrow> False)"
| "DeepEqual (AnyList xs) b = (case b of AnyList ys \<Rightarrow> list_all2 (\<lambda>v w. DeepEqual v w) xs ys | _ \<Rightarrow> False)"
| "DeepEqual (AnyFloat64 x) b = (case b of AnyFloat64 y \<Rightarrow> float_equal x y | _ \<Rightarrow> False)"
| "DeepEqual (AnyFloat32 x) b = (case b of AnyFloat32 y \<Rightarrow> float_equal x y | _ \<Rightarrow> False)"
| "DeepEqual (AnyStringMap m) b = (case b of AnyStringMap n \<Rightarrow> mapEqual (=) m n | _ \<Rightarrow> False)"
| "DeepEqual a b = (a = b)"

definition stateEqual :: "ModelState option \<Rightarrow> ModelState option \<Rightarrow> bool" where
  \<comment> \<open>\<open>reflect.DeepEqual\<close> on two pointers to states\<close>
  "stateEqual x y =
     (case (x, y) of
        (None, None) \<Rightarrow> True
      | (Some s, Some t) \<Rightarrow> s = t\<lparr>ms_Quota := (ms_Quota t)\<lparr>q_Signals := q_Signals (ms_Quota s)\<rparr>\<rparr>
          \<and> mapEqual (=) (q_Signals (ms_Quota s)) (q_Signals (ms_Quota t))
      | _ \<Rightarrow> False)"

section \<open>The three-way merge\<close>

definition differs :: "('v \<Rightarrow> 'v \<Rightarrow> bool) \<Rightarrow> 'v option \<Rightarrow> 'v option \<Rightarrow> bool" where
  \<comment> \<open>present in one of them only, or with another value\<close>
  "differs eq b c = (case (b, c) of (None, None) \<Rightarrow> False | (Some v, Some w) \<Rightarrow> \<not> eq v w | _ \<Rightarrow> True)"

definition merge_put ::
  "(string \<Rightarrow> bool) \<Rightarrow> ('v \<Rightarrow> 'v \<Rightarrow> bool) \<Rightarrow> (string \<Rightarrow> bool) \<Rightarrow> (string, 'v) gomap \<Rightarrow> (string, 'v) gomap \<Rightarrow> string \<times> 'v
     \<Rightarrow> (string, 'v) gomap \<Rightarrow> (string, 'v) gomap" where
  "merge_put skip eq forced base current entry merged =
     (case entry of (k, v) \<Rightarrow>
      if skip k then merged
      else (let changedByExecutor = (case mget base k of None \<Rightarrow> True | Some b \<Rightarrow> \<not> eq b v);
                changedByUser = differs eq (mget base k) (mget current k)
            in if changedByExecutor then (if \<not> changedByUser \<or> forced k then mput k v merged else merged) else merged))"

definition merge_delete ::
  "(string \<Rightarrow> bool) \<Rightarrow> ('v \<Rightarrow> 'v \<Rightarrow> bool) \<Rightarrow> (string, 'v) gomap \<Rightarrow> (string, 'v) gomap \<Rightarrow> string \<times> 'v
     \<Rightarrow> (string, 'v) gomap \<Rightarrow> (string, 'v) gomap" where
  "merge_delete skip eq updated current entry merged =
     (case entry of (k, b) \<Rightarrow>
      if skip k then merged
      else if mget updated k \<noteq> None then merged
      else (case mget current k of None \<Rightarrow> merged | Some c \<Rightarrow> if eq b c then mdel k merged else merged))"

definition three_way ::
  "(string \<Rightarrow> bool) \<Rightarrow> ('v \<Rightarrow> 'v \<Rightarrow> bool) \<Rightarrow> (string \<Rightarrow> bool) \<Rightarrow> (string, 'v) gomap \<Rightarrow> (string, 'v) gomap \<Rightarrow> (string, 'v) gomap
     \<Rightarrow> (string, 'v) gomap" where
  \<comment> \<open>the two loops that \<open>mergeAuthContent\<close> has for the metadata and for the attributes\<close>
  "three_way skip eq forced base current updated =
     fold (merge_delete skip eq updated current) base (fold (merge_put skip eq forced base current) updated current)"

definition isProxyKey :: "string \<Rightarrow> bool" where
  "isProxyKey k \<longleftrightarrow> EqualFold (TrimSpace k) ''proxy_url''"

definition metaProxy :: "(string, goany) gomap \<Rightarrow> string" where
  "metaProxy metadata = (case mget metadata ''proxy_url'' of Some (AnyString s) \<Rightarrow> TrimSpace s | _ \<Rightarrow> [])"

definition mergeProxy :: "string \<Rightarrow> string \<Rightarrow> string \<Rightarrow> string \<Rightarrow> string \<Rightarrow> string \<Rightarrow> string" where
  \<comment> \<open>the struct fields and the metadata of \<open>base\<close>, \<open>current\<close> and \<open>updated\<close>\<close>
  "mergeProxy baseStruct baseMetaProxy currentStruct currentMetaProxy updatedStruct updatedMetaProxy =
     (let userChangedStruct = currentStruct \<noteq> baseStruct;
          userChangedMeta = currentMetaProxy \<noteq> baseMetaProxy;
          execChangedStruct = updatedStruct \<noteq> baseStruct;
          execChangedMeta = updatedMetaProxy \<noteq> baseMetaProxy;
          finalProxy = (if currentMetaProxy \<noteq> [] \<and> currentStruct = [] \<and> \<not> userChangedStruct then currentMetaProxy else currentStruct)
      in if userChangedStruct \<or> userChangedMeta then
           (if userChangedStruct \<and> \<not> userChangedMeta then currentStruct
            else if userChangedMeta \<and> \<not> userChangedStruct then currentMetaProxy
            else if currentStruct \<noteq> [] then currentStruct else currentMetaProxy)
         else if execChangedStruct \<or> execChangedMeta then
           (if execChangedStruct \<and> \<not> execChangedMeta then updatedStruct
            else if execChangedMeta \<and> \<not> execChangedStruct then updatedMetaProxy
            else if updatedStruct \<noteq> [] then updatedStruct else updatedMetaProxy)
         else finalProxy)"

record presentMaps =
  pm_Metadata :: bool
  pm_Attributes :: bool
  pm_ModelStates :: bool

type_synonym Update = "Auth \<times> presentMaps"

definition baseOr :: "'v \<Rightarrow> (Auth \<Rightarrow> 'v) \<Rightarrow> Auth option \<Rightarrow> 'v" where
  "baseOr d f base = (case base of None \<Rightarrow> d | Some b \<Rightarrow> f b)"

definition staleBase :: "Auth option \<Rightarrow> Auth \<Rightarrow> bool" where
  "staleBase base current = (case base of None \<Rightarrow> False | Some b \<Rightarrow> au_RegistrationEpoch current \<noteq> au_RegistrationEpoch b)"

definition mergeContent :: "Auth option \<Rightarrow> Auth \<Rightarrow> Update \<Rightarrow> Auth" where
  \<comment> \<open>\<open>mergeAuthContent\<close> from the copy of \<open>current\<close> on\<close>
  "mergeContent base current upd =
     (case upd of (updated, present) \<Rightarrow>
      let metadata = (if pm_Metadata present
            then three_way isProxyKey DeepEqual IsAuthTokenPayloadKey (baseOr [] au_Metadata base) (au_Metadata current) (au_Metadata updated)
            else au_Metadata current);
          finalProxy = mergeProxy
            (TrimSpace (baseOr [] au_ProxyURL base)) (metaProxy (baseOr [] au_Metadata base))
            (TrimSpace (au_ProxyURL current)) (metaProxy (au_Metadata current))
            (TrimSpace (au_ProxyURL updated)) (if pm_Metadata present then metaProxy (au_Metadata updated) else []);
          basePrefix = TrimSpace (baseOr [] au_Prefix base);
          currentPrefix = TrimSpace (au_Prefix current);
          updatedPrefix = TrimSpace (au_Prefix updated);
          attributes = (if pm_Attributes present
            then three_way (\<lambda>_. False) (=) (\<lambda>_. False) (baseOr [] au_Attributes base) (au_Attributes current) (au_Attributes updated)
            else au_Attributes current)
      in current\<lparr>au_ProxyURL := finalProxy,
           au_Metadata := (if finalProxy \<noteq> [] then mput ''proxy_url'' (AnyString finalProxy) metadata else mdel ''proxy_url'' metadata),
           au_Prefix := (if updatedPrefix \<noteq> basePrefix \<and> currentPrefix = basePrefix then updatedPrefix else currentPrefix),
           au_Attributes := attributes\<rparr>)"

definition mergeAuthContent :: "Auth option \<Rightarrow> Auth option \<Rightarrow> Update option \<Rightarrow> Auth option" where
  "mergeAuthContent base current updated =
     (case current of
        None \<Rightarrow> (case updated of Some (u, _) \<Rightarrow> Some u | None \<Rightarrow> base)
      | Some c \<Rightarrow>
          (case updated of
             None \<Rightarrow> Some c
           | Some u \<Rightarrow> if staleBase base c then Some c else Some (mergeContent base c u)))"

definition MergePreparedAuth :: "Auth option \<Rightarrow> Auth option \<Rightarrow> Update option \<Rightarrow> Auth option" where
  "MergePreparedAuth base current updated = mergeAuthContent base current updated"

section \<open>Merging a refresh\<close>

definition isDisabledAuth :: "Auth \<Rightarrow> bool" where
  "isDisabledAuth a \<longleftrightarrow> au_Disabled a \<or> au_Status a = StatusDisabled"

definition errorMessage :: "Auth \<Rightarrow> string" where
  "errorMessage a = (case au_LastError a of None \<Rightarrow> [] | Some e \<Rightarrow> er_Message e)"

definition mergeTimes :: "Auth option \<Rightarrow> Auth \<Rightarrow> Auth \<Rightarrow> Auth" where
  "mergeTimes base updated merged =
     merged\<lparr>au_LastRefreshedAt := (if \<not> IsZero (au_LastRefreshedAt updated) then au_LastRefreshedAt updated else au_LastRefreshedAt merged),
       au_NextRefreshAfter := (if \<not> IsZero (au_NextRefreshAfter updated) \<or> baseOr False (\<lambda>b. \<not> IsZero (au_NextRefreshAfter b)) base
         then au_NextRefreshAfter updated else au_NextRefreshAfter merged)\<rparr>"

definition mergeStatus :: "time \<times> time \<Rightarrow> Auth option \<Rightarrow> Auth \<Rightarrow> Auth \<Rightarrow> Auth \<Rightarrow> Auth" where
  \<comment> \<open>the errors and the disabled flag; the clock is read up to twice\<close>
  "mergeStatus clock base current updated merged =
     (let baseErrMsg = baseOr [] errorMessage base;
          currentErrMsg = errorMessage current;
          hasNewConcurrentError = (currentErrMsg \<noteq> [] \<and> currentErrMsg \<noteq> baseErrMsg);
          baseDisabled = baseOr False isDisabledAuth base;
          currentDisabled = isDisabledAuth current;
          updatedDisabled = isDisabledAuth updated;
          finalDisabled = (if updatedDisabled \<noteq> baseDisabled \<and> currentDisabled = baseDisabled then updatedDisabled else currentDisabled)
      in if finalDisabled then
           merged\<lparr>au_Disabled := True, au_Status := StatusDisabled, au_Metadata := mput ''disabled'' (AnyBool True) (au_Metadata merged)\<rparr>
         else
           (let m1 = merged\<lparr>au_Disabled := False,
                  au_Status := (if au_Status merged = StatusDisabled then StatusActive else au_Status merged),
                  au_Metadata := mput ''disabled'' (AnyBool False) (au_Metadata merged)\<rparr>
            in if hasNewConcurrentError then
                 m1\<lparr>au_LastError := au_LastError current, au_Status := au_Status current, au_Unavailable := au_Unavailable current,
                    au_StatusMessage := au_StatusMessage current\<rparr>
               else if (q_Exceeded (au_Quota current) \<and> q_Reason (au_Quota current) = ''credential_quota''
                        \<and> After (q_NextRecoverAt (au_Quota current)) (fst clock))
                     \<or> (au_Unavailable current \<and> After (au_NextRetryAfter current) (snd clock)) then
                 m1\<lparr>au_Unavailable := au_Unavailable current, au_Status := au_Status current, au_StatusMessage := au_StatusMessage current\<rparr>
               else if au_Status updated = StatusActive \<or> au_Status updated = StatusOther [] then
                 m1\<lparr>au_Status := StatusActive, au_Unavailable := False, au_StatusMessage := [], au_LastError := None\<rparr>
               else m1))"

definition state_put ::
  "(string, ModelState option) gomap \<Rightarrow> (string, ModelState option) gomap \<Rightarrow> string \<times> ModelState option
     \<Rightarrow> (string, ModelState option) gomap \<Rightarrow> (string, ModelState option) gomap" where
  "state_put base current entry merged =
     (case entry of (model, updState) \<Rightarrow>
      let baseState = mgetd None base model;
          currentState = mgetd None current model;
          changedByExecutor = (\<not> stateEqual baseState updState);
          changedByUser = (\<not> stateEqual baseState currentState)
      in if changedByExecutor \<and> \<not> changedByUser then mput model updState merged else merged)"

definition state_delete ::
  "(string, ModelState option) gomap \<Rightarrow> (string, ModelState option) gomap \<Rightarrow> string \<times> ModelState option
     \<Rightarrow> (string, ModelState option) gomap \<Rightarrow> (string, ModelState option) gomap" where
  "state_delete updated current entry merged =
     (case entry of (model, baseState) \<Rightarrow>
      if mget updated model \<noteq> None then merged
      else (case mget current model of
              None \<Rightarrow> merged
            | Some currentState \<Rightarrow> if stateEqual baseState currentState then mdel model merged else merged))"

definition mergeStates :: "Auth option \<Rightarrow> Auth \<Rightarrow> Update \<Rightarrow> Auth \<Rightarrow> Auth" where
  "mergeStates base current upd merged =
     (case upd of (updated, present) \<Rightarrow>
      if \<not> pm_ModelStates present then merged
      else merged\<lparr>au_ModelStates :=
        fold (state_delete (au_ModelStates updated) (au_ModelStates current)) (baseOr [] au_ModelStates base)
          (fold (state_put (baseOr [] au_ModelStates base) (au_ModelStates current)) (au_ModelStates updated) (au_ModelStates merged))\<rparr>)"

definition MergeRefreshedAuth :: "time \<times> time \<Rightarrow> Auth option \<Rightarrow> Auth option \<Rightarrow> Update option \<Rightarrow> Auth option" where
  "MergeRefreshedAuth clock base current updated =
     (let merged0 = mergeAuthContent base current updated in
      case (merged0, current, updated) of
        (Some merged, Some c, Some u) \<Rightarrow>
          if staleBase base c then Some merged
          else Some (mergeStates base c u (mergeStatus clock base c (fst u) (mergeTimes base (fst u) merged)))
      | _ \<Rightarrow> merged0)"

section \<open>What the loops compute\<close>

lemma fold_other: "(\<And>x y. x \<in> set xs \<Longrightarrow> mget (f x y) k = mget y k) \<Longrightarrow> mget (fold f xs m) k = mget m k"
  by (induction xs arbitrary: m) simp_all

lemma fold_one:
  assumes "mwf xs" and "mget xs k = Some v" and "\<And>l w y. l \<noteq> k \<Longrightarrow> mget (f (l, w) y) k = mget y k"
    and "\<And>y z. mget y k = mget z k \<Longrightarrow> mget (f (k, v) y) k = mget (f (k, v) z) k"
  shows "mget (fold f xs m) k = mget (f (k, v) m) k"
  using assms(1,2)
proof (induction xs arbitrary: m)
  case Nil
  then show ?case by simp
next
  case (Cons e xs)
  obtain l w where e: "e = (l, w)" by fastforce
  show ?case
  proof (cases "l = k")
    case True
    then have w: "w = v" and "mget xs k = None" "mwf xs" using Cons.prems by (simp_all add: e)
    then have "\<And>x y. x \<in> set xs \<Longrightarrow> mget (f x y) k = mget y k"
      using assms(3) by (metis mget_iff_in option.distinct(1) prod.collapse)
    from fold_other [of xs f k, OF this] show ?thesis by (simp add: e True w)
  next
    case False
    then show ?thesis using Cons.IH [of "f (l, w) m"] Cons.prems assms(3) [OF False, of w m] assms(4) [of "f (l, w) m" m]
      by (simp add: e)
  qed
qed



section \<open>Canonical names\<close>

lemma canonical_idem: "CanonicalCredentialMetadataKey (CanonicalCredentialMetadataKey k) = CanonicalCredentialMetadataKey k"
  by (simp add: CanonicalCredentialMetadataKey_def)

lemma canonical_inj:
  assumes "CanonicalCredentialMetadataKey k = CanonicalCredentialMetadataKey l"
    and "CanonicalCredentialMetadataKey k \<noteq> k" and "CanonicalCredentialMetadataKey l \<noteq> l"
  shows "k = l"
  using assms by (auto simp: CanonicalCredentialMetadataKey_def split: if_splits)

lemma normalize_legacy:
  assumes "mwf m" and "CanonicalCredentialMetadataKey k \<noteq> k"
  shows "mget (NormalizeCredentialMetadata m) k = None"
proof -
  have other: "mget (normalize_key (l, w) y) k = mget y k" if "l \<noteq> k" for l w y
    using that assms(2) canonical_idem [of l] by (auto simp: normalize_key_def Let_def go_map)
  show ?thesis
  proof (cases "mget m k")
    case None
    then have "\<And>x y. x \<in> set m \<Longrightarrow> mget (normalize_key x y) k = mget y k"
      using other assms(1) by (metis mget_iff_in option.distinct(1) prod.collapse)
    from fold_other [of m _ k, OF this] show ?thesis by (simp add: NormalizeCredentialMetadata_def None)
  next
    case (Some v)
    have "mget (NormalizeCredentialMetadata m) k = mget (normalize_key (k, v) m) k" unfolding NormalizeCredentialMetadata_def
      by (rule fold_one [where f = normalize_key, OF assms(1) Some other]) (use assms(2) in \<open>simp_all add: normalize_key_def Let_def go_map\<close>)
    then show ?thesis using assms(2) by (simp add: normalize_key_def Let_def go_map)
  qed
qed

lemma normalize_canonical:
  assumes "mwf m" and "CanonicalCredentialMetadataKey k = k"
  shows "mget m k = Some v \<Longrightarrow> mget (NormalizeCredentialMetadata m) k = Some v"
    and "mget m k = None \<Longrightarrow> CanonicalCredentialMetadataKey l = k \<Longrightarrow> l \<noteq> k \<Longrightarrow> mget (NormalizeCredentialMetadata m) k = mget m l"
    and "mget m k = None \<Longrightarrow> (\<And>l. CanonicalCredentialMetadataKey l = k \<Longrightarrow> l = k) \<Longrightarrow> mget (NormalizeCredentialMetadata m) k = None"
proof -
  have other: "mget (normalize_key (l, w) y) k = mget y k" if "CanonicalCredentialMetadataKey l \<noteq> k \<or> l = k" for l w y
    using that assms(2) by (auto simp: normalize_key_def Let_def go_map)
  have keep: "mget (normalize_key (l, w) y) k = Some v" if "mget y k = Some v" for l w y v
    using that assms(2) by (auto simp: normalize_key_def Let_def go_map)
  show "mget (NormalizeCredentialMetadata m) k = Some v" if "mget m k = Some v"
  proof -
    have "mget y k = Some v \<Longrightarrow> mget (fold normalize_key xs y) k = Some v" for xs y
      by (induction xs arbitrary: y) (use keep in \<open>auto simp: split_paired_all\<close>)
    then show ?thesis using that by (simp add: NormalizeCredentialMetadata_def)
  qed
  show "mget (NormalizeCredentialMetadata m) k = None"
    if "mget m k = None" "\<And>l. CanonicalCredentialMetadataKey l = k \<Longrightarrow> l = k"
  proof -
    have "\<And>x y. x \<in> set m \<Longrightarrow> mget (normalize_key x y) k = mget y k" using other that(2) by (metis prod.collapse)
    from fold_other [of m _ k, OF this] that(1) show ?thesis by (simp add: NormalizeCredentialMetadata_def)
  qed
  show "mget (NormalizeCredentialMetadata m) k = mget m l"
    if none: "mget m k = None" and l: "CanonicalCredentialMetadataKey l = k" "l \<noteq> k"
  proof -
    have other: "mget (normalize_key (i, w) y) k = mget y k" if "i \<noteq> l" for i w y
      using that other [of i w y] canonical_inj [of i l] l by metis
    have shift: "mget (fold normalize_key xs y) k = (case mget xs l of None \<Rightarrow> mget y k | Some v \<Rightarrow> if mget y k = None then Some v else mget y k)"
      if "mwf xs" for xs y
      using that
    proof (induction xs arbitrary: y)
      case (Cons e xs)
      obtain i w where e: "e = (i, w)" by fastforce
      have xs: "mwf xs" "mget xs i = None" using Cons.prems by (simp_all add: e)
      show ?case
      proof (cases "i = l")
        case True
        then show ?thesis using Cons.IH [OF xs(1)] xs(2) l by (auto simp: e normalize_key_def Let_def go_map)
      next
        case False
        then show ?thesis using Cons.IH [OF xs(1), of "normalize_key (i, w) y"] other [OF False, of w y] by (cases "mget y k"; cases "mget xs l") (simp_all add: e)
      qed
    qed simp
    show ?thesis using shift [OF assms(1), of m] none by (auto simp: NormalizeCredentialMetadata_def split: option.split)
  qed
qed

section \<open>Model states\<close>

text \<open>A state that changed while the refresh ran stays as it is.\<close>

lemma mergeStates_user:
  assumes "mwf (baseOr [] au_ModelStates base)"
    and "\<not> stateEqual (mgetd None (baseOr [] au_ModelStates base) k) (mgetd None (au_ModelStates current) k)"
    and "au_ModelStates merged = au_ModelStates current"
  shows "mget (au_ModelStates (mergeStates base current upd merged)) k = mget (au_ModelStates current) k"
proof -
  obtain updated present where u: "upd = (updated, present)" by fastforce
  let ?b = "baseOr [] au_ModelStates base" and ?c = "au_ModelStates current"
  have put: "mget (state_put ?b ?c x y) k = mget y k" for x y
    using assms(2) by (auto simp: state_put_def Let_def go_map split: prod.split)
  have del: "mget (state_delete (au_ModelStates updated) ?c x y) k = mget y k" if "x \<in> set ?b" for x y
  proof (cases "fst x = k")
    case True
    then have "mget ?b k = Some (snd x)" using that assms(1) by (cases x) (simp add: mget_iff_in)
    then show ?thesis using assms(2) True
      by (cases x) (auto simp: state_delete_def mgetd_def split: option.splits)
  qed (auto simp: state_delete_def go_map split: prod.split option.split)
  show ?thesis
    using fold_other [of "au_ModelStates updated" _ k, OF put] fold_other [of ?b _ k, OF del]
    by (simp add: mergeStates_def u assms(3))
qed

lemma merge_fields [simp]:
  "au_ModelStates (mergeContent base current upd) = au_ModelStates current"
  "au_Quota (mergeContent base current upd) = au_Quota current"
  "au_NextRetryAfter (mergeContent base current upd) = au_NextRetryAfter current"
  "au_Unavailable (mergeContent base current upd) = au_Unavailable current"
  "au_ID (mergeContent base current upd) = au_ID current"
  "au_RegistrationEpoch (mergeContent base current upd) = au_RegistrationEpoch current"
  "au_Generation (mergeContent base current upd) = au_Generation current"
  "au_ModelStates (mergeTimes base updated a) = au_ModelStates a" "au_Quota (mergeTimes base updated a) = au_Quota a"
  "au_NextRetryAfter (mergeTimes base updated a) = au_NextRetryAfter a" "au_Metadata (mergeTimes base updated a) = au_Metadata a"
  "au_Attributes (mergeTimes base updated a) = au_Attributes a" "au_ProxyURL (mergeTimes base updated a) = au_ProxyURL a"
  "au_Prefix (mergeTimes base updated a) = au_Prefix a" "au_ID (mergeTimes base updated a) = au_ID a"
  "au_RegistrationEpoch (mergeTimes base updated a) = au_RegistrationEpoch a" "au_Generation (mergeTimes base updated a) = au_Generation a"
  "au_ModelStates (mergeStatus clock base current updated a) = au_ModelStates a" "au_Quota (mergeStatus clock base current updated a) = au_Quota a"
  "au_NextRetryAfter (mergeStatus clock base current updated a) = au_NextRetryAfter a"
  "au_Attributes (mergeStatus clock base current updated a) = au_Attributes a" "au_ProxyURL (mergeStatus clock base current updated a) = au_ProxyURL a"
  "au_Prefix (mergeStatus clock base current updated a) = au_Prefix a" "au_ID (mergeStatus clock base current updated a) = au_ID a"
  "au_RegistrationEpoch (mergeStatus clock base current updated a) = au_RegistrationEpoch a"
  "au_Generation (mergeStatus clock base current updated a) = au_Generation a"
  by (simp_all add: mergeContent_def mergeTimes_def mergeStatus_def Let_def split: prod.split)

lemma mergeStates_fields [simp]:
  "au_Metadata (mergeStates base current upd a) = au_Metadata a" "au_Attributes (mergeStates base current upd a) = au_Attributes a"
  "au_ProxyURL (mergeStates base current upd a) = au_ProxyURL a" "au_Prefix (mergeStates base current upd a) = au_Prefix a"
  "au_Quota (mergeStates base current upd a) = au_Quota a" "au_NextRetryAfter (mergeStates base current upd a) = au_NextRetryAfter a"
  "au_Unavailable (mergeStates base current upd a) = au_Unavailable a" "au_Disabled (mergeStates base current upd a) = au_Disabled a"
  "au_Status (mergeStates base current upd a) = au_Status a" "au_ID (mergeStates base current upd a) = au_ID a"
  "au_RegistrationEpoch (mergeStates base current upd a) = au_RegistrationEpoch a" "au_Generation (mergeStates base current upd a) = au_Generation a"
  by (simp_all add: mergeStates_def split: prod.split)


section \<open>Properties\<close>

definition sample_base :: Auth where
  \<comment> \<open>a credential as a refresh finds it; while it runs the note is edited and the credential disabled\<close>
  "sample_base = zeroAuth\<lparr>au_ID := ''a'', au_Status := StatusActive,
     au_Metadata := [(''access_token'', AnyString ''1''), (''note'', AnyString ''x'')]\<rparr>"

definition sample_current :: Auth where
  "sample_current = sample_base\<lparr>au_Disabled := True, au_Metadata := [(''access_token'', AnyString ''1''), (''note'', AnyString ''y'')]\<rparr>"

definition sample_updated :: Auth where
  "sample_updated = sample_base\<lparr>au_Metadata := [(''access_token'', AnyString ''2''), (''note'', AnyString ''z'')]\<rparr>"

abbreviation allPresent :: presentMaps where
  "allPresent \<equiv> \<lparr>pm_Metadata = True, pm_Attributes = True, pm_ModelStates = True\<rparr>"

text \<open>Every legacy name is renamed, a canonical value that is already there wins, and doing it twice changes nothing.\<close>

lemma normalize_metadata:
  assumes "mwf m"
  shows "CanonicalCredentialMetadataKey k \<noteq> k \<Longrightarrow> mget (NormalizeCredentialMetadata m) k = None"
    and "CanonicalCredentialMetadataKey k = k \<Longrightarrow> mget m k = Some v \<Longrightarrow> mget (NormalizeCredentialMetadata m) k = Some v"
    and "mget m k = Some v \<Longrightarrow> mget m (CanonicalCredentialMetadataKey k) = None \<Longrightarrow>
       mget (NormalizeCredentialMetadata m) (CanonicalCredentialMetadataKey k) = Some v"
  using normalize_legacy [OF assms] normalize_canonical(1) [OF assms]
    normalize_canonical(2) [OF assms canonical_idem, of k k] by (auto, metis option.distinct(1))



text \<open>C27: a refresh that ends late undoes no safety decision. A credential disabled while it ran stays disabled, its
  quota and its deadlines are those the manager holds, a cooldown that is still running keeps it unavailable, and
  a model whose state changed meanwhile keeps that state.\<close>

theorem refresh_keeps_decisions:
  assumes "MergeRefreshedAuth clock base (Some current) (Some (updated, present)) = Some merged"
    and "mwf (baseOr [] au_ModelStates base)"
  shows "(if isDisabledAuth current \<and> \<not> baseOr False isDisabledAuth base then isDisabledAuth merged else True)
    \<and> au_Quota merged = au_Quota current \<and> au_NextRetryAfter merged = au_NextRetryAfter current
    \<and> (if au_Unavailable current \<and> After (au_NextRetryAfter current) (snd clock) then au_Unavailable merged else True)
    \<and> (\<forall>k. if stateEqual (mgetd None (baseOr [] au_ModelStates base) k) (mgetd None (au_ModelStates current) k) then True
        else mget (au_ModelStates merged) k = mget (au_ModelStates current) k)"
proof (cases "staleBase base current")
  case True
  then show ?thesis using assms(1) by (auto simp: MergeRefreshedAuth_def mergeAuthContent_def)
next
  case False
  let ?m = "mergeTimes base updated (mergeContent base current (updated, present))"
  let ?s = "mergeStatus clock base current updated ?m"
  have merged: "merged = mergeStates base current (updated, present) ?s"
    using assms(1) False by (simp add: MergeRefreshedAuth_def mergeAuthContent_def)
  have "isDisabledAuth merged = isDisabledAuth ?s" by (simp add: merged isDisabledAuth_def)
  moreover have "if isDisabledAuth current \<and> \<not> baseOr False isDisabledAuth base then isDisabledAuth ?s else True"
    by (simp add: mergeStatus_def isDisabledAuth_def Let_def)
  ultimately have 1: "if isDisabledAuth current \<and> \<not> baseOr False isDisabledAuth base then isDisabledAuth merged else True" by simp
  have 2: "au_Quota merged = au_Quota current" "au_NextRetryAfter merged = au_NextRetryAfter current" by (simp_all add: merged)
  have 3: "if au_Unavailable current \<and> After (au_NextRetryAfter current) (snd clock) then au_Unavailable merged else True"
    by (auto simp: merged mergeStatus_def mergeTimes_def Let_def)
  have 4: "if stateEqual (mgetd None (baseOr [] au_ModelStates base) k) (mgetd None (au_ModelStates current) k) then True
      else mget (au_ModelStates merged) k = mget (au_ModelStates current) k" for k
    using mergeStates_user [OF assms(2), of k current ?s "(updated, present)"] by (simp add: merged)
  show ?thesis using 1 2 3 4 by (intro conjI allI)
qed

theorem refresh_keeps_decisions_witness:
  "\<exists>merged. MergeRefreshedAuth (5, 5) (Some sample_base) (Some sample_current) (Some (sample_updated, allPresent)) = Some merged
     \<and> isDisabledAuth merged"
proof -
  have "MergeRefreshedAuth (5, 5) (Some sample_base) (Some sample_current) (Some (sample_updated, allPresent)) \<noteq> None" by code_simp
  then obtain merged where m: "MergeRefreshedAuth (5, 5) (Some sample_base) (Some sample_current) (Some (sample_updated, allPresent)) = Some merged"
    by blast
  have "mwf (baseOr [] au_ModelStates (Some sample_base))" "isDisabledAuth sample_current" "\<not> baseOr False isDisabledAuth (Some sample_base)"
    by code_simp+
  then show ?thesis using m refresh_keeps_decisions [OF m] by simp
qed

end
