(* ===== verification/ManagerLifecycle.thy ===== *)
theory ManagerLifecycle
  imports ManagerMerge MarkResult
begin

text \<open>
  \<open>conductor_lifecycle.go\<close> of \<open>sdk/cliproxy/auth\<close>: registering, updating, removing and loading the credentials of
  the manager, their registration epochs and generations, what is handed to the scheduler after the lock is
  released, and the guard that keeps an older snapshot from being persisted over a newer one. Also the index of a
  credential (\<open>types.go\<close>). Hooks, the store itself, the model alias tables and session affinity are left out.
\<close>

section \<open>The index of a credential\<close>

text \<open>File paths and the hash are the standard library's; the working directory decides what \<open>filepath.Abs\<close> returns.\<close>

record IndexEnv =
  ie_Abs :: "string \<Rightarrow> string option"
  ie_Clean :: "string \<Rightarrow> string"
  ie_Hash8 :: "string \<Rightarrow> string"

definition stableAuthIndex :: "IndexEnv \<Rightarrow> string \<Rightarrow> string" where
  "stableAuthIndex ie seed0 = (let seed = TrimSpace seed0 in if seed = [] then [] else ie_Hash8 ie seed)"

definition firstNonEmpty :: "string list \<Rightarrow> string" where
  "firstNonEmpty xs = (case filter (\<lambda>x. x \<noteq> []) xs of [] \<Rightarrow> [] | x # _ \<Rightarrow> x)"

definition apiPrefixOf :: "string \<Rightarrow> string \<Rightarrow> string" where
  "apiPrefixOf compatName provider =
     (if compatName \<noteq> [] \<or> EqualFold provider ''openai-compatibility'' then ''openai-compatibility''
      else if EqualFold provider ''gemini'' then ''gemini-api-key''
      else if EqualFold provider ''gemini-interactions'' then ''interactions-api-key''
      else if EqualFold provider ''codex'' then ''codex-api-key''
      else if EqualFold provider ''xai'' then ''xai-api-key''
      else if EqualFold provider ''claude'' then ''claude-api-key''
      else [])"

definition indexSeed :: "IndexEnv \<Rightarrow> Auth \<Rightarrow> string" where
  "indexSeed ie a =
     (let seed = authAttribute a ''auth_index_seed'';
          provider = ToLower (TrimSpace (au_Provider a));
          filePath = firstNonEmpty [authAttribute a ''path'', authAttribute a ''source'', TrimSpace (au_FileName a), TrimSpace (au_ID a)];
          isJSON = (filePath \<noteq> [] \<and> HasSuffix (ToLower filePath) ''.json'');
          absolute = (case ie_Abs ie filePath of Some p \<Rightarrow> if TrimSpace p \<noteq> [] then p else filePath | None \<Rightarrow> filePath);
          rawType = (case mget (au_Metadata a) ''type'' of Some (AnyString t) \<Rightarrow> TrimSpace t | _ \<Rightarrow> []);
          authType = ToLower (TrimSpace (if rawType = [] then TrimSpace provider else rawType));
          apiKey = authAttribute a ''api_key'';
          apiPrefix = (if apiKey \<noteq> [] then apiPrefixOf (authAttribute a ''compat_name'') provider else [])
      in if seed \<noteq> [] then ''auth_index_seed:'' @ seed
         else if isJSON \<and> authType \<noteq> [] then authType @ '':'' @ ie_Clean ie absolute
         else if apiPrefix \<noteq> [] then apiPrefix @ '':'' @ authAttribute a ''base_url'' @ ''+'' @ apiKey
         else if TrimSpace (au_ID a) \<noteq> [] then ''id:'' @ TrimSpace (au_ID a)
         else [])"

definition EnsureIndex :: "IndexEnv \<Rightarrow> Auth \<Rightarrow> Auth" where
  "EnsureIndex ie a =
     (let existingIndex = TrimSpace (au_Index a) in
      if existingIndex \<noteq> [] then a\<lparr>au_Index := existingIndex, au_indexAssigned := True\<rparr>
      else (let seed = indexSeed ie a in
        if seed = [] then a else a\<lparr>au_Index := stableAuthIndex ie seed, au_indexAssigned := True\<rparr>))"

section \<open>The manager's credentials\<close>

record Manager =
  mg_auths :: Auths
  mg_authEpochs :: "(string, int) gomap"

datatype schedMessage = MsgUpsert Auth | MsgTombstone string int

record Lifecycle =
  lc_manager :: Manager
  lc_return :: "string + Auth option"
  lc_messages :: "schedMessage list"
  lc_cooldownsChanged :: bool

definition unchanged :: "Manager \<Rightarrow> string + Auth option \<Rightarrow> Lifecycle" where
  "unchanged m r = \<lparr>lc_manager = m, lc_return = r, lc_messages = [], lc_cooldownsChanged = False\<rparr>"

definition epochOf :: "Manager \<Rightarrow> string \<Rightarrow> int" where
  "epochOf m i = mgetd 0 (mg_authEpochs m) i"

definition settleCooldowns :: "ManagerEnv \<Rightarrow> time \<Rightarrow> Auth \<Rightarrow> Auth \<times> bool" where
  \<comment> \<open>the end of \<open>Register\<close> and \<open>updateInternal\<close>: states under canonical names, no cooldown where cooling is off\<close>
  "settleCooldowns me now a =
     (case normalizeModelStates a of (a1, c1) \<Rightarrow>
      if cooldownDisabledForAuth me a1 \<or> au_Disabled a1 \<or> au_Status a1 = StatusDisabled
      then (case clearCooldownStateForAuth now a1 of (a2, c2) \<Rightarrow> (a2, c2 \<or> c1))
      else (a1, c1))"

definition Register :: "ManagerEnv \<Rightarrow> IndexEnv \<Rightarrow> string \<Rightarrow> time \<Rightarrow> Auth option \<Rightarrow> Manager \<Rightarrow> Lifecycle" where
  \<comment> \<open>\<open>newID\<close> is the fresh identifier for a credential that has none\<close>
  "Register me ie newID now auth m =
     (case auth of
        None \<Rightarrow> unchanged m (Inr None)
      | Some auth0 \<Rightarrow>
          (let a0 = auth0\<lparr>au_Metadata := NormalizeCredentialMetadata (au_Metadata auth0)\<rparr> in
           case ValidateAuthWeight (Some a0) of
             Inl e \<Rightarrow> unchanged m (Inl (''register auth: '' @ e))
           | Inr _ \<Rightarrow>
               (let a1 = a0\<lparr>au_ID := (if au_ID a0 = [] then newID else au_ID a0),
                      au_Generation := (if au_Generation a0 = 0 then 1 else au_Generation a0),
                      au_CreatedAt := (if IsZero (au_CreatedAt a0) then now else au_CreatedAt a0), au_UpdatedAt := now\<rparr>
                in case settleCooldowns me now a1 of (a2, changed) \<Rightarrow>
                (let a3 = EnsureIndex ie a2;
                     i = au_ID a3;
                     e1 = (case mget (mg_auths m) i of
                         Some existing \<Rightarrow> if au_RegistrationEpoch existing > epochOf m i then au_RegistrationEpoch existing else epochOf m i
                       | None \<Rightarrow> epochOf m i);
                     e2 = (if au_RegistrationEpoch a3 > e1 then au_RegistrationEpoch a3 else e1);
                     a4 = a3\<lparr>au_RegistrationEpoch := e2 + 1, au_Generation := 1\<rparr>
                 in \<lparr>lc_manager = \<lparr>mg_auths = mput i a4 (mg_auths m), mg_authEpochs = mput i (e2 + 1) (mg_authEpochs m)\<rparr>,
                     lc_return = Inr (Some a4), lc_messages = [MsgUpsert a4], lc_cooldownsChanged = changed\<rparr>))))"

datatype updateAuthMode = updateModeReplace | updateModeRefresh | updateModePrepare

definition staleEpochError :: "string \<Rightarrow> string \<Rightarrow> int \<Rightarrow> int \<Rightarrow> string" where
  "staleEpochError i cmp e E =
     ''update auth '' @ i @ '': stale registration epoch '' @ FormatInt e @ cmp @ FormatInt E"

definition keepRuntime :: "time \<Rightarrow> Auth \<Rightarrow> Auth \<Rightarrow> Auth" where
  \<comment> \<open>what an update takes over from the existing credential\<close>
  "keepRuntime t existing a =
     (let a1 = (if \<not> au_indexAssigned a \<and> au_Index a = []
                then a\<lparr>au_Index := au_Index existing, au_indexAssigned := au_indexAssigned existing\<rparr> else a);
          a2 = a1\<lparr>au_Success := au_Success existing, au_Failed := au_Failed existing, au_recentRequests := au_recentRequests existing,
                 au_Generation := (if au_Generation a1 \<le> au_Generation existing then au_Generation existing else au_Generation a1) + 1\<rparr>
      in if \<not> isDisabledAuth existing \<and> \<not> isDisabledAuth a2 then
           (let a3 = (if au_ModelStates a2 = [] \<and> au_ModelStates existing \<noteq> []
                      then a2\<lparr>au_ModelStates := au_ModelStates existing\<rparr> else a2)
            in if q_Exceeded (au_Quota existing) \<and> q_Reason (au_Quota existing) = ''credential_quota''
                  \<and> After (q_NextRecoverAt (au_Quota existing)) t
               then a3\<lparr>au_Unavailable := au_Unavailable existing, au_NextRetryAfter := au_NextRetryAfter existing,
                     au_Quota := au_Quota existing,
                     au_Status := (if au_Status a3 = StatusActive then au_Status existing else au_Status a3)\<rparr>
               else a3)
         else a2)"

definition mergedUpdate :: "updateAuthMode \<Rightarrow> time \<times> time \<Rightarrow> Auth option \<Rightarrow> Auth \<Rightarrow> Update \<Rightarrow> Auth" where
  "mergedUpdate mode clock base existing upd =
     (case (case mode of
              updateModeReplace \<Rightarrow> None
            | updateModeRefresh \<Rightarrow> MergeRefreshedAuth clock base (Some existing) (Some upd)
            | updateModePrepare \<Rightarrow> MergePreparedAuth base (Some existing) (Some upd)) of
        None \<Rightarrow> fst upd
      | Some merged \<Rightarrow> merged\<lparr>au_Metadata := NormalizeCredentialMetadata (au_Metadata merged)\<rparr>)"

definition updateInternal ::
  "ManagerEnv \<Rightarrow> IndexEnv \<Rightarrow> time \<times> time \<Rightarrow> time \<Rightarrow> time \<Rightarrow> Auth option \<Rightarrow> Update option \<Rightarrow> updateAuthMode \<Rightarrow> Manager \<Rightarrow> Lifecycle" where
  \<comment> \<open>the clock is read for the merge, for the quota that is kept and for the update itself\<close>
  "updateInternal me ie clock t now base upd mode m =
     (case upd of
        None \<Rightarrow> unchanged m (Inr None)
      | Some (auth0, present) \<Rightarrow>
          if au_ID auth0 = [] then unchanged m (Inr None)
          else (let a0 = auth0\<lparr>au_Metadata := NormalizeCredentialMetadata (au_Metadata auth0)\<rparr>; i = au_ID a0 in
           case ValidateAuthWeight (Some a0) of
             Inl e \<Rightarrow> unchanged m (Inl (''update auth: '' @ e))
           | Inr _ \<Rightarrow>
               (case mget (mg_auths m) i of
                  None \<Rightarrow> unchanged m (Inr None)
                | Some existing \<Rightarrow>
                    (let m1 = (if au_RegistrationEpoch existing > epochOf m i
                               then m\<lparr>mg_authEpochs := mput i (au_RegistrationEpoch existing) (mg_authEpochs m)\<rparr> else m)
                     in if mode \<noteq> updateModeReplace \<and> staleBase base existing
                        then unchanged m1 (Inl (staleEpochError i '' != '' (baseOr 0 au_RegistrationEpoch base) (au_RegistrationEpoch existing)))
                        else (let a1 = mergedUpdate mode clock base existing (a0, present) in
                          if au_RegistrationEpoch a1 \<noteq> 0 \<and> au_RegistrationEpoch a1 < epochOf m1 (au_ID a1)
                          then unchanged m1 (Inl (staleEpochError (au_ID a1) '' < '' (au_RegistrationEpoch a1) (epochOf m1 (au_ID a1))))
                          else (let E = epochOf m1 (au_ID a1);
                                    m2 = (if au_RegistrationEpoch a1 \<ge> E
                                          then m1\<lparr>mg_authEpochs := mput (au_ID a1) (au_RegistrationEpoch a1) (mg_authEpochs m1)\<rparr> else m1);
                                    a2 = (if au_RegistrationEpoch a1 \<ge> E then a1 else a1\<lparr>au_RegistrationEpoch := E\<rparr>);
                                    a3 = (keepRuntime t existing a2)\<lparr>au_UpdatedAt := now\<rparr>
                                in case settleCooldowns me now a3 of (a4, changed) \<Rightarrow>
                                (let a5 = EnsureIndex ie a4
                                 in \<lparr>lc_manager = m2\<lparr>mg_auths := mput (au_ID a5) a5 (mg_auths m2)\<rparr>,
                                     lc_return = Inr (Some a5), lc_messages = [MsgUpsert a5], lc_cooldownsChanged = changed\<rparr>)))))))"

definition Remove :: "string \<Rightarrow> Manager \<Rightarrow> Manager \<times> schedMessage list" where
  "Remove id0 m =
     (let i = TrimSpace id0 in
      if i = [] then (m, [])
      else (case mget (mg_auths m) i of
              None \<Rightarrow> (m, [])
            | Some existing \<Rightarrow>
                (let e = (if au_RegistrationEpoch existing > epochOf m i then au_RegistrationEpoch existing else epochOf m i) + 1
                 in (\<lparr>mg_auths = mdel i (mg_auths m), mg_authEpochs = mput i e (mg_authEpochs m)\<rparr>, [MsgTombstone i e]))))"

definition loadItem :: "IndexEnv \<Rightarrow> Auth option \<Rightarrow> Manager \<Rightarrow> Manager" where
  "loadItem ie item m =
     (case item of
        None \<Rightarrow> m
      | Some auth \<Rightarrow>
          if au_ID auth = [] then m
          else (let a0 = auth\<lparr>au_Metadata := NormalizeCredentialMetadata (au_Metadata auth)\<rparr> in
            case ValidateAuthWeight (Some a0) of
              Inl _ \<Rightarrow> m
            | Inr _ \<Rightarrow>
                (let a1 = EnsureIndex ie a0;
                     e = max (epochOf m (au_ID a1)) (au_RegistrationEpoch a1) + 1;
                     a2 = a1\<lparr>au_RegistrationEpoch := e, au_Generation := 1\<rparr>
                 in \<lparr>mg_auths = mput (au_ID a2) a2 (mg_auths m), mg_authEpochs = mput (au_ID a2) e (mg_authEpochs m)\<rparr>)))"

definition loadTombstone :: "Auths \<Rightarrow> string \<Rightarrow> Manager \<times> schedMessage list \<Rightarrow> Manager \<times> schedMessage list" where
  "loadTombstone loaded prevID acc =
     (case acc of (m, tombstones) \<Rightarrow>
      if mget loaded prevID \<noteq> None then acc
      else (let e = epochOf m prevID + 1
            in (m\<lparr>mg_authEpochs := mput prevID e (mg_authEpochs m)\<rparr>, tombstones @ [MsgTombstone prevID e])))"

definition Load :: "IndexEnv \<Rightarrow> string + Auth option list \<Rightarrow> Manager \<Rightarrow> (string + unit) \<times> Manager \<times> schedMessage list" where
  \<comment> \<open>from what the store lists; a rebuild of the scheduler follows the tombstones\<close>
  "Load ie listed m =
     (case listed of
        Inl e \<Rightarrow> (Inl e, m, [])
      | Inr items \<Rightarrow>
          (let m1 = fold (loadItem ie) items (m\<lparr>mg_auths := []\<rparr>)
           in (Inr (), fold (loadTombstone (mg_auths m1)) (map fst (mg_auths m)) (m1, []))))"

section \<open>Persisting\<close>

definition IsConfigAPIKeyAuth :: "Auth \<Rightarrow> bool" where
  "IsConfigAPIKeyAuth a \<longleftrightarrow> AuthKind a = AuthKindAPIKey \<and> AuthSourceKind a = AuthSourceConfig"

record authPersistLock =
  pl_lastEpoch :: int
  pl_lastGeneration :: int

definition persistable :: "Auth \<Rightarrow> bool \<Rightarrow> bool" where
  \<comment> \<open>\<open>hasMetadata\<close>: the metadata map is not nil\<close>
  "persistable a hasMetadata \<longleftrightarrow> \<not> IsConfigAPIKeyAuth a
     \<and> ToLower (TrimSpace (mgetd [] (au_Attributes a) ''runtime_only'')) \<noteq> ''true'' \<and> \<not> IsPluginVirtualAuth a \<and> hasMetadata"

definition persist ::
  "bool \<Rightarrow> bool \<Rightarrow> bool \<Rightarrow> Auth \<Rightarrow> (string, authPersistLock) gomap \<Rightarrow> (string + Auth option) \<times> (string, authPersistLock) gomap" where
  \<comment> \<open>the credential that goes to the store, if any\<close>
  "persist hasStore skip hasMetadata a locks =
     (if \<not> hasStore then (Inr None, locks)
      else case ValidateAuthWeight (Some a) of
          Inl e \<Rightarrow> (Inl (''persist auth: '' @ e), locks)
        | Inr _ \<Rightarrow>
            if \<not> persistable a hasMetadata then (Inr None, locks)
            else (let l = mgetd \<lparr>pl_lastEpoch = 0, pl_lastGeneration = 0\<rparr> locks (au_ID a) in
              if au_RegistrationEpoch a < pl_lastEpoch l
                 \<or> (au_RegistrationEpoch a = pl_lastEpoch l \<and> au_Generation a < pl_lastGeneration l)
              then (Inr None, mput (au_ID a) l locks)
              else (let locks' = mput (au_ID a)
                          \<lparr>pl_lastEpoch = au_RegistrationEpoch a, pl_lastGeneration = au_Generation a\<rparr> locks
                    in if skip then (Inr None, locks') else (Inr (Some a), locks'))))"

section \<open>Stamps only grow\<close>

text \<open>
  Every operation that stores a credential gives it a larger epoch, or the same epoch and a larger generation; the
  epochs that the manager counts are never behind the credentials it holds.
\<close>

definition older :: "Auth \<Rightarrow> Auth \<Rightarrow> bool" where
  "older a b \<longleftrightarrow> au_RegistrationEpoch a < au_RegistrationEpoch b
     \<or> (au_RegistrationEpoch a = au_RegistrationEpoch b \<and> au_Generation a < au_Generation b)"

definition manager_ok :: "Manager \<Rightarrow> bool" where
  "manager_ok m \<longleftrightarrow> (\<forall>i a. mget (mg_auths m) i = Some a \<longrightarrow> au_ID a = i \<and> au_RegistrationEpoch a \<le> epochOf m i)
     \<and> mwf (mg_auths m)"

definition identity :: "Auth \<Rightarrow> string \<times> int \<times> int" where
  "identity a = (au_ID a, au_RegistrationEpoch a, au_Generation a)"

named_theorems identity_simps

lemma identity_aggregate [identity_simps]:
  "identity (mapStates f a) = identity a" "identity (clearAggregatedAvailability a) = identity a"
  "identity (updateAggregatedAvailability now a) = identity a" "identity (setState k s a) = identity a"
  "identity (clearAuthStateOnSuccess now a) = identity a"
  by (simp_all add: identity_def mapStates_def clearAggregatedAvailability_def updateAggregatedAvailability_def setState_def
      clearAuthStateOnSuccess_def Let_def)

lemma identity_states [identity_simps]:
  "identity (fst (normalizeModelStates a)) = identity a"
  "ensureModelState a k = Some (a', l, s) \<Longrightarrow> identity a' = identity a"
proof -
  show n: "identity (fst (normalizeModelStates a)) = identity a" for a
    by (simp add: identity_def normalizeModelStates_def split: prod.split)
  show "ensureModelState a k = Some (a', l, s) \<Longrightarrow> identity a' = identity a"
    using n [of a] by (auto simp: ensureModelState_def Let_def identity_simps split: if_splits option.splits)
qed

lemma identity_failure [identity_simps]:
  "identity (noteAuthFailure err a) = identity a" "identity (shareFailure result dc k quota a) = identity a"
  "identity (noteCredentialFailure err now a) = identity a" "identity (settleCredential dc a) = identity a"
  "identity (forceDeadline err now a) = identity a" "identity (failureByStatus g err r now dc a) = identity a"
  "identity (recordRecentRequest now ok a) = identity a" "identity (countOutcome now ok a) = identity a"
  by (simp_all add: identity_def noteAuthFailure_def shareFailure_def shareCredentialQuota_def noteCredentialFailure_def
      settleCredential_def forceDeadline_def failureByStatus_def recordRecentRequest_def countOutcome_def Let_def
      split: option.split prod.split)

lemma identity_update [identity_simps]:
  "identity (a\<lparr>au_Status := x\<rparr>) = identity a" "identity (a\<lparr>au_StatusMessage := y\<rparr>) = identity a"
  "identity (a\<lparr>au_Quota := q\<rparr>) = identity a" "identity (a\<lparr>au_NextRetryAfter := z\<rparr>) = identity a"
  "identity (a\<lparr>au_LastError := e\<rparr>) = identity a" "identity (a\<lparr>au_Unavailable := u\<rparr>) = identity a"
  "identity (a\<lparr>au_UpdatedAt := t\<rparr>) = identity a"
  by (simp_all add: identity_def)

lemma identity_mark [identity_simps]:
  "identity (applyAuthFailureState env g err r now dc a) = identity a"
  "identity (markModelFailure me result now k a) = identity a" "identity (markSuccess now k a) = identity a"
  "identity (markTransition me result now k a) = identity a" "identity (observeQuota now result headers k a) = identity a"
proof -
  show f: "identity (applyAuthFailureState env g err r now dc a) = identity a" for env g err r dc a
    by (simp add: applyAuthFailureState_def identity_simps Let_def split: prod.split)
  show m: "identity (markModelFailure me result now k a) = identity a"
    by (auto simp: markModelFailure_def identity_simps Let_def split: prod.split option.split)
  show s: "identity (markSuccess now k a) = identity a"
    by (auto simp: markSuccess_def identity_simps Let_def split: prod.split option.split)
  show "identity (observeQuota now result headers k a) = identity a"
    by (auto simp: observeQuota_def identity_simps Let_def split: option.split)
  show "identity (markTransition me result now k a) = identity a"
    unfolding markTransition_def using f m s by (simp add: identity_simps)
qed

lemma markAuth_identity:
  "au_ID (markAuth me result headers now a) = au_ID a"
  "au_RegistrationEpoch (markAuth me result headers now a) = au_RegistrationEpoch a"
  "au_Generation (markAuth me result headers now a) = au_Generation a + 1"
proof -
  let ?k = "resultModelKey me result a"
  let ?b = "markTransition me result now ?k (countOutcome now (re_Success result) a)"
  have b: "identity ?b = identity a" by (simp add: identity_simps)
  have "identity (markAuth me result headers now a) = identity (?b\<lparr>au_Generation := au_Generation ?b + 1, au_UpdatedAt := now\<rparr>)"
    by (simp add: markAuth_def identity_simps Let_def)
  then have "identity (markAuth me result headers now a) = (au_ID a, au_RegistrationEpoch a, au_Generation a + 1)"
    using b by (simp add: identity_def)
  then show "au_ID (markAuth me result headers now a) = au_ID a"
    "au_RegistrationEpoch (markAuth me result headers now a) = au_RegistrationEpoch a"
    "au_Generation (markAuth me result headers now a) = au_Generation a + 1"
    by (simp_all add: identity_def)
qed

lemma settleCooldowns_identity:
  "au_ID (fst (settleCooldowns me now a)) = au_ID a"
  "au_RegistrationEpoch (fst (settleCooldowns me now a)) = au_RegistrationEpoch a"
  "au_Generation a \<le> au_Generation (fst (settleCooldowns me now a))"
proof -
  have c: "identity (fst (clearCooldownStateForAuth now b)) = identity b
      \<or> identity (fst (clearCooldownStateForAuth now b)) = (au_ID b, au_RegistrationEpoch b, au_Generation b + 1)" for b
  proof -
    let ?b1 = "if authCools b then b\<lparr>au_Unavailable := False, au_NextRetryAfter := 0,
        au_Quota := applyCooldownFields (au_Quota b) zeroQuota, au_UpdatedAt := now\<rparr> else b"
    let ?b2 = "mapStates (clearState now) ?b1"
    let ?b3 = "if au_ModelStates ?b2 \<noteq> [] then updateAggregatedAvailability now ?b2 else ?b2"
    have "identity ?b3 = identity b" by (simp add: identity_simps)
    moreover have "fst (clearCooldownStateForAuth now b) = ?b3
        \<or> fst (clearCooldownStateForAuth now b) = ?b3\<lparr>au_Generation := au_Generation ?b3 + 1, au_UpdatedAt := now\<rparr>"
      unfolding clearCooldownStateForAuth_def Let_def by (simp del: if_split)
    ultimately show ?thesis by (auto simp: identity_def)
  qed
  have "identity (fst (normalizeModelStates a)) = identity a" by (simp add: identity_simps)
  then have "identity (fst (settleCooldowns me now a)) = identity a
      \<or> identity (fst (settleCooldowns me now a)) = (au_ID a, au_RegistrationEpoch a, au_Generation a + 1)"
    using c [of "fst (normalizeModelStates a)"] by (auto simp: settleCooldowns_def identity_def split: prod.split)
  then show "au_ID (fst (settleCooldowns me now a)) = au_ID a"
    "au_RegistrationEpoch (fst (settleCooldowns me now a)) = au_RegistrationEpoch a"
    "au_Generation a \<le> au_Generation (fst (settleCooldowns me now a))"
    by (auto simp: identity_def)
qed

lemma EnsureIndex_identity:
  "au_ID (EnsureIndex ie a) = au_ID a" "au_RegistrationEpoch (EnsureIndex ie a) = au_RegistrationEpoch a"
  "au_Generation (EnsureIndex ie a) = au_Generation a"
  by (simp_all add: EnsureIndex_def Let_def)

section \<open>What an operation announces\<close>

definition announces :: "Manager \<Rightarrow> Manager \<Rightarrow> Auth \<Rightarrow> bool" where
  \<comment> \<open>the operation stores this snapshot, newer than everything the manager has held or removed under its ID\<close>
  "announces m m' a \<longleftrightarrow> au_ID a \<noteq> [] \<and> mg_auths m' = mput (au_ID a) a (mg_auths m)
     \<and> (case mget (mg_auths m) (au_ID a) of Some ex \<Rightarrow> older ex a | None \<Rightarrow> epochOf m (au_ID a) < au_RegistrationEpoch a)
     \<and> au_RegistrationEpoch a \<le> epochOf m' (au_ID a) \<and> (\<forall>j. j \<noteq> au_ID a \<longrightarrow> epochOf m' j = epochOf m j)"

lemma announces_ok: "manager_ok m \<Longrightarrow> announces m m' a \<Longrightarrow> manager_ok m'"
  by (auto simp: manager_ok_def announces_def go_map inv_intro)

lemma epochOf_put: "epochOf \<lparr>mg_auths = x, mg_authEpochs = mput i e (mg_authEpochs m)\<rparr> j = (if j = i then e else epochOf m j)"
  by (simp add: epochOf_def mgetd_def go_map)

lemma Register_announces:
  assumes "manager_ok m" and "newID \<noteq> []"
  shows "(lc_messages (Register me ie newID now auth m) = [] \<and> lc_manager (Register me ie newID now auth m) = m)
    \<or> (\<exists>a. lc_messages (Register me ie newID now auth m) = [MsgUpsert a] \<and> lc_return (Register me ie newID now auth m) = Inr (Some a)
         \<and> announces m (lc_manager (Register me ie newID now auth m)) a \<and> au_ID a \<in> {newID, (case auth of Some a0 \<Rightarrow> au_ID a0 | None \<Rightarrow> [])})"
proof (cases auth)
  case None
  then show ?thesis by (simp add: Register_def unchanged_def)
next
  case (Some auth0)
  define a0 where "a0 = auth0\<lparr>au_Metadata := NormalizeCredentialMetadata (au_Metadata auth0)\<rparr>"
  show ?thesis
  proof (cases "ValidateAuthWeight (Some a0)")
    case (Inl e)
    then show ?thesis by (simp add: Register_def Some a0_def [symmetric] Let_def unchanged_def)
  next
    case (Inr u)
    define a1 where "a1 = a0\<lparr>au_ID := (if au_ID a0 = [] then newID else au_ID a0),
        au_Generation := (if au_Generation a0 = 0 then 1 else au_Generation a0),
        au_CreatedAt := (if IsZero (au_CreatedAt a0) then now else au_CreatedAt a0), au_UpdatedAt := now\<rparr>"
    obtain a2 c where a2: "settleCooldowns me now a1 = (a2, c)" by fastforce
    define i where "i = au_ID (EnsureIndex ie a2)"
    have i: "i = (if au_ID auth0 = [] then newID else au_ID auth0)"
      using settleCooldowns_identity(1) [of me now a1, unfolded a2 fst_conv] by (simp add: i_def EnsureIndex_identity a1_def a0_def)
    define e1 where "e1 = (case mget (mg_auths m) i of
        Some existing \<Rightarrow> if au_RegistrationEpoch existing > epochOf m i then au_RegistrationEpoch existing else epochOf m i
      | None \<Rightarrow> epochOf m i)"
    have e1: "e1 = epochOf m i" using assms(1) by (force simp: e1_def manager_ok_def split: option.split)
    define e2 where "e2 = (if au_RegistrationEpoch (EnsureIndex ie a2) > e1 then au_RegistrationEpoch (EnsureIndex ie a2) else e1)"
    have e2: "epochOf m i \<le> e2" by (simp add: e2_def e1)
    define a4 where "a4 = (EnsureIndex ie a2)\<lparr>au_RegistrationEpoch := e2 + 1, au_Generation := 1\<rparr>"
    have id: "au_ID a4 = i" by (simp add: a4_def i_def)
    have r: "Register me ie newID now auth m = \<lparr>lc_manager = \<lparr>mg_auths = mput i a4 (mg_auths m), mg_authEpochs = mput i (e2 + 1) (mg_authEpochs m)\<rparr>,
        lc_return = Inr (Some a4), lc_messages = [MsgUpsert a4], lc_cooldownsChanged = c\<rparr>"
      unfolding Register_def Some option.case Let_def a0_def [symmetric] Inr sum.case a1_def [symmetric] a2 prod.case
        i_def [symmetric] e1_def [symmetric] e2_def [symmetric] a4_def [symmetric] ..
    have "older ex a4" if "mget (mg_auths m) i = Some ex" for ex
      using assms(1) that e2 by (force simp: older_def a4_def manager_ok_def)
    moreover have "i \<noteq> []" using assms(2) i by simp
    moreover have "au_RegistrationEpoch a4 = e2 + 1" by (simp add: a4_def)
    ultimately have "announces m (lc_manager (Register me ie newID now auth m)) a4"
      using e2 by (simp add: announces_def r id epochOf_put split: option.split)
    then show ?thesis using id i by (simp add: r [unfolded Some] Some)
  qed
qed

lemma keepRuntime_identity:
  "au_ID (keepRuntime t existing a) = au_ID a" "au_RegistrationEpoch (keepRuntime t existing a) = au_RegistrationEpoch a"
  "au_Generation existing < au_Generation (keepRuntime t existing a)"
  by (auto simp: keepRuntime_def Let_def)

lemma mergedUpdate_id:
  "au_ID (mergedUpdate mode clock base existing (a, present)) \<in> {au_ID a, au_ID existing}"
  by (cases mode) (auto simp: mergedUpdate_def MergeRefreshedAuth_def MergePreparedAuth_def mergeAuthContent_def split: option.split)

lemma updateInternal_announces:
  assumes "manager_ok m"
  shows "(lc_messages (updateInternal me ie clock t now base upd mode m) = []
       \<and> lc_manager (updateInternal me ie clock t now base upd mode m) = m)
    \<or> (\<exists>a. lc_messages (updateInternal me ie clock t now base upd mode m) = [MsgUpsert a]
         \<and> lc_return (updateInternal me ie clock t now base upd mode m) = Inr (Some a)
         \<and> announces m (lc_manager (updateInternal me ie clock t now base upd mode m)) a \<and> mget (mg_auths m) (au_ID a) \<noteq> None)"
    (is "?quiet (updateInternal me ie clock t now base upd mode m) \<or> ?loud (updateInternal me ie clock t now base upd mode m)")
proof -
  let ?r = "updateInternal me ie clock t now base upd mode m"
  show ?thesis
  proof (cases "\<exists>auth0 present existing u. upd = Some (auth0, present) \<and> au_ID auth0 \<noteq> [] \<and> mget (mg_auths m) (au_ID auth0) = Some existing
      \<and> ValidateAuthWeight (Some (auth0\<lparr>au_Metadata := NormalizeCredentialMetadata (au_Metadata auth0)\<rparr>)) = Inr u")
    case False
    have "?quiet ?r"
    proof (cases upd)
      case (Some x)
      obtain auth0 present where x: "x = (auth0, present)" by fastforce
      then show ?thesis
        using False Some
        by (cases "au_ID auth0 = []"; cases "ValidateAuthWeight (Some (auth0\<lparr>au_Metadata := NormalizeCredentialMetadata (au_Metadata auth0)\<rparr>))";
            cases "mget (mg_auths m) (au_ID auth0)") (simp_all add: updateInternal_def unchanged_def Let_def)
    qed (simp add: updateInternal_def unchanged_def)
    then show ?thesis ..
  next
    case True
    then obtain auth0 present existing u where upd: "upd = Some (auth0, present)" "au_ID auth0 \<noteq> []"
      "mget (mg_auths m) (au_ID auth0) = Some existing"
      "ValidateAuthWeight (Some (auth0\<lparr>au_Metadata := NormalizeCredentialMetadata (au_Metadata auth0)\<rparr>)) = Inr u" by blast
    let ?i = "au_ID auth0"
    define a0 where "a0 = auth0\<lparr>au_Metadata := NormalizeCredentialMetadata (au_Metadata auth0)\<rparr>"
    have "au_ID existing = ?i \<and> au_RegistrationEpoch existing \<le> epochOf m ?i"
      using assms upd(3) unfolding manager_ok_def by blast
    then have ex: "au_ID existing = ?i" "\<not> au_RegistrationEpoch existing > epochOf m ?i" by simp_all
    have i0: "au_ID a0 = ?i" and val: "ValidateAuthWeight (Some a0) = Inr u" using upd(4) by (simp_all add: a0_def)
    define a1 where "a1 = mergedUpdate mode clock base existing (a0, present)"
    have i1: "au_ID a1 = ?i" using mergedUpdate_id [of mode clock base existing a0 present] ex(1) by (auto simp: a1_def a0_def)
    let ?E = "epochOf m ?i"
    consider (stale) "mode \<noteq> updateModeReplace \<and> staleBase base existing" | (behind) "\<not> (mode \<noteq> updateModeReplace \<and> staleBase base existing)"
        "au_RegistrationEpoch a1 \<noteq> 0 \<and> au_RegistrationEpoch a1 < ?E"
      | (go) "\<not> (mode \<noteq> updateModeReplace \<and> staleBase base existing)" "\<not> (au_RegistrationEpoch a1 \<noteq> 0 \<and> au_RegistrationEpoch a1 < ?E)"
      by blast
    then show ?thesis
    proof cases
      case stale
      have "?quiet ?r"
        unfolding updateInternal_def Let_def upd(1) option.case prod.case if_not_P [OF upd(2)] val sum.case a0_def [symmetric]
          a1_def [symmetric] i0 upd(3) if_not_P [OF ex(2)] if_P [OF stale] by (simp add: unchanged_def)
      then show ?thesis ..
    next
      case behind
      have "?quiet ?r"
        unfolding updateInternal_def Let_def upd(1) option.case prod.case if_not_P [OF upd(2)] val sum.case a0_def [symmetric]
          a1_def [symmetric] i0 upd(3) if_not_P [OF ex(2)] if_not_P [OF behind(1)] i1 if_P [OF behind(2)] by (simp add: unchanged_def)
      then show ?thesis ..
    next
      case go
      define m2 where "m2 = (if au_RegistrationEpoch a1 \<ge> ?E then m\<lparr>mg_authEpochs := mput ?i (au_RegistrationEpoch a1) (mg_authEpochs m)\<rparr> else m)"
      define a2 where "a2 = (if au_RegistrationEpoch a1 \<ge> ?E then a1 else a1\<lparr>au_RegistrationEpoch := ?E\<rparr>)"
      define a3 where "a3 = (keepRuntime t existing a2)\<lparr>au_UpdatedAt := now\<rparr>"
      obtain a4 c where a4: "settleCooldowns me now a3 = (a4, c)" by fastforce
      let ?a = "EnsureIndex ie a4"
      have r: "?r = \<lparr>lc_manager = m2\<lparr>mg_auths := mput (au_ID ?a) ?a (mg_auths m2)\<rparr>, lc_return = Inr (Some ?a),
          lc_messages = [MsgUpsert ?a], lc_cooldownsChanged = c\<rparr>"
        unfolding updateInternal_def Let_def upd(1) option.case prod.case if_not_P [OF upd(2)] val sum.case a0_def [symmetric]
          a1_def [symmetric] i0 upd(3) if_not_P [OF ex(2)] if_not_P [OF go(1)] i1 if_not_P [OF go(2)] m2_def [symmetric]
          a2_def [symmetric] a3_def [symmetric] a4 ..
      have "au_ID a2 = ?i" by (simp add: a2_def i1)
      then have a3: "au_ID a3 = ?i" "au_RegistrationEpoch a3 = au_RegistrationEpoch a2" "au_Generation existing < au_Generation a3"
        using keepRuntime_identity [where t = t and existing = existing and a = a2] by (simp_all add: a3_def)
      have ida: "au_ID ?a = ?i" "au_RegistrationEpoch ?a = au_RegistrationEpoch a2" "au_Generation existing < au_Generation ?a"
        using settleCooldowns_identity [where me = me and now = now and a = a3, unfolded a4 fst_conv] a3
        by (simp_all add: EnsureIndex_identity)
      have ep: "?E \<le> au_RegistrationEpoch a2" "epochOf m2 j = (if j = ?i then au_RegistrationEpoch a2 else epochOf m j)" for j
        by (auto simp: a2_def m2_def epochOf_def mgetd_def go_map)
      have "older existing ?a" using ida ep(1) ex(2) by (auto simp: older_def)
      moreover have "mg_auths m2 = mg_auths m" by (simp add: m2_def)
      moreover have "epochOf (m2\<lparr>mg_auths := x\<rparr>) j = epochOf m2 j" for x j by (simp add: epochOf_def)
      ultimately have "announces m (lc_manager ?r) ?a"
        using upd(2,3) by (simp add: announces_def r ida ep(2))
      then have "?loud ?r" using upd(3) by (simp add: r ida(1))
      then show ?thesis ..
    qed
  qed
qed

end
