(* ===== verification/SchedulerShard.thy ===== *)
theory SchedulerShard
  imports Selector ModelRegistry "HOL-Library.Product_Lexorder"
begin

text \<open>
  \<open>sdk/cliproxy/auth/scheduler.go\<close>: the incremental scheduler of the credentials, with one shard per
  provider and model that keeps the ready credentials by priority and the blocked ones by their retry time, and
  \<open>conductor_selection.go\<close> / \<open>conductor_execution.go\<close>, the eligibility of a credential for a request.

  A method under the scheduler's mutex is a function on its state. \<open>ready\<close> views share their entries with the
  entry map of the shard, so a view holds the IDs of its entries. The code reads the clock several
  times during a pick: \<open>t0\<close> when it fetches the shard, \<open>t1\<close> when it promotes its entries and \<open>t2\<close> when it
  composes an error. Nil schedulers, which no caller in the package has, are left out.
\<close>

section \<open>Eligibility\<close>

record authSelectionEligibility =
  el_requiredKind :: string
  el_credentialPolicy :: string
  el_disallowFreeAuth :: bool

definition PinnedAuthMetadataKey :: string where "PinnedAuthMetadataKey = ''pinned_auth_id''"
definition DisallowFreeAuthMetadataKey :: string where "DisallowFreeAuthMetadataKey = ''disallow_free_auth''"

definition pinnedAuthIDFromMetadata :: "(string, goany) gomap \<Rightarrow> string" where
  "pinnedAuthIDFromMetadata meta =
     (case mget meta PinnedAuthMetadataKey of
        Some (AnyString val) \<Rightarrow> TrimSpace val
      | Some (AnyBytes val) \<Rightarrow> TrimSpace val
      | _ \<Rightarrow> [])"

definition disallowFreeAuthFromMetadata :: "(string, goany) gomap \<Rightarrow> bool" where
  "disallowFreeAuthFromMetadata meta =
     (case mget meta DisallowFreeAuthMetadataKey of
        Some (AnyBool val) \<Rightarrow> val
      | Some (AnyString val) \<Rightarrow> ParseBool (TrimSpace val) = Some True
      | Some (AnyBytes val) \<Rightarrow> ParseBool (TrimSpace val) = Some True
      | _ \<Rightarrow> False)"

definition authSelectionEligibilityForRequest ::
  "string \<Rightarrow> string \<Rightarrow> (string, goany) gomap \<Rightarrow> authSelectionEligibility" where
  \<comment> \<open>the kind and the policy come from the request's context, empty when there is none\<close>
  "authSelectionEligibilityForRequest kind policy meta =
     \<lparr>el_requiredKind = kind, el_credentialPolicy = policy, el_disallowFreeAuth = disallowFreeAuthFromMetadata meta\<rparr>"

definition eligibility_allows :: "authSelectionEligibility \<Rightarrow> Auth \<Rightarrow> bool" where
  "eligibility_allows e auth =
     (if el_requiredKind e \<noteq> [] \<and> AuthKind auth \<noteq> el_requiredKind e then False
      else if el_credentialPolicy e \<noteq> [] \<and> \<not> credentialPolicyAllows (el_credentialPolicy e) auth then False
      else \<not> el_disallowFreeAuth e \<or> \<not> isFreeCodexAuth auth)"

section \<open>State\<close>

datatype schedulerStrategy =
    schedulerStrategyCurrent | schedulerStrategyCustom | schedulerStrategyRoundRobin
  | schedulerStrategyFillFirst | schedulerStrategyWeightedRoundRobin

datatype scheduledState = scheduledStateReady | scheduledStateCooldown | scheduledStateBlocked | scheduledStateDisabled

record scheduledGenerationMeta =
  gm_epoch :: int
  gm_generation :: int
  gm_updatedAt :: time

record scheduledAuthMeta =
  sm_auth :: Auth
  sm_providerKey :: string
  sm_priority :: int
  sm_weight :: int
  sm_websocketEnabled :: bool
  sm_supportedModelSet :: "string list"

record scheduledAuth =
  se_meta :: scheduledAuthMeta
  se_state :: scheduledState
  se_nextRetryAt :: time

abbreviation se_auth :: "scheduledAuth \<Rightarrow> Auth" where
  \<comment> \<open>\<open>entry.auth\<close> is always assigned together with \<open>entry.meta\<close>\<close>
  "se_auth e \<equiv> sm_auth (se_meta e)"

abbreviation se_id :: "scheduledAuth \<Rightarrow> string" where
  "se_id e \<equiv> au_ID (se_auth e)"

record readyView =
  rv_flat :: "string list"
  rv_lastPicked :: string
  rv_weightedState :: smoothWeightedState

record readyBucket =
  rb_all :: readyView
  rb_ws :: readyView

record modelScheduler =
  sh_modelKey :: string
  sh_entries :: "(string, scheduledAuth) gomap"
  sh_priorityOrder :: "int list"
  sh_readyByPriority :: "(int, readyBucket) gomap"
  sh_blocked :: "string list"

record providerScheduler =
  ps_providerKey :: string
  ps_auths :: "(string, scheduledAuthMeta) gomap"
  ps_modelShards :: "(string, modelScheduler) gomap"

record authScheduler =
  as_strategy :: schedulerStrategy
  as_providers :: "(string, providerScheduler) gomap"
  as_authProviders :: "(string, string) gomap"
  as_authGenerations :: "(string, scheduledGenerationMeta) gomap"
  as_mixedCursors :: "(string, nat) gomap"
  as_mixedWeightedStates :: "(string, smoothWeightedState) gomap"

definition entries_of :: "modelScheduler \<Rightarrow> string list \<Rightarrow> scheduledAuth list" where
  \<comment> \<open>the entries that a list of pointers refers to\<close>
  "entries_of m ids = List.map_filter (mget (sh_entries m)) ids"

definition zeroWeighted :: smoothWeightedState where
  "zeroWeighted = \<lparr>sw_current = [], sw_weights = []\<rparr>"

section \<open>Views\<close>

definition scheduledWeightVectorMatching :: "scheduledAuth list \<Rightarrow> (scheduledAuth \<Rightarrow> bool) \<Rightarrow> (string, int) gomap" where
  "scheduledWeightVectorMatching entries predicate =
     fold (\<lambda>e m. if sm_weight (se_meta e) \<le> 0 then m
                 else if \<not> predicate e then m
                 else mput (se_id e) (sm_weight (se_meta e)) m) entries []"

definition scheduledWeightVector :: "scheduledAuth list \<Rightarrow> (string, int) gomap" where
  "scheduledWeightVector entries = scheduledWeightVectorMatching entries (\<lambda>e. True)"

type_synonym scheduled_acc = "(string, int) gomap \<times> scheduledAuth option \<times> int \<times> int"

definition scheduled_credit :: "(scheduledAuth \<Rightarrow> bool) \<Rightarrow> scheduledAuth \<Rightarrow> scheduled_acc \<Rightarrow> scheduled_acc" where
  "scheduled_credit predicate e acc =
     (case acc of (current, picked, pickedCurrent, totalWeight) \<Rightarrow>
      let weight = sm_weight (se_meta e) in
      if weight \<le> 0 then acc
      else if \<not> predicate e then acc
      else (let c = saturatingAddInt64 (mgetd 0 current (se_id e)) weight;
                current' = mput (se_id e) c current;
                totalWeight' = saturatingAddInt64 totalWeight weight
            in if picked = None \<or> c > pickedCurrent then (current', Some e, c, totalWeight')
               else (current', picked, pickedCurrent, totalWeight')))"

definition pickSmoothWeightedScheduled ::
  "scheduledAuth list \<Rightarrow> (string, int) gomap \<Rightarrow> (scheduledAuth \<Rightarrow> bool) \<Rightarrow> scheduledAuth option \<times> (string, int) gomap" where
  "pickSmoothWeightedScheduled entries current0 predicate =
     (case fold (scheduled_credit predicate) entries (current0, None, 0, 0) of (current, picked, pickedCurrent, totalWeight) \<Rightarrow>
      case picked of
        None \<Rightarrow> (None, current)
      | Some e \<Rightarrow> (Some e, mput (se_id e) (saturatingAddInt64 (mgetd 0 current (se_id e)) (- totalWeight)) current))"

definition scheduledSuccessorIndex :: "scheduledAuth list \<Rightarrow> string \<Rightarrow> nat" where
  "scheduledSuccessorIndex entries lastID =
     (if lastID = [] then 0
      else (let index = sort_Search (length entries) (\<lambda>i. se_id (entries ! i) > lastID)
            in if index \<ge> length entries then 0 else index))"

definition pickFirst :: "scheduledAuth list \<Rightarrow> (scheduledAuth \<Rightarrow> bool) \<Rightarrow> scheduledAuth option" where
  \<comment> \<open>\<open>flat\<close> is the list of the entries of the view\<close>
  "pickFirst flat predicate = find predicate flat"

definition pickRoundRobin ::
  "scheduledAuth list \<Rightarrow> (scheduledAuth \<Rightarrow> bool) \<Rightarrow> readyView \<Rightarrow> scheduledAuth option \<times> readyView" where
  "pickRoundRobin flat predicate v =
     (if flat = [] then (None, v)
      else (let start = scheduledSuccessorIndex flat (rv_lastPicked v) in
        case find (\<lambda>offset. predicate (flat ! ((start + offset) mod length flat))) [0..<length flat] of
          None \<Rightarrow> (None, v)
        | Some offset \<Rightarrow> (let e = flat ! ((start + offset) mod length flat) in (Some e, v\<lparr>rv_lastPicked := se_id e\<rparr>))))"

definition pickWeighted ::
  "scheduledAuth list \<Rightarrow> (scheduledAuth \<Rightarrow> bool) \<Rightarrow> readyView \<Rightarrow> scheduledAuth option \<times> readyView" where
  "pickWeighted flat predicate v =
     (if flat = [] then (None, v)
      else (let prepared = smooth_prepare (scheduledWeightVectorMatching flat predicate) (rv_weightedState v) in
        case pickSmoothWeightedScheduled flat (sw_current prepared) predicate of (picked, current) \<Rightarrow>
          (picked, v\<lparr>rv_weightedState := prepared\<lparr>sw_current := current\<rparr>\<rparr>)))"

section \<open>Cursors across a rebuild\<close>

text \<open>\<open>snapshotReadyViewCursors\<close> copies the cursor fields of a view: on values it is the view itself.\<close>

definition restoreReadyViewCursors :: "scheduledAuth list \<Rightarrow> readyView \<Rightarrow> readyView \<Rightarrow> readyView" where
  "restoreReadyViewCursors flat view state =
     (let view1 = view\<lparr>rv_lastPicked := rv_lastPicked state\<rparr>;
          weights = scheduledWeightVector flat;
          saved = rv_weightedState state
      in if sw_current saved = [] \<or> weightsConfigChanged (sw_weights saved) weights then view1
         else view1\<lparr>rv_weightedState :=
           \<lparr>sw_current = fold (\<lambda>e m. case mget (sw_current saved) (se_id e) of Some val \<Rightarrow> mput (se_id e) val m | None \<Rightarrow> m) flat [],
            sw_weights = weights\<rparr>\<rparr>)"

definition buildReadyView :: "scheduledAuth list \<Rightarrow> readyView" where
  "buildReadyView entries = \<lparr>rv_flat = map se_id entries, rv_lastPicked = [], rv_weightedState = zeroWeighted\<rparr>"

definition wsEntries :: "scheduledAuth list \<Rightarrow> scheduledAuth list" where
  "wsEntries entries = filter (\<lambda>e. sm_websocketEnabled (se_meta e)) entries"

definition buildReadyBucket :: "scheduledAuth list \<Rightarrow> readyBucket" where
  "buildReadyBucket entries = \<lparr>rb_all = buildReadyView entries, rb_ws = buildReadyView (wsEntries entries)\<rparr>"

definition readyAt :: "modelScheduler \<Rightarrow> int \<Rightarrow> scheduledAuth list" where
  \<comment> \<open>\<open>priorityBuckets\<close> at one priority, sorted by ID\<close>
  "readyAt m priority =
     sort_key se_id (filter (\<lambda>e. se_state e = scheduledStateReady \<and> sm_priority (se_meta e) = priority)
       (map snd (sh_entries m)))"

definition readyPriorities :: "modelScheduler \<Rightarrow> int list" where
  "readyPriorities m =
     remdups (map (\<lambda>e. sm_priority (se_meta e)) (filter (\<lambda>e. se_state e = scheduledStateReady) (map snd (sh_entries m))))"

definition rebuildBucket :: "modelScheduler \<Rightarrow> int \<Rightarrow> readyBucket" where
  "rebuildBucket m priority =
     (let entries = readyAt m priority; bucket = buildReadyBucket entries in
      case mget (sh_readyByPriority m) priority of
        None \<Rightarrow> bucket
      | Some cursorState \<Rightarrow>
          \<lparr>rb_all = restoreReadyViewCursors entries (rb_all bucket) (rb_all cursorState),
           rb_ws = restoreReadyViewCursors (wsEntries entries) (rb_ws bucket) (rb_ws cursorState)\<rparr>)"

definition rebuildIndexesLocked :: "modelScheduler \<Rightarrow> modelScheduler" where
  "rebuildIndexesLocked m =
     m\<lparr>sh_readyByPriority := map (\<lambda>p. (p, rebuildBucket m p)) (readyPriorities m),
       sh_priorityOrder := rev (sort (readyPriorities m)),
       sh_blocked := map se_id
         (sort_key (\<lambda>e. (IsZero (se_nextRetryAt e), se_nextRetryAt e, se_id e))
           (filter (\<lambda>e. se_state e = scheduledStateCooldown \<or> se_state e = scheduledStateBlocked) (map snd (sh_entries m))))\<rparr>"

section \<open>The entries of a shard\<close>

definition classifyEntry :: "bool \<times> blockReason \<times> time \<Rightarrow> scheduledState \<times> time" where
  \<comment> \<open>the switch on the result of \<open>isAuthBlockedForModel\<close>: the new \<open>state\<close> and \<open>nextRetryAt\<close>\<close>
  "classifyEntry r =
     (case r of (isBlocked, reason, next) \<Rightarrow>
        if \<not> isBlocked then (scheduledStateReady, 0)
        else if reason = blockReasonCooldown then (scheduledStateCooldown, next)
        else if reason = blockReasonDisabled then (scheduledStateDisabled, 0)
        else (scheduledStateBlocked, next))"

definition upsertEntryLocked :: "Env \<Rightarrow> scheduledAuthMeta \<Rightarrow> time \<Rightarrow> modelScheduler \<Rightarrow> modelScheduler" where
  "upsertEntryLocked env meta now m =
     (let authID = au_ID (sm_auth meta) in
      case classifyEntry (isAuthBlockedForModel env (sm_auth meta) (sh_modelKey m) now) of (state, next) \<Rightarrow>
      (let m' = m\<lparr>sh_entries := mput authID \<lparr>se_meta = meta, se_state = state, se_nextRetryAt = next\<rparr> (sh_entries m)\<rparr>
       in case mget (sh_entries m) authID of
            Some previous \<Rightarrow>
              if se_state previous = state \<and> se_nextRetryAt previous = next
                \<and> sm_priority (se_meta previous) = sm_priority meta
                \<and> sm_websocketEnabled (se_meta previous) = sm_websocketEnabled meta
              then m' else rebuildIndexesLocked m'
          | None \<Rightarrow> rebuildIndexesLocked m'))"

definition removeEntryLocked :: "string \<Rightarrow> modelScheduler \<Rightarrow> modelScheduler" where
  "removeEntryLocked authID m =
     (if authID = [] then m
      else if mget (sh_entries m) authID = None then m
      else rebuildIndexesLocked (m\<lparr>sh_entries := mdel authID (sh_entries m)\<rparr>))"

definition reevaluate :: "Env \<Rightarrow> string \<Rightarrow> time \<Rightarrow> scheduledAuth \<Rightarrow> scheduledAuth" where
  "reevaluate env modelKey now e =
     (case classifyEntry (isAuthBlockedForModel env (se_auth e) modelKey now) of (state, next) \<Rightarrow>
        e\<lparr>se_state := state, se_nextRetryAt := next\<rparr>)"

definition tokenExpired :: "Env \<Rightarrow> time \<Rightarrow> Auth \<Rightarrow> bool" where
  "tokenExpired env now auth =
     (case AccessTokenExpirationTime env auth of Some exp \<Rightarrow> \<not> IsZero exp \<and> \<not> After exp now | None \<Rightarrow> False)"

definition demotes :: "Env \<Rightarrow> string \<Rightarrow> time \<Rightarrow> scheduledAuth \<Rightarrow> bool" where
  "demotes env modelKey now e \<longleftrightarrow>
     se_state e = scheduledStateReady \<and> tokenExpired env now (se_auth e)
     \<and> fst (isAuthBlockedForModel env (se_auth e) modelKey now)"

definition demoteExpiredTokensLocked :: "Env \<Rightarrow> time \<Rightarrow> modelScheduler \<Rightarrow> modelScheduler \<times> bool" where
  "demoteExpiredTokensLocked env now m =
     (m\<lparr>sh_entries := map (\<lambda>(k, e). (k, if demotes env (sh_modelKey m) now e then reevaluate env (sh_modelKey m) now e else e))
          (sh_entries m)\<rparr>,
      list_ex (\<lambda>(k, e). demotes env (sh_modelKey m) now e) (sh_entries m))"

definition elapsed :: "time \<Rightarrow> scheduledAuth \<Rightarrow> bool" where
  "elapsed now e \<longleftrightarrow> \<not> (IsZero (se_nextRetryAt e) \<or> After (se_nextRetryAt e) now)"

definition promoteEntry ::
  "Env \<Rightarrow> time \<Rightarrow> string \<Rightarrow> modelScheduler \<times> bool \<Rightarrow> modelScheduler \<times> bool" where
  "promoteEntry env now authID acc =
     (case acc of (m, changed) \<Rightarrow>
      case mget (sh_entries m) authID of
        None \<Rightarrow> acc
      | Some e \<Rightarrow>
          if \<not> elapsed now e then acc
          else (m\<lparr>sh_entries := mput authID (reevaluate env (sh_modelKey m) now e) (sh_entries m)\<rparr>, True))"

definition promoteExpiredLocked :: "Env \<Rightarrow> time \<Rightarrow> modelScheduler \<Rightarrow> modelScheduler" where
  "promoteExpiredLocked env now m =
     (case fold (promoteEntry env now) (sh_blocked m) (demoteExpiredTokensLocked env now m) of (m', changed) \<Rightarrow>
        if changed then rebuildIndexesLocked m' else m')"

section \<open>Picking from a shard\<close>

definition viewFirst :: "modelScheduler \<Rightarrow> (scheduledAuth \<Rightarrow> bool) \<Rightarrow> readyView \<Rightarrow> scheduledAuth option" where
  "viewFirst m predicate v = pickFirst (entries_of m (rv_flat v)) predicate"

definition hasReady :: "modelScheduler \<Rightarrow> (scheduledAuth \<Rightarrow> bool) \<Rightarrow> (readyBucket \<Rightarrow> readyView) \<Rightarrow> int \<Rightarrow> bool" where
  \<comment> \<open>the view of the bucket at the priority has an entry for the request\<close>
  "hasReady m predicate view priority =
     (case mget (sh_readyByPriority m) priority of
        None \<Rightarrow> False | Some bucket \<Rightarrow> viewFirst m predicate (view bucket) \<noteq> None)"

definition highestReadyPriorityLocked :: "bool \<Rightarrow> (scheduledAuth \<Rightarrow> bool) \<Rightarrow> modelScheduler \<Rightarrow> int option" where
  "highestReadyPriorityLocked preferWebsocket predicate m =
     (case (if preferWebsocket then find (hasReady m predicate rb_ws) (sh_priorityOrder m) else None) of
        Some priority \<Rightarrow> Some priority
      | None \<Rightarrow> find (hasReady m predicate rb_all) (sh_priorityOrder m))"

definition pickFromView ::
  "schedulerStrategy \<Rightarrow> (scheduledAuth \<Rightarrow> bool) \<Rightarrow> modelScheduler \<Rightarrow> readyView \<Rightarrow> scheduledAuth option \<times> readyView" where
  "pickFromView strategy predicate m v =
     (let flat = entries_of m (rv_flat v) in
      case strategy of
        schedulerStrategyFillFirst \<Rightarrow> (pickFirst flat predicate, v)
      | schedulerStrategyWeightedRoundRobin \<Rightarrow> pickWeighted flat predicate v
      | _ \<Rightarrow> pickRoundRobin flat predicate v)"

definition pickReadyAtPriorityLocked ::
  "bool \<Rightarrow> int \<Rightarrow> schedulerStrategy \<Rightarrow> (scheduledAuth \<Rightarrow> bool) \<Rightarrow> modelScheduler \<Rightarrow> scheduledAuth option \<times> modelScheduler" where
  "pickReadyAtPriorityLocked preferWebsocket priority strategy predicate m =
     (case mget (sh_readyByPriority m) priority of
        None \<Rightarrow> (None, m)
      | Some bucket \<Rightarrow>
          if preferWebsocket \<and> viewFirst m predicate (rb_ws bucket) \<noteq> None
          then (case pickFromView strategy predicate m (rb_ws bucket) of (picked, v) \<Rightarrow>
            (picked, m\<lparr>sh_readyByPriority := mput priority (bucket\<lparr>rb_ws := v\<rparr>) (sh_readyByPriority m)\<rparr>))
          else (case pickFromView strategy predicate m (rb_all bucket) of (picked, v) \<Rightarrow>
            (picked, m\<lparr>sh_readyByPriority := mput priority (bucket\<lparr>rb_all := v\<rparr>) (sh_readyByPriority m)\<rparr>)))"

definition pickReadyLocked ::
  "Env \<Rightarrow> time \<Rightarrow> bool \<Rightarrow> schedulerStrategy \<Rightarrow> (scheduledAuth \<Rightarrow> bool) \<Rightarrow> modelScheduler \<Rightarrow> scheduledAuth option \<times> modelScheduler" where
  "pickReadyLocked env t1 preferWebsocket strategy predicate m =
     (let m1 = promoteExpiredLocked env t1 m in
      case highestReadyPriorityLocked preferWebsocket predicate m1 of
        None \<Rightarrow> (None, m1)
      | Some priority \<Rightarrow> pickReadyAtPriorityLocked preferWebsocket priority strategy predicate m1)"

definition readyCountAtPriorityLocked :: "bool \<Rightarrow> int \<Rightarrow> (scheduledAuth \<Rightarrow> bool) \<Rightarrow> modelScheduler \<Rightarrow> nat" where
  "readyCountAtPriorityLocked preferWebsocket priority predicate m =
     (case mget (sh_readyByPriority m) priority of
        None \<Rightarrow> 0
      | Some bucket \<Rightarrow>
          (let view = (if preferWebsocket \<and> viewFirst m predicate (rb_ws bucket) \<noteq> None then rb_ws bucket else rb_all bucket)
           in length (filter predicate (entries_of m (rv_flat view)))))"

section \<open>Errors of a shard\<close>

datatype candidateError = CandidateError Error | CandidateMessage string

text \<open>\<open>WithCause\<close> and \<open>newModelCooldownErrorWithCause\<close>: the error of a selection and its cause, if any.\<close>

type_synonym sched_error = "SelectError \<times> candidateError option"

type_synonym latest_error = "(candidateError \<times> time \<times> string) option"

definition laterError :: "candidateError \<times> time \<times> string \<Rightarrow> latest_error \<Rightarrow> latest_error" where
  "laterError c acc =
     (case acc of
        None \<Rightarrow> Some c
      | Some (e, t, i) \<Rightarrow> if After (fst (snd c)) t \<or> (fst (snd c) = t \<and> snd (snd c) > i) then Some c else acc)"

definition stateError :: "ModelState \<Rightarrow> (candidateError \<times> time) option" where
  "stateError s =
     (case ms_LastError s of
        Some e \<Rightarrow> Some (CandidateError e, ms_UpdatedAt s)
      | None \<Rightarrow> if TrimSpace (ms_StatusMessage s) \<noteq> [] then Some (CandidateMessage (ms_StatusMessage s), ms_UpdatedAt s) else None)"

definition authError :: "Auth \<Rightarrow> (candidateError \<times> time) option" where
  "authError a =
     (case au_LastError a of
        Some e \<Rightarrow> Some (CandidateError e, au_UpdatedAt a)
      | None \<Rightarrow> if TrimSpace (au_StatusMessage a) \<noteq> [] then Some (CandidateMessage (au_StatusMessage a), au_UpdatedAt a) else None)"

definition modelError :: "string \<Rightarrow> Auth \<Rightarrow> (candidateError \<times> time) option" where
  "modelError model a =
     (case stateAt model a of
        Some s \<Rightarrow> stateError s
      | None \<Rightarrow> (case stateAt (canonicalModelKey model) a of Some s \<Rightarrow> stateError s | None \<Rightarrow> None))"

definition collect_errors :: "string \<Rightarrow> Auth \<Rightarrow> latest_error \<times> latest_error \<Rightarrow> latest_error \<times> latest_error" where
  "collect_errors model a acc =
     (case modelError model a of
        Some (e, t) \<Rightarrow> (laterError (e, if IsZero t then au_UpdatedAt a else t, au_ID a) (fst acc), snd acc)
      | None \<Rightarrow> (case authError a of
            Some (e, t) \<Rightarrow> (fst acc, laterError (e, if IsZero t then au_UpdatedAt a else t, au_ID a) (snd acc))
          | None \<Rightarrow> acc))"

definition candidateErrorsLocked :: "string \<Rightarrow> (scheduledAuth \<Rightarrow> bool) \<Rightarrow> modelScheduler \<Rightarrow> latest_error \<times> latest_error" where
  "candidateErrorsLocked model predicate m =
     fold (\<lambda>e. collect_errors model (se_auth e)) (filter predicate (map snd (sh_entries m))) (None, None)"

definition latestCandidateError :: "latest_error \<times> latest_error \<Rightarrow> candidateError option" where
  "latestCandidateError r = map_option fst (case fst r of Some x \<Rightarrow> Some x | None \<Rightarrow> snd r)"

definition summarize :: "scheduledAuth \<Rightarrow> nat \<times> nat \<times> time \<Rightarrow> nat \<times> nat \<times> time" where
  "summarize e acc =
     (case acc of (candidates, cooldownCount, earliest) \<Rightarrow>
        if se_state e \<noteq> scheduledStateCooldown then (candidates + 1, cooldownCount, earliest)
        else (candidates + 1, cooldownCount + 1,
          if \<not> IsZero (se_nextRetryAt e) \<and> (IsZero earliest \<or> Before (se_nextRetryAt e) earliest)
          then se_nextRetryAt e else earliest))"

definition availabilitySummaryLocked :: "(scheduledAuth \<Rightarrow> bool) \<Rightarrow> modelScheduler \<Rightarrow> nat \<times> nat \<times> time" where
  "availabilitySummaryLocked predicate m = fold summarize (filter predicate (map snd (sh_entries m))) (0, 0, 0)"

definition noAuthError :: "string \<Rightarrow> candidateError option \<Rightarrow> sched_error" where
  "noAuthError code cause = (SelectError (newError code ''no auth available''), cause)"

definition summaryError :: "string \<Rightarrow> string \<Rightarrow> time \<Rightarrow> nat \<times> nat \<times> time \<Rightarrow> candidateError option \<Rightarrow> sched_error" where
  \<comment> \<open>the common end of \<open>unavailableErrorLocked\<close> and \<open>mixedUnavailableErrorLocked\<close>\<close>
  "summaryError providerForError model now summary cause =
     (case summary of (candidates, cooldownCount, earliest) \<Rightarrow>
        if candidates = 0 then noAuthError ''auth_not_found'' cause
        else if cooldownCount = candidates \<and> \<not> IsZero earliest
        then (newModelCooldownError model providerForError (if earliest - now < 0 then 0 else earliest - now), cause)
        else noAuthError ''auth_unavailable'' cause)"

definition unavailableErrorLocked ::
  "time \<Rightarrow> string \<Rightarrow> string \<Rightarrow> (scheduledAuth \<Rightarrow> bool) \<Rightarrow> modelScheduler \<Rightarrow> sched_error" where
  "unavailableErrorLocked t2 provider model predicate m =
     summaryError (if provider = ''mixed'' then [] else provider) model t2 (availabilitySummaryLocked predicate m)
       (latestCandidateError (candidateErrorsLocked model predicate m))"

end
