(* ===== verification/Scheduler.thy ===== *)
theory Scheduler
  imports SchedulerShard
begin

text \<open>
  \<open>sdk/cliproxy/auth/scheduler.go\<close>, the providers and the scheduler: the credentials of a provider and its
  shards, the epochs and generations that keep a stale snapshot of a credential out, tombstones, and the picks
  for one provider and for several.
\<close>

section \<open>A provider\<close>

definition supportsModel :: "string \<Rightarrow> scheduledAuthMeta \<Rightarrow> bool" where
  "supportsModel modelKey0 meta =
     (let modelKey = canonicalModelKey modelKey0 in
      if modelKey = [] then True
      else if sm_supportedModelSet meta = [] then False
      else modelKey \<in> set (sm_supportedModelSet meta))"

definition supportedModelSetForAuth :: "ModelRegistry \<Rightarrow> string \<Rightarrow> string list" where
  \<comment> \<open>the models that the global registry has for the credential now\<close>
  "supportedModelSetForAuth reg authID0 =
     (let authID = TrimSpace authID0 in
      if authID = [] then []
      else filter (\<lambda>k. k \<noteq> []) (map (\<lambda>m. canonicalModelKey (mi_ID m)) (GetModelsForClient authID reg)))"

definition buildScheduledAuthMeta :: "ModelRegistry \<Rightarrow> Auth \<Rightarrow> scheduledAuthMeta" where
  "buildScheduledAuthMeta reg auth =
     \<lparr>sm_auth = auth, sm_providerKey = executorKeyFromAuth auth, sm_priority = authPriority auth,
      sm_weight = authWeight auth, sm_websocketEnabled = authWebsocketsEnabled auth,
      sm_supportedModelSet = supportedModelSetForAuth reg (au_ID auth)\<rparr>"

definition emptyShard :: "string \<Rightarrow> modelScheduler" where
  "emptyShard modelKey =
     \<lparr>sh_modelKey = modelKey, sh_entries = [], sh_priorityOrder = [], sh_readyByPriority = [], sh_blocked = []\<rparr>"

definition provider_upsertAuthLocked :: "Env \<Rightarrow> scheduledAuthMeta \<Rightarrow> time \<Rightarrow> providerScheduler \<Rightarrow> providerScheduler" where
  "provider_upsertAuthLocked env meta now p =
     p\<lparr>ps_auths := mput (au_ID (sm_auth meta)) meta (ps_auths p),
       ps_modelShards := map (\<lambda>(modelKey, shard).
         (modelKey, if \<not> supportsModel modelKey meta then removeEntryLocked (au_ID (sm_auth meta)) shard
                    else upsertEntryLocked env meta now shard)) (ps_modelShards p)\<rparr>"

definition provider_removeAuthLocked :: "string \<Rightarrow> providerScheduler \<Rightarrow> providerScheduler" where
  "provider_removeAuthLocked authID p =
     (if authID = [] then p
      else p\<lparr>ps_auths := mdel authID (ps_auths p),
             ps_modelShards := map (\<lambda>(modelKey, shard). (modelKey, removeEntryLocked authID shard)) (ps_modelShards p)\<rparr>)"

definition ensureModelLocked :: "Env \<Rightarrow> string \<Rightarrow> time \<Rightarrow> providerScheduler \<Rightarrow> modelScheduler \<times> providerScheduler" where
  "ensureModelLocked env modelKey0 now p =
     (let modelKey = canonicalModelKey modelKey0;
          shard = (case mget (ps_modelShards p) modelKey of
              Some shard \<Rightarrow> promoteExpiredLocked env now shard
            | None \<Rightarrow>
                fold (\<lambda>(_, meta) shard. if \<not> supportsModel modelKey meta then shard else upsertEntryLocked env meta now shard)
                  (ps_auths p) (emptyShard modelKey))
      in (shard, p\<lparr>ps_modelShards := mput modelKey shard (ps_modelShards p)\<rparr>))"

section \<open>Credentials of the scheduler\<close>

datatype selectorKind = NilSelector | RoundRobinKind | FillFirstKind | WeightedRoundRobinKind | OtherSelector

definition selectorStrategy :: "selectorKind \<Rightarrow> schedulerStrategy" where
  "selectorStrategy selector =
     (case selector of
        FillFirstKind \<Rightarrow> schedulerStrategyFillFirst
      | WeightedRoundRobinKind \<Rightarrow> schedulerStrategyWeightedRoundRobin
      | NilSelector \<Rightarrow> schedulerStrategyRoundRobin
      | RoundRobinKind \<Rightarrow> schedulerStrategyRoundRobin
      | OtherSelector \<Rightarrow> schedulerStrategyCustom)"

definition newAuthScheduler :: "selectorKind \<Rightarrow> authScheduler" where
  "newAuthScheduler selector =
     \<lparr>as_strategy = selectorStrategy selector, as_providers = [], as_authProviders = [], as_authGenerations = [],
      as_mixedCursors = [], as_mixedWeightedStates = []\<rparr>"

definition setSelector :: "selectorKind \<Rightarrow> authScheduler \<Rightarrow> authScheduler" where
  "setSelector selector s =
     s\<lparr>as_strategy := selectorStrategy selector, as_mixedCursors := [], as_mixedWeightedStates := []\<rparr>"

definition isStaleScheduledAuth :: "string \<Rightarrow> int \<Rightarrow> int \<Rightarrow> time \<Rightarrow> authScheduler \<Rightarrow> bool" where
  "isStaleScheduledAuth authID incomingEpoch incomingGen incomingUpdatedAt s =
     (case mget (as_authGenerations s) authID of
        None \<Rightarrow> False
      | Some existing \<Rightarrow>
          if gm_epoch existing > incomingEpoch then True
          else if gm_epoch existing = incomingEpoch then
            (if gm_generation existing > incomingGen then True
             else if gm_generation existing = incomingGen \<and> After (gm_updatedAt existing) incomingUpdatedAt then True
             else False)
          else False)"

definition removeFromProvider :: "string \<Rightarrow> string \<Rightarrow> authScheduler \<Rightarrow> authScheduler" where
  "removeFromProvider providerKey authID s =
     (case mget (as_providers s) providerKey of
        None \<Rightarrow> s
      | Some p \<Rightarrow> s\<lparr>as_providers := mput providerKey (provider_removeAuthLocked authID p) (as_providers s)\<rparr>)"

definition removeAuthFromProvidersLocked :: "string \<Rightarrow> authScheduler \<Rightarrow> authScheduler" where
  "removeAuthFromProvidersLocked authID s =
     (let providerKey = mgetd [] (as_authProviders s) authID in
      if providerKey = [] then s
      else (let s1 = removeFromProvider providerKey authID s in
        s1\<lparr>as_authProviders := mdel authID (as_authProviders s1)\<rparr>))"

definition ensureProviderLocked :: "string \<Rightarrow> authScheduler \<Rightarrow> providerScheduler" where
  "ensureProviderLocked providerKey s =
     (case mget (as_providers s) providerKey of
        Some p \<Rightarrow> p
      | None \<Rightarrow> \<lparr>ps_providerKey = providerKey, ps_auths = [], ps_modelShards = []\<rparr>)"

definition upsertAuthLocked :: "Env \<Rightarrow> ModelRegistry \<Rightarrow> Auth \<Rightarrow> time \<Rightarrow> authScheduler \<Rightarrow> authScheduler" where
  "upsertAuthLocked env reg auth now s =
     (let authID = TrimSpace (au_ID auth) in
      if authID = [] then s
      else if isStaleScheduledAuth authID (au_RegistrationEpoch auth) (au_Generation auth) (au_UpdatedAt auth) s then s
      else
        (let s1 = s\<lparr>as_authGenerations := mput authID
               \<lparr>gm_epoch = au_RegistrationEpoch auth, gm_generation = au_Generation auth, gm_updatedAt = au_UpdatedAt auth\<rparr>
               (as_authGenerations s)\<rparr>;
             providerKey = executorKeyFromAuth auth
         in if providerKey = [] \<or> au_Disabled auth \<or> au_Status auth = StatusDisabled
            then removeAuthFromProvidersLocked authID s1
            else
              (let previousProvider = mgetd [] (as_authProviders s1) authID;
                   s2 = (if previousProvider \<noteq> [] \<and> previousProvider \<noteq> providerKey
                         then removeFromProvider previousProvider authID s1 else s1);
                   meta = buildScheduledAuthMeta reg auth
               in s2\<lparr>as_authProviders := mput authID providerKey (as_authProviders s2),
                     as_providers := mput providerKey
                       (provider_upsertAuthLocked env meta now (ensureProviderLocked providerKey s2)) (as_providers s2)\<rparr>)))"

definition upsertAuth :: "Env \<Rightarrow> ModelRegistry \<Rightarrow> Auth \<Rightarrow> time \<Rightarrow> authScheduler \<Rightarrow> authScheduler" where
  "upsertAuth env reg auth now s = upsertAuthLocked env reg auth now s"

definition rebuild :: "Env \<Rightarrow> ModelRegistry \<Rightarrow> Auth list \<Rightarrow> time \<Rightarrow> authScheduler \<Rightarrow> authScheduler" where
  "rebuild env reg auths now s =
     fold (\<lambda>auth. upsertAuthLocked env reg auth now) auths
       (s\<lparr>as_providers := [], as_authProviders := [], as_mixedCursors := [], as_mixedWeightedStates := []\<rparr>)"

definition recordRemovalTombstoneLocked :: "string \<Rightarrow> int \<Rightarrow> time \<Rightarrow> authScheduler \<Rightarrow> authScheduler" where
  "recordRemovalTombstoneLocked authID tombstoneEpoch now s =
     (if authID = [] then s
      else if (case mget (as_authGenerations s) authID of
                 Some existing \<Rightarrow> tombstoneEpoch < gm_epoch existing | None \<Rightarrow> False) then s
      else removeAuthFromProvidersLocked authID
        (s\<lparr>as_authGenerations := mput authID \<lparr>gm_epoch = tombstoneEpoch, gm_generation = 0, gm_updatedAt = now\<rparr>
            (as_authGenerations s)\<rparr>))"

definition RecordRemovalTombstone :: "string \<Rightarrow> int \<Rightarrow> time \<Rightarrow> authScheduler \<Rightarrow> authScheduler" where
  "RecordRemovalTombstone authID tombstoneEpoch now s =
     recordRemovalTombstoneLocked (TrimSpace authID) tombstoneEpoch now s"

definition removeAuthLocked :: "string \<Rightarrow> time \<Rightarrow> authScheduler \<Rightarrow> authScheduler" where
  "removeAuthLocked authID now s =
     (if authID = [] then s
      else (let epoch = (case mget (as_authGenerations s) authID of Some existing \<Rightarrow> gm_epoch existing + 1 | None \<Rightarrow> 1)
            in removeAuthFromProvidersLocked authID
              (s\<lparr>as_authGenerations := mput authID \<lparr>gm_epoch = epoch, gm_generation = 0, gm_updatedAt = now\<rparr>
                  (as_authGenerations s)\<rparr>)))"

definition removeAuth :: "string \<Rightarrow> time \<Rightarrow> authScheduler \<Rightarrow> authScheduler" where
  "removeAuth authID now s = removeAuthLocked (TrimSpace authID) now s"

definition ResetAuthGeneration :: "string \<Rightarrow> authScheduler \<Rightarrow> authScheduler" where
  "ResetAuthGeneration authID0 s =
     (let authID = TrimSpace authID0 in
      if authID = [] then s else s\<lparr>as_authGenerations := mdel authID (as_authGenerations s)\<rparr>)"

section \<open>Picks for one provider\<close>

definition scheduledAuthPredicate ::
  "authSelectionEligibility \<Rightarrow> string set \<Rightarrow> string \<Rightarrow> bool \<Rightarrow> scheduledAuth \<Rightarrow> bool" where
  "scheduledAuthPredicate eligibility tried pinnedAuthID requirePositiveWeight e =
     (if \<not> eligibility_allows eligibility (se_auth e) then False
      else if requirePositiveWeight \<and> sm_weight (se_meta e) \<le> 0 then False
      else if pinnedAuthID \<noteq> [] \<and> se_id e \<noteq> pinnedAuthID then False
      else se_id e \<notin> tried)"

definition providerPrefersWebsocketTransport :: "string \<Rightarrow> bool" where
  "providerPrefersWebsocketTransport providerKey \<longleftrightarrow> ToLower (TrimSpace providerKey) \<in> {''codex'', ''xai''}"

text \<open>What a pick reads from its context and options, and the clock readings of one call.\<close>

record pickRequest =
  pr_model :: string
  pr_eligibility :: authSelectionEligibility
  pr_pinnedAuthID :: string
  pr_downstreamWebsocket :: bool
  pr_tried :: "string set"

type_synonym clock = "time \<times> time \<times> time"

definition effectiveStrategy :: "schedulerStrategy \<Rightarrow> authScheduler \<Rightarrow> schedulerStrategy" where
  "effectiveStrategy strategy s = (if strategy = schedulerStrategyCurrent then as_strategy s else strategy)"

definition requestPredicate :: "pickRequest \<Rightarrow> string \<Rightarrow> schedulerStrategy \<Rightarrow> scheduledAuth \<Rightarrow> bool" where
  "requestPredicate req pinnedAuthID strategy =
     scheduledAuthPredicate (pr_eligibility req) (pr_tried req) pinnedAuthID (strategy = schedulerStrategyWeightedRoundRobin)"

definition putShard :: "string \<Rightarrow> string \<Rightarrow> modelScheduler \<Rightarrow> authScheduler \<Rightarrow> authScheduler" where
  \<comment> \<open>a write through the pointer to a shard of the provider\<close>
  "putShard providerKey modelKey shard s =
     (case mget (as_providers s) providerKey of
        None \<Rightarrow> s
      | Some p \<Rightarrow> s\<lparr>as_providers := mput providerKey
          (p\<lparr>ps_modelShards := mput (canonicalModelKey modelKey) shard (ps_modelShards p)\<rparr>) (as_providers s)\<rparr>)"

definition pickShard ::
  "Env \<Rightarrow> clock \<Rightarrow> string \<Rightarrow> string \<Rightarrow> string \<Rightarrow> bool \<Rightarrow> schedulerStrategy \<Rightarrow> (scheduledAuth \<Rightarrow> bool) \<Rightarrow> string
     \<Rightarrow> providerScheduler \<Rightarrow> authScheduler \<Rightarrow> (sched_error + Auth) \<times> authScheduler" where
  \<comment> \<open>\<open>ensureModelLocked\<close>, \<open>pickReadyLocked\<close> and \<open>unavailableErrorLocked\<close> on one shard, as both picks chain them\<close>
  "pickShard env clk providerKey modelKey model preferWebsocket strategy predicate providerForError p s =
     (case clk of (t0, t1, t2) \<Rightarrow>
      case ensureModelLocked env modelKey t0 p of (shard, p1) \<Rightarrow>
      case pickReadyLocked env t1 preferWebsocket strategy predicate shard of (picked, shard') \<Rightarrow>
      (let s' = putShard providerKey modelKey shard' (s\<lparr>as_providers := mput providerKey p1 (as_providers s)\<rparr>) in
       case picked of
         Some e \<Rightarrow> (Inr (se_auth e), s')
       | None \<Rightarrow> (Inl (unavailableErrorLocked t2 providerForError model predicate shard'), s')))"

definition pickSingleWithStrategy ::
  "Env \<Rightarrow> clock \<Rightarrow> string \<Rightarrow> pickRequest \<Rightarrow> schedulerStrategy \<Rightarrow> authScheduler \<Rightarrow> (sched_error + Auth) \<times> authScheduler" where
  "pickSingleWithStrategy env clk provider req strategy0 s =
     (let providerKey = ToLower (TrimSpace provider);
          modelKey = canonicalModelKey (pr_model req);
          preferWebsocket = (pr_downstreamWebsocket req \<and> providerPrefersWebsocketTransport providerKey
                             \<and> pr_pinnedAuthID req = []);
          strategy = effectiveStrategy strategy0 s
      in case mget (as_providers s) providerKey of
           None \<Rightarrow> (Inl (noAuthError ''auth_not_found'' None), s)
         | Some p \<Rightarrow>
             pickShard env clk providerKey modelKey (pr_model req) preferWebsocket strategy
               (requestPredicate req (pr_pinnedAuthID req) strategy) provider p s)"

definition pickSingle ::
  "Env \<Rightarrow> clock \<Rightarrow> string \<Rightarrow> pickRequest \<Rightarrow> authScheduler \<Rightarrow> (sched_error + Auth) \<times> authScheduler" where
  "pickSingle env clk provider req s = pickSingleWithStrategy env clk provider req schedulerStrategyCurrent s"

section \<open>Picks over several providers\<close>

definition normalizeProviderKeys :: "string list \<Rightarrow> string list" where
  "normalizeProviderKeys providers =
     rev (remdups (rev (filter (\<lambda>k. k \<noteq> []) (map (\<lambda>p. ToLower (TrimSpace p)) providers))))"

definition containsProvider :: "string list \<Rightarrow> string \<Rightarrow> bool" where
  "containsProvider providers provider = list_ex (\<lambda>candidate. candidate = provider) providers"

definition ensureShard :: "Env \<Rightarrow> string \<Rightarrow> time \<Rightarrow> string \<Rightarrow> authScheduler \<Rightarrow> authScheduler" where
  "ensureShard env modelKey now providerKey s =
     (case mget (as_providers s) providerKey of
        None \<Rightarrow> s
      | Some p \<Rightarrow> s\<lparr>as_providers := mput providerKey (snd (ensureModelLocked env modelKey now p)) (as_providers s)\<rparr>)"

definition shardOf :: "string \<Rightarrow> string \<Rightarrow> authScheduler \<Rightarrow> modelScheduler option" where
  \<comment> \<open>the shard that \<open>ensureModelLocked\<close> has returned for the provider, nil when the provider is unknown\<close>
  "shardOf modelKey providerKey s =
     (case mget (as_providers s) providerKey of
        None \<Rightarrow> None | Some p \<Rightarrow> mget (ps_modelShards p) (canonicalModelKey modelKey))"

definition candidateShards :: "string \<Rightarrow> string list \<Rightarrow> authScheduler \<Rightarrow> modelScheduler option list" where
  "candidateShards modelKey normalized s = map (\<lambda>pk. shardOf modelKey pk s) normalized"

definition mixed_summary :: "(scheduledAuth \<Rightarrow> bool) \<Rightarrow> modelScheduler \<Rightarrow> nat \<times> nat \<times> time \<Rightarrow> nat \<times> nat \<times> time" where
  "mixed_summary predicate m acc =
     (case (acc, availabilitySummaryLocked predicate m) of ((n, cooldownCount, earliest), (localTotal, localCooldownCount, localEarliest)) \<Rightarrow>
        (n + localTotal, cooldownCount + localCooldownCount,
         if \<not> IsZero localEarliest \<and> (IsZero earliest \<or> Before localEarliest earliest) then localEarliest else earliest))"

definition mixed_errors ::
  "string \<Rightarrow> (scheduledAuth \<Rightarrow> bool) \<Rightarrow> modelScheduler \<Rightarrow> latest_error \<times> latest_error \<Rightarrow> latest_error \<times> latest_error" where
  "mixed_errors model predicate m acc =
     (case candidateErrorsLocked model predicate m of (candModel, candAuth) \<Rightarrow>
        (case candModel of Some c \<Rightarrow> laterError c (fst acc) | None \<Rightarrow> fst acc,
         case candAuth of Some c \<Rightarrow> laterError c (snd acc) | None \<Rightarrow> snd acc))"

definition mixedUnavailableErrorLocked ::
  "Env \<Rightarrow> time \<Rightarrow> string list \<Rightarrow> string \<Rightarrow> (scheduledAuth \<Rightarrow> bool) \<Rightarrow> authScheduler \<Rightarrow> sched_error \<times> authScheduler" where
  "mixedUnavailableErrorLocked env t2 providers model predicate s =
     (let modelKey = canonicalModelKey model;
          s' = fold (ensureShard env modelKey t2) providers s;
          shards = List.map_filter (\<lambda>m. m) (candidateShards modelKey providers s')
      in (summaryError [] model t2 (fold (mixed_summary predicate) shards (0, 0, 0))
            (latestCandidateError (fold (mixed_errors model predicate) shards (None, None))), s'))"

definition mixed_fails ::
  "Env \<Rightarrow> time \<Rightarrow> string list \<Rightarrow> string \<Rightarrow> (scheduledAuth \<Rightarrow> bool) \<Rightarrow> authScheduler
     \<Rightarrow> (sched_error + Auth \<times> string) \<times> authScheduler" where
  "mixed_fails env t2 providers model predicate s =
     (case mixedUnavailableErrorLocked env t2 providers model predicate s of (err, s') \<Rightarrow> (Inl err, s'))"

definition bestReadyPriority :: "(scheduledAuth \<Rightarrow> bool) \<Rightarrow> modelScheduler option list \<Rightarrow> int option" where
  "bestReadyPriority predicate shards =
     fold (\<lambda>shard best.
       case (case shard of None \<Rightarrow> None | Some m \<Rightarrow> highestReadyPriorityLocked False predicate m) of
         None \<Rightarrow> best
       | Some priorityReady \<Rightarrow>
           (case best of None \<Rightarrow> Some priorityReady
            | Some bestPriority \<Rightarrow> if priorityReady > bestPriority then Some priorityReady else best)) shards None"

definition pickAtProvider ::
  "string \<Rightarrow> int \<Rightarrow> schedulerStrategy \<Rightarrow> (scheduledAuth \<Rightarrow> bool) \<Rightarrow> string \<Rightarrow> authScheduler \<Rightarrow> Auth option \<times> authScheduler" where
  \<comment> \<open>\<open>pickReadyAtPriorityLocked\<close> on the shard of one provider\<close>
  "pickAtProvider modelKey bestPriority strategy predicate providerKey s =
     (case shardOf modelKey providerKey s of
        None \<Rightarrow> (None, s)
      | Some m \<Rightarrow> (case pickReadyAtPriorityLocked False bestPriority strategy predicate m of (picked, m') \<Rightarrow>
          (map_option se_auth picked, putShard providerKey modelKey m' s)))"

fun mixed_fill_first ::
  "string \<Rightarrow> int \<Rightarrow> (scheduledAuth \<Rightarrow> bool) \<Rightarrow> string list \<Rightarrow> authScheduler \<Rightarrow> (Auth \<times> string) option \<times> authScheduler" where
  "mixed_fill_first modelKey bestPriority predicate [] s = (None, s)"
| "mixed_fill_first modelKey bestPriority predicate (providerKey # rest) s =
     (case pickAtProvider modelKey bestPriority schedulerStrategyFillFirst predicate providerKey s of
        (Some a, s') \<Rightarrow> (Some (a, providerKey), s')
      | (None, s') \<Rightarrow> mixed_fill_first modelKey bestPriority predicate rest s')"

definition cursorKeyOf :: "string list \<Rightarrow> string \<Rightarrow> string" where
  "cursorKeyOf normalized modelKey = Join normalized '','' @ '':'' @ modelKey"

definition mixed_weighted ::
  "string \<Rightarrow> int \<Rightarrow> (scheduledAuth \<Rightarrow> bool) \<Rightarrow> string list \<Rightarrow> authScheduler \<Rightarrow> scheduledAuth option \<times> authScheduler" where
  "mixed_weighted modelKey bestPriority predicate normalized s =
     (let entries = sort_key se_id (concat (map (\<lambda>shard. case shard of
              None \<Rightarrow> []
            | Some m \<Rightarrow> (case mget (sh_readyByPriority m) bestPriority of
                None \<Rightarrow> [] | Some bucket \<Rightarrow> entries_of m (rv_flat (rb_all bucket)))) (candidateShards modelKey normalized s)));
          cursorKey = cursorKeyOf normalized modelKey;
          state = smooth_prepare (scheduledWeightVectorMatching entries predicate)
            (mgetd zeroWeighted (as_mixedWeightedStates s) cursorKey)
      in case pickSmoothWeightedScheduled entries (sw_current state) predicate of (picked, current) \<Rightarrow>
        (picked, s\<lparr>as_mixedWeightedStates := mput cursorKey (state\<lparr>sw_current := current\<rparr>) (as_mixedWeightedStates s)\<rparr>))"

fun segments :: "nat \<Rightarrow> nat list \<Rightarrow> (nat \<times> nat \<times> nat) list" where
  \<comment> \<open>the weight of every provider with \<open>segmentStarts\<close> and \<open>segmentEnds\<close>\<close>
  "segments start [] = []"
| "segments start (w # ws) = (w, start, start + w) # segments (start + w) ws"

fun mixed_rr_loop ::
  "string \<Rightarrow> int \<Rightarrow> (scheduledAuth \<Rightarrow> bool) \<Rightarrow> string list \<Rightarrow> (nat \<times> nat \<times> nat) list \<Rightarrow> nat \<Rightarrow> nat \<Rightarrow> nat list
     \<Rightarrow> authScheduler \<Rightarrow> (Auth \<times> string) option \<times> authScheduler" where
  \<comment> \<open>the loop over the providers from \<open>startProviderIndex\<close> on, with \<open>slot\<close> as it stands\<close>
  "mixed_rr_loop modelKey bestPriority predicate normalized segs startIndex slot [] s = (None, s)"
| "mixed_rr_loop modelKey bestPriority predicate normalized segs startIndex slot (offset # offsets) s =
     (let providerIndex = (startIndex + offset) mod length normalized;
          seg = segs ! providerIndex;
          slot' = (if providerIndex \<noteq> startIndex then fst (snd seg) else slot)
      in if fst seg = 0 then mixed_rr_loop modelKey bestPriority predicate normalized segs startIndex slot offsets s
         else (case pickAtProvider modelKey bestPriority schedulerStrategyRoundRobin predicate (normalized ! providerIndex) s of
             (Some a, s') \<Rightarrow>
               (Some (a, normalized ! providerIndex),
                s'\<lparr>as_mixedCursors := mput (cursorKeyOf normalized modelKey) (slot' + 1) (as_mixedCursors s')\<rparr>)
           | (None, s') \<Rightarrow> mixed_rr_loop modelKey bestPriority predicate normalized segs startIndex slot' offsets s'))"

definition mixed_round_robin ::
  "string \<Rightarrow> int \<Rightarrow> (scheduledAuth \<Rightarrow> bool) \<Rightarrow> string list \<Rightarrow> authScheduler \<Rightarrow> (Auth \<times> string) option \<times> authScheduler" where
  "mixed_round_robin modelKey bestPriority predicate normalized s =
     (let weights = map (\<lambda>shard. case shard of None \<Rightarrow> 0 | Some m \<Rightarrow> readyCountAtPriorityLocked False bestPriority predicate m)
            (candidateShards modelKey normalized s);
          totalWeight = sum_list weights;
          segs = segments 0 weights
      in if totalWeight = 0 then (None, s)
         else (let startSlot = mgetd 0 (as_mixedCursors s) (cursorKeyOf normalized modelKey) mod totalWeight in
           case find (\<lambda>i. fst (segs ! i) \<noteq> 0 \<and> startSlot < snd (snd (segs ! i))) [0..<length normalized] of
             None \<Rightarrow> (None, s)
           | Some startProviderIndex \<Rightarrow>
               mixed_rr_loop modelKey bestPriority predicate normalized segs startProviderIndex startSlot [0..<length normalized] s))"

definition pickMixedWithStrategy ::
  "Env \<Rightarrow> clock \<Rightarrow> string list \<Rightarrow> pickRequest \<Rightarrow> schedulerStrategy \<Rightarrow> authScheduler
     \<Rightarrow> (sched_error + Auth \<times> string) \<times> authScheduler" where
  "pickMixedWithStrategy env clk providers req strategy0 s =
     (let normalized = normalizeProviderKeys providers;
          model = pr_model req;
          modelKey = canonicalModelKey model;
          strategy = effectiveStrategy strategy0 s;
          pinned = pr_pinnedAuthID req;
          fail = (\<lambda>s'. mixed_fails env (snd (snd clk)) normalized model (requestPredicate req [] strategy) s')
      in case normalized of
           [] \<Rightarrow> (Inl (SelectError (newError ''provider_not_found'' ''no provider supplied''), None), s)
         | [providerKey] \<Rightarrow>
             (case pickSingleWithStrategy env clk providerKey req strategy0 s of
                (Inl e, s') \<Rightarrow> (Inl e, s')
              | (Inr a, s') \<Rightarrow> (Inr (a, providerKey), s'))
         | _ \<Rightarrow>
             if pinned \<noteq> [] then
               (let providerKey = mgetd [] (as_authProviders s) pinned in
                if providerKey = [] \<or> \<not> containsProvider normalized providerKey
                then (Inl (noAuthError ''auth_not_found'' None), s)
                else case mget (as_providers s) providerKey of
                    None \<Rightarrow> (Inl (noAuthError ''auth_not_found'' None), s)
                  | Some p \<Rightarrow>
                      (case pickShard env clk providerKey modelKey model False strategy
                              (requestPredicate req pinned strategy) ''mixed'' p s of
                         (Inl e, s') \<Rightarrow> (Inl e, s')
                       | (Inr a, s') \<Rightarrow> (Inr (a, providerKey), s')))
             else
               (let s1 = fold (ensureShard env modelKey (fst clk)) normalized s;
                    predicate = requestPredicate req [] strategy
                in case bestReadyPriority predicate (candidateShards modelKey normalized s1) of
                     None \<Rightarrow> fail s1
                   | Some bestPriority \<Rightarrow>
                       (if strategy = schedulerStrategyFillFirst then
                          (case mixed_fill_first modelKey bestPriority predicate normalized s1 of
                             (Some r, s') \<Rightarrow> (Inr r, s') | (None, s') \<Rightarrow> fail s')
                        else if strategy = schedulerStrategyWeightedRoundRobin then
                          (case mixed_weighted modelKey bestPriority predicate normalized s1 of
                             (Some e, s') \<Rightarrow> (Inr (se_auth e, sm_providerKey (se_meta e)), s') | (None, s') \<Rightarrow> fail s')
                        else
                          (case mixed_round_robin modelKey bestPriority predicate normalized s1 of
                             (Some r, s') \<Rightarrow> (Inr r, s') | (None, s') \<Rightarrow> fail s'))))"

definition pickMixed ::
  "Env \<Rightarrow> clock \<Rightarrow> string list \<Rightarrow> pickRequest \<Rightarrow> authScheduler \<Rightarrow> (sched_error + Auth \<times> string) \<times> authScheduler" where
  "pickMixed env clk providers req s = pickMixedWithStrategy env clk providers req schedulerStrategyCurrent s"

end
