(* ===== verification/SchedulerIndex.thy ===== *)
theory SchedulerIndex
  imports SchedulerShard
begin

text \<open>
  The invariant of a shard: its entries are keyed by credential, each carries the state that
  \<open>isAuthBlockedForModel\<close> gave it at some earlier time, and the views, the order of the priorities and the
  blocked queue are exactly those of the entries. Every operation keeps it, and \<open>promoteExpiredLocked\<close> brings
  the states up to date although it looks at the elapsed and expired entries only.
\<close>

section \<open>How a block evolves\<close>

lemma availabilityBlock_lasts:
  assumes "availabilityBlock u q r c t = (True, reason, n)" and "n = 0 \<or> t' < n" and "0 \<le> t" and "t \<le> t'"
  shows "fst (availabilityBlock u q r c t')" and "reason \<noteq> blockReasonDisabled"
  using assms by (auto simp: availabilityBlock_def Let_def split: if_splits)

lemma availabilityBlock_ends:
  "\<not> fst (availabilityBlock u q r c t) \<Longrightarrow> 0 \<le> t \<Longrightarrow> t \<le> t' \<Longrightarrow> \<not> fst (availabilityBlock u q r c t')"
  by (auto simp: availabilityBlock_iff)

lemma blocksKey_ends: "\<not> blocksKey key t e \<Longrightarrow> 0 \<le> t \<Longrightarrow> t \<le> t' \<Longrightarrow> \<not> blocksKey key t' e"
  by (auto simp: blocksKey_def stateBlock_iff split: prod.splits option.splits)

text \<open>A credential that is free stays free until its access token expires.\<close>

lemma tokenExpired_iff:
  "tokenExpired env now a \<longleftrightarrow> (\<exists>exp. AccessTokenExpirationTime env a = Some exp \<and> exp \<noteq> 0 \<and> exp \<le> now)"
  by (auto simp: tokenExpired_def not_less split: option.splits)

lemma tokenExpired_blocked: "tokenExpired env now a \<Longrightarrow> blocked env model now a"
  by (auto simp: blocked_def isAuthBlockedForModel_flag tokenExpired_iff)

lemma free_stays:
  assumes "\<not> blocked env model t a" and "0 \<le> t" and "t \<le> t'" and "\<not> tokenExpired env t' a"
  shows "\<not> blocked env model t' a"
proof -
  have "\<not> list_ex (blocksKey key t') L" if "\<not> list_ex (blocksKey key t) L" for key L
    using that blocksKey_ends [OF _ assms(2,3)] by (auto simp: list_ex_iff)
  moreover have "\<not> credentialQuotaOpen a t'" if "\<not> credentialQuotaOpen a t"
    using that assms(3) by (auto simp: credentialQuotaOpen_def)
  ultimately show ?thesis
    using assms availabilityBlock_ends [OF _ assms(2,3)]
    by (auto simp: blocked_def isAuthBlockedForModel_flag tokenExpired_iff split: if_splits)
qed

text \<open>A block without a deadline lasts, and one with a deadline lasts until then.\<close>

definition lasting :: "string \<Rightarrow> time \<Rightarrow> (string \<times> ModelState option) list \<Rightarrow> (bool \<times> blockReason \<times> time) + block_acc \<Rightarrow> bool" where
  \<comment> \<open>what the result of the loop over \<open>L\<close> says of the blocks at \<open>t'\<close>\<close>
  "lasting key t' L res =
     (case res of
        Inl (b, reason, n) \<Rightarrow> n = 0 \<and> list_ex (blocksKey key t') L
      | Inr (m, b, reason, n) \<Rightarrow> b \<longrightarrow> reason \<noteq> blockReasonDisabled \<and> (n = 0 \<or> t' < n \<longrightarrow> list_ex (blocksKey key t') L))"

lemma lasting_mono: "lasting key t' L res \<Longrightarrow> lasting key t' (e # L) res"
  by (auto simp: lasting_def split: sum.splits)

lemma block_loop_lasts:
  assumes "0 \<le> t" and "t \<le> t'"
    and "b \<Longrightarrow> reason \<noteq> blockReasonDisabled \<and> n \<noteq> 0 \<and> (t' < n \<longrightarrow> list_ex (blocksKey key t') P)"
  shows "lasting key t' (P @ L) (block_loop key t L (m, b, reason, n))"
  using assms(3)
proof (induction L arbitrary: P m b reason n)
  case Nil
  then show ?case by (auto simp: lasting_def)
next
  case (Cons e L)
  obtain k st where e: "e = (k, st)" by fastforce
  have skip: "lasting key t' (P @ e # L) (block_loop key t L (m', b, reason, n))" for m'
    using Cons.IH [of b reason n "P @ [e]" m'] Cons.prems by auto
  show ?case
  proof (cases st)
    case None
    then show ?thesis using skip [of m] by (simp add: e)
  next
    case (Some s)
    obtain sb r nx where sb: "stateBlock t s = (sb, r, nx)" by (cases "stateBlock t s") auto
    consider "canonicalModelKey k \<noteq> key \<or> (ms_Status s \<noteq> StatusDisabled \<and> \<not> sb)"
      | "canonicalModelKey k = key" "ms_Status s = StatusDisabled"
      | "canonicalModelKey k = key" "ms_Status s \<noteq> StatusDisabled" "sb" by blast
    then show ?thesis
    proof cases
      case 1
      then show ?thesis using skip [of m] skip [of True] by (auto simp: e Some sb)
    next
      case 2
      then show ?thesis by (simp add: e Some lasting_def)
    next
      case 3
      note lasts = availabilityBlock_lasts [OF _ _ assms(1,2), of "ms_Unavailable s" "q_Exceeded (ms_Quota s)"
          "ms_NextRetryAfter s" "q_NextRecoverAt (ms_Quota s)" r nx]
      have b': "nx = 0 \<or> t' < nx \<Longrightarrow> fst (stateBlock t' s)" "nx = 0 \<or> t < nx \<Longrightarrow> r \<noteq> blockReasonDisabled"
        using lasts availabilityBlock_lasts [OF _ _ assms(1) order_refl, of "ms_Unavailable s" "q_Exceeded (ms_Quota s)"
            "ms_NextRetryAfter s" "q_NextRecoverAt (ms_Quota s)" r nx] sb 3(3) by (simp_all add: stateBlock_def)
      have "nx = 0 \<or> t < nx"
        using sb by (auto simp: stateBlock_def availabilityBlock_def Let_def split: if_splits)
      moreover have "lasting key t' ((P @ [e]) @ L) (block_loop key t L (True, True, r, nx))" if "nx \<noteq> 0"
        using b' that calculation 3 by (intro Cons.IH) (auto simp: e Some)
      ultimately show ?thesis using b' 3 skip [of True]
        by (auto simp: e Some sb lasting_def [of _ _ _ "Inl _"])
    qed
  qed
qed

lemma isAuthBlockedForModel_lasts:
  assumes "isAuthBlockedForModel env a model t = (True, reason, n)" and "0 \<le> t" and "t \<le> t'"
  shows "(n = 0 \<or> t' < n \<longrightarrow> blocked env model t' a) \<and> (reason = blockReasonDisabled \<longrightarrow> n = 0)"
proof -
  note blk = blocked_def isAuthBlockedForModel_flag
  have noNext: "n = 0 \<or> t < n \<and> reason \<noteq> blockReasonDisabled"
    if "availabilityBlock u q r c t = (True, reason, n)" for u q r c
    using that by (auto simp: availabilityBlock_def Let_def split: if_splits)
  note lasts = availabilityBlock_lasts(1) [OF _ _ assms(2,3)]
  consider (off) "au_Disabled a \<or> au_Status a = StatusDisabled" "n = 0"
    | (expired) "tokenExpired env t a" "n = 0"
    | (credential) "q_Exceeded (au_Quota a)" "credentialQuotaOpen a t" "n = q_NextRecoverAt (au_Quota a)" "reason = blockReasonCooldown"
    | (states) "model \<noteq> []" "au_ModelStates a \<noteq> []"
        "lasting (canonicalModelKey model) t' (au_ModelStates a) (Inl (True, reason, n)) \<or>
         lasting (canonicalModelKey model) t' (au_ModelStates a) (Inr (True, True, reason, n))"
    | (auth) q where "availabilityBlock (au_Unavailable a) q (au_NextRetryAfter a) (q_NextRecoverAt (au_Quota a)) t = (True, reason, n)"
        "q = (if model = [] \<and> au_ModelStates a \<noteq> [] \<and> q_Reason (au_Quota a) \<noteq> ''credential_quota'' \<and> \<not> au_Unavailable a
              then False else q_Exceeded (au_Quota a))" "\<not> (model \<noteq> [] \<and> au_ModelStates a \<noteq> [])"
    using assms(1) block_loop_lasts [OF assms(2,3), of False blockReasonNone 0 "canonicalModelKey model" "[]" "au_ModelStates a" False]
    unfolding isAuthBlockedForModel_def
    by (fastforce simp: tokenExpired_def Let_def split: if_splits sum.splits prod.splits)
  then show ?thesis
  proof cases
    case off
    then show ?thesis by (auto simp: blk)
  next
    case expired
    then have "tokenExpired env t' a" using assms(3) by (auto simp: tokenExpired_iff)
    then show ?thesis using tokenExpired_blocked expired(2) by simp
  next
    case credential
    then show ?thesis using assms(2) by (auto simp: blk credentialQuotaOpen_def)
  next
    case states
    then show ?thesis by (auto simp: blk lasting_def)
  next
    case auth
    then show ?thesis using lasts [OF auth(1)] noNext [OF auth(1)] by (auto simp: blk split: if_splits)
  qed
qed

section \<open>The invariant of a shard\<close>

definition derived :: "scheduledAuthMeta \<Rightarrow> bool" where
  \<comment> \<open>the fields of a meta are those of its credential\<close>
  "derived meta \<longleftrightarrow> sm_priority meta = authPriority (sm_auth meta) \<and> sm_weight meta = authWeight (sm_auth meta)
     \<and> sm_websocketEnabled meta = authWebsocketsEnabled (sm_auth meta) \<and> sm_providerKey meta = executorKeyFromAuth (sm_auth meta)"

definition entry_ok :: "Env \<Rightarrow> string \<Rightarrow> time \<Rightarrow> string \<Rightarrow> scheduledAuth \<Rightarrow> bool" where
  "entry_ok env modelKey now k e \<longleftrightarrow> k = se_id e \<and> derived (se_meta e)
     \<and> (\<exists>t. 0 \<le> t \<and> t \<le> now \<and> (se_state e, se_nextRetryAt e) = classifyEntry (isAuthBlockedForModel env (se_auth e) modelKey t))"

definition entries_ok :: "Env \<Rightarrow> time \<Rightarrow> modelScheduler \<Rightarrow> bool" where
  "entries_ok env now m \<longleftrightarrow> mwf (sh_entries m) \<and> (\<forall>k e. mget (sh_entries m) k = Some e \<longrightarrow> entry_ok env (sh_modelKey m) now k e)"

abbreviation waiting :: "scheduledAuth \<Rightarrow> bool" where
  "waiting e \<equiv> se_state e = scheduledStateCooldown \<or> se_state e = scheduledStateBlocked"

definition indexed :: "modelScheduler \<Rightarrow> bool" where
  "indexed m \<longleftrightarrow>
     (\<forall>p. case mget (sh_readyByPriority m) p of
        None \<Rightarrow> readyAt m p = []
      | Some b \<Rightarrow> readyAt m p \<noteq> [] \<and> rv_flat (rb_all b) = map se_id (readyAt m p)
          \<and> rv_flat (rb_ws b) = map se_id (wsEntries (readyAt m p)))
     \<and> sorted_wrt (>) (sh_priorityOrder m) \<and> set (sh_priorityOrder m) = set (readyPriorities m)
     \<and> distinct (sh_blocked m) \<and> set (sh_blocked m) = se_id ` {e. (se_id e, e) \<in> set (sh_entries m) \<and> waiting e}"

definition shard_inv :: "Env \<Rightarrow> time \<Rightarrow> modelScheduler \<Rightarrow> bool" where
  "shard_inv env now m \<longleftrightarrow> entries_ok env now m \<and> indexed m"

definition current :: "Env \<Rightarrow> time \<Rightarrow> modelScheduler \<Rightarrow> bool" where
  \<comment> \<open>the states are those of the time \<open>now\<close>\<close>
  "current env now m \<longleftrightarrow> (\<forall>k e. mget (sh_entries m) k = Some e \<longrightarrow>
     (se_state e = scheduledStateReady \<longleftrightarrow> \<not> blocked env (sh_modelKey m) now (se_auth e)))"

lemma indexedD:
  assumes "indexed m"
  shows "mget (sh_readyByPriority m) p = None \<Longrightarrow> readyAt m p = []"
    and "mget (sh_readyByPriority m) p = Some b \<Longrightarrow> rv_flat (rb_all b) = map se_id (readyAt m p)"
    and "mget (sh_readyByPriority m) p = Some b \<Longrightarrow> rv_flat (rb_ws b) = map se_id (wsEntries (readyAt m p))"
    and "sorted_wrt (>) (sh_priorityOrder m)" and "set (sh_priorityOrder m) = set (readyPriorities m)"
  using assms unfolding indexed_def by (force dest: spec [of _ p])+

lemma entries_ok_mono: "entries_ok env t m \<Longrightarrow> t \<le> t' \<Longrightarrow> entries_ok env t' m"
  unfolding entries_ok_def entry_ok_def by (meson order_trans)

lemma shard_inv_mono: "shard_inv env t m \<Longrightarrow> t \<le> t' \<Longrightarrow> shard_inv env t' m"
  using entries_ok_mono by (auto simp: shard_inv_def)

lemma entries_okD:
  assumes "entries_ok env now m"
  shows "mwf (sh_entries m)" and "(k, e) \<in> set (sh_entries m) \<longleftrightarrow> mget (sh_entries m) k = Some e"
    and "mget (sh_entries m) k = Some e \<Longrightarrow> se_id e = k"
    and "mget (sh_entries m) k = Some e \<Longrightarrow> derived (se_meta e)"
  using assms by (auto simp: entries_ok_def entry_ok_def mget_iff_in)

lemma sort_map: "map f (sort_key f xs) = sort (map f xs)"
  by (rule sym, rule properties_for_sort) simp_all

lemma ids_distinct:
  assumes "entries_ok env now m"
  shows "distinct (map se_id (map snd (sh_entries m)))"
proof -
  have e: "map se_id (map snd (sh_entries m)) = map fst (sh_entries m)"
    using entries_okD(2,3) [OF assms] by auto
  show ?thesis unfolding e using entries_okD(1) [OF assms] by (simp add: mwf_def)
qed

lemma member_id:
  assumes "entries_ok env now m"
  shows "e \<in> snd ` set (sh_entries m) \<longleftrightarrow> (se_id e, e) \<in> set (sh_entries m)"
proof
  assume "e \<in> snd ` set (sh_entries m)"
  then obtain k where k: "(k, e) \<in> set (sh_entries m)" by auto
  then have "mget (sh_entries m) k = Some e" by (simp only: entries_okD(2) [OF assms])
  then show "(se_id e, e) \<in> set (sh_entries m)" using k entries_okD(3) [OF assms] by simp
next
  show "(se_id e, e) \<in> set (sh_entries m) \<Longrightarrow> e \<in> snd ` set (sh_entries m)" by force
qed

lemma readyAt_members:
  "e \<in> set (readyAt m p) \<longleftrightarrow> e \<in> snd ` set (sh_entries m) \<and> se_state e = scheduledStateReady \<and> sm_priority (se_meta e) = p"
  by (auto simp: readyAt_def)

lemma readyPriorities_iff: "p \<in> set (readyPriorities m) \<longleftrightarrow> readyAt m p \<noteq> []"
proof -
  have "readyAt m p \<noteq> [] \<longleftrightarrow> (\<exists>e. e \<in> set (readyAt m p))" by (cases "readyAt m p") auto
  then show ?thesis by (auto simp: readyAt_members readyPriorities_def)
qed

lemma readyAt_sorted: "sorted (map se_id (readyAt m p))"
  by (simp add: readyAt_def)

text \<open>Whatever the cursors, a rebuild makes the indexes those of the entries.\<close>

lemma restore_flat [simp]: "rv_flat (restoreReadyViewCursors flat view state) = rv_flat view"
  by (simp add: restoreReadyViewCursors_def Let_def)

lemma rebuildBucket_flat [simp]:
  "rv_flat (rb_all (rebuildBucket m p)) = map se_id (readyAt m p)"
  "rv_flat (rb_ws (rebuildBucket m p)) = map se_id (wsEntries (readyAt m p))"
  by (auto simp: rebuildBucket_def Let_def buildReadyBucket_def buildReadyView_def split: option.splits)

lemma rebuild_fields [simp]:
  "sh_entries (rebuildIndexesLocked m) = sh_entries m" "sh_modelKey (rebuildIndexesLocked m) = sh_modelKey m"
  "readyAt (rebuildIndexesLocked m) p = readyAt m p" "readyPriorities (rebuildIndexesLocked m) = readyPriorities m"
  by (simp_all add: rebuildIndexesLocked_def readyAt_def readyPriorities_def)

lemma mget_tagged: "mget (map (\<lambda>p. (p, f p)) ps) p = (if p \<in> set ps then Some (f p) else None)"
  by (induction ps) (auto simp: mget_def)

lemma rebuild_indexed:
  assumes "entries_ok env now m"
  shows "indexed (rebuildIndexesLocked m)"
proof -
  have ps: "distinct (readyPriorities m)" by (simp add: readyPriorities_def)
  have "sorted_wrt (<) (sort (readyPriorities m))" using ps by (simp add: strict_sorted_iff)
  then have order: "sorted_wrt (>) (rev (sort (readyPriorities m)))" by (simp add: sorted_wrt_rev)
  let ?W = "filter waiting (map snd (sh_entries m))"
  have b: "sh_blocked (rebuildIndexesLocked m)
      = map se_id (sort_key (\<lambda>e. (se_nextRetryAt e = 0, se_nextRetryAt e, se_id e)) ?W)"
    by (simp add: rebuildIndexesLocked_def)
  have "distinct (map se_id ?W)" using ids_distinct [OF assms] by (rule distinct_map_filter)
  then have "distinct (sh_blocked (rebuildIndexesLocked m))"
    by (simp add: b distinct_map)
  moreover have "set (sh_blocked (rebuildIndexesLocked m)) = se_id ` {e. (se_id e, e) \<in> set (sh_entries m) \<and> waiting e}"
    unfolding b by (simp add: member_id [OF assms] image_def [of se_id] conj_commute)
  moreover have "mget (sh_readyByPriority (rebuildIndexesLocked m)) p
      = (if readyAt m p \<noteq> [] then Some (rebuildBucket m p) else None)" for p
    by (simp add: rebuildIndexesLocked_def mget_tagged readyPriorities_iff)
  moreover have "sh_priorityOrder (rebuildIndexesLocked m) = rev (sort (readyPriorities m))"
    by (simp add: rebuildIndexesLocked_def)
  ultimately show ?thesis using order by (simp add: indexed_def)
qed

section \<open>Inserting and removing entries\<close>

definition same_index :: "scheduledAuth \<Rightarrow> scheduledAuth \<Rightarrow> bool" where
  \<comment> \<open>the fields that the indexes depend on\<close>
  "same_index e e' \<longleftrightarrow> se_id e' = se_id e \<and> se_state e' = se_state e
     \<and> sm_priority (se_meta e') = sm_priority (se_meta e) \<and> sm_websocketEnabled (se_meta e') = sm_websocketEnabled (se_meta e)"

lemma mput_at: "mget m k = Some v \<Longrightarrow> mwf m \<Longrightarrow> mput k w m = map (\<lambda>(l, x). (l, if l = k then w else x)) m"
proof (induction m)
  case (Cons e m)
  obtain l x where e: "e = (l, x)" by fastforce
  have "map (\<lambda>(j, x). (j, if j = l then w else x)) m = m" if "mget m l = None"
    using that by (intro map_idI) (auto simp: mget_None_iff image_iff)
  then show ?case using Cons by (auto simp: e)
qed (simp add: mget_def)

lemma map_filter_same:
  assumes "\<And>x. x \<in> set xs \<Longrightarrow> f (F x) = f x \<and> P (F x) = P x"
  shows "map f (filter P (map F xs)) = map f (filter P xs)"
  using assms by (induction xs) auto

lemma ready_ids: "map se_id (readyAt m p)
    = sort (map se_id (filter (\<lambda>e. se_state e = scheduledStateReady \<and> sm_priority (se_meta e) = p) (map snd (sh_entries m))))"
  by (simp add: readyAt_def sort_map)

lemma ws_ids: "map se_id (wsEntries (readyAt m p))
    = sort (map se_id (filter (\<lambda>e. (se_state e = scheduledStateReady \<and> sm_priority (se_meta e) = p) \<and> sm_websocketEnabled (se_meta e))
        (map snd (sh_entries m))))"
  by (simp add: wsEntries_def readyAt_def filter_sort sort_map)

lemma indexed_same:
  assumes "indexed m" and es: "map snd es = map F (map snd (sh_entries m))" and "\<And>e. e \<in> snd ` set (sh_entries m) \<Longrightarrow> same_index e (F e)"
    and m: "entries_ok env now m" and m': "entries_ok env now (m\<lparr>sh_entries := es\<rparr>)"
  shows "indexed (m\<lparr>sh_entries := es\<rparr>)"
proof -
  let ?m = "m\<lparr>sh_entries := es\<rparr>"
  note same = assms(3) [unfolded same_index_def]
  have f: "map se_id (filter P (map snd es)) = map se_id (filter P (map snd (sh_entries m)))"
    if "\<And>e. e \<in> snd ` set (sh_entries m) \<Longrightarrow> P (F e) = P e" for P
    unfolding es using that same by (intro map_filter_same) simp
  have r: "map se_id (readyAt ?m p) = map se_id (readyAt m p)"
    "map se_id (wsEntries (readyAt ?m p)) = map se_id (wsEntries (readyAt m p))" for p
    unfolding ready_ids ws_ids using same by (simp_all add: f)
  then have ne: "readyAt ?m p = [] \<longleftrightarrow> readyAt m p = []" for p by (metis map_is_Nil_conv)
  then have ps: "set (readyPriorities ?m) = set (readyPriorities m)" by (auto simp: readyPriorities_iff)
  have w: "se_id ` {e. (se_id e, e) \<in> set (sh_entries x) \<and> waiting e} = set (map se_id (filter waiting (map snd (sh_entries x))))"
    if "entries_ok env now x" for x
    by (simp add: member_id [OF that, symmetric] image_def [of se_id] conj_commute)
  have "map se_id (filter waiting (map snd (sh_entries ?m))) = map se_id (filter waiting (map snd (sh_entries m)))"
    using same by (simp add: f)
  then have "se_id ` {e. (se_id e, e) \<in> set (sh_entries ?m) \<and> waiting e} = se_id ` {e. (se_id e, e) \<in> set (sh_entries m) \<and> waiting e}"
    unfolding w [OF m] w [OF m'] by (rule arg_cong)
  then show ?thesis using assms(1) unfolding indexed_def r ps ne by simp
qed

definition entry_for :: "Env \<Rightarrow> string \<Rightarrow> time \<Rightarrow> scheduledAuthMeta \<Rightarrow> scheduledAuth" where
  "entry_for env modelKey now meta =
     (case classifyEntry (isAuthBlockedForModel env (sm_auth meta) modelKey now) of (state, next) \<Rightarrow>
        \<lparr>se_meta = meta, se_state = state, se_nextRetryAt = next\<rparr>)"

lemma upsert_fields [simp]:
  "sh_modelKey (upsertEntryLocked env meta now m) = sh_modelKey m"
  "sh_entries (upsertEntryLocked env meta now m)
     = mput (au_ID (sm_auth meta)) (entry_for env (sh_modelKey m) now meta) (sh_entries m)"
  by (simp_all add: upsertEntryLocked_def entry_for_def Let_def split: prod.splits option.splits)

lemma entry_for_ok: "derived meta \<Longrightarrow> 0 \<le> now \<Longrightarrow> entry_ok env modelKey now (au_ID (sm_auth meta)) (entry_for env modelKey now meta)"
  by (auto simp: entry_ok_def entry_for_def split: prod.splits)

lemma upsert_shard_inv [inv_intro]:
  assumes "shard_inv env now m" and "derived meta" and "0 \<le> now"
  shows "shard_inv env now (upsertEntryLocked env meta now m)"
proof -
  let ?k = "au_ID (sm_auth meta)" and ?e = "entry_for env (sh_modelKey m) now meta"
  let ?m = "m\<lparr>sh_entries := mput ?k ?e (sh_entries m)\<rparr>"
  have m: "entries_ok env now m" "indexed m" using assms(1) by (simp_all add: shard_inv_def)
  have ok: "entries_ok env now ?m"
    using m(1) entry_for_ok [OF assms(2,3)] by (simp add: entries_ok_def go_map inv_intro)
  then have "entries_ok env now (upsertEntryLocked env meta now m)" by (simp add: entries_ok_def)
  moreover have "indexed (upsertEntryLocked env meta now m)"
  proof (cases "\<exists>previous. mget (sh_entries m) ?k = Some previous \<and> same_index previous ?e \<and> se_nextRetryAt previous = se_nextRetryAt ?e")
    case True
    then obtain previous where previous: "mget (sh_entries m) ?k = Some previous" "same_index previous ?e" by blast
    let ?F = "\<lambda>x. if se_id x = ?k then ?e else x"
    have id: "se_id x = k \<and> mget (sh_entries m) k = Some x" if "(k, x) \<in> set (sh_entries m)" for k x
      using that entries_okD(2,3) [OF m(1)] by blast
    have "map snd (mput ?k ?e (sh_entries m)) = map ?F (map snd (sh_entries m))"
      using id by (auto simp: mput_at [OF previous(1) entries_okD(1) [OF m(1)]])
    moreover have "same_index x (?F x)" if "x \<in> snd ` set (sh_entries m)" for x
      using id that previous by (auto simp: same_index_def [of x x])
    ultimately have "indexed ?m" using indexed_same [OF m(2) _ _ m(1) ok] by blast
    moreover have "upsertEntryLocked env meta now m = ?m \<or> upsertEntryLocked env meta now m = rebuildIndexesLocked ?m"
      by (auto simp: upsertEntryLocked_def entry_for_def Let_def split: prod.splits option.splits)
    ultimately show ?thesis using rebuild_indexed [OF ok] by metis
  next
    case False
    have "upsertEntryLocked env meta now m = rebuildIndexesLocked ?m"
    proof (cases "mget (sh_entries m) ?k")
      case (Some previous)
      then show ?thesis using False entries_okD(3) [OF m(1) Some]
        by (auto simp: upsertEntryLocked_def entry_for_def same_index_def Let_def split: prod.splits)
    qed (simp add: upsertEntryLocked_def entry_for_def Let_def split: prod.splits)
    then show ?thesis using rebuild_indexed [OF ok] by simp
  qed
  ultimately show ?thesis by (simp add: shard_inv_def)
qed

lemma remove_fields [simp]:
  "sh_modelKey (removeEntryLocked authID m) = sh_modelKey m"
  "authID \<noteq> [] \<Longrightarrow> mget (sh_entries (removeEntryLocked authID m)) k = (if k = authID then None else mget (sh_entries m) k)"
  by (auto simp: removeEntryLocked_def go_map)

lemma remove_shard_inv [inv_intro]:
  assumes "shard_inv env now m"
  shows "shard_inv env now (removeEntryLocked authID m)"
proof -
  have "entries_ok env now (m\<lparr>sh_entries := mdel authID (sh_entries m)\<rparr>)"
    using assms by (auto simp: shard_inv_def entries_ok_def go_map inv_intro)
  from rebuild_indexed [OF this] this assms show ?thesis
    by (simp add: removeEntryLocked_def shard_inv_def entries_ok_def)
qed

lemma emptyIndex: "sh_entries m = [] \<Longrightarrow> sh_readyByPriority m = [] \<Longrightarrow> sh_priorityOrder m = [] \<Longrightarrow> sh_blocked m = [] \<Longrightarrow> shard_inv env now m"
  by (simp add: shard_inv_def entries_ok_def indexed_def readyAt_def readyPriorities_def)

section \<open>Promotion\<close>

definition settle :: "Env \<Rightarrow> string \<Rightarrow> time \<Rightarrow> scheduledAuth \<Rightarrow> scheduledAuth" where
  \<comment> \<open>what a promotion makes of one entry\<close>
  "settle env modelKey now e =
     (if demotes env modelKey now e \<or> (waiting e \<and> elapsed now e) then reevaluate env modelKey now e else e)"

lemma reevaluate_fields [simp]: "se_meta (reevaluate env modelKey now e) = se_meta e"
  by (simp add: reevaluate_def split: prod.splits)

lemma settle_fields [simp]: "se_meta (settle env modelKey now e) = se_meta e"
  by (simp add: settle_def)

lemma classify_ready: "fst (classifyEntry r) = scheduledStateReady \<longleftrightarrow> \<not> fst r"
  by (cases r) (auto simp: classifyEntry_def)

lemma reevaluate_ok:
  assumes "entry_ok env modelKey t k e" and "0 \<le> now"
  shows "entry_ok env modelKey now k (reevaluate env modelKey now e)"
    and "se_state (reevaluate env modelKey now e) = scheduledStateReady \<longleftrightarrow> \<not> blocked env modelKey now (se_auth e)"
  using assms classify_ready [of "isAuthBlockedForModel env (se_auth e) modelKey now"]
  by (auto simp: entry_ok_def reevaluate_def blocked_def split: prod.splits)

lemma settle_ok:
  assumes "entry_ok env modelKey t k e" and "t \<le> now"
  shows "entry_ok env modelKey now k (settle env modelKey now e)"
    and "se_state (settle env modelKey now e) = scheduledStateReady \<longleftrightarrow> \<not> blocked env modelKey now (se_auth e)"
proof -
  obtain u where u: "0 \<le> u" "u \<le> t"
    "(se_state e, se_nextRetryAt e) = classifyEntry (isAuthBlockedForModel env (se_auth e) modelKey u)"
    using assms(1) by (auto simp: entry_ok_def)
  have le: "u \<le> now" "0 \<le> now" using u assms(2) by simp_all
  have ok: "entry_ok env modelKey now k e" using assms unfolding entry_ok_def by (meson order_trans)
  show "entry_ok env modelKey now k (settle env modelKey now e)"
    using ok reevaluate_ok(1) [OF assms(1) le(2)] by (simp add: settle_def)
  have stays: "se_state e = scheduledStateReady \<longleftrightarrow> \<not> blocked env modelKey now (se_auth e)"
    if keep: "\<not> demotes env modelKey now e" "\<not> (waiting e \<and> elapsed now e)"
  proof (cases "se_state e = scheduledStateReady")
    case True
    then have "\<not> blocked env modelKey u (se_auth e)"
      using u(3) classify_ready [of "isAuthBlockedForModel env (se_auth e) modelKey u"]
      by (metis blocked_def fst_conv)
    moreover have "\<not> tokenExpired env now (se_auth e)"
      using keep(1) True tokenExpired_blocked by (auto simp: demotes_def blocked_def)
    ultimately show ?thesis using free_stays [OF _ u(1) le(1)] True by blast
  next
    case False
    obtain b reason n where r: "isAuthBlockedForModel env (se_auth e) modelKey u = (b, reason, n)"
      by (metis prod_cases3)
    then have b: b and n: "reason \<noteq> blockReasonDisabled \<Longrightarrow> se_nextRetryAt e = n \<and> waiting e"
      using u(3) False by (auto simp: classifyEntry_def split: if_splits)
    note lasts = isAuthBlockedForModel_lasts [OF r [simplified b] u(1) le(1)]
    have "n = 0 \<or> now < n"
      using lasts n keep(2) by (cases "reason = blockReasonDisabled") (auto simp: elapsed_def not_less)
    then show ?thesis using lasts False by blast
  qed
  show "se_state (settle env modelKey now e) = scheduledStateReady \<longleftrightarrow> \<not> blocked env modelKey now (se_auth e)"
    using stays reevaluate_ok(2) [OF assms(1) le(2)] by (auto simp: settle_def)
qed

definition promoteAt :: "Env \<Rightarrow> string \<Rightarrow> time \<Rightarrow> string \<Rightarrow> (string, scheduledAuth) gomap \<Rightarrow> (string, scheduledAuth) gomap" where
  "promoteAt env modelKey now i es =
     (case mget es i of
        Some e \<Rightarrow> if elapsed now e then mput i (reevaluate env modelKey now e) es else es
      | None \<Rightarrow> es)"

lemma promoteAt_acts:
  "acts_at i (promoteAt env modelKey now i) (map_option (\<lambda>e. if elapsed now e then reevaluate env modelKey now e else e))"
  by (auto simp: acts_at_def promoteAt_def go_map inv_intro split: option.splits)

lemma promoteEntry_fold:
  "fst (fold (promoteEntry env now) ids (m, b)) = m\<lparr>sh_entries := fold (promoteAt env (sh_modelKey m) now) ids (sh_entries m)\<rparr>
   \<and> (b \<longrightarrow> snd (fold (promoteEntry env now) ids (m, b)))
   \<and> (snd (fold (promoteEntry env now) ids (m, b)) \<or> fst (fold (promoteEntry env now) ids (m, b)) = m)"
proof (induction ids arbitrary: m b)
  case (Cons i ids)
  obtain m' b' where s: "promoteEntry env now i (m, b) = (m', b')" by fastforce
  have m': "m' = m\<lparr>sh_entries := promoteAt env (sh_modelKey m) now i (sh_entries m)\<rparr>" "b \<longrightarrow> b'" "b' \<or> m' = m"
    using s by (auto simp: promoteEntry_def promoteAt_def split: option.splits if_splits)
  have k: "sh_modelKey m' = sh_modelKey m" "sh_entries m' = promoteAt env (sh_modelKey m) now i (sh_entries m)"
    "m'\<lparr>sh_entries := X\<rparr> = m\<lparr>sh_entries := X\<rparr>" for X
    unfolding m'(1) by simp_all
  have f: "fold (promoteEntry env now) (i # ids) (m, b) = fold (promoteEntry env now) ids (m', b')" using s by simp
  show ?case using Cons.IH [of m' b'] m'(2,3) unfolding f k(1,2) by (auto simp: k(3))
qed simp

lemma find_same: "find (\<lambda>x. x = k) xs = (if k \<in> set xs then Some k else None)"
  by (induction xs) auto

lemma promote_entries:
  assumes "entries_ok env t m" and "indexed m"
  shows "mget (sh_entries (promoteExpiredLocked env now m)) k
      = map_option (settle env (sh_modelKey m) now) (mget (sh_entries m) k)"
    and "mwf (sh_entries (promoteExpiredLocked env now m))"
    and "sh_modelKey (promoteExpiredLocked env now m) = sh_modelKey m"
    and "promoteExpiredLocked env now m = m \<or> (\<exists>m'. promoteExpiredLocked env now m = rebuildIndexesLocked m')"
proof -
  let ?key = "sh_modelKey m" and ?D = "fst (demoteExpiredTokensLocked env now m)" and ?b = "snd (demoteExpiredTokensLocked env now m)"
  obtain m' b' where f: "fold (promoteEntry env now) (sh_blocked m) (?D, ?b) = (m', b')" by fastforce
  note pf = promoteEntry_fold [of env now "sh_blocked m" ?D ?b, unfolded f, simplified]
  have D: "sh_modelKey ?D = ?key" "sh_readyByPriority ?D = sh_readyByPriority m"
    and same: "?b \<or> ?D = m"
  proof -
    let ?f = "\<lambda>(k, e). (k, if demotes env ?key now e then reevaluate env ?key now e else e)"
    have "map ?f (sh_entries m) = sh_entries m" if "\<not> ?b"
      using that by (intro map_idI) (auto simp: demoteExpiredTokensLocked_def list_ex_iff)
    then have "?D = m" if "\<not> ?b" using that by (simp add: demoteExpiredTokensLocked_def)
    then show "?b \<or> ?D = m" by blast
  qed (simp_all add: demoteExpiredTokensLocked_def)
  have p: "promoteExpiredLocked env now m = (if b' then rebuildIndexesLocked m' else m')"
    using f by (simp add: promoteExpiredLocked_def)
  have demoted: "mget (sh_entries ?D) k
      = map_option (\<lambda>e. if demotes env ?key now e then reevaluate env ?key now e else e) (mget (sh_entries m) k)" for k
    by (simp add: demoteExpiredTokensLocked_def mget_def map_of_map)
  have wf: "mwf (sh_entries ?D)"
    using entries_okD(1) [OF assms(1)] by (simp add: demoteExpiredTokensLocked_def mwf_def split_beta' comp_def)
  have dist: "distinct (map (\<lambda>i. i) (sh_blocked m))" using assms(2) by (simp add: indexed_def)
  note acts = acts_at_fold [of "sh_blocked m" "\<lambda>i. i", OF promoteAt_acts dist]
  have m': "sh_entries m' = fold (promoteAt env ?key now) (sh_blocked m) (sh_entries ?D)" "sh_modelKey m' = ?key"
    using pf D by auto
  have member: "k \<in> set (sh_blocked m) \<longleftrightarrow> waiting e" if "mget (sh_entries m) k = Some e" for e
  proof -
    note ok = entries_okD [OF assms(1)]
    have "k \<in> set (sh_blocked m) \<longleftrightarrow> (\<exists>e. (k, e) \<in> set (sh_entries m) \<and> se_id e = k \<and> waiting e)"
      using assms(2) by (auto simp: indexed_def)
    then show ?thesis using that ok(2,3) by auto
  qed
  have "mget (sh_entries m') k = map_option (settle env ?key now) (mget (sh_entries m) k)"
  proof (cases "mget (sh_entries m) k")
    case (Some e)
    have "demotes env ?key now e \<Longrightarrow> \<not> waiting e" by (auto simp: demotes_def)
    then show ?thesis unfolding m'(1) acts(1) using Some member [OF Some]
      by (auto simp: find_same demoted settle_def)
  qed (simp add: m'(1) acts(1) find_same demoted)
  then show "mget (sh_entries (promoteExpiredLocked env now m)) k
      = map_option (settle env (sh_modelKey m) now) (mget (sh_entries m) k)" by (simp add: p)
  show "mwf (sh_entries (promoteExpiredLocked env now m))" using acts(2) [OF wf] m'(1) by (simp add: p)
  show "sh_modelKey (promoteExpiredLocked env now m) = sh_modelKey m" using m'(2) by (simp add: p)
  show "promoteExpiredLocked env now m = m \<or> (\<exists>m'. promoteExpiredLocked env now m = rebuildIndexesLocked m')"
    using p pf same by (cases b') auto
qed

lemma promote_shard:
  assumes "shard_inv env t m" and "t \<le> now"
  shows "shard_inv env now (promoteExpiredLocked env now m)" and "current env now (promoteExpiredLocked env now m)"
proof -
  have m: "entries_ok env t m" "indexed m" using assms(1) by (simp_all add: shard_inv_def)
  let ?p = "promoteExpiredLocked env now m"
  note pe = promote_entries [OF m, of now]
  have e: "entry_ok env (sh_modelKey m) t k e" if "mget (sh_entries m) k = Some e" for k e
    using m(1) that by (simp add: entries_ok_def)
  have ok: "entries_ok env now ?p"
    using pe(2) settle_ok(1) [OF e assms(2)] by (auto simp: entries_ok_def pe(1,3))
  have "indexed ?p" using pe(4)
  proof
    assume "\<exists>m'. ?p = rebuildIndexesLocked m'"
    then obtain m' where m': "?p = rebuildIndexesLocked m'" ..
    then have "entries_ok env now m'" using ok by (simp add: entries_ok_def)
    then show ?thesis using rebuild_indexed m' by simp
  qed (use m(2) in simp)
  then show "shard_inv env now ?p" using ok by (simp add: shard_inv_def)
  show "current env now ?p"
    using settle_ok(2) [OF e assms(2)] by (auto simp: current_def pe(1,3))
qed

lemma promote_entry_iff:
  assumes "shard_inv env t m"
  shows "map_option se_meta (mget (sh_entries (promoteExpiredLocked env now m)) k) = map_option se_meta (mget (sh_entries m) k)"
    and "sh_modelKey (promoteExpiredLocked env now m) = sh_modelKey m"
  using promote_entries(1,3) [of env t m now] assms by (simp_all add: shard_inv_def option.map_comp comp_def)

end
