(* ===== verification/SchedulerPick.thy ===== *)
theory SchedulerPick
  imports SchedulerIndex
begin

text \<open>
  Picks from one shard, against the selectors of \<open>selector.go\<close>: the entries of the shard that meet the request,
  filtered before the cursors move, are picked exactly as the corresponding selector picks from the list of their
  credentials.
\<close>

section \<open>Rotation over a filtered ring\<close>

lemma search_sorted:
  assumes "sorted ids"
  shows "sort_Search (length ids) (\<lambda>i. ids ! i > x) = length (filter (\<lambda>y. y \<le> x) ids)"
proof -
  let ?f = "\<lambda>i. ids ! i > x" and ?n = "length (filter (\<lambda>y. y \<le> x) ids)"
  have f: "?f i \<longleftrightarrow> ?n \<le> i" if "i < length ids" for i
    using that assms
  proof (induction ids arbitrary: i)
    case (Cons y ids)
    show ?case
    proof (cases "y \<le> x")
      case True
      then show ?thesis using Cons by (cases i) auto
    next
      case False
      then have "\<forall>z \<in> set (y # ids). x < z" using Cons.prems(2) by auto
      then have "filter (\<lambda>z. z \<le> x) (y # ids) = []" "x < (y # ids) ! i"
        using Cons.prems(1) nth_mem [of i "y # ids"] by (auto simp: filter_empty_conv not_le)
      then show ?thesis by simp
    qed
  qed simp
  have r: "sort_Search (length ids) ?f \<le> length ids" "\<forall>k < sort_Search (length ids) ?f. \<not> ?f k"
    "sort_Search (length ids) ?f < length ids \<longrightarrow> ?f (sort_Search (length ids) ?f)"
    using sort_Search_least [of "length ids" ?f] f by auto
  have n: "?n \<le> length ids" by simp
  show ?thesis
  proof (rule linorder_cases [of "sort_Search (length ids) ?f" ?n])
    assume "sort_Search (length ids) ?f < ?n"
    then show ?thesis using r(3) f [of "sort_Search (length ids) ?f"] n by simp
  next
    assume "?n < sort_Search (length ids) ?f"
    then show ?thesis using r(1,2) f [of ?n] by (meson le_refl less_le_trans)
  qed
qed

definition ring_start :: "('a \<Rightarrow> string) \<Rightarrow> 'a list \<Rightarrow> string \<Rightarrow> nat" where
  \<comment> \<open>the index after the last picked one, in a ring sorted by ID\<close>
  "ring_start ident xs lastID =
     (let i = length (filter (\<lambda>x. ident x \<le> lastID) xs) in if lastID = [] \<or> i \<ge> length xs then 0 else i)"

lemma search_ring:
  assumes "sorted (map ident xs)"
  shows "(if lastID = [] then 0
     else (let index = sort_Search (length xs) (\<lambda>i. ident (xs ! i) > lastID) in if index \<ge> length xs then 0 else index))
     = ring_start ident xs lastID"
proof -
  have "search_between i j (\<lambda>i. ident (xs ! i) > lastID) = search_between i j (\<lambda>k. map ident xs ! k > lastID)"
    if "j \<le> length xs" for i j
    using that
  proof (induction i j "\<lambda>i. ident (xs ! i) > lastID" rule: search_between.induct)
    case (1 i j)
    then show ?case
      by (simp add: search_between.simps [of i j] Let_def)
  qed
  then have "sort_Search (length xs) (\<lambda>i. ident (xs ! i) > lastID) = length (filter (\<lambda>y. y \<le> lastID) (map ident xs))"
    using search_sorted [OF assms, of lastID] by (simp add: sort_Search_def)
  then show ?thesis by (simp add: ring_start_def Let_def filter_map comp_def)
qed

lemma scheduledSuccessorIndex_ring:
  "sorted (map se_id xs) \<Longrightarrow> scheduledSuccessorIndex xs lastID = ring_start se_id xs lastID"
  using search_ring [of se_id xs lastID] by (simp add: scheduledSuccessorIndex_def)

lemma successorIndex_ring: "sorted (map au_ID xs) \<Longrightarrow> successorIndex xs lastID = ring_start au_ID xs lastID"
  using search_ring [of au_ID xs lastID] by (simp add: successorIndex_def)

lemma ring_start_less: "xs \<noteq> [] \<Longrightarrow> ring_start ident xs lastID < length xs"
  by (simp add: ring_start_def Let_def)

lemma find_filter: "find P xs = (case filter P xs of [] \<Rightarrow> None | y # _ \<Rightarrow> Some y)"
  by (induction xs) auto

lemma filter_split:
  assumes "sorted (map ident xs)"
  shows "xs = filter (\<lambda>x. ident x \<le> l) xs @ filter (\<lambda>x. \<not> ident x \<le> l) xs"
  using assms
proof (induction xs)
  case (Cons x xs)
  show ?case
  proof (cases "ident x \<le> l")
    case False
    then have "\<forall>y \<in> set (x # xs). \<not> ident y \<le> l" using Cons.prems by auto
    then have "filter (\<lambda>x. ident x \<le> l) (x # xs) = []" "filter (\<lambda>x. \<not> ident x \<le> l) (x # xs) = x # xs"
      by (auto simp: filter_empty_conv intro: filter_True)
    then show ?thesis by simp
  qed (use Cons in simp)
qed simp

lemma find_ring:
  assumes "sorted (map ident xs)"
  shows "find P (rotate (ring_start ident xs l) xs)
     = (if filter P xs = [] then None else Some (filter P xs ! ring_start ident (filter P xs) l))"
proof -
  define ys zs where "ys = filter (\<lambda>x. ident x \<le> l) xs" and "zs = filter (\<lambda>x. \<not> ident x \<le> l) xs"
  have xs: "xs = ys @ zs" using filter_split [OF assms] by (simp add: ys_def zs_def)
  have P: "filter (\<lambda>x. ident x \<le> l) (filter P xs) = filter P ys" "filter P xs = filter P ys @ filter P zs"
  proof -
    show "filter (\<lambda>x. ident x \<le> l) (filter P xs) = filter P ys" by (simp add: ys_def conj_commute)
    show "filter P xs = filter P ys @ filter P zs" by (subst xs) simp
  qed
  have len: "length xs = length ys + length zs" by (subst xs) simp
  show ?thesis
  proof (cases "l = [] \<or> zs = []")
    case True
    then have "ring_start ident xs l = 0" by (auto simp: ring_start_def Let_def ys_def [symmetric] len)
    moreover have "ring_start ident (filter P xs) l = 0" using True unfolding ring_start_def P(1) by (auto simp: Let_def P(2))
    ultimately show ?thesis by (simp add: find_filter hd_conv_nth split: list.split)
  next
    case False
    then have "ring_start ident xs l = length ys" by (simp add: ring_start_def Let_def ys_def [symmetric] len)
    then have r: "rotate (ring_start ident xs l) xs = zs @ ys" by (subst (2) xs) (simp add: rotate_append)
    have "ring_start ident (filter P xs) l = (if filter P zs = [] then 0 else length (filter P ys))"
      using False unfolding ring_start_def P(1) by (simp add: P(2) Let_def)
    then show ?thesis unfolding r P(2)
      by (cases "filter P zs"; cases "filter P ys") (simp_all add: find_filter)
  qed
qed

lemma find_offsets:
  assumes "i < length xs"
  shows "map_option (\<lambda>k. xs ! ((i + k) mod length xs)) (find (\<lambda>k. P (xs ! ((i + k) mod length xs))) [0..<length xs])
     = find P (rotate i xs)"
proof -
  have r: "rotate i xs = map (\<lambda>k. xs ! ((i + k) mod length xs)) [0..<length xs]"
    by (rule nth_equalityI) (simp_all add: nth_rotate)
  have "find P (map f ks) = map_option f (find (\<lambda>k. P (f k)) ks)" for f and ks :: "nat list" by (induction ks) auto
  then show ?thesis by (simp add: r)
qed

text \<open>So round-robin over the view, skipping what the request cannot use, is round-robin over what it can use.\<close>

lemma pickRoundRobin_filter:
  assumes "sorted (map se_id flat)"
  shows "fst (pickRoundRobin flat P v)
      = (if filter P flat = [] then None else Some (filter P flat ! ring_start se_id (filter P flat) (rv_lastPicked v)))"
    and "snd (pickRoundRobin flat P v)
      = (case fst (pickRoundRobin flat P v) of None \<Rightarrow> v | Some e \<Rightarrow> v\<lparr>rv_lastPicked := se_id e\<rparr>)"
proof -
  let ?i = "ring_start se_id flat (rv_lastPicked v)"
  have start: "scheduledSuccessorIndex flat (rv_lastPicked v) = ?i" using scheduledSuccessorIndex_ring [OF assms] .
  have i: "flat \<noteq> [] \<Longrightarrow> ?i < length flat" by (rule ring_start_less)
  have "fst (pickRoundRobin flat P v)
      = map_option (\<lambda>k. flat ! ((?i + k) mod length flat)) (find (\<lambda>k. P (flat ! ((?i + k) mod length flat))) [0..<length flat])"
    if "flat \<noteq> []" using that by (simp add: pickRoundRobin_def Let_def start split: option.split)
  then have "fst (pickRoundRobin flat P v) = find P (rotate ?i flat)" if "flat \<noteq> []"
    using find_offsets [OF i [OF that], of P] that by simp
  then show "fst (pickRoundRobin flat P v)
      = (if filter P flat = [] then None else Some (filter P flat ! ring_start se_id (filter P flat) (rv_lastPicked v)))"
    unfolding find_ring [OF assms] by (cases "flat = []") (simp_all add: pickRoundRobin_def)
  show "snd (pickRoundRobin flat P v)
      = (case fst (pickRoundRobin flat P v) of None \<Rightarrow> v | Some e \<Rightarrow> v\<lparr>rv_lastPicked := se_id e\<rparr>)"
    by (simp add: pickRoundRobin_def Let_def split: option.split)
qed

section \<open>Weighted picks over a filtered list\<close>

lemma scheduledWeightVector_filter:
  assumes "\<forall>e \<in> set flat. derived (se_meta e)"
  shows "scheduledWeightVectorMatching flat P = authWeightVector (map se_auth (filter P flat))"
proof -
  have "fold (\<lambda>e m. if sm_weight (se_meta e) \<le> 0 then m else if \<not> P e then m else mput (se_id e) (sm_weight (se_meta e)) m) flat acc
      = fold (\<lambda>auth m. if authWeight auth > 0 then mput (au_ID auth) (authWeight auth) m else m) (map se_auth (filter P flat)) acc" for acc
    using assms by (induction flat arbitrary: acc) (auto simp: derived_def not_less)
  then show ?thesis by (simp add: scheduledWeightVectorMatching_def authWeightVector_def)
qed

lemma scheduled_credit_fold:
  assumes "\<forall>e \<in> set flat. derived (se_meta e)"
    and "fold (scheduled_credit P) flat (c, x, pc, t) = (c1, x1, pc1, t1)"
  shows "fold smooth_credit (map se_auth (filter P flat)) (c, map_option se_auth x, pc, t) = (c1, map_option se_auth x1, pc1, t1)"
  using assms
proof (induction flat arbitrary: c x pc t)
  case (Cons e flat)
  obtain c' x' pc' t' where s: "scheduled_credit P e (c, x, pc, t) = (c', x', pc', t')" by (metis prod_cases4)
  have "fold smooth_credit (map se_auth (filter P flat)) (c', map_option se_auth x', pc', t') = (c1, map_option se_auth x1, pc1, t1)"
    using Cons s by simp
  moreover have w: "sm_weight (se_meta e) = authWeight (se_auth e)" using Cons.prems(1) by (simp add: derived_def)
  have "smooth_credit (se_auth e) (c, map_option se_auth x, pc, t) = (c', map_option se_auth x', pc', t')" if "P e"
    using s that by (auto simp: scheduled_credit_def smooth_credit_def Let_def w split: if_splits)
  moreover have "(c', x', pc', t') = (c, x, pc, t)" if "\<not> P e"
    using s that by (auto simp: scheduled_credit_def Let_def split: if_splits)
  ultimately show ?case by (cases "P e") simp_all
qed simp

lemma pickSmoothWeighted_filter:
  assumes "\<forall>e \<in> set flat. derived (se_meta e)"
  shows "map_option se_auth (fst (pickSmoothWeightedScheduled flat c P)) = fst (pickSmoothWeightedAuth (map se_auth (filter P flat)) c)"
    and "snd (pickSmoothWeightedScheduled flat c P) = snd (pickSmoothWeightedAuth (map se_auth (filter P flat)) c)"
proof -
  obtain c1 x1 pc1 t1 where f: "fold (scheduled_credit P) flat (c, None, 0, 0) = (c1, x1, pc1, t1)" by (metis prod_cases4)
  from scheduled_credit_fold [OF assms this]
  show "map_option se_auth (fst (pickSmoothWeightedScheduled flat c P)) = fst (pickSmoothWeightedAuth (map se_auth (filter P flat)) c)"
    "snd (pickSmoothWeightedScheduled flat c P) = snd (pickSmoothWeightedAuth (map se_auth (filter P flat)) c)"
    by (simp_all add: pickSmoothWeightedScheduled_def pickSmoothWeightedAuth_def f split: option.split)
qed

section \<open>Picks from a view\<close>

definition selectorChoice :: "schedulerStrategy \<Rightarrow> Auth list \<Rightarrow> readyView \<Rightarrow> Auth option" where
  \<comment> \<open>the end of the selectors' \<open>Pick\<close>, for non-empty candidates and the cursors of a view\<close>
  "selectorChoice strategy available v =
     (case strategy of
        schedulerStrategyFillFirst \<Rightarrow> Some (hd available)
      | schedulerStrategyWeightedRoundRobin \<Rightarrow>
          fst (pickSmoothWeightedAuth available (sw_current (smooth_prepare (authWeightVector available) (rv_weightedState v))))
      | _ \<Rightarrow> Some (available ! successorIndex available (rv_lastPicked v)))"

lemma smooth_pick_none: "fst (pickSmoothWeightedAuth [] c) = None"
  by (simp add: pickSmoothWeightedAuth_def)

lemma entries_of_flat:
  assumes "entries_ok env now m" and "set xs \<subseteq> snd ` set (sh_entries m)"
  shows "entries_of m (map se_id xs) = xs"
  using assms(2)
proof (induction xs)
  case (Cons e xs)
  then have "(se_id e, e) \<in> set (sh_entries m)" using member_id [OF assms(1)] by auto
  then have "mget (sh_entries m) (se_id e) = Some e" by (simp only: entries_okD(2) [OF assms(1)])
  then show ?case using Cons by (simp add: entries_of_def List.map_filter_simps)
qed (simp add: entries_of_def List.map_filter_simps)

definition view_ok :: "modelScheduler \<Rightarrow> scheduledAuth list \<Rightarrow> readyView \<Rightarrow> bool" where
  \<comment> \<open>the view holds exactly these entries, in this order\<close>
  "view_ok m flat v \<longleftrightarrow> entries_of m (rv_flat v) = flat \<and> sorted (map se_id flat) \<and> (\<forall>e \<in> set flat. derived (se_meta e))"

lemma view_pick:
  assumes "view_ok m flat v"
  shows "map_option se_auth (fst (pickFromView strategy P m v))
     = (if filter P flat = [] then None else selectorChoice strategy (map se_auth (filter P flat)) v)"
proof (cases "filter P flat = []")
  case True
  then show ?thesis
    using assms find_None_iff [of P flat] pickRoundRobin_filter(1) [of flat P v] smooth_pick_none
      pickSmoothWeighted_filter(1) [of flat _ P]
    by (auto simp: pickFromView_def view_ok_def pickFirst_def pickWeighted_def Let_def filter_empty_conv
        split: schedulerStrategy.split prod.splits) (metis fst_conv map_option_is_None)+
next
  case False
  let ?F = "filter P flat"
  have flat: "entries_of m (rv_flat v) = flat" "sorted (map se_id flat)" "\<forall>e \<in> set flat. derived (se_meta e)" "flat \<noteq> []"
    using assms False by (auto simp: view_ok_def)
  have "sorted (map se_id ?F)" using flat(2) by (simp add: sorted_filter)
  then have succ: "successorIndex (map se_auth ?F) l = ring_start se_id ?F l" for l
    by (simp add: successorIndex_ring comp_def) (simp add: ring_start_def Let_def filter_map comp_def)
  have rr: "map_option se_auth (fst (pickRoundRobin flat P v)) = Some (map se_auth ?F ! successorIndex (map se_auth ?F) (rv_lastPicked v))"
    using ring_start_less [OF False] False by (simp add: pickRoundRobin_filter(1) [OF flat(2)] succ)
  have ff: "map_option se_auth (pickFirst flat P) = Some (hd (map se_auth ?F))"
    using False by (cases ?F) (simp_all add: pickFirst_def find_filter)
  have w: "map_option se_auth (fst (pickWeighted flat P v)) = fst (pickSmoothWeightedAuth (map se_auth ?F)
      (sw_current (smooth_prepare (authWeightVector (map se_auth ?F)) (rv_weightedState v))))"
    using pickSmoothWeighted_filter(1) [OF flat(3)]
    by (simp add: pickWeighted_def flat(4) Let_def scheduledWeightVector_filter [OF flat(3)] split: prod.split) (metis fst_conv)
  show ?thesis using False
    by (cases strategy) (simp_all add: pickFromView_def flat(1) Let_def selectorChoice_def rr ff w)
qed

section \<open>The candidates of a shard\<close>

definition candidatesOf :: "(scheduledAuth \<Rightarrow> bool) \<Rightarrow> modelScheduler \<Rightarrow> Auth list" where
  \<comment> \<open>the credentials of the shard that meet the request\<close>
  "candidatesOf P m = map se_auth (filter P (map snd (sh_entries m)))"

definition websocketPool :: "Env \<Rightarrow> string \<Rightarrow> time \<Rightarrow> bool \<Rightarrow> Auth list \<Rightarrow> Auth list" where
  \<comment> \<open>a downstream websocket restricts the pick to the credentials with websockets, as long as one of them is free\<close>
  "websocketPool env modelKey now preferWebsocket C =
     (if preferWebsocket \<and> (\<exists>a \<in> set C. authWebsocketsEnabled a \<and> \<not> blocked env modelKey now a)
      then filter authWebsocketsEnabled C else C)"

lemma sorted_ids_unique:
  assumes "sorted (map ident xs)" and "sorted (map ident ys)" and "mset xs = mset ys" and "distinct (map ident xs)"
  shows "xs = ys"
proof -
  have "inj_on ident (set xs)" using assms(4) by (simp add: distinct_map)
  moreover have "set ys = set xs" using mset_eq_setD [OF assms(3)] by simp
  moreover have "map ident xs = map ident ys"
    using properties_for_sort [OF _ assms(2), of "map ident xs"] assms(1,3) by (simp add: sorted_sort_id)
  ultimately show ?thesis by (metis map_inj_on sup.idem)
qed

text \<open>The result of \<open>getAvailableAuths\<close> is the sorted list of the free candidates of the best priority.\<close>

lemma getAvailableAuths_unique:
  assumes L: "getAvailableAuths env C provider model now = Inr L" and dist: "distinct (map au_ID C)"
    and M: "sorted (map au_ID M)" "distinct (map au_ID M)" "M \<noteq> []"
      "set M = {a \<in> set C. \<not> blocked env model now a \<and> authPriority a = p}"
    and best: "\<forall>b \<in> set C. \<not> blocked env model now b \<longrightarrow> authPriority b \<le> p"
  shows "L = M"
proof -
  obtain q where q: "mset L = mset (filter (\<lambda>a. \<not> blocked env model now a \<and> authPriority a = q) C)"
    "\<forall>b \<in> set C. \<not> blocked env model now b \<longrightarrow> authPriority b \<le> q"
    using getAvailableAuths_Inr(3) [OF L] by blast
  obtain a b where "a \<in> set M" "b \<in> set L" using M(3) getAvailableAuths_Inr(1) [OF L] by (meson list.set_sel(1))
  moreover have "set L = {a \<in> set C. \<not> blocked env model now a \<and> authPriority a = q}"
    using mset_eq_setD [OF q(1)] by auto
  ultimately have "q = p" using M(4) q(2) best by (force intro: antisym)
  then have "set L = set M" using \<open>set L = _\<close> M(4) by simp
  moreover have "distinct (map au_ID L)"
  proof -
    have "distinct (map au_ID (filter (\<lambda>a. \<not> blocked env model now a \<and> authPriority a = q) C))"
      using dist by (rule distinct_map_filter)
    then show ?thesis using q(1) by (metis mset_eq_imp_distinct_iff mset_map)
  qed
  ultimately have "mset L = mset M" using M(2) by (simp add: set_eq_iff_mset_eq_distinct distinct_map)
  with \<open>distinct (map au_ID L)\<close> show ?thesis
    using sorted_ids_unique [of au_ID L M] getAvailableAuths_Inr(2) [OF L] M(1) by simp
qed

lemma getAvailableAuths_free:
  assumes "a \<in> set C" and "\<not> blocked env model now a"
  obtains L where "getAvailableAuths env C provider model now = Inr L"
  using getAvailableAuths_Inl [of env C provider model now] assms
  by (cases "getAvailableAuths env C provider model now") auto

section \<open>The pick of a shard is the pick of the selector\<close>

lemma find_best:
  assumes "sorted_wrt (>) ps"
  shows "find Q ps = Some p \<longleftrightarrow> p \<in> set ps \<and> Q p \<and> (\<forall>q \<in> set ps. Q q \<longrightarrow> q \<le> (p :: int))"
  using assms
proof (induction ps)
  case (Cons x ps)
  then show ?case by (cases "Q x") (auto intro: antisym dest: less_imp_le)
qed simp

definition usable :: "bool \<Rightarrow> (scheduledAuth \<Rightarrow> bool) \<Rightarrow> int \<Rightarrow> modelScheduler \<Rightarrow> scheduledAuth list" where
  "usable preferWebsocket P p m =
     filter P (if preferWebsocket \<and> filter P (wsEntries (readyAt m p)) \<noteq> [] then wsEntries (readyAt m p) else readyAt m p)"

lemma views:
  assumes "shard_inv env now m" and "mget (sh_readyByPriority m) p = Some b"
  shows "view_ok m (readyAt m p) (rb_all b)" and "view_ok m (wsEntries (readyAt m p)) (rb_ws b)"
    and "viewFirst m P (rb_ws b) \<noteq> None \<longleftrightarrow> filter P (wsEntries (readyAt m p)) \<noteq> []"
    and "viewFirst m P (rb_all b) \<noteq> None \<longleftrightarrow> filter P (readyAt m p) \<noteq> []"
proof -
  have ok: "entries_ok env now m" and ix: "rv_flat (rb_all b) = map se_id (readyAt m p)"
      "rv_flat (rb_ws b) = map se_id (wsEntries (readyAt m p))"
    using assms indexedD(2,3) by (simp_all add: shard_inv_def)
  have sub: "set (readyAt m p) \<subseteq> snd ` set (sh_entries m)" "set (wsEntries (readyAt m p)) \<subseteq> snd ` set (sh_entries m)"
    by (auto simp: readyAt_def wsEntries_def)
  have der: "derived (se_meta e)" if "e \<in> snd ` set (sh_entries m)" for e
    using that member_id [OF ok] entries_okD(2,4) [OF ok] by blast
  show "view_ok m (readyAt m p) (rb_all b)" "view_ok m (wsEntries (readyAt m p)) (rb_ws b)"
    using sub der readyAt_sorted [of m p] entries_of_flat [OF ok]
    by (auto simp: view_ok_def ix wsEntries_def sorted_filter) (metis sorted_filter)?
  then show "viewFirst m P (rb_ws b) \<noteq> None \<longleftrightarrow> filter P (wsEntries (readyAt m p)) \<noteq> []"
    "viewFirst m P (rb_all b) \<noteq> None \<longleftrightarrow> filter P (readyAt m p) \<noteq> []"
    by (auto simp: viewFirst_def pickFirst_def view_ok_def find_None_iff filter_empty_conv)
qed

definition chosenView :: "bool \<Rightarrow> (scheduledAuth \<Rightarrow> bool) \<Rightarrow> modelScheduler \<Rightarrow> int \<Rightarrow> readyView" where
  \<comment> \<open>the view whose cursors the pick at a priority advances\<close>
  "chosenView preferWebsocket P m p =
     (case mget (sh_readyByPriority m) p of
        None \<Rightarrow> buildReadyView []
      | Some b \<Rightarrow> if preferWebsocket \<and> viewFirst m P (rb_ws b) \<noteq> None then rb_ws b else rb_all b)"

lemma priority_pick:
  assumes "shard_inv env now m"
  shows "map_option se_auth (fst (pickReadyAtPriorityLocked preferWebsocket p strategy P m))
     = (if usable preferWebsocket P p m = [] then None
        else selectorChoice strategy (map se_auth (usable preferWebsocket P p m)) (chosenView preferWebsocket P m p))"
proof (cases "mget (sh_readyByPriority m) p")
  case None
  then have "readyAt m p = []" using assms indexedD(1) by (simp add: shard_inv_def)
  then show ?thesis using None by (simp add: pickReadyAtPriorityLocked_def usable_def wsEntries_def)
next
  case (Some b)
  note v = views [OF assms Some]
  obtain a va w vw where picks: "pickFromView strategy P m (rb_all b) = (a, va)" "pickFromView strategy P m (rb_ws b) = (w, vw)"
    by fastforce
  show ?thesis
    using view_pick [OF v(1), of strategy P] view_pick [OF v(2), of strategy P] Some v(3) [of P]
    by (auto simp: pickReadyAtPriorityLocked_def usable_def chosenView_def picks)
qed

lemma hasReady_iff:
  assumes "shard_inv env now m"
  shows "hasReady m P rb_all p \<longleftrightarrow> filter P (readyAt m p) \<noteq> []"
    and "hasReady m P rb_ws p \<longleftrightarrow> filter P (wsEntries (readyAt m p)) \<noteq> []"
proof -
  have none: "mget (sh_readyByPriority m) p = None \<Longrightarrow> readyAt m p = []"
    using assms indexedD(1) by (simp add: shard_inv_def)
  show "hasReady m P rb_all p \<longleftrightarrow> filter P (readyAt m p) \<noteq> []"
    "hasReady m P rb_ws p \<longleftrightarrow> filter P (wsEntries (readyAt m p)) \<noteq> []"
    using none views(3,4) [OF assms]
    by (cases "mget (sh_readyByPriority m) p"; simp add: hasReady_def wsEntries_def)+
qed

text \<open>The ready entries are the free candidates.\<close>

lemma ready_set:
  assumes "shard_inv env now m" and "current env now m"
  shows "se_auth ` set (filter P (readyAt m p))
      = {a \<in> set (candidatesOf P m). \<not> blocked env (sh_modelKey m) now a \<and> authPriority a = p}"
    and "se_auth ` set (filter P (wsEntries (readyAt m p)))
      = {a \<in> set (filter authWebsocketsEnabled (candidatesOf P m)). \<not> blocked env (sh_modelKey m) now a \<and> authPriority a = p}"
    and "distinct (map au_ID (candidatesOf P m))"
    and "distinct (map se_id (readyAt m p))"
proof -
  have ok: "entries_ok env now m" using assms(1) by (simp add: shard_inv_def)
  have e: "derived (se_meta e) \<and> (se_state e = scheduledStateReady \<longleftrightarrow> \<not> blocked env (sh_modelKey m) now (se_auth e))"
    if "e \<in> snd ` set (sh_entries m)" for e
    using that member_id [OF ok] entries_okD(2,4) [OF ok] assms(2) unfolding current_def by blast
  let ?E = "snd ` set (sh_entries m)"
  have image: "se_auth ` {e \<in> ?E. P e \<and> R e} = {a \<in> se_auth ` {e \<in> ?E. P e}. Q a}"
    if "\<And>e. e \<in> ?E \<Longrightarrow> R e \<longleftrightarrow> Q (se_auth e)" for R Q using that by blast
  have C: "set (candidatesOf P m) = se_auth ` {e \<in> ?E. P e}" by (auto simp: candidatesOf_def)
  have "set (filter P (readyAt m p)) = {e \<in> ?E. P e \<and> se_state e = scheduledStateReady \<and> sm_priority (se_meta e) = p}"
    by (auto simp: readyAt_members)
  then show "se_auth ` set (filter P (readyAt m p))
      = {a \<in> set (candidatesOf P m). \<not> blocked env (sh_modelKey m) now a \<and> authPriority a = p}"
    unfolding C by (simp only:) (rule image, use e in \<open>simp add: derived_def\<close>)
  have "set (filter P (wsEntries (readyAt m p)))
      = {e \<in> ?E. P e \<and> sm_websocketEnabled (se_meta e) \<and> se_state e = scheduledStateReady \<and> sm_priority (se_meta e) = p}"
    by (auto simp: readyAt_members wsEntries_def)
  then have "se_auth ` set (filter P (wsEntries (readyAt m p)))
      = {a \<in> set (candidatesOf P m). authWebsocketsEnabled a \<and> \<not> blocked env (sh_modelKey m) now a \<and> authPriority a = p}"
    unfolding C by (simp only:) (rule image, use e in \<open>simp add: derived_def\<close>)
  then show "se_auth ` set (filter P (wsEntries (readyAt m p)))
      = {a \<in> set (filter authWebsocketsEnabled (candidatesOf P m)). \<not> blocked env (sh_modelKey m) now a \<and> authPriority a = p}"
    by simp
  have i: "distinct (map se_id (filter Q (map snd (sh_entries m))))" for Q
    using ids_distinct [OF ok] by (rule distinct_map_filter)
  show "distinct (map au_ID (candidatesOf P m))" using i by (simp add: candidatesOf_def comp_def)
  show "distinct (map se_id (readyAt m p))" unfolding ready_ids using i by simp
qed

lemma highest_priority:
  fixes P preferWebsocket
  assumes "shard_inv env now m" and "current env now m"
  defines "pool \<equiv> websocketPool env (sh_modelKey m) now preferWebsocket (candidatesOf P m)"
  shows "case highestReadyPriorityLocked preferWebsocket P m of
      None \<Rightarrow> \<forall>a \<in> set pool. blocked env (sh_modelKey m) now a
    | Some p \<Rightarrow> se_auth ` set (usable preferWebsocket P p m) = {a \<in> set pool. \<not> blocked env (sh_modelKey m) now a \<and> authPriority a = p}
        \<and> usable preferWebsocket P p m \<noteq> []
        \<and> (\<forall>b \<in> set pool. \<not> blocked env (sh_modelKey m) now b \<longrightarrow> authPriority b \<le> p)"
proof -
  note rs = ready_set(1,2) [OF assms(1,2), where P = P]
  have order: "sorted_wrt (>) (sh_priorityOrder m)" and ps: "p \<in> set (sh_priorityOrder m) \<longleftrightarrow> readyAt m p \<noteq> []" for p
    using assms(1) indexedD(4,5) by (simp_all add: shard_inv_def readyPriorities_iff)
  define free where "free = (\<lambda>a. \<not> blocked env (sh_modelKey m) now a)"
  have all: "hasReady m P rb_all p \<longleftrightarrow> (\<exists>a \<in> set (candidatesOf P m). free a \<and> authPriority a = p)" for p
    unfolding hasReady_iff [OF assms(1)] free_def using rs(1) [of p] by (cases "filter P (readyAt m p)") auto
  have ws: "hasReady m P rb_ws p \<longleftrightarrow> (\<exists>a \<in> set (filter authWebsocketsEnabled (candidatesOf P m)). free a \<and> authPriority a = p)" for p
    unfolding hasReady_iff [OF assms(1)] free_def using rs(2) [of p] by (cases "filter P (wsEntries (readyAt m p))") auto
  have inorder: "hasReady m P view p \<Longrightarrow> view = rb_all \<or> view = rb_ws \<Longrightarrow> p \<in> set (sh_priorityOrder m)" for view p
    using hasReady_iff [OF assms(1)] by (auto simp: ps wsEntries_def)
  define W where "W \<longleftrightarrow> preferWebsocket \<and> (\<exists>a \<in> set (candidatesOf P m). authWebsocketsEnabled a \<and> free a)"
  define view :: "readyBucket \<Rightarrow> readyView" where "view = (if W then rb_ws else rb_all)"
  have inorder: "hasReady m P view p \<Longrightarrow> p \<in> set (sh_priorityOrder m)" for p
    using inorder by (simp add: view_def split: if_splits)
  have pool: "pool = (if W then filter authWebsocketsEnabled (candidatesOf P m) else candidatesOf P m)"
    by (simp add: pool_def websocketPool_def W_def free_def)
  have free: "se_auth ` set (filter P (readyAt m p)) = {a \<in> set (candidatesOf P m). free a \<and> authPriority a = p}"
    "se_auth ` set (filter P (wsEntries (readyAt m p)))
      = {a \<in> set (filter authWebsocketsEnabled (candidatesOf P m)). free a \<and> authPriority a = p}" for p
    using rs [of p] by (simp_all add: free_def)
  have ready: "hasReady m P view p \<longleftrightarrow> (\<exists>a \<in> set pool. free a \<and> authPriority a = p)" for p
    using all [of p] ws [of p] by (cases W) (auto simp: pool view_def)
  have noWs: "preferWebsocket \<Longrightarrow> \<not> W \<Longrightarrow> \<not> hasReady m P rb_ws p" for p using ws by (auto simp: W_def)
  have high: "highestReadyPriorityLocked preferWebsocket P m = find (hasReady m P view) (sh_priorityOrder m)"
  proof (cases W)
    case True
    then obtain a where a: "a \<in> set (filter authWebsocketsEnabled (candidatesOf P m))" "free a" by (auto simp: W_def)
    then have "hasReady m P rb_ws (authPriority a)" unfolding ws by blast
    then have "hasReady m P view (authPriority a)" using True by (simp add: view_def)
    then have "find (hasReady m P view) (sh_priorityOrder m) \<noteq> None"
      using inorder by (auto simp: find_None_iff)
    then show ?thesis unfolding view_def if_P [OF True] highestReadyPriorityLocked_def using True by (auto simp: W_def)
  next
    case False
    then have "preferWebsocket \<Longrightarrow> find (hasReady m P rb_ws) (sh_priorityOrder m) = None"
      using noWs by (simp add: find_None_iff)
    then show ?thesis unfolding view_def if_not_P [OF False] highestReadyPriorityLocked_def by (cases preferWebsocket) simp_all
  qed
  show ?thesis
  proof (cases "find (hasReady m P view) (sh_priorityOrder m)")
    case None
    then have "\<not> hasReady m P view p" for p using inorder [of p] by (auto simp: find_None_iff)
    then have "\<forall>a \<in> set pool. \<not> free a" using ready by blast
    then show ?thesis by (simp add: high None free_def)
  next
    case (Some p)
    then have p: "hasReady m P view p" "\<forall>q. hasReady m P view q \<longrightarrow> q \<le> p"
      using find_best [OF order, of "hasReady m P view" p] inorder by auto
    have u: "usable preferWebsocket P p m = filter P (if W then wsEntries (readyAt m p) else readyAt m p)"
      using p(1) noWs [of p] hasReady_iff(2) [OF assms(1), of P p] by (auto simp: usable_def view_def W_def split: if_splits)
    have "se_auth ` set (usable preferWebsocket P p m) = {a \<in> set pool. free a \<and> authPriority a = p}"
      unfolding u pool using free [of p] by (cases W) simp_all
    moreover have "\<forall>b \<in> set pool. free b \<longrightarrow> authPriority b \<le> p" using p(2) ready by blast
    moreover have "usable preferWebsocket P p m \<noteq> []"
      using calculation(1) p(1) ready [of p] by auto
    ultimately show ?thesis by (simp add: high Some free_def)
  qed
qed

lemma usable_sorted:
  assumes "shard_inv env now m" and "current env now m"
  shows "sorted (map au_ID (map se_auth (usable preferWebsocket P p m)))"
    and "distinct (map au_ID (map se_auth (usable preferWebsocket P p m)))"
proof -
  have "sorted (map se_id (readyAt m p))" "distinct (map se_id (readyAt m p))"
    using readyAt_sorted ready_set(4) [OF assms] by auto
  then show "sorted (map au_ID (map se_auth (usable preferWebsocket P p m)))"
    "distinct (map au_ID (map se_auth (usable preferWebsocket P p m)))"
    by (simp_all add: usable_def wsEntries_def sorted_filter distinct_map_filter comp_def)
qed

lemma shard_pick:
  fixes preferWebsocket P
  assumes "shard_inv env now m" and "current env now m"
  defines "pool \<equiv> websocketPool env (sh_modelKey m) now preferWebsocket (candidatesOf P m)"
  shows "case getAvailableAuths env pool provider (sh_modelKey m) now of
      Inl e \<Rightarrow> highestReadyPriorityLocked preferWebsocket P m = None
    | Inr L \<Rightarrow> \<exists>p. highestReadyPriorityLocked preferWebsocket P m = Some p
        \<and> map_option se_auth (fst (pickReadyAtPriorityLocked preferWebsocket p strategy P m))
            = selectorChoice strategy L (chosenView preferWebsocket P m p)"
proof (cases "highestReadyPriorityLocked preferWebsocket P m")
  case None
  then have "\<forall>a \<in> set pool. blocked env (sh_modelKey m) now a"
    using highest_priority [OF assms(1,2), of preferWebsocket P] by (simp add: pool_def)
  moreover have "\<exists>a \<in> set pool. \<not> blocked env (sh_modelKey m) now a"
    if L: "getAvailableAuths env pool provider (sh_modelKey m) now = Inr L" for L
  proof -
    obtain q where q: "mset L = mset (filter (\<lambda>a. \<not> blocked env (sh_modelKey m) now a \<and> authPriority a = q) pool)"
      using getAvailableAuths_Inr(3) [OF L] by blast
    obtain a where "a \<in> set L" using getAvailableAuths_Inr(1) [OF L] by (cases L) auto
    then show ?thesis using mset_eq_setD [OF q] by auto
  qed
  ultimately show ?thesis using None by (auto split: sum.split)
next
  case (Some p)
  let ?U = "usable preferWebsocket P p m"
  note h = highest_priority [OF assms(1,2), of preferWebsocket P, folded pool_def, unfolded Some option.case]
  obtain e where "e \<in> set ?U" using h by (cases ?U) auto
  then have e: "se_auth e \<in> set pool" "\<not> blocked env (sh_modelKey m) now (se_auth e)" using h by blast+
  obtain L where L: "getAvailableAuths env pool provider (sh_modelKey m) now = Inr L"
    using getAvailableAuths_free [OF e] .
  have dist: "distinct (map au_ID pool)"
    using ready_set(3) [OF assms(1,2), of P] by (simp add: pool_def websocketPool_def distinct_map_filter)
  have "L = map se_auth ?U"
    using usable_sorted [OF assms(1,2), of preferWebsocket P p] h
    by (intro getAvailableAuths_unique [OF L dist, where p = p]) auto
  then show ?thesis using Some h by (simp add: L priority_pick [OF assms(1)])
qed

text \<open>The credentials of the shard do not change when it is promoted, so the whole pick is the selector's.\<close>

lemma promote_candidates:
  assumes "shard_inv env t m"
  shows "set (candidatesOf (\<lambda>e. Q (se_meta e)) (promoteExpiredLocked env now m)) = set (candidatesOf (\<lambda>e. Q (se_meta e)) m)"
proof -
  have m: "entries_ok env t m" "indexed m" using assms by (simp_all add: shard_inv_def)
  have C: "set (candidatesOf (\<lambda>e. Q (se_meta e)) x)
      = {a. \<exists>k meta. map_option se_meta (mget (sh_entries x) k) = Some meta \<and> Q meta \<and> a = sm_auth meta}"
    if "mwf (sh_entries x)" for x
  proof -
    have "e \<in> snd ` set (sh_entries x) \<longleftrightarrow> (\<exists>k. mget (sh_entries x) k = Some e)" for e
      using that by (force simp: mget_iff_in)
    then show ?thesis by (fastforce simp: candidatesOf_def)
  qed
  show ?thesis
    unfolding C [OF entries_okD(1) [OF m(1)]] C [OF promote_entries(2) [OF m]] promote_entry_iff(1) [OF assms] ..
qed

end
