(* ===== verification/SchedulerInv.thy ===== *)
theory SchedulerInv
  imports Scheduler SchedulerPick
begin

text \<open>
  The invariants of the scheduler: every shard of a provider holds exactly the provider's credentials that support
  its model, with up to date indexes, and a credential is held by one provider and carries the epoch and the
  generation that the scheduler has recorded for it. Every operation keeps them.
\<close>

section \<open>A provider and its shards\<close>

definition served :: "(string, scheduledAuthMeta) gomap \<Rightarrow> string \<Rightarrow> string \<Rightarrow> scheduledAuthMeta option" where
  \<comment> \<open>what the shard of a model holds of the credentials\<close>
  "served auths modelKey k =
     (case mget auths k of None \<Rightarrow> None | Some meta \<Rightarrow> if supportsModel modelKey meta then Some meta else None)"

definition shard_ok :: "Env \<Rightarrow> time \<Rightarrow> (string, scheduledAuthMeta) gomap \<Rightarrow> string \<Rightarrow> modelScheduler \<Rightarrow> bool" where
  "shard_ok env now auths modelKey m \<longleftrightarrow> sh_modelKey m = modelKey \<and> shard_inv env now m
     \<and> (\<forall>k. map_option se_meta (mget (sh_entries m) k) = served auths modelKey k)"

definition auths_ok :: "string \<Rightarrow> (string, scheduledAuthMeta) gomap \<Rightarrow> bool" where
  "auths_ok pk auths \<longleftrightarrow> mwf auths \<and> (\<forall>k meta. mget auths k = Some meta \<longrightarrow>
     k = au_ID (sm_auth meta) \<and> k \<noteq> [] \<and> derived meta \<and> sm_providerKey meta = pk)"

definition provider_inv :: "Env \<Rightarrow> time \<Rightarrow> string \<Rightarrow> providerScheduler \<Rightarrow> bool" where
  "provider_inv env now pk p \<longleftrightarrow> auths_ok pk (ps_auths p) \<and> mwf (ps_modelShards p)
     \<and> (\<forall>key m. mget (ps_modelShards p) key = Some m \<longrightarrow> shard_ok env now (ps_auths p) key m)"

lemma provider_inv_mono: "provider_inv env t pk p \<Longrightarrow> t \<le> t' \<Longrightarrow> provider_inv env t' pk p"
  unfolding provider_inv_def shard_ok_def using shard_inv_mono by blast

lemma mget_map_values: "mget (map (\<lambda>(k, v). (k, f k v)) m) l = map_option (f l) (mget m l)"
  by (induction m) (auto simp: mget_def)

lemma mwf_map_values: "mwf (map (\<lambda>(k, v). (k, f k v)) m) = mwf m"
  by (simp add: mwf_def split_beta' comp_def)

lemma upsert_shard_ok:
  assumes "shard_ok env now auths key m" and "derived meta" and "0 \<le> now" and "au_ID (sm_auth meta) \<noteq> []"
  shows "\<not> supportsModel key meta \<Longrightarrow>
      shard_ok env now (mput (au_ID (sm_auth meta)) meta auths) key (removeEntryLocked (au_ID (sm_auth meta)) m)"
    and "supportsModel key meta \<Longrightarrow>
      shard_ok env now (mput (au_ID (sm_auth meta)) meta auths) key (upsertEntryLocked env meta now m)"
proof -
  have "se_meta (entry_for env key now meta) = meta" by (simp add: entry_for_def split: prod.splits)
  then show "\<not> supportsModel key meta \<Longrightarrow>
      shard_ok env now (mput (au_ID (sm_auth meta)) meta auths) key (removeEntryLocked (au_ID (sm_auth meta)) m)"
    "supportsModel key meta \<Longrightarrow>
      shard_ok env now (mput (au_ID (sm_auth meta)) meta auths) key (upsertEntryLocked env meta now m)"
    using assms by (auto simp: shard_ok_def served_def go_map inv_intro)
qed

lemma provider_upsert [inv_intro]:
  assumes "provider_inv env now pk p" and "derived meta" and "0 \<le> now" and "au_ID (sm_auth meta) \<noteq> []" and "sm_providerKey meta = pk"
  shows "provider_inv env now pk (provider_upsertAuthLocked env meta now p)"
proof -
  let ?p = "provider_upsertAuthLocked env meta now p"
  have "shard_ok env now (ps_auths ?p) key m'" if m': "mget (ps_modelShards ?p) key = Some m'" for key m'
  proof -
    obtain m where m: "mget (ps_modelShards p) key = Some m"
      "m' = (if \<not> supportsModel key meta then removeEntryLocked (au_ID (sm_auth meta)) m else upsertEntryLocked env meta now m)"
      using m' by (auto simp: provider_upsertAuthLocked_def mget_map_values)
    have "shard_ok env now (ps_auths p) key m" using assms(1) m(1) by (simp add: provider_inv_def)
    then show ?thesis using upsert_shard_ok [OF _ assms(2-4)]
      by (cases "supportsModel key meta") (simp_all add: m(2) provider_upsertAuthLocked_def)
  qed
  then show ?thesis using assms
    by (auto simp: provider_inv_def provider_upsertAuthLocked_def mwf_map_values auths_ok_def go_map inv_intro)
qed

lemma provider_remove [inv_intro]:
  assumes "provider_inv env now pk p"
  shows "provider_inv env now pk (provider_removeAuthLocked authID p)"
proof (cases "authID = []")
  case False
  have "shard_ok env now (mdel authID (ps_auths p)) key (removeEntryLocked authID m)"
    if "shard_ok env now (ps_auths p) key m" for key m
    using that False by (auto simp: shard_ok_def served_def go_map inv_intro)
  then show ?thesis using assms
    by (auto simp: provider_inv_def provider_removeAuthLocked_def mget_map_values mwf_map_values auths_ok_def go_map inv_intro)
qed (use assms in \<open>simp add: provider_removeAuthLocked_def\<close>)

text \<open>A fresh shard is filled with the credentials that support the model, evaluated now.\<close>

lemma fill_shard:
  assumes "mwf auths" and "\<forall>k meta. mget auths k = Some meta \<longrightarrow> k = au_ID (sm_auth meta) \<and> derived meta"
    and "shard_inv env now m" and "0 \<le> now"
  defines "m' \<equiv> fold (\<lambda>(_, meta) shard. if \<not> supportsModel (sh_modelKey m) meta then shard else upsertEntryLocked env meta now shard) auths m"
  shows "shard_inv env now m' \<and> sh_modelKey m' = sh_modelKey m
    \<and> (\<forall>k. mget (sh_entries m') k = (case served auths (sh_modelKey m) k of
           Some meta \<Rightarrow> Some (entry_for env (sh_modelKey m) now meta) | None \<Rightarrow> mget (sh_entries m) k))"
  using assms(1-3) unfolding m'_def
proof (induction auths arbitrary: m)
  case Nil
  then show ?case by (simp add: served_def)
next
  case (Cons e auths)
  obtain k meta where e: "e = (k, meta)" by fastforce
  have k: "k = au_ID (sm_auth meta)" "derived meta" "mget auths k = None" "mwf auths"
    using Cons.prems(1) spec [OF spec [OF Cons.prems(2), of k], of meta] by (auto simp: e)
  have rest: "\<forall>k meta. mget auths k = Some meta \<longrightarrow> k = au_ID (sm_auth meta) \<and> derived meta"
    using Cons.prems(2) k(3) unfolding e mget_Cons by (metis option.distinct(1))
  define n where "n = (if \<not> supportsModel (sh_modelKey m) meta then m else upsertEntryLocked env meta now m)"
  have n: "shard_inv env now n" "sh_modelKey n = sh_modelKey m"
    using Cons.prems(3) k(2) assms(4) by (simp_all add: n_def inv_intro)
  have "mget (sh_entries n) l = (if l = k \<and> supportsModel (sh_modelKey m) meta
      then Some (entry_for env (sh_modelKey m) now meta) else mget (sh_entries m) l)" for l
    by (simp add: n_def go_map k(1))
  then show ?case using Cons.IH [OF k(4) rest n(1)] k(3)
    by (auto simp: e n(2) n_def [symmetric] served_def split: option.splits)
qed

lemma ensureModel:
  fixes modelKey
  assumes "provider_inv env t pk p" and "t \<le> now" and "0 \<le> now"
  defines "key \<equiv> canonicalModelKey modelKey"
  shows "shard_ok env now (ps_auths p) key (fst (ensureModelLocked env modelKey now p))"
    and "current env now (fst (ensureModelLocked env modelKey now p))"
    and "provider_inv env now pk (snd (ensureModelLocked env modelKey now p))"
    and "ps_auths (snd (ensureModelLocked env modelKey now p)) = ps_auths p"
    and "mget (ps_modelShards (snd (ensureModelLocked env modelKey now p))) l
      = (if l = key then Some (fst (ensureModelLocked env modelKey now p)) else mget (ps_modelShards p) l)"
proof -
  let ?m = "fst (ensureModelLocked env modelKey now p)" and ?p = "snd (ensureModelLocked env modelKey now p)"
  have p: "?p = p\<lparr>ps_modelShards := mput key ?m (ps_modelShards p)\<rparr>"
    by (simp add: ensureModelLocked_def key_def Let_def)
  have inv: "auths_ok pk (ps_auths p)" "mwf (ps_modelShards p)"
    "\<And>key m. mget (ps_modelShards p) key = Some m \<Longrightarrow> shard_ok env t (ps_auths p) key m"
    using assms(1) by (auto simp: provider_inv_def)
  have "shard_ok env now (ps_auths p) key ?m \<and> current env now ?m"
  proof (cases "mget (ps_modelShards p) key")
    case (Some m)
    then have "?m = promoteExpiredLocked env now m" by (simp add: ensureModelLocked_def key_def Let_def)
    then show ?thesis using inv(3) [OF Some] promote_shard [OF _ assms(2), of env m] promote_entry_iff [of env t m now]
      by (simp add: shard_ok_def)
  next
    case None
    have ok: "mwf (ps_auths p)" "\<forall>k meta. mget (ps_auths p) k = Some meta \<longrightarrow> k = au_ID (sm_auth meta) \<and> derived meta"
      using inv(1) by (auto simp: auths_ok_def)
    have e: "shard_inv env now (emptyShard key)" "sh_modelKey (emptyShard key) = key" "sh_entries (emptyShard key) = []"
      by (auto simp: emptyShard_def intro: emptyIndex)
    have m: "?m = fold (\<lambda>(_, meta) shard. if \<not> supportsModel key meta then shard else upsertEntryLocked env meta now shard)
        (ps_auths p) (emptyShard key)"
      using None by (simp add: ensureModelLocked_def key_def Let_def)
    note f = fill_shard [OF ok e(1) assms(3), unfolded e(2,3), folded m]
    have "se_meta (entry_for env key now meta) = meta"
      "se_state (entry_for env key now meta) = scheduledStateReady \<longleftrightarrow> \<not> blocked env key now (sm_auth meta)" for meta
      using classify_ready [of "isAuthBlockedForModel env (sm_auth meta) key now"]
      by (auto simp: entry_for_def blocked_def split: prod.splits)
    then show ?thesis using f by (auto simp: shard_ok_def current_def split: option.splits)
  qed
  then show m: "shard_ok env now (ps_auths p) key ?m" and "current env now ?m" by simp_all
  show "ps_auths ?p = ps_auths p" by (simp add: p)
  show "mget (ps_modelShards ?p) l = (if l = key then Some ?m else mget (ps_modelShards p) l)" by (simp add: p go_map)
  have "shard_ok env now (ps_auths p) k n" if "mget (ps_modelShards p) k = Some n" for k n
    using inv(3) [OF that] shard_inv_mono [OF _ assms(2)] by (auto simp: shard_ok_def)
  then show "provider_inv env now pk ?p" using inv(1,2) m by (auto simp: provider_inv_def p go_map inv_intro)
qed

section \<open>The cursors of a shard do not matter to its indexes\<close>

lemma pickFromView_flat: "rv_flat (snd (pickFromView strategy P m v)) = rv_flat v"
proof -
  have "rv_flat (snd (pickRoundRobin flat P v)) = rv_flat v" for flat
    by (simp add: pickRoundRobin_def Let_def split: option.split)
  moreover have "rv_flat (snd (pickWeighted flat P v)) = rv_flat v" for flat
    by (simp add: pickWeighted_def Let_def split: prod.split)
  ultimately show ?thesis by (cases strategy) (simp_all add: pickFromView_def Let_def)
qed

lemma indexed_cursors:
  assumes "indexed m" and "mget (sh_readyByPriority m) p = Some b"
    and "rv_flat (rb_all b') = rv_flat (rb_all b)" and "rv_flat (rb_ws b') = rv_flat (rb_ws b)"
  shows "indexed (m\<lparr>sh_readyByPriority := mput p b' (sh_readyByPriority m)\<rparr>)"
proof -
  have r: "readyAt (m\<lparr>sh_readyByPriority := x\<rparr>) q = readyAt m q" "readyPriorities (m\<lparr>sh_readyByPriority := x\<rparr>) = readyPriorities m" for x q
    by (simp_all add: readyAt_def readyPriorities_def)
  show ?thesis using assms spec [OF conjunct1 [OF assms(1) [unfolded indexed_def]], of p]
    unfolding indexed_def r by (simp add: go_map)
qed

lemma pick_keeps_shard:
  assumes "shard_ok env now auths key m"
  shows "shard_ok env now auths key (snd (pickReadyAtPriorityLocked preferWebsocket p strategy P m))"
proof (cases "mget (sh_readyByPriority m) p")
  case (Some b)
  have "entries_ok env now (m\<lparr>sh_readyByPriority := x\<rparr>) = entries_ok env now m" for x by (simp add: entries_ok_def)
  moreover have "indexed (m\<lparr>sh_readyByPriority := mput p (b\<lparr>rb_ws := v\<rparr>) (sh_readyByPriority m)\<rparr>)"
    if "rv_flat v = rv_flat (rb_ws b)" for v
    using indexed_cursors [OF _ Some, of "b\<lparr>rb_ws := v\<rparr>"] assms that by (simp add: shard_ok_def shard_inv_def)
  moreover have "indexed (m\<lparr>sh_readyByPriority := mput p (b\<lparr>rb_all := v\<rparr>) (sh_readyByPriority m)\<rparr>)"
    if "rv_flat v = rv_flat (rb_all b)" for v
    using indexed_cursors [OF _ Some, of "b\<lparr>rb_all := v\<rparr>"] assms that by (simp add: shard_ok_def shard_inv_def)
  ultimately show ?thesis using assms pickFromView_flat [of strategy P m "rb_ws b"] pickFromView_flat [of strategy P m "rb_all b"]
    by (auto simp: pickReadyAtPriorityLocked_def Some shard_ok_def shard_inv_def split: prod.split)
qed (use assms in \<open>simp add: pickReadyAtPriorityLocked_def\<close>)

lemma promote_shard_ok:
  assumes "shard_ok env t auths key m" and "t \<le> now"
  shows "shard_ok env now auths key (promoteExpiredLocked env now m)" and "current env now (promoteExpiredLocked env now m)"
  using assms promote_shard [OF _ assms(2), of env m] promote_entry_iff [of env t m now] by (simp_all add: shard_ok_def)

lemma pickReady_keeps_shard:
  assumes "shard_ok env t auths key m" and "t \<le> now"
  shows "shard_ok env now auths key (snd (pickReadyLocked env now preferWebsocket strategy P m))"
  using promote_shard_ok [OF assms] pick_keeps_shard
  by (simp add: pickReadyLocked_def Let_def split: option.split)

section \<open>The scheduler\<close>

definition sched_inv :: "Env \<Rightarrow> time \<Rightarrow> authScheduler \<Rightarrow> bool" where
  "sched_inv env now s \<longleftrightarrow> mwf (as_providers s) \<and> (\<forall>pk p. mget (as_providers s) pk = Some p \<longrightarrow> provider_inv env now pk p)"

definition holds :: "authScheduler \<Rightarrow> string \<Rightarrow> string \<Rightarrow> scheduledAuthMeta option" where
  \<comment> \<open>what a provider holds under an ID\<close>
  "holds s pk i = (case mget (as_providers s) pk of None \<Rightarrow> None | Some p \<Rightarrow> mget (ps_auths p) i)"

definition stamp :: "Auth \<Rightarrow> scheduledGenerationMeta" where
  "stamp a = \<lparr>gm_epoch = au_RegistrationEpoch a, gm_generation = au_Generation a, gm_updatedAt = au_UpdatedAt a\<rparr>"

definition located :: "authScheduler \<Rightarrow> bool" where
  \<comment> \<open>a credential is held by one provider, with the stamp that is recorded for it\<close>
  "located s \<longleftrightarrow> (\<forall>pk i meta. holds s pk i = Some meta \<longrightarrow>
       mget (as_authProviders s) i = Some pk \<and> mget (as_authGenerations s) i \<in> {None, Some (stamp (sm_auth meta))})
     \<and> (\<forall>i. mget (as_authProviders s) i \<noteq> Some [])"

lemma sched_inv_mono: "sched_inv env t s \<Longrightarrow> t \<le> t' \<Longrightarrow> sched_inv env t' s"
  unfolding sched_inv_def using provider_inv_mono by blast

lemma sched_inv_put:
  assumes "sched_inv env now s" and "provider_inv env now pk p" and "as_providers s' = mput pk p (as_providers s)"
  shows "sched_inv env now s'"
  using assms by (simp add: sched_inv_def go_map inv_intro)

lemma other_fields [simp]:
  "sched_inv env now (s\<lparr>as_authProviders := x\<rparr>) = sched_inv env now s"
  "sched_inv env now (s\<lparr>as_authGenerations := y\<rparr>) = sched_inv env now s"
  "sched_inv env now (s\<lparr>as_mixedCursors := z\<rparr>) = sched_inv env now s"
  "sched_inv env now (s\<lparr>as_mixedWeightedStates := w\<rparr>) = sched_inv env now s"
  "sched_inv env now (s\<lparr>as_strategy := v\<rparr>) = sched_inv env now s"
  "holds (s\<lparr>as_authProviders := x\<rparr>) = holds s" "holds (s\<lparr>as_authGenerations := y\<rparr>) = holds s"
  "holds (s\<lparr>as_mixedCursors := z\<rparr>) = holds s" "holds (s\<lparr>as_mixedWeightedStates := w\<rparr>) = holds s"
  "holds (s\<lparr>as_strategy := v\<rparr>) = holds s"
  by (simp_all add: sched_inv_def holds_def fun_eq_iff)

lemma holds_put: "as_providers s' = mput pk p (as_providers s) \<Longrightarrow> holds s' qk i = (if qk = pk then mget (ps_auths p) i else holds s qk i)"
  by (simp add: holds_def go_map)

lemma sched_inv_holds:
  assumes "sched_inv env now s" and "holds s pk i = Some meta"
  shows "i = au_ID (sm_auth meta)" and "i \<noteq> []" and "derived meta" and "sm_providerKey meta = pk"
  using assms by (auto simp: holds_def sched_inv_def provider_inv_def auths_ok_def split: option.splits)

lemma removeFromProvider_inv:
  assumes "sched_inv env now s"
  shows "sched_inv env now (removeFromProvider pk i s)"
proof (cases "mget (as_providers s) pk")
  case (Some p)
  then have "provider_inv env now pk p" using assms by (simp add: sched_inv_def)
  from sched_inv_put [OF assms provider_remove [OF this]] show ?thesis by (simp add: removeFromProvider_def Some)
qed (use assms in \<open>simp add: removeFromProvider_def\<close>)

lemma removeFromProvider_fields [simp]:
  "as_authProviders (removeFromProvider pk i s) = as_authProviders s"
  "as_authGenerations (removeFromProvider pk i s) = as_authGenerations s"
  "i \<noteq> [] \<Longrightarrow> holds (removeFromProvider pk i s) qk j = (if qk = pk \<and> j = i then None else holds s qk j)"
  by (auto simp: removeFromProvider_def holds_def provider_removeAuthLocked_def go_map split: option.split)

lemma removeFromProviders_inv:
  assumes "sched_inv env now s"
  shows "sched_inv env now (removeAuthFromProvidersLocked i s)"
  using removeFromProvider_inv [OF assms] assms by (simp add: removeAuthFromProvidersLocked_def Let_def)

text \<open>Removing an ID removes it everywhere, for it is held by the recorded provider only.\<close>

lemma removeFromProviders_holds:
  assumes "located s" and "i \<noteq> []"
  shows "holds (removeAuthFromProvidersLocked i s) qk j = (if j = i then None else holds s qk j)"
    and "located (removeAuthFromProvidersLocked i s)"
    and "as_authGenerations (removeAuthFromProvidersLocked i s) = as_authGenerations s"
proof -
  have none: "mget (as_authProviders s) i = None" if "mgetd [] (as_authProviders s) i = []"
    using that assms(1) by (auto simp: located_def mgetd_def split: option.splits)
  have pk: "holds s qk i = None \<or> qk = mgetd [] (as_authProviders s) i" for qk
    using assms(1) by (cases "holds s qk i") (auto simp: located_def mgetd_def)
  have absent: "holds s qk i = None" if "mgetd [] (as_authProviders s) i = []" for qk
    using none [OF that] assms(1) by (cases "holds s qk i") (auto simp: located_def)
  show holds: "holds (removeAuthFromProvidersLocked i s) qk j = (if j = i then None else holds s qk j)" for qk j
    using absent pk [of qk] assms(2) by (auto simp: removeAuthFromProvidersLocked_def Let_def)
  show gens: "as_authGenerations (removeAuthFromProvidersLocked i s) = as_authGenerations s"
    by (simp add: removeAuthFromProvidersLocked_def Let_def)
  have ap: "mget (as_authProviders (removeAuthFromProvidersLocked i s)) j = (if j = i then None else mget (as_authProviders s) j)" for j
    using none by (auto simp: removeAuthFromProvidersLocked_def Let_def go_map)
  show "located (removeAuthFromProvidersLocked i s)"
    using assms(1) unfolding located_def holds gens ap by auto
qed

section \<open>Operations on credentials\<close>

definition schedulable :: "Auth \<Rightarrow> bool" where
  "schedulable a \<longleftrightarrow> executorKeyFromAuth a \<noteq> [] \<and> \<not> au_Disabled a \<and> au_Status a \<noteq> StatusDisabled"

definition clean_id :: "string \<Rightarrow> bool" where
  \<comment> \<open>an ID without surrounding blanks: the maps of the scheduler are keyed by the trimmed ID, the shards by the ID itself\<close>
  "clean_id i \<longleftrightarrow> TrimSpace i = i"

lemma meta_fields [simp]:
  "derived (buildScheduledAuthMeta reg a)" "sm_auth (buildScheduledAuthMeta reg a) = a"
  "sm_providerKey (buildScheduledAuthMeta reg a) = executorKeyFromAuth a"
  by (simp_all add: buildScheduledAuthMeta_def derived_def)

lemma ensureProvider_inv: "sched_inv env now s \<Longrightarrow> provider_inv env now pk (ensureProviderLocked pk s)"
  by (auto simp: ensureProviderLocked_def sched_inv_def provider_inv_def auths_ok_def mget_def split: option.split)

definition accepts :: "Auth \<Rightarrow> authScheduler \<Rightarrow> bool" where
  \<comment> \<open>the snapshot is not stale\<close>
  "accepts a s \<longleftrightarrow> TrimSpace (au_ID a) \<noteq> []
     \<and> \<not> isStaleScheduledAuth (TrimSpace (au_ID a)) (au_RegistrationEpoch a) (au_Generation a) (au_UpdatedAt a) s"

definition recorded :: "Auth \<Rightarrow> authScheduler \<Rightarrow> authScheduler" where
  "recorded a s = s\<lparr>as_authGenerations := mput (TrimSpace (au_ID a)) (stamp a) (as_authGenerations s)\<rparr>"

definition detached :: "Auth \<Rightarrow> authScheduler \<Rightarrow> authScheduler" where
  \<comment> \<open>the credential leaves the provider it was recorded for when that changes\<close>
  "detached a s =
     (let previousProvider = mgetd [] (as_authProviders s) (TrimSpace (au_ID a))
      in if previousProvider \<noteq> [] \<and> previousProvider \<noteq> executorKeyFromAuth a
         then removeFromProvider previousProvider (TrimSpace (au_ID a)) s else s)"

definition attached :: "Env \<Rightarrow> ModelRegistry \<Rightarrow> Auth \<Rightarrow> time \<Rightarrow> authScheduler \<Rightarrow> authScheduler" where
  "attached env reg a now s =
     s\<lparr>as_authProviders := mput (TrimSpace (au_ID a)) (executorKeyFromAuth a) (as_authProviders s),
       as_providers := mput (executorKeyFromAuth a)
         (provider_upsertAuthLocked env (buildScheduledAuthMeta reg a) now (ensureProviderLocked (executorKeyFromAuth a) s))
         (as_providers s)\<rparr>"

lemma upsert_cases:
  "upsertAuthLocked env reg a now s =
     (if \<not> accepts a s then s
      else if \<not> schedulable a then removeAuthFromProvidersLocked (TrimSpace (au_ID a)) (recorded a s)
      else attached env reg a now (detached a (recorded a s)))"
  by (simp add: upsertAuthLocked_def accepts_def schedulable_def recorded_def stamp_def detached_def attached_def Let_def)

lemma upsert_inv [inv_intro]:
  assumes "sched_inv env now s" and "0 \<le> now"
  shows "sched_inv env now (upsertAuthLocked env reg a now s)"
proof (cases "accepts a s \<and> schedulable a")
  case True
  then have ne: "au_ID a \<noteq> []" by (auto simp: accepts_def TrimSpace_Nil)
  let ?s = "detached a (recorded a s)"
  have d: "sched_inv env now ?s"
    using assms(1) by (simp add: detached_def recorded_def Let_def removeFromProvider_inv)
  have "provider_inv env now (executorKeyFromAuth a)
      (provider_upsertAuthLocked env (buildScheduledAuthMeta reg a) now (ensureProviderLocked (executorKeyFromAuth a) ?s))"
    using ensureProvider_inv [OF d] assms(2) ne by (intro provider_upsert) simp_all
  from sched_inv_put [OF d this] True show ?thesis by (simp add: upsert_cases attached_def)
qed (use assms removeFromProviders_inv in \<open>auto simp: upsert_cases recorded_def\<close>)

lemma upsert_holds:
  assumes "located s" and "clean_id (au_ID a)"
  shows "holds (upsertAuthLocked env reg a now s) pk j =
       (if accepts a s \<and> j = au_ID a
        then (if schedulable a \<and> pk = executorKeyFromAuth a then Some (buildScheduledAuthMeta reg a) else None)
        else holds s pk j)"
    and "as_authGenerations (upsertAuthLocked env reg a now s) = (if accepts a s then mput (au_ID a) (stamp a) (as_authGenerations s) else as_authGenerations s)"
    and "located (upsertAuthLocked env reg a now s)"
proof -
  let ?id = "au_ID a" and ?pk = "executorKeyFromAuth a" and ?s' = "upsertAuthLocked env reg a now s"
  have id: "TrimSpace ?id = ?id" using assms(2) by (simp add: clean_id_def)
  have "(\<forall>pk j. holds ?s' pk j =
       (if accepts a s \<and> j = ?id then (if schedulable a \<and> pk = ?pk then Some (buildScheduledAuthMeta reg a) else None) else holds s pk j))
     \<and> as_authGenerations ?s' = (if accepts a s then mput ?id (stamp a) (as_authGenerations s) else as_authGenerations s)
     \<and> located ?s'"
  proof (cases "accepts a s")
    case acc: True
    then have ne: "?id \<noteq> []" using id by (simp add: accepts_def)
    let ?r = "recorded a s"
    have r: "holds ?r = holds s" "as_authProviders ?r = as_authProviders s" "as_authGenerations ?r = mput ?id (stamp a) (as_authGenerations s)"
      by (simp_all add: recorded_def id)
    have prov: "pk = mgetd [] (as_authProviders s) ?id \<and> pk \<noteq> []" if "holds s pk ?id \<noteq> None" for pk
      using assms(1) that by (auto simp: located_def mgetd_def)
    show ?thesis
    proof (cases "schedulable a")
      case True
      let ?d = "detached a ?r"
      have d: "holds ?d pk j = (if j = ?id \<and> pk \<noteq> ?pk then None else holds s pk j)" for pk j
      proof (cases "j = ?id")
        case True
        then show ?thesis using prov [of pk] ne by (cases "holds s pk ?id = None") (auto simp: detached_def Let_def id r)
      qed (use ne in \<open>simp add: detached_def Let_def id r\<close>)
      have s': "?s' = attached env reg a now ?d" using acc True by (simp add: upsert_cases)
      have gens: "as_authGenerations ?s' = mput ?id (stamp a) (as_authGenerations s)"
        "as_authProviders ?s' = mput ?id ?pk (as_authProviders s)"
        by (simp_all add: s' attached_def detached_def Let_def r id)
      have "mget (ps_auths (ensureProviderLocked ?pk ?d)) j = holds ?d ?pk j" for j
        by (simp add: ensureProviderLocked_def holds_def mget_def split: option.split)
      then have h: "holds ?s' pk j = (if j = ?id then (if pk = ?pk then Some (buildScheduledAuthMeta reg a) else None) else holds s pk j)" for pk j
        using d by (auto simp: s' attached_def holds_put [of _ ?pk] provider_upsertAuthLocked_def go_map)
      have "located ?s'"
        using assms(1) True unfolding located_def h gens by (auto simp: go_map schedulable_def)
      then show ?thesis using acc True by (simp add: h gens)
    next
      case False
      have "located (recorded a (removeAuthFromProvidersLocked ?id s))"
        using removeFromProviders_holds [OF assms(1) ne] unfolding located_def by (auto simp: recorded_def id go_map)
      moreover have "removeAuthFromProvidersLocked ?id ?r = recorded a (removeAuthFromProvidersLocked ?id s)"
        by (simp add: removeAuthFromProvidersLocked_def recorded_def removeFromProvider_def Let_def split: option.split)
      ultimately show ?thesis using acc False removeFromProviders_holds [OF assms(1) ne]
        by (simp add: upsert_cases id recorded_def)
    qed
  qed (use assms in \<open>simp add: upsert_cases\<close>)
  then show "holds ?s' pk j = (if accepts a s \<and> j = ?id
        then (if schedulable a \<and> pk = ?pk then Some (buildScheduledAuthMeta reg a) else None) else holds s pk j)"
    "as_authGenerations ?s' = (if accepts a s then mput ?id (stamp a) (as_authGenerations s) else as_authGenerations s)"
    "located ?s'" by blast+
qed

end
