(* ===== verification/SchedulerSelect.thy ===== *)
theory SchedulerSelect
  imports SchedulerInv
begin

text \<open>
  The pick of one provider is the pick of the selectors. Snapshots of credentials are ordered by their stamp
  (epoch, generation, time of the update), and a snapshot is stale when it is older than the recorded one. A pick
  moves cursors and refreshes states, and leaves the credentials where they are.
\<close>

section \<open>The order of the snapshots\<close>

instantiation scheduledGenerationMeta_ext :: (linorder) linorder
begin

definition less_eq_scheduledGenerationMeta_ext ::
  "'a scheduledGenerationMeta_scheme \<Rightarrow> 'a scheduledGenerationMeta_scheme \<Rightarrow> bool" where
  "g \<le> h \<longleftrightarrow> (gm_epoch g, gm_generation g, gm_updatedAt g, scheduledGenerationMeta.more g)
     \<le> (gm_epoch h, gm_generation h, gm_updatedAt h, scheduledGenerationMeta.more h)"

definition less_scheduledGenerationMeta_ext ::
  "'a scheduledGenerationMeta_scheme \<Rightarrow> 'a scheduledGenerationMeta_scheme \<Rightarrow> bool" where
  "g < h \<longleftrightarrow> (gm_epoch g, gm_generation g, gm_updatedAt g, scheduledGenerationMeta.more g)
     < (gm_epoch h, gm_generation h, gm_updatedAt h, scheduledGenerationMeta.more h)"

instance
proof
  fix g h k :: "'a scheduledGenerationMeta_scheme"
  note defs = less_eq_scheduledGenerationMeta_ext_def less_scheduledGenerationMeta_ext_def
  show "g < h \<longleftrightarrow> g \<le> h \<and> \<not> h \<le> g" unfolding defs by (rule less_le_not_le)
  show "g \<le> g" unfolding defs by (rule order_refl)
  show "g \<le> h \<Longrightarrow> h \<le> k \<Longrightarrow> g \<le> k" unfolding defs by (rule order_trans)
  show "g = h" if le: "g \<le> h" "h \<le> g"
  proof -
    have "(gm_epoch g, gm_generation g, gm_updatedAt g, scheduledGenerationMeta.more g)
        = (gm_epoch h, gm_generation h, gm_updatedAt h, scheduledGenerationMeta.more h)"
      using le unfolding defs by (rule antisym)
    then show ?thesis by (cases g; cases h) simp
  qed
  show "g \<le> h \<or> h \<le> g" unfolding defs by (rule linear)
qed

end

lemma meta_order:
  fixes g h :: scheduledGenerationMeta
  shows "g < h \<longleftrightarrow> gm_epoch g < gm_epoch h \<or> (gm_epoch g = gm_epoch h \<and>
     (gm_generation g < gm_generation h \<or> (gm_generation g = gm_generation h \<and> gm_updatedAt g < gm_updatedAt h)))"
  by (auto simp: less_scheduledGenerationMeta_ext_def)

text \<open>A snapshot is stale exactly when it is older than the recorded one.\<close>

lemma isStale_iff:
  "isStaleScheduledAuth i (au_RegistrationEpoch a) (au_Generation a) (au_UpdatedAt a) s
     \<longleftrightarrow> (\<exists>g. mget (as_authGenerations s) i = Some g \<and> stamp a < g)"
  by (auto simp: isStaleScheduledAuth_def meta_order stamp_def split: option.splits)

lemma accepts_iff:
  assumes "clean_id (au_ID a)"
  shows "accepts a s \<longleftrightarrow> au_ID a \<noteq> [] \<and> (\<forall>g. mget (as_authGenerations s) (au_ID a) = Some g \<longrightarrow> g \<le> stamp a)"
  using assms by (auto simp: accepts_def isStale_iff clean_id_def not_less)

section \<open>Picks leave the credentials alone\<close>

definition same_auths :: "authScheduler \<Rightarrow> authScheduler \<Rightarrow> bool" where
  "same_auths s s' \<longleftrightarrow> (\<forall>pk i. holds s' pk i = holds s pk i) \<and> as_authProviders s' = as_authProviders s
     \<and> as_authGenerations s' = as_authGenerations s"

lemma same_auths_refl [simp]: "same_auths s s"
  by (simp add: same_auths_def)

lemma same_auths_trans: "same_auths s s' \<Longrightarrow> same_auths s' s'' \<Longrightarrow> same_auths s s''"
  by (simp add: same_auths_def)

lemma same_auths_located: "same_auths s s' \<Longrightarrow> located s \<Longrightarrow> located s'"
  by (simp add: same_auths_def located_def)

lemma same_auths_cursors [simp]:
  "same_auths s (s'\<lparr>as_mixedCursors := x\<rparr>) = same_auths s s'" "same_auths s (s'\<lparr>as_mixedWeightedStates := y\<rparr>) = same_auths s s'"
  by (simp_all add: same_auths_def)

definition pick_safe :: "Env \<Rightarrow> time \<Rightarrow> authScheduler \<Rightarrow> authScheduler \<Rightarrow> bool" where
  \<comment> \<open>a part of a pick: the invariant holds at the later time, and no credential has moved\<close>
  "pick_safe env now s s' \<longleftrightarrow> sched_inv env now s' \<and> same_auths s s'"

lemma put_provider_safe:
  assumes "sched_inv env now s" and "mget (as_providers s) pk = Some p" and "provider_inv env now pk p'" and "ps_auths p' = ps_auths p"
  shows "pick_safe env now s (s\<lparr>as_providers := mput pk p' (as_providers s)\<rparr>)"
  using assms sched_inv_put [OF assms(1,3), of "s\<lparr>as_providers := mput pk p' (as_providers s)\<rparr>"]
  by (auto simp: pick_safe_def same_auths_def holds_def go_map)

lemma ensureShard_safe:
  assumes "sched_inv env t s" and "t \<le> now" and "0 \<le> now"
  shows "pick_safe env now s (ensureShard env modelKey now pk s)"
proof (cases "mget (as_providers s) pk")
  case None
  then show ?thesis using sched_inv_mono [OF assms(1,2)] by (simp add: ensureShard_def pick_safe_def)
next
  case (Some p)
  have "provider_inv env t pk p" using assms(1) Some by (simp add: sched_inv_def)
  from put_provider_safe [OF sched_inv_mono [OF assms(1,2)] Some ensureModel(3,4) [OF this assms(2,3)]]
  show ?thesis by (simp add: ensureShard_def Some)
qed

lemma ensureShards_safe:
  assumes "sched_inv env t s" and "t \<le> now" and "0 \<le> now"
  shows "pick_safe env now s (fold (ensureShard env modelKey now) pks s)"
proof -
  have "pick_safe env now s' (fold (ensureShard env modelKey now) pks s')" if "sched_inv env now s'" for s'
    using that
  proof (induction pks arbitrary: s')
    case (Cons pk pks)
    have 1: "pick_safe env now s' (ensureShard env modelKey now pk s')"
      using ensureShard_safe [OF Cons.prems order_refl assms(3)] .
    then have "pick_safe env now (ensureShard env modelKey now pk s') (fold (ensureShard env modelKey now) (pk # pks) s')"
      using Cons.IH by (simp add: pick_safe_def)
    then show ?case using 1 same_auths_trans by (auto simp: pick_safe_def)
  qed (simp add: pick_safe_def)
  then show ?thesis using sched_inv_mono [OF assms(1,2)] by blast
qed

lemma putShard_safe:
  assumes "sched_inv env now s" and "mget (as_providers s) pk = Some p" and "shard_ok env now (ps_auths p) (canonicalModelKey modelKey) m"
  shows "pick_safe env now s (putShard pk modelKey m s)"
proof -
  have "provider_inv env now pk p" using assms(1,2) by (simp add: sched_inv_def)
  then have "provider_inv env now pk (p\<lparr>ps_modelShards := mput (canonicalModelKey modelKey) m (ps_modelShards p)\<rparr>)"
    using assms(3) by (auto simp: provider_inv_def go_map inv_intro)
  from put_provider_safe [OF assms(1,2) this] show ?thesis by (simp add: putShard_def assms(2))
qed

lemma pick_safe_trans:
  "pick_safe env t s s' \<Longrightarrow> pick_safe env t' s' s'' \<Longrightarrow> pick_safe env t' s s''"
  using same_auths_trans by (auto simp: pick_safe_def)

lemma pick_safe_mono: "pick_safe env t s s' \<Longrightarrow> t \<le> t' \<Longrightarrow> pick_safe env t' s s'"
  using sched_inv_mono by (auto simp: pick_safe_def)

section \<open>The pick of one shard\<close>

abbreviation metaEntry :: "scheduledAuthMeta \<Rightarrow> scheduledAuth" where
  "metaEntry meta \<equiv> \<lparr>se_meta = meta, se_state = scheduledStateReady, se_nextRetryAt = 0\<rparr>"

definition meta_only :: "(scheduledAuth \<Rightarrow> bool) \<Rightarrow> bool" where
  \<comment> \<open>the predicate looks at the credential only, not at its state in the shard\<close>
  "meta_only P \<longleftrightarrow> (\<forall>e. P e = P (metaEntry (se_meta e)))"

lemma requestPredicate_meta_only: "meta_only (requestPredicate req pinned strategy)"
  by (simp add: meta_only_def requestPredicate_def scheduledAuthPredicate_def)

definition providerCandidates :: "string \<Rightarrow> (scheduledAuth \<Rightarrow> bool) \<Rightarrow> providerScheduler \<Rightarrow> Auth list" where
  \<comment> \<open>the credentials of the provider that support the model and meet the request\<close>
  "providerCandidates modelKey P p =
     map sm_auth (filter (\<lambda>meta. supportsModel modelKey meta \<and> P (metaEntry meta)) (map snd (ps_auths p)))"

lemma shard_candidates:
  assumes "shard_ok env now (ps_auths p) key m" and "auths_ok pk (ps_auths p)" and "meta_only P"
  shows "set (candidatesOf P m) = set (providerCandidates key P p)"
    and "distinct (map au_ID (candidatesOf P m))" and "distinct (map au_ID (providerCandidates key P p))"
proof -
  have m: "entries_ok env now m" using assms(1) by (simp add: shard_ok_def shard_inv_def)
  have e: "e \<in> snd ` set (sh_entries m) \<longleftrightarrow> (\<exists>k. mget (sh_entries m) k = Some e)" for e
    using entries_okD(1) [OF m] by (force simp: mget_iff_in)
  have A: "a \<in> set (candidatesOf P m) \<longleftrightarrow> (\<exists>k meta. map_option se_meta (mget (sh_entries m) k) = Some meta \<and> P (metaEntry meta) \<and> a = sm_auth meta)" for a
    using assms(3) e unfolding meta_only_def candidatesOf_def by (auto simp: image_iff)
  have B: "a \<in> set (providerCandidates key P p) \<longleftrightarrow> (\<exists>k meta. served (ps_auths p) key k = Some meta \<and> P (metaEntry meta) \<and> a = sm_auth meta)" for a
  proof -
    have "meta \<in> snd ` set (ps_auths p) \<longleftrightarrow> (\<exists>k. mget (ps_auths p) k = Some meta)" for meta
      using assms(2) by (force simp: auths_ok_def mget_iff_in)
    moreover have "served (ps_auths p) key k = Some meta \<longleftrightarrow> mget (ps_auths p) k = Some meta \<and> supportsModel key meta" for k meta
      by (auto simp: served_def split: option.split)
    ultimately show ?thesis by (auto simp: providerCandidates_def image_iff)
  qed
  have "map_option se_meta (mget (sh_entries m) k) = served (ps_auths p) key k" for k
    using assms(1) by (simp add: shard_ok_def)
  then show "set (candidatesOf P m) = set (providerCandidates key P p)" by (intro set_eqI) (simp only: A B)
  have "distinct (map se_id (filter P (map snd (sh_entries m))))"
    using ids_distinct [OF m] by (rule distinct_map_filter)
  then show "distinct (map au_ID (candidatesOf P m))" by (simp add: candidatesOf_def comp_def)
  have "map (au_ID \<circ> sm_auth) (map snd (ps_auths p)) = map fst (ps_auths p)"
    using assms(2) by (auto simp: auths_ok_def mget_iff_in)
  then have "distinct (map (au_ID \<circ> sm_auth) (map snd (ps_auths p)))"
    using assms(2) by (simp only:) (simp add: auths_ok_def mwf_def)
  then have "distinct (map (au_ID \<circ> sm_auth) (filter Q (map snd (ps_auths p))))" for Q by (rule distinct_map_filter)
  then show "distinct (map au_ID (providerCandidates key P p))" by (simp add: providerCandidates_def)
qed

text \<open>What \<open>getAvailableAuths\<close> selects does not depend on the order of the candidates.\<close>

lemma getAvailableAuths_order:
  assumes "set C = set C'" and "distinct (map au_ID C)" and "distinct (map au_ID C')"
    and "getAvailableAuths env C provider model now = Inr L"
  shows "getAvailableAuths env C' provider' model now = Inr L"
proof -
  obtain p where p: "mset L = mset (filter (\<lambda>a. \<not> blocked env model now a \<and> authPriority a = p) C)"
    "\<forall>b \<in> set C. \<not> blocked env model now b \<longrightarrow> authPriority b \<le> p"
    using getAvailableAuths_Inr(3) [OF assms(4)] by blast
  note L = getAvailableAuths_Inr(1,2) [OF assms(4)]
  have set: "set L = {a \<in> set C'. \<not> blocked env model now a \<and> authPriority a = p}"
    using mset_eq_setD [OF p(1)] assms(1) by auto
  have "distinct (map au_ID L)"
  proof -
    have "distinct (map au_ID (filter (\<lambda>a. \<not> blocked env model now a \<and> authPriority a = p) C))"
      using assms(2) by (rule distinct_map_filter)
    then show ?thesis using p(1) by (metis mset_eq_imp_distinct_iff mset_map)
  qed
  note u = getAvailableAuths_unique [OF _ assms(3) L(2) this L(1) set]
  obtain a where "a \<in> set L" using L(1) by (cases L) auto
  then obtain L' where L': "getAvailableAuths env C' provider' model now = Inr L'"
    using set getAvailableAuths_free by blast
  then have "L' = L" using u p(2) assms(1) by blast
  then show ?thesis using L' by simp
qed

lemma websocketPool_order:
  assumes "set C = set C'"
  shows "set (websocketPool env key now ws C) = set (websocketPool env key now ws C')"
    and "distinct (map au_ID C) \<Longrightarrow> distinct (map au_ID (websocketPool env key now ws C))"
  using assms by (auto simp: websocketPool_def distinct_map_filter)

definition pickView :: "Env \<Rightarrow> time \<Rightarrow> time \<Rightarrow> string \<Rightarrow> bool \<Rightarrow> (scheduledAuth \<Rightarrow> bool) \<Rightarrow> providerScheduler \<Rightarrow> readyView" where
  \<comment> \<open>the view, with the cursors of the earlier picks, that a pick from the provider advances\<close>
  "pickView env t0 t1 modelKey preferWebsocket P p =
     (let m = promoteExpiredLocked env t1 (fst (ensureModelLocked env modelKey t0 p))
      in case highestReadyPriorityLocked preferWebsocket P m of
           None \<Rightarrow> buildReadyView [] | Some priority \<Rightarrow> chosenView preferWebsocket P m priority)"

lemma pickShard_as_selector:
  fixes modelKey ws P p t1
  assumes "sched_inv env t s" and "mget (as_providers s) pk = Some p" and "0 \<le> t" and "t \<le> t0" and "t0 \<le> t1" and "meta_only P"
  defines "key \<equiv> canonicalModelKey modelKey"
  defines "pool \<equiv> websocketPool env key t1 ws (providerCandidates key P p)"
  shows "case getAvailableAuths env pool provider key t1 of
      Inl e \<Rightarrow> \<exists>err. fst (pickShard env (t0, t1, t2) pk modelKey model ws strategy P provider' p s) = Inl err
    | Inr L \<Rightarrow> (case selectorChoice strategy L (pickView env t0 t1 modelKey ws P p) of
          Some a \<Rightarrow> fst (pickShard env (t0, t1, t2) pk modelKey model ws strategy P provider' p s) = Inr a
        | None \<Rightarrow> \<exists>err. fst (pickShard env (t0, t1, t2) pk modelKey model ws strategy P provider' p s) = Inl err)"
proof -
  have inv: "provider_inv env t pk p" using assms(1,2) by (simp add: sched_inv_def)
  have t0: "0 \<le> t0" using assms(3,4) by simp
  obtain m p1 where e: "ensureModelLocked env modelKey t0 p = (m, p1)" by fastforce
  note em = ensureModel [OF inv assms(4) t0, of modelKey, unfolded e fst_conv snd_conv, folded key_def]
  let ?m = "promoteExpiredLocked env t1 m"
  note pm = promote_shard_ok [OF em(1) assms(5)]
  then have m: "shard_inv env t1 ?m" "sh_modelKey ?m = key" by (simp_all add: shard_ok_def)
  have auths: "auths_ok pk (ps_auths p)" using inv by (simp add: provider_inv_def)
  note C = shard_candidates [OF pm(1) auths assms(6)]
  define pool' where "pool' = websocketPool env key t1 ws (candidatesOf P ?m)"
  have po: "set pool = set pool'" "distinct (map au_ID pool)" "distinct (map au_ID pool')"
    using websocketPool_order(1) [OF C(1)] websocketPool_order(2) [OF C(1) C(2)] websocketPool_order(2) [OF C(1) [symmetric] C(3)]
    by (simp_all add: pool_def pool'_def)
  have av: "getAvailableAuths env pool' provider key t1 = Inr L \<longleftrightarrow> getAvailableAuths env pool provider key t1 = Inr L" for L
    using getAvailableAuths_order [OF po(1) po(2) po(3)] getAvailableAuths_order [OF po(1) [symmetric] po(3) po(2)] by blast
  note sp = shard_pick [OF m(1) pm(2), where preferWebsocket = ws and P = P and provider = provider and strategy = strategy, unfolded m(2), folded pool'_def]
  have pick: "fst (pickShard env (t0, t1, t2) pk modelKey model ws strategy P provider' p s)
      = (case fst (pickReadyLocked env t1 ws strategy P m) of
           Some e \<Rightarrow> Inr (se_auth e)
         | None \<Rightarrow> Inl (unavailableErrorLocked t2 provider' model P (snd (pickReadyLocked env t1 ws strategy P m))))"
    by (simp add: pickShard_def e split: prod.split option.split)
  show ?thesis
  proof (cases "getAvailableAuths env pool provider key t1")
    case (Inl err)
    then have "\<forall>L. getAvailableAuths env pool' provider key t1 \<noteq> Inr L" by (simp add: av)
    then have "highestReadyPriorityLocked ws P ?m = None"
      using sp by (cases "getAvailableAuths env pool' provider key t1") auto
    then show ?thesis by (simp add: Inl pick pickReadyLocked_def)
  next
    case (Inr L)
    then have "getAvailableAuths env pool' provider key t1 = Inr L" by (simp add: av)
    then obtain q where q: "highestReadyPriorityLocked ws P ?m = Some q"
      "map_option se_auth (fst (pickReadyAtPriorityLocked ws q strategy P ?m)) = selectorChoice strategy L (chosenView ws P ?m q)"
      using sp by auto
    have v: "pickView env t0 t1 modelKey ws P p = chosenView ws P ?m q" by (simp add: pickView_def e q(1))
    have pr: "pickReadyLocked env t1 ws strategy P m = pickReadyAtPriorityLocked ws q strategy P ?m"
      by (simp add: pickReadyLocked_def q(1))
    show ?thesis unfolding Inr sum.case v q(2) [symmetric] pick pr
      by (cases "fst (pickReadyAtPriorityLocked ws q strategy P ?m)") simp_all
  qed
qed

text \<open>The pick is one of the candidates, and with positive weights there always is one.\<close>

lemma smooth_fold_picks:
  "case fold smooth_credit xs (c, x, pc, t) of (c', x', pc', t') \<Rightarrow>
     (\<forall>a. x' = Some a \<longrightarrow> x = Some a \<or> a \<in> set xs) \<and> ((x \<noteq> None \<or> (\<exists>a \<in> set xs. 0 < authWeight a)) \<longrightarrow> x' \<noteq> None)"
proof (induction xs arbitrary: c x pc t)
  case (Cons a xs)
  obtain c1 x1 pc1 t1 where s: "smooth_credit a (c, x, pc, t) = (c1, x1, pc1, t1)" by (metis prod_cases4)
  have "x1 = x \<or> x1 = Some a" "x \<noteq> None \<or> 0 < authWeight a \<longrightarrow> x1 \<noteq> None"
    using s by (auto simp: smooth_credit_def Let_def split: if_splits)
  then show ?case using Cons.IH [where c = c1 and x = x1 and pc = pc1 and t = t1] s by (auto split: prod.splits)
qed simp

lemma smooth_pick_mem:
  "fst (pickSmoothWeightedAuth xs c) = Some a \<Longrightarrow> a \<in> set xs"
  "\<exists>a \<in> set xs. 0 < authWeight a \<Longrightarrow> fst (pickSmoothWeightedAuth xs c) \<noteq> None"
  using smooth_fold_picks [where xs = xs and c = c and x = None and pc = 0 and t = 0]
  by (auto simp: pickSmoothWeightedAuth_def split: prod.splits option.splits)

lemma selectorChoice_mem:
  assumes "L \<noteq> []"
  shows "selectorChoice strategy L v = Some a \<Longrightarrow> a \<in> set L"
    and "strategy = schedulerStrategyWeightedRoundRobin \<longrightarrow> (\<forall>a \<in> set L. 0 < authWeight a) \<Longrightarrow> selectorChoice strategy L v \<noteq> None"
proof -
  show "selectorChoice strategy L v = Some a \<Longrightarrow> a \<in> set L"
    using assms successorIndex_less [OF assms] smooth_pick_mem(1)
    by (cases strategy) (auto simp: selectorChoice_def)
  obtain b where "b \<in> set L" using assms by (cases L) auto
  then show "strategy = schedulerStrategyWeightedRoundRobin \<longrightarrow> (\<forall>a \<in> set L. 0 < authWeight a) \<Longrightarrow> selectorChoice strategy L v \<noteq> None"
    using smooth_pick_mem(2) [of L] by (cases strategy) (auto simp: selectorChoice_def)
qed

definition weighs :: "schedulerStrategy \<Rightarrow> (scheduledAuth \<Rightarrow> bool) \<Rightarrow> bool" where
  \<comment> \<open>the weighted strategy asks for positive weights\<close>
  "weighs strategy P \<longleftrightarrow> strategy = schedulerStrategyWeightedRoundRobin \<longrightarrow> (\<forall>meta. P (metaEntry meta) \<longrightarrow> 0 < sm_weight meta)"

lemma requestPredicate_weighs: "weighs strategy (requestPredicate req pinned strategy)"
  by (auto simp: weighs_def requestPredicate_def scheduledAuthPredicate_def not_le split: if_splits)

lemma candidates_weight:
  assumes "auths_ok pk (ps_auths p)" and "weighs strategy P" and "a \<in> set (providerCandidates key P p)"
  shows "strategy = schedulerStrategyWeightedRoundRobin \<longrightarrow> 0 < authWeight a"
proof -
  obtain meta where m: "meta \<in> snd ` set (ps_auths p)" "P (metaEntry meta)" "a = sm_auth meta"
    using assms(3) by (auto simp: providerCandidates_def)
  then have "derived meta" using assms(1) by (auto simp: auths_ok_def mget_iff_in)
  then show ?thesis using m assms(2) by (auto simp: weighs_def derived_def)
qed

lemma pool_subset: "set (websocketPool env key now ws C) \<subseteq> set C"
  by (auto simp: websocketPool_def)

text \<open>The contract of a pick: the candidate is free, of the best priority, and there is one if any is free.\<close>

lemma pickShard_contract:
  fixes modelKey ws P p t1
  assumes "sched_inv env t s" and "mget (as_providers s) pk = Some p" and "0 \<le> t" and "t \<le> t0" and "t0 \<le> t1" and "meta_only P"
    and "weighs strategy P"
  defines "key \<equiv> canonicalModelKey modelKey"
  defines "pool \<equiv> websocketPool env key t1 ws (providerCandidates key P p)"
  shows "case fst (pickShard env (t0, t1, t2) pk modelKey model ws strategy P provider' p s) of
      Inr a \<Rightarrow> a \<in> set pool \<and> \<not> blocked env key t1 a \<and> (\<forall>b \<in> set pool. \<not> blocked env key t1 b \<longrightarrow> authPriority b \<le> authPriority a)
    | Inl err \<Rightarrow> (\<forall>b \<in> set pool. blocked env key t1 b)"
proof -
  have auths: "auths_ok pk (ps_auths p)" using assms(1,2) by (simp add: sched_inv_def provider_inv_def)
  note ps = pickShard_as_selector [OF assms(1-6), where modelKey = modelKey and ws = ws and provider = "[]" and model = model and
      strategy = strategy and provider' = provider' and ?t2.0 = t2, folded key_def, folded pool_def]
  show ?thesis
  proof (cases "getAvailableAuths env pool [] key t1")
    case (Inl e)
    then show ?thesis using ps getAvailableAuths_Inl [OF Inl] by auto
  next
    case (Inr L)
    obtain q where q: "mset L = mset (filter (\<lambda>a. \<not> blocked env key t1 a \<and> authPriority a = q) pool)"
      "\<forall>b \<in> set pool. \<not> blocked env key t1 b \<longrightarrow> authPriority b \<le> q" using getAvailableAuths_Inr(3) [OF Inr] by blast
    have L: "set L = {a \<in> set pool. \<not> blocked env key t1 a \<and> authPriority a = q}" using mset_eq_setD [OF q(1)] by auto
    have pos: "strategy = schedulerStrategyWeightedRoundRobin \<longrightarrow> (\<forall>a \<in> set L. 0 < authWeight a)"
      using candidates_weight [OF auths assms(7)] L pool_subset unfolding pool_def by blast
    obtain a where "selectorChoice strategy L (pickView env t0 t1 modelKey ws P p) = Some a" "a \<in> set L"
      using selectorChoice_mem [OF getAvailableAuths_Inr(1) [OF Inr]] pos by blast
    then show ?thesis using ps L q(2) by (simp add: Inr)
  qed
qed

lemma pickShard_safe:
  assumes "sched_inv env t s" and "mget (as_providers s) pk = Some p" and "0 \<le> t" and "t \<le> t0" and "t0 \<le> t1"
  shows "pick_safe env t1 s (snd (pickShard env (t0, t1, t2) pk modelKey model ws strategy P provider' p s))"
proof -
  have inv: "provider_inv env t pk p" using assms(1,2) by (simp add: sched_inv_def)
  have t0: "0 \<le> t0" using assms(3,4) by simp
  obtain m p1 where e: "ensureModelLocked env modelKey t0 p = (m, p1)" by fastforce
  note em = ensureModel [OF inv assms(4) t0, of modelKey, unfolded e fst_conv snd_conv]
  let ?s1 = "s\<lparr>as_providers := mput pk p1 (as_providers s)\<rparr>"
  have 1: "pick_safe env t0 s ?s1" using put_provider_safe [OF sched_inv_mono [OF assms(1,4)] assms(2) em(3,4)] .
  obtain x m' where r: "pickReadyLocked env t1 ws strategy P m = (x, m')" by fastforce
  have "shard_ok env t1 (ps_auths p1) (canonicalModelKey modelKey) m'"
    using pickReady_keeps_shard [OF em(1) assms(5), of ws strategy P] em(4) r by simp
  moreover have "sched_inv env t1 ?s1" using 1 sched_inv_mono [OF _ assms(5)] by (simp add: pick_safe_def)
  ultimately have "pick_safe env t1 ?s1 (putShard pk modelKey m' ?s1)"
    using putShard_safe [of env t1 ?s1 pk p1 modelKey m'] by (simp add: go_map)
  from pick_safe_trans [OF 1 this] show ?thesis
    by (simp add: pickShard_def e r Let_def split: option.split)
qed

end
