(* ===== verification/SchedulerMixed.thy ===== *)
theory SchedulerMixed
  imports SchedulerSelect
begin

text \<open>
  The pick over several providers (\<open>pickMixedWithStrategy\<close> of \<open>sdk/cliproxy/auth/scheduler.go\<close>): whatever the
  strategy, the credential picked is free and of the best priority over all the providers asked for, it comes with
  the provider that holds it, and the pick fails only when no provider has a free credential.
\<close>

section \<open>What a provider offers\<close>

definition offers :: "Env \<Rightarrow> string \<Rightarrow> time \<Rightarrow> (scheduledAuth \<Rightarrow> bool) \<Rightarrow> authScheduler \<Rightarrow> string \<Rightarrow> Auth set" where
  \<comment> \<open>the credentials of the provider that support the model, meet the request and are free\<close>
  "offers env key now P s pk = {a. \<exists>i meta. holds s pk i = Some meta \<and> supportsModel key meta \<and> P (metaEntry meta)
     \<and> a = sm_auth meta \<and> \<not> blocked env key now a}"

lemma offers_same: "same_auths s s' \<Longrightarrow> offers env key now P s' pk = offers env key now P s pk"
  by (simp add: offers_def same_auths_def)

lemma offers_candidates:
  assumes "sched_inv env t s" and "mget (as_providers s) pk = Some p"
  shows "offers env key now P s pk = {a \<in> set (providerCandidates key P p). \<not> blocked env key now a}"
proof -
  have "mwf (ps_auths p)" using assms by (auto simp: sched_inv_def provider_inv_def auths_ok_def)
  then have "meta \<in> snd ` set (ps_auths p) \<longleftrightarrow> (\<exists>k. mget (ps_auths p) k = Some meta)" for meta
    by (force simp: mget_iff_in)
  then show ?thesis by (auto simp: offers_def holds_def assms(2) providerCandidates_def image_iff)
qed

lemma offers_unknown: "mget (as_providers s) pk = None \<Longrightarrow> offers env key now P s pk = {}"
  by (simp add: offers_def holds_def)

definition refreshed :: "Env \<Rightarrow> string \<Rightarrow> time \<Rightarrow> string list \<Rightarrow> authScheduler \<Rightarrow> bool" where
  \<comment> \<open>the shards of the providers exist and carry the states of the time \<open>now\<close>\<close>
  "refreshed env modelKey now pks s \<longleftrightarrow> sched_inv env now s
     \<and> (\<forall>pk \<in> set pks. mget (as_providers s) pk \<noteq> None \<longrightarrow> (\<exists>m. shardOf modelKey pk s = Some m \<and> current env now m))"

lemma shardOf_ok:
  assumes "sched_inv env now s" and "shardOf modelKey pk s = Some m"
  obtains p where "mget (as_providers s) pk = Some p" and "shard_ok env now (ps_auths p) (canonicalModelKey modelKey) m"
    and "auths_ok pk (ps_auths p)"
  using assms by (auto simp: shardOf_def sched_inv_def provider_inv_def split: option.splits)

lemma ready_offers:
  fixes modelKey pk P
  assumes "sched_inv env now s" and "shardOf modelKey pk s = Some m" and "current env now m" and "meta_only P"
  defines "key \<equiv> canonicalModelKey modelKey"
  shows "se_auth ` set (filter P (readyAt m q)) = {a \<in> offers env key now P s pk. authPriority a = q}"
    and "shard_inv env now m"
    and "case highestReadyPriorityLocked False P m of
        None \<Rightarrow> offers env key now P s pk = {}
      | Some q \<Rightarrow> (\<exists>a \<in> offers env key now P s pk. authPriority a = q) \<and> (\<forall>b \<in> offers env key now P s pk. authPriority b \<le> q)"
proof -
  obtain p where p: "mget (as_providers s) pk = Some p" "shard_ok env now (ps_auths p) key m" "auths_ok pk (ps_auths p)"
    using shardOf_ok [OF assms(1,2)] unfolding key_def by blast
  then show m: "shard_inv env now m" by (simp add: shard_ok_def)
  have key: "sh_modelKey m = key" using p(2) by (simp add: shard_ok_def)
  have off: "offers env key now P s pk = {a \<in> set (candidatesOf P m). \<not> blocked env key now a}"
    unfolding offers_candidates [OF assms(1) p(1)] shard_candidates(1) [OF p(2,3) assms(4)] ..
  show r: "se_auth ` set (filter P (readyAt m q)) = {a \<in> offers env key now P s pk. authPriority a = q}" for q
    using ready_set(1) [OF m assms(3), of P q] by (auto simp: off key)
  show "case highestReadyPriorityLocked False P m of
        None \<Rightarrow> offers env key now P s pk = {}
      | Some q \<Rightarrow> (\<exists>a \<in> offers env key now P s pk. authPriority a = q) \<and> (\<forall>b \<in> offers env key now P s pk. authPriority b \<le> q)"
  proof (cases "highestReadyPriorityLocked False P m")
    case None
    then show ?thesis using highest_priority [OF m assms(3), of False P] by (auto simp: websocketPool_def off key)
  next
    case (Some q)
    note h = highest_priority [OF m assms(3), of False P, unfolded Some option.case]
    then obtain e where "e \<in> set (usable False P q m)" by (cases "usable False P q m") auto
    then have "se_auth e \<in> {a \<in> offers env key now P s pk. authPriority a = q}" unfolding r [symmetric] by (simp add: usable_def)
    then show ?thesis using h by (auto simp: Some websocketPool_def off key)
  qed
qed

text \<open>The best priority over the providers.\<close>

lemma best_fold:
  fixes f :: "'a \<Rightarrow> 'b::linorder option"
  defines "step \<equiv> (\<lambda>x best. case f x of None \<Rightarrow> best
    | Some q \<Rightarrow> (case best of None \<Rightarrow> Some q | Some b \<Rightarrow> if q > b then Some q else best))"
  shows "case fold step xs best of
      None \<Rightarrow> best = None \<and> (\<forall>x \<in> set xs. f x = None)
    | Some q \<Rightarrow> (best = Some q \<or> (\<exists>x \<in> set xs. f x = Some q)) \<and> (\<forall>b. best = Some b \<longrightarrow> b \<le> q)
        \<and> (\<forall>x \<in> set xs. \<forall>b. f x = Some b \<longrightarrow> b \<le> q)"
proof (induction xs arbitrary: best)
  case Nil
  then show ?case by (simp split: option.split)
next
  case (Cons x xs)
  have "(step x best = best \<or> step x best = f x) \<and> (step x best = None \<longrightarrow> best = None \<and> f x = None)
      \<and> (\<forall>c. step x best = Some c \<longrightarrow> (\<forall>b. best = Some b \<or> f x = Some b \<longrightarrow> b \<le> c))"
    by (auto simp: step_def split: option.split)
  then show ?case using Cons.IH [of "step x best"] by (cases "step x best") (auto split: option.splits)
qed

lemma best_offers:
  fixes modelKey
  assumes "refreshed env modelKey now pks s" and "meta_only P"
  defines "key \<equiv> canonicalModelKey modelKey"
  shows "case bestReadyPriority P (candidateShards modelKey pks s) of
      None \<Rightarrow> \<forall>pk \<in> set pks. offers env key now P s pk = {}
    | Some q \<Rightarrow> (\<exists>pk \<in> set pks. \<exists>a \<in> offers env key now P s pk. authPriority a = q)
        \<and> (\<forall>pk \<in> set pks. \<forall>b \<in> offers env key now P s pk. authPriority b \<le> q)"
proof -
  define f where "f = (\<lambda>shard. case shard of None \<Rightarrow> None | Some m \<Rightarrow> highestReadyPriorityLocked False P m)"
  have s: "sched_inv env now s" using assms(1) by (simp add: refreshed_def)
  have each: "case f (shardOf modelKey pk s) of
        None \<Rightarrow> offers env key now P s pk = {}
      | Some q \<Rightarrow> (\<exists>a \<in> offers env key now P s pk. authPriority a = q) \<and> (\<forall>b \<in> offers env key now P s pk. authPriority b \<le> q)"
    if pk: "pk \<in> set pks" for pk
  proof (cases "mget (as_providers s) pk")
    case None
    then show ?thesis by (simp add: f_def shardOf_def offers_unknown)
  next
    case (Some p)
    then obtain m where m: "shardOf modelKey pk s = Some m" "current env now m"
      using assms(1) pk by (auto simp: refreshed_def)
    show ?thesis using ready_offers(3) [OF s m assms(2), folded key_def] by (simp add: f_def m(1))
  qed
  have b: "bestReadyPriority P (candidateShards modelKey pks s) = fold (\<lambda>x best. case f x of None \<Rightarrow> best
      | Some q \<Rightarrow> (case best of None \<Rightarrow> Some q | Some b \<Rightarrow> if q > b then Some q else best)) (map (\<lambda>pk. shardOf modelKey pk s) pks) None"
    by (simp add: bestReadyPriority_def candidateShards_def f_def)
  note fold = best_fold [where f = f and xs = "map (\<lambda>pk. shardOf modelKey pk s) pks" and best = None, folded b]
  show ?thesis
  proof (cases "bestReadyPriority P (candidateShards modelKey pks s)")
    case None
    then have "\<forall>pk \<in> set pks. f (shardOf modelKey pk s) = None" using fold by simp
    then show ?thesis using each by (simp add: None)
  next
    case (Some q)
    obtain pk where pk: "pk \<in> set pks" "f (shardOf modelKey pk s) = Some q" using fold by (auto simp: Some)
    have "authPriority b \<le> q" if b: "qk \<in> set pks" "b \<in> offers env key now P s qk" for qk b
    proof -
      obtain c where c: "f (shardOf modelKey qk s) = Some c" using each [OF b(1)] b(2) by (cases "f (shardOf modelKey qk s)") auto
      then have "c \<le> q" using fold b(1) by (auto simp: Some)
      then show ?thesis using each [OF b(1)] b(2) by (force simp: c)
    qed
    then show ?thesis using each [OF pk(1)] pk by (auto simp: Some)
  qed
qed

section \<open>The loops over the providers\<close>

lemma putShard_refreshed:
  assumes "refreshed env modelKey now pks s" and "shardOf modelKey pk s = Some m"
    and "\<And>auths key. shard_ok env now auths key m \<Longrightarrow> shard_ok env now auths key m'" and "current env now m \<Longrightarrow> current env now m'"
  shows "pick_safe env now s (putShard pk modelKey m' s)" and "refreshed env modelKey now pks (putShard pk modelKey m' s)"
proof -
  have s: "sched_inv env now s" using assms(1) by (simp add: refreshed_def)
  obtain p where p: "mget (as_providers s) pk = Some p" "shard_ok env now (ps_auths p) (canonicalModelKey modelKey) m"
    using shardOf_ok [OF s assms(2)] by blast
  from putShard_safe [OF s p(1) assms(3) [OF p(2)]] show safe: "pick_safe env now s (putShard pk modelKey m' s)" .
  have sh: "shardOf modelKey qk (putShard pk modelKey m' s) = (if qk = pk then Some m' else shardOf modelKey qk s)"
    "mget (as_providers (putShard pk modelKey m' s)) qk = None \<longleftrightarrow> mget (as_providers s) qk = None" for qk
    by (auto simp: putShard_def p(1) shardOf_def go_map)
  have "pk \<in> set pks \<Longrightarrow> current env now m'" using assms(1,2,4) p(1) by (auto simp: refreshed_def)
  then show "refreshed env modelKey now pks (putShard pk modelKey m' s)"
    using assms(1) safe unfolding refreshed_def by (auto simp: sh pick_safe_def)
qed

lemma pick_keeps_current: "current env now m \<Longrightarrow> current env now (snd (pickReadyAtPriorityLocked w q strategy P m))"
  by (auto simp: pickReadyAtPriorityLocked_def current_def split: option.splits prod.splits)

lemma pickAtProvider_spec:
  fixes modelKey
  assumes "refreshed env modelKey now pks s" and "pk \<in> set pks" and "meta_only P" and "strategy \<noteq> schedulerStrategyWeightedRoundRobin"
  defines "key \<equiv> canonicalModelKey modelKey"
  shows "case fst (pickAtProvider modelKey q strategy P pk s) of
      None \<Rightarrow> \<forall>a \<in> offers env key now P s pk. authPriority a \<noteq> q
    | Some a \<Rightarrow> a \<in> offers env key now P s pk \<and> authPriority a = q"
    and "pick_safe env now s (snd (pickAtProvider modelKey q strategy P pk s))"
    and "refreshed env modelKey now pks (snd (pickAtProvider modelKey q strategy P pk s))"
proof -
  have s: "sched_inv env now s" using assms(1) by (simp add: refreshed_def)
  have "(case fst (pickAtProvider modelKey q strategy P pk s) of
      None \<Rightarrow> \<forall>a \<in> offers env key now P s pk. authPriority a \<noteq> q
    | Some a \<Rightarrow> a \<in> offers env key now P s pk \<and> authPriority a = q)
    \<and> pick_safe env now s (snd (pickAtProvider modelKey q strategy P pk s))
    \<and> refreshed env modelKey now pks (snd (pickAtProvider modelKey q strategy P pk s))"
  proof (cases "mget (as_providers s) pk")
    case None
    then show ?thesis using assms(1) by (simp add: pickAtProvider_def shardOf_def offers_unknown pick_safe_def s)
  next
    case (Some p)
    then obtain m where m: "shardOf modelKey pk s = Some m" "current env now m"
      using assms(1,2) by (auto simp: refreshed_def)
    note r = ready_offers(1,2) [OF s m assms(3), folded key_def]
    obtain picked m' where pk: "pickReadyAtPriorityLocked False q strategy P m = (picked, m')" by fastforce
    have "pick_safe env now s (putShard pk modelKey m' s) \<and> refreshed env modelKey now pks (putShard pk modelKey m' s)"
      using putShard_refreshed [OF assms(1) m(1), of m'] pick_keeps_shard [of env now _ _ m False q strategy P]
        pick_keeps_current [of env now m False q strategy P] by (simp add: pk)
    moreover have "case map_option se_auth picked of
        None \<Rightarrow> \<forall>a \<in> offers env key now P s pk. authPriority a \<noteq> q
      | Some a \<Rightarrow> a \<in> offers env key now P s pk \<and> authPriority a = q"
    proof (cases "filter P (readyAt m q) = []")
      case True
      have "map_option se_auth picked = None" using priority_pick [OF r(2), of False q strategy P] True by (simp add: pk usable_def)
      moreover have "{a \<in> offers env key now P s pk. authPriority a = q} = {}" unfolding r(1) [symmetric] by (simp add: True)
      ultimately show ?thesis by auto
    next
      case False
      let ?U = "map se_auth (filter P (readyAt m q))"
      have c: "map_option se_auth picked = selectorChoice strategy ?U (chosenView False P m q)"
        using priority_pick [OF r(2), of False q strategy P] False by (simp add: pk usable_def)
      have U: "set ?U = {a \<in> offers env key now P s pk. authPriority a = q}" using r(1) [of q] by simp
      have "?U \<noteq> []" using False by simp
      then obtain a where "map_option se_auth picked = Some a" "a \<in> set ?U"
        using selectorChoice_mem [of ?U] assms(4) unfolding c by (metis option.exhaust)
      then show ?thesis unfolding U by (auto split: option.split)
    qed
    ultimately show ?thesis by (simp add: pickAtProvider_def m(1) pk)
  qed
  then show "case fst (pickAtProvider modelKey q strategy P pk s) of
      None \<Rightarrow> \<forall>a \<in> offers env key now P s pk. authPriority a \<noteq> q
    | Some a \<Rightarrow> a \<in> offers env key now P s pk \<and> authPriority a = q"
    "pick_safe env now s (snd (pickAtProvider modelKey q strategy P pk s))"
    "refreshed env modelKey now pks (snd (pickAtProvider modelKey q strategy P pk s))" by blast+
qed

definition mixed_result :: "Env \<Rightarrow> string \<Rightarrow> time \<Rightarrow> (scheduledAuth \<Rightarrow> bool) \<Rightarrow> int \<Rightarrow> string list \<Rightarrow> authScheduler
    \<Rightarrow> (Auth \<times> string) option \<Rightarrow> bool" where
  \<comment> \<open>a pick at a priority returns a credential of this priority with its provider, if there is one\<close>
  "mixed_result env key now P q pks s r \<longleftrightarrow>
     (case r of
        None \<Rightarrow> \<forall>pk \<in> set pks. \<forall>a \<in> offers env key now P s pk. authPriority a \<noteq> q
      | Some (a, pk) \<Rightarrow> pk \<in> set pks \<and> a \<in> offers env key now P s pk \<and> authPriority a = q)"

lemma fill_first_spec:
  fixes modelKey
  assumes "refreshed env modelKey now pks s" and "set rest \<subseteq> set pks" and "meta_only P"
  defines "key \<equiv> canonicalModelKey modelKey"
  shows "mixed_result env key now P q rest s (fst (mixed_fill_first modelKey q P rest s))"
    and "pick_safe env now s (snd (mixed_fill_first modelKey q P rest s))"
proof -
  have "mixed_result env key now P q rest s (fst (mixed_fill_first modelKey q P rest s))
      \<and> pick_safe env now s (snd (mixed_fill_first modelKey q P rest s))"
    using assms(1,2)
  proof (induction rest arbitrary: s)
    case Nil
    then show ?case by (simp add: mixed_result_def pick_safe_def refreshed_def)
  next
    case (Cons pk rest)
    note sp = pickAtProvider_spec [where q = q and strategy = schedulerStrategyFillFirst, OF Cons.prems(1) _ assms(3), of pk, folded key_def]
    obtain x s' where pick: "pickAtProvider modelKey q schedulerStrategyFillFirst P pk s = (x, s')" by fastforce
    have off: "offers env key now P s' qk = offers env key now P s qk" for qk
      using sp(2) Cons.prems(2) offers_same by (simp add: pick pick_safe_def)
    show ?case
    proof (cases x)
      case None
      have "refreshed env modelKey now pks s'" "pick_safe env now s s'" using sp Cons.prems(2) by (simp_all add: pick)
      then show ?thesis
        using Cons.IH [of s'] Cons.prems(2) sp(1) pick_safe_trans [of env now s s' now]
        by (auto simp: pick None mixed_result_def off split: option.splits)
    next
      case (Some a)
      then show ?thesis using sp Cons.prems(2) by (simp add: pick mixed_result_def)
    qed
  qed
  then show "mixed_result env key now P q rest s (fst (mixed_fill_first modelKey q P rest s))"
    "pick_safe env now s (snd (mixed_fill_first modelKey q P rest s))" by blast+
qed

text \<open>The weighted pick goes over the ready credentials of all the providers at once.\<close>

lemma scheduled_fold_mem:
  "case fold (scheduled_credit P) flat (c, x, pc, t) of (c', x', pc', t') \<Rightarrow> \<forall>e. x' = Some e \<longrightarrow> x = Some e \<or> (e \<in> set flat \<and> P e)"
proof (induction flat arbitrary: c x pc t)
  case (Cons e flat)
  obtain c1 x1 pc1 t1 where s: "scheduled_credit P e (c, x, pc, t) = (c1, x1, pc1, t1)" by (metis prod_cases4)
  have "x1 = x \<or> (x1 = Some e \<and> P e)" using s by (auto simp: scheduled_credit_def Let_def split: if_splits)
  then show ?case using Cons.IH [where c = c1 and x = x1 and pc = pc1 and t = t1] s by (auto split: prod.splits)
qed simp

lemma scheduled_pick_mem: "fst (pickSmoothWeightedScheduled flat c P) = Some e \<Longrightarrow> e \<in> set flat \<and> P e"
  using scheduled_fold_mem [where P = P and flat = flat and c = c and x = None and pc = 0 and t = 0]
  by (auto simp: pickSmoothWeightedScheduled_def split: prod.splits option.splits)

definition mergedEntries :: "string \<Rightarrow> int \<Rightarrow> string list \<Rightarrow> authScheduler \<Rightarrow> scheduledAuth list" where
  "mergedEntries modelKey q pks s = sort_key se_id (concat (map (\<lambda>shard. case shard of
       None \<Rightarrow> []
     | Some m \<Rightarrow> (case mget (sh_readyByPriority m) q of
         None \<Rightarrow> [] | Some bucket \<Rightarrow> entries_of m (rv_flat (rb_all bucket)))) (candidateShards modelKey pks s)))"

lemma mergedEntries_mem:
  fixes modelKey
  assumes "refreshed env modelKey now pks s" and "meta_only P"
  defines "key \<equiv> canonicalModelKey modelKey"
  shows "e \<in> set (mergedEntries modelKey q pks s) \<Longrightarrow> derived (se_meta e)"
    and "e \<in> set (mergedEntries modelKey q pks s) \<Longrightarrow> P e \<Longrightarrow> sm_providerKey (se_meta e) \<in> set pks
       \<and> se_auth e \<in> offers env key now P s (sm_providerKey (se_meta e)) \<and> authPriority (se_auth e) = q"
    and "pk \<in> set pks \<Longrightarrow> a \<in> offers env key now P s pk \<Longrightarrow> authPriority a = q \<Longrightarrow>
       a \<in> se_auth ` set (filter P (mergedEntries modelKey q pks s))"
proof -
  have s: "sched_inv env now s" using assms(1) by (simp add: refreshed_def)
  have flat: "(case mget (sh_readyByPriority m) q of None \<Rightarrow> [] | Some bucket \<Rightarrow> entries_of m (rv_flat (rb_all bucket))) = readyAt m q"
    if "shard_inv env now m" for m
    using views(1) [OF that] indexedD(1) that
    by (cases "mget (sh_readyByPriority m) q") (auto simp: view_ok_def shard_inv_def)
  have mem: "e \<in> set (mergedEntries modelKey q pks s) \<longleftrightarrow> (\<exists>pk m. pk \<in> set pks \<and> shardOf modelKey pk s = Some m \<and> e \<in> set (readyAt m q))" for e
  proof -
    have inv: "shard_inv env now m" if "shardOf modelKey pk s = Some m" for pk m
      using shardOf_ok [OF s that] by (auto simp: shard_ok_def)
    have "mergedEntries modelKey q pks s
        = sort_key se_id (concat (map (\<lambda>pk. case shardOf modelKey pk s of None \<Rightarrow> [] | Some m \<Rightarrow> readyAt m q) pks))"
      unfolding mergedEntries_def candidateShards_def map_map comp_def
      by (rule arg_cong [where f = "\<lambda>xs. sort_key se_id (concat xs)"], rule map_cong [OF refl])
        (simp add: flat inv split: option.split)
    moreover have "e \<in> set (case x of None \<Rightarrow> [] | Some m \<Rightarrow> g m) \<longleftrightarrow> (\<exists>m. x = Some m \<and> e \<in> set (g m))"
      for x :: "modelScheduler option" and g by (cases x) simp_all
    ultimately show ?thesis by (simp add: Bex_def)
  qed
  have cur: "current env now m" if "pk \<in> set pks" "shardOf modelKey pk s = Some m" for pk m
    using assms(1) that by (auto simp: refreshed_def shardOf_def split: option.splits)
  have one: "derived (se_meta e) \<and> sm_providerKey (se_meta e) = pk \<and> (P e \<longrightarrow> se_auth e \<in> offers env key now P s pk \<and> authPriority (se_auth e) = q)"
    if in_pk: "pk \<in> set pks" "shardOf modelKey pk s = Some m" "e \<in> set (readyAt m q)" for e pk m
  proof -
    obtain p where p: "mget (as_providers s) pk = Some p" "shard_ok env now (ps_auths p) key m" "auths_ok pk (ps_auths p)"
      using shardOf_ok [OF s in_pk(2)] unfolding key_def by blast
    have ok: "entries_ok env now m" using p(2) by (simp add: shard_ok_def shard_inv_def)
    have "e \<in> snd ` set (sh_entries m)" using in_pk(3) by (simp add: readyAt_members)
    then have "mget (sh_entries m) (se_id e) = Some e" using member_id [OF ok] entries_okD(2) [OF ok] by blast
    then have "served (ps_auths p) key (se_id e) = Some (se_meta e)" using p(2) unfolding shard_ok_def by (metis option.simps(9))
    then have "mget (ps_auths p) (se_id e) = Some (se_meta e)" by (auto simp: served_def split: option.splits if_splits)
    then have "derived (se_meta e) \<and> sm_providerKey (se_meta e) = pk" using p(3) by (simp add: auths_ok_def)
    moreover have "P e \<Longrightarrow> se_auth e \<in> {a \<in> offers env key now P s pk. authPriority a = q}"
      unfolding ready_offers(1) [OF s in_pk(2) cur [OF in_pk(1,2)] assms(2), folded key_def, symmetric] using in_pk(3) by auto
    ultimately show ?thesis by simp
  qed
  show "e \<in> set (mergedEntries modelKey q pks s) \<Longrightarrow> derived (se_meta e)" using one by (auto simp: mem)
  show "e \<in> set (mergedEntries modelKey q pks s) \<Longrightarrow> P e \<Longrightarrow> sm_providerKey (se_meta e) \<in> set pks
       \<and> se_auth e \<in> offers env key now P s (sm_providerKey (se_meta e)) \<and> authPriority (se_auth e) = q"
    using one by (auto simp: mem)
  show "a \<in> se_auth ` set (filter P (mergedEntries modelKey q pks s))"
    if pk: "pk \<in> set pks" and a: "a \<in> offers env key now P s pk" "authPriority a = q"
  proof -
    have "mget (as_providers s) pk \<noteq> None" using a(1) offers_unknown by (metis empty_iff)
    then obtain m where m: "shardOf modelKey pk s = Some m" "current env now m" using assms(1) pk unfolding refreshed_def by blast
    have "a \<in> se_auth ` set (filter P (readyAt m q))"
      unfolding ready_offers(1) [OF s m assms(2), folded key_def] using a by simp
    then show ?thesis using m(1) pk by (auto simp: mem image_iff)
  qed
qed

lemma weighted_spec:
  fixes modelKey
  assumes "refreshed env modelKey now pks s" and "meta_only P" and "weighs schedulerStrategyWeightedRoundRobin P"
  defines "key \<equiv> canonicalModelKey modelKey"
  shows "mixed_result env key now P q pks s
      (map_option (\<lambda>e. (se_auth e, sm_providerKey (se_meta e))) (fst (mixed_weighted modelKey q P pks s)))"
    and "pick_safe env now s (snd (mixed_weighted modelKey q P pks s))"
proof -
  note mem = mergedEntries_mem [OF assms(1,2), where q = q, folded key_def]
  let ?E = "mergedEntries modelKey q pks s" and ?F = "map se_auth (filter P (mergedEntries modelKey q pks s))"
  define c where "c = sw_current (smooth_prepare (scheduledWeightVectorMatching ?E P)
    (mgetd zeroWeighted (as_mixedWeightedStates s) (cursorKeyOf pks modelKey)))"
  have c: "fst (mixed_weighted modelKey q P pks s) = fst (pickSmoothWeightedScheduled ?E c P)"
    by (cases "pickSmoothWeightedScheduled ?E c P")
      (simp add: mixed_weighted_def mergedEntries_def [symmetric] Let_def c_def [symmetric])
  have d: "\<forall>e \<in> set ?E. derived (se_meta e)" using mem(1) by blast
  note pick = pickSmoothWeighted_filter(1) [OF d, of c P, folded c]
  show "mixed_result env key now P q pks s
      (map_option (\<lambda>e. (se_auth e, sm_providerKey (se_meta e))) (fst (mixed_weighted modelKey q P pks s)))"
  proof (cases "fst (mixed_weighted modelKey q P pks s)")
    case None
    have pos: "0 < authWeight a" if a: "a \<in> set ?F" for a
    proof -
      obtain e where e: "e \<in> set ?E" "P e" "a = se_auth e" using a by auto
      then have "0 < sm_weight (se_meta e)" using assms(2,3) unfolding weighs_def meta_only_def by blast
      then show ?thesis using d e by (auto simp: derived_def)
    qed
    have "fst (pickSmoothWeightedAuth ?F c) = None" using pick None by simp
    then have F: "filter P ?E = []" using smooth_pick_mem(2) [of ?F c] pos by (cases "filter P ?E") auto
    show ?thesis using mem(3) unfolding F by (simp add: None mixed_result_def) blast
  next
    case (Some e)
    then have "se_auth e \<in> set ?F" using pick smooth_pick_mem(1) [of ?F c] by simp
    moreover have e: "e \<in> set ?E \<and> P e" using Some scheduled_pick_mem unfolding c by blast
    ultimately show ?thesis using mem(2) [of e] by (simp add: Some mixed_result_def)
  qed
  show "pick_safe env now s (snd (mixed_weighted modelKey q P pks s))"
    using assms(1) by (simp add: mixed_weighted_def Let_def pick_safe_def refreshed_def split: prod.split)
qed

text \<open>The round robin: the provider whose segment of ready credentials holds the slot is asked first, and it has one.\<close>

lemma segments_nth:
  "i < length ws \<Longrightarrow> segments start ws ! i = (ws ! i, start + sum_list (take i ws), start + sum_list (take (Suc i) ws))"
proof (induction ws arbitrary: start i)
  case (Cons w ws)
  then show ?case by (cases i) simp_all
qed simp

lemma segment_of_slot:
  fixes ws :: "nat list"
  assumes "slot < sum_list ws"
  obtains i where "find (\<lambda>i. ws ! i \<noteq> 0 \<and> slot < sum_list (take (Suc i) ws)) [0..<length ws] = Some i"
    and "i < length ws" and "sum_list (take i ws) \<le> slot" and "slot < sum_list (take (Suc i) ws)"
proof -
  define P where "P = (\<lambda>i. ws ! i \<noteq> 0 \<and> slot < sum_list (take (Suc i) ws))"
  define i where "i = (LEAST i. slot < sum_list (take (Suc i) ws))"
  have ex: "slot < sum_list (take (Suc (length ws)) ws)" using assms by simp
  have i: "slot < sum_list (take (Suc i) ws)" unfolding i_def using ex by (rule LeastI)
  have least: "sum_list (take (Suc j) ws) \<le> slot" if "j < i" for j
    using not_less_Least [OF that [unfolded i_def]] by simp
  have low: "sum_list (take i ws) \<le> slot" using least [of "i - 1"] by (cases i) simp_all
  have len: "i < length ws"
  proof (rule ccontr)
    assume "\<not> i < length ws"
    then show False using low assms by simp
  qed
  then have "ws ! i \<noteq> 0" using i low by (auto simp: take_Suc_conv_app_nth)
  then have "find P [0..<length ws] = Some i"
    unfolding find_Some_iff using len i least by (intro exI [of _ i]) (auto simp: P_def not_less)
  then show thesis using that [of i] len low i by (simp add: P_def)
qed

lemma readyCount_offers:
  fixes modelKey
  assumes "refreshed env modelKey now pks s" and "pk \<in> set pks" and "meta_only P"
  defines "key \<equiv> canonicalModelKey modelKey"
  shows "(case shardOf modelKey pk s of None \<Rightarrow> 0 | Some m \<Rightarrow> readyCountAtPriorityLocked False q P m)
    = card {a \<in> offers env key now P s pk. authPriority a = q}"
proof -
  have s: "sched_inv env now s" using assms(1) by (simp add: refreshed_def)
  show ?thesis
  proof (cases "mget (as_providers s) pk")
    case None
    then show ?thesis by (simp add: shardOf_def offers_unknown)
  next
    case (Some p)
    then obtain m where m: "shardOf modelKey pk s = Some m" "current env now m"
      using assms(1,2) by (auto simp: refreshed_def)
    note r = ready_offers(1,2) [OF s m assms(3), folded key_def]
    have "readyCountAtPriorityLocked False q P m = length (filter P (readyAt m q))"
    proof (cases "mget (sh_readyByPriority m) q")
      case None
      then show ?thesis using indexedD(1) [OF _ None] r(2) by (simp add: readyCountAtPriorityLocked_def shard_inv_def)
    next
      case (Some b)
      then show ?thesis using views(1) [OF r(2) Some] by (simp add: readyCountAtPriorityLocked_def view_ok_def)
    qed
    moreover have dist: "distinct (map se_auth (filter P (readyAt m q)))"
    proof -
      have "distinct (map (au_ID \<circ> se_auth) (filter P (readyAt m q)))"
        using ready_set(4) [OF r(2) m(2), of q] by (simp add: distinct_map_filter comp_def)
      then show ?thesis by (metis distinct_map map_map)
    qed
    moreover from distinct_card [OF dist] have "card {a \<in> offers env key now P s pk. authPriority a = q} = length (filter P (readyAt m q))"
      unfolding r(1) [symmetric] by simp
    ultimately show ?thesis by (simp add: m(1))
  qed
qed

lemma round_robin_spec:
  fixes modelKey and q :: int
  assumes "refreshed env modelKey now pks s" and "meta_only P"
  defines "key \<equiv> canonicalModelKey modelKey"
  defines "ws \<equiv> map (\<lambda>pk. card {a \<in> offers env key now P s pk. authPriority a = q}) pks"
  defines "slot \<equiv> mgetd 0 (as_mixedCursors s) (cursorKeyOf pks modelKey) mod sum_list ws"
  shows "mixed_result env key now P q pks s (fst (mixed_round_robin modelKey q P pks s))"
    and "pick_safe env now s (snd (mixed_round_robin modelKey q P pks s))"
    and "0 < sum_list ws \<Longrightarrow> \<exists>a i. fst (mixed_round_robin modelKey q P pks s) = Some (a, pks ! i) \<and> i < length pks
        \<and> sum_list (take i ws) \<le> slot \<and> slot < sum_list (take (Suc i) ws)
        \<and> mget (as_mixedCursors (snd (mixed_round_robin modelKey q P pks s))) (cursorKeyOf pks modelKey) = Some (slot + 1)"
proof -
  have ws: "map (\<lambda>shard. case shard of None \<Rightarrow> 0 | Some m \<Rightarrow> readyCountAtPriorityLocked False q P m) (candidateShards modelKey pks s) = ws"
    using readyCount_offers [OF assms(1) _ assms(2), of _ q] by (simp add: candidateShards_def ws_def key_def)
  have s: "sched_inv env now s" using assms(1) by (simp add: refreshed_def)
  have len: "length ws = length pks" by (simp add: ws_def)
  have fin: "finite (offers env key now P s pk)" for pk
  proof (cases "mget (as_providers s) pk")
    case (Some p)
    then show ?thesis using offers_candidates [OF s Some] by simp
  qed (simp add: offers_unknown)
  have zero: "mixed_round_robin modelKey q P pks s = (None, s)" if "sum_list ws = 0"
    unfolding mixed_round_robin_def Let_def ws using that by simp
  have run: "\<exists>a i s'. mixed_round_robin modelKey q P pks s = (Some (a, pks ! i), s') \<and> i < length pks
      \<and> sum_list (take i ws) \<le> slot \<and> slot < sum_list (take (Suc i) ws)
      \<and> mget (as_mixedCursors s') (cursorKeyOf pks modelKey) = Some (slot + 1)
      \<and> a \<in> offers env key now P s (pks ! i) \<and> authPriority a = q \<and> pick_safe env now s s'" if pos: "0 < sum_list ws"
  proof -
    have nz: "sum_list ws \<noteq> 0" using pos by linarith
    have slot: "slot < sum_list ws" unfolding slot_def using pos by simp
    obtain i where i: "find (\<lambda>i. ws ! i \<noteq> 0 \<and> slot < sum_list (take (Suc i) ws)) [0..<length ws] = Some i"
      "i < length ws" "sum_list (take i ws) \<le> slot" "slot < sum_list (take (Suc i) ws)" using segment_of_slot [OF slot] by blast
    have ipk: "pks ! i \<in> set pks" using i(2) len by simp
    have wi: "ws ! i \<noteq> 0" using i(3,4) i(2) by (auto simp: take_Suc_conv_app_nth)
    have seg: "find (\<lambda>i. fst (segments 0 ws ! i) \<noteq> 0 \<and> slot < snd (snd (segments 0 ws ! i))) [0..<length pks] = Some i"
      unfolding i(1) [symmetric] len by (rule find_cong [OF refl]) (simp add: segments_nth len)
    obtain x s' where pick: "pickAtProvider modelKey q schedulerStrategyRoundRobin P (pks ! i) s = (x, s')" by fastforce
    note sp = pickAtProvider_spec [where q = q and strategy = schedulerStrategyRoundRobin, OF assms(1) ipk assms(2),
      folded key_def, unfolded pick fst_conv snd_conv]
    have "ws ! i = card {a \<in> offers env key now P s (pks ! i). authPriority a = q}" using i(2) len by (simp add: ws_def)
    then have "{a \<in> offers env key now P s (pks ! i). authPriority a = q} \<noteq> {}" using wi by (intro notI) (simp only: card.empty)
    then obtain a where a: "x = Some a" using sp(1) by (cases x) auto
    have range: "[0..<length pks] = 0 # [Suc 0..<length pks]" by (rule upt_conv_Cons) (use i(2) len in linarith)
    have "mixed_round_robin modelKey q P pks s = (Some (a, pks ! i),
        s'\<lparr>as_mixedCursors := mput (cursorKeyOf pks modelKey) (slot + 1) (as_mixedCursors s')\<rparr>)"
      unfolding mixed_round_robin_def Let_def ws slot_def [symmetric] seg option.case if_not_P [OF nz]
      using i(2) len wi by (simp add: range segments_nth pick a)
    then show ?thesis using i len a sp by (auto simp: go_map pick_safe_def)
  qed
  have none: "mixed_result env key now P q pks s None" if "sum_list ws = 0"
    using that fin by (auto simp: mixed_result_def ws_def card_eq_0_iff)
  show "mixed_result env key now P q pks s (fst (mixed_round_robin modelKey q P pks s))"
  proof (cases "sum_list ws = 0")
    case False
    then obtain a i s' where "mixed_round_robin modelKey q P pks s = (Some (a, pks ! i), s')" "i < length pks"
      "a \<in> offers env key now P s (pks ! i)" "authPriority a = q" using run by blast
    then show ?thesis by (simp add: mixed_result_def)
  qed (simp add: zero none)
  show "pick_safe env now s (snd (mixed_round_robin modelKey q P pks s))"
  proof (cases "sum_list ws = 0")
    case False
    then obtain a i s' where "mixed_round_robin modelKey q P pks s = (Some (a, pks ! i), s')" "pick_safe env now s s'"
      using run by blast
    then show ?thesis by simp
  qed (simp add: zero pick_safe_def s)
  show "0 < sum_list ws \<Longrightarrow> \<exists>a i. fst (mixed_round_robin modelKey q P pks s) = Some (a, pks ! i) \<and> i < length pks
        \<and> sum_list (take i ws) \<le> slot \<and> slot < sum_list (take (Suc i) ws)
        \<and> mget (as_mixedCursors (snd (mixed_round_robin modelKey q P pks s))) (cursorKeyOf pks modelKey) = Some (slot + 1)"
    using run by fastforce
qed

end
