(* ===== verification/SchedulerRuns.thy ===== *)
theory SchedulerRuns
  imports SchedulerMixed
begin

text \<open>
  Runs of the scheduler: every operation, in every order, at times that do not go back. Every state that a run
  reaches has well formed indexes and keeps every credential with one provider, under the stamp that is recorded
  for it; the two picks meet their contract there.
\<close>

section \<open>The picks as a whole\<close>

lemma ensureShard_refreshed:
  assumes "refreshed env modelKey now D s" and "0 \<le> now"
  shows "refreshed env modelKey now (pk # D) (ensureShard env modelKey now pk s)"
proof -
  have s: "sched_inv env now s" using assms(1) by (simp add: refreshed_def)
  have safe: "pick_safe env now s (ensureShard env modelKey now pk s)" using ensureShard_safe [OF s order_refl assms(2)] .
  have "\<exists>m. shardOf modelKey qk (ensureShard env modelKey now pk s) = Some m \<and> current env now m"
    if qk: "qk = pk \<or> qk \<in> set D" "mget (as_providers (ensureShard env modelKey now pk s)) qk \<noteq> None" for qk
  proof (cases "mget (as_providers s) pk")
    case None
    then show ?thesis using assms(1) qk by (auto simp: refreshed_def ensureShard_def)
  next
    case (Some p)
    have "provider_inv env now pk p" using s Some by (simp add: sched_inv_def)
    note e = ensureModel(2,5) [OF this order_refl assms(2), of modelKey]
    show ?thesis
    proof (cases "qk = pk")
      case True
      then show ?thesis using e by (simp add: ensureShard_def Some shardOf_def go_map)
    next
      case False
      then show ?thesis using assms(1) qk by (auto simp: refreshed_def ensureShard_def Some shardOf_def go_map)
    qed
  qed
  then show ?thesis using safe by (simp add: refreshed_def pick_safe_def)
qed

lemma ensureShards_refreshed:
  assumes "sched_inv env t s" and "t \<le> now" and "0 \<le> now"
  shows "refreshed env modelKey now pks (fold (ensureShard env modelKey now) pks s)"
proof -
  have "refreshed env modelKey now (rev pks @ D) (fold (ensureShard env modelKey now) pks s')"
    if "refreshed env modelKey now D s'" for D s'
    using that
  proof (induction pks arbitrary: D s')
    case (Cons pk pks)
    show ?case using Cons.IH [OF ensureShard_refreshed [OF Cons.prems assms(3)]] by simp
  qed simp
  from this [of "[]" s] sched_inv_mono [OF assms(1,2)] show ?thesis by (simp add: refreshed_def)
qed

lemma pickSingle_safe:
  assumes "sched_inv env t s" and "0 \<le> t" and "t \<le> t0" and "t0 \<le> t1"
  shows "pick_safe env t1 s (snd (pickSingleWithStrategy env (t0, t1, t2) provider req strategy s))"
proof -
  have "pick_safe env t1 s s" using sched_inv_mono [OF assms(1)] assms(3,4) by (simp add: pick_safe_def)
  then show ?thesis using pickShard_safe [OF assms(1) _ assms(2-4)]
    by (simp add: pickSingleWithStrategy_def Let_def split: option.split)
qed

lemma mixed_fails_safe:
  assumes "sched_inv env t s" and "t \<le> t2" and "0 \<le> t2"
  shows "pick_safe env t2 s (snd (mixed_fails env t2 pks model P s))" and "\<exists>e. fst (mixed_fails env t2 pks model P s) = Inl e"
  using ensureShards_safe [OF assms] by (simp_all add: mixed_fails_def mixedUnavailableErrorLocked_def Let_def)

text \<open>A pick at the best priority, or the error: the end of the pick over several providers.\<close>

definition mixed_body ::
  "Env \<Rightarrow> clock \<Rightarrow> string list \<Rightarrow> string \<Rightarrow> schedulerStrategy \<Rightarrow> (scheduledAuth \<Rightarrow> bool) \<Rightarrow> authScheduler
     \<Rightarrow> (Auth \<times> string) option \<times> authScheduler" where
  "mixed_body env clk pks modelKey strategy P s1 =
     (case bestReadyPriority P (candidateShards modelKey pks s1) of
        None \<Rightarrow> (None, s1)
      | Some q \<Rightarrow>
          (if strategy = schedulerStrategyFillFirst then mixed_fill_first modelKey q P pks s1
           else if strategy = schedulerStrategyWeightedRoundRobin then
             (case mixed_weighted modelKey q P pks s1 of (r, s') \<Rightarrow> (map_option (\<lambda>e. (se_auth e, sm_providerKey (se_meta e))) r, s'))
           else mixed_round_robin modelKey q P pks s1))"

lemma mixed_body_spec:
  fixes modelKey
  assumes "refreshed env modelKey now pks s" and "meta_only P" and "weighs strategy P"
  defines "key \<equiv> canonicalModelKey modelKey"
  shows "case fst (mixed_body env clk pks modelKey strategy P s) of
      None \<Rightarrow> \<forall>pk \<in> set pks. offers env key now P s pk = {}
    | Some (a, pk) \<Rightarrow> pk \<in> set pks \<and> a \<in> offers env key now P s pk
        \<and> (\<forall>qk \<in> set pks. \<forall>b \<in> offers env key now P s qk. authPriority b \<le> authPriority a)"
    and "pick_safe env now s (snd (mixed_body env clk pks modelKey strategy P s))"
proof -
  have s: "sched_inv env now s" using assms(1) by (simp add: refreshed_def)
  have "(case fst (mixed_body env clk pks modelKey strategy P s) of
      None \<Rightarrow> \<forall>pk \<in> set pks. offers env key now P s pk = {}
    | Some (a, pk) \<Rightarrow> pk \<in> set pks \<and> a \<in> offers env key now P s pk
        \<and> (\<forall>qk \<in> set pks. \<forall>b \<in> offers env key now P s qk. authPriority b \<le> authPriority a))
    \<and> pick_safe env now s (snd (mixed_body env clk pks modelKey strategy P s))"
  proof (cases "bestReadyPriority P (candidateShards modelKey pks s)")
    case None
    then show ?thesis using best_offers [OF assms(1,2)] by (simp add: mixed_body_def pick_safe_def s key_def)
  next
    case (Some q)
    note best = best_offers [OF assms(1,2), unfolded Some option.case, folded key_def]
    have r: "mixed_result env key now P q pks s (fst (mixed_body env clk pks modelKey strategy P s))
        \<and> pick_safe env now s (snd (mixed_body env clk pks modelKey strategy P s))"
    proof (cases "strategy = schedulerStrategyWeightedRoundRobin")
      case True
      then have "weighs schedulerStrategyWeightedRoundRobin P" using assms(3) by simp
      from weighted_spec [OF assms(1,2) this, where q = q] True show ?thesis
        by (cases "mixed_weighted modelKey q P pks s") (simp add: mixed_body_def Some key_def)
    next
      case False
      then show ?thesis
        using fill_first_spec [OF assms(1) order_refl assms(2), where q = q] round_robin_spec(1,2) [OF assms(1,2), where q = q]
        by (simp add: mixed_body_def Some key_def)
    qed
    show ?thesis
    proof (cases "fst (mixed_body env clk pks modelKey strategy P s)")
      case None
      then have False using r best by (auto simp: mixed_result_def)
      then show ?thesis ..
    next
      case (Some x)
      then show ?thesis using r best by (cases x) (auto simp: mixed_result_def)
    qed
  qed
  then show "case fst (mixed_body env clk pks modelKey strategy P s) of
      None \<Rightarrow> \<forall>pk \<in> set pks. offers env key now P s pk = {}
    | Some (a, pk) \<Rightarrow> pk \<in> set pks \<and> a \<in> offers env key now P s pk
        \<and> (\<forall>qk \<in> set pks. \<forall>b \<in> offers env key now P s qk. authPriority b \<le> authPriority a)"
    "pick_safe env now s (snd (mixed_body env clk pks modelKey strategy P s))" by blast+
qed

lemma pickMixed_unfold:
  fixes clk req providers strategy s
  defines "pks \<equiv> normalizeProviderKeys providers" and "modelKey \<equiv> canonicalModelKey (pr_model req)"
  assumes "2 \<le> length pks" and "pr_pinnedAuthID req = []"
  defines "strategy' \<equiv> effectiveStrategy strategy s"
  shows "pickMixedWithStrategy env clk providers req strategy s =
     (case mixed_body env clk pks modelKey strategy' (requestPredicate req [] strategy') (fold (ensureShard env modelKey (fst clk)) pks s) of
        (Some r, s') \<Rightarrow> (Inr r, s')
      | (None, s') \<Rightarrow> mixed_fails env (snd (snd clk)) pks (pr_model req) (requestPredicate req [] strategy') s')"
proof -
  obtain a b rest where pks: "pks = a # b # rest" using assms(3) by (cases pks rule: remdups_adj.cases) auto
  show ?thesis
    unfolding pickMixedWithStrategy_def Let_def assms(4) pks_def [symmetric] strategy'_def [symmetric] modelKey_def [symmetric]
    unfolding pks list.case mixed_body_def
    by (simp add: case_prod_beta split: option.split prod.split)
qed

definition pick_contract ::
  "Env \<Rightarrow> time \<Rightarrow> string list \<Rightarrow> pickRequest \<Rightarrow> schedulerStrategy \<Rightarrow> authScheduler \<Rightarrow> (sched_error + Auth \<times> string) \<Rightarrow> bool" where
  \<comment> \<open>the credential is free and of the best priority that the providers offer, and comes with its provider\<close>
  "pick_contract env now pks req strategy s r \<longleftrightarrow>
     (let off = offers env (canonicalModelKey (canonicalModelKey (pr_model req))) now
            (requestPredicate req (pr_pinnedAuthID req) (effectiveStrategy strategy s)) s in
      case r of
        Inl e \<Rightarrow> \<forall>pk \<in> set pks. off pk = {}
      | Inr (a, pk) \<Rightarrow> pk \<in> set pks \<and> a \<in> off pk \<and> (\<forall>qk \<in> set pks. \<forall>b \<in> off qk. authPriority b \<le> authPriority a))"

lemma pinned_offers:
  assumes "located s" and "sched_inv env t s" and "pinned \<noteq> []" and "offers env key now (requestPredicate req pinned strategy) s pk \<noteq> {}"
  shows "mget (as_authProviders s) pinned = Some pk"
proof -
  obtain i meta where i: "holds s pk i = Some meta" "requestPredicate req pinned strategy (metaEntry meta)"
    using assms(4) by (auto simp: offers_def)
  then have "au_ID (sm_auth meta) = pinned" using assms(3) by (auto simp: requestPredicate_def scheduledAuthPredicate_def split: if_splits)
  then have "i = pinned" using sched_inv_holds(1) [OF assms(2) i(1)] by simp
  then show ?thesis using assms(1) i(1) by (simp add: located_def)
qed

lemma mixed_contract:
  assumes inv: "sched_inv env t s" "located s" and clk: "0 \<le> t" "t \<le> t0" "t0 \<le> t1"
    and two: "2 \<le> length (normalizeProviderKeys providers)"
  shows "pick_contract env (if pr_pinnedAuthID req = [] then t0 else t1) (normalizeProviderKeys providers) req strategy s
     (fst (pickMixedWithStrategy env (t0, t1, t2) providers req strategy s))"
proof (cases "pr_pinnedAuthID req = []")
  case True
  let ?pks = "normalizeProviderKeys providers" and ?st = "effectiveStrategy strategy s"
    and ?mk = "canonicalModelKey (pr_model req)"
  let ?P = "requestPredicate req [] ?st" and ?s1 = "fold (ensureShard env ?mk t0) ?pks s"
  have t0: "0 \<le> t0" using clk by simp
  note safe = ensureShards_safe [OF inv(1) clk(2) t0, of ?mk ?pks]
  note spec = mixed_body_spec(1) [where clk = "(t0, t1, t2)" and modelKey = ?mk and pks = ?pks and strategy = ?st and P = ?P,
      OF ensureShards_refreshed [OF inv(1) clk(2) t0] requestPredicate_meta_only requestPredicate_weighs]
  have off: "offers env key now P ?s1 pk = offers env key now P s pk" for key now P pk
    using safe offers_same by (simp add: pick_safe_def)
  obtain x s' where x: "mixed_body env (t0, t1, t2) ?pks ?mk ?st ?P ?s1 = (x, s')" by fastforce
  have "fst (pickMixedWithStrategy env (t0, t1, t2) providers req strategy s)
      = (case x of Some r \<Rightarrow> Inr r | None \<Rightarrow> fst (mixed_fails env t2 ?pks (pr_model req) ?P s'))"
    unfolding pickMixed_unfold [OF two True] by (simp add: x split: option.split)
  moreover have "\<exists>e. fst (mixed_fails env t2 ?pks (pr_model req) ?P s') = Inl e"
    by (simp add: mixed_fails_def split: prod.split)
  ultimately show ?thesis using spec by (auto simp: x pick_contract_def True off split: option.splits)
next
  case False
  let ?pks = "normalizeProviderKeys providers" and ?st = "effectiveStrategy strategy s" and ?mk = "canonicalModelKey (pr_model req)"
  let ?key = "canonicalModelKey ?mk" and ?P = "requestPredicate req (pr_pinnedAuthID req) ?st"
  let ?pk = "mgetd [] (as_authProviders s) (pr_pinnedAuthID req)"
  have only: "pk = ?pk \<and> pk \<noteq> []" if "offers env ?key t1 ?P s pk \<noteq> {}" for pk
    using pinned_offers [OF inv(2,1) False that] inv(2) by (auto simp: mgetd_def located_def)
  obtain a b rest where pks: "?pks = a # b # rest" using two by (cases ?pks rule: remdups_adj.cases) auto
  show ?thesis
  proof (cases "?pk = [] \<or> \<not> containsProvider ?pks ?pk \<or> mget (as_providers s) ?pk = None")
    case True
    have "offers env ?key t1 ?P s pk = {}" if "pk \<in> set ?pks" for pk
    proof (rule ccontr)
      assume ne: "offers env ?key t1 ?P s pk \<noteq> {}"
      then have "mget (as_providers s) pk \<noteq> None" using offers_unknown by metis
      moreover have "?pk = pk" "pk \<noteq> []" using only [OF ne] by metis+
      ultimately show False using True that by (simp add: containsProvider_def list_ex_iff)
    qed
    moreover have "\<exists>e. fst (pickMixedWithStrategy env (t0, t1, t2) providers req strategy s) = Inl e"
      using True False pks by (auto simp: pickMixedWithStrategy_def Let_def)
    ultimately show ?thesis using False by (auto simp: pick_contract_def)
  next
    case in_one: False
    then obtain p where p: "mget (as_providers s) ?pk = Some p" by auto
    note c = pickShard_contract [where modelKey = ?mk and ws = False and P = ?P and strategy = ?st and model = "pr_model req"
        and provider' = "''mixed''" and ?t2.0 = t2,
      OF inv(1) p clk requestPredicate_meta_only requestPredicate_weighs]
    have off: "offers env ?key t1 ?P s ?pk = {a \<in> set (providerCandidates ?key ?P p). \<not> blocked env ?key t1 a}"
      using offers_candidates [OF inv(1) p] .
    have mem: "?pk \<in> set ?pks" using in_one by (auto simp: containsProvider_def list_ex_iff)
    define r where "r = fst (pickShard env (t0, t1, t2) ?pk ?mk (pr_model req) False ?st ?P ''mixed'' p s)"
    have "fst (pickMixedWithStrategy env (t0, t1, t2) providers req strategy s) = (case r of Inl e \<Rightarrow> Inl e | Inr a \<Rightarrow> Inr (a, ?pk))"
      using in_one False p pks by (simp add: pickMixedWithStrategy_def Let_def r_def split: prod.split sum.split)
    moreover have "case r of Inl e \<Rightarrow> offers env ?key t1 ?P s ?pk = {}
        | Inr a \<Rightarrow> a \<in> offers env ?key t1 ?P s ?pk \<and> (\<forall>b \<in> offers env ?key t1 ?P s ?pk. authPriority b \<le> authPriority a)"
      using c unfolding r_def [symmetric] off by (cases r) (auto simp: websocketPool_def)
    moreover have "offers env ?key t1 ?P s qk = {}" if "qk \<noteq> ?pk" for qk using only that by blast
    then have "b \<in> offers env ?key t1 ?P s qk \<Longrightarrow> b \<in> offers env ?key t1 ?P s ?pk" for b qk by (cases "qk = ?pk") auto
    ultimately show ?thesis using mem False unfolding pick_contract_def Let_def by (cases r) (simp_all, blast+)
  qed
qed

lemma pickMixed_safe:
  assumes "sched_inv env t s" and "0 \<le> t" and "t \<le> t0" and "t0 \<le> t1" and "t1 \<le> t2"
  shows "pick_safe env t2 s (snd (pickMixedWithStrategy env (t0, t1, t2) providers req strategy s))"
proof -
  let ?pks = "normalizeProviderKeys providers"
  have id: "pick_safe env t2 s s" using sched_inv_mono [OF assms(1)] assms(3-5) by (simp add: pick_safe_def)
  note single = pick_safe_mono [OF pickSingle_safe [OF assms(1-4), of t2] assms(5)]
  consider "?pks = []" | a where "?pks = [a]" | "2 \<le> length ?pks" "pr_pinnedAuthID req = []"
    | a b rest where "?pks = a # b # rest" "pr_pinnedAuthID req \<noteq> []"
    by (cases ?pks rule: remdups_adj.cases) auto
  then show ?thesis
  proof cases
    case 3
    let ?st = "effectiveStrategy strategy s" and ?mk = "canonicalModelKey (pr_model req)"
    let ?P = "requestPredicate req [] ?st" and ?s1 = "fold (ensureShard env ?mk t0) ?pks s"
    have t0: "0 \<le> t0" using assms by simp
    obtain x s' where x: "mixed_body env (t0, t1, t2) ?pks ?mk ?st ?P ?s1 = (x, s')" by fastforce
    have "pick_safe env t0 ?s1 s'"
      using mixed_body_spec(2) [where clk = "(t0, t1, t2)" and modelKey = ?mk and pks = ?pks and strategy = ?st and P = ?P,
      OF ensureShards_refreshed [OF assms(1,3) t0] requestPredicate_meta_only requestPredicate_weighs] by (simp add: x)
    from pick_safe_trans [OF ensureShards_safe [OF assms(1,3) t0] this] have s': "pick_safe env t0 s s'" .
    then have "pick_safe env t2 s' (snd (mixed_fails env t2 ?pks (pr_model req) ?P s'))"
      using assms by (intro mixed_fails_safe(1) [of env t0]) (simp_all add: pick_safe_def)
    from pick_safe_trans [OF s' this] pick_safe_mono [OF s', of t2] assms show ?thesis
      unfolding pickMixed_unfold [OF 3] by (auto simp: x split: option.split)
  next
    case (2 a)
    have "snd (pickMixedWithStrategy env (t0, t1, t2) providers req strategy s)
        = snd (pickSingleWithStrategy env (t0, t1, t2) a req strategy s)"
      by (simp add: pickMixedWithStrategy_def Let_def 2 split: prod.split sum.split)
    then show ?thesis using single by simp
  next
    case (4 a b rest)
    let ?pk = "mgetd [] (as_authProviders s) (pr_pinnedAuthID req)"
    show ?thesis
    proof (cases "?pk = [] \<or> \<not> containsProvider ?pks ?pk \<or> mget (as_providers s) ?pk = None")
      case True
      then show ?thesis using id 4 by (auto simp: pickMixedWithStrategy_def Let_def)
    next
      case False
      then obtain p where p: "mget (as_providers s) ?pk = Some p" by auto
      have "snd (pickMixedWithStrategy env (t0, t1, t2) providers req strategy s)
          = snd (pickShard env (t0, t1, t2) ?pk (canonicalModelKey (pr_model req)) (pr_model req) False (effectiveStrategy strategy s)
              (requestPredicate req (pr_pinnedAuthID req) (effectiveStrategy strategy s)) ''mixed'' p s)"
        using False 4 p by (simp add: pickMixedWithStrategy_def Let_def split: prod.split sum.split)
      then show ?thesis using pick_safe_mono [OF pickShard_safe [OF assms(1) p assms(2-4)] assms(5)] by simp
    qed
  qed (use id in \<open>simp add: pickMixedWithStrategy_def\<close>)
qed

section \<open>Calls and runs\<close>

datatype schedulerCall =
    UpsertAuth ModelRegistry Auth
  | RebuildAll ModelRegistry "Auth list"
  | Tombstone string int
  | RemoveAuth string
  | ResetGeneration string
  | SetSelector selectorKind
  | PickSingle string pickRequest schedulerStrategy nat nat
  | PickMixed "string list" pickRequest schedulerStrategy nat nat

definition exec_call :: "Env \<Rightarrow> time \<Rightarrow> schedulerCall \<Rightarrow> authScheduler \<Rightarrow> time \<times> authScheduler" where
  \<comment> \<open>the call at the time \<open>now\<close>; the later clock readings of a pick are given by their distances\<close>
  "exec_call env now c s =
     (case c of
        UpsertAuth reg a \<Rightarrow> (now, upsertAuth env reg a now s)
      | RebuildAll reg auths \<Rightarrow> (now, rebuild env reg auths now s)
      | Tombstone i e \<Rightarrow> (now, RecordRemovalTombstone i e now s)
      | RemoveAuth i \<Rightarrow> (now, removeAuth i now s)
      | ResetGeneration i \<Rightarrow> (now, ResetAuthGeneration i s)
      | SetSelector k \<Rightarrow> (now, setSelector k s)
      | PickSingle provider req strategy d1 d2 \<Rightarrow>
          (now + int d1 + int d2, snd (pickSingleWithStrategy env (now, now + int d1, now + int d1 + int d2) provider req strategy s))
      | PickMixed providers req strategy d1 d2 \<Rightarrow>
          (now + int d1 + int d2, snd (pickMixedWithStrategy env (now, now + int d1, now + int d1 + int d2) providers req strategy s)))"

definition clean_call :: "schedulerCall \<Rightarrow> bool" where
  \<comment> \<open>the credentials have IDs without surrounding blanks\<close>
  "clean_call c \<longleftrightarrow> (case c of UpsertAuth reg a \<Rightarrow> clean_id (au_ID a) | RebuildAll reg auths \<Rightarrow> \<forall>a \<in> set auths. clean_id (au_ID a) | _ \<Rightarrow> True)"

inductive scheduler_run :: "Env \<Rightarrow> (schedulerCall \<Rightarrow> authScheduler \<Rightarrow> bool) \<Rightarrow> time \<Rightarrow> authScheduler \<Rightarrow> time \<Rightarrow> authScheduler \<Rightarrow> bool"
  for env allowed where
  run_refl: "scheduler_run env allowed t s t s"
| run_step: "scheduler_run env allowed t s t' s' \<Longrightarrow> t' \<le> now \<Longrightarrow> allowed c s' \<Longrightarrow> clean_call c \<Longrightarrow> exec_call env now c s' = (t'', s'')
     \<Longrightarrow> scheduler_run env allowed t s t'' s''"

definition reached :: "Env \<Rightarrow> time \<Rightarrow> authScheduler \<Rightarrow> bool" where
  \<comment> \<open>a state of the scheduler at a time\<close>
  "reached env t s \<longleftrightarrow> (\<exists>selector t0. 0 \<le> t0 \<and> scheduler_run env (\<lambda>c s. True) t0 (newAuthScheduler selector) t s)"

lemma run_mono: "scheduler_run env allowed t s t' s' \<Longrightarrow> t \<le> t'"
  by (induction rule: scheduler_run.induct) (auto simp: exec_call_def split: schedulerCall.splits)

lemma sched_run_trans:
  assumes "scheduler_run env allowed t' s' t'' s''" and "scheduler_run env allowed t s t' s'"
  shows "scheduler_run env allowed t s t'' s''"
  using assms by (induction rule: scheduler_run.induct) (auto intro: run_step)

lemma run_weaken:
  assumes "scheduler_run env allowed t s t' s'" and "\<And>c s. allowed c s \<Longrightarrow> allowed' c s"
  shows "scheduler_run env allowed' t s t' s'"
  using assms by (induction rule: scheduler_run.induct) (auto intro: run_refl run_step)

lemma located_other [simp]:
  "located (s\<lparr>as_strategy := x\<rparr>) = located s" "located (s\<lparr>as_mixedCursors := y\<rparr>) = located s"
  "located (s\<lparr>as_mixedWeightedStates := z\<rparr>) = located s"
  by (simp_all add: located_def)

lemma rebuild_ok:
  assumes "sched_inv env now s" and "0 \<le> now" and "\<forall>a \<in> set auths. clean_id (au_ID a)"
  shows "sched_inv env now (rebuild env reg auths now s)" and "located (rebuild env reg auths now s)"
proof -
  have "sched_inv env now (fold (\<lambda>auth. upsertAuthLocked env reg auth now) auths s')
      \<and> located (fold (\<lambda>auth. upsertAuthLocked env reg auth now) auths s')"
    if "sched_inv env now s'" "located s'" for s'
    using assms(3) that by (induction auths arbitrary: s') (simp_all add: upsert_inv [OF _ assms(2)] upsert_holds(3))
  moreover have "sched_inv env now (s\<lparr>as_providers := [], as_authProviders := []\<rparr>)" "located (s\<lparr>as_providers := [], as_authProviders := []\<rparr>)"
    by (simp_all add: sched_inv_def located_def holds_def mget_def mwf_def)
  ultimately show "sched_inv env now (rebuild env reg auths now s)" "located (rebuild env reg auths now s)"
    unfolding rebuild_def by simp_all
qed

lemma gen_removed:
  assumes "sched_inv env now s" and "located s" and "i \<noteq> []"
  shows "sched_inv env now (removeAuthFromProvidersLocked i (s\<lparr>as_authGenerations := mput i g (as_authGenerations s)\<rparr>))"
    and "located (removeAuthFromProvidersLocked i (s\<lparr>as_authGenerations := mput i g (as_authGenerations s)\<rparr>))"
proof -
  let ?s = "s\<lparr>as_authGenerations := mput i g (as_authGenerations s)\<rparr>"
  show "sched_inv env now (removeAuthFromProvidersLocked i ?s)" using assms(1) by (simp add: removeFromProviders_inv)
  note h = removeFromProviders_holds [OF assms(2,3)]
  have "removeAuthFromProvidersLocked i ?s
      = (removeAuthFromProvidersLocked i s)\<lparr>as_authGenerations := mput i g (as_authGenerations s)\<rparr>"
    by (simp add: removeAuthFromProvidersLocked_def removeFromProvider_def Let_def split: option.split)
  then show "located (removeAuthFromProvidersLocked i ?s)"
    using h(2) unfolding located_def by (auto simp: h(1,3) go_map split: if_splits)
qed

lemma call_ok:
  assumes "sched_inv env t s" and "located s" and "0 \<le> t" and "t \<le> now" and "clean_call c" and "exec_call env now c s = (t', s')"
  shows "sched_inv env t' s' \<and> located s'"
proof -
  have inv: "sched_inv env now s" and now: "0 \<le> now" using sched_inv_mono [OF assms(1,4)] assms(3,4) by simp_all
  note safe = pickSingle_safe [OF assms(1,3,4)] pickMixed_safe [OF assms(1,3,4)]
  show ?thesis
  proof (cases c)
    case (UpsertAuth reg a)
    then show ?thesis using assms(5,6) upsert_inv [OF inv now] upsert_holds(3) [OF assms(2)]
      by (auto simp: exec_call_def upsertAuth_def clean_call_def)
  next
    case (RebuildAll reg auths)
    then show ?thesis using assms(5,6) rebuild_ok [OF inv now] by (auto simp: exec_call_def clean_call_def)
  next
    case (Tombstone i e)
    then show ?thesis using assms(2,6) inv gen_removed [OF inv assms(2)]
      by (auto simp: exec_call_def RecordRemovalTombstone_def recordRemovalTombstoneLocked_def)
  next
    case (RemoveAuth i)
    then show ?thesis using assms(2,6) inv gen_removed [OF inv assms(2)]
      by (auto simp: exec_call_def removeAuth_def removeAuthLocked_def)
  next
    case (ResetGeneration i)
    have "located (s\<lparr>as_authGenerations := mdel k (as_authGenerations s)\<rparr>)" for k
      using assms(2) by (auto simp: located_def go_map)
    then show ?thesis using ResetGeneration assms(2,6) inv by (auto simp: exec_call_def ResetAuthGeneration_def Let_def)
  next
    case (SetSelector k)
    then show ?thesis using assms(2,6) inv by (auto simp: exec_call_def setSelector_def)
  next
    case (PickSingle provider req strategy d1 d2)
    then show ?thesis using assms(2,6) safe(1) [of "now + int d1" "now + int d1 + int d2" provider req strategy]
        pick_safe_mono [of env "now + int d1" s _ "now + int d1 + int d2"]
      by (auto simp: exec_call_def pick_safe_def same_auths_located)
  next
    case (PickMixed providers req strategy d1 d2)
    then show ?thesis using assms(2,6) safe(2) [of "now + int d1" "now + int d1 + int d2" providers req strategy]
      by (auto simp: exec_call_def pick_safe_def same_auths_located)
  qed
qed

lemma run_ok:
  assumes "scheduler_run env allowed t s t' s'" and "sched_inv env t s" and "located s" and "0 \<le> t"
  shows "sched_inv env t' s' \<and> located s'"
  using assms
proof (induction rule: scheduler_run.induct)
  case (run_step t s t' s' now c t'' s'')
  then show ?case using call_ok [of env t' s' now c t'' s''] run_mono [OF run_step.hyps(1)] by auto
qed simp

lemma reached_ok:
  assumes "reached env t s"
  shows "0 \<le> t" and "sched_inv env t s" and "located s"
proof -
  obtain sel t0 where r: "0 \<le> t0" "scheduler_run env (\<lambda>c s. True) t0 (newAuthScheduler sel) t s"
    using assms by (auto simp: reached_def)
  have "sched_inv env t0 (newAuthScheduler sel)" "located (newAuthScheduler sel)"
    by (simp_all add: newAuthScheduler_def sched_inv_def located_def holds_def mget_def mwf_def)
  from run_ok [OF r(2) this r(1)] show "sched_inv env t s" "located s" by simp_all
  show "0 \<le> t" using run_mono [OF r(2)] r(1) by simp
qed

end
