(* ===== verification/SchedulerContract.thy ===== *)
theory SchedulerContract
  imports SchedulerRuns MarkResult
begin

text \<open>
  The properties of the scheduler's picks over all its runs: the well-formedness of its indexes, the agreement of
  the pick for one provider with the selectors, and the contract of the pick over several providers.
\<close>

section \<open>A concrete scheduler for the instances\<close>

definition sample_cred :: "string \<Rightarrow> string \<Rightarrow> Auth" where
  "sample_cred i provider = zeroAuth\<lparr>au_ID := i, au_Provider := provider, au_Status := StatusActive, au_RegistrationEpoch := 1\<rparr>"

definition sample_calls :: "schedulerCall list" where
  "sample_calls = [UpsertAuth NewModelRegistry (sample_cred ''a'' ''codex''), UpsertAuth NewModelRegistry (sample_cred ''b'' ''claude'')]"

definition sample_sched :: authScheduler where
  "sample_sched = fold (\<lambda>c s. snd (exec_call sample_env 1 c s)) sample_calls (newAuthScheduler RoundRobinKind)"

definition sample_request :: pickRequest where
  \<comment> \<open>a request that names no model\<close>
  "sample_request = \<lparr>pr_model = [], pr_eligibility = \<lparr>el_requiredKind = [], el_credentialPolicy = [], el_disallowFreeAuth = False\<rparr>, pr_pinnedAuthID = [],
     pr_downstreamWebsocket = False, pr_tried = {}\<rparr>"

lemma sample_reached: "reached sample_env 1 sample_sched"
proof -
  have step: "scheduler_run sample_env (\<lambda>c s. True) 1 s0 1 (upsertAuth sample_env NewModelRegistry a 1 s)"
    if "scheduler_run sample_env (\<lambda>c s. True) 1 s0 1 s" "clean_id (au_ID a)" for s0 s a
    by (rule run_step [OF that(1) order_refl TrueI, where c = "UpsertAuth NewModelRegistry a"])
      (simp_all add: clean_call_def exec_call_def that(2))
  have "clean_id (au_ID (sample_cred ''a'' ''codex''))" "clean_id (au_ID (sample_cred ''b'' ''claude''))" by code_simp+
  note run = step [OF step [OF run_refl [of _ _ 1 "newAuthScheduler RoundRobinKind"] this(1)] this(2)]
  have "sample_sched = upsertAuth sample_env NewModelRegistry (sample_cred ''b'' ''claude'') 1
      (upsertAuth sample_env NewModelRegistry (sample_cred ''a'' ''codex'') 1 (newAuthScheduler RoundRobinKind))"
    by (simp add: sample_sched_def sample_calls_def exec_call_def)
  then show ?thesis using run unfolding reached_def by (metis zero_le_one)
qed

lemma sample_picks:
  "map_option ps_providerKey (mget (as_providers sample_sched) ''codex'') = Some ''codex''"
  "fst (pickSingle sample_env (2, 2, 2) ''codex'' sample_request sample_sched) = Inr (sample_cred ''a'' ''codex'')"
  "fst (pickMixed sample_env (2, 2, 2) [''codex'', ''claude''] sample_request sample_sched) = Inr (sample_cred ''a'' ''codex'', ''codex'')"
  by code_simp+

section \<open>Properties\<close>

text \<open>C10: the scheduler's tables are well formed in every state it reaches. The shard of a model holds exactly the
  provider's credentials that support the model, its ready lists, priorities and waiting list are the ones that its
  entries define, and a credential is held under its own ID by the provider that executes it and by no other,
  with the epoch, generation and time that are recorded for it.\<close>

theorem scheduler_well_formed:
  assumes "reached env t s" and "mget (as_providers s) pk = Some p"
  shows "(\<forall>key m. mget (ps_modelShards p) key = Some m \<longrightarrow>
        indexed m \<and> (\<forall>i. map_option se_meta (mget (sh_entries m) i) = served (ps_auths p) key i))
    \<and> (\<forall>i meta. mget (ps_auths p) i = Some meta \<longrightarrow>
        i = au_ID (sm_auth meta) \<and> pk = executorKeyFromAuth (sm_auth meta) \<and> mget (as_authProviders s) i = Some pk
        \<and> mget (as_authGenerations s) i \<in> {None, Some (stamp (sm_auth meta))})"
proof -
  have p: "provider_inv env t pk p" using reached_ok(2) [OF assms(1)] assms(2) by (simp add: sched_inv_def)
  have "indexed m \<and> map_option se_meta (mget (sh_entries m) i) = served (ps_auths p) key i"
    if "mget (ps_modelShards p) key = Some m" for key m i
    using p that by (simp add: provider_inv_def shard_ok_def shard_inv_def)
  moreover have "i = au_ID (sm_auth meta) \<and> pk = executorKeyFromAuth (sm_auth meta) \<and> mget (as_authProviders s) i = Some pk
      \<and> mget (as_authGenerations s) i \<in> {None, Some (stamp (sm_auth meta))}" if "mget (ps_auths p) i = Some meta" for i meta
  proof -
    have "holds s pk i = Some meta" using that by (simp add: holds_def assms(2))
    moreover have "i = au_ID (sm_auth meta) \<and> derived meta \<and> sm_providerKey meta = pk"
      using p that by (simp add: provider_inv_def auths_ok_def)
    ultimately show ?thesis using reached_ok(3) [OF assms(1)] by (auto simp: located_def derived_def)
  qed
  ultimately show ?thesis by blast
qed

theorem scheduler_well_formed_witness:
  "\<exists>p. mget (as_providers sample_sched) ''codex'' = Some p
     \<and> (\<forall>i meta. mget (ps_auths p) i = Some meta \<longrightarrow> i = au_ID (sm_auth meta) \<and> mget (as_authProviders sample_sched) i = Some ''codex'')"
proof -
  obtain p where p: "mget (as_providers sample_sched) ''codex'' = Some p" using sample_picks(1) by auto
  from scheduler_well_formed [OF sample_reached p] p show ?thesis by blast
qed

text \<open>C13: the pick of the scheduler is the pick of the selectors. In every state it reaches, the indexed pick for
  one provider returns what the strategy's selector chooses from \<open>getAvailableAuths\<close>, computed afresh from the
  provider's credentials that support the model and meet the request (those with websockets only, when the client
  came by a websocket and one of them is free), and it fails exactly when the selector has nothing to choose from.\<close>

theorem single_pick_as_selector:
  fixes env provider req s t1
  defines "pk \<equiv> ToLower (TrimSpace provider)" and "mk \<equiv> canonicalModelKey (pr_model req)"
    and "strategy \<equiv> effectiveStrategy schedulerStrategyCurrent s"
  defines "P \<equiv> requestPredicate req (pr_pinnedAuthID req) strategy"
  defines "ws \<equiv> pr_downstreamWebsocket req \<and> providerPrefersWebsocketTransport pk \<and> pr_pinnedAuthID req = []"
  assumes "reached env t s" and "mget (as_providers s) pk = Some p" and "t \<le> t0" and "t0 \<le> t1"
  shows "(case getAvailableAuths env (websocketPool env (canonicalModelKey mk) t1 ws (providerCandidates (canonicalModelKey mk) P p))
              provider (canonicalModelKey mk) t1 of
            Inl e \<Rightarrow> None
          | Inr available \<Rightarrow> selectorChoice strategy available (pickView env t0 t1 mk ws P p))
       = (case fst (pickSingle env (t0, t1, t2) provider req s) of Inl e \<Rightarrow> None | Inr a \<Rightarrow> Some a)"
proof -
  note inv = reached_ok [OF assms(6)]
  have "fst (pickSingle env (t0, t1, t2) provider req s)
      = fst (pickShard env (t0, t1, t2) pk mk (pr_model req) ws strategy P provider p s)"
    using assms(7) by (simp add: pickSingle_def pickSingleWithStrategy_def Let_def pk_def mk_def strategy_def P_def ws_def)
  then show ?thesis
    using pickShard_as_selector [OF inv(2) assms(7) inv(1) assms(8,9), where modelKey = mk and ws = ws and P = P and strategy = strategy and
      provider = provider and model = "pr_model req" and provider' = provider and ?t2.0 = t2] requestPredicate_meta_only
    by (auto simp: P_def split: sum.splits option.splits)
qed

theorem single_pick_as_selector_witness:
  "\<exists>p. mget (as_providers sample_sched) ''codex'' = Some p \<and>
     (let P = requestPredicate sample_request [] schedulerStrategyRoundRobin in
      case getAvailableAuths sample_env (websocketPool sample_env [] 2 False (providerCandidates [] P p)) ''codex'' [] 2 of
        Inl e \<Rightarrow> None
      | Inr available \<Rightarrow> selectorChoice schedulerStrategyRoundRobin available (pickView sample_env 2 2 [] False P p))
     = Some (sample_cred ''a'' ''codex'')"
proof -
  have c: "ToLower (TrimSpace ''codex'') = ''codex''" "canonicalModelKey [] = []"
    "effectiveStrategy schedulerStrategyCurrent sample_sched = schedulerStrategyRoundRobin"
    "pr_model sample_request = []" "pr_downstreamWebsocket sample_request = False" "pr_pinnedAuthID sample_request = []"
    by code_simp+
  obtain p where p: "mget (as_providers sample_sched) ''codex'' = Some p" using sample_picks(1) by auto
  have "mget (as_providers sample_sched) (ToLower (TrimSpace ''codex'')) = Some p" unfolding c(1) by (rule p)
  note pick = single_pick_as_selector [OF sample_reached this, of 2 2 sample_request 2, unfolded c]
  have "(False \<and> providerPrefersWebsocketTransport ''codex'' \<and> ([]::string) = []) = False" by simp
  note pick = pick [unfolded this sample_picks(2) sum.case]
  show ?thesis unfolding Let_def using p pick by (intro exI [of _ p] conjI) simp_all
qed

text \<open>C14: the contract of the pick over several providers. Whatever the strategy, in every state the scheduler
  reaches the pick returns a free credential that supports the model and meets the request, together with the
  provider that holds it, and no provider asked for offers one of a better priority; it fails only when none of
  them offers any. A pinned credential is decided at the second clock reading, for its shard is refreshed twice.\<close>

theorem mixed_pick_contract:
  assumes "reached env t s" and "t \<le> t0" and "t0 \<le> t1" and "2 \<le> length (normalizeProviderKeys providers)"
  shows "pick_contract env (if pr_pinnedAuthID req = [] then t0 else t1) (normalizeProviderKeys providers) req
     schedulerStrategyCurrent s (fst (pickMixed env (t0, t1, t2) providers req s))"
  unfolding pickMixed_def
  using mixed_contract [OF reached_ok(2,3,1) [OF assms(1)] assms(2-4)] .

theorem mixed_pick_contract_witness:
  "pick_contract sample_env 2 [''codex'', ''claude''] sample_request schedulerStrategyCurrent sample_sched
     (Inr (sample_cred ''a'' ''codex'', ''codex''))"
proof -
  have c: "normalizeProviderKeys [''codex'', ''claude''] = [''codex'', ''claude'']" "pr_pinnedAuthID sample_request = []" by code_simp+
  from mixed_pick_contract [OF sample_reached, of 2 2 "[''codex'', ''claude'']" sample_request 2]
  show ?thesis unfolding c sample_picks(3) by simp
qed

end
