(* ===== verification/SchedulerOrder.thy ===== *)
theory SchedulerOrder
  imports SchedulerContract
begin

text \<open>
  Snapshots reach the scheduler out of order: a goroutine copies a credential under the manager's lock and hands
  the copy over after it has released the lock. The scheduler keeps the newest stamp it has seen of every ID. As
  long as it is not told to forget, what it has recorded never goes back, and a pick never returns a credential
  older than that.
\<close>

section \<open>What a pick returns is held\<close>

lemma candidates_held:
  assumes "sched_inv env t s" and "mget (as_providers s) pk = Some p" and "a \<in> set (providerCandidates key P p)"
  shows "\<exists>meta. holds s pk (au_ID a) = Some meta \<and> sm_auth meta = a"
proof -
  have ok: "auths_ok pk (ps_auths p)" using assms(1,2) by (simp add: sched_inv_def provider_inv_def)
  obtain k meta where "(k, meta) \<in> set (ps_auths p)" "a = sm_auth meta" using assms(3) by (auto simp: providerCandidates_def)
  then have "mget (ps_auths p) k = Some meta" "a = sm_auth meta" using ok by (simp_all add: auths_ok_def mget_iff_in)
  then show ?thesis using ok by (auto simp: auths_ok_def holds_def assms(2))
qed

lemma pickShard_held:
  assumes "sched_inv env t s" and "mget (as_providers s) pk = Some p" and "0 \<le> t" and "t \<le> t0" and "t0 \<le> t1"
    and "meta_only P" and "weighs strategy P"
    and "fst (pickShard env (t0, t1, t2) pk modelKey model ws strategy P provider' p s) = Inr a"
  shows "\<exists>meta. holds s pk (au_ID a) = Some meta \<and> sm_auth meta = a"
  using pickShard_contract [OF assms(1-7), where modelKey = modelKey and model = model and ws = ws and provider' = provider' and ?t2.0 = t2]
    candidates_held [OF assms(1,2)] pool_subset assms(8) by fastforce

lemma pickSingle_held:
  assumes "sched_inv env t s" and "0 \<le> t" and "t \<le> t0" and "t0 \<le> t1"
    and "fst (pickSingleWithStrategy env (t0, t1, t2) provider req strategy s) = Inr a"
  shows "\<exists>pk meta. holds s pk (au_ID a) = Some meta \<and> sm_auth meta = a"
proof -
  let ?pk = "ToLower (TrimSpace provider)"
  obtain p where p: "mget (as_providers s) ?pk = Some p"
    using assms(5) by (auto simp: pickSingleWithStrategy_def Let_def split: option.splits)
  then show ?thesis using assms(5) pickShard_held [OF assms(1) p assms(2-4) requestPredicate_meta_only requestPredicate_weighs]
    unfolding pickSingleWithStrategy_def Let_def by fastforce
qed

lemma pickMixed_held:
  assumes "sched_inv env t s" and "located s" and "0 \<le> t" and "t \<le> t0" and "t0 \<le> t1"
    and "fst (pickMixedWithStrategy env (t0, t1, t2) providers req strategy s) = Inr (a, pk)"
  shows "\<exists>pk meta. holds s pk (au_ID a) = Some meta \<and> sm_auth meta = a"
proof (cases "2 \<le> length (normalizeProviderKeys providers)")
  case True
  from mixed_contract [OF assms(1-5) True, of req strategy t2] obtain i meta qk where
    "holds s qk i = Some meta" "a = sm_auth meta"
    by (auto simp: assms(6) pick_contract_def offers_def)
  then show ?thesis using sched_inv_holds(1) [OF assms(1)] by metis
next
  case False
  then obtain b where "normalizeProviderKeys providers = [b]"
    using assms(6) by (cases "normalizeProviderKeys providers" rule: remdups_adj.cases) (auto simp: pickMixedWithStrategy_def)
  then have "fst (pickSingleWithStrategy env (t0, t1, t2) b req strategy s) = Inr a"
    using assms(6) by (auto simp: pickMixedWithStrategy_def Let_def split: prod.splits sum.splits)
  from pickSingle_held [OF assms(1,3-5) this] show ?thesis .
qed

section \<open>The recorded stamps never go back\<close>

definition forward :: "schedulerCall \<Rightarrow> authScheduler \<Rightarrow> bool" where
  \<comment> \<open>the call does not make the scheduler forget: no reset, and no tombstone of the very epoch that is recorded\<close>
  "forward c s \<longleftrightarrow> (case c of
     ResetGeneration i \<Rightarrow> False
   | Tombstone i e \<Rightarrow> (\<forall>g. mget (as_authGenerations s) (TrimSpace i) = Some g \<longrightarrow> gm_epoch g \<noteq> e)
   | _ \<Rightarrow> True)"

definition newer :: "authScheduler \<Rightarrow> authScheduler \<Rightarrow> bool" where
  \<comment> \<open>what the second state records is at least as new\<close>
  "newer s s' \<longleftrightarrow> (\<forall>i g. mget (as_authGenerations s) i = Some g \<longrightarrow> (\<exists>g'. mget (as_authGenerations s') i = Some g' \<and> g \<le> g'))"

lemma newer_refl [simp]: "newer s s"
  by (auto simp: newer_def)

lemma newer_trans: "newer s s' \<Longrightarrow> newer s' s'' \<Longrightarrow> newer s s''"
  unfolding newer_def by (meson order_trans)

lemma newer_same: "as_authGenerations s' = as_authGenerations s \<Longrightarrow> newer s s'"
  by (auto simp: newer_def)

lemma newer_put:
  assumes "\<And>h. mget (as_authGenerations s) i = Some h \<Longrightarrow> h \<le> g" and "as_authGenerations s' = mput i g (as_authGenerations s)"
  shows "newer s s'"
  using assms by (auto simp: newer_def go_map)

lemma newer_upsert:
  assumes "located s" and "clean_id (au_ID a)"
  shows "newer s (upsertAuthLocked env reg a now s)"
proof (cases "accepts a s")
  case True
  then show ?thesis using upsert_holds(2) [OF assms] accepts_iff [OF assms(2)] by (intro newer_put [of _ "au_ID a" "stamp a"]) auto
qed (use upsert_holds(2) [OF assms] newer_same in simp)

lemma removed_generations: "as_authGenerations (removeAuthFromProvidersLocked i s) = as_authGenerations s"
  by (simp add: removeAuthFromProvidersLocked_def Let_def)

lemma newer_rebuild:
  assumes "\<forall>a \<in> set auths. clean_id (au_ID a)"
  shows "newer s (rebuild env reg auths now s)"
proof -
  have "located s' \<Longrightarrow> newer s' (fold (\<lambda>auth. upsertAuthLocked env reg auth now) auths s')" for s'
    using assms
  proof (induction auths arbitrary: s')
    case (Cons a auths)
    then have a: "clean_id (au_ID a)" by simp
    show ?case
      using newer_trans [OF newer_upsert [OF Cons.prems(1) a] Cons.IH [OF upsert_holds(3) [OF Cons.prems(1) a]]] Cons.prems(2)
      by simp
  qed simp
  moreover have "located (s\<lparr>as_providers := [], as_authProviders := [], as_mixedCursors := [], as_mixedWeightedStates := []\<rparr>)"
    by (simp add: located_def holds_def mget_def)
  moreover have "newer s (s\<lparr>as_providers := [], as_authProviders := [], as_mixedCursors := [], as_mixedWeightedStates := []\<rparr>)"
    by (rule newer_same) simp
  ultimately show ?thesis unfolding rebuild_def using newer_trans by blast
qed

lemma meta_le_epoch:
  fixes g h :: scheduledGenerationMeta
  shows "gm_epoch g < gm_epoch h \<Longrightarrow> g \<le> h" and "g \<le> h \<Longrightarrow> gm_epoch g \<le> gm_epoch h"
  using meta_order [of g h] meta_order [of h g] by (auto simp: not_less [symmetric] order.order_iff_strict)

lemma call_newer:
  assumes "sched_inv env t s" and "located s" and "0 \<le> t" and "t \<le> now" and "clean_call c" and "forward c s"
    and "exec_call env now c s = (t', s')"
  shows "newer s s'"
proof (cases c)
  case (UpsertAuth reg a)
  then show ?thesis using assms(5,7) newer_upsert [OF assms(2)] by (auto simp: exec_call_def upsertAuth_def clean_call_def)
next
  case (RebuildAll reg auths)
  then show ?thesis using assms(5,7) newer_rebuild by (auto simp: exec_call_def clean_call_def)
next
  case (Tombstone i e)
  then show ?thesis using assms(6,7)
    by (auto simp: exec_call_def RecordRemovalTombstone_def recordRemovalTombstoneLocked_def forward_def removed_generations
        intro!: newer_put [of _ "TrimSpace i"] meta_le_epoch(1) split: if_splits option.splits)
next
  case (RemoveAuth i)
  then show ?thesis using assms(7)
    by (auto simp: exec_call_def removeAuth_def removeAuthLocked_def removed_generations Let_def
        intro!: newer_put [of _ "TrimSpace i"] meta_le_epoch(1) split: if_splits)
next
  case (PickSingle provider req strategy d1 d2)
  then show ?thesis
    using assms(7) pickSingle_safe [OF assms(1,3,4), of "now + int d1" "now + int d1 + int d2" provider req strategy]
    by (auto simp: exec_call_def pick_safe_def same_auths_def intro: newer_same)
next
  case (PickMixed providers req strategy d1 d2)
  then show ?thesis
    using assms(7) pickMixed_safe [OF assms(1,3,4), of "now + int d1" "now + int d1 + int d2" providers req strategy]
    by (auto simp: exec_call_def pick_safe_def same_auths_def intro: newer_same)
qed (use assms(6,7) in \<open>auto simp: exec_call_def forward_def setSelector_def intro: newer_same\<close>)

lemma run_newer:
  assumes "scheduler_run env forward t s t' s'" and "sched_inv env t s" and "located s" and "0 \<le> t"
  shows "newer s s'"
  using assms
proof (induction rule: scheduler_run.induct)
  case (run_step t s t' s' now c t'' s'')
  note ok = run_ok [OF run_step.hyps(1) run_step.prems]
  have "newer s' s''" using call_newer [of env t' s' now c t'' s''] ok run_mono [OF run_step.hyps(1)] run_step.hyps run_step.prems by auto
  then show ?case using newer_trans run_step.IH run_step.prems by blast
qed simp

section \<open>Property\<close>

text \<open>C15: a stale or removed credential is never served. Once the scheduler has recorded a stamp for an ID, be it
  of a snapshot or of a removal, then whatever snapshots, rebuilds, removals and picks follow in whatever order,
  as long as nothing makes it forget, every pick of that ID returns a snapshot at least as new.\<close>

theorem stale_never_served:
  assumes "reached env t s" and "mget (as_authGenerations s) i = Some g" and "scheduler_run env forward t s t' s'"
    and "t' \<le> t0" and "t0 \<le> t1" and "au_ID a = i"
    and "fst (pickSingle env (t0, t1, t2) provider req s') = Inr a \<or> fst (pickMixed env (t0, t1, t2) providers req s') = Inr (a, pk)"
  shows "g \<le> stamp a"
proof -
  note inv = reached_ok [OF assms(1)]
  note inv' = run_ok [OF assms(3) inv(2,3,1)]
  have t': "0 \<le> t'" using run_mono [OF assms(3)] inv(1) by simp
  have "\<exists>qk meta. holds s' qk (au_ID a) = Some meta \<and> sm_auth meta = a"
    using assms(7) inv' pickSingle_held [of env t' s' t0 t1] pickMixed_held [of env t' s' t0 t1] t' assms(4,5)
    unfolding pickSingle_def pickMixed_def by blast
  then obtain qk meta where "holds s' qk i = Some meta" "sm_auth meta = a" using assms(6) by blast
  then have "mget (as_authGenerations s') i \<in> {None, Some (stamp a)}" using inv' by (auto simp: located_def)
  moreover obtain g' where "mget (as_authGenerations s') i = Some g'" "g \<le> g'"
    using run_newer [OF assms(3) inv(2,3,1)] assms(2) by (auto simp: newer_def)
  ultimately show ?thesis by simp
qed

theorem stale_never_served_witness:
  \<comment> \<open>an older snapshot comes after the newer one\<close>
  "let old = (sample_cred ''a'' ''codex'')\<lparr>au_RegistrationEpoch := 0\<rparr>;
       s' = upsertAuth sample_env NewModelRegistry old 2 sample_sched
   in fst (pickSingle sample_env (2, 2, 2) ''codex'' sample_request s') = Inr (sample_cred ''a'' ''codex'')
    \<and> stamp old < stamp (sample_cred ''a'' ''codex'')
    \<and> stamp (sample_cred ''a'' ''codex'') \<le> stamp (sample_cred ''a'' ''codex'')"
proof -
  let ?a = "sample_cred ''a'' ''codex''" and ?old = "(sample_cred ''a'' ''codex'')\<lparr>au_RegistrationEpoch := 0\<rparr>"
  let ?s = "upsertAuth sample_env NewModelRegistry ?old 2 sample_sched"
  have c: "fst (pickSingle sample_env (2, 2, 2) ''codex'' sample_request ?s) = Inr ?a"
    "mget (as_authGenerations sample_sched) ''a'' = Some (stamp ?a)" "au_ID ?a = ''a''" "clean_id (au_ID ?old)" by code_simp+
  have "scheduler_run sample_env forward 1 sample_sched 2 ?s"
    by (rule run_step [OF run_refl, where now = 2 and c = "UpsertAuth NewModelRegistry ?old"])
      (use c(4) in \<open>simp_all add: forward_def clean_call_def exec_call_def\<close>)
  from stale_never_served [OF sample_reached c(2) this order_refl order_refl c(3),
      where provider = "''codex''" and req = sample_request and ?t2.0 = 2] c(1)
  have "stamp ?a \<le> stamp ?a" by simp
  moreover have "stamp ?old < stamp ?a" by (simp add: meta_order stamp_def sample_cred_def)
  ultimately show ?thesis using c(1) unfolding Let_def by blast
qed

end
