(* ===== verification/ManagerSync.thy ===== *)
theory ManagerSync
  imports ManagerLifecycle SchedulerOrder
begin

text \<open>
  The manager and its scheduler together. An operation changes the manager's credentials under its lock and hands
  a snapshot or a tombstone over after it has released the lock, so the scheduler gets these messages in any order
  and among the operations of other goroutines. \<open>syncScheduler\<close> takes a snapshot of all credentials under the lock and
  rebuilds the scheduler from it after releasing the lock, so other steps may come in between, and several snapshots may
  be waiting. The system below has the messages and the snapshots that are still under way. Once the messages have
  arrived, the scheduler holds nothing that the manager does not hold, and it holds all of it unless the last
  rebuild was made from a snapshot that was out of date by then, which \<open>sy_outdated\<close> records.
\<close>

section \<open>The system\<close>

definition schedView :: "Auth \<Rightarrow> Auth" where
  \<comment> \<open>what a pick can depend on: not the counters, nor the stamp\<close>
  "schedView a = a\<lparr>au_Generation := 0, au_UpdatedAt := 0, au_Success := 0, au_Failed := 0, au_recentRequests := []\<rparr>"

definition RefreshSchedulerEntry :: "string \<Rightarrow> Manager \<Rightarrow> schedMessage list" where
  "RefreshSchedulerEntry i m = (case mget (mg_auths m) i of None \<Rightarrow> [] | Some a \<Rightarrow> [MsgUpsert a])"

definition markMessages :: "ManagerEnv \<Rightarrow> Result \<Rightarrow> Header \<Rightarrow> time \<Rightarrow> Manager \<Rightarrow> schedMessage list" where
  \<comment> \<open>what \<open>MarkResult\<close> hands to the scheduler\<close>
  "markMessages me result headers now m =
     (if re_AuthID result = [] then []
      else RefreshSchedulerEntry (re_AuthID result) (m\<lparr>mg_auths := MarkResult me result headers now (mg_auths m)\<rparr>))"

inductive manager_op :: "ManagerEnv \<Rightarrow> IndexEnv \<Rightarrow> Manager \<Rightarrow> Manager \<Rightarrow> schedMessage list \<Rightarrow> bool" for me ie where
  op_register: "newID \<noteq> [] \<Longrightarrow> clean_id newID \<Longrightarrow> (\<And>a. auth = Some a \<Longrightarrow> clean_id (au_ID a)) \<Longrightarrow> Register me ie newID now auth m = r \<Longrightarrow>
     manager_op me ie m (lc_manager r) (lc_messages r)"
| op_update: "updateInternal me ie clock t now base upd mode m = r \<Longrightarrow> manager_op me ie m (lc_manager r) (lc_messages r)"
| op_remove: "Remove i m = (m', msgs) \<Longrightarrow> manager_op me ie m m' msgs"
| op_mark: "manager_op me ie m (m\<lparr>mg_auths := MarkResult me result headers now (mg_auths m)\<rparr>) (markMessages me result headers now m)"
| op_neutral: "manager_op me ie m (m\<lparr>mg_auths := recordAvailabilityNeutralResult result now (mg_auths m)\<rparr>) []"
| op_refresh: "manager_op me ie m m (RefreshSchedulerEntry i m)"

record System =
  sy_manager :: Manager
  sy_pending :: "schedMessage list"
  sy_scheduler :: authScheduler
  sy_rebuilds :: "Auth list list"
  sy_outdated :: bool

definition snapshotAuths :: "Manager \<Rightarrow> Auth list \<Rightarrow> bool" where
  \<comment> \<open>the list is a snapshot of the credentials, in the order of the iteration over a map\<close>
  "snapshotAuths m auths \<longleftrightarrow> distinct auths \<and> set auths = set (map snd (mg_auths m))"

definition deliver :: "Env \<Rightarrow> ModelRegistry \<Rightarrow> time \<Rightarrow> schedMessage \<Rightarrow> authScheduler \<Rightarrow> authScheduler" where
  "deliver env reg now msg s =
     (case msg of MsgUpsert a \<Rightarrow> upsertAuth env reg a now s | MsgTombstone i e \<Rightarrow> RecordRemovalTombstone i e now s)"

definition is_pick :: "schedulerCall \<Rightarrow> bool" where
  "is_pick c \<longleftrightarrow> (case c of PickSingle _ _ _ _ _ \<Rightarrow> True | PickMixed _ _ _ _ _ \<Rightarrow> True | SetSelector _ \<Rightarrow> True | _ \<Rightarrow> False)"

inductive system_step :: "Env \<Rightarrow> ManagerEnv \<Rightarrow> IndexEnv \<Rightarrow> time \<Rightarrow> System \<Rightarrow> time \<Rightarrow> System \<Rightarrow> bool" for env me ie where
  sys_op: "t \<le> now \<Longrightarrow> manager_op me ie (sy_manager sy) m' msgs \<Longrightarrow>
     system_step env me ie t sy now (sy\<lparr>sy_manager := m', sy_pending := sy_pending sy @ msgs\<rparr>)"
| sys_deliver: "t \<le> now \<Longrightarrow> sy_pending sy = p @ msg # q \<Longrightarrow>
     system_step env me ie t sy now (sy\<lparr>sy_pending := p @ q, sy_scheduler := deliver env reg now msg (sy_scheduler sy)\<rparr>)"
| sys_snapshot: "t \<le> now \<Longrightarrow> snapshotAuths (sy_manager sy) auths \<Longrightarrow>
     system_step env me ie t sy now (sy\<lparr>sy_rebuilds := sy_rebuilds sy @ [auths]\<rparr>)"
| sys_rebuild: "t \<le> now \<Longrightarrow> sy_rebuilds sy = p @ auths # q \<Longrightarrow>
     system_step env me ie t sy now (sy\<lparr>sy_rebuilds := p @ q, sy_scheduler := rebuild env reg auths now (sy_scheduler sy),
       sy_outdated := (\<not> snapshotAuths (sy_manager sy) auths)\<rparr>)"
| sys_pick: "t \<le> now \<Longrightarrow> is_pick c \<Longrightarrow> exec_call env now c (sy_scheduler sy) = (t', s') \<Longrightarrow>
     system_step env me ie t sy t' (sy\<lparr>sy_scheduler := s'\<rparr>)"

inductive system_reaches :: "Env \<Rightarrow> ManagerEnv \<Rightarrow> IndexEnv \<Rightarrow> time \<Rightarrow> System \<Rightarrow> bool" for env me ie where
  sys_start: "0 \<le> t \<Longrightarrow> system_reaches env me ie t
     \<lparr>sy_manager = \<lparr>mg_auths = [], mg_authEpochs = []\<rparr>, sy_pending = [], sy_scheduler = newAuthScheduler selector,
       sy_rebuilds = [], sy_outdated = False\<rparr>"
| sys_next: "system_reaches env me ie t sy \<Longrightarrow> system_step env me ie t sy t' sy' \<Longrightarrow> system_reaches env me ie t' sy'"

section \<open>What the operations announce\<close>

datatype announcement = Announced Auth | Withdrawn string | Quiet string | Repeated Auth | Nothing

definition op_effect :: "announcement \<Rightarrow> Manager \<Rightarrow> Manager \<Rightarrow> schedMessage list \<Rightarrow> bool" where
  \<comment> \<open>the five things an operation can do\<close>
  "op_effect x m m' msgs \<longleftrightarrow>
     (case x of
        Announced a \<Rightarrow> msgs = [MsgUpsert a] \<and> announces m m' a
          \<and> (clean_id (au_ID a) \<or> mget (mg_auths m) (au_ID a) \<noteq> None)
      | Withdrawn i \<Rightarrow> i \<noteq> [] \<and> clean_id i \<and> mget (mg_auths m) i \<noteq> None \<and> mg_auths m' = mdel i (mg_auths m) \<and> epochOf m i < epochOf m' i
          \<and> msgs = [MsgTombstone i (epochOf m' i)] \<and> (\<forall>j. j \<noteq> i \<longrightarrow> epochOf m' j = epochOf m j)
      | Quiet i \<Rightarrow> msgs = [] \<and> epochOf m' = epochOf m \<and> (\<exists>a a'. mget (mg_auths m) i = Some a \<and> older a a' \<and> au_ID a' = i
          \<and> schedView a' = schedView a \<and> au_RegistrationEpoch a' = au_RegistrationEpoch a \<and> mg_auths m' = mput i a' (mg_auths m))
      | Repeated a \<Rightarrow> m' = m \<and> msgs = [MsgUpsert a] \<and> mget (mg_auths m) (au_ID a) = Some a
      | Nothing \<Rightarrow> m' = m \<and> msgs = [])"

lemma clean_trim: "clean_id (TrimSpace i)"
  by (simp add: clean_id_def)

lemma manager_op_effect:
  assumes "manager_op me ie m m' msgs" and "manager_ok m" and "\<forall>i a. mget (mg_auths m) i = Some a \<longrightarrow> i \<noteq> []"
  shows "\<exists>x. op_effect x m m' msgs"
  using assms(1)
proof cases
  case (op_register newID auth now r)
  have reg: "Register me ie newID now auth m = r" using op_register by simp
  from Register_announces [OF assms(2) op_register(3), of me ie now auth, unfolded reg] show ?thesis
  proof
    assume "lc_messages r = [] \<and> lc_manager r = m"
    then show ?thesis using op_register by (intro exI [of _ Nothing]) (simp add: op_effect_def)
  next
    assume "\<exists>a. lc_messages r = [MsgUpsert a] \<and> lc_return r = Inr (Some a) \<and> announces m (lc_manager r) a
      \<and> au_ID a \<in> {newID, (case auth of Some a0 \<Rightarrow> au_ID a0 | None \<Rightarrow> [])}"
    then obtain a where a: "lc_messages r = [MsgUpsert a]" "announces m (lc_manager r) a"
      "au_ID a \<in> {newID, (case auth of Some a0 \<Rightarrow> au_ID a0 | None \<Rightarrow> [])}" by blast
    have "au_ID a \<noteq> []" using a(2) by (simp add: announces_def)
    then have "clean_id (au_ID a)" using a(3) op_register(4,5) by (auto split: option.splits)
    then show ?thesis using op_register a by (intro exI [of _ "Announced a"]) (simp add: op_effect_def)
  qed
next
  case (op_update clock t now base upd mode r)
  from updateInternal_announces [OF assms(2), of me ie clock t now base upd mode] show ?thesis
    unfolding op_update(3)
  proof
    assume "lc_messages r = [] \<and> lc_manager r = m"
    then show ?thesis using op_update by (intro exI [of _ Nothing]) (simp add: op_effect_def)
  next
    assume "\<exists>a. lc_messages r = [MsgUpsert a] \<and> lc_return r = Inr (Some a) \<and> announces m (lc_manager r) a
      \<and> mget (mg_auths m) (au_ID a) \<noteq> None"
    then obtain a where "lc_messages r = [MsgUpsert a]" "announces m (lc_manager r) a" "mget (mg_auths m) (au_ID a) \<noteq> None" by blast
    then show ?thesis using op_update by (intro exI [of _ "Announced a"]) (simp add: op_effect_def)
  qed
next
  case (op_remove i)
  let ?i = "TrimSpace i"
  show ?thesis
  proof (cases "?i = [] \<or> mget (mg_auths m) ?i = None")
    case True
    then show ?thesis using op_remove by (intro exI [of _ Nothing]) (auto simp: Remove_def op_effect_def Let_def split: option.splits)
  next
    case False
    then obtain a where a: "?i \<noteq> []" "mget (mg_auths m) ?i = Some a" by auto
    then have "\<not> au_RegistrationEpoch a > epochOf m ?i" using assms(2) unfolding manager_ok_def by (meson not_less)
    then have r: "m' = \<lparr>mg_auths = mdel ?i (mg_auths m), mg_authEpochs = mput ?i (epochOf m ?i + 1) (mg_authEpochs m)\<rparr>"
      "msgs = [MsgTombstone ?i (epochOf m ?i + 1)]" using op_remove a by (simp_all add: Remove_def Let_def)
    then show ?thesis using a clean_trim
      by (intro exI [of _ "Withdrawn ?i"]) (simp add: op_effect_def epochOf_put)
  qed
next
  case (op_mark result headers now)
  let ?i = "re_AuthID result"
  show ?thesis
  proof (cases "?i = [] \<or> mget (mg_auths m) ?i = None")
    case True
    then show ?thesis using op_mark
      by (intro exI [of _ Nothing]) (auto simp: MarkResult_def markMessages_def RefreshSchedulerEntry_def op_effect_def split: option.splits)
  next
    case False
    then obtain a where a: "?i \<noteq> []" "mget (mg_auths m) ?i = Some a" by auto
    let ?a = "markAuth me result headers now a"
    have ida: "au_ID a = ?i" "au_RegistrationEpoch a \<le> epochOf m ?i" using assms(2) a(2) by (auto simp: manager_ok_def)
    have "older a ?a" by (simp add: older_def markAuth_identity)
    moreover have "epochOf (m\<lparr>mg_auths := x\<rparr>) = epochOf m" for x by (simp add: epochOf_def fun_eq_iff)
    moreover have "MarkResult me result headers now (mg_auths m) = mput ?i ?a (mg_auths m)" using a by (simp add: MarkResult_def)
    ultimately show ?thesis using op_mark a ida
      by (intro exI [of _ "Announced ?a"])
        (simp add: op_effect_def announces_def markMessages_def RefreshSchedulerEntry_def markAuth_identity go_map)
  qed
next
  case (op_neutral result now)
  let ?i = "re_AuthID result"
  have e: "epochOf (m\<lparr>mg_auths := x\<rparr>) = epochOf m" for x by (simp add: epochOf_def fun_eq_iff)
  show ?thesis
  proof (cases "?i = [] \<or> mget (mg_auths m) ?i = None")
    case True
    then show ?thesis using op_neutral
      by (intro exI [of _ Nothing]) (auto simp: recordAvailabilityNeutralResult_def op_effect_def split: option.splits)
  next
    case False
    then obtain a where a: "?i \<noteq> []" "mget (mg_auths m) ?i = Some a" by auto
    let ?b = "countOutcome now (re_Success result) a"
    let ?a = "?b\<lparr>au_Generation := au_Generation ?b + 1, au_UpdatedAt := now\<rparr>"
    have "identity ?b = identity a" by (simp add: identity_simps)
    then have b: "au_ID ?b = au_ID a" "au_RegistrationEpoch ?b = au_RegistrationEpoch a" "au_Generation ?b = au_Generation a"
      by (simp_all add: identity_def)
    have "older a ?a" using b by (simp add: older_def)
    moreover have "schedView ?a = schedView a"
      by (simp add: schedView_def countOutcome_def recordRecentRequest_def Let_def)
    moreover have "au_ID a = ?i" using assms(2) a(2) by (simp add: manager_ok_def)
    moreover have "recordAvailabilityNeutralResult result now (mg_auths m) = mput ?i ?a (mg_auths m)"
      using a by (simp add: recordAvailabilityNeutralResult_def Let_def)
    ultimately show ?thesis using op_neutral a b
      by (intro exI [of _ "Quiet ?i"]) (auto simp: op_effect_def e intro!: exI [of _ ?a])
  qed
next
  case (op_refresh i)
  show ?thesis
  proof (cases "mget (mg_auths m) i")
    case None
    then show ?thesis using op_refresh by (intro exI [of _ Nothing]) (simp add: op_effect_def RefreshSchedulerEntry_def)
  next
    case (Some a)
    then have "au_ID a = i" using assms(2) by (simp add: manager_ok_def)
    then show ?thesis using op_refresh Some
      by (intro exI [of _ "Repeated a"]) (simp add: op_effect_def RefreshSchedulerEntry_def)
  qed
qed

section \<open>The invariant\<close>

definition in_place :: "bool \<Rightarrow> authScheduler \<Rightarrow> Auth \<Rightarrow> bool" where
  \<comment> \<open>the scheduler holds the snapshot, if it can be scheduled, and nothing else under its ID; with \<open>F\<close> it may have dropped it\<close>
  "in_place F s b \<longleftrightarrow> (\<forall>pk. if schedulable b \<and> pk = executorKeyFromAuth b
     then (F \<and> holds s pk (au_ID b) = None) \<or> (\<exists>meta. holds s pk (au_ID b) = Some meta \<and> sm_auth meta = b) else holds s pk (au_ID b) = None)"

abbreviation recordedFor :: "authScheduler \<Rightarrow> string \<Rightarrow> scheduledGenerationMeta option" where
  "recordedFor s i \<equiv> mget (as_authGenerations s) i"

definition snap_of :: "Auth \<Rightarrow> Auth \<Rightarrow> Auth \<Rightarrow> bool" where
  \<comment> \<open>a snapshot \<open>c\<close> that waits to be rebuilt from, of the credential \<open>a\<close> that was announced as \<open>b\<close>\<close>
  "snap_of a b c \<longleftrightarrow> c = b \<or> older c b \<or> (older b c \<and> schedView c = schedView a \<and> (c = a \<or> older c a))"

definition known :: "bool \<Rightarrow> schedMessage set \<Rightarrow> Auth set \<Rightarrow> authScheduler \<Rightarrow> Auth \<Rightarrow> Auth \<Rightarrow> bool" where
  \<comment> \<open>\<open>b\<close> is the newest snapshot announced of the credential \<open>a\<close>: it has arrived, or it is under way\<close>
  "known F M R s a b \<longleftrightarrow> au_ID b = au_ID a \<and> schedView b = schedView a \<and> (b = a \<or> older b a)
     \<and> ((recordedFor s (au_ID a) = Some (stamp b) \<and> in_place F s b)
        \<or> (MsgUpsert b \<in> M \<and> (\<forall>g. recordedFor s (au_ID a) = Some g \<longrightarrow> g \<le> stamp b)))
     \<and> (\<forall>c. MsgUpsert c \<in> M \<and> au_ID c = au_ID a \<longrightarrow> c = b \<or> older c b)
     \<and> (\<forall>e. MsgTombstone (au_ID a) e \<in> M \<longrightarrow> e < au_RegistrationEpoch b)
     \<and> (\<forall>c \<in> R. au_ID c = au_ID a \<longrightarrow> snap_of a b c)"

definition unused :: "schedMessage set \<Rightarrow> Auth set \<Rightarrow> authScheduler \<Rightarrow> string \<Rightarrow> bool" where
  "unused M R s i \<longleftrightarrow> (\<forall>pk. holds s pk i = None) \<and> recordedFor s i = None
     \<and> (\<forall>c. MsgUpsert c \<in> M \<longrightarrow> au_ID c \<noteq> i) \<and> (\<forall>e. MsgTombstone i e \<notin> M) \<and> (\<forall>c \<in> R. au_ID c \<noteq> i)"

definition buried :: "authScheduler \<Rightarrow> string \<Rightarrow> int \<Rightarrow> bool" where
  "buried s i E \<longleftrightarrow> (\<forall>pk. holds s pk i = None) \<and> (\<exists>g. recordedFor s i = Some g \<and> gm_epoch g = E)"

definition gone :: "schedMessage set \<Rightarrow> Auth set \<Rightarrow> authScheduler \<Rightarrow> string \<Rightarrow> int \<Rightarrow> bool" where
  \<comment> \<open>the ID was never used, or its tombstone has arrived or is under way\<close>
  "gone M R s i E \<longleftrightarrow> (\<forall>c. MsgUpsert c \<in> M \<and> au_ID c = i \<longrightarrow> au_RegistrationEpoch c < E)
     \<and> (\<forall>e. MsgTombstone i e \<in> M \<longrightarrow> e \<le> E) \<and> (\<forall>g. recordedFor s i = Some g \<longrightarrow> gm_epoch g \<le> E)
     \<and> (\<forall>c \<in> R. au_ID c = i \<longrightarrow> au_RegistrationEpoch c < E)
     \<and> (unused M R s i \<or> buried s i E \<or> MsgTombstone i E \<in> M)"

definition synced :: "bool \<Rightarrow> schedMessage set \<Rightarrow> Auth set \<Rightarrow> authScheduler \<Rightarrow> Manager \<Rightarrow> string \<Rightarrow> bool" where
  "synced F M R s m i \<longleftrightarrow> (case mget (mg_auths m) i of Some a \<Rightarrow> \<exists>b. known F M R s a b | None \<Rightarrow> gone M R s i (epochOf m i))"

definition clean_message :: "schedMessage \<Rightarrow> bool" where
  "clean_message msg \<longleftrightarrow> (case msg of MsgUpsert a \<Rightarrow> au_ID a \<noteq> [] \<and> clean_id (au_ID a) | MsgTombstone i e \<Rightarrow> i \<noteq> [] \<and> clean_id i)"

definition snapped :: "System \<Rightarrow> Auth set" where
  "snapped sy = (\<Union>xs \<in> set (sy_rebuilds sy). set xs)"

definition snapshots_ok :: "Auth list list \<Rightarrow> bool" where
  \<comment> \<open>the snapshots taken of one credential are ordered, in whatever order they are rebuilt from\<close>
  "snapshots_ok xss \<longleftrightarrow> (\<forall>xs \<in> set xss. distinct (map au_ID xs) \<and> (\<forall>a \<in> set xs. au_ID a \<noteq> [] \<and> clean_id (au_ID a)))
     \<and> (\<forall>xs \<in> set xss. \<forall>ys \<in> set xss. \<forall>a \<in> set xs. \<forall>b \<in> set ys. au_ID a = au_ID b \<longrightarrow> a = b \<or> older a b \<or> older b a)"

definition sys_inv :: "Env \<Rightarrow> time \<Rightarrow> System \<Rightarrow> bool" where
  "sys_inv env t sy \<longleftrightarrow> 0 \<le> t \<and> sched_inv env t (sy_scheduler sy) \<and> located (sy_scheduler sy) \<and> manager_ok (sy_manager sy)
     \<and> (\<forall>i a. mget (mg_auths (sy_manager sy)) i = Some a \<longrightarrow> i \<noteq> [] \<and> clean_id i)
     \<and> (\<forall>msg \<in> set (sy_pending sy). clean_message msg)
     \<and> snapshots_ok (sy_rebuilds sy)
     \<and> (\<forall>i. synced (sy_outdated sy) (set (sy_pending sy)) (snapped sy) (sy_scheduler sy) (sy_manager sy) i)"

lemma older_stamp: "older c b \<Longrightarrow> stamp c < stamp b"
  by (auto simp: older_def meta_order stamp_def)

lemma older_trans: "older a b \<Longrightarrow> older b c \<Longrightarrow> older a c"
  by (auto simp: older_def)

lemma older_epoch: "older a b \<Longrightarrow> au_RegistrationEpoch a \<le> au_RegistrationEpoch b"
  by (auto simp: older_def)

lemma stamp_epoch: "gm_epoch (stamp a) = au_RegistrationEpoch a"
  by (simp add: stamp_def)

lemma recorded_epoch: "g \<le> stamp b \<Longrightarrow> gm_epoch g \<le> au_RegistrationEpoch b"
  using meta_le_epoch(2) [of g "stamp b"] by (simp add: stamp_epoch)

lemma older_epoch_le: "e < au_RegistrationEpoch b \<Longrightarrow> gm_epoch g = e \<Longrightarrow> g \<le> stamp b"
  using meta_le_epoch(1) [of g "stamp b"] by (simp add: stamp_epoch)

lemma snap_newest: "snap_of a b c \<Longrightarrow> b = a \<or> older b a \<Longrightarrow> c = a \<or> older c a"
  unfolding snap_of_def using older_trans by blast

lemma snap_announced: "snap_of a b c \<Longrightarrow> b = a \<or> older b a \<Longrightarrow> snap_of a a c"
  using snap_newest [of a b c] by (auto simp: snap_of_def)

lemma snap_replaced: "snap_of x b c \<Longrightarrow> b = x \<or> older b x \<Longrightarrow> older x a \<Longrightarrow> snap_of a a c"
  using snap_newest [of x b c] older_trans [of c x a] by (auto simp: snap_of_def)

lemma snap_quiet: "snap_of a b c \<Longrightarrow> older a a' \<Longrightarrow> schedView a' = schedView a \<Longrightarrow> snap_of a' b c"
  unfolding snap_of_def using older_trans by metis

section \<open>A message arrives\<close>

text \<open>What a message does to the ID it is about; it leaves every other ID alone.\<close>

lemma deliver_upsert:
  fixes env reg now
  assumes "located s" and "clean_id (au_ID c)" and "au_ID c \<noteq> []"
  defines "s' \<equiv> deliver env reg now (MsgUpsert c) s" and "ok \<equiv> \<forall>g. recordedFor s (au_ID c) = Some g \<longrightarrow> g \<le> stamp c"
  shows "\<not> ok \<Longrightarrow> recordedFor s' i = recordedFor s i \<and> holds s' pk i = holds s pk i"
    and "i \<noteq> au_ID c \<Longrightarrow> recordedFor s' i = recordedFor s i \<and> holds s' pk i = holds s pk i"
    and "ok \<Longrightarrow> recordedFor s' (au_ID c) = Some (stamp c) \<and> in_place F s' c"
proof -
  have s': "s' = upsertAuthLocked env reg c now s" by (simp add: s'_def deliver_def upsertAuth_def)
  have ok: "accepts c s \<longleftrightarrow> ok" using accepts_iff [OF assms(2)] assms(3) by (simp add: ok_def)
  note h = upsert_holds(1,2) [OF assms(1,2), of env reg now, folded s', unfolded ok]
  show "\<not> ok \<Longrightarrow> recordedFor s' i = recordedFor s i \<and> holds s' pk i = holds s pk i"
    "i \<noteq> au_ID c \<Longrightarrow> recordedFor s' i = recordedFor s i \<and> holds s' pk i = holds s pk i"
    by (simp_all add: h go_map)
  show "ok \<Longrightarrow> recordedFor s' (au_ID c) = Some (stamp c) \<and> in_place F s' c"
    by (simp add: h in_place_def go_map)
qed

lemma deliver_tombstone:
  fixes env reg now e
  assumes "located s" and "clean_id j" and "j \<noteq> []"
  defines "s' \<equiv> deliver env reg now (MsgTombstone j e) s" and "ok \<equiv> \<forall>g. recordedFor s j = Some g \<longrightarrow> gm_epoch g \<le> e"
  shows "\<not> ok \<Longrightarrow> recordedFor s' i = recordedFor s i \<and> holds s' pk i = holds s pk i"
    and "i \<noteq> j \<Longrightarrow> recordedFor s' i = recordedFor s i \<and> holds s' pk i = holds s pk i"
    and "ok \<Longrightarrow> (\<exists>g. recordedFor s' j = Some g \<and> gm_epoch g = e) \<and> holds s' pk j = None"
proof -
  let ?s = "s\<lparr>as_authGenerations := mput j \<lparr>gm_epoch = e, gm_generation = 0, gm_updatedAt = now\<rparr> (as_authGenerations s)\<rparr>"
  have "TrimSpace j = j" using assms(2) by (simp add: clean_id_def)
  then have s': "s' = (if ok then removeAuthFromProvidersLocked j ?s else s)"
    using assms(3) by (auto simp: s'_def ok_def deliver_def RecordRemovalTombstone_def recordRemovalTombstoneLocked_def split: option.split)
  have r: "removeAuthFromProvidersLocked j ?s = (removeAuthFromProvidersLocked j s)\<lparr>as_authGenerations := as_authGenerations ?s\<rparr>"
    by (simp add: removeAuthFromProvidersLocked_def removeFromProvider_def Let_def split: option.split)
  note h = removeFromProviders_holds(1) [OF assms(1,3)]
  show "\<not> ok \<Longrightarrow> recordedFor s' i = recordedFor s i \<and> holds s' pk i = holds s pk i"
    "i \<noteq> j \<Longrightarrow> recordedFor s' i = recordedFor s i \<and> holds s' pk i = holds s pk i"
    "ok \<Longrightarrow> (\<exists>g. recordedFor s' j = Some g \<and> gm_epoch g = e) \<and> holds s' pk j = None"
    by (simp_all add: s' r h go_map)
qed

lemma in_place_same: "(\<And>pk. holds s' pk (au_ID b) = holds s pk (au_ID b)) \<Longrightarrow> in_place F s b \<Longrightarrow> in_place F s' b"
  by (simp add: in_place_def)

lemma known_same:
  assumes "known F M R s a b" and "recordedFor s' (au_ID a) = recordedFor s (au_ID a)" and "\<And>pk. holds s' pk (au_ID a) = holds s pk (au_ID a)"
    and "M' \<subseteq> M" and "MsgUpsert b \<in> M \<Longrightarrow> MsgUpsert b \<in> M' \<or> recordedFor s (au_ID a) = Some (stamp b) \<and> in_place F s b"
  shows "known F M' R s' a b"
proof -
  note k = assms(1) [unfolded known_def]
  have place: "in_place F s b \<Longrightarrow> in_place F s' b" using k assms(3) in_place_same by simp
  have "(recordedFor s' (au_ID a) = Some (stamp b) \<and> in_place F s' b)
      \<or> (MsgUpsert b \<in> M' \<and> (\<forall>g. recordedFor s' (au_ID a) = Some g \<longrightarrow> g \<le> stamp b))"
    unfolding assms(2) using k assms(5) place by (cases "MsgUpsert b \<in> M'") blast+
  moreover have "\<forall>c. MsgUpsert c \<in> M' \<and> au_ID c = au_ID a \<longrightarrow> c = b \<or> older c b" using k assms(4) by blast
  moreover have "\<forall>e. MsgTombstone (au_ID a) e \<in> M' \<longrightarrow> e < au_RegistrationEpoch b" using k assms(4) by blast
  moreover have "\<forall>c \<in> R. au_ID c = au_ID a \<longrightarrow> snap_of a b c" using k by blast
  ultimately show ?thesis unfolding known_def
    using conjunct1 [OF k] conjunct1 [OF conjunct2 [OF k]] conjunct1 [OF conjunct2 [OF conjunct2 [OF k]]] by (intro conjI)
qed

lemma gone_same:
  assumes "gone M R s i E" and "recordedFor s' i = recordedFor s i" and "\<And>pk. holds s' pk i = holds s pk i"
    and "M' \<subseteq> M" and "MsgTombstone i E \<in> M \<Longrightarrow> MsgTombstone i E \<in> M' \<or> buried s i E"
  shows "gone M' R s' i E"
proof -
  have "unused M R s i \<Longrightarrow> unused M' R s' i" using assms(4) by (auto simp: unused_def assms(2,3))
  moreover have "buried s i E \<Longrightarrow> buried s' i E" by (simp add: buried_def assms(2,3))
  moreover have "\<forall>g. recordedFor s' i = Some g \<longrightarrow> gm_epoch g \<le> E" unfolding assms(2) using assms(1) by (simp add: gone_def)
  ultimately show ?thesis using assms(1,4,5) unfolding gone_def by blast
qed

lemma deliver_known:
  assumes "located s" and "clean_message msg" and "known F M R s a b" and "msg \<in> M" and "M' \<subseteq> M" and "M \<subseteq> insert msg M'"
  shows "known F M' R (deliver env reg now msg s) a b"
proof -
  let ?s = "deliver env reg now msg s" and ?i = "au_ID a"
  have b: "au_ID b = ?i" using assms(3) by (simp add: known_def)
  have rec: "\<forall>g. recordedFor s ?i = Some g \<longrightarrow> g \<le> stamp b" using assms(3) by (auto simp: known_def)
  show ?thesis
  proof (cases msg)
    case (MsgUpsert c)
    have c: "clean_id (au_ID c)" "au_ID c \<noteq> []" using assms(2) by (simp_all add: clean_message_def MsgUpsert)
    note d = deliver_upsert [OF assms(1) c, where env = env and reg = reg and now = now, folded MsgUpsert]
    show ?thesis
    proof (cases "au_ID c = ?i")
      case False
      then show ?thesis using assms MsgUpsert d(2) b by (intro known_same [OF assms(3)]) auto
    next
      case same: True
      then have "c = b \<or> older c b" using assms(3,4) by (auto simp: known_def MsgUpsert)
      then show ?thesis
      proof
        assume c: "c = b"
        then have "recordedFor ?s ?i = Some (stamp b) \<and> in_place F ?s b" using d(3) rec b by simp
        then show ?thesis using assms(3,5) unfolding known_def by blast
      next
        assume old: "older c b"
        show ?thesis
        proof (cases "recordedFor s ?i = Some (stamp b)")
          case True
          then have no: "\<not> (\<forall>g. recordedFor s (au_ID c) = Some g \<longrightarrow> g \<le> stamp c)" using older_stamp [OF old] same by auto
          have "in_place F s b \<or> MsgUpsert b \<in> M'" using assms(3,6) old unfolding known_def MsgUpsert older_def by auto
          then show ?thesis using d(1) [OF no] True assms(5) by (intro known_same [OF assms(3)]) auto
        next
          case False
          then have up: "MsgUpsert b \<in> M'" using assms(3,6) old by (auto simp: known_def MsgUpsert older_def)
          have "g \<le> stamp b" if "recordedFor ?s ?i = Some g" for g
            using that d(1) [of ?i] d(3) rec older_stamp [OF old] same by (cases "\<forall>g. recordedFor s (au_ID c) = Some g \<longrightarrow> g \<le> stamp c") auto
          then show ?thesis using assms(3,5) up unfolding known_def by blast
        qed
      qed
    qed
  next
    case (MsgTombstone j e)
    have j: "clean_id j" "j \<noteq> []" using assms(2) by (simp_all add: clean_message_def MsgTombstone)
    note d = deliver_tombstone [OF assms(1) j, where env = env and reg = reg and now = now and e = e, folded MsgTombstone]
    have up: "MsgUpsert b \<in> M \<Longrightarrow> MsgUpsert b \<in> M'" using assms(6) by (auto simp: MsgTombstone)
    show ?thesis
    proof (cases "j = ?i")
      case False
      then show ?thesis using assms up d(2) b by (intro known_same [OF assms(3)]) auto
    next
      case True
      then have e: "e < au_RegistrationEpoch b" using assms(3,4) by (auto simp: known_def MsgTombstone)
      show ?thesis
      proof (cases "\<forall>g. recordedFor s j = Some g \<longrightarrow> gm_epoch g \<le> e")
        case no: False
        then show ?thesis using d(1) up assms(5) by (intro known_same [OF assms(3)]) auto
      next
        case ok: True
        then have "recordedFor s ?i \<noteq> Some (stamp b)" using e True by (auto simp: stamp_epoch)
        then have "MsgUpsert b \<in> M'" using assms(3) up by (auto simp: known_def)
        moreover have "g \<le> stamp b" if "recordedFor ?s ?i = Some g" for g
          using d(3) ok that True older_epoch_le [OF e] by auto
        ultimately show ?thesis using assms(3,5) unfolding known_def by blast
      qed
    qed
  qed
qed

lemma deliver_gone:
  assumes "located s" and "clean_message msg" and "gone M R s i E" and "msg \<in> M" and "M' \<subseteq> M" and "M \<subseteq> insert msg M'"
  shows "gone M' R (deliver env reg now msg s) i E"
proof (cases msg)
  case (MsgUpsert c)
  let ?s = "deliver env reg now msg s"
  have c: "clean_id (au_ID c)" "au_ID c \<noteq> []" using assms(2) by (simp_all add: clean_message_def MsgUpsert)
  note d = deliver_upsert [OF assms(1) c, where env = env and reg = reg and now = now, folded MsgUpsert]
  have tomb: "MsgTombstone i E \<in> M \<Longrightarrow> MsgTombstone i E \<in> M'" using assms(6) by (auto simp: MsgUpsert)
  show ?thesis
  proof (cases "au_ID c = i \<and> (\<forall>g. recordedFor s i = Some g \<longrightarrow> g \<le> stamp c)")
    case False
    then have "recordedFor ?s i = recordedFor s i \<and> holds ?s pk i = holds s pk i" for pk
      using d(1) [of i pk] d(2) [of i pk] by (cases "au_ID c = i") auto
    then show ?thesis using assms(5) tomb by (intro gone_same [OF assms(3)]) auto
  next
    case True
    then have E: "au_RegistrationEpoch c < E" using assms(3,4) by (auto simp: gone_def MsgUpsert)
    have "\<not> buried s i E" using True E recorded_epoch by (fastforce simp: buried_def)
    moreover have "\<not> unused M R s i" using True assms(4) by (auto simp: unused_def MsgUpsert)
    ultimately have "MsgTombstone i E \<in> M'" using assms(3) tomb unfolding gone_def by blast
    moreover have "gm_epoch g \<le> E" if "recordedFor ?s i = Some g" for g
      using d(3) True that E by (auto simp: stamp_epoch)
    ultimately show ?thesis using assms(3,5) unfolding gone_def by blast
  qed
next
  case (MsgTombstone j e)
  let ?s = "deliver env reg now msg s"
  have j: "clean_id j" "j \<noteq> []" using assms(2) by (simp_all add: clean_message_def MsgTombstone)
  note d = deliver_tombstone [OF assms(1) j, where env = env and reg = reg and now = now and e = e, folded MsgTombstone]
  show ?thesis
  proof (cases "j = i")
    case False
    then have "MsgTombstone i E \<in> M \<Longrightarrow> MsgTombstone i E \<in> M'" using assms(6) by (auto simp: MsgTombstone)
    then show ?thesis using assms(5) d(2) False by (intro gone_same [OF assms(3)]) auto
  next
    case True
    then have e: "e \<le> E" using assms(3,4) by (auto simp: gone_def MsgTombstone)
    have g: "\<forall>g. recordedFor s i = Some g \<longrightarrow> gm_epoch g \<le> E" using assms(3) by (simp add: gone_def)
    show ?thesis
    proof (cases "e = E")
      case here: True
      then have "\<forall>g. recordedFor s j = Some g \<longrightarrow> gm_epoch g \<le> e" using g True by simp
      then have "buried ?s i E" using d(3) True here by (auto simp: buried_def)
      moreover have "\<forall>g. recordedFor ?s i = Some g \<longrightarrow> gm_epoch g \<le> E" using calculation by (auto simp: buried_def)
      ultimately show ?thesis using assms(3,5) unfolding gone_def by blast
    next
      case False
      then have tomb: "MsgTombstone i E \<in> M \<Longrightarrow> MsgTombstone i E \<in> M'" using assms(6) by (auto simp: MsgTombstone)
      show ?thesis
      proof (cases "\<forall>g. recordedFor s j = Some g \<longrightarrow> gm_epoch g \<le> e")
        case no: False
        then show ?thesis using d(1) assms(5) tomb by (intro gone_same [OF assms(3)]) auto
      next
        case ok: True
        then have "\<not> buried s i E" using e False True by (fastforce simp: buried_def)
        moreover have "\<not> unused M R s i" using assms(4) by (auto simp: MsgTombstone True unused_def)
        ultimately have "MsgTombstone i E \<in> M'" using assms(3) tomb unfolding gone_def by blast
        moreover have "gm_epoch g \<le> E" if "recordedFor ?s i = Some g" for g using d(3) ok that True e by auto
        ultimately show ?thesis using assms(3,5) unfolding gone_def by blast
      qed
    qed
  qed
qed

section \<open>An operation of the manager\<close>

lemma announce_synced:
  assumes "announces m m' a" and "synced F M R s m i" and "manager_ok m"
  shows "synced F (insert (MsgUpsert a) M) R s m' i"
proof -
  have a: "mg_auths m' = mput (au_ID a) a (mg_auths m)" "\<forall>j. j \<noteq> au_ID a \<longrightarrow> epochOf m' j = epochOf m j"
    using assms(1) by (simp_all add: announces_def)
  show ?thesis
  proof (cases "i = au_ID a")
    case other: False
    show ?thesis
    proof (cases "mget (mg_auths m) i")
      case None
      then have "gone (insert (MsgUpsert a) M) R s i (epochOf m i)"
        using assms(2) other by (auto simp: synced_def gone_def unused_def)
      then show ?thesis using None other a by (simp add: synced_def go_map)
    next
      case (Some x)
      then obtain b where b: "known F M R s x b" using assms(2) by (auto simp: synced_def)
      have "au_ID x = i" using assms(3) Some by (simp add: manager_ok_def)
      then have "known F (insert (MsgUpsert a) M) R s x b" using b other by (auto simp: known_def)
      then show ?thesis using Some other a by (auto simp: synced_def go_map)
    qed
  next
    case True
    show ?thesis
    proof (cases "mget (mg_auths m) i")
      case None
      then have g: "gone M R s i (epochOf m i)" "epochOf m i < au_RegistrationEpoch a" using assms by (simp_all add: synced_def announces_def True)
      have 1: "c = a \<or> older c a" if "MsgUpsert c \<in> insert (MsgUpsert a) M" "au_ID c = i" for c
        using g that by (fastforce simp: gone_def older_def)
      have 2: "g \<le> stamp a" if "recordedFor s i = Some g" for g
      proof -
        have "gm_epoch g < au_RegistrationEpoch a" using g that unfolding gone_def by fastforce
        then show ?thesis using older_epoch_le by blast
      qed
      have 3: "e < au_RegistrationEpoch a" if "MsgTombstone i e \<in> insert (MsgUpsert a) M" for e
        using g that unfolding gone_def by fastforce
      have 4: "snap_of a a c" if "c \<in> R" "au_ID c = i" for c
        using g that by (fastforce simp: gone_def snap_of_def older_def)
      have "known F (insert (MsgUpsert a) M) R s a a" using 1 2 3 4 by (simp add: known_def True)
      then show ?thesis by (auto simp: synced_def a go_map True)
    next
      case (Some x)
      then obtain b where b: "known F M R s x b" using assms(2) by (auto simp: synced_def)
      have x: "older x a" using assms(1) Some by (simp add: announces_def True)
      have ba: "older b a" using b x older_trans by (auto simp: known_def)
      have id: "au_ID x = au_ID a" using assms(3) Some by (simp add: manager_ok_def True)
      have 1: "c = a \<or> older c a" if "MsgUpsert c \<in> insert (MsgUpsert a) M" "au_ID c = i" for c
        using b that ba older_trans by (auto simp: known_def True id)
      have 2: "g \<le> stamp a" if "recordedFor s i = Some g" for g
        using b that older_stamp [OF ba] by (auto simp: known_def True id)
      have 3: "e < au_RegistrationEpoch a" if "MsgTombstone i e \<in> insert (MsgUpsert a) M" for e
        using b that older_epoch [OF ba] by (fastforce simp: known_def True id)
      have 4: "snap_of a a c" if "c \<in> R" "au_ID c = i" for c
        using b that x snap_replaced [of x b c a] by (auto simp: known_def True id)
      have "known F (insert (MsgUpsert a) M) R s a a" using 1 2 3 4 by (simp add: known_def True)
      then show ?thesis by (auto simp: synced_def a go_map True)
    qed
  qed
qed

lemma op_synced:
  assumes "op_effect x m m' msgs" and "synced F M R s m i" and "manager_ok m"
  shows "synced F (M \<union> set msgs) R s m' i"
proof (cases x)
  case (Announced a)
  then show ?thesis using announce_synced [OF _ assms(2,3)] assms(1) by (auto simp: op_effect_def)
next
  case (Withdrawn j)
  then have w: "mget (mg_auths m) j \<noteq> None" "mg_auths m' = mdel j (mg_auths m)" "epochOf m j < epochOf m' j"
    "msgs = [MsgTombstone j (epochOf m' j)]" "\<forall>k. k \<noteq> j \<longrightarrow> epochOf m' k = epochOf m k"
    using assms(1) by (simp_all add: op_effect_def)
  show ?thesis
  proof (cases "i = j")
    case True
    then obtain a where a: "mget (mg_auths m) i = Some a" using w(1) by auto
    then obtain b where b: "known F M R s a b" using assms(2) by (auto simp: synced_def)
    have id: "au_ID a = i" "au_RegistrationEpoch a \<le> epochOf m i" using assms(3) a by (simp_all add: manager_ok_def)
    have be: "au_RegistrationEpoch b < epochOf m' i" using b id w(3) older_epoch by (fastforce simp: known_def True)
    have "au_RegistrationEpoch c < epochOf m' i" if "MsgUpsert c \<in> M" "au_ID c = i" for c
      using b that be older_epoch [of c b] id by (auto simp: known_def)
    moreover have "e < epochOf m' i" if "MsgTombstone i e \<in> M" for e using b that be id by (fastforce simp: known_def)
    moreover have "au_RegistrationEpoch c < epochOf m' i" if "c \<in> R" "au_ID c = i" for c
    proof -
      have "c = a \<or> older c a" using b that id snap_newest [of a b c] by (auto simp: known_def)
      then show ?thesis using older_epoch [of c a] id w(3) True by auto
    qed
    moreover have "gm_epoch g < epochOf m' i" if "recordedFor s i = Some g" for g
    proof -
      have "g \<le> stamp b" using b that id by (auto simp: known_def)
      then show ?thesis using recorded_epoch be by fastforce
    qed
    ultimately have "gone (M \<union> set msgs) R s i (epochOf m' i)" by (fastforce simp: gone_def w(4) True)
    then show ?thesis by (simp add: synced_def w(2) True go_map)
  next
    case other: False
    show ?thesis
    proof (cases "mget (mg_auths m) i")
      case None
      then have "gone (M \<union> set msgs) R s i (epochOf m i)" using assms(2) other by (auto simp: synced_def gone_def unused_def w(4))
      then show ?thesis using None other w(2,5) by (simp add: synced_def go_map)
    next
      case (Some a)
      then obtain b where b: "known F M R s a b" using assms(2) by (auto simp: synced_def)
      have "au_ID a = i" using assms(3) Some by (simp add: manager_ok_def)
      then have "known F (M \<union> set msgs) R s a b" using b other by (auto simp: known_def w(4))
      then show ?thesis using Some other w(2) by (auto simp: synced_def go_map)
    qed
  qed
next
  case (Quiet j)
  then obtain a a' where q: "msgs = []" "epochOf m' = epochOf m" "mget (mg_auths m) j = Some a" "older a a'" "au_ID a' = j"
    "schedView a' = schedView a" "mg_auths m' = mput j a' (mg_auths m)" using assms(1) by (auto simp: op_effect_def)
  show ?thesis
  proof (cases "i = j")
    case True
    then obtain b where b: "known F M R s a b" using assms(2) q(3) by (auto simp: synced_def)
    have "au_ID a = j" using assms(3) q(3) by (simp add: manager_ok_def)
    moreover have "\<forall>c \<in> R. au_ID c = j \<longrightarrow> snap_of a' b c"
      using b calculation snap_quiet [OF _ q(4,6)] by (auto simp: known_def)
    ultimately have "known F M R s a' b" using b q(4-6) older_trans by (auto simp: known_def)
    then show ?thesis by (auto simp: synced_def q True go_map)
  next
    case False
    then show ?thesis using assms(2) by (auto simp: synced_def q go_map split: option.splits)
  qed
next
  case (Repeated a)
  then have r: "m' = m" "msgs = [MsgUpsert a]" "mget (mg_auths m) (au_ID a) = Some a" using assms(1) by (simp_all add: op_effect_def)
  show ?thesis
  proof (cases "i = au_ID a")
    case True
    then obtain b where b: "known F M R s a b" using assms(2) r(3) by (auto simp: synced_def)
    show ?thesis
    proof (cases "b = a")
      case True
      then have "known F (M \<union> set msgs) R s a a" using b by (auto simp: known_def r(2))
      then show ?thesis using r \<open>i = au_ID a\<close> by (auto simp: synced_def)
    next
      case False
      then have ba: "older b a" using b by (simp add: known_def)
      have "c = a \<or> older c a" if "MsgUpsert c \<in> M \<union> set msgs" "au_ID c = au_ID a" for c
        using b that ba older_trans by (auto simp: known_def r(2))
      moreover have "g \<le> stamp a" if "recordedFor s (au_ID a) = Some g" for g
        using b that older_stamp [OF ba] by (auto simp: known_def)
      moreover have "e < au_RegistrationEpoch a" if "MsgTombstone (au_ID a) e \<in> M \<union> set msgs" for e
        using b that older_epoch [OF ba] by (fastforce simp: known_def r(2))
      moreover have "snap_of a a c" if "c \<in> R" "au_ID c = au_ID a" for c
        using b that snap_announced [of a b c] by (auto simp: known_def)
      ultimately have "known F (M \<union> set msgs) R s a a" by (simp add: known_def r(2))
      then show ?thesis using r \<open>i = au_ID a\<close> by (auto simp: synced_def)
    qed
  next
    case other: False
    show ?thesis
    proof (cases "mget (mg_auths m) i")
      case None
      then show ?thesis using assms(2) other by (auto simp: synced_def gone_def unused_def r)
    next
      case (Some x)
      then obtain b where b: "known F M R s x b" using assms(2) by (auto simp: synced_def)
      have "au_ID x = i" using assms(3) Some by (simp add: manager_ok_def)
      then have "known F (M \<union> set msgs) R s x b" using b other by (auto simp: known_def r(2))
      then show ?thesis using Some by (auto simp: synced_def r)
    qed
  qed
next
  case Nothing
  then show ?thesis using assms(1,2) by (simp add: op_effect_def)
qed

lemma op_ok:
  assumes "op_effect x m m' msgs" and "manager_ok m" and "\<forall>i a. mget (mg_auths m) i = Some a \<longrightarrow> i \<noteq> [] \<and> clean_id i"
  shows "manager_ok m' \<and> (\<forall>i a. mget (mg_auths m') i = Some a \<longrightarrow> i \<noteq> [] \<and> clean_id i) \<and> (\<forall>msg \<in> set msgs. clean_message msg)"
proof (cases x)
  case (Announced a)
  then have a: "msgs = [MsgUpsert a]" "announces m m' a" "clean_id (au_ID a) \<or> mget (mg_auths m) (au_ID a) \<noteq> None"
    using assms(1) by (simp_all add: op_effect_def)
  then have c: "au_ID a \<noteq> [] \<and> clean_id (au_ID a)" using assms(3) by (auto simp: announces_def)
  have "mg_auths m' = mput (au_ID a) a (mg_auths m)" using a(2) by (simp add: announces_def)
  then show ?thesis using announces_ok [OF assms(2) a(2)] c assms(3) by (auto simp: a(1) clean_message_def go_map)
next
  case (Withdrawn i)
  then have w: "i \<noteq> []" "clean_id i" "mg_auths m' = mdel i (mg_auths m)" "msgs = [MsgTombstone i (epochOf m' i)]"
    "\<forall>j. j \<noteq> i \<longrightarrow> epochOf m' j = epochOf m j" using assms(1) by (simp_all add: op_effect_def)
  have "manager_ok m'" using assms(2) w(5) by (auto simp: manager_ok_def w(3) go_map inv_intro)
  then show ?thesis using assms(3) w(1,2) by (auto simp: w(3,4) clean_message_def go_map)
next
  case (Quiet i)
  then obtain a a' where q: "msgs = []" "epochOf m' = epochOf m" "mget (mg_auths m) i = Some a" "au_ID a' = i"
    "au_RegistrationEpoch a' = au_RegistrationEpoch a" "mg_auths m' = mput i a' (mg_auths m)" using assms(1) by (auto simp: op_effect_def)
  have "manager_ok m'" using assms(2) q(3,5) by (auto simp: manager_ok_def q(2,4,6) go_map inv_intro)
  then show ?thesis using assms(3) q(3) by (auto simp: q(1,6) go_map)
next
  case (Repeated a)
  then show ?thesis using assms by (auto simp: op_effect_def clean_message_def)
next
  case Nothing
  then show ?thesis using assms by (simp add: op_effect_def)
qed

section \<open>A rebuild from a snapshot of the manager's credentials\<close>

definition fresh :: "authScheduler \<Rightarrow> Auth \<Rightarrow> bool" where
  \<comment> \<open>the scheduler has recorded nothing newer for the ID\<close>
  "fresh s a \<longleftrightarrow> (\<forall>g. recordedFor s (au_ID a) = Some g \<longrightarrow> g \<le> stamp a)"

lemma rebuild_fold:
  fixes env reg now
  assumes "located s" and "distinct (map au_ID xs)" and "\<forall>a \<in> set xs. au_ID a \<noteq> [] \<and> clean_id (au_ID a)"
  defines "s' \<equiv> fold (\<lambda>auth. upsertAuthLocked env reg auth now) xs s"
  shows "located s'"
    and "a \<in> set xs \<Longrightarrow> fresh s a \<Longrightarrow> recordedFor s' (au_ID a) = Some (stamp a) \<and> in_place F s' a"
    and "a \<in> set xs \<Longrightarrow> \<not> fresh s a \<Longrightarrow> recordedFor s' (au_ID a) = recordedFor s (au_ID a) \<and> (\<forall>pk. holds s' pk (au_ID a) = holds s pk (au_ID a))"
    and "i \<notin> au_ID ` set xs \<Longrightarrow> recordedFor s' i = recordedFor s i \<and> (\<forall>pk. holds s' pk i = holds s pk i)"
proof -
  have "located s' \<and> (\<forall>a \<in> set xs. if fresh s a then recordedFor s' (au_ID a) = Some (stamp a) \<and> in_place F s' a
        else recordedFor s' (au_ID a) = recordedFor s (au_ID a) \<and> (\<forall>pk. holds s' pk (au_ID a) = holds s pk (au_ID a)))
      \<and> (\<forall>i. i \<notin> au_ID ` set xs \<longrightarrow> recordedFor s' i = recordedFor s i \<and> (\<forall>pk. holds s' pk i = holds s pk i))"
    using assms(1-3) unfolding s'_def
  proof (induction xs arbitrary: s)
    case (Cons x xs)
    let ?s = "upsertAuthLocked env reg x now s" and ?s' = "fold (\<lambda>auth. upsertAuthLocked env reg auth now) (x # xs) s"
    have x: "au_ID x \<noteq> []" "clean_id (au_ID x)" "au_ID x \<notin> au_ID ` set xs" using Cons.prems by auto
    have loc: "located ?s" using upsert_holds(3) [OF Cons.prems(1) x(2)] .
    note d = deliver_upsert [OF Cons.prems(1) x(2,1), where env = env and reg = reg and now = now, unfolded deliver_def schedMessage.case upsertAuth_def]
    have other: "recordedFor ?s i = recordedFor s i \<and> holds ?s pk i = holds s pk i" if "i \<noteq> au_ID x" for i pk using d(2) [OF that] .
    have same: "fresh ?s a = fresh s a" if "a \<in> set xs" for a
    proof -
      have "au_ID a \<noteq> au_ID x" using x(3) that by (metis imageI)
      then show ?thesis using other by (simp add: fresh_def)
    qed
    have ih: "located ?s' \<and> (\<forall>a \<in> set xs. if fresh ?s a then recordedFor ?s' (au_ID a) = Some (stamp a) \<and> in_place F ?s' a
        else recordedFor ?s' (au_ID a) = recordedFor ?s (au_ID a) \<and> (\<forall>pk. holds ?s' pk (au_ID a) = holds ?s pk (au_ID a)))
      \<and> (\<forall>i. i \<notin> au_ID ` set xs \<longrightarrow> recordedFor ?s' i = recordedFor ?s i \<and> (\<forall>pk. holds ?s' pk i = holds ?s pk i))"
      using Cons.IH [OF loc] Cons.prems(2,3) by simp
    have keep: "recordedFor ?s' (au_ID x) = recordedFor ?s (au_ID x)" "\<And>pk. holds ?s' pk (au_ID x) = holds ?s pk (au_ID x)"
      using ih x(3) by blast+
    have here: "if fresh s x then recordedFor ?s' (au_ID x) = Some (stamp x) \<and> in_place F ?s' x
        else recordedFor ?s' (au_ID x) = recordedFor s (au_ID x) \<and> (\<forall>pk. holds ?s' pk (au_ID x) = holds s pk (au_ID x))"
    proof (cases "fresh s x")
      case True
      then have "recordedFor ?s (au_ID x) = Some (stamp x) \<and> in_place F ?s x" using d(3) by (simp add: fresh_def)
      then show ?thesis using True keep in_place_same [of ?s' x ?s] by simp
    next
      case False
      then have "recordedFor ?s (au_ID x) = recordedFor s (au_ID x) \<and> holds ?s pk (au_ID x) = holds s pk (au_ID x)" for pk
        using d(1) by (simp add: fresh_def)
      then show ?thesis using False keep by simp
    qed
    have tail: "if fresh s a then recordedFor ?s' (au_ID a) = Some (stamp a) \<and> in_place F ?s' a
        else recordedFor ?s' (au_ID a) = recordedFor s (au_ID a) \<and> (\<forall>pk. holds ?s' pk (au_ID a) = holds s pk (au_ID a))"
      if "a \<in> set xs" for a
    proof -
      have "au_ID a \<noteq> au_ID x" using x(3) that by (metis imageI)
      then show ?thesis using ih that same [OF that] other by auto
    qed
    have "recordedFor ?s' i = recordedFor s i \<and> (\<forall>pk. holds ?s' pk i = holds s pk i)" if "i \<notin> au_ID ` set (x # xs)" for i
      using ih other that by auto
    then show ?case using ih here tail by (metis set_ConsD)
  qed simp
  then show "located s'"
    "a \<in> set xs \<Longrightarrow> fresh s a \<Longrightarrow> recordedFor s' (au_ID a) = Some (stamp a) \<and> in_place F s' a"
    "a \<in> set xs \<Longrightarrow> \<not> fresh s a \<Longrightarrow> recordedFor s' (au_ID a) = recordedFor s (au_ID a) \<and> (\<forall>pk. holds s' pk (au_ID a) = holds s pk (au_ID a))"
    "i \<notin> au_ID ` set xs \<Longrightarrow> recordedFor s' i = recordedFor s i \<and> (\<forall>pk. holds s' pk i = holds s pk i)"
    by (simp_all split: if_splits)
qed

lemma in_place_dropped: "\<forall>pk. holds s pk (au_ID b) = None \<Longrightarrow> in_place True s b"
  by (simp add: in_place_def)

text \<open>
  A rebuild forgets every entry but keeps the stamps, so it brings nothing back that is older than what had arrived. Only
  a rebuild from an up-to-date snapshot is sure to put every credential in its place.
\<close>

lemma rebuild_known:
  fixes env reg now
  assumes "known F M R s a b" and "manager_ok m" and "mget (mg_auths m) (au_ID a) = Some a"
    and "set xs \<subseteq> R" and "distinct (map au_ID xs)" and "\<forall>c \<in> set xs. au_ID c \<noteq> [] \<and> clean_id (au_ID c)"
    and "\<forall>c \<in> R. \<forall>d \<in> R. au_ID c = au_ID d \<longrightarrow> c = d \<or> older c d \<or> older d c"
  defines "F' \<equiv> \<not> snapshotAuths m xs" and "s' \<equiv> rebuild env reg xs now s"
  shows "\<exists>b'. known F' M R s' a b'"
proof -
  let ?s0 = "s\<lparr>as_providers := [], as_authProviders := [], as_mixedCursors := [], as_mixedWeightedStates := []\<rparr>"
  let ?i = "au_ID a"
  have loc: "located ?s0" by (simp add: located_def holds_def mget_def)
  note f = rebuild_fold [OF loc assms(5,6), where env = env and reg = reg and now = now, folded rebuild_def, folded s'_def]
  have empty: "holds ?s0 pk i = None" for pk i by (simp add: holds_def mget_def)
  have fr: "fresh ?s0 c = fresh s c" for c by (simp add: fresh_def)
  note k = assms(1) [unfolded known_def]
  have b: "au_ID b = ?i" "schedView b = schedView a" "b = a \<or> older b a" using k by blast+
  have rec: "\<forall>g. recordedFor s ?i = Some g \<longrightarrow> g \<le> stamp b" using k by (metis option.inject order_refl)
  have ups: "\<forall>c. MsgUpsert c \<in> M \<and> au_ID c = ?i \<longrightarrow> c = b \<or> older c b" and tomb: "\<forall>e. MsgTombstone ?i e \<in> M \<longrightarrow> e < au_RegistrationEpoch b"
    and snap: "\<forall>c \<in> R. au_ID c = ?i \<longrightarrow> snap_of a b c" using k by blast+
  have arrived: "(recordedFor s ?i = Some (stamp b)) \<or> MsgUpsert b \<in> M" using k by blast
  have keep: "known F' M R s' a b"
    if "recordedFor s ?i = Some (stamp b) \<longrightarrow> recordedFor s' ?i = Some (stamp b) \<and> in_place F' s' b"
      and "\<forall>g. recordedFor s' ?i = Some g \<longrightarrow> g \<le> stamp b"
    unfolding known_def using b ups tomb snap arrived that by blast
  show ?thesis
  proof (cases "\<exists>c \<in> set xs. au_ID c = ?i")
    case True
    then obtain c where c: "c \<in> set xs" "au_ID c = ?i" by blast
    have "snap_of a b c" using snap assms(4) c by blast
    then consider "c = b" | "older c b" | "older b c" "schedView c = schedView a" "c = a \<or> older c a" by (auto simp: snap_of_def)
    then show ?thesis
    proof cases
      case 1
      then have "fresh ?s0 c" using rec c(2) by (simp add: fresh_def)
      then have "recordedFor s' ?i = Some (stamp b) \<and> in_place F' s' b" using f(2) [OF c(1), where F = F'] 1 c(2) by simp
      then show ?thesis using keep by auto
    next
      case 2
      have "c \<noteq> a" using 2 b(3) older_trans [OF 2] older_stamp [of c c] older_stamp [of c b] by auto
      then have "c \<notin> set (map snd (mg_auths m))"
      proof (rule contrapos_nn)
        assume "c \<in> set (map snd (mg_auths m))"
        then obtain j where "mget (mg_auths m) j = Some c" using assms(2) by (auto simp: manager_ok_def mget_iff_in)
        moreover from this have "j = ?i" using assms(2) c(2) by (auto simp: manager_ok_def)
        ultimately show "c = a" using assms(3) by simp
      qed
      then have F': "F' = True" using c(1) by (auto simp: F'_def snapshotAuths_def)
      show ?thesis
      proof (cases "fresh s c")
        case True
        then have s': "recordedFor s' ?i = Some (stamp c)" using f(2) [OF c(1)] c(2) by (simp add: fr)
        moreover have "recordedFor s ?i \<noteq> Some (stamp b)" using True older_stamp [OF 2] c(2) by (auto simp: fresh_def)
        moreover have "stamp c \<le> stamp b" using older_stamp [OF 2] by simp
        ultimately show ?thesis using keep by auto
      next
        case False
        then have s': "recordedFor s' ?i = recordedFor s ?i" "\<forall>pk. holds s' pk ?i = None"
          using f(3) [OF c(1)] c(2) empty by (simp_all add: fr)
        have "in_place F' s' b" using in_place_dropped [of s' b] s'(2) b(1) by (simp add: F')
        then show ?thesis using keep s'(1) rec by auto
      qed
    next
      case 3
      have lt: "stamp b < stamp c" using older_stamp [OF 3(1)] .
      have "fresh ?s0 c" using rec c(2) lt by (auto simp: fresh_def)
      then have s': "recordedFor s' ?i = Some (stamp c) \<and> in_place F' s' c" using f(2) [OF c(1), where F = F'] c(2) by simp
      have "d = c \<or> older d c" if "MsgUpsert d \<in> M" "au_ID d = ?i" for d using ups that 3(1) older_trans by blast
      moreover have "e < au_RegistrationEpoch c" if "MsgTombstone ?i e \<in> M" for e
        using tomb that older_epoch [OF 3(1)] by fastforce
      moreover have "snap_of a c d" if "d \<in> R" "au_ID d = ?i" for d
      proof -
        have "c \<in> R" "au_ID c = au_ID d" using assms(4) c that(2) by auto
        then have "c = d \<or> older c d \<or> older d c" using assms(7) that(1) by blast
        moreover have "snap_of a b d" using snap that by blast
        ultimately show ?thesis using 3 older_trans unfolding snap_of_def by blast
      qed
      ultimately have "known F' M R s' a c" using s' 3(2,3) c(2) unfolding known_def by blast
      then show ?thesis by blast
    qed
  next
    case False
    then have "?i \<notin> au_ID ` set xs" by auto
    then have s': "recordedFor s' ?i = recordedFor s ?i" "\<forall>pk. holds s' pk ?i = None" using f(4) empty by simp_all
    have "(?i, a) \<in> set (mg_auths m)" by (rule mget_Some_in [OF assms(3)])
    then have "snd (?i, a) \<in> snd ` set (mg_auths m)" by (rule imageI)
    then have "a \<in> set (map snd (mg_auths m))" by simp
    then have F': "F' = True" using False by (auto simp: F'_def snapshotAuths_def)
    have "in_place F' s' b" using in_place_dropped [of s' b] s'(2) b(1) by (simp add: F')
    then show ?thesis using keep s'(1) rec by auto
  qed
qed

lemma rebuild_gone:
  fixes env reg now
  assumes "gone M R s i E" and "set xs \<subseteq> R" and "distinct (map au_ID xs)" and "\<forall>c \<in> set xs. au_ID c \<noteq> [] \<and> clean_id (au_ID c)"
  defines "s' \<equiv> rebuild env reg xs now s"
  shows "gone M R s' i E"
proof -
  let ?s0 = "s\<lparr>as_providers := [], as_authProviders := [], as_mixedCursors := [], as_mixedWeightedStates := []\<rparr>"
  have loc: "located ?s0" by (simp add: located_def holds_def mget_def)
  note f = rebuild_fold [OF loc assms(3,4), where env = env and reg = reg and now = now, folded rebuild_def, folded s'_def]
  have empty: "holds ?s0 pk j = None" for pk j by (simp add: holds_def mget_def)
  note g = assms(1) [unfolded gone_def]
  have same: "gone M R s' i E" if "recordedFor s' i = recordedFor s i" "\<forall>pk. holds s' pk i = None"
  proof -
    have "unused M R s i \<Longrightarrow> unused M R s' i" "buried s i E \<Longrightarrow> buried s' i E" using that by (simp_all add: unused_def buried_def)
    moreover have "\<forall>x. recordedFor s' i = Some x \<longrightarrow> gm_epoch x \<le> E" unfolding that(1) using g by blast
    ultimately show ?thesis using g unfolding gone_def by blast
  qed
  show ?thesis
  proof (cases "\<exists>c \<in> set xs. au_ID c = i")
    case True
    then obtain c where c: "c \<in> set xs" "au_ID c = i" by blast
    have e: "au_RegistrationEpoch c < E" using g assms(2) c by blast
    show ?thesis
    proof (cases "fresh s c")
      case False
      then show ?thesis using f(3) [OF c(1)] c(2) empty same by (simp add: fresh_def)
    next
      case fr: True
      then have s': "recordedFor s' i = Some (stamp c)" using f(2) [OF c(1)] c(2) by (simp add: fresh_def)
      have "\<not> unused M R s i" using c assms(2) by (auto simp: unused_def)
      moreover have "\<not> buried s i E"
      proof
        assume "buried s i E"
        then obtain x where x: "recordedFor s i = Some x" "gm_epoch x = E" by (auto simp: buried_def)
        then have "gm_epoch x \<le> au_RegistrationEpoch c" using fr c(2) recorded_epoch [of x c] by (simp add: fresh_def)
        then show False using e x(2) by simp
      qed
      ultimately have "MsgTombstone i E \<in> M" using g by blast
      then show ?thesis using g e unfolding gone_def s' by (auto simp: stamp_epoch)
    qed
  next
    case False
    then have "i \<notin> au_ID ` set xs" by auto
    then show ?thesis using f(4) empty same by simp
  qed
qed

lemma rebuild_synced:
  assumes "manager_ok m" and "synced F M R s m i" and "set xs \<subseteq> R" and "distinct (map au_ID xs)"
    and "\<forall>c \<in> set xs. au_ID c \<noteq> [] \<and> clean_id (au_ID c)"
    and "\<forall>c \<in> R. \<forall>d \<in> R. au_ID c = au_ID d \<longrightarrow> c = d \<or> older c d \<or> older d c"
  shows "synced (\<not> snapshotAuths m xs) M R (rebuild env reg xs now s) m i"
proof (cases "mget (mg_auths m) i")
  case None
  then show ?thesis using assms(2) rebuild_gone [OF _ assms(3-5)] by (simp add: synced_def)
next
  case (Some a)
  then have "au_ID a = i" using assms(1) by (simp add: manager_ok_def)
  then show ?thesis using assms(2) Some rebuild_known [OF _ assms(1) _ assms(3-6), of F M s a] by (auto simp: synced_def)
qed

lemma rebuild_located:
  assumes "distinct (map au_ID xs)" and "\<forall>c \<in> set xs. au_ID c \<noteq> [] \<and> clean_id (au_ID c)"
  shows "located (rebuild env reg xs now s)"
proof -
  let ?s0 = "s\<lparr>as_providers := [], as_authProviders := [], as_mixedCursors := [], as_mixedWeightedStates := []\<rparr>"
  have "located ?s0" by (simp add: located_def holds_def mget_def)
  then show ?thesis using rebuild_fold(1) [OF _ assms] by (simp add: rebuild_def)
qed

text \<open>Fewer snapshots to rebuild from, and one more.\<close>

lemma synced_fewer: "synced F M R s m i \<Longrightarrow> R' \<subseteq> R \<Longrightarrow> synced F M R' s m i"
proof -
  assume s: "synced F M R s m i" and sub: "R' \<subseteq> R"
  have "known F M R s a b \<Longrightarrow> known F M R' s a b" for a b using sub unfolding known_def by blast
  moreover have "unused M R s i \<Longrightarrow> unused M R' s i" using sub unfolding unused_def by blast
  then have "gone M R s i E \<Longrightarrow> gone M R' s i E" for E using sub unfolding gone_def by blast
  ultimately show ?thesis using s by (auto simp: synced_def split: option.splits)
qed

lemma snapshot_members:
  assumes "manager_ok m" and "snapshotAuths m xs"
  shows "a \<in> set xs \<longleftrightarrow> mget (mg_auths m) (au_ID a) = Some a" and "distinct (map au_ID xs)"
proof -
  have mem: "x \<in> set xs \<longleftrightarrow> mget (mg_auths m) (au_ID x) = Some x" for x
  proof
    assume "x \<in> set xs"
    then obtain k where "(k, x) \<in> set (mg_auths m)" using assms(2) by (auto simp: snapshotAuths_def)
    then have "mget (mg_auths m) k = Some x" using assms(1) by (simp add: manager_ok_def mget_iff_in)
    then show "mget (mg_auths m) (au_ID x) = Some x" using assms(1) by (auto simp: manager_ok_def)
  next
    assume "mget (mg_auths m) (au_ID x) = Some x"
    then have "(au_ID x, x) \<in> set (mg_auths m)" by (rule mget_Some_in)
    then have "snd (au_ID x, x) \<in> snd ` set (mg_auths m)" by (rule imageI)
    then show "x \<in> set xs" using assms(2) by (simp add: snapshotAuths_def)
  qed
  then show "a \<in> set xs \<longleftrightarrow> mget (mg_auths m) (au_ID a) = Some a" .
  have "inj_on au_ID (set xs)" by (rule inj_onI) (metis mem option.inject)
  then show "distinct (map au_ID xs)" using assms(2) by (simp add: distinct_map snapshotAuths_def)
qed

lemma synced_snapshot:
  assumes "manager_ok m" and "snapshotAuths m xs" and "synced F M R s m i"
  shows "synced F M (R \<union> set xs) s m i"
    and "c \<in> R \<Longrightarrow> a \<in> set xs \<Longrightarrow> au_ID c = au_ID a \<Longrightarrow> i = au_ID a \<Longrightarrow> c = a \<or> older c a"
proof -
  note mem = snapshot_members(1) [OF assms(1,2)]
  show "synced F M (R \<union> set xs) s m i"
  proof (cases "mget (mg_auths m) i")
    case None
    then have "au_ID c \<noteq> i" if "c \<in> set xs" for c using that mem by auto
    then have "unused M R s i \<Longrightarrow> unused M (R \<union> set xs) s i" "gone M R s i E \<Longrightarrow> \<forall>c \<in> R \<union> set xs. au_ID c = i \<longrightarrow> au_RegistrationEpoch c < E" for E
      by (auto simp: unused_def gone_def)
    moreover have "gone M R s i (epochOf m i)" using assms(3) None by (simp add: synced_def)
    ultimately have "gone M (R \<union> set xs) s i (epochOf m i)" unfolding gone_def by blast
    then show ?thesis using None by (simp add: synced_def)
  next
    case (Some a)
    then obtain b where b: "known F M R s a b" using assms(3) by (auto simp: synced_def)
    have id: "au_ID a = i" using assms(1) Some by (simp add: manager_ok_def)
    have "snap_of a b c" if "c \<in> set xs" "au_ID c = au_ID a" for c
    proof -
      have "c = a" using that mem [of c] Some id by simp
      then show ?thesis using b by (auto simp: known_def snap_of_def)
    qed
    then have "known F M (R \<union> set xs) s a b" using b unfolding known_def by blast
    then show ?thesis using Some by (auto simp: synced_def)
  qed
  assume c: "c \<in> R" "a \<in> set xs" "au_ID c = au_ID a" "i = au_ID a"
  then have "mget (mg_auths m) i = Some a" using mem by simp
  then obtain b where "known F M R s a b" using assms(3) by (auto simp: synced_def)
  then have "snap_of a b c" "b = a \<or> older b a" using c by (auto simp: known_def)
  then show "c = a \<or> older c a" by (rule snap_newest)
qed

section \<open>Every step keeps the invariant\<close>

lemma synced_same:
  assumes "same_auths s s'" and "synced F M R s m i"
  shows "synced F M R s' m i"
proof -
  have r: "as_authGenerations s' = as_authGenerations s" "holds s' pk j = holds s pk j" for pk j
    using assms(1) by (simp_all add: same_auths_def)
  have same: "known F M R s' = known F M R s" "gone M R s' = gone M R s"
    by (simp_all add: fun_eq_iff known_def gone_def unused_def buried_def in_place_def r)
  show ?thesis using assms(2) unfolding synced_def same .
qed

lemma pick_same_auths:
  assumes "sched_inv env t s" and "0 \<le> t" and "t \<le> now" and "is_pick c" and "exec_call env now c s = (t', s')"
  shows "same_auths s s'" and "t \<le> t'"
proof -
  have "same_auths s s' \<and> t \<le> t'"
  proof (cases c)
    case (PickSingle provider req strategy d1 d2)
    then show ?thesis
      using assms(3,5) pickSingle_safe [OF assms(1-3), of "now + int d1" "now + int d1 + int d2" provider req strategy]
      by (auto simp: exec_call_def pick_safe_def)
  next
    case (PickMixed providers req strategy d1 d2)
    then show ?thesis
      using assms(3,5) pickMixed_safe [OF assms(1-3), of "now + int d1" "now + int d1 + int d2" providers req strategy]
      by (auto simp: exec_call_def pick_safe_def)
  qed (use assms(3-5) in \<open>auto simp: is_pick_def exec_call_def setSelector_def same_auths_def\<close>)
  then show "same_auths s s'" "t \<le> t'" by simp_all
qed

lemma step_inv:
  assumes "system_step env me ie t sy t' sy'" and "sys_inv env t sy"
  shows "sys_inv env t' sy'"
proof -
  have inv: "0 \<le> t" "sched_inv env t (sy_scheduler sy)" "located (sy_scheduler sy)" "manager_ok (sy_manager sy)"
    "\<forall>i a. mget (mg_auths (sy_manager sy)) i = Some a \<longrightarrow> i \<noteq> [] \<and> clean_id i" "\<forall>msg \<in> set (sy_pending sy). clean_message msg"
    "\<forall>i. synced (sy_outdated sy) (set (sy_pending sy)) (snapped sy) (sy_scheduler sy) (sy_manager sy) i"
    and snaps: "snapshots_ok (sy_rebuilds sy)" using assms(2) by (simp_all add: sys_inv_def)
  show ?thesis
    using assms(1)
  proof cases
    case (sys_op m' msgs)
    obtain x where x: "op_effect x (sy_manager sy) m' msgs" using manager_op_effect [OF sys_op(3) inv(4)] inv(5) by blast
    have "sched_inv env t' (sy_scheduler sy)" using sched_inv_mono [OF inv(2)] sys_op by simp
    then show ?thesis
      using op_ok [OF x inv(4,5)] op_synced [OF x _ inv(4)] inv snaps sys_op by (auto simp: sys_inv_def snapped_def)
  next
    case (sys_deliver p msg q reg)
    let ?s' = "deliver env reg t' msg (sy_scheduler sy)"
    have M: "msg \<in> set (sy_pending sy)" "set (p @ q) \<subseteq> set (sy_pending sy)" "set (sy_pending sy) \<subseteq> insert msg (set (p @ q))"
      using sys_deliver by auto
    have clean: "clean_message msg" using inv(6) M(1) by blast
    have "sched_inv env t' ?s' \<and> located ?s'"
    proof (cases msg)
      case (MsgUpsert a)
      then show ?thesis using call_ok [OF inv(2,3,1), of t' "UpsertAuth reg a" t' ?s'] sys_deliver clean
        by (simp add: clean_call_def exec_call_def deliver_def clean_message_def)
    next
      case (MsgTombstone i e)
      then show ?thesis using call_ok [OF inv(2,3,1), of t' "Tombstone i e" t' ?s'] sys_deliver
        by (simp add: clean_call_def exec_call_def deliver_def)
    qed
    moreover have "synced (sy_outdated sy) (set (p @ q)) (snapped sy) ?s' (sy_manager sy) i" for i
      using spec [OF inv(7), of i] deliver_known [OF inv(3) clean _ M] deliver_gone [OF inv(3) clean _ M]
      unfolding synced_def by (cases "mget (mg_auths (sy_manager sy)) i") fastforce+
    ultimately show ?thesis using inv snaps sys_deliver by (auto simp: sys_inv_def snapped_def)
  next
    case (sys_snapshot auths)
    let ?R = "snapped sy" and ?m = "sy_manager sy"
    note snap = synced_snapshot [OF inv(4) sys_snapshot(3)] and mem = snapshot_members [OF inv(4) sys_snapshot(3)]
    have clean: "\<forall>a \<in> set auths. au_ID a \<noteq> [] \<and> clean_id (au_ID a)" using mem(1) inv(5) by blast
    have old: "c = a \<or> older c a" if "c \<in> ?R" "a \<in> set auths" "au_ID c = au_ID a" for a c
      using snap(2) [OF spec [OF inv(7)] that refl] .
    have same: "c = a" if "c \<in> set auths" "a \<in> set auths" "au_ID c = au_ID a" for a c
      using that mem(2) by (auto simp: distinct_map inj_on_def)
    have "snapshots_ok (sy_rebuilds sy @ [auths])"
      unfolding snapshots_ok_def
    proof (intro conjI ballI impI)
      fix xs ys a b
      assume h: "xs \<in> set (sy_rebuilds sy @ [auths])" "ys \<in> set (sy_rebuilds sy @ [auths])" "a \<in> set xs" "b \<in> set ys" "au_ID a = au_ID b"
      have R: "zs \<in> set (sy_rebuilds sy) \<Longrightarrow> x \<in> set zs \<Longrightarrow> x \<in> ?R" for zs x by (auto simp: snapped_def)
      show "a = b \<or> older a b \<or> older b a"
        using h R old [of a b] old [of b a] same [of a b] snaps unfolding snapshots_ok_def by (cases "xs \<in> set (sy_rebuilds sy)"; cases "ys \<in> set (sy_rebuilds sy)") auto
    qed (use snaps clean mem(2) in \<open>auto simp: snapshots_ok_def\<close>)
    moreover have "snapped sy' = ?R \<union> set auths" by (auto simp: snapped_def sys_snapshot)
    moreover have "sched_inv env t' (sy_scheduler sy)" using sched_inv_mono [OF inv(2)] sys_snapshot by simp
    ultimately show ?thesis using inv snap(1) sys_snapshot by (auto simp: sys_inv_def)
  next
    case (sys_rebuild p auths q reg)
    let ?s' = "rebuild env reg auths t' (sy_scheduler sy)" and ?F = "\<not> snapshotAuths (sy_manager sy) auths"
    have in_snaps: "auths \<in> set (sy_rebuilds sy)" "set (p @ q) \<subseteq> set (sy_rebuilds sy)" using sys_rebuild by auto
    have xs: "distinct (map au_ID auths)" "\<forall>c \<in> set auths. au_ID c \<noteq> [] \<and> clean_id (au_ID c)" "set auths \<subseteq> snapped sy"
      using snaps in_snaps(1) by (auto simp: snapshots_ok_def snapped_def)
    have chain: "\<forall>c \<in> snapped sy. \<forall>d \<in> snapped sy. au_ID c = au_ID d \<longrightarrow> c = d \<or> older c d \<or> older d c"
      using snaps unfolding snapshots_ok_def snapped_def by fastforce
    have "sched_inv env t' ?s'" using rebuild_ok(1) [OF sched_inv_mono [OF inv(2)]] inv(1) sys_rebuild xs(2) by simp
    moreover have "synced ?F (set (sy_pending sy)) (snapped sy') ?s' (sy_manager sy) i" for i
    proof (rule synced_fewer)
      show "synced ?F (set (sy_pending sy)) (snapped sy) ?s' (sy_manager sy) i"
        by (rule rebuild_synced [OF inv(4) spec [OF inv(7)] xs(3,1,2) chain])
      show "snapped sy' \<subseteq> snapped sy" using in_snaps(2) by (auto simp: snapped_def sys_rebuild)
    qed
    moreover have "snapshots_ok (p @ q)" using snaps in_snaps(2) unfolding snapshots_ok_def by (meson subset_iff)
    ultimately show ?thesis using inv rebuild_located [OF xs(1,2)] sys_rebuild by (auto simp: sys_inv_def)
  next
    case (sys_pick now c s')
    note p = pick_same_auths [OF inv(2,1) sys_pick(2,3,4)]
    have "clean_call c" using sys_pick(3) by (auto simp: is_pick_def clean_call_def split: schedulerCall.splits)
    from call_ok [OF inv(2,3,1) sys_pick(2) this sys_pick(4)] show ?thesis
      using p synced_same [OF p(1)] inv snaps sys_pick by (auto simp: sys_inv_def snapped_def)
  qed
qed

lemma reaches_inv:
  assumes "system_reaches env me ie t sy"
  shows "sys_inv env t sy"
  using assms
proof (induction rule: system_reaches.induct)
  case (sys_start t selector)
  have "located (newAuthScheduler selector)" "sched_inv env t (newAuthScheduler selector)"
    by (simp_all add: newAuthScheduler_def sched_inv_def located_def holds_def mget_def mwf_def)
  then show ?case using sys_start
    by (simp add: sys_inv_def manager_ok_def mget_def mwf_def synced_def gone_def unused_def newAuthScheduler_def holds_def
        snapped_def snapshots_ok_def)
next
  case (sys_next t sy t' sy')
  then show ?case using step_inv by blast
qed

section \<open>Properties\<close>

lemma schedView_schedulable:
  assumes "schedView b = schedView a"
  shows "schedulable b = schedulable a" and "executorKeyFromAuth b = executorKeyFromAuth a" and "au_ID b = au_ID a"
proof -
  have "schedulable (schedView x) = schedulable x" "executorKeyFromAuth (schedView x) = executorKeyFromAuth x"
    "au_ID (schedView x) = au_ID x" for x
    by (simp_all add: schedView_def schedulable_def executorKeyFromAuth_def authAttribute_def Let_def)
  then show "schedulable b = schedulable a" "executorKeyFromAuth b = executorKeyFromAuth a" "au_ID b = au_ID a"
    using assms by metis+
qed

text \<open>C4: the scheduler catches up with the manager. Credentials are registered, updated, refreshed, removed and
  marked with results while others pick; the snapshots and tombstones reach the scheduler in any order; and goroutines
  take a snapshot of all credentials and rebuild the scheduler from it later, with any steps in between. Whenever no
  message is under way, the scheduler holds nothing of a removed credential, and of a credential of the manager nothing
  but its latest state (its request counters aside), with its executor and only if it can be scheduled. It holds every
  such credential then, unless the last rebuild was made from a snapshot that the manager had left behind by that time:
  such a rebuild may have dropped credentials, and the next rebuild from an up-to-date one brings them back.\<close>

theorem scheduler_converges:
  assumes "system_reaches env me ie t sy" and "sy_pending sy = []"
  shows "case mget (mg_auths (sy_manager sy)) i of
      None \<Rightarrow> (\<forall>pk. holds (sy_scheduler sy) pk i = None)
    | Some a \<Rightarrow> (\<forall>pk. if schedulable a \<and> pk = executorKeyFromAuth a
        then (\<exists>meta. holds (sy_scheduler sy) pk i = Some meta \<and> schedView (sm_auth meta) = schedView a)
          \<or> (sy_outdated sy \<and> holds (sy_scheduler sy) pk i = None)
        else holds (sy_scheduler sy) pk i = None)"
proof -
  let ?F = "sy_outdated sy" and ?R = "snapped sy"
  have inv: "manager_ok (sy_manager sy)" "synced ?F {} ?R (sy_scheduler sy) (sy_manager sy) i"
    using reaches_inv [OF assms(1)] assms(2) by (simp_all add: sys_inv_def)
  show ?thesis
  proof (cases "mget (mg_auths (sy_manager sy)) i")
    case None
    then show ?thesis using inv(2) by (auto simp: synced_def gone_def unused_def buried_def)
  next
    case (Some a)
    then have id: "au_ID a = i" using inv(1) by (simp add: manager_ok_def)
    obtain b where "known ?F {} ?R (sy_scheduler sy) a b" using inv(2) Some by (auto simp: synced_def)
    then have b: "schedView b = schedView a" "in_place ?F (sy_scheduler sy) b" by (simp_all add: known_def)
    have "if schedulable a \<and> pk = executorKeyFromAuth a
        then (?F \<and> holds (sy_scheduler sy) pk i = None) \<or> (\<exists>meta. holds (sy_scheduler sy) pk i = Some meta \<and> sm_auth meta = b)
        else holds (sy_scheduler sy) pk i = None" for pk
      using b(2) unfolding in_place_def schedView_schedulable [OF b(1)] id by blast
    then have "if schedulable a \<and> pk = executorKeyFromAuth a
        then (\<exists>meta. holds (sy_scheduler sy) pk i = Some meta \<and> schedView (sm_auth meta) = schedView a)
          \<or> (?F \<and> holds (sy_scheduler sy) pk i = None)
        else holds (sy_scheduler sy) pk i = None" for pk
      using b(1) by (metis (no_types))
    then show ?thesis by (simp only: Some option.case) blast
  qed
qed

text \<open>
  A rebuild from an old snapshot does lose credentials: it drops what the scheduler held, and an update that got in
  between the snapshot and the rebuild makes the old snapshot stale by then. No message is under way any more, and the
  credential serves nothing until its next change or the next rebuild.
\<close>

lemma stale_rebuild_drops:
  "let old = sample_cred ''a'' ''codex''; new = old\<lparr>au_Generation := au_Generation old + 1\<rparr>;
       s = upsertAuth sample_env NewModelRegistry new 2 (upsertAuth sample_env NewModelRegistry old 1 (newAuthScheduler RoundRobinKind))
   in mget (as_authGenerations s) ''a'' = Some (stamp new) \<and> map_option sm_auth (holds s ''codex'' ''a'') = Some new
    \<and> holds (rebuild sample_env NewModelRegistry [old] 3 s) ''codex'' ''a'' = None"
  by code_simp

definition sample_index :: IndexEnv where
  "sample_index = \<lparr>ie_Abs = \<lambda>_. None, ie_Clean = \<lambda>p. p, ie_Hash8 = \<lambda>s. s\<rparr>"

theorem scheduler_converges_witness:
  \<comment> \<open>a credential is registered and then removed; the tombstone arrives first\<close>
  "\<exists>sy. system_reaches sample_env sample_me sample_index 2 sy \<and> sy_pending sy = [] \<and> holds (sy_scheduler sy) ''codex'' ''a'' = None"
proof -
  define a where "a = sample_cred ''a'' ''codex''"
  define s0 where "s0 = newAuthScheduler RoundRobinKind"
  define r where "r = Register sample_me sample_index ''n'' 1 (Some a) \<lparr>mg_auths = [], mg_authEpochs = []\<rparr>"
  define m where "m = lc_manager r"
  define b where "b = (case mget (mg_auths m) ''a'' of Some x \<Rightarrow> x | None \<Rightarrow> a)"
  define m' where "m' = fst (Remove ''a'' m)"
  have c: "lc_messages r = [MsgUpsert b]" "Remove ''a'' m = (m', [MsgTombstone ''a'' 3])" "mget (mg_auths m') ''a'' = None"
    unfolding b_def m'_def m_def r_def a_def by code_simp+
  have "clean_id ''n''" "clean_id (au_ID a)" unfolding a_def by code_simp+
  then have clean: "clean_id ''n''" "\<And>x. Some a = Some x \<Longrightarrow> clean_id (au_ID x)" by simp_all
  let ?sys = "\<lambda>m p s. \<lparr>sy_manager = m, sy_pending = p, sy_scheduler = s, sy_rebuilds = [], sy_outdated = False\<rparr>"
  note reach = system_reaches.sys_next [where env = sample_env and me = sample_me and ie = sample_index]
  have 0: "system_reaches sample_env sample_me sample_index 1 (?sys \<lparr>mg_auths = [], mg_authEpochs = []\<rparr> [] s0)"
    unfolding s0_def by (rule sys_start) simp
  have "manager_op sample_me sample_index \<lparr>mg_auths = [], mg_authEpochs = []\<rparr> m [MsgUpsert b]"
    using op_register [OF _ clean r_def [symmetric]] c(1) by (simp add: m_def)
  from reach [OF 0 sys_op [where now = 1, OF order_refl, where m' = m and msgs = "[MsgUpsert b]"]] this
  have 1: "system_reaches sample_env sample_me sample_index 1 (?sys m [MsgUpsert b] s0)" by simp
  from reach [OF 1 sys_op [where now = 1, OF order_refl, where m' = m' and msgs = "[MsgTombstone ''a'' 3]"]] op_remove [OF c(2)]
  have 2: "system_reaches sample_env sample_me sample_index 1 (?sys m' [MsgUpsert b, MsgTombstone ''a'' 3] s0)" by simp
  define s1 where "s1 = deliver sample_env NewModelRegistry 2 (MsgTombstone ''a'' 3) s0"
  define s2 where "s2 = deliver sample_env NewModelRegistry 2 (MsgUpsert b) s1"
  from reach [OF 2 sys_deliver [where now = 2 and p = "[MsgUpsert b]" and q = "[]" and msg = "MsgTombstone ''a'' 3" and reg = NewModelRegistry]]
  have 3: "system_reaches sample_env sample_me sample_index 2 (?sys m' [MsgUpsert b] s1)" by (simp add: s1_def)
  from reach [OF 3 sys_deliver [where now = 2 and p = "[]" and q = "[]" and msg = "MsgUpsert b" and reg = NewModelRegistry]]
  have 4: "system_reaches sample_env sample_me sample_index 2 (?sys m' [] s2)" by (simp add: s2_def)
  from scheduler_converges [OF 4, of "''a''"] have "holds s2 ''codex'' ''a'' = None" by (simp add: c(3))
  with 4 show ?thesis by (intro exI [of _ "?sys m' [] s2"]) simp
qed

end
