(* ===== verification/SessionCache.thy ===== *)
theory SessionCache
  imports GoString
begin

text \<open>
  \<open>sdk/cliproxy/auth/session_cache.go\<close>: the bindings of sessions to credentials. Several identifiers may name the
  same session; they form a group, with one binding and one deadline, that lives and dies as a whole. The groups
  are queued by age, and the oldest are evicted when there are too many identifiers. Every method but \<open>Get\<close> holds
  the lock throughout; \<open>Get\<close> releases it between the look at the binding and the removal of an expired one.
\<close>

section \<open>Aliases\<close>

definition maxStableSessionAliases :: nat where "maxStableSessionAliases = 64"
definition defaultMaxSessionEntries :: int where "defaultMaxSessionEntries = 65536"

record sessionEntry =
  sn_authID :: string
  sn_expiresAt :: time
  sn_aliases :: "string list"

definition isLocalPromptCacheSessionAlias :: "string \<Rightarrow> bool" where
  "isLocalPromptCacheSessionAlias alias \<longleftrightarrow>
     HasPrefix alias ''pck:'' \<or>
     (case Index alias ''::'' of None \<Rightarrow> False | Some i \<Rightarrow> HasPrefix (drop (i + 2) alias) ''pck:'')"

fun compact_loop :: "(string \<Rightarrow> bool) \<Rightarrow> bool \<Rightarrow> nat \<Rightarrow> string list \<Rightarrow> string list" where
  \<comment> \<open>the loop of \<open>compactSessionAliasesWith\<close>, with \<open>hasPromptCacheKey\<close> and \<open>stableAliases\<close>\<close>
  "compact_loop isPromptCacheAlias hasKey stableAliases [] = []"
| "compact_loop isPromptCacheAlias hasKey stableAliases (alias # aliases) =
     (if isPromptCacheAlias alias then
        (if hasKey then compact_loop isPromptCacheAlias hasKey stableAliases aliases
         else alias # compact_loop isPromptCacheAlias True stableAliases aliases)
      else if stableAliases \<ge> maxStableSessionAliases then compact_loop isPromptCacheAlias hasKey stableAliases aliases
      else alias # compact_loop isPromptCacheAlias hasKey (stableAliases + 1) aliases)"

definition compactSessionAliasesWith :: "(string \<Rightarrow> bool) \<Rightarrow> string list \<Rightarrow> string list" where
  "compactSessionAliasesWith isPromptCacheAlias aliases = compact_loop isPromptCacheAlias False 0 aliases"

definition compactSessionAliases :: "string list \<Rightarrow> string list" where
  "compactSessionAliases aliases = compactSessionAliasesWith isLocalPromptCacheSessionAlias aliases"

definition compactHomeSessionAliases :: "string list \<Rightarrow> string list" where
  "compactHomeSessionAliases aliases = compactSessionAliasesWith (\<lambda>alias. HasPrefix alias ''pck:'') aliases"

definition addAlias :: "string \<Rightarrow> string list \<Rightarrow> string list" where
  "addAlias alias aliases = (if alias = [] \<or> alias \<in> set aliases then aliases else aliases @ [alias])"

definition mergeSessionAliases :: "string list \<Rightarrow> string list \<Rightarrow> string list" where
  "mergeSessionAliases existing candidates = fold addAlias candidates (fold addAlias existing [])"

definition sameSessionEntryGroup :: "sessionEntry \<Rightarrow> sessionEntry \<Rightarrow> bool" where
  "sameSessionEntryGroup left right \<longleftrightarrow> sn_authID left = sn_authID right \<and> sn_expiresAt left = sn_expiresAt right
     \<and> sn_aliases left = sn_aliases right"

section \<open>The cache\<close>

text \<open>
  An element of the eviction list is a number and its value; \<open>sx_elements\<close> maps a primary key to its element.
\<close>

record SessionCache =
  sx_entries :: "(string, sessionEntry) gomap"
  sx_groups :: "(string, sessionEntry) gomap"
  sx_order :: "(nat \<times> string) list"
  sx_elements :: "(string, nat) gomap"
  sx_fresh :: nat
  sx_maxEntries :: int
  sx_ttl :: duration

definition NewSessionCacheWithCapacity :: "duration \<Rightarrow> int \<Rightarrow> SessionCache" where
  "NewSessionCacheWithCapacity ttl maxEntries =
     \<lparr>sx_entries = [], sx_groups = [], sx_order = [], sx_elements = [], sx_fresh = 0,
      sx_maxEntries = (if maxEntries \<le> 0 then defaultMaxSessionEntries else maxEntries),
      sx_ttl = (if ttl \<le> 0 then 30 * minute else ttl)\<rparr>"

definition NewSessionCache :: "duration \<Rightarrow> SessionCache" where
  "NewSessionCache ttl = NewSessionCacheWithCapacity ttl defaultMaxSessionEntries"

definition unqueue :: "string \<Rightarrow> SessionCache \<Rightarrow> SessionCache" where
  "unqueue primaryKey c =
     (case mget (sx_elements c) primaryKey of
        None \<Rightarrow> c
      | Some elem \<Rightarrow> c\<lparr>sx_order := filter (\<lambda>(n, _). n \<noteq> elem) (sx_order c), sx_elements := mdel primaryKey (sx_elements c)\<rparr>)"

definition forgetAlias :: "sessionEntry \<Rightarrow> string \<Rightarrow> (string, sessionEntry) gomap \<Rightarrow> (string, sessionEntry) gomap" where
  "forgetAlias entry alias entries =
     (case mget entries alias of
        None \<Rightarrow> entries
      | Some current \<Rightarrow> if sameSessionEntryGroup current entry then mdel alias entries else entries)"

definition removeAliasGroupLocked :: "sessionEntry \<Rightarrow> SessionCache \<Rightarrow> SessionCache" where
  "removeAliasGroupLocked entry c =
     (if sn_aliases entry = [] then c
      else (let primaryKey = hd (sn_aliases entry);
                c1 = (case mget (sx_groups c) primaryKey of
                        None \<Rightarrow> c
                      | Some currentGroup \<Rightarrow>
                          if sameSessionEntryGroup currentGroup entry
                          then unqueue primaryKey (c\<lparr>sx_groups := mdel primaryKey (sx_groups c)\<rparr>) else c)
            in c1\<lparr>sx_entries := fold (forgetAlias entry) (sn_aliases entry) (sx_entries c1)\<rparr>))"

partial_function (option) evictExcessLocked :: "SessionCache \<Rightarrow> SessionCache option" where
  "evictExcessLocked c =
     (if int (length (sx_entries c)) \<le> sx_maxEntries c then Some c
      else (case sx_order c of
              [] \<Rightarrow> Some c
            | (_, primaryKey) # rest \<Rightarrow>
                (case mget (sx_groups c) primaryKey of
                   None \<Rightarrow> evictExcessLocked (c\<lparr>sx_order := rest, sx_elements := mdel primaryKey (sx_elements c)\<rparr>)
                 | Some oldGroup \<Rightarrow> evictExcessLocked (removeAliasGroupLocked oldGroup c))))"

declare evictExcessLocked.simps [code]

definition enqueueGroup :: "string \<Rightarrow> time \<Rightarrow> string list \<Rightarrow> SessionCache \<Rightarrow> SessionCache" where
  \<comment> \<open>the new group with its entries and its place in the queue\<close>
  "enqueueGroup authID expiresAt aliases c =
     (let primaryKey = hd aliases;
          entry = \<lparr>sn_authID = authID, sn_expiresAt = expiresAt, sn_aliases = aliases\<rparr>
      in c\<lparr>sx_groups := mput primaryKey entry (sx_groups c),
           sx_entries := fold (\<lambda>alias. mput alias entry) aliases (sx_entries c),
           sx_order := sx_order c @ [(sx_fresh c, primaryKey)],
           sx_elements := mput primaryKey (sx_fresh c) (sx_elements c),
           sx_fresh := sx_fresh c + 1\<rparr>)"

definition replaceAliasGroupsLocked :: "string \<Rightarrow> time \<Rightarrow> string list \<Rightarrow> sessionEntry list \<Rightarrow> SessionCache \<Rightarrow> SessionCache option" where
  "replaceAliasGroupsLocked authID expiresAt aliases previousGroups c =
     (let c1 = fold removeAliasGroupLocked previousGroups c in
      if aliases = [] then Some c1
      else (let c2 = (case mget (sx_groups c1) (hd aliases) of None \<Rightarrow> c1 | Some existing \<Rightarrow> removeAliasGroupLocked existing c1);
                c3 = enqueueGroup authID expiresAt aliases c2
            in if sx_maxEntries c3 > 0 \<and> int (length (sx_entries c3)) > sx_maxEntries c3 then evictExcessLocked c3 else Some c3))"

section \<open>The methods\<close>

definition Get_lookup :: "time \<Rightarrow> string \<Rightarrow> SessionCache \<Rightarrow> string option option" where
  \<comment> \<open>the first critical section of \<open>Get\<close>; \<open>None\<close> when an expired binding calls for the second\<close>
  "Get_lookup now sessionID c =
     (if sessionID = [] then Some None
      else (case mget (sx_entries c) sessionID of
              None \<Rightarrow> Some None
            | Some entry \<Rightarrow> if Before now (sn_expiresAt entry) then Some (Some (sn_authID entry)) else None))"

definition Get_expire :: "time \<Rightarrow> string \<Rightarrow> SessionCache \<Rightarrow> string option \<times> SessionCache" where
  \<comment> \<open>the second critical section of \<open>Get\<close>\<close>
  "Get_expire now sessionID c =
     (case mget (sx_entries c) sessionID of
        None \<Rightarrow> (None, c)
      | Some entry \<Rightarrow>
          if Before now (sn_expiresAt entry) then (Some (sn_authID entry), c) else (None, removeAliasGroupLocked entry c))"

definition cache_Get :: "time \<times> time \<Rightarrow> string \<Rightarrow> SessionCache \<Rightarrow> string option \<times> SessionCache" where
  \<comment> \<open>\<open>Get\<close> when no other goroutine comes between\<close>
  "cache_Get clock sessionID c =
     (case Get_lookup (fst clock) sessionID c of Some r \<Rightarrow> (r, c) | None \<Rightarrow> Get_expire (snd clock) sessionID c)"

definition GetAndRefresh :: "time \<Rightarrow> string \<Rightarrow> SessionCache \<Rightarrow> (string option \<times> SessionCache) option" where
  "GetAndRefresh now sessionID c =
     (if sessionID = [] then Some (None, c)
      else (case mget (sx_entries c) sessionID of
              None \<Rightarrow> Some (None, c)
            | Some entry \<Rightarrow>
                if \<not> Before now (sn_expiresAt entry) then Some (None, removeAliasGroupLocked entry c)
                else (let aliases = compactSessionAliases (mergeSessionAliases [sessionID] (sn_aliases entry))
                      in map_option (Pair (Some (sn_authID entry)))
                           (replaceAliasGroupsLocked (sn_authID entry) (now + sx_ttl c) aliases [entry] c))))"

definition collectGroup :: "time \<Rightarrow> string \<Rightarrow> string list \<times> sessionEntry list \<times> SessionCache \<Rightarrow> string list \<times> sessionEntry list \<times> SessionCache" where
  \<comment> \<open>one pass of the loop of \<open>SetAliases\<close>: \<open>aliases\<close>, \<open>previousGroups\<close> and the cache\<close>
  "collectGroup now sessionID acc =
     (case acc of (aliases, previousGroups, c) \<Rightarrow>
      case mget (sx_entries c) sessionID of
        None \<Rightarrow> acc
      | Some entry \<Rightarrow>
          if \<not> Before now (sn_expiresAt entry) then (aliases, previousGroups, removeAliasGroupLocked entry c)
          else (mergeSessionAliases aliases (sn_aliases entry), previousGroups @ [entry], c))"

definition SetAliases :: "time \<Rightarrow> string \<Rightarrow> string list \<Rightarrow> SessionCache \<Rightarrow> SessionCache option" where
  "SetAliases now authID sessionIDs c =
     (if authID = [] then Some c
      else (case fold (collectGroup now) sessionIDs (mergeSessionAliases [] sessionIDs, [], c) of
              (aliases0, previousGroups, c1) \<Rightarrow>
                let aliases = compactSessionAliases aliases0 in
                if aliases = [] then Some c1
                else replaceAliasGroupsLocked authID (now + sx_ttl c1) aliases previousGroups c1))"

definition cache_Set :: "time \<Rightarrow> string \<Rightarrow> string \<Rightarrow> SessionCache \<Rightarrow> SessionCache option" where
  "cache_Set now sessionID authID c = SetAliases now authID [sessionID] c"

definition cache_Touch :: "time \<Rightarrow> string \<Rightarrow> string \<Rightarrow> SessionCache \<Rightarrow> (bool \<times> SessionCache) option" where
  "cache_Touch now sessionID expectedAuthID c =
     (if sessionID = [] \<or> expectedAuthID = [] then Some (False, c)
      else (case mget (sx_entries c) sessionID of
              None \<Rightarrow> Some (False, c)
            | Some entry \<Rightarrow>
                if sn_authID entry \<noteq> expectedAuthID \<or> \<not> Before now (sn_expiresAt entry) then Some (False, c)
                else (let aliases = compactSessionAliases (mergeSessionAliases [sessionID] (sn_aliases entry))
                      in map_option (Pair True) (replaceAliasGroupsLocked expectedAuthID (now + sx_ttl c) aliases [entry] c))))"

definition leaveGroup :: "string \<Rightarrow> sessionEntry \<Rightarrow> SessionCache \<Rightarrow> SessionCache option" where
  \<comment> \<open>the end of \<open>CompareAndDelete\<close> and \<open>Invalidate\<close>: the other identifiers stay bound\<close>
  "leaveGroup sessionID entry c =
     (let c1 = removeAliasGroupLocked entry c;
          surviving = filter (\<lambda>alias. alias \<noteq> sessionID) (sn_aliases entry)
      in if surviving = [] then Some c1
         else replaceAliasGroupsLocked (sn_authID entry) (sn_expiresAt entry) surviving [] c1)"

definition CompareAndDelete :: "string \<Rightarrow> string \<Rightarrow> SessionCache \<Rightarrow> (bool \<times> SessionCache) option" where
  "CompareAndDelete sessionID expectedAuthID c =
     (if sessionID = [] \<or> expectedAuthID = [] then Some (False, c)
      else (case mget (sx_entries c) sessionID of
              None \<Rightarrow> Some (False, c)
            | Some entry \<Rightarrow>
                if sn_authID entry \<noteq> expectedAuthID then Some (False, c)
                else map_option (Pair True) (leaveGroup sessionID entry c)))"

definition cache_Invalidate :: "string \<Rightarrow> SessionCache \<Rightarrow> SessionCache option" where
  "cache_Invalidate sessionID c =
     (if sessionID = [] then Some c
      else (case mget (sx_entries c) sessionID of None \<Rightarrow> Some c | Some entry \<Rightarrow> leaveGroup sessionID entry c))"

definition removeGroupsIf :: "(sessionEntry \<Rightarrow> bool) \<Rightarrow> SessionCache \<Rightarrow> SessionCache" where
  \<comment> \<open>the loop over the groups that \<open>InvalidateAuth\<close> and \<open>cleanup\<close> have\<close>
  "removeGroupsIf P c = fold (\<lambda>(_, g) c. if P g then removeAliasGroupLocked g c else c) (sx_groups c) c"

definition cache_InvalidateAuth :: "string \<Rightarrow> SessionCache \<Rightarrow> SessionCache" where
  "cache_InvalidateAuth authID c = (if authID = [] then c else removeGroupsIf (\<lambda>g. sn_authID g = authID) c)"

definition cache_cleanup :: "time \<Rightarrow> SessionCache \<Rightarrow> SessionCache" where
  "cache_cleanup now c = removeGroupsIf (\<lambda>g. \<not> Before now (sn_expiresAt g)) c"

definition cache_Len :: "SessionCache \<Rightarrow> nat" where
  "cache_Len c = length (sx_entries c)"

end
