(* ===== verification/SessionCacheInv.thy ===== *)
theory SessionCacheInv
  imports SessionCache
begin

text \<open>
  The tables of the session cache are kept consistent by every method: a session's identifiers lead to the same
  binding, each group has its place in the eviction queue, and no method exceeds the capacity or loops.
\<close>

section \<open>The invariant\<close>

definition compact :: "string list \<Rightarrow> bool" where
  "compact aliases \<longleftrightarrow> distinct aliases \<and> [] \<notin> set aliases
     \<and> length (filter isLocalPromptCacheSessionAlias aliases) \<le> 1
     \<and> length (filter (\<lambda>a. \<not> isLocalPromptCacheSessionAlias a) aliases) \<le> maxStableSessionAliases"

definition group_ok :: "sessionEntry \<Rightarrow> bool" where
  "group_ok g \<longleftrightarrow> sn_authID g \<noteq> [] \<and> sn_aliases g \<noteq> [] \<and> compact (sn_aliases g)"

definition queue_ok :: "SessionCache \<Rightarrow> bool" where
  "queue_ok c \<longleftrightarrow> distinct (map fst (sx_order c)) \<and> distinct (map snd (sx_order c))
     \<and> (\<forall>n k. (n, k) \<in> set (sx_order c) \<longleftrightarrow> mget (sx_elements c) k = Some n)
     \<and> (\<forall>k. mget (sx_elements c) k = None \<longleftrightarrow> mget (sx_groups c) k = None)
     \<and> (\<forall>n k. (n, k) \<in> set (sx_order c) \<longrightarrow> n < sx_fresh c)"

definition groups_ok :: "SessionCache \<Rightarrow> bool" where
  "groups_ok c \<longleftrightarrow> mwf (sx_entries c) \<and> mwf (sx_groups c) \<and> mwf (sx_elements c) \<and> queue_ok c
     \<and> 0 < sx_maxEntries c \<and> 0 < sx_ttl c
     \<and> (\<forall>k g. mget (sx_groups c) k = Some g \<longrightarrow> group_ok g \<and> hd (sn_aliases g) = k
          \<and> (\<forall>a \<in> set (sn_aliases g). mget (sx_entries c) a = Some g))
     \<and> (\<forall>a e. mget (sx_entries c) a = Some e \<longrightarrow> a \<in> set (sn_aliases e) \<and> mget (sx_groups c) (hd (sn_aliases e)) = Some e)"

definition cache_ok :: "SessionCache \<Rightarrow> bool" where
  "cache_ok c \<longleftrightarrow> groups_ok c \<and> int (length (sx_entries c)) \<le> sx_maxEntries c"

definition keepOut :: "('v \<Rightarrow> bool) \<Rightarrow> 'v option \<Rightarrow> 'v option" where
  "keepOut P x = (case x of None \<Rightarrow> None | Some e \<Rightarrow> if P e then None else Some e)"

definition without :: "(sessionEntry \<Rightarrow> bool) \<Rightarrow> SessionCache \<Rightarrow> SessionCache \<Rightarrow> bool" where
  \<comment> \<open>\<open>c'\<close> is \<open>c\<close> without the groups in \<open>P\<close>\<close>
  "without P c c' \<longleftrightarrow> groups_ok c' \<and> sx_maxEntries c' = sx_maxEntries c \<and> sx_ttl c' = sx_ttl c
     \<and> (\<forall>a. mget (sx_entries c') a = keepOut P (mget (sx_entries c) a))
     \<and> (\<forall>k. mget (sx_groups c') k = keepOut P (mget (sx_groups c) k))"

lemma keepOut_simps [simp]: "keepOut P None = None" "keepOut P (Some e) = (if P e then None else Some e)"
  by (simp_all add: keepOut_def)

lemma keepOut_keepOut: "keepOut Q (keepOut P x) = keepOut (\<lambda>e. P e \<or> Q e) x"
  by (cases x) simp_all

lemma keepOut_eq_Some: "keepOut P x = Some e \<longleftrightarrow> x = Some e \<and> \<not> P e"
  by (cases x) auto

lemma without_trans: "without P c c' \<Longrightarrow> without Q c' c'' \<Longrightarrow> without (\<lambda>e. P e \<or> Q e) c c''"
  by (simp add: without_def keepOut_keepOut)

lemma groups_okI:
  assumes "mwf (sx_entries c)" "mwf (sx_groups c)" "mwf (sx_elements c)" "queue_ok c" "0 < sx_maxEntries c" "0 < sx_ttl c"
    and "\<And>k g. mget (sx_groups c) k = Some g \<Longrightarrow> group_ok g \<and> hd (sn_aliases g) = k \<and> (\<forall>a \<in> set (sn_aliases g). mget (sx_entries c) a = Some g)"
    and "\<And>a e. mget (sx_entries c) a = Some e \<Longrightarrow> a \<in> set (sn_aliases e) \<and> mget (sx_groups c) (hd (sn_aliases e)) = Some e"
  shows "groups_ok c"
  unfolding groups_ok_def using assms by blast

lemma groups_okD:
  assumes "groups_ok c"
  shows "mget (sx_groups c) k = Some g \<Longrightarrow> group_ok g \<and> hd (sn_aliases g) = k \<and> (\<forall>a \<in> set (sn_aliases g). mget (sx_entries c) a = Some g)"
    and "mget (sx_entries c) a = Some e \<Longrightarrow> a \<in> set (sn_aliases e) \<and> mget (sx_groups c) (hd (sn_aliases e)) = Some e"
  using assms unfolding groups_ok_def by blast+

lemma without_none:
  assumes "groups_ok c" and "\<And>k g. mget (sx_groups c) k = Some g \<Longrightarrow> \<not> P g"
  shows "without P c c"
proof -
  have "mget (sx_entries c) a = keepOut P (mget (sx_entries c) a)" "mget (sx_groups c) a = keepOut P (mget (sx_groups c) a)" for a
    using assms(2) groups_okD(2) [OF assms(1), of a] by (auto simp: keepOut_def split: option.split)
  then show ?thesis using assms(1) by (simp add: without_def)
qed

lemma same_group: "sameSessionEntryGroup x y \<longleftrightarrow> x = y"
  by (auto simp: sameSessionEntryGroup_def)

section \<open>Removing a group\<close>

lemma fold_forget:
  "mget (fold (forgetAlias g) as es) a = (if a \<in> set as \<and> mget es a = Some g then None else mget es a)"
  "mwf es \<Longrightarrow> mwf (fold (forgetAlias g) as es)"
proof -
  show "mget (fold (forgetAlias g) as es) a = (if a \<in> set as \<and> mget es a = Some g then None else mget es a)"
    by (induction as arbitrary: es) (auto simp: forgetAlias_def same_group go_map split: option.splits)
  show "mwf es \<Longrightarrow> mwf (fold (forgetAlias g) as es)"
    by (rule fold_keeps) (auto simp: forgetAlias_def inv_intro split: option.split)
qed

lemma queue_ok_cong:
  "sx_groups c' = sx_groups c \<Longrightarrow> sx_order c' = sx_order c \<Longrightarrow> sx_elements c' = sx_elements c \<Longrightarrow> sx_fresh c' = sx_fresh c \<Longrightarrow>
     queue_ok c' = queue_ok c"
  by (simp add: queue_ok_def)

lemma unqueue_ok:
  assumes "queue_ok c" and "sx_groups c' = mdel k (sx_groups c)" and "sx_order c' = sx_order c" "sx_elements c' = sx_elements c" "sx_fresh c' = sx_fresh c"
  shows "queue_ok (unqueue k c')"
proof (cases "mget (sx_elements c) k")
  case None
  then have "unqueue k c' = c'" by (simp add: unqueue_def assms(4))
  then show ?thesis using assms None by (auto simp: queue_ok_def go_map)
next
  case (Some n)
  then have u: "sx_order (unqueue k c') = filter (\<lambda>(m, _). m \<noteq> n) (sx_order c)" "sx_elements (unqueue k c') = mdel k (sx_elements c)"
    "sx_groups (unqueue k c') = mdel k (sx_groups c)" "sx_fresh (unqueue k c') = sx_fresh c"
    by (simp_all add: unqueue_def assms)
  have a: "(m, l) \<in> set (sx_order c) \<longleftrightarrow> mget (sx_elements c) l = Some m" for m l using assms(1) by (simp add: queue_ok_def)
  have fresh: "(m, l) \<in> set (sx_order c) \<Longrightarrow> m < sx_fresh c" for m l using assms(1) unfolding queue_ok_def by blast
  have mem: "(n, k) \<in> set (sx_order c)" using a Some by blast
  have uniq: "(n, l) \<in> set (sx_order c) \<Longrightarrow> l = k" for l
    using mem assms(1) unfolding queue_ok_def by (metis eq_key_imp_eq_value)
  have "distinct (map fst (filter (\<lambda>(m, _). m \<noteq> n) (sx_order c)))" "distinct (map snd (filter (\<lambda>(m, _). m \<noteq> n) (sx_order c)))"
    using assms(1) unfolding queue_ok_def by (simp_all add: distinct_map_filter)
  moreover have "(m, l) \<in> set (filter (\<lambda>(m, _). m \<noteq> n) (sx_order c)) \<longleftrightarrow> mget (mdel k (sx_elements c)) l = Some m" for m l
  proof (cases "l = k")
    case True
    then show ?thesis using a [of m k] Some by (auto simp: go_map)
  next
    case False
    then show ?thesis using a [of m l] uniq [of l] by (auto simp: go_map)
  qed
  moreover have "mget (mdel k (sx_elements c)) l = None \<longleftrightarrow> mget (mdel k (sx_groups c)) l = None" for l
    using assms(1) unfolding queue_ok_def by (auto simp: go_map)
  moreover have "(m, l) \<in> set (filter (\<lambda>(m, _). m \<noteq> n) (sx_order c)) \<Longrightarrow> m < sx_fresh c" for m l
    using fresh [of m l] by auto
  ultimately show ?thesis unfolding queue_ok_def u by blast
qed

lemma remove_other:
  assumes "groups_ok c" and "mget (sx_groups c) (hd (sn_aliases g)) \<noteq> Some g"
  shows "removeAliasGroupLocked g c = c"
proof -
  have no: "mget (sx_entries c) a \<noteq> Some g" for a using groups_okD(2) [OF assms(1), of a g] assms(2) by blast
  have "fold (forgetAlias g) as (sx_entries c) = sx_entries c" for as
    by (rule fold_keeps [where P = "\<lambda>es. es = sx_entries c"]) (use no in \<open>auto simp: forgetAlias_def same_group split: option.split\<close>)
  then show ?thesis using assms(2) by (auto simp: removeAliasGroupLocked_def Let_def same_group split: option.split)
qed

lemma remove_group:
  assumes ok: "groups_ok c" and g: "mget (sx_groups c) k = Some g"
  shows "without (\<lambda>e. e = g) c (removeAliasGroupLocked g c)"
    and "sx_elements (removeAliasGroupLocked g c) = mdel k (sx_elements c)"
    and "length (sx_order (removeAliasGroupLocked g c)) < length (sx_order c)"
proof -
  let ?c1 = "unqueue k (c\<lparr>sx_groups := mdel k (sx_groups c)\<rparr>)"
  have k: "hd (sn_aliases g) = k" "sn_aliases g \<noteq> []" using groups_okD(1) [OF ok g] by (auto simp: group_ok_def)
  have r: "removeAliasGroupLocked g c = ?c1\<lparr>sx_entries := fold (forgetAlias g) (sn_aliases g) (sx_entries c)\<rparr>"
    using k g by (simp add: removeAliasGroupLocked_def Let_def same_group unqueue_def split: option.split)
  obtain n where n: "mget (sx_elements c) k = Some n" using ok g unfolding groups_ok_def queue_ok_def by (metis not_None_eq)
  have c1: "sx_groups ?c1 = mdel k (sx_groups c)" "sx_elements ?c1 = mdel k (sx_elements c)" "sx_maxEntries ?c1 = sx_maxEntries c"
    "sx_ttl ?c1 = sx_ttl c" "sx_order ?c1 = filter (\<lambda>(m, _). m \<noteq> n) (sx_order c)" "sx_fresh ?c1 = sx_fresh c"
    by (simp_all add: unqueue_def n)
  have q: "queue_ok ?c1" by (rule unqueue_ok [of c]) (use ok in \<open>simp_all add: groups_ok_def\<close>)
  have e: "mget (sx_entries (removeAliasGroupLocked g c)) a = keepOut (\<lambda>e. e = g) (mget (sx_entries c) a)" for a
    using groups_okD(2) [OF ok, of a g] by (cases "mget (sx_entries c) a") (auto simp: r fold_forget)
  have gr: "mget (sx_groups (removeAliasGroupLocked g c)) l = keepOut (\<lambda>e. e = g) (mget (sx_groups c) l)" for l
  proof (cases "mget (sx_groups c) l")
    case (Some h)
    then have "hd (sn_aliases h) = l" using groups_okD(1) [OF ok] by blast
    then have "h = g \<longleftrightarrow> l = k" using Some k(1) g by (metis option.inject)
    then show ?thesis by (simp add: Some r c1 go_map)
  qed (simp add: r c1 go_map)
  have q': "queue_ok (removeAliasGroupLocked g c)" using q by (subst queue_ok_cong [of _ ?c1]) (simp_all add: r)
  have wf: "mwf (sx_entries c)" "mwf (sx_groups c)" "mwf (sx_elements c)" "0 < sx_maxEntries c" "0 < sx_ttl c" using ok by (simp_all add: groups_ok_def)
  have "groups_ok (removeAliasGroupLocked g c)"
  proof (rule groups_okI)
    show "group_ok h \<and> hd (sn_aliases h) = l \<and> (\<forall>a \<in> set (sn_aliases h). mget (sx_entries (removeAliasGroupLocked g c)) a = Some h)"
      if "mget (sx_groups (removeAliasGroupLocked g c)) l = Some h" for l h
      using that groups_okD(1) [OF ok, of l h] unfolding gr e keepOut_eq_Some by blast
    show "a \<in> set (sn_aliases h) \<and> mget (sx_groups (removeAliasGroupLocked g c)) (hd (sn_aliases h)) = Some h"
      if "mget (sx_entries (removeAliasGroupLocked g c)) a = Some h" for a h
      using that groups_okD(2) [OF ok, of a h] unfolding gr e keepOut_eq_Some by blast
    show "queue_ok (removeAliasGroupLocked g c)" by (rule q')
  qed (use wf in \<open>simp_all add: r c1 fold_forget inv_intro\<close>)
  then show "without (\<lambda>e. e = g) c (removeAliasGroupLocked g c)" using e gr by (simp add: without_def r c1)
  show "sx_elements (removeAliasGroupLocked g c) = mdel k (sx_elements c)" by (simp add: r c1)
  have "(n, k) \<in> set (sx_order c)" using ok n by (simp add: groups_ok_def queue_ok_def)
  then show "length (sx_order (removeAliasGroupLocked g c)) < length (sx_order c)"
    by (simp add: r c1) (metis (mono_tags, lifting) case_prod_conv length_filter_less)
qed

lemma remove_without: "groups_ok c \<Longrightarrow> without (\<lambda>e. e = g) c (removeAliasGroupLocked g c)"
proof (cases "mget (sx_groups c) (hd (sn_aliases g)) = Some g")
  case False
  assume ok: "groups_ok c"
  have "mget (sx_groups c) k \<noteq> Some g" for k using False groups_okD(1) [OF ok, of k g] by metis
  then show ?thesis unfolding remove_other [OF ok False] by (intro without_none [OF ok]) blast
qed (rule remove_group(1))

lemma without_ok: "without P c c' \<Longrightarrow> groups_ok c'"
  by (simp add: without_def)

lemma without_cong:
  assumes "without P c c'" and "\<And>e. P e = Q e"
  shows "without Q c c'"
proof -
  have "P = Q" by (rule ext) (rule assms(2))
  then show ?thesis using assms(1) by simp
qed

lemma fold_remove: "groups_ok c \<Longrightarrow> without (\<lambda>e. e \<in> set gs) c (fold removeAliasGroupLocked gs c)"
proof (induction gs arbitrary: c)
  case Nil
  then show ?case by (simp add: without_none)
next
  case (Cons g gs)
  note w = remove_without [OF Cons.prems, of g]
  show ?case using without_trans [OF w Cons.IH [OF without_ok [OF w]]] by (simp add: without_cong)
qed

lemma removeGroupsIf_without:
  assumes "groups_ok c"
  shows "without P c (removeGroupsIf P c)"
proof -
  have "without (\<lambda>e. P e \<and> e \<in> snd ` set gs) c (fold (\<lambda>(_, g) c. if P g then removeAliasGroupLocked g c else c) gs c)"
    if "groups_ok c" for gs c
    using that
  proof (induction gs arbitrary: c)
    case Nil
    then show ?case by (simp add: without_none)
  next
    case (Cons x gs)
    obtain k g where x: "x = (k, g)" by fastforce
    let ?c = "if P g then removeAliasGroupLocked g c else c"
    have w: "without (\<lambda>e. P e \<and> e = g) c ?c"
      using remove_without [OF Cons.prems, of g] without_none [OF Cons.prems, of "\<lambda>e. P e \<and> e = g"]
      by (cases "P g") (auto elim: without_cong)
    show ?case using without_trans [OF w Cons.IH [OF without_ok [OF w]]] by (auto simp: x elim!: without_cong)
  qed
  from this [OF assms, of "sx_groups c"] have w: "without (\<lambda>e. P e \<and> e \<in> snd ` set (sx_groups c)) c (removeGroupsIf P c)"
    by (simp add: removeGroupsIf_def)
  have "mget (sx_entries c) a = Some e \<Longrightarrow> e \<in> snd ` set (sx_groups c)" "mget (sx_groups c) k = Some e \<Longrightarrow> e \<in> snd ` set (sx_groups c)" for a k e
    using groups_okD(2) [OF assms, of a e] mget_Some_in [of "sx_groups c"] by (force simp: image_iff)+
  then have "keepOut (\<lambda>e. P e \<and> e \<in> snd ` set (sx_groups c)) (mget (sx_entries c) a) = keepOut P (mget (sx_entries c) a)"
    "keepOut (\<lambda>e. P e \<and> e \<in> snd ` set (sx_groups c)) (mget (sx_groups c) a) = keepOut P (mget (sx_groups c) a)" for a
    by (simp_all add: keepOut_def split: option.split)
  then show ?thesis using w by (simp add: without_def)
qed

lemma without_weaken:
  assumes "groups_ok c" and "without P c c'" and "\<And>k e. mget (sx_groups c) k = Some e \<Longrightarrow> P e = Q e"
  shows "without Q c c'"
proof -
  have "keepOut P (mget (sx_entries c) a) = keepOut Q (mget (sx_entries c) a)" for a
    using assms(3) groups_okD(2) [OF assms(1), of a] by (cases "mget (sx_entries c) a") auto
  moreover have "keepOut P (mget (sx_groups c) a) = keepOut Q (mget (sx_groups c) a)" for a
    using assms(3) [of a] by (cases "mget (sx_groups c) a") auto
  ultimately show ?thesis using assms(2) by (simp add: without_def)
qed

section \<open>Eviction ends\<close>

lemma evict_ok:
  assumes "groups_ok c"
  shows "\<exists>c' D. evictExcessLocked c = Some c' \<and> without (\<lambda>e. hd (sn_aliases e) \<in> D) c c' \<and> cache_ok c'"
  using assms
proof (induction "length (sx_order c)" arbitrary: c rule: less_induct)
  case less
  note simps = evictExcessLocked.simps [of c]
  consider (fits) "int (length (sx_entries c)) \<le> sx_maxEntries c"
    | (empty) "\<not> int (length (sx_entries c)) \<le> sx_maxEntries c" "sx_order c = []"
    | (oldest) n k rest where "\<not> int (length (sx_entries c)) \<le> sx_maxEntries c" "sx_order c = (n, k) # rest"
    by (metis neq_Nil_conv surj_pair)
  then show ?case
  proof cases
    case fits
    then have "evictExcessLocked c = Some c" "cache_ok c" using less.prems simps by (simp_all add: cache_ok_def)
    moreover have "without (\<lambda>e. hd (sn_aliases e) \<in> {}) c c" by (rule without_none [OF less.prems]) simp
    ultimately show ?thesis by blast
  next
    case empty
    then have "mget (sx_elements c) k = None" for k
      using less.prems unfolding groups_ok_def queue_ok_def by (metis empty_iff empty_set option.exhaust)
    then have "mget (sx_groups c) k = None" for k using less.prems by (simp add: groups_ok_def queue_ok_def)
    then have "mget (sx_entries c) a = None" for a using groups_okD(2) [OF less.prems, of a] by (cases "mget (sx_entries c) a") auto
    then have "sx_entries c = []" using mget_None_iff [of "sx_entries c"] by (cases "sx_entries c") auto
    then show ?thesis using empty(1) less.prems by (simp add: groups_ok_def)
  next
    case oldest
    have "mget (sx_elements c) k = Some n"
      using less.prems oldest(2) unfolding groups_ok_def queue_ok_def by (metis list.set_intros(1))
    then obtain g where g: "mget (sx_groups c) k = Some g"
      using less.prems unfolding groups_ok_def queue_ok_def by (metis option.exhaust option.distinct(1))
    note r = remove_group [OF less.prems g]
    from less.hyps [OF r(3) without_ok [OF r(1)]] obtain c' D where
      c': "evictExcessLocked (removeAliasGroupLocked g c) = Some c'" "cache_ok c'"
      "without (\<lambda>e. hd (sn_aliases e) \<in> D) (removeAliasGroupLocked g c) c'" by blast
    have "(e = g \<or> hd (sn_aliases e) \<in> D) = (hd (sn_aliases e) \<in> insert k D)" if e: "mget (sx_groups c) l = Some e" for e l
    proof -
      have "hd (sn_aliases e) = l" "hd (sn_aliases g) = k" using groups_okD(1) [OF less.prems] e g by blast+
      then have "e = g \<longleftrightarrow> hd (sn_aliases e) = k" using e g by (metis option.inject)
      then show ?thesis by simp
    qed
    from without_weaken [OF less.prems without_trans [OF r(1) c'(3)] this]
    have "without (\<lambda>e. hd (sn_aliases e) \<in> insert k D) c c'" .
    moreover have "evictExcessLocked c = Some c'" using simps oldest g c'(1) by simp
    ultimately show ?thesis using c'(2) by blast
  qed
qed

section \<open>A new group\<close>

lemma fold_put: "mget (fold (\<lambda>a. mput a v) as m) b = (if b \<in> set as then Some v else mget m b)"
  by (induction as arbitrary: m) (auto simp: go_map)

lemma enqueue_ok:
  fixes authID t aliases
  defines "new \<equiv> \<lparr>sn_authID = authID, sn_expiresAt = t, sn_aliases = aliases\<rparr>"
  assumes ok: "groups_ok c" and new: "group_ok new" and free: "\<And>a. a \<in> set aliases \<Longrightarrow> mget (sx_entries c) a = None"
  shows "groups_ok (enqueueGroup authID t aliases c)"
    and "mget (sx_entries (enqueueGroup authID t aliases c)) a = (if a \<in> set aliases then Some new else mget (sx_entries c) a)"
    and "sx_maxEntries (enqueueGroup authID t aliases c) = sx_maxEntries c" "sx_ttl (enqueueGroup authID t aliases c) = sx_ttl c"
    and "mget (sx_groups (enqueueGroup authID t aliases c)) k = (if k = hd aliases then Some new else mget (sx_groups c) k)"
proof -
  let ?c = "enqueueGroup authID t aliases c" and ?k = "hd aliases"
  have f: "sx_entries ?c = fold (\<lambda>alias. mput alias new) aliases (sx_entries c)" "sx_groups ?c = mput ?k new (sx_groups c)"
    "sx_order ?c = sx_order c @ [(sx_fresh c, ?k)]" "sx_elements ?c = mput ?k (sx_fresh c) (sx_elements c)" "sx_fresh ?c = sx_fresh c + 1"
    by (simp_all add: enqueueGroup_def Let_def new_def)
  show max: "sx_maxEntries ?c = sx_maxEntries c" "sx_ttl ?c = sx_ttl c" by (simp_all add: enqueueGroup_def Let_def)
  show e: "mget (sx_entries ?c) a = (if a \<in> set aliases then Some new else mget (sx_entries c) a)" for a by (simp add: f fold_put)
  show g: "mget (sx_groups ?c) k = (if k = ?k then Some new else mget (sx_groups c) k)" for k by (simp add: f go_map)
  have k: "?k \<in> set aliases" "sn_aliases new = aliases" using new by (simp_all add: group_ok_def new_def)
  have noG: "mget (sx_groups c) ?k = None"
  proof (rule ccontr)
    assume "mget (sx_groups c) ?k \<noteq> None"
    then obtain h where h: "mget (sx_groups c) ?k = Some h" by blast
    then have "?k \<in> set (sn_aliases h)" using groups_okD(1) [OF ok h] by (metis group_ok_def hd_in_set)
    then show False using groups_okD(1) [OF ok h] free [OF k(1)] by simp
  qed
  have q: "queue_ok c" and wf: "mwf (sx_entries c)" "mwf (sx_groups c)" "mwf (sx_elements c)" "0 < sx_maxEntries c" "0 < sx_ttl c"
    using ok by (simp_all add: groups_ok_def)
  have qd: "\<And>n l. (n, l) \<in> set (sx_order c) \<longleftrightarrow> mget (sx_elements c) l = Some n" "\<And>l. mget (sx_elements c) l = None \<longleftrightarrow> mget (sx_groups c) l = None"
    "\<And>n l. (n, l) \<in> set (sx_order c) \<Longrightarrow> n < sx_fresh c" using q unfolding queue_ok_def by blast+
  have noE: "mget (sx_elements c) ?k = None" using noG qd(2) by blast
  have dis: "distinct (map fst (sx_order c))" "distinct (map snd (sx_order c))" using q by (simp_all add: queue_ok_def)
  have nk: "?k \<notin> snd ` set (sx_order c)"
  proof
    assume "?k \<in> snd ` set (sx_order c)"
    then obtain n where "(n, ?k) \<in> set (sx_order c)" by auto
    then show False using qd(1) [of n ?k] noE by simp
  qed
  have nf: "sx_fresh c \<notin> fst ` set (sx_order c)" using qd(3) by fastforce
  have "queue_ok ?c" unfolding queue_ok_def f
  proof (intro conjI allI impI)
    show "distinct (map fst (sx_order c @ [(sx_fresh c, ?k)]))" using dis nf by simp
    show "distinct (map snd (sx_order c @ [(sx_fresh c, ?k)]))" using dis nk by simp
    show "(n, l) \<in> set (sx_order c @ [(sx_fresh c, ?k)]) \<longleftrightarrow> mget (mput ?k (sx_fresh c) (sx_elements c)) l = Some n" for n l
      using qd(1) [of n l] noE by (auto simp: go_map)
    show "mget (mput ?k (sx_fresh c) (sx_elements c)) l = None \<longleftrightarrow> mget (mput ?k new (sx_groups c)) l = None" for l
      using qd(2) [of l] by (simp add: go_map)
    show "n < sx_fresh c + 1" if "(n, l) \<in> set (sx_order c @ [(sx_fresh c, ?k)])" for n l using that qd(3) [of n l] by auto
  qed
  note queue = this
  have "mwf (fold (\<lambda>alias. mput alias new) as m)" if "mwf m" for as m by (rule fold_keeps) (use that in \<open>auto simp: inv_intro\<close>)
  then have wf': "mwf (sx_entries ?c)" "mwf (sx_groups ?c)" "mwf (sx_elements ?c)" using wf by (simp_all add: f inv_intro)
  have groups: "group_ok h \<and> hd (sn_aliases h) = l \<and> (\<forall>a \<in> set (sn_aliases h). mget (sx_entries ?c) a = Some h)"
    if "mget (sx_groups ?c) l = Some h" for l h
  proof (cases "l = ?k")
    case True
    then show ?thesis using that new k(2) by (simp add: g e)
  next
    case False
    then have h: "mget (sx_groups c) l = Some h" using that by (simp add: g)
    note hd = groups_okD(1) [OF ok h]
    then have "a \<notin> set aliases" if "a \<in> set (sn_aliases h)" for a using that free by force
    then show ?thesis using hd by (simp add: e)
  qed
  have entries: "a \<in> set (sn_aliases h) \<and> mget (sx_groups ?c) (hd (sn_aliases h)) = Some h" if "mget (sx_entries ?c) a = Some h" for a h
  proof (cases "a \<in> set aliases")
    case True
    then show ?thesis using that k(2) by (auto simp: e g)
  next
    case False
    then have "mget (sx_entries c) a = Some h" using that by (simp add: e)
    from groups_okD(2) [OF ok this] show ?thesis using noG by (auto simp: g)
  qed
  show "groups_ok ?c" using wf' queue wf(4,5) groups entries unfolding max [symmetric] by (rule groups_okI)
qed

lemma length_mwf: "mwf m \<Longrightarrow> length m = card (fst ` set m)"
  by (metis distinct_card length_map list.set_map mwf_def)

lemma without_size:
  assumes "groups_ok c" and "without P c c'"
  shows "length (sx_entries c') \<le> length (sx_entries c)"
proof -
  have "fst ` set (sx_entries c') \<subseteq> fst ` set (sx_entries c)"
  proof
    fix a assume "a \<in> fst ` set (sx_entries c')"
    then have "mget (sx_entries c') a \<noteq> None" by (simp add: mget_None_iff)
    then have "mget (sx_entries c) a \<noteq> None" using assms(2) by (cases "mget (sx_entries c) a") (simp_all add: without_def)
    then show "a \<in> fst ` set (sx_entries c)" by (simp add: mget_None_iff)
  qed
  then have "card (fst ` set (sx_entries c')) \<le> card (fst ` set (sx_entries c))" by (intro card_mono) auto
  moreover have "mwf (sx_entries c)" "mwf (sx_entries c')" using assms by (simp_all add: without_def groups_ok_def)
  ultimately show ?thesis by (simp add: length_mwf)
qed

lemma replace_ok:
  fixes authID t aliases
  defines "new \<equiv> \<lparr>sn_authID = authID, sn_expiresAt = t, sn_aliases = aliases\<rparr>"
  assumes ok: "groups_ok c" and new: "group_ok new"
    and prev: "\<And>a e. a \<in> set aliases \<Longrightarrow> mget (sx_entries c) a = Some e \<Longrightarrow> e \<in> set previousGroups"
  obtains c' D where "replaceAliasGroupsLocked authID t aliases previousGroups c = Some c'" and "cache_ok c'"
    and "sx_maxEntries c' = sx_maxEntries c" and "sx_ttl c' = sx_ttl c"
    and "\<And>a. mget (sx_entries c') a = keepOut (\<lambda>e. hd (sn_aliases e) \<in> D)
          (if a \<in> set aliases then Some new else keepOut (\<lambda>e. e \<in> set previousGroups) (mget (sx_entries c) a))"
    and "int (card (fst ` set (sx_entries c) \<union> set aliases)) \<le> sx_maxEntries c \<Longrightarrow> D = {}"
proof -
  define c1 where "c1 = fold removeAliasGroupLocked previousGroups c"
  define c3 where "c3 = enqueueGroup authID t aliases c1"
  have w: "without (\<lambda>e. e \<in> set previousGroups) c c1" unfolding c1_def by (rule fold_remove [OF ok])
  note ok1 = without_ok [OF w]
  have e1: "mget (sx_entries c1) a = keepOut (\<lambda>e. e \<in> set previousGroups) (mget (sx_entries c) a)" for a using w by (simp add: without_def)
  have free: "mget (sx_entries c1) a = None" if "a \<in> set aliases" for a
    using prev [OF that] by (cases "mget (sx_entries c) a") (simp_all add: e1)
  have ne: "aliases \<noteq> []" using new by (simp add: group_ok_def new_def)
  have noG: "mget (sx_groups c1) (hd aliases) = None"
    using groups_okD(1) [OF ok1] free [OF hd_in_set [OF ne]] by (metis group_ok_def hd_in_set not_None_eq option.distinct(1))
  note en = enqueue_ok [OF ok1 new [unfolded new_def] free, folded c3_def new_def]
  have r: "replaceAliasGroupsLocked authID t aliases previousGroups c
     = (if int (length (sx_entries c3)) > sx_maxEntries c3 then evictExcessLocked c3 else Some c3)"
    using en(1) ne noG by (simp add: replaceAliasGroupsLocked_def c1_def [symmetric] c3_def [symmetric] groups_ok_def)
  have max: "sx_maxEntries c3 = sx_maxEntries c" "sx_ttl c3 = sx_ttl c" using w en by (simp_all add: without_def)
  have look: "mget (sx_entries c3) a = (if a \<in> set aliases then Some new else keepOut (\<lambda>e. e \<in> set previousGroups) (mget (sx_entries c) a))" for a
    by (simp add: en(2) e1)
  have sub: "fst ` set (sx_entries c3) \<subseteq> fst ` set (sx_entries c) \<union> set aliases"
  proof
    fix a assume "a \<in> fst ` set (sx_entries c3)"
    then have "mget (sx_entries c3) a \<noteq> None" by (simp add: mget_None_iff)
    then have "a \<in> set aliases \<or> mget (sx_entries c) a \<noteq> None" by (cases "a \<in> set aliases"; cases "mget (sx_entries c) a") (simp_all add: look)
    then show "a \<in> fst ` set (sx_entries c) \<union> set aliases" by (auto simp: mget_None_iff)
  qed
  then have "card (fst ` set (sx_entries c3)) \<le> card (fst ` set (sx_entries c) \<union> set aliases)" by (intro card_mono) auto
  then have len: "length (sx_entries c3) \<le> card (fst ` set (sx_entries c) \<union> set aliases)"
    using length_mwf [of "sx_entries c3"] en(1) by (simp add: groups_ok_def)
  show ?thesis
  proof (cases "int (length (sx_entries c3)) > sx_maxEntries c3")
    case True
    obtain c' D where c': "evictExcessLocked c3 = Some c'" "without (\<lambda>e. hd (sn_aliases e) \<in> D) c3 c'" "cache_ok c'"
      using evict_ok [OF en(1)] by blast
    moreover have "\<not> int (card (fst ` set (sx_entries c) \<union> set aliases)) \<le> sx_maxEntries c" using True len max by simp
    ultimately show ?thesis using True max by (intro that [of c' D]) (simp_all add: r without_def look [symmetric])
  next
    case False
    have id: "keepOut (\<lambda>e. hd (sn_aliases e) \<in> {}) x = x" for x by (cases x) simp_all
    show ?thesis using False en(1) max by (intro that [of c3 "{}"]) (simp_all add: r id [simplified] look cache_ok_def)
  qed
qed

end
