(* ===== verification/SessionCacheRuns.thy ===== *)
theory SessionCacheRuns
  imports SessionCacheInv
begin

text \<open>
  What the methods of the session cache answer and change, and the runs of a cache under any sequence of them.
\<close>

section \<open>Merging and compacting aliases\<close>

lemma addAlias_set: "set (addAlias a as) = set as \<union> ({a} - {[]})" and addAlias_ok: "distinct as \<Longrightarrow> distinct (addAlias a as)"
  and addAlias_extends: "\<exists>zs. addAlias a as = as @ zs"
  by (auto simp: addAlias_def)

lemma fold_addAlias:
  "set (fold addAlias bs as) = set as \<union> (set bs - {[]})" "distinct as \<Longrightarrow> distinct (fold addAlias bs as)"
  "\<exists>zs. fold addAlias bs as = as @ zs"
proof -
  show "set (fold addAlias bs as) = set as \<union> (set bs - {[]})"
    by (induction bs arbitrary: as) (auto simp: addAlias_set)
  show "distinct as \<Longrightarrow> distinct (fold addAlias bs as)" by (rule fold_keeps [where P = distinct]) (simp_all add: addAlias_ok)
  show "\<exists>zs. fold addAlias bs as = as @ zs"
  proof (induction bs arbitrary: as)
    case (Cons b bs)
    obtain zs ys where "addAlias b as = as @ zs" "fold addAlias bs (addAlias b as) = addAlias b as @ ys"
      using addAlias_extends Cons by metis
    then show ?case by simp
  qed simp
qed

lemma merge_set: "set (mergeSessionAliases as bs) = (set as \<union> set bs) - {[]}"
  by (auto simp: mergeSessionAliases_def fold_addAlias(1))

lemma merge_distinct: "distinct (mergeSessionAliases as bs)"
  by (simp add: mergeSessionAliases_def fold_addAlias(2))

lemma merge_extends:
  assumes "distinct as" and "[] \<notin> set as"
  shows "\<exists>zs. mergeSessionAliases as bs = as @ zs"
proof -
  have "fold addAlias as ys = ys @ as" if "distinct (ys @ as)" "[] \<notin> set as" for ys
    using that by (induction as arbitrary: ys) (auto simp: addAlias_def)
  from this [of "[]"] show ?thesis using assms fold_addAlias(3) [of bs as] by (simp add: mergeSessionAliases_def)
qed

lemma compact_loop_subset: "set (compact_loop p h n as) \<subseteq> set as"
  by (induction as arbitrary: h n) auto

lemma compact_loop_distinct: "distinct as \<Longrightarrow> distinct (compact_loop p h n as)"
  by (induction as arbitrary: h n) (use compact_loop_subset in \<open>auto simp: subset_iff\<close>)

lemma compact_loop_counts:
  "length (filter p (compact_loop p h n as)) \<le> (if h then 0 else 1)"
  "length (filter (\<lambda>a. \<not> p a) (compact_loop p h n as)) \<le> maxStableSessionAliases - n"
proof (induction as arbitrary: h n)
  case (Cons a as)
  { case 1 show ?case using Cons.IH(1) [of True n] Cons.IH(1) [of h "n + 1"] Cons.IH(1) [of h n] by (auto split: if_splits) }
  { case 2 show ?case using Cons.IH(2) [of True n] Cons.IH(2) [of h "n + 1"] Cons.IH(2) [of h n] by auto }
qed simp_all

lemma compact_loop_all:
  "length (filter p as) \<le> (if h then 0 else 1) \<Longrightarrow> length (filter (\<lambda>a. \<not> p a) as) + n \<le> maxStableSessionAliases \<Longrightarrow>
     compact_loop p h n as = as"
  by (induction as arbitrary: h n) (auto split: if_splits)

lemma compact_first: "as \<noteq> [] \<Longrightarrow> \<exists>zs. compactSessionAliases as = hd as # zs"
  by (cases as) (auto simp: compactSessionAliases_def compactSessionAliasesWith_def maxStableSessionAliases_def)

lemma compact_ok: "distinct as \<Longrightarrow> [] \<notin> set as \<Longrightarrow> compact (compactSessionAliases as)"
  using compact_loop_subset [of isLocalPromptCacheSessionAlias False 0 as] compact_loop_counts [where h = False and n = 0]
  by (auto simp: compact_def compactSessionAliases_def compactSessionAliasesWith_def compact_loop_distinct)

lemma compact_filter:
  assumes "compact as"
  shows "compact (filter P as)"
proof -
  have "length (filter p (filter P as)) \<le> length (filter p as)" for p
    by (induction as) auto
  from le_trans [OF this [of isLocalPromptCacheSessionAlias]] le_trans [OF this [of "\<lambda>a. \<not> isLocalPromptCacheSessionAlias a"]]
  show ?thesis using assms unfolding compact_def by (simp del: filter_filter)
qed

lemma compact_subset: "set (compactSessionAliases as) \<subseteq> set as"
  by (simp add: compactSessionAliases_def compactSessionAliasesWith_def compact_loop_subset)

section \<open>What the cache answers\<close>

definition live :: "time \<Rightarrow> SessionCache \<Rightarrow> string \<Rightarrow> string option" where
  \<comment> \<open>the credential that a session is bound to\<close>
  "live now c i = (case mget (sx_entries c) i of
     Some e \<Rightarrow> if Before now (sn_expiresAt e) then Some (sn_authID e) else None | None \<Rightarrow> None)"

lemma no_empty_entry: "groups_ok c \<Longrightarrow> mget (sx_entries c) [] = None"
  using groups_okD [of c] by (metis compact_def group_ok_def not_None_eq)

lemma entry_ok: "groups_ok c \<Longrightarrow> mget (sx_entries c) i = Some e \<Longrightarrow> group_ok e \<and> i \<in> set (sn_aliases e)
    \<and> (\<forall>a \<in> set (sn_aliases e). mget (sx_entries c) a = Some e)"
  using groups_okD [of c] by blast

lemma Get_answer: "groups_ok c \<Longrightarrow> fst (cache_Get (t0, t1) i c) = (case live t0 c i of Some a \<Rightarrow> Some a | None \<Rightarrow> live t1 c i)"
  using no_empty_entry [of c] by (auto simp: cache_Get_def Get_lookup_def Get_expire_def live_def split: option.split)

lemma Get_expire_ok:
  assumes "cache_ok c"
  shows "cache_ok (snd (Get_expire now i c))"
    and "now \<le> t \<Longrightarrow> live t (snd (Get_expire now i c)) j = live t c j"
proof -
  have ok: "groups_ok c" using assms by (simp add: cache_ok_def)
  have "cache_ok (snd (Get_expire now i c)) \<and> (now \<le> t \<longrightarrow> live t (snd (Get_expire now i c)) j = live t c j)" for t j
  proof (cases "\<exists>e. mget (sx_entries c) i = Some e \<and> sn_expiresAt e \<le> now")
    case True
    then obtain e where e: "mget (sx_entries c) i = Some e" "sn_expiresAt e \<le> now" by blast
    note w = remove_without [OF ok, of e]
    have r: "snd (Get_expire now i c) = removeAliasGroupLocked e c" using e by (simp add: Get_expire_def)
    show ?thesis using without_size [OF ok w] assms w e(2) unfolding r cache_ok_def
      by (auto simp: without_def live_def keepOut_def split: option.split)
  qed (use assms in \<open>auto simp: Get_expire_def split: option.split\<close>)
  then show "cache_ok (snd (Get_expire now i c))" "now \<le> t \<Longrightarrow> live t (snd (Get_expire now i c)) j = live t c j" by blast+
qed

lemma filter_count: "distinct xs \<Longrightarrow> distinct ys \<Longrightarrow> set xs = set ys \<Longrightarrow> length (filter p xs) = length (filter p ys)"
  by (metis distinct_card distinct_filter set_filter)

lemma compact_keeps:
  assumes "compact bs" and "distinct as" and "set as = set bs"
  shows "compactSessionAliases as = as"
proof -
  have "distinct bs" using assms(1) by (simp add: compact_def)
  note f = filter_count [OF assms(2) this assms(3)]
  show ?thesis unfolding compactSessionAliases_def compactSessionAliasesWith_def
    by (rule compact_loop_all) (use assms(1) in \<open>simp_all add: f compact_def\<close>)
qed

lemma room:
  assumes "cache_ok c" and "as \<subseteq> fst ` set (sx_entries c)"
  shows "int (card (fst ` set (sx_entries c) \<union> as)) \<le> sx_maxEntries c"
proof -
  have "fst ` set (sx_entries c) \<union> as = fst ` set (sx_entries c)" using assms(2) by blast
  then show ?thesis using assms(1) length_mwf [of "sx_entries c"] by (simp add: cache_ok_def groups_ok_def)
qed

lemma group_aliases_entries:
  assumes "groups_ok c" and "mget (sx_entries c) i = Some e"
  shows "set (sn_aliases e) \<subseteq> fst ` set (sx_entries c)"
  using entry_ok [OF assms] mget_Some_in [of "sx_entries c"] by (force simp: image_iff)

text \<open>A refresh gives the session a new deadline, with all its identifiers, and touches no other session.\<close>

lemma refresh_ok:
  assumes "cache_ok c" and e: "mget (sx_entries c) i = Some e"
  shows "\<exists>c'. replaceAliasGroupsLocked (sn_authID e) t (compactSessionAliases (mergeSessionAliases [i] (sn_aliases e))) [e] c = Some c'
    \<and> cache_ok c' \<and> sx_maxEntries c' = sx_maxEntries c \<and> sx_ttl c' = sx_ttl c
    \<and> (\<exists>as. set as = set (sn_aliases e) \<and> (\<forall>a. mget (sx_entries c') a =
          (if a \<in> set as then Some \<lparr>sn_authID = sn_authID e, sn_expiresAt = t, sn_aliases = as\<rparr> else mget (sx_entries c) a)))"
proof -
  have ok: "groups_ok c" using assms by (simp add: cache_ok_def)
  note eok = entry_ok [OF ok e]
  let ?m = "mergeSessionAliases [i] (sn_aliases e)"
  have comp: "compact (sn_aliases e)" using eok by (simp add: group_ok_def)
  then have "[] \<notin> set (sn_aliases e)" by (simp add: compact_def)
  then have set: "set ?m = set (sn_aliases e)" using eok by (auto simp: merge_set)
  have m: "compactSessionAliases ?m = ?m" by (rule compact_keeps [OF comp merge_distinct set])
  have "compact (compactSessionAliases ?m)" by (rule compact_ok [OF merge_distinct]) (simp add: merge_set)
  then have new: "group_ok \<lparr>sn_authID = sn_authID e, sn_expiresAt = t, sn_aliases = ?m\<rparr>"
    using eok set unfolding m by (auto simp: group_ok_def)
  have prev: "f \<in> set [e]" if "a \<in> set ?m" "mget (sx_entries c) a = Some f" for a f using that eok set by auto
  obtain c' D where c': "replaceAliasGroupsLocked (sn_authID e) t ?m [e] c = Some c'" "cache_ok c'" "sx_maxEntries c' = sx_maxEntries c"
      "sx_ttl c' = sx_ttl c"
    and look: "\<And>a. mget (sx_entries c') a = keepOut (\<lambda>e. hd (sn_aliases e) \<in> D)
        (if a \<in> set ?m then Some \<lparr>sn_authID = sn_authID e, sn_expiresAt = t, sn_aliases = ?m\<rparr> else keepOut (\<lambda>f. f \<in> set [e]) (mget (sx_entries c) a))"
    and D': "int (card (fst ` set (sx_entries c) \<union> set ?m)) \<le> sx_maxEntries c \<Longrightarrow> D = {}"
    by (rule replace_ok [OF ok new prev]) blast+
  have D: "D = {}" using D' room [OF assms(1) group_aliases_entries [OF ok e]] set by simp
  have other: "keepOut (\<lambda>f. f \<in> set [e]) (mget (sx_entries c) a) = mget (sx_entries c) a" if "a \<notin> set ?m" for a
    using that entry_ok [OF ok, of a] set by (cases "mget (sx_entries c) a") auto
  have id: "keepOut (\<lambda>e. hd (sn_aliases e) \<in> {}) x = x" for x by (cases x) simp_all
  have "mget (sx_entries c') a = (if a \<in> set ?m then Some \<lparr>sn_authID = sn_authID e, sn_expiresAt = t, sn_aliases = ?m\<rparr> else mget (sx_entries c) a)" for a
    using look [of a] other [of a] unfolding D id by simp
  then show ?thesis unfolding m using c'(1-4) set by blast
qed

text \<open>An identifier that leaves its session leaves the others bound as they were.\<close>

lemma leave_ok:
  assumes "cache_ok c" and e: "mget (sx_entries c) i = Some e"
  shows "\<exists>c'. leaveGroup i e c = Some c' \<and> cache_ok c' \<and> sx_maxEntries c' = sx_maxEntries c \<and> sx_ttl c' = sx_ttl c
    \<and> (\<forall>a. mget (sx_entries c') a = (if a = i then None
        else if a \<in> set (sn_aliases e) then Some (e\<lparr>sn_aliases := filter (\<lambda>a. a \<noteq> i) (sn_aliases e)\<rparr>) else mget (sx_entries c) a))"
proof -
  have ok: "groups_ok c" using assms by (simp add: cache_ok_def)
  note eok = entry_ok [OF ok e]
  let ?c1 = "removeAliasGroupLocked e c" and ?s = "filter (\<lambda>a. a \<noteq> i) (sn_aliases e)"
  note w = remove_without [OF ok, of e]
  have ok1: "groups_ok ?c1" using w by (simp add: without_def)
  have e1: "mget (sx_entries ?c1) a = (if a \<in> set (sn_aliases e) then None else mget (sx_entries c) a)" for a
    using w eok entry_ok [OF ok, of a] by (cases "mget (sx_entries c) a") (auto simp: without_def)
  have max1: "sx_maxEntries ?c1 = sx_maxEntries c" "sx_ttl ?c1 = sx_ttl c" using w by (simp_all add: without_def)
  show ?thesis
  proof (cases "?s = []")
    case True
    then have "set (sn_aliases e) = {i}" using eok by (auto simp: filter_empty_conv)
    moreover have "cache_ok ?c1" using ok1 without_size [OF ok w] assms(1) max1 by (simp add: cache_ok_def)
    ultimately show ?thesis using True e1 max1 by (simp add: leaveGroup_def Let_def)
  next
    case False
    have comp: "compact ?s" using eok by (simp add: group_ok_def compact_filter)
    let ?new = "\<lparr>sn_authID = sn_authID e, sn_expiresAt = sn_expiresAt e, sn_aliases = ?s\<rparr>"
    have new: "group_ok ?new" using eok comp False by (simp add: group_ok_def)
    have prev: "f \<in> set []" if "a \<in> set ?s" "mget (sx_entries ?c1) a = Some f" for a f using that e1 by simp
    obtain c' D where c': "replaceAliasGroupsLocked (sn_authID e) (sn_expiresAt e) ?s [] ?c1 = Some c'" "cache_ok c'"
        "sx_maxEntries c' = sx_maxEntries ?c1" "sx_ttl c' = sx_ttl ?c1"
      and look: "\<And>a. mget (sx_entries c') a = keepOut (\<lambda>e. hd (sn_aliases e) \<in> D)
          (if a \<in> set ?s then Some ?new else keepOut (\<lambda>f. f \<in> set []) (mget (sx_entries ?c1) a))"
      and D': "int (card (fst ` set (sx_entries ?c1) \<union> set ?s)) \<le> sx_maxEntries ?c1 \<Longrightarrow> D = {}"
      by (rule replace_ok [OF ok1 new prev]) blast+
    have "fst ` set (sx_entries ?c1) \<union> set ?s \<subseteq> fst ` set (sx_entries c) \<union> set (sn_aliases e)"
    proof
      fix a assume "a \<in> fst ` set (sx_entries ?c1) \<union> set ?s"
      then have "mget (sx_entries ?c1) a \<noteq> None \<or> a \<in> set (sn_aliases e)" by (auto simp: mget_None_iff)
      then have "mget (sx_entries c) a \<noteq> None" using e1 [of a] eok by (auto split: if_splits)
      then show "a \<in> fst ` set (sx_entries c) \<union> set (sn_aliases e)" by (auto simp: mget_None_iff)
    qed
    then have "card (fst ` set (sx_entries ?c1) \<union> set ?s) \<le> card (fst ` set (sx_entries c) \<union> set (sn_aliases e))"
      by (intro card_mono) auto
    then have D: "D = {}" using D' room [OF assms(1) group_aliases_entries [OF ok e]] max1 by simp
    have id: "keepOut (\<lambda>e. hd (sn_aliases e) \<in> {}) x = x" "keepOut (\<lambda>f. f \<in> set []) x = x" for x by (cases x; simp)+
    have "mget (sx_entries c') a = (if a = i then None else if a \<in> set (sn_aliases e) then Some ?new else mget (sx_entries c) a)" for a
      using look [of a] e1 [of a] eok unfolding D id by auto
    moreover have "?new = e\<lparr>sn_aliases := ?s\<rparr>" by simp
    ultimately show ?thesis using c' max1 False by (simp add: leaveGroup_def Let_def)
  qed
qed

section \<open>Binding a session\<close>

definition sessionsOf :: "time \<Rightarrow> SessionCache \<Rightarrow> string list \<Rightarrow> sessionEntry set" where
  \<comment> \<open>the sessions that the identifiers are bound to\<close>
  "sessionsOf now c ids = {e. \<exists>i \<in> set ids. mget (sx_entries c) i = Some e \<and> Before now (sn_expiresAt e)}"

definition expiredOf :: "time \<Rightarrow> SessionCache \<Rightarrow> string list \<Rightarrow> sessionEntry set" where
  "expiredOf now c ids = {e. \<exists>i \<in> set ids. mget (sx_entries c) i = Some e \<and> \<not> Before now (sn_expiresAt e)}"

lemma of_snoc:
  "sessionsOf now c (ids @ [i]) = sessionsOf now c ids \<union> (case mget (sx_entries c) i of Some e \<Rightarrow> if Before now (sn_expiresAt e) then {e} else {} | None \<Rightarrow> {})"
  "expiredOf now c (ids @ [i]) = expiredOf now c ids \<union> (case mget (sx_entries c) i of Some e \<Rightarrow> if Before now (sn_expiresAt e) then {} else {e} | None \<Rightarrow> {})"
  by (auto simp: sessionsOf_def expiredOf_def split: option.splits)

lemma collect_spec:
  assumes ok: "groups_ok c" and "distinct as" "[] \<notin> set as" and "fold (collectGroup now) ids (as, [], c) = (bs, prev, c1)"
  shows "without (\<lambda>e. e \<in> expiredOf now c ids) c c1 \<and> set prev = sessionsOf now c ids \<and> distinct bs \<and> [] \<notin> set bs
     \<and> set bs = set as \<union> (\<Union>e \<in> sessionsOf now c ids. set (sn_aliases e)) \<and> (\<exists>zs. bs = as @ zs)"
  using assms(4)
proof (induction ids arbitrary: bs prev c1 rule: rev_induct)
  case Nil
  have "without (\<lambda>e. e \<in> expiredOf now c []) c c" by (rule without_none [OF ok]) (simp add: expiredOf_def)
  then show ?case using Nil assms(2,3) by (simp add: sessionsOf_def)
next
  case (snoc i ids)
  obtain bs0 prev0 c0 where acc: "fold (collectGroup now) ids (as, [], c) = (bs0, prev0, c0)" by (metis prod_cases3)
  note ih = snoc.IH [OF acc]
  then have w: "without (\<lambda>e. e \<in> expiredOf now c ids) c c0" by blast
  have c0: "mget (sx_entries c0) i = keepOut (\<lambda>e. e \<in> expiredOf now c ids) (mget (sx_entries c) i)" using w by (simp add: without_def)
  have step: "collectGroup now i (bs0, prev0, c0) = (bs, prev, c1)" using snoc.prems acc by simp
  show ?case
  proof (cases "mget (sx_entries c) i")
    case None
    then have new: "bs = bs0" "prev = prev0" "c1 = c0" using c0 step by (simp_all add: collectGroup_def)
    have same: "sessionsOf now c (ids @ [i]) = sessionsOf now c ids" "expiredOf now c (ids @ [i]) = expiredOf now c ids"
      using None by (simp_all add: of_snoc)
    show ?thesis unfolding new same by (rule ih)
  next
    case (Some e)
    note eok = entry_ok [OF ok Some]
    show ?thesis
    proof (cases "Before now (sn_expiresAt e)")
      case True
      then have "e \<notin> expiredOf now c ids" by (auto simp: expiredOf_def)
      then have "mget (sx_entries c0) i = Some e" using c0 Some by simp
      then have new: "bs = mergeSessionAliases bs0 (sn_aliases e)" "prev = prev0 @ [e]" "c1 = c0"
        using step True by (simp_all add: collectGroup_def)
      have same: "sessionsOf now c (ids @ [i]) = insert e (sessionsOf now c ids)" "expiredOf now c (ids @ [i]) = expiredOf now c ids"
        using Some True by (simp_all add: of_snoc)
      have ne: "[] \<notin> set (sn_aliases e)" using eok by (simp add: group_ok_def compact_def)
      have facts: "set prev0 = sessionsOf now c ids" "distinct bs0" "[] \<notin> set bs0" "\<exists>zs. bs0 = as @ zs"
        "set bs0 = set as \<union> (\<Union>e \<in> sessionsOf now c ids. set (sn_aliases e))" using ih by blast+
      obtain zs where "mergeSessionAliases bs0 (sn_aliases e) = bs0 @ zs" using merge_extends facts(2,3) by blast
      then have "\<exists>zs. mergeSessionAliases bs0 (sn_aliases e) = as @ zs" using facts(4) by auto
      moreover have "set (mergeSessionAliases bs0 (sn_aliases e)) = set bs0 \<union> set (sn_aliases e)" using facts(3) ne by (auto simp: merge_set)
      ultimately show ?thesis unfolding new same using w merge_distinct facts ne by auto
    next
      case False
      have same: "sessionsOf now c (ids @ [i]) = sessionsOf now c ids" "expiredOf now c (ids @ [i]) = insert e (expiredOf now c ids)"
        using Some False by (simp_all add: of_snoc)
      have "without (\<lambda>f. f \<in> insert e (expiredOf now c ids)) c c1 \<and> bs = bs0 \<and> prev = prev0"
      proof (cases "e \<in> expiredOf now c ids")
        case True
        then have "insert e (expiredOf now c ids) = expiredOf now c ids" by blast
        then show ?thesis using step c0 w Some True by (simp add: collectGroup_def)
      next
        case e: False
        then have new: "c1 = removeAliasGroupLocked e c0" "bs = bs0" "prev = prev0"
          using step c0 Some False by (simp_all add: collectGroup_def)
        have "without (\<lambda>f. f \<in> expiredOf now c ids \<or> f = e) c c1"
          unfolding new by (rule without_trans [OF w remove_without [OF without_ok [OF w]]])
        then show ?thesis using new by (auto elim: without_cong)
      qed
      moreover have "set prev0 = sessionsOf now c ids" "distinct bs0" "[] \<notin> set bs0" "\<exists>zs. bs0 = as @ zs"
        "set bs0 = set as \<union> (\<Union>e \<in> sessionsOf now c ids. set (sn_aliases e))" using ih by blast+
      ultimately show ?thesis unfolding same by blast
    qed
  qed
qed

lemma SetAliases_ok:
  assumes c: "cache_ok c" and authID: "authID \<noteq> []" and ids: "set ids - {[]} \<noteq> {}"
  obtains c' D bs where "SetAliases now authID ids c = Some c'" and "cache_ok c'" and "sx_maxEntries c' = sx_maxEntries c" "sx_ttl c' = sx_ttl c"
    and "\<And>a. mget (sx_entries c') a = keepOut (\<lambda>e. hd (sn_aliases e) \<in> D)
        (if a \<in> set (compactSessionAliases bs)
         then Some \<lparr>sn_authID = authID, sn_expiresAt = now + sx_ttl c, sn_aliases = compactSessionAliases bs\<rparr>
         else keepOut (\<lambda>e. e \<in> expiredOf now c ids \<or> e \<in> sessionsOf now c ids) (mget (sx_entries c) a))"
    and "int (length (sx_entries c) + length ids) \<le> sx_maxEntries c \<Longrightarrow> D = {}"
    and "set bs = (set ids - {[]}) \<union> (\<Union>e \<in> sessionsOf now c ids. set (sn_aliases e))" and "distinct bs"
    and "\<exists>zs. bs = mergeSessionAliases [] ids @ zs"
proof -
  have ok: "groups_ok c" using c by (simp add: cache_ok_def)
  let ?as = "mergeSessionAliases [] ids"
  obtain bs prev c1 where acc: "fold (collectGroup now) ids (?as, [], c) = (bs, prev, c1)" by (metis prod_cases3)
  have "[] \<notin> set ?as" by (simp add: merge_set)
  note spec = collect_spec [OF ok merge_distinct this acc]
  have w: "without (\<lambda>e. e \<in> expiredOf now c ids) c c1" and prev: "set prev = sessionsOf now c ids" and dis: "distinct bs" "[] \<notin> set bs"
    and bs: "set bs = (set ids - {[]}) \<union> (\<Union>e \<in> sessionsOf now c ids. set (sn_aliases e))" and zs: "\<exists>zs. bs = ?as @ zs"
    using spec by (auto simp: merge_set)
  let ?bs = "compactSessionAliases bs"
  have "bs \<noteq> []" using ids bs by auto
  then have ne: "?bs \<noteq> []" using compact_first [of bs] by auto
  have ttl: "sx_ttl c1 = sx_ttl c" "sx_maxEntries c1 = sx_maxEntries c" using w by (simp_all add: without_def)
  let ?new = "\<lparr>sn_authID = authID, sn_expiresAt = now + sx_ttl c, sn_aliases = ?bs\<rparr>"
  have r: "SetAliases now authID ids c = replaceAliasGroupsLocked authID (now + sx_ttl c) ?bs prev c1"
    using authID ne by (simp add: SetAliases_def acc ttl Let_def)
  have new: "group_ok ?new" using authID ne compact_ok [OF dis] by (simp add: group_ok_def)
  have look1: "mget (sx_entries c1) a = keepOut (\<lambda>e. e \<in> expiredOf now c ids) (mget (sx_entries c) a)" for a using w by (simp add: without_def)
  have prv: "e \<in> set prev" if a: "a \<in> set ?bs" and e: "mget (sx_entries c1) a = Some e" for a e
  proof -
    have e': "mget (sx_entries c) a = Some e" "e \<notin> expiredOf now c ids" using e by (simp_all add: look1 keepOut_eq_Some)
    have "a \<in> set bs" using a compact_subset by blast
    then consider "a \<in> set ids" | f where "f \<in> sessionsOf now c ids" "a \<in> set (sn_aliases f)" using bs by blast
    then show ?thesis
    proof cases
      case 1
      then show ?thesis using e' by (auto simp: prev sessionsOf_def expiredOf_def)
    next
      case 2
      then obtain i where "mget (sx_entries c) i = Some f" by (auto simp: sessionsOf_def)
      then have "mget (sx_entries c) a = Some f" using entry_ok [OF ok] 2(2) by blast
      then have "e = f" using e'(1) by (metis option.inject)
      then show ?thesis using 2(1) prev by blast
    qed
  qed
  obtain c' D where c': "replaceAliasGroupsLocked authID (now + sx_ttl c) ?bs prev c1 = Some c'" "cache_ok c'"
      "sx_maxEntries c' = sx_maxEntries c1" "sx_ttl c' = sx_ttl c1"
    and look: "\<And>a. mget (sx_entries c') a = keepOut (\<lambda>e. hd (sn_aliases e) \<in> D)
        (if a \<in> set ?bs then Some ?new else keepOut (\<lambda>e. e \<in> set prev) (mget (sx_entries c1) a))"
    and D: "int (card (fst ` set (sx_entries c1) \<union> set ?bs)) \<le> sx_maxEntries c1 \<Longrightarrow> D = {}"
    by (rule replace_ok [OF without_ok [OF w] new prv]) blast+
  have "fst ` set (sx_entries c1) \<union> set ?bs \<subseteq> fst ` set (sx_entries c) \<union> set ids"
  proof
    fix a assume "a \<in> fst ` set (sx_entries c1) \<union> set ?bs"
    then consider "mget (sx_entries c1) a \<noteq> None" | "a \<in> set ids" | f where "f \<in> sessionsOf now c ids" "a \<in> set (sn_aliases f)"
      using bs compact_subset [of bs] by (auto simp: mget_None_iff)
    then show "a \<in> fst ` set (sx_entries c) \<union> set ids"
    proof cases
      case 1
      then have "mget (sx_entries c) a \<noteq> None" by (cases "mget (sx_entries c) a") (simp_all add: look1)
      then show ?thesis by (simp add: mget_None_iff)
    next
      case 3
      then obtain i where "mget (sx_entries c) i = Some f" by (auto simp: sessionsOf_def)
      then have "mget (sx_entries c) a = Some f" using entry_ok [OF ok] 3(2) by blast
      then show ?thesis by (metis UnI1 mget_None_iff option.distinct(1))
    qed blast
  qed
  then have "card (fst ` set (sx_entries c1) \<union> set ?bs) \<le> card (fst ` set (sx_entries c) \<union> set ids)" by (intro card_mono) auto
  also have "\<dots> \<le> card (fst ` set (sx_entries c)) + card (set ids)" by (rule card_Un_le)
  also have "\<dots> \<le> length (sx_entries c) + length ids"
    using length_mwf [of "sx_entries c"] card_length [of ids] ok by (simp add: groups_ok_def)
  finally have D': "int (length (sx_entries c) + length ids) \<le> sx_maxEntries c \<Longrightarrow> D = {}" using D ttl by simp
  show ?thesis
  proof (rule that [OF r [unfolded c'(1)] c'(2) _ _ _ D' bs dis(1) zs])
    show "mget (sx_entries c') a = keepOut (\<lambda>e. hd (sn_aliases e) \<in> D) (if a \<in> set ?bs then Some ?new
        else keepOut (\<lambda>e. e \<in> expiredOf now c ids \<or> e \<in> sessionsOf now c ids) (mget (sx_entries c) a))" for a
      by (simp add: look look1 keepOut_keepOut prev)
  qed (simp_all add: c' ttl)
qed

lemma SetAliases_nothing:
  assumes "cache_ok c" and "authID = [] \<or> set ids - {[]} = {}"
  shows "SetAliases now authID ids c = Some c"
proof (cases "authID = []")
  case False
  then have ids: "i \<in> set ids \<Longrightarrow> i = []" for i using assms(2) by blast
  have none: "mget (sx_entries c) [] = None" using no_empty_entry assms(1) by (simp add: cache_ok_def)
  have "set (mergeSessionAliases [] ids) = {}" using ids by (auto simp: merge_set)
  then have m: "mergeSessionAliases [] ids = []" by (simp only: set_empty)
  have "fold (collectGroup now) js ([], [], c) = ([], [], c)" if "set js \<subseteq> {[]}" for js
    using that by (induction js) (auto simp: collectGroup_def none)
  then have "fold (collectGroup now) ids ([], [], c) = ([], [], c)" using ids by blast
  then show ?thesis using False by (simp add: SetAliases_def m compactSessionAliases_def compactSessionAliasesWith_def)
qed (simp add: SetAliases_def)

section \<open>What each method does to the bindings\<close>

definition aliasesOf :: "SessionCache \<Rightarrow> string \<Rightarrow> string set" where
  \<comment> \<open>the identifiers of the session that \<open>i\<close> belongs to\<close>
  "aliasesOf c i = (case mget (sx_entries c) i of Some e \<Rightarrow> set (sn_aliases e) | None \<Rightarrow> {})"

definition same_limits :: "SessionCache \<Rightarrow> SessionCache \<Rightarrow> bool" where
  "same_limits c c' \<longleftrightarrow> sx_maxEntries c' = sx_maxEntries c \<and> sx_ttl c' = sx_ttl c"

lemma live_put: "mget (sx_entries c') j = Some \<lparr>sn_authID = a, sn_expiresAt = x, sn_aliases = as\<rparr> \<Longrightarrow>
    live t c' j = (if t < x then Some a else None)"
  by (simp add: live_def)

lemma without_live:
  assumes "without P c c'"
  shows "live t c' j = (case mget (sx_entries c) j of Some e \<Rightarrow> if P e then None else live t c j | None \<Rightarrow> None)"
  using assms by (auto simp: without_def live_def split: option.split)

lemma without_cache_ok: "cache_ok c \<Longrightarrow> without P c c' \<Longrightarrow> cache_ok c' \<and> same_limits c c'"
  using without_size [of c P c'] by (simp add: cache_ok_def without_def same_limits_def)

lemma remove_expired:
  assumes "cache_ok c" and "mget (sx_entries c) i = Some e" and "sn_expiresAt e \<le> now"
  shows "cache_ok (removeAliasGroupLocked e c) \<and> same_limits c (removeAliasGroupLocked e c)
    \<and> (now \<le> t \<longrightarrow> live t (removeAliasGroupLocked e c) j = live t c j)"
proof -
  have w: "without (\<lambda>f. f = e) c (removeAliasGroupLocked e c)" using assms(1) by (intro remove_without) (simp add: cache_ok_def)
  have "now \<le> t \<longrightarrow> live t (removeAliasGroupLocked e c) j = live t c j"
    unfolding without_live [OF w] using assms(3) by (auto simp: live_def split: option.split)
  then show ?thesis using without_cache_ok [OF assms(1) w] by blast
qed

lemma refreshed:
  assumes "cache_ok c" and e: "mget (sx_entries c) i = Some e"
  shows "\<exists>c'. replaceAliasGroupsLocked (sn_authID e) x (compactSessionAliases (mergeSessionAliases [i] (sn_aliases e))) [e] c = Some c'
    \<and> cache_ok c' \<and> same_limits c c'
    \<and> (\<forall>t j. live t c' j = (if j \<in> aliasesOf c i then if t < x then Some (sn_authID e) else None else live t c j))"
proof -
  obtain c' as where c': "replaceAliasGroupsLocked (sn_authID e) x (compactSessionAliases (mergeSessionAliases [i] (sn_aliases e))) [e] c = Some c'"
    "cache_ok c'" "sx_maxEntries c' = sx_maxEntries c" "sx_ttl c' = sx_ttl c" "set as = set (sn_aliases e)"
    "\<forall>a. mget (sx_entries c') a = (if a \<in> set as then Some \<lparr>sn_authID = sn_authID e, sn_expiresAt = x, sn_aliases = as\<rparr> else mget (sx_entries c) a)"
    using refresh_ok [OF assms, of x] by (elim exE conjE) blast
  have "live t c' j = (if j \<in> aliasesOf c i then if t < x then Some (sn_authID e) else None else live t c j)" for t j
    using c'(5,6) e by (simp add: live_def aliasesOf_def)
  then show ?thesis using c'(1-4) by (auto simp: same_limits_def)
qed

lemma GetAndRefresh_ok:
  assumes ok: "cache_ok c"
  shows "\<exists>c'. GetAndRefresh now i c = Some (live now c i, c') \<and> cache_ok c' \<and> same_limits c c'
    \<and> (\<forall>t j. now \<le> t \<longrightarrow> live t c' j =
          (if live now c i \<noteq> None \<and> j \<in> aliasesOf c i then if t < now + sx_ttl c then live now c i else None else live t c j))"
proof (cases "mget (sx_entries c) i")
  case None
  then have "GetAndRefresh now i c = Some (None, c)" "live now c i = None" by (simp_all add: GetAndRefresh_def live_def)
  then show ?thesis using ok by (simp add: same_limits_def)
next
  case (Some e)
  have i: "i \<noteq> []" using Some no_empty_entry [of c] ok by (auto simp: cache_ok_def)
  show ?thesis
  proof (cases "now < sn_expiresAt e")
    case True
    then have l: "live now c i = Some (sn_authID e)" by (simp add: live_def Some)
    show ?thesis using refreshed [OF ok Some, of "now + sx_ttl c"] True by (auto simp: GetAndRefresh_def i Some l)
  next
    case False
    then have l: "live now c i = None" by (simp add: live_def Some)
    show ?thesis using remove_expired [OF ok Some, of now] False by (simp add: GetAndRefresh_def i Some l)
  qed
qed

lemma Touch_ok:
  assumes ok: "cache_ok c"
  shows "\<exists>c'. cache_Touch now i a c = Some (a \<noteq> [] \<and> live now c i = Some a, c') \<and> cache_ok c' \<and> same_limits c c'
    \<and> (\<forall>t j. live t c' j = (if a \<noteq> [] \<and> live now c i = Some a \<and> j \<in> aliasesOf c i
          then if t < now + sx_ttl c then Some a else None else live t c j))"
proof (cases "i \<noteq> [] \<and> a \<noteq> [] \<and> live now c i = Some a")
  case True
  then obtain e where e: "mget (sx_entries c) i = Some e" "now < sn_expiresAt e" "sn_authID e = a"
    by (auto simp: live_def split: option.splits if_splits)
  show ?thesis using refreshed [OF ok e(1), of "now + sx_ttl c"] True e by (auto simp: cache_Touch_def)
next
  case False
  have "live now c [] = None" using no_empty_entry [of c] ok by (simp add: cache_ok_def live_def)
  then have F: "\<not> (a \<noteq> [] \<and> live now c i = Some a)" using False by auto
  have "cache_Touch now i a c = Some (False, c)"
    using F by (auto simp: cache_Touch_def live_def split: option.splits)
  then show ?thesis using F ok by (auto simp: same_limits_def)
qed

lemma left:
  assumes "cache_ok c" and e: "mget (sx_entries c) i = Some e"
  shows "\<exists>c'. leaveGroup i e c = Some c' \<and> cache_ok c' \<and> same_limits c c' \<and> (\<forall>t j. live t c' j = (if j = i then None else live t c j))"
proof -
  obtain c' where c': "leaveGroup i e c = Some c'" "cache_ok c'" "sx_maxEntries c' = sx_maxEntries c" "sx_ttl c' = sx_ttl c"
    "\<forall>a. mget (sx_entries c') a = (if a = i then None
        else if a \<in> set (sn_aliases e) then Some (e\<lparr>sn_aliases := filter (\<lambda>a. a \<noteq> i) (sn_aliases e)\<rparr>) else mget (sx_entries c) a)"
    using leave_ok [OF assms] by (elim exE conjE) blast
  have "j \<in> set (sn_aliases e) \<Longrightarrow> mget (sx_entries c) j = Some e" for j using entry_ok [OF _ e] assms(1) by (auto simp: cache_ok_def)
  then have "live t c' j = (if j = i then None else live t c j)" for t j using c'(5) by (simp add: live_def)
  then show ?thesis using c' by (auto simp: same_limits_def)
qed

definition boundTo :: "SessionCache \<Rightarrow> string \<Rightarrow> string option" where
  "boundTo c i = map_option sn_authID (mget (sx_entries c) i)"

lemma CompareAndDelete_ok:
  assumes ok: "cache_ok c"
  shows "\<exists>c'. CompareAndDelete i a c = Some (a \<noteq> [] \<and> boundTo c i = Some a, c') \<and> cache_ok c' \<and> same_limits c c'
    \<and> (\<forall>t j. live t c' j = (if a \<noteq> [] \<and> boundTo c i = Some a \<and> j = i then None else live t c j))"
proof (cases "i \<noteq> [] \<and> a \<noteq> [] \<and> boundTo c i = Some a")
  case True
  then obtain e where e: "mget (sx_entries c) i = Some e" "sn_authID e = a" by (auto simp: boundTo_def)
  show ?thesis using left [OF ok e(1)] True e by (auto simp: CompareAndDelete_def)
next
  case False
  have "boundTo c [] = None" using no_empty_entry [of c] ok by (simp add: cache_ok_def boundTo_def)
  then have F: "\<not> (a \<noteq> [] \<and> boundTo c i = Some a)" using False by auto
  then have "CompareAndDelete i a c = Some (False, c)" by (auto simp: CompareAndDelete_def boundTo_def split: option.splits)
  then show ?thesis using F ok by (auto simp: same_limits_def)
qed

lemma Invalidate_ok:
  assumes ok: "cache_ok c"
  shows "\<exists>c'. cache_Invalidate i c = Some c' \<and> cache_ok c' \<and> same_limits c c' \<and> (\<forall>t j. live t c' j = (if j = i then None else live t c j))"
proof (cases "mget (sx_entries c) i")
  case None
  then have "cache_Invalidate i c = Some c" "live t c i = None" for t by (simp_all add: cache_Invalidate_def live_def)
  then show ?thesis using ok by (auto simp: same_limits_def)
next
  case (Some e)
  have "i \<noteq> []" using Some no_empty_entry [of c] ok by (auto simp: cache_ok_def)
  then show ?thesis using left [OF ok Some] by (simp add: cache_Invalidate_def Some)
qed

lemma InvalidateAuth_ok:
  assumes ok: "cache_ok c"
  shows "cache_ok (cache_InvalidateAuth a c)" and "same_limits c (cache_InvalidateAuth a c)"
    and "live t (cache_InvalidateAuth a c) j = (if a \<noteq> [] \<and> live t c j = Some a then None else live t c j)"
proof -
  have g: "groups_ok c" using ok by (simp add: cache_ok_def)
  note w = removeGroupsIf_without [OF g, of "\<lambda>g. sn_authID g = a"]
  show "cache_ok (cache_InvalidateAuth a c)" "same_limits c (cache_InvalidateAuth a c)"
    using without_cache_ok [OF ok w] ok by (simp_all add: cache_InvalidateAuth_def same_limits_def)
  show "live t (cache_InvalidateAuth a c) j = (if a \<noteq> [] \<and> live t c j = Some a then None else live t c j)"
    using without_live [OF w, of t j] by (auto simp: cache_InvalidateAuth_def live_def split: option.splits)
qed

lemma cleanup_ok:
  assumes ok: "cache_ok c"
  shows "cache_ok (cache_cleanup now c)" and "same_limits c (cache_cleanup now c)"
    and "now \<le> t \<Longrightarrow> live t (cache_cleanup now c) j = live t c j"
proof -
  have g: "groups_ok c" using ok by (simp add: cache_ok_def)
  note w = removeGroupsIf_without [OF g, of "\<lambda>g. \<not> Before now (sn_expiresAt g)"]
  show "cache_ok (cache_cleanup now c)" "same_limits c (cache_cleanup now c)"
    using without_cache_ok [OF ok w] by (simp_all add: cache_cleanup_def)
  show "live t (cache_cleanup now c) j = live t c j" if "now \<le> t"
    using without_live [OF w, of t j] that by (auto simp: cache_cleanup_def live_def split: option.splits)
qed

end
