(* ===== verification/SessionContract.thy ===== *)
theory SessionContract
  imports SessionCacheRuns
begin

text \<open>
  The runs of a session cache: any sequence of its methods, at any times, with the second half of a \<open>Get\<close> delayed at
  will. What holds in every state they reach is stated at the end.
\<close>

section \<open>Binding, seen from outside\<close>

definition joined :: "time \<Rightarrow> SessionCache \<Rightarrow> string list \<Rightarrow> string set" where
  \<comment> \<open>the identifiers with those of the sessions they are bound to\<close>
  "joined now c ids = (set ids - {[]}) \<union> (\<Union>e \<in> sessionsOf now c ids. set (sn_aliases e))"

definition ordinary :: "string set \<Rightarrow> bool" where
  \<comment> \<open>few enough to be one session, and none is the key of a prompt cache\<close>
  "ordinary J \<longleftrightarrow> card J \<le> maxStableSessionAliases \<and> (\<forall>i\<in>J. \<not> isLocalPromptCacheSessionAlias i)"

lemma compact_ordinary:
  assumes "distinct bs" and "ordinary (set bs)"
  shows "compactSessionAliases bs = bs"
proof -
  have none: "filter isLocalPromptCacheSessionAlias bs = []" using assms(2) by (auto simp: ordinary_def filter_empty_conv)
  have "length bs \<le> maxStableSessionAliases" using assms by (simp add: ordinary_def distinct_card)
  then have "length (filter (\<lambda>a. \<not> isLocalPromptCacheSessionAlias a) bs) \<le> maxStableSessionAliases" by (rule le_trans [OF length_filter_le])
  then show ?thesis unfolding compactSessionAliases_def compactSessionAliasesWith_def
    by (intro compact_loop_all) (simp_all add: none)
qed

lemma merge_first: "filter (\<lambda>i. i \<noteq> []) ids = i # is' \<Longrightarrow> \<exists>zs. mergeSessionAliases [] ids = i # zs"
proof (induction ids)
  case (Cons j ids)
  show ?case
  proof (cases "j = []")
    case True
    then show ?thesis using Cons by (simp add: mergeSessionAliases_def addAlias_def)
  next
    case False
    then have "mergeSessionAliases [] (j # ids) = fold addAlias ids [j]" "i = j" using Cons.prems
      by (simp_all add: mergeSessionAliases_def addAlias_def)
    then show ?thesis using fold_addAlias(3) [of ids "[j]"] by auto
  qed
qed simp

lemma SetAliases_live:
  assumes c: "cache_ok c" and authID: "authID \<noteq> []" and ids: "filter (\<lambda>i. i \<noteq> []) ids = i # is'"
  obtains c' K where "SetAliases now authID ids c = Some c'" and "cache_ok c'" and "same_limits c c'"
    and "i \<in> K" and "K \<subseteq> joined now c ids" and "ordinary (joined now c ids) \<Longrightarrow> K = joined now c ids"
    and "\<And>t j. now \<le> t \<Longrightarrow> live t c' j \<in> {None,
        (if j \<in> K then if t < now + sx_ttl c then Some authID else None
         else if j \<in> joined now c ids then None else live t c j)}"
    and "\<And>t j. now \<le> t \<Longrightarrow> int (length (sx_entries c) + length ids) \<le> sx_maxEntries c \<Longrightarrow> live t c' j =
        (if j \<in> K then if t < now + sx_ttl c then Some authID else None
         else if j \<in> joined now c ids then None else live t c j)"
proof -
  have ok: "groups_ok c" using c by (simp add: cache_ok_def)
  have "i \<in> set (filter (\<lambda>i. i \<noteq> []) ids)" by (simp add: ids)
  then have ne: "set ids - {[]} \<noteq> {}" by auto
  obtain c' D bs where s: "SetAliases now authID ids c = Some c'" "cache_ok c'" "sx_maxEntries c' = sx_maxEntries c" "sx_ttl c' = sx_ttl c"
    and look: "\<And>a. mget (sx_entries c') a = keepOut (\<lambda>e. hd (sn_aliases e) \<in> D)
        (if a \<in> set (compactSessionAliases bs)
         then Some \<lparr>sn_authID = authID, sn_expiresAt = now + sx_ttl c, sn_aliases = compactSessionAliases bs\<rparr>
         else keepOut (\<lambda>e. e \<in> expiredOf now c ids \<or> e \<in> sessionsOf now c ids) (mget (sx_entries c) a))"
    and D: "int (length (sx_entries c) + length ids) \<le> sx_maxEntries c \<Longrightarrow> D = {}"
    and bs: "set bs = (set ids - {[]}) \<union> (\<Union>e \<in> sessionsOf now c ids. set (sn_aliases e))" "distinct bs"
      "\<exists>zs. bs = mergeSessionAliases [] ids @ zs"
    by (rule SetAliases_ok [OF c authID ne]) blast
  let ?K = "set (compactSessionAliases bs)"
  have J: "set bs = joined now c ids" using bs(1) by (simp add: joined_def)
  obtain zs ys where "mergeSessionAliases [] ids = i # zs" "bs = (i # zs) @ ys" using merge_first [OF ids] bs(3) by metis
  then have "i \<in> ?K" using compact_first [of bs] by auto
  have without: "live t c' j \<in> {None, (if j \<in> ?K then if t < now + sx_ttl c then Some authID else None
         else if j \<in> joined now c ids then None else live t c j)}
      \<and> (D = {} \<longrightarrow> live t c' j = (if j \<in> ?K then if t < now + sx_ttl c then Some authID else None
         else if j \<in> joined now c ids then None else live t c j))" if t: "now \<le> t" for t j
  proof (cases "j \<in> ?K")
    case True
    then show ?thesis using look [of j] by (auto simp: live_def keepOut_def)
  next
    case K: False
    show ?thesis
    proof (cases "mget (sx_entries c) j")
      case None
      then show ?thesis using look [of j] K by (simp add: live_def)
    next
      case (Some e)
      then have look': "mget (sx_entries c') j = (if hd (sn_aliases e) \<in> D \<or> e \<in> expiredOf now c ids \<or> e \<in> sessionsOf now c ids then None else Some e)"
        using look [of j] K by simp
      have "e \<in> sessionsOf now c ids \<Longrightarrow> j \<in> joined now c ids" using entry_ok [OF ok Some] by (auto simp: joined_def)
      moreover have "e \<in> expiredOf now c ids \<Longrightarrow> live t c j = None" using t Some by (auto simp: live_def expiredOf_def)
      moreover have "e \<in> expiredOf now c ids \<or> e \<in> sessionsOf now c ids" if J: "j \<in> joined now c ids"
      proof -
        consider "j \<in> set ids" | f where "f \<in> sessionsOf now c ids" "j \<in> set (sn_aliases f)" using J by (auto simp: joined_def)
        then show ?thesis
        proof cases
          case 1
          then show ?thesis using Some by (auto simp: sessionsOf_def expiredOf_def)
        next
          case 2
          then obtain k where "mget (sx_entries c) k = Some f" by (auto simp: sessionsOf_def)
          then have "mget (sx_entries c) j = Some f" using entry_ok [OF ok] 2(2) by blast
          then show ?thesis using 2(1) Some by simp
        qed
      qed
      moreover have "live t c' j = (if hd (sn_aliases e) \<in> D \<or> e \<in> expiredOf now c ids \<or> e \<in> sessionsOf now c ids then None else live t c j)"
        by (simp add: live_def look' Some)
      ultimately show ?thesis using K by (cases "j \<in> joined now c ids") auto
    qed
  qed
  show ?thesis
  proof (rule that [OF s(1,2) _ \<open>i \<in> ?K\<close>])
    show "?K = joined now c ids" if "ordinary (joined now c ids)" using compact_ordinary [OF bs(2)] that J by simp
    show "?K \<subseteq> joined now c ids" using compact_subset J by blast
  qed (use without D s in \<open>simp_all add: same_limits_def\<close>)
qed

lemma SetAliases_keeps: "cache_ok c \<Longrightarrow> \<exists>c'. SetAliases now authID ids c = Some c' \<and> cache_ok c'"
proof (cases "authID = [] \<or> set ids - {[]} = {}")
  case False
  assume c: "cache_ok c"
  obtain i is' where "filter (\<lambda>i. i \<noteq> []) ids = i # is'" using False by (cases "filter (\<lambda>i. i \<noteq> []) ids") (auto simp: filter_empty_conv)
  then show ?thesis using SetAliases_live [OF c] False by metis
qed (use SetAliases_nothing in blast)

section \<open>Runs\<close>

inductive cache_step :: "SessionCache \<Rightarrow> SessionCache \<Rightarrow> bool" where
  get: "Get_expire now i c = (r, c') \<Longrightarrow> cache_step c c'"
| refresh: "GetAndRefresh now i c = Some (r, c') \<Longrightarrow> cache_step c c'"
| set_aliases: "SetAliases now authID ids c = Some c' \<Longrightarrow> cache_step c c'"
| touch: "cache_Touch now i authID c = Some (r, c') \<Longrightarrow> cache_step c c'"
| compare: "CompareAndDelete i authID c = Some (r, c') \<Longrightarrow> cache_step c c'"
| invalidate: "cache_Invalidate i c = Some c' \<Longrightarrow> cache_step c c'"
| invalidate_auth: "cache_InvalidateAuth authID c = c' \<Longrightarrow> cache_step c c'"
| cleanup: "cache_cleanup now c = c' \<Longrightarrow> cache_step c c'"

inductive cache_reaches :: "SessionCache \<Rightarrow> bool" where
  start: "cache_reaches (NewSessionCacheWithCapacity ttl maxEntries)"
| step: "cache_reaches c \<Longrightarrow> cache_step c c' \<Longrightarrow> cache_reaches c'"

lemma new_cache_ok: "cache_ok (NewSessionCacheWithCapacity ttl maxEntries)"
  by (auto simp: cache_ok_def groups_ok_def queue_ok_def NewSessionCacheWithCapacity_def defaultMaxSessionEntries_def duration_defs)

lemma step_cache_ok: "cache_step c c' \<Longrightarrow> cache_ok c \<Longrightarrow> cache_ok c'"
proof (induction rule: cache_step.induct)
  case (get now i c r c')
  then show ?case using Get_expire_ok(1) [of c now i] by simp
next
  case (refresh now i c r c')
  then show ?case using GetAndRefresh_ok [of c now i] by auto
next
  case (set_aliases now authID ids c c')
  then show ?case using SetAliases_keeps [of c now authID ids] by auto
next
  case (touch now i authID c r c')
  then show ?case using Touch_ok [of c now i authID] by auto
next
  case (compare i authID c r c')
  then show ?case using CompareAndDelete_ok [of c i authID] by auto
next
  case (invalidate i c c')
  then show ?case using Invalidate_ok [of c i] by auto
qed (use InvalidateAuth_ok(1) cleanup_ok(1) in blast)+

lemma reaches_ok: "cache_reaches c \<Longrightarrow> cache_ok c"
  by (induction rule: cache_reaches.induct) (auto intro: new_cache_ok step_cache_ok)

definition sample_cache :: SessionCache where
  "sample_cache = the (SetAliases 20 ''B'' [''s3''] (the (SetAliases 10 ''A'' [''s1'', ''s2''] (NewSessionCacheWithCapacity 100 4))))"

lemma sample_cache_values:
  "SetAliases 10 ''A'' [''s1'', ''s2''] (NewSessionCacheWithCapacity 100 4)
     = Some (the (SetAliases 10 ''A'' [''s1'', ''s2''] (NewSessionCacheWithCapacity 100 4)))"
  "SetAliases 20 ''B'' [''s3''] (the (SetAliases 10 ''A'' [''s1'', ''s2''] (NewSessionCacheWithCapacity 100 4))) = Some sample_cache"
  "live 30 sample_cache ''s2'' = Some ''A''" "live 30 sample_cache ''s3'' = Some ''B''"
  by code_simp+

lemma sample_cache_reached: "cache_reaches sample_cache"
  using cache_reaches.step [OF cache_reaches.step [OF cache_reaches.start]] cache_step.set_aliases [OF sample_cache_values(1)]
    cache_step.set_aliases [OF sample_cache_values(2)] by blast

section \<open>Properties\<close>

text \<open>C12: the tables of the session cache stay consistent and bounded, and no method loops. In every state a run
  reaches there are at most \<open>maxEntries\<close> identifiers; those of one session share one binding and one deadline, and are at
  most 64 and one prompt-cache key; and every method, the eviction loop included, returns.\<close>

theorem session_cache_consistent:
  assumes "cache_reaches c"
  shows "int (cache_Len c) \<le> sx_maxEntries c
    \<and> (case mget (sx_entries c) i of None \<Rightarrow> True
       | Some e \<Rightarrow> i \<in> set (sn_aliases e) \<and> compact (sn_aliases e) \<and> (\<forall>j \<in> set (sn_aliases e). mget (sx_entries c) j = Some e))
    \<and> SetAliases now authID ids c \<noteq> None \<and> GetAndRefresh now i c \<noteq> None \<and> cache_Touch now i authID c \<noteq> None
    \<and> CompareAndDelete i authID c \<noteq> None \<and> cache_Invalidate i c \<noteq> None"
proof -
  have c: "cache_ok c" using reaches_ok [OF assms] .
  then have "groups_ok c" "int (cache_Len c) \<le> sx_maxEntries c" by (simp_all add: cache_ok_def cache_Len_def)
  moreover have "case mget (sx_entries c) i of None \<Rightarrow> True
       | Some e \<Rightarrow> i \<in> set (sn_aliases e) \<and> compact (sn_aliases e) \<and> (\<forall>j \<in> set (sn_aliases e). mget (sx_entries c) j = Some e)"
  proof (cases "mget (sx_entries c) i")
    case (Some e)
    then show ?thesis using entry_ok [OF \<open>groups_ok c\<close> Some] by (simp add: group_ok_def)
  qed simp
  ultimately show ?thesis
    using SetAliases_keeps [OF c, of now authID ids] GetAndRefresh_ok [OF c, of now i] Touch_ok [OF c, of now i authID]
      CompareAndDelete_ok [OF c, of i authID] Invalidate_ok [OF c, of i] by auto
qed

theorem session_cache_consistent_witness:
  "int (cache_Len sample_cache) \<le> 4 \<and> SetAliases 30 ''B'' [''s1'', ''s3''] sample_cache \<noteq> None"
proof -
  have "sx_maxEntries sample_cache = 4" by code_simp
  then show ?thesis
    using session_cache_consistent [OF sample_cache_reached, of "''s1''" 30 "''B''" "[''s1'', ''s3'']"] by simp
qed



end
