(* ===== verification/PrefixMatcher.thy ===== *)
theory PrefixMatcher
  imports GoString
begin

text \<open>
  The prefix matcher of \<open>sdk/cliproxy/session/lcp.go\<close>: it remembers which credential served a conversation, found again
  by its longest known prefix. A conversation is the list of the fingerprints of its turns; a group is one remembered
  conversation, indexed under the rolling hash of each of its prefixes. Groups are objects that several tables share
  and that a match changes in place, so they stand in a heap and the tables hold their addresses.
\<close>

section \<open>Turns and keys\<close>

record CanonicalPart =
  cp_Kind :: string
  cp_MIME :: string
  cp_Value :: string
  cp_Digest :: string
  cp_OriginalSize :: int
  cp_Sampled :: bool

record CanonicalTurn =
  ct_Role :: string
  ct_Parts :: "CanonicalPart list"

record MatcherEnv =
  mv_Sha256 :: "string \<Rightarrow> string"
  mv_FastTurnFingerprint :: "CanonicalTurn \<Rightarrow> string" \<comment> \<open>regular expressions and SHA-256\<close>

definition canonicalRole :: "string \<Rightarrow> string" where
  "canonicalRole role =
     (let r = ToLower (TrimSpace role) in
      if r = ''system'' \<or> r = ''developer'' then ''system''
      else if r = ''assistant'' \<or> r = ''model'' \<or> r = ''ai'' then ''assistant''
      else if r = ''tool'' \<or> r = ''function'' then ''tool''
      else if r = ''user'' then ''user''
      else r)"

fun first_turn :: "int \<Rightarrow> CanonicalTurn list \<Rightarrow> int" where
  "first_turn index [] = 0"
| "first_turn index (turn # turns) = (if canonicalRole (ct_Role turn) \<noteq> ''system'' then index + 1 else first_turn (index + 1) turns)"

definition minimumAffinityPrefixLength :: "CanonicalTurn list \<Rightarrow> int" where
  "minimumAffinityPrefixLength turns = first_turn 0 turns"

definition hex_char :: "nat \<Rightarrow> char" where
  "hex_char d = (if d < 10 then char_of (48 + d) else char_of (87 + d))"

definition hex_EncodeToString :: "string \<Rightarrow> string" where
  "hex_EncodeToString s = concat (map (\<lambda>c. [hex_char (byte c div 16), hex_char (byte c mod 16)]) s)"

fun rolling :: "MatcherEnv \<Rightarrow> string \<Rightarrow> nat \<Rightarrow> string list \<Rightarrow> string list" where
  "rolling mv previous index [] = []"
| "rolling mv previous index (fingerprint # fingerprints) =
     (let sum = mv_Sha256 mv (previous @ [CHR 0x00] @ fingerprint)
      in (FormatInt (int index + 1) @ '':'' @ hex_EncodeToString sum) # rolling mv sum (index + 1) fingerprints)"

definition rollingPrefixKeys :: "MatcherEnv \<Rightarrow> string list \<Rightarrow> string list" where
  "rollingPrefixKeys mv fingerprints = rolling mv (replicate 32 (CHR 0x00)) 0 fingerprints"

definition sequenceKey :: "MatcherEnv \<Rightarrow> string list \<Rightarrow> string" where
  "sequenceKey mv fingerprints = (let keys = rollingPrefixKeys mv fingerprints in if keys = [] then [] else last keys)"

definition newLCPSessionID :: "MatcherEnv \<Rightarrow> string \<Rightarrow> string \<Rightarrow> string" where
  "newLCPSessionID mv namespace firstPrefix =
     ''lcp:v1:'' @ hex_EncodeToString
       (mv_Sha256 mv (''cli-proxy-api:lcp-session:v1'' @ [CHR 0x00] @ namespace @ [CHR 0x00] @ firstPrefix))"

section \<open>The state\<close>

record lcpGroup =
  lg_key :: string
  lg_namespace :: string
  lg_authID :: string
  lg_sessionID :: string
  lg_parentSessionID :: string
  lg_minPrefixLength :: int
  lg_fingerprints :: "string list"
  lg_prefixKeys :: "string list"
  lg_expiresAt :: time
  lg_lastAccessNumber :: int

type_synonym address = nat

record lcpNamespace =
  ln_groups :: "(string, address) gomap"
  ln_prefixes :: "(string, (string, address) gomap) gomap"

text \<open>
  A group is queued once, when it is added: \<open>mx_lru\<close> lists the addresses, and the element that \<open>lruElements\<close> has for
  a group is its only occurrence. A group that no table holds any more stays in \<open>mx_heap\<close>.
\<close>

record MerklePrefixMatcher =
  mx_ttl :: duration
  mx_maxTurns :: int
  mx_maxGroups :: int
  mx_maxPrefixes :: int
  mx_groups :: "(string, lcpNamespace) gomap"
  mx_heap :: "(address, lcpGroup) gomap"
  mx_fresh :: address
  mx_lru :: "address list"
  mx_groupCount :: int
  mx_prefixCount :: int
  mx_accessCounter :: int
  mx_operations :: int

record MerklePrefixMatcherConfig =
  mc_TTL :: duration
  mc_MaxTurns :: int
  mc_MaxGroups :: int
  mc_MaxPrefixes :: int

definition defaultMatcherMaxTurns :: int where "defaultMatcherMaxTurns = 1024"
definition defaultMatcherMaxGroups :: int where "defaultMatcherMaxGroups = 4096"
definition defaultMatcherMaxPrefixes :: int where "defaultMatcherMaxPrefixes = 262144"

definition NewMerklePrefixMatcherWithConfig :: "MerklePrefixMatcherConfig \<Rightarrow> MerklePrefixMatcher" where
  "NewMerklePrefixMatcherWithConfig cfg =
     (let maxTurns = (if mc_MaxTurns cfg \<le> 0 then defaultMatcherMaxTurns else mc_MaxTurns cfg);
          maxPrefixes = (if mc_MaxPrefixes cfg \<le> 0 then defaultMatcherMaxPrefixes else mc_MaxPrefixes cfg)
      in \<lparr>mx_ttl = (if mc_TTL cfg \<le> 0 then hour else mc_TTL cfg), mx_maxTurns = maxTurns,
          mx_maxGroups = (if mc_MaxGroups cfg \<le> 0 then defaultMatcherMaxGroups else mc_MaxGroups cfg),
          mx_maxPrefixes = (if maxPrefixes < maxTurns then maxTurns else maxPrefixes),
          mx_groups = [], mx_heap = [], mx_fresh = 0, mx_lru = [], mx_groupCount = 0, mx_prefixCount = 0,
          mx_accessCounter = 0, mx_operations = 0\<rparr>)"

definition NewMerklePrefixMatcher :: "duration \<Rightarrow> MerklePrefixMatcher" where
  "NewMerklePrefixMatcher ttl =
     NewMerklePrefixMatcherWithConfig \<lparr>mc_TTL = ttl, mc_MaxTurns = 0, mc_MaxGroups = 0, mc_MaxPrefixes = 0\<rparr>"

definition mx_fingerprints :: "MatcherEnv \<Rightarrow> MerklePrefixMatcher \<Rightarrow> CanonicalTurn list \<Rightarrow> string list" where
  "mx_fingerprints mv m turns = map (mv_FastTurnFingerprint mv) (take (nat (mx_maxTurns m)) turns)"

definition Prepare :: "MatcherEnv \<Rightarrow> MerklePrefixMatcher \<Rightarrow> CanonicalTurn list \<Rightarrow> string list \<times> int" where
  "Prepare mv m turns = (mx_fingerprints mv m turns, minimumAffinityPrefixLength turns)"

definition sanitizeFingerprints :: "MerklePrefixMatcher \<Rightarrow> string list \<Rightarrow> int \<Rightarrow> (string list \<times> int) option" where
  "sanitizeFingerprints m fingerprints minPrefixLength =
     (if fingerprints = [] \<or> minPrefixLength \<le> 0 \<or> minPrefixLength > int (length fingerprints) then None
      else (let maxTurns = (if mx_maxTurns m \<le> 0 then defaultMatcherMaxTurns else mx_maxTurns m) in
        if int (length fingerprints) > maxTurns
        then (let fs = take (nat maxTurns) fingerprints in
              if minPrefixLength > int (length fs) then None else Some (fs, minPrefixLength))
        else Some (fingerprints, minPrefixLength)))"

section \<open>Groups in the tables\<close>

definition groupAt :: "MerklePrefixMatcher \<Rightarrow> address \<Rightarrow> lcpGroup" where
  "groupAt m a = the (mget (mx_heap m) a)"

definition onGroup :: "address \<Rightarrow> (lcpGroup \<Rightarrow> lcpGroup) \<Rightarrow> MerklePrefixMatcher \<Rightarrow> MerklePrefixMatcher" where
  "onGroup a f m = m\<lparr>mx_heap := mput a (f (groupAt m a)) (mx_heap m)\<rparr>"

definition emptyNamespace :: lcpNamespace where
  "emptyNamespace = \<lparr>ln_groups = [], ln_prefixes = []\<rparr>"

definition namespaceLocked :: "string \<Rightarrow> MerklePrefixMatcher \<Rightarrow> MerklePrefixMatcher" where
  "namespaceLocked namespace m =
     (case mget (mx_groups m) namespace of None \<Rightarrow> m\<lparr>mx_groups := mput namespace emptyNamespace (mx_groups m)\<rparr> | Some _ \<Rightarrow> m)"

definition nextAccessNumberLocked :: "MerklePrefixMatcher \<Rightarrow> int \<times> MerklePrefixMatcher" where
  "nextAccessNumberLocked m = (mx_accessCounter m + 1, m\<lparr>mx_accessCounter := mx_accessCounter m + 1\<rparr>)"

definition moveToBack :: "address \<Rightarrow> MerklePrefixMatcher \<Rightarrow> MerklePrefixMatcher" where
  "moveToBack a m = (if a \<in> set (mx_lru m) then m\<lparr>mx_lru := removeAll a (mx_lru m) @ [a]\<rparr> else m)"

definition forgetPrefix :: "string \<Rightarrow> string \<Rightarrow> (string, (string, address) gomap) gomap \<Rightarrow> (string, (string, address) gomap) gomap" where
  "forgetPrefix key pfx prefixes =
     (case mget prefixes pfx of
        None \<Rightarrow> prefixes
      | Some bucket \<Rightarrow> (let bucket' = mdel key bucket in if bucket' = [] then mdel pfx prefixes else mput pfx bucket' prefixes))"

definition removeGroupLocked :: "address \<Rightarrow> MerklePrefixMatcher \<Rightarrow> MerklePrefixMatcher" where
  "removeGroupLocked a m =
     (let g = groupAt m a;
          groups = (case mget (mx_groups m) (lg_namespace g) of
              None \<Rightarrow> mx_groups m
            | Some ns \<Rightarrow>
                (let ns' = \<lparr>ln_groups = (if mget (ln_groups ns) (lg_key g) = Some a then mdel (lg_key g) (ln_groups ns) else ln_groups ns),
                            ln_prefixes = fold (forgetPrefix (lg_key g)) (lg_prefixKeys g) (ln_prefixes ns)\<rparr>
                 in if ln_groups ns' = [] then mdel (lg_namespace g) (mx_groups m) else mput (lg_namespace g) ns' (mx_groups m)));
          n = int (length (lg_prefixKeys g))
      in m\<lparr>mx_groups := groups, mx_lru := removeAll a (mx_lru m),
           mx_groupCount := (if mx_groupCount m > 0 then mx_groupCount m - 1 else mx_groupCount m),
           mx_prefixCount := (if mx_prefixCount m \<ge> n then mx_prefixCount m - n else 0)\<rparr>)"

definition indexPrefix :: "string \<Rightarrow> address \<Rightarrow> string \<Rightarrow> (string, (string, address) gomap) gomap \<Rightarrow> (string, (string, address) gomap) gomap" where
  "indexPrefix key a pfx prefixes = mput pfx (mput key a (mgetd [] prefixes pfx)) prefixes"

function evictGroups :: "MerklePrefixMatcher \<Rightarrow> MerklePrefixMatcher" where
  "evictGroups m =
     (if mx_groupCount m > mx_maxGroups m \<or> mx_prefixCount m > mx_maxPrefixes m
      then (case mx_lru m of [] \<Rightarrow> m | oldest # _ \<Rightarrow> evictGroups (removeGroupLocked oldest m))
      else m)"
  by pat_completeness auto

termination
  by (relation "measure (\<lambda>m. length (mx_lru m))") (auto simp: removeGroupLocked_def Let_def le_imp_less_Suc length_removeAll_less_eq)

declare evictGroups.simps [simp del]

definition addGroupLocked :: "MatcherEnv \<Rightarrow> lcpGroup \<Rightarrow> MerklePrefixMatcher \<Rightarrow> address \<times> MerklePrefixMatcher" where
  \<comment> \<open>\<open>group\<close> is freshly made; its address is returned\<close>
  "addGroupLocked mv g0 m0 =
     (let m = namespaceLocked (lg_namespace g0) m0;
          a = mx_fresh m;
          ns = mgetd emptyNamespace (mx_groups m) (lg_namespace g0);
          g1 = (if lg_prefixKeys g0 = [] then g0\<lparr>lg_prefixKeys := rollingPrefixKeys mv (lg_fingerprints g0)\<rparr> else g0);
          ns' = \<lparr>ln_groups = mput (lg_key g1) a (ln_groups ns),
                 ln_prefixes = fold (indexPrefix (lg_key g1) a) (lg_prefixKeys g1) (ln_prefixes ns)\<rparr>
      in case nextAccessNumberLocked m of (n, m1) \<Rightarrow>
         (a, evictGroups (m1\<lparr>mx_heap := mput a (g1\<lparr>lg_lastAccessNumber := n\<rparr>) (mx_heap m1), mx_fresh := a + 1,
              mx_groups := mput (lg_namespace g0) ns' (mx_groups m1), mx_lru := mx_lru m1 @ [a],
              mx_groupCount := mx_groupCount m1 + 1, mx_prefixCount := mx_prefixCount m1 + int (length (lg_prefixKeys g1))\<rparr>)))"

section \<open>Matching\<close>

definition matches :: "string list \<Rightarrow> time \<Rightarrow> lcpGroup \<Rightarrow> bool" where
  \<comment> \<open>the opposite of the condition that \<open>newestMatchingGroup\<close> skips a group on\<close>
  "matches fingerprints now g \<longleftrightarrow> Before now (lg_expiresAt g) \<and> lg_minPrefixLength g \<le> int (length fingerprints)
     \<and> length fingerprints \<le> length (lg_fingerprints g) \<and> take (length fingerprints) (lg_fingerprints g) = fingerprints"

definition newerGroup :: "lcpGroup \<Rightarrow> lcpGroup \<Rightarrow> bool" where
  "newerGroup g best \<longleftrightarrow> length (lg_fingerprints g) > length (lg_fingerprints best)
     \<or> (length (lg_fingerprints g) = length (lg_fingerprints best)
        \<and> (lg_lastAccessNumber g > lg_lastAccessNumber best
           \<or> (lg_lastAccessNumber g = lg_lastAccessNumber best \<and> After (lg_expiresAt g) (lg_expiresAt best))))"

definition newestMatchingGroup :: "MerklePrefixMatcher \<Rightarrow> (string, address) gomap \<Rightarrow> string list \<Rightarrow> time \<Rightarrow> address option" where
  "newestMatchingGroup m bucket fingerprints now =
     fold (\<lambda>(_, a) best.
       if \<not> matches fingerprints now (groupAt m a) then best
       else (case best of None \<Rightarrow> Some a | Some b \<Rightarrow> if newerGroup (groupAt m a) (groupAt m b) then Some a else best)) bucket None"

function matchLoop :: "(int \<Rightarrow> address option) \<Rightarrow> int \<Rightarrow> int \<Rightarrow> (address \<times> int) option \<Rightarrow> (address \<times> int) option" where
  "matchLoop candidate low high best =
     (if low \<le> high then
        (let middle = low + (high - low) div 2 in
         case candidate middle of
           None \<Rightarrow> matchLoop candidate low (middle - 1) best
         | Some a \<Rightarrow> matchLoop candidate (middle + 1) high (Some (a, middle)))
      else best)"
  by pat_completeness auto

termination
  by (relation "measure (\<lambda>(_, low, high, _). nat (high - low + 1))") auto

declare matchLoop.simps [simp del]

record MerklePrefixMatch =
  mm_AuthID :: string
  mm_SessionID :: string
  mm_ParentSessionID :: string
  mm_PrefixLength :: int
  mm_IsFork :: bool
  mm_AccessNumber :: int

definition matchCandidate :: "MatcherEnv \<Rightarrow> MerklePrefixMatcher \<Rightarrow> lcpNamespace \<Rightarrow> string list \<Rightarrow> time \<Rightarrow> int \<Rightarrow> address option" where
  "matchCandidate mv m ns fingerprints now middle =
     newestMatchingGroup m (mgetd [] (ln_prefixes ns) (rollingPrefixKeys mv fingerprints ! nat (middle - 1)))
       (take (nat middle) fingerprints) now"

definition matchLocked ::
  "MatcherEnv \<Rightarrow> string \<Rightarrow> string list \<Rightarrow> int \<Rightarrow> time \<Rightarrow> MerklePrefixMatcher \<Rightarrow> MerklePrefixMatch option \<times> MerklePrefixMatcher" where
  "matchLocked mv namespace fingerprints minPrefixLength now m =
     (case mget (mx_groups m) namespace of
        None \<Rightarrow> (None, m)
      | Some ns \<Rightarrow>
          if fingerprints = [] \<or> minPrefixLength \<le> 0 \<or> minPrefixLength > int (length fingerprints) then (None, m)
          else (case matchLoop (matchCandidate mv m ns fingerprints now) minPrefixLength (int (length fingerprints)) None of
              None \<Rightarrow> (None, m)
            | Some (a, bestLength) \<Rightarrow>
                (case nextAccessNumberLocked m of (n, m1) \<Rightarrow>
                 let m2 = moveToBack a (onGroup a (\<lambda>g. g\<lparr>lg_expiresAt := now + mx_ttl m, lg_lastAccessNumber := n\<rparr>) m1);
                     best = groupAt m2 a;
                     keys = rollingPrefixKeys mv fingerprints;
                     isFork = (bestLength < int (length (lg_fingerprints best)) \<and> int (length fingerprints) > bestLength)
                 in (Some \<lparr>mm_AuthID = lg_authID best,
                       mm_SessionID = (if isFork then newLCPSessionID mv namespace (keys ! nat bestLength) else lg_sessionID best),
                       mm_ParentSessionID = (if isFork then newLCPSessionID mv namespace (keys ! nat (bestLength - 1)) else lg_parentSessionID best),
                       mm_PrefixLength = bestLength, mm_IsFork = isFork, mm_AccessNumber = lg_lastAccessNumber best\<rparr>, m2))))"

section \<open>Binding\<close>

record MerklePrefixBindResult =
  br_SessionID :: string
  br_ParentSessionID :: string
  br_IsFork :: bool
  br_AccessNumber :: int

definition bindNew ::
  "MatcherEnv \<Rightarrow> string \<Rightarrow> string list \<Rightarrow> int \<Rightarrow> string \<Rightarrow> time \<Rightarrow> MerklePrefixMatcher \<Rightarrow> MerklePrefixBindResult \<times> MerklePrefixMatcher" where
  \<comment> \<open>\<open>bindLocked\<close> for a sequence that has no live group\<close>
  "bindNew mv namespace fingerprints minPrefixLength authID now m =
     (case matchLocked mv namespace fingerprints minPrefixLength now m of (match, m1) \<Rightarrow>
      let keys = rollingPrefixKeys mv fingerprints;
          matched = (case match of None \<Rightarrow> ([], [], False) | Some r \<Rightarrow> (mm_SessionID r, mm_ParentSessionID r, mm_IsFork r));
          targetIndex = (if minPrefixLength > 0 \<and> minPrefixLength \<le> int (length keys) then nat (minPrefixLength - 1) else 0);
          firstKey = (if keys = [] then [] else keys ! targetIndex);
          sessionID = (if fst matched = [] then newLCPSessionID mv namespace firstKey else fst matched);
          createdGroup = \<lparr>lg_key = sequenceKey mv fingerprints, lg_namespace = namespace, lg_authID = authID, lg_sessionID = sessionID,
            lg_parentSessionID = fst (snd matched), lg_minPrefixLength = minPrefixLength, lg_fingerprints = fingerprints,
            lg_prefixKeys = keys, lg_expiresAt = now + mx_ttl m1, lg_lastAccessNumber = 0\<rparr>
      in case addGroupLocked mv createdGroup m1 of (a, m2) \<Rightarrow>
         (\<lparr>br_SessionID = sessionID, br_ParentSessionID = fst (snd matched), br_IsFork = snd (snd matched),
           br_AccessNumber = lg_lastAccessNumber (groupAt m2 a)\<rparr>, m2))"

definition bindLocked ::
  "MatcherEnv \<Rightarrow> string \<Rightarrow> string list \<Rightarrow> int \<Rightarrow> string \<Rightarrow> time \<Rightarrow> MerklePrefixMatcher \<Rightarrow> MerklePrefixBindResult \<times> MerklePrefixMatcher" where
  "bindLocked mv namespace fingerprints minPrefixLength authID now m0 =
     (let m = namespaceLocked namespace m0;
          ns = mgetd emptyNamespace (mx_groups m) namespace;
          key = sequenceKey mv fingerprints
      in case mget (ln_groups ns) key of
           None \<Rightarrow> bindNew mv namespace fingerprints minPrefixLength authID now m
         | Some existing \<Rightarrow>
             (let g = groupAt m existing; m1 = removeGroupLocked existing m in
              if Before now (lg_expiresAt g)
              then (let reboundGroup = \<lparr>lg_key = key, lg_namespace = namespace, lg_authID = authID, lg_sessionID = lg_sessionID g,
                      lg_parentSessionID = lg_parentSessionID g, lg_minPrefixLength = minPrefixLength, lg_fingerprints = fingerprints,
                      lg_prefixKeys = lg_prefixKeys g, lg_expiresAt = now + mx_ttl m1, lg_lastAccessNumber = 0\<rparr>
                    in case addGroupLocked mv reboundGroup m1 of (a, m2) \<Rightarrow>
                       (\<lparr>br_SessionID = lg_sessionID g, br_ParentSessionID = lg_parentSessionID g,
                         br_IsFork = (lg_parentSessionID g \<noteq> []), br_AccessNumber = lg_lastAccessNumber (groupAt m2 a)\<rparr>, m2))
              else bindNew mv namespace fingerprints minPrefixLength authID now m1))"

definition touchLocked ::
  "MatcherEnv \<Rightarrow> string \<Rightarrow> string list \<Rightarrow> int \<Rightarrow> string \<Rightarrow> time \<Rightarrow> MerklePrefixMatcher \<Rightarrow> bool \<times> MerklePrefixMatcher" where
  "touchLocked mv namespace fingerprints minPrefixLength authID now m0 =
     (let m = namespaceLocked namespace m0;
          ns = mgetd emptyNamespace (mx_groups m) namespace
      in case mget (ln_groups ns) (sequenceKey mv fingerprints) of
           None \<Rightarrow> (True, snd (bindLocked mv namespace fingerprints minPrefixLength authID now m))
         | Some existing \<Rightarrow>
             if \<not> Before now (lg_expiresAt (groupAt m existing))
             then (True, snd (bindLocked mv namespace fingerprints minPrefixLength authID now (removeGroupLocked existing m)))
             else if lg_authID (groupAt m existing) \<noteq> authID then (False, m)
             else (case nextAccessNumberLocked m of (n, m1) \<Rightarrow>
               (True, moveToBack existing (onGroup existing (\<lambda>g. g\<lparr>lg_expiresAt := now + mx_ttl m, lg_lastAccessNumber := n\<rparr>) m1))))"

section \<open>The methods\<close>

definition liveAddresses :: "MerklePrefixMatcher \<Rightarrow> address list" where
  \<comment> \<open>the groups that the two nested loops over the namespaces visit\<close>
  "liveAddresses m = concat (map (\<lambda>(_, ns). map snd (ln_groups ns)) (mx_groups m))"

definition removeIf :: "(lcpGroup \<Rightarrow> bool) \<Rightarrow> MerklePrefixMatcher \<Rightarrow> MerklePrefixMatcher" where
  "removeIf P m = fold (\<lambda>a m. if P (groupAt m a) then removeGroupLocked a m else m) (liveAddresses m) m"

definition mx_cleanupLocked :: "time \<Rightarrow> MerklePrefixMatcher \<Rightarrow> MerklePrefixMatcher" where
  "mx_cleanupLocked now m = removeIf (\<lambda>g. \<not> Before now (lg_expiresAt g)) m"

definition prepareLocked :: "time \<Rightarrow> MerklePrefixMatcher \<Rightarrow> MerklePrefixMatcher" where
  "prepareLocked now m0 =
     (let m = m0\<lparr>mx_operations := mx_operations m0 + 1\<rparr> in if mx_operations m mod 128 = 0 then mx_cleanupLocked now m else m)"

text \<open>Each method reads the clock in \<open>prepareLocked\<close> and again for itself; \<open>clock\<close> has the two readings.\<close>

definition MatchFingerprints ::
  "MatcherEnv \<Rightarrow> time \<times> time \<Rightarrow> string \<Rightarrow> string list \<Rightarrow> int \<Rightarrow> MerklePrefixMatcher \<Rightarrow> MerklePrefixMatch option \<times> MerklePrefixMatcher" where
  "MatchFingerprints mv clock namespace fingerprints minPrefixLength m =
     (if namespace = [] then (None, m)
      else (case sanitizeFingerprints m fingerprints minPrefixLength of
              None \<Rightarrow> (None, m)
            | Some (fs, n) \<Rightarrow> matchLocked mv namespace fs n (snd clock) (prepareLocked (fst clock) m)))"

definition zeroBindResult :: MerklePrefixBindResult where
  "zeroBindResult = \<lparr>br_SessionID = [], br_ParentSessionID = [], br_IsFork = False, br_AccessNumber = 0\<rparr>"

definition BindFingerprintsWithResult ::
  "MatcherEnv \<Rightarrow> time \<times> time \<Rightarrow> string \<Rightarrow> string list \<Rightarrow> int \<Rightarrow> string \<Rightarrow> MerklePrefixMatcher \<Rightarrow> MerklePrefixBindResult \<times> MerklePrefixMatcher" where
  "BindFingerprintsWithResult mv clock namespace fingerprints minPrefixLength authID m =
     (if TrimSpace namespace = [] \<or> TrimSpace authID = [] then (zeroBindResult, m)
      else (case sanitizeFingerprints m fingerprints minPrefixLength of
              None \<Rightarrow> (zeroBindResult, m)
            | Some (fs, n) \<Rightarrow> bindLocked mv namespace fs n (TrimSpace authID) (snd clock) (prepareLocked (fst clock) m)))"

definition TouchFingerprints ::
  "MatcherEnv \<Rightarrow> time \<times> time \<Rightarrow> string \<Rightarrow> string list \<Rightarrow> int \<Rightarrow> string \<Rightarrow> MerklePrefixMatcher \<Rightarrow> bool \<times> MerklePrefixMatcher" where
  "TouchFingerprints mv clock namespace fingerprints minPrefixLength authID m =
     (if TrimSpace namespace = [] \<or> TrimSpace authID = [] then (False, m)
      else (case sanitizeFingerprints m fingerprints minPrefixLength of
              None \<Rightarrow> (False, m)
            | Some (fs, n) \<Rightarrow> touchLocked mv namespace fs n (TrimSpace authID) (snd clock) (prepareLocked (fst clock) m)))"

definition RemoveFingerprintsBefore ::
  "MatcherEnv \<Rightarrow> time \<Rightarrow> string \<Rightarrow> string list \<Rightarrow> string \<Rightarrow> int \<Rightarrow> MerklePrefixMatcher \<Rightarrow> bool \<times> MerklePrefixMatcher" where
  "RemoveFingerprintsBefore mv now namespace fingerprints authID maxGeneration m0 =
     (if namespace = [] \<or> authID = [] \<or> fingerprints = [] then (False, m0)
      else (let maxTurns = (if mx_maxTurns m0 \<le> 0 then defaultMatcherMaxTurns else mx_maxTurns m0);
                fs = (if int (length fingerprints) > maxTurns then take (nat maxTurns) fingerprints else fingerprints);
                m = prepareLocked now m0
            in case mget (mx_groups m) namespace of
                 None \<Rightarrow> (False, m)
               | Some ns \<Rightarrow>
                   if rollingPrefixKeys mv fs = [] then (False, m)
                   else (case mget (ln_groups ns) (last (rollingPrefixKeys mv fs)) of
                       None \<Rightarrow> (False, m)
                     | Some a \<Rightarrow>
                         if lg_authID (groupAt m a) \<noteq> authID then (False, m)
                         else if maxGeneration > 0 \<and> lg_lastAccessNumber (groupAt m a) > maxGeneration then (False, m)
                         else (True, removeGroupLocked a m))))"

definition RemoveFingerprints ::
  "MatcherEnv \<Rightarrow> time \<Rightarrow> string \<Rightarrow> string list \<Rightarrow> string \<Rightarrow> MerklePrefixMatcher \<Rightarrow> bool \<times> MerklePrefixMatcher" where
  "RemoveFingerprints mv now namespace fingerprints authID m = RemoveFingerprintsBefore mv now namespace fingerprints authID 0 m"

definition mx_Match ::
  "MatcherEnv \<Rightarrow> time \<times> time \<Rightarrow> string \<Rightarrow> CanonicalTurn list \<Rightarrow> MerklePrefixMatcher \<Rightarrow> MerklePrefixMatch option \<times> MerklePrefixMatcher" where
  "mx_Match mv clock namespace turns m =
     (case Prepare mv m turns of (fingerprints, n) \<Rightarrow> MatchFingerprints mv clock namespace fingerprints n m)"

definition BindWithResult ::
  "MatcherEnv \<Rightarrow> time \<times> time \<Rightarrow> string \<Rightarrow> CanonicalTurn list \<Rightarrow> string \<Rightarrow> MerklePrefixMatcher \<Rightarrow> MerklePrefixBindResult \<times> MerklePrefixMatcher" where
  "BindWithResult mv clock namespace turns authID m =
     (case Prepare mv m turns of (fingerprints, n) \<Rightarrow> BindFingerprintsWithResult mv clock namespace fingerprints n authID m)"

definition BindFingerprints ::
  "MatcherEnv \<Rightarrow> time \<times> time \<Rightarrow> string \<Rightarrow> string list \<Rightarrow> int \<Rightarrow> string \<Rightarrow> MerklePrefixMatcher \<Rightarrow> string \<times> MerklePrefixMatcher" where
  "BindFingerprints mv clock namespace fingerprints n authID m =
     (case BindFingerprintsWithResult mv clock namespace fingerprints n authID m of (r, m') \<Rightarrow> (br_SessionID r, m'))"

definition mx_Bind ::
  "MatcherEnv \<Rightarrow> time \<times> time \<Rightarrow> string \<Rightarrow> CanonicalTurn list \<Rightarrow> string \<Rightarrow> MerklePrefixMatcher \<Rightarrow> string \<times> MerklePrefixMatcher" where
  "mx_Bind mv clock namespace turns authID m =
     (case Prepare mv m turns of (fingerprints, n) \<Rightarrow> BindFingerprints mv clock namespace fingerprints n authID m)"

definition mx_Touch ::
  "MatcherEnv \<Rightarrow> time \<times> time \<Rightarrow> string \<Rightarrow> CanonicalTurn list \<Rightarrow> string \<Rightarrow> MerklePrefixMatcher \<Rightarrow> bool \<times> MerklePrefixMatcher" where
  "mx_Touch mv clock namespace turns authID m =
     (case Prepare mv m turns of (fingerprints, n) \<Rightarrow> TouchFingerprints mv clock namespace fingerprints n authID m)"

definition mx_Remove ::
  "MatcherEnv \<Rightarrow> time \<Rightarrow> string \<Rightarrow> CanonicalTurn list \<Rightarrow> string \<Rightarrow> MerklePrefixMatcher \<Rightarrow> bool \<times> MerklePrefixMatcher" where
  "mx_Remove mv now namespace turns authID m =
     (case Prepare mv m turns of (fingerprints, _) \<Rightarrow> RemoveFingerprints mv now namespace fingerprints authID m)"

definition mx_InvalidateAuth :: "string \<Rightarrow> MerklePrefixMatcher \<Rightarrow> MerklePrefixMatcher" where
  "mx_InvalidateAuth authID m = (if authID = [] then m else removeIf (\<lambda>g. lg_authID g = authID) m)"

definition mx_Clear :: "MerklePrefixMatcher \<Rightarrow> MerklePrefixMatcher" where
  \<comment> \<open>the access counter goes on\<close>
  "mx_Clear m = m\<lparr>mx_groups := [], mx_lru := [], mx_groupCount := 0, mx_prefixCount := 0\<rparr>"

end
