(* ===== verification/PrefixMatcherInv.thy ===== *)
theory PrefixMatcherInv
  imports PrefixMatcher
begin

text \<open>
  The tables of the prefix matcher: the index of prefixes agrees with the table of groups, every group is queued once
  and in the order of its last access, and the counters count. \<open>sys\<close> tells the fingerprints of system turns, and \<open>S\<close> are
  the conversations that are bound; that the rolling hash does not collide on them is the assumption under which a
  key stands for its conversation.
\<close>

section \<open>Prefixes\<close>

definition boundary :: "(string \<Rightarrow> bool) \<Rightarrow> string list \<Rightarrow> int" where
  \<comment> \<open>the length of the shortest prefix that has more than system turns\<close>
  "boundary sys fs = int (length (takeWhile sys fs)) + 1"

lemma takeWhile_take:
  assumes "take n fs = take n gs" and "length (takeWhile sys fs) < n" and "length (takeWhile sys fs) < length fs"
  shows "takeWhile sys gs = takeWhile sys fs"
  using assms
proof (induction fs arbitrary: gs n)
  case (Cons f fs)
  then obtain k where n: "n = Suc k" by (cases n) auto
  obtain g gs' where gs: "gs = g # gs'" "g = f" "take k fs = take k gs'" using Cons.prems(1) n by (cases gs) auto
  show ?case
  proof (cases "sys f")
    case True
    then have "length (takeWhile sys fs) < k" "length (takeWhile sys fs) < length fs" using Cons.prems(2,3) n by simp_all
    from Cons.IH [OF gs(3) this] show ?thesis using gs True by simp
  qed (simp add: gs)
qed simp

lemma boundary_prefix:
  assumes "take n fs = take n gs" and "boundary sys fs \<le> int n" and "boundary sys fs \<le> int (length fs)"
  shows "boundary sys gs = boundary sys fs"
  using takeWhile_take [OF assms(1), of sys] assms(2,3) by (simp add: boundary_def)

lemma boundary_take:
  assumes "boundary sys fs \<le> int n" and "boundary sys fs \<le> int (length fs)"
  shows "boundary sys (take n fs) = boundary sys fs"
  by (rule boundary_prefix [of n]) (use assms in simp_all)

lemma length_rolling [simp]: "length (rolling mv p i fs) = length fs"
  by (induction fs arbitrary: p i) (simp_all add: Let_def)

lemma take_rolling: "rolling mv p i (take n fs) = take n (rolling mv p i fs)"
  by (induction fs arbitrary: p i n) (auto simp: Let_def take_Cons split: nat.split)

lemma length_keys [simp]: "length (rollingPrefixKeys mv fs) = length fs"
  by (simp add: rollingPrefixKeys_def)

lemma keys_prefix:
  assumes "take n fs = take n gs" and "k < n" and "n \<le> length fs" and "n \<le> length gs"
  shows "rollingPrefixKeys mv fs ! k = rollingPrefixKeys mv gs ! k"
proof -
  have "take n (rollingPrefixKeys mv fs) = take n (rollingPrefixKeys mv gs)"
    by (simp add: rollingPrefixKeys_def take_rolling [symmetric] assms(1))
  then show ?thesis using assms(2) by (metis nth_take)
qed

section \<open>The tables\<close>

definition tbl :: "MerklePrefixMatcher \<Rightarrow> string \<Rightarrow> string \<Rightarrow> address option" where
  "tbl m nm key = (case mget (mx_groups m) nm of None \<Rightarrow> None | Some ns \<Rightarrow> mget (ln_groups ns) key)"

definition inBucket :: "(string, (string, address) gomap) gomap \<Rightarrow> string \<Rightarrow> string \<Rightarrow> address option" where
  "inBucket prefixes p key = (case mget prefixes p of None \<Rightarrow> None | Some b \<Rightarrow> mget b key)"

definition bkt :: "MerklePrefixMatcher \<Rightarrow> string \<Rightarrow> string \<Rightarrow> string \<Rightarrow> address option" where
  "bkt m nm p key = (case mget (mx_groups m) nm of None \<Rightarrow> None | Some ns \<Rightarrow> inBucket (ln_prefixes ns) p key)"

definition namespaces_wf :: "MerklePrefixMatcher \<Rightarrow> bool" where
  "namespaces_wf m \<longleftrightarrow> mwf (mx_groups m) \<and> (\<forall>nm ns. mget (mx_groups m) nm = Some ns \<longrightarrow>
     mwf (ln_groups ns) \<and> mwf (ln_prefixes ns) \<and> (\<forall>p b. mget (ln_prefixes ns) p = Some b \<longrightarrow> mwf b))"

definition group_wf :: "MatcherEnv \<Rightarrow> string list set \<Rightarrow> (string \<Rightarrow> bool) \<Rightarrow> lcpGroup \<Rightarrow> bool" where
  "group_wf mv S sys g \<longleftrightarrow> lg_fingerprints g \<in> S \<and> lg_key g = sequenceKey mv (lg_fingerprints g)
     \<and> lg_prefixKeys g = rollingPrefixKeys mv (lg_fingerprints g) \<and> lg_authID g \<noteq> []
     \<and> lg_minPrefixLength g = boundary sys (lg_fingerprints g) \<and> lg_minPrefixLength g \<le> int (length (lg_fingerprints g))"

definition access :: "MerklePrefixMatcher \<Rightarrow> address \<Rightarrow> int" where
  "access m a = lg_lastAccessNumber (groupAt m a)"

definition queued :: "MatcherEnv \<Rightarrow> string list set \<Rightarrow> (string \<Rightarrow> bool) \<Rightarrow> MerklePrefixMatcher \<Rightarrow> address \<Rightarrow> bool" where
  "queued mv S sys m a \<longleftrightarrow> a < mx_fresh m \<and> group_wf mv S sys (groupAt m a) \<and> access m a \<le> mx_accessCounter m
     \<and> tbl m (lg_namespace (groupAt m a)) (lg_key (groupAt m a)) = Some a"

definition tables_ok :: "MatcherEnv \<Rightarrow> string list set \<Rightarrow> (string \<Rightarrow> bool) \<Rightarrow> MerklePrefixMatcher \<Rightarrow> bool" where
  "tables_ok mv S sys m \<longleftrightarrow> namespaces_wf m
     \<and> (\<forall>a \<in> set (mx_lru m). queued mv S sys m a)
     \<and> (\<forall>nm key a. tbl m nm key = Some a \<longrightarrow> a \<in> set (mx_lru m) \<and> lg_namespace (groupAt m a) = nm \<and> lg_key (groupAt m a) = key)
     \<and> (\<forall>nm p key a. bkt m nm p key = Some a \<longleftrightarrow> tbl m nm key = Some a \<and> p \<in> set (lg_prefixKeys (groupAt m a)))
     \<and> sorted_wrt (<) (map (access m) (mx_lru m)) \<and> distinct (mx_lru m)
     \<and> mx_groupCount m = int (length (mx_lru m))
     \<and> mx_prefixCount m = (\<Sum>a\<leftarrow>mx_lru m. int (length (lg_prefixKeys (groupAt m a))))
     \<and> 0 < mx_maxTurns m \<and> 0 < mx_maxGroups m \<and> mx_maxTurns m \<le> mx_maxPrefixes m \<and> 0 < mx_ttl m"

definition matcher_ok :: "MatcherEnv \<Rightarrow> string list set \<Rightarrow> (string \<Rightarrow> bool) \<Rightarrow> MerklePrefixMatcher \<Rightarrow> bool" where
  "matcher_ok mv S sys m \<longleftrightarrow> tables_ok mv S sys m \<and> mx_groupCount m \<le> mx_maxGroups m \<and> mx_prefixCount m \<le> mx_maxPrefixes m"

lemma tables_okD:
  assumes "tables_ok mv S sys m"
  shows "namespaces_wf m" and "a \<in> set (mx_lru m) \<Longrightarrow> queued mv S sys m a"
    and "tbl m nm key = Some a \<Longrightarrow> a \<in> set (mx_lru m) \<and> lg_namespace (groupAt m a) = nm \<and> lg_key (groupAt m a) = key"
    and "bkt m nm p key = Some a \<longleftrightarrow> tbl m nm key = Some a \<and> p \<in> set (lg_prefixKeys (groupAt m a))"
    and "sorted_wrt (<) (map (access m) (mx_lru m))" and "distinct (mx_lru m)"
    and "mx_groupCount m = int (length (mx_lru m))"
    and "mx_prefixCount m = (\<Sum>a\<leftarrow>mx_lru m. int (length (lg_prefixKeys (groupAt m a))))"
    and "0 < mx_maxTurns m" and "0 < mx_maxGroups m" and "mx_maxTurns m \<le> mx_maxPrefixes m" and "0 < mx_ttl m"
  using assms unfolding tables_ok_def by blast+

lemma tables_okI:
  assumes "namespaces_wf m" and "\<And>a. a \<in> set (mx_lru m) \<Longrightarrow> queued mv S sys m a"
    and "\<And>nm key a. tbl m nm key = Some a \<Longrightarrow> a \<in> set (mx_lru m) \<and> lg_namespace (groupAt m a) = nm \<and> lg_key (groupAt m a) = key"
    and "\<And>nm p key a. bkt m nm p key = Some a \<longleftrightarrow> tbl m nm key = Some a \<and> p \<in> set (lg_prefixKeys (groupAt m a))"
    and "sorted_wrt (<) (map (access m) (mx_lru m))" and "distinct (mx_lru m)"
    and "mx_groupCount m = int (length (mx_lru m))"
    and "mx_prefixCount m = (\<Sum>a\<leftarrow>mx_lru m. int (length (lg_prefixKeys (groupAt m a))))"
    and "0 < mx_maxTurns m" and "0 < mx_maxGroups m" and "mx_maxTurns m \<le> mx_maxPrefixes m" and "0 < mx_ttl m"
  shows "tables_ok mv S sys m"
  unfolding tables_ok_def using assms by blast

lemma forget_buckets:
  "inBucket (fold (forgetPrefix key) ps prefixes) p k = (if p \<in> set ps \<and> k = key then None else inBucket prefixes p k)"
proof (induction ps arbitrary: prefixes)
  case (Cons q ps)
  have "inBucket (forgetPrefix key q prefixes) p k = (if p = q \<and> k = key then None else inBucket prefixes p k)" for p k
  proof (cases "mget prefixes q")
    case (Some b)
    have e: "mdel key b = [] \<Longrightarrow> l \<noteq> key \<Longrightarrow> mget b l = None" for l using gm.get_del [of key b l] by simp
    show ?thesis using e by (auto simp: Some forgetPrefix_def inBucket_def Let_def go_map)
  qed (auto simp: forgetPrefix_def inBucket_def)
  then show ?case by (simp add: Cons)
qed simp

lemma index_buckets:
  "inBucket (fold (indexPrefix key a) ps prefixes) p k = (if p \<in> set ps \<and> k = key then Some a else inBucket prefixes p k)"
proof (induction ps arbitrary: prefixes)
  case (Cons q ps)
  have "inBucket (indexPrefix key a q prefixes) p k = (if p = q \<and> k = key then Some a else inBucket prefixes p k)" for p k
    by (auto simp: indexPrefix_def inBucket_def mgetd_def go_map split: option.split)
  then show ?case by (simp add: Cons)
qed simp

definition buckets_wf :: "(string, (string, address) gomap) gomap \<Rightarrow> bool" where
  "buckets_wf prefixes \<longleftrightarrow> mwf prefixes \<and> (\<forall>p b. mget prefixes p = Some b \<longrightarrow> mwf b)"

lemma namespaces_wfD: "namespaces_wf m \<Longrightarrow> mget (mx_groups m) nm = Some ns \<Longrightarrow> mwf (ln_groups ns) \<and> buckets_wf (ln_prefixes ns)"
  by (simp add: namespaces_wf_def buckets_wf_def)

lemma namespaces_wf_put:
  assumes "namespaces_wf m" and "mwf (ln_groups ns)" and "buckets_wf (ln_prefixes ns)" and "mx_groups m' = mput nm ns (mx_groups m)"
  shows "namespaces_wf m'"
  using assms by (auto simp: namespaces_wf_def buckets_wf_def go_map inv_intro)

lemma namespaces_wf_del: "namespaces_wf m \<Longrightarrow> mx_groups m' = mdel nm (mx_groups m) \<Longrightarrow> namespaces_wf m'"
  by (auto simp: namespaces_wf_def go_map inv_intro)

lemma forget_wf: "buckets_wf prefixes \<Longrightarrow> buckets_wf (fold (forgetPrefix key) ps prefixes)"
  by (rule fold_keeps [where P = buckets_wf]) (auto simp: forgetPrefix_def buckets_wf_def Let_def go_map inv_intro split: option.split if_splits)

lemma index_wf: "buckets_wf prefixes \<Longrightarrow> buckets_wf (fold (indexPrefix key a) ps prefixes)"
  by (rule fold_keeps [where P = buckets_wf])
    (auto simp: indexPrefix_def buckets_wf_def mgetd_def go_map inv_intro split: option.split if_splits)

section \<open>Removing a group\<close>

lemma sum_removeAll:
  fixes f :: "'a \<Rightarrow> int"
  assumes "distinct xs" and "a \<in> set xs"
  shows "sum_list (map f (removeAll a xs)) = sum_list (map f xs) - f a" and "length (removeAll a xs) + 1 = length xs"
proof -
  have d: "distinct (removeAll a xs)" using assms(1) by (simp add: distinct_removeAll)
  show "sum_list (map f (removeAll a xs)) = sum_list (map f xs) - f a"
    using sum.remove [of "set xs" a f] assms d by (simp add: sum_list_distinct_conv_sum_set)
  have "card (set xs - {a}) + 1 = card (set xs)" using card_Suc_Diff1 [of "set xs" a] assms(2) by simp
  then show "length (removeAll a xs) + 1 = length xs" using distinct_card [OF d] distinct_card [OF assms(1)] by simp
qed

lemma queued_last:
  fixes f f' :: "'a \<Rightarrow> int"
  assumes "sorted_wrt (<) (map f xs)" and "\<And>b. b \<in> set xs \<Longrightarrow> f' b = f b \<and> f b < f' a"
  shows "sorted_wrt (<) (map f' (xs @ [a]))"
proof -
  have e: "map f' xs = map f xs" using assms(2) by simp
  have "f b < f' a" if "b \<in> set xs" for b using assms(2) [OF that] ..
  then show ?thesis using assms(1) by (simp add: e sorted_wrt_append)
qed

lemma mx_remove_fields:
  "mx_heap (removeGroupLocked a m) = mx_heap m" "mx_fresh (removeGroupLocked a m) = mx_fresh m"
  "mx_accessCounter (removeGroupLocked a m) = mx_accessCounter m" "mx_ttl (removeGroupLocked a m) = mx_ttl m"
  "mx_maxTurns (removeGroupLocked a m) = mx_maxTurns m" "mx_maxGroups (removeGroupLocked a m) = mx_maxGroups m"
  "mx_maxPrefixes (removeGroupLocked a m) = mx_maxPrefixes m" "mx_lru (removeGroupLocked a m) = removeAll a (mx_lru m)"
  "groupAt (removeGroupLocked a m) = groupAt m" "mx_operations (removeGroupLocked a m) = mx_operations m"
  by (simp_all add: removeGroupLocked_def Let_def groupAt_def fun_eq_iff)

lemma remove_tables:
  assumes ok: "tables_ok mv S sys m" and a: "a \<in> set (mx_lru m)"
  defines "g \<equiv> groupAt m a"
  shows "tbl (removeGroupLocked a m) nm key = (if nm = lg_namespace g \<and> key = lg_key g then None else tbl m nm key)"
    and "bkt (removeGroupLocked a m) nm p key = (if nm = lg_namespace g \<and> key = lg_key g then None else bkt m nm p key)"
    and "namespaces_wf (removeGroupLocked a m)"
proof -
  note inv = tables_okD [OF ok]
  have t: "tbl m (lg_namespace g) (lg_key g) = Some a" using inv(2) [OF a] by (simp add: queued_def g_def)
  then obtain ns where ns: "mget (mx_groups m) (lg_namespace g) = Some ns" "mget (ln_groups ns) (lg_key g) = Some a"
    by (auto simp: tbl_def split: option.splits)
  let ?ns = "\<lparr>ln_groups = mdel (lg_key g) (ln_groups ns), ln_prefixes = fold (forgetPrefix (lg_key g)) (lg_prefixKeys g) (ln_prefixes ns)\<rparr>"
  have gr: "mx_groups (removeGroupLocked a m)
      = (if ln_groups ?ns = [] then mdel (lg_namespace g) (mx_groups m) else mput (lg_namespace g) ?ns (mx_groups m))"
    using ns by (simp add: removeGroupLocked_def Let_def g_def)
  have wf: "mwf (ln_groups ns)" "buckets_wf (ln_prefixes ns)" using namespaces_wfD [OF inv(1) ns(1)] by blast+
  show "namespaces_wf (removeGroupLocked a m)"
    using gr namespaces_wf_del [OF inv(1)] namespaces_wf_put [OF inv(1), of ?ns] wf by (auto simp: inv_intro forget_wf split: if_splits)
  have none: "mget (ln_groups ns) k = None" if "ln_groups ?ns = []" "k \<noteq> lg_key g" for k
    using that gm.get_del [of "lg_key g" "ln_groups ns" k] by simp
  show "tbl (removeGroupLocked a m) nm key = (if nm = lg_namespace g \<and> key = lg_key g then None else tbl m nm key)"
    using none [of key] ns by (auto simp: tbl_def gr go_map)
  have other: "bkt m (lg_namespace g) p k = None" if "mget (ln_groups ns) k = None" for k
    using inv(4) [of "lg_namespace g" p k] that ns(1) by (cases "bkt m (lg_namespace g) p k") (auto simp: tbl_def)
  have mine: "inBucket (ln_prefixes ns) p (lg_key g) = None" if p: "p \<notin> set (lg_prefixKeys g)"
  proof (rule ccontr)
    assume "inBucket (ln_prefixes ns) p (lg_key g) \<noteq> None"
    then obtain b where "bkt m (lg_namespace g) p (lg_key g) = Some b" using ns(1) by (auto simp only: bkt_def option.case not_None_eq)
    then have b: "tbl m (lg_namespace g) (lg_key g) = Some b" "p \<in> set (lg_prefixKeys (groupAt m b))" by (simp_all add: inv(4))
    then have "b = a" using t by simp
    then show False using b(2) p by (simp add: g_def)
  qed
  show "bkt (removeGroupLocked a m) nm p key = (if nm = lg_namespace g \<and> key = lg_key g then None else bkt m nm p key)"
  proof (cases "nm = lg_namespace g")
    case True
    then show ?thesis using none [of key] other [of key] mine ns(1)
      by (auto simp: bkt_def gr forget_buckets go_map)
  qed (auto simp: bkt_def gr go_map)
qed

lemma queued_same:
  assumes "queued mv S sys m a" and "groupAt m' a = groupAt m a" and "mx_fresh m \<le> mx_fresh m'" and "mx_accessCounter m \<le> mx_accessCounter m'"
    and "tbl m' (lg_namespace (groupAt m a)) (lg_key (groupAt m a)) = tbl m (lg_namespace (groupAt m a)) (lg_key (groupAt m a))"
  shows "queued mv S sys m' a"
  using assms by (simp add: queued_def access_def)

lemma remove_ok:
  assumes ok: "tables_ok mv S sys m" and a: "a \<in> set (mx_lru m)"
  shows "tables_ok mv S sys (removeGroupLocked a m)"
proof -
  note inv = tables_okD [OF ok]
  note t = remove_tables [OF ok a]
  let ?m = "removeGroupLocked a m" and ?g = "groupAt m a"
  have mine: "tbl m (lg_namespace ?g) (lg_key ?g) = Some a" using inv(2) [OF a] by (simp add: queued_def)
  have pos: "0 < length (mx_lru m)" using a by (cases "mx_lru m") auto
  have nonneg: "0 \<le> (\<Sum>b\<leftarrow>removeAll a (mx_lru m). int (length (lg_prefixKeys (groupAt m b))))" by (intro sum_list_nonneg) auto
  note sums = sum_removeAll(1) [OF inv(6) a, of "\<lambda>b. int (length (lg_prefixKeys (groupAt m b)))"] sum_removeAll(2) [OF inv(6) a]
  show ?thesis
  proof (rule tables_okI)
    show "namespaces_wf ?m" by (rule t(3))
    show "queued mv S sys ?m b" if b: "b \<in> set (mx_lru ?m)" for b
    proof -
      have b': "b \<in> set (mx_lru m)" "b \<noteq> a" using b by (simp_all add: mx_remove_fields)
      have "tbl m (lg_namespace (groupAt m b)) (lg_key (groupAt m b)) = Some b" using inv(2) [OF b'(1)] by (simp add: queued_def)
      then have "\<not> (lg_namespace (groupAt m b) = lg_namespace ?g \<and> lg_key (groupAt m b) = lg_key ?g)" using mine b'(2) by auto
      then show ?thesis by (intro queued_same [OF inv(2) [OF b'(1)]]) (auto simp: mx_remove_fields t)
    qed
    show "b \<in> set (mx_lru ?m) \<and> lg_namespace (groupAt ?m b) = nm \<and> lg_key (groupAt ?m b) = key" if b: "tbl ?m nm key = Some b" for nm key b
    proof -
      have b': "tbl m nm key = Some b" "\<not> (nm = lg_namespace ?g \<and> key = lg_key ?g)" using b by (auto simp: t split: if_splits)
      then show ?thesis using inv(3) [OF b'(1)] by (auto simp: mx_remove_fields)
    qed
    show "bkt ?m nm p key = Some b \<longleftrightarrow> tbl ?m nm key = Some b \<and> p \<in> set (lg_prefixKeys (groupAt ?m b))" for nm p key b
      using inv(4) [of nm p key b] by (simp add: t mx_remove_fields)
    show "sorted_wrt (<) (map (access ?m) (mx_lru ?m))"
      using inv(5) by (simp add: mx_remove_fields access_def [abs_def] sorted_wrt_map removeAll_filter_not_eq sorted_wrt_filter)
    show "distinct (mx_lru ?m)" using inv(6) by (simp add: mx_remove_fields distinct_removeAll)
    show "mx_groupCount ?m = int (length (mx_lru ?m))"
      using inv(7) sums(2) pos by (simp add: mx_remove_fields) (simp add: removeGroupLocked_def Let_def)
    show "mx_prefixCount ?m = (\<Sum>b\<leftarrow>mx_lru ?m. int (length (lg_prefixKeys (groupAt ?m b))))"
      using inv(8) sums(1) nonneg by (simp add: mx_remove_fields) (simp add: removeGroupLocked_def Let_def)
  qed (use inv(9-12) in \<open>simp_all add: mx_remove_fields\<close>)
qed

text \<open>What an operation leaves of the groups: it may remove some and change none of the others.\<close>

definition fewer :: "(lcpGroup \<Rightarrow> bool) \<Rightarrow> MerklePrefixMatcher \<Rightarrow> MerklePrefixMatcher \<Rightarrow> bool" where
  \<comment> \<open>\<open>m'\<close> is \<open>m\<close> without groups of \<open>P\<close>\<close>
  "fewer P m m' \<longleftrightarrow> groupAt m' = groupAt m \<and> mx_ttl m' = mx_ttl m \<and> mx_maxTurns m' = mx_maxTurns m \<and> mx_fresh m' = mx_fresh m
     \<and> mx_accessCounter m' = mx_accessCounter m \<and> mx_maxGroups m' = mx_maxGroups m \<and> mx_maxPrefixes m' = mx_maxPrefixes m
     \<and> (\<forall>nm key. tbl m' nm key = tbl m nm key \<or> (tbl m' nm key = None \<and> (\<exists>a. tbl m nm key = Some a \<and> P (groupAt m a))))"

lemma fewer_refl: "fewer P m m"
  by (simp add: fewer_def)

lemma fewer_trans: "fewer P m m' \<Longrightarrow> fewer P m' m'' \<Longrightarrow> fewer P m m''"
  unfolding fewer_def by (metis option.distinct(1))

lemma remove_fewer:
  assumes "tables_ok mv S sys m" and "a \<in> set (mx_lru m)" and "P (groupAt m a)"
  shows "fewer P m (removeGroupLocked a m)"
  using remove_tables(1) [OF assms(1,2)] tables_okD(2) [OF assms(1,2)] assms(3)
  by (auto simp: fewer_def mx_remove_fields queued_def)

lemma evictGroups_ok:
  assumes "tables_ok mv S sys m"
  shows "matcher_ok mv S sys (evictGroups m) \<and> fewer (\<lambda>_. True) m (evictGroups m)"
  using assms
proof (induction m rule: evictGroups.induct)
  case (1 m)
  show ?case
  proof (cases "mx_groupCount m > mx_maxGroups m \<or> mx_prefixCount m > mx_maxPrefixes m")
    case True
    show ?thesis
    proof (cases "mx_lru m")
      case Nil
      then show ?thesis using True tables_okD(7-11) [OF 1(2)] by simp
    next
      case (Cons oldest rest)
      then have mem: "oldest \<in> set (mx_lru m)" by simp
      have e: "evictGroups m = evictGroups (removeGroupLocked oldest m)" using True Cons by (simp add: evictGroups.simps [of m])
      show ?thesis unfolding e using 1(1) [OF True Cons remove_ok [OF 1(2) mem]] remove_fewer [OF 1(2) mem, of "\<lambda>_. True"] fewer_trans
        by blast
    qed
  next
    case False
    then show ?thesis using 1(2) by (simp add: evictGroups.simps [of m] matcher_ok_def fewer_refl)
  qed
qed

section \<open>Adding a group\<close>

definition placed :: "lcpGroup \<Rightarrow> MerklePrefixMatcher \<Rightarrow> MerklePrefixMatcher" where
  \<comment> \<open>\<open>addGroupLocked\<close> before it evicts\<close>
  "placed g m =
     (let a = mx_fresh m; ns = mgetd emptyNamespace (mx_groups m) (lg_namespace g)
      in m\<lparr>mx_accessCounter := mx_accessCounter m + 1,
           mx_heap := mput a (g\<lparr>lg_lastAccessNumber := mx_accessCounter m + 1\<rparr>) (mx_heap m), mx_fresh := a + 1,
           mx_groups := mput (lg_namespace g) \<lparr>ln_groups = mput (lg_key g) a (ln_groups ns),
             ln_prefixes = fold (indexPrefix (lg_key g) a) (lg_prefixKeys g) (ln_prefixes ns)\<rparr> (mx_groups m),
           mx_lru := mx_lru m @ [a], mx_groupCount := mx_groupCount m + 1,
           mx_prefixCount := mx_prefixCount m + int (length (lg_prefixKeys g))\<rparr>)"

lemma group_wf_keys: "group_wf mv S sys g \<Longrightarrow> lg_prefixKeys g \<noteq> []"
  by (auto simp: group_wf_def boundary_def simp flip: length_greater_0_conv)

lemma namespace_ok:
  assumes "tables_ok mv S sys m"
  shows "tables_ok mv S sys (namespaceLocked nm m)" and "fewer P m (namespaceLocked nm m)"
    and "mx_lru (namespaceLocked nm m) = mx_lru m" and "mx_groupCount (namespaceLocked nm m) = mx_groupCount m"
    and "mx_prefixCount (namespaceLocked nm m) = mx_prefixCount m"
proof -
  note inv = tables_okD [OF assms]
  let ?m = "namespaceLocked nm m"
  have t: "tbl ?m n k = tbl m n k" "bkt ?m n p k = bkt m n p k" for n p k
    by (auto simp: tbl_def bkt_def inBucket_def namespaceLocked_def emptyNamespace_def go_map split: option.splits)
  have f: "groupAt ?m = groupAt m" "mx_fresh ?m = mx_fresh m" "mx_accessCounter ?m = mx_accessCounter m" "mx_lru ?m = mx_lru m"
    "access ?m = access m" "mx_groupCount ?m = mx_groupCount m" "mx_prefixCount ?m = mx_prefixCount m" "mx_maxTurns ?m = mx_maxTurns m"
    "mx_maxGroups ?m = mx_maxGroups m" "mx_maxPrefixes ?m = mx_maxPrefixes m" "mx_ttl ?m = mx_ttl m"
    by (simp_all add: namespaceLocked_def groupAt_def access_def fun_eq_iff split: option.split)
  have w: "namespaces_wf ?m"
  proof (cases "mget (mx_groups m) nm")
    case None
    show ?thesis
      by (rule namespaces_wf_put [OF inv(1), of emptyNamespace]) (simp_all add: None namespaceLocked_def emptyNamespace_def buckets_wf_def inv_intro)
  qed (simp add: namespaceLocked_def inv(1))
  show "tables_ok mv S sys ?m" using assms by (simp add: tables_ok_def queued_def t f w)
  show "fewer P m ?m" by (simp add: fewer_def f t)
qed (simp_all add: namespaceLocked_def split: option.split)

lemma placed_fields:
  "groupAt (placed g m) = (groupAt m)(mx_fresh m := g\<lparr>lg_lastAccessNumber := mx_accessCounter m + 1\<rparr>)"
  "mx_fresh (placed g m) = mx_fresh m + 1" "mx_accessCounter (placed g m) = mx_accessCounter m + 1"
  "mx_lru (placed g m) = mx_lru m @ [mx_fresh m]" "mx_maxTurns (placed g m) = mx_maxTurns m" "mx_maxGroups (placed g m) = mx_maxGroups m"
  "mx_maxPrefixes (placed g m) = mx_maxPrefixes m" "mx_ttl (placed g m) = mx_ttl m"
  "mx_groupCount (placed g m) = mx_groupCount m + 1"
  "mx_prefixCount (placed g m) = mx_prefixCount m + int (length (lg_prefixKeys g))"
  by (simp_all add: placed_def Let_def groupAt_def fun_eq_iff go_map)

lemma inBucket_empty [simp]: "inBucket [] p k = None"
  by (simp add: inBucket_def)

lemma placed_tables:
  "tbl (placed g m) nm key = (if nm = lg_namespace g \<and> key = lg_key g then Some (mx_fresh m) else tbl m nm key)"
  "bkt (placed g m) nm p key
     = (if nm = lg_namespace g \<and> key = lg_key g \<and> p \<in> set (lg_prefixKeys g) then Some (mx_fresh m) else bkt m nm p key)"
  by (auto simp: tbl_def bkt_def placed_def Let_def go_map mgetd_def emptyNamespace_def index_buckets split: option.split)

lemma placed_ok:
  assumes ok: "tables_ok mv S sys m" and g: "group_wf mv S sys g" and free: "tbl m (lg_namespace g) (lg_key g) = None"
  shows "tables_ok mv S sys (placed g m)"
proof -
  note inv = tables_okD [OF ok]
  let ?m = "placed g m" and ?a = "mx_fresh m"
  have old: "b \<noteq> ?a" "access m b \<le> mx_accessCounter m" if "b \<in> set (mx_lru m)" for b using inv(2) [OF that] by (simp_all add: queued_def)
  then have acc: "access ?m b = access m b" if "b \<in> set (mx_lru m)" for b using that by (simp add: access_def placed_fields)
  have keys: "map (\<lambda>b. int (length (lg_prefixKeys (groupAt ?m b)))) (mx_lru m) = map (\<lambda>b. int (length (lg_prefixKeys (groupAt m b)))) (mx_lru m)"
    using old(1) by (auto simp: placed_fields)
  have none: "bkt m (lg_namespace g) p (lg_key g) = None" for p
    using inv(4) [of "lg_namespace g" p "lg_key g"] unfolding free by (metis not_None_eq)
  have w: "mwf (ln_groups (mgetd emptyNamespace (mx_groups m) (lg_namespace g)))" "buckets_wf (ln_prefixes (mgetd emptyNamespace (mx_groups m) (lg_namespace g)))"
    using namespaces_wfD [OF inv(1), of "lg_namespace g"]
    by (auto simp: mgetd_def emptyNamespace_def buckets_wf_def inv_intro split: option.split)
  show ?thesis
  proof (rule tables_okI)
    show "namespaces_wf ?m"
      by (rule namespaces_wf_put [OF inv(1), where nm = "lg_namespace g"]) (auto simp: placed_def Let_def inv_intro w intro!: index_wf)
    show "queued mv S sys ?m b" if b: "b \<in> set (mx_lru ?m)" for b
    proof (cases "b = ?a")
      case True
      then show ?thesis using g by (simp add: queued_def placed_fields placed_tables access_def group_wf_def)
    next
      case False
      then have b': "b \<in> set (mx_lru m)" using b by (simp add: placed_fields)
      note q = inv(2) [OF b']
      have "\<not> (lg_namespace (groupAt m b) = lg_namespace g \<and> lg_key (groupAt m b) = lg_key g)" using q free by (auto simp: queued_def)
      then show ?thesis using False by (intro queued_same [OF q]) (auto simp: placed_fields placed_tables)
    qed
    show "b \<in> set (mx_lru ?m) \<and> lg_namespace (groupAt ?m b) = nm \<and> lg_key (groupAt ?m b) = key" if "tbl ?m nm key = Some b" for nm key b
      using that inv(3) [of nm key b] old(1) [of b] by (auto simp: placed_fields placed_tables split: if_splits)
    show "bkt ?m nm p key = Some b \<longleftrightarrow> tbl ?m nm key = Some b \<and> p \<in> set (lg_prefixKeys (groupAt ?m b))" for nm p key b
    proof (cases "nm = lg_namespace g \<and> key = lg_key g")
      case True
      then show ?thesis using none [of p] by (auto simp: placed_fields placed_tables)
    next
      case False
      then show ?thesis using inv(4) [of nm p key b] inv(3) [of nm key b] old(1) [of b] by (auto simp: placed_fields placed_tables)
    qed
    have "access ?m ?a = mx_accessCounter m + 1" by (simp add: access_def placed_fields)
    then show "sorted_wrt (<) (map (access ?m) (mx_lru ?m))"
      unfolding placed_fields(4) using old(2) acc by (intro queued_last [OF inv(5)]) fastforce
    show "distinct (mx_lru ?m)" using inv(6) old(1) by (auto simp: placed_fields)
    show "mx_groupCount ?m = int (length (mx_lru ?m))" using inv(7) by (simp add: placed_fields)
    show "mx_prefixCount ?m = (\<Sum>b\<leftarrow>mx_lru ?m. int (length (lg_prefixKeys (groupAt ?m b))))"
      unfolding placed_fields(4,10) map_append keys by (simp add: inv(8) placed_fields(1))
  qed (use inv(9-12) in \<open>simp_all add: placed_fields\<close>)
qed

lemma addGroup_is:
  assumes "lg_prefixKeys g \<noteq> []"
  shows "addGroupLocked mv g m = (mx_fresh m, evictGroups (placed g (namespaceLocked (lg_namespace g) m)))"
  using assms by (simp add: addGroupLocked_def placed_def Let_def nextAccessNumberLocked_def namespaceLocked_def split: option.split)

section \<open>Using a group\<close>

definition used :: "address \<Rightarrow> time \<Rightarrow> MerklePrefixMatcher \<Rightarrow> MerklePrefixMatcher" where
  "used a e m = moveToBack a (onGroup a (\<lambda>g. g\<lparr>lg_expiresAt := e, lg_lastAccessNumber := mx_accessCounter m + 1\<rparr>)
     (m\<lparr>mx_accessCounter := mx_accessCounter m + 1\<rparr>))"

lemma used_fields:
  "groupAt (used a e m) = (groupAt m)(a := (groupAt m a)\<lparr>lg_expiresAt := e, lg_lastAccessNumber := mx_accessCounter m + 1\<rparr>)"
  "mx_fresh (used a e m) = mx_fresh m" "mx_accessCounter (used a e m) = mx_accessCounter m + 1"
  "mx_lru (used a e m) = (if a \<in> set (mx_lru m) then removeAll a (mx_lru m) @ [a] else mx_lru m)"
  "mx_maxTurns (used a e m) = mx_maxTurns m" "mx_maxGroups (used a e m) = mx_maxGroups m" "mx_maxPrefixes (used a e m) = mx_maxPrefixes m"
  "mx_ttl (used a e m) = mx_ttl m" "mx_groupCount (used a e m) = mx_groupCount m" "mx_prefixCount (used a e m) = mx_prefixCount m"
  "mx_groups (used a e m) = mx_groups m"
  by (simp_all add: used_def moveToBack_def onGroup_def groupAt_def fun_eq_iff go_map)

lemma used_tables: "tbl (used a e m) = tbl m" "bkt (used a e m) = bkt m"
  by (simp_all add: fun_eq_iff tbl_def bkt_def used_fields)

lemma used_ok:
  assumes ok: "tables_ok mv S sys m" and a: "a \<in> set (mx_lru m)"
  shows "tables_ok mv S sys (used a e m)"
proof -
  note inv = tables_okD [OF ok]
  let ?m = "used a e m"
  have lru: "mx_lru ?m = removeAll a (mx_lru m) @ [a]" using a by (simp add: used_fields)
  have mem: "set (mx_lru ?m) = set (mx_lru m)" using a by (auto simp: lru)
  have same: "lg_namespace (groupAt ?m b) = lg_namespace (groupAt m b)" "lg_key (groupAt ?m b) = lg_key (groupAt m b)"
    "lg_prefixKeys (groupAt ?m b) = lg_prefixKeys (groupAt m b)" "group_wf mv S sys (groupAt ?m b) = group_wf mv S sys (groupAt m b)" for b
    by (simp_all add: used_fields group_wf_def)
  have acc: "access ?m b = (if b = a then mx_accessCounter m + 1 else access m b)" for b by (simp add: access_def used_fields)
  note sums = sum_removeAll(1) [OF inv(6) a, of "\<lambda>b. int (length (lg_prefixKeys (groupAt m b)))"] sum_removeAll(2) [OF inv(6) a]
  show ?thesis
  proof (rule tables_okI)
    show "namespaces_wf ?m" using inv(1) by (simp add: namespaces_wf_def used_fields)
    show "queued mv S sys ?m b" if b: "b \<in> set (mx_lru ?m)" for b
      using inv(2) [of b] b unfolding queued_def mem same used_tables acc by (auto simp: used_fields)
    show "b \<in> set (mx_lru ?m) \<and> lg_namespace (groupAt ?m b) = nm \<and> lg_key (groupAt ?m b) = key" if "tbl ?m nm key = Some b" for nm key b
      using inv(3) [of nm key b] that unfolding mem same used_tables by blast
    show "bkt ?m nm p key = Some b \<longleftrightarrow> tbl ?m nm key = Some b \<and> p \<in> set (lg_prefixKeys (groupAt ?m b))" for nm p key b
      using inv(4) [of nm p key b] unfolding same used_tables .
    have "sorted_wrt (<) (map (access m) (removeAll a (mx_lru m)))"
      using inv(5) by (simp add: sorted_wrt_map removeAll_filter_not_eq sorted_wrt_filter)
    moreover have "access m b \<le> mx_accessCounter m" if "b \<in> set (mx_lru m)" for b using inv(2) [OF that] by (simp add: queued_def)
    ultimately show "sorted_wrt (<) (map (access ?m) (mx_lru ?m))"
      unfolding lru by (intro queued_last [where f = "access m"]) (fastforce simp: acc)+
    show "distinct (mx_lru ?m)" using inv(6) by (simp add: lru distinct_removeAll)
    show "mx_groupCount ?m = int (length (mx_lru ?m))" using inv(7) sums(2) by (simp add: lru used_fields)
    show "mx_prefixCount ?m = (\<Sum>b\<leftarrow>mx_lru ?m. int (length (lg_prefixKeys (groupAt ?m b))))"
      using inv(8) sums(1) unfolding same by (simp add: lru used_fields)
  qed (use inv(9-12) in \<open>simp_all add: used_fields\<close>)
qed

end
