(* ===== verification/PrefixMatcherRuns.thy ===== *)
theory PrefixMatcherRuns
  imports PrefixMatcherInv
begin

text \<open>
  The operations of the prefix matcher: the binary search finds the longest prefix that a live group has, because the
  groups that have a prefix have the shorter ones too; and each operation keeps the tables.
\<close>

section \<open>The binary search\<close>

lemma matchLoop_longest:
  assumes "\<forall>i j. low \<le> i \<and> i \<le> j \<and> j \<le> high \<and> candidate j \<noteq> None \<longrightarrow> candidate i \<noteq> None"
  shows "(matchLoop candidate low high best = best \<and> (\<forall>i. low \<le> i \<and> i \<le> high \<longrightarrow> candidate i = None))
    \<or> (\<exists>k a. matchLoop candidate low high best = Some (a, k) \<and> low \<le> k \<and> k \<le> high \<and> candidate k = Some a
         \<and> (\<forall>i. k < i \<and> i \<le> high \<longrightarrow> candidate i = None))"
  using assms
proof (induction candidate low high best rule: matchLoop.induct)
  case (1 candidate low high best)
  have down: "candidate i \<noteq> None" if "low \<le> i" "i \<le> j" "j \<le> high" "candidate j \<noteq> None" for i j using 1(3) that by blast
  show ?case
  proof (cases "low \<le> high")
    case True
    define middle where "middle = low + (high - low) div 2"
    have mid: "low \<le> middle" "middle \<le> high" using True by (simp_all add: middle_def)
    show ?thesis
    proof (cases "candidate middle")
      case None
      have e: "matchLoop candidate low high best = matchLoop candidate low (middle - 1) best"
        using True None by (simp add: matchLoop.simps [of candidate low high] flip: middle_def)
      have above: "candidate i = None" if "middle \<le> i" "i \<le> high" for i using down [OF mid(1) that] None by blast
      have "(matchLoop candidate low (middle - 1) best = best \<and> (\<forall>i. low \<le> i \<and> i \<le> middle - 1 \<longrightarrow> candidate i = None))
        \<or> (\<exists>k a. matchLoop candidate low (middle - 1) best = Some (a, k) \<and> low \<le> k \<and> k \<le> middle - 1 \<and> candidate k = Some a
             \<and> (\<forall>i. k < i \<and> i \<le> middle - 1 \<longrightarrow> candidate i = None))"
        by (rule 1(1) [OF True middle_def None]) (use 1(3) mid(2) in force)
      then show ?thesis
      proof (elim disjE exE conjE)
        assume "matchLoop candidate low (middle - 1) best = best" "\<forall>i. low \<le> i \<and> i \<le> middle - 1 \<longrightarrow> candidate i = None"
        then show ?thesis unfolding e using above by (metis le_less_linear zle_diff1_eq)
      next
        fix k a
        assume k: "matchLoop candidate low (middle - 1) best = Some (a, k)" "low \<le> k" "k \<le> middle - 1" "candidate k = Some a"
          "\<forall>i. k < i \<and> i \<le> middle - 1 \<longrightarrow> candidate i = None"
        have "candidate i = None" if "k < i" "i \<le> high" for i
          using k(5) above that by (cases "i \<le> middle - 1") auto
        then show ?thesis unfolding e using k(1-4) mid(2) by force
      qed
    next
      case (Some a)
      have e: "matchLoop candidate low high best = matchLoop candidate (middle + 1) high (Some (a, middle))"
        using True Some by (simp add: matchLoop.simps [of candidate low high] flip: middle_def)
      have "(matchLoop candidate (middle + 1) high (Some (a, middle)) = Some (a, middle)
          \<and> (\<forall>i. middle + 1 \<le> i \<and> i \<le> high \<longrightarrow> candidate i = None))
        \<or> (\<exists>k b. matchLoop candidate (middle + 1) high (Some (a, middle)) = Some (b, k) \<and> middle + 1 \<le> k \<and> k \<le> high
             \<and> candidate k = Some b \<and> (\<forall>i. k < i \<and> i \<le> high \<longrightarrow> candidate i = None))"
      proof (rule 1(2) [OF True middle_def Some], intro allI impI)
        fix i j
        assume "middle + 1 \<le> i \<and> i \<le> j \<and> j \<le> high \<and> candidate j \<noteq> None"
        then show "candidate i \<noteq> None" using mid(1) by (intro down [of i j]) auto
      qed
      then show ?thesis
      proof (elim disjE exE conjE)
        assume "matchLoop candidate (middle + 1) high (Some (a, middle)) = Some (a, middle)"
          "\<forall>i. middle + 1 \<le> i \<and> i \<le> high \<longrightarrow> candidate i = None"
        then show ?thesis unfolding e using Some mid by auto
      next
        fix k b
        assume "matchLoop candidate (middle + 1) high (Some (a, middle)) = Some (b, k)" "middle + 1 \<le> k" "k \<le> high"
          "candidate k = Some b" "\<forall>i. k < i \<and> i \<le> high \<longrightarrow> candidate i = None"
        then show ?thesis unfolding e using mid(1) by force
      qed
    qed
  qed (auto simp: matchLoop.simps [of candidate low high])
qed

lemma newestMatchingGroup_fold:
  fixes m fs now
  defines "step \<equiv> \<lambda>(key :: string, a) best. if \<not> matches fs now (groupAt m a) then best
       else (case best of None \<Rightarrow> Some a | Some b \<Rightarrow> if newerGroup (groupAt m a) (groupAt m b) then Some a else best)"
  assumes "\<forall>b. best = Some b \<longrightarrow> matches fs now (groupAt m b)"
  shows "case fold step bucket best of
      None \<Rightarrow> best = None \<and> (\<forall>a \<in> snd ` set bucket. \<not> matches fs now (groupAt m a))
    | Some a \<Rightarrow> matches fs now (groupAt m a) \<and> (a \<in> snd ` set bucket \<or> best = Some a)
        \<and> (\<forall>b. (b \<in> snd ` set bucket \<and> matches fs now (groupAt m b)) \<or> best = Some b \<longrightarrow> \<not> newerGroup (groupAt m b) (groupAt m a))"
  using assms(2)
proof (induction bucket arbitrary: best)
  case Nil
  then show ?case by (auto simp: newerGroup_def split: option.split)
next
  case (Cons entry bucket)
  obtain key a where entry: "entry = (key, a)" by (cases entry)
  let ?best = "step (key, a) best"
  have trans: "\<not> newerGroup g c" if "\<not> newerGroup g b" "\<not> newerGroup b c" for g b c
    using that by (auto simp: newerGroup_def)
  have "\<forall>b. ?best = Some b \<longrightarrow> matches fs now (groupAt m b)"
    using Cons.prems by (auto simp: step_def split: if_splits option.splits)
  note ih = Cons.IH [OF this]
  have new: "best = None \<Longrightarrow> ?best = (if matches fs now (groupAt m a) then Some a else None)"
    "best = Some b \<Longrightarrow> ?best = (if matches fs now (groupAt m a) \<and> newerGroup (groupAt m a) (groupAt m b) then Some a else Some b)" for b
    by (auto simp: step_def)
  have refl: "\<not> newerGroup g g" for g by (auto simp: newerGroup_def)
  have asym: "newerGroup g c \<Longrightarrow> \<not> newerGroup c g" for g c by (auto simp: newerGroup_def)
  show ?case
  proof (cases "fold step bucket ?best")
    case None
    then have f: "?best = None" "\<forall>a \<in> snd ` set bucket. \<not> matches fs now (groupAt m a)" using ih by simp_all
    have "best = None \<and> \<not> matches fs now (groupAt m a)" using f(1) new by (cases best) (auto split: if_splits)
    then show ?thesis using None f(2) by (simp add: entry)
  next
    case (Some c)
    then have f: "matches fs now (groupAt m c)" "c \<in> snd ` set bucket \<or> ?best = Some c"
      "\<And>b. b \<in> snd ` set bucket \<Longrightarrow> matches fs now (groupAt m b) \<Longrightarrow> \<not> newerGroup (groupAt m b) (groupAt m c)"
      "\<And>b. ?best = Some b \<Longrightarrow> \<not> newerGroup (groupAt m b) (groupAt m c)"
      using ih by auto
    have here: "c \<in> insert a (snd ` set bucket) \<or> best = Some c" using f(2) new by (cases best) (auto split: if_splits)
    have mine: "\<not> newerGroup (groupAt m a) (groupAt m c)" if "matches fs now (groupAt m a)"
    proof (cases best)
      case None
      then show ?thesis using new(1) that f(4) by simp
    next
      case (Some b)
      then show ?thesis using new(2) [OF Some] that f(4) trans by (cases "newerGroup (groupAt m a) (groupAt m b)") auto
    qed
    have prev: "\<not> newerGroup (groupAt m b) (groupAt m c)" if b: "best = Some b" for b
    proof (cases "matches fs now (groupAt m a) \<and> newerGroup (groupAt m a) (groupAt m b)")
      case True
      then have a: "\<not> newerGroup (groupAt m a) (groupAt m c)" using new(2) [OF b] by (intro f(4)) simp
      have "\<not> newerGroup (groupAt m b) (groupAt m a)" using True by (intro asym) (rule conjunct2)
      then show ?thesis using a by (rule trans)
    next
      case False
      then have "?best = Some b" unfolding new(2) [OF b] by (rule if_not_P)
      then show ?thesis by (rule f(4))
    qed
    show ?thesis using Some f(1,3) here mine prev by (auto simp: entry)
  qed
qed

lemma newestMatchingGroup_is:
  "case newestMatchingGroup m bucket fs now of
      None \<Rightarrow> \<forall>a \<in> snd ` set bucket. \<not> matches fs now (groupAt m a)
    | Some a \<Rightarrow> a \<in> snd ` set bucket \<and> matches fs now (groupAt m a)
        \<and> (\<forall>b \<in> snd ` set bucket. matches fs now (groupAt m b) \<longrightarrow> \<not> newerGroup (groupAt m b) (groupAt m a))"
proof -
  have f: "case newestMatchingGroup m bucket fs now of
      None \<Rightarrow> (None :: address option) = None \<and> (\<forall>a \<in> snd ` set bucket. \<not> matches fs now (groupAt m a))
    | Some a \<Rightarrow> matches fs now (groupAt m a) \<and> (a \<in> snd ` set bucket \<or> None = Some a)
        \<and> (\<forall>b. (b \<in> snd ` set bucket \<and> matches fs now (groupAt m b)) \<or> None = Some b \<longrightarrow> \<not> newerGroup (groupAt m b) (groupAt m a))"
    unfolding newestMatchingGroup_def by (rule newestMatchingGroup_fold) simp
  show ?thesis
  proof (cases "newestMatchingGroup m bucket fs now")
    case None
    show ?thesis using f unfolding None option.case by blast
  next
    case (Some a)
    show ?thesis using f unfolding Some option.case by blast
  qed
qed

section \<open>The longest known prefix\<close>

definition shares :: "MerklePrefixMatcher \<Rightarrow> (string \<Rightarrow> bool) \<Rightarrow> string \<Rightarrow> string list \<Rightarrow> time \<Rightarrow> int \<Rightarrow> address \<Rightarrow> bool" where
  \<comment> \<open>a live group of the namespace has the first \<open>k\<close> turns of \<open>fs\<close>, more than system turns among them\<close>
  "shares m sys nm fs now k a \<longleftrightarrow> tbl m nm (lg_key (groupAt m a)) = Some a \<and> Before now (lg_expiresAt (groupAt m a))
     \<and> boundary sys fs \<le> k \<and> k \<le> int (length fs) \<and> k \<le> int (length (lg_fingerprints (groupAt m a)))
     \<and> take (nat k) (lg_fingerprints (groupAt m a)) = take (nat k) fs"

lemma boundary_pos: "0 < boundary sys fs"
  by (simp add: boundary_def)

lemma candidate_is:
  assumes ok: "tables_ok mv S sys m" and ns: "mget (mx_groups m) nm = Some ns" and k: "boundary sys fs \<le> k" "k \<le> int (length fs)"
  shows "a \<in> snd ` set (mgetd [] (ln_prefixes ns) (rollingPrefixKeys mv fs ! nat (k - 1))) \<and> matches (take (nat k) fs) now (groupAt m a)
    \<longleftrightarrow> shares m sys nm fs now k a"
proof -
  note inv = tables_okD [OF ok]
  let ?key = "rollingPrefixKeys mv fs ! nat (k - 1)" and ?g = "groupAt m a"
  let ?bucket = "mgetd [] (ln_prefixes ns) ?key"
  have pos: "0 < k" using k(1) boundary_pos [of sys fs] by linarith
  have wf: "mwf ?bucket"
    using namespaces_wfD [OF inv(1) ns] by (auto simp: mgetd_def buckets_wf_def inv_intro split: option.split)
  have in_bucket: "bkt m nm ?key key = mget ?bucket key" for key by (simp add: bkt_def ns inBucket_def mgetd_def split: option.split)
  have here: "a \<in> snd ` set ?bucket \<longleftrightarrow> (\<exists>key. bkt m nm ?key key = Some a)"
    unfolding in_bucket mget_iff_in [OF wf] by force
  show ?thesis
  proof
    assume "a \<in> snd ` set ?bucket \<and> matches (take (nat k) fs) now ?g"
    then obtain key where b: "bkt m nm ?key key = Some a" and m: "matches (take (nat k) fs) now ?g" using here by blast
    have t: "tbl m nm key = Some a" using b unfolding inv(4) by (rule conjunct1)
    then have "lg_key ?g = key" using inv(3) [OF t] by blast
    then show "shares m sys nm fs now k a" using t m k by (auto simp: shares_def matches_def)
  next
    assume s: "shares m sys nm fs now k a"
    then have t: "tbl m nm (lg_key ?g) = Some a" by (simp add: shares_def)
    have q: "group_wf mv S sys ?g" using inv(2) inv(3) [OF t] by (simp add: queued_def)
    have take_eq: "take (nat k) (lg_fingerprints ?g) = take (nat k) fs" and len: "k \<le> int (length (lg_fingerprints ?g))"
      using s by (simp_all add: shares_def)
    have "boundary sys (lg_fingerprints ?g) = boundary sys fs" by (rule boundary_prefix [of "nat k"]) (use take_eq k pos in auto)
    then have m: "matches (take (nat k) fs) now ?g" using s q k by (auto simp: shares_def matches_def group_wf_def)
    have "nat (k - 1) < nat k" using pos by simp
    then have "rollingPrefixKeys mv (lg_fingerprints ?g) ! nat (k - 1) = ?key"
      by (rule keys_prefix [OF take_eq]) (use len k in auto)
    moreover have "nat (k - 1) < length (rollingPrefixKeys mv (lg_fingerprints ?g))" using len pos by simp
    ultimately have "?key \<in> set (lg_prefixKeys ?g)" using q by (metis group_wf_def nth_mem)
    then have "bkt m nm ?key (lg_key ?g) = Some a" using t unfolding inv(4) by blast
    then show "a \<in> snd ` set ?bucket \<and> matches (take (nat k) fs) now ?g" using here m by blast
  qed
qed

lemma candidate_cases:
  assumes "tables_ok mv S sys m" and "mget (mx_groups m) nm = Some ns" and "boundary sys fs \<le> k" "k \<le> int (length fs)"
  shows "case matchCandidate mv m ns fs now k of
      None \<Rightarrow> \<forall>a. \<not> shares m sys nm fs now k a
    | Some a \<Rightarrow> shares m sys nm fs now k a \<and> (\<forall>b. shares m sys nm fs now k b \<longrightarrow> \<not> newerGroup (groupAt m b) (groupAt m a))"
proof -
  note c = candidate_is [OF assms]
  note n = newestMatchingGroup_is [where m = m and now = now and fs = "take (nat k) fs"
      and bucket = "mgetd [] (ln_prefixes ns) (rollingPrefixKeys mv fs ! nat (k - 1))"]
  show ?thesis
  proof (cases "matchCandidate mv m ns fs now k")
    case None
    show ?thesis using n c unfolding None [unfolded matchCandidate_def] None option.case by blast
  next
    case (Some a)
    show ?thesis using n c unfolding Some [unfolded matchCandidate_def] Some option.case by blast
  qed
qed

lemma shares_down:
  assumes "shares m sys nm fs now k a" and "boundary sys fs \<le> j" and "j \<le> k"
  shows "shares m sys nm fs now j a"
proof -
  have "take (nat j) (take (nat k) xs) = take (nat j) xs" for xs :: "string list" using assms(3) by (simp add: min_def)
  then show ?thesis using assms unfolding shares_def by (metis order_trans)
qed

lemma matchLocked_is:
  assumes ok: "tables_ok mv S sys m" and n: "n = boundary sys fs" "n \<le> int (length fs)"
  shows "case matchLocked mv nm fs n now m of
      (None, m') \<Rightarrow> m' = m \<and> (\<forall>k a. \<not> shares m sys nm fs now k a)
    | (Some r, m') \<Rightarrow> \<exists>a \<in> set (mx_lru m). m' = used a (now + mx_ttl m) m \<and> shares m sys nm fs now (mm_PrefixLength r) a
        \<and> mm_AuthID r = lg_authID (groupAt m a) \<and> (\<not> mm_IsFork r \<longrightarrow> mm_SessionID r = lg_sessionID (groupAt m a))
        \<and> (mm_IsFork r \<longleftrightarrow> mm_PrefixLength r < int (length (lg_fingerprints (groupAt m a))) \<and> mm_PrefixLength r < int (length fs))
        \<and> (\<forall>k b. shares m sys nm fs now k b \<longrightarrow> k \<le> mm_PrefixLength r
             \<and> (k = mm_PrefixLength r \<longrightarrow> \<not> newerGroup (groupAt m b) (groupAt m a)))"
proof (cases "mget (mx_groups m) nm")
  case None
  then show ?thesis by (simp add: matchLocked_def shares_def tbl_def)
next
  case (Some ns)
  have pos: "0 < n" "fs \<noteq> []" using n boundary_pos [of sys fs] by auto
  let ?c = "matchCandidate mv m ns fs now" and ?high = "int (length fs)"
  note cases = candidate_cases [OF ok Some, where fs = fs and now = now]
  have some: "(\<exists>a. shares m sys nm fs now k a) \<longleftrightarrow> ?c k \<noteq> None" if "n \<le> k" "k \<le> ?high" for k
    using cases [of k] that n(1) by (auto split: option.splits)
  have down: "?c i \<noteq> None" if "n \<le> i" "i \<le> j" "j \<le> ?high" "?c j \<noteq> None" for i j
  proof -
    have "n \<le> j" using that by linarith
    from some [OF this that(3)] have "\<exists>a. shares m sys nm fs now j a" using that(4) by (rule iffD2)
    then obtain a where "shares m sys nm fs now j a" ..
    then have "shares m sys nm fs now i a" by (rule shares_down) (use that n(1) in auto)
    moreover have "i \<le> ?high" using that by linarith
    ultimately show ?thesis using some [OF that(1)] by blast
  qed
  have range: "n \<le> k \<and> k \<le> ?high" if "shares m sys nm fs now k a" for k a using that n(1) by (simp add: shares_def)
  have "\<forall>i j. n \<le> i \<and> i \<le> j \<and> j \<le> ?high \<and> ?c j \<noteq> None \<longrightarrow> ?c i \<noteq> None" using down by blast
  from matchLoop_longest [OF this, where best = None] show ?thesis
  proof (elim disjE exE conjE)
    assume none: "matchLoop ?c n ?high None = None" and all: "\<forall>i. n \<le> i \<and> i \<le> ?high \<longrightarrow> ?c i = None"
    have "\<not> shares m sys nm fs now k a" for k a using range some all by blast
    then show ?thesis using none Some pos n by (simp add: matchLocked_def)
  next
    fix k a
    assume r: "matchLoop ?c n ?high None = Some (a, k)" and k: "n \<le> k" "k \<le> ?high" "?c k = Some a"
      and above: "\<forall>i. k < i \<and> i \<le> ?high \<longrightarrow> ?c i = None"
    have sh: "shares m sys nm fs now k a" "\<And>b. shares m sys nm fs now k b \<Longrightarrow> \<not> newerGroup (groupAt m b) (groupAt m a)"
      using cases [of k] k n(1) by auto
    have most: "j \<le> k" if "shares m sys nm fs now j b" for j b
    proof (rule ccontr)
      assume "\<not> j \<le> k"
      then have "?c j = None" using above range [OF that] by simp
      then show False using some range [OF that] that by blast
    qed
    have mem: "a \<in> set (mx_lru m)" using tables_okD(3) [OF ok] sh(1) unfolding shares_def by blast
    let ?m = "used a (now + mx_ttl m) m"
    obtain r' where run: "matchLocked mv nm fs n now m = (Some r', ?m)" and r': "mm_AuthID r' = lg_authID (groupAt m a)" "mm_PrefixLength r' = k"
      "\<not> mm_IsFork r' \<longrightarrow> mm_SessionID r' = lg_sessionID (groupAt m a)"
      "mm_IsFork r' \<longleftrightarrow> k < int (length (lg_fingerprints (groupAt m a))) \<and> k < int (length fs)"
      using Some pos n r by (simp add: matchLocked_def nextAccessNumberLocked_def Let_def flip: used_def)
        (auto simp: used_fields split: if_splits simp flip: used_def)
    show ?thesis unfolding run prod.case option.case r' using mem sh most r'(3,4) by (intro bexI [of _ a]) auto
  qed
qed

section \<open>Removing groups\<close>

lemma lru_tbl:
  assumes "tables_ok mv S sys m"
  shows "a \<in> set (mx_lru m) \<longleftrightarrow> tbl m (lg_namespace (groupAt m a)) (lg_key (groupAt m a)) = Some a"
  using tables_okD(2) [OF assms, of a] tables_okD(3) [OF assms, of "lg_namespace (groupAt m a)" "lg_key (groupAt m a)" a]
  by (auto simp: queued_def)

lemma addresses_distinct:
  fixes nm_of key_of :: "address \<Rightarrow> string"
  assumes "mwf gs" and "\<And>nm ns. (nm, ns) \<in> set gs \<Longrightarrow> mwf (ln_groups ns)"
    and "\<And>nm ns key a. (nm, ns) \<in> set gs \<Longrightarrow> (key, a) \<in> set (ln_groups ns) \<Longrightarrow> nm_of a = nm \<and> key_of a = key"
  shows "distinct (concat (map (\<lambda>(_, ns). map snd (ln_groups ns)) gs))"
  using assms
proof (induction gs)
  case (Cons entry gs)
  obtain nm ns where entry: "entry = (nm, ns)" by (cases entry)
  have inj: "inj_on snd (set (ln_groups ns))"
  proof (rule inj_onI)
    fix e f assume e: "e \<in> set (ln_groups ns)" "f \<in> set (ln_groups ns)" "snd e = snd f"
    have "key_of (snd e) = fst e" "key_of (snd f) = fst f"
      using Cons.prems(3) [of nm ns "fst e" "snd e"] Cons.prems(3) [of nm ns "fst f" "snd f"] e(1,2) by (simp_all add: entry)
    then show "e = f" using e(3) by (simp add: prod_eq_iff)
  qed
  have "distinct (map snd (ln_groups ns))"
    using Cons.prems(2) [of nm ns] inj by (simp add: entry mwf_def distinct_map)
  moreover have "distinct (concat (map (\<lambda>(_, ns). map snd (ln_groups ns)) gs))"
  proof (rule Cons.IH)
    show "mwf gs" using Cons.prems(1) by (simp add: mwf_def)
    show "mwf (ln_groups ns')" if "(nm', ns') \<in> set gs" for nm' ns' by (rule Cons.prems(2) [of nm']) (simp add: that)
    show "nm_of a = nm' \<and> key_of a = key" if "(nm', ns') \<in> set gs" "(key, a) \<in> set (ln_groups ns')" for nm' ns' key a
      by (rule Cons.prems(3) [of nm' ns']) (simp_all add: that)
  qed
  moreover have "nm_of a \<noteq> nm" if "(nm', ns') \<in> set gs" "(key, a) \<in> set (ln_groups ns')" for nm' ns' key a
    using Cons.prems(1) Cons.prems(3) [of nm' ns' key a] that by (force simp: entry mwf_def)
  moreover have "nm_of a = nm" if "(key, a) \<in> set (ln_groups ns)" for key a
    using Cons.prems(3) [of nm ns key a] that by (simp add: entry)
  ultimately show ?case by (fastforce simp: entry)
qed simp

lemma addresses_are:
  assumes ok: "tables_ok mv S sys m"
  shows "distinct (liveAddresses m)" and "set (liveAddresses m) = set (mx_lru m)"
proof -
  note inv = tables_okD [OF ok]
  have wf: "mwf (mx_groups m)" using inv(1) by (simp add: namespaces_wf_def)
  have entry: "tbl m nm key = Some a" if "(nm, ns) \<in> set (mx_groups m)" "(key, a) \<in> set (ln_groups ns)" for nm ns key a
  proof -
    have ns: "mget (mx_groups m) nm = Some ns" using mget_iff_in [OF wf] that(1) by (rule iffD2)
    have "mwf (ln_groups ns)" using namespaces_wfD [OF inv(1) ns] by (rule conjunct1)
    from mget_iff_in [OF this] have "mget (ln_groups ns) key = Some a" using that(2) by (rule iffD2)
    then show ?thesis by (simp add: tbl_def ns)
  qed
  show "distinct (liveAddresses m)"
    unfolding liveAddresses_def
  proof (rule addresses_distinct [OF wf, where nm_of = "\<lambda>a. lg_namespace (groupAt m a)" and key_of = "\<lambda>a. lg_key (groupAt m a)"])
    show "mwf (ln_groups ns)" if "(nm, ns) \<in> set (mx_groups m)" for nm ns
      by (rule namespaces_wfD [OF inv(1), THEN conjunct1, of nm]) (simp add: mget_iff_in [OF wf] that)
    show "lg_namespace (groupAt m a) = nm \<and> lg_key (groupAt m a) = key"
      if "(nm, ns) \<in> set (mx_groups m)" "(key, a) \<in> set (ln_groups ns)" for nm ns key a using inv(3) [OF entry [OF that]] by blast
  qed
  have "a \<in> set (liveAddresses m)" if mem: "a \<in> set (mx_lru m)" for a
  proof -
    obtain ns where ns: "mget (mx_groups m) (lg_namespace (groupAt m a)) = Some ns" "mget (ln_groups ns) (lg_key (groupAt m a)) = Some a"
      using inv(2) [OF mem] by (auto simp: queued_def tbl_def split: option.splits)
    have "mwf (ln_groups ns)" using namespaces_wfD [OF inv(1) ns(1)] by (rule conjunct1)
    from mget_iff_in [OF this] have "(lg_key (groupAt m a), a) \<in> set (ln_groups ns)" using ns(2) by (rule iffD1)
    moreover have "(lg_namespace (groupAt m a), ns) \<in> set (mx_groups m)" using mget_iff_in [OF wf] ns(1) by (rule iffD1)
    ultimately show ?thesis by (force simp: liveAddresses_def)
  qed
  then show "set (liveAddresses m) = set (mx_lru m)" using entry inv(3) by (fastforce simp: liveAddresses_def)
qed

lemma remove_matcher_ok:
  assumes "matcher_ok mv S sys m" and "a \<in> set (mx_lru m)"
  shows "matcher_ok mv S sys (removeGroupLocked a m)"
proof -
  have ok: "tables_ok mv S sys m" using assms(1) by (simp add: matcher_ok_def)
  have "mx_groupCount (removeGroupLocked a m) \<le> mx_groupCount m" "mx_prefixCount (removeGroupLocked a m) \<le> mx_prefixCount m \<or> mx_prefixCount (removeGroupLocked a m) = 0"
    by (simp_all add: removeGroupLocked_def Let_def)
  then show ?thesis using remove_ok [OF ok assms(2)] assms(1) tables_okD(9,11) [OF ok] by (auto simp: matcher_ok_def mx_remove_fields)
qed

lemma removeIf_fold:
  fixes P :: "lcpGroup \<Rightarrow> bool"
  assumes "matcher_ok mv S sys m" and "set as \<subseteq> set (mx_lru m)" and "distinct as"
  defines "m' \<equiv> fold (\<lambda>a m. if P (groupAt m a) then removeGroupLocked a m else m) as m"
  shows "matcher_ok mv S sys m' \<and> fewer P m m' \<and> set (mx_lru m') = {a \<in> set (mx_lru m). a \<in> set as \<longrightarrow> \<not> P (groupAt m a)}"
  using assms(1-3) unfolding m'_def
proof (induction as arbitrary: m)
  case (Cons a as)
  show ?case
  proof (cases "P (groupAt m a)")
    case True
    have mem: "a \<in> set (mx_lru m)" using Cons.prems(2) by simp
    let ?m = "removeGroupLocked a m"
    have ok: "matcher_ok mv S sys ?m" by (rule remove_matcher_ok [OF Cons.prems(1) mem])
    have sub: "set as \<subseteq> set (mx_lru ?m)" "distinct as" using Cons.prems(2,3) by (auto simp: mx_remove_fields)
    have "fewer P m ?m" by (rule remove_fewer [where mv = mv and S = S and sys = sys]) (use Cons.prems(1) mem True in \<open>simp_all add: matcher_ok_def\<close>)
    then show ?thesis using Cons.IH [OF ok sub] True Cons.prems(3) fewer_trans by (auto simp: mx_remove_fields)
  next
    case False
    then show ?thesis using Cons.IH [OF Cons.prems(1)] Cons.prems(2,3) by auto
  qed
qed (simp add: fewer_refl)

lemma removeIf_ok:
  assumes ok: "matcher_ok mv S sys m"
  shows "matcher_ok mv S sys (removeIf P m)" and "fewer P m (removeIf P m)"
    and "set (mx_lru (removeIf P m)) = {a \<in> set (mx_lru m). \<not> P (groupAt m a)}"
proof -
  note t = addresses_are [OF ok [unfolded matcher_ok_def, THEN conjunct1]]
  note r = removeIf_fold [OF ok _ t(1), of P, folded removeIf_def]
  show "matcher_ok mv S sys (removeIf P m)" "fewer P m (removeIf P m)"
    "set (mx_lru (removeIf P m)) = {a \<in> set (mx_lru m). \<not> P (groupAt m a)}"
    using r unfolding t(2) by blast+
qed

end
