(* ===== verification/PrefixContract.thy ===== *)
theory PrefixContract
  imports PrefixMatcherRuns
begin

text \<open>
  What the prefix matcher promises over every sequence of its calls: the tables stay consistent and within their limits, a
  match is the longest conversation known, and a conversation that is bound is found again.
\<close>

section \<open>Preparing a call\<close>

definition isSystem :: "CanonicalTurn \<Rightarrow> bool" where
  "isSystem turn \<longleftrightarrow> canonicalRole (ct_Role turn) = ''system''"

lemma first_turn_is:
  "first_turn i turns = (if (\<forall>t \<in> set turns. isSystem t) then 0 else i + int (length (takeWhile isSystem turns)) + 1)"
  by (induction turns arbitrary: i) (auto simp: isSystem_def)

lemma all_system: "(\<forall>t \<in> set turns. isSystem t) \<Longrightarrow> length (takeWhile isSystem turns) = length turns"
  by (induction turns) simp_all

lemma boundary_turns:
  assumes "\<And>t. sys (mv_FastTurnFingerprint mv t) \<longleftrightarrow> isSystem t"
  shows "boundary sys (map (mv_FastTurnFingerprint mv) turns) = int (length (takeWhile isSystem turns)) + 1"
  by (simp add: boundary_def takeWhile_map o_def assms)

lemma sanitize_prepared:
  assumes known: "\<And>t. sys (mv_FastTurnFingerprint mv t) \<longleftrightarrow> isSystem t" and "0 < mx_maxTurns m"
  shows "sanitizeFingerprints m (fst (Prepare mv m turns)) (snd (Prepare mv m turns))
    = (let fs = mx_fingerprints mv m turns in if boundary sys fs \<le> int (length fs) then Some (fs, boundary sys fs) else None)"
proof -
  let ?k = "nat (mx_maxTurns m)" and ?n = "minimumAffinityPrefixLength turns"
  let ?fs = "mx_fingerprints mv m turns"
  have fs: "?fs = map (mv_FastTurnFingerprint mv) (take ?k turns)" by (simp add: mx_fingerprints_def)
  have len: "int (length ?fs) \<le> mx_maxTurns m" using assms(2) by (simp add: fs)
  have b: "boundary sys ?fs = int (length (takeWhile isSystem (take ?k turns))) + 1" unfolding fs by (rule boundary_turns [OF known])
  have "?n = (if boundary sys ?fs \<le> int (length ?fs) then boundary sys ?fs else ?n)
    \<and> (0 < ?n \<and> ?n \<le> int (length ?fs) \<longleftrightarrow> boundary sys ?fs \<le> int (length ?fs))"
  proof (cases "\<forall>t \<in> set (take ?k turns). isSystem t")
    case True
    then have "length (takeWhile isSystem (take ?k turns)) = length ?fs" using all_system [of "take ?k turns"] by (simp add: fs)
    moreover have "length ?fs \<le> length (takeWhile isSystem turns)"
    proof -
      have "takeWhile isSystem (take ?k turns @ drop ?k turns) = take ?k turns @ takeWhile isSystem (drop ?k turns)"
        by (rule takeWhile_append2) (use True in auto)
      then show ?thesis by (simp add: fs)
    qed
    ultimately show ?thesis by (auto simp: b minimumAffinityPrefixLength_def first_turn_is)
  next
    case False
    then obtain t where t: "t \<in> set (take ?k turns)" "\<not> isSystem t" by blast
    then have "takeWhile isSystem (take ?k turns @ drop ?k turns) = takeWhile isSystem (take ?k turns)" by (rule takeWhile_append1)
    then have e: "takeWhile isSystem turns = takeWhile isSystem (take ?k turns)" by simp
    have "length (takeWhile isSystem (take ?k turns)) < length ?fs"
    proof (rule ccontr)
      assume "\<not> length (takeWhile isSystem (take ?k turns)) < length ?fs"
      then have "takeWhile isSystem (take ?k turns) = take ?k turns"
        using takeWhile_dropWhile_id [of isSystem "take ?k turns"] by (metis append_Nil2 fs length_append length_map length_0_conv
            add_diff_cancel_left' diff_is_0_eq linorder_not_less)
      then show False using t by (metis set_takeWhileD)
    qed
    moreover have "\<exists>t \<in> set turns. \<not> isSystem t" using t by (meson in_set_takeD)
    ultimately show ?thesis using e by (auto simp: b minimumAffinityPrefixLength_def first_turn_is)
  qed
  then show ?thesis using len assms(2) unfolding Prepare_def sanitizeFingerprints_def Let_def fst_conv snd_conv by auto
qed

section \<open>The methods keep the tables\<close>

lemma operations_same [simp]:
  "groupAt (m\<lparr>mx_operations := k\<rparr>) = groupAt m" "tbl (m\<lparr>mx_operations := k\<rparr>) = tbl m" "bkt (m\<lparr>mx_operations := k\<rparr>) = bkt m"
  "access (m\<lparr>mx_operations := k\<rparr>) = access m" "namespaces_wf (m\<lparr>mx_operations := k\<rparr>) = namespaces_wf m"
  "queued mv S sys (m\<lparr>mx_operations := k\<rparr>) = queued mv S sys m"
  by (simp_all add: fun_eq_iff groupAt_def tbl_def bkt_def access_def namespaces_wf_def queued_def)

lemma prepareLocked_ok:
  assumes "matcher_ok mv S sys m"
  shows "matcher_ok mv S sys (prepareLocked now m)" and "fewer (\<lambda>g. \<not> Before now (lg_expiresAt g)) m (prepareLocked now m)"
proof -
  let ?m = "m\<lparr>mx_operations := mx_operations m + 1\<rparr>" and ?P = "\<lambda>g. \<not> Before now (lg_expiresAt g)"
  have ok: "matcher_ok mv S sys ?m" using assms by (simp add: matcher_ok_def tables_ok_def)
  have "fewer ?P m ?m" by (simp add: fewer_def)
  then show "matcher_ok mv S sys (prepareLocked now m)" "fewer ?P m (prepareLocked now m)"
    using ok removeIf_ok(1,2) [OF ok, of ?P] fewer_trans by (auto simp: prepareLocked_def Let_def mx_cleanupLocked_def)
qed

lemma evict_last:
  assumes "tables_ok mv S sys m" and "mx_lru m = xs @ [a]" and "int (length (lg_prefixKeys (groupAt m a))) \<le> mx_maxPrefixes m"
  shows "a \<in> set (mx_lru (evictGroups m))"
  using assms
proof (induction m arbitrary: xs rule: evictGroups.induct)
  case (1 m)
  show ?case
  proof (cases "mx_groupCount m > mx_maxGroups m \<or> mx_prefixCount m > mx_maxPrefixes m")
    case True
    note inv = tables_okD [OF 1(2)]
    have "mx_lru m \<noteq> []" using 1(3) by simp
    then obtain oldest rest where lru: "mx_lru m = oldest # rest" by (auto simp: neq_Nil_conv)
    then have mem: "oldest \<in> set (mx_lru m)" by simp
    have e: "evictGroups m = evictGroups (removeGroupLocked oldest m)" using True lru by (simp add: evictGroups.simps [of m])
    have "xs \<noteq> []" using True inv(7,8,10) 1(3,4) by auto
    then obtain ys where xs: "xs = oldest # ys" using lru 1(3) by (cases xs) simp_all
    have "a \<noteq> oldest" using inv(6) 1(3) xs by auto
    then have "mx_lru (removeGroupLocked oldest m) = removeAll oldest xs @ [a]" by (simp add: mx_remove_fields 1(3))
    then show ?thesis unfolding e
      by (rule 1(1) [OF True lru remove_ok [OF 1(2) mem]]) (use 1(4) in \<open>simp add: mx_remove_fields\<close>)
  qed (use 1(3) in \<open>simp add: evictGroups.simps [of m]\<close>)
qed

definition same_limits_as :: "MerklePrefixMatcher \<Rightarrow> MerklePrefixMatcher \<Rightarrow> bool" where
  "same_limits_as m m' \<longleftrightarrow> mx_ttl m' = mx_ttl m \<and> mx_maxTurns m' = mx_maxTurns m \<and> mx_maxGroups m' = mx_maxGroups m
     \<and> mx_maxPrefixes m' = mx_maxPrefixes m"

lemma limits_trans: "same_limits_as m m' \<Longrightarrow> same_limits_as m' m'' \<Longrightarrow> same_limits_as m m''"
  by (simp add: same_limits_as_def)

lemma fewer_limits: "fewer P m m' \<Longrightarrow> same_limits_as m m'"
  by (simp add: fewer_def same_limits_as_def)

lemma prepareLocked_limits: "matcher_ok mv S sys m \<Longrightarrow> same_limits_as m (prepareLocked now m)"
  by (rule fewer_limits [OF prepareLocked_ok(2)])

lemma used_limits: "same_limits_as m (used a e m)"
  by (simp add: same_limits_as_def used_fields)

text \<open>\<open>held\<close>: the table has a group for the conversation, bound to the credential.\<close>

definition held :: "MerklePrefixMatcher \<Rightarrow> MatcherEnv \<Rightarrow> string \<Rightarrow> string list \<Rightarrow> string \<Rightarrow> string \<Rightarrow> time \<Rightarrow> bool" where
  "held m mv nm fs authID sessionID e \<longleftrightarrow> (\<exists>a. tbl m nm (sequenceKey mv fs) = Some a \<and> lg_fingerprints (groupAt m a) = fs
     \<and> lg_authID (groupAt m a) = authID \<and> lg_sessionID (groupAt m a) = sessionID \<and> lg_expiresAt (groupAt m a) = e)"

lemma addGroup_ok:
  assumes ok: "tables_ok mv S sys m" and g: "group_wf mv S sys g" and free: "tbl m (lg_namespace g) (lg_key g) = None"
    and len: "int (length (lg_fingerprints g)) \<le> mx_maxTurns m"
  defines "m' \<equiv> snd (addGroupLocked mv g m)"
  shows "matcher_ok mv S sys m' \<and> same_limits_as m m'
    \<and> held m' mv (lg_namespace g) (lg_fingerprints g) (lg_authID g) (lg_sessionID g) (lg_expiresAt g)"
proof -
  let ?n = "namespaceLocked (lg_namespace g) m"
  let ?p = "placed g ?n"
  note n = namespace_ok(1,2) [OF ok, where nm = "lg_namespace g"]
  have m': "m' = evictGroups ?p" using group_wf_keys [OF g] by (simp add: m'_def addGroup_is)
  have ln: "same_limits_as m ?n" by (rule fewer_limits [OF n(2)])
  have "tbl ?n (lg_namespace g) (lg_key g) = None" using n(2) [of "\<lambda>_. False"] free by (simp add: fewer_def)
  then have p: "tables_ok mv S sys ?p" by (rule placed_ok [OF n(1) g])
  note e = evictGroups_ok [OF p]
  have fit: "int (length (lg_prefixKeys (groupAt ?p (mx_fresh ?n)))) \<le> mx_maxPrefixes ?p"
    using g len tables_okD(11) [OF ok] ln by (simp add: placed_fields group_wf_def same_limits_as_def)
  have "mx_fresh ?n \<in> set (mx_lru m')" unfolding m' by (rule evict_last [OF p _ fit]) (simp add: placed_fields)
  moreover have gr: "groupAt m' (mx_fresh ?n) = g\<lparr>lg_lastAccessNumber := mx_accessCounter ?n + 1\<rparr>"
    using e by (simp add: m' fewer_def placed_fields)
  ultimately have "tbl m' (lg_namespace g) (lg_key g) = Some (mx_fresh ?n)"
    using lru_tbl [of mv S sys m' "mx_fresh ?n"] e by (simp add: m' matcher_ok_def)
  then have "held m' mv (lg_namespace g) (lg_fingerprints g) (lg_authID g) (lg_sessionID g) (lg_expiresAt g)"
    using gr g by (auto simp: held_def group_wf_def)
  moreover have "same_limits_as ?n ?p" by (simp add: same_limits_as_def placed_fields)
  moreover have "same_limits_as ?p m'" using e fewer_limits unfolding m' by blast
  ultimately show ?thesis using e ln limits_trans unfolding m' by blast
qed

lemma matchLocked_ok:
  fixes nm :: string and now :: time
  assumes ok: "tables_ok mv S sys m" and n: "n = boundary sys fs" "n \<le> int (length fs)"
  defines "m' \<equiv> snd (matchLocked mv nm fs n now m)"
  shows "tables_ok mv S sys m'" and "matcher_ok mv S sys m \<Longrightarrow> matcher_ok mv S sys m'"
    and "same_limits_as m m'" and "tbl m' = tbl m"
proof -
  have "m' = m \<or> (\<exists>a \<in> set (mx_lru m). m' = used a (now + mx_ttl m) m)"
    using matchLocked_is [OF ok n, where nm = nm and now = now] unfolding m'_def by (auto split: prod.splits option.splits)
  moreover have "same_limits_as m m" by (simp add: same_limits_as_def)
  ultimately show "tables_ok mv S sys m'" "matcher_ok mv S sys m \<Longrightarrow> matcher_ok mv S sys m'" "same_limits_as m m'" "tbl m' = tbl m"
    using ok used_ok [OF ok] used_limits used_tables(1) by (auto simp: matcher_ok_def used_fields)
qed

lemma bindNew_ok:
  assumes ok: "tables_ok mv S sys m" and n: "n = boundary sys fs" "n \<le> int (length fs)" and len: "int (length fs) \<le> mx_maxTurns m"
    and fs: "fs \<in> S" and auth: "authID \<noteq> []" and free: "tbl m nm (sequenceKey mv fs) = None"
  shows "case bindNew mv nm fs n authID now m of (r, m') \<Rightarrow>
    matcher_ok mv S sys m' \<and> same_limits_as m m' \<and> held m' mv nm fs authID (br_SessionID r) (now + mx_ttl m)"
proof -
  obtain match m1 where run: "matchLocked mv nm fs n now m = (match, m1)" by force
  note k = matchLocked_ok [OF ok n, where nm = nm and now = now, unfolded run snd_conv]
  let ?keys = "rollingPrefixKeys mv fs"
  define matched where "matched = (case match of None \<Rightarrow> ([], [], False) | Some r \<Rightarrow> (mm_SessionID r, mm_ParentSessionID r, mm_IsFork r))"
  define firstKey where "firstKey = (if ?keys = [] then [] else ?keys ! (if n > 0 \<and> n \<le> int (length ?keys) then nat (n - 1) else 0))"
  define g where "g = \<lparr>lg_key = sequenceKey mv fs, lg_namespace = nm, lg_authID = authID,
    lg_sessionID = (if fst matched = [] then newLCPSessionID mv nm firstKey else fst matched),
    lg_parentSessionID = fst (snd matched), lg_minPrefixLength = n, lg_fingerprints = fs, lg_prefixKeys = ?keys,
    lg_expiresAt = now + mx_ttl m1, lg_lastAccessNumber = 0\<rparr>"
  obtain a m2 where add: "addGroupLocked mv g m1 = (a, m2)" by force
  define r where "r = \<lparr>br_SessionID = lg_sessionID g, br_ParentSessionID = fst (snd matched), br_IsFork = snd (snd matched),
    br_AccessNumber = lg_lastAccessNumber (groupAt m2 a)\<rparr>"
  have b: "bindNew mv nm fs n authID now m = (r, snd (addGroupLocked mv g m1))"
    using add unfolding bindNew_def run Let_def prod.case g_def r_def matched_def firstKey_def by simp
  have g: "lg_key g = sequenceKey mv fs" "lg_namespace g = nm" "lg_authID g = authID" "lg_minPrefixLength g = n" "lg_fingerprints g = fs"
      "lg_prefixKeys g = rollingPrefixKeys mv fs" "lg_expiresAt g = now + mx_ttl m1" "lg_sessionID g = br_SessionID r"
    by (simp_all add: g_def r_def)
  have "group_wf mv S sys g" using g fs auth n by (simp add: group_wf_def)
  moreover have "tbl m1 (lg_namespace g) (lg_key g) = None" using free k(4) g by simp
  moreover have "int (length (lg_fingerprints g)) \<le> mx_maxTurns m1" using len k(3) g by (simp add: same_limits_as_def)
  ultimately have "matcher_ok mv S sys (snd (addGroupLocked mv g m1)) \<and> same_limits_as m1 (snd (addGroupLocked mv g m1))
    \<and> held (snd (addGroupLocked mv g m1)) mv nm fs authID (br_SessionID r) (now + mx_ttl m1)"
    using addGroup_ok [OF k(1)] g by metis
  moreover have "mx_ttl m1 = mx_ttl m" using k(3) by (simp add: same_limits_as_def)
  ultimately show ?thesis unfolding b prod.case using k(3) limits_trans by metis
qed

lemma bindLocked_ok:
  assumes ok: "tables_ok mv S sys m" and n: "n = boundary sys fs" "n \<le> int (length fs)" and len: "int (length fs) \<le> mx_maxTurns m"
    and fs: "fs \<in> S" and auth: "authID \<noteq> []" and inj: "inj_on (sequenceKey mv) S"
  shows "case bindLocked mv nm fs n authID now m of (r, m') \<Rightarrow>
    matcher_ok mv S sys m' \<and> same_limits_as m m' \<and> held m' mv nm fs authID (br_SessionID r) (now + mx_ttl m)"
proof -
  let ?n = "namespaceLocked nm m" and ?key = "sequenceKey mv fs"
  note ns = namespace_ok(1,2) [OF ok, where nm = nm]
  have lim: "same_limits_as m ?n" by (rule fewer_limits [OF ns(2)])
  then have ttl: "mx_ttl ?n = mx_ttl m" "int (length fs) \<le> mx_maxTurns ?n" using len by (simp_all add: same_limits_as_def)
  have tbl: "mget (ln_groups (mgetd emptyNamespace (mx_groups ?n) nm)) ?key = tbl ?n nm ?key"
    by (simp add: tbl_def mgetd_def emptyNamespace_def split: option.split)
  show ?thesis
  proof (cases "tbl ?n nm ?key")
    case None
    then have b: "bindLocked mv nm fs n authID now m = bindNew mv nm fs n authID now ?n" by (simp add: bindLocked_def Let_def tbl)
    show ?thesis using bindNew_ok [OF ns(1) n ttl(2) fs auth None, where now = now] lim ttl(1) limits_trans unfolding b by (auto split: prod.splits)
  next
    case (Some a)
    let ?g = "groupAt ?n a" and ?m = "removeGroupLocked a ?n"
    have a: "a \<in> set (mx_lru ?n)" "lg_namespace ?g = nm" "lg_key ?g = ?key" using tables_okD(3) [OF ns(1) Some] by simp_all
    have wf: "group_wf mv S sys ?g" using tables_okD(2) [OF ns(1) a(1)] by (simp add: queued_def)
    then have same: "lg_fingerprints ?g = fs" using inj fs a(3) by (auto simp: group_wf_def inj_on_def)
    note rm = remove_ok [OF ns(1) a(1)]
    have free: "tbl ?m nm ?key = None" using remove_tables(1) [OF ns(1) a(1)] a by simp
    have lim': "same_limits_as m ?m" using lim by (simp add: same_limits_as_def mx_remove_fields)
    then have ttl': "mx_ttl ?m = mx_ttl m" "int (length fs) \<le> mx_maxTurns ?m" using len by (simp_all add: same_limits_as_def)
    show ?thesis
    proof (cases "Before now (lg_expiresAt ?g)")
      case True
      define g where "g = \<lparr>lg_key = ?key, lg_namespace = nm, lg_authID = authID, lg_sessionID = lg_sessionID ?g,
        lg_parentSessionID = lg_parentSessionID ?g, lg_minPrefixLength = n, lg_fingerprints = fs, lg_prefixKeys = lg_prefixKeys ?g,
        lg_expiresAt = now + mx_ttl ?m, lg_lastAccessNumber = 0\<rparr>"
      obtain r where b: "bindLocked mv nm fs n authID now m = (r, snd (addGroupLocked mv g ?m))" and r: "br_SessionID r = lg_sessionID g"
        using Some True by (force simp: bindLocked_def Let_def tbl g_def split: prod.splits)
      have "group_wf mv S sys g" using wf same fs auth n by (simp add: group_wf_def g_def)
      then have "matcher_ok mv S sys (snd (addGroupLocked mv g ?m)) \<and> same_limits_as ?m (snd (addGroupLocked mv g ?m))
        \<and> held (snd (addGroupLocked mv g ?m)) mv nm fs authID (lg_sessionID g) (now + mx_ttl ?m)"
        using addGroup_ok [OF rm, of g] free ttl'(2) by (simp add: g_def)
      then show ?thesis unfolding b prod.case r using ttl'(1) lim' limits_trans by metis
    next
      case False
      then have b: "bindLocked mv nm fs n authID now m = bindNew mv nm fs n authID now ?m" using Some by (simp add: bindLocked_def Let_def tbl)
      show ?thesis using bindNew_ok [OF rm n ttl'(2) fs auth free, where now = now] lim' ttl'(1) limits_trans
        unfolding b by (auto split: prod.splits)
    qed
  qed
qed

lemma touchLocked_ok:
  assumes ok: "matcher_ok mv S sys m" and n: "n = boundary sys fs" "n \<le> int (length fs)" and len: "int (length fs) \<le> mx_maxTurns m"
    and fs: "fs \<in> S" and auth: "authID \<noteq> []" and inj: "inj_on (sequenceKey mv) S"
  shows "matcher_ok mv S sys (snd (touchLocked mv nm fs n authID now m))" and "same_limits_as m (snd (touchLocked mv nm fs n authID now m))"
proof -
  let ?n = "namespaceLocked nm m" and ?key = "sequenceKey mv fs" and ?m' = "snd (touchLocked mv nm fs n authID now m)"
  have tok: "tables_ok mv S sys m" using ok by (simp add: matcher_ok_def)
  note ns = namespace_ok [OF tok, where nm = nm]
  have lim: "same_limits_as m ?n" by (rule fewer_limits [OF ns(2)])
  have nok: "matcher_ok mv S sys ?n" using ok ns lim by (simp add: matcher_ok_def same_limits_as_def)
  have tbl: "mget (ln_groups (mgetd emptyNamespace (mx_groups ?n) nm)) ?key = tbl ?n nm ?key"
    by (simp add: tbl_def mgetd_def emptyNamespace_def split: option.split)
  have bound: "matcher_ok mv S sys (snd (bindLocked mv nm fs n authID now k)) \<and> same_limits_as m (snd (bindLocked mv nm fs n authID now k))"
    if "tables_ok mv S sys k" "same_limits_as m k" for k
  proof -
    have "int (length fs) \<le> mx_maxTurns k" using len that(2) by (simp add: same_limits_as_def)
    from bindLocked_ok [OF that(1) n this fs auth inj, where nm = nm and now = now] show ?thesis
      using limits_trans [OF that(2)] by (auto split: prod.splits)
  qed
  have "matcher_ok mv S sys ?m' \<and> same_limits_as m ?m'"
  proof (cases "tbl ?n nm ?key")
    case None
    then have "?m' = snd (bindLocked mv nm fs n authID now ?n)" by (simp add: touchLocked_def Let_def tbl)
    then show ?thesis using bound [OF ns(1) lim] by simp
  next
    case (Some a)
    have a: "a \<in> set (mx_lru ?n)" using tables_okD(3) [OF ns(1) Some] by simp
    have "?m' = snd (bindLocked mv nm fs n authID now (removeGroupLocked a ?n)) \<or> ?m' = ?n \<or> ?m' = used a (now + mx_ttl ?n) ?n"
      using Some by (auto simp: touchLocked_def Let_def tbl nextAccessNumberLocked_def used_def)
    moreover have "same_limits_as m (removeGroupLocked a ?n)" using lim by (simp add: same_limits_as_def mx_remove_fields)
    moreover have "matcher_ok mv S sys (used a (now + mx_ttl ?n) ?n)" using nok used_ok [OF ns(1) a] by (simp add: matcher_ok_def used_fields)
    ultimately show ?thesis using bound [OF remove_ok [OF ns(1) a]] nok lim limits_trans [OF lim used_limits] by metis
  qed
  then show "matcher_ok mv S sys ?m'" "same_limits_as m ?m'" by simp_all
qed

section \<open>Every sequence of calls\<close>

inductive matcher_step :: "MatcherEnv \<Rightarrow> CanonicalTurn list set \<Rightarrow> MerklePrefixMatcher \<Rightarrow> MerklePrefixMatcher \<Rightarrow> bool" for mv T m where
  match: "matcher_step mv T m (snd (mx_Match mv clock nm turns m))"
| bind: "turns \<in> T \<Longrightarrow> matcher_step mv T m (snd (BindWithResult mv clock nm turns authID m))"
| touch: "turns \<in> T \<Longrightarrow> matcher_step mv T m (snd (mx_Touch mv clock nm turns authID m))"
| remove: "matcher_step mv T m (snd (RemoveFingerprintsBefore mv now nm fs authID generation m))"
| invalidate: "matcher_step mv T m (mx_InvalidateAuth authID m)"
| clear: "matcher_step mv T m (mx_Clear m)"

inductive matcher_reaches :: "MatcherEnv \<Rightarrow> CanonicalTurn list set \<Rightarrow> MerklePrefixMatcherConfig \<Rightarrow> MerklePrefixMatcher \<Rightarrow> bool" for mv T cfg where
  start: "matcher_reaches mv T cfg (NewMerklePrefixMatcherWithConfig cfg)"
| step: "matcher_reaches mv T cfg m \<Longrightarrow> matcher_step mv T m m' \<Longrightarrow> matcher_reaches mv T cfg m'"

definition conversations :: "MatcherEnv \<Rightarrow> int \<Rightarrow> CanonicalTurn list set \<Rightarrow> string list set" where
  "conversations mv k T = (\<lambda>turns. map (mv_FastTurnFingerprint mv) (take (nat k) turns)) ` T"

text \<open>Named hypotheses: a fingerprint tells a system turn; the rolling hash keeps the conversations that are bound apart.\<close>

definition tells_system :: "MatcherEnv \<Rightarrow> (string \<Rightarrow> bool) \<Rightarrow> bool" where
  "tells_system mv sys \<longleftrightarrow> (\<forall>t. sys (mv_FastTurnFingerprint mv t) \<longleftrightarrow> isSystem t)"

definition no_collision :: "MatcherEnv \<Rightarrow> int \<Rightarrow> CanonicalTurn list set \<Rightarrow> bool" where
  "no_collision mv k T \<longleftrightarrow> inj_on (sequenceKey mv) (conversations mv k T)"

definition in_order :: "MatcherEnv \<Rightarrow> (string \<Rightarrow> bool) \<Rightarrow> CanonicalTurn list set \<Rightarrow> MerklePrefixMatcher \<Rightarrow> bool" where
  "in_order mv sys T m \<longleftrightarrow> matcher_ok mv (conversations mv (mx_maxTurns m) T) sys m"

lemma prepared:
  fixes turns :: "CanonicalTurn list"
  assumes "tells_system mv sys" and "0 < mx_maxTurns m"
  defines "fs \<equiv> mx_fingerprints mv m turns"
  shows "case Prepare mv m turns of (f, n) \<Rightarrow>
      sanitizeFingerprints m f n = (if boundary sys fs \<le> int (length fs) then Some (fs, boundary sys fs) else None)"
    and "int (length fs) \<le> mx_maxTurns m" and "turns \<in> T \<Longrightarrow> fs \<in> conversations mv (mx_maxTurns m) T"
  using sanitize_prepared [of sys mv m turns] assms(1,2)
  by (auto simp: tells_system_def Let_def fs_def mx_fingerprints_def conversations_def split: prod.splits)

lemma keeps_order:
  assumes "in_order mv sys T m" and "matcher_ok mv (conversations mv (mx_maxTurns m) T) sys m'" and "same_limits_as m m'"
  shows "in_order mv sys T m' \<and> same_limits_as m m'"
  using assms by (simp add: in_order_def same_limits_as_def)

lemma same_limits_refl [simp]: "same_limits_as m m"
  by (simp add: same_limits_as_def)

lemma match_keeps:
  assumes ok: "in_order mv sys T m" and known: "tells_system mv sys"
  shows "in_order mv sys T (snd (mx_Match mv clock nm turns m)) \<and> same_limits_as m (snd (mx_Match mv clock nm turns m))"
proof -
  let ?S = "conversations mv (mx_maxTurns m) T" and ?fs = "mx_fingerprints mv m turns" and ?p = "prepareLocked (fst clock) m"
  have m: "matcher_ok mv ?S sys m" using ok by (simp add: in_order_def)
  have pos: "0 < mx_maxTurns m" using m tables_okD(9) unfolding matcher_ok_def by blast
  note s = prepared(1) [OF known pos, where turns = turns]
  have p: "matcher_ok mv ?S sys ?p" "tables_ok mv ?S sys ?p" "same_limits_as m ?p"
    using prepareLocked_ok(1) [OF m] prepareLocked_limits [OF m] by (auto simp: matcher_ok_def)
  have "snd (mx_Match mv clock nm turns m) = m \<or> (boundary sys ?fs \<le> int (length ?fs)
      \<and> snd (mx_Match mv clock nm turns m) = snd (matchLocked mv nm ?fs (boundary sys ?fs) (snd clock) ?p))"
    using s by (auto simp: mx_Match_def MatchFingerprints_def split: prod.splits if_splits)
  then show ?thesis
  proof (elim disjE conjE)
    assume b: "boundary sys ?fs \<le> int (length ?fs)"
      and e: "snd (mx_Match mv clock nm turns m) = snd (matchLocked mv nm ?fs (boundary sys ?fs) (snd clock) ?p)"
    note k = matchLocked_ok [OF p(2) refl b, where nm = nm and now = "snd clock"]
    show ?thesis unfolding e by (rule keeps_order [OF ok k(2) [OF p(1)] limits_trans [OF p(3) k(3)]])
  qed (use ok in simp)
qed

lemma bind_is:
  assumes ok: "in_order mv sys T m" and known: "tells_system mv sys" and keys: "no_collision mv (mx_maxTurns m) T" and T: "turns \<in> T"
  defines "fs \<equiv> mx_fingerprints mv m turns"
  shows "case BindWithResult mv clock nm turns authID m of (r, m') \<Rightarrow> in_order mv sys T m' \<and> same_limits_as m m'
    \<and> (TrimSpace nm \<noteq> [] \<and> TrimSpace authID \<noteq> [] \<and> boundary sys fs \<le> int (length fs) \<longrightarrow>
         held m' mv nm fs (TrimSpace authID) (br_SessionID r) (snd clock + mx_ttl m))"
proof -
  let ?S = "conversations mv (mx_maxTurns m) T" and ?p = "prepareLocked (fst clock) m"
  have m: "matcher_ok mv ?S sys m" using ok by (simp add: in_order_def)
  have pos: "0 < mx_maxTurns m" using m tables_okD(9) unfolding matcher_ok_def by blast
  note s = prepared [OF known pos, where turns = turns, folded fs_def]
  have p: "tables_ok mv ?S sys ?p" "same_limits_as m ?p" using prepareLocked_ok(1) [OF m] prepareLocked_limits [OF m] by (auto simp: matcher_ok_def)
  have pl: "mx_ttl ?p = mx_ttl m" "int (length fs) \<le> mx_maxTurns ?p" using p(2) s(2) by (simp_all add: same_limits_as_def)
  obtain f n where prep: "Prepare mv m turns = (f, n)" by force
  show ?thesis
  proof (cases "TrimSpace nm \<noteq> [] \<and> TrimSpace authID \<noteq> [] \<and> boundary sys fs \<le> int (length fs)")
    case True
    then have e: "BindWithResult mv clock nm turns authID m
        = bindLocked mv nm fs (boundary sys fs) (TrimSpace authID) (snd clock) ?p"
      using s(1) by (simp add: BindWithResult_def BindFingerprintsWithResult_def prep)
    have c: "boundary sys fs \<le> int (length fs)" "TrimSpace authID \<noteq> []" using True by simp_all
    show ?thesis
      using bindLocked_ok [OF p(1) refl c(1) pl(2) s(3) [OF T] c(2) keys [unfolded no_collision_def], where nm = nm and now = "snd clock"]
        keeps_order [OF ok] limits_trans [OF p(2)]
      unfolding e pl(1) by (auto split: prod.splits)
  next
    case False
    then have "BindWithResult mv clock nm turns authID m = (zeroBindResult, m)"
      using s(1) by (auto simp: BindWithResult_def BindFingerprintsWithResult_def prep)
    then show ?thesis using False ok by auto
  qed
qed

lemma touch_keeps:
  assumes ok: "in_order mv sys T m" and known: "tells_system mv sys" and keys: "no_collision mv (mx_maxTurns m) T" and T: "turns \<in> T"
  shows "in_order mv sys T (snd (mx_Touch mv clock nm turns authID m)) \<and> same_limits_as m (snd (mx_Touch mv clock nm turns authID m))"
proof -
  let ?S = "conversations mv (mx_maxTurns m) T" and ?fs = "mx_fingerprints mv m turns" and ?p = "prepareLocked (fst clock) m"
  have m: "matcher_ok mv ?S sys m" using ok by (simp add: in_order_def)
  have pos: "0 < mx_maxTurns m" using m tables_okD(9) unfolding matcher_ok_def by blast
  note s = prepared [OF known pos, where turns = turns]
  have p: "matcher_ok mv ?S sys ?p" "same_limits_as m ?p" using prepareLocked_ok(1) [OF m] prepareLocked_limits [OF m] by auto
  have pl: "int (length ?fs) \<le> mx_maxTurns ?p" using p(2) s(2) by (simp add: same_limits_as_def)
  obtain f n where prep: "Prepare mv m turns = (f, n)" by force
  have "snd (mx_Touch mv clock nm turns authID m) = m \<or> (boundary sys ?fs \<le> int (length ?fs) \<and> TrimSpace authID \<noteq> []
      \<and> snd (mx_Touch mv clock nm turns authID m)
        = snd (touchLocked mv nm ?fs (boundary sys ?fs) (TrimSpace authID) (snd clock) ?p))"
    using s(1) by (auto simp: mx_Touch_def TouchFingerprints_def prep)
  then show ?thesis
  proof (elim disjE conjE)
    assume b: "boundary sys ?fs \<le> int (length ?fs)" and auth: "TrimSpace authID \<noteq> []"
      and e: "snd (mx_Touch mv clock nm turns authID m)
        = snd (touchLocked mv nm ?fs (boundary sys ?fs) (TrimSpace authID) (snd clock) ?p)"
    note k = touchLocked_ok [OF p(1) refl b pl s(3) [OF T] auth keys [unfolded no_collision_def], where nm = nm and now = "snd clock"]
    show ?thesis unfolding e by (rule keeps_order [OF ok k(1) limits_trans [OF p(2) k(2)]])
  qed (use ok in simp)
qed

lemma remove_keeps:
  fixes nm authID :: string and fs :: "string list" and now :: time and generation :: int
  assumes ok: "in_order mv sys T m"
  defines "m' \<equiv> snd (RemoveFingerprintsBefore mv now nm fs authID generation m)"
  shows "in_order mv sys T m' \<and> same_limits_as m m'"
proof -
  let ?S = "conversations mv (mx_maxTurns m) T" and ?p = "prepareLocked now m"
  have m: "matcher_ok mv ?S sys m" using ok by (simp add: in_order_def)
  have p: "matcher_ok mv ?S sys ?p" "same_limits_as m ?p" using prepareLocked_ok(1) [OF m] prepareLocked_limits [OF m] by auto
  have "m' = m \<or> m' = ?p \<or> (\<exists>key a. tbl ?p nm key = Some a \<and> m' = removeGroupLocked a ?p)"
  proof (cases "nm = [] \<or> authID = [] \<or> fs = []")
    case False
    define keys where "keys = rollingPrefixKeys mv (if int (length fs) > (if mx_maxTurns m \<le> 0 then defaultMatcherMaxTurns else mx_maxTurns m)
      then take (nat (if mx_maxTurns m \<le> 0 then defaultMatcherMaxTurns else mx_maxTurns m)) fs else fs)"
    have r: "RemoveFingerprintsBefore mv now nm fs authID generation m
      = (case mget (mx_groups ?p) nm of None \<Rightarrow> (False, ?p)
         | Some ns \<Rightarrow> if keys = [] then (False, ?p)
             else (case mget (ln_groups ns) (last keys) of None \<Rightarrow> (False, ?p)
               | Some a \<Rightarrow> if lg_authID (groupAt ?p a) \<noteq> authID then (False, ?p)
                   else if generation > 0 \<and> lg_lastAccessNumber (groupAt ?p a) > generation then (False, ?p)
                   else (True, removeGroupLocked a ?p)))"
      unfolding RemoveFingerprintsBefore_def Let_def keys_def by (rule if_not_P [OF False])
    show ?thesis
    proof (cases "mget (mx_groups ?p) nm")
      case (Some ns)
      then show ?thesis by (cases "mget (ln_groups ns) (last keys)") (auto simp: m'_def r tbl_def)
    qed (simp add: m'_def r)
  qed (simp add: m'_def RemoveFingerprintsBefore_def)
  then show ?thesis
  proof (elim disjE exE conjE)
    fix key a assume a: "tbl ?p nm key = Some a" and e: "m' = removeGroupLocked a ?p"
    then have mem: "a \<in> set (mx_lru ?p)" using p(1) tables_okD(3) unfolding matcher_ok_def by blast
    have "same_limits_as m m'" using p(2) by (simp add: e same_limits_as_def mx_remove_fields)
    then show ?thesis using keeps_order [OF ok] remove_matcher_ok [OF p(1) mem] e by blast
  qed (use ok keeps_order [OF ok] p in auto)
qed

lemma clear_ok:
  assumes "matcher_ok mv S sys m"
  shows "matcher_ok mv S sys (mx_Clear m)"
  using assms by (simp add: matcher_ok_def tables_ok_def mx_Clear_def namespaces_wf_def tbl_def bkt_def)

lemma matcher_step_keeps:
  assumes "matcher_step mv T m m'" and ok: "in_order mv sys T m" and "tells_system mv sys" and "no_collision mv (mx_maxTurns m) T"
  shows "in_order mv sys T m' \<and> same_limits_as m m'"
  using assms(1)
proof cases
  case (match clock nm turns)
  then show ?thesis using match_keeps [OF ok assms(3)] by simp
next
  case (bind turns clock nm authID)
  then show ?thesis using bind_is [OF ok assms(3,4), where turns = turns and clock = clock and nm = nm and authID = authID] by (auto split: prod.splits)
next
  case (touch turns clock nm authID)
  then show ?thesis using touch_keeps [OF ok assms(3,4)] by simp
next
  case (remove now nm fs authID generation)
  then show ?thesis using remove_keeps [OF ok] by simp
next
  case (invalidate authID)
  have m: "matcher_ok mv (conversations mv (mx_maxTurns m) T) sys m" using ok by (simp add: in_order_def)
  show ?thesis using keeps_order [OF ok] m removeIf_ok(1) [OF m] fewer_limits [OF removeIf_ok(2) [OF m]] ok
    by (simp add: invalidate mx_InvalidateAuth_def)
next
  case clear
  have "same_limits_as m (mx_Clear m)" by (simp add: same_limits_as_def mx_Clear_def)
  then show ?thesis using keeps_order [OF ok] clear_ok ok by (simp add: clear in_order_def)
qed

lemma matcher_reaches_ok:
  assumes "matcher_reaches mv T cfg m" and "tells_system mv sys" and "no_collision mv (mx_maxTurns (NewMerklePrefixMatcherWithConfig cfg)) T"
  shows "in_order mv sys T m \<and> same_limits_as (NewMerklePrefixMatcherWithConfig cfg) m"
  using assms(1)
proof induction
  case start
  show ?case
    by (simp add: in_order_def matcher_ok_def tables_ok_def NewMerklePrefixMatcherWithConfig_def Let_def namespaces_wf_def tbl_def bkt_def
        defaultMatcherMaxTurns_def defaultMatcherMaxGroups_def defaultMatcherMaxPrefixes_def hour_def minute_def second_def)
next
  case (step m m')
  then have "mx_maxTurns m = mx_maxTurns (NewMerklePrefixMatcherWithConfig cfg)" by (simp add: same_limits_as_def)
  then show ?case using matcher_step_keeps [OF step.hyps(2) _ assms(2)] step.IH assms(3) limits_trans by metis
qed

section \<open>What a match finds\<close>

lemma shares_prepared:
  assumes "matcher_ok mv S sys m" and "t \<le> now"
  shows "shares (prepareLocked t m) sys nm fs now k a \<longleftrightarrow> shares m sys nm fs now k a"
proof -
  let ?p = "prepareLocked t m" and ?key = "lg_key (groupAt m a)"
  have f: "groupAt ?p = groupAt m" "tbl ?p nm ?key = tbl m nm ?key
      \<or> (tbl ?p nm ?key = None \<and> (\<exists>b. tbl m nm ?key = Some b \<and> \<not> Before t (lg_expiresAt (groupAt m b))))"
    using prepareLocked_ok(2) [OF assms(1), of t] by (simp_all add: fewer_def)
  then show ?thesis using assms(2) unfolding shares_def f(1) by (elim disjE conjE exE) auto
qed

lemma match_found:
  fixes turns :: "CanonicalTurn list"
  assumes ok: "in_order mv sys T m" and known: "tells_system mv sys" and "fst clock \<le> snd clock" and "nm \<noteq> []"
  defines "fs \<equiv> mx_fingerprints mv m turns"
  shows "case fst (mx_Match mv clock nm turns m) of
      None \<Rightarrow> \<forall>k a. \<not> shares m sys nm fs (snd clock) k a
    | Some r \<Rightarrow> \<exists>a. shares m sys nm fs (snd clock) (mm_PrefixLength r) a
        \<and> mm_AuthID r = lg_authID (groupAt m a) \<and> (\<not> mm_IsFork r \<longrightarrow> mm_SessionID r = lg_sessionID (groupAt m a))
        \<and> (mm_IsFork r \<longleftrightarrow> mm_PrefixLength r < int (length (lg_fingerprints (groupAt m a))) \<and> mm_PrefixLength r < int (length fs))
        \<and> (\<forall>k b. shares m sys nm fs (snd clock) k b \<longrightarrow> k \<le> mm_PrefixLength r
             \<and> (k = mm_PrefixLength r \<longrightarrow> \<not> newerGroup (groupAt m b) (groupAt m a)))"
proof -
  let ?S = "conversations mv (mx_maxTurns m) T" and ?p = "prepareLocked (fst clock) m"
  have m: "matcher_ok mv ?S sys m" using ok by (simp add: in_order_def)
  have pos: "0 < mx_maxTurns m" using m tables_okD(9) unfolding matcher_ok_def by blast
  note s = prepared(1) [OF known pos, where turns = turns, folded fs_def]
  obtain f n where prep: "Prepare mv m turns = (f, n)" by force
  have p: "tables_ok mv ?S sys ?p" "groupAt ?p = groupAt m" using prepareLocked_ok [OF m, of "fst clock"] by (simp_all add: matcher_ok_def fewer_def)
  note sh = shares_prepared [OF m assms(3)]
  show ?thesis
  proof (cases "boundary sys fs \<le> int (length fs)")
    case True
    then have e: "mx_Match mv clock nm turns m = matchLocked mv nm fs (boundary sys fs) (snd clock) ?p"
      using s assms(4) by (simp add: mx_Match_def MatchFingerprints_def prep)
    obtain r m' where run: "matchLocked mv nm fs (boundary sys fs) (snd clock) ?p = (r, m')" by force
    note k = matchLocked_is [OF p(1) refl True, where nm = nm and now = "snd clock", unfolded run prod.case sh p(2)]
    show ?thesis
    proof (cases r)
      case None
      show ?thesis unfolding e run fst_conv None option.case using k unfolding None option.case by (rule conjunct2)
    next
      case (Some x)
      show ?thesis unfolding e run fst_conv Some option.case using k unfolding Some option.case by blast
    qed
  next
    case False
    then have "mx_Match mv clock nm turns m = (None, m)" using s by (simp add: mx_Match_def MatchFingerprints_def prep)
    moreover have "\<not> shares m sys nm fs (snd clock) k a" for k a using False by (auto simp: shares_def)
    ultimately show ?thesis by simp
  qed
qed

section \<open>The properties\<close>

text \<open>C11: After every sequence of matches, binds, touches, removals, invalidations and clears of a prefix matcher the
  number of conversations and the number of prefixes indexed are within their limits and counted right, the index has a
  group under a prefix exactly when the table holds it and the prefix is one of its own, and the groups are queued in the
  order of their last access, so an eviction takes the least recently used.\<close>

theorem prefix_matcher_consistent:
  assumes "matcher_reaches mv T cfg m" and "tells_system mv sys"
    and "no_collision mv (mx_maxTurns (NewMerklePrefixMatcherWithConfig cfg)) T"
  shows "int (length (mx_lru m)) = mx_groupCount m \<and> mx_groupCount m \<le> mx_maxGroups m
    \<and> mx_prefixCount m = (\<Sum>a\<leftarrow>mx_lru m. int (length (lg_fingerprints (groupAt m a)))) \<and> mx_prefixCount m \<le> mx_maxPrefixes m
    \<and> (\<forall>nm p key a. bkt m nm p key = Some a
          \<longleftrightarrow> tbl m nm key = Some a \<and> p \<in> set (rollingPrefixKeys mv (lg_fingerprints (groupAt m a))))
    \<and> (\<forall>a. a \<in> set (mx_lru m) \<longleftrightarrow> tbl m (lg_namespace (groupAt m a)) (sequenceKey mv (lg_fingerprints (groupAt m a))) = Some a)
    \<and> sorted_wrt (<) (map (\<lambda>a. lg_lastAccessNumber (groupAt m a)) (mx_lru m))"
proof -
  have m: "matcher_ok mv (conversations mv (mx_maxTurns m) T) sys m" using matcher_reaches_ok [OF assms] by (simp add: in_order_def)
  then have t: "tables_ok mv (conversations mv (mx_maxTurns m) T) sys m" by (simp add: matcher_ok_def)
  note inv = tables_okD [OF t]
  have wf: "lg_key (groupAt m a) = sequenceKey mv (lg_fingerprints (groupAt m a))"
    "lg_prefixKeys (groupAt m a) = rollingPrefixKeys mv (lg_fingerprints (groupAt m a))" if "a \<in> set (mx_lru m)" for a
    using inv(2) [OF that] by (simp_all add: queued_def group_wf_def)
  have "bkt m nm p key = Some a \<longleftrightarrow> tbl m nm key = Some a \<and> p \<in> set (rollingPrefixKeys mv (lg_fingerprints (groupAt m a)))" for nm p key a
  proof (cases "tbl m nm key = Some a")
    case True
    have "a \<in> set (mx_lru m)" using inv(3) [OF True] by (rule conjunct1)
    then show ?thesis by (simp only: inv(4) wf(2))
  qed (simp add: inv(4))
  moreover have "a \<in> set (mx_lru m) \<longleftrightarrow> tbl m (lg_namespace (groupAt m a)) (sequenceKey mv (lg_fingerprints (groupAt m a))) = Some a" for a
  proof
    assume a: "a \<in> set (mx_lru m)"
    have "tbl m (lg_namespace (groupAt m a)) (lg_key (groupAt m a)) = Some a" using lru_tbl [OF t] a by (rule iffD1)
    then show "tbl m (lg_namespace (groupAt m a)) (sequenceKey mv (lg_fingerprints (groupAt m a))) = Some a" unfolding wf(1) [OF a] .
  next
    assume "tbl m (lg_namespace (groupAt m a)) (sequenceKey mv (lg_fingerprints (groupAt m a))) = Some a"
    from inv(3) [OF this] show "a \<in> set (mx_lru m)" by (rule conjunct1)
  qed
  moreover have "mx_prefixCount m = (\<Sum>a\<leftarrow>mx_lru m. int (length (lg_fingerprints (groupAt m a))))"
    unfolding inv(8) by (rule arg_cong [where f = sum_list]) (simp add: wf(2))
  moreover have "int (length (mx_lru m)) = mx_groupCount m" "mx_groupCount m \<le> mx_maxGroups m" "mx_prefixCount m \<le> mx_maxPrefixes m"
    using m inv(7) by (simp_all add: matcher_ok_def)
  moreover have "sorted_wrt (<) (map (\<lambda>a. lg_lastAccessNumber (groupAt m a)) (mx_lru m))"
    using inv(5) by (simp add: access_def [abs_def])
  ultimately show ?thesis by blast
qed

text \<open>C5: A match answers with the longest known conversation: when it finds none, no live group of the namespace shares
  a prefix that has more than system turns; when it finds one, the credential and, unless the conversation forks there,
  the session are those of a live group that shares the prefix of the length reported, no live group shares a longer one,
  and of those that share it none is newer.\<close>

theorem prefix_match_longest:
  assumes "matcher_reaches mv T cfg m" and "tells_system mv sys"
    and "no_collision mv (mx_maxTurns (NewMerklePrefixMatcherWithConfig cfg)) T" and "fst clock \<le> snd clock" and "nm \<noteq> []"
  shows "case fst (mx_Match mv clock nm turns m) of
      None \<Rightarrow> \<forall>k a. \<not> shares m sys nm (mx_fingerprints mv m turns) (snd clock) k a
    | Some r \<Rightarrow> \<exists>a. shares m sys nm (mx_fingerprints mv m turns) (snd clock) (mm_PrefixLength r) a
        \<and> mm_AuthID r = lg_authID (groupAt m a) \<and> (\<not> mm_IsFork r \<longrightarrow> mm_SessionID r = lg_sessionID (groupAt m a))
        \<and> (mm_IsFork r \<longleftrightarrow> mm_PrefixLength r < int (length (lg_fingerprints (groupAt m a)))
             \<and> mm_PrefixLength r < int (length (mx_fingerprints mv m turns)))
        \<and> (\<forall>k b. shares m sys nm (mx_fingerprints mv m turns) (snd clock) k b \<longrightarrow> k \<le> mm_PrefixLength r
             \<and> (k = mm_PrefixLength r \<longrightarrow> \<not> newerGroup (groupAt m b) (groupAt m a)))"
  by (rule match_found [OF matcher_reaches_ok [OF assms(1-3), THEN conjunct1] assms(2,4,5)])

text \<open>C21: Binding a conversation and looking it up round-trip. When a match with the same turns is the next call after the
  bind, at any time before the time to live of the binding is over, it finds the conversation and reports its whole length.
  The credential and the session it answers are those that the bind stored, provided that no longer live conversation of
  the namespace begins with these turns (such a one may be newer and answer in its place). The conversation has to reach
  beyond its system turns, and the credential and the namespace must not be blank. Other calls in between may evict the
  conversation, as the limits on groups and prefixes demand, or remove it; nothing is claimed then.\<close>

theorem bound_conversation_found:
  assumes "matcher_reaches mv T cfg m" and "tells_system mv sys"
    and "no_collision mv (mx_maxTurns (NewMerklePrefixMatcherWithConfig cfg)) T" and "turns \<in> T"
    and "TrimSpace nm \<noteq> []" and "TrimSpace authID \<noteq> []" and "boundary sys (mx_fingerprints mv m turns) \<le> int (length (mx_fingerprints mv m turns))"
    and "BindWithResult mv clock nm turns authID m = (b, m')"
    and "fst clock' \<le> snd clock'" and "snd clock' < snd clock + mx_ttl m"
  shows "\<exists>r. fst (mx_Match mv clock' nm turns m') = Some r \<and> mm_PrefixLength r = int (length (mx_fingerprints mv m turns))
    \<and> ((\<forall>a. shares m' sys nm (mx_fingerprints mv m turns) (snd clock') (mm_PrefixLength r) a
            \<longrightarrow> int (length (lg_fingerprints (groupAt m' a))) = mm_PrefixLength r)
        \<longrightarrow> mm_AuthID r = TrimSpace authID \<and> mm_SessionID r = br_SessionID b)"
proof -
  let ?fs = "mx_fingerprints mv m turns"
  note reached = matcher_reaches_ok [OF assms(1-3)]
  then have ok: "in_order mv sys T m" and keys: "no_collision mv (mx_maxTurns m) T" using assms(3) by (simp_all add: same_limits_as_def)
  have bound: "in_order mv sys T m'" "same_limits_as m m'" "held m' mv nm ?fs (TrimSpace authID) (br_SessionID b) (snd clock + mx_ttl m)"
    using bind_is [OF ok assms(2) keys assms(4), where clock = clock and nm = nm and authID = authID] assms(5-8) by simp_all
  have fs: "mx_fingerprints mv m' turns = ?fs" using bound(2) by (simp add: mx_fingerprints_def same_limits_as_def)
  have nm: "nm \<noteq> []" using assms(5) by (auto simp: TrimSpace_def)
  obtain a where a: "tbl m' nm (sequenceKey mv ?fs) = Some a" "lg_fingerprints (groupAt m' a) = ?fs" "lg_authID (groupAt m' a) = TrimSpace authID"
    "lg_sessionID (groupAt m' a) = br_SessionID b" "lg_expiresAt (groupAt m' a) = snd clock + mx_ttl m"
    using bound(3) by (auto simp: held_def)
  have t: "tables_ok mv (conversations mv (mx_maxTurns m') T) sys m'" using bound(1) by (simp add: in_order_def matcher_ok_def)
  have "lg_key (groupAt m' a) = sequenceKey mv ?fs" using tables_okD(3) [OF t a(1)] by simp
  then have sh: "shares m' sys nm ?fs (snd clock') (int (length ?fs)) a" using a assms(7,10) by (simp add: shares_def)
  note found = match_found [OF bound(1) assms(2,9) nm, where turns = turns, unfolded fs]
  then obtain r where r: "fst (mx_Match mv clock' nm turns m') = Some r" using sh by (auto split: option.splits)
  then obtain g where g: "shares m' sys nm ?fs (snd clock') (mm_PrefixLength r) g" "mm_AuthID r = lg_authID (groupAt m' g)"
      "\<not> mm_IsFork r \<longrightarrow> mm_SessionID r = lg_sessionID (groupAt m' g)" "mm_IsFork r \<longrightarrow> mm_PrefixLength r < int (length ?fs)"
    and most: "\<And>k c. shares m' sys nm ?fs (snd clock') k c \<Longrightarrow> k \<le> mm_PrefixLength r"
    using found by auto
  have len: "mm_PrefixLength r = int (length ?fs)" using most [OF sh] g(1) by (simp add: shares_def)
  have "g = a" if "int (length (lg_fingerprints (groupAt m' g))) = mm_PrefixLength r"
  proof -
    have "lg_fingerprints (groupAt m' g) = ?fs" using g(1) that len by (simp add: shares_def)
    moreover have t': "tbl m' nm (lg_key (groupAt m' g)) = Some g" using g(1) by (simp add: shares_def)
    moreover have "lg_key (groupAt m' g) = sequenceKey mv (lg_fingerprints (groupAt m' g))"
      using tables_okD(2) [OF t] tables_okD(3) [OF t t'] by (simp add: queued_def group_wf_def)
    ultimately show "g = a" using a(1) by simp
  qed
  then show ?thesis using r len g a(3,4) by auto
qed

section \<open>Witnesses\<close>

definition prefix_sample_env :: MatcherEnv where
  "prefix_sample_env = \<lparr>mv_Sha256 = (\<lambda>s. [last s]),
     mv_FastTurnFingerprint = (\<lambda>t. (if isSystem t then ''S'' else ''T'') @ concat (map cp_Value (ct_Parts t)))\<rparr>"

definition sample_sys :: "string \<Rightarrow> bool" where
  "sample_sys f \<longleftrightarrow> f \<noteq> [] \<and> hd f = CHR ''S''"

definition sample_turn :: "string \<Rightarrow> string \<Rightarrow> CanonicalTurn" where
  "sample_turn role v = \<lparr>ct_Role = role, ct_Parts = [\<lparr>cp_Kind = ''text'', cp_MIME = [], cp_Value = v, cp_Digest = [], cp_OriginalSize = 1, cp_Sampled = False\<rparr>]\<rparr>"

definition sample_turns :: "CanonicalTurn list" where
  "sample_turns = [sample_turn ''system'' ''s'', sample_turn ''user'' ''u'']"

definition sample_config :: MerklePrefixMatcherConfig where
  "sample_config = \<lparr>mc_TTL = 0, mc_MaxTurns = 8, mc_MaxGroups = 1, mc_MaxPrefixes = 8\<rparr>"

definition sample_bound :: MerklePrefixMatcher where
  "sample_bound = snd (BindWithResult prefix_sample_env (10, 10) ''n'' sample_turns ''a'' (NewMerklePrefixMatcherWithConfig sample_config))"

lemma sample_tells: "tells_system prefix_sample_env sample_sys"
  by (simp add: tells_system_def prefix_sample_env_def sample_sys_def)

lemma sample_no_collision: "no_collision prefix_sample_env k {sample_turns}"
  by (simp add: no_collision_def conversations_def)

lemma prefix_sample_reached: "matcher_reaches prefix_sample_env {sample_turns} sample_config sample_bound"
  unfolding sample_bound_def by (rule matcher_reaches.step [OF matcher_reaches.start matcher_step.bind]) simp

theorem prefix_matcher_consistent_witness:
  "mx_groupCount sample_bound = 1 \<and> mx_groupCount sample_bound \<le> mx_maxGroups sample_bound
    \<and> mx_prefixCount sample_bound = (\<Sum>a\<leftarrow>mx_lru sample_bound. int (length (lg_fingerprints (groupAt sample_bound a))))"
proof -
  have "mx_groupCount sample_bound = 1" by code_simp
  then show ?thesis using prefix_matcher_consistent [OF prefix_sample_reached sample_tells sample_no_collision] by blast
qed

theorem prefix_match_longest_witness:
  "\<exists>r a. fst (mx_Match prefix_sample_env (20, 20) ''n'' (sample_turns @ [sample_turn ''user'' ''v'']) sample_bound) = Some r
    \<and> mm_PrefixLength r = 2 \<and> mm_AuthID r = lg_authID (groupAt sample_bound a)
    \<and> shares sample_bound sample_sys ''n'' (mx_fingerprints prefix_sample_env sample_bound (sample_turns @ [sample_turn ''user'' ''v''])) 20 2 a"
proof -
  let ?turns = "sample_turns @ [sample_turn ''user'' ''v'']"
  have "map_option mm_PrefixLength (fst (mx_Match prefix_sample_env (20, 20) ''n'' ?turns sample_bound)) = Some 2" by code_simp
  then obtain r where r: "fst (mx_Match prefix_sample_env (20, 20) ''n'' ?turns sample_bound) = Some r" "mm_PrefixLength r = 2" by blast
  show ?thesis
    using prefix_match_longest [OF prefix_sample_reached sample_tells sample_no_collision, of "(20, 20)" "''n''" ?turns] r by auto
qed

theorem bound_conversation_found_witness:
  "\<exists>r. fst (mx_Match prefix_sample_env (20, 20) ''n'' sample_turns sample_bound) = Some r
    \<and> mm_PrefixLength r = int (length (mx_fingerprints prefix_sample_env (NewMerklePrefixMatcherWithConfig sample_config) sample_turns))"
proof -
  let ?m = "NewMerklePrefixMatcherWithConfig sample_config"
  let ?b = "fst (BindWithResult prefix_sample_env (10, 10) ''n'' sample_turns ''a'' ?m)"
  have run: "BindWithResult prefix_sample_env (10, 10) ''n'' sample_turns ''a'' ?m = (?b, sample_bound)" by (simp add: sample_bound_def)
  have "boundary sample_sys (mx_fingerprints prefix_sample_env ?m sample_turns) \<le> int (length (mx_fingerprints prefix_sample_env ?m sample_turns))"
    "TrimSpace ''n'' \<noteq> []" "TrimSpace ''a'' \<noteq> []" "snd (20, 20) < snd (10, 10) + mx_ttl ?m" by code_simp+
  then show ?thesis
    using bound_conversation_found [OF matcher_reaches.start sample_tells sample_no_collision _ _ _ _ run, of "(20, 20)"] by auto
qed

end
