(* ===== verification/SessionIdentity.thy ===== *)
theory SessionIdentity
  imports QuotaSignals GoAny
begin

text \<open>
  The identity of a session: which identifier a request is grouped under, and which session is its parent. The model of
  \<open>extractExplicitSessionIDs\<close> of \<open>sdk/cliproxy/auth/selector.go\<close>, of \<open>ExtractSessionInfo\<close> of
  \<open>sdk/cliproxy/session/info.go\<close>, which look for the same signals in the same order, and of the identifiers of
  \<open>sdk/cliproxy/session/identity.go\<close>. JSON documents belong to the third-party package \<open>gjson\<close>; \<open>'j\<close> is its
  \<open>Result\<close> and the record \<open>Gjson\<close> has the operations the code calls.
\<close>

section \<open>Documents and identifiers\<close>

record 'j Gjson =
  gj_Parse :: "string \<Rightarrow> 'j"
  gj_Get :: "'j \<Rightarrow> string \<Rightarrow> 'j"
  gj_Exists :: "'j \<Rightarrow> bool"
  gj_IsString :: "'j \<Rightarrow> bool" \<comment> \<open>\<open>Type == gjson.String\<close>\<close>
  gj_String :: "'j \<Rightarrow> string"
  gj_IsArray :: "'j \<Rightarrow> bool"
  gj_Values :: "'j \<Rightarrow> 'j list" \<comment> \<open>the values that \<open>ForEach\<close> visits, in order\<close>

text \<open>
  \<open>unicode.IsControl\<close> holds of the code points below 32, of 127, and of those from 128 to 159, which UTF-8 writes as the
  byte 194 and a second byte with the same number. The byte 194 never continues another character, so wherever the two
  stand together the loop over the runes of a string decodes that control character, whatever bytes are around it.
\<close>

definition IsControl :: "char \<Rightarrow> bool" where
  \<comment> \<open>a control character of one byte\<close>
  "IsControl c \<longleftrightarrow> byte c < 32 \<or> byte c = 127"

fun hasControl :: "string \<Rightarrow> bool" where
  "hasControl [] = False"
| "hasControl [c] = IsControl c"
| "hasControl (c # d # s) = (IsControl c \<or> (byte c = 194 \<and> 128 \<le> byte d \<and> byte d < 160) \<or> hasControl (d # s))"

definition NormalizeExplicitID :: "string \<Rightarrow> string" where
  "NormalizeExplicitID raw =
     (if hasControl raw then []
      else (let raw' = TrimSpace raw in if raw' = [] \<or> length raw' > 256 then [] else raw'))"

fun firstNonEmpty :: "string list \<Rightarrow> string" where
  \<comment> \<open>a loop that stops at the first value that is not empty\<close>
  "firstNonEmpty [] = []"
| "firstNonEmpty (x # xs) = (if x \<noteq> [] then x else firstNonEmpty xs)"

definition headers_Get :: "Header \<Rightarrow> string \<Rightarrow> string" where
  "headers_Get headers name = (case mget headers (CanonicalHeaderKey name) of Some (v # _) \<Rightarrow> v | _ \<Rightarrow> [])"

definition sessionHeaderValue :: "Header \<Rightarrow> string \<Rightarrow> string" where
  "sessionHeaderValue headers name =
     (let v = NormalizeExplicitID (headers_Get headers name) in
      if v \<noteq> [] then v
      else firstNonEmpty (map NormalizeExplicitID (concat (map snd (filter (\<lambda>(key, _). EqualFold key name) headers)))))"

definition fieldID :: "'j Gjson \<Rightarrow> 'j \<Rightarrow> string \<Rightarrow> string" where
  "fieldID gj doc path = NormalizeExplicitID (gj_String gj (gj_Get gj doc path))"

record 'j Body =
  bd_root :: 'j
  bd_reqRoot :: 'j
  bd_nested :: bool

definition bodyOf :: "'j Gjson \<Rightarrow> string \<Rightarrow> 'j Body option" where
  "bodyOf gj payload =
     (if payload = [] then None
      else (let doc = gj_Parse gj payload;
                req = gj_Get gj doc ''request'';
                nested = (gj_Exists gj req \<and> \<not> gj_Exists gj (gj_Get gj doc ''contents''))
            in Some \<lparr>bd_root = doc, bd_reqRoot = (if nested then req else doc), bd_nested = nested\<rparr>))"

definition rootExists :: "'j Gjson \<Rightarrow> 'j Body option \<Rightarrow> bool" where
  \<comment> \<open>\<open>root.Exists()\<close>\<close>
  "rootExists gj body \<longleftrightarrow> (case body of None \<Rightarrow> False | Some b \<Rightarrow> gj_Exists gj (bd_root b))"

definition pathID :: "'j Gjson \<Rightarrow> 'j Body option \<Rightarrow> string \<Rightarrow> string" where
  \<comment> \<open>at the root, then in the nested request\<close>
  "pathID gj body path =
     (case body of
        None \<Rightarrow> []
      | Some b \<Rightarrow>
          (let v = fieldID gj (bd_root b) path in
           if v \<noteq> [] then v else if bd_nested b then fieldID gj (bd_reqRoot b) path else []))"

definition firstPathID :: "'j Gjson \<Rightarrow> 'j Body option \<Rightarrow> string list \<Rightarrow> string" where
  "firstPathID gj body paths = firstNonEmpty (map (pathID gj body) paths)"

definition forkPaths :: "string list" where
  "forkPaths = [''forked_from_thread_id'', ''forked_from_id'', ''metadata.forked_from_thread_id'', ''metadata.forked_from_id'',
     ''extra_body.forked_from_thread_id'', ''extra_body.forked_from_id'']"

definition isBodyForkCandidate :: "'j Gjson \<Rightarrow> 'j Body option \<Rightarrow> bool" where
  "isBodyForkCandidate gj body \<longleftrightarrow> rootExists gj body \<and> firstPathID gj body forkPaths \<noteq> []"

definition hex_dash :: "char \<Rightarrow> bool" where
  "hex_dash c \<longleftrightarrow> (97 \<le> byte c \<and> byte c \<le> 102) \<or> (48 \<le> byte c \<and> byte c \<le> 57) \<or> byte c = 45"

fun legacyClaudeSession :: "string \<Rightarrow> string option" where
  \<comment> \<open>the group of the leftmost match of \<open>_session_([a-f0-9-]+)$\<close>\<close>
  "legacyClaudeSession [] = None"
| "legacyClaudeSession (c # cs) =
     (let rest = drop 9 (c # cs) in
      if HasPrefix (c # cs) ''_session_'' \<and> rest \<noteq> [] \<and> list_all hex_dash rest then Some rest else legacyClaudeSession cs)"

definition ClaudeMetadataIdentities :: "'j Gjson \<Rightarrow> string \<Rightarrow> string \<times> string \<times> string" where
  "ClaudeMetadataIdentities gj payload =
     (case bodyOf gj payload of
        None \<Rightarrow> ([], [], [])
      | Some b \<Rightarrow>
          (let atRoot = TrimSpace (gj_String gj (gj_Get gj (bd_root b) ''metadata.user_id''));
               userID = (if atRoot = [] \<and> bd_nested b then TrimSpace (gj_String gj (gj_Get gj (bd_reqRoot b) ''metadata.user_id'')) else atRoot)
           in if userID = [] then ([], [], [])
              else if HasPrefix userID ''{''
              then (let parsed = gj_Parse gj userID in
                    (fieldID gj parsed ''session_id'', fieldID gj parsed ''parent_session_id'', fieldID gj parsed ''agent_id''))
              else (case legacyClaudeSession userID of None \<Rightarrow> ([], [], []) | Some s \<Rightarrow> (NormalizeExplicitID s, [], []))))"

definition ClaudeMetadataSessionID :: "'j Gjson \<Rightarrow> string \<Rightarrow> string" where
  "ClaudeMetadataSessionID gj payload = fst (ClaudeMetadataIdentities gj payload)"

definition ClaudeMetadataParentSessionID :: "'j Gjson \<Rightarrow> string \<Rightarrow> string" where
  "ClaudeMetadataParentSessionID gj payload = fst (snd (ClaudeMetadataIdentities gj payload))"

definition parentPaths :: "string list" where
  "parentPaths = [''parent_session_id'', ''parentSessionId'', ''parent_thread_id'', ''parentThreadId'',
     ''forked_from_thread_id'', ''forked_from_id'', ''parent_conversation_id'', ''parentConversationId'',
     ''metadata.parent_session_id'', ''metadata.parent_thread_id'', ''metadata.forked_from_thread_id'', ''metadata.forked_from_id'',
     ''extra_body.parent_session_id'', ''extra_body.parent_thread_id'', ''extra_body.forked_from_thread_id'', ''extra_body.forked_from_id'']"

definition parentIDCandidate :: "'j Gjson \<Rightarrow> string \<Rightarrow> string" where
  "parentIDCandidate gj payload =
     (let p = firstPathID gj (bodyOf gj payload) parentPaths in if p \<noteq> [] then p else ClaudeMetadataParentSessionID gj payload)"

definition bodyAgent :: "'j Gjson \<Rightarrow> 'j Body option \<Rightarrow> string" where
  "bodyAgent gj body =
     (case body of
        None \<Rightarrow> []
      | Some b \<Rightarrow> firstNonEmpty ([fieldID gj (bd_root b) ''metadata.agent_id'', fieldID gj (bd_root b) ''metadata.subagent_id'']
          @ (if bd_nested b then [fieldID gj (bd_reqRoot b) ''metadata.agent_id'', fieldID gj (bd_reqRoot b) ''metadata.subagent_id''] else [])))"

section \<open>The signals of Codex\<close>

record CodexSignals =
  cx_sid :: string
  cx_tid :: string
  cx_parentThread :: string
  cx_forkedFrom :: string
  cx_agentName :: string
  cx_subagent :: bool

definition codexTurnMeta :: "'j Gjson \<Rightarrow> Header \<Rightarrow> 'j option" where
  \<comment> \<open>\<open>None\<close> when the document does not exist\<close>
  "codexTurnMeta gj headers =
     (case filter (\<lambda>(k, v). EqualFold k ''X-Codex-Turn-Metadata'' \<and> v \<noteq> []) headers of
        [] \<Rightarrow> None
      | (k, v) # _ \<Rightarrow>
          (let meta = TrimSpace (hd v) in
           if meta = [] then None else if gj_Exists gj (gj_Parse gj meta) then Some (gj_Parse gj meta) else None))"

definition metaID :: "'j Gjson \<Rightarrow> 'j option \<Rightarrow> string \<Rightarrow> string" where
  "metaID gj meta path = (case meta of None \<Rightarrow> [] | Some doc \<Rightarrow> fieldID gj doc path)"

definition cleanAgentName :: "'j Gjson \<Rightarrow> 'j option \<Rightarrow> string" where
  "cleanAgentName gj meta =
     (case meta of
        None \<Rightarrow> []
      | Some doc \<Rightarrow>
          (let rawName = NormalizeExplicitID (TrimSpace (TrimPrefix (TrimPrefix (gj_String gj (gj_Get gj doc ''agent_name'')) ''/root/'') ''/''))
           in if rawName \<noteq> [] \<and> rawName \<noteq> ''root'' \<and> rawName \<noteq> ''main'' then rawName else []))"

definition threadPaths :: "string list" where
  "threadPaths = [''thread_id'', ''threadId'', ''metadata.thread_id'']"

definition codexSignals :: "'j Gjson \<Rightarrow> Header \<Rightarrow> 'j Body option \<Rightarrow> CodexSignals" where
  "codexSignals gj headers body =
     (let meta = codexTurnMeta gj headers;
          sid = firstNonEmpty [sessionHeaderValue headers ''Session-Id'', sessionHeaderValue headers ''Session_id'', metaID gj meta ''session_id''];
          tid0 = firstNonEmpty [sessionHeaderValue headers ''Thread-Id'', sessionHeaderValue headers ''Thread_id'', metaID gj meta ''thread_id''];
          tid = (if tid0 = [] \<and> sid \<noteq> [] \<and> rootExists gj body then firstPathID gj body threadPaths else tid0);
          forked0 = firstNonEmpty [metaID gj meta ''forked_from_thread_id'', metaID gj meta ''forked_from_id''];
          subVal = sessionHeaderValue headers ''X-Openai-Subagent''
      in \<lparr>cx_sid = sid, cx_tid = tid,
          cx_parentThread = firstNonEmpty [sessionHeaderValue headers ''x-codex-parent-thread-id'',
            sessionHeaderValue headers ''X-Codex-Parent-Thread-Id'', metaID gj meta ''parent_thread_id''],
          cx_forkedFrom = (if forked0 = [] \<and> rootExists gj body then firstPathID gj body forkPaths else forked0),
          cx_agentName = cleanAgentName gj meta,
          cx_subagent = ((subVal \<noteq> [] \<and> \<not> EqualFold subVal ''false'' \<and> subVal \<noteq> ''0'')
            \<or> (case meta of None \<Rightarrow> False | Some doc \<Rightarrow> gj_String gj (gj_Get gj doc ''subagent_kind'') = ''thread_spawn''))\<rparr>)"

definition childThread :: "CodexSignals \<Rightarrow> string" where
  "childThread c = (if cx_tid c = [] then cx_sid c else cx_tid c)"

definition forkSession :: "CodexSignals \<Rightarrow> string" where
  "forkSession c =
     (if childThread c = cx_forkedFrom c \<and> cx_sid c \<noteq> [] \<and> cx_sid c \<noteq> cx_forkedFrom c then cx_sid c else childThread c)"

definition isMultiAgent :: "CodexSignals \<Rightarrow> bool" where
  "isMultiAgent c \<longleftrightarrow> cx_subagent c \<or> (cx_tid c \<noteq> [] \<and> cx_sid c \<noteq> [] \<and> cx_tid c \<noteq> cx_sid c)
     \<or> (cx_parentThread c \<noteq> [] \<and> cx_parentThread c \<noteq> cx_tid c \<and> cx_parentThread c \<noteq> cx_sid c)"

end
