(* ===== verification/SessionExtract.thy ===== *)
theory SessionExtract
  imports SessionIdentity
begin

text \<open>
  The two extractors, section by section in the order of their code: Claude Code, Codex, the session headers, the body,
  the execution session. A section that finds no session passes on to the next. \<open>extractExplicitSessionIDs\<close> returns the
  identifier and the one of the parent (empty when there is none) and marks forks in the metadata; \<open>ExtractSessionInfo\<close>
  fills a record.
\<close>

type_synonym Metadata = "(string, goany) gomap"

definition setMeta :: "string \<Rightarrow> goany \<Rightarrow> Metadata option \<Rightarrow> Metadata option" where
  \<comment> \<open>\<open>if metadata != nil { metadata[key] = value }\<close>\<close>
  "setMeta key v metadata = map_option (mput key v) metadata"

definition orElse :: "'a option \<Rightarrow> 'a option \<Rightarrow> 'a option" where
  "orElse x y = (case x of None \<Rightarrow> y | Some _ \<Rightarrow> x)"

definition ExecutionSessionMetadataKey :: string where "ExecutionSessionMetadataKey = ''execution_session_id''"
definition IsForkMetadataKey :: string where "IsForkMetadataKey = ''is_fork''"
definition ParentSessionIDMetadataKey :: string where "ParentSessionIDMetadataKey = ''parent_session_id''"
definition CallerScopeMetadataKey :: string where "CallerScopeMetadataKey = ''caller_scope''"

section \<open>\<open>extractExplicitSessionIDs\<close>\<close>

definition reference :: "string \<Rightarrow> string \<Rightarrow> string \<Rightarrow> string \<Rightarrow> string" where
  \<comment> \<open>the first of two parents that is there and is not the session itself\<close>
  "reference pfx sid parent candidate =
     (if parent \<noteq> [] \<and> parent \<noteq> sid then pfx @ parent else if candidate \<noteq> [] \<and> candidate \<noteq> sid then pfx @ candidate else [])"

definition claudeSession :: "Header \<Rightarrow> string \<Rightarrow> string \<Rightarrow> string \<Rightarrow> string \<Rightarrow> string \<times> string" where
  "claudeSession headers sid agentID parentSID candidate =
     (let parentAgentID = sessionHeaderValue headers ''X-Claude-Code-Parent-Agent-Id'' in
      if agentID \<noteq> [] \<and> agentID \<noteq> ''main''
      then (''claude:'' @ sid @ '':agent:'' @ agentID,
            if parentAgentID \<noteq> [] \<and> parentAgentID \<noteq> ''main'' \<and> parentAgentID \<noteq> agentID
            then ''claude:'' @ sid @ '':agent:'' @ parentAgentID
            else (let r = reference ''claude:'' sid parentSID candidate in if r \<noteq> [] then r else ''claude:'' @ sid))
      else (''claude:'' @ sid, reference ''claude:'' sid parentSID candidate))"

definition claudeIDs :: "'j Gjson \<Rightarrow> Header \<Rightarrow> string \<Rightarrow> (string \<times> string) option" where
  "claudeIDs gj headers payload =
     (let body = bodyOf gj payload;
          candidate = parentIDCandidate gj payload;
          header = sessionHeaderValue headers ''X-Claude-Code-Session-Id'';
          headerAgent = sessionHeaderValue headers ''X-Claude-Code-Agent-Id'';
          inBody = (if rootExists gj body then bodyAgent gj body else [])
      in case ClaudeMetadataIdentities gj payload of (metaSID, metaParent, metaAgent) \<Rightarrow>
         if header \<noteq> [] then Some (claudeSession headers header (firstNonEmpty [headerAgent, inBody, metaAgent]) [] candidate)
         else if metaSID \<noteq> [] then Some (claudeSession headers metaSID (firstNonEmpty [metaAgent, headerAgent, inBody]) metaParent candidate)
         else None)"

definition codexParent :: "CodexSignals \<Rightarrow> string" where
  "codexParent c = (if cx_parentThread c = [] then cx_sid c else cx_parentThread c)"

definition codexIDs ::
  "'j Gjson \<Rightarrow> Header \<Rightarrow> string \<Rightarrow> Metadata option \<Rightarrow> ((string \<times> string) \<times> Metadata option) option" where
  "codexIDs gj headers payload metadata =
     (let c = codexSignals gj headers (bodyOf gj payload);
          candidate = parentIDCandidate gj payload;
          noted = (\<lambda>fallback. if fallback \<noteq> [] then setMeta ParentSessionIDMetadataKey (AnyString fallback) metadata else metadata)
      in if cx_sid c = [] \<and> cx_tid c = [] then None
         else if cx_forkedFrom c \<noteq> []
         then (let fallback = ''codex:'' @ cx_forkedFrom c in
               Some ((''codex:'' @ forkSession c, fallback),
                 setMeta ParentSessionIDMetadataKey (AnyString fallback) (setMeta IsForkMetadataKey (AnyBool True) metadata)))
         else if isMultiAgent c
         then (if cx_agentName c \<noteq> [] \<and> cx_sid c \<noteq> []
               then (let fallback = (if codexParent c \<noteq> [] then ''codex:'' @ codexParent c
                        else if candidate \<noteq> [] \<and> candidate \<noteq> cx_sid c then ''codex:'' @ candidate else [])
                     in Some ((''codex:'' @ cx_sid c @ '':agent:'' @ cx_agentName c, fallback), noted fallback))
               else (let fallback = reference ''codex:'' (childThread c) (codexParent c) candidate
                     in Some ((''codex:'' @ childThread c, fallback), noted fallback)))
         else (let sessionID = (if cx_sid c = [] then cx_tid c else cx_sid c);
                   fallback = reference ''codex:'' sessionID (cx_parentThread c) candidate
               in Some ((''codex:'' @ sessionID, fallback), noted fallback)))"

definition headerSession :: "Header \<Rightarrow> string \<Rightarrow> string \<Rightarrow> string list \<Rightarrow> string \<Rightarrow> (string \<times> string) option" where
  "headerSession headers name pfx parents candidate =
     (let sid = sessionHeaderValue headers name in
      if sid = [] then None
      else Some (pfx @ sid, reference pfx sid (firstNonEmpty (map (sessionHeaderValue headers) parents)) candidate))"

definition headerIDs :: "Header \<Rightarrow> string \<Rightarrow> (string \<times> string) option" where
  "headerIDs headers candidate =
     orElse (headerSession headers ''X-Http-Session-Id'' ''agy:'' [''X-Parent-Session-ID'', ''X-Parent-Session-Id''] candidate)
    (orElse (headerSession headers ''X-Session-ID'' ''header:'' [''X-Parent-Session-ID'', ''X-Parent-Session-Id''] candidate)
    (orElse (headerSession headers ''X-Session-Affinity'' ''affinity:'' [''X-Parent-Session-Affinity'', ''X-Parent-Session-ID''] candidate)
    (orElse (headerSession headers ''X-Slot-Session-Id'' ''slot:'' [''X-Parent-Session-ID'', ''X-Parent-Session-Id''] candidate)
    (orElse (headerSession headers ''X-Conversation-Id'' ''conv:'' [] candidate)
    (orElse (headerSession headers ''X-Conversation-ID'' ''conv:'' [] candidate)
    (orElse (headerSession headers ''X-Thread-Id'' ''thread:'' [] candidate)
    (orElse (headerSession headers ''X-Thread-ID'' ''thread:'' [] candidate)
            (headerSession headers ''X-Client-Request-Id'' ''clientreq:'' [] []))))))))"

definition sessionAgent :: "'j Gjson \<Rightarrow> Header \<Rightarrow> 'j Body \<Rightarrow> string" where
  "sessionAgent gj headers b =
     firstNonEmpty ([fieldID gj (bd_root b) ''metadata.agent_id'', fieldID gj (bd_root b) ''metadata.subagent_id'',
        sessionHeaderValue headers ''X-Claude-Code-Agent-Id'', sessionHeaderValue headers ''x-agent-id'']
      @ (if bd_nested b then [fieldID gj (bd_reqRoot b) ''metadata.agent_id'', fieldID gj (bd_reqRoot b) ''metadata.subagent_id''] else []))"

definition cachePaths :: "string list" where
  "cachePaths = [''cachedContent'', ''cached_content'']"

definition sessionPaths :: "string list" where
  "sessionPaths = [''session_id'', ''sessionId'', ''sessionID'', ''metadata.session_id'', ''extra_body.session_id'']"

definition conversationPaths :: "string list" where
  "conversationPaths = [''conversation_id'', ''conversationId'', ''chat_id'', ''chatId'', ''metadata.conversation_id'', ''extra_body.conversation_id'']"

definition conversationID :: "'j Gjson \<Rightarrow> 'j Body \<Rightarrow> string" where
  "conversationID gj b =
     (let atRoot = gj_Get gj (bd_root b) ''conversation'';
          conversation = (if \<not> gj_Exists gj atRoot \<and> bd_nested b then gj_Get gj (bd_reqRoot b) ''conversation'' else atRoot);
          sid = fieldID gj conversation ''id'';
          whole = NormalizeExplicitID (gj_String gj conversation)
      in if sid \<noteq> [] then ''conv:'' @ sid
         else if gj_IsString gj conversation \<and> whole \<noteq> [] then ''conv:'' @ whole else [])"

definition promptCacheKey :: "'j Gjson \<Rightarrow> 'j Body \<Rightarrow> string" where
  "promptCacheKey gj b =
     firstNonEmpty ([fieldID gj (bd_root b) ''prompt_cache_key'', fieldID gj (bd_root b) ''promptCacheKey'']
      @ (if bd_nested b then [fieldID gj (bd_reqRoot b) ''prompt_cache_key'', fieldID gj (bd_reqRoot b) ''promptCacheKey''] else []))"

definition bodyIDs ::
  "'j Gjson \<Rightarrow> Header \<Rightarrow> string \<Rightarrow> Metadata option \<Rightarrow> ((string \<times> string) \<times> Metadata option) option" where
  "bodyIDs gj headers payload metadata =
     (case bodyOf gj payload of
        None \<Rightarrow> None
      | Some b \<Rightarrow>
          (let body = Some b;
               candidate = parentIDCandidate gj payload;
               cacheID = firstPathID gj body cachePaths;
               tid = firstPathID gj body threadPaths;
               agentID = sessionAgent gj headers b;
               sid = firstPathID gj body sessionPaths;
               conversation = conversationID gj b;
               pck = promptCacheKey gj b;
               userID = pathID gj body ''metadata.user_id'';
               cid = firstPathID gj body conversationPaths;
               forked = (\<lambda>fallback. if fallback \<noteq> [] \<and> isBodyForkCandidate gj body
                  then setMeta ParentSessionIDMetadataKey (AnyString fallback) (setMeta IsForkMetadataKey (AnyBool True) metadata)
                  else metadata)
           in if \<not> rootExists gj body then None
              else if cacheID \<noteq> [] then Some ((''geminicache:'' @ cacheID, reference ''geminicache:'' cacheID [] candidate), metadata)
              else if tid \<noteq> [] then (let fallback = reference ''thread:'' tid [] candidate in Some ((''thread:'' @ tid, fallback), forked fallback))
              else if sid \<noteq> []
              then (if agentID \<noteq> [] \<and> agentID \<noteq> ''main''
                    then Some ((''session:'' @ sid @ '':agent:'' @ agentID,
                           if candidate \<noteq> [] \<and> candidate \<noteq> sid then ''session:'' @ candidate else ''session:'' @ sid), metadata)
                    else (let fallback = reference ''session:'' sid [] candidate in Some ((''session:'' @ sid, fallback), forked fallback)))
              else if pck \<noteq> [] then Some ((''pck:'' @ pck, conversation), metadata)
              else if conversation \<noteq> []
              then Some ((conversation, if candidate \<noteq> [] \<and> ''conv:'' @ candidate \<noteq> conversation then ''conv:'' @ candidate else []), metadata)
              else if userID \<noteq> [] then Some ((''user:'' @ userID, []), metadata)
              else if cid \<noteq> [] then Some ((''conv:'' @ cid, reference ''conv:'' cid [] candidate), metadata)
              else None))"

definition executionID :: "Metadata option \<Rightarrow> string" where
  "executionID metadata =
     (case metadata of
        None \<Rightarrow> []
      | Some md \<Rightarrow> (case mget md ExecutionSessionMetadataKey of Some (AnyString s) \<Rightarrow> NormalizeExplicitID s | _ \<Rightarrow> []))"

definition extractExplicitSessionIDs ::
  "'j Gjson \<Rightarrow> Header \<Rightarrow> string \<Rightarrow> Metadata option \<Rightarrow> (string \<times> string) \<times> Metadata option" where
  "extractExplicitSessionIDs gj headers payload metadata =
     (case claudeIDs gj headers payload of
        Some ids \<Rightarrow> (ids, metadata)
      | None \<Rightarrow>
     (case codexIDs gj headers payload metadata of
        Some r \<Rightarrow> r
      | None \<Rightarrow>
     (case headerIDs headers (parentIDCandidate gj payload) of
        Some ids \<Rightarrow> (ids, metadata)
      | None \<Rightarrow>
     (case bodyIDs gj headers payload metadata of
        Some r \<Rightarrow> r
      | None \<Rightarrow> if executionID metadata \<noteq> [] then ((''execution:'' @ executionID metadata, []), metadata) else (([], []), metadata)))))"

section \<open>\<open>ExtractSessionInfo\<close>\<close>

record SessionInfo =
  si_SessionID :: string
  si_ParentSessionID :: string
  si_AgentName :: string
  si_ClientType :: string
  si_CallerScope :: string
  si_AuthID :: string
  si_Provider :: string
  si_Model :: string
  si_IsFork :: bool
  si_IsSubagent :: bool
  si_Metadata :: Metadata

definition zeroSessionInfo :: SessionInfo where
  "zeroSessionInfo = \<lparr>si_SessionID = [], si_ParentSessionID = [], si_AgentName = [], si_ClientType = [], si_CallerScope = [],
     si_AuthID = [], si_Provider = [], si_Model = [], si_IsFork = False, si_IsSubagent = False, si_Metadata = []\<rparr>"

definition finalizeSessionInfo :: "SessionInfo \<Rightarrow> SessionInfo \<times> bool" where
  "finalizeSessionInfo info =
     (if si_SessionID info = [] then (zeroSessionInfo, False)
      else (let named = (if si_AgentName info = [] then info\<lparr>si_AgentName := ''main''\<rparr> else info);
                typed = (if si_ClientType named = [] then named\<lparr>si_ClientType := ''generic''\<rparr> else named)
            in (if si_ParentSessionID typed = si_SessionID typed then typed\<lparr>si_ParentSessionID := []\<rparr> else typed, True)))"

text \<open>An \<open>if\<close> of the code that sets the parent and the name of the agent.\<close>

definition underParent :: "string \<Rightarrow> string \<Rightarrow> string \<Rightarrow> string \<Rightarrow> string \<Rightarrow> SessionInfo \<Rightarrow> SessionInfo" where
  "underParent pfx sid parent candidate alone info =
     (if parent \<noteq> [] \<and> parent \<noteq> sid then info\<lparr>si_ParentSessionID := pfx @ parent, si_AgentName := ''subagent''\<rparr>
      else if candidate \<noteq> [] \<and> candidate \<noteq> sid then info\<lparr>si_ParentSessionID := pfx @ candidate, si_AgentName := ''subagent''\<rparr>
      else info\<lparr>si_AgentName := alone\<rparr>)"

definition claudeInfoOf :: "Header \<Rightarrow> string \<Rightarrow> string \<Rightarrow> string \<Rightarrow> string \<Rightarrow> SessionInfo \<Rightarrow> SessionInfo" where
  "claudeInfoOf headers sid agentID parentSID candidate info0 =
     (let info = info0\<lparr>si_ClientType := ''claude''\<rparr>;
          parentAgentID = sessionHeaderValue headers ''X-Claude-Code-Parent-Agent-Id''
      in if agentID \<noteq> [] \<and> agentID \<noteq> ''main''
         then info\<lparr>si_SessionID := ''claude:'' @ sid @ '':agent:'' @ agentID, si_AgentName := agentID,
           si_ParentSessionID :=
             (if parentAgentID \<noteq> [] \<and> parentAgentID \<noteq> ''main'' \<and> parentAgentID \<noteq> agentID
              then ''claude:'' @ sid @ '':agent:'' @ parentAgentID
              else if parentSID \<noteq> [] \<and> parentSID \<noteq> sid then ''claude:'' @ parentSID
              else if candidate \<noteq> [] \<and> candidate \<noteq> sid then ''claude:'' @ candidate
              else ''claude:'' @ sid)\<rparr>
         else underParent ''claude:'' sid parentSID candidate ''main'' (info\<lparr>si_SessionID := ''claude:'' @ sid\<rparr>))"

definition claudeInfo :: "'j Gjson \<Rightarrow> Header \<Rightarrow> string \<Rightarrow> SessionInfo \<Rightarrow> SessionInfo option" where
  "claudeInfo gj headers payload info =
     (let body = bodyOf gj payload;
          candidate = parentIDCandidate gj payload;
          header = sessionHeaderValue headers ''X-Claude-Code-Session-Id'';
          headerAgent = sessionHeaderValue headers ''X-Claude-Code-Agent-Id'';
          inBody = (if rootExists gj body then bodyAgent gj body else [])
      in case ClaudeMetadataIdentities gj payload of (metaSID, metaParent, metaAgent) \<Rightarrow>
         if header \<noteq> [] then Some (claudeInfoOf headers header (firstNonEmpty [headerAgent, inBody, metaAgent]) [] candidate info)
         else if payload \<noteq> [] \<and> metaSID \<noteq> []
         then Some (claudeInfoOf headers metaSID (firstNonEmpty [metaAgent, headerAgent, inBody]) metaParent candidate info)
         else None)"

definition codexInfo :: "'j Gjson \<Rightarrow> Header \<Rightarrow> string \<Rightarrow> SessionInfo \<Rightarrow> SessionInfo option" where
  "codexInfo gj headers payload info0 =
     (let c = codexSignals gj headers (bodyOf gj payload);
          candidate = parentIDCandidate gj payload;
          info = info0\<lparr>si_ClientType := ''codex''\<rparr>
      in if cx_sid c = [] \<and> cx_tid c = [] then None
         else if cx_forkedFrom c \<noteq> []
         then Some (info\<lparr>si_SessionID := ''codex:'' @ forkSession c, si_ParentSessionID := ''codex:'' @ cx_forkedFrom c,
                si_AgentName := ''main'', si_IsFork := True, si_IsSubagent := False\<rparr>)
         else if isMultiAgent c
         then (if cx_agentName c \<noteq> [] \<and> cx_sid c \<noteq> []
               then Some (info\<lparr>si_SessionID := ''codex:'' @ cx_sid c @ '':agent:'' @ cx_agentName c, si_AgentName := cx_agentName c,
                      si_ParentSessionID := (if codexParent c \<noteq> [] then ''codex:'' @ codexParent c
                        else if candidate \<noteq> [] \<and> candidate \<noteq> cx_sid c then ''codex:'' @ candidate else si_ParentSessionID info),
                      si_IsSubagent := True\<rparr>)
               else Some (info\<lparr>si_SessionID := ''codex:'' @ childThread c,
                      si_AgentName := (if cx_agentName c \<noteq> [] then cx_agentName c else ''subagent''),
                      si_ParentSessionID := (if codexParent c \<noteq> [] \<and> codexParent c \<noteq> childThread c then ''codex:'' @ codexParent c
                        else if candidate \<noteq> [] \<and> candidate \<noteq> childThread c then ''codex:'' @ candidate else si_ParentSessionID info),
                      si_IsSubagent := True\<rparr>))
         else (let sessionID = (if cx_sid c = [] then cx_tid c else cx_sid c);
                   named = info\<lparr>si_SessionID := ''codex:'' @ sessionID\<rparr>
               in if cx_parentThread c \<noteq> [] \<and> cx_parentThread c \<noteq> sessionID
                  then Some (named\<lparr>si_ParentSessionID := ''codex:'' @ cx_parentThread c, si_AgentName := ''subagent'', si_IsSubagent := True\<rparr>)
                  else if candidate \<noteq> [] \<and> candidate \<noteq> sessionID
                  then Some (named\<lparr>si_ParentSessionID := ''codex:'' @ candidate, si_AgentName := ''subagent'', si_IsSubagent := True\<rparr>)
                  else Some (named\<lparr>si_AgentName := ''main''\<rparr>)))"

definition headerInfoOf ::
  "Header \<Rightarrow> string \<Rightarrow> string \<Rightarrow> string \<Rightarrow> string \<Rightarrow> string list \<Rightarrow> string \<Rightarrow> SessionInfo \<Rightarrow> SessionInfo option" where
  "headerInfoOf headers name pfx client alone parents candidate info =
     (let sid = sessionHeaderValue headers name in
      if sid = [] then None
      else Some (underParent pfx sid (firstNonEmpty (map (sessionHeaderValue headers) parents)) candidate alone
             (info\<lparr>si_ClientType := client, si_SessionID := pfx @ sid\<rparr>)))"

definition headerInfo :: "Header \<Rightarrow> string \<Rightarrow> SessionInfo \<Rightarrow> SessionInfo option" where
  "headerInfo headers candidate info =
     orElse (headerInfoOf headers ''X-Http-Session-Id'' ''agy:'' ''agy'' ''main'' [''X-Parent-Session-ID'', ''X-Parent-Session-Id''] candidate info)
    (orElse (headerInfoOf headers ''X-Session-ID'' ''header:'' ''generic'' ''main'' [''X-Parent-Session-ID'', ''X-Parent-Session-Id''] candidate info)
    (orElse (headerInfoOf headers ''X-Session-Affinity'' ''affinity:'' ''opencode'' ''main'' [''X-Parent-Session-Affinity'', ''X-Parent-Session-ID''] candidate info)
    (orElse (headerInfoOf headers ''X-Slot-Session-Id'' ''slot:'' ''pi'' ''slot'' [''X-Parent-Session-ID'', ''X-Parent-Session-Id''] candidate info)
    (orElse (headerInfoOf headers ''X-Conversation-Id'' ''conv:'' ''conv'' ''main'' [] candidate info)
    (orElse (headerInfoOf headers ''X-Conversation-ID'' ''conv:'' ''conv'' ''main'' [] candidate info)
    (orElse (headerInfoOf headers ''X-Thread-Id'' ''thread:'' ''openai-thread'' ''main'' [] candidate info)
    (orElse (headerInfoOf headers ''X-Thread-ID'' ''thread:'' ''openai-thread'' ''main'' [] candidate info)
            (headerInfoOf headers ''X-Client-Request-Id'' ''clientreq:'' ''generic'' ''main'' [] [] info))))))))"

definition forkOrChild :: "'j Gjson \<Rightarrow> 'j Body option \<Rightarrow> string \<Rightarrow> string \<Rightarrow> string \<Rightarrow> SessionInfo \<Rightarrow> SessionInfo" where
  \<comment> \<open>a body with a parent continues a fork or is a subagent\<close>
  "forkOrChild gj body pfx sid candidate info0 =
     (let info = info0\<lparr>si_SessionID := pfx @ sid\<rparr> in
      if candidate \<noteq> [] \<and> candidate \<noteq> sid
      then (let child = info\<lparr>si_ParentSessionID := pfx @ candidate\<rparr> in
            if isBodyForkCandidate gj body
            then child\<lparr>si_IsFork := True, si_IsSubagent := False, si_AgentName := ''main''\<rparr>
            else child\<lparr>si_AgentName := ''subagent'', si_IsSubagent := True\<rparr>)
      else info\<lparr>si_AgentName := ''main''\<rparr>)"

definition bodyInfo :: "'j Gjson \<Rightarrow> Header \<Rightarrow> string \<Rightarrow> SessionInfo \<Rightarrow> SessionInfo option" where
  "bodyInfo gj headers payload info =
     (case bodyOf gj payload of
        None \<Rightarrow> None
      | Some b \<Rightarrow>
          (let body = Some b;
               candidate = parentIDCandidate gj payload;
               cacheID = firstPathID gj body cachePaths;
               tid = firstPathID gj body threadPaths;
               agentID = sessionAgent gj headers b;
               sid = firstPathID gj body sessionPaths;
               conversation = conversationID gj b;
               pck = promptCacheKey gj b;
               userID = pathID gj body ''metadata.user_id'';
               cid = firstPathID gj body conversationPaths
           in if \<not> rootExists gj body then None
              else if cacheID \<noteq> []
              then Some (underParent ''geminicache:'' cacheID [] candidate ''main'' (info\<lparr>si_ClientType := ''gemini'', si_SessionID := ''geminicache:'' @ cacheID\<rparr>))
              else if tid \<noteq> [] then Some (forkOrChild gj body ''thread:'' tid candidate (info\<lparr>si_ClientType := ''openai-thread''\<rparr>))
              else if sid \<noteq> []
              then (if agentID \<noteq> [] \<and> agentID \<noteq> ''main''
                    then Some (info\<lparr>si_ClientType := ''generic'', si_SessionID := ''session:'' @ sid @ '':agent:'' @ agentID,
                           si_ParentSessionID := (if candidate \<noteq> [] \<and> candidate \<noteq> sid then ''session:'' @ candidate else ''session:'' @ sid),
                           si_AgentName := agentID\<rparr>)
                    else Some (forkOrChild gj body ''session:'' sid candidate (info\<lparr>si_ClientType := ''generic''\<rparr>)))
              else if pck \<noteq> []
              then (let keyed = info\<lparr>si_ClientType := ''generic'', si_SessionID := ''pck:'' @ pck\<rparr> in
                    if conversation \<noteq> [] then Some (keyed\<lparr>si_ParentSessionID := conversation, si_AgentName := ''subagent''\<rparr>)
                    else Some (keyed\<lparr>si_AgentName := ''main''\<rparr>))
              else if conversation \<noteq> []
              then (let conv = info\<lparr>si_ClientType := ''conv'', si_SessionID := conversation\<rparr> in
                    if candidate \<noteq> [] \<and> ''conv:'' @ candidate \<noteq> conversation
                    then Some (conv\<lparr>si_ParentSessionID := ''conv:'' @ candidate, si_AgentName := ''subagent''\<rparr>)
                    else Some (conv\<lparr>si_AgentName := ''main''\<rparr>))
              else if userID \<noteq> [] then Some (info\<lparr>si_ClientType := ''generic'', si_SessionID := ''user:'' @ userID, si_AgentName := ''main''\<rparr>)
              else if cid \<noteq> []
              then Some (underParent ''conv:'' cid [] candidate ''main'' (info\<lparr>si_ClientType := ''conv'', si_SessionID := ''conv:'' @ cid\<rparr>))
              else None))"

definition ExtractSessionInfo :: "'j Gjson \<Rightarrow> Header \<Rightarrow> string \<Rightarrow> Metadata option \<Rightarrow> SessionInfo \<times> bool" where
  "ExtractSessionInfo gj headers payload metadata =
     (let scope = (case metadata of
            None \<Rightarrow> []
          | Some md \<Rightarrow> (case mget md CallerScopeMetadataKey of Some (AnyString s) \<Rightarrow> TrimSpace s | _ \<Rightarrow> []));
          info = zeroSessionInfo\<lparr>si_CallerScope := scope\<rparr>
      in case orElse (claudeInfo gj headers payload info)
            (orElse (codexInfo gj headers payload info)
            (orElse (headerInfo headers (parentIDCandidate gj payload) info)
            (bodyInfo gj headers payload info))) of
           Some found \<Rightarrow> finalizeSessionInfo found
         | None \<Rightarrow>
             if executionID metadata \<noteq> []
             then finalizeSessionInfo (info\<lparr>si_ClientType := ''generic'', si_SessionID := ''execution:'' @ executionID metadata, si_AgentName := ''main''\<rparr>)
             else (zeroSessionInfo, False))"

end
