(* ===== verification/SessionAgreement.thy ===== *)
theory SessionAgreement
  imports SessionExtract
begin

text \<open>
  The two extractors agree on every request, and what they return is clean: printable and bounded.
\<close>

section \<open>Agreement, section by section\<close>

definition idsOf :: "SessionInfo \<Rightarrow> string \<times> string" where
  "idsOf info = (si_SessionID info, si_ParentSessionID info)"

definition isNew :: "SessionInfo \<Rightarrow> bool" where
  \<comment> \<open>no section has filled the record yet\<close>
  "isNew info \<longleftrightarrow> si_ParentSessionID info = [] \<and> \<not> si_IsFork info"

definition forkMarked :: "bool \<Rightarrow> Metadata option \<Rightarrow> Metadata option \<Rightarrow> bool" where
  \<comment> \<open>\<open>metadata'\<close> says of the request that it is a fork, as far as \<open>metadata\<close> does not\<close>
  "forkMarked fork metadata metadata' \<longleftrightarrow> (case (metadata, metadata') of
       (None, None) \<Rightarrow> True
     | (Some md, Some md') \<Rightarrow> mget md' IsForkMetadataKey = (if fork then Some (AnyBool True) else mget md IsForkMetadataKey)
     | _ \<Rightarrow> False)"

lemma orElse_simps [simp]: "orElse None y = y" "orElse (Some x) y = Some x"
  by (simp_all add: orElse_def)

lemma map_orElse: "map_option f (orElse x y) = orElse (map_option f x) (map_option f y)"
  by (cases x) simp_all

lemma keys_differ [simp]: "ParentSessionIDMetadataKey \<noteq> IsForkMetadataKey" "IsForkMetadataKey \<noteq> ParentSessionIDMetadataKey"
  by (simp_all add: ParentSessionIDMetadataKey_def IsForkMetadataKey_def)

lemma forkMarked_simps [simp]:
  "forkMarked False metadata metadata"
  "forkMarked False metadata (setMeta ParentSessionIDMetadataKey v metadata)"
  "forkMarked True metadata (setMeta ParentSessionIDMetadataKey v (setMeta IsForkMetadataKey (AnyBool True) metadata))"
  by (auto simp: forkMarked_def setMeta_def go_map split: option.split)

lemma under_ids:
  "isNew info \<Longrightarrow> idsOf (underParent pfx sid parent candidate alone info) = (si_SessionID info, reference pfx sid parent candidate)"
  "si_IsFork (underParent pfx sid parent candidate alone info) = si_IsFork info"
  "si_SessionID (underParent pfx sid parent candidate alone info) = si_SessionID info"
  by (auto simp: underParent_def reference_def idsOf_def isNew_def)

lemma new_update [simp]:
  "isNew (info\<lparr>si_ClientType := c\<rparr>) = isNew info" "isNew (info\<lparr>si_SessionID := s\<rparr>) = isNew info"
  by (simp_all add: isNew_def)

lemma claude_agrees:
  assumes "isNew info"
  shows "claudeIDs gj headers payload = map_option idsOf (claudeInfo gj headers payload info)"
    and "claudeInfo gj headers payload info = Some i \<Longrightarrow> \<not> si_IsFork i \<and> si_SessionID i \<noteq> []"
proof -
  have one: "idsOf (claudeInfoOf headers sid agentID parentSID candidate info) = claudeSession headers sid agentID parentSID candidate"
    "\<not> si_IsFork (claudeInfoOf headers sid agentID parentSID candidate info)"
    "si_SessionID (claudeInfoOf headers sid agentID parentSID candidate info) \<noteq> []" for sid agentID parentSID candidate
    using assms by (simp_all add: claudeInfoOf_def claudeSession_def Let_def reference_def idsOf_def isNew_def underParent_def)
  have none: "payload = [] \<Longrightarrow> ClaudeMetadataIdentities gj payload = ([], [], [])" by (simp add: ClaudeMetadataIdentities_def bodyOf_def)
  show "claudeIDs gj headers payload = map_option idsOf (claudeInfo gj headers payload info)"
    using none by (cases "payload = []") (simp_all add: claudeIDs_def claudeInfo_def Let_def one(1) split: prod.split)
  show "claudeInfo gj headers payload info = Some i \<Longrightarrow> \<not> si_IsFork i \<and> si_SessionID i \<noteq> []"
    using one(2,3) by (auto simp: claudeInfo_def Let_def split: prod.splits if_splits)
qed

lemma codex_agrees:
  assumes "isNew info"
  shows "case codexIDs gj headers payload metadata of
      None \<Rightarrow> codexInfo gj headers payload info = None
    | Some (ids, metadata') \<Rightarrow> \<exists>i. codexInfo gj headers payload info = Some i \<and> idsOf i = ids \<and> forkMarked (si_IsFork i) metadata metadata'
        \<and> si_SessionID i \<noteq> []"
proof -
  define c where "c = codexSignals gj headers (bodyOf gj payload)"
  define candidate where "candidate = parentIDCandidate gj payload"
  note ids = codexIDs_def [of gj headers payload metadata, folded c_def candidate_def, unfolded Let_def]
  note info = codexInfo_def [of gj headers payload info, folded c_def candidate_def, unfolded Let_def]
  consider "cx_sid c = [] \<and> cx_tid c = []" | "\<not> (cx_sid c = [] \<and> cx_tid c = [])" "cx_forkedFrom c \<noteq> []"
    | "\<not> (cx_sid c = [] \<and> cx_tid c = [])" "cx_forkedFrom c = []" "isMultiAgent c"
    | "\<not> (cx_sid c = [] \<and> cx_tid c = [])" "cx_forkedFrom c = []" "\<not> isMultiAgent c" by blast
  then show ?thesis
  proof cases
    case 1
    then show ?thesis unfolding ids info by simp
  next
    case 2
    then show ?thesis unfolding ids info by (simp add: idsOf_def)
  next
    case 3
    then show ?thesis using assms unfolding ids info if_not_P [OF 3(1)] by (auto simp: idsOf_def isNew_def reference_def)
  next
    case 4
    then show ?thesis using assms unfolding ids info if_not_P [OF 4(1)] by (simp add: idsOf_def isNew_def reference_def)
  qed
qed

lemma header_agrees:
  assumes "isNew info"
  shows "headerIDs headers candidate = map_option idsOf (headerInfo headers candidate info)"
    and "headerInfo headers candidate info = Some i \<Longrightarrow> \<not> si_IsFork i \<and> si_SessionID i \<noteq> []"
proof -
  have one: "headerSession headers name pfx parents candidate = map_option idsOf (headerInfoOf headers name pfx client alone parents candidate info)"
    for name pfx client alone parents candidate
    using assms by (simp add: headerSession_def headerInfoOf_def Let_def under_ids(1))
  show "headerIDs headers candidate = map_option idsOf (headerInfo headers candidate info)"
    unfolding headerIDs_def headerInfo_def map_orElse using one by metis
  have two: "headerInfoOf headers name pfx client alone parents candidate info = Some i \<Longrightarrow> \<not> si_IsFork i \<and> si_SessionID i \<noteq> []"
    for name pfx client alone parents candidate i
    using assms under_ids by (auto simp: headerInfoOf_def Let_def isNew_def idsOf_def split: if_splits)
  have pass: "orElse x y = Some i \<Longrightarrow> (x = Some i \<Longrightarrow> Q) \<Longrightarrow> (y = Some i \<Longrightarrow> Q) \<Longrightarrow> Q" for x y :: "SessionInfo option" and Q
    by (cases x) simp_all
  show "headerInfo headers candidate info = Some i \<Longrightarrow> \<not> si_IsFork i \<and> si_SessionID i \<noteq> []"
    unfolding headerInfo_def using two by (elim pass)
qed

lemma forkOrChild_agrees:
  fixes gj :: "'j Gjson" and body :: "'j Body option" and pfx sid candidate :: string
  assumes "isNew info"
  defines "i \<equiv> forkOrChild gj body pfx sid candidate info" and "fallback \<equiv> reference pfx sid [] candidate"
  shows "idsOf i = (pfx @ sid, fallback)"
    and "pfx \<noteq> [] \<Longrightarrow> forkMarked (si_IsFork i) metadata (if fallback \<noteq> [] \<and> isBodyForkCandidate gj body
      then setMeta ParentSessionIDMetadataKey (AnyString fallback) (setMeta IsForkMetadataKey (AnyBool True) metadata) else metadata)"
  using assms by (simp_all add: forkOrChild_def reference_def idsOf_def isNew_def Let_def)

lemma body_agrees:
  assumes "isNew info"
  shows "case bodyIDs gj headers payload metadata of
      None \<Rightarrow> bodyInfo gj headers payload info = None
    | Some (ids, metadata') \<Rightarrow> \<exists>i. bodyInfo gj headers payload info = Some i \<and> idsOf i = ids \<and> forkMarked (si_IsFork i) metadata metadata'
        \<and> si_SessionID i \<noteq> []"
proof (cases "bodyOf gj payload")
  case None
  then show ?thesis by (simp add: bodyIDs_def bodyInfo_def)
next
  case (Some b)
  note ids = bodyIDs_def [of gj headers payload metadata, unfolded Some option.case Let_def]
  note info = bodyInfo_def [of gj headers payload info, unfolded Some option.case Let_def]
  have sid: "idsOf i = ids \<Longrightarrow> fst ids \<noteq> [] \<Longrightarrow> si_SessionID i \<noteq> []" for i ids by (auto simp: idsOf_def)
  note fork = forkOrChild_agrees [where gj = gj and body = "Some b" and candidate = "parentIDCandidate gj payload"]
  show ?thesis
  proof (cases "rootExists gj (Some b)")
    case False
    then show ?thesis unfolding ids info by simp
  next
    case True
    have new: "isNew (info\<lparr>si_ClientType := c\<rparr>)" "isNew (info\<lparr>si_ClientType := c, si_SessionID := x\<rparr>)" for c x
      using assms by (simp_all add: isNew_def)
    let ?cache = "firstPathID gj (Some b) cachePaths" and ?tid = "firstPathID gj (Some b) threadPaths" and ?sid = "firstPathID gj (Some b) sessionPaths"
    consider "?cache \<noteq> []" | "?cache = []" "?tid \<noteq> []" | "?cache = []" "?tid = []" "?sid \<noteq> []" | "?cache = []" "?tid = []" "?sid = []" by blast
    then show ?thesis
    proof cases
      case 1
      then show ?thesis unfolding ids info using True new assms by (simp add: under_ids) (simp add: isNew_def)
    next
      case 2
      then show ?thesis unfolding ids info using True fork [OF new(1), where pfx = "''thread:''" and sid = ?tid]
        by (auto simp: idsOf_def)
    next
      case 3
      then show ?thesis unfolding ids info using True assms fork [OF new(1), where pfx = "''session:''" and sid = ?sid]
        by (auto simp: idsOf_def isNew_def)
    next
      case 4
      then show ?thesis unfolding ids info using True assms new by (auto simp: under_ids(1)) (auto simp: idsOf_def isNew_def under_ids(2,3) reference_def)
    qed
  qed
qed

lemma final_ids:
  assumes "si_SessionID i \<noteq> []"
  shows "snd (finalizeSessionInfo i)" and "si_SessionID (fst (finalizeSessionInfo i)) = si_SessionID i"
    and "si_ParentSessionID (fst (finalizeSessionInfo i)) = (if si_ParentSessionID i = si_SessionID i then [] else si_ParentSessionID i)"
    and "si_IsFork (fst (finalizeSessionInfo i)) = si_IsFork i"
  using assms by (simp_all add: finalizeSessionInfo_def Let_def)

lemma extractors_agree:
  fixes gj :: "'j Gjson"
  obtains ids metadata' info ok where "extractExplicitSessionIDs gj headers payload metadata = (ids, metadata')"
    and "ExtractSessionInfo gj headers payload metadata = (info, ok)" and "ok \<longleftrightarrow> fst ids \<noteq> []"
    and "si_SessionID info = fst ids" and "si_ParentSessionID info = (if snd ids = fst ids then [] else snd ids)"
    and "forkMarked (si_IsFork info) metadata metadata'"
proof -
  define scope where "scope = (case metadata of
            None \<Rightarrow> []
          | Some md \<Rightarrow> (case mget md CallerScopeMetadataKey of Some (AnyString s) \<Rightarrow> TrimSpace s | _ \<Rightarrow> []))"
  define info where "info = zeroSessionInfo\<lparr>si_CallerScope := scope\<rparr>"
  have new: "isNew info" by (simp add: info_def isNew_def zeroSessionInfo_def)
  note E = ExtractSessionInfo_def [of gj headers payload metadata, folded scope_def, unfolded Let_def, folded info_def]
  note X = extractExplicitSessionIDs_def [of gj headers payload metadata]
  note result = that
  have finish: thesis
    if a: "extractExplicitSessionIDs gj headers payload metadata = (idsOf i, metadata')"
      and b: "ExtractSessionInfo gj headers payload metadata = finalizeSessionInfo i" and c: "si_SessionID i \<noteq> []"
      and d: "forkMarked (si_IsFork i) metadata metadata'" for i metadata'
  proof (rule result [OF a])
    show "ExtractSessionInfo gj headers payload metadata = (fst (finalizeSessionInfo i), snd (finalizeSessionInfo i))" by (simp add: b)
    show "snd (finalizeSessionInfo i) \<longleftrightarrow> fst (idsOf i) \<noteq> []" using final_ids(1) [OF c] c by (simp add: idsOf_def)
    show "si_SessionID (fst (finalizeSessionInfo i)) = fst (idsOf i)" using final_ids(2) [OF c] by (simp add: idsOf_def)
    show "si_ParentSessionID (fst (finalizeSessionInfo i)) = (if snd (idsOf i) = fst (idsOf i) then [] else snd (idsOf i))"
      using final_ids(3) [OF c] by (simp add: idsOf_def)
    show "forkMarked (si_IsFork (fst (finalizeSessionInfo i))) metadata metadata'" using final_ids(4) [OF c] d by simp
  qed
  note c = claude_agrees [OF new, of gj headers payload]
  note h = header_agrees [OF new, of headers "parentIDCandidate gj payload"]
  show thesis
  proof (cases "claudeInfo gj headers payload info")
    case (Some i)
    show thesis by (rule finish [of i metadata]) (use c Some in \<open>simp_all add: X E\<close>)
  next
    case c0: None
    show thesis
    proof (cases "codexIDs gj headers payload metadata")
      case (Some r)
      then obtain i where "codexInfo gj headers payload info = Some i" "idsOf i = fst r" "forkMarked (si_IsFork i) metadata (snd r)" "si_SessionID i \<noteq> []"
        using codex_agrees [OF new, of gj headers payload metadata] by (auto split: prod.splits)
      then show thesis by (intro finish [of i "snd r"]) (use c c0 Some in \<open>simp_all add: X E\<close>)
    next
      case x0: None
      then have x1: "codexInfo gj headers payload info = None" using codex_agrees [OF new, of gj headers payload metadata] by simp
      show thesis
      proof (cases "headerInfo headers (parentIDCandidate gj payload) info")
        case (Some i)
        show thesis by (rule finish [of i metadata]) (use c c0 x0 x1 h Some in \<open>simp_all add: X E\<close>)
      next
        case h0: None
        show thesis
        proof (cases "bodyIDs gj headers payload metadata")
          case (Some r)
          then obtain i where "bodyInfo gj headers payload info = Some i" "idsOf i = fst r" "forkMarked (si_IsFork i) metadata (snd r)" "si_SessionID i \<noteq> []"
            using body_agrees [OF new, of gj headers payload metadata] by (auto split: prod.splits)
          then show thesis by (intro finish [of i "snd r"]) (use c c0 x0 x1 h h0 Some in \<open>simp_all add: X E\<close>)
        next
          case b0: None
          then have b1: "bodyInfo gj headers payload info = None" using body_agrees [OF new, of gj headers payload metadata] by simp
          show thesis
          proof (cases "executionID metadata = []")
            case True
            show thesis by (rule result [of "([], [])" metadata zeroSessionInfo False])
                (use c c0 x0 x1 h h0 b0 b1 True in \<open>simp_all add: X E zeroSessionInfo_def\<close>)
          next
            case False
            let ?i = "info\<lparr>si_ClientType := ''generic'', si_SessionID := ''execution:'' @ executionID metadata, si_AgentName := ''main''\<rparr>"
            show thesis by (rule finish [of ?i metadata])
                (use c c0 x0 x1 h h0 b0 b1 False new in \<open>simp_all add: X E idsOf_def isNew_def\<close>)
          qed
        qed
      qed
    qed
  qed
qed

section \<open>Clean identifiers\<close>

definition cleanUpTo :: "nat \<Rightarrow> string \<Rightarrow> bool" where
  "cleanUpTo n s \<longleftrightarrow> \<not> hasControl s \<and> length s \<le> n"

definition prefixUpTo :: "nat \<Rightarrow> string \<Rightarrow> bool" where
  \<comment> \<open>a part of an identifier that ends in a colon\<close>
  "prefixUpTo n s \<longleftrightarrow> cleanUpTo n s \<and> s \<noteq> [] \<and> last s = CHR '':''"

lemma hasControl_append:
  "hasControl (s @ t) \<longleftrightarrow> hasControl s \<or> hasControl t
     \<or> (s \<noteq> [] \<and> t \<noteq> [] \<and> byte (last s) = 194 \<and> 128 \<le> byte (hd t) \<and> byte (hd t) < 160)"
proof (induction s rule: hasControl.induct)
  case (2 c)
  then show ?case by (cases t) auto
qed auto

lemma hasControl_single: "hasControl s \<Longrightarrow> hasControl (u @ s @ v)"
  by (simp add: hasControl_append)

lemma list_ex_hasControl: "list_ex IsControl s \<Longrightarrow> hasControl s"
  by (induction s rule: hasControl.induct) auto

lemma clean_Nil [simp]: "cleanUpTo n []"
  by (simp add: cleanUpTo_def)

lemma clean_append: "prefixUpTo m s \<Longrightarrow> cleanUpTo k t \<Longrightarrow> m + k \<le> n \<Longrightarrow> cleanUpTo n (s @ t)"
  by (auto simp: prefixUpTo_def cleanUpTo_def hasControl_append byte_def)

lemma clean_colon: "cleanUpTo m s \<Longrightarrow> cleanUpTo k (CHR '':'' # t) \<Longrightarrow> m + k \<le> n \<Longrightarrow> cleanUpTo n (s @ CHR '':'' # t)"
  by (auto simp: cleanUpTo_def hasControl_append byte_def)

lemma prefix_mono: "prefixUpTo m s \<Longrightarrow> m \<le> n \<Longrightarrow> prefixUpTo n s"
  by (simp add: prefixUpTo_def cleanUpTo_def)

lemma clean_mono: "cleanUpTo m s \<Longrightarrow> m \<le> n \<Longrightarrow> cleanUpTo n s"
  by (simp add: cleanUpTo_def)

lemma trim_infix: "\<exists>u v. s = u @ TrimSpace s @ v"
proof -
  have "\<exists>u. s = u @ TrimLeft s" for s by (metis TrimLeft_def takeWhile_dropWhile_id)
  then obtain u v where "s = u @ TrimLeft s" "rev (TrimLeft s) = v @ TrimLeft (rev (TrimLeft s))" by blast
  then have "s = u @ TrimSpace s @ rev v" unfolding TrimSpace_def by (metis append.assoc rev_append rev_rev_ident)
  then show ?thesis by blast
qed

lemma clean_normalized [simp]: "cleanUpTo 256 (NormalizeExplicitID s)"
proof -
  obtain u v where "s = u @ TrimSpace s @ v" using trim_infix by blast
  then have "hasControl (TrimSpace s) \<Longrightarrow> hasControl s" using hasControl_single by metis
  then show ?thesis by (auto simp: NormalizeExplicitID_def cleanUpTo_def Let_def)
qed

lemma clean_first: "(\<And>x. x \<in> set xs \<Longrightarrow> cleanUpTo n x) \<Longrightarrow> cleanUpTo n (firstNonEmpty xs)"
  by (induction xs) auto

lemma clean_sources [simp]:
  "cleanUpTo 256 (sessionHeaderValue headers name)" "cleanUpTo 256 (fieldID gj doc path)" "cleanUpTo 256 (pathID gj body path)"
  "cleanUpTo 256 (metaID gj meta path)" "cleanUpTo 256 (cleanAgentName gj meta)"
  by (auto simp: sessionHeaderValue_def fieldID_def pathID_def metaID_def cleanAgentName_def Let_def intro!: clean_first split: option.split)

lemma clean_lists [simp]:
  "cleanUpTo 256 (firstPathID gj body paths)" "cleanUpTo 256 (bodyAgent gj body)" "cleanUpTo 256 (sessionAgent gj headers b)"
  "cleanUpTo 256 (promptCacheKey gj b)" "cleanUpTo 256 (executionID metadata)"
  by (auto simp: firstPathID_def bodyAgent_def sessionAgent_def promptCacheKey_def executionID_def intro!: clean_first
      split: option.split goany.split)

lemma clean_claude [simp]:
  "cleanUpTo 256 (fst (ClaudeMetadataIdentities gj payload))" "cleanUpTo 256 (fst (snd (ClaudeMetadataIdentities gj payload)))"
  "cleanUpTo 256 (snd (snd (ClaudeMetadataIdentities gj payload)))" "cleanUpTo 256 (parentIDCandidate gj payload)"
  by (auto simp: ClaudeMetadataIdentities_def parentIDCandidate_def ClaudeMetadataParentSessionID_def Let_def split: option.split)

lemma clean_codex [simp]:
  "cleanUpTo 256 (cx_sid (codexSignals gj headers body))" "cleanUpTo 256 (cx_tid (codexSignals gj headers body))"
  "cleanUpTo 256 (cx_parentThread (codexSignals gj headers body))" "cleanUpTo 256 (cx_forkedFrom (codexSignals gj headers body))"
  "cleanUpTo 256 (cx_agentName (codexSignals gj headers body))"
  by (auto simp: codexSignals_def Let_def)

lemma clean_prefixes:
  "list_all (prefixUpTo 12) [''claude:'', ''codex:'', ''agy:'', ''header:'', ''affinity:'', ''slot:'', ''conv:'', ''thread:'', ''clientreq:'',
     ''geminicache:'', ''session:'', ''pck:'', ''user:'', ''execution:'']"
  "prefixUpTo 7 ''claude:''" "prefixUpTo 6 ''codex:''" "prefixUpTo 8 ''session:''" "prefixUpTo 7 '':agent:''"
  by code_simp+

lemma clean_one: "prefixUpTo 12 pfx \<Longrightarrow> cleanUpTo 256 s \<Longrightarrow> cleanUpTo 527 (pfx @ s)"
  by (rule clean_append) auto

lemma clean_agent:
  assumes "prefixUpTo 8 pfx" and "cleanUpTo 256 s" and "cleanUpTo 256 t"
  shows "cleanUpTo 527 (pfx @ s @ '':agent:'' @ t)"
proof -
  have "cleanUpTo 263 ('':agent:'' @ t)" by (rule clean_append [OF clean_prefixes(5) assms(3)]) simp
  then have "cleanUpTo 519 (s @ '':agent:'' @ t)" using clean_colon [OF assms(2), of 263 "''agent:'' @ t" 519] by simp
  then show ?thesis by (rule clean_append [OF assms(1)]) simp
qed

lemma clean_reference: "prefixUpTo 12 pfx \<Longrightarrow> cleanUpTo 256 p \<Longrightarrow> cleanUpTo 256 c \<Longrightarrow> cleanUpTo 527 (reference pfx sid p c)"
  by (auto simp: reference_def intro: clean_one)

definition cleanIDs :: "string \<times> string \<Rightarrow> bool" where
  "cleanIDs ids \<longleftrightarrow> cleanUpTo 527 (fst ids) \<and> cleanUpTo 527 (snd ids)"

lemma clean_claudeIDs:
  assumes "claudeIDs gj headers payload = Some ids"
  shows "cleanIDs ids"
proof -
  have one: "cleanIDs (claudeSession headers sid agentID parentSID candidate)"
    if "cleanUpTo 256 sid" "cleanUpTo 256 agentID" "cleanUpTo 256 parentSID" "cleanUpTo 256 candidate" for sid agentID parentSID candidate
  proof -
    have p: "prefixUpTo 12 ''claude:''" "prefixUpTo 8 ''claude:''" using prefix_mono [OF clean_prefixes(2)] by simp_all
    note r = clean_reference [OF p(1) that(3,4), of sid] clean_one [OF p(1) that(1)] clean_agent [OF p(2) that(1)]
    show ?thesis using r that by (auto simp: claudeSession_def cleanIDs_def Let_def simp del: append_Cons append_Nil)
  qed
  obtain a b c where m: "ClaudeMetadataIdentities gj payload = (a, b, c)" by (cases "ClaudeMetadataIdentities gj payload")
  have "cleanUpTo 256 a" "cleanUpTo 256 b" "cleanUpTo 256 c" using clean_claude(1-3) [of gj payload] by (simp_all add: m)
  then show ?thesis using assms by (auto simp: claudeIDs_def m Let_def intro!: one split: if_splits)
qed

lemma clean_codexIDs:
  assumes "codexIDs gj headers payload metadata = Some (ids, metadata')"
  shows "cleanIDs ids"
proof -
  define c where "c = codexSignals gj headers (bodyOf gj payload)"
  have p: "prefixUpTo 12 ''codex:''" "prefixUpTo 8 ''codex:''" using prefix_mono [OF clean_prefixes(3)] by simp_all
  have f: "cleanUpTo 256 (cx_sid c)" "cleanUpTo 256 (cx_tid c)" "cleanUpTo 256 (cx_parentThread c)" "cleanUpTo 256 (cx_forkedFrom c)"
    "cleanUpTo 256 (cx_agentName c)" by (simp_all add: c_def)
  then have g: "cleanUpTo 256 (childThread c)" "cleanUpTo 256 (forkSession c)" "cleanUpTo 256 (codexParent c)"
    by (simp_all add: childThread_def forkSession_def codexParent_def)
  note one = clean_one [OF p(1)] clean_reference [OF p(1)]
  have agent: "cleanUpTo 527 (''codex:'' @ cx_sid c @ '':agent:'' @ cx_agentName c)" by (rule clean_agent [OF p(2) f(1,5)])
  show ?thesis using assms f g unfolding codexIDs_def Let_def c_def [symmetric]
    by (auto simp: cleanIDs_def agent simp del: append_Cons append_Nil intro!: one split: if_splits)
qed

lemma clean_headerIDs:
  assumes "cleanUpTo 256 candidate" and "headerIDs headers candidate = Some ids"
  shows "cleanIDs ids"
proof -
  have one: "headerSession headers name pfx parents candidate = Some ids \<Longrightarrow> prefixUpTo 12 pfx \<Longrightarrow> cleanUpTo 256 candidate \<Longrightarrow> cleanIDs ids"
    for name pfx parents candidate
    by (auto simp: headerSession_def cleanIDs_def Let_def intro!: clean_one clean_reference clean_first split: if_splits)
  have pass: "orElse x y = Some ids \<Longrightarrow> (x = Some ids \<Longrightarrow> Q) \<Longrightarrow> (y = Some ids \<Longrightarrow> Q) \<Longrightarrow> Q" for x y Q
    by (cases x) simp_all
  have p: "prefixUpTo 12 ''agy:''" "prefixUpTo 12 ''header:''" "prefixUpTo 12 ''affinity:''" "prefixUpTo 12 ''slot:''" "prefixUpTo 12 ''conv:''"
    "prefixUpTo 12 ''thread:''" "prefixUpTo 12 ''clientreq:''" using clean_prefixes(1) by simp_all
  show ?thesis using assms(2) unfolding headerIDs_def
    by (elim pass) (erule one, rule p, rule assms(1) clean_Nil)+
qed

lemma clean_conversation: "cleanUpTo 261 (conversationID gj b)"
proof -
  have "prefixUpTo 5 ''conv:''" by code_simp
  then have "cleanUpTo 261 (''conv:'' @ s)" if "cleanUpTo 256 s" for s using that by (rule clean_append) simp
  then show ?thesis by (simp add: conversationID_def Let_def del: append_Cons append_Nil)
qed

lemma clean_bodyIDs:
  assumes "bodyIDs gj headers payload metadata = Some (ids, metadata')"
  shows "cleanIDs ids"
proof -
  obtain b where b: "bodyOf gj payload = Some b" using assms by (cases "bodyOf gj payload") (simp_all add: bodyIDs_def)
  let ?sid = "firstPathID gj (Some b) sessionPaths" and ?agent = "sessionAgent gj headers b"
  have p: "prefixUpTo 12 ''geminicache:''" "prefixUpTo 12 ''thread:''" "prefixUpTo 12 ''session:''" "prefixUpTo 12 ''pck:''" "prefixUpTo 12 ''user:''"
    "prefixUpTo 12 ''conv:''" using clean_prefixes(1) by simp_all
  have agent: "cleanUpTo 527 (''session:'' @ ?sid @ '':agent:'' @ ?agent)" by (rule clean_agent [OF clean_prefixes(4)]) simp_all
  have conv: "cleanUpTo 527 (conversationID gj b)" by (rule clean_mono [OF clean_conversation]) simp
  show ?thesis using assms unfolding bodyIDs_def b option.case Let_def
    by (auto simp: cleanIDs_def agent conv simp del: append_Cons append_Nil intro!: clean_one clean_reference p split: if_splits)
qed

lemma explicit_clean: "cleanIDs (fst (extractExplicitSessionIDs gj headers payload metadata))"
proof -
  have p: "prefixUpTo 12 ''execution:''" using clean_prefixes(1) by simp
  have e: "cleanIDs (''execution:'' @ executionID metadata, [])" "cleanIDs ([], [])"
    using clean_one [OF p clean_lists(5)] by (simp_all add: cleanIDs_def)
  show ?thesis unfolding extractExplicitSessionIDs_def
    using clean_claudeIDs clean_codexIDs clean_headerIDs [OF clean_claude(4)] clean_bodyIDs e
    by (auto split: option.split simp del: append_Cons append_Nil)
qed

section \<open>The properties\<close>

text \<open>C9: The two extractors of session identities, that of the selectors and that of the usage reports, agree on every
  request: they find a session on the same requests, the same one, under the same parent (a session that is its own parent
  is reported without one), and take the same requests for forks.\<close>

theorem session_extractors_agree:
  "case (extractExplicitSessionIDs gj headers payload metadata, ExtractSessionInfo gj headers payload metadata) of
     (((primary, fallback), metadata'), (info, ok)) \<Rightarrow>
       (ok \<longleftrightarrow> primary \<noteq> []) \<and> si_SessionID info = primary
       \<and> si_ParentSessionID info = (if fallback = primary then [] else fallback)
       \<and> forkMarked (si_IsFork info) metadata metadata'"
  by (rule extractors_agree [of gj headers payload metadata]) (simp split: prod.split)

text \<open>C32: An identity that a client sends reaches the keys of the caches and the logs only when it is clean: whatever the
  headers and the body hold, the identifier and the one of its parent have no control characters, neither those of one byte
  nor those that UTF-8 writes with two, and at most 527 bytes.\<close>

theorem session_identity_clean:
  "case extractExplicitSessionIDs gj headers payload metadata of ((primary, fallback), _) \<Rightarrow>
     list_all (\<lambda>c. \<not> IsControl c) (primary @ fallback) \<and> \<not> hasControl primary \<and> \<not> hasControl fallback
     \<and> length primary \<le> 527 \<and> length fallback \<le> 527"
proof -
  have none: "\<not> hasControl s \<Longrightarrow> list_all (\<lambda>c. \<not> IsControl c) s" for s
    using list_ex_hasControl [of s] by (auto simp: list_all_iff list_ex_iff)
  show ?thesis
    using explicit_clean [of gj headers payload metadata] none by (auto simp: cleanIDs_def cleanUpTo_def split: prod.splits)
qed

end
