(* ===== verification/SessionDerived.thy ===== *)
theory SessionDerived
  imports SessionExtract PrefixMatcher "HOL-Library.Word"
begin

unbundle bit_operations_syntax

text \<open>
  Identities of requests that carry none of their own (\<open>selector.go\<close>): one derived upstream and put into the metadata, or
  a hash of the first messages. \<open>extractSessionIDs\<close> and \<open>CanonicalSessionID\<close> put them behind the explicit ones.
\<close>

definition DerivedSessionIDMetadataKey :: string where "DerivedSessionIDMetadataKey = ''derived_session_id''"
definition CanonicalSessionIDMetadataKey :: string where "CanonicalSessionIDMetadataKey = ''canonical_session_id''"
definition LCPAffinitySessionIDMetadataKey :: string where "LCPAffinitySessionIDMetadataKey = ''lcp_affinity_session_id''"

definition metaString :: "Metadata option \<Rightarrow> string \<Rightarrow> string option" where
  \<comment> \<open>\<open>metadata[key].(string)\<close>\<close>
  "metaString metadata key =
     (case metadata of None \<Rightarrow> None | Some md \<Rightarrow> (case mget md key of Some (AnyString s) \<Rightarrow> Some s | _ \<Rightarrow> None))"

definition DerivedID :: "Metadata option \<Rightarrow> string" where
  "DerivedID metadata = (case metaString metadata DerivedSessionIDMetadataKey of None \<Rightarrow> [] | Some s \<Rightarrow> TrimSpace s)"

section \<open>The hash of the first messages\<close>

definition fnv1a :: "string \<Rightarrow> 64 word" where
  \<comment> \<open>\<open>fnv.New64a\<close>\<close>
  "fnv1a s = fold (\<lambda>c h. (h XOR word_of_nat (byte c)) * 1099511628211) s 14695981039346656037"

definition hex16 :: "64 word \<Rightarrow> string" where
  \<comment> \<open>the format \<open>%016x\<close>\<close>
  "hex16 w = map (\<lambda>i. hex_char (unat w div 16 ^ i mod 16)) (rev [0..<16])"

definition computeSessionHash :: "string \<Rightarrow> string \<Rightarrow> string \<Rightarrow> string" where
  "computeSessionHash systemPrompt userMsg assistantMsg =
     (let newline = [CHR 0x0A] in
      ''msg:'' @ hex16 (fnv1a
        ((if systemPrompt \<noteq> [] then ''sys:'' @ systemPrompt @ newline else [])
         @ (if userMsg \<noteq> [] then ''usr:'' @ userMsg @ newline else [])
         @ (if assistantMsg \<noteq> [] then ''ast:'' @ assistantMsg @ newline else []))))"

definition truncateString :: "string \<Rightarrow> nat \<Rightarrow> string" where
  "truncateString s maxLen = (if length s > maxLen then take maxLen s else s)"

definition textsOf :: "'j Gjson \<Rightarrow> string list \<Rightarrow> 'j \<Rightarrow> string list" where
  \<comment> \<open>the texts of the parts of the types given\<close>
  "textsOf gj types content =
     filter (\<lambda>text. text \<noteq> [])
       (map (\<lambda>part. gj_String gj (gj_Get gj part ''text''))
         (filter (\<lambda>part. gj_String gj (gj_Get gj part ''type'') \<in> set types) (gj_Values gj content)))"

definition extractMessageContent :: "'j Gjson \<Rightarrow> 'j \<Rightarrow> string" where
  "extractMessageContent gj content =
     (if gj_IsString gj content then gj_String gj content
      else if gj_IsArray gj content then Join (textsOf gj [''text''] content) '' '' else [])"

definition extractResponsesAPIContent :: "'j Gjson \<Rightarrow> 'j \<Rightarrow> string" where
  "extractResponsesAPIContent gj content =
     (if \<not> gj_IsArray gj content then [] else Join (textsOf gj [''input_text'', ''output_text'', ''text''] content) '' '')"

record Prompts =
  pr_system :: string
  pr_user :: string
  pr_assistant :: string

definition unlessSet :: "string \<Rightarrow> string \<Rightarrow> string" where
  \<comment> \<open>\<open>if x == "" { x = truncateString(text, 100) }\<close>\<close>
  "unlessSet text old = (if old = [] then truncateString text 100 else old)"

text \<open>
  The loops over the messages of a chat and over the contents of Gemini stop once every slot they fill is set; going on
  would change nothing.
\<close>

definition chatMessage :: "'j Gjson \<Rightarrow> 'j \<Rightarrow> Prompts \<Rightarrow> Prompts" where
  "chatMessage gj msg p =
     (let role = gj_String gj (gj_Get gj msg ''role'');
          content = extractMessageContent gj (gj_Get gj msg ''content'')
      in if content = [] then p
         else if role = ''system'' then p\<lparr>pr_system := unlessSet content (pr_system p)\<rparr>
         else if role = ''user'' then p\<lparr>pr_user := unlessSet content (pr_user p)\<rparr>
         else if role = ''assistant'' then p\<lparr>pr_assistant := unlessSet content (pr_assistant p)\<rparr>
         else p)"

definition firstText :: "'j Gjson \<Rightarrow> 'j \<Rightarrow> string" where
  "firstText gj parts = firstNonEmpty (map (\<lambda>part. gj_String gj (gj_Get gj part ''text'')) (gj_Values gj parts))"

definition geminiMessage :: "'j Gjson \<Rightarrow> 'j \<Rightarrow> Prompts \<Rightarrow> Prompts" where
  "geminiMessage gj msg p =
     (let role = gj_String gj (gj_Get gj msg ''role'');
          text = firstText gj (gj_Get gj msg ''parts'')
      in if text = [] then p
         else if role = ''user'' then p\<lparr>pr_user := unlessSet text (pr_user p)\<rparr>
         else if role = ''model'' then p\<lparr>pr_assistant := unlessSet text (pr_assistant p)\<rparr>
         else p)"

definition responsesItem :: "'j Gjson \<Rightarrow> 'j \<Rightarrow> Prompts \<Rightarrow> Prompts" where
  "responsesItem gj item p =
     (let itemType = gj_String gj (gj_Get gj item ''type'');
          role = gj_String gj (gj_Get gj item ''role'');
          content = gj_Get gj item ''content'';
          text = (if gj_IsString gj content then gj_String gj content else extractResponsesAPIContent gj content)
      in if itemType \<noteq> [] \<and> itemType \<noteq> ''message'' then p
         else if itemType = [] \<and> role = [] then p
         else if text = [] then p
         else if role = ''developer'' \<or> role = ''system'' then p\<lparr>pr_system := unlessSet text (pr_system p)\<rparr>
         else if role = ''user'' then p\<lparr>pr_user := unlessSet text (pr_user p)\<rparr>
         else if role = ''assistant'' then p\<lparr>pr_assistant := unlessSet text (pr_assistant p)\<rparr>
         else p)"

fun responsesLoop :: "'j Gjson \<Rightarrow> 'j list \<Rightarrow> Prompts \<Rightarrow> Prompts" where
  \<comment> \<open>stops with a user and an assistant message, whether or not there is a system prompt\<close>
  "responsesLoop gj [] p = p"
| "responsesLoop gj (item # items) p =
     (let p' = responsesItem gj item p in
      if pr_user p' \<noteq> [] \<and> pr_assistant p' \<noteq> [] then p' else responsesLoop gj items p')"

definition arrayAt :: "'j Gjson \<Rightarrow> 'j \<Rightarrow> string \<Rightarrow> 'j list" where
  \<comment> \<open>the elements of an array that exists\<close>
  "arrayAt gj doc path =
     (let a = gj_Get gj doc path in if gj_Exists gj a \<and> gj_IsArray gj a then gj_Values gj a else [])"

definition extractMessageHashIDs :: "'j Gjson \<Rightarrow> string \<Rightarrow> string \<times> string" where
  \<comment> \<open>\<open>gjson.GetBytes\<close> is \<open>Get\<close> on the parsed document\<close>
  "extractMessageHashIDs gj payload =
     (let doc = gj_Parse gj payload;
          chat = fold (chatMessage gj) (arrayAt gj doc ''messages'') \<lparr>pr_system = [], pr_user = [], pr_assistant = []\<rparr>;
          topSystem = gj_Get gj doc ''system'';
          claude = (if pr_system chat = [] \<and> gj_Exists gj topSystem
            then (if gj_IsArray gj topSystem then chat\<lparr>pr_system := truncateString (firstText gj topSystem) 100\<rparr>
                  else if gj_IsString gj topSystem then chat\<lparr>pr_system := truncateString (gj_String gj topSystem) 100\<rparr>
                  else chat)
            else chat);
          instruction = gj_Get gj doc ''systemInstruction.parts'';
          gemini = (if pr_system claude = [] \<and> pr_user claude = []
            then fold (geminiMessage gj) (arrayAt gj doc ''contents'')
                   (if gj_Exists gj instruction \<and> gj_IsArray gj instruction
                    then claude\<lparr>pr_system := truncateString (firstText gj instruction) 100\<rparr> else claude)
            else claude);
          p = (if pr_system gemini = [] \<and> pr_user gemini = []
            then responsesLoop gj (arrayAt gj doc ''input'')
                   (gemini\<lparr>pr_system := truncateString (gj_String gj (gj_Get gj doc ''instructions'')) 100\<rparr>)
            else gemini);
          shortHash = computeSessionHash (pr_system p) (pr_user p) []
      in if pr_user p = [] then ([], [])
         else if pr_assistant p = [] then (shortHash, [])
         else (computeSessionHash (pr_system p) (pr_user p) (pr_assistant p), shortHash))"

section \<open>The identity of a request\<close>

definition extractSessionIDs ::
  "'j Gjson \<Rightarrow> Header \<Rightarrow> string \<Rightarrow> Metadata option \<Rightarrow> (string \<times> string) \<times> Metadata option" where
  "extractSessionIDs gj headers payload metadata =
     (case extractExplicitSessionIDs gj headers payload metadata of (ids, metadata') \<Rightarrow>
      if fst ids \<noteq> [] then (ids, metadata')
      else (let derivedID = NormalizeExplicitID (DerivedID metadata') in
            if derivedID \<noteq> [] then ((''derived:'' @ derivedID, []), metadata')
            else if payload = [] then (([], []), metadata')
            else (extractMessageHashIDs gj payload, metadata')))"

definition ExtractSessionID :: "'j Gjson \<Rightarrow> Header \<Rightarrow> string \<Rightarrow> Metadata option \<Rightarrow> string" where
  "ExtractSessionID gj headers payload metadata = fst (fst (extractSessionIDs gj headers payload metadata))"

definition CanonicalSessionID :: "'j Gjson \<Rightarrow> Header \<Rightarrow> string \<Rightarrow> Metadata option \<Rightarrow> string" where
  "CanonicalSessionID gj headers payload metadata =
     (case extractExplicitSessionIDs gj headers payload metadata of ((explicitID, _), metadata') \<Rightarrow>
      if explicitID \<noteq> [] then explicitID
      else (case metaString metadata' CanonicalSessionIDMetadataKey of
          Some s \<Rightarrow> if TrimSpace s \<noteq> [] then TrimSpace s
            else (case metaString metadata' LCPAffinitySessionIDMetadataKey of
                Some l \<Rightarrow> if TrimSpace l \<noteq> [] then TrimSpace l else ExtractSessionID gj headers payload metadata'
              | None \<Rightarrow> ExtractSessionID gj headers payload metadata')
        | None \<Rightarrow>
            (case metaString metadata' LCPAffinitySessionIDMetadataKey of
                Some l \<Rightarrow> if TrimSpace l \<noteq> [] then TrimSpace l else ExtractSessionID gj headers payload metadata'
              | None \<Rightarrow> ExtractSessionID gj headers payload metadata')))"

definition hierarchyPrefixes :: "string list" where
  "hierarchyPrefixes = [''codex:'', ''header:'', ''affinity:'', ''slot:'', ''thread:'', ''conv:'', ''session:'', ''claude:'', ''agy:'',
     ''geminicache:'', ''lcp:'']"

definition isHierarchyParent :: "string \<Rightarrow> string \<Rightarrow> bool" where
  "isHierarchyParent primary fallback =
     (if fallback = [] \<or> primary = [] \<or> primary = fallback then False
      else if Contains primary '':agent:'' then True
      else list_ex (\<lambda>pfx. HasPrefix primary pfx \<and> HasPrefix fallback pfx \<and> primary \<noteq> fallback) hierarchyPrefixes)"

definition isSubagentSession :: "string \<Rightarrow> string \<Rightarrow> bool" where
  "isSubagentSession primaryID fallbackID =
     (if Contains primaryID '':agent:'' then True
      else if fallbackID = [] \<or> primaryID = [] \<or> primaryID = fallbackID then False
      else isHierarchyParent primaryID fallbackID)"

end
