(* ===== verification/SessionAffinity.thy ===== *)
theory SessionAffinity
  imports SessionDerived SessionCache SmoothWrr MarkResult
begin

text \<open>
  The selector with session affinity of \<open>selector.go\<close>. It wraps another selector, the fallback: a request of a session that
  is bound goes to the credential of the session while that one is available, and only otherwise does the fallback choose,
  whose choice is bound. Sessions are found by the identity the request carries, or by its conversation in the prefix matcher.

  The fallback is a parameter of the operations: its state and its \<open>Pick\<close>. The locale \<open>selector_contract\<close> is what they
  rely on. A call locks the cache and the matcher several times; the model is one call with no other goroutine in between,
  and \<open>None\<close> means that an operation of the cache does not return.
\<close>

section \<open>Requests and state\<close>

definition LCPAccessGenerationMetadataKey :: string where "LCPAccessGenerationMetadataKey = ''lcp_access_generation''"
definition LCPFingerprintMetadataKey :: string where "LCPFingerprintMetadataKey = ''lcp_fingerprints''"
definition LCPMinPrefixLengthMetadataKey :: string where "LCPMinPrefixLengthMetadataKey = ''lcp_min_prefix_length''"
definition SessionAffinityProviderMetadataKey :: string where "SessionAffinityProviderMetadataKey = ''session_affinity_provider''"
definition SessionAffinityModelMetadataKey :: string where "SessionAffinityModelMetadataKey = ''session_affinity_model''"

text \<open>The fields of \<open>Options\<close> that the selectors read.\<close>

record Options =
  op_Headers :: Header
  op_OriginalRequest :: string
  op_SourceFormat :: string
  op_Metadata :: "Metadata option"

record 'j AffinityEnv =
  af_gjson :: "'j Gjson"
  af_matcher :: MatcherEnv
  af_auth :: Env
  af_ExtractCanonicalTurns :: "string \<Rightarrow> string \<Rightarrow> CanonicalTurn list"

text \<open>The readings of the clock in one call, one for each place that reads it.\<close>

record AffinityClock =
  ck_available :: time
  ck_refresh :: time
  ck_get :: "time \<times> time"
  ck_bind :: time
  ck_fallback :: time
  ck_match :: "time \<times> time"
  ck_bindMatch :: "time \<times> time"

record 's SessionAffinitySelector =
  as_fallback :: 's
  as_weighted :: bool \<comment> \<open>the fallback is a \<open>WeightedRoundRobinSelector\<close>\<close>
  as_cache :: SessionCache
  as_matcher :: MerklePrefixMatcher
  as_subagentAffinity :: bool

type_synonym 's picker = "'s \<Rightarrow> string \<Rightarrow> string \<Rightarrow> time \<Rightarrow> Auth list \<Rightarrow> (SelectError + Auth) \<times> 's"

definition NewSessionAffinitySelector :: "'s \<Rightarrow> bool \<Rightarrow> duration \<Rightarrow> bool option \<Rightarrow> 's SessionAffinitySelector" where
  "NewSessionAffinitySelector fallback weighted ttl0 subagentAffinity =
     (let ttl = (if ttl0 \<le> 0 then hour else ttl0) in
      \<lparr>as_fallback = fallback, as_weighted = weighted, as_cache = NewSessionCache ttl, as_matcher = NewMerklePrefixMatcher ttl,
       as_subagentAffinity = (case subagentAffinity of None \<Rightarrow> True | Some b \<Rightarrow> b)\<rparr>)"

section \<open>Metadata\<close>

definition sessionMetadataString :: "Metadata \<Rightarrow> string \<Rightarrow> string" where
  "sessionMetadataString metadata key = (case metaString (Some metadata) key of None \<Rightarrow> [] | Some s \<Rightarrow> TrimSpace s)"

definition lcpAffinityNamespace :: "string \<Rightarrow> string \<Rightarrow> Metadata \<Rightarrow> string" where
  "lcpAffinityNamespace provider0 model metadata =
     (let provider = ToLower (TrimSpace provider0);
          callerScope = sessionMetadataString metadata CallerScopeMetadataKey
      in if provider = [] \<or> callerScope = [] then []
         else Join [''lcp:v1'', provider, canonicalModelKey model, callerScope] ''::'')"

definition lcpFingerprintsFromMetadata :: "Metadata \<Rightarrow> string list \<times> int" where
  "lcpFingerprintsFromMetadata metadata =
     (case mget metadata LCPFingerprintMetadataKey of
        None \<Rightarrow> ([], 0)
      | Some AnyNil \<Rightarrow> ([], 0)
      | Some raw \<Rightarrow>
          (case raw of AnyStrings v \<Rightarrow> v
             | AnyList v \<Rightarrow> concat (map (\<lambda>item. case item of AnyString s \<Rightarrow> if s \<noteq> [] then [s] else [] | _ \<Rightarrow> []) v)
             | _ \<Rightarrow> [],
           case mget metadata LCPMinPrefixLengthMetadataKey of Some (AnyInt KInt n) \<Rightarrow> n | _ \<Rightarrow> 0))"

definition metaFork :: "Metadata \<Rightarrow> bool" where
  "metaFork metadata \<longleftrightarrow> mget metadata IsForkMetadataKey = Some (AnyBool True)"

definition noteLCP :: "string \<Rightarrow> string \<Rightarrow> int \<Rightarrow> bool \<Rightarrow> Metadata \<Rightarrow> Metadata" where
  \<comment> \<open>the session, its parent and the generation of a match or a binding\<close>
  "noteLCP sessionID parentSessionID accessNumber isFork metadata =
     (let m1 = (if sessionID \<noteq> [] then mput CanonicalSessionIDMetadataKey (AnyString sessionID)
                  (mput LCPAffinitySessionIDMetadataKey (AnyString sessionID) metadata) else metadata);
          m2 = (if parentSessionID \<noteq> [] then mput ParentSessionIDMetadataKey (AnyString parentSessionID) m1
                else mdel ParentSessionIDMetadataKey m1);
          m3 = (if accessNumber > 0 then mput LCPAccessGenerationMetadataKey (AnyInt KUint64 accessNumber) m2 else m2)
      in if isFork then mput IsForkMetadataKey (AnyBool True) m3 else mdel IsForkMetadataKey m3)"

section \<open>Picking by conversation\<close>

definition availabilityCandidates :: "'s SessionAffinitySelector \<Rightarrow> Auth list \<Rightarrow> Auth list" where
  "availabilityCandidates s auths = (if as_weighted s then positiveWeightAuths auths else auths)"

definition authWithID :: "string \<Rightarrow> Auth list \<Rightarrow> Auth option" where
  \<comment> \<open>the loops over the available credentials\<close>
  "authWithID i auths = List.find (\<lambda>a. au_ID a = i) auths"

definition pickLCP ::
  "'j AffinityEnv \<Rightarrow> AffinityClock \<Rightarrow> 's picker \<Rightarrow> string \<Rightarrow> string \<Rightarrow> Options \<Rightarrow> Metadata \<Rightarrow> Auth list \<Rightarrow> 's SessionAffinitySelector
     \<Rightarrow> (SelectError + Auth) option \<times> Metadata \<times> 's SessionAffinitySelector" where
  \<comment> \<open>\<open>None\<close>: not handled\<close>
  "pickLCP E ck pick provider model opts md auths s =
     (let namespace = lcpAffinityNamespace provider model md;
          turns = af_ExtractCanonicalTurns E (op_SourceFormat opts) (op_OriginalRequest opts)
      in if namespace = [] \<or> turns = [] then (None, md, s)
         else (case Prepare (af_matcher E) (as_matcher s) turns of (fingerprints, minPrefixLength) \<Rightarrow>
           if fingerprints = [] \<or> minPrefixLength \<le> 0 \<or> minPrefixLength > int (length fingerprints) then (None, md, s)
           else (let md1 = mput LCPMinPrefixLengthMetadataKey (AnyInt KInt minPrefixLength)
                       (mput LCPFingerprintMetadataKey (AnyStrings fingerprints) md)
             in case getAvailableAuthsAcrossPriorities (af_auth E) (availabilityCandidates s auths) provider model (ck_available ck) of
                  Inl err \<Rightarrow> (Some (Inl err), md1, s)
                | Inr available \<Rightarrow>
                    (case MatchFingerprints (af_matcher E) (ck_match ck) namespace fingerprints minPrefixLength (as_matcher s) of (match, mx) \<Rightarrow>
                     let s1 = s\<lparr>as_matcher := mx\<rparr> in
                     case (case match of None \<Rightarrow> None | Some r \<Rightarrow> map_option (Pair r) (authWithID (mm_AuthID r) available)) of
                       Some (r, auth) \<Rightarrow>
                         (Some (Inr auth), noteLCP (mm_SessionID r) (mm_ParentSessionID r) (mm_AccessNumber r) (mm_IsFork r) md1, s1)
                     | None \<Rightarrow>
                         (case pick (as_fallback s1) provider model (ck_fallback ck) (highestPriorityAuths available) of
                            (Inl err, fb) \<Rightarrow> (Some (Inl err), md1, s1\<lparr>as_fallback := fb\<rparr>)
                          | (Inr auth, fb) \<Rightarrow>
                              (case BindFingerprintsWithResult (af_matcher E) (ck_bindMatch ck) namespace fingerprints minPrefixLength
                                      (au_ID auth) (as_matcher s1) of (b, mx') \<Rightarrow>
                               (Some (Inr auth),
                                if br_SessionID b \<noteq> [] then noteLCP (br_SessionID b) (br_ParentSessionID b) (br_AccessNumber b) (br_IsFork b) md1 else md1,
                                s1\<lparr>as_fallback := fb, as_matcher := mx'\<rparr>)))))))"

section \<open>Picking by session\<close>

definition sessionKey :: "string \<Rightarrow> string \<Rightarrow> string \<Rightarrow> string" where
  "sessionKey provider sessionID modelKey = provider @ ''::'' @ sessionID @ ''::'' @ modelKey"

definition bindSession :: "time \<Rightarrow> string \<Rightarrow> string \<Rightarrow> bool \<Rightarrow> string \<Rightarrow> SessionCache \<Rightarrow> SessionCache option" where
  \<comment> \<open>the closure \<open>bind\<close>; \<open>alone\<close> for a subagent or a fork\<close>
  "bindSession now cacheKey fallbackKey alone authID c =
     (if fallbackKey \<noteq> [] \<and> \<not> alone then SetAliases now authID [cacheKey, fallbackKey] c else cache_Set now cacheKey authID c)"

definition pickFallback ::
  "AffinityClock \<Rightarrow> 's picker \<Rightarrow> string \<Rightarrow> string \<Rightarrow> (string \<Rightarrow> SessionCache \<Rightarrow> SessionCache option) \<Rightarrow> Auth list \<Rightarrow> Metadata
     \<Rightarrow> 's SessionAffinitySelector \<Rightarrow> ((SelectError + Auth) \<times> Metadata \<times> 's SessionAffinitySelector) option" where
  \<comment> \<open>the choice of the fallback, bound to the session\<close>
  "pickFallback ck pick provider model bind fallbackAuths md s =
     (case pick (as_fallback s) provider model (ck_fallback ck) fallbackAuths of
        (Inl err, fb) \<Rightarrow> Some (Inl err, md, s\<lparr>as_fallback := fb\<rparr>)
      | (Inr auth, fb) \<Rightarrow>
          (case bind (au_ID auth) (as_cache s) of
             None \<Rightarrow> None
           | Some c \<Rightarrow> Some (Inr auth, md, s\<lparr>as_fallback := fb, as_cache := c\<rparr>)))"

definition pickBound ::
  "AffinityClock \<Rightarrow> 's picker \<Rightarrow> string \<Rightarrow> string \<Rightarrow> (string \<Rightarrow> SessionCache \<Rightarrow> SessionCache option) \<Rightarrow> string \<Rightarrow> string \<Rightarrow> bool
     \<Rightarrow> Auth list \<Rightarrow> Metadata \<Rightarrow> 's SessionAffinitySelector \<Rightarrow> ((SelectError + Auth) \<times> Metadata \<times> 's SessionAffinitySelector) option" where
  \<comment> \<open>\<open>Pick\<close> from the look at the cache on; \<open>inherit\<close> when the session may take the credential of the fallback key\<close>
  "pickBound ck pick provider model bind cacheKey fallbackKey inherit available md s =
     (let fallbackAuths = highestPriorityAuths available
      in case GetAndRefresh (ck_refresh ck) cacheKey (as_cache s) of
           None \<Rightarrow> None
         | Some (Some cachedAuthID, c) \<Rightarrow>
             (case authWithID cachedAuthID available of
                Some auth \<Rightarrow> map_option (\<lambda>c'. (Inr auth, md, s\<lparr>as_cache := c'\<rparr>)) (bind (au_ID auth) c)
              | None \<Rightarrow> pickFallback ck pick provider model bind fallbackAuths md (s\<lparr>as_cache := c\<rparr>))
         | Some (None, c) \<Rightarrow>
             (case (if fallbackKey = [] then (None, c) else cache_Get (ck_get ck) fallbackKey c) of (parentAuthID, c1) \<Rightarrow>
              case (case parentAuthID of None \<Rightarrow> None | Some i \<Rightarrow> if inherit then authWithID i available else None) of
                Some auth \<Rightarrow> map_option (\<lambda>c'. (Inr auth, md, s\<lparr>as_cache := c'\<rparr>)) (bind (au_ID auth) c1)
              | None \<Rightarrow> pickFallback ck pick provider model bind fallbackAuths md (s\<lparr>as_cache := c1\<rparr>)))"

definition pickSession ::
  "AffinityClock \<Rightarrow> 's picker \<Rightarrow> string \<Rightarrow> string \<Rightarrow> string \<Rightarrow> string \<Rightarrow> Auth list \<Rightarrow> Metadata \<Rightarrow> 's SessionAffinitySelector
     \<Rightarrow> ((SelectError + Auth) \<times> Metadata \<times> 's SessionAffinitySelector) option" where
  \<comment> \<open>\<open>Pick\<close> from the cache key on; \<open>available\<close> are the candidates of every priority\<close>
  "pickSession ck pick provider model primaryID fallbackID available md s =
     (let modelKey = canonicalModelKey model;
          cacheKey = sessionKey provider primaryID modelKey;
          isFork = metaFork md;
          isSubagent = (\<not> isFork \<and> isSubagentSession primaryID fallbackID);
          fallbackKey = (if fallbackID \<noteq> [] \<and> fallbackID \<noteq> primaryID then sessionKey provider fallbackID modelKey else [])
      in pickBound ck pick provider model (bindSession (ck_bind ck) cacheKey fallbackKey (isSubagent \<or> isFork))
           cacheKey fallbackKey (\<not> isSubagent \<or> as_subagentAffinity s) available md s)"

definition pickByID ::
  "'j AffinityEnv \<Rightarrow> AffinityClock \<Rightarrow> 's picker \<Rightarrow> string \<Rightarrow> string \<Rightarrow> string \<Rightarrow> string \<Rightarrow> Metadata \<Rightarrow> Auth list
     \<Rightarrow> 's SessionAffinitySelector \<Rightarrow> ((SelectError + Auth) \<times> Metadata \<times> 's SessionAffinitySelector) option" where
  \<comment> \<open>\<open>Pick\<close> once the identities of the request are known\<close>
  "pickByID E ck pick provider model primaryID fallbackID md auths s =
     (let candidates = availabilityCandidates s auths in
      if primaryID = []
      then (case getAvailableAuths (af_auth E) candidates provider model (ck_available ck) of
              Inl err \<Rightarrow> Some (Inl err, md, s)
            | Inr fallbackAuths \<Rightarrow>
                (case pick (as_fallback s) provider model (ck_fallback ck) fallbackAuths of
                   (r, fb) \<Rightarrow> Some (r, md, s\<lparr>as_fallback := fb\<rparr>)))
      else (case getAvailableAuthsAcrossPriorities (af_auth E) candidates provider model (ck_available ck) of
              Inl err \<Rightarrow> Some (Inl err, md, s)
            | Inr available \<Rightarrow> pickSession ck pick provider model primaryID fallbackID available md s))"

definition affinityMetadata :: "string \<Rightarrow> string \<Rightarrow> Metadata option \<Rightarrow> Metadata" where
  \<comment> \<open>the first lines of \<open>Pick\<close>: what \<open>OnResult\<close> will need\<close>
  "affinityMetadata provider model metadata =
     mput SessionAffinityModelMetadataKey (AnyString model)
       (mput SessionAffinityProviderMetadataKey (AnyString provider) (case metadata of None \<Rightarrow> [] | Some md \<Rightarrow> md))"

definition affinity_Pick ::
  "'j AffinityEnv \<Rightarrow> AffinityClock \<Rightarrow> 's picker \<Rightarrow> string \<Rightarrow> string \<Rightarrow> Options \<Rightarrow> Auth list \<Rightarrow> 's SessionAffinitySelector
     \<Rightarrow> ((SelectError + Auth) \<times> Metadata \<times> 's SessionAffinitySelector) option" where
  "affinity_Pick E ck pick provider model opts auths s =
     (let gj = af_gjson E;
          md0 = affinityMetadata provider model (op_Metadata opts)
      in case extractExplicitSessionIDs gj (op_Headers opts) (op_OriginalRequest opts) (Some md0) of ((explicitID, explicitFallbackID), mdo) \<Rightarrow>
         let md1 = (case mdo of None \<Rightarrow> md0 | Some md \<Rightarrow> md);
             lcp = (if explicitID = [] then pickLCP E ck pick provider model opts md1 auths s else (None, md1, s))
         in case lcp of (handled, md2, s1) \<Rightarrow>
         case handled of Some r \<Rightarrow> Some (r, md2, s1)
         | None \<Rightarrow>
           (let md3 = (if explicitID = [] then md2
                  else (let d = mdel LCPAccessGenerationMetadataKey (mdel LCPAffinitySessionIDMetadataKey md2);
                            e = (if explicitFallbackID \<noteq> [] then mput ParentSessionIDMetadataKey (AnyString explicitFallbackID) d
                                 else mdel ParentSessionIDMetadataKey d)
                        in if metaFork e then e else mdel IsForkMetadataKey e));
                ids = (if explicitID \<noteq> [] then (explicitID, explicitFallbackID)
                       else fst (extractSessionIDs gj (op_Headers opts) (op_OriginalRequest opts) (Some md3)));
                md4 = (if fst ids \<noteq> [] then mput CanonicalSessionIDMetadataKey (AnyString (fst ids)) md3 else md3)
            in pickByID E ck pick provider model (fst ids) (snd ids) md4 auths s1))"

section \<open>Results\<close>

definition lcpResult ::
  "'j AffinityEnv \<Rightarrow> time \<times> time \<Rightarrow> string \<Rightarrow> Options \<Rightarrow> Metadata \<Rightarrow> Result \<Rightarrow> MerklePrefixMatcher \<Rightarrow> MerklePrefixMatcher" where
  \<comment> \<open>a success extends the conversation, a failure removes exactly the one that was tried\<close>
  "lcpResult E clock namespace opts md res mx =
     (let stored = lcpFingerprintsFromMetadata md;
          used = (if fst stored = [] then Prepare (af_matcher E) mx (af_ExtractCanonicalTurns E (op_SourceFormat opts) (op_OriginalRequest opts))
                  else stored)
      in case used of (fingerprints, minPrefixLength) \<Rightarrow>
         if fingerprints \<noteq> [] \<and> minPrefixLength > 0 \<and> minPrefixLength \<le> int (length fingerprints)
         then (if re_Success res
               then snd (TouchFingerprints (af_matcher E) clock namespace fingerprints minPrefixLength (re_AuthID res) mx)
               else (let generation = (case mget md LCPAccessGenerationMetadataKey of Some (AnyInt KUint64 n) \<Rightarrow> n | _ \<Rightarrow> 0)
                     in snd (RemoveFingerprintsBefore (af_matcher E) (fst clock) namespace fingerprints (re_AuthID res) generation mx)))
         else mx)"

definition cacheResult :: "time \<times> time \<Rightarrow> string \<Rightarrow> string \<Rightarrow> Result \<Rightarrow> SessionCache \<Rightarrow> SessionCache option" where
  "cacheResult clock cacheKey fallbackKey res c =
     (let first = (if re_Success res then map_option snd (cache_Touch (fst clock) cacheKey (re_AuthID res) c)
                   else map_option snd (CompareAndDelete cacheKey (re_AuthID res) c))
      in case first of
           None \<Rightarrow> None
         | Some c1 \<Rightarrow>
             if fallbackKey = [] then Some c1
             else if re_Success res then map_option snd (cache_Touch (snd clock) fallbackKey (re_AuthID res) c1)
             else map_option snd (CompareAndDelete fallbackKey (re_AuthID res) c1))"

definition affinityName :: "string \<Rightarrow> Metadata \<Rightarrow> string \<Rightarrow> string" where
  \<comment> \<open>a string of the metadata, when there is one that is not empty, or else the value given\<close>
  "affinityName key md other = (case metaString (Some md) key of Some raw \<Rightarrow> if raw \<noteq> [] then raw else other | None \<Rightarrow> other)"

definition affinity_OnResult ::
  "'j AffinityEnv \<Rightarrow> time \<times> time \<Rightarrow> Result \<Rightarrow> Options \<Rightarrow> 's SessionAffinitySelector \<Rightarrow> 's SessionAffinitySelector option" where
  "affinity_OnResult E clock res opts s =
     (if re_AuthID res = [] then Some s
      else (case extractExplicitSessionIDs (af_gjson E) (op_Headers opts) (op_OriginalRequest opts) (op_Metadata opts) of
          ((explicitID, explicitFallbackID), mdo) \<Rightarrow>
        let md = (case mdo of None \<Rightarrow> [] | Some m \<Rightarrow> m);
            ns = affinityName SessionAffinityProviderMetadataKey md (re_Provider res);
            nsModel = canonicalModelKey (affinityName SessionAffinityModelMetadataKey md (re_Model res))
        in if re_Error res \<noteq> None \<and> shouldSkipCredentialCooldown (af_auth E) (re_Error res) then Some s
           else (let namespace = lcpAffinityNamespace ns nsModel md;
                     s1 = (if explicitID = [] \<and> namespace \<noteq> []
                           then s\<lparr>as_matcher := lcpResult E clock namespace opts md res (as_matcher s)\<rparr> else s);
                     ids = (if explicitID \<noteq> [] then (explicitID, explicitFallbackID)
                            else fst (extractSessionIDs (af_gjson E) (op_Headers opts) (op_OriginalRequest opts) mdo))
             in if explicitID = [] \<and> mdo \<noteq> None \<and> mget md LCPAffinitySessionIDMetadataKey \<noteq> None then Some s1
                else if fst ids = [] \<and> snd ids = [] then Some s1
                else (let cacheKey = sessionKey ns (fst ids) nsModel;
                          fallbackKey = (if snd ids \<noteq> [] \<and> snd ids \<noteq> fst ids \<and> \<not> isSubagentSession (fst ids) (snd ids)
                            then sessionKey ns (snd ids) nsModel else [])
                      in map_option (\<lambda>c. s1\<lparr>as_cache := c\<rparr>) (cacheResult clock cacheKey fallbackKey res (as_cache s1))))))"

definition affinity_InvalidateAuth :: "string \<Rightarrow> 's SessionAffinitySelector \<Rightarrow> 's SessionAffinitySelector" where
  "affinity_InvalidateAuth authID s =
     s\<lparr>as_cache := cache_InvalidateAuth authID (as_cache s), as_matcher := mx_InvalidateAuth authID (as_matcher s)\<rparr>"

definition affinity_Stop :: "'s SessionAffinitySelector \<Rightarrow> 's SessionAffinitySelector" where
  \<comment> \<open>also ends the goroutine that cleans the cache\<close>
  "affinity_Stop s = s\<lparr>as_matcher := mx_Clear (as_matcher s)\<rparr>"

end
