(* ===== verification/SessionAffinityContract.thy ===== *)
theory SessionAffinityContract
  imports SessionAffinity SessionContract
begin

text \<open>
  What a selector with session affinity promises, whatever selector it wraps: the contract of the fallback, stated by the
  locale \<open>selector_contract\<close>, is all that is used of it. The first part says which credentials the passes over the candidates
  keep, the second follows a pick through the conversation, the session and the fallback, the third follows its result.
\<close>

section \<open>The candidates of every priority\<close>

lemma across_buckets:
  fixes env auths model now
  defines "m \<equiv> fst (collectAvailableByPriority env auths model now)"
  shows "set (concat (map snd m)) = {a \<in> set auths. \<not> blocked env model now a}"
proof -
  note c = collect_available [where env = env and model = model and now = now and auths = auths, folded m_def]
  have "(\<exists>e \<in> set m. a \<in> set (snd e)) \<longleftrightarrow> a \<in> set auths \<and> \<not> blocked env model now a" for a
  proof
    assume "\<exists>e \<in> set m. a \<in> set (snd e)"
    then obtain p b where "(p, b) \<in> set m" "a \<in> set b" by force
    then have "mget m p = Some b" using c(1) by (simp add: mget_iff_in)
    then have "mgetd [] m p = b" by (simp add: mgetd_def)
    then show "a \<in> set auths \<and> \<not> blocked env model now a" using \<open>a \<in> set b\<close> c(3) [of p] by auto
  next
    assume a: "a \<in> set auths \<and> \<not> blocked env model now a"
    then have in_bucket: "a \<in> set (mgetd [] m (authPriority a))" by (simp add: c(3))
    then obtain b where b: "mget m (authPriority a) = Some b" "a \<in> set b"
      by (cases "mget m (authPriority a)") (auto simp: mgetd_def)
    then have "(authPriority a, b) \<in> set m" using c(1) by (simp add: mget_iff_in)
    then show "\<exists>e \<in> set m. a \<in> set (snd e)" using b(2) by force
  qed
  then show ?thesis by auto
qed

lemma across_Inr:
  assumes "getAvailableAuthsAcrossPriorities env auths provider model now = Inr L"
  shows "set L = {a \<in> set auths. \<not> blocked env model now a}" and "L \<noteq> []"
proof -
  let ?m = "fst (collectAvailableByPriority env auths model now)"
  have ne: "?m \<noteq> []" and L: "L = availableAuthsFromPriorityBuckets ?m True"
    using assms by (auto simp: getAvailableAuthsAcrossPriorities_def getAvailableAuthsWithPriorityMode_def split: if_splits prod.splits)
  show s: "set L = {a \<in> set auths. \<not> blocked env model now a}"
    using across_buckets [of env auths model now] by (simp add: L availableAuthsFromPriorityBuckets_def Let_def)
  have "fst ` set ?m \<noteq> {}" using ne by simp
  then have "{a \<in> set auths. \<not> blocked env model now a} \<noteq> {}" unfolding collect_keys by blast
  then show "L \<noteq> []" using s by auto
qed

lemma across_Inl:
  assumes "getAvailableAuthsAcrossPriorities env auths provider model now = Inl err"
  shows "\<forall>a \<in> set auths. blocked env model now a"
proof (cases "auths = []")
  case False
  then have "fst (collectAvailableByPriority env auths model now) = []"
    using assms by (auto simp: getAvailableAuthsAcrossPriorities_def getAvailableAuthsWithPriorityMode_def split: if_splits prod.splits)
  then show ?thesis using collect_keys [of env auths model now] by auto
qed simp

section \<open>The highest tier\<close>

lemma highest_fold:
  "0 < n \<Longrightarrow> fold highest_step L (p, n) =
     (Max (insert p (authPriority ` set L)),
      (if Max (insert p (authPriority ` set L)) = p then n else 0)
        + length (filter (\<lambda>a. authPriority a = Max (insert p (authPriority ` set L))) L))"
proof (induction L arbitrary: p n)
  case (Cons a L)
  let ?q = "authPriority a" and ?S = "authPriority ` set L"
  have ge: "p \<le> Max (insert p ?S)" "?q \<le> Max (insert ?q ?S)" by simp_all
  have both: "Max (insert p (insert ?q ?S)) = max p (Max (insert ?q ?S))" by (simp add: Max_insert2)
  consider "?q > p" | "?q = p" | "?q < p" by linarith
  then show ?case
  proof cases
    case 1
    have M: "Max (insert p (insert ?q ?S)) = Max (insert ?q ?S)" unfolding both by (rule max_absorb2) (use 1 ge(2) in linarith)
    have "p \<noteq> Max (insert ?q ?S)" using 1 ge(2) by linarith
    then show ?thesis using 1 Cons.IH [of 1 ?q] M by (simp add: highest_step_def)
  next
    case 2
    then show ?thesis using Cons.IH [of "n + 1" p] Cons.prems by (simp add: highest_step_def)
  next
    case 3
    have M: "Max (insert p (insert ?q ?S)) = Max (insert p ?S)" 
      unfolding insert_commute [of p] Max.insert [OF finite.insertI [OF finite_imageI [OF finite_set]] insert_not_empty]
      by (rule max_absorb2) (use 3 ge(1) in linarith)
    have "?q \<noteq> Max (insert p ?S)" using 3 ge(1) by linarith
    then show ?thesis using 3 Cons.IH [of n p] Cons.prems M by (simp add: highest_step_def)
  qed
qed simp

lemma highestPriorityAuths_filter:
  "highestPriorityAuths L = filter (\<lambda>a. \<forall>b \<in> set L. authPriority b \<le> authPriority a) L"
proof (cases L)
  case (Cons x xs)
  show ?thesis
  proof (cases xs)
    case Nil
    then show ?thesis using Cons by (simp add: highestPriorityAuths_def)
  next
    case xs: (Cons y ys)
    define M where "M = Max (authPriority ` set L)"
    have top: "(\<forall>b \<in> set L. authPriority b \<le> authPriority a) \<longleftrightarrow> authPriority a = M" if "a \<in> set L" for a
    proof
      assume "\<forall>b \<in> set L. authPriority b \<le> authPriority a"
      then show "authPriority a = M" unfolding M_def using that by (intro Max_eqI [symmetric]) auto
    qed (simp add: M_def)
    have "fold highest_step L (0, 0) = fold highest_step xs (authPriority x, 1)" by (simp add: Cons highest_step_def)
    then have f: "fold highest_step L (0, 0) = (M, length (filter (\<lambda>a. authPriority a = M) L))"
      using highest_fold [of 1 xs "authPriority x"] by (auto simp: M_def Cons)
    have all: "filter (\<lambda>a. authPriority a = M) L = L" if "length (filter (\<lambda>a. authPriority a = M) L) = length L"
      using that by (metis filter_id_conv length_filter_less nat_neq_iff)
    have "highestPriorityAuths L = filter (\<lambda>a. authPriority a = M) L"
      using all by (simp add: highestPriorityAuths_def f) (simp add: Cons xs)
    then show ?thesis using top by (simp cong: filter_cong)
  qed
qed (simp add: highestPriorityAuths_def)

lemma highestPriorityAuths_some: "L \<noteq> [] \<Longrightarrow> highestPriorityAuths L \<noteq> []"
proof -
  assume "L \<noteq> []"
  then have "Max (authPriority ` set L) \<in> authPriority ` set L" by (intro Max_in) auto
  then obtain a where "a \<in> set L" "authPriority a = Max (authPriority ` set L)" by auto
  then have "\<forall>b \<in> set L. authPriority b \<le> authPriority a" by simp
  then show ?thesis using \<open>a \<in> set L\<close> by (auto simp: highestPriorityAuths_filter filter_empty_conv)
qed

lemma authWithID_Some: "authWithID i L = Some a \<Longrightarrow> a \<in> set L \<and> au_ID a = i"
  by (auto simp: authWithID_def find_Some_iff)

lemma authWithID_total: "a \<in> set L \<Longrightarrow> \<exists>b. authWithID (au_ID a) L = Some b"
  by (cases "authWithID (au_ID a) L") (auto simp: authWithID_def find_None_iff)

section \<open>A pick\<close>

definition openAuths :: "Env \<Rightarrow> (Auth \<Rightarrow> bool) \<Rightarrow> string \<Rightarrow> time \<Rightarrow> Auth list \<Rightarrow> Auth set" where
  \<comment> \<open>the credentials that may serve the model now\<close>
  "openAuths env eligible model now auths = {a \<in> set auths. eligible a \<and> \<not> blocked env model now a}"

definition topOf :: "Auth set \<Rightarrow> Auth set" where
  "topOf C = {a \<in> C. \<forall>b \<in> C. authPriority b \<le> authPriority a}"

definition answers :: "Auth set \<Rightarrow> bool \<Rightarrow> string set \<Rightarrow> SelectError + Auth \<Rightarrow> bool" where
  \<comment> \<open>an open credential, of the highest priority unless it is bound; an error only when there is none, if no time passes\<close>
  "answers C still bound r =
     (case r of Inr a \<Rightarrow> a \<in> C \<and> (a \<in> topOf C \<or> au_ID a \<in> bound) | Inl e \<Rightarrow> still \<longrightarrow> C = {})"

definition wraps :: "'s SessionAffinitySelector \<Rightarrow> (Auth \<Rightarrow> bool) \<Rightarrow> bool" where
  \<comment> \<open>the candidates that the selector leaves to its fallback are those the fallback takes\<close>
  "wraps s eligible \<longleftrightarrow> (\<forall>a. eligible a \<longleftrightarrow> (as_weighted s \<longrightarrow> 0 < authWeight a))"

lemma candidates_open:
  "wraps s eligible \<Longrightarrow> {a \<in> set (availabilityCandidates s auths). \<not> blocked env model now a} = openAuths env eligible model now auths"
  by (auto simp: wraps_def availabilityCandidates_def openAuths_def positiveWeightAuths_def)

lemma highest_top: "set (highestPriorityAuths L) = topOf (set L)"
  by (auto simp: highestPriorityAuths_filter topOf_def)

definition inOrder :: "AffinityClock \<Rightarrow> bool" where
  \<comment> \<open>the readings that the cache sees do not go back\<close>
  "inOrder ck \<longleftrightarrow> ck_refresh ck \<le> fst (ck_get ck) \<and> ck_refresh ck \<le> snd (ck_get ck)"

definition sessionBound :: "AffinityClock \<Rightarrow> SessionCache \<Rightarrow> string \<Rightarrow> string set" where
  \<comment> \<open>the credential a session is bound to when the call looks\<close>
  "sessionBound ck c key = {a. \<exists>t \<in> {ck_refresh ck, fst (ck_get ck), snd (ck_get ck)}. live t c key = Some a}"

definition conversationBound ::
  "'j AffinityEnv \<Rightarrow> AffinityClock \<Rightarrow> string \<Rightarrow> string \<Rightarrow> Options \<Rightarrow> Metadata \<Rightarrow> MerklePrefixMatcher \<Rightarrow> string set" where
  \<comment> \<open>the credential that the conversation of the request, in the namespace of its caller, is bound to when the call looks\<close>
  "conversationBound E ck provider model opts md mx =
     (case Prepare (af_matcher E) mx (af_ExtractCanonicalTurns E (op_SourceFormat opts) (op_OriginalRequest opts)) of (fingerprints, n) \<Rightarrow>
        {mm_AuthID m | m. fst (MatchFingerprints (af_matcher E) (ck_match ck) (lcpAffinityNamespace provider model md) fingerprints n mx) = Some m})"

definition keeps :: "'s SessionAffinitySelector \<Rightarrow> 's SessionAffinitySelector \<Rightarrow> bool" where
  "keeps s s' \<longleftrightarrow> cache_reaches (as_cache s') \<and> as_weighted s' = as_weighted s \<and> as_subagentAffinity s' = as_subagentAffinity s"

definition ownBound ::
  "'j AffinityEnv \<Rightarrow> AffinityClock \<Rightarrow> string \<Rightarrow> string \<Rightarrow> Options \<Rightarrow> 's SessionAffinitySelector \<Rightarrow> string set" where
  \<comment> \<open>the credentials that the request's own session, or the one it falls back to, is bound to for this provider and model;
     and, when the request carries no identity of its own, the credential that its conversation is bound to\<close>
  "ownBound E ck provider model opts s =
     (let md0 = affinityMetadata provider model (op_Metadata opts);
          explicit = extractExplicitSessionIDs (af_gjson E) (op_Headers opts) (op_OriginalRequest opts) (Some md0);
          md = (case snd explicit of None \<Rightarrow> md0 | Some md1 \<Rightarrow> md1);
          ids = (if fst (fst explicit) \<noteq> [] then fst explicit
                 else fst (extractSessionIDs (af_gjson E) (op_Headers opts) (op_OriginalRequest opts) (Some md)));
          key = (\<lambda>i. provider @ ''::'' @ i @ ''::'' @ canonicalModelKey model)
      in {a. \<exists>i \<in> {fst ids, snd ids}. fst ids \<noteq> [] \<and> i \<noteq> [] \<and> a \<in> sessionBound ck (as_cache s) (key i)}
         \<union> (if fst (fst explicit) = [] then conversationBound E ck provider model opts md (as_matcher s) else {}))"

lemma bind_reaches:
  assumes "cache_reaches c"
  shows "\<exists>c'. bindSession now cacheKey fallbackKey alone authID c = Some c' \<and> cache_reaches c'"
proof -
  have "\<exists>c'. SetAliases now authID ids c = Some c' \<and> cache_reaches c'" for ids
    using SetAliases_keeps [OF reaches_ok [OF assms]] cache_reaches.step [OF assms cache_step.set_aliases] by blast
  then show ?thesis by (simp add: bindSession_def cache_Set_def)
qed

lemma refresh_reaches:
  assumes "cache_reaches c"
  shows "\<exists>c'. GetAndRefresh now i c = Some (live now c i, c') \<and> cache_reaches c'
    \<and> (live now c i = None \<longrightarrow> (\<forall>t j. now \<le> t \<longrightarrow> live t c' j = live t c j))"
proof -
  obtain c' where c': "GetAndRefresh now i c = Some (live now c i, c')"
    "\<forall>t j. now \<le> t \<longrightarrow> live t c' j =
       (if live now c i \<noteq> None \<and> j \<in> aliasesOf c i then if t < now + sx_ttl c then live now c i else None else live t c j)"
    using GetAndRefresh_ok [OF reaches_ok [OF assms], of now i] by blast
  have "cache_reaches c'" using cache_reaches.step [OF assms cache_step.refresh [OF c'(1)]] .
  then show ?thesis using c' by (intro exI [of _ c']) simp
qed

lemma get_reaches:
  assumes "cache_reaches c"
  shows "cache_reaches (snd (cache_Get clock i c))"
    and "fst (cache_Get clock i c) = Some a \<Longrightarrow> live (fst clock) c i = Some a \<or> live (snd clock) c i = Some a"
proof -
  have "cache_reaches (snd (Get_expire t i c))" for t
    using cache_reaches.step [OF assms cache_step.get [of t i c]] by (cases "Get_expire t i c") simp
  then show "cache_reaches (snd (cache_Get clock i c))"
    using assms by (auto simp: cache_Get_def split: prod.split option.split)
  show "fst (cache_Get clock i c) = Some a \<Longrightarrow> live (fst clock) c i = Some a \<or> live (snd clock) c i = Some a"
    using Get_answer [of c "fst clock" "snd clock" i] reaches_ok [OF assms] by (auto simp: cache_ok_def split: option.splits)
qed

lemma pickLCP_None: "pickLCP E ck pick provider model opts md auths s = (None, md', s') \<Longrightarrow> s' = s \<and> md' = md"
  by (simp add: pickLCP_def Let_def split: prod.splits if_splits sum.splits option.splits)

context selector_contract
begin

lemma fallback_answers:
  assumes "set L = topOf (openAuths env eligible model t0 auths)" and "L \<noteq> []"
  shows "answers (openAuths env eligible model t0 auths) (t = t0) bound (fst (pick f provider model t L))"
proof (cases "fst (pick f provider model t L)")
  case (Inr a)
  then have "pick f provider model t L = (Inr a, snd (pick f provider model t L))" by (simp add: prod_eq_iff)
  from pick_sound [OF this] show ?thesis using Inr assms(1) by (auto simp: answers_def topOf_def)
next
  case (Inl e)
  then have "pick f provider model t L = (Inl e, snd (pick f provider model t L))" by (simp add: prod_eq_iff)
  from pick_fails [OF this] have "eligible b \<Longrightarrow> b \<in> set L \<Longrightarrow> blocked env model t b" for b by blast
  moreover obtain b where b: "b \<in> set L" using assms(2) by (cases L) auto
  ultimately have "t \<noteq> t0" using b unfolding assms(1) by (auto simp: topOf_def openAuths_def)
  then show ?thesis by (simp add: answers_def Inl)
qed

lemma sessionless_answers:
  assumes "wraps s eligible" and "getAvailableAuths env (availabilityCandidates s auths) provider model t0 = Inr L"
  shows "answers (openAuths env eligible model t0 auths) (t = t0) bound (fst (pick f provider model t L))"
proof (rule fallback_answers)
  note L = getAvailableAuths_Inr [OF assms(2)]
  obtain p where p: "mset L = mset (filter (\<lambda>a. \<not> blocked env model t0 a \<and> authPriority a = p) (availabilityCandidates s auths))"
    "\<forall>b \<in> set (availabilityCandidates s auths). \<not> blocked env model t0 b \<longrightarrow> authPriority b \<le> p" using L(3) by blast
  have "set L = {a \<in> openAuths env eligible model t0 auths. authPriority a = p}"
    using mset_eq_setD [OF p(1)] unfolding candidates_open [OF assms(1), symmetric] by auto
  moreover have le: "\<forall>b \<in> openAuths env eligible model t0 auths. authPriority b \<le> p"
    using p(2) unfolding candidates_open [OF assms(1), symmetric] by auto
  moreover obtain x where "x \<in> set L" using L(1) by (cases L) auto
  ultimately show "set L = topOf (openAuths env eligible model t0 auths)"
    by (auto simp: topOf_def) (metis order_antisym)
  show "L \<noteq> []" by (rule L(1))
qed

lemma pickLCP_answers:
  assumes "wraps s eligible" and "af_auth E = env" and "pickLCP E ck pick provider model opts md auths s = (Some r, md', s')"
    and "conversationBound E ck provider model opts md (as_matcher s) \<subseteq> bound"
  shows "answers (openAuths env eligible model (ck_available ck) auths) (ck_fallback ck = ck_available ck) bound r
    \<and> as_cache s' = as_cache s \<and> as_weighted s' = as_weighted s \<and> as_subagentAffinity s' = as_subagentAffinity s"
proof -
  let ?C = "openAuths env eligible model (ck_available ck) auths"
  let ?nm = "lcpAffinityNamespace provider model md"
  let ?turns = "af_ExtractCanonicalTurns E (op_SourceFormat opts) (op_OriginalRequest opts)"
  obtain fs n where fs: "Prepare (af_matcher E) (as_matcher s) ?turns = (fs, n)" by fastforce
  let ?A = "getAvailableAuthsAcrossPriorities env (availabilityCandidates s auths) provider model (ck_available ck)"
  note run = assms(3) [unfolded pickLCP_def Let_def fs prod.case assms(2)]
  have taken: "\<not> (?nm = [] \<or> ?turns = [])" "\<not> (fs = [] \<or> n \<le> 0 \<or> n > int (length fs))"
    using run by (auto split: if_splits)
  show ?thesis
  proof (cases ?A)
    case (Inl err)
    have "?C = {}" using across_Inl [OF Inl] candidates_open [OF assms(1), of auths env model "ck_available ck"] by auto
    then show ?thesis using run Inl taken by (auto simp: answers_def)
  next
    case (Inr available)
    have C: "set available = ?C" "available \<noteq> []" using across_Inr [OF Inr] candidates_open [OF assms(1)] by auto
    obtain match mx where m: "MatchFingerprints (af_matcher E) (ck_match ck) ?nm fs n (as_matcher s) = (match, mx)" by fastforce
    obtain p f where p: "pick (as_fallback s) provider model (ck_fallback ck) (highestPriorityAuths available) = (p, f)" by fastforce
    have p': "answers ?C (ck_fallback ck = ck_available ck) bound p"
      using fallback_answers [of "highestPriorityAuths available" model "ck_available ck" auths "ck_fallback ck" bound "as_fallback s" provider]
        highestPriorityAuths_some [OF C(2)] p by (simp add: highest_top C(1))
    show ?thesis
    proof (cases "case match of None \<Rightarrow> None | Some r \<Rightarrow> map_option (Pair r) (authWithID (mm_AuthID r) available)")
      case None
      show ?thesis
      proof (cases p)
        case (Inl err)
        then show ?thesis using run taken p' \<open>?A = Inr available\<close> by (simp add: None m p) auto
      next
        case (Inr a)
        then show ?thesis using run taken p' \<open>?A = Inr available\<close> by (simp add: None m p split: prod.splits) auto
      qed
    next
      case (Some ra)
      then obtain r0 a where ra: "ra = (r0, a)" "match = Some r0" "authWithID (mm_AuthID r0) available = Some a"
        by (auto split: option.splits)
      have "fst (MatchFingerprints (af_matcher E) (ck_match ck) ?nm fs n (as_matcher s)) = Some r0" by (simp add: m ra(2))
      then have "mm_AuthID r0 \<in> bound" using assms(4) unfolding conversationBound_def fs prod.case by blast
      moreover have "r = Inr a \<and> s' = s\<lparr>as_matcher := mx\<rparr>" using run Inr taken Some ra by (simp add: m)
      ultimately show ?thesis using authWithID_Some [OF ra(3)] C(1) by (simp add: answers_def)
    qed
  qed
qed

lemma pickFallback_answers:
  assumes "cache_reaches (as_cache s)" and "set available = openAuths env eligible model t0 auths" and "available \<noteq> []"
    and "\<And>i c. cache_reaches c \<Longrightarrow> \<exists>c'. bind i c = Some c' \<and> cache_reaches c'"
  shows "\<exists>r s'. pickFallback ck pick provider model bind (highestPriorityAuths available) md s = Some (r, md, s') \<and> keeps s s'
    \<and> answers (openAuths env eligible model t0 auths) (ck_fallback ck = t0) bound r"
proof -
  obtain r f where p: "pick (as_fallback s) provider model (ck_fallback ck) (highestPriorityAuths available) = (r, f)" by fastforce
  have a: "answers (openAuths env eligible model t0 auths) (ck_fallback ck = t0) bound r"
    using fallback_answers [of "highestPriorityAuths available" model t0 auths "ck_fallback ck" bound "as_fallback s" provider]
      highestPriorityAuths_some [OF assms(3)] p by (simp add: highest_top assms(2))
  show ?thesis
  proof (cases r)
    case (Inl err)
    then show ?thesis using a assms(1) by (simp add: pickFallback_def p keeps_def)
  next
    case (Inr x)
    obtain c' where "bind (au_ID x) (as_cache s) = Some c'" "cache_reaches c'" using assms(4) [OF assms(1)] by blast
    then show ?thesis using a Inr by (simp add: pickFallback_def p keeps_def)
  qed
qed

lemma pickBound_answers:
  assumes "cache_reaches (as_cache s)" and "inOrder ck"
    and C: "set available = openAuths env eligible model t0 auths" "available \<noteq> []"
    and bind: "\<And>i c. cache_reaches c \<Longrightarrow> \<exists>c'. bind i c = Some c' \<and> cache_reaches c'"
    and B: "sessionBound ck (as_cache s) key \<subseteq> bound" "fk \<noteq> [] \<Longrightarrow> sessionBound ck (as_cache s) fk \<subseteq> bound"
  shows "\<exists>r s'. pickBound ck pick provider model bind key fk inherit available md s = Some (r, md, s') \<and> keeps s s'
    \<and> answers (openAuths env eligible model t0 auths) (ck_fallback ck = t0) bound r"
proof -
  let ?C = "openAuths env eligible model t0 auths" and ?c = "as_cache s"
  have reuse: "\<exists>s'. map_option (\<lambda>c'. (Inr auth, md, s\<lparr>as_cache := c'\<rparr>)) (bind (au_ID auth) c) = Some (Inr auth, md, s') \<and> keeps s s'"
    if "cache_reaches c" for auth :: Auth and c using bind [OF that, of "au_ID auth"] by (auto simp: keeps_def)
  have other: "\<exists>r s'. pickFallback ck pick provider model bind (highestPriorityAuths available) md (s\<lparr>as_cache := c\<rparr>) = Some (r, md, s')
      \<and> keeps s s' \<and> answers ?C (ck_fallback ck = t0) bound r" if "cache_reaches c" for c
    using pickFallback_answers [of "s\<lparr>as_cache := c\<rparr>" available model t0 auths bind ck provider md bound] that C bind
    by (simp add: keeps_def)
  have hit: "\<exists>r s'. map_option (\<lambda>c'. (Inr auth, md, s\<lparr>as_cache := c'\<rparr>)) (bind (au_ID auth) c) = Some (r, md, s')
      \<and> keeps s s' \<and> answers ?C (ck_fallback ck = t0) bound r"
    if "authWithID a available = Some auth" "a \<in> bound" "cache_reaches c" for a auth c
  proof -
    have "answers ?C (ck_fallback ck = t0) bound (Inr auth)" using authWithID_Some [OF that(1)] that(2) C(1) by (simp add: answers_def)
    then show ?thesis using reuse [OF that(3), of auth] by (elim exE conjE, intro exI conjI) assumption+
  qed
  obtain c where c: "GetAndRefresh (ck_refresh ck) key ?c = Some (live (ck_refresh ck) ?c key, c)" "cache_reaches c"
    "live (ck_refresh ck) ?c key = None \<longrightarrow> (\<forall>t j. ck_refresh ck \<le> t \<longrightarrow> live t c j = live t ?c j)"
    using refresh_reaches [OF assms(1), of "ck_refresh ck" key] by (elim exE conjE) (rule that)
  show ?thesis
  proof (cases "live (ck_refresh ck) ?c key")
    case (Some a)
    have "a \<in> bound" using B(1) Some by (auto simp: sessionBound_def)
    then show ?thesis using other [OF c(2)] hit [OF _ _ c(2), of a]
      by (cases "authWithID a available") (simp_all add: pickBound_def c(1) Some)
  next
    case None
    obtain p c1 where p: "(if fk = [] then (None, c) else cache_Get (ck_get ck) fk c) = (p, c1)" by fastforce
    have c1: "cache_reaches c1" using p c(2) get_reaches(1) [OF c(2), of "ck_get ck" fk] by (auto split: if_splits)
    have p_bound: "a \<in> bound" if "p = Some a" for a
    proof -
      have fk: "fk \<noteq> []" "fst (cache_Get (ck_get ck) fk c) = Some a" using p that by (auto split: if_splits)
      have "live (fst (ck_get ck)) ?c fk = Some a \<or> live (snd (ck_get ck)) ?c fk = Some a"
        using get_reaches(2) [OF c(2) fk(2)] c(3) None assms(2) by (simp add: inOrder_def)
      then show ?thesis using B(2) [OF fk(1)] by (auto simp: sessionBound_def)
    qed
    show ?thesis
    proof (cases "case p of None \<Rightarrow> None | Some i \<Rightarrow> if inherit then authWithID i available else None")
      case h: None
      show ?thesis using other [OF c1] h by (simp add: pickBound_def c(1) None p)
    next
      case (Some auth)
      then obtain a where "p = Some a" "authWithID a available = Some auth" by (auto split: option.splits if_splits)
      then show ?thesis using hit [OF _ p_bound c1] Some by (simp add: pickBound_def c(1) None p)
    qed
  qed
qed

lemma pickSession_answers:
  assumes "cache_reaches (as_cache s)" and "inOrder ck"
    and "set available = openAuths env eligible model t0 auths" "available \<noteq> []"
    and "\<And>j. j \<in> {i, f} \<Longrightarrow> j = i \<or> j \<noteq> [] \<Longrightarrow> sessionBound ck (as_cache s) (sessionKey provider j (canonicalModelKey model)) \<subseteq> bound"
  shows "\<exists>r s'. pickSession ck pick provider model i f available md s = Some (r, md, s') \<and> keeps s s'
    \<and> answers (openAuths env eligible model t0 auths) (ck_fallback ck = t0) bound r"
  unfolding pickSession_def Let_def
  by (rule pickBound_answers) (use assms bind_reaches in \<open>auto split: if_splits\<close>)

lemma pickByID_answers:
  assumes "cache_reaches (as_cache s)" and "wraps s eligible" and "inOrder ck" and "af_auth E = env"
    and bound: "\<And>j. j \<in> {i, f} \<Longrightarrow> i \<noteq> [] \<Longrightarrow> j \<noteq> [] \<Longrightarrow> sessionBound ck (as_cache s) (provider @ ''::'' @ j @ ''::'' @ canonicalModelKey model) \<subseteq> bound"
  shows "\<exists>r s'. pickByID E ck pick provider model i f md auths s = Some (r, md, s') \<and> keeps s s'
    \<and> answers (openAuths env eligible model (ck_available ck) auths) (ck_fallback ck = ck_available ck) bound r"
proof -
  let ?cs = "availabilityCandidates s auths" and ?t = "ck_available ck"
  let ?C = "openAuths env eligible model ?t auths"
  note C = candidates_open [OF assms(2), of auths env model ?t]
  have keep: "keeps s s" "keeps s (s\<lparr>as_fallback := fb\<rparr>)" for fb using assms(1) by (simp_all add: keeps_def)
  have none: "answers ?C still bound (Inl err)" if "\<forall>a \<in> set ?cs. blocked env model ?t a" for still bound err
    using that C by (auto simp: answers_def)
  show ?thesis
  proof (cases "i = []")
    case True
    then show ?thesis
    proof (cases "getAvailableAuths env ?cs provider model ?t")
      case (Inr L)
      obtain r fb where p: "pick (as_fallback s) provider model (ck_fallback ck) L = (r, fb)" by fastforce
      have "answers ?C (ck_fallback ck = ?t) bound (fst (pick (as_fallback s) provider model (ck_fallback ck) L))"
        by (rule sessionless_answers [OF assms(2) Inr])
      then show ?thesis using True Inr keep(2) by (simp add: pickByID_def assms(4) p)
    qed (use True keep(1) none getAvailableAuths_Inl in \<open>simp add: pickByID_def assms(4)\<close>)
  next
    case False
    show ?thesis
    proof (cases "getAvailableAuthsAcrossPriorities env ?cs provider model ?t")
      case (Inr L)
      have "\<exists>r s'. pickSession ck pick provider model i f L md s = Some (r, md, s') \<and> keeps s s'
          \<and> answers ?C (ck_fallback ck = ?t) bound r"
        by (rule pickSession_answers [OF assms(1,3)]) (use across_Inr [OF Inr] C bound False in \<open>auto simp: sessionKey_def\<close>)
      then show ?thesis using False Inr by (simp add: pickByID_def assms(4))
    qed (use False keep(1) none across_Inl in \<open>simp add: pickByID_def assms(4)\<close>)
  qed
qed

lemma Pick_answers:
  assumes "cache_reaches (as_cache s)" and "wraps s eligible" and "inOrder ck" and "af_auth E = env"
  shows "\<exists>r md s'. affinity_Pick E ck pick provider model opts auths s = Some (r, md, s') \<and> keeps s s'
    \<and> answers (openAuths env eligible model (ck_available ck) auths) (ck_fallback ck = ck_available ck) (ownBound E ck provider model opts s) r"
proof -
  define md0 where "md0 = affinityMetadata provider model (op_Metadata opts)"
  obtain i f mdo where ids: "extractExplicitSessionIDs (af_gjson E) (op_Headers opts) (op_OriginalRequest opts) (Some md0) = ((i, f), mdo)"
    by (metis prod.exhaust)
  define md1 where "md1 = (case mdo of None \<Rightarrow> md0 | Some md \<Rightarrow> md)"
  define ids' where "ids' = (if i \<noteq> [] then (i, f) else fst (extractSessionIDs (af_gjson E) (op_Headers opts) (op_OriginalRequest opts) (Some md1)))"
  have own: "ownBound E ck provider model opts s =
      {a. \<exists>j \<in> {fst ids', snd ids'}. fst ids' \<noteq> [] \<and> j \<noteq> [] \<and> a \<in> sessionBound ck (as_cache s) (provider @ ''::'' @ j @ ''::'' @ canonicalModelKey model)}
      \<union> (if i = [] then conversationBound E ck provider model opts md1 (as_matcher s) else {})"
    unfolding ownBound_def Let_def md0_def [symmetric] ids fst_conv snd_conv md1_def [symmetric] ids'_def [symmetric] by (rule refl)
  obtain h md2 s1 where lcp: "(if i = [] then pickLCP E ck pick provider model opts md1 auths s else (None, md1, s)) = (h, md2, s1)"
    by (metis prod.exhaust)
  note run = affinity_Pick_def [of E ck pick provider model opts auths s, unfolded Let_def, folded md0_def,
      unfolded ids prod.case, folded md1_def, unfolded lcp prod.case]
  show ?thesis
  proof (cases h)
    case (Some r)
    then have l: "pickLCP E ck pick provider model opts md1 auths s = (Some r, md2, s1)" using lcp by (simp split: if_splits)
    have "i = []" using lcp Some by (simp split: if_splits)
    then have "conversationBound E ck provider model opts md1 (as_matcher s) \<subseteq> ownBound E ck provider model opts s" by (simp add: own)
    note a = pickLCP_answers [OF assms(2,4) l this]
    then have "keeps s s1" using assms(1) by (simp add: keeps_def)
    then show ?thesis using a run Some by simp
  next
    case None
    then have same: "s1 = s" "md2 = md1" using lcp pickLCP_None [of E ck pick provider model opts md1 auths s md2 s1] by (simp_all split: if_splits)
    have "\<exists>md4. affinity_Pick E ck pick provider model opts auths s = pickByID E ck pick provider model (fst ids') (snd ids') md4 auths s"
    proof (cases "i = []")
      case True
      then show ?thesis unfolding run None option.case same ids'_def by (intro exI) simp
    next
      case False
      then show ?thesis unfolding run None option.case same ids'_def by (intro exI) simp
    qed
    then obtain md4 where p: "affinity_Pick E ck pick provider model opts auths s = pickByID E ck pick provider model (fst ids') (snd ids') md4 auths s" ..
    have sub: "sessionBound ck (as_cache s) (provider @ ''::'' @ j @ ''::'' @ canonicalModelKey model) \<subseteq> ownBound E ck provider model opts s"
      if "j \<in> {fst ids', snd ids'}" "fst ids' \<noteq> []" "j \<noteq> []" for j using that unfolding own by blast
    show ?thesis
      unfolding p using pickByID_answers [OF assms, where i = "fst ids'" and f = "snd ids'", OF sub] by blast
  qed
qed

end

end
