(* ===== verification/SessionAffinityRuns.thy ===== *)
theory SessionAffinityRuns
  imports SessionAffinityContract
begin

text \<open>
  The runs of a selector with session affinity: picks and their results, invalidations and clean-ups in any order. What each
  pick answers, that a session stays with its credential, and what a result does to the bindings.
\<close>

section \<open>What a result does to the bindings\<close>

definition released :: "SessionCache \<Rightarrow> SessionCache \<Rightarrow> bool" where
  \<comment> \<open>a binding may be renewed or go, but not change\<close>
  "released c c' \<longleftrightarrow> (\<forall>j x. boundTo c' j = Some x \<longrightarrow> boundTo c j = Some x)"

lemma released_trans: "released c c' \<Longrightarrow> released c' c'' \<Longrightarrow> released c c''"
  by (simp add: released_def)

lemma live_boundTo: "live t c j = Some x \<Longrightarrow> boundTo c j = Some x"
  by (auto simp: live_def boundTo_def split: option.splits if_splits)

lemma boundTo_live:
  assumes "boundTo c j = Some x"
  shows "\<exists>t. live t c j = Some x"
proof -
  obtain e where "mget (sx_entries c) j = Some e" "x = sn_authID e" using assms by (auto simp: boundTo_def)
  then have "live (sn_expiresAt e - 1) c j = Some x" by (simp add: live_def)
  then show ?thesis by (rule exI)
qed

lemma releasedI: "(\<And>t j x. live t c' j = Some x \<Longrightarrow> boundTo c j = Some x) \<Longrightarrow> released c c'"
  using boundTo_live unfolding released_def by blast

lemma touch_released:
  assumes "cache_reaches c"
  shows "\<exists>r c'. cache_Touch now i a c = Some (r, c') \<and> cache_reaches c' \<and> released c c'"
proof -
  obtain r c' where c': "cache_Touch now i a c = Some (r, c')"
    "\<forall>t j. live t c' j = (if a \<noteq> [] \<and> live now c i = Some a \<and> j \<in> aliasesOf c i
          then if t < now + sx_ttl c then Some a else None else live t c j)"
    using Touch_ok [OF reaches_ok [OF assms], of now i a] by (elim exE conjE) (rule that)
  have g: "groups_ok c" using reaches_ok [OF assms] by (simp add: cache_ok_def)
  have "released c c'"
  proof (rule releasedI)
    fix t j x
    assume l: "live t c' j = Some x"
    show "boundTo c j = Some x"
    proof (cases "a \<noteq> [] \<and> live now c i = Some a \<and> j \<in> aliasesOf c i")
      case True
      then obtain e where e: "mget (sx_entries c) i = Some e" "sn_authID e = a" "j \<in> set (sn_aliases e)"
        by (auto simp: live_def aliasesOf_def split: option.splits if_splits)
      then have "mget (sx_entries c) j = Some e" using entry_ok [OF g e(1)] by blast
      then show ?thesis using True l c'(2) e(2) by (simp add: boundTo_def split: if_splits)
    next
      case False
      then have "live t c j = Some x" using l c'(2) by (simp only: if_False)
      then show ?thesis by (rule live_boundTo)
    qed
  qed
  then show ?thesis using c'(1) cache_reaches.step [OF assms cache_step.touch [OF c'(1)]] by blast
qed

lemma compare_released:
  assumes "cache_reaches c"
  shows "\<exists>r c'. CompareAndDelete i a c = Some (r, c') \<and> cache_reaches c' \<and> released c c' \<and> (a = [] \<or> boundTo c' i \<noteq> Some a)"
proof -
  obtain r c' where c': "CompareAndDelete i a c = Some (r, c')"
    "\<forall>t j. live t c' j = (if a \<noteq> [] \<and> boundTo c i = Some a \<and> j = i then None else live t c j)"
    using CompareAndDelete_ok [OF reaches_ok [OF assms], of i a] by (elim exE conjE) (rule that)
  have "released c c'" by (rule releasedI) (use c'(2) in \<open>auto intro: live_boundTo split: if_splits\<close>)
  moreover have "boundTo c' i \<noteq> Some a" if "a \<noteq> []"
  proof
    assume "boundTo c' i = Some a"
    then obtain t where "live t c' i = Some a" using boundTo_live by blast
    then show False using c'(2) that live_boundTo [of t c i a] by (auto split: if_splits)
  qed
  ultimately show ?thesis using c'(1) cache_reaches.step [OF assms cache_step.compare [OF c'(1)]] by blast
qed

lemma cacheResult_released:
  assumes "cache_reaches c"
  shows "\<exists>c'. cacheResult clock key fk res c = Some c' \<and> cache_reaches c' \<and> released c c'
    \<and> (re_Success res \<or> re_AuthID res = [] \<or> boundTo c' key \<noteq> Some (re_AuthID res))"
proof (cases "re_Success res")
  case True
  obtain r c1 where c1: "cache_Touch (fst clock) key (re_AuthID res) c = Some (r, c1)" "cache_reaches c1" "released c c1"
    using touch_released [OF assms] by blast
  obtain r' c2 where c2: "cache_Touch (snd clock) fk (re_AuthID res) c1 = Some (r', c2)" "cache_reaches c2" "released c1 c2"
    using touch_released [OF c1(2)] by blast
  show ?thesis using True c1 c2 released_trans [OF c1(3) c2(3)] by (simp add: cacheResult_def)
next
  case False
  obtain r c1 where c1: "CompareAndDelete key (re_AuthID res) c = Some (r, c1)" "cache_reaches c1" "released c c1"
      "re_AuthID res = [] \<or> boundTo c1 key \<noteq> Some (re_AuthID res)"
    using compare_released [OF assms] by blast
  obtain r' c2 where c2: "CompareAndDelete fk (re_AuthID res) c1 = Some (r', c2)" "cache_reaches c2" "released c1 c2"
    using compare_released [OF c1(2)] by blast
  show ?thesis using False c1 c2 released_trans [OF c1(3) c2(3)] by (auto simp: cacheResult_def released_def)
qed

lemma OnResult_forms:
  "affinity_OnResult E clock res opts s = Some s
   \<or> (\<exists>mx. affinity_OnResult E clock res opts s = Some (s\<lparr>as_matcher := mx\<rparr>)
        \<or> (\<exists>key fk. affinity_OnResult E clock res opts s
             = map_option (\<lambda>c. s\<lparr>as_matcher := mx, as_cache := c\<rparr>) (cacheResult clock key fk res (as_cache s))))"
proof (cases "re_AuthID res = []")
  case True
  then show ?thesis by (simp add: affinity_OnResult_def)
next
  case False
  obtain i f mdo where ids: "extractExplicitSessionIDs (af_gjson E) (op_Headers opts) (op_OriginalRequest opts) (op_Metadata opts) = ((i, f), mdo)"
    by (metis prod.exhaust)
  define md where "md = (case mdo of None \<Rightarrow> [] | Some m \<Rightarrow> m)"
  define ns where "ns = affinityName SessionAffinityProviderMetadataKey md (re_Provider res)"
  define nsModel where "nsModel = canonicalModelKey (affinityName SessionAffinityModelMetadataKey md (re_Model res))"
  define namespace where "namespace = lcpAffinityNamespace ns nsModel md"
  define mx where "mx = (if i = [] \<and> namespace \<noteq> [] then lcpResult E clock namespace opts md res (as_matcher s) else as_matcher s)"
  have s1: "(if i = [] \<and> namespace \<noteq> [] then s\<lparr>as_matcher := lcpResult E clock namespace opts md res (as_matcher s)\<rparr> else s) = s\<lparr>as_matcher := mx\<rparr>"
    by (simp add: mx_def)
  define ids' where "ids' = (if i \<noteq> [] then (i, f) else fst (extractSessionIDs (af_gjson E) (op_Headers opts) (op_OriginalRequest opts) mdo))"
  define key where "key = sessionKey ns (fst ids') nsModel"
  define fk where "fk = (if snd ids' \<noteq> [] \<and> snd ids' \<noteq> fst ids' \<and> \<not> isSubagentSession (fst ids') (snd ids')
      then sessionKey ns (snd ids') nsModel else [])"
  note run = affinity_OnResult_def [of E clock res opts s, unfolded ids prod.case Let_def fst_conv snd_conv, folded md_def, folded ns_def nsModel_def,
      folded namespace_def, unfolded s1, folded ids'_def, folded key_def fk_def]
  let ?R = "map_option (\<lambda>c. s\<lparr>as_matcher := mx, as_cache := c\<rparr>) (cacheResult clock key fk res (as_cache s))"
  have eq: "as_cache (s\<lparr>as_matcher := mx\<rparr>) = as_cache s" by simp
  have "affinity_OnResult E clock res opts s \<in> {Some s, Some (s\<lparr>as_matcher := mx\<rparr>), ?R}"
    unfolding run eq by (simp only: insert_iff split: if_split) (simp only: simp_thms)
  then consider "affinity_OnResult E clock res opts s = Some s" | "affinity_OnResult E clock res opts s = Some (s\<lparr>as_matcher := mx\<rparr>)"
    | "affinity_OnResult E clock res opts s = ?R" by blast
  then show ?thesis
  proof cases
    case 1
    then show ?thesis by (rule disjI1)
  next
    case 2
    show ?thesis by (rule disjI2, rule exI [of _ mx], rule disjI1, rule 2)
  next
    case 3
    show ?thesis by (rule disjI2, rule exI [of _ mx], rule disjI2, rule exI [of _ key], rule exI [of _ fk], rule 3)
  qed
qed

lemma OnResult_released:
  assumes "cache_reaches (as_cache s)"
  shows "\<exists>s'. affinity_OnResult E clock res opts s = Some s' \<and> keeps s s' \<and> as_fallback s' = as_fallback s
    \<and> released (as_cache s) (as_cache s')"
proof -
  have refl: "released (as_cache s) (as_cache s)" by (simp add: released_def)
  consider "affinity_OnResult E clock res opts s = Some s"
    | mx where "affinity_OnResult E clock res opts s = Some (s\<lparr>as_matcher := mx\<rparr>)"
    | mx key fk where "affinity_OnResult E clock res opts s
        = map_option (\<lambda>c. s\<lparr>as_matcher := mx, as_cache := c\<rparr>) (cacheResult clock key fk res (as_cache s))"
    using OnResult_forms [of E clock res opts s] by blast
  then show ?thesis
  proof cases
    case 3
    obtain c' where "cacheResult clock key fk res (as_cache s) = Some c'" "cache_reaches c'" "released (as_cache s) c'"
      using cacheResult_released [OF assms] by blast
    then show ?thesis using 3 by (simp add: keeps_def)
  qed (use assms refl in \<open>simp_all add: keeps_def\<close>)
qed

definition resultKey :: "Metadata option \<Rightarrow> Result \<Rightarrow> string \<Rightarrow> string" where
  \<comment> \<open>the key of a session, with the provider and the model that its pick left in the metadata\<close>
  "resultKey md res i =
     (let m = (case md of None \<Rightarrow> [] | Some m \<Rightarrow> m)
      in sessionKey (affinityName SessionAffinityProviderMetadataKey m (re_Provider res)) i
           (canonicalModelKey (affinityName SessionAffinityModelMetadataKey m (re_Model res))))"

lemma OnResult_explicit:
  assumes "extractExplicitSessionIDs (af_gjson E) (op_Headers opts) (op_OriginalRequest opts) (op_Metadata opts) = ((i, f), mdo)"
    and "i \<noteq> []" and "re_AuthID res \<noteq> []" and "\<not> (re_Error res \<noteq> None \<and> shouldSkipCredentialCooldown (af_auth E) (re_Error res))"
  shows "\<exists>fk. affinity_OnResult E clock res opts s = map_option (\<lambda>c. s\<lparr>as_cache := c\<rparr>) (cacheResult clock
      (resultKey mdo res i) fk res (as_cache s))"
proof -
  have "\<not> (i = [] \<and> namespace \<noteq> [])" for namespace :: string using assms(2) by simp
  then show ?thesis
    unfolding affinity_OnResult_def assms(1) prod.case Let_def fst_conv snd_conv resultKey_def [unfolded Let_def]
    using assms(2-4) by (simp only: if_False if_True simp_thms fst_conv snd_conv) (intro exI, rule refl)
qed

section \<open>A session and its credential\<close>


















section \<open>Runs\<close>

inductive affinity_reaches :: "'j AffinityEnv \<Rightarrow> 's picker \<Rightarrow> bool \<Rightarrow> 's SessionAffinitySelector \<Rightarrow> bool"
  for E :: "'j AffinityEnv" and pick :: "'s picker" and weighted :: bool where
  start: "affinity_reaches E pick weighted (NewSessionAffinitySelector fallback weighted ttl subagentAffinity)"
| pick: "affinity_reaches E pick weighted s \<Longrightarrow> inOrder ck \<Longrightarrow>
    affinity_Pick E ck pick provider model opts auths s = Some (r, md, s') \<Longrightarrow> affinity_reaches E pick weighted s'"
| result: "affinity_reaches E pick weighted s \<Longrightarrow> affinity_OnResult E clock res opts s = Some s' \<Longrightarrow> affinity_reaches E pick weighted s'"
| invalidate: "affinity_reaches E pick weighted s \<Longrightarrow> affinity_reaches E pick weighted (affinity_InvalidateAuth authID s)"
| cleanup: "affinity_reaches E pick weighted s \<Longrightarrow> affinity_reaches E pick weighted (s\<lparr>as_cache := cache_cleanup now (as_cache s)\<rparr>)"
| stop: "affinity_reaches E pick weighted s \<Longrightarrow> affinity_reaches E pick weighted (affinity_Stop s)"

definition takesWeights :: "(Auth \<Rightarrow> bool) \<Rightarrow> bool \<Rightarrow> bool" where
  \<comment> \<open>the credentials that the fallback takes: those of a positive weight when it is the weighted selector, else all\<close>
  "takesWeights eligible weighted \<longleftrightarrow> (\<forall>a. eligible a \<longleftrightarrow> (weighted \<longrightarrow> 0 < authWeight a))"

lemma affinity_reaches_ok:
  assumes "affinity_reaches E pick weighted s" and "selector_contract pick (af_auth E) eligible" and "takesWeights eligible weighted"
  shows "cache_reaches (as_cache s) \<and> wraps s eligible"
  using assms(1)
proof induction
  case (start fallback ttl sub)
  show ?case using assms(3) cache_reaches.start
    by (simp add: NewSessionAffinitySelector_def NewSessionCache_def Let_def wraps_def takesWeights_def)
next
  case (pick s ck provider model opts auths r md s')
  then show ?case
    using selector_contract.Pick_answers [OF assms(2), of s ck E provider model opts auths] by (auto simp: keeps_def wraps_def)
next
  case (result s clock res opts s')
  then show ?case using OnResult_released [of s E clock res opts] by (auto simp: keeps_def wraps_def)
next
  case (invalidate s authID)
  then show ?case using cache_reaches.step [OF _ cache_step.invalidate_auth [OF refl]]
    by (simp add: affinity_InvalidateAuth_def wraps_def)
next
  case (cleanup s now)
  then show ?case using cache_reaches.step [OF _ cache_step.cleanup [OF refl]] by (simp add: wraps_def)
qed (simp add: affinity_Stop_def wraps_def)

text \<open>\<open>OnResult\<close> hands an already canonical model to \<open>lcpAffinityNamespace\<close>, which canonicalizes it again: for a model with two
  suffixes the conversations it looks at are not those that \<open>Pick\<close> bound.\<close>

lemma result_namespace_differs:
  "lcpAffinityNamespace ''p'' (canonicalModelKey ''a(1)(2)'') [(CallerScopeMetadataKey, AnyString ''s'')]
     \<noteq> lcpAffinityNamespace ''p'' ''a(1)(2)'' [(CallerScopeMetadataKey, AnyString ''s'')]"
  by code_simp

text \<open>The situation of the witnesses: a request of an execution session, and a credential of a higher priority that comes later.\<close>

definition plain_gjson :: "unit Gjson" where
  "plain_gjson = \<lparr>gj_Parse = \<lambda>_. (), gj_Get = \<lambda>_ _. (), gj_Exists = \<lambda>_. False, gj_IsString = \<lambda>_. False, gj_String = \<lambda>_. [],
     gj_IsArray = \<lambda>_. False, gj_Values = \<lambda>_. []\<rparr>"

definition affinity_env :: "unit AffinityEnv" where
  "affinity_env = \<lparr>af_gjson = plain_gjson, af_matcher = \<lparr>mv_Sha256 = (\<lambda>s. s), mv_FastTurnFingerprint = (\<lambda>t. [])\<rparr>, af_auth = sample_env,
     af_ExtractCanonicalTurns = \<lambda>_ _. []\<rparr>"

definition affinity_clock :: "time \<Rightarrow> AffinityClock" where
  "affinity_clock t = \<lparr>ck_available = t, ck_refresh = t, ck_get = (t, t), ck_bind = t, ck_fallback = t, ck_match = (t, t), ck_bindMatch = (t, t)\<rparr>"

definition affinity_request :: Options where
  "affinity_request = \<lparr>op_Headers = [], op_OriginalRequest = [], op_SourceFormat = [],
     op_Metadata = Some [(ExecutionSessionMetadataKey, AnyString ''x'')]\<rparr>"

definition other_request :: Options where
  "other_request = affinity_request\<lparr>op_Metadata := Some [(ExecutionSessionMetadataKey, AnyString ''y'')]\<rparr>"

definition affinity_fallback :: "RoundRobinSelector picker" where
  "affinity_fallback = (\<lambda>s provider model now auths. RoundRobin_Pick sample_env False provider model now auths s)"

definition affinity_fresh :: "RoundRobinSelector SessionAffinitySelector" where
  "affinity_fresh = NewSessionAffinitySelector \<lparr>rr_lastPicked = [], rr_maxKeys = 0\<rparr> False 100 None"

definition affinity_used :: "RoundRobinSelector SessionAffinitySelector" where
  "affinity_used = (case affinity_Pick affinity_env (affinity_clock 5) affinity_fallback ''codex'' ''m'' affinity_request [sample_auth []] affinity_fresh of
     Some (r, md, s) \<Rightarrow> s | None \<Rightarrow> affinity_fresh)"

definition urgent :: Auth where
  "urgent = (sample_auth [])\<lparr>au_ID := ''b'', au_Attributes := [(''priority'', ''9'')]\<rparr>"


lemma affinity_sample_pick:
  "map_option fst (affinity_Pick affinity_env (affinity_clock 5) affinity_fallback ''codex'' ''m'' affinity_request [sample_auth []] affinity_fresh)
     = Some (Inr (sample_auth []))"
  by code_simp

lemma affinity_sample_open:
  "blocked sample_env ''m'' 7 (sample_auth []) = False" "blocked sample_env ''m'' 5 (sample_auth []) = False" "blocked sample_env ''m'' 5 urgent = False"
  "blocked sample_env ''m'' 7 urgent = False"
  by code_simp+

lemma affinity_sample_used:
  "\<exists>md. affinity_Pick affinity_env (affinity_clock 5) affinity_fallback ''codex'' ''m'' affinity_request [sample_auth []] affinity_fresh
     = Some (Inr (sample_auth []), md, affinity_used)"
  using affinity_sample_pick by (auto simp: affinity_used_def)

lemma affinity_sample_contract: "selector_contract affinity_fallback (af_auth affinity_env) (\<lambda>a. True)" "takesWeights (\<lambda>a. True) False"
  using rr.selector_contract_axioms [of sample_env False] by (simp_all add: affinity_fallback_def affinity_env_def takesWeights_def)

lemma affinity_sample_reached:
  "affinity_reaches affinity_env affinity_fallback False affinity_fresh" "affinity_reaches affinity_env affinity_fallback False affinity_used"
proof -
  show 1: "affinity_reaches affinity_env affinity_fallback False affinity_fresh"
    unfolding affinity_fresh_def by (rule affinity_reaches.start)
  obtain md where p: "affinity_Pick affinity_env (affinity_clock 5) affinity_fallback ''codex'' ''m'' affinity_request [sample_auth []] affinity_fresh
     = Some (Inr (sample_auth []), md, affinity_used)" using affinity_sample_used by blast
  show "affinity_reaches affinity_env affinity_fallback False affinity_used"
    by (rule affinity_reaches.pick [OF 1 _ p]) (simp add: inOrder_def affinity_clock_def)
qed

text \<open>C8: A pick is sound whatever the bindings say. With any fallback that keeps the contract of a selector, in every state a
  run reaches, a pick returns (the eviction loops of the cache end), and what it returns is a candidate that is not blocked
  for the model and that the fallback may take. Its priority is the highest of those, unless the request's own session, for
  this provider and this model, or the session it falls back to is bound to it already, or, for a request without an
  identity of its own, its conversation is: only a binding of the request itself outranks priority, never one of another
  session. If no time passes during the call, an error means that no candidate was open.\<close>

theorem affinity_pick_sound:
  assumes "selector_contract pick (af_auth E) eligible" and "takesWeights eligible weighted"
    and "affinity_reaches E pick weighted s" and "inOrder ck"
  shows "\<exists>r md s'. affinity_Pick E ck pick provider model opts auths s = Some (r, md, s')
    \<and> (case r of
         Inr a \<Rightarrow> a \<in> openAuths (af_auth E) eligible model (ck_available ck) auths
           \<and> (au_ID a \<notin> ownBound E ck provider model opts s
               \<longrightarrow> (\<forall>b \<in> openAuths (af_auth E) eligible model (ck_available ck) auths. authPriority b \<le> authPriority a))
       | Inl err \<Rightarrow> ck_fallback ck = ck_available ck \<longrightarrow> openAuths (af_auth E) eligible model (ck_available ck) auths = {})"
proof -
  obtain r md s' where "affinity_Pick E ck pick provider model opts auths s = Some (r, md, s')"
    "answers (openAuths (af_auth E) eligible model (ck_available ck) auths) (ck_fallback ck = ck_available ck) (ownBound E ck provider model opts s) r"
    using selector_contract.Pick_answers [OF assms(1) _ _ assms(4) refl, of s provider model opts auths]
      affinity_reaches_ok [OF assms(3,1,2)] by blast
  then show ?thesis by (intro exI [of _ r] exI [of _ md] exI [of _ s']) (auto simp: answers_def topOf_def split: sum.splits)
qed

text \<open>C19: The results of requests never move a session of the session cache. Recording a result returns, and afterwards an
  identifier is bound to the credential it was bound to before or to none; the fallback is not touched, and a failure that
  says nothing about the credential changes nothing. A request with an identity of its own leaves the conversations of the
  prefix matcher alone, and after any other failure of such a request its session is not bound to the credential that
  failed. Nothing is claimed of the conversations when a request carries no identity of its own.\<close>

theorem results_only_release:
  assumes "selector_contract pick (af_auth E) eligible" and "takesWeights eligible weighted" and "affinity_reaches E pick weighted s"
  shows "\<exists>s'. affinity_OnResult E clock res opts s = Some s' \<and> as_fallback s' = as_fallback s
    \<and> (\<forall>j x. boundTo (as_cache s') j = Some x \<longrightarrow> boundTo (as_cache s) j = Some x)
    \<and> (re_Error res \<noteq> None \<and> shouldSkipCredentialCooldown (af_auth E) (re_Error res) \<longrightarrow> s' = s)
    \<and> (case extractExplicitSessionIDs (af_gjson E) (op_Headers opts) (op_OriginalRequest opts) (op_Metadata opts) of ((i, f), md) \<Rightarrow>
         i \<noteq> [] \<longrightarrow> as_matcher s' = as_matcher s
           \<and> (re_AuthID res \<noteq> [] \<and> \<not> re_Success res \<and> \<not> (re_Error res \<noteq> None \<and> shouldSkipCredentialCooldown (af_auth E) (re_Error res))
                \<longrightarrow> boundTo (as_cache s') (resultKey md res i) \<noteq> Some (re_AuthID res)))"
proof -
  have c: "cache_reaches (as_cache s)" using affinity_reaches_ok [OF assms(3,1,2)] by blast
  obtain s' where s': "affinity_OnResult E clock res opts s = Some s'" "as_fallback s' = as_fallback s" "released (as_cache s) (as_cache s')"
    using OnResult_released [OF c, of E clock res opts] by blast
  obtain i f md where ids: "extractExplicitSessionIDs (af_gjson E) (op_Headers opts) (op_OriginalRequest opts) (op_Metadata opts) = ((i, f), md)"
    by (metis prod.exhaust)
  have skip: "s' = s" if "re_Error res \<noteq> None \<and> shouldSkipCredentialCooldown (af_auth E) (re_Error res)"
    using s'(1) that by (simp add: affinity_OnResult_def ids Let_def split: if_splits)
  have anonymous: "s' = s" if "re_AuthID res = []" using s'(1) that by (simp add: affinity_OnResult_def)
  have "as_matcher s' = as_matcher s \<and> boundTo (as_cache s') (resultKey md res i) \<noteq> Some (re_AuthID res)"
    if req: "i \<noteq> []" "re_AuthID res \<noteq> []" "\<not> re_Success res" "\<not> (re_Error res \<noteq> None \<and> shouldSkipCredentialCooldown (af_auth E) (re_Error res))"
  proof -
    obtain fk where fk: "affinity_OnResult E clock res opts s = map_option (\<lambda>c. s\<lparr>as_cache := c\<rparr>) (cacheResult clock (resultKey md res i) fk res (as_cache s))"
      using OnResult_explicit [OF ids req(1,2,4)] by blast
    then show ?thesis using cacheResult_released [OF c, of clock "resultKey md res i" fk res] req(2,3) s'(1) by auto
  qed
  moreover have "as_matcher s' = as_matcher s"
    if req: "i \<noteq> []" "re_AuthID res \<noteq> []" "\<not> (re_Error res \<noteq> None \<and> shouldSkipCredentialCooldown (af_auth E) (re_Error res))"
    using OnResult_explicit [OF ids req, of clock s] s'(1) by (auto dest!: sym [of "Some s'"])
  ultimately have "i \<noteq> [] \<longrightarrow> as_matcher s' = as_matcher s
      \<and> (re_AuthID res \<noteq> [] \<and> \<not> re_Success res \<and> \<not> (re_Error res \<noteq> None \<and> shouldSkipCredentialCooldown (af_auth E) (re_Error res))
           \<longrightarrow> boundTo (as_cache s') (resultKey md res i) \<noteq> Some (re_AuthID res))"
    using skip anonymous by (cases "re_AuthID res = []"; cases "re_Error res \<noteq> None \<and> shouldSkipCredentialCooldown (af_auth E) (re_Error res)") simp_all
  then show ?thesis using s' skip by (intro exI [of _ s']) (simp add: ids released_def)
qed


theorem affinity_pick_sound_witness:
  \<comment> \<open>a request of another session, in a state in which the session \<open>x\<close> is bound to the credential of the lower priority\<close>
  "\<exists>md s'. affinity_Pick affinity_env (affinity_clock 7) affinity_fallback ''codex'' ''m'' other_request [urgent, sample_auth []] affinity_used
     = Some (Inr urgent, md, s')"
proof -
  have o: "openAuths (af_auth affinity_env) (\<lambda>a. True) ''m'' (ck_available (affinity_clock 7)) [urgent, sample_auth []] = {urgent, sample_auth []}"
    using affinity_sample_open by (auto simp: openAuths_def affinity_env_def affinity_clock_def)
  have t: "inOrder (affinity_clock 7)" "ck_fallback (affinity_clock 7) = ck_available (affinity_clock 7)" by (simp_all add: inOrder_def affinity_clock_def)
  have x: "extractExplicitSessionIDs (af_gjson affinity_env) (op_Headers other_request) (op_OriginalRequest other_request)
      (Some (affinityMetadata ''codex'' ''m'' (op_Metadata other_request)))
      = ((''execution:y'', []), Some (affinityMetadata ''codex'' ''m'' (op_Metadata other_request)))" by code_simp
  have none: "live 7 (as_cache affinity_used) (''codex'' @ ''::'' @ ''execution:y'' @ ''::'' @ canonicalModelKey ''m'') = None" by code_simp
  have own: "ownBound affinity_env (affinity_clock 7) ''codex'' ''m'' other_request affinity_used = {}"
    unfolding ownBound_def Let_def x fst_conv snd_conv using none by (simp add: sessionBound_def affinity_clock_def)
  have p: "\<not> authPriority urgent \<le> authPriority (sample_auth [])" by code_simp
  obtain r md s' where run: "affinity_Pick affinity_env (affinity_clock 7) affinity_fallback ''codex'' ''m'' other_request [urgent, sample_auth []] affinity_used
      = Some (r, md, s')" and "case r of Inr a \<Rightarrow> a \<in> {urgent, sample_auth []} \<and> (au_ID a \<notin> {}
          \<longrightarrow> (\<forall>b \<in> {urgent, sample_auth []}. authPriority b \<le> authPriority a))
      | Inl err \<Rightarrow> ck_fallback (affinity_clock 7) = ck_available (affinity_clock 7) \<longrightarrow> {urgent, sample_auth []} = {}"
    using affinity_pick_sound [OF affinity_sample_contract affinity_sample_reached(2) t(1), of "''codex''" "''m''" other_request
        "[urgent, sample_auth []]", unfolded o own] by (elim exE conjE) (rule that)
  then have "r = Inr urgent" using t(2) p by (cases r) auto
  then show ?thesis using run by blast
qed


theorem results_only_release_witness:
  "\<exists>s. affinity_OnResult affinity_env (9, 9) (sample_result 429) affinity_request affinity_used = Some s
    \<and> boundTo (as_cache s) (sessionKey ''codex'' ''execution:x'' ''m'') \<noteq> Some ''a''"
proof -
  have ids: "extractExplicitSessionIDs (af_gjson affinity_env) (op_Headers affinity_request) (op_OriginalRequest affinity_request) (op_Metadata affinity_request)
      = ((''execution:x'', []), op_Metadata affinity_request)" by code_simp
  have "re_AuthID (sample_result 429) = ''a''" "\<not> re_Success (sample_result 429)"
    "\<not> (re_Error (sample_result 429) \<noteq> None \<and> shouldSkipCredentialCooldown (af_auth affinity_env) (re_Error (sample_result 429)))"
    "resultKey (op_Metadata affinity_request) (sample_result 429) ''execution:x'' = sessionKey ''codex'' ''execution:x'' ''m''" by code_simp+
  then show ?thesis
    using results_only_release [OF affinity_sample_contract affinity_sample_reached(2), of "(9, 9)" "sample_result 429" affinity_request]
    by (auto simp: ids)
qed

end
