(* ===== verification/Spec2Isabelle.thy ===== *)
theory Spec2Isabelle
  imports ThinkingValidate CooldownRecords SmoothWrr RegistryCache ExecutionProtocol ManagerSync SessionContract
    PrefixContract SessionAgreement SessionAffinityRuns
begin

text \<open>
  A verification library for CLIProxyAPI-Keeper, a proxy that serves the requests of many clients with a
  pool of upstream credentials. The library models the core logic of the proxy, the part that decides
  which credential serves a request, what a failure does to it and when it comes back. Paths below are
  relative to \<open>src/\<close>.

  \<^bold>\<open>The program.\<close> A request names a model. The name may carry a suffix that sets how much the model
  thinks (\<open>internal/thinking\<close>). The manager (\<open>sdk/cliproxy/auth\<close>) asks a selector for a credential of the
  provider that is not blocked for the model, executes the request with it and records the result
  (\<open>MarkResult\<close>): a success clears the cooldown of the model, a failure is classified and may set one, and
  the availability of the credential is aggregated again over its models. The state is projected into the
  model registry (\<open>internal/registry\<close>), which answers which models are offered and available. Cooldowns are
  persisted as records and restored at the next start.

  \<^bold>\<open>Theories.\<close>
  \<^item> \<open>Prelude\<close>, \<open>GoString\<close>, \<open>GoAny\<close>: time, 64-bit integers, Go maps as association lists with the locale
    \<open>go_dict\<close> and its interpretation, sums over maps, \<open>sort.Search\<close>; the functions of \<open>strings\<close> and \<open>strconv\<close>
    on ASCII text; dynamically typed JSON values.
  \<^item> \<open>Thinking\<close>, \<open>ThinkingValidate\<close> (\<open>internal/thinking\<close>: \<open>types.go\<close>, \<open>convert.go\<close>, \<open>suffix.go\<close>, \<open>errors.go\<close>,
    \<open>validate.go\<close>): the suffix parser, the conversion between levels and budgets and the validation of a
    thinking configuration against a model description. The lemmas show that what is validated is supported by
    the model, that clamping goes to a nearest level, and that the parser splits exactly one suffix.
  \<^item> \<open>CredentialWeight\<close>, \<open>AuthTypes\<close>, \<open>AuthData\<close> (\<open>internal/credentialweight\<close>; \<open>types.go\<close>, \<open>status.go\<close>,
    \<open>errors.go\<close>, \<open>classification.go\<close>, \<open>credential_policy.go\<close>, \<open>weight.go\<close>): the credential as a record, its
    weight, priority, kind and policies, the ring of recent requests, the expiry of its token.
  \<^item> \<open>ErrorClass\<close> (\<open>internal/clienterror\<close>, \<open>conductor_cooldown.go\<close>): which failures are the request's fault and
    which cool a credential.
  \<^item> \<open>QuotaSignals\<close> (\<open>quota_signals.go\<close>): the bounded snapshot of rate-limit headers.
  \<^item> \<open>Cooldown\<close>, \<open>Aggregate\<close>, \<open>MarkResult\<close>, \<open>CooldownRecords\<close> (\<open>conductor_cooldown.go\<close>, \<open>cooldown_state.go\<close>,
    \<open>conductor.go\<close>): the backoff ladder and the states of the models, the availability of a credential over
    them, the recording of a result on the manager's credentials, and the persisted records. The lemmas show
    that every state a result leaves blocked carries a deadline, that levels stay on the ladder, that a burst of failures
    climbs one rung only, and that a record restores the cooldown it was made from.
  \<^item> \<open>Selector\<close>, \<open>SmoothWrr\<close> (\<open>selector.go\<close>): when a credential is blocked, and the round-robin, fill-first
    and smooth weighted selectors behind the locale \<open>selector_contract\<close>, which each of them interprets. A failed result
    blocks its model until a deadline, a block ends, and neither it nor its time depends on the order of the states; the
    weighted one serves exactly in proportion to the weights over a whole cycle, and never strays far from the
    proportion inside one.
  \<^item> \<open>ModelRegistry\<close>, \<open>RegistryCounts\<close>, \<open>RegistryCache\<close> (\<open>internal/registry/model_registry.go\<close>): the reference
    counts of the models, the marks of exhausted quotas and suspensions, projections guarded by an epoch, and
    the cached listing. An inductive step relation covers the operations in every order, and the counts, the
    epochs and the coherence of the cache are invariants of its runs.
  \<^item> \<open>SchedulerShard\<close>, \<open>Scheduler\<close> (\<open>scheduler.go\<close>): the indexed scheduler. A shard holds the credentials of a
    provider for a model, those that are free in sorted lists per priority with their cursors and weights, the
    others in a list ordered by the end of their block. \<open>SchedulerIndex\<close> proves that the lists are what a fresh
    classification of the entries gives, also after entries expire; \<open>SchedulerPick\<close> and \<open>SchedulerSelect\<close> that a pick from
    them is the pick of the strategy's selector; \<open>SchedulerMixed\<close> what a pick over several providers returns;
    \<open>SchedulerInv\<close> and \<open>SchedulerRuns\<close> that every sequence of calls keeps the tables well formed; \<open>SchedulerContract\<close> and
    \<open>SchedulerOrder\<close> hold the properties of the runs.
  \<^item> \<open>ManagerMerge\<close> (\<open>metadata_keys.go\<close>, \<open>metadata_merge.go\<close>): canonical metadata keys and the three-way merge of a
    refreshed credential. \<open>ManagerLifecycle\<close> (\<open>conductor_lifecycle.go\<close>, \<open>types.go\<close>, \<open>config_apikey.go\<close>): registering, updating,
    removing, loading and persisting credentials with their epochs and generations. \<open>ManagerSync\<close>: the manager and its
    scheduler together, with the messages between them in any order. Taking a snapshot of all credentials and rebuilding the
    scheduler from it are two steps, with others in between (\<open>sy_rebuilds\<close> has the snapshots that wait). The scheduler
    converges to the manager: with no message under way it holds nothing stale or removed, and it is complete unless the
    last rebuild used a snapshot that was out of date (\<open>sy_outdated\<close>).
  \<^item> \<open>ExecutionRegistry\<close>, \<open>ExecutionLifecycle\<close>, \<open>ExecutionReleases\<close>, \<open>ExecutionProtocol\<close>
    (\<open>sdk/cliproxy/executionregistry\<close>): the executions in flight, their resources and their accounting, draining and
    closing, as steps of interleaved goroutines; invariants of the runs, the refinement to an abstract protocol of a slot,
    and that draining can always end, by the steps that finish what is in flight (\<open>finishing_run\<close>). Logs beside the state
    record the resources bound and closed, the executions released, the calls of the release sink and its replays; nothing
    reads them but the invariants.
  \<^item> \<open>SessionCache\<close>, \<open>SessionCacheInv\<close>, \<open>SessionCacheRuns\<close>, \<open>SessionContract\<close> (\<open>sdk/cliproxy/auth/session_cache.go\<close>): the
    identifiers of sessions bound to credentials. Identifiers of one session form a group, held whole, queued once and
    evicted whole; the lemmas show that every identifier of a group has the same binding, that the size stays within the
    capacity, that every method returns, and that a session moves to another credential with all its identifiers.
  \<^item> \<open>PrefixMatcher\<close>, \<open>PrefixMatcherInv\<close>, \<open>PrefixMatcherRuns\<close>, \<open>PrefixContract\<close> (\<open>sdk/cliproxy/session/lcp.go\<close>): conversations
    found again by their longest known prefix. Groups stand in a heap because several tables share them; the lemmas show
    that index, table and queue agree after every sequence of calls, that the binary search finds the longest prefix, and
    that a conversation that is bound is found. Two hypotheses are named: a fingerprint tells whether its turn is the
    system's (\<open>tells_system\<close>), and the rolling hash keeps apart the conversations that are bound (\<open>no_collision\<close>).
  \<^item> \<open>SessionIdentity\<close>, \<open>SessionExtract\<close>, \<open>SessionDerived\<close> (\<open>selector.go\<close>, \<open>home_session_alias.go\<close>,
    \<open>sdk/cliproxy/session/identity.go\<close> and \<open>info.go\<close>): which session a request belongs to, by its headers, its body, its
    metadata or a hash of its first messages, once for the selectors (\<open>extractExplicitSessionIDs\<close>) and once for the usage
    reports (\<open>ExtractSessionInfo\<close>). \<open>SessionAgreement\<close> shows that the two find the same session, parent and fork on every
    request, and that what a client sends never brings control characters or long texts into the keys.
  \<^item> \<open>SessionAffinity\<close> (\<open>selector.go\<close>): the selector that keeps a session or a conversation with its credential and leaves
    the rest to the selector it wraps, which is a parameter: \<open>SessionAffinityContract\<close> works inside \<open>selector_contract\<close>, so its
    lemmas hold for each of the three interpretations. It puts the identities, the cache and the matcher together.
    \<open>SessionAffinityRuns\<close> shows over all runs that a pick is sound and that only a binding of the request itself
    (\<open>ownBound\<close>: its session, the one it falls back to, or its conversation) outranks priority, that a
    session stays with its credential while that one is open, and that results release sessions but never move them.

  \<^bold>\<open>Conventions.\<close> A method under a lock is a function on the state the lock guards, so an interleaving of
  goroutines is a sequence of such steps. A nil pointer is \<open>None\<close>; an error return is \<open>Inl\<close>. A time is a
  number of nanoseconds with 0 for the zero time, and a 64-bit integer is an \<open>int\<close> whose wrap-around is
  written out where it can occur; the epochs and generations of credentials and registrations, which count up by one,
  are unbounded. Iterating over a map follows the order of the association list: a statement
  over all lists covers every order. A function that reads the clock several times takes one argument for each
  reading. Code outside the repository (JSON decoding, \<open>time.Parse\<close>, \<open>filepath\<close>, SHA-256, the third-party
  matcher of JSON paths, and \<open>gjson\<close>, whose results are a type parameter) is a field of an environment record; a statement that needs more than its type says
  so in its hypotheses. Text is ASCII; Unicode case folding and white space beyond ASCII are left out. The check for control
  characters in identifiers (\<open>hasControl\<close>) covers all that Unicode has.
  \<open>reflect.DeepEqual\<close> compares values, without its shortcut for two maps at the same address, which matters for a NaN only.

  \<^bold>\<open>Bounds.\<close> Loops recur on lists or by a measure, and no model uses fuel. The share theorems of \<open>SmoothWrr\<close>
  need at most a million candidates, so that the accumulators, sums of weights up to one million, stay clear
  of the saturation bounds of 64 bits.

  \<^bold>\<open>Not modelled.\<close> The translators between provider protocols, the executors, the rewriting of request
  bodies (all over third-party JSON libraries), HTTP servers, login flows, plugins, configuration files,
  storage back ends, the home cluster, and the keeper's repository and web front end: they are I/O and glue
  around the logic above. Of the manager, the table of executors, the request loop with its retries, the refresh
  queue, hooks and the opaque \<open>Storage\<close> and \<open>Runtime\<close> of a credential are left out; loading from the store is modelled
  but is not a step of the runs of \<open>ManagerSync\<close>. Of the sessions, the turns of a conversation that are read from the body
  (\<open>ExtractCanonicalTurns\<close>), the identity derived from a decoded body (\<open>Enrich\<close>, \<open>DeriveID\<close>) and the aliases kept by the
  home cluster are left out.
\<close>

end
